(* ===== verification/Prelude.thy ===== *)
theory Prelude
  imports Main "HOL-Library.Word"
begin

text \<open>
  Shared vocabulary of the development: bytes and machine integers, the
  little-endian layout that \<^verbatim>\<open>bytemuck\<close> and \<^verbatim>\<open>to_le_bytes\<close> give to integers, and
  the two views of a byte buffer that every storage component uses, reading a
  window and overwriting a window.  The lemmas are declared so that \<open>simp\<close> and
  \<open>auto\<close> carry the component proofs; \<open>layout\<close> collects the sizes of encoded
  structures and \<open>frame\<close> the facts that say what an operation leaves alone.
\<close>

unbundle bit_operations_syntax

named_theorems layout "sizes and byte positions of encoded structures"
named_theorems frame "what an operation leaves unchanged"
named_theorems word_eval "rules that evaluate word functions on numerals"

type_synonym byte = "8 word"
type_synonym u8 = "8 word"
type_synonym u16 = "16 word"
type_synonym u32 = "32 word"
type_synonym u64 = "64 word"
type_synonym i32 = "32 word"
type_synonym ('e, 'a) result = "'e + 'a"

abbreviation Ok :: "'a \<Rightarrow> ('e, 'a) result" where "Ok x \<equiv> Inr x"
abbreviation Err :: "'e \<Rightarrow> ('e, 'a) result" where "Err e \<equiv> Inl e"

abbreviation is_ok :: "('e, 'a) result \<Rightarrow> bool" where "is_ok r \<equiv> \<not> isl r"

text \<open>Checked arithmetic of \<^verbatim>\<open>usize\<close>; \<open>None\<close> is an overflow.\<close>

definition checked_mul :: "nat \<Rightarrow> nat \<Rightarrow> nat option" where
  "checked_mul a b = (if a * b < 2 ^ 64 then Some (a * b) else None)"

definition checked_add :: "nat \<Rightarrow> nat \<Rightarrow> nat option" where
  "checked_add a b = (if a + b < 2 ^ 64 then Some (a + b) else None)"

section \<open>Slices of a buffer\<close>

text \<open>\<open>window off n c\<close> is \<^verbatim>\<open>&c[off..off + n]\<close>; \<open>patch off xs c\<close> is the buffer after
  \<^verbatim>\<open>c[off..off + xs.len()].copy_from_window(xs)\<close>.  Both are used within bounds only:
  the callers check the bounds first, as the code does.\<close>

definition window :: "nat \<Rightarrow> nat \<Rightarrow> 'a list \<Rightarrow> 'a list" where
  "window off n c = take n (drop off c)"

definition patch :: "nat \<Rightarrow> 'a list \<Rightarrow> 'a list \<Rightarrow> 'a list" where
  "patch off xs c = take off c @ xs @ drop (off + length xs) c"

lemma length_window [simp]: "off + n \<le> length c \<Longrightarrow> length (window off n c) = n"
  by (simp add: window_def)

lemma length_patch [simp]: "off + length xs \<le> length c \<Longrightarrow> length (patch off xs c) = length c"
  by (simp add: patch_def)

lemma nth_window: "off + n \<le> length c \<Longrightarrow> i < n \<Longrightarrow> window off n c ! i = c ! (off + i)"
  by (simp add: window_def)

lemma nth_patch:
  "off + length xs \<le> length c \<Longrightarrow> i < length c \<Longrightarrow>
   patch off xs c ! i = (if off \<le> i \<and> i < off + length xs then xs ! (i - off) else c ! i)"
  by (auto simp: patch_def nth_append min_def)

lemma patch_Nil [simp]: "patch off [] c = c"
  by (simp add: patch_def)

lemma window_patch_same [simp]:
  "off + length xs \<le> length c \<Longrightarrow> n = length xs \<Longrightarrow> window off n (patch off xs c) = xs"
  by (simp add: window_def patch_def)

lemma window_patch_disjoint:
  "off + length xs \<le> length c \<Longrightarrow> a + n \<le> length c \<Longrightarrow> a + n \<le> off \<or> off + length xs \<le> a \<Longrightarrow>
   window a n (patch off xs c) = window a n c"
  by (rule nth_equalityI) (auto simp: nth_window nth_patch)

lemma window_eqI:
  "a + n \<le> length c \<Longrightarrow> length d = length c \<Longrightarrow> (\<And>i. a \<le> i \<Longrightarrow> i < a + n \<Longrightarrow> d ! i = c ! i) \<Longrightarrow>
   window a n d = window a n c"
  by (rule nth_equalityI) (auto simp: nth_window)

lemma patch_window_same: "off + n \<le> length c \<Longrightarrow> patch off (window off n c) c = c"
  by (rule nth_equalityI) (auto simp: nth_window nth_patch)

lemma window_window: "a + n \<le> m \<Longrightarrow> window a n (window off m c) = window (off + a) n c"
  by (simp add: window_def take_drop add.commute min_def)

lemma patch_append:
  "off + length xs + length ys \<le> length c \<Longrightarrow>
   patch (off + length xs) ys (patch off xs c) = patch off (xs @ ys) c"
  by (rule nth_equalityI) (auto simp: nth_patch nth_append)

lemma patch_snoc:
  "off + length xs < length c \<Longrightarrow>
   (patch off xs c)[off + length xs := b] = patch off (xs @ [b]) c"
  by (rule nth_equalityI) (auto simp: nth_patch nth_append nth_list_update)

lemma window_all: "n = length c \<Longrightarrow> window 0 n c = c"
  by (simp add: window_def)

lemma window_append_left: "n \<le> length xs \<Longrightarrow> window 0 n (xs @ ys) = take n xs"
  by (simp add: window_def)

text \<open>Adjacent windows join; a window of a concatenation is a window of one part.\<close>

lemma window_join: "b = a + n \<Longrightarrow> window a n c @ window b m c = window a (n + m) c"
  by (simp add: window_def take_add) (simp add: add.commute)

lemma window_Cons_join: "a < length c \<Longrightarrow> b = Suc a \<Longrightarrow> c ! a # window b n c = window a (Suc n) c"
  by (simp add: window_def Cons_nth_drop_Suc [symmetric])

lemma window_Cons_skip: "0 < a \<Longrightarrow> window a n (x # xs) = window (a - 1) n xs"
  by (cases a) (simp_all add: window_def)

lemma window_append_skip: "length xs \<le> a \<Longrightarrow> window a n (xs @ ys) = window (a - length xs) n ys"
  by (simp add: window_def)

lemma window_append_here: "n = length xs \<Longrightarrow> window 0 n (xs @ ys) = xs"
  by (simp add: window_def)

section \<open>Little-endian integers\<close>

text \<open>\<open>to_le n x\<close> is \<^verbatim>\<open>x.to_le_bytes()\<close> of an \<open>n\<close>-byte integer and \<open>of_le\<close> is
  \<^verbatim>\<open>from_le_bytes\<close>.  The repr(C) structures of the program are read and written in
  native order, which is little-endian on every supported target.\<close>

definition to_le :: "nat \<Rightarrow> 'a::len word \<Rightarrow> byte list" where
  "to_le n x = map (\<lambda>i. ucast (drop_bit (8 * i) x)) [0..<n]"

primrec of_le :: "byte list \<Rightarrow> 'a::len word" where
  "of_le [] = 0"
| "of_le (b # bs) = ucast b OR push_bit 8 (of_le bs)"

abbreviation le16 :: "16 word \<Rightarrow> byte list" where "le16 \<equiv> to_le 2"
abbreviation le32 :: "32 word \<Rightarrow> byte list" where "le32 \<equiv> to_le 4"
abbreviation le64 :: "64 word \<Rightarrow> byte list" where "le64 \<equiv> to_le 8"

lemma length_to_le [simp, layout]: "length (to_le n x) = n"
  by (simp add: to_le_def)

lemma bit_of_le:
  "bit (of_le bs :: 'a::len word) k \<longleftrightarrow>
     k < LENGTH('a) \<and> k < 8 * length bs \<and> bit (bs ! (k div 8)) (k mod 8)"
proof (induction bs arbitrary: k)
  case Nil
  then show ?case by simp
next
  case (Cons b bs)
  show ?case
  proof (cases "k < 8")
    case True
    then show ?thesis
      by (auto simp: bit_or_iff bit_push_bit_iff bit_ucast_iff)
  next
    case False
    then obtain j where k: "k = j + 8" by (metis add.commute le_Suc_ex not_less)
    have "\<not> bit b k" using False bit_imp_le_length [of b k] by auto
    moreover have "(j + 8) div 8 = Suc (j div 8)" by simp
    ultimately show ?thesis
      by (auto simp: bit_or_iff bit_push_bit_iff bit_ucast_iff Cons k)
  qed
qed

lemma of_le_to_le:
  fixes x :: "'a::len word"
  assumes "LENGTH('a) \<le> 8 * n"
  shows "of_le (to_le n x) = x"
proof (rule bit_word_eqI)
  fix k assume k: "k < LENGTH('a)"
  with assms have "k div 8 < n" by linarith
  then show "bit (of_le (to_le n x) :: 'a word) k \<longleftrightarrow> bit x k"
    using k assms by (auto simp: bit_of_le to_le_def bit_ucast_iff bit_drop_bit_eq)
qed

lemma to_le_of_le:
  assumes "length bs = n" "8 * n \<le> LENGTH('a::len)"
  shows "to_le n (of_le bs :: 'a word) = bs"
proof (rule nth_equalityI)
  fix i assume i: "i < length (to_le n (of_le bs :: 'a word))"
  show "to_le n (of_le bs :: 'a word) ! i = bs ! i"
  proof (rule bit_word_eqI)
    fix j assume j: "j < LENGTH(8)"
    then have "(8 * i + j) div 8 = i" "(8 * i + j) mod 8 = j" by auto
    then show "bit (to_le n (of_le bs :: 'a word) ! i) j = bit (bs ! i) j"
      using i j assms by (auto simp: bit_of_le to_le_def bit_ucast_iff bit_drop_bit_eq)
  qed
qed (use assms in simp)

lemma of_le_le16 [simp]: "of_le (le16 x) = x" by (rule of_le_to_le) simp
lemma of_le_le32 [simp]: "of_le (le32 x) = x" by (rule of_le_to_le) simp
lemma of_le_le64 [simp]: "of_le (le64 x) = x" by (rule of_le_to_le) simp

lemma to_le_inject:
  fixes x y :: "'a::len word"
  assumes "LENGTH('a) \<le> 8 * n"
  shows "to_le n x = to_le n y \<longleftrightarrow> x = y"
  using assms by (metis of_le_to_le)

lemma le32_inject [simp]: "le32 x = le32 y \<longleftrightarrow> x = y" by (rule to_le_inject) simp
lemma le64_inject [simp]: "le64 x = le64 y \<longleftrightarrow> x = y" by (rule to_le_inject) simp
lemma le16_inject [simp]: "le16 x = le16 y \<longleftrightarrow> x = y" by (rule to_le_inject) simp

lemma to_le_eval [word_eval]:
  "le16 x = [ucast x, ucast (drop_bit 8 x)]"
  "le32 y = [ucast y, ucast (drop_bit 8 y), ucast (drop_bit 16 y), ucast (drop_bit 24 y)]"
  "le64 z = [ucast z, ucast (drop_bit 8 z), ucast (drop_bit 16 z), ucast (drop_bit 24 z),
     ucast (drop_bit 32 z), ucast (drop_bit 40 z), ucast (drop_bit 48 z), ucast (drop_bit 56 z)]"
  by (simp_all add: to_le_def upt_rec)

lemma replicate_eval [word_eval]: "replicate (numeral n) x = x # replicate (pred_numeral n) x"
  by (simp add: numeral_eq_Suc)

end
