(* ===== verification/Files.thy ===== *)
theory Files
  imports Prelude
begin

text \<open>
  Files of the operating system as the engine uses them: the bytes, the cursor, and the
  order in which writes and sync barriers were issued.  The log of operations says which
  images a power cut can leave: what was written before the last completed barrier is
  there, and every byte written after it may or may not be.
\<close>

section \<open>Writing at a position\<close>

text \<open>Writing past the end fills the gap with zeros.\<close>

definition file_write :: "nat \<Rightarrow> byte list \<Rightarrow> byte list \<Rightarrow> byte list" where
  "file_write offset data contents =
    (if data = [] then contents
     else patch offset data (contents @ replicate (offset + length data - length contents) 0))"

lemma window_append_inside: "off + n \<le> length xs \<Longrightarrow> window off n (xs @ ys) = window off n xs"
  by (simp add: window_def)

lemma length_file_write [simp]:
  "data \<noteq> [] \<Longrightarrow> length (file_write off data bs) = max (length bs) (off + length data)"
  by (simp add: file_write_def)

lemma file_write_take: "4096 \<le> off \<Longrightarrow> 4096 \<le> length bs \<Longrightarrow> take 4096 (file_write off data bs) = take 4096 bs"
  by (auto simp: file_write_def patch_def)

lemma file_write_read: "window off (length data) (file_write off data bs) = data"
  by (auto simp: file_write_def window_def patch_def)

text \<open>A range apart from the one written keeps its bytes; what was past the end reads as zeros.\<close>

lemma window_patch_apart:
  assumes "off + length data \<le> length c" "off + length data \<le> a \<or> a + n \<le> off"
  shows "window a n (patch off data c) = window a n c"
  using assms(2)
proof
  assume a: "off + length data \<le> a"
  have l: "length (take off c) = off" using assms(1) by simp
  have "drop a (patch off data c) = drop (a - off - length data) (drop (off + length data) c)"
    using a l by (simp add: patch_def)
  also have "\<dots> = drop a c" using a by simp
  finally show ?thesis by (simp only: window_def)
next
  assume a: "a + n \<le> off"
  moreover have "length (take off c) = off" using assms(1) by simp
  ultimately have "window a n (patch off data c) = window a n (take off c)"
    by (simp only: patch_def window_append_inside)
  also have "\<dots> = window a n c" using a by (simp add: window_def drop_take min_def)
  finally show ?thesis .
qed

lemma window_zeros: "\<exists>k. window a n (bs @ replicate z 0) = window a n bs @ replicate k 0"
  by (intro exI [of _ "min (n - (length bs - a)) (z - (a - length bs))"]) (simp add: window_def)

lemma file_write_other:
  assumes "off + length data \<le> a \<or> a + n \<le> off"
  shows "\<exists>k. window a n (file_write off data bs) = window a n bs @ replicate k 0"
proof (cases "data = []")
  case True
  then show ?thesis by (intro exI [of _ 0]) (simp add: file_write_def)
next
  case False
  let ?bs = "bs @ replicate (off + length data - length bs) 0"
  have "window a n (file_write off data bs) = window a n ?bs"
    using False assms window_patch_apart [of off data ?bs a n] by (simp add: file_write_def)
  then show ?thesis using window_zeros [of a n bs] by simp
qed


section \<open>Open files\<close>

datatype disk_op = DWrite nat "byte list" | DSync | DSetLen nat

record disk_file =
  df_bytes :: "byte list"
  df_pos :: nat
  df_log :: "disk_op list"

definition set_length :: "nat \<Rightarrow> byte list \<Rightarrow> byte list" where
  "set_length n bs = take n bs @ replicate (n - length bs) 0"

primrec apply_op :: "disk_op \<Rightarrow> byte list \<Rightarrow> byte list" where
  "apply_op (DWrite p bs) c = file_write p bs c"
| "apply_op DSync c = c"
| "apply_op (DSetLen n) c = set_length n c"

definition disk_op_run :: "disk_op \<Rightarrow> disk_file \<Rightarrow> disk_file" where
  "disk_op_run op f = f\<lparr> df_bytes := apply_op op (df_bytes f), df_log := df_log f @ [op] \<rparr>"

definition write_all :: "byte list \<Rightarrow> disk_file \<Rightarrow> disk_file" where
  "write_all bs f = (disk_op_run (DWrite (df_pos f) bs) f)\<lparr> df_pos := df_pos f + length bs \<rparr>"

definition sync_file :: "disk_file \<Rightarrow> disk_file" where
  "sync_file = disk_op_run DSync"

definition set_len :: "nat \<Rightarrow> disk_file \<Rightarrow> disk_file" where
  "set_len n = disk_op_run (DSetLen n)"

definition seek_start :: "nat \<Rightarrow> disk_file \<Rightarrow> disk_file" where
  "seek_start n f = f\<lparr> df_pos := n \<rparr>"

definition seek_end :: "disk_file \<Rightarrow> disk_file" where
  "seek_end f = f\<lparr> df_pos := length (df_bytes f) \<rparr>"

text \<open>A short read consumes what there is and fails.\<close>

definition read_exact :: "nat \<Rightarrow> disk_file \<Rightarrow> byte list option \<times> disk_file" where
  "read_exact n f =
    (if df_pos f + n \<le> length (df_bytes f) then (Some (window (df_pos f) n (df_bytes f)), f\<lparr> df_pos := df_pos f + n \<rparr>)
     else (None, f\<lparr> df_pos := max (df_pos f) (length (df_bytes f)) \<rparr>))"

section \<open>Power cuts\<close>

primrec touches :: "disk_op \<Rightarrow> nat \<Rightarrow> bool" where
  "touches (DWrite p bs) i \<longleftrightarrow> p \<le> i \<and> i < p + length bs"
| "touches DSync i \<longleftrightarrow> False"
| "touches (DSetLen n) i \<longleftrightarrow> n \<le> i"

text \<open>\<open>torn ops c c'\<close>: some of the bytes that \<open>ops\<close> write have reached \<open>c\<close>, in any combination
  and with any value in between; no other byte has changed.\<close>

definition torn :: "disk_op list \<Rightarrow> byte list \<Rightarrow> byte list \<Rightarrow> bool" where
  "torn ops c c' \<longleftrightarrow>
    (\<forall>i < length c. (\<forall>op \<in> set ops. \<not> touches op i) \<longrightarrow> i < length c' \<and> c' ! i = c ! i) \<and>
    (\<forall>i < length c'. i < length c \<or> (\<exists>op \<in> set ops. touches op i))"

text \<open>\<open>crash_image c ops c'\<close>: power fails while \<open>ops\<close> are carried out on \<open>c\<close>, after the barriers of a
  prefix and within the writes that follow.\<close>

definition crash_image :: "byte list \<Rightarrow> disk_op list \<Rightarrow> byte list \<Rightarrow> bool" where
  "crash_image c ops c' \<longleftrightarrow>
    (\<exists>synced pending rest. ops = synced @ pending @ rest \<and> (synced = [] \<or> last synced = DSync) \<and>
       DSync \<notin> set pending \<and> torn pending (fold apply_op synced c) c')"

lemma torn_Nil [simp]: "torn [] c c' \<longleftrightarrow> c' = c"
  by (auto simp: torn_def intro!: nth_equalityI) (metis linorder_neqE_nat less_irrefl)+

lemma torn_mono: "torn ops c c' \<Longrightarrow> set ops \<subseteq> set ops' \<Longrightarrow> torn ops' c c'"
  unfolding torn_def by (meson in_mono)

text \<open>A window that no operation touches survives.\<close>

lemma torn_window:
  assumes "torn ops c c'" "a + n \<le> length c" "0 < n" "\<And>op i. op \<in> set ops \<Longrightarrow> a \<le> i \<Longrightarrow> i < a + n \<Longrightarrow> \<not> touches op i"
  shows "a + n \<le> length c'" "window a n c' = window a n c"
proof -
  have i: "i < length c' \<and> c' ! i = c ! i" if "a \<le> i" "i < a + n" for i
    using assms that unfolding torn_def by (metis less_le_trans)
  have "a \<le> a + n - 1" "a + n - 1 < a + n" using assms(3) by simp_all
  from i [OF this] assms(3) show l: "a + n \<le> length c'" by linarith
  show "window a n c' = window a n c"
    using l i assms(2) by (intro nth_equalityI) (simp_all add: nth_window)
qed

text \<open>What a cut leaves of operations up to a barrier, and after it.\<close>

lemma crash_image_Nil: "crash_image c [] c' \<Longrightarrow> c' = c"
  by (auto simp: crash_image_def)

lemma crash_image_barrier:
  assumes "crash_image c (ws @ DSync # ops) c'" "DSync \<notin> set ws"
  shows "torn ws c c' \<or> crash_image (fold apply_op ws c) ops c'"
proof -
  from assms(1) obtain synced pending rest where s: "ws @ DSync # ops = synced @ pending @ rest"
    "synced = [] \<or> last synced = DSync" "DSync \<notin> set pending" "torn pending (fold apply_op synced c) c'"
    unfolding crash_image_def by blast
  show ?thesis
  proof (cases "synced = []")
    case True
    with s(1) have "ws @ DSync # ops = pending @ rest" by simp
    then obtain us where "ws = pending @ us \<or> pending = ws @ us \<and> us @ rest = DSync # ops"
      by (metis append_eq_append_conv2)
    with s(3) have "set pending \<subseteq> set ws" by (cases us) auto
    with s(4) True show ?thesis by (auto intro: torn_mono)
  next
    case False
    with s(2) have d: "DSync \<in> set synced" by (metis last_in_set)
    from s(1) obtain us where "ws = synced @ us \<or> synced = ws @ us \<and> us @ pending @ rest = DSync # ops"
      by (metis append_eq_append_conv2)
    with d assms(2) have us: "synced = ws @ us" "us @ pending @ rest = DSync # ops" by auto
    with d assms(2) obtain s' where s': "us = DSync # s'" "ops = s' @ pending @ rest" by (cases us) auto
    have "s' = [] \<or> last s' = DSync" using s(2) False us(1) s'(1) by (auto split: if_splits)
    moreover have "fold apply_op synced c = fold apply_op s' (fold apply_op ws c)" using us(1) s'(1) by simp
    ultimately show ?thesis using s(3,4) s'(2) unfolding crash_image_def by metis
  qed
qed

section \<open>The log\<close>

lemma write_all_simps [simp]:
  "df_bytes (write_all bs f) = file_write (df_pos f) bs (df_bytes f)"
  "df_pos (write_all bs f) = df_pos f + length bs"
  "df_log (write_all bs f) = df_log f @ [DWrite (df_pos f) bs]"
  by (simp_all add: write_all_def disk_op_run_def)

lemma sync_file_simps [simp]:
  "df_bytes (sync_file f) = df_bytes f" "df_pos (sync_file f) = df_pos f" "df_log (sync_file f) = df_log f @ [DSync]"
  by (simp_all add: sync_file_def disk_op_run_def)

lemma set_len_simps [simp]:
  "df_bytes (set_len n f) = set_length n (df_bytes f)" "df_pos (set_len n f) = df_pos f"
  "df_log (set_len n f) = df_log f @ [DSetLen n]"
  by (simp_all add: set_len_def disk_op_run_def)

lemma seek_simps [simp]:
  "df_bytes (seek_start n f) = df_bytes f" "df_pos (seek_start n f) = n" "df_log (seek_start n f) = df_log f"
  "df_bytes (seek_end f) = df_bytes f" "df_pos (seek_end f) = length (df_bytes f)" "df_log (seek_end f) = df_log f"
  by (simp_all add: seek_start_def seek_end_def)

lemma read_exact_frame [simp]:
  "df_bytes (snd (read_exact n f)) = df_bytes f" "df_log (snd (read_exact n f)) = df_log f"
  by (simp_all add: read_exact_def)

lemma file_write_end: "file_write (length c) bs c = c @ bs"
  by (simp add: file_write_def patch_def)

lemma file_write_inside: "p + length bs \<le> length c \<Longrightarrow> file_write p bs c = patch p bs c"
  by (simp add: file_write_def)

end
