(* ===== verification/Edge_Crc.thy ===== *)
theory Edge_Crc
  imports Prelude
begin

text \<open>
  The checksums of \<^verbatim>\<open>crates/s3a-edge/src/crc.rs\<close>: table-driven CRC32C
  (Castagnoli) and bitwise CRC16-CCITT.  The table is the one \<^verbatim>\<open>make_crc32c_table\<close>
  computes.  Proved: the table-driven byte step is eight steps of the shift
  register, \<^verbatim>\<open>crc32c_append\<close> continues a checksum exactly, and both checksums
  tell apart any two messages of equal length that differ only in a window of four
  (CRC32C) or two (CRC16) consecutive bytes.
\<close>

section \<open>CRC32C\<close>

definition CRC32C_POLYNOMIAL :: u32 where
  "CRC32C_POLYNOMIAL = 0x82F63B78"

text \<open>One round of the inner loop of \<^verbatim>\<open>make_crc32c_table\<close>.\<close>

definition crc32c_shift :: "u32 \<Rightarrow> u32" where
  "crc32c_shift crc =
     (if crc AND 1 \<noteq> 0 then drop_bit 1 crc XOR CRC32C_POLYNOMIAL else drop_bit 1 crc)"

primrec crc32c_shifts :: "nat \<Rightarrow> u32 \<Rightarrow> u32" where
  "crc32c_shifts 0 crc = crc"
| "crc32c_shifts (Suc j) crc = crc32c_shifts j (crc32c_shift crc)"

definition make_crc32c_table :: "u32 list" where
  "make_crc32c_table = map (\<lambda>i. crc32c_shifts 8 (of_nat i)) [0..<256]"

definition CRC32C_TABLE :: "u32 list" where
  "CRC32C_TABLE = make_crc32c_table"

definition crc32c_step :: "byte \<Rightarrow> u32 \<Rightarrow> u32" where
  "crc32c_step b crc =
     (let idx = unat ((crc XOR ucast b) AND 0xFF)
      in drop_bit 8 crc XOR CRC32C_TABLE ! idx)"

definition crc32c :: "byte list \<Rightarrow> u32" where
  "crc32c data = NOT (fold crc32c_step data (NOT 0))"

definition crc32c_append :: "u32 \<Rightarrow> byte list \<Rightarrow> u32" where
  "crc32c_append crc data = NOT (fold crc32c_step data (NOT crc))"

section \<open>CRC16\<close>

definition crc16_shift :: "u16 \<Rightarrow> u16" where
  "crc16_shift crc =
     (if crc AND 0x8000 \<noteq> 0 then push_bit 1 crc XOR 0x1021 else push_bit 1 crc)"

primrec crc16_shifts :: "nat \<Rightarrow> u16 \<Rightarrow> u16" where
  "crc16_shifts 0 crc = crc"
| "crc16_shifts (Suc j) crc = crc16_shifts j (crc16_shift crc)"

definition crc16_step :: "byte \<Rightarrow> u16 \<Rightarrow> u16" where
  "crc16_step b crc = crc16_shifts 8 (crc XOR push_bit 8 (ucast b))"

definition crc16_ccitt :: "byte list \<Rightarrow> u16" where
  "crc16_ccitt data = fold crc16_step data 0xFFFF"

section \<open>The CRC32C shift register is linear and injective\<close>

lemma bit_crc32c_shift:
  "bit (crc32c_shift x) k \<longleftrightarrow>
     k < 32 \<and> (bit x (Suc k) \<noteq> (bit x 0 \<and> bit CRC32C_POLYNOMIAL k))"
proof -
  have "x AND 1 \<noteq> 0 \<longleftrightarrow> bit x 0" by (simp add: and_one_eq odd_iff_mod_2_eq_one [symmetric] bit_0)
  moreover have "bit x (Suc k) \<Longrightarrow> k < 32" using bit_imp_le_length [of x "Suc k"] by simp
  moreover have "bit CRC32C_POLYNOMIAL k \<Longrightarrow> k < 32"
    using bit_imp_le_length [of CRC32C_POLYNOMIAL k] by simp
  ultimately show ?thesis
    by (auto simp: crc32c_shift_def bit_drop_bit_eq bit_xor_iff)
qed

lemma crc32c_shift_xor: "crc32c_shift (x XOR y) = crc32c_shift x XOR crc32c_shift y"
  by (rule bit_eqI) (auto simp: bit_crc32c_shift bit_xor_iff)

lemma crc32c_shifts_xor:
  "crc32c_shifts n (x XOR y) = crc32c_shifts n x XOR crc32c_shifts n y"
  by (induction n arbitrary: x y) (simp_all add: crc32c_shift_xor)

lemma crc32c_shift_eq_0: "crc32c_shift x = 0 \<longleftrightarrow> x = 0"
proof
  assume z: "crc32c_shift x = 0"
  have top: "bit CRC32C_POLYNOMIAL 31" by (simp add: CRC32C_POLYNOMIAL_def)
  have "\<not> bit x 32" using bit_imp_le_length [of x 32] by auto
  then have z0: "\<not> bit x 0"
    using top z bit_crc32c_shift [of x 31] by simp
  show "x = 0"
  proof (rule bit_word_eqI)
    fix k assume "k < LENGTH(32)"
    then show "bit x k = bit 0 k"
      using z z0 bit_crc32c_shift [of x "k - 1"] by (cases k) auto
  qed
qed (simp add: crc32c_shift_def)

lemma crc32c_shifts_eq_0: "crc32c_shifts n x = 0 \<longleftrightarrow> x = 0"
  by (induction n arbitrary: x) (simp_all add: crc32c_shift_eq_0)

lemma word_xor_eq_0_iff: "(x :: 'a::len word) XOR y = 0 \<longleftrightarrow> x = y"
  by (metis word_bw_same(3) xor.left_neutral xor.assoc)

lemma xor_left_cancel_word: "(c :: 'a::len word) XOR x = c XOR y \<longleftrightarrow> x = y"
  by (metis word_bw_same(3) xor.left_neutral xor.assoc)

lemma xor_right_cancel_word: "(x :: 'a::len word) XOR c = y XOR c \<longleftrightarrow> x = y"
  by (simp add: xor.commute [of _ c] xor_left_cancel_word)

lemma crc32c_shifts_inject: "crc32c_shifts n x = crc32c_shifts n y \<longleftrightarrow> x = y"
  using crc32c_shifts_eq_0 [of n "x XOR y"]
  by (simp add: crc32c_shifts_xor word_xor_eq_0_iff)

lemma crc32c_shifts_add: "crc32c_shifts (m + n) x = crc32c_shifts n (crc32c_shifts m x)"
  by (induction m arbitrary: x) simp_all

text \<open>Without feedback: a word whose low \<open>n\<close> bits are clear is only shifted.\<close>

lemma crc32c_shifts_clear:
  "(\<And>k. k < n \<Longrightarrow> \<not> bit x k) \<Longrightarrow> crc32c_shifts n x = drop_bit n x"
proof (induction n arbitrary: x)
  case (Suc n)
  have "\<not> bit x 0" using Suc.prems by simp
  then have s: "crc32c_shift x = drop_bit 1 x"
    by (simp add: crc32c_shift_def and_one_eq bit_0 even_iff_mod_2_eq_zero)
  have "crc32c_shifts n (drop_bit 1 x) = drop_bit n (drop_bit 1 x)"
    by (rule Suc.IH) (simp add: bit_drop_bit_eq Suc.prems)
  then show ?case by (simp add: s)
qed simp

text \<open>The table-driven byte step is eight rounds of the shift register.\<close>

lemma CRC32C_TABLE_nth: "i < 256 \<Longrightarrow> CRC32C_TABLE ! i = crc32c_shifts 8 (of_nat i)"
  by (simp add: CRC32C_TABLE_def make_crc32c_table_def)

lemma low_byte_nat: "unat (x AND 0xFF :: u32) < 256"
proof -
  have "x AND 0xFF \<le> 0xFF" by (rule word_and_le1)
  then show ?thesis by (simp add: word_le_nat_alt)
qed

lemma crc32c_step_shifts: "crc32c_step b crc = crc32c_shifts 8 (crc XOR ucast b)"
proof -
  let ?x = "crc XOR ucast b :: u32"
  have m: "(0xFF :: u32) = mask 8" by (simp add: mask_eq_exp_minus_1)
  have x: "?x = (?x AND NOT (mask 8)) XOR (?x AND mask 8)"
    by (rule bit_word_eqI) (auto simp: bit_xor_iff bit_and_iff bit_not_iff)
  have hi: "crc32c_shifts 8 (?x AND NOT (mask 8)) = drop_bit 8 (?x AND NOT (mask 8))"
    by (rule crc32c_shifts_clear) (auto simp: bit_and_iff bit_not_iff bit_mask_iff)
  have b: "\<not> bit b (8 + k)" for k using bit_imp_le_length [of b "8 + k"] by auto
  have "drop_bit 8 (?x AND NOT (mask 8)) = drop_bit 8 crc"
    by (rule bit_word_eqI)
       (auto simp: bit_drop_bit_eq bit_and_iff bit_not_iff bit_xor_iff bit_ucast_iff bit_mask_iff b
             dest: bit_imp_le_length)
  with hi have "crc32c_shifts 8 ?x = drop_bit 8 crc XOR crc32c_shifts 8 (?x AND mask 8)"
    by (subst x) (simp only: crc32c_shifts_xor)
  moreover have "CRC32C_TABLE ! unat (?x AND mask 8) = crc32c_shifts 8 (?x AND mask 8)"
    using low_byte_nat [of ?x] by (simp add: CRC32C_TABLE_nth m)
  ultimately show ?thesis by (simp only: crc32c_step_def Let_def m)
qed

lemma crc32c_step_inject: "crc32c_step b x = crc32c_step b y \<longleftrightarrow> x = y"
  by (simp add: crc32c_step_shifts crc32c_shifts_inject xor_right_cancel_word)

lemma crc32c_fold_inject: "fold crc32c_step bs x = fold crc32c_step bs y \<longleftrightarrow> x = y"
  by (induction bs arbitrary: x y) (simp_all add: crc32c_step_inject)

text \<open>Up to four bytes enter the register as one little-endian word.\<close>

lemma of_le_Cons_xor:
  "of_le (b # bs) = (ucast b XOR push_bit 8 (of_le bs) :: 'a::len word)"
proof (rule bit_word_eqI)
  fix k assume "k < LENGTH('a)"
  have "bit b k \<Longrightarrow> k < 8" using bit_imp_le_length [of b k] by simp
  then show "bit (of_le (b # bs) :: 'a word) k = bit (ucast b XOR push_bit 8 (of_le bs) :: 'a word) k"
    by (auto simp: bit_or_iff bit_xor_iff bit_push_bit_iff bit_ucast_iff)
qed

lemma crc32c_fold_word:
  "length bs \<le> 4 \<Longrightarrow> fold crc32c_step bs crc = crc32c_shifts (8 * length bs) (crc XOR of_le bs)"
proof (induction bs arbitrary: crc)
  case (Cons b bs)
  have small: "\<not> bit (of_le bs :: u32) k" if "24 \<le> k" for k
    using Cons.prems that by (auto simp: bit_of_le)
  have "drop_bit 8 (push_bit 8 (of_le bs) :: u32) = of_le bs"
    by (rule bit_word_eqI) (use small not_le in \<open>auto simp: bit_drop_bit_eq bit_push_bit_iff\<close>)
  then have tail: "crc32c_shifts 8 (push_bit 8 (of_le bs)) = of_le bs"
    by (subst crc32c_shifts_clear) (auto simp: bit_push_bit_iff)
  have "fold crc32c_step (b # bs) crc = crc32c_shifts (8 * length bs) (crc32c_step b crc XOR of_le bs)"
    using Cons by simp
  also have "\<dots> = crc32c_shifts (8 * length bs) (crc32c_shifts 8 (crc XOR ucast b) XOR of_le bs)"
    by (simp only: crc32c_step_shifts)
  also have "\<dots> = crc32c_shifts (8 * length bs) (crc32c_shifts 8 (crc XOR of_le (b # bs)))"
    by (simp only: of_le_Cons_xor xor.assoc [symmetric] crc32c_shifts_xor tail)
  finally show ?case by (simp add: crc32c_shifts_add [symmetric] del: of_le.simps)
qed simp

lemma crc32c_window_inject:
  assumes "length xs = length ys" "length xs \<le> 4"
  shows "fold crc32c_step xs crc = fold crc32c_step ys crc \<longleftrightarrow> xs = ys"
proof
  assume "fold crc32c_step xs crc = fold crc32c_step ys crc"
  then have "(of_le xs :: u32) = of_le ys"
    using assms by (simp add: crc32c_fold_word crc32c_shifts_inject xor_left_cancel_word)
  moreover have "to_le (length xs) (of_le xs :: u32) = xs" "to_le (length xs) (of_le ys :: u32) = ys"
    using assms by (simp_all add: to_le_of_le)
  ultimately show "xs = ys" by metis
qed simp

section \<open>Properties of CRC32C\<close>

lemma crc32c_append_eq: "crc32c_append (crc32c xs) ys = crc32c (xs @ ys)"
  by (simp add: crc32c_append_def crc32c_def)

lemma crc32c_burst:
  assumes "length xs = length ys" "length xs \<le> 4"
  shows "crc32c (pre @ xs @ post) = crc32c (pre @ ys @ post) \<longleftrightarrow> xs = ys"
  using crc32c_window_inject [OF assms]
  by (simp add: crc32c_def crc32c_fold_inject)

section \<open>CRC16 is linear and injective too\<close>

lemma bit_crc16_shift:
  "bit (crc16_shift x) k \<longleftrightarrow>
     k < 16 \<and> ((0 < k \<and> bit x (k - 1)) \<noteq> (bit x 15 \<and> bit (0x1021 :: u16) k))"
proof -
  have "x AND 0x8000 \<noteq> 0 \<longleftrightarrow> bit x 15"
    using and_exp_eq_0_iff_not_bit [of x 15] by simp
  moreover have "bit (0x1021 :: u16) k \<Longrightarrow> k < 16" using bit_imp_le_length [of "0x1021 :: u16" k] by simp
  moreover have "bit (push_bit 1 x) k \<longleftrightarrow> k < 16 \<and> 0 < k \<and> bit x (k - 1)"
    by (auto simp only: bit_push_bit_iff len_num1 len_bit0 len_num0) (auto dest: bit_imp_le_length)
  ultimately show ?thesis
    unfolding crc16_shift_def by (auto simp only: bit_xor_iff split: if_splits)
qed

lemma crc16_shift_xor: "crc16_shift (x XOR y) = crc16_shift x XOR crc16_shift y"
  by (rule bit_eqI) (auto simp: bit_crc16_shift bit_xor_iff)

lemma crc16_shifts_xor: "crc16_shifts n (x XOR y) = crc16_shifts n x XOR crc16_shifts n y"
  by (induction n arbitrary: x y) (simp_all add: crc16_shift_xor)

lemma crc16_shift_eq_0: "crc16_shift x = 0 \<longleftrightarrow> x = 0"
proof
  assume z: "crc16_shift x = 0"
  have "bit (0x1021 :: u16) 0" by simp
  then have z15: "\<not> bit x 15" using z bit_crc16_shift [of x 0] by simp
  show "x = 0"
  proof (rule bit_word_eqI)
    fix k assume "k < LENGTH(16)"
    then show "bit x k = bit 0 k"
      using z z15 bit_crc16_shift [of x "Suc k"] by (cases "k = 15") auto
  qed
qed (simp add: crc16_shift_def)

lemma crc16_shifts_eq_0: "crc16_shifts n x = 0 \<longleftrightarrow> x = 0"
  by (induction n arbitrary: x) (simp_all add: crc16_shift_eq_0)

lemma crc16_shifts_inject: "crc16_shifts n x = crc16_shifts n y \<longleftrightarrow> x = y"
  using crc16_shifts_eq_0 [of n "x XOR y"]
  by (simp add: crc16_shifts_xor word_xor_eq_0_iff)

lemma crc16_shifts_add: "crc16_shifts (m + n) x = crc16_shifts n (crc16_shifts m x)"
  by (induction m arbitrary: x) simp_all

lemma crc16_step_inject: "crc16_step b x = crc16_step b y \<longleftrightarrow> x = y"
  by (simp add: crc16_step_def crc16_shifts_inject xor_right_cancel_word)

lemma crc16_fold_inject: "fold crc16_step bs x = fold crc16_step bs y \<longleftrightarrow> x = y"
  by (induction bs arbitrary: x y) (simp_all add: crc16_step_inject)

lemma crc16_byte_inject: "crc16_step a x = crc16_step b x \<longleftrightarrow> a = b"
proof -
  have "push_bit 8 (ucast a :: u16) = push_bit 8 (ucast b) \<longleftrightarrow> a = b"
  proof
    assume "push_bit 8 (ucast a :: u16) = push_bit 8 (ucast b)"
    then have "bit (push_bit 8 (ucast a :: u16)) (k + 8) = bit (push_bit 8 (ucast b :: u16)) (k + 8)" for k
      by simp
    note eq = this
    show "a = b"
    proof (rule bit_word_eqI)
      fix k assume "k < LENGTH(8)"
      then show "bit a k = bit b k"
        using eq [of k] by (simp add: bit_push_bit_iff bit_ucast_iff)
    qed
  qed simp
  then show ?thesis
    by (simp add: crc16_step_def crc16_shifts_inject xor_left_cancel_word)
qed

lemma crc16_ccitt_single_byte:
  "crc16_ccitt (pre @ [a] @ post) = crc16_ccitt (pre @ [b] @ post) \<longleftrightarrow> a = b"
  by (simp add: crc16_ccitt_def crc16_fold_inject crc16_byte_inject)

section \<open>Evaluating CRC32C in proofs\<close>

lemma crc32c_shift_numerals [word_eval]:
  "crc32c_shift 0 = 0"
  "crc32c_shift 1 = 0x82F63B78"
  "crc32c_shift (numeral (Num.Bit0 n)) = drop_bit 1 (numeral (Num.Bit0 n))"
  "crc32c_shift (numeral (Num.Bit1 n)) = drop_bit 1 (numeral (Num.Bit1 n)) XOR 0x82F63B78"
  by (simp_all add: crc32c_shift_def CRC32C_POLYNOMIAL_def)

lemma crc32c_step_eval [word_eval]:
  "crc32c_step b c =
     crc32c_shift (crc32c_shift (crc32c_shift (crc32c_shift
       (crc32c_shift (crc32c_shift (crc32c_shift (crc32c_shift (c XOR ucast b))))))))"
  by (simp add: crc32c_step_shifts eval_nat_numeral)

lemma crc32c_eval [word_eval]:
  "crc32c bs = fold crc32c_step bs 0xFFFFFFFF XOR 0xFFFFFFFF"
  "crc32c_append c bs = fold crc32c_step bs (c XOR 0xFFFFFFFF) XOR 0xFFFFFFFF"
proof -
  have m: "NOT x = x XOR 0xFFFFFFFF" for x :: u32
  proof -
    have "NOT x = x XOR -1" by (rule bit_word_eqI) (simp add: bit_xor_iff bit_not_iff)
    moreover have "(0xFFFFFFFF :: u32) = -1" by simp
    ultimately show ?thesis by metis
  qed
  have "(NOT 0 :: u32) = 0xFFFFFFFF" by simp
  then show "crc32c bs = fold crc32c_step bs 0xFFFFFFFF XOR 0xFFFFFFFF"
    unfolding crc32c_def by (metis m)
  show "crc32c_append c bs = fold crc32c_step bs (c XOR 0xFFFFFFFF) XOR 0xFFFFFFFF"
    unfolding crc32c_append_def by (metis m)
qed

text \<open>The standard check vector, as in the unit tests of the source.\<close>

lemma crc32c_check_vector:
  "crc32c [0x31, 0x32, 0x33, 0x34, 0x35, 0x36, 0x37, 0x38, 0x39] = 0xE3069283"
  by (simp add: word_eval)

section \<open>Structures that carry their own checksum\<close>

text \<open>Headers and records store a CRC32C of themselves in a four-byte field at \<open>pos\<close>.
  It covers the bytes before the field and \<open>tail\<close> bytes after it.  The locale collects
  what a layout has to provide (an encoding, its inverse, where the field is and what
  \<open>compute\<close> covers) and proves once that a stored checksum pins down every aligned
  word of the covered bytes.\<close>

locale crc_block =
  fixes enc :: "'h \<Rightarrow> byte list" and dec :: "byte list \<Rightarrow> 'h"
    and stored :: "'h \<Rightarrow> u32" and compute :: "'h \<Rightarrow> u32"
    and size pos tail :: nat
  assumes enc_dec: "length bs = size \<Longrightarrow> enc (dec bs) = bs"
    and stored_dec: "length bs = size \<Longrightarrow> stored (dec bs) = of_le (window pos 4 bs)"
    and compute_enc: "compute h = crc32c (window 0 pos (enc h) @ window (pos + 4) tail (enc h))"
    and fits: "pos + 4 + tail \<le> size"
begin

lemma compute_dec:
  "length bs = size \<Longrightarrow> compute (dec bs) = crc32c (window 0 pos bs @ window (pos + 4) tail bs)"
  by (simp add: compute_enc enc_dec)

lemma field_corruption:
  assumes len: "length bs = size" and d: "length d = 4" and ne: "window pos 4 bs \<noteq> d"
    and ok: "stored (dec bs) = compute (dec bs)"
  shows "stored (dec (patch pos d bs)) \<noteq> compute (dec (patch pos d bs))"
proof -
  have l: "pos + length d \<le> length bs" using len d fits by simp
  have "stored (dec (patch pos d bs)) = of_le d"
    using l len d by (simp add: stored_dec)
  moreover have "compute (dec (patch pos d bs)) = compute (dec bs)"
    using l len d fits by (simp add: compute_dec window_patch_disjoint)
  moreover have "(of_le d :: u32) \<noteq> of_le (window pos 4 bs)"
  proof
    assume "(of_le d :: u32) = of_le (window pos 4 bs)"
    then have "to_le 4 (of_le d :: u32) = to_le 4 (of_le (window pos 4 bs) :: u32)" by simp
    then show False using ne d l len by (simp add: to_le_of_le)
  qed
  ultimately show ?thesis using ok len by (simp add: stored_dec)
qed

lemma word_corruption_before:
  assumes len: "length bs = size" and d: "length d = 4" and w: "w + 4 \<le> pos"
    and ne: "window w 4 bs \<noteq> d" and ok: "stored (dec bs) = compute (dec bs)"
  shows "stored (dec (patch w d bs)) \<noteq> compute (dec (patch w d bs))"
proof -
  have l: "w + length d \<le> length bs" using len d fits w by simp
  have st: "stored (dec (patch w d bs)) = stored (dec bs)"
    using l len d w fits by (simp add: stored_dec window_patch_disjoint)
  have pre: "window 0 pos bs' = window 0 w bs' @ window w 4 bs' @ window (w + 4) (pos - (w + 4)) bs'"
    if "length bs' = size" for bs' :: "byte list"
    using that w fits by (intro nth_equalityI) (auto simp: nth_window nth_append)
  have "compute (dec (patch w d bs)) \<noteq> compute (dec bs)"
    unfolding compute_dec [OF len] compute_dec [of "patch w d bs", unfolded length_patch [OF l], OF len]
      pre [OF len] pre [of "patch w d bs", unfolded length_patch [OF l], OF len]
    using crc32c_burst [of d "window w 4 bs" "window 0 w bs"
        "window (w + 4) (pos - (w + 4)) bs @ window (pos + 4) tail bs"] l len d w fits ne
    by (simp add: window_patch_disjoint)
  with st ok show ?thesis by simp
qed

lemma word_corruption_after:
  assumes len: "length bs = size" and d: "length d = 4"
    and w: "pos + 4 \<le> w" "w + 4 \<le> pos + 4 + tail"
    and ne: "window w 4 bs \<noteq> d" and ok: "stored (dec bs) = compute (dec bs)"
  shows "stored (dec (patch w d bs)) \<noteq> compute (dec (patch w d bs))"
proof -
  have l: "w + length d \<le> length bs" using len d fits w by simp
  have st: "stored (dec (patch w d bs)) = stored (dec bs)"
    using l len d w fits by (simp add: stored_dec window_patch_disjoint)
  have post: "window (pos + 4) tail bs' = window (pos + 4) (w - (pos + 4)) bs' @ window w 4 bs' @
      window (w + 4) (pos + tail - w) bs'"
    if "length bs' = size" for bs' :: "byte list"
    using that w fits by (intro nth_equalityI) (auto simp: nth_window nth_append ac_simps)
  have "compute (dec (patch w d bs)) \<noteq> compute (dec bs)"
    unfolding compute_dec [OF len] compute_dec [of "patch w d bs", unfolded length_patch [OF l], OF len]
      post [OF len] post [of "patch w d bs", unfolded length_patch [OF l], OF len]
    using crc32c_burst [of d "window w 4 bs" "window 0 pos bs @ window (pos + 4) (w - (pos + 4)) bs"
        "window (w + 4) (pos + tail - w) bs"] l len d w fits ne
    by (simp add: window_patch_disjoint)
  with st ok show ?thesis by simp
qed

lemma word_corruption:
  assumes "length bs = size" "length d = 4" "window w 4 bs \<noteq> d"
    "w + 4 \<le> pos \<or> w = pos \<or> pos + 4 \<le> w \<and> w + 4 \<le> pos + 4 + tail"
    "stored (dec bs) = compute (dec bs)"
  shows "stored (dec (patch w d bs)) \<noteq> compute (dec (patch w d bs))"
  using assms field_corruption word_corruption_before word_corruption_after by blast

end

end
