(* ===== verification/Edge_Flash.thy ===== *)
theory Edge_Flash
  imports Prelude
begin

text \<open>
  The storage boundary of the edge writer, \<^verbatim>\<open>crates/s3a-edge/src/flash.rs\<close>.  The
  trait \<^verbatim>\<open>FlashStorage\<close> is a record of operations on a device state (the methods
  take \<^verbatim>\<open>&mut self\<close>, so each returns the device it leaves), \<^verbatim>\<open>RamFlash\<close> is its
  implementation in the crate.  The locale \<open>flash_storage\<close> states what a client
  may rely on, torn writes included; \<open>RamFlash\<close> is shown to provide it.
  \<^verbatim>\<open>usize\<close> offsets are natural numbers: offsets are at most the size of a device.
\<close>

section \<open>The trait\<close>

record ('s, 'e) flash_ops =
  fo_page_size :: "'s \<Rightarrow> nat"
  fo_total_size :: "'s \<Rightarrow> nat"
  fo_read :: "nat \<Rightarrow> nat \<Rightarrow> 's \<Rightarrow> ('e, byte list) result \<times> 's"
  fo_write :: "nat \<Rightarrow> byte list \<Rightarrow> 's \<Rightarrow> ('e, unit) result \<times> 's"
  fo_erase :: "nat \<Rightarrow> nat \<Rightarrow> 's \<Rightarrow> ('e, unit) result \<times> 's"

section \<open>The RAM implementation\<close>

datatype ram_flash_error =
    OutOfBounds (oob_offset: nat) (oob_requested: nat) (oob_capacity: nat)
  | UnalignedErase (ue_offset: nat) (ue_len: nat) (ue_sector_size: nat)
  | CannotWriteWithoutErase (cw_offset: nat) (cw_current: byte) (cw_attempted: byte)
  | SimulatedPowerCut (bytes_written_before_cut: nat)

text \<open>The const generic \<^verbatim>\<open>CAPACITY\<close> is the length of the memory.\<close>

record ram_flash =
  rf_memory :: "byte list"
  rf_page_size :: nat
  rf_sector_size :: nat
  rf_enforce_nor_semantics :: bool
  rf_write_byte_limit :: "nat option"
  rf_total_bytes_written :: nat

definition ram_new :: "nat \<Rightarrow> nat \<Rightarrow> nat \<Rightarrow> ram_flash" where
  "ram_new CAPACITY page_size sector_size =
     \<lparr> rf_memory = replicate CAPACITY 0xFF, rf_page_size = page_size,
       rf_sector_size = sector_size, rf_enforce_nor_semantics = True,
       rf_write_byte_limit = None, rf_total_bytes_written = 0 \<rparr>"

definition ram_default :: "nat \<Rightarrow> ram_flash" where
  "ram_default CAPACITY = ram_new CAPACITY 256 4096"

definition set_write_limit :: "nat option \<Rightarrow> ram_flash \<Rightarrow> ram_flash" where
  "set_write_limit limit f = f\<lparr> rf_write_byte_limit := limit, rf_total_bytes_written := 0 \<rparr>"

definition reset_write_counter :: "ram_flash \<Rightarrow> ram_flash" where
  "reset_write_counter f = f\<lparr> rf_total_bytes_written := 0 \<rparr>"

definition ram_as_slice :: "ram_flash \<Rightarrow> byte list" where
  "ram_as_slice f = rf_memory f"

definition ram_page_size :: "ram_flash \<Rightarrow> nat" where
  "ram_page_size f = rf_page_size f"

definition ram_total_size :: "ram_flash \<Rightarrow> nat" where
  "ram_total_size f = length (rf_memory f)"

definition ram_read :: "nat \<Rightarrow> nat \<Rightarrow> ram_flash \<Rightarrow> (ram_flash_error, byte list) result \<times> ram_flash" where
  "ram_read offset n f =
     (if offset + n > length (rf_memory f)
      then (Err (OutOfBounds offset n (length (rf_memory f))), f)
      else (Ok (window offset n (rf_memory f)), f))"

text \<open>The loop over the bytes of \<^verbatim>\<open>write\<close>, from position \<open>pos\<close> on.\<close>

fun ram_write_loop :: "nat \<Rightarrow> byte list \<Rightarrow> ram_flash \<Rightarrow> (ram_flash_error, unit) result \<times> ram_flash" where
  "ram_write_loop pos [] f = (Ok (), f)"
| "ram_write_loop pos (b # bs) f =
     (if (case rf_write_byte_limit f of Some limit \<Rightarrow> limit \<le> rf_total_bytes_written f | None \<Rightarrow> False)
      then (Err (SimulatedPowerCut (rf_total_bytes_written f)), f)
      else
        let current = rf_memory f ! pos in
        if rf_enforce_nor_semantics f \<and> 512 \<le> pos then
          if current AND b \<noteq> b then (Err (CannotWriteWithoutErase pos current b), f)
          else ram_write_loop (Suc pos) bs
                 (f\<lparr> rf_memory := (rf_memory f)[pos := current AND b],
                    rf_total_bytes_written := Suc (rf_total_bytes_written f) \<rparr>)
        else ram_write_loop (Suc pos) bs
               (f\<lparr> rf_memory := (rf_memory f)[pos := b],
                  rf_total_bytes_written := Suc (rf_total_bytes_written f) \<rparr>))"

definition ram_write :: "nat \<Rightarrow> byte list \<Rightarrow> ram_flash \<Rightarrow> (ram_flash_error, unit) result \<times> ram_flash" where
  "ram_write offset data f =
     (if offset + length data > length (rf_memory f)
      then (Err (OutOfBounds offset (length data) (length (rf_memory f))), f)
      else ram_write_loop offset data f)"

text \<open>\<^verbatim>\<open>is_multiple_of\<close> with a zero argument holds of zero only, as \<open>dvd\<close> does.\<close>

definition ram_erase :: "nat \<Rightarrow> nat \<Rightarrow> ram_flash \<Rightarrow> (ram_flash_error, unit) result \<times> ram_flash" where
  "ram_erase offset len f =
     (if offset + len > length (rf_memory f)
      then (Err (OutOfBounds offset len (length (rf_memory f))), f)
      else if \<not> rf_sector_size f dvd offset \<or> \<not> rf_sector_size f dvd len
      then (Err (UnalignedErase offset len (rf_sector_size f)), f)
      else (Ok (), f\<lparr> rf_memory := patch offset (replicate len 0xFF) (rf_memory f) \<rparr>))"

definition ram_flash_ops :: "(ram_flash, ram_flash_error) flash_ops" where
  "ram_flash_ops =
     \<lparr> fo_page_size = ram_page_size, fo_total_size = ram_total_size,
       fo_read = ram_read, fo_write = ram_write, fo_erase = ram_erase \<rparr>"

lemma ram_flash_ops_simps [simp]:
  "fo_page_size ram_flash_ops = ram_page_size"
  "fo_total_size ram_flash_ops = ram_total_size"
  "fo_read ram_flash_ops = ram_read"
  "fo_write ram_flash_ops = ram_write"
  "fo_erase ram_flash_ops = ram_erase"
  by (simp_all add: ram_flash_ops_def)

section \<open>What a write leaves behind\<close>

text \<open>On every outcome the bytes written are a prefix of the data: a power cut tears
  the write at some byte.\<close>

lemma ram_write_loop_prefix:
  "pos + length d \<le> length (rf_memory f) \<Longrightarrow> ram_write_loop pos d f = (r, g) \<Longrightarrow>
   \<exists>k \<le> length d. rf_memory g = patch pos (take k d) (rf_memory f) \<and>
     rf_total_bytes_written g = rf_total_bytes_written f + k \<and>
     (is_ok r \<longleftrightarrow> k = length d)"
proof (induction pos d f rule: ram_write_loop.induct)
  case (1 pos f)
  then show ?case by auto
next
  case (2 pos b bs f)
  let ?cut = "case rf_write_byte_limit f of Some limit \<Rightarrow> limit \<le> rf_total_bytes_written f | None \<Rightarrow> False"
  let ?nor = "rf_enforce_nor_semantics f \<and> 512 \<le> pos"
  let ?f' = "f\<lparr> rf_memory := (rf_memory f)[pos := b],
                rf_total_bytes_written := Suc (rf_total_bytes_written f) \<rparr>"
  show ?case
  proof (cases "?cut \<or> (?nor \<and> rf_memory f ! pos AND b \<noteq> b)")
    case True
    then have "g = f" "\<not> is_ok r" using "2.prems"(2) by (auto simp: Let_def split: if_splits)
    then show ?thesis by (intro exI [of _ 0]) simp
  next
    case False
    then have step: "ram_write_loop (Suc pos) bs ?f' = (r, g)"
      using "2.prems"(2) by (auto simp: Let_def split: if_splits)
    have "\<exists>k \<le> length bs. rf_memory g = patch (Suc pos) (take k bs) (rf_memory ?f') \<and>
        rf_total_bytes_written g = rf_total_bytes_written ?f' + k \<and> (is_ok r \<longleftrightarrow> k = length bs)"
    proof (cases ?nor)
      case True
      with False have "rf_memory f ! pos AND b = b" by simp
      with True False show ?thesis using "2.IH"(1) "2.prems"(1) step by simp
    next
      case nor: False
      with False show ?thesis using "2.IH"(2) "2.prems"(1) step by simp
    qed
    then obtain k where k: "k \<le> length bs"
        "rf_memory g = patch (Suc pos) (take k bs) ((rf_memory f)[pos := b])"
        "rf_total_bytes_written g = Suc (rf_total_bytes_written f) + k"
        "is_ok r \<longleftrightarrow> k = length bs" by auto
    have "patch (Suc pos) (take k bs) ((rf_memory f)[pos := b]) = patch pos (take (Suc k) (b # bs)) (rf_memory f)"
      by (rule nth_equalityI) (use k(1) "2.prems"(1) in
          \<open>auto simp: nth_patch nth_list_update nth_Cons' not_less_eq\<close>)
    with k show ?thesis by (intro exI [of _ "Suc k"]) auto
  qed
qed

lemma ram_write_prefix:
  "off + length d \<le> length (rf_memory f) \<Longrightarrow> ram_write off d f = (r, g) \<Longrightarrow>
   \<exists>k \<le> length d. rf_memory g = patch off (take k d) (rf_memory f) \<and>
     rf_total_bytes_written g = rf_total_bytes_written f + k \<and> (is_ok r \<longleftrightarrow> k = length d)"
  by (auto simp: ram_write_def dest: ram_write_loop_prefix)

lemma ram_write_config [frame]:
  assumes "ram_write off d f = (r, g)"
  shows "rf_sector_size g = rf_sector_size f \<and> rf_page_size g = rf_page_size f \<and>
    rf_write_byte_limit g = rf_write_byte_limit f \<and>
    rf_enforce_nor_semantics g = rf_enforce_nor_semantics f"
proof -
  have "ram_write_loop pos d f = (r, g) \<Longrightarrow> rf_sector_size g = rf_sector_size f \<and>
      rf_page_size g = rf_page_size f \<and> rf_write_byte_limit g = rf_write_byte_limit f \<and>
      rf_enforce_nor_semantics g = rf_enforce_nor_semantics f" for pos
    by (induction pos d f rule: ram_write_loop.induct) (auto simp: Let_def split: if_splits)
  then show ?thesis using assms by (auto simp: ram_write_def split: if_splits)
qed

section \<open>NOR physics and the power-cut budget\<close>

lemma ram_write_loop_nor:
  "ram_write_loop pos d f = (r, g) \<Longrightarrow> pos + length d \<le> length (rf_memory f) \<Longrightarrow>
   rf_enforce_nor_semantics f \<Longrightarrow> 512 \<le> i \<Longrightarrow> i < length (rf_memory f) \<Longrightarrow>
   rf_memory f ! i AND rf_memory g ! i = rf_memory g ! i"
proof (induction pos d f rule: ram_write_loop.induct)
  case (1 pos f)
  then show ?case by simp
next
  case (2 pos b bs f)
  let ?cut = "case rf_write_byte_limit f of Some limit \<Rightarrow> limit \<le> rf_total_bytes_written f | None \<Rightarrow> False"
  consider (stop) "g = f"
    | (step) "\<not> ?cut" "512 \<le> pos \<longrightarrow> rf_memory f ! pos AND b = b"
        "ram_write_loop (Suc pos) bs
           (f\<lparr> rf_memory := (rf_memory f)[pos := b],
              rf_total_bytes_written := Suc (rf_total_bytes_written f) \<rparr>) = (r, g)"
    using "2.prems"(1,3) by (auto simp: Let_def split: if_splits)
  then show ?case
  proof cases
    case stop
    then show ?thesis by simp
  next
    case step
    have "(rf_memory f)[pos := b] ! i AND rf_memory g ! i = rf_memory g ! i"
    proof (cases "512 \<le> pos")
      case True
      with "2.IH"(1) [of "rf_memory f ! pos"] "2.prems" step show ?thesis by simp
    next
      case False
      with "2.IH"(2) [of "rf_memory f ! pos"] "2.prems" step show ?thesis by simp
    qed
    moreover have "rf_memory f ! i AND (rf_memory f)[pos := b] ! i = (rf_memory f)[pos := b] ! i"
      using step(2) "2.prems" by (cases "i = pos") auto
    ultimately show ?thesis by (metis and.assoc)
  qed
qed

lemma ram_write_loop_budget:
  "ram_write_loop pos d f = (r, g) \<Longrightarrow> rf_write_byte_limit f = Some limit \<Longrightarrow>
   rf_total_bytes_written f \<le> limit \<Longrightarrow> rf_total_bytes_written g \<le> limit"
  by (induction pos d f rule: ram_write_loop.induct) (auto simp: Let_def split: if_splits)

text \<open>Without a write limit, a write into erased bytes or into the exempt block succeeds.\<close>

lemma ram_write_loop_ok:
  "rf_write_byte_limit f = None \<Longrightarrow> pos + length d \<le> length (rf_memory f) \<Longrightarrow>
   \<forall>i. pos \<le> i \<and> i < pos + length d \<longrightarrow> i < 512 \<or> rf_memory f ! i = 0xFF \<Longrightarrow>
   fst (ram_write_loop pos d f) = Ok ()"
proof (induction pos d f rule: ram_write_loop.induct)
  case (2 pos b bs f)
  have "(0xFF :: byte) = - 1" by simp
  then have ones: "(0xFF :: byte) AND b = b" by (simp only: and.left_neutral)
  from 2 have "pos < 512 \<or> rf_memory f ! pos = 0xFF" by auto
  with 2 ones show ?case by (auto simp: Let_def not_le)
qed simp

lemma ram_write_ok:
  assumes "rf_write_byte_limit f = None" "off + length d \<le> length (rf_memory f)"
    "\<forall>i. off \<le> i \<and> i < off + length d \<longrightarrow> i < 512 \<or> rf_memory f ! i = 0xFF"
  obtains g where "ram_write off d f = (Ok (), g)"
  using ram_write_loop_ok [OF assms] assms(2) by (cases "ram_write off d f") (auto simp: ram_write_def)

section \<open>The contract of a flash device\<close>

text \<open>\<open>contents\<close> is the byte image of a device.  Reads in bounds succeed and change
  nothing; a write in bounds leaves a prefix of its data, all of it exactly when it
  succeeds; an erase touches its own range only and fills it with \<open>0xFF\<close> when it
  succeeds.  Operations out of bounds fail and change nothing.\<close>

locale flash_storage =
  fixes ops :: "('s, 'e) flash_ops" and contents :: "'s \<Rightarrow> byte list"
  assumes total_size: "fo_total_size ops s = length (contents s)"
    and read_in: "off + n \<le> length (contents s) \<Longrightarrow>
          fo_read ops off n s = (Ok (window off n (contents s)), s)"
    and write_in: "off + length d \<le> length (contents s) \<Longrightarrow> fo_write ops off d s = (r, s') \<Longrightarrow>
          \<exists>k \<le> length d. contents s' = patch off (take k d) (contents s) \<and> (is_ok r \<longleftrightarrow> k = length d)"
    and write_out: "length (contents s) < off + length d \<Longrightarrow> fo_write ops off d s = (r, s') \<Longrightarrow>
          \<not> is_ok r \<and> contents s' = contents s"
    and erase_ok: "fo_erase ops off len s = (Ok (), s') \<Longrightarrow>
          off + len \<le> length (contents s) \<and>
          contents s' = patch off (replicate len 0xFF) (contents s)"
    and erase_err: "fo_erase ops off len s = (Err e, s') \<Longrightarrow>
          length (contents s') = length (contents s) \<and>
          (\<forall>i < length (contents s). i < off \<or> off + len \<le> i \<longrightarrow> contents s' ! i = contents s ! i)"
begin

lemma write_length: "fo_write ops off d s = (r, s') \<Longrightarrow> length (contents s') = length (contents s)"
  using write_in [of off d s r s'] write_out [of s off d r s'] by (cases "off + length d \<le> length (contents s)") auto

lemma write_frame:
  assumes "fo_write ops off d s = (r, s')" "a + n \<le> length (contents s)"
    "a + n \<le> off \<or> off + length d \<le> a"
  shows "window a n (contents s') = window a n (contents s)"
proof (cases "off + length d \<le> length (contents s)")
  case True
  from write_in [OF this assms(1)] obtain k where
    "k \<le> length d" "contents s' = patch off (take k d) (contents s)" by auto
  with True assms(2,3) show ?thesis by (auto simp: window_patch_disjoint)
next
  case False
  then show ?thesis using write_out [of s off d r s'] assms(1) by simp
qed

lemma write_ok_contents:
  assumes "fo_write ops off d s = (Ok u, s')"
  shows "off + length d \<le> length (contents s) \<and> contents s' = patch off d (contents s)"
proof (cases "off + length d \<le> length (contents s)")
  case True
  with write_in [OF this assms] show ?thesis by auto
next
  case False
  then show ?thesis using write_out [of s off d "Ok u" s'] assms by simp
qed

lemma erase_length: "fo_erase ops off len s = (r, s') \<Longrightarrow> length (contents s') = length (contents s)"
  using erase_ok [of off len s s'] erase_err [of off len s _ s'] by (cases r) auto

lemma erase_frame:
  assumes "fo_erase ops off len s = (r, s')" "a + n \<le> length (contents s)"
    "a + n \<le> off \<or> off + len \<le> a"
  shows "window a n (contents s') = window a n (contents s)"
proof (cases r)
  case (Inl e)
  with erase_err [of off len s e s'] assms show ?thesis by (intro window_eqI) auto
next
  case (Inr u)
  with erase_ok [of off len s s'] assms show ?thesis by (auto simp: window_patch_disjoint)
qed

end

interpretation ram: flash_storage ram_flash_ops rf_memory
proof (unfold_locales, goal_cases)
  case (1 s)
  then show ?case by (simp add: ram_total_size_def)
next
  case (2 off n s)
  then show ?case by (simp add: ram_read_def)
next
  case (3 off d s r s')
  then show ?case using ram_write_prefix [of off d s r s'] by auto
next
  case (4 s off d r s')
  then show ?case by (auto simp: ram_write_def)
next
  case (5 off len s s')
  then show ?case by (auto simp: ram_erase_def split: if_splits)
next
  case (6 off len s e s')
  then show ?case by (auto simp: ram_erase_def split: if_splits)
qed

section \<open>Properties\<close>

text \<open>On a simulated NOR device, a write outside the first 512 bytes never turns a
  cleared bit back on, whether it succeeds, is refused half way or loses power.\<close>

theorem ram_write_nor_physics:
  assumes "rf_enforce_nor_semantics f" "ram_write off d f = (r, g)"
    "512 \<le> i" "i < length (rf_memory f)" "bit (rf_memory g ! i) k"
  shows "bit (rf_memory f ! i) k"
proof -
  have "rf_memory f ! i AND rf_memory g ! i = rf_memory g ! i"
    using assms ram_write_loop_nor [of off d f r g i] by (auto simp: ram_write_def split: if_splits)
  with assms(5) show ?thesis by (metis bit_and_iff)
qed

theorem ram_write_nor_physics_witness:
  "bit (rf_memory (snd (ram_write 512 [0x0F] (ram_new 513 1 1))) ! 512) 3 \<and>
   bit (rf_memory (ram_new 513 1 1) ! 512) 3"
proof -
  let ?f = "ram_new 513 1 1"
  have w: "ram_write 512 [0x0F] ?f = (Ok (), ?f\<lparr> rf_memory := (rf_memory ?f)[512 := 0x0F],
      rf_total_bytes_written := 1 \<rparr>)"
    by (simp add: ram_write_def ram_new_def)
  then have b: "bit (rf_memory (snd (ram_write 512 [0x0F] ?f)) ! 512) 3"
    by (simp add: ram_new_def)
  have "bit (rf_memory ?f ! 512) 3"
    by (rule ram_write_nor_physics [of ?f 512 "[0x0F]" "fst (ram_write 512 [0x0F] ?f)"
          "snd (ram_write 512 [0x0F] ?f)"]) (use b in \<open>simp_all add: ram_new_def\<close>)
  with b show ?thesis by simp
qed

text \<open>With a write limit set, the simulator loses power after exactly that many
  bytes: on an erased range a write stores the prefix the budget allows, and reports
  the cut with the number of bytes written when the budget is too small.\<close>

theorem ram_power_cut_exact:
  assumes "rf_write_byte_limit f = Some limit" "rf_total_bytes_written f \<le> limit"
    "off + length d \<le> length (rf_memory f)" "window off (length d) (rf_memory f) = replicate (length d) 0xFF"
  shows "ram_write off d f =
    (let k = min (length d) (limit - rf_total_bytes_written f) in
     (if k = length d then Ok () else Err (SimulatedPowerCut limit),
      f\<lparr> rf_memory := patch off (take k d) (rf_memory f),
         rf_total_bytes_written := rf_total_bytes_written f + k \<rparr>))"
proof -
  have erased: "rf_memory f ! (off + i) = 0xFF" if "i < length d" for i
    using that assms(3,4) by (metis nth_replicate nth_window)
  have all: "(0xFF :: byte) AND b = b" for b
  proof -
    have "(0xFF :: byte) = -1" by simp
    then show ?thesis by (simp only: and.left_neutral)
  qed
  have "ram_write_loop off d f =
    (let k = min (length d) (limit - rf_total_bytes_written f) in
     (if k = length d then Ok () else Err (SimulatedPowerCut limit),
      f\<lparr> rf_memory := patch off (take k d) (rf_memory f),
         rf_total_bytes_written := rf_total_bytes_written f + k \<rparr>))"
    using assms(1-3) erased
  proof (induction d arbitrary: off f)
    case (Cons b bs)
    let ?f' = "f\<lparr> rf_memory := (rf_memory f)[off := b],
                  rf_total_bytes_written := Suc (rf_total_bytes_written f) \<rparr>"
    show ?case
    proof (cases "limit \<le> rf_total_bytes_written f")
      case True
      with Cons.prems(1,2) show ?thesis by (simp add: Let_def)
    next
      case False
      have e0: "rf_memory f ! off = 0xFF" using Cons.prems(4) [of 0] by simp
      have "ram_write_loop off (b # bs) f = ram_write_loop (Suc off) bs ?f'"
        using False Cons.prems(1) e0 all by (simp add: Let_def)
      also have "\<dots> = (let k = min (length bs) (limit - rf_total_bytes_written ?f') in
         (if k = length bs then Ok () else Err (SimulatedPowerCut limit),
          ?f'\<lparr> rf_memory := patch (Suc off) (take k bs) (rf_memory ?f'),
             rf_total_bytes_written := rf_total_bytes_written ?f' + k \<rparr>))"
        by (rule Cons.IH) (use False Cons.prems(1,2,3) Cons.prems(4) [of "Suc _"] in auto)
      also have "\<dots> = (let k = min (length (b # bs)) (limit - rf_total_bytes_written f) in
         (if k = length (b # bs) then Ok () else Err (SimulatedPowerCut limit),
          f\<lparr> rf_memory := patch off (take k (b # bs)) (rf_memory f),
             rf_total_bytes_written := rf_total_bytes_written f + k \<rparr>))"
      proof -
        let ?k = "min (length bs) (limit - Suc (rf_total_bytes_written f))"
        have k: "min (length (b # bs)) (limit - rf_total_bytes_written f) = Suc ?k" using False by auto
        have "patch (Suc off) (take ?k bs) ((rf_memory f)[off := b]) = patch off (take (Suc ?k) (b # bs)) (rf_memory f)"
          by (rule nth_equalityI) (use Cons.prems(3) in
              \<open>auto simp: nth_patch nth_list_update nth_Cons' not_less_eq\<close>)
        then show ?thesis unfolding k by (simp add: Let_def)
      qed
      finally show ?thesis .
    qed
  qed (auto simp: Let_def)
  with assms(3) show ?thesis by (simp add: ram_write_def)
qed

theorem ram_power_cut_exact_witness:
  "ram_write 1 [1, 2, 3] (set_write_limit (Some 2) (ram_new 4 1 1)) =
     (Err (SimulatedPowerCut 2),
      \<lparr> rf_memory = [0xFF, 1, 2, 0xFF], rf_page_size = 1, rf_sector_size = 1,
        rf_enforce_nor_semantics = True, rf_write_byte_limit = Some 2, rf_total_bytes_written = 2 \<rparr>)"
proof -
  let ?f = "set_write_limit (Some 2) (ram_new 4 1 1)"
  note defs = set_write_limit_def ram_new_def window_def patch_def eval_nat_numeral
  show ?thesis
    by (subst ram_power_cut_exact [of ?f 2]) (simp_all add: defs)
qed

text \<open>The first 512 bytes are exempt from NOR physics: a write into the header
  block of a device without a write limit always succeeds and stores its data, even where
  that sets bits that an erase would have to set first.\<close>

theorem ram_header_block_exempt:
  assumes "rf_write_byte_limit f = None" "off + length d \<le> 512" "off + length d \<le> length (rf_memory f)"
  shows "fst (ram_write off d f) = Ok () \<and> window off (length d) (rf_memory (snd (ram_write off d f))) = d"
proof -
  have ok: "fst (ram_write_loop pos xs g) = Ok ()"
    if "rf_write_byte_limit g = None" "pos + length xs \<le> 512" for pos xs g
    using that by (induction pos xs g rule: ram_write_loop.induct) (auto simp: Let_def)
  obtain r g where w: "ram_write off d f = (r, g)" by fastforce
  with ok [of f off d] assms have "r = Ok ()" by (simp add: ram_write_def)
  with ram.write_ok_contents [of off d f "()" g] w assms show ?thesis by simp
qed

theorem ram_header_block_exempt_witness:
  "fst (ram_write 0 [0x00] (ram_new 4 1 1)) = Ok () \<and>
   (let f = snd (ram_write 0 [0x00] (ram_new 4 1 1)) in
     rf_memory f = [0, 0xFF, 0xFF, 0xFF] \<and>
     fst (ram_write 0 [0xFF] f) = Ok () \<and> window 0 1 (rf_memory (snd (ram_write 0 [0xFF] f))) = [0xFF])"
  using ram_header_block_exempt [of "ram_new 4 1 1" 0 "[0]"]
    ram_header_block_exempt [of "snd (ram_write 0 [0x00] (ram_new 4 1 1))" 0 "[0xFF]"]
  by (simp add: ram_write_def ram_new_def Let_def eval_nat_numeral)

end
