(* ===== verification/Edge_Header.thy ===== *)
theory Edge_Header
  imports Edge_Crc
begin

text \<open>
  The file header slots and tile headers of \<^verbatim>\<open>crates/s3a-edge/src/header.rs\<close>: the
  64-byte \<^verbatim>\<open>FileHeader\<close> slot and the 512-byte block of two slots, the 64-byte common
  tile header and the 32-byte compact one.  \<^verbatim>\<open>bytes_of\<close> and \<^verbatim>\<open>pod_read_unaligned\<close> are
  \<open>*_bytes\<close> and \<open>*_of_bytes\<close>; the \<^verbatim>\<open>repr(C)\<close> layouts have no implicit padding.  Proved:
  encoding and decoding are inverse, a sealed header verifies unless its checksum is
  zero, and changing any aligned word of a verified header makes verification fail.
\<close>

section \<open>Constants\<close>

definition S3A_MAGIC :: "byte list" where "S3A_MAGIC = [0x53, 0x33, 0x41, 0x31]"
definition FILE_HEADER_SIZE :: nat where "FILE_HEADER_SIZE = 512"
definition FILE_HEADER_SLOT_SIZE :: nat where "FILE_HEADER_SLOT_SIZE = 64"
definition FILE_HEADER_SLOT_A_OFFSET :: nat where "FILE_HEADER_SLOT_A_OFFSET = 0"
definition FILE_HEADER_SLOT_B_OFFSET :: nat where "FILE_HEADER_SLOT_B_OFFSET = 64"
definition COMMON_TILE_HEADER_SIZE :: nat where "COMMON_TILE_HEADER_SIZE = 64"

lemmas header_sizes [simp] =
  FILE_HEADER_SIZE_def FILE_HEADER_SLOT_SIZE_def FILE_HEADER_SLOT_A_OFFSET_def
  FILE_HEADER_SLOT_B_OFFSET_def COMMON_TILE_HEADER_SIZE_def

definition FLAG_PROFILE_EDGE :: u16 where "FLAG_PROFILE_EDGE = push_bit 0 1"
definition FLAG_TILE_SIZE_4KB :: u16 where "FLAG_TILE_SIZE_4KB = push_bit 1 1"
definition FLAG_TILE_SIZE_8KB :: u16 where "FLAG_TILE_SIZE_8KB = push_bit 2 1"
definition FLAG_SEAL_CHAIN_ACTIVE :: u16 where "FLAG_SEAL_CHAIN_ACTIVE = push_bit 4 1"

definition TILE_FLAG_SEALED :: u16 where "TILE_FLAG_SEALED = 1"
definition TILE_FLAG_CRC_CHAIN :: u16 where "TILE_FLAG_CRC_CHAIN = 2"
definition ADDON_WEARABLE :: u32 where "ADDON_WEARABLE = 0x0008"

definition TILE_TYPE_RECORD :: u16 where "TILE_TYPE_RECORD = 64"
definition TILE_TYPE_CONSENT :: u16 where "TILE_TYPE_CONSENT = 71"
definition TILE_TYPE_TIME_SERIES :: u16 where "TILE_TYPE_TIME_SERIES = 75"
definition TILE_TYPE_CONFIG :: u16 where "TILE_TYPE_CONFIG = 77"

section \<open>File header slots\<close>

record file_header =
  fh_magic :: "byte list"
  fh_version :: u16
  fh_flags :: u16
  fh_generation :: u64
  fh_tile_count :: u32
  fh_tile_stride :: u32
  fh_created_timestamp :: u64
  fh_commit_timestamp :: u64
  fh_header_crc32 :: u32
  fh_addon_mask :: u32
  fh_file_uuid :: "u64 \<times> u64"

definition file_header_bytes :: "file_header \<Rightarrow> byte list" where
  "file_header_bytes h =
     fh_magic h @ le16 (fh_version h) @ le16 (fh_flags h) @ le64 (fh_generation h) @
     le32 (fh_tile_count h) @ le32 (fh_tile_stride h) @ le64 (fh_created_timestamp h) @
     le64 (fh_commit_timestamp h) @ le32 (fh_header_crc32 h) @ le32 (fh_addon_mask h) @
     le64 (fst (fh_file_uuid h)) @ le64 (snd (fh_file_uuid h))"

definition file_header_of_bytes :: "byte list \<Rightarrow> file_header" where
  "file_header_of_bytes bs =
     \<lparr> fh_magic = window 0 4 bs, fh_version = of_le (window 4 2 bs), fh_flags = of_le (window 6 2 bs),
       fh_generation = of_le (window 8 8 bs), fh_tile_count = of_le (window 16 4 bs),
       fh_tile_stride = of_le (window 20 4 bs), fh_created_timestamp = of_le (window 24 8 bs),
       fh_commit_timestamp = of_le (window 32 8 bs), fh_header_crc32 = of_le (window 40 4 bs),
       fh_addon_mask = of_le (window 44 4 bs),
       fh_file_uuid = (of_le (window 48 8 bs), of_le (window 56 8 bs)) \<rparr>"

definition file_header_new :: "u32 \<Rightarrow> u32 \<Rightarrow> u64 \<Rightarrow> file_header" where
  "file_header_new tile_count tile_stride created_timestamp =
     (let flags = FLAG_PROFILE_EDGE OR FLAG_SEAL_CHAIN_ACTIVE;
          flags = (if tile_stride = 4096 then flags OR FLAG_TILE_SIZE_4KB
                   else if tile_stride = 8192 then flags OR FLAG_TILE_SIZE_8KB else flags)
      in \<lparr> fh_magic = S3A_MAGIC, fh_version = 1, fh_flags = flags, fh_generation = 1,
           fh_tile_count = tile_count, fh_tile_stride = tile_stride,
           fh_created_timestamp = created_timestamp, fh_commit_timestamp = created_timestamp,
           fh_header_crc32 = 0, fh_addon_mask = ADDON_WEARABLE, fh_file_uuid = (0, 0) \<rparr>)"

definition file_header_with_commit :: "u32 \<Rightarrow> u32 \<Rightarrow> u64 \<Rightarrow> u64 \<Rightarrow> u64 \<Rightarrow> file_header" where
  "file_header_with_commit tile_count tile_stride generation created_timestamp commit_timestamp =
     (file_header_new tile_count tile_stride created_timestamp)
       \<lparr> fh_generation := generation, fh_commit_timestamp := commit_timestamp \<rparr>"

definition compute_file_header_crc32 :: "file_header \<Rightarrow> u32" where
  "compute_file_header_crc32 header =
     (let bytes = file_header_bytes header;
          crc = crc32c (window 0 40 bytes)
      in crc32c_append crc (window 44 20 bytes))"

definition file_header_verify :: "file_header \<Rightarrow> bool" where
  "file_header_verify h =
     (if fh_magic h \<noteq> S3A_MAGIC \<or> fh_version h \<noteq> 1 then False
      else if fh_header_crc32 h = 0 then False
      else fh_header_crc32 h = compute_file_header_crc32 h)"

definition file_header_zeroed :: file_header where
  "file_header_zeroed =
     \<lparr> fh_magic = [0, 0, 0, 0], fh_version = 0, fh_flags = 0, fh_generation = 0, fh_tile_count = 0,
       fh_tile_stride = 0, fh_created_timestamp = 0, fh_commit_timestamp = 0, fh_header_crc32 = 0,
       fh_addon_mask = 0, fh_file_uuid = (0, 0) \<rparr>"

record dual_file_header =
  dh_slot_a :: file_header
  dh_slot_b :: file_header
  dh_padding :: "byte list"

definition dual_file_header_new :: "file_header \<Rightarrow> dual_file_header" where
  "dual_file_header_new slot_a =
     \<lparr> dh_slot_a = slot_a, dh_slot_b = file_header_zeroed, dh_padding = replicate 384 0 \<rparr>"

definition dual_file_header_bytes :: "dual_file_header \<Rightarrow> byte list" where
  "dual_file_header_bytes d =
     file_header_bytes (dh_slot_a d) @ file_header_bytes (dh_slot_b d) @ dh_padding d"

section \<open>Tile headers\<close>

record common_tile_header =
  th_type_id :: u16
  th_type_version :: u16
  th_flags :: u16
  th_reserved1 :: u16
  th_record_count :: u32
  th_data_crc32 :: u32
  th_payload_len :: u64
  th_payload_hash :: "byte list"
  th_header_crc32 :: u32
  th_generation :: u32

definition common_tile_header_bytes :: "common_tile_header \<Rightarrow> byte list" where
  "common_tile_header_bytes h =
     le16 (th_type_id h) @ le16 (th_type_version h) @ le16 (th_flags h) @ le16 (th_reserved1 h) @
     le32 (th_record_count h) @ le32 (th_data_crc32 h) @ le64 (th_payload_len h) @
     th_payload_hash h @ le32 (th_header_crc32 h) @ le32 (th_generation h)"

definition common_tile_header_of_bytes :: "byte list \<Rightarrow> common_tile_header" where
  "common_tile_header_of_bytes bs =
     \<lparr> th_type_id = of_le (window 0 2 bs), th_type_version = of_le (window 2 2 bs),
       th_flags = of_le (window 4 2 bs), th_reserved1 = of_le (window 6 2 bs),
       th_record_count = of_le (window 8 4 bs), th_data_crc32 = of_le (window 12 4 bs),
       th_payload_len = of_le (window 16 8 bs), th_payload_hash = window 24 32 bs,
       th_header_crc32 = of_le (window 56 4 bs), th_generation = of_le (window 60 4 bs) \<rparr>"

definition common_tile_header_new :: "u16 \<Rightarrow> u32 \<Rightarrow> u64 \<Rightarrow> common_tile_header" where
  "common_tile_header_new type_id record_count payload_len =
     \<lparr> th_type_id = type_id, th_type_version = 1, th_flags = TILE_FLAG_SEALED OR TILE_FLAG_CRC_CHAIN,
       th_reserved1 = 0, th_record_count = record_count, th_data_crc32 = 0,
       th_payload_len = payload_len, th_payload_hash = replicate 32 0, th_header_crc32 = 0,
       th_generation = 1 \<rparr>"

definition compute_common_tile_header_crc32 :: "common_tile_header \<Rightarrow> u32" where
  "compute_common_tile_header_crc32 header =
     (let bytes = common_tile_header_bytes header;
          crc = crc32c (window 0 56 bytes)
      in crc32c_append crc (window 60 4 bytes))"

definition common_tile_header_verify :: "common_tile_header \<Rightarrow> bool" where
  "common_tile_header_verify h =
     (if th_header_crc32 h = 0 then False
      else th_header_crc32 h = compute_common_tile_header_crc32 h)"

record ultra_compact_tile_header =
  uh_type_id :: u16
  uh_type_version :: u8
  uh_flags :: u8
  uh_record_count :: u16
  uh_payload_len :: u16
  uh_data_crc32 :: u32
  uh_header_crc32 :: u32
  uh_payload_hash_prefix :: "byte list"

definition ultra_compact_tile_header_bytes :: "ultra_compact_tile_header \<Rightarrow> byte list" where
  "ultra_compact_tile_header_bytes h =
     le16 (uh_type_id h) @ [uh_type_version h, uh_flags h] @ le16 (uh_record_count h) @
     le16 (uh_payload_len h) @ le32 (uh_data_crc32 h) @ le32 (uh_header_crc32 h) @
     uh_payload_hash_prefix h"

definition ultra_compact_tile_header_of_bytes :: "byte list \<Rightarrow> ultra_compact_tile_header" where
  "ultra_compact_tile_header_of_bytes bs =
     \<lparr> uh_type_id = of_le (window 0 2 bs), uh_type_version = bs ! 2, uh_flags = bs ! 3,
       uh_record_count = of_le (window 4 2 bs), uh_payload_len = of_le (window 6 2 bs),
       uh_data_crc32 = of_le (window 8 4 bs), uh_header_crc32 = of_le (window 12 4 bs),
       uh_payload_hash_prefix = window 16 16 bs \<rparr>"

definition ultra_compact_compute_crc :: "ultra_compact_tile_header \<Rightarrow> u32" where
  "ultra_compact_compute_crc h =
     (let bytes = ultra_compact_tile_header_bytes h;
          crc = crc32c (window 0 12 bytes)
      in crc32c_append crc (window 16 16 bytes))"

definition ultra_compact_verify :: "ultra_compact_tile_header \<Rightarrow> bool" where
  "ultra_compact_verify h =
     (if uh_header_crc32 h = 0 then False
      else uh_header_crc32 h = ultra_compact_compute_crc h)"

section \<open>The layouts are bijective\<close>

lemma length_file_header_bytes [simp, layout]:
  "length (fh_magic h) = 4 \<Longrightarrow> length (file_header_bytes h) = 64"
  by (simp add: file_header_bytes_def)

lemma file_header_roundtrip [simp]:
  "length (fh_magic h) = 4 \<Longrightarrow> file_header_of_bytes (file_header_bytes h) = h"
  by (simp add: file_header_of_bytes_def file_header_bytes_def window_append_skip
      window_append_here window_all)

lemma file_header_bytes_of_bytes [simp]:
  "length bs = 64 \<Longrightarrow> file_header_bytes (file_header_of_bytes bs) = bs"
  by (simp add: file_header_of_bytes_def file_header_bytes_def to_le_of_le window_join window_all)

lemma length_common_tile_header_bytes [simp, layout]:
  "length (th_payload_hash h) = 32 \<Longrightarrow> length (common_tile_header_bytes h) = 64"
  by (simp add: common_tile_header_bytes_def)

lemma common_tile_header_roundtrip [simp]:
  "length (th_payload_hash h) = 32 \<Longrightarrow> common_tile_header_of_bytes (common_tile_header_bytes h) = h"
  by (simp add: common_tile_header_of_bytes_def common_tile_header_bytes_def window_append_skip
      window_append_here window_all)

lemma common_tile_header_bytes_of_bytes [simp]:
  "length bs = 64 \<Longrightarrow> common_tile_header_bytes (common_tile_header_of_bytes bs) = bs"
  by (simp add: common_tile_header_of_bytes_def common_tile_header_bytes_def to_le_of_le window_join
      window_all)

lemma length_ultra_compact_bytes [simp, layout]:
  "length (uh_payload_hash_prefix h) = 16 \<Longrightarrow> length (ultra_compact_tile_header_bytes h) = 32"
  by (simp add: ultra_compact_tile_header_bytes_def)

lemma ultra_compact_roundtrip [simp]:
  "length (uh_payload_hash_prefix h) = 16 \<Longrightarrow>
   ultra_compact_tile_header_of_bytes (ultra_compact_tile_header_bytes h) = h"
  by (simp add: ultra_compact_tile_header_of_bytes_def ultra_compact_tile_header_bytes_def
      window_append_skip window_append_here window_all nth_append window_Cons_skip)

lemma ultra_compact_bytes_of_bytes [simp]:
  "length bs = 32 \<Longrightarrow> ultra_compact_tile_header_bytes (ultra_compact_tile_header_of_bytes bs) = bs"
  by (simp add: ultra_compact_tile_header_of_bytes_def ultra_compact_tile_header_bytes_def to_le_of_le
      window_join window_all window_Cons_join)

section \<open>Headers as self-checksummed structures\<close>

interpretation file_slot: crc_block file_header_bytes file_header_of_bytes fh_header_crc32
    compute_file_header_crc32 64 40 20
  by unfold_locales
     (simp_all add: compute_file_header_crc32_def crc32c_append_eq Let_def,
      simp_all add: file_header_of_bytes_def)

interpretation tile_slot: crc_block common_tile_header_bytes common_tile_header_of_bytes th_header_crc32
    compute_common_tile_header_crc32 64 56 4
  by unfold_locales
     (simp_all add: compute_common_tile_header_crc32_def crc32c_append_eq Let_def, simp_all add: common_tile_header_of_bytes_def)

interpretation ultra_slot: crc_block ultra_compact_tile_header_bytes ultra_compact_tile_header_of_bytes
    uh_header_crc32 ultra_compact_compute_crc 32 12 16
  by unfold_locales
     (simp_all add: ultra_compact_compute_crc_def crc32c_append_eq Let_def, simp_all add: ultra_compact_tile_header_of_bytes_def)

lemma compute_file_header_crc32_bytes:
  "compute_file_header_crc32 h =
     crc32c (window 0 40 (file_header_bytes h) @ window 44 20 (file_header_bytes h))"
  by (simp add: compute_file_header_crc32_def crc32c_append_eq Let_def)

lemma compute_common_tile_header_crc32_bytes:
  "compute_common_tile_header_crc32 h =
     crc32c (window 0 56 (common_tile_header_bytes h) @ window 60 4 (common_tile_header_bytes h))"
  by (simp add: compute_common_tile_header_crc32_def crc32c_append_eq Let_def)

text \<open>The stored checksum does not enter its own computation.\<close>

lemma compute_file_header_crc32_stored [simp]:
  "length (fh_magic h) = 4 \<Longrightarrow>
   compute_file_header_crc32 (h\<lparr>fh_header_crc32 := c\<rparr>) = compute_file_header_crc32 h"
  by (simp add: compute_file_header_crc32_bytes file_header_bytes_def window_def)

lemma compute_common_tile_header_crc32_stored [simp]:
  "length (th_payload_hash h) = 32 \<Longrightarrow>
   compute_common_tile_header_crc32 (h\<lparr>th_header_crc32 := c\<rparr>) = compute_common_tile_header_crc32 h"
  by (simp add: compute_common_tile_header_crc32_bytes common_tile_header_bytes_def window_def)

lemma magic_length [simp]: "length S3A_MAGIC = 4"
  by (simp add: S3A_MAGIC_def)

lemma file_header_verify_sealed:
  "length (fh_magic h) = 4 \<Longrightarrow>
   file_header_verify (h\<lparr>fh_header_crc32 := compute_file_header_crc32 h\<rparr>) \<longleftrightarrow>
     fh_magic h = S3A_MAGIC \<and> fh_version h = 1 \<and> compute_file_header_crc32 h \<noteq> 0"
  by (auto simp: file_header_verify_def)

lemma common_tile_header_verify_sealed:
  "length (th_payload_hash h) = 32 \<Longrightarrow>
   common_tile_header_verify (h\<lparr>th_header_crc32 := compute_common_tile_header_crc32 h\<rparr>) \<longleftrightarrow>
     compute_common_tile_header_crc32 h \<noteq> 0"
  by (auto simp: common_tile_header_verify_def)

lemma file_header_new_simps [simp]:
  "fh_magic (file_header_new n st ts) = S3A_MAGIC" "fh_version (file_header_new n st ts) = 1"
  "fh_generation (file_header_new n st ts) = 1" "fh_tile_count (file_header_new n st ts) = n"
  "fh_tile_stride (file_header_new n st ts) = st" "fh_created_timestamp (file_header_new n st ts) = ts"
  "fh_commit_timestamp (file_header_new n st ts) = ts" "fh_addon_mask (file_header_new n st ts) = ADDON_WEARABLE"
  "fh_file_uuid (file_header_new n st ts) = (0, 0)"
  by (simp_all add: file_header_new_def Let_def)

lemma file_header_with_commit_simps [simp]:
  "fh_magic (file_header_with_commit n st g ts cts) = S3A_MAGIC"
  "fh_version (file_header_with_commit n st g ts cts) = 1"
  "fh_generation (file_header_with_commit n st g ts cts) = g"
  "fh_tile_count (file_header_with_commit n st g ts cts) = n"
  "fh_created_timestamp (file_header_with_commit n st g ts cts) = ts"
  by (simp_all add: file_header_with_commit_def)

text \<open>What evaluates a concrete header.\<close>

lemmas header_eval =
  compute_file_header_crc32_bytes file_header_bytes_def file_header_new_def S3A_MAGIC_def
  FLAG_PROFILE_EDGE_def FLAG_SEAL_CHAIN_ACTIVE_def FLAG_TILE_SIZE_4KB_def FLAG_TILE_SIZE_8KB_def
  ADDON_WEARABLE_def compute_common_tile_header_crc32_bytes common_tile_header_bytes_def
  common_tile_header_new_def TILE_FLAG_SEALED_def TILE_FLAG_CRC_CHAIN_def window_def word_eval

lemma sample_file_header_crc: "compute_file_header_crc32 (file_header_new 1 4096 7) = 729172831"
  by (simp add: header_eval)

lemma sample_tile_header_crc:
  "compute_common_tile_header_crc32 (common_tile_header_new 64 1 32) = 243277295"
  by (simp add: header_eval)

section \<open>Properties\<close>

text \<open>Overwriting any aligned four-byte word of a file header slot that verifies with
  a different value gives a slot that does not verify; in particular no single field
  of at most four bytes can be changed unnoticed.\<close>

theorem file_slot_word_corruption_detected:
  assumes "length bs = 64" "file_header_verify (file_header_of_bytes bs)"
    "4 dvd w" "w < 64" "length d = 4" "window w 4 bs \<noteq> d"
  shows "\<not> file_header_verify (file_header_of_bytes (patch w d bs))"
proof -
  have "fh_header_crc32 (file_header_of_bytes bs) = compute_file_header_crc32 (file_header_of_bytes bs)"
    using assms(2) by (simp add: file_header_verify_def split: if_splits)
  moreover have "w + 4 \<le> 40 \<or> w = 40 \<or> 40 + 4 \<le> w \<and> w + 4 \<le> 40 + 4 + 20"
    using assms(3,4) by presburger
  ultimately have "fh_header_crc32 (file_header_of_bytes (patch w d bs)) \<noteq>
      compute_file_header_crc32 (file_header_of_bytes (patch w d bs))"
    using file_slot.word_corruption assms(1,5,6) by blast
  then show ?thesis by (simp add: file_header_verify_def)
qed

theorem file_slot_word_corruption_detected_witness:
  "let bs = file_header_bytes ((file_header_new 1 4096 7)\<lparr>fh_header_crc32 := 729172831\<rparr>) in
     file_header_verify (file_header_of_bytes bs) \<and>
     \<not> file_header_verify (file_header_of_bytes (patch 16 [2, 0, 0, 0] bs))"
proof -
  let ?h = "(file_header_new 1 4096 7)\<lparr>fh_header_crc32 := 729172831\<rparr>"
  have v: "file_header_verify ?h"
    using file_header_verify_sealed [of "file_header_new 1 4096 7"] by (simp add: sample_file_header_crc)
  have "window 16 4 (file_header_bytes ?h) = [1, 0, 0, 0]"
    by (simp add: header_eval)
  then show ?thesis
    using file_slot_word_corruption_detected [of "file_header_bytes ?h" 16 "[2, 0, 0, 0]"] v by simp
qed

text \<open>the same for a tile header: no aligned word, hence no field up to four bytes wide,
  can be changed without verification failing.\<close>

theorem tile_header_word_corruption_detected:
  assumes "length bs = 64" "common_tile_header_verify (common_tile_header_of_bytes bs)"
    "4 dvd w" "w < 64" "length d = 4" "window w 4 bs \<noteq> d"
  shows "\<not> common_tile_header_verify (common_tile_header_of_bytes (patch w d bs))"
proof -
  have "th_header_crc32 (common_tile_header_of_bytes bs) =
      compute_common_tile_header_crc32 (common_tile_header_of_bytes bs)"
    using assms(2) by (simp add: common_tile_header_verify_def split: if_splits)
  moreover have "w + 4 \<le> 56 \<or> w = 56 \<or> 56 + 4 \<le> w \<and> w + 4 \<le> 56 + 4 + 4"
    using assms(3,4) by presburger
  ultimately have "th_header_crc32 (common_tile_header_of_bytes (patch w d bs)) \<noteq>
      compute_common_tile_header_crc32 (common_tile_header_of_bytes (patch w d bs))"
    using tile_slot.word_corruption assms(1,5,6) by blast
  then show ?thesis by (simp add: common_tile_header_verify_def)
qed

theorem tile_header_word_corruption_detected_witness:
  "let bs = common_tile_header_bytes ((common_tile_header_new 64 1 32)\<lparr>th_header_crc32 := 243277295\<rparr>) in
     common_tile_header_verify (common_tile_header_of_bytes bs) \<and>
     \<not> common_tile_header_verify (common_tile_header_of_bytes (patch 8 [2, 0, 0, 0] bs))"
proof -
  let ?h = "(common_tile_header_new 64 1 32)\<lparr>th_header_crc32 := 243277295\<rparr>"
  have l: "length (th_payload_hash (common_tile_header_new 64 1 32)) = 32"
    by (simp add: common_tile_header_new_def)
  have v: "common_tile_header_verify ?h"
    using common_tile_header_verify_sealed [OF l] by (simp add: sample_tile_header_crc)
  have "window 8 4 (common_tile_header_bytes ?h) = [1, 0, 0, 0]"
    by (simp add: header_eval)
  then show ?thesis
    using tile_header_word_corruption_detected [of "common_tile_header_bytes ?h" 8 "[2, 0, 0, 0]"] v l
    by simp
qed

text \<open>Verification refuses a zero checksum, so the sealing rule has a gap: whatever
  the other fields of a tile header are, exactly one of the \<open>2\<^sup>3\<^sup>2\<close> generation numbers
  gives a header that is sealed correctly and yet never verifies.\<close>

theorem tile_header_zero_crc_gap:
  assumes "length (th_payload_hash h) = 32"
  shows "\<exists>!g. let t = h\<lparr>th_generation := g\<rparr>
    in \<not> common_tile_header_verify (t\<lparr>th_header_crc32 := compute_common_tile_header_crc32 t\<rparr>)"
proof -
  let ?f = "\<lambda>g. compute_common_tile_header_crc32 (h\<lparr>th_generation := g\<rparr>)"
  have "?f g = crc32c (window 0 56 (common_tile_header_bytes h) @ le32 g @ [])" for g
    using assms by (simp add: compute_common_tile_header_crc32_bytes common_tile_header_bytes_def window_def)
  then have inj: "inj ?f"
    using crc32c_burst [of "le32 _" "le32 _" "window 0 56 (common_tile_header_bytes h)" "[]"]
    by (intro injI) simp
  then have "surj ?f" by (intro finite_UNIV_inj_surj) simp_all
  with inj have "bij ?f" by (simp add: bij_def)
  then have "\<exists>!g. ?f g = 0" unfolding bij_iff by (rule spec)
  moreover have "\<not> common_tile_header_verify ((h\<lparr>th_generation := g\<rparr>)
      \<lparr>th_header_crc32 := compute_common_tile_header_crc32 (h\<lparr>th_generation := g\<rparr>)\<rparr>) \<longleftrightarrow> ?f g = 0" for g
    by (subst common_tile_header_verify_sealed) (simp_all add: assms)
  ultimately show ?thesis unfolding Let_def by presburger
qed

theorem tile_header_zero_crc_gap_witness:
  "\<exists>!g. let t = (common_tile_header_new 64 1 32)\<lparr>th_generation := g\<rparr>
    in \<not> common_tile_header_verify (t\<lparr>th_header_crc32 := compute_common_tile_header_crc32 t\<rparr>)"
  by (rule tile_header_zero_crc_gap) (simp add: common_tile_header_new_def)

end
