(* ===== verification/Edge_Records.thy ===== *)
theory Edge_Records
  imports Edge_Crc
begin

text \<open>
  The record structures of \<^verbatim>\<open>crates/s3a-edge/src/records.rs\<close>: sensor samples,
  equipment events, configuration entries, device identity, consent and device seals,
  each with the checksum its constructor stores and its \<^verbatim>\<open>verify\<close>.  A signed 32-bit
  field and an \<^verbatim>\<open>f32\<close> are their 32 bits, a \<^verbatim>\<open>&str\<close> is its UTF-8 bytes.  Proved: a
  constructed record verifies, corrupting any covered word of the records whose
  checksum covers everything before it is detected, and the checksum of a device seal
  stops four bytes short of its signature.
\<close>

section \<open>Constants\<close>

definition CONFIG_VAL_I32 :: u16 where "CONFIG_VAL_I32 = 1"
definition CONFIG_VAL_U32 :: u16 where "CONFIG_VAL_U32 = 2"
definition CONFIG_VAL_F32 :: u16 where "CONFIG_VAL_F32 = 3"
definition CONFIG_VAL_BOOL :: u16 where "CONFIG_VAL_BOOL = 4"

section \<open>Sensor records\<close>

record sensor_record =
  sr_delta_ts_ms :: u16
  sr_sensor_id :: u8
  sr_metric_id :: u8
  sr_quantized_val :: i32
  sr_quality_flags :: u16
  sr_reserved :: "byte list"
  sr_record_crc16 :: u16

definition sensor_record_bytes :: "sensor_record \<Rightarrow> byte list" where
  "sensor_record_bytes r =
     le16 (sr_delta_ts_ms r) @ [sr_sensor_id r, sr_metric_id r] @ le32 (sr_quantized_val r) @
     le16 (sr_quality_flags r) @ sr_reserved r @ le16 (sr_record_crc16 r)"

definition sensor_record_new :: "u16 \<Rightarrow> u8 \<Rightarrow> u8 \<Rightarrow> i32 \<Rightarrow> u16 \<Rightarrow> sensor_record" where
  "sensor_record_new delta_ts_ms sensor_id metric_id quantized_val quality_flags =
     (let rec = \<lparr> sr_delta_ts_ms = delta_ts_ms, sr_sensor_id = sensor_id, sr_metric_id = metric_id,
                  sr_quantized_val = quantized_val, sr_quality_flags = quality_flags,
                  sr_reserved = replicate 4 0, sr_record_crc16 = 0 \<rparr>;
          bytes = sensor_record_bytes rec
      in rec\<lparr> sr_record_crc16 := crc16_ccitt (window 0 14 bytes) \<rparr>)"

definition sensor_record_verify :: "sensor_record \<Rightarrow> bool" where
  "sensor_record_verify r \<longleftrightarrow> crc16_ccitt (window 0 14 (sensor_record_bytes r)) = sr_record_crc16 r"

section \<open>Equipment events\<close>

record equipment_event =
  ee_timestamp_sec :: u64
  ee_event_type :: u16
  ee_severity :: u8
  ee_subsystem_id :: u8
  ee_event_code :: u32
  ee_operator_id :: "byte list"
  ee_param1 :: i32
  ee_record_crc32 :: u32

definition equipment_event_bytes :: "equipment_event \<Rightarrow> byte list" where
  "equipment_event_bytes r =
     le64 (ee_timestamp_sec r) @ le16 (ee_event_type r) @ [ee_severity r, ee_subsystem_id r] @
     le32 (ee_event_code r) @ ee_operator_id r @ le32 (ee_param1 r) @ le32 (ee_record_crc32 r)"

definition equipment_event_of_bytes :: "byte list \<Rightarrow> equipment_event" where
  "equipment_event_of_bytes bs =
     \<lparr> ee_timestamp_sec = of_le (window 0 8 bs), ee_event_type = of_le (window 8 2 bs),
       ee_severity = bs ! 10, ee_subsystem_id = bs ! 11, ee_event_code = of_le (window 12 4 bs),
       ee_operator_id = window 16 8 bs, ee_param1 = of_le (window 24 4 bs),
       ee_record_crc32 = of_le (window 28 4 bs) \<rparr>"

definition equipment_event_new ::
    "u64 \<Rightarrow> u16 \<Rightarrow> u8 \<Rightarrow> u8 \<Rightarrow> u32 \<Rightarrow> byte list \<Rightarrow> i32 \<Rightarrow> equipment_event" where
  "equipment_event_new timestamp_sec event_type severity subsystem_id event_code operator_id param1 =
     (let rec = \<lparr> ee_timestamp_sec = timestamp_sec, ee_event_type = event_type, ee_severity = severity,
                  ee_subsystem_id = subsystem_id, ee_event_code = event_code,
                  ee_operator_id = operator_id, ee_param1 = param1, ee_record_crc32 = 0 \<rparr>;
          bytes = equipment_event_bytes rec
      in rec\<lparr> ee_record_crc32 := crc32c (window 0 28 bytes) \<rparr>)"

definition equipment_event_verify :: "equipment_event \<Rightarrow> bool" where
  "equipment_event_verify r \<longleftrightarrow> crc32c (window 0 28 (equipment_event_bytes r)) = ee_record_crc32 r"

section \<open>Configuration entries\<close>

record config_entry =
  ce_key :: "byte list"
  ce_val_type :: u16
  ce_pad :: u16
  ce_val_bytes :: "byte list"
  ce_record_crc32 :: u32

definition config_entry_bytes :: "config_entry \<Rightarrow> byte list" where
  "config_entry_bytes r =
     ce_key r @ le16 (ce_val_type r) @ le16 (ce_pad r) @ ce_val_bytes r @ le32 (ce_record_crc32 r)"

definition config_entry_of_bytes :: "byte list \<Rightarrow> config_entry" where
  "config_entry_of_bytes bs =
     \<lparr> ce_key = window 0 16 bs, ce_val_type = of_le (window 16 2 bs), ce_pad = of_le (window 18 2 bs),
       ce_val_bytes = window 20 8 bs, ce_record_crc32 = of_le (window 28 4 bs) \<rparr>"

definition config_entry_new :: "byte list \<Rightarrow> u16 \<Rightarrow> byte list \<Rightarrow> config_entry" where
  "config_entry_new key_str val_type val_bytes =
     (let key = replicate 16 0;
          bytes = key_str;
          copy_len = min (length bytes) 15;
          key = patch 0 (window 0 copy_len bytes) key;
          rec = \<lparr> ce_key = key, ce_val_type = val_type, ce_pad = 0, ce_val_bytes = val_bytes,
                  ce_record_crc32 = 0 \<rparr>;
          rec_bytes = config_entry_bytes rec
      in rec\<lparr> ce_record_crc32 := crc32c (window 0 28 rec_bytes) \<rparr>)"

definition config_entry_new_i32 :: "byte list \<Rightarrow> i32 \<Rightarrow> config_entry" where
  "config_entry_new_i32 key_str val =
     (let b = replicate 8 0; b = patch 0 (le32 val) b in config_entry_new key_str CONFIG_VAL_I32 b)"

definition config_entry_new_u32 :: "byte list \<Rightarrow> u32 \<Rightarrow> config_entry" where
  "config_entry_new_u32 key_str val =
     (let b = replicate 8 0; b = patch 0 (le32 val) b in config_entry_new key_str CONFIG_VAL_U32 b)"

text \<open>The argument is the bit pattern of the \<^verbatim>\<open>f32\<close>, which is what \<^verbatim>\<open>to_le_bytes\<close> writes.\<close>

definition config_entry_new_f32 :: "byte list \<Rightarrow> u32 \<Rightarrow> config_entry" where
  "config_entry_new_f32 key_str val_bits =
     (let b = replicate 8 0; b = patch 0 (le32 val_bits) b in config_entry_new key_str CONFIG_VAL_F32 b)"

definition config_entry_new_bool :: "byte list \<Rightarrow> bool \<Rightarrow> config_entry" where
  "config_entry_new_bool key_str val =
     (let b = replicate 8 0; b = b[0 := (if val then 1 else 0)]
      in config_entry_new key_str CONFIG_VAL_BOOL b)"

definition config_entry_verify :: "config_entry \<Rightarrow> bool" where
  "config_entry_verify r \<longleftrightarrow> crc32c (window 0 28 (config_entry_bytes r)) = ce_record_crc32 r"

section \<open>Device identity\<close>

record device_identity =
  di_device_id :: "byte list"
  di_hardware_model :: "byte list"
  di_firmware_version :: "u16 list"
  di_public_key :: "byte list"
  di_provisioned_at :: u64
  di_boot_count :: u64
  di_reserved :: u32
  di_record_crc32 :: u32

definition device_identity_bytes :: "device_identity \<Rightarrow> byte list" where
  "device_identity_bytes r =
     di_device_id r @ di_hardware_model r @ concat (map le16 (di_firmware_version r)) @
     di_public_key r @ le64 (di_provisioned_at r) @ le64 (di_boot_count r) @
     le32 (di_reserved r) @ le32 (di_record_crc32 r)"

definition device_identity_of_bytes :: "byte list \<Rightarrow> device_identity" where
  "device_identity_of_bytes bs =
     \<lparr> di_device_id = window 0 16 bs, di_hardware_model = window 16 16 bs,
       di_firmware_version = map (\<lambda>i. of_le (window (32 + 2 * i) 2 bs)) [0, 1, 2, 3],
       di_public_key = window 40 32 bs, di_provisioned_at = of_le (window 72 8 bs),
       di_boot_count = of_le (window 80 8 bs), di_reserved = of_le (window 88 4 bs),
       di_record_crc32 = of_le (window 92 4 bs) \<rparr>"

definition device_identity_new ::
    "byte list \<Rightarrow> byte list \<Rightarrow> u16 list \<Rightarrow> byte list \<Rightarrow> u64 \<Rightarrow> u64 \<Rightarrow> device_identity" where
  "device_identity_new device_id model_str firmware_version public_key provisioned_at boot_count =
     (let hardware_model = replicate 16 0;
          bytes = model_str;
          copy_len = min (length bytes) 15;
          hardware_model = patch 0 (window 0 copy_len bytes) hardware_model;
          rec = \<lparr> di_device_id = device_id, di_hardware_model = hardware_model,
                  di_firmware_version = firmware_version, di_public_key = public_key,
                  di_provisioned_at = provisioned_at, di_boot_count = boot_count,
                  di_reserved = 0, di_record_crc32 = 0 \<rparr>;
          rec_bytes = device_identity_bytes rec
      in rec\<lparr> di_record_crc32 := crc32c (window 0 92 rec_bytes) \<rparr>)"

definition device_identity_verify :: "device_identity \<Rightarrow> bool" where
  "device_identity_verify r \<longleftrightarrow> crc32c (window 0 92 (device_identity_bytes r)) = di_record_crc32 r"

section \<open>Consent\<close>

record edge_consent =
  ec_owner_uuid :: "byte list"
  ec_allowed_purposes :: u32
  ec_sharing_scope :: u32
  ec_granted_at :: u64
  ec_expires_at :: u64
  ec_admin_actor_id :: u64
  ec_consent_version :: u32
  ec_reserved :: u32
  ec_record_crc32 :: u32
  ec_pad :: u32

definition edge_consent_bytes :: "edge_consent \<Rightarrow> byte list" where
  "edge_consent_bytes r =
     ec_owner_uuid r @ le32 (ec_allowed_purposes r) @ le32 (ec_sharing_scope r) @
     le64 (ec_granted_at r) @ le64 (ec_expires_at r) @ le64 (ec_admin_actor_id r) @
     le32 (ec_consent_version r) @ le32 (ec_reserved r) @ le32 (ec_record_crc32 r) @ le32 (ec_pad r)"

definition edge_consent_of_bytes :: "byte list \<Rightarrow> edge_consent" where
  "edge_consent_of_bytes bs =
     \<lparr> ec_owner_uuid = window 0 16 bs, ec_allowed_purposes = of_le (window 16 4 bs),
       ec_sharing_scope = of_le (window 20 4 bs), ec_granted_at = of_le (window 24 8 bs),
       ec_expires_at = of_le (window 32 8 bs), ec_admin_actor_id = of_le (window 40 8 bs),
       ec_consent_version = of_le (window 48 4 bs), ec_reserved = of_le (window 52 4 bs),
       ec_record_crc32 = of_le (window 56 4 bs), ec_pad = of_le (window 60 4 bs) \<rparr>"

definition edge_consent_new :: "byte list \<Rightarrow> u32 \<Rightarrow> u32 \<Rightarrow> u64 \<Rightarrow> u64 \<Rightarrow> u64 \<Rightarrow> edge_consent" where
  "edge_consent_new owner_uuid allowed_purposes sharing_scope granted_at expires_at admin_actor_id =
     (let rec = \<lparr> ec_owner_uuid = owner_uuid, ec_allowed_purposes = allowed_purposes,
                  ec_sharing_scope = sharing_scope, ec_granted_at = granted_at,
                  ec_expires_at = expires_at, ec_admin_actor_id = admin_actor_id,
                  ec_consent_version = 1, ec_reserved = 0, ec_record_crc32 = 0, ec_pad = 0 \<rparr>;
          bytes = edge_consent_bytes rec
      in rec\<lparr> ec_record_crc32 := crc32c (window 0 56 bytes) \<rparr>)"

definition edge_consent_verify :: "edge_consent \<Rightarrow> bool" where
  "edge_consent_verify r \<longleftrightarrow> crc32c (window 0 56 (edge_consent_bytes r)) = ec_record_crc32 r"

section \<open>Device seals\<close>

record device_seal =
  ds_tile_index :: u32
  ds_pad1 :: u32
  ds_generation :: u64
  ds_seal_hash :: "byte list"
  ds_prev_seal_hash :: "byte list"
  ds_signature :: "byte list"
  ds_record_crc32 :: u32
  ds_pad2 :: u32

definition device_seal_bytes :: "device_seal \<Rightarrow> byte list" where
  "device_seal_bytes r =
     le32 (ds_tile_index r) @ le32 (ds_pad1 r) @ le64 (ds_generation r) @ ds_seal_hash r @
     ds_prev_seal_hash r @ ds_signature r @ le32 (ds_record_crc32 r) @ le32 (ds_pad2 r)"

definition device_seal_new :: "u32 \<Rightarrow> u64 \<Rightarrow> byte list \<Rightarrow> byte list \<Rightarrow> byte list \<Rightarrow> device_seal" where
  "device_seal_new tile_index generation seal_hash prev_seal_hash signature =
     (let rec = \<lparr> ds_tile_index = tile_index, ds_pad1 = 0, ds_generation = generation,
                  ds_seal_hash = seal_hash, ds_prev_seal_hash = prev_seal_hash,
                  ds_signature = signature, ds_record_crc32 = 0, ds_pad2 = 0 \<rparr>;
          bytes = device_seal_bytes rec
      in rec\<lparr> ds_record_crc32 := crc32c (window 0 140 bytes) \<rparr>)"

definition device_seal_verify :: "device_seal \<Rightarrow> bool" where
  "device_seal_verify r \<longleftrightarrow> crc32c (window 0 140 (device_seal_bytes r)) = ds_record_crc32 r"

section \<open>Layouts\<close>

lemma window_append_within: "a + n \<le> length xs \<Longrightarrow> window a n (xs @ ys) = window a n xs"
  by (simp add: window_def)

lemma equipment_event_layout [simp]:
  "length bs = 32 \<Longrightarrow> equipment_event_bytes (equipment_event_of_bytes bs) = bs"
  by (simp add: equipment_event_of_bytes_def equipment_event_bytes_def to_le_of_le window_join
      window_all window_Cons_join)

lemma config_entry_layout [simp]:
  "length bs = 32 \<Longrightarrow> config_entry_bytes (config_entry_of_bytes bs) = bs"
  by (simp add: config_entry_of_bytes_def config_entry_bytes_def to_le_of_le window_join window_all)

lemma device_identity_layout [simp]:
  "length bs = 96 \<Longrightarrow> device_identity_bytes (device_identity_of_bytes bs) = bs"
  by (simp add: device_identity_of_bytes_def device_identity_bytes_def to_le_of_le window_join window_all)

lemma edge_consent_layout [simp]:
  "length bs = 64 \<Longrightarrow> edge_consent_bytes (edge_consent_of_bytes bs) = bs"
  by (simp add: edge_consent_of_bytes_def edge_consent_bytes_def to_le_of_le window_join window_all)

lemma length_device_seal_bytes [layout]:
  "length (ds_seal_hash r) = 32 \<Longrightarrow> length (ds_prev_seal_hash r) = 32 \<Longrightarrow>
   length (ds_signature r) = 64 \<Longrightarrow> length (device_seal_bytes r) = 152"
  by (simp add: device_seal_bytes_def)

interpretation equipment: crc_block equipment_event_bytes equipment_event_of_bytes ee_record_crc32
    "\<lambda>r. crc32c (window 0 28 (equipment_event_bytes r))" 32 28 0
  by unfold_locales (simp_all add: window_def [of _ 0], simp_all add: equipment_event_of_bytes_def)

interpretation config: crc_block config_entry_bytes config_entry_of_bytes ce_record_crc32
    "\<lambda>r. crc32c (window 0 28 (config_entry_bytes r))" 32 28 0
  by unfold_locales (simp_all add: window_def [of _ 0], simp_all add: config_entry_of_bytes_def)

interpretation identity: crc_block device_identity_bytes device_identity_of_bytes di_record_crc32
    "\<lambda>r. crc32c (window 0 92 (device_identity_bytes r))" 96 92 0
  by unfold_locales (simp_all add: window_def [of _ 0], simp_all add: device_identity_of_bytes_def)

interpretation consent: crc_block edge_consent_bytes edge_consent_of_bytes ec_record_crc32
    "\<lambda>r. crc32c (window 0 56 (edge_consent_bytes r))" 64 56 0
  by unfold_locales (simp_all add: window_def [of _ 0], simp_all add: edge_consent_of_bytes_def)

section \<open>Constructors\<close>

lemma sensor_record_new_verify: "sensor_record_verify (sensor_record_new d s m q f)"
  by (simp add: sensor_record_verify_def sensor_record_new_def Let_def sensor_record_bytes_def window_def)

lemma equipment_event_new_verify:
  "length op = 8 \<Longrightarrow> equipment_event_verify (equipment_event_new ts ty sv ss code op p1)"
  by (simp add: equipment_event_verify_def equipment_event_new_def Let_def equipment_event_bytes_def window_def)

lemma length_padded_key [simp, layout]:
  "length (patch 0 (window 0 (min (length k) 15) k) (replicate 16 (0 :: byte))) = 16"
  by (simp add: window_def min_def)

lemma config_entry_new_verify:
  "length v = 8 \<Longrightarrow> config_entry_verify (config_entry_new k ty v)"
  by (simp add: config_entry_verify_def config_entry_new_def Let_def config_entry_bytes_def
      window_append_skip window_append_within) (simp add: window_def)

lemma device_identity_new_verify:
  assumes "length dev = 16" "length fw = 4" "length pk = 32"
  shows "device_identity_verify (device_identity_new dev m fw pk ts bc)"
proof -
  have "length (concat (map le16 fw)) = 8"
    using assms(2) by (simp add: length_concat comp_def sum_list_triv)
  with assms show ?thesis
    by (simp add: device_identity_verify_def device_identity_new_def Let_def device_identity_bytes_def window_def)
qed

lemma edge_consent_new_verify:
  "length ow = 16 \<Longrightarrow> edge_consent_verify (edge_consent_new ow ap sc g e adm)"
  by (simp add: edge_consent_verify_def edge_consent_new_def Let_def edge_consent_bytes_def window_def)

lemma device_seal_window:
  "length (ds_seal_hash r) = 32 \<Longrightarrow> length (ds_prev_seal_hash r) = 32 \<Longrightarrow> length (ds_signature r) = 64 \<Longrightarrow>
   window 0 140 (device_seal_bytes r) =
     le32 (ds_tile_index r) @ le32 (ds_pad1 r) @ le64 (ds_generation r) @ ds_seal_hash r @
     ds_prev_seal_hash r @ take 60 (ds_signature r)"
  by (simp add: device_seal_bytes_def window_def)

lemma device_seal_new_verify:
  "length sh = 32 \<Longrightarrow> length ph = 32 \<Longrightarrow> length sg = 64 \<Longrightarrow>
   device_seal_verify (device_seal_new i g sh ph sg)"
  by (simp add: device_seal_verify_def device_seal_new_def Let_def device_seal_window)

lemma config_entry_key:
  "ce_key (config_entry_new k ty v) = take 15 k @ replicate (16 - min (length k) 15) 0"
  by (simp add: config_entry_new_def Let_def patch_def window_def min_def)

lemma covered_word: "4 dvd w \<Longrightarrow> w < 4 * n \<Longrightarrow> w + 4 \<le> 4 * (n - 1) \<or> w = 4 * (n - (1 :: nat))"
  by presburger

lemma equipment_event_corruption_detected:
  "length bs = 32 \<Longrightarrow> 4 dvd w \<Longrightarrow> w < 32 \<Longrightarrow> length d = 4 \<Longrightarrow> window w 4 bs \<noteq> d \<Longrightarrow>
   equipment_event_verify (equipment_event_of_bytes bs) \<Longrightarrow>
   \<not> equipment_event_verify (equipment_event_of_bytes (patch w d bs))"
  using equipment.word_corruption [of bs d w] covered_word [of w 8]
  by (auto simp: equipment_event_verify_def eq_commute)

lemma config_entry_corruption_detected:
  "length bs = 32 \<Longrightarrow> 4 dvd w \<Longrightarrow> w < 32 \<Longrightarrow> length d = 4 \<Longrightarrow> window w 4 bs \<noteq> d \<Longrightarrow>
   config_entry_verify (config_entry_of_bytes bs) \<Longrightarrow>
   \<not> config_entry_verify (config_entry_of_bytes (patch w d bs))"
  using config.word_corruption [of bs d w] covered_word [of w 8]
  by (auto simp: config_entry_verify_def eq_commute)

lemma device_identity_corruption_detected:
  "length bs = 96 \<Longrightarrow> 4 dvd w \<Longrightarrow> w < 96 \<Longrightarrow> length d = 4 \<Longrightarrow> window w 4 bs \<noteq> d \<Longrightarrow>
   device_identity_verify (device_identity_of_bytes bs) \<Longrightarrow>
   \<not> device_identity_verify (device_identity_of_bytes (patch w d bs))"
  using identity.word_corruption [of bs d w] covered_word [of w 24]
  by (auto simp: device_identity_verify_def eq_commute)

section \<open>Properties\<close>

text \<open>Every record a constructor of the crate builds passes its own verification.\<close>

theorem edge_records_verify_when_new:
  assumes "length op = 8" "length v = 8" "length dev = 16" "length fw = 4" "length pk = 32"
    "length ow = 16" "length sh = 32" "length ph = 32" "length sg = 64"
  shows "sensor_record_verify (sensor_record_new d s m q f) \<and>
    equipment_event_verify (equipment_event_new ts ty sv ss code op p1) \<and>
    config_entry_verify (config_entry_new k vt v) \<and>
    device_identity_verify (device_identity_new dev model fw pk pa bc) \<and>
    edge_consent_verify (edge_consent_new ow ap sc ga ea adm) \<and>
    device_seal_verify (device_seal_new i g sh ph sg)"
  using assms
  by (simp add: sensor_record_new_verify equipment_event_new_verify config_entry_new_verify
      device_identity_new_verify edge_consent_new_verify device_seal_new_verify)

theorem edge_records_verify_when_new_witness:
  "sensor_record_verify (sensor_record_new 100 1 1 2500 0) \<and>
    equipment_event_verify (equipment_event_new 9 1 0 1 101 (replicate 8 0) 1500) \<and>
    config_entry_verify (config_entry_new [0x68, 0x7A] 1 (replicate 8 1)) \<and>
    device_identity_verify (device_identity_new (replicate 16 1) [0x53] [1, 0, 0, 1] (replicate 32 2) 9 1) \<and>
    edge_consent_verify (edge_consent_new (replicate 16 3) 1 1 9 0 7) \<and>
    device_seal_verify (device_seal_new 0 2 (replicate 32 4) (replicate 32 0) (replicate 64 5))"
  by (rule edge_records_verify_when_new) simp_all

text \<open>Overwriting any aligned word of the checksummed part of a stored consent record that
  verifies, the checksum itself included, makes verification fail: no purpose, scope,
  grant or expiry can be altered in place unnoticed.\<close>

theorem edge_consent_corruption_detected:
  assumes "length bs = 64" "4 dvd w" "w < 60" "length d = 4" "window w 4 bs \<noteq> d"
    and "edge_consent_verify (edge_consent_of_bytes bs)"
  shows "\<not> edge_consent_verify (edge_consent_of_bytes (patch w d bs))"
  using consent.word_corruption [of bs d w] covered_word [of w 15] assms
  by (auto simp: edge_consent_verify_def eq_commute)

theorem edge_consent_corruption_detected_witness:
  "let bs = edge_consent_bytes (edge_consent_new (replicate 16 3) 1 1 9 0 7)
   in edge_consent_verify (edge_consent_of_bytes bs) \<and>
      \<not> edge_consent_verify (edge_consent_of_bytes (patch 16 [0x1F, 0, 0, 0] bs))"
proof -
  let ?r = "edge_consent_new (replicate 16 3) 1 1 9 0 7"
  have len: "length (edge_consent_bytes ?r) = 64"
    by (simp add: edge_consent_new_def Let_def edge_consent_bytes_def)
  have "ec_record_crc32 (edge_consent_of_bytes (edge_consent_bytes ?r)) = ec_record_crc32 ?r"
    by (simp add: edge_consent_of_bytes_def edge_consent_new_def Let_def edge_consent_bytes_def
        window_append_skip window_append_here)
  then have v: "edge_consent_verify (edge_consent_of_bytes (edge_consent_bytes ?r))"
    using edge_consent_new_verify [of "replicate 16 3" 1 1 9 0 7] len
    by (simp add: edge_consent_verify_def)
  have "window 16 4 (edge_consent_bytes ?r) = [1, 0, 0, 0]"
    by (simp add: edge_consent_new_def Let_def edge_consent_bytes_def window_append_skip word_eval)
       (simp add: window_def)
  then show ?thesis
    using edge_consent_corruption_detected [OF len, of 16 "[0x1F, 0, 0, 0]"] v by simp
qed

text \<open>a device seal takes 152 bytes and its checksum covers the first 140, which end four
  bytes before the signature does: replacing the last four bytes of the signature
  never changes the outcome of verification.\<close>

theorem device_seal_signature_tail_uncovered:
  assumes "length (ds_seal_hash r) = 32" "length (ds_prev_seal_hash r) = 32"
    "length (ds_signature r) = 64" "length d = 4"
  shows "length (device_seal_bytes r) = 152 \<and>
    device_seal_verify (r\<lparr>ds_signature := take 60 (ds_signature r) @ d\<rparr>) = device_seal_verify r"
  using assms by (simp add: layout device_seal_verify_def device_seal_window)

theorem device_seal_signature_tail_uncovered_witness:
  "let r = device_seal_new 0 2 (replicate 32 4) (replicate 32 0) (replicate 64 5);
       r' = r\<lparr>ds_signature := take 60 (ds_signature r) @ [6, 6, 6, 6]\<rparr>
   in device_seal_verify r \<and> ds_signature r' \<noteq> ds_signature r \<and> device_seal_verify r'"
proof -
  let ?r = "device_seal_new 0 2 (replicate 32 4) (replicate 32 0) (replicate 64 5)"
  have "device_seal_verify ?r" by (rule device_seal_new_verify) simp_all
  moreover have "ds_signature ?r = replicate 64 5" "ds_seal_hash ?r = replicate 32 4"
      "ds_prev_seal_hash ?r = replicate 32 0"
    by (simp_all add: device_seal_new_def Let_def)
  moreover have "(replicate 64 5 :: byte list) = replicate 60 5 @ [5, 5, 5, 5]"
    by (simp add: word_eval)
  ultimately show ?thesis
    using device_seal_signature_tail_uncovered [of ?r "[6, 6, 6, 6]"] by (simp add: Let_def)
qed

end
