(* ===== verification/Edge_Timeseries.thy ===== *)
theory Edge_Timeseries
  imports Edge_Records "HOL-Library.Signed_Division"
begin

text \<open>
  The integer encodings of \<^verbatim>\<open>crates/s3a-edge/src/timeseries.rs\<close>: clamped delta
  timestamps, bit packing and unpacking of values up to 16 bits wide, the width a slice
  needs, and the compressed layout of a run of sensor records.  A function that fills
  a \<^verbatim>\<open>&mut [u8]\<close> returns the buffer beside its result.  Subtraction of two
  \<^verbatim>\<open>i32\<close> values wraps, as in a release build.  The \<^verbatim>\<open>f32\<close> quantisers are not
  modelled.  Proved: packing then unpacking gives back the values, masked to
  the width; the computed width loses nothing and is minimal; the sections of a
  compressed run decode to its timestamps and to its value deltas modulo \<open>2\<^sup>1\<^sup>6\<close>.
\<close>

section \<open>Delta timestamps\<close>

definition compute_delta_ts_ms :: "u64 \<Rightarrow> u64 \<Rightarrow> u16" where
  "compute_delta_ts_ms timestamp_ms min_timestamp_ms =
     (if timestamp_ms < min_timestamp_ms then 0
      else let delta = timestamp_ms - min_timestamp_ms
           in if delta > 0xFFFF then 0xFFFF else ucast delta)"

section \<open>Bit packing\<close>

text \<open>The inner loop of \<^verbatim>\<open>bit_pack_u16\<close>: it stores the low \<open>bits_left\<close> bits of
  \<open>cur_val\<close> from bit \<open>bit_pos\<close> of the buffer on, a byte at a time.\<close>

function pack_value :: "nat \<Rightarrow> u32 \<Rightarrow> nat \<Rightarrow> byte list \<Rightarrow> nat \<times> byte list" where
  "pack_value bits_left cur_val bit_pos out =
     (if 0 < bits_left then
        let byte_idx = bit_pos div 8;
            bit_offset = bit_pos mod 8;
            space_in_byte = 8 - bit_offset;
            bits_to_write = min bits_left space_in_byte;
            chunk = ucast (cur_val AND (push_bit bits_to_write 1 - 1));
            out' = out[byte_idx := out ! byte_idx OR push_bit bit_offset chunk]
        in pack_value (bits_left - bits_to_write) (drop_bit bits_to_write cur_val)
             (bit_pos + bits_to_write) out'
      else (bit_pos, out))"
  by pat_completeness auto
termination
  by (relation "measure (\<lambda>(bits_left, _). bits_left)") (auto simp: min_def)

declare pack_value.simps [simp del]

primrec pack_values :: "u16 list \<Rightarrow> nat \<Rightarrow> nat \<Rightarrow> byte list \<Rightarrow> nat \<times> byte list" where
  "pack_values [] bit_width bit_pos out = (bit_pos, out)"
| "pack_values (v # vs) bit_width bit_pos out =
     (let mask = push_bit bit_width 1 - 1;
          val = ucast v AND mask;
          (bit_pos', out') = pack_value bit_width val bit_pos out
      in pack_values vs bit_width bit_pos' out')"

definition bit_pack_u16 :: "u16 list \<Rightarrow> u8 \<Rightarrow> byte list \<Rightarrow> nat \<times> byte list" where
  "bit_pack_u16 values bit_width out =
     (if bit_width = 0 \<or> bit_width > 16 \<or> values = [] then (0, out)
      else let total_bits = length values * unat bit_width;
               bytes_needed = (total_bits + 7) div 8
           in if length out < bytes_needed then (0, out)
              else let out = patch 0 (replicate bytes_needed 0) out
                   in (bytes_needed, snd (pack_values values (unat bit_width) 0 out)))"

section \<open>Bit unpacking\<close>

text \<open>\<open>None\<close> is the early \<^verbatim>\<open>return i\<close> when the input ends inside a value.\<close>

function unpack_value :: "byte list \<Rightarrow> nat \<Rightarrow> nat \<Rightarrow> u32 \<Rightarrow> nat \<Rightarrow> (u32 \<times> nat) option" where
  "unpack_value input bit_width bits_read val bit_pos =
     (if bits_read < bit_width then
        let byte_idx = bit_pos div 8
        in if length input \<le> byte_idx then None
           else
             let bit_offset = bit_pos mod 8;
                 space_in_byte = 8 - bit_offset;
                 bits_to_take = min (bit_width - bits_read) space_in_byte;
                 byte_val = drop_bit bit_offset (input ! byte_idx);
                 chunk = (ucast byte_val :: u32) AND (push_bit bits_to_take 1 - 1)
             in unpack_value input bit_width (bits_read + bits_to_take)
                  (val OR push_bit bits_read chunk) (bit_pos + bits_to_take)
      else Some (val, bit_pos))"
  by pat_completeness auto
termination
  by (relation "measure (\<lambda>(_, bit_width, bits_read, _). bit_width - bits_read)") (auto simp: min_def)

declare unpack_value.simps [simp del]

text \<open>\<open>n\<close> values are still to be read, the next one goes to index \<open>i\<close>.\<close>

primrec unpack_values :: "nat \<Rightarrow> byte list \<Rightarrow> nat \<Rightarrow> nat \<Rightarrow> nat \<Rightarrow> u16 list \<Rightarrow> nat \<times> u16 list" where
  "unpack_values 0 input bit_width i bit_pos out = (i, out)"
| "unpack_values (Suc n) input bit_width i bit_pos out =
     (case unpack_value input bit_width 0 0 bit_pos of
        None \<Rightarrow> (i, out)
      | Some (val, bit_pos') \<Rightarrow>
          let mask = push_bit bit_width 1 - 1
          in unpack_values n input bit_width (Suc i) bit_pos' (out[i := ucast (val AND mask)]))"

definition bit_unpack_u16 :: "byte list \<Rightarrow> nat \<Rightarrow> u8 \<Rightarrow> u16 list \<Rightarrow> nat \<times> u16 list" where
  "bit_unpack_u16 input count bit_width out =
     (if bit_width = 0 \<or> bit_width > 16 \<or> count = 0 \<or> length out < count then (0, out)
      else unpack_values count input (unat bit_width) 0 0 out)"

section \<open>Widths and compressed runs\<close>

definition u16_leading_zeros :: "u16 \<Rightarrow> nat" where
  "u16_leading_zeros x = length (takeWhile (\<lambda>i. \<not> bit x (15 - i)) [0..<16])"

definition required_bit_width_u16 :: "u16 list \<Rightarrow> u8" where
  "required_bit_width_u16 xs =
     (let max_val = fold (\<lambda>v m. if v > m then v else m) xs 0
      in if max_val = 0 then 1 else 16 - of_nat (u16_leading_zeros max_val))"

definition zigzag :: "i32 \<Rightarrow> u32" where
  "zigzag diff = push_bit 1 diff XOR signed_drop_bit 31 diff"

text \<open>The value deltas of the loop over the records, \<open>prev\<close> the value before them.\<close>

primrec val_deltas :: "i32 \<Rightarrow> sensor_record list \<Rightarrow> u16 list" where
  "val_deltas prev [] = []"
| "val_deltas prev (r # rs) =
     (let diff = sr_quantized_val r - prev
      in ucast (zigzag diff AND 0xFFFF) # val_deltas (sr_quantized_val r) rs)"

definition compress_sensor_records :: "sensor_record list \<Rightarrow> byte list \<Rightarrow> nat \<times> byte list" where
  "compress_sensor_records records out =
     (if records = [] \<or> length out < 4 then (0, out)
      else
        let n = min (length records) 256;
            deltas = map sr_delta_ts_ms (take n records);
            bw_delta = max (required_bit_width_u16 deltas) 1;
            vdeltas = val_deltas 0 (take n records);
            bw_val = max (required_bit_width_u16 vdeltas) 1;
            out = patch 0 (le16 (of_nat n)) out;
            out = out[2 := bw_delta];
            out = out[3 := bw_val];
            cursor = 4;
            (delta_bytes, tl_out) = bit_pack_u16 deltas bw_delta (drop cursor out);
            out = take cursor out @ tl_out;
            cursor = cursor + delta_bytes;
            (val_bytes, tl_out) = bit_pack_u16 vdeltas bw_val (drop cursor out);
            out = take cursor out @ tl_out;
            cursor = cursor + val_bytes
        in (cursor, out))"

section \<open>Bits of a buffer\<close>

definition bit_at :: "byte list \<Rightarrow> nat \<Rightarrow> bool" where
  "bit_at out k \<longleftrightarrow> bit (out ! (k div 8)) (k mod 8)"

lemma ones_eq_mask: "push_bit n 1 - 1 = (mask n :: 'a::len word)" "2 ^ n - 1 = (mask n :: 'a::len word)"
  by (simp_all add: mask_eq_exp_minus_1 push_bit_of_1)

lemma div8_eqI: "8 * q \<le> k \<Longrightarrow> k < 8 * q + 8 \<Longrightarrow> k div 8 = (q :: nat)"
  by (simp add: div_nat_eqI)

lemma pack_value_done [simp]: "pack_value 0 cur bp out = (bp, out)"
  by (simp add: pack_value.simps [of 0])

lemma unpack_value_done [simp]: "w \<le> r \<Longrightarrow> unpack_value inp w r val bp = Some (val, bp)"
  by (simp add: unpack_value.simps [of inp w r])

lemma bit_byte_bound: "bit (b :: byte) j \<Longrightarrow> j < 8"
  using bit_imp_le_length [of b j] by simp

lemma pack_step_bit:
  assumes n: "n = min w (8 - bp mod 8)" and k: "k < 8 * length out" and bp: "bp < 8 * length out"
  shows "bit_at (out[bp div 8 := out ! (bp div 8) OR push_bit (bp mod 8) (ucast (cur AND mask n :: u32))]) k
    \<longleftrightarrow> bit_at out k \<or> bp \<le> k \<and> k < bp + n \<and> bit cur (k - bp)"
proof -
  have kd: "k = 8 * (k div 8) + k mod 8" and bd: "bp = 8 * (bp div 8) + bp mod 8" by simp_all
  have n8: "bp mod 8 + n \<le> 8" using n by simp
  show ?thesis
  proof (cases "k div 8 = bp div 8")
    case True
    have i: "bp div 8 < length out" using bp by (simp add: less_mult_imp_div_less mult.commute)
    have ge: "bp mod 8 \<le> k mod 8 \<longleftrightarrow> bp \<le> k" using True kd bd by linarith
    have sub: "k mod 8 - bp mod 8 = k - bp" if "bp \<le> k" using True that kd bd by linarith
    have lt: "k - bp < n \<longleftrightarrow> k < bp + n" "k < bp + n \<Longrightarrow> k - bp < 8 \<and> k - bp < 32" if "bp \<le> k"
      using that n8 by linarith+
    have "k mod 8 < 8" "n \<le> 8" "n < 32" using n8 by auto
    then show ?thesis
      using True i ge sub lt
      by (auto simp: bit_at_def bit_or_iff bit_push_bit_iff bit_ucast_iff bit_and_iff bit_mask_iff)
  next
    case False
    have "k div 8 = bp div 8" if "bp \<le> k" "k < bp + n"
      by (rule div8_eqI) (use that n8 bd in linarith)+
    with False show ?thesis by (auto simp: bit_at_def)
  qed
qed

lemma pack_value_spec:
  "pack_value w cur bp out = (bp', out') \<Longrightarrow> bp + w \<le> 8 * length out \<Longrightarrow>
   bp' = bp + w \<and> length out' = length out \<and>
   (\<forall>k < 8 * length out. bit_at out' k \<longleftrightarrow> bit_at out k \<or> bp \<le> k \<and> k < bp + w \<and> bit cur (k - bp))"
proof (induction w cur bp out arbitrary: bp' out' rule: pack_value.induct)
  case (1 w cur bp out)
  show ?case
  proof (cases "0 < w")
    case False
    then show ?thesis using "1.prems" by auto
  next
    case True
    define n where "n = min w (8 - bp mod 8)"
    let ?o = "out[bp div 8 := out ! (bp div 8) OR push_bit (bp mod 8) (ucast (cur AND mask n :: u32))]"
    have n: "0 < n" "n \<le> w" using True by (auto simp: n_def)
    have rec: "pack_value (w - n) (drop_bit n cur) (bp + n) ?o = (bp', out')"
      using "1.prems"(1) True by (simp add: pack_value.simps [of w] Let_def n_def ones_eq_mask)
    have IH: "bp' = bp + n + (w - n) \<and> length out' = length ?o \<and>
        (\<forall>k < 8 * length ?o. bit_at out' k \<longleftrightarrow>
           bit_at ?o k \<or> bp + n \<le> k \<and> k < bp + n + (w - n) \<and> bit (drop_bit n cur) (k - (bp + n)))"
      using "1.IH" [OF True refl refl refl refl refl refl, of bp' out'] rec "1.prems"(2) n(2)
      by (simp add: n_def ones_eq_mask Let_def)
    have "bit_at out' k \<longleftrightarrow> bit_at out k \<or> bp \<le> k \<and> k < bp + w \<and> bit cur (k - bp)"
      if k: "k < 8 * length out" for k
    proof -
      have "bit_at ?o k \<longleftrightarrow> bit_at out k \<or> bp \<le> k \<and> k < bp + n \<and> bit cur (k - bp)"
        by (rule pack_step_bit) (use k n "1.prems"(2) in \<open>auto simp: n_def\<close>)
      moreover have "bit (drop_bit n cur) (k - (bp + n)) = bit cur (k - bp)" if "bp + n \<le> k"
        using that by (simp add: bit_drop_bit_eq)
      ultimately show ?thesis using IH k n by (auto simp: not_le)
    qed
    with IH n show ?thesis by simp
  qed
qed

text \<open>Bit \<open>k\<close> of the stream that \<open>vs\<close> packs into at width \<open>w\<close>.\<close>

definition stream_bit :: "nat \<Rightarrow> u16 list \<Rightarrow> nat \<Rightarrow> bool" where
  "stream_bit w vs k \<longleftrightarrow> k < w * length vs \<and> bit (vs ! (k div w)) (k mod w)"

lemma stream_bit_Cons:
  "0 < w \<Longrightarrow> stream_bit w (v # vs) k \<longleftrightarrow> (if k < w then bit v k else stream_bit w vs (k - w))"
  by (auto simp: stream_bit_def le_div_geq le_mod_geq not_less)

lemma pack_values_spec:
  "pack_values vs w bp out = (bp', out') \<Longrightarrow> 0 < w \<Longrightarrow> w \<le> 16 \<Longrightarrow>
   bp + w * length vs \<le> 8 * length out \<Longrightarrow>
   bp' = bp + w * length vs \<and> length out' = length out \<and>
   (\<forall>k < 8 * length out. bit_at out' k \<longleftrightarrow> bit_at out k \<or> bp \<le> k \<and> stream_bit w vs (k - bp))"
proof (induction vs arbitrary: bp out)
  case Nil
  then show ?case by (simp add: stream_bit_def)
next
  case (Cons v vs)
  obtain bp1 out1 where s: "pack_value w (ucast v AND mask w) bp out = (bp1, out1)" by fastforce
  with Cons.prems(1) have r: "pack_values vs w bp1 out1 = (bp', out')"
    by (simp add: Let_def ones_eq_mask)
  from pack_value_spec [OF s] Cons.prems(4)
  have S: "bp1 = bp + w" "length out1 = length out"
    "\<And>k. k < 8 * length out \<Longrightarrow> bit_at out1 k \<longleftrightarrow>
       bit_at out k \<or> bp \<le> k \<and> k < bp + w \<and> bit (ucast v AND mask w :: u32) (k - bp)"
    by simp_all
  from Cons.IH [OF r] Cons.prems S
  have R: "bp' = bp + w * length (v # vs)" "length out' = length out"
    "\<And>k. k < 8 * length out \<Longrightarrow> bit_at out' k \<longleftrightarrow> bit_at out1 k \<or> bp1 \<le> k \<and> stream_bit w vs (k - bp1)"
    by simp_all
  have "bit_at out' k \<longleftrightarrow> bit_at out k \<or> bp \<le> k \<and> stream_bit w (v # vs) (k - bp)"
    if k: "k < 8 * length out" for k
  proof -
    have "bit (ucast v AND mask w :: u32) (k - bp) = bit v (k - bp)" if "k - bp < w"
      using that Cons.prems(3) by (simp add: bit_and_iff bit_ucast_iff bit_mask_iff)
    then show ?thesis
      using S(1,3) R(3) k Cons.prems(2) by (auto simp: stream_bit_Cons)
  qed
  with R show ?case by simp
qed

lemma unpack_step_bit:
  assumes n: "n = min (w - r) (8 - bp mod 8)" and j: "j < 32" and w: "w \<le> 16"
    and bp: "bp div 8 < length inp"
  shows "bit (val OR push_bit r ((ucast (drop_bit (bp mod 8) (inp ! (bp div 8))) :: u32) AND mask n)) j
    \<longleftrightarrow> bit val j \<or> r \<le> j \<and> j < r + n \<and> bit_at inp (bp + (j - r))"
proof -
  have n8: "bp mod 8 + n \<le> 8" using n by simp
  have pos: "(bp + i) div 8 = bp div 8" "(bp + i) mod 8 = bp mod 8 + i" if "i < n" for i
  proof -
    have a: "bp = 8 * (bp div 8) + bp mod 8" by simp
    show d: "(bp + i) div 8 = bp div 8"
      by (rule div8_eqI) (use that n8 a in linarith)+
    have "bp + i = 8 * ((bp + i) div 8) + (bp + i) mod 8" by simp
    with a d show "(bp + i) mod 8 = bp mod 8 + i" by linarith
  qed
  have lt: "j - r < n \<longleftrightarrow> j < r + n" "j - r < 32" if "r \<le> j" using that j by linarith+
  show ?thesis
    using j lt pos [of "j - r"]
    by (auto simp: bit_at_def bit_or_iff bit_push_bit_iff bit_and_iff bit_mask_iff bit_ucast_iff bit_drop_bit_eq)
qed

lemma unpack_value_spec:
  "r \<le> w \<Longrightarrow> w \<le> 16 \<Longrightarrow> bp + (w - r) \<le> 8 * length inp \<Longrightarrow>
   \<exists>val'. unpack_value inp w r val bp = Some (val', bp + (w - r)) \<and>
     (\<forall>j < 32. bit val' j \<longleftrightarrow> bit val j \<or> r \<le> j \<and> j < w \<and> bit_at inp (bp + (j - r)))"
proof (induction inp w r val bp rule: unpack_value.induct)
  case (1 inp w r val bp)
  show ?case
  proof (cases "r < w")
    case False
    then show ?thesis using "1.prems" by auto
  next
    case True
    define n where "n = min (w - r) (8 - bp mod 8)"
    let ?v = "val OR push_bit r ((ucast (drop_bit (bp mod 8) (inp ! (bp div 8))) :: u32) AND mask n)"
    have n: "0 < n" "r + n \<le> w" using True by (auto simp: n_def)
    have idx: "bp div 8 < length inp" using "1.prems"(3) True by (simp add: div_less_iff_less_mult)
    have step: "unpack_value inp w r val bp = unpack_value inp w (r + n) ?v (bp + n)"
      using True idx by (simp add: unpack_value.simps [of inp w r] Let_def n_def ones_eq_mask)
    have "\<exists>val'. unpack_value inp w (r + n) ?v (bp + n) = Some (val', bp + n + (w - (r + n))) \<and>
        (\<forall>j < 32. bit val' j \<longleftrightarrow> bit ?v j \<or> r + n \<le> j \<and> j < w \<and> bit_at inp (bp + n + (j - (r + n))))"
      by (rule "1.IH" [OF True refl _ refl refl refl refl refl, unfolded n_def [symmetric] ones_eq_mask])
         (use idx "1.prems" n in auto)
    then obtain val' where V: "unpack_value inp w (r + n) ?v (bp + n) = Some (val', bp + n + (w - (r + n)))"
        "\<And>j. j < 32 \<Longrightarrow> bit val' j \<longleftrightarrow> bit ?v j \<or> r + n \<le> j \<and> j < w \<and> bit_at inp (bp + n + (j - (r + n)))"
      by blast
    have "bit val' j \<longleftrightarrow> bit val j \<or> r \<le> j \<and> j < w \<and> bit_at inp (bp + (j - r))" if j: "j < 32" for j
    proof -
      have "bp + n + (j - (r + n)) = bp + (j - r)" if "r + n \<le> j" using that by simp
      then show ?thesis
        using V(2) [OF j] unpack_step_bit [OF n_def j "1.prems"(2) idx, of val] n by auto
    qed
    moreover have "bp + n + (w - (r + n)) = bp + (w - r)" using n by simp
    ultimately show ?thesis unfolding step using V(1) by auto
  qed
qed

lemma unpack_values_spec:
  "0 < w \<Longrightarrow> w \<le> 16 \<Longrightarrow> bp + w * n \<le> 8 * length inp \<Longrightarrow> i + n \<le> length out \<Longrightarrow>
   \<exists>out'. unpack_values n inp w i bp out = (i + n, out') \<and> length out' = length out \<and>
     (\<forall>m < length out. m < i \<or> i + n \<le> m \<longrightarrow> out' ! m = out ! m) \<and>
     (\<forall>m < n. \<forall>j. bit (out' ! (i + m)) j \<longleftrightarrow> j < w \<and> bit_at inp (bp + w * m + j))"
proof (induction n arbitrary: i bp out)
  case 0
  then show ?case by simp
next
  case (Suc n)
  have "bp + (w - 0) \<le> 8 * length inp" using Suc.prems by simp
  from unpack_value_spec [of 0 w bp inp 0, OF _ Suc.prems(2) this]
  obtain v where v: "unpack_value inp w 0 0 bp = Some (v, bp + w)"
    "\<And>j. j < 32 \<Longrightarrow> bit v j \<longleftrightarrow> j < w \<and> bit_at inp (bp + j)" by auto
  let ?o = "out[i := ucast (v AND mask w)]"
  have bv: "bit (ucast (v AND mask w) :: u16) j \<longleftrightarrow> j < w \<and> bit_at inp (bp + j)" for j
    using v(2) [of j] Suc.prems(2) by (auto simp: bit_ucast_iff bit_and_iff bit_mask_iff)
  have pre: "bp + w + w * n \<le> 8 * length inp" "Suc i + n \<le> length ?o" using Suc.prems by simp_all
  from Suc.IH [OF Suc.prems(1,2) pre] obtain out' where
    R: "unpack_values n inp w (Suc i) (bp + w) ?o = (Suc i + n, out')" "length out' = length ?o"
    and R3: "\<forall>m < length ?o. m < Suc i \<or> Suc i + n \<le> m \<longrightarrow> out' ! m = ?o ! m"
    and R4: "\<forall>m < n. \<forall>j. bit (out' ! (Suc i + m)) j \<longleftrightarrow> j < w \<and> bit_at inp (bp + w + w * m + j)"
    by blast
  have "bit (out' ! (i + m)) j \<longleftrightarrow> j < w \<and> bit_at inp (bp + w * m + j)" if "m < Suc n" for m j
  proof (cases m)
    case 0
    then show ?thesis using R3 bv Suc.prems(4) by simp
  next
    case (Suc m')
    moreover from this that have "m' < n" by simp
    moreover have "bp + w + w * m' + j = bp + w * Suc m' + j" by simp
    ultimately show ?thesis using R4 by (metis add_Suc_shift)
  qed
  then show ?case
    using R R3 Suc.prems(4) v(1) by (auto simp: Let_def ones_eq_mask)
qed

lemma bit_at_zeroed: "k < 8 * n \<Longrightarrow> n \<le> length out \<Longrightarrow> \<not> bit_at (patch 0 (replicate n 0) out) k"
  by (simp add: bit_at_def nth_patch less_mult_imp_div_less mult.commute)

text \<open>What a packed buffer holds.\<close>

lemma bit_pack_u16_spec:
  assumes "bit_width \<noteq> 0" "bit_width \<le> 16" "values \<noteq> []"
    and n: "n = (length values * unat bit_width + 7) div 8" "n \<le> length out"
  shows "\<exists>packed. bit_pack_u16 values bit_width out = (n, packed) \<and> length packed = length out \<and>
    (\<forall>k < 8 * n. bit_at packed k \<longleftrightarrow> stream_bit (unat bit_width) values k)"
proof -
  let ?w = "unat bit_width"
  have w: "0 < ?w" "?w \<le> 16"
    using assms(1,2) by (simp_all add: unat_gt_0 word_le_nat_alt)
  have n8: "?w * length values \<le> 8 * n" using n(1) by (simp add: mult.commute)
  obtain bp packed where p: "pack_values values ?w 0 (patch 0 (replicate n 0) out) = (bp, packed)"
    by fastforce
  from pack_values_spec [OF p w] n8 n(2)
  have "length packed = length out"
    "\<And>k. k < 8 * length out \<Longrightarrow> bit_at packed k \<longleftrightarrow>
       bit_at (patch 0 (replicate n 0) out) k \<or> stream_bit ?w values k" by auto
  then show ?thesis
    using assms p bit_at_zeroed [of _ n out]
    by (auto simp: bit_pack_u16_def Let_def not_less [symmetric])
qed

text \<open>Any input that starts with the packed bytes unpacks to the masked values.\<close>

lemma bit_unpack_packed:
  assumes "bit_width \<noteq> 0" "bit_width \<le> 16" "values \<noteq> []"
    and n: "n = (length values * unat bit_width + 7) div 8" "n \<le> length inp"
    and inp: "\<And>k. k < 8 * n \<Longrightarrow> bit_at inp k \<longleftrightarrow> stream_bit (unat bit_width) values k"
    and "length values \<le> length out"
  shows "bit_unpack_u16 inp (length values) bit_width out =
    (length values, map (\<lambda>v. v AND mask (unat bit_width)) values @ drop (length values) out)"
proof -
  let ?w = "unat bit_width" and ?l = "length values"
  have w: "0 < ?w" "?w \<le> 16"
    using assms(1,2) by (simp_all add: unat_gt_0 word_le_nat_alt)
  have n8: "?w * ?l \<le> 8 * n" using n(1) by (simp add: mult.commute)
  from unpack_values_spec [OF w, of 0 ?l inp 0 out] n8 n(2) assms(7)
  obtain out' where R: "unpack_values ?l inp ?w 0 0 out = (?l, out')" "length out' = length out"
    "\<And>m. m < length out \<Longrightarrow> ?l \<le> m \<Longrightarrow> out' ! m = out ! m"
    "\<And>m j. m < ?l \<Longrightarrow> bit (out' ! m) j \<longleftrightarrow> j < ?w \<and> bit_at inp (?w * m + j)" by auto
  have "out' = map (\<lambda>v. v AND mask ?w) values @ drop ?l out"
  proof (rule nth_equalityI)
    fix m assume m: "m < length out'"
    show "out' ! m = (map (\<lambda>v. v AND mask ?w) values @ drop ?l out) ! m"
    proof (cases "m < ?l")
      case True
      have "bit (out' ! m) j \<longleftrightarrow> bit (values ! m AND mask ?w) j" for j
      proof (cases "j < ?w")
        case j: True
        have "?w * m + j < ?w * Suc m" using j by simp
        also have "\<dots> \<le> ?w * ?l" using True by (intro mult_le_mono2) simp
        finally have "?w * m + j < ?w * ?l" .
        then show ?thesis
          using R(4) [OF True, of j] j inp [of "?w * m + j"] n8 w
          by (auto simp: stream_bit_def bit_and_iff bit_mask_iff dest: bit_imp_le_length)
      next
        case False
        then show ?thesis using R(4) [OF True, of j] by (simp add: bit_and_iff bit_mask_iff)
      qed
      then show ?thesis using True by (simp add: nth_append bit_eq_iff)
    next
      case False
      then show ?thesis using R(2,3) m by (simp add: nth_append)
    qed
  qed (use R(2) assms(7) in simp)
  with R(1) show ?thesis using assms by (auto simp: bit_unpack_u16_def)
qed

section \<open>The computed width\<close>

lemma fold_max_u16:
  "(\<forall>v \<in> set xs. v \<le> fold (\<lambda>v m. if v > m then v else m) xs (m :: u16)) \<and>
   m \<le> fold (\<lambda>v m. if v > m then v else m) xs m \<and>
   (fold (\<lambda>v m. if v > m then v else m) xs m = m \<or> fold (\<lambda>v m. if v > m then v else m) xs m \<in> set xs)"
proof (induction xs arbitrary: m)
  case Nil
  then show ?case by simp
next
  case (Cons v vs)
  define m' where "m' = (if v > m then v else m)"
  have "v \<le> m'" "m \<le> m'" "m' = v \<or> m' = m" by (auto simp: m'_def)
  with Cons.IH [of m'] show ?case
    by (auto simp flip: m'_def intro: order_trans)
qed

lemma u16_leading_zeros:
  assumes "x \<noteq> 0"
  shows "u16_leading_zeros x < 16" "bit x (15 - u16_leading_zeros x)"
    "\<And>k. 16 - u16_leading_zeros x \<le> k \<Longrightarrow> \<not> bit x k"
proof -
  let ?P = "\<lambda>i. \<not> bit x (15 - i)"
  let ?z = "u16_leading_zeros x"
  obtain b where b: "bit x b" using assms by (auto simp: bit_eq_iff)
  have b16: "b < 16" using bit_imp_le_length [OF b] by simp
  show z: "?z < 16"
  proof (rule ccontr)
    assume "\<not> ?z < 16"
    then have "length (takeWhile ?P [0..<16]) = length [0..<16]"
      using length_takeWhile_le [of ?P "[0..<16]"] by (simp add: u16_leading_zeros_def)
    then have "takeWhile ?P [0..<16] = [0..<16]"
      by (metis takeWhile_eq_take take_all_iff order_refl)
    then have "\<forall>i \<in> set [0..<16]. ?P i" by (simp only: takeWhile_eq_all_conv)
    moreover have "15 - b \<in> set [0..<16]" "15 - (15 - b) = b" using b16 by auto
    ultimately show False using b by metis
  qed
  show "bit x (15 - ?z)"
    using nth_length_takeWhile [of ?P "[0..<16]"] z by (simp add: u16_leading_zeros_def)
  fix k assume k: "16 - ?z \<le> k"
  show "\<not> bit x k"
  proof
    assume bk: "bit x k"
    then have k16: "k < 16" using bit_imp_le_length [OF bk] by simp
    then have "15 - k < ?z" using k z by linarith
    then have "?P (takeWhile ?P [0..<16] ! (15 - k))"
      using nth_mem [of "15 - k" "takeWhile ?P [0..<16]"] set_takeWhileD
      by (fastforce simp: u16_leading_zeros_def)
    moreover have "takeWhile ?P [0..<16] ! (15 - k) = 15 - k"
      using \<open>15 - k < ?z\<close> k16 by (simp add: u16_leading_zeros_def takeWhile_nth)
    ultimately show False using bk k16 by simp
  qed
qed

lemma unat_less_exp_iff: "unat (x :: 'a::len word) < 2 ^ n \<longleftrightarrow> (\<forall>k \<ge> n. \<not> bit x k)"
proof -
  have "unat x < 2 ^ n \<longleftrightarrow> take_bit n x = x"
    by (metis take_bit_nat_eq_self_iff unsigned_take_bit_eq unsigned_word_eqI)
  also have "\<dots> \<longleftrightarrow> (\<forall>k \<ge> n. \<not> bit x k)"
    by (auto simp: bit_eq_iff bit_take_bit_iff not_less [symmetric] dest: bit_imp_le_length)
  finally show ?thesis .
qed

lemma required_bit_width_u16_spec:
  defines "w \<equiv> \<lambda>xs. unat (required_bit_width_u16 xs)"
  shows "1 \<le> w xs \<and> w xs \<le> 16 \<and> (\<forall>v \<in> set xs. unat v < 2 ^ w xs) \<and>
    (w xs = 1 \<or> (\<exists>v \<in> set xs. 2 ^ (w xs - 1) \<le> unat v))"
proof -
  let ?m = "fold (\<lambda>v m. if v > m then v else m) xs (0 :: u16)"
  have m: "\<forall>v \<in> set xs. v \<le> ?m" "?m = 0 \<or> ?m \<in> set xs" using fold_max_u16 [of xs 0] by auto
  show ?thesis
  proof (cases "?m = 0")
    case True
    then have "w xs = 1" by (simp add: w_def required_bit_width_u16_def)
    with m(1) True show ?thesis by auto
  next
    case False
    let ?z = "u16_leading_zeros ?m"
    note z = u16_leading_zeros [OF False]
    have w: "w xs = 16 - ?z"
      using z(1) False by (simp add: w_def required_bit_width_u16_def unat_sub word_le_nat_alt
          unat_of_nat take_bit_nat_eq_self)
    have "unat ?m < 2 ^ w xs" unfolding w using z(3) by (simp add: unat_less_exp_iff)
    then have "\<forall>v \<in> set xs. unat v < 2 ^ w xs" using m(1) by (auto simp: word_le_nat_alt)
    moreover have "2 ^ (w xs - 1) \<le> unat ?m"
    proof -
      have "w xs - 1 = 15 - ?z" using w z(1) by simp
      then have "\<not> unat ?m < 2 ^ (w xs - 1)" using z(2) by (auto simp: unat_less_exp_iff)
      then show ?thesis by simp
    qed
    ultimately show ?thesis using w z(1) m(2) False by auto
  qed
qed

lemma fits_and_mask: "unat (v :: u16) < 2 ^ w \<Longrightarrow> v AND mask w = v"
  unfolding unat_less_exp_iff
  by (rule bit_word_eqI) (auto simp: bit_and_iff bit_mask_iff not_le [symmetric])

lemma required_width_range:
  "required_bit_width_u16 xs \<noteq> 0" "required_bit_width_u16 xs \<le> 16"
  "max (required_bit_width_u16 xs) 1 = required_bit_width_u16 xs"
  "v \<in> set xs \<Longrightarrow> v AND mask (unat (required_bit_width_u16 xs)) = v"
proof -
  note r = required_bit_width_u16_spec [of xs]
  show "required_bit_width_u16 xs \<noteq> 0" using r by (auto simp: unat_eq_0)
  show "required_bit_width_u16 xs \<le> 16" using r by (simp add: word_le_nat_alt)
  have "1 \<le> required_bit_width_u16 xs" using r by (simp add: word_le_nat_alt)
  then show "max (required_bit_width_u16 xs) 1 = required_bit_width_u16 xs" by (simp add: max_def)
  show "v \<in> set xs \<Longrightarrow> v AND mask (unat (required_bit_width_u16 xs)) = v"
    using r by (auto intro: fits_and_mask)
qed

lemma bit_at_append: "k < 8 * length xs \<Longrightarrow> bit_at (xs @ ys) k = bit_at xs k"
  by (simp add: bit_at_def nth_append less_mult_imp_div_less mult.commute)

lemma bit_at_take: "k < 8 * n \<Longrightarrow> bit_at (take n xs) k = bit_at xs k"
  by (simp add: bit_at_def less_mult_imp_div_less mult.commute)

lemma pack_section_decodes:
  assumes "xs \<noteq> []" "n = (length xs * unat (required_bit_width_u16 xs) + 7) div 8" "n \<le> length out"
    and "length xs \<le> length buf"
  shows "\<exists>packed. bit_pack_u16 xs (required_bit_width_u16 xs) out = (n, packed) \<and>
    length packed = length out \<and>
    (\<forall>rest. bit_unpack_u16 (take n packed @ rest) (length xs) (required_bit_width_u16 xs) buf =
       (length xs, xs @ drop (length xs) buf))"
proof -
  let ?w = "required_bit_width_u16 xs"
  note r = required_width_range(1,2) [of xs]
  from bit_pack_u16_spec [OF r assms(1-3)] obtain packed where
    p: "bit_pack_u16 xs ?w out = (n, packed)" "length packed = length out"
      "\<And>k. k < 8 * n \<Longrightarrow> bit_at packed k \<longleftrightarrow> stream_bit (unat ?w) xs k" by auto
  have "bit_unpack_u16 (take n packed @ rest) (length xs) ?w buf = (length xs, xs @ drop (length xs) buf)" for rest
  proof -
    have "map (\<lambda>v. v AND mask (unat ?w)) xs = xs"
      by (rule map_idI) (rule required_width_range(4))
    then show ?thesis
      using bit_unpack_packed [OF r assms(1,2), of "take n packed @ rest" buf] p assms(3,4)
      by (simp add: bit_at_append bit_at_take min_def)
  qed
  with p show ?thesis by blast
qed

lemma length_val_deltas [simp]: "length (val_deltas prev rs) = length rs"
  by (induction rs arbitrary: prev) (simp_all add: Let_def)

lemma bit_zigzag:
  "bit (zigzag v) k \<longleftrightarrow> k < 32 \<and> ((0 < k \<and> bit v (k - 1)) \<noteq> bit v 31)"
proof (cases "k < 32")
  case True
  then show ?thesis
    unfolding zigzag_def bit_xor_iff bit_push_bit_iff bit_signed_drop_bit_iff
    by (cases "k = 0") (auto simp: possible_bit_def bit_imp_le_length)
next
  case False
  then show ?thesis using bit_imp_le_length [of "zigzag v" k] by auto
qed

section \<open>Properties\<close>

text \<open>packing values at a width of 1 to 16 bits uses exactly the bytes that many bits need,
  and unpacking those bytes gives the values back, reduced to their low bits; so values
  that fit the width survive unchanged.\<close>

theorem bit_pack_unpack_roundtrip:
  assumes "bit_width \<noteq> 0" "bit_width \<le> 16" "values \<noteq> []"
    and "(length values * unat bit_width + 7) div 8 \<le> length out" "length values \<le> length buf"
  shows "fst (bit_pack_u16 values bit_width out) = (length values * unat bit_width + 7) div 8 \<and>
    bit_unpack_u16 (take (fst (bit_pack_u16 values bit_width out)) (snd (bit_pack_u16 values bit_width out)))
      (length values) bit_width buf =
    (length values, map (\<lambda>v. v AND mask (unat bit_width)) values @ drop (length values) buf)"
proof -
  from bit_pack_u16_spec [OF assms(1-3) refl assms(4)] obtain packed where
    p: "bit_pack_u16 values bit_width out = ((length values * unat bit_width + 7) div 8, packed)"
      "length packed = length out"
      "\<And>k. k < 8 * ((length values * unat bit_width + 7) div 8) \<Longrightarrow>
         bit_at packed k \<longleftrightarrow> stream_bit (unat bit_width) values k" by auto
  then show ?thesis
    using bit_unpack_packed [OF assms(1-3) refl, of "take ((length values * unat bit_width + 7) div 8) packed" buf]
      assms(4,5) by (simp add: bit_at_take)
qed

theorem bit_pack_unpack_roundtrip_witness:
  "bit_unpack_u16 (take (fst (bit_pack_u16 [5, 3, 21] 4 (replicate 4 0xFF)))
      (snd (bit_pack_u16 [5, 3, 21] 4 (replicate 4 0xFF)))) 3 4 [0, 0, 0, 9] = (3, [5, 3, 5, 9])"
proof -
  have l: "length [5, 3, 21 :: u16] = 3" by simp
  note r = bit_pack_unpack_roundtrip [of 4 "[5, 3, 21]" "replicate 4 0xFF" "[0, 0, 0, 9]", unfolded l]
  have "bit_unpack_u16 (take (fst (bit_pack_u16 [5, 3, 21] 4 (replicate 4 0xFF)))
      (snd (bit_pack_u16 [5, 3, 21] 4 (replicate 4 0xFF)))) 3 4 [0, 0, 0, 9] =
    (3, map (\<lambda>v. v AND mask (unat (4 :: u8))) [5, 3, 21] @ drop 3 [0, 0, 0, 9])"
    by (rule r [THEN conjunct2]) simp_all
  then show ?thesis by (simp only:) (simp add: mask_eq_exp_minus_1)
qed

text \<open>the width computed for a slice lies between 1 and 16, every value of the slice fits
  in it, and no smaller width would do.\<close>

theorem required_bit_width_exact:
  "let w = unat (required_bit_width_u16 xs) in
   1 \<le> w \<and> w \<le> 16 \<and> (\<forall>v. v \<in> set xs \<longrightarrow> unat v < 2 ^ w) \<and>
   (w = 1 \<or> (\<exists>v. v \<in> set xs \<and> 2 ^ (w - 1) \<le> unat v))"
  using required_bit_width_u16_spec [of xs] by (auto simp: Let_def)

theorem required_bit_width_exact_witness:
  "let w = unat (required_bit_width_u16 [5, 300]) in
   unat (300 :: u16) < 2 ^ w \<and> w = 9"
proof -
  have "(if (0 :: u16) < 5 then 5 else 0) = (5 :: u16)" by simp
  have w: "required_bit_width_u16 [5, 300] = 9"
    by (simp add: required_bit_width_u16_def u16_leading_zeros_def upt_rec)
  with required_bit_width_exact [of "[5, 300]"] show ?thesis by (auto simp: Let_def)
qed

text \<open>a compressed run of sensor records, written to a buffer with room for it, starts with
  the number of records and the two widths; its two sections unpack to the delta
  timestamps and to the zig-zag value deltas of the (at most 256) records.\<close>

theorem compress_sensor_records_decodes:
  fixes records out
  defines "n \<equiv> min (length records) 256"
  defines "ds \<equiv> map sr_delta_ts_ms (take n records)" and "vs \<equiv> val_deltas 0 (take n records)"
  defines "nd \<equiv> (n * unat (required_bit_width_u16 ds) + 7) div 8"
    and "nv \<equiv> (n * unat (required_bit_width_u16 vs) + 7) div 8"
  assumes "records \<noteq> []" "4 + nd + nv \<le> length out" "length buf = n"
  shows "\<exists>res. compress_sensor_records records out = (4 + nd + nv, res) \<and> length res = length out \<and>
    take 4 res = le16 (of_nat n) @ [required_bit_width_u16 ds, required_bit_width_u16 vs] \<and>
    bit_unpack_u16 (drop 4 res) n (required_bit_width_u16 ds) buf = (n, ds) \<and>
    bit_unpack_u16 (drop (4 + nd) res) n (required_bit_width_u16 vs) buf = (n, vs)"
proof -
  have len: "length ds = n" "length vs = n" by (simp_all add: ds_def vs_def n_def)
  have "0 < n" using assms(6) by (simp add: n_def)
  with len have ne: "ds \<noteq> []" "vs \<noteq> []" by auto
  define o1 where "o1 = ((patch 0 (le16 (of_nat n)) out)[2 := required_bit_width_u16 ds])[3 := required_bit_width_u16 vs]"
  have l1: "length o1 = length out" using assms(7) by (simp add: o1_def)
  have hd4: "take 4 o1 = le16 (of_nat n) @ [required_bit_width_u16 ds, required_bit_width_u16 vs]"
  proof -
    obtain a b c d rest where "out = a # b # c # d # rest"
      using assms(7) by (auto simp: eval_nat_numeral Suc_le_length_iff)
    then show ?thesis by (simp add: o1_def patch_def to_le_eval)
  qed
  have "nd \<le> length (drop 4 o1)" using assms(7) l1 by simp
  from pack_section_decodes [OF ne(1) _ this, of buf] obtain p1 where
    p1: "bit_pack_u16 ds (required_bit_width_u16 ds) (drop 4 o1) = (nd, p1)" "length p1 = length (drop 4 o1)"
      "\<And>rest. bit_unpack_u16 (take nd p1 @ rest) n (required_bit_width_u16 ds) buf = (n, ds)"
    using len assms(8) by (auto simp: nd_def)
  have "nv \<le> length (drop nd p1)" using assms(7) l1 p1(2) by simp
  from pack_section_decodes [OF ne(2) _ this, of buf] obtain p2 where
    p2: "bit_pack_u16 vs (required_bit_width_u16 vs) (drop nd p1) = (nv, p2)" "length p2 = length (drop nd p1)"
      "\<And>rest. bit_unpack_u16 (take nv p2 @ rest) n (required_bit_width_u16 vs) buf = (n, vs)"
    using len assms(8) by (auto simp: nv_def)
  have c: "compress_sensor_records records out = (4 + nd + nv, take 4 o1 @ take nd p1 @ p2)"
    using assms(6,7) p1(1) p2(1) l1
    by (simp add: compress_sensor_records_def Let_def required_width_range(3)
        flip: n_def ds_def vs_def o1_def del: drop_update_cancel)
  have l4: "length (take 4 o1) = 4" and lnd: "length (take nd p1) = nd"
    using assms(7) l1 p1(2) by simp_all
  let ?res = "take 4 o1 @ take nd p1 @ p2"
  have d4: "drop 4 ?res = take nd p1 @ p2" using l4 by simp
  have dn: "drop (4 + nd) ?res = take nv p2 @ drop nv p2" using l4 lnd by simp
  have lr: "length ?res = length out" using p1(2) p2(2) l1 l4 lnd assms(7) by simp
  have t4: "take 4 ?res = le16 (of_nat n) @ [required_bit_width_u16 ds, required_bit_width_u16 vs]"
    using hd4 l4 by simp
  have "bit_unpack_u16 (drop 4 ?res) n (required_bit_width_u16 ds) buf = (n, ds)"
      "bit_unpack_u16 (drop (4 + nd) ?res) n (required_bit_width_u16 vs) buf = (n, vs)"
    by (simp_all only: d4 dn p1(3) p2(3))
  with c lr t4 show ?thesis by blast
qed

theorem compress_sensor_records_decodes_witness:
  "\<exists>res. compress_sensor_records [sensor_record_new 0 1 1 3 0, sensor_record_new 100 1 1 5 0]
      (replicate 16 0) = (7, res) \<and> bit_unpack_u16 (drop 4 res) 2 7 [0, 0] = (2, [0, 100]) \<and>
    bit_unpack_u16 (drop 6 res) 2 3 [0, 0] = (2, [6, 4])"
proof -
  let ?rs = "[sensor_record_new 0 1 1 3 0, sensor_record_new 100 1 1 5 0]"
  have n: "min (length ?rs) 256 = 2" by simp
  have ds: "map sr_delta_ts_ms (take 2 ?rs) = [0, 100]"
    by (simp add: sensor_record_new_def Let_def)
  have sd: "signed_drop_bit 31 (3 :: i32) = 0" "signed_drop_bit 31 (2 :: i32) = 0"
    by (rule bit_word_eqI, simp add: bit_signed_drop_bit_iff, simp add: bit_numeral_rec)+
  have vs: "val_deltas 0 (take 2 ?rs) = [6, 4]"
    by (simp add: sensor_record_new_def Let_def zigzag_def sd)
  have w: "required_bit_width_u16 [0, 100] = 7" "required_bit_width_u16 [6, 4] = 3"
    by (simp_all add: required_bit_width_u16_def u16_leading_zeros_def upt_rec)
  have a: "(2 * unat (7 :: u8) + 7) div 8 = (2 :: nat)" "(2 * unat (3 :: u8) + 7) div 8 = (1 :: nat)"
      "6 + 1 = (7 :: nat)" "4 + 2 = (6 :: nat)"
    by simp_all
  have "\<exists>res. compress_sensor_records ?rs (replicate 16 0) = (7, res) \<and> length res = length (replicate 16 (0 :: byte)) \<and>
    take 4 res = le16 (of_nat 2) @ [7, 3] \<and> bit_unpack_u16 (drop 4 res) 2 7 [0, 0] = (2, [0, 100]) \<and>
    bit_unpack_u16 (drop 6 res) 2 3 [0, 0] = (2, [6, 4])"
    by (rule compress_sensor_records_decodes [of ?rs "replicate 16 0" "[0, 0]", unfolded n ds vs w a]) simp_all
  then show ?thesis by blast
qed

text \<open>Each value delta is cut to 16 bits, so compression is lossy: a record's value
  enters the compressed run of that record through its sign and its low 15 bits
  only, and values that agree on these compress to the same bytes.\<close>

theorem compress_sensor_records_lossy:
  assumes "bit v 31 = bit v' 31" "take_bit 15 v = take_bit 15 v'"
  shows "compress_sensor_records [r\<lparr>sr_quantized_val := v\<rparr>] out =
    compress_sensor_records [r\<lparr>sr_quantized_val := v'\<rparr>] out"
proof -
  have low: "bit v k = bit v' k" if "k < 15" for k
    using assms(2) that by (metis bit_take_bit_iff)
  have "zigzag v AND 0xFFFF = zigzag v' AND 0xFFFF"
  proof (rule bit_word_eqI)
    fix k
    have "(0xFFFF :: u32) = mask 16" by (simp add: mask_eq_exp_minus_1)
    then show "bit (zigzag v AND 0xFFFF) k = bit (zigzag v' AND 0xFFFF) k"
      using assms(1) low [of "k - 1"]
      by (cases "k < 16") (simp_all only: bit_and_iff bit_mask_iff bit_zigzag, auto)
  qed
  then show ?thesis by (simp add: compress_sensor_records_def Let_def)
qed

theorem compress_sensor_records_lossy_witness:
  "compress_sensor_records [sensor_record_new 0 1 1 0 0\<lparr>sr_quantized_val := 7\<rparr>] [0, 0, 0, 0, 0, 0, 0, 0] =
   compress_sensor_records [sensor_record_new 0 1 1 0 0\<lparr>sr_quantized_val := 65543\<rparr>] [0, 0, 0, 0, 0, 0, 0, 0]"
  by (rule compress_sensor_records_lossy) (simp_all add: take_bit_eq_mod)

end
