(* ===== verification/Edge_Merkle.thy ===== *)
theory Edge_Merkle
  imports Prelude
begin

text \<open>
  The RFC 6962 Merkle commitments of \<^verbatim>\<open>crates/s3a-edge/src/merkle.rs\<close>.  SHA-256 comes
  from the \<^verbatim>\<open>sha2\<close> crate and is the parameter \<open>sha\<close> of every definition.  Slice indices
  (\<^verbatim>\<open>usize\<close>) are natural numbers; the verifier's \<^verbatim>\<open>u64\<close> registers stay machine words.
  The section after the operations gives the verifier's loop a specification (the
  directions of the audit path), and the lemmas show that generated paths verify, that
  only the committed record verifies, and that a root determines the records.
\<close>

type_synonym hash = "byte list"
type_synonym sha256 = "byte list \<Rightarrow> hash"

section \<open>Hashing and roots\<close>

definition MAX_PROOF_LEN :: nat where "MAX_PROOF_LEN = 64"

definition empty_root :: "sha256 \<Rightarrow> hash" where
  "empty_root sha = sha []"

definition leaf_hash :: "sha256 \<Rightarrow> byte list \<Rightarrow> hash" where
  "leaf_hash sha rec = sha (0x00 # rec)"

definition node_hash :: "sha256 \<Rightarrow> hash \<Rightarrow> hash \<Rightarrow> hash" where
  "node_hash sha left right = sha (0x01 # left @ right)"

text \<open>The doubling loop of \<^verbatim>\<open>split\<close>; it is entered with \<open>k = 1\<close>, and a zero \<open>k\<close> is never reached.\<close>

function split_loop :: "nat \<Rightarrow> nat \<Rightarrow> nat" where
  "split_loop k n = (if 0 < k \<and> 2 * k < n then split_loop (2 * k) n else k)"
  by pat_completeness auto
termination by (relation "measure (\<lambda>(k, n). n - k)") auto

declare split_loop.simps [simp del]

definition merkle_split :: "nat \<Rightarrow> nat" where
  "merkle_split n = split_loop 1 n"

lemma split_loop_range: "0 < k \<Longrightarrow> k < n \<Longrightarrow> \<exists>j. split_loop k n = k * 2 ^ j \<and> k * 2 ^ j < n \<and> n \<le> 2 * (k * 2 ^ j)"
proof (induction k n rule: split_loop.induct)
  case (1 k n)
  show ?case
  proof (cases "2 * k < n")
    case True
    with 1 obtain j where
      "split_loop (2 * k) n = 2 * k * 2 ^ j" "2 * k * 2 ^ j < n" "n \<le> 2 * (2 * k * 2 ^ j)" by auto
    with True 1(2) show ?thesis by (intro exI [of _ "Suc j"]) (simp add: split_loop.simps [of k])
  next
    case False
    with 1(2,3) show ?thesis by (intro exI [of _ 0]) (simp add: split_loop.simps)
  qed
qed

lemma merkle_split_range:
  assumes "2 \<le> n"
  obtains j where "merkle_split n = 2 ^ j" "2 ^ j < n" "n \<le> 2 * 2 ^ j"
  using split_loop_range [of 1 n] assms by (auto simp: merkle_split_def)

lemma merkle_split_bounds:
  assumes "Suc 0 < n"
  shows "0 < merkle_split n" "merkle_split n < n"
  using assms by (auto intro: merkle_split_range [of n])

text \<open>\<^verbatim>\<open>go\<close> is called with \<open>n \<ge> 1\<close> only (the empty tree is answered before it).\<close>

function root_go :: "sha256 \<Rightarrow> nat \<Rightarrow> nat \<Rightarrow> (nat \<Rightarrow> byte list) \<Rightarrow> hash" where
  "root_go sha lo n leaf =
    (if n \<le> 1 then leaf_hash sha (leaf lo)
     else let k = merkle_split n in
       node_hash sha (root_go sha lo k leaf) (root_go sha (lo + k) (n - k) leaf))"
  by pat_completeness auto
termination
  by (relation "measure (\<lambda>(sha, lo, n, leaf). n)") (auto simp: merkle_split_bounds not_le)

declare root_go.simps [simp del]

definition root_with :: "sha256 \<Rightarrow> nat \<Rightarrow> (nat \<Rightarrow> byte list) \<Rightarrow> hash" where
  "root_with sha n leaf = (if n = 0 then empty_root sha else root_go sha 0 n leaf)"

definition merkle_root :: "sha256 \<Rightarrow> byte list list \<Rightarrow> hash" where
  "merkle_root sha records = root_with sha (length records) (\<lambda>i. records ! i)"

definition merkle_root_fixed :: "sha256 \<Rightarrow> byte list \<Rightarrow> nat \<Rightarrow> hash option" where
  "merkle_root_fixed sha data record_size =
    (if record_size = 0 \<or> length data mod record_size \<noteq> 0 then None
     else let n = length data div record_size in
       Some (root_with sha n (\<lambda>i. window (i * record_size) record_size data)))"

section \<open>Inclusion proofs\<close>

text \<open>
  The loop of \<^verbatim>\<open>inclusion_proof_with\<close>.  The caller's buffer \<open>out\<close> keeps its length; a
  result \<open>None\<close> leaves the siblings collected so far in it.
\<close>

function proof_walk ::
  "sha256 \<Rightarrow> (nat \<Rightarrow> byte list) \<Rightarrow> nat \<Rightarrow> nat \<Rightarrow> nat \<Rightarrow> nat \<Rightarrow> hash list \<Rightarrow> hash list \<times> nat option" where
  "proof_walk sha leaf lo sz m len out =
    (if 1 < sz then
       let k = merkle_split sz in
       if length out \<le> len then (out, None)
       else if m < k then
         proof_walk sha leaf lo k m (len + 1)
           (out[len := root_with sha (sz - k) (\<lambda>i. leaf (lo + k + i))])
       else
         proof_walk sha leaf (lo + k) (sz - k) (m - k) (len + 1)
           (out[len := root_with sha k (\<lambda>i. leaf (lo + i))])
     else (rev (take len out) @ drop len out, Some len))"
  by pat_completeness auto
termination
  by (relation "measure (\<lambda>(sha, leaf, lo, sz, m, len, out). sz)")
    (auto simp: merkle_split_bounds not_le)

declare proof_walk.simps [simp del]

definition inclusion_proof_with ::
  "sha256 \<Rightarrow> nat \<Rightarrow> nat \<Rightarrow> (nat \<Rightarrow> byte list) \<Rightarrow> hash list \<Rightarrow> hash list \<times> nat option" where
  "inclusion_proof_with sha n index leaf out =
    (if n \<le> index then (out, None) else proof_walk sha leaf 0 n index 0 out)"

definition inclusion_proof_fixed ::
  "sha256 \<Rightarrow> byte list \<Rightarrow> nat \<Rightarrow> nat \<Rightarrow> hash list \<Rightarrow> hash list \<times> nat option" where
  "inclusion_proof_fixed sha data record_size index out =
    (if record_size = 0 \<or> length data mod record_size \<noteq> 0 then (out, None)
     else inclusion_proof_with sha (length data div record_size) index
       (\<lambda>i. window (i * record_size) record_size data) out)"

text \<open>The inner \<^verbatim>\<open>while\<close> of the verifier, then one round per sibling.\<close>

function skip_even :: "u64 \<Rightarrow> u64 \<Rightarrow> u64 \<times> u64" where
  "skip_even fnn sn =
    (if fnn AND 1 = 0 \<and> fnn \<noteq> 0 then skip_even (drop_bit 1 fnn) (drop_bit 1 sn) else (fnn, sn))"
  by pat_completeness auto
termination
proof (relation "measure (\<lambda>(fnn, sn). unat fnn)", simp, clarify)
  fix fnn :: u64
  assume "fnn \<noteq> 0"
  then have "0 < unat fnn" by (simp add: unat_gt_0)
  then show "((drop_bit 1 fnn, drop_bit 1 sn), fnn, sn) \<in> measure (\<lambda>(fnn, sn). unat fnn)" for sn
    by (simp add: unat_drop_bit_eq drop_bit_eq_div unat_div_distrib)
qed

declare skip_even.simps [simp del]

fun verify_loop :: "sha256 \<Rightarrow> u64 \<Rightarrow> u64 \<Rightarrow> hash \<Rightarrow> hash list \<Rightarrow> hash \<Rightarrow> bool" where
  "verify_loop sha fnn sn r [] root \<longleftrightarrow> sn = 0 \<and> r = root"
| "verify_loop sha fnn sn r (p # ps) root \<longleftrightarrow>
    (if sn = 0 then False
     else if fnn AND 1 = 1 \<or> fnn = sn then
       let (f, s) = (if fnn AND 1 = 0 then skip_even fnn sn else (fnn, sn)) in
       verify_loop sha (drop_bit 1 f) (drop_bit 1 s) (node_hash sha p r) ps root
     else verify_loop sha (drop_bit 1 fnn) (drop_bit 1 sn) (node_hash sha r p) ps root)"

definition verify_inclusion :: "sha256 \<Rightarrow> byte list \<Rightarrow> u64 \<Rightarrow> u64 \<Rightarrow> hash list \<Rightarrow> hash \<Rightarrow> bool" where
  "verify_inclusion sha rec index tree_size proof root \<longleftrightarrow>
    (if tree_size \<le> index then False
     else verify_loop sha index (tree_size - 1) (leaf_hash sha rec) proof root)"

section \<open>The audit path as a specification\<close>

text \<open>The siblings on the way from a leaf to the root and on which side each stands.\<close>

function mpath :: "sha256 \<Rightarrow> (nat \<Rightarrow> byte list) \<Rightarrow> nat \<Rightarrow> nat \<Rightarrow> nat \<Rightarrow> hash list" where
  "mpath sha leaf lo n m =
    (if n \<le> 1 then []
     else let k = merkle_split n in
       if m < k then mpath sha leaf lo k m @ [root_go sha (lo + k) (n - k) leaf]
       else mpath sha leaf (lo + k) (n - k) (m - k) @ [root_go sha lo k leaf])"
  by pat_completeness auto
termination
  by (relation "measure (\<lambda>(sha, leaf, lo, n, m). n)")
    (auto simp: merkle_split_bounds not_le)

declare mpath.simps [simp del]

function mdirs :: "nat \<Rightarrow> nat \<Rightarrow> bool list" where
  "mdirs n m =
    (if n \<le> 1 then []
     else let k = merkle_split n in
       if m < k then mdirs k m @ [False] else mdirs (n - k) (m - k) @ [True])"
  by pat_completeness auto
termination
  by (relation "measure (\<lambda>(n, m). n)")
    (auto simp: merkle_split_bounds not_le)

declare mdirs.simps [simp del]

fun mcombine :: "sha256 \<Rightarrow> hash \<Rightarrow> bool list \<Rightarrow> hash list \<Rightarrow> hash" where
  "mcombine sha r (d # ds) (p # ps) =
    mcombine sha (if d then node_hash sha p r else node_hash sha r p) ds ps"
| "mcombine sha r _ _ = r"

text \<open>One round of the verifier on numbers: \<open>climbs f s ds f' s'\<close> when the rounds from
  \<open>(f, s)\<close> take the sides \<open>ds\<close> and end in \<open>(f', s')\<close>.\<close>

inductive climbs :: "nat \<Rightarrow> nat \<Rightarrow> bool list \<Rightarrow> nat \<Rightarrow> nat \<Rightarrow> bool" where
  climbs_done: "climbs f s [] f s"
| climbs_left: "even f \<Longrightarrow> f \<noteq> s \<Longrightarrow> 0 < s \<Longrightarrow> climbs (f div 2) (s div 2) ds f' s' \<Longrightarrow> climbs f s (False # ds) f' s'"
| climbs_odd: "odd f \<Longrightarrow> 0 < s \<Longrightarrow> climbs (f div 2) (s div 2) ds f' s' \<Longrightarrow> climbs f s (True # ds) f' s'"
| climbs_edge: "f = 2 ^ e * c \<Longrightarrow> odd c \<Longrightarrow> 0 < e \<Longrightarrow> climbs (c div 2) (c div 2) ds f' s' \<Longrightarrow> climbs f f (True # ds) f' s'"

lemma length_mdirs: "length (mpath sha leaf lo n m) = length (mdirs n m)"
  by (induction n m arbitrary: lo rule: mdirs.induct)
    (simp add: mdirs.simps [of n m for n m] mpath.simps [of sha leaf lo n m for lo n m] Let_def)

lemma mdirs_step:
  "Suc 0 < n \<Longrightarrow> mdirs n m =
    (if m < merkle_split n then mdirs (merkle_split n) m @ [False]
     else mdirs (n - merkle_split n) (m - merkle_split n) @ [True])"
  by (subst mdirs.simps) (simp add: Let_def)

lemma climbs_trans: "climbs f s ds f' s' \<Longrightarrow> climbs f' s' es f'' s'' \<Longrightarrow> climbs f s (ds @ es) f'' s''"
  by (induction rule: climbs.induct) (auto intro: climbs.intros)

lemma mcombine_append:
  "length ds = length ps \<Longrightarrow> mcombine sha r (ds @ ds') (ps @ ps') = mcombine sha (mcombine sha r ds ps) ds' ps'"
  by (induction sha r ds ps rule: mcombine.induct) auto

lemma root_go_shift: "root_go sha lo n (\<lambda>i. leaf (d + i)) = root_go sha (d + lo) n leaf"
proof (induction n arbitrary: lo rule: less_induct)
  case (less n)
  then show ?case
    using merkle_split_bounds [of n]
    by (subst (1 2) root_go.simps) (simp add: Let_def add.assoc)
qed

lemma merkle_split_pow: "merkle_split (2 * 2 ^ j) = 2 ^ j"
proof -
  obtain i where i: "merkle_split (2 * 2 ^ j) = 2 ^ i" "(2::nat) ^ i < 2 ^ Suc j" "(2::nat) ^ Suc j \<le> 2 ^ Suc i"
    by (rule merkle_split_range [of "2 * 2 ^ j"]) auto
  have "i < Suc j" by (rule power_less_imp_less_exp [OF _ i(2)]) simp
  moreover have "Suc j \<le> Suc i" by (rule power_le_imp_le_exp [OF _ i(3)]) simp
  ultimately have "i = j" by simp
  with i(1) show ?thesis by simp
qed

text \<open>A full subtree left of the last leaf, then the subtree that holds the last leaf.\<close>

lemma mdirs_pow:
  "mdirs (2 * 2 ^ j) m =
    (if m < 2 ^ j then mdirs (2 ^ j) m @ [False] else mdirs (2 ^ j) (m - 2 ^ j) @ [True])"
proof -
  have "Suc 0 < 2 * 2 ^ j" using one_le_power [of "2 :: nat" j] by linarith
  then show ?thesis by (simp add: mdirs_step merkle_split_pow)
qed

lemma climbs_full:
  "m < 2 ^ j \<Longrightarrow> q < s div 2 ^ j \<Longrightarrow> climbs (q * 2 ^ j + m) s (mdirs (2 ^ j) m) q (s div 2 ^ j)"
proof (induction j arbitrary: q m)
  case 0
  then show ?case by (simp add: mdirs.simps climbs_done)
next
  case (Suc j)
  have half: "s div 2 ^ j div 2 = s div 2 ^ Suc j" by (simp add: div_mult2_eq mult.commute [of 2])
  with Suc.prems(2) have q: "2 * q + 1 < s div 2 ^ j" by linarith
  show ?case
  proof (cases "m < 2 ^ j")
    case True
    have "climbs (2 * q * 2 ^ j + m) s (mdirs (2 ^ j) m) (2 * q) (s div 2 ^ j)"
      using q by (intro Suc.IH True) simp
    moreover have "climbs (2 * q) (s div 2 ^ j) [False] q (s div 2 ^ Suc j)"
      using q unfolding half [symmetric] by (intro climbs_left) (auto intro: climbs_done)
    ultimately have "climbs (2 * q * 2 ^ j + m) s (mdirs (2 ^ j) m @ [False]) q (s div 2 ^ Suc j)"
      by (rule climbs_trans)
    with True show ?thesis by (simp add: mdirs_pow mult_ac)
  next
    case False
    with Suc.prems(1) have "m - 2 ^ j < 2 ^ j" by simp
    then have "climbs ((2 * q + 1) * 2 ^ j + (m - 2 ^ j)) s (mdirs (2 ^ j) (m - 2 ^ j)) (2 * q + 1) (s div 2 ^ j)"
      using q by (intro Suc.IH)
    moreover have "climbs (2 * q + 1) (s div 2 ^ j) [True] q (s div 2 ^ Suc j)"
      using q unfolding half [symmetric] by (intro climbs_odd) (auto intro: climbs_done)
    ultimately have "climbs ((2 * q + 1) * 2 ^ j + (m - 2 ^ j)) s (mdirs (2 ^ j) (m - 2 ^ j) @ [True]) q (s div 2 ^ Suc j)"
      by (rule climbs_trans)
    moreover have "(2 * q + 1) * 2 ^ j + (m - 2 ^ j) = q * 2 ^ Suc j + m" using False by (simp add: algebra_simps)
    ultimately show ?thesis using False by (simp add: mdirs_pow mult_ac)
  qed
qed

lemma climbs_last:
  "m < n \<Longrightarrow> n \<le> 2 ^ J \<Longrightarrow>
   \<exists>i\<le>J. climbs (q * 2 ^ J + m) (q * 2 ^ J + (n - 1)) (mdirs n m) (q * 2 ^ i) (q * 2 ^ i)"
proof (induction n arbitrary: m q J rule: less_induct)
  case (less n)
  show ?case
  proof (cases "n \<le> 1")
    case True
    with less.prems have "m = 0" "n = 1" by auto
    then show ?thesis by (intro exI [of _ J]) (simp add: mdirs.simps climbs_done)
  next
    case False
    then obtain j where j: "merkle_split n = 2 ^ j" "2 ^ j < n" "n \<le> 2 * 2 ^ j"
      by (auto intro: merkle_split_range [of n])
    from j(2) less.prems(2) have "(2::nat) ^ j < 2 ^ J" by linarith
    then have jJ: "j < J" by simp
    define d where "d = J - j - 1"
    have J: "(2::nat) ^ J = 2 ^ j * (2 * 2 ^ d)" using jJ by (simp add: d_def flip: power_add power_Suc)
    let ?Q = "q * (2 * 2 ^ d)"
    have up: "q * 2 ^ J = ?Q * 2 ^ j" by (simp add: J)
    show ?thesis
    proof (cases "m < 2 ^ j")
      case True
      have "(n - 1) div 2 ^ j = 1" using j(2,3) by (intro div_nat_eqI) auto
      then have s: "(?Q * 2 ^ j + (n - 1)) div 2 ^ j = ?Q + 1" by (simp add: div_add1_eq)
      have "climbs (?Q * 2 ^ j + m) (?Q * 2 ^ j + (n - 1)) (mdirs (2 ^ j) m) ?Q (?Q + 1)"
        using climbs_full [OF True, of ?Q "?Q * 2 ^ j + (n - 1)"] unfolding s by simp
      moreover have "climbs ?Q (?Q + 1) [False] (q * 2 ^ d) (q * 2 ^ d)"
        by (auto intro!: climbs.intros simp: climbs_done)
      ultimately have "climbs (q * 2 ^ J + m) (q * 2 ^ J + (n - 1)) (mdirs (2 ^ j) m @ [False]) (q * 2 ^ d) (q * 2 ^ d)"
        unfolding up by (rule climbs_trans)
      with True False j(1) jJ show ?thesis
        by (intro exI [of _ d]) (simp add: d_def mdirs_step [of n])
    next
      case m: False
      have "m - 2 ^ j < n - 2 ^ j" "n - 2 ^ j \<le> 2 ^ j" "n - 2 ^ j < n" using m j less.prems by auto
      from less.IH [OF this(3,1,2), of "?Q + 1"] obtain i where
        c: "climbs ((?Q + 1) * 2 ^ j + (m - 2 ^ j)) ((?Q + 1) * 2 ^ j + (n - 2 ^ j - 1)) (mdirs (n - 2 ^ j) (m - 2 ^ j))
          ((?Q + 1) * 2 ^ i) ((?Q + 1) * 2 ^ i)" by blast
      have "climbs ((?Q + 1) * 2 ^ i) ((?Q + 1) * 2 ^ i) [True] (q * 2 ^ d) (q * 2 ^ d)"
      proof (cases "i = 0")
        case True
        then show ?thesis by (auto intro!: climbs_odd simp: climbs_done)
      next
        case False
        then show ?thesis by (intro climbs_edge [of _ i "?Q + 1"]) (auto simp: climbs_done)
      qed
      from climbs_trans [OF c this] m False j less.prems jJ show ?thesis
        by (intro exI [of _ d]) (simp add: d_def mdirs_step [of n] up algebra_simps)
    qed
  qed
qed

lemma climbs_tree: "m < n \<Longrightarrow> climbs m (n - 1) (mdirs n m) 0 0"
  using climbs_last [of m n n 0] less_exp [of n] by auto

section \<open>The verifier's machine loop follows the climb\<close>

lemma u64_and_one: "(of_nat f :: u64) AND 1 = 0 \<longleftrightarrow> even f" "(of_nat f :: u64) AND 1 = 1 \<longleftrightarrow> odd f"
  by (simp_all add: and_one_eq mod2_eq_if)

lemma u64_unat: "f < 2 ^ 64 \<Longrightarrow> unat (of_nat f :: u64) = f"
  by (simp add: unat_of_nat)

lemma u64_halve: "f < 2 ^ 64 \<Longrightarrow> drop_bit 1 (of_nat f :: u64) = of_nat (f div 2)"
  unfolding word_unat_eq_iff by (simp add: unat_drop_bit_eq drop_bit_eq_div u64_unat unat_div_distrib)

lemma u64_of_nat_eq: "f < 2 ^ 64 \<Longrightarrow> s < 2 ^ 64 \<Longrightarrow> (of_nat f :: u64) = of_nat s \<longleftrightarrow> f = s"
  by (simp add: word_unat_eq_iff u64_unat)

lemma skip_even_run:
  "odd c \<Longrightarrow> 2 ^ e * c < 2 ^ 64 \<Longrightarrow> skip_even (of_nat (2 ^ e * c)) (of_nat (2 ^ e * c)) = (of_nat c, of_nat c)"
proof (induction e)
  case 0
  then show ?case by (subst skip_even.simps) (simp add: u64_and_one)
next
  case (Suc e)
  have "0 < 2 ^ Suc e * c" using Suc.prems(1) by (simp add: odd_pos)
  then have nz: "(of_nat (2 ^ Suc e * c) :: u64) \<noteq> 0"
    using u64_of_nat_eq [OF Suc.prems(2), of 0] by simp
  have h: "drop_bit 1 (of_nat (2 ^ Suc e * c) :: u64) = of_nat (2 ^ e * c)"
    using u64_halve [OF Suc.prems(2)] by simp
  have z: "(of_nat (2 ^ Suc e * c) :: u64) AND 1 = 0" by (simp add: u64_and_one del: of_nat_mult of_nat_power)
  have "2 ^ e * c < 2 ^ 64" using Suc.prems(2) by (simp add: mult.commute [of _ c])
  with nz h z Suc.IH [OF Suc.prems(1)] show ?case
    by (subst skip_even.simps) (simp del: of_nat_mult of_nat_power power_Suc)
qed

lemma verify_loop_climbs:
  "climbs f s ds f' s' \<Longrightarrow> s' = 0 \<Longrightarrow> f \<le> s \<Longrightarrow> s < 2 ^ 64 \<Longrightarrow>
   verify_loop sha (of_nat f) (of_nat s) r ps root \<longleftrightarrow> length ps = length ds \<and> mcombine sha r ds ps = root"
proof (induction arbitrary: r ps rule: climbs.induct)
  case (climbs_done f s)
  then show ?case by (cases ps) auto
next
  case (climbs_left f s ds f' s')
  have le: "f < 2 ^ 64" "f div 2 \<le> s div 2" "s div 2 < 2 ^ 64" using climbs_left.prems by auto
  have nz: "(of_nat s :: u64) \<noteq> 0" using u64_of_nat_eq [of s 0] climbs_left by simp
  show ?case
    using climbs_left nz u64_halve [OF le(1)] u64_halve [of s] le
    by (cases ps) (simp_all add: u64_and_one u64_of_nat_eq)
next
  case (climbs_odd f s ds f' s')
  have le: "f < 2 ^ 64" "f div 2 \<le> s div 2" "s div 2 < 2 ^ 64" using climbs_odd.prems by auto
  have nz: "(of_nat s :: u64) \<noteq> 0" using u64_of_nat_eq [of s 0] climbs_odd by simp
  show ?case
    using climbs_odd nz u64_halve [OF le(1)] u64_halve [of s] le
    by (cases ps) (simp_all add: u64_and_one)
next
  case (climbs_edge f e c ds f' s')
  have "c \<le> f" using climbs_edge.hyps(1) by simp
  then have le: "c < 2 ^ 64" "c div 2 < 2 ^ 64" using climbs_edge.prems by auto
  have "0 < f" using climbs_edge.hyps by (simp add: odd_pos)
  then have nz: "(of_nat f :: u64) \<noteq> 0" using u64_of_nat_eq [of f 0] climbs_edge.prems by simp
  have ev: "even f" using climbs_edge.hyps by simp
  have sk: "skip_even (of_nat f) (of_nat f) = (of_nat c, of_nat c)"
    unfolding climbs_edge.hyps(1) using climbs_edge.hyps(1,2) climbs_edge.prems(3) by (intro skip_even_run) simp_all
  show ?case
    using climbs_edge.IH [OF climbs_edge.prems(1) order_refl le(2)] nz ev sk u64_halve [OF le(1)]
    by (cases ps) (simp_all add: u64_and_one)
qed

text \<open>So the verifier answers exactly whether the proof has the path's length and combines to the root.\<close>

lemma verify_inclusion_spec:
  assumes "m < n" "n < 2 ^ 64"
  shows "verify_inclusion sha rec (of_nat m) (of_nat n) ps root \<longleftrightarrow>
    length ps = length (mdirs n m) \<and> mcombine sha (leaf_hash sha rec) (mdirs n m) ps = root"
proof -
  have "\<not> (of_nat n :: u64) \<le> of_nat m"
    using assms by (simp add: word_le_nat_alt u64_unat)
  moreover have "(of_nat n :: u64) - 1 = of_nat (n - 1)" using assms(1) by simp
  ultimately show ?thesis
    using verify_loop_climbs [OF climbs_tree [OF assms(1)] refl] assms
    by (simp add: verify_inclusion_def)
qed

lemma mcombine_mpath:
  "m < n \<Longrightarrow> mcombine sha (leaf_hash sha (leaf (lo + m))) (mdirs n m) (mpath sha leaf lo n m) = root_go sha lo n leaf"
proof (induction n arbitrary: lo m rule: less_induct)
  case (less n)
  show ?case
  proof (cases "Suc 0 < n")
    case False
    with less.prems have "n = 1" "m = 0" by auto
    then show ?thesis by (simp add: mdirs.simps root_go.simps)
  next
    case True
    let ?k = "merkle_split n"
    note b = merkle_split_bounds [OF True]
    show ?thesis
    proof (cases "m < ?k")
      case left: True
      then show ?thesis
        using True less.IH [OF b(2) left, of lo]
        by (simp add: mdirs_step mpath.simps [of _ _ _ n] root_go.simps [of _ _ n] Let_def mcombine_append length_mdirs)
    next
      case right: False
      with less.prems b have "n - ?k < n" "m - ?k < n - ?k" by auto
      from less.IH [OF this, of "lo + ?k"] right True show ?thesis
        by (simp add: mdirs_step mpath.simps [of _ _ _ n] root_go.simps [of _ _ n] Let_def mcombine_append length_mdirs)
    qed
  qed
qed

lemma proof_walk_path:
  "m < sz \<Longrightarrow> len + length (mdirs sz m) \<le> length out \<Longrightarrow>
   proof_walk sha leaf lo sz m len out =
     (mpath sha leaf lo sz m @ rev (take len out) @ drop (len + length (mdirs sz m)) out, Some (len + length (mdirs sz m)))"
proof (induction sha leaf lo sz m len out rule: proof_walk.induct)
  case (1 sha leaf lo sz m len out)
  show ?case
  proof (cases "Suc 0 < sz")
    case False
    with 1(3) show ?thesis by (simp add: proof_walk.simps mdirs.simps mpath.simps)
  next
    case True
    let ?k = "merkle_split sz"
    note b = merkle_split_bounds [OF True]
    from True 1(4) have len: "len < length out" by (auto simp: mdirs_step split: if_splits)
    then have t: "rev (take (Suc len) (out[len := x])) = x # rev (take len out)" for x :: hash
      by (simp add: take_Suc_conv_app_nth)
    show ?thesis
    proof (cases "m < ?k")
      case left: True
      have h: "root_with sha (sz - ?k) (\<lambda>i. leaf (lo + ?k + i)) = root_go sha (lo + ?k) (sz - ?k) leaf"
        using b by (simp add: root_with_def root_go_shift [where lo = 0, simplified])
      show ?thesis
        using "1.IH"(1) [OF _ refl _ left] left True 1(4) len
        by (simp add: proof_walk.simps [of _ _ _ sz] mdirs_step mpath.simps [of _ _ _ sz] Let_def h t)
    next
      case right: False
      with 1(3) b have "m - ?k < sz - ?k" by auto
      moreover have h: "root_with sha ?k (\<lambda>i. leaf (lo + i)) = root_go sha lo ?k leaf"
        using b by (simp add: root_with_def root_go_shift [where lo = 0, simplified])
      ultimately show ?thesis
        using "1.IH"(2) [OF _ refl _ right] right True 1(4) len
        by (simp add: proof_walk.simps [of _ _ _ sz] mdirs_step mpath.simps [of _ _ _ sz] Let_def h t)
    qed
  qed
qed

section \<open>What a run hashes\<close>

text \<open>The strings hashed to build a tree and to check a proof.  Collision resistance is used
  for these only: a function with 32-byte results cannot be injective on all strings.\<close>

function root_strings :: "sha256 \<Rightarrow> nat \<Rightarrow> nat \<Rightarrow> (nat \<Rightarrow> byte list) \<Rightarrow> byte list list" where
  "root_strings sha lo n leaf =
    (if n = 0 then [[]] else if n = 1 then [0x00 # leaf lo]
     else let k = merkle_split n in
       (0x01 # root_go sha lo k leaf @ root_go sha (lo + k) (n - k) leaf) #
         root_strings sha lo k leaf @ root_strings sha (lo + k) (n - k) leaf)"
  by pat_completeness auto
termination
  by (relation "measure (\<lambda>(sha, lo, n, leaf). n)") (auto simp: merkle_split_bounds not_le)

declare root_strings.simps [simp del]

fun path_strings :: "sha256 \<Rightarrow> hash \<Rightarrow> bool list \<Rightarrow> hash list \<Rightarrow> byte list list" where
  "path_strings sha r (d # ds) (p # ps) =
    (if d then 0x01 # p @ r else 0x01 # r @ p) #
      path_strings sha (if d then node_hash sha p r else node_hash sha r p) ds ps"
| "path_strings sha r _ _ = []"

definition collision_free :: "sha256 \<Rightarrow> byte list list \<Rightarrow> byte list list \<Rightarrow> bool" where
  "collision_free sha xs ys \<longleftrightarrow> (\<forall>x\<in>set xs. \<forall>y\<in>set ys. sha x = sha y \<longrightarrow> x = y)"

definition tree_strings :: "sha256 \<Rightarrow> byte list list \<Rightarrow> byte list list" where
  "tree_strings sha records = root_strings sha 0 (length records) (\<lambda>i. records ! i)"

definition proof_strings :: "sha256 \<Rightarrow> byte list \<Rightarrow> nat \<Rightarrow> nat \<Rightarrow> hash list \<Rightarrow> byte list list" where
  "proof_strings sha rec n m ps = (0x00 # rec) # path_strings sha (leaf_hash sha rec) (mdirs n m) ps"

lemma collision_free_append [simp]:
  "collision_free sha (xs @ ys) zs \<longleftrightarrow> collision_free sha xs zs \<and> collision_free sha ys zs"
  "collision_free sha xs (ys @ zs) \<longleftrightarrow> collision_free sha xs ys \<and> collision_free sha xs zs"
  "collision_free sha (x # xs) zs \<longleftrightarrow> collision_free sha [x] zs \<and> collision_free sha xs zs"
  by (auto simp: collision_free_def)

lemma collision_freeD:
  "collision_free sha xs ys \<Longrightarrow> x \<in> set xs \<Longrightarrow> y \<in> set ys \<Longrightarrow> sha x = sha y \<Longrightarrow> x = y"
  by (auto simp: collision_free_def)

lemma path_strings_append:
  "length ds = length ps \<Longrightarrow>
   path_strings sha r (ds @ ds') (ps @ ps') = path_strings sha r ds ps @ path_strings sha (mcombine sha r ds ps) ds' ps'"
  by (induction sha r ds ps rule: mcombine.induct) auto

lemma length_root_go: "\<forall>x. length (sha x) = 32 \<Longrightarrow> length (root_go sha lo n leaf) = 32"
  by (subst root_go.simps) (simp add: leaf_hash_def node_hash_def Let_def)

lemma length_mcombine:
  "\<forall>x. length (sha x) = 32 \<Longrightarrow> length r = 32 \<Longrightarrow> length (mcombine sha r ds ps) = 32"
  by (induction sha r ds ps rule: mcombine.induct) (auto simp: node_hash_def)

lemma root_string_in:
  assumes "0 < n"
  obtains x where "x \<in> set (root_strings sha lo n leaf)" "root_go sha lo n leaf = sha x"
    "x = (if n = 1 then 0x00 # leaf lo
          else 0x01 # root_go sha lo (merkle_split n) leaf @ root_go sha (lo + merkle_split n) (n - merkle_split n) leaf)"
  using assms by (auto simp: root_strings.simps [of _ _ n] root_go.simps [of _ _ n] Let_def leaf_hash_def node_hash_def not_le)

lemma root_strings_split:
  "Suc 0 < n \<Longrightarrow> set (root_strings sha lo n leaf) =
    insert (0x01 # root_go sha lo (merkle_split n) leaf @ root_go sha (lo + merkle_split n) (n - merkle_split n) leaf)
      (set (root_strings sha lo (merkle_split n) leaf) \<union>
       set (root_strings sha (lo + merkle_split n) (n - merkle_split n) leaf))"
  by (subst root_strings.simps) (simp add: Let_def)

lemma collision_free_mono:
  "collision_free sha xs ys \<Longrightarrow> set xs' \<subseteq> set xs \<Longrightarrow> set ys' \<subseteq> set ys \<Longrightarrow> collision_free sha xs' ys'"
  by (auto simp: collision_free_def)

lemma mcombine_sound:
  assumes sha: "\<forall>x. length (sha x) = 32"
  shows "m < n \<Longrightarrow> length ps = length (mdirs n m) \<Longrightarrow> \<forall>p\<in>set ps. length p = 32 \<Longrightarrow>
    collision_free sha (root_strings sha lo n leaf) (proof_strings sha rec n m ps) \<Longrightarrow>
    mcombine sha (leaf_hash sha rec) (mdirs n m) ps = root_go sha lo n leaf \<Longrightarrow> rec = leaf (lo + m)"
proof (induction n arbitrary: lo m ps rule: less_induct)
  case (less n)
  show ?case
  proof (cases "Suc 0 < n")
    case False
    with less.prems(1) have "m = 0" "n = 1" by auto
    with less.prems have "sha (0 # leaf lo) = sha (0 # rec)"
      by (simp add: mdirs.simps root_go.simps leaf_hash_def)
    then have "(0 :: byte) # leaf lo = 0 # rec"
      using less.prems(4) by (rule collision_freeD [rotated 3])
        (simp_all add: \<open>n = 1\<close> root_strings.simps proof_strings_def)
    with \<open>m = 0\<close> show ?thesis by simp
  next
    case True
    let ?k = "merkle_split n"
    let ?l = "root_go sha lo ?k leaf" and ?r = "root_go sha (lo + ?k) (n - ?k) leaf"
    note b = merkle_split_bounds [OF True]
    have "ps \<noteq> []" using less.prems(2) True by (auto simp: mdirs_step split: if_splits)
    then obtain qs q where ps: "ps = qs @ [q]" by (metis rev_exhaust)
    have root: "root_go sha lo n leaf = sha (0x01 # ?l @ ?r)"
      using True by (simp add: root_go.simps [of _ _ n] Let_def node_hash_def)
    have q32: "length q = 32" using less.prems(3) ps by simp
    have l32: "length ?l = 32" by (rule length_root_go [OF sha])
    show ?thesis
    proof (cases "m < ?k")
      case left: True
      let ?c = "mcombine sha (leaf_hash sha rec) (mdirs ?k m) qs"
      have len: "length qs = length (mdirs ?k m)" using less.prems(2) True left ps by (simp add: mdirs_step)
      have str: "set (proof_strings sha rec n m ps) =
          insert (0x01 # ?c @ q) (set (proof_strings sha rec ?k m qs))"
        using True left len by (auto simp: proof_strings_def ps mdirs_step path_strings_append)
      have "sha (0x01 # ?l @ ?r) = sha (0x01 # ?c @ q)"
        using less.prems(5) True left len by (simp add: root ps mdirs_step mcombine_append node_hash_def)
      then have "(0x01 :: byte) # ?l @ ?r = 0x01 # ?c @ q"
        using less.prems(4) by (rule collision_freeD [rotated 3]) (simp_all add: root_strings_split [OF True] str)
      moreover have "length ?c = 32" by (rule length_mcombine [OF sha]) (simp add: leaf_hash_def sha)
      ultimately have "?c = ?l" using l32 by simp
      then show ?thesis
        using less.prems(3) ps len left b str
        by (intro less.IH [of ?k _ qs] collision_free_mono [OF less.prems(4)])
          (auto simp: root_strings_split [OF True])
    next
      case right: False
      let ?d = "mdirs (n - ?k) (m - ?k)"
      let ?c = "mcombine sha (leaf_hash sha rec) ?d qs"
      have len: "length qs = length ?d" using less.prems(2) True right ps by (simp add: mdirs_step)
      have str: "set (proof_strings sha rec n m ps) =
          insert (0x01 # q @ ?c) (set (proof_strings sha rec (n - ?k) (m - ?k) qs))"
        using True right len by (auto simp: proof_strings_def ps mdirs_step path_strings_append)
      have "sha (0x01 # ?l @ ?r) = sha (0x01 # q @ ?c)"
        using less.prems(5) True right len by (simp add: root ps mdirs_step mcombine_append node_hash_def)
      then have "(0x01 :: byte) # ?l @ ?r = 0x01 # q @ ?c"
        using less.prems(4) by (rule collision_freeD [rotated 3]) (simp_all add: root_strings_split [OF True] str)
      then have "?c = ?r" using l32 q32 by simp
      then have "rec = leaf (lo + ?k + (m - ?k))"
        using less.prems(1,3) ps len right b str
        by (intro less.IH [of "n - ?k" _ qs] collision_free_mono [OF less.prems(4)])
          (auto simp: root_strings_split [OF True])
      with right show ?thesis by simp
    qed
  qed
qed

lemma root_go_binding:
  assumes sha: "\<forall>x. length (sha x) = 32"
  shows "0 < n \<Longrightarrow> 0 < n' \<Longrightarrow>
    collision_free sha (root_strings sha lo n leaf) (root_strings sha lo' n' leaf') \<Longrightarrow>
    root_go sha lo n leaf = root_go sha lo' n' leaf' \<Longrightarrow>
    n = n' \<and> (\<forall>i<n. leaf (lo + i) = leaf' (lo' + i))"
proof (induction n arbitrary: n' lo lo' rule: less_induct)
  case (less n)
  obtain x where x: "x \<in> set (root_strings sha lo n leaf)" "root_go sha lo n leaf = sha x"
    "x = (if n = 1 then 0x00 # leaf lo
          else 0x01 # root_go sha lo (merkle_split n) leaf @ root_go sha (lo + merkle_split n) (n - merkle_split n) leaf)"
    by (rule root_string_in [OF less.prems(1)])
  obtain y where y: "y \<in> set (root_strings sha lo' n' leaf')" "root_go sha lo' n' leaf' = sha y"
    "y = (if n' = 1 then 0x00 # leaf' lo'
          else 0x01 # root_go sha lo' (merkle_split n') leaf' @ root_go sha (lo' + merkle_split n') (n' - merkle_split n') leaf')"
    by (rule root_string_in [OF less.prems(2)])
  have xy: "x = y"
    using less.prems(4) x(2) y(2) by (intro collision_freeD [OF less.prems(3) x(1) y(1)]) simp
  show ?case
  proof (cases "n = 1")
    case True
    with xy x(3) y(3) have "n' = 1" "leaf lo = leaf' lo'" by (auto split: if_splits)
    with True show ?thesis by simp
  next
    case False
    with xy x(3) y(3) have n': "n' \<noteq> 1" by (auto split: if_splits)
    let ?k = "merkle_split n" and ?k' = "merkle_split n'"
    from False n' less.prems have two: "Suc 0 < n" "Suc 0 < n'" by auto
    note b = merkle_split_bounds [OF two(1)] merkle_split_bounds [OF two(2)]
    have eqs: "root_go sha lo ?k leaf = root_go sha lo' ?k' leaf'"
      "root_go sha (lo + ?k) (n - ?k) leaf = root_go sha (lo' + ?k') (n' - ?k') leaf'"
      using xy False n' by (simp_all add: x(3) y(3) length_root_go [OF sha])
    have l: "?k = ?k' \<and> (\<forall>i<?k. leaf (lo + i) = leaf' (lo' + i))"
      using b two by (intro less.IH eqs(1) collision_free_mono [OF less.prems(3)]) (auto simp: root_strings_split)
    have r: "n - ?k = n' - ?k' \<and> (\<forall>i<n - ?k. leaf (lo + ?k + i) = leaf' (lo' + ?k' + i))"
      using b two by (intro less.IH eqs(2) collision_free_mono [OF less.prems(3)]) (auto simp: root_strings_split)
    from l r b have "n = n'" by linarith
    moreover have "leaf (lo + i) = leaf' (lo' + i)" if "i < n" for i
    proof (cases "i < ?k")
      case False
      then obtain d where d: "i = ?k + d" by (metis le_Suc_ex not_le)
      with that have "d < n - ?k" by linarith
      with r l d show ?thesis by (simp add: add.assoc)
    qed (use l in simp)
    ultimately show ?thesis by simp
  qed
qed

lemma length_mdirs_le: "n \<le> 2 ^ J \<Longrightarrow> length (mdirs n m) \<le> J"
proof (induction n arbitrary: m J rule: less_induct)
  case (less n)
  show ?case
  proof (cases "Suc 0 < n")
    case False
    then show ?thesis by (simp add: mdirs.simps)
  next
    case True
    then obtain j where j: "merkle_split n = 2 ^ j" "2 ^ j < n" "n \<le> 2 * 2 ^ j" by (auto intro: merkle_split_range [of n])
    from j(2) less.prems have "(2::nat) ^ j < 2 ^ J" by linarith
    then have "j < J" by simp
    moreover have "length (mdirs (2 ^ j) m) \<le> j" "length (mdirs (n - 2 ^ j) (m - 2 ^ j)) \<le> j"
      using j by (auto intro!: less.IH)
    ultimately show ?thesis using True j(1) by (simp add: mdirs_step)
  qed
qed

lemma inclusion_proof_verifies:
  assumes "index < n" "n < 2 ^ 64" "MAX_PROOF_LEN \<le> length out"
  shows "\<exists>out' len. inclusion_proof_with sha n index leaf out = (out', Some len) \<and> len \<le> MAX_PROOF_LEN \<and>
    verify_inclusion sha (leaf index) (of_nat index) (of_nat n) (take len out') (root_with sha n leaf)"
proof -
  have "length (mdirs n index) \<le> 64" using assms(2) by (intro length_mdirs_le) simp
  then show ?thesis
    using assms proof_walk_path [of index n 0 out sha leaf 0] mcombine_mpath [of index n sha leaf 0]
    by (simp add: inclusion_proof_with_def verify_inclusion_spec MAX_PROOF_LEN_def root_with_def length_mdirs)
qed

section \<open>Properties\<close>

text \<open>for data cut into fixed-size records, the root exists, the audit path of every record
  fits 64 hashes, and the verifier accepts it against the root.\<close>

theorem merkle_proof_complete:
  assumes "0 < record_size" "length data mod record_size = 0" "length data < 2 ^ 64"
    and "index < length data div record_size" "64 \<le> length out"
  shows "\<exists>root out' len. merkle_root_fixed sha data record_size = Some root \<and>
    inclusion_proof_fixed sha data record_size index out = (out', Some len) \<and> len \<le> 64 \<and>
    verify_inclusion sha (window (index * record_size) record_size data)
      (of_nat index) (of_nat (length data div record_size)) (take len out') root"
proof -
  have "length data div record_size < 2 ^ 64" using assms(3) by (rule le_less_trans [OF div_le_dividend])
  from inclusion_proof_verifies [OF assms(4) this, of out sha "\<lambda>i. window (i * record_size) record_size data"] assms
  show ?thesis by (auto simp: merkle_root_fixed_def inclusion_proof_fixed_def MAX_PROOF_LEN_def)
qed

theorem merkle_proof_complete_witness:
  "\<exists>root out' len. merkle_root_fixed (\<lambda>x. take 32 (x @ replicate 32 0)) [1, 2, 3] 1 = Some root \<and>
    inclusion_proof_fixed (\<lambda>x. take 32 (x @ replicate 32 0)) [1, 2, 3] 1 2 (replicate 64 []) = (out', Some len) \<and> len \<le> 64 \<and>
    verify_inclusion (\<lambda>x. take 32 (x @ replicate 32 0)) (window (2 * 1) 1 [1, 2, 3])
      (of_nat 2) (of_nat (length [1, 2, 3 :: byte] div 1)) (take len out') root"
  by (rule merkle_proof_complete) simp_all

text \<open>C12: the verifier accepts only the committed record: if it accepts a record at an index of
  a tree of the given size against the tree's root, and the hash has no collision
  between the strings hashed for the tree and for the check, the record is the tree's
  record at that index.\<close>

theorem merkle_proof_sound:
  assumes "\<forall>x. length (sha x) = 32" "\<forall>p\<in>set proof. length p = 32"
    and "index < length records" "length records < 2 ^ 64"
    and "collision_free sha (tree_strings sha records) (proof_strings sha rec (length records) index proof)"
    and "verify_inclusion sha rec (of_nat index) (of_nat (length records)) proof (merkle_root sha records)"
  shows "rec = records ! index"
proof -
  have "records \<noteq> []" using assms(3) by auto
  with assms(3-6) mcombine_sound [OF assms(1,3) _ assms(2), of 0 "(!) records" rec] show ?thesis
    by (simp add: verify_inclusion_spec tree_strings_def merkle_root_def root_with_def)
qed

theorem merkle_proof_sound_witness:
  "(let sha = (\<lambda>x. take 32 (x @ replicate 32 0)) in
    verify_inclusion sha [7] (of_nat 0) (of_nat (length [[7 :: byte]])) [] (merkle_root sha [[7]])) \<and>
   [7] = [[7 :: byte]] ! 0"
proof
  let ?sha = "\<lambda>x :: byte list. take 32 (x @ replicate 32 0)"
  have v: "verify_inclusion ?sha [7] (of_nat 0) (of_nat (length [[7 :: byte]])) [] (merkle_root ?sha [[7]])"
    by (simp add: verify_inclusion_def merkle_root_def root_with_def root_go.simps)
  then show "let sha = ?sha in
      verify_inclusion sha [7] (of_nat 0) (of_nat (length [[7 :: byte]])) [] (merkle_root sha [[7]])"
    by (simp only: Let_def)
  show "[7] = [[7 :: byte]] ! 0"
    by (rule merkle_proof_sound [of ?sha "[]" 0 "[[7]]" "[7]", OF _ _ _ _ _ v])
      (auto simp: collision_free_def tree_strings_def proof_strings_def root_strings.simps mdirs.simps min_def)
qed

text \<open>a root determines the records: two record lists with the same root are equal, number
  and order included, unless the hash collides on the strings hashed for the two trees.\<close>

theorem merkle_root_binding:
  assumes "\<forall>x. length (sha x) = 32"
    and "collision_free sha (tree_strings sha xs) (tree_strings sha ys)"
    and "merkle_root sha xs = merkle_root sha ys"
  shows "xs = ys"
proof (cases "xs = [] \<or> ys = []")
  case True
  have inc: "\<exists>x\<in>set (tree_strings sha zs). merkle_root sha zs = sha x \<and> (x = [] \<longleftrightarrow> zs = [])" for zs
    by (cases "zs = []")
      (auto simp: tree_strings_def merkle_root_def root_with_def root_strings.simps [of _ _ 0] empty_root_def
        intro: root_string_in [of "length zs" sha 0 "(!) zs"] split: if_splits)
  from inc [of xs] inc [of ys] assms(2,3) True show ?thesis
    by (metis collision_freeD)
next
  case False
  with assms(3) have "root_go sha 0 (length xs) ((!) xs) = root_go sha 0 (length ys) ((!) ys)"
    by (simp add: merkle_root_def root_with_def)
  from root_go_binding [OF assms(1) _ _ assms(2) [unfolded tree_strings_def] this] False show ?thesis
    by (auto intro: nth_equalityI)
qed

theorem merkle_root_binding_witness:
  "merkle_root (\<lambda>x. take 32 (x @ replicate 32 0)) [[7]] \<noteq> merkle_root (\<lambda>x. take 32 (x @ replicate 32 0)) [[8]]"
proof
  let ?sha = "\<lambda>x :: byte list. take 32 (x @ replicate 32 0)"
  have l: "\<forall>x. length (?sha x) = 32" by (auto simp: min_def)
  have c: "collision_free ?sha (tree_strings ?sha [[7]]) (tree_strings ?sha [[8]])"
    by (simp add: collision_free_def tree_strings_def root_strings.simps)
  assume "merkle_root ?sha [[7]] = merkle_root ?sha [[8]]"
  from merkle_root_binding [OF l c this] show False by simp
qed

end
