(* ===== verification/Edge_Trust.thy ===== *)
theory Edge_Trust
  imports Edge_Merkle
begin

text \<open>
  The seal hash chain of \<^verbatim>\<open>crates/s3a-edge/src/trust.rs\<close>: the hash that links a tile
  to its predecessor, and the check of one link.  SHA-256 is the parameter \<open>sha\<close>; the
  Ed25519 functions of the file only forward to the \<^verbatim>\<open>ed25519-dalek\<close> crate and are not
  modelled.
\<close>

definition SEAL_CHAIN_DOMAIN_TAG :: "byte list" where
  "SEAL_CHAIN_DOMAIN_TAG = [0x53, 0x33, 0x41, 0x45, 0x44, 0x47, 0x45, 0x31]"

definition compute_seal_hash ::
  "sha256 \<Rightarrow> hash \<Rightarrow> u64 \<Rightarrow> u32 \<Rightarrow> hash \<Rightarrow> byte list \<Rightarrow> hash" where
  "compute_seal_hash sha prev_seal_hash generation tile_index payload_hash device_id =
    sha (SEAL_CHAIN_DOMAIN_TAG @ prev_seal_hash @ le64 generation @ le32 tile_index @ payload_hash @ device_id)"

definition verify_seal_chain_link ::
  "sha256 \<Rightarrow> hash \<Rightarrow> hash \<Rightarrow> u64 \<Rightarrow> u32 \<Rightarrow> hash \<Rightarrow> byte list \<Rightarrow> bool" where
  "verify_seal_chain_link sha candidate_seal_hash prev_seal_hash generation tile_index payload_hash device_id \<longleftrightarrow>
    compute_seal_hash sha prev_seal_hash generation tile_index payload_hash device_id = candidate_seal_hash"

text \<open>The string a link hashes, and that it determines its parts.\<close>

definition seal_string :: "hash \<Rightarrow> u64 \<Rightarrow> u32 \<Rightarrow> hash \<Rightarrow> byte list \<Rightarrow> byte list" where
  "seal_string prev g i ph dev = SEAL_CHAIN_DOMAIN_TAG @ prev @ le64 g @ le32 i @ ph @ dev"

lemma compute_seal_hash_string: "compute_seal_hash sha prev g i ph dev = sha (seal_string prev g i ph dev)"
  by (simp add: compute_seal_hash_def seal_string_def)

lemma seal_string_inject:
  assumes "length prev = 32" "length prev' = 32" "length ph = 32" "length ph' = 32"
  shows "seal_string prev g i ph dev = seal_string prev' g' i' ph' dev' \<longleftrightarrow>
    prev = prev' \<and> g = g' \<and> i = i' \<and> ph = ph' \<and> dev = dev'"
  using assms by (auto simp: seal_string_def)

text \<open>A chain of links from the genesis value: the last hash after sealing the given payload
  hashes, link \<open>i\<close> under generation \<open>g + i + 1\<close>.\<close>

fun seal_chain :: "sha256 \<Rightarrow> byte list \<Rightarrow> hash \<Rightarrow> u64 \<Rightarrow> u32 \<Rightarrow> hash list \<Rightarrow> hash" where
  "seal_chain sha dev prev g i [] = prev"
| "seal_chain sha dev prev g i (ph # phs) =
    seal_chain sha dev (compute_seal_hash sha prev (g + 1) i ph dev) (g + 1) (i + 1) phs"

fun seal_strings :: "sha256 \<Rightarrow> byte list \<Rightarrow> hash \<Rightarrow> u64 \<Rightarrow> u32 \<Rightarrow> hash list \<Rightarrow> byte list list" where
  "seal_strings sha dev prev g i [] = []"
| "seal_strings sha dev prev g i (ph # phs) =
    seal_string prev (g + 1) i ph dev #
      seal_strings sha dev (compute_seal_hash sha prev (g + 1) i ph dev) (g + 1) (i + 1) phs"

lemma seal_chain_snoc:
  "seal_chain sha dev prev g i (phs @ [ph]) =
    compute_seal_hash sha (seal_chain sha dev prev g i phs) (g + of_nat (length phs) + 1) (i + of_nat (length phs)) ph dev"
  by (induction phs arbitrary: prev g i) (simp_all add: add_ac)

lemma seal_strings_snoc:
  "seal_strings sha dev prev g i (phs @ [ph]) = seal_strings sha dev prev g i phs @
    [seal_string (seal_chain sha dev prev g i phs) (g + of_nat (length phs) + 1) (i + of_nat (length phs)) ph dev]"
  by (induction phs arbitrary: prev g i) (simp_all add: add_ac)

lemma length_seal_chain:
  "\<forall>x. length (sha x) = 32 \<Longrightarrow> length prev = 32 \<Longrightarrow> length (seal_chain sha dev prev g i phs) = 32"
  by (induction phs arbitrary: prev g i) (simp_all add: compute_seal_hash_def)

section \<open>Properties\<close>

text \<open>two devices' chains of the same length end in the same seal hash only if every sealed
  payload hash, and for a non-empty chain the device, agree (unless SHA-256 collides on
  the strings the two chains hash): no tile of a sealed history can be replaced.\<close>

theorem seal_chain_binding:
  assumes "\<forall>x. length (sha x) = 32" "length genesis = 32"
    and "\<forall>ph\<in>set phs \<union> set phs'. length ph = 32" "length phs = length phs'"
    and "collision_free sha (seal_strings sha dev genesis g i phs) (seal_strings sha dev' genesis g i phs')"
    and "seal_chain sha dev genesis g i phs = seal_chain sha dev' genesis g i phs'"
  shows "phs = phs' \<and> (phs \<noteq> [] \<longrightarrow> dev = dev')"
  using assms(4,3,5,6)
proof (induction phs arbitrary: phs' rule: rev_induct)
  case Nil
  then show ?case by simp
next
  case (snoc ph phs)
  then obtain qs q where phs': "phs' = qs @ [q]" by (metis length_0_conv rev_exhaust snoc_eq_iff_butlast)
  with snoc.prems(1) have len: "length phs = length qs" by simp
  let ?c = "seal_chain sha dev genesis g i phs" and ?c' = "seal_chain sha dev' genesis g i qs"
  have "seal_string ?c (g + of_nat (length phs) + 1) (i + of_nat (length phs)) ph dev =
      seal_string ?c' (g + of_nat (length qs) + 1) (i + of_nat (length qs)) q dev'"
    using snoc.prems(3) by (rule collision_freeD)
      (use snoc.prems(4) phs' in \<open>simp_all add: seal_strings_snoc seal_chain_snoc compute_seal_hash_string\<close>)
  moreover have "length ?c = 32" "length ?c' = 32" "length ph = 32" "length q = 32"
    using snoc.prems(2) phs' by (simp_all add: length_seal_chain assms(1,2))
  ultimately have eq: "?c = ?c'" "ph = q" "dev = dev'"
    by (blast dest: seal_string_inject [THEN iffD1, rotated 4])+
  have "phs = qs \<and> (phs \<noteq> [] \<longrightarrow> dev = dev')"
    using snoc.prems(2) phs' len eq(1)
    by (intro snoc.IH collision_free_mono [OF snoc.prems(3)]) (auto simp: seal_strings_snoc)
  with eq phs' show ?case by simp
qed

theorem seal_chain_binding_witness:
  "(let sha = (\<lambda>x. take 32 (drop 60 x @ replicate 32 0)) in
    seal_chain sha [1] (replicate 32 0) 0 0 [replicate 32 5] \<noteq> seal_chain sha [1] (replicate 32 0) 0 0 [replicate 32 6])"
proof -
  let ?sha = "\<lambda>x :: byte list. take 32 (drop 60 x @ replicate 32 0)"
  have l: "\<forall>x. length (?sha x) = 32" by (auto simp: min_def)
  have "collision_free ?sha (seal_strings ?sha [1] (replicate 32 0) 0 0 [replicate 32 5])
      (seal_strings ?sha [1] (replicate 32 0) 0 0 [replicate 32 6])"
    by (simp add: collision_free_def seal_string_def SEAL_CHAIN_DOMAIN_TAG_def replicate_eval to_le_eval)
  from seal_chain_binding [OF l _ _ _ this] show ?thesis
    by (auto simp: Let_def)
qed

end
