(* ===== verification/Edge_Writer.thy ===== *)
theory Edge_Writer
  imports Edge_Flash Edge_Header Edge_Records Edge_Trust
begin

text \<open>
  The crash-safe micro-tile writer of \<^verbatim>\<open>crates/s3a-edge/src/writer.rs\<close>.  The type
  parameters of \<^verbatim>\<open>EdgeWriter<S, TILE_SIZE>\<close> are arguments here: \<open>ops\<close> for the
  implementation of \<^verbatim>\<open>FlashStorage\<close>, \<open>T\<close> for the tile size (at least the 64 bytes of a
  tile header); \<open>sha\<close> is SHA-256.  A function that consumes or mutates the storage
  returns the device it leaves beside its result, on errors too, because that device is
  what the next boot recovers from.  Generations and counts are machine words and wrap
  as the release build does.
\<close>

section \<open>Errors and state\<close>

datatype 'e edge_error =
    Storage 'e
  | TileFull
  | TileTypeMismatch (tm_expected: u16) (tm_actual: u16)
  | CorruptedArchive
  | InvalidMagic
  | UnsupportedVersion u16
  | HeaderCrcMismatch
  | TileCrcMismatch
  | PayloadOverflow
  | SealChainBreak

record 's edge_writer =
  w_storage :: 's
  w_device_id :: "byte list"
  w_active_slot :: nat
  w_generation :: u64
  w_tile_count :: u32
  w_file_uuid :: "u64 \<times> u64"
  w_created_timestamp :: u64
  w_addon_mask :: u32
  w_prev_seal_hash :: hash
  w_staging_buffer :: "byte list"
  w_staging_type_id :: u16
  w_staging_record_count :: u32
  w_staging_len :: nat

section \<open>Genesis\<close>

definition format_genesis ::
  "('s, 'e) flash_ops \<Rightarrow> nat \<Rightarrow> 's \<Rightarrow> byte list \<Rightarrow> u64 \<times> u64 \<Rightarrow> u64 \<Rightarrow>
   ('e edge_error, 's edge_writer) result \<times> 's" where
  "format_genesis ops T storage device_id file_uuid created_timestamp =
    (case fo_erase ops 0 T storage of
       (Err e, storage) \<Rightarrow> (Err (Storage e), storage)
     | (Ok _, storage) \<Rightarrow>
         let slot_a = (file_header_new 0 (of_nat T) created_timestamp)\<lparr> fh_file_uuid := file_uuid \<rparr>;
             slot_a = slot_a\<lparr> fh_header_crc32 := compute_file_header_crc32 slot_a \<rparr>;
             dual_header = dual_file_header_new slot_a
         in case fo_write ops 0 (dual_file_header_bytes dual_header) storage of
              (Err e, storage) \<Rightarrow> (Err (Storage e), storage)
            | (Ok _, storage) \<Rightarrow>
                (Ok \<lparr> w_storage = storage, w_device_id = device_id, w_active_slot = 0, w_generation = 1,
                      w_tile_count = 0, w_file_uuid = file_uuid, w_created_timestamp = created_timestamp,
                      w_addon_mask = ADDON_WEARABLE, w_prev_seal_hash = replicate 32 0,
                      w_staging_buffer = replicate T 0xFF, w_staging_type_id = 0,
                      w_staging_record_count = 0, w_staging_len = COMMON_TILE_HEADER_SIZE \<rparr>, storage))"

section \<open>Recovery\<close>

text \<open>One round of the tile scan: \<open>Ok None\<close> is a \<^verbatim>\<open>break\<close>, \<open>Ok (Some h)\<close> goes on
  with \<open>h\<close> as the previous seal hash.  \<open>active\<close> is the active header.\<close>

definition scan_tile ::
  "('s, 'e) flash_ops \<Rightarrow> sha256 \<Rightarrow> nat \<Rightarrow> byte list \<Rightarrow> file_header \<Rightarrow> nat \<Rightarrow> hash \<Rightarrow> 's \<Rightarrow>
   ('e edge_error, hash option) result \<times> 's" where
  "scan_tile ops sha T device_id active i prev_seal_hash storage =
    (let tile_offset = FILE_HEADER_SIZE + i * T in
     if tile_offset + T > fo_total_size ops storage then (Ok None, storage)
     else case fo_read ops tile_offset COMMON_TILE_HEADER_SIZE storage of
       (Err e, storage) \<Rightarrow> (Err (Storage e), storage)
     | (Ok header_buf, storage) \<Rightarrow>
         if list_all (\<lambda>b. b = 0xFF) header_buf then (Ok None, storage)
         else
           let tile_header = common_tile_header_of_bytes header_buf in
           if \<not> common_tile_header_verify tile_header then (Ok None, storage)
           else
             let payload_len = unat (th_payload_len tile_header) in
             if payload_len > T - COMMON_TILE_HEADER_SIZE then (Ok None, storage)
             else case fo_read ops (tile_offset + COMMON_TILE_HEADER_SIZE) payload_len storage of
               (Err e, storage) \<Rightarrow> (Err (Storage e), storage)
             | (Ok payload_slice, storage) \<Rightarrow>
                 if crc32c payload_slice \<noteq> th_data_crc32 tile_header then (Ok None, storage)
                 else if sha payload_slice \<noteq> th_payload_hash tile_header then (Ok None, storage)
                 else
                   let tile_gen =
                     (if th_generation tile_header \<noteq> 0 then ucast (th_generation tile_header)
                      else (if ucast (fh_tile_count active) \<le> fh_generation active
                            then fh_generation active - ucast (fh_tile_count active) else 0)
                           + of_nat i + 1)
                   in (Ok (Some (compute_seal_hash sha prev_seal_hash tile_gen (of_nat i)
                                   (th_payload_hash tile_header) device_id)), storage))"

text \<open>The \<^verbatim>\<open>for\<close> loop with \<open>k\<close> rounds to go at tile \<open>i\<close>: the number of valid tiles
  (which is \<open>i\<close> until the loop ends) and the last seal hash.\<close>

primrec scan_tiles ::
  "('s, 'e) flash_ops \<Rightarrow> sha256 \<Rightarrow> nat \<Rightarrow> byte list \<Rightarrow> file_header \<Rightarrow> nat \<Rightarrow> nat \<Rightarrow> hash \<Rightarrow> 's \<Rightarrow>
   ('e edge_error, nat \<times> hash) result \<times> 's" where
  "scan_tiles ops sha T device_id active 0 i prev_seal_hash storage = (Ok (i, prev_seal_hash), storage)"
| "scan_tiles ops sha T device_id active (Suc k) i prev_seal_hash storage =
    (case scan_tile ops sha T device_id active i prev_seal_hash storage of
       (Err e, storage) \<Rightarrow> (Err e, storage)
     | (Ok None, storage) \<Rightarrow> (Ok (i, prev_seal_hash), storage)
     | (Ok (Some seal_hash), storage) \<Rightarrow> scan_tiles ops sha T device_id active k (i + 1) seal_hash storage)"

text \<open>The slot that commits a state, as \<open>recover_internal\<close> and \<open>seal_tile\<close> build it.\<close>

definition commit_header ::
  "nat \<Rightarrow> u32 \<Rightarrow> u64 \<Rightarrow> u64 \<Rightarrow> u64 \<Rightarrow> u64 \<times> u64 \<Rightarrow> u32 \<Rightarrow> file_header" where
  "commit_header T tile_count generation created_timestamp commit_timestamp file_uuid addon_mask =
    (let new_slot = (file_header_with_commit tile_count (of_nat T) generation created_timestamp commit_timestamp)
           \<lparr> fh_file_uuid := file_uuid, fh_addon_mask := addon_mask \<rparr>
     in new_slot\<lparr> fh_header_crc32 := compute_file_header_crc32 new_slot \<rparr>)"

definition slot_offset :: "nat \<Rightarrow> nat" where
  "slot_offset slot = (if slot = 0 then FILE_HEADER_SLOT_A_OFFSET else FILE_HEADER_SLOT_B_OFFSET)"

text \<open>Which slot is active: the one that verifies, the later generation if both do.\<close>

definition choose_slot :: "file_header \<Rightarrow> file_header \<Rightarrow> (nat \<times> file_header) option" where
  "choose_slot slot_a slot_b =
    (case (file_header_verify slot_a, file_header_verify slot_b) of
       (True, True) \<Rightarrow> if fh_generation slot_b > fh_generation slot_a then Some (1, slot_b) else Some (0, slot_a)
     | (True, False) \<Rightarrow> Some (0, slot_a)
     | (False, True) \<Rightarrow> Some (1, slot_b)
     | (False, False) \<Rightarrow> None)"

definition recover_internal ::
  "('s, 'e) flash_ops \<Rightarrow> sha256 \<Rightarrow> nat \<Rightarrow> 's \<Rightarrow> byte list \<Rightarrow> ('e edge_error, 's edge_writer) result \<times> 's" where
  "recover_internal ops sha T storage device_id =
    (case fo_read ops FILE_HEADER_SLOT_A_OFFSET FILE_HEADER_SLOT_SIZE storage of
       (Err e, storage) \<Rightarrow> (Err (Storage e), storage)
     | (Ok slot_buf_a, storage) \<Rightarrow>
     case fo_read ops FILE_HEADER_SLOT_B_OFFSET FILE_HEADER_SLOT_SIZE storage of
       (Err e, storage) \<Rightarrow> (Err (Storage e), storage)
     | (Ok slot_buf_b, storage) \<Rightarrow>
     case choose_slot (file_header_of_bytes slot_buf_a) (file_header_of_bytes slot_buf_b) of
       None \<Rightarrow> (Err CorruptedArchive, storage)
     | Some (active_slot, active) \<Rightarrow>
     case scan_tiles ops sha T device_id active (unat (fh_tile_count active)) 0 (replicate 32 0) storage of
       (Err e, storage) \<Rightarrow> (Err e, storage)
     | (Ok (n, prev_seal_hash), storage) \<Rightarrow>
     let valid_tile_count = of_nat n :: u32;
         recovered = (\<lambda>current_slot current_generation storage.
           \<lparr> w_storage = storage, w_device_id = device_id, w_active_slot = current_slot,
             w_generation = current_generation, w_tile_count = valid_tile_count,
             w_file_uuid = fh_file_uuid active, w_created_timestamp = fh_created_timestamp active,
             w_addon_mask = fh_addon_mask active, w_prev_seal_hash = prev_seal_hash,
             w_staging_buffer = replicate T 0xFF, w_staging_type_id = 0,
             w_staging_record_count = 0, w_staging_len = COMMON_TILE_HEADER_SIZE \<rparr>)
     in if valid_tile_count < fh_tile_count active then
          let torn_offset = FILE_HEADER_SIZE + unat valid_tile_count * T;
              storage = (if torn_offset + T \<le> fo_total_size ops storage
                         then snd (fo_erase ops torn_offset T storage) else storage);
              next_slot = 1 - active_slot;
              next_gen = fh_generation active + 1;
              new_slot = commit_header T valid_tile_count next_gen (fh_created_timestamp active)
                (fh_commit_timestamp active) (fh_file_uuid active) (fh_addon_mask active)
          in case fo_write ops (slot_offset next_slot) (file_header_bytes new_slot) storage of
               (Err e, storage) \<Rightarrow> (Err (Storage e), storage)
             | (Ok _, storage) \<Rightarrow> (Ok (recovered next_slot next_gen storage), storage)
        else (Ok (recovered active_slot (fh_generation active) storage), storage))"

definition recover ::
  "('s, 'e) flash_ops \<Rightarrow> sha256 \<Rightarrow> nat \<Rightarrow> 's \<Rightarrow> byte list \<Rightarrow> ('e edge_error, 's edge_writer) result \<times> 's" where
  "recover ops sha T storage device_id = recover_internal ops sha T storage device_id"

definition open_or_format ::
  "('s, 'e) flash_ops \<Rightarrow> sha256 \<Rightarrow> nat \<Rightarrow> 's \<Rightarrow> byte list \<Rightarrow> u64 \<times> u64 \<Rightarrow> u64 \<Rightarrow>
   ('e edge_error, 's edge_writer) result \<times> 's" where
  "open_or_format ops sha T storage device_id file_uuid created_timestamp =
    (let (has_valid_slot, storage) =
       (case fo_read ops FILE_HEADER_SLOT_A_OFFSET FILE_HEADER_SLOT_SIZE storage of
          (Err _, storage) \<Rightarrow> (False, storage)
        | (Ok slot_buf, storage) \<Rightarrow>
            if file_header_verify (file_header_of_bytes slot_buf) then (True, storage)
            else case fo_read ops FILE_HEADER_SLOT_B_OFFSET FILE_HEADER_SLOT_SIZE storage of
              (Err _, storage) \<Rightarrow> (False, storage)
            | (Ok slot_buf, storage) \<Rightarrow> (file_header_verify (file_header_of_bytes slot_buf), storage))
     in if has_valid_slot then recover ops sha T storage device_id
        else format_genesis ops T storage device_id file_uuid created_timestamp)"

section \<open>Appending\<close>

definition append_record ::
  "nat \<Rightarrow> u16 \<Rightarrow> byte list \<Rightarrow> 's edge_writer \<Rightarrow> ('e edge_error, unit) result \<times> 's edge_writer" where
  "append_record T type_id record_bytes w =
    (if w_staging_record_count w \<noteq> 0 \<and> w_staging_type_id w \<noteq> type_id
     then (Err (TileTypeMismatch (w_staging_type_id w) type_id), w)
     else
       let w = (if w_staging_record_count w = 0 then w\<lparr> w_staging_type_id := type_id \<rparr> else w) in
       if w_staging_len w + length record_bytes > T then (Err TileFull, w)
       else (Ok (), w\<lparr> w_staging_buffer := patch (w_staging_len w) record_bytes (w_staging_buffer w),
                       w_staging_len := w_staging_len w + length record_bytes,
                       w_staging_record_count := w_staging_record_count w + 1 \<rparr>))"

definition append_sensor_record :: "nat \<Rightarrow> sensor_record \<Rightarrow> 's edge_writer \<Rightarrow> ('e edge_error, unit) result \<times> 's edge_writer" where
  "append_sensor_record T r w = append_record T TILE_TYPE_TIME_SERIES (sensor_record_bytes r) w"

definition append_equipment_event :: "nat \<Rightarrow> equipment_event \<Rightarrow> 's edge_writer \<Rightarrow> ('e edge_error, unit) result \<times> 's edge_writer" where
  "append_equipment_event T r w = append_record T TILE_TYPE_RECORD (equipment_event_bytes r) w"

definition append_config_entry :: "nat \<Rightarrow> config_entry \<Rightarrow> 's edge_writer \<Rightarrow> ('e edge_error, unit) result \<times> 's edge_writer" where
  "append_config_entry T r w = append_record T TILE_TYPE_CONFIG (config_entry_bytes r) w"

definition append_device_identity :: "nat \<Rightarrow> device_identity \<Rightarrow> 's edge_writer \<Rightarrow> ('e edge_error, unit) result \<times> 's edge_writer" where
  "append_device_identity T r w = append_record T TILE_TYPE_RECORD (device_identity_bytes r) w"

definition append_consent :: "nat \<Rightarrow> edge_consent \<Rightarrow> 's edge_writer \<Rightarrow> ('e edge_error, unit) result \<times> 's edge_writer" where
  "append_consent T r w = append_record T TILE_TYPE_CONSENT (edge_consent_bytes r) w"

section \<open>Sealing\<close>

text \<open>The header \<open>seal_tile\<close> computes for the staged payload, and the staging buffer as
  written: header, payload, zeros.\<close>

definition staged_payload :: "'s edge_writer \<Rightarrow> byte list" where
  "staged_payload w = window COMMON_TILE_HEADER_SIZE (w_staging_len w - COMMON_TILE_HEADER_SIZE) (w_staging_buffer w)"

definition sealed_tile_header :: "sha256 \<Rightarrow> 's edge_writer \<Rightarrow> common_tile_header" where
  "sealed_tile_header sha w =
    (let tile_header = (common_tile_header_new (w_staging_type_id w) (w_staging_record_count w)
           (of_nat (w_staging_len w - COMMON_TILE_HEADER_SIZE)))
           \<lparr> th_data_crc32 := crc32c (staged_payload w), th_payload_hash := sha (staged_payload w),
             th_generation := ucast (w_generation w + 1) \<rparr>
     in tile_header\<lparr> th_header_crc32 := compute_common_tile_header_crc32 tile_header \<rparr>)"

definition next_seal_hash :: "sha256 \<Rightarrow> 's edge_writer \<Rightarrow> hash" where
  "next_seal_hash sha w = compute_seal_hash sha (w_prev_seal_hash w) (w_generation w + 1)
     (w_tile_count w) (sha (staged_payload w)) (w_device_id w)"

definition seal_tile ::
  "('s, 'e) flash_ops \<Rightarrow> sha256 \<Rightarrow> nat \<Rightarrow> u64 \<Rightarrow> 's edge_writer \<Rightarrow> ('e edge_error, hash) result \<times> 's edge_writer" where
  "seal_tile ops sha T timestamp w =
    (let seal_hash = next_seal_hash sha w;
         tile_header = sealed_tile_header sha w;
         staging_buffer = take (w_staging_len w) (w_staging_buffer w) @ replicate (T - w_staging_len w) 0;
         staging_buffer = patch 0 (common_tile_header_bytes tile_header) staging_buffer;
         w = w\<lparr> w_staging_buffer := staging_buffer \<rparr>;
         tile_offset = FILE_HEADER_SIZE + unat (w_tile_count w) * T
     in case fo_erase ops tile_offset T (w_storage w) of
       (Err e, storage) \<Rightarrow> (Err (Storage e), w\<lparr> w_storage := storage \<rparr>)
     | (Ok _, storage) \<Rightarrow>
     case fo_write ops (tile_offset + COMMON_TILE_HEADER_SIZE)
            (window COMMON_TILE_HEADER_SIZE (T - COMMON_TILE_HEADER_SIZE) staging_buffer) storage of
       (Err e, storage) \<Rightarrow> (Err (Storage e), w\<lparr> w_storage := storage \<rparr>)
     | (Ok _, storage) \<Rightarrow>
     case fo_write ops tile_offset (take COMMON_TILE_HEADER_SIZE staging_buffer) storage of
       (Err e, storage) \<Rightarrow> (Err (Storage e), w\<lparr> w_storage := storage \<rparr>)
     | (Ok _, storage) \<Rightarrow>
     let next_slot = 1 - w_active_slot w;
         next_gen = w_generation w + 1;
         next_tile_count = w_tile_count w + 1;
         new_slot = commit_header T next_tile_count next_gen (w_created_timestamp w) timestamp
           (w_file_uuid w) (w_addon_mask w)
     in case fo_write ops (slot_offset next_slot) (file_header_bytes new_slot) storage of
       (Err e, storage) \<Rightarrow> (Err (Storage e), w\<lparr> w_storage := storage \<rparr>)
     | (Ok _, storage) \<Rightarrow>
       (Ok seal_hash,
        w\<lparr> w_storage := storage, w_active_slot := next_slot, w_generation := next_gen,
           w_tile_count := next_tile_count, w_prev_seal_hash := seal_hash,
           w_staging_buffer := replicate T 0xFF, w_staging_len := COMMON_TILE_HEADER_SIZE,
           w_staging_record_count := 0, w_staging_type_id := 0 \<rparr>))"

definition provision ::
  "('s, 'e) flash_ops \<Rightarrow> sha256 \<Rightarrow> nat \<Rightarrow> edge_consent \<Rightarrow> device_identity \<Rightarrow> u64 \<Rightarrow> 's edge_writer \<Rightarrow>
   ('e edge_error, hash) result \<times> 's edge_writer" where
  "provision ops sha T consent identity timestamp w =
    (case append_consent T consent w of
       (Err e, w) \<Rightarrow> (Err e, w)
     | (Ok _, w) \<Rightarrow>
     case seal_tile ops sha T timestamp w of
       (Err e, w) \<Rightarrow> (Err e, w)
     | (Ok _, w) \<Rightarrow>
     case append_device_identity T identity w of
       (Err e, w) \<Rightarrow> (Err e, w)
     | (Ok _, w) \<Rightarrow> seal_tile ops sha T timestamp w)"

section \<open>The image of an archive\<close>

text \<open>What recovery reads, as functions of the byte image alone.\<close>

definition slot_at :: "nat \<Rightarrow> byte list \<Rightarrow> file_header" where
  "slot_at slot c = file_header_of_bytes (window (slot_offset slot) FILE_HEADER_SLOT_SIZE c)"

definition tile_offset :: "nat \<Rightarrow> nat \<Rightarrow> nat" where
  "tile_offset T i = FILE_HEADER_SIZE + i * T"

definition tile_header_at :: "nat \<Rightarrow> byte list \<Rightarrow> nat \<Rightarrow> common_tile_header" where
  "tile_header_at T c i = common_tile_header_of_bytes (window (tile_offset T i) COMMON_TILE_HEADER_SIZE c)"

definition tile_payload_at :: "nat \<Rightarrow> byte list \<Rightarrow> nat \<Rightarrow> byte list" where
  "tile_payload_at T c i =
    window (tile_offset T i + COMMON_TILE_HEADER_SIZE) (unat (th_payload_len (tile_header_at T c i))) c"

definition tile_valid :: "sha256 \<Rightarrow> nat \<Rightarrow> byte list \<Rightarrow> nat \<Rightarrow> bool" where
  "tile_valid sha T c i \<longleftrightarrow>
    tile_offset T i + T \<le> length c \<and>
    \<not> list_all (\<lambda>b. b = 0xFF) (window (tile_offset T i) COMMON_TILE_HEADER_SIZE c) \<and>
    common_tile_header_verify (tile_header_at T c i) \<and>
    unat (th_payload_len (tile_header_at T c i)) \<le> T - COMMON_TILE_HEADER_SIZE \<and>
    crc32c (tile_payload_at T c i) = th_data_crc32 (tile_header_at T c i) \<and>
    sha (tile_payload_at T c i) = th_payload_hash (tile_header_at T c i)"

definition tile_generation :: "file_header \<Rightarrow> common_tile_header \<Rightarrow> nat \<Rightarrow> u64" where
  "tile_generation active th i =
    (if th_generation th \<noteq> 0 then ucast (th_generation th)
     else (if ucast (fh_tile_count active) \<le> fh_generation active
           then fh_generation active - ucast (fh_tile_count active) else 0) + of_nat i + 1)"

definition tile_link :: "sha256 \<Rightarrow> nat \<Rightarrow> byte list \<Rightarrow> file_header \<Rightarrow> byte list \<Rightarrow> nat \<Rightarrow> hash \<Rightarrow> hash option" where
  "tile_link sha T device_id active c i prev =
    (if tile_valid sha T c i
     then Some (compute_seal_hash sha prev (tile_generation active (tile_header_at T c i) i) (of_nat i)
                 (th_payload_hash (tile_header_at T c i)) device_id)
     else None)"

primrec scan_image ::
  "sha256 \<Rightarrow> nat \<Rightarrow> byte list \<Rightarrow> file_header \<Rightarrow> byte list \<Rightarrow> nat \<Rightarrow> nat \<Rightarrow> hash \<Rightarrow> nat \<times> hash" where
  "scan_image sha T dev active c 0 i prev = (i, prev)"
| "scan_image sha T dev active c (Suc k) i prev =
    (case tile_link sha T dev active c i prev of None \<Rightarrow> (i, prev)
     | Some h \<Rightarrow> scan_image sha T dev active c k (i + 1) h)"

text \<open>The first \<open>n\<close> tiles of an image are committed and chain to the seal hash \<open>h\<close>.\<close>

inductive committed :: "sha256 \<Rightarrow> nat \<Rightarrow> byte list \<Rightarrow> byte list \<Rightarrow> nat \<Rightarrow> hash \<Rightarrow> bool"
  for sha T dev c where
  committed_genesis: "committed sha T dev c 0 (replicate 32 0)"
| committed_tile: "committed sha T dev c n h \<Longrightarrow> tile_valid sha T c n \<Longrightarrow> th_generation (tile_header_at T c n) \<noteq> 0 \<Longrightarrow>
    h' = compute_seal_hash sha h (ucast (th_generation (tile_header_at T c n))) (of_nat n)
           (th_payload_hash (tile_header_at T c n)) dev \<Longrightarrow>
    committed sha T dev c (Suc n) h'"

inductive_cases committed_SucE: "committed sha T dev c (Suc n) h"

text \<open>An archive image and the writer on it agree: the active slot holds the writer's state,
  the other slot is not later, and the writer's tiles chain to its seal hash.\<close>

definition staging_ok :: "nat \<Rightarrow> 's edge_writer \<Rightarrow> bool" where
  "staging_ok T w \<longleftrightarrow> COMMON_TILE_HEADER_SIZE \<le> w_staging_len w \<and> w_staging_len w \<le> T \<and>
    length (w_staging_buffer w) = T"

definition active_matches :: "file_header \<Rightarrow> 's edge_writer \<Rightarrow> bool" where
  "active_matches h w \<longleftrightarrow> file_header_verify h \<and> fh_generation h = w_generation w \<and>
    fh_tile_count h = w_tile_count w \<and> fh_file_uuid h = w_file_uuid w \<and>
    fh_created_timestamp h = w_created_timestamp w \<and> fh_addon_mask h = w_addon_mask w"

definition consistent :: "sha256 \<Rightarrow> nat \<Rightarrow> byte list \<Rightarrow> 's edge_writer \<Rightarrow> bool" where
  "consistent sha T c w \<longleftrightarrow>
    T < 2 ^ 64 \<and> staging_ok T w \<and> FILE_HEADER_SIZE \<le> length c \<and> w_active_slot w < 2 \<and>
    active_matches (slot_at (w_active_slot w) c) w \<and>
    (file_header_verify (slot_at (1 - w_active_slot w) c) \<longrightarrow>
       fh_generation (slot_at (1 - w_active_slot w) c) < w_generation w) \<and>
    committed sha T (w_device_id w) c (unat (w_tile_count w)) (w_prev_seal_hash w)"

lemmas layout_sizes = FILE_HEADER_SIZE_def FILE_HEADER_SLOT_SIZE_def FILE_HEADER_SLOT_A_OFFSET_def
  FILE_HEADER_SLOT_B_OFFSET_def COMMON_TILE_HEADER_SIZE_def slot_offset_def

lemma window_take: "a + n \<le> m \<Longrightarrow> window a n (take m c) = window a n c"
  by (simp add: window_def drop_take)

lemma take_window_eq: "take m c' = take m c \<Longrightarrow> a + n \<le> m \<Longrightarrow> window a n c' = window a n c"
  by (metis window_take)

lemma scan_image_bound: "fst (scan_image sha T dev active c k i prev) \<le> i + k"
proof (induction k arbitrary: i prev)
  case (Suc k)
  then show ?case using Suc.IH [of "Suc i"] by (simp split: option.split)
qed simp

lemma scan_image_snoc:
  "scan_image sha T dev active c (Suc k) i prev =
    (case scan_image sha T dev active c k i prev of (m, h) \<Rightarrow>
       if m = i + k then (case tile_link sha T dev active c m h of None \<Rightarrow> (m, h) | Some h' \<Rightarrow> (Suc m, h')) else (m, h))"
proof (induction k arbitrary: i prev)
  case 0
  show ?case by (simp split: option.split)
next
  case (Suc k)
  show ?case
  proof (cases "tile_link sha T dev active c i prev")
    case (Some h)
    have "scan_image sha T dev active c (Suc (Suc k)) i prev = scan_image sha T dev active c (Suc k) (Suc i) h"
      "scan_image sha T dev active c (Suc k) i prev = scan_image sha T dev active c k (Suc i) h"
      by (simp_all add: Some)
    then show ?thesis by (simp only: Suc.IH add_Suc_right add_Suc)
  qed simp
qed

lemma committed_scan:
  "committed sha T dev c n h \<Longrightarrow> scan_image sha T dev active c n 0 (replicate 32 0) = (n, h)"
  by (induction rule: committed.induct)
    (simp_all add: scan_image_snoc tile_link_def tile_generation_def del: scan_image.simps(2))

lemma tile_offset_mono: "i < n \<Longrightarrow> tile_offset T i + T \<le> tile_offset T n"
proof -
  assume "i < n"
  then have "Suc i * T \<le> n * T" by (intro mult_le_mono1) simp
  then show ?thesis by (simp add: tile_offset_def)
qed

lemma tile_valid_frame:
  assumes "window (tile_offset T i) T c' = window (tile_offset T i) T c" "length c' = length c" "64 \<le> T"
  shows "tile_header_at T c' i = tile_header_at T c i" "tile_valid sha T c' i \<longleftrightarrow> tile_valid sha T c i"
proof -
  have w: "window (tile_offset T i + a) n c' = window (tile_offset T i + a) n c" if "a + n \<le> T" for a n
    using assms(1) that by (metis window_window)
  then show h: "tile_header_at T c' i = tile_header_at T c i"
    using w [of 0 64] assms(3) by (simp add: tile_header_at_def layout_sizes)
  show "tile_valid sha T c' i \<longleftrightarrow> tile_valid sha T c i"
    using w [of 0 64] w [of 64 "unat (th_payload_len (tile_header_at T c i))"] assms(2,3)
    by (auto simp: tile_valid_def h tile_payload_at_def layout_sizes)
qed

lemma committed_frame:
  "committed sha T dev c n h \<Longrightarrow> 64 \<le> T \<Longrightarrow> length c' = length c \<Longrightarrow>
   \<forall>i<n. window (tile_offset T i) T c' = window (tile_offset T i) T c \<Longrightarrow> committed sha T dev c' n h"
proof (induction rule: committed.induct)
  case committed_genesis
  show ?case by (rule committed.committed_genesis)
next
  case (committed_tile n h h')
  have "window (tile_offset T n) T c' = window (tile_offset T n) T c" using committed_tile.prems by simp
  note f = tile_valid_frame [OF this committed_tile.prems(2,1)]
  show ?case
    using committed_tile f by (intro committed.committed_tile [of _ _ _ _ _ h]) auto
qed

lemma consistent_frame:
  assumes "consistent sha T c w" "length c' = length c"
    and "take (tile_offset T (unat (w_tile_count w))) c' = take (tile_offset T (unat (w_tile_count w))) c"
  shows "consistent sha T c' w"
proof -
  let ?n = "unat (w_tile_count w)"
  have "512 \<le> tile_offset T ?n" by (simp add: tile_offset_def layout_sizes)
  then have s: "slot_at k c' = slot_at k c" for k
    unfolding slot_at_def by (simp add: take_window_eq [OF assms(3)] layout_sizes)
  have "window (tile_offset T i) T c' = window (tile_offset T i) T c" if "i < ?n" for i
    by (rule take_window_eq [OF assms(3) tile_offset_mono [OF that]])
  moreover have "64 \<le> T" using assms(1) by (simp add: consistent_def staging_ok_def layout_sizes)
  ultimately show ?thesis
    using assms(1,2) by (auto simp: consistent_def s intro: committed_frame)
qed

section \<open>Recovery and sealing on any device that keeps the contract\<close>

definition reset_staging :: "nat \<Rightarrow> 's edge_writer \<Rightarrow> 's edge_writer" where
  "reset_staging T w = w\<lparr> w_staging_buffer := replicate T 0xFF, w_staging_type_id := 0,
     w_staging_record_count := 0, w_staging_len := COMMON_TILE_HEADER_SIZE \<rparr>"

context flash_storage
begin

lemma scan_tile_image:
  assumes "64 \<le> T"
  shows "scan_tile ops sha T dev active i prev s = (Ok (tile_link sha T dev active (contents s) i prev), s)"
proof (cases "tile_offset T i + T \<le> length (contents s)")
  case False
  then show ?thesis
    by (simp add: scan_tile_def tile_link_def tile_valid_def total_size tile_offset_def)
next
  case True
  have r: "fo_read ops (tile_offset T i + a) n s = (Ok (window (tile_offset T i + a) n (contents s)), s)"
    if "a + n \<le> T" for a n
    using True that by (intro read_in) simp
  from True show ?thesis
    using r [of 0 64] r [of 64 "unat (th_payload_len (tile_header_at T (contents s) i))"] assms
    by (auto simp: scan_tile_def tile_link_def tile_valid_def tile_payload_at_def tile_generation_def
        total_size Let_def tile_header_at_def tile_offset_def layout_sizes)
qed

lemma scan_tiles_image:
  "64 \<le> T \<Longrightarrow> scan_tiles ops sha T dev active k i prev s = (Ok (scan_image sha T dev active (contents s) k i prev), s)"
  by (induction k arbitrary: i prev) (simp_all add: scan_tile_image split: option.split)

lemma read_slots:
  assumes "512 \<le> length (contents s)"
  shows "fo_read ops 0 64 s = (Ok (window 0 64 (contents s)), s)"
    "fo_read ops 64 64 s = (Ok (window 64 64 (contents s)), s)"
  using assms read_in [of 0 64 s] read_in [of 64 64 s] by (simp_all add: layout_sizes)

lemma choose_slot_consistent:
  assumes "consistent sha T c w"
  shows "choose_slot (slot_at 0 c) (slot_at 1 c) = Some (w_active_slot w, slot_at (w_active_slot w) c)"
proof -
  have "w_active_slot w = 0 \<or> w_active_slot w = 1" using assms by (auto simp: consistent_def)
  then show ?thesis
    using assms by (auto simp: consistent_def active_matches_def choose_slot_def split: bool.splits)
qed

text \<open>Recovery of a consistent archive returns the writer's state and changes nothing.\<close>

lemma recover_consistent:
  assumes "consistent sha T (contents s) w"
  shows "recover_internal ops sha T s (w_device_id w) = (Ok (reset_staging T (w\<lparr>w_storage := s\<rparr>)), s)"
proof -
  from assms have T: "64 \<le> T" and len: "512 \<le> length (contents s)"
    by (simp_all add: consistent_def staging_ok_def layout_sizes)
  have sl: "file_header_of_bytes (window 0 64 (contents s)) = slot_at 0 (contents s)"
    "file_header_of_bytes (window 64 64 (contents s)) = slot_at 1 (contents s)"
    by (simp_all add: slot_at_def layout_sizes)
  have scan: "scan_image sha T (w_device_id w) a (contents s) (unat (w_tile_count w)) 0 (replicate 32 0) =
      (unat (w_tile_count w), w_prev_seal_hash w)" for a
    using assms by (intro committed_scan) (simp add: consistent_def)
  have m: "active_matches (slot_at (w_active_slot w) (contents s)) w" using assms by (simp add: consistent_def)
  show ?thesis
    using m by (simp add: recover_internal_def read_slots [OF len] sl choose_slot_consistent [OF assms, unfolded One_nat_def]
        scan_tiles_image [OF T] scan active_matches_def reset_staging_def layout_sizes)
qed

end

section \<open>What sealing writes\<close>

definition sealed_buffer :: "sha256 \<Rightarrow> nat \<Rightarrow> 's edge_writer \<Rightarrow> byte list" where
  "sealed_buffer sha T w = patch 0 (common_tile_header_bytes (sealed_tile_header sha w))
     (take (w_staging_len w) (w_staging_buffer w) @ replicate (T - w_staging_len w) 0)"

definition sealed_slot :: "nat \<Rightarrow> u64 \<Rightarrow> 's edge_writer \<Rightarrow> file_header" where
  "sealed_slot T timestamp w = commit_header T (w_tile_count w + 1) (w_generation w + 1)
     (w_created_timestamp w) timestamp (w_file_uuid w) (w_addon_mask w)"

definition sealed_writer :: "sha256 \<Rightarrow> nat \<Rightarrow> 's edge_writer \<Rightarrow> 's edge_writer" where
  "sealed_writer sha T w = reset_staging T (w\<lparr> w_active_slot := 1 - w_active_slot w,
     w_generation := w_generation w + 1, w_tile_count := w_tile_count w + 1,
     w_prev_seal_hash := next_seal_hash sha w \<rparr>)"

lemma length_sealed_header:
  "\<forall>x. length (sha x) = 32 \<Longrightarrow> length (common_tile_header_bytes (sealed_tile_header sha w)) = 64"
  by (intro length_common_tile_header_bytes) (simp add: sealed_tile_header_def Let_def)

lemma sealed_header_simps:
  "th_payload_hash (sealed_tile_header sha w) = sha (staged_payload w)"
  "th_data_crc32 (sealed_tile_header sha w) = crc32c (staged_payload w)"
  "th_payload_len (sealed_tile_header sha w) = of_nat (w_staging_len w - 64)"
  "th_generation (sealed_tile_header sha w) = ucast (w_generation w + 1)"
  "th_type_version (sealed_tile_header sha w) = 1"
  by (simp_all add: sealed_tile_header_def common_tile_header_new_def Let_def layout_sizes)

lemma sealed_header_verify:
  "\<forall>x. length (sha x) = 32 \<Longrightarrow>
   common_tile_header_verify (sealed_tile_header sha w) \<longleftrightarrow> th_header_crc32 (sealed_tile_header sha w) \<noteq> 0"
  by (auto simp: sealed_tile_header_def Let_def common_tile_header_verify_def)

lemma sealed_header_not_erased:
  "\<not> list_all (\<lambda>b. b = 0xFF) (common_tile_header_bytes (sealed_tile_header sha w))"
proof -
  have "le16 1 = [1, 0]" by (simp add: to_le_eval)
  then show ?thesis by (simp add: common_tile_header_bytes_def sealed_header_simps)
qed

lemma sealed_buffer_layout:
  assumes "staging_ok T w" "\<forall>x. length (sha x) = 32"
  shows "length (sealed_buffer sha T w) = T"
    "take 64 (sealed_buffer sha T w) = common_tile_header_bytes (sealed_tile_header sha w)"
    "window 64 (w_staging_len w - 64) (sealed_buffer sha T w) = staged_payload w"
proof -
  note h = length_sealed_header [OF assms(2), of w]
  show "length (sealed_buffer sha T w) = T"
    using assms(1) h by (simp add: sealed_buffer_def staging_ok_def layout_sizes)
  show "take 64 (sealed_buffer sha T w) = common_tile_header_bytes (sealed_tile_header sha w)"
    using h by (simp add: sealed_buffer_def patch_def)
  show "window 64 (w_staging_len w - 64) (sealed_buffer sha T w) = staged_payload w"
    using assms(1) h
    by (simp add: sealed_buffer_def patch_def staged_payload_def window_def staging_ok_def layout_sizes drop_take)
qed

lemma commit_header_simps:
  "fh_generation (commit_header T n g cr ct u a) = g" "fh_tile_count (commit_header T n g cr ct u a) = n"
  "fh_created_timestamp (commit_header T n g cr ct u a) = cr" "fh_file_uuid (commit_header T n g cr ct u a) = u"
  "fh_addon_mask (commit_header T n g cr ct u a) = a" "fh_magic (commit_header T n g cr ct u a) = S3A_MAGIC"
  by (simp_all add: commit_header_def Let_def)

lemma commit_header_verify:
  "file_header_verify (commit_header T n g cr ct u a) \<longleftrightarrow> fh_header_crc32 (commit_header T n g cr ct u a) \<noteq> 0"
  by (auto simp: commit_header_def Let_def file_header_verify_def)

lemma length_commit_header: "length (file_header_bytes (commit_header T n g cr ct u a)) = 64"
  by (simp add: commit_header_simps)

lemma window_0: "window 0 n c = take n c"
  by (simp add: window_def)

lemma u64_Suc: "unat (g :: u64) + 1 < 2 ^ 32 \<Longrightarrow> g < g + 1 \<and> (ucast (g + 1) :: u32) \<noteq> 0 \<and> ucast (ucast (g + 1) :: u32) = g + 1"
proof -
  assume a: "unat g + 1 < 2 ^ 32"
  then have u: "unat (g + 1) = unat g + 1" by (simp add: unat_word_ariths)
  have "unat (ucast (g + 1) :: u32) = unat g + 1" using a by (simp add: unsigned_ucast_eq u take_bit_nat_eq_self)
  then show ?thesis using u
    by (auto simp: word_less_nat_alt word_unat_eq_iff unsigned_ucast_eq unsigned_take_bit_eq take_bit_nat_eq_self)
qed

text \<open>The image after a commit: the tile area holds the sealed tile and the inactive slot the
  new header.\<close>

lemma sealed_consistent:
  fixes w :: "'s edge_writer"
  assumes w: "consistent sha T c w" and sha: "\<forall>x. length (sha x) = 32"
    and gen: "unat (w_generation w) + 1 < 2 ^ 32" and cnt: "unat (w_tile_count w) + 1 < 2 ^ 32"
    and crc: "th_header_crc32 (sealed_tile_header sha w) \<noteq> 0"
    and len: "length c3 = length c"
    and pre: "take (tile_offset T (unat (w_tile_count w))) c3 = take (tile_offset T (unat (w_tile_count w))) c"
    and fits: "tile_offset T (unat (w_tile_count w)) + T \<le> length c"
    and tile: "window (tile_offset T (unat (w_tile_count w))) T c3 = sealed_buffer sha T w"
    and c': "length c' = length c" "\<And>a n. 128 \<le> a \<Longrightarrow> a + n \<le> length c \<Longrightarrow> window a n c' = window a n c3"
    and act: "slot_at (w_active_slot w) c' = slot_at (w_active_slot w) c"
    and new: "slot_at (1 - w_active_slot w) c' = sealed_slot T ts w" "file_header_verify (sealed_slot T ts w)"
  shows "consistent sha T c' (sealed_writer sha T w)"
proof -
  let ?n = "unat (w_tile_count w)" and ?dev = "w_device_id w"
  let ?h = "sealed_tile_header sha w"
  from w have ok: "staging_ok T w" and T: "64 \<le> T" "T < 2 ^ 64" and a2: "w_active_slot w < 2"
    by (simp_all add: consistent_def staging_ok_def layout_sizes)
  have "consistent sha T c3 w" by (rule consistent_frame [OF w len pre])
  then have "committed sha T ?dev c3 ?n (w_prev_seal_hash w)" by (simp add: consistent_def)
  then have "committed sha T ?dev c' ?n (w_prev_seal_hash w)"
  proof (rule committed_frame [OF _ T(1)], goal_cases)
    case 2
    show ?case
    proof (intro allI impI)
      fix i
      assume "i < ?n"
      then have "tile_offset T i + T \<le> length c" using tile_offset_mono [of i ?n T] fits by simp
      then show "window (tile_offset T i) T c' = window (tile_offset T i) T c3"
        by (intro c'(2)) (simp_all add: tile_offset_def layout_sizes)
    qed
  qed (simp add: c' len)
  moreover have area: "window (tile_offset T ?n) T c' = sealed_buffer sha T w"
    using c'(2) [of "tile_offset T ?n" T] fits tile by (simp add: tile_offset_def layout_sizes)
  note lay = sealed_buffer_layout [OF ok sha]
  have sub: "window (tile_offset T ?n + a) k c' = window a k (sealed_buffer sha T w)" if "a + k \<le> T" for a k
    using that by (simp flip: area add: window_window)
  have hb: "window (tile_offset T ?n) 64 c' = common_tile_header_bytes ?h"
    using sub [of 0 64] T(1) lay(2) by (simp add: window_0)
  have th: "tile_header_at T c' ?n = ?h"
    using sha by (simp add: tile_header_at_def layout_sizes hb sealed_header_simps)
  have plen: "unat (of_nat (w_staging_len w - 64) :: u64) = w_staging_len w - 64"
    by (rule u64_unat) (use ok T(2) in \<open>unfold staging_ok_def, linarith\<close>)
  then have plen: "unat (th_payload_len ?h) = w_staging_len w - 64" by (simp only: sealed_header_simps)
  have pl: "tile_payload_at T c' ?n = staged_payload w"
    using sub [of 64 "w_staging_len w - 64"] ok lay(3)
    by (simp add: tile_payload_at_def th plen layout_sizes staging_ok_def)
  have valid: "tile_valid sha T c' ?n"
    using fits c'(1) sealed_header_not_erased [of sha w] crc ok
    by (simp add: tile_valid_def th pl sealed_header_simps(1,2) plen layout_sizes hb
        sealed_header_verify [OF sha] staging_ok_def diff_le_mono)
  have idx: "unat (w_tile_count w + 1) = Suc ?n"
    using cnt by (simp add: unat_word_ariths)
  have "committed sha T ?dev c' (unat (w_tile_count w + 1)) (next_seal_hash sha w)"
    unfolding idx using calculation valid u64_Suc [OF gen]
    by (intro committed_tile [of _ _ _ _ _ "w_prev_seal_hash w"])
      (simp_all add: th sealed_header_simps next_seal_hash_def)
  moreover have "1 - (1 - w_active_slot w) = w_active_slot w" using a2 by auto
  moreover have "fh_generation (slot_at (w_active_slot w) c) < w_generation w + 1"
    using w u64_Suc [OF gen] by (simp add: consistent_def active_matches_def)
  ultimately show ?thesis
    using w c'(1) new act a2 T
    by (simp add: consistent_def sealed_writer_def reset_staging_def staging_ok_def active_matches_def
        sealed_slot_def commit_header_simps layout_sizes)
qed

context flash_storage
begin

text \<open>Erasing the tile area, then payload, then header: whatever the outcome, nothing below the
  area changes; when all three succeed the area holds the sealed buffer.\<close>

lemma area_frame:
  assumes "fo_write ops a d s = (r, s')" "off \<le> a" "off \<le> length (contents s)"
  shows "length (contents s') = length (contents s)" "take off (contents s') = take off (contents s)"
  using write_length [OF assms(1)] write_frame [OF assms(1), of 0 off] assms(2,3) by (simp_all add: window_0)

lemma area_erase_frame:
  assumes "fo_erase ops off n s = (r, s')" "off \<le> length (contents s)"
  shows "length (contents s') = length (contents s)" "take off (contents s') = take off (contents s)"
  using erase_length [OF assms(1)] erase_frame [OF assms(1), of 0 off] assms(2) by (simp_all add: window_0)

lemma area_written:
  assumes "fo_erase ops off T s = (Ok u, s1)" "fo_write ops (off + 64) (window 64 (T - 64) buf) s1 = (Ok v, s2)"
    "fo_write ops off (take 64 buf) s2 = (Ok x, s3)" "length buf = T" "64 \<le> T"
  shows "off + T \<le> length (contents s)" "length (contents s3) = length (contents s)"
    "take off (contents s3) = take off (contents s)" "window off T (contents s3) = buf"
proof -
  from erase_ok [of off T s s1] assms(1) have e: "off + T \<le> length (contents s)"
    and c1: "length (contents s1) = length (contents s)" by simp_all
  from write_ok_contents [OF assms(2)] have c2: "contents s2 = patch (off + 64) (window 64 (T - 64) buf) (contents s1)" by simp
  from write_ok_contents [OF assms(3)] have c3: "contents s3 = patch off (take 64 buf) (contents s2)" by simp
  show "off + T \<le> length (contents s)" by (rule e)
  have o: "off \<le> length (contents s)" "off \<le> length (contents s1)" "off \<le> length (contents s2)"
    using e c1 write_length [OF assms(2)] by simp_all
  show "length (contents s3) = length (contents s)"
    using c1 write_length [OF assms(2)] write_length [OF assms(3)] by simp
  show "take off (contents s3) = take off (contents s)"
    using area_erase_frame(2) [OF assms(1) o(1)] area_frame(2) [OF assms(2) _ o(2)] area_frame(2) [OF assms(3) _ o(3)]
    by simp
  have l2: "length (contents s2) = length (contents s)" using c1 write_length [OF assms(2)] by simp
  have lw: "length (window 64 (T - 64) buf) = T - 64" "length (take 64 buf) = 64"
    using assms(4,5) by simp_all
  have "window off 64 (contents s3) = take 64 buf"
    unfolding c3 using e l2 lw(2) assms(5) window_patch_same [of off "take 64 buf" "contents s2"] by simp
  moreover have "window (off + 64) (T - 64) (contents s3) = window 64 (T - 64) buf"
  proof -
    have "window (off + 64) (T - 64) (contents s3) = window (off + 64) (T - 64) (contents s2)"
      unfolding c3 using e l2 lw assms(5) by (intro window_patch_disjoint) simp_all
    also have "\<dots> = window 64 (T - 64) buf"
      unfolding c2 using e c1 lw assms(5) window_patch_same [of "off + 64" "window 64 (T - 64) buf" "contents s1"] by simp
    finally show ?thesis .
  qed
  moreover have "window off T (contents s3) = window off 64 (contents s3) @ window (off + 64) (T - 64) (contents s3)"
    using assms(5) by (subst window_join) simp_all
  moreover have "take 64 buf @ window 64 (T - 64) buf = buf"
    using assms(4) by (simp add: window_def)
  ultimately show "window off T (contents s3) = buf" by simp
qed

text \<open>The three ways \<open>seal_tile\<close> ends.\<close>

lemma seal_tile_cases:
  assumes "seal_tile ops sha T ts w = (r, w')" "consistent sha T (contents (w_storage w)) w"
    "tile_offset T (unat (w_tile_count w)) \<le> length (contents (w_storage w))" "\<forall>x. length (sha x) = 32"
  obtains (area) e s' where "r = Err (Storage e)" "w' = w\<lparr>w_staging_buffer := sealed_buffer sha T w, w_storage := s'\<rparr>"
      "length (contents s') = length (contents (w_storage w))"
      "take (tile_offset T (unat (w_tile_count w))) (contents s') =
       take (tile_offset T (unat (w_tile_count w))) (contents (w_storage w))"
  | (commit) s3 q s' where
      "fo_write ops (slot_offset (1 - w_active_slot w)) (file_header_bytes (sealed_slot T ts w)) s3 = (q, s')"
      "length (contents s3) = length (contents (w_storage w))"
      "take (tile_offset T (unat (w_tile_count w))) (contents s3) =
       take (tile_offset T (unat (w_tile_count w))) (contents (w_storage w))"
      "tile_offset T (unat (w_tile_count w)) + T \<le> length (contents (w_storage w))"
      "window (tile_offset T (unat (w_tile_count w))) T (contents s3) = sealed_buffer sha T w"
      "(r, w') = (case q of
          Inl e \<Rightarrow> (Err (Storage e), w\<lparr>w_staging_buffer := sealed_buffer sha T w, w_storage := s'\<rparr>)
        | Inr _ \<Rightarrow> (Ok (next_seal_hash sha w), (sealed_writer sha T w)\<lparr>w_storage := s'\<rparr>))"
proof -
  let ?off = "tile_offset T (unat (w_tile_count w))" and ?buf = "sealed_buffer sha T w"
  from assms(2) have ok: "staging_ok T w" and T: "64 \<le> T" by (simp_all add: consistent_def staging_ok_def layout_sizes)
  note lay = sealed_buffer_layout [OF ok assms(4)]
  obtain r1 s1 where e: "fo_erase ops ?off T (w_storage w) = (r1, s1)" by force
  note f1 = area_erase_frame [OF e assms(3)]
  obtain r2 s2 where p: "fo_write ops (?off + 64) (window 64 (T - 64) ?buf) s1 = (r2, s2)" by force
  note f2 = area_frame [OF p, of ?off]
  obtain r3 s3 where h: "fo_write ops ?off (take 64 ?buf) s2 = (r3, s3)" by force
  note f3 = area_frame [OF h, of ?off]
  obtain q s4 where c: "fo_write ops (slot_offset (1 - w_active_slot w)) (file_header_bytes (sealed_slot T ts w)) s3 = (q, s4)"
    by force
  note run = assms(1) [unfolded seal_tile_def Let_def, folded sealed_buffer_def]
  show thesis
  proof (cases r1)
    case (Inl er)
    then show thesis using run e f1 by (intro area [of er s1]) (auto simp: tile_offset_def)
  next
    case 1: (Inr u)
    show thesis
    proof (cases r2)
      case (Inl er)
      then show thesis using run e p 1 f1 f2 assms(3)
        by (intro area [of er s2]) (auto simp: tile_offset_def layout_sizes)
    next
      case 2: (Inr v)
      show thesis
      proof (cases r3)
        case (Inl er)
        then show thesis using run e p h 1 2 f1 f2 f3 assms(3)
          by (intro area [of er s3]) (auto simp: tile_offset_def layout_sizes)
      next
        case 3: (Inr x)
        note a = area_written [OF e [unfolded 1] p [unfolded 2] h [unfolded 3] lay(1) T]
        have "(r, w') = (case q of
            Inl e \<Rightarrow> (Err (Storage e), w\<lparr>w_staging_buffer := ?buf, w_storage := s4\<rparr>)
          | Inr _ \<Rightarrow> (Ok (next_seal_hash sha w), (sealed_writer sha T w)\<lparr>w_storage := s4\<rparr>))"
          using run e p h c 1 2 3
          by (auto simp: tile_offset_def layout_sizes sealed_writer_def reset_staging_def
              sealed_slot_def split: sum.splits)
        with c a show thesis by (intro commit) simp_all
      qed
    qed
  qed
qed

end

lemma consistent_area_start:
  assumes "consistent sha T c w"
  shows "tile_offset T (unat (w_tile_count w)) \<le> length c"
proof -
  from assms have "committed sha T (w_device_id w) c (unat (w_tile_count w)) (w_prev_seal_hash w)" "512 \<le> length c"
    by (simp_all add: consistent_def layout_sizes)
  then show ?thesis
    by (cases "unat (w_tile_count w)")
      (auto simp: tile_offset_def layout_sizes tile_valid_def elim!: committed_SucE)
qed

lemma slot_windows:
  assumes "a < 2" "off = slot_offset (1 - a)" "512 \<le> length c" "length d \<le> 64"
  shows "slot_at a (patch off d c) = slot_at a c"
    "128 \<le> i \<Longrightarrow> i + n \<le> length c \<Longrightarrow> window i n (patch off d c) = window i n c"
    "length d = 64 \<Longrightarrow> slot_at (1 - a) (patch off d c) = file_header_of_bytes d"
proof -
  have a: "a = 0 \<or> a = 1" using assms(1) by auto
  then show "slot_at a (patch off d c) = slot_at a c"
    using assms by (auto simp: slot_at_def layout_sizes intro!: arg_cong [of _ _ file_header_of_bytes] window_patch_disjoint)
  show "window i n (patch off d c) = window i n c" if "128 \<le> i" "i + n \<le> length c"
    using a assms that by (intro window_patch_disjoint) (auto simp: layout_sizes)
  show "slot_at (1 - a) (patch off d c) = file_header_of_bytes d" if "length d = 64"
    using a assms that window_patch_same [of off d c] by (auto simp: slot_at_def layout_sizes)
qed

context flash_storage
begin

lemma seal_tile_ok:
  assumes w: "consistent sha T (contents (w_storage w)) w" and sha: "\<forall>x. length (sha x) = 32"
    and gen: "unat (w_generation w) + 1 < 2 ^ 32" and cnt: "unat (w_tile_count w) + 1 < 2 ^ 32"
    and crc: "th_header_crc32 (sealed_tile_header sha w) \<noteq> 0" "fh_header_crc32 (sealed_slot T ts w) \<noteq> 0"
    and run: "seal_tile ops sha T ts w = (Ok h, w')"
  shows "h = next_seal_hash sha w" "w' = (sealed_writer sha T w)\<lparr>w_storage := w_storage w'\<rparr>"
    "consistent sha T (contents (w_storage w')) w'"
proof -
  note start = consistent_area_start [OF w]
  have w': "h = next_seal_hash sha w \<and> w' = (sealed_writer sha T w)\<lparr>w_storage := w_storage w'\<rparr> \<and>
    consistent sha T (contents (w_storage w')) w'"
  proof (rule seal_tile_cases [OF run w start sha], goal_cases)
    case area: (1 e s')
    then show ?thesis by simp
  next
    case commit: (2 s3 q s')
    then obtain u where q: "q = Ok u" by (cases q) auto
    have eqs: "h = next_seal_hash sha w" "w' = (sealed_writer sha T w)\<lparr>w_storage := s'\<rparr>"
      using commit(6) q by simp_all
    have c': "contents s' = patch (slot_offset (1 - w_active_slot w)) (file_header_bytes (sealed_slot T ts w)) (contents s3)"
      using write_ok_contents commit(1) q by blast
    have len: "length (file_header_bytes (sealed_slot T ts w)) = 64"
      by (simp only: sealed_slot_def length_commit_header)
    have a: "w_active_slot w < 2" "512 \<le> length (contents s3)" using w commit(2)
      by (simp_all add: consistent_def layout_sizes)
    note sw = slot_windows [OF a(1) refl a(2), of "file_header_bytes (sealed_slot T ts w)", folded c'] 
    have act3: "slot_at (w_active_slot w) (contents s3) = slot_at (w_active_slot w) (contents (w_storage w))"
      using take_window_eq [OF commit(3)] by (simp add: slot_at_def layout_sizes tile_offset_def)
    have "consistent sha T (contents s') (sealed_writer sha T w)"
    proof (rule sealed_consistent [OF w sha gen cnt crc(1) commit(2,3,4,5)])
      show "length (contents s') = length (contents (w_storage w))" using commit(2) write_length [OF commit(1)] by simp
      show "window i n (contents s') = window i n (contents s3)" if "128 \<le> i" "i + n \<le> length (contents (w_storage w))" for i n
        using sw(2) that len commit(2) by simp
      show "slot_at (w_active_slot w) (contents s') = slot_at (w_active_slot w) (contents (w_storage w))"
        using sw(1) len act3 by simp
      show "slot_at (1 - w_active_slot w) (contents s') = sealed_slot T ts w"
        using sw(3) len by (simp add: sealed_slot_def commit_header_simps)
      show "file_header_verify (sealed_slot T ts w)" using crc(2) by (simp add: sealed_slot_def commit_header_verify)
    qed
    then show ?thesis using eqs by (simp add: consistent_def staging_ok_def active_matches_def)
  qed
  then show "h = next_seal_hash sha w" "w' = (sealed_writer sha T w)\<lparr>w_storage := w_storage w'\<rparr>"
    "consistent sha T (contents (w_storage w')) w'" by blast+
qed

lemma seal_tile_torn:
  assumes w: "consistent sha T (contents (w_storage w)) w" and sha: "\<forall>x. length (sha x) = 32"
    and gen: "unat (w_generation w) + 1 < 2 ^ 32" and cnt: "unat (w_tile_count w) + 1 < 2 ^ 32"
    and crc: "th_header_crc32 (sealed_tile_header sha w) \<noteq> 0"
    and run: "seal_tile ops sha T ts w = (Err e, w')"
    and torn: "file_header_verify (slot_at (1 - w_active_slot w) (contents (w_storage w'))) \<Longrightarrow>
      slot_at (1 - w_active_slot w) (contents (w_storage w')) \<in>
        {slot_at (1 - w_active_slot w) (contents (w_storage w)), sealed_slot T ts w}"
  shows "consistent sha T (contents (w_storage w')) w \<or>
    consistent sha T (contents (w_storage w')) (sealed_writer sha T w)"
proof -
  note start = consistent_area_start [OF w]
  show ?thesis
  proof (rule seal_tile_cases [OF run w start sha], goal_cases)
    case area: (1 e s')
    then have "consistent sha T (contents s') w" by (intro consistent_frame [OF w])
    with area show ?thesis by simp
  next
    case commit: (2 s3 q s')
    then have w': "w_storage w' = s'" by (cases q) auto
    let ?new = "file_header_bytes (sealed_slot T ts w)"
    have len: "length ?new = 64" by (simp only: sealed_slot_def length_commit_header)
    have a: "w_active_slot w < 2" "512 \<le> length (contents s3)" using w commit(2)
      by (simp_all add: consistent_def layout_sizes)
    have "slot_offset (1 - w_active_slot w) + length ?new \<le> length (contents s3)"
      using a len by (simp add: layout_sizes)
    from write_in [OF this commit(1)] obtain k where
      c': "contents s' = patch (slot_offset (1 - w_active_slot w)) (take k ?new) (contents s3)" by auto
    have "length (take k ?new) \<le> 64" using len by simp
    note sw = slot_windows [OF a(1) refl a(2) this, folded c']
    have act: "slot_at (w_active_slot w) (contents s') = slot_at (w_active_slot w) (contents (w_storage w))"
      using take_window_eq [OF commit(3)] sw(1) by (simp add: slot_at_def layout_sizes tile_offset_def)
    show ?thesis
    proof (cases "file_header_verify (slot_at (1 - w_active_slot w) (contents s')) \<and>
        slot_at (1 - w_active_slot w) (contents s') = sealed_slot T ts w")
      case True
      have "consistent sha T (contents s') (sealed_writer sha T w)"
      proof (rule sealed_consistent [OF w sha gen cnt crc commit(2,3,4,5)])
        show "length (contents s') = length (contents (w_storage w))" using commit(2) write_length [OF commit(1)] by simp
        show "window i n (contents s') = window i n (contents s3)"
          if "128 \<le> i" "i + n \<le> length (contents (w_storage w))" for i n
          using sw(2) that commit(2) by simp
      qed (use True act in auto)
      then show ?thesis by (simp add: w')
    next
      case False
      have "consistent sha T (contents s3) w" by (rule consistent_frame [OF w commit(2,3)])
      then have com: "committed sha T (w_device_id w) (contents s3) (unat (w_tile_count w)) (w_prev_seal_hash w)"
        by (simp add: consistent_def)
      have "committed sha T (w_device_id w) (contents s') (unat (w_tile_count w)) (w_prev_seal_hash w)"
      proof (rule committed_frame [OF com])
        show "64 \<le> T" using w by (simp add: consistent_def staging_ok_def layout_sizes)
        show "length (contents s') = length (contents s3)" by (rule write_length [OF commit(1)])
        show "\<forall>i<unat (w_tile_count w). window (tile_offset T i) T (contents s') = window (tile_offset T i) T (contents s3)"
        proof (intro allI impI sw(2))
          fix i
          assume "i < unat (w_tile_count w)"
          then show "tile_offset T i + T \<le> length (contents s3)"
            using tile_offset_mono [of i _ T] start commit(2) by (metis order_trans)
        qed (simp_all add: tile_offset_def layout_sizes)
      qed
      moreover have "length (contents s') = length (contents (w_storage w))" using commit(2) write_length [OF commit(1)] by simp
      ultimately have "consistent sha T (contents s') w"
        using w act False torn by (auto simp: consistent_def w')
      then show ?thesis by (simp add: w')
    qed
  qed
qed

end

end
