(* ===== verification/Edge_Recovery.thy ===== *)
theory Edge_Recovery
  imports Edge_Writer
begin

text \<open>
  Durability of the edge writer on the crate's \<^verbatim>\<open>RamFlash\<close>: what the two-phase seal and
  the boot-time recovery of \<^verbatim>\<open>crates/s3a-edge/src/writer.rs\<close> guarantee together, also when
  power fails at an arbitrary byte.  The proofs specialise the lemmas of the storage
  contract to \<^verbatim>\<open>RamFlash\<close>.
\<close>

section \<open>Recovery of an arbitrary image\<close>

lemma scan_image_prefix:
  "scan_image sha T dev active c k i prev = (n, h) \<Longrightarrow>
   i \<le> n \<and> n \<le> i + k \<and> (\<forall>j. i \<le> j \<and> j < n \<longrightarrow> tile_valid sha T c j) \<and>
   (n < i + k \<longrightarrow> \<not> tile_valid sha T c n)"
proof (induction k arbitrary: i prev)
  case (Suc k)
  show ?case
  proof (cases "tile_link sha T dev active c i prev")
    case None
    with Suc.prems show ?thesis by (auto simp: tile_link_def split: if_splits)
  next
    case (Some h')
    then have "tile_valid sha T c i" by (auto simp: tile_link_def split: if_splits)
    moreover have "Suc i \<le> n \<and> n \<le> Suc i + k \<and> (\<forall>j. Suc i \<le> j \<and> j < n \<longrightarrow> tile_valid sha T c j) \<and>
        (n < Suc i + k \<longrightarrow> \<not> tile_valid sha T c n)"
      using Suc.IH [of "Suc i" h'] Suc.prems Some by simp
    ultimately show ?thesis by (metis Suc_leD Suc_leI add_Suc add_Suc_right le_neq_implies_less)
  qed
qed auto

text \<open>The head of the chain of seal hashes over the first \<open>n\<close> tiles of an image: each link binds the link before it, the
  tile's generation (a tile without one has that of its place), its index, the hash of its payload and the device.\<close>

primrec seal_chain :: "sha256 \<Rightarrow> nat \<Rightarrow> byte list \<Rightarrow> file_header \<Rightarrow> byte list \<Rightarrow> nat \<Rightarrow> hash" where
  "seal_chain sha T dev active c 0 = replicate 32 0"
| "seal_chain sha T dev active c (Suc n) =
    compute_seal_hash sha (seal_chain sha T dev active c n) (tile_generation active (tile_header_at T c n) n) (of_nat n)
      (th_payload_hash (tile_header_at T c n)) dev"

lemma scan_image_chain:
  "scan_image sha T dev active c k 0 (replicate 32 0) = (n, h) \<Longrightarrow> h = seal_chain sha T dev active c n"
  by (induction k arbitrary: n h)
    (auto simp: scan_image_snoc tile_link_def simp del: scan_image.simps(2) split: prod.splits if_splits option.splits)

lemma seal_chain_cong:
  "(\<And>i. i < n \<Longrightarrow> tile_header_at T c' i = tile_header_at T c i) \<Longrightarrow> seal_chain sha T dev active c' n = seal_chain sha T dev active c n"
  by (induction n) simp_all

context flash_storage
begin

text \<open>After any outcome of the truncation the tiles that were counted still stand.\<close>

lemma recover_prefix:
  assumes T: "64 \<le> T" and len: "512 \<le> length (contents s)"
    and run: "recover_internal ops sha T s dev = (Ok w, s')"
  obtains slot act where "choose_slot (slot_at 0 (contents s)) (slot_at 1 (contents s)) = Some (slot, act)"
    "unat (w_tile_count w) \<le> unat (fh_tile_count act)" "w_storage w = s'"
    "\<forall>i<unat (w_tile_count w). tile_valid sha T (contents s) i \<and> tile_valid sha T (contents s') i"
    "unat (w_tile_count w) < unat (fh_tile_count act) \<longrightarrow> \<not> tile_valid sha T (contents s) (unat (w_tile_count w))"
    "w_prev_seal_hash w = seal_chain sha T dev act (contents s) (unat (w_tile_count w))"
    "seal_chain sha T dev act (contents s') (unat (w_tile_count w)) = seal_chain sha T dev act (contents s) (unat (w_tile_count w))"
    "w_device_id w = dev"
proof -
  have sl: "file_header_of_bytes (window 0 64 (contents s)) = slot_at 0 (contents s)"
    "file_header_of_bytes (window 64 64 (contents s)) = slot_at 1 (contents s)"
    by (simp_all add: slot_at_def layout_sizes)
  obtain slot act where ch: "choose_slot (slot_at 0 (contents s)) (slot_at 1 (contents s)) = Some (slot, act)"
    using run by (cases "choose_slot (slot_at 0 (contents s)) (slot_at 1 (contents s))")
      (auto simp: recover_internal_def layout_sizes read_slots [OF len] sl)
  have slot: "slot < 2" using ch by (auto simp: choose_slot_def split: bool.splits if_splits)
  obtain n h where sc: "scan_image sha T dev act (contents s) (unat (fh_tile_count act)) 0 (replicate 32 0) = (n, h)"
    by force
  note p = scan_image_prefix [OF sc]
  have "unat (fh_tile_count act) < 2 ^ 32" by (rule less_le_trans [OF unsigned_less]) simp
  with p have "n < 2 ^ 32" by simp
  then have un: "unat (of_nat n :: u32) = n" by (simp add: unat_of_nat take_bit_nat_eq_self)
  note run' = run [unfolded recover_internal_def layout_sizes, simplified read_slots [OF len] sl ch
      scan_tiles_image [OF T] sc prod.case sum.case option.case Let_def]
  have w: "w_tile_count w = of_nat n" "w_storage w = s'" "w_prev_seal_hash w = h" "w_device_id w = dev"
    using run' by (auto split: if_splits prod.splits sum.splits)
  have keep: "tile_valid sha T (contents s') i \<and> tile_header_at T (contents s') i = tile_header_at T (contents s) i" if i: "i < n" for i
  proof -
    have v: "tile_valid sha T (contents s) i" using p i by simp
    then have fits: "tile_offset T i + T \<le> length (contents s)" by (simp add: tile_valid_def)
    define s1 where "s1 = (if 512 + unat (of_nat n :: u32) * T + T \<le> fo_total_size ops s
      then snd (fo_erase ops (512 + unat (of_nat n :: u32) * T) T s) else s)"
    obtain r1 e1 where er: "fo_erase ops (512 + n * T) T s = (r1, e1)" by force
    have s1: "length (contents s1) = length (contents s)"
      "window (tile_offset T i) T (contents s1) = window (tile_offset T i) T (contents s)"
      using erase_length [OF er] erase_frame [OF er fits] tile_offset_mono [OF i, of T] er
      by (auto simp: s1_def un tile_offset_def layout_sizes)
    consider "s' = s"
      | r hdr where "fo_write ops (slot_offset (1 - slot)) (file_header_bytes hdr) s1 = (r, s')" "length (fh_magic hdr) = 4"
      using run' by (auto simp: s1_def commit_header_simps slot_offset_def layout_sizes split: if_splits prod.splits sum.splits)
    then show ?thesis
    proof cases
      case 1
      with v show ?thesis by simp
    next
      case 2
      have "window (tile_offset T i) T (contents s') = window (tile_offset T i) T (contents s1)"
        using 2 fits s1(1) slot
        by (intro write_frame [OF 2(1)]) (auto simp: tile_offset_def layout_sizes)
      then show ?thesis
        using tile_valid_frame [of T i "contents s'" "contents s"] s1 write_length [OF 2(1)] T v by simp
    qed
  qed
  have c: "h = seal_chain sha T dev act (contents s) n" by (rule scan_image_chain [OF sc])
  have "seal_chain sha T dev act (contents s') n = seal_chain sha T dev act (contents s) n"
    by (rule seal_chain_cong) (use keep in blast)
  then show thesis
    by (intro that [OF ch]) (use p keep w un c in auto)
qed

end

section \<open>Genesis and successful seals on RamFlash\<close>

lemma ram_erase_ok:
  assumes "off + n \<le> length (rf_memory f)" "rf_sector_size f dvd off" "rf_sector_size f dvd n"
  shows "ram_erase off n f = (Ok (), f\<lparr>rf_memory := patch off (replicate n 0xFF) (rf_memory f)\<rparr>)"
  using assms by (simp add: ram_erase_def)

lemma ram_erase_config:
  "ram_erase off n f = (r, g) \<Longrightarrow> rf_sector_size g = rf_sector_size f \<and> rf_write_byte_limit g = rf_write_byte_limit f"
  by (auto simp: ram_erase_def split: if_splits)

definition genesis_slot :: "nat \<Rightarrow> u64 \<times> u64 \<Rightarrow> u64 \<Rightarrow> file_header" where
  "genesis_slot T file_uuid created =
    (let slot_a = (file_header_new 0 (of_nat T) created)\<lparr> fh_file_uuid := file_uuid \<rparr>
     in slot_a\<lparr> fh_header_crc32 := compute_file_header_crc32 slot_a \<rparr>)"

lemma genesis_slot_simps:
  "fh_magic (genesis_slot T u cr) = S3A_MAGIC" "fh_generation (genesis_slot T u cr) = 1"
  "fh_tile_count (genesis_slot T u cr) = 0" "fh_file_uuid (genesis_slot T u cr) = u"
  "fh_created_timestamp (genesis_slot T u cr) = cr" "fh_addon_mask (genesis_slot T u cr) = ADDON_WEARABLE"
  by (simp_all add: genesis_slot_def Let_def)

lemma genesis_slot_verify: "file_header_verify (genesis_slot T u cr) \<longleftrightarrow> fh_header_crc32 (genesis_slot T u cr) \<noteq> 0"
  by (auto simp: genesis_slot_def Let_def file_header_verify_def)

lemma zeroed_slot: "length (file_header_bytes file_header_zeroed) = 64" "\<not> file_header_verify file_header_zeroed"
  by (simp_all add: file_header_zeroed_def file_header_verify_def)

lemma window_two_slots:
  "length a = 64 \<Longrightarrow> length b = 64 \<Longrightarrow> window 0 64 (a @ b @ c) = a \<and> window 64 64 (a @ b @ c) = b"
  by (simp add: window_def)

text \<open>Formatting an unrestricted device of which the first erase unit is aligned.\<close>

lemma format_genesis_ram:
  assumes "64 \<le> T" "T < 2 ^ 64" "T \<le> length (rf_memory f)" "512 \<le> length (rf_memory f)" "rf_sector_size f dvd T"
    and "rf_write_byte_limit f = None" "fh_header_crc32 (genesis_slot T u cr) \<noteq> 0"
  obtains w where "format_genesis ram_flash_ops T f dev u cr = (Ok w, w_storage w)"
    "consistent sha T (rf_memory (w_storage w)) w" "w_tile_count w = 0" "w_generation w = 1" "w_active_slot w = 0"
    "w_prev_seal_hash w = replicate 32 0" "w_staging_len w = 64" "w_staging_record_count w = 0"
    "w_device_id w = dev" "w_file_uuid w = u" "w_created_timestamp w = cr" "w_addon_mask w = ADDON_WEARABLE"
    "w_staging_buffer w = replicate T 0xFF" "w_staging_type_id w = 0"
    "length (rf_memory (w_storage w)) = length (rf_memory f)"
    "rf_sector_size (w_storage w) = rf_sector_size f" "rf_write_byte_limit (w_storage w) = None"
proof -
  let ?f1 = "f\<lparr>rf_memory := patch 0 (replicate T 0xFF) (rf_memory f)\<rparr>"
  let ?d = "dual_file_header_bytes (dual_file_header_new (genesis_slot T u cr))"
  have d: "?d = file_header_bytes (genesis_slot T u cr) @ file_header_bytes file_header_zeroed @ replicate 384 0"
    by (simp add: dual_file_header_bytes_def dual_file_header_new_def)
  have ld: "length ?d = 512" by (simp add: d genesis_slot_simps zeroed_slot)
  have e: "ram_erase 0 T f = (Ok (), ?f1)" using assms by (intro ram_erase_ok) simp_all
  have l1: "length (rf_memory ?f1) = length (rf_memory f)" using assms by simp
  obtain g where g: "ram_write 0 ?d ?f1 = (Ok (), g)"
    by (rule ram_write_ok [of ?f1 0 ?d]) (use assms ld l1 in auto)
  have cg: "rf_memory g = patch 0 ?d (rf_memory ?f1)"
    using ram.write_ok_contents [of 0 ?d ?f1 "()" g] g by simp
  have lg: "length (rf_memory g) = length (rf_memory f)" using cg ld assms(4) l1 by simp
  have w0: "window 0 512 (rf_memory g) = ?d"
    using window_patch_same [of 0 ?d "rf_memory ?f1"] ld assms(4) l1 by (simp add: cg)
  have w: "window 0 64 (rf_memory g) = file_header_bytes (genesis_slot T u cr)"
      "window 64 64 (rf_memory g) = file_header_bytes file_header_zeroed"
    using window_two_slots [of "file_header_bytes (genesis_slot T u cr)" "file_header_bytes file_header_zeroed" "replicate 384 0"]
      window_window [of 0 64 512 0 "rf_memory g"] window_window [of 64 64 512 0 "rf_memory g"] w0 d
    by (simp_all add: genesis_slot_simps zeroed_slot)
  have s: "slot_at 0 (rf_memory g) = genesis_slot T u cr" "slot_at 1 (rf_memory g) = file_header_zeroed"
    by (simp_all add: slot_at_def layout_sizes w genesis_slot_simps) (simp add: file_header_zeroed_def)
  let ?w = "\<lparr> w_storage = g, w_device_id = dev, w_active_slot = 0, w_generation = 1,
      w_tile_count = 0, w_file_uuid = u, w_created_timestamp = cr,
      w_addon_mask = ADDON_WEARABLE, w_prev_seal_hash = replicate 32 0,
      w_staging_buffer = replicate T 0xFF, w_staging_type_id = 0,
      w_staging_record_count = 0, w_staging_len = COMMON_TILE_HEADER_SIZE \<rparr>"
  have r: "format_genesis ram_flash_ops T f dev u cr = (Ok ?w, g)"
    using e g by (simp add: format_genesis_def genesis_slot_def Let_def)
  have c: "consistent sha T (rf_memory g) ?w"
    using assms lg s zeroed_slot
    by (simp add: consistent_def staging_ok_def layout_sizes active_matches_def genesis_slot_simps
        genesis_slot_verify committed_genesis)
  show thesis
    by (rule that [of ?w])
      (use r c lg ram_write_config [OF g] assms(6) in \<open>simp_all add: layout_sizes\<close>)
qed

lemma seal_tile_ram_ok:
  assumes w: "consistent sha T (rf_memory (w_storage w)) w" and sha: "\<forall>x. length (sha x) = 32"
    and sector: "rf_sector_size (w_storage w) dvd 512" "rf_sector_size (w_storage w) dvd T"
    and lim: "rf_write_byte_limit (w_storage w) = None"
    and room: "tile_offset T (unat (w_tile_count w)) + T \<le> length (rf_memory (w_storage w))"
  obtains h w' where "seal_tile ram_flash_ops sha T ts w = (Ok h, w')"
proof -
  let ?off = "tile_offset T (unat (w_tile_count w))" and ?buf = "sealed_buffer sha T w" and ?f = "w_storage w"
  from w have ok: "staging_ok T w" and T: "64 \<le> T" and a: "w_active_slot w < 2"
    by (simp_all add: consistent_def staging_ok_def layout_sizes)
  note lay = sealed_buffer_layout [OF ok sha]
  have al: "rf_sector_size ?f dvd ?off" using sector by (simp add: tile_offset_def layout_sizes)
  let ?f1 = "?f\<lparr>rf_memory := patch ?off (replicate T 0xFF) (rf_memory ?f)\<rparr>"
  have e: "ram_erase ?off T ?f = (Ok (), ?f1)" by (rule ram_erase_ok [OF room al sector(2)])
  have l1: "length (rf_memory ?f1) = length (rf_memory ?f)" using room by simp
  have ff: "rf_memory ?f1 ! i = 0xFF" if "?off \<le> i" "i < ?off + T" for i
    using that room by (simp add: nth_patch)
  obtain f2 where p: "ram_write (?off + 64) (window 64 (T - 64) ?buf) ?f1 = (Ok (), f2)"
    by (rule ram_write_ok [of ?f1 "?off + 64" "window 64 (T - 64) ?buf"]) (use lim l1 room T lay(1) ff in auto)
  have c2: "rf_memory f2 = patch (?off + 64) (window 64 (T - 64) ?buf) (rf_memory ?f1)"
    using ram.write_ok_contents [of "?off + 64" "window 64 (T - 64) ?buf" ?f1 "()" f2] p by simp
  have l2: "length (rf_memory f2) = length (rf_memory ?f)" using c2 room T lay(1) l1 by simp
  have ff2: "rf_memory f2 ! i = 0xFF" if "?off \<le> i" "i < ?off + 64" for i
    using that ff [of i] T room l1 lay(1) by (simp add: c2 nth_patch)
  obtain f3 where h: "ram_write ?off (take 64 ?buf) f2 = (Ok (), f3)"
    by (rule ram_write_ok [of f2 ?off "take 64 ?buf"])
      (use lim l2 room T lay(1) ff2 ram_write_config [OF p] in auto)
  have l3: "length (rf_memory f3) = length (rf_memory ?f)"
    using ram.write_length [of ?off "take 64 ?buf" f2 "Ok ()" f3] h l2 by simp
  let ?new = "file_header_bytes (sealed_slot T ts w)"
  have ln: "length ?new = 64" by (simp only: sealed_slot_def length_commit_header)
  have "512 \<le> length (rf_memory ?f)" using w by (simp add: consistent_def layout_sizes)
  then obtain f4 where "ram_write (slot_offset (1 - w_active_slot w)) ?new f3 = (Ok (), f4)"
    by (rule_tac ram_write_ok [of f3 "slot_offset (1 - w_active_slot w)" ?new])
      (use lim l3 ln ram_write_config [OF p] ram_write_config [OF h] in \<open>auto simp: layout_sizes\<close>)
  then show thesis
    using e p h that
    by (simp add: seal_tile_def Let_def layout_sizes tile_offset_def sealed_slot_def flip: sealed_buffer_def)
qed

lemma consistent_reset: "consistent sha T c w \<Longrightarrow> consistent sha T c (reset_staging T (w\<lparr>w_storage := s\<rparr>))"
  by (simp add: consistent_def reset_staging_def staging_ok_def active_matches_def layout_sizes)

lemma consistent_storage [simp]: "consistent sha T c (w\<lparr>w_storage := s\<rparr>) \<longleftrightarrow> consistent sha T c w"
  by (simp add: consistent_def staging_ok_def active_matches_def)

section \<open>A small archive for the witnesses\<close>

abbreviation toy_sha :: sha256 where "toy_sha \<equiv> \<lambda>x. take 32 (x @ replicate 32 0)"

lemma toy_sha_length: "\<forall>x. length (toy_sha x) = 32"
  by (auto simp: min_def)

definition toy_state :: "ram_flash edge_writer \<Rightarrow> bool" where
  "toy_state w \<longleftrightarrow> consistent toy_sha 128 (rf_memory (w_storage w)) w \<and> w_tile_count w = 0 \<and> w_generation w = 1 \<and>
    w_active_slot w = 0 \<and> w_prev_seal_hash w = replicate 32 0 \<and> w_staging_len w = 64 \<and>
    w_staging_record_count w = 0 \<and> w_staging_type_id w = 0 \<and> w_device_id w = replicate 16 1 \<and> w_file_uuid w = (0, 0) \<and>
    w_created_timestamp w = 7 \<and> w_addon_mask w = ADDON_WEARABLE \<and> w_staging_buffer w = replicate 128 0xFF \<and>
    length (rf_memory (w_storage w)) = 1024 \<and> rf_sector_size (w_storage w) = 128 \<and>
    rf_write_byte_limit (w_storage w) = None"

lemma toy_genesis:
  obtains w where "toy_state w"
    "format_genesis ram_flash_ops 128 (ram_new 1024 256 128) (replicate 16 1) (0, 0) 7 = (Ok w, w_storage w)"
proof -
  have "fh_header_crc32 (genesis_slot 128 (0, 0) 7) \<noteq> 0"
    by (simp add: genesis_slot_def header_eval)
  then show thesis
    by (rule_tac format_genesis_ram [of 128 "ram_new 1024 256 128" "(0, 0)" 7 "replicate 16 1" toy_sha])
      (simp_all add: ram_new_def that toy_state_def)
qed

lemma toy_header_crcs:
  assumes "toy_state w"
  shows "th_header_crc32 (sealed_tile_header toy_sha w) \<noteq> 0" "fh_header_crc32 (sealed_slot 128 9 w) \<noteq> 0"
  using assms by (simp_all add: toy_state_def sealed_tile_header_def staged_payload_def layout_sizes
      sealed_slot_def commit_header_def file_header_with_commit_def header_eval)

section \<open>Properties\<close>

text \<open>C1: sealing survives a power cut at any byte.  If \<open>seal_tile\<close> on a consistent archive
  stops with an error - power lost or the device refusing - recovery of the flash as it
  was left succeeds without writing, and gives the old archive or the old archive plus
  the complete new tile, with the matching seal hash; nothing in between.  A torn header
  slot must not pass for a valid one, and the new tile's checksum must not be the
  reserved zero.\<close>

theorem seal_tile_crash_safe:
  assumes "consistent sha T (rf_memory (w_storage w)) w" "\<forall>x. length (sha x) = 32"
    and "unat (w_generation w) + 1 < 2 ^ 32" "unat (w_tile_count w) + 1 < 2 ^ 32"
    and "th_header_crc32 (sealed_tile_header sha w) \<noteq> 0"
    and "seal_tile ram_flash_ops sha T ts w = (Err e, w')"
    and "file_header_verify (slot_at (1 - w_active_slot w) (rf_memory (w_storage w'))) \<Longrightarrow>
      slot_at (1 - w_active_slot w) (rf_memory (w_storage w')) \<in>
        {slot_at (1 - w_active_slot w) (rf_memory (w_storage w)), sealed_slot T ts w}"
  shows "\<exists>w''. recover ram_flash_ops sha T (w_storage w') (w_device_id w) = (Ok w'', w_storage w') \<and>
    consistent sha T (rf_memory (w_storage w')) w'' \<and>
    (w_tile_count w'' = w_tile_count w \<and> w_prev_seal_hash w'' = w_prev_seal_hash w \<or>
     w_tile_count w'' = w_tile_count w + 1 \<and> w_prev_seal_hash w'' = next_seal_hash sha w)"
  using ram.seal_tile_torn [OF assms]
proof
  assume "consistent sha T (rf_memory (w_storage w')) w"
  from ram.recover_consistent [OF this] consistent_reset [OF this] show ?thesis
    by (auto simp: recover_def reset_staging_def)
next
  assume "consistent sha T (rf_memory (w_storage w')) (sealed_writer sha T w)"
  from ram.recover_consistent [OF this] consistent_reset [OF this] show ?thesis
    by (auto simp: recover_def reset_staging_def sealed_writer_def)
qed

theorem seal_tile_crash_safe_witness:
  "\<exists>w e w' w''. consistent toy_sha 128 (rf_memory (w_storage w)) w \<and>
    seal_tile ram_flash_ops toy_sha 128 9 w = (Err e, w') \<and>
    recover ram_flash_ops toy_sha 128 (w_storage w') (w_device_id w) = (Ok w'', w_storage w') \<and>
    (w_tile_count w'' = w_tile_count w \<or> w_tile_count w'' = w_tile_count w + 1)"
proof -
  obtain w0 where w0: "toy_state w0" by (rule toy_genesis)
  define w where "w = w0\<lparr>w_storage := set_write_limit (Some 10) (w_storage w0)\<rparr>"
  let ?f = "w_storage w" and ?buf = "sealed_buffer toy_sha 128 w"
  have c: "consistent toy_sha 128 (rf_memory ?f) w"
    using w0 by (simp add: w_def set_write_limit_def toy_state_def)
  have crc: "th_header_crc32 (sealed_tile_header toy_sha w) \<noteq> 0"
    using toy_header_crcs(1) [OF w0] by (simp add: w_def sealed_tile_header_def staged_payload_def)
  have f: "length (rf_memory ?f) = 1024" "rf_sector_size ?f = 128" "rf_write_byte_limit ?f = Some 10"
      "rf_total_bytes_written ?f = 0" "w_tile_count w = 0" "w_generation w = 1" "w_active_slot w = 0"
    using w0 by (simp_all add: w_def set_write_limit_def toy_state_def)
  have lb: "length ?buf = 128"
    using c by (intro sealed_buffer_layout(1) toy_sha_length) (simp add: consistent_def)
  let ?f1 = "?f\<lparr>rf_memory := patch 512 (replicate 128 0xFF) (rf_memory ?f)\<rparr>"
  have e: "ram_erase 512 128 ?f = (Ok (), ?f1)" using f by (intro ram_erase_ok) simp_all
  obtain r f2 where p: "ram_write 576 (window 64 64 ?buf) ?f1 = (r, f2)" by force
  have loop: "ram_write_loop 576 (window 64 64 ?buf) ?f1 = (r, f2)" using p f lb by (simp add: ram_write_def)
  have "\<not> is_ok r"
    using ram_write_prefix [OF _ p] ram_write_loop_budget [OF loop, of 10] f lb by auto
  then obtain x where r: "r = Err x" by (cases r) auto
  have run: "seal_tile ram_flash_ops toy_sha 128 9 w =
      (Err (Storage x), w\<lparr>w_staging_buffer := ?buf, w_storage := f2\<rparr>)"
    using e p r f by (simp add: seal_tile_def Let_def layout_sizes flip: sealed_buffer_def)
  have "take 512 (rf_memory f2) = take 512 (rf_memory ?f)"
    using ram.area_frame(2) [of 576 "window 64 64 ?buf" ?f1 r f2 512] p f by (simp add: patch_def)
  then have slot: "slot_at 1 (rf_memory f2) = slot_at 1 (rf_memory ?f)"
    by (simp add: slot_at_def layout_sizes take_window_eq)
  have "\<exists>w''. recover ram_flash_ops toy_sha 128 f2 (w_device_id w) = (Ok w'', f2) \<and>
    consistent toy_sha 128 (rf_memory f2) w'' \<and>
    (w_tile_count w'' = w_tile_count w \<and> w_prev_seal_hash w'' = w_prev_seal_hash w \<or>
     w_tile_count w'' = w_tile_count w + 1 \<and> w_prev_seal_hash w'' = next_seal_hash toy_sha w)"
    using seal_tile_crash_safe [OF c toy_sha_length _ _ crc run] f slot by simp
  with c run show ?thesis by fastforce
qed

text \<open>on an unrestricted flash whose sector size divides both the tile size and the
  512-byte header block, with room for one more tile, \<open>seal_tile\<close> returns the next
  seal hash of the chain, and recovery of the flash afterwards returns exactly the
  writer that sealed, changing nothing.\<close>

theorem seal_tile_durable:
  assumes "consistent sha T (rf_memory (w_storage w)) w" "\<forall>x. length (sha x) = 32"
    and "unat (w_generation w) + 1 < 2 ^ 32" "unat (w_tile_count w) + 1 < 2 ^ 32"
    and "th_header_crc32 (sealed_tile_header sha w) \<noteq> 0" "fh_header_crc32 (sealed_slot T ts w) \<noteq> 0"
    and "rf_sector_size (w_storage w) dvd 512" "rf_sector_size (w_storage w) dvd T"
    and "rf_write_byte_limit (w_storage w) = None"
    and "512 + unat (w_tile_count w) * T + T \<le> length (rf_memory (w_storage w))"
  shows "\<exists>w'. seal_tile ram_flash_ops sha T ts w = (Ok (next_seal_hash sha w), w') \<and>
    w_tile_count w' = w_tile_count w + 1 \<and> w_prev_seal_hash w' = next_seal_hash sha w \<and>
    consistent sha T (rf_memory (w_storage w')) w' \<and>
    recover ram_flash_ops sha T (w_storage w') (w_device_id w') = (Ok w', w_storage w')"
proof -
  have "tile_offset T (unat (w_tile_count w)) + T \<le> length (rf_memory (w_storage w))"
    using assms(10) by (simp add: tile_offset_def layout_sizes)
  then obtain h w' where run: "seal_tile ram_flash_ops sha T ts w = (Ok h, w')"
    by (rule seal_tile_ram_ok [OF assms(1,2,7-9)])
  note ok = ram.seal_tile_ok [OF assms(1-6) run]
  have "reset_staging T (w'\<lparr>w_storage := w_storage w'\<rparr>) = w'"
    by (subst (1 2) ok(2)) (simp add: sealed_writer_def reset_staging_def)
  moreover have "w_tile_count w' = w_tile_count w + 1 \<and> w_prev_seal_hash w' = next_seal_hash sha w"
    by (subst (1 2) ok(2)) (simp add: sealed_writer_def reset_staging_def)
  ultimately show ?thesis
    using run ok(1,3) ram.recover_consistent [OF ok(3)] by (simp add: recover_def)
qed

theorem seal_tile_durable_witness:
  "\<exists>w w'. toy_state w \<and> seal_tile ram_flash_ops toy_sha 128 9 w = (Ok (next_seal_hash toy_sha w), w') \<and>
    w_tile_count w' = 1 \<and> recover ram_flash_ops toy_sha 128 (w_storage w') (w_device_id w') = (Ok w', w_storage w')"
proof -
  obtain w where w: "toy_state w" by (rule toy_genesis)
  then have "\<exists>w'. seal_tile ram_flash_ops toy_sha 128 9 w = (Ok (next_seal_hash toy_sha w), w') \<and>
    w_tile_count w' = w_tile_count w + 1 \<and> w_prev_seal_hash w' = next_seal_hash toy_sha w \<and>
    consistent toy_sha 128 (rf_memory (w_storage w')) w' \<and>
    recover ram_flash_ops toy_sha 128 (w_storage w') (w_device_id w') = (Ok w', w_storage w')"
    by (intro seal_tile_durable toy_sha_length toy_header_crcs) (simp_all add: toy_state_def)
  then obtain w' where "seal_tile ram_flash_ops toy_sha 128 9 w = (Ok (next_seal_hash toy_sha w), w')"
    "w_tile_count w' = 1" "recover ram_flash_ops toy_sha 128 (w_storage w') (w_device_id w') = (Ok w', w_storage w')"
    using w by (auto simp: toy_state_def)
  with w show ?thesis by blast
qed

text \<open>C11: on any image, however damaged, a recovery that succeeds keeps exactly the longest
  prefix of valid tiles within the count of the active header, and its chain.  A tile is valid when the checksums of its
  header and payload and the hash of its payload agree; the tiles carry no link to check.  Every tile the recovered writer counts is
  valid before and after the recovery, the first tile it drops was not, and the seal hash it continues from is the chain of seal hashes over exactly
  the kept tiles, from the zero hash on, for its device.\<close>

theorem recover_longest_valid_prefix:
  assumes "64 \<le> T" "512 \<le> length (rf_memory f)" "recover ram_flash_ops sha T f dev = (Ok w, f')"
  shows "\<exists>slot act. choose_slot (slot_at 0 (rf_memory f)) (slot_at 1 (rf_memory f)) = Some (slot, act) \<and>
    unat (w_tile_count w) \<le> unat (fh_tile_count act) \<and>
    (\<forall>i. i < unat (w_tile_count w) \<longrightarrow> tile_valid sha T (rf_memory f) i \<and> tile_valid sha T (rf_memory f') i) \<and>
    (unat (w_tile_count w) < unat (fh_tile_count act) \<longrightarrow>
       \<not> tile_valid sha T (rf_memory f) (unat (w_tile_count w))) \<and>
    w_device_id w = dev \<and>
    w_prev_seal_hash w = seal_chain sha T dev act (rf_memory f) (unat (w_tile_count w)) \<and>
    w_prev_seal_hash w = seal_chain sha T dev act (rf_memory f') (unat (w_tile_count w))"
  by (rule ram.recover_prefix [OF assms(1,2) assms(3) [unfolded recover_def]]) auto

text \<open>A sealed tile, recovered.\<close>

theorem recover_longest_valid_prefix_witness:
  "\<exists>w f slot act. recover ram_flash_ops toy_sha 128 f (w_device_id w) = (Ok w, f) \<and> w_tile_count w = 1 \<and>
    choose_slot (slot_at 0 (rf_memory f)) (slot_at 1 (rf_memory f)) = Some (slot, act) \<and>
    tile_valid toy_sha 128 (rf_memory f) 0 \<and> w_prev_seal_hash w = seal_chain toy_sha 128 (w_device_id w) act (rf_memory f) 1"
proof -
  obtain v where v: "toy_state v" by (rule toy_genesis)
  then have "\<exists>w. seal_tile ram_flash_ops toy_sha 128 9 v = (Ok (next_seal_hash toy_sha v), w) \<and>
    w_tile_count w = w_tile_count v + 1 \<and> w_prev_seal_hash w = next_seal_hash toy_sha v \<and>
    consistent toy_sha 128 (rf_memory (w_storage w)) w \<and>
    recover ram_flash_ops toy_sha 128 (w_storage w) (w_device_id w) = (Ok w, w_storage w)"
    by (intro seal_tile_durable toy_sha_length toy_header_crcs) (simp_all add: toy_state_def)
  then obtain w where w: "w_tile_count w = 1" "consistent toy_sha 128 (rf_memory (w_storage w)) w"
    "recover ram_flash_ops toy_sha 128 (w_storage w) (w_device_id w) = (Ok w, w_storage w)"
    using v by (auto simp: toy_state_def)
  have l: "512 \<le> length (rf_memory (w_storage w))" using w(2) by (simp add: consistent_def layout_sizes)
  have "(64 :: nat) \<le> 128" by simp
  from recover_longest_valid_prefix [OF this l w(3)]
  obtain slot act where "choose_slot (slot_at 0 (rf_memory (w_storage w))) (slot_at 1 (rf_memory (w_storage w))) = Some (slot, act)"
    "tile_valid toy_sha 128 (rf_memory (w_storage w)) 0"
    "w_prev_seal_hash w = seal_chain toy_sha 128 (w_device_id w) act (rf_memory (w_storage w)) 1"
    unfolding w(1) by auto
  with w show ?thesis by blast
qed

text \<open>formatting an unrestricted flash whose erase unit divides the tile size gives a
  consistent empty archive, and opening that flash again - recovering or
  \<open>open_or_format\<close> - returns the same writer and writes nothing, unless the genesis
  header's checksum is the reserved zero.\<close>

theorem genesis_reopens:
  assumes "64 \<le> T" "T < 2 ^ 64" "T \<le> length (rf_memory f)" "512 \<le> length (rf_memory f)"
    and "rf_sector_size f dvd T" "rf_write_byte_limit f = None" "fh_header_crc32 (genesis_slot T u cr) \<noteq> 0"
  shows "\<exists>w. format_genesis ram_flash_ops T f dev u cr = (Ok w, w_storage w) \<and> w_tile_count w = 0 \<and>
    consistent sha T (rf_memory (w_storage w)) w \<and>
    recover ram_flash_ops sha T (w_storage w) dev = (Ok w, w_storage w) \<and>
    open_or_format ram_flash_ops sha T (w_storage w) dev u' cr' = (Ok w, w_storage w)"
proof (rule format_genesis_ram [OF assms, of dev sha], goal_cases)
  case (1 w)
  then have "reset_staging T (w\<lparr>w_storage := w_storage w\<rparr>) = w"
    by (simp add: reset_staging_def layout_sizes)
  then have r: "recover ram_flash_ops sha T (w_storage w) dev = (Ok w, w_storage w)"
    using ram.recover_consistent [OF 1(2)] 1(9) by (simp add: recover_def)
  have len: "512 \<le> length (rf_memory (w_storage w))" using 1(15) assms(4) by simp
  have "file_header_verify (slot_at 0 (rf_memory (w_storage w)))"
    using 1(2,5) by (simp add: consistent_def active_matches_def)
  then have "file_header_verify (file_header_of_bytes (window 0 64 (rf_memory (w_storage w))))"
    by (simp add: slot_at_def layout_sizes)
  then have "open_or_format ram_flash_ops sha T (w_storage w) dev u' cr' = (Ok w, w_storage w)"
    using ram.read_slots(1) [OF len] r by (simp add: open_or_format_def layout_sizes)
  with 1 r show ?case by blast
qed

theorem genesis_reopens_witness:
  "\<exists>w. format_genesis ram_flash_ops 128 (ram_new 1024 256 128) (replicate 16 1) (0, 0) 7 = (Ok w, w_storage w) \<and>
    w_tile_count w = 0 \<and> consistent toy_sha 128 (rf_memory (w_storage w)) w \<and>
    recover ram_flash_ops toy_sha 128 (w_storage w) (replicate 16 1) = (Ok w, w_storage w) \<and>
    open_or_format ram_flash_ops toy_sha 128 (w_storage w) (replicate 16 1) (5, 6) 8 = (Ok w, w_storage w)"
  by (rule genesis_reopens) (simp_all add: ram_new_def genesis_slot_def header_eval)

text \<open>Appending to a well-formed staging buffer either refuses - another tile type than the
  staged records', or no room - leaving buffer, length and count as they were, or adds
  exactly the record's bytes behind the staged payload; the buffer stays well formed.\<close>

theorem append_record_staging:
  assumes "staging_ok T w" "append_record T type_id bytes w = (r, w')"
  shows "staging_ok T w' \<and>
    (if w_staging_record_count w \<noteq> 0 \<and> w_staging_type_id w \<noteq> type_id
     then r = Err (TileTypeMismatch (w_staging_type_id w) type_id) \<and> w' = w
     else w_staging_type_id w' = type_id \<and>
       (if T < w_staging_len w + length bytes
        then r = Err TileFull \<and> staged_payload w' = staged_payload w \<and> w_staging_record_count w' = w_staging_record_count w
        else r = Ok () \<and> staged_payload w' = staged_payload w @ bytes \<and>
          w_staging_record_count w' = w_staging_record_count w + 1))"
proof -
  have "staged_payload (w\<lparr>w_staging_buffer := patch (w_staging_len w) bytes (w_staging_buffer w),
      w_staging_len := w_staging_len w + length bytes\<rparr>) = staged_payload w @ bytes"
    if "w_staging_len w + length bytes \<le> T"
    using assms(1) that
    by (simp add: staged_payload_def staging_ok_def patch_def window_def layout_sizes drop_take)
  then show ?thesis
    using assms by (auto simp: append_record_def Let_def staging_ok_def staged_payload_def split: if_splits)
qed

theorem append_record_staging_witness:
  "\<exists>w w' :: ram_flash edge_writer. append_record 128 75 (sensor_record_bytes (sensor_record_new 5 1 1 7 0)) w =
      (Ok () :: (ram_flash_error edge_error, unit) result, w') \<and>
    staged_payload w' = sensor_record_bytes (sensor_record_new 5 1 1 7 0) \<and> staging_ok 128 w'"
proof -
  obtain w where w: "toy_state w" by (rule toy_genesis)
  obtain r w' where a: "append_record 128 75 (sensor_record_bytes (sensor_record_new 5 1 1 7 0)) w =
      (r :: (ram_flash_error edge_error, unit) result, w')" by force
  have ok: "staging_ok 128 w" using w by (simp add: toy_state_def consistent_def)
  have l: "length (sensor_record_bytes (sensor_record_new 5 1 1 7 0)) \<le> 64"
    by (simp add: sensor_record_bytes_def sensor_record_new_def Let_def)
  have e: "staged_payload w = []" using w by (simp add: toy_state_def staged_payload_def layout_sizes window_def)
  from append_record_staging [OF ok a] w l e a show ?thesis
    by (auto simp: toy_state_def split: if_splits)
qed

text \<open>with the crate's default \<^verbatim>\<open>RamFlash\<close> (4096-byte sectors) and the default tile size
  no tile can be sealed: tiles start 512 bytes into the device, so the erase of the tile
  area is never aligned and \<open>seal_tile\<close> fails before it writes anything.\<close>

theorem default_flash_never_seals:
  assumes "rf_sector_size (w_storage w) = 4096"
  shows "\<exists>e w'. seal_tile ram_flash_ops sha 4096 ts w = (Err (Storage e), w') \<and> w_storage w' = w_storage w \<and>
    (512 + unat (w_tile_count w) * 4096 + 4096 \<le> length (rf_memory (w_storage w)) \<longrightarrow>
       e = UnalignedErase (512 + unat (w_tile_count w) * 4096) 4096 4096)"
proof -
  have "\<not> (4096 :: nat) dvd 512 + unat (w_tile_count w) * 4096"
    by (simp add: dvd_add_left_iff)
  then show ?thesis
    using assms by (auto simp: seal_tile_def Let_def layout_sizes ram_erase_def)
qed

theorem default_flash_never_seals_witness:
  "\<exists>w e w'. w_storage w = ram_default 16384 \<and>
    seal_tile ram_flash_ops toy_sha 4096 9 w = (Err (Storage e), w') \<and> w_storage w' = w_storage w"
proof -
  obtain w where w: "toy_state w" by (rule toy_genesis)
  let ?w = "w\<lparr>w_storage := ram_default 16384\<rparr>"
  have "rf_sector_size (w_storage ?w) = 4096" by (simp add: ram_default_def ram_new_def)
  from default_flash_never_seals [OF this, of toy_sha 9] obtain e w' where
    "seal_tile ram_flash_ops toy_sha 4096 9 ?w = (Err (Storage e), w')" "w_storage w' = w_storage ?w" by blast
  then show ?thesis by (intro exI [of _ ?w] exI [of _ e] exI [of _ w']) simp
qed

text \<open>The operation \<open>open_or_format\<close> formats whenever neither header slot verifies, not only on a blank
  device: the damage of two 64-byte slots makes it erase the first tile-size bytes and
  start an empty archive, whatever sealed tiles the flash holds.\<close>

theorem open_or_format_overwrites:
  assumes "512 \<le> length (rf_memory f)" "\<not> file_header_verify (slot_at 0 (rf_memory f))"
    "\<not> file_header_verify (slot_at 1 (rf_memory f))"
  shows "open_or_format ram_flash_ops sha T f dev u cr = format_genesis ram_flash_ops T f dev u cr \<and>
    recover ram_flash_ops sha T f dev = (Err CorruptedArchive, f)"
proof -
  have sl: "file_header_of_bytes (window 0 64 (rf_memory f)) = slot_at 0 (rf_memory f)"
    "file_header_of_bytes (window 64 64 (rf_memory f)) = slot_at (Suc 0) (rf_memory f)"
    by (simp_all add: slot_at_def layout_sizes)
  note r = ram.read_slots [OF assms(1), unfolded ram_flash_ops_simps]
  show ?thesis
    using assms(2,3)
    by (simp add: open_or_format_def recover_def recover_internal_def layout_sizes r sl choose_slot_def)
qed

theorem open_or_format_overwrites_witness:
  "\<exists>w. open_or_format ram_flash_ops toy_sha 128 (ram_new 1024 256 128) (replicate 16 1) (0, 0) 7 = (Ok w, w_storage w)"
proof -
  obtain w where w: "toy_state w"
    "format_genesis ram_flash_ops 128 (ram_new 1024 256 128) (replicate 16 1) (0, 0) 7 = (Ok w, w_storage w)"
    by (rule toy_genesis)
  have "fh_magic (slot_at k (rf_memory (ram_new 1024 256 128))) = window (slot_offset k) 4 (replicate 1024 0xFF)" for k
    by (simp add: slot_at_def file_header_of_bytes_def window_window [of 0, simplified] ram_new_def FILE_HEADER_SLOT_SIZE_def)
  then have "fh_magic (slot_at k (rf_memory (ram_new 1024 256 128))) = replicate 4 0xFF" for k
    by (simp add: window_def slot_offset_def FILE_HEADER_SLOT_B_OFFSET_def FILE_HEADER_SLOT_A_OFFSET_def)
  moreover have "replicate 4 (0xFF :: byte) \<noteq> S3A_MAGIC" by (simp add: S3A_MAGIC_def replicate_eval)
  ultimately have "\<not> file_header_verify (slot_at k (rf_memory (ram_new 1024 256 128)))" for k
    by (simp only: file_header_verify_def) simp
  then show ?thesis
    using open_or_format_overwrites [of "ram_new 1024 256 128" toy_sha 128 "replicate 16 1" "(0, 0)" 7] w(2)
    by (auto simp: ram_new_def)
qed

end
