(* ===== verification/Engine_Ring.thy ===== *)
theory Engine_Ring
  imports Prelude "HOL-Library.Sublist"
begin

text \<open>
  The L0 ingestion ring buffer of \<^verbatim>\<open>crates/s3a-engine/src/ring_buffer.rs\<close>.  Each
  operation is a critical section of the mutex, so it is a function on the protected
  state; a producer that must wait on the condition variable \<^verbatim>\<open>not_full\<close> is the outcome
  \<open>Waits\<close>.  The step relation at the end interleaves producers, consumers and
  \<^verbatim>\<open>close\<close>, with the producers asleep on the condition variable as part of the state.
\<close>

section \<open>State\<close>

datatype backpressure_policy = PolicyError | DropOldest | Block

datatype ingest_error = BufferFull | Closed | Timeout

record 'a ring_buffer_state =
  rb_data :: "'a list"
  rb_head :: nat
  rb_tail :: nat
  rb_count :: nat
  rb_capacity :: nat
  rb_dropped_count :: u64
  rb_closed :: bool

definition ring_new :: "'a \<Rightarrow> nat \<Rightarrow> 'a ring_buffer_state option" where
  "ring_new dflt capacity =
    (if 0 < capacity then
       Some \<lparr> rb_data = replicate capacity dflt, rb_head = 0, rb_tail = 0, rb_count = 0,
              rb_capacity = capacity, rb_dropped_count = 0, rb_closed = False \<rparr>
     else None)"

section \<open>Producers\<close>

text \<open>One round of the \<^verbatim>\<open>loop\<close> of \<^verbatim>\<open>push\<close>: it returns, or waits and tries again.\<close>

datatype push_outcome = Returns "(ingest_error, unit) result" | Waits

definition push_round ::
  "backpressure_policy \<Rightarrow> 'a \<Rightarrow> 'a ring_buffer_state \<Rightarrow> push_outcome \<times> 'a ring_buffer_state" where
  "push_round policy x st =
    (if rb_closed st then (Returns (Err Closed), st)
     else if rb_count st < rb_capacity st then
       (Returns (Ok ()),
        st\<lparr> rb_data := (rb_data st)[rb_tail st := x],
            rb_tail := (rb_tail st + 1) mod rb_capacity st,
            rb_count := rb_count st + 1 \<rparr>)
     else case policy of
       PolicyError \<Rightarrow> (Returns (Err BufferFull), st)
     | DropOldest \<Rightarrow>
         (Returns (Ok ()),
          st\<lparr> rb_data := (rb_data st)[rb_tail st := x],
              rb_tail := (rb_tail st + 1) mod rb_capacity st,
              rb_head := (rb_head st + 1) mod rb_capacity st,
              rb_dropped_count := rb_dropped_count st + 1 \<rparr>)
     | Block \<Rightarrow> (Waits, st))"

text \<open>\<^verbatim>\<open>push_timeout\<close>: \<open>expired\<close> is the test of the clock against the deadline in this
  round; \<open>timed_out\<close> is what \<^verbatim>\<open>wait_timeout\<close> reports when the round waited.\<close>

definition push_timeout_round ::
  "backpressure_policy \<Rightarrow> bool \<Rightarrow> 'a \<Rightarrow> 'a ring_buffer_state \<Rightarrow> push_outcome \<times> 'a ring_buffer_state" where
  "push_timeout_round policy expired x st =
    (case push_round policy x st of
       (Waits, st') \<Rightarrow> if expired then (Returns (Err Timeout), st') else (Waits, st')
     | r \<Rightarrow> r)"

definition push_timeout_woken ::
  "backpressure_policy \<Rightarrow> bool \<Rightarrow> bool \<Rightarrow> 'a \<Rightarrow> 'a ring_buffer_state \<Rightarrow> push_outcome \<times> 'a ring_buffer_state" where
  "push_timeout_woken policy timed_out expired x st =
    (if timed_out \<and> rb_capacity st \<le> rb_count st then (Returns (Err Timeout), st)
     else push_timeout_round policy expired x st)"

section \<open>Consumers\<close>

primrec drain_loop :: "nat \<Rightarrow> 'a ring_buffer_state \<Rightarrow> 'a list \<Rightarrow> 'a list \<times> 'a ring_buffer_state" where
  "drain_loop 0 st drained = (drained, st)"
| "drain_loop (Suc k) st drained =
    drain_loop k (st\<lparr> rb_head := (rb_head st + 1) mod rb_capacity st, rb_count := rb_count st - 1 \<rparr>)
      (drained @ [rb_data st ! rb_head st])"

definition drain :: "nat \<Rightarrow> 'a ring_buffer_state \<Rightarrow> 'a list \<times> 'a ring_buffer_state" where
  "drain max_items st =
    (if rb_count st = 0 then ([], st) else drain_loop (min (rb_count st) max_items) st [])"

definition drain_all :: "'a ring_buffer_state \<Rightarrow> 'a list \<times> 'a ring_buffer_state" where
  "drain_all st = drain (rb_count st) st"

primrec snapshot_loop :: "nat \<Rightarrow> nat \<Rightarrow> 'a ring_buffer_state \<Rightarrow> 'a list \<Rightarrow> 'a list" where
  "snapshot_loop 0 cur st records = records"
| "snapshot_loop (Suc k) cur st records =
    snapshot_loop k ((cur + 1) mod rb_capacity st) st (records @ [rb_data st ! cur])"

definition snapshot :: "'a ring_buffer_state \<Rightarrow> 'a list" where
  "snapshot st = snapshot_loop (rb_count st) (rb_head st) st []"

lemma push_timeout_cases:
  assumes "push_timeout_woken policy timed_out expired x st = (r, st')"
  obtains "push_round policy x st = (r, st')" | "r = Returns (Err Timeout)" "st' = st"
proof (cases "timed_out \<and> rb_capacity st \<le> rb_count st")
  case True
  with assms that(2) show thesis by (simp add: push_timeout_woken_def)
next
  case False
  obtain q st'' where p: "push_round policy x st = (q, st'')" by force
  have w: "q = Waits \<Longrightarrow> st'' = st"
    using p by (auto simp: push_round_def split: if_splits backpressure_policy.splits)
  show thesis
  proof (cases "q = Waits \<and> expired")
    case True
    with False assms p w that(2) show thesis
      by (auto simp: push_timeout_woken_def push_timeout_round_def split: if_splits)
  next
    case nw: False
    with False assms p that(1) show thesis
      by (cases q) (auto simp: push_timeout_woken_def push_timeout_round_def split: if_splits)
  qed
qed

definition ring_close :: "'a ring_buffer_state \<Rightarrow> 'a ring_buffer_state" where
  "ring_close st = st\<lparr> rb_closed := True \<rparr>"

section \<open>The queue a buffer holds\<close>

definition ring_wf :: "'a ring_buffer_state \<Rightarrow> bool" where
  "ring_wf st \<longleftrightarrow> 0 < rb_capacity st \<and> length (rb_data st) = rb_capacity st \<and> rb_head st < rb_capacity st \<and>
    rb_count st \<le> rb_capacity st \<and> rb_tail st = (rb_head st + rb_count st) mod rb_capacity st"

definition ring_queue :: "'a ring_buffer_state \<Rightarrow> 'a list" where
  "ring_queue st = map (\<lambda>i. rb_data st ! ((rb_head st + i) mod rb_capacity st)) [0..<rb_count st]"

lemma length_ring_queue [simp]: "length (ring_queue st) = rb_count st"
  by (simp add: ring_queue_def)

lemma ring_new_wf: "ring_new d n = Some st \<Longrightarrow> ring_wf st \<and> ring_queue st = []"
  by (auto simp: ring_new_def ring_wf_def ring_queue_def split: if_splits)

text \<open>The slot at the tail is outside the queue, and is its head when the buffer is full.\<close>

lemma mod_add_inject:
  assumes "i < c" "j < c"
  shows "(h + i) mod c = (h + j) mod c \<longleftrightarrow> i = (j :: nat)"
proof
  assume e: "(h + i) mod c = (h + j) mod c"
  have "a = b" if "(h + a) mod c = (h + b) mod c" "a \<le> b" "b < c" for a b
  proof -
    from that have "c dvd (h + b) - (h + a)"
      using mod_eq_dvd_iff_nat [of "h + a" "h + b" c] by simp
    then have "c dvd b - a" by simp
    with that show ?thesis by (auto dest: dvd_imp_le)
  qed
  from this [OF e] this [OF e [symmetric]] assms show "i = j" by (cases "i \<le> j") auto
qed simp

lemma ring_queue_nth: "i < rb_count st \<Longrightarrow> ring_queue st ! i = rb_data st ! ((rb_head st + i) mod rb_capacity st)"
  by (simp add: ring_queue_def)

lemma ring_store_tail:
  assumes "ring_wf st" "i < rb_count st" "rb_count st < rb_capacity st"
  shows "(rb_data st)[rb_tail st := x] ! ((rb_head st + i) mod rb_capacity st) =
    rb_data st ! ((rb_head st + i) mod rb_capacity st)"
  using assms mod_add_inject [of i "rb_capacity st" "rb_count st" "rb_head st"]
  by (auto simp: ring_wf_def nth_list_update)

lemma ring_pop:
  assumes "ring_wf st" "0 < rb_count st"
  defines "st' \<equiv> st\<lparr> rb_head := (rb_head st + 1) mod rb_capacity st, rb_count := rb_count st - 1 \<rparr>"
  shows "ring_wf st'" "ring_queue st = (rb_data st ! rb_head st) # ring_queue st'"
proof -
  have "(rb_head st + 1 + (rb_count st - 1)) mod rb_capacity st = (rb_head st + rb_count st) mod rb_capacity st"
    using assms(2) by simp
  then have "((rb_head st + 1) mod rb_capacity st + (rb_count st - 1)) mod rb_capacity st =
      (rb_head st + rb_count st) mod rb_capacity st"
    by (simp only: mod_add_left_eq)
  then show "ring_wf st'"
    using assms(1) by (auto simp: ring_wf_def st'_def)
  show "ring_queue st = (rb_data st ! rb_head st) # ring_queue st'"
  proof (rule nth_equalityI)
    fix i
    assume "i < length (ring_queue st)"
    then show "ring_queue st ! i = ((rb_data st ! rb_head st) # ring_queue st') ! i"
      using assms by (cases i) (auto simp: ring_queue_nth ring_wf_def mod_add_left_eq st'_def)
  qed (use assms in simp)
qed

lemma push_round_queue:
  assumes "ring_wf st" "push_round policy x st = (r, st')"
  shows "ring_wf st' \<and> rb_capacity st' = rb_capacity st \<and> rb_closed st' = rb_closed st \<and>
    (if rb_closed st then r = Returns (Err Closed) \<and> st' = st
     else if rb_count st < rb_capacity st
       then r = Returns (Ok ()) \<and> ring_queue st' = ring_queue st @ [x] \<and> rb_dropped_count st' = rb_dropped_count st
     else (case policy of
         PolicyError \<Rightarrow> r = Returns (Err BufferFull) \<and> st' = st
       | DropOldest \<Rightarrow> r = Returns (Ok ()) \<and> ring_queue st' = tl (ring_queue st) @ [x] \<and>
           rb_dropped_count st' = rb_dropped_count st + 1
       | Block \<Rightarrow> r = Waits \<and> st' = st))"
proof -
  consider "rb_closed st" | (room) "\<not> rb_closed st" "rb_count st < rb_capacity st"
    | (full) "\<not> rb_closed st" "rb_count st = rb_capacity st"
    using assms(1) by (fastforce simp: ring_wf_def le_less)
  then show ?thesis
  proof cases
    case room
    have st': "r = Returns (Ok ())" "st' = st\<lparr> rb_data := (rb_data st)[rb_tail st := x],
        rb_tail := (rb_tail st + 1) mod rb_capacity st, rb_count := rb_count st + 1 \<rparr>"
      using assms(2) room by (auto simp: push_round_def)
    have "ring_queue st' = ring_queue st @ [x]"
    proof (rule nth_equalityI)
      fix i
      assume "i < length (ring_queue st')"
      then show "ring_queue st' ! i = (ring_queue st @ [x]) ! i"
        using assms(1) room ring_store_tail [OF assms(1) _ room(2), of i x]
        by (cases "i < rb_count st") (auto simp: st' ring_queue_nth nth_append ring_wf_def less_Suc_eq)
    qed (simp add: st')
    moreover have "ring_wf st'"
      using assms(1) room by (auto simp: st' ring_wf_def mod_simps)
    ultimately show ?thesis using room st' by simp
  next
    case full
    show ?thesis
    proof (cases policy)
      case DropOldest
      have st': "r = Returns (Ok ())" "st' = st\<lparr> rb_data := (rb_data st)[rb_tail st := x],
          rb_tail := (rb_tail st + 1) mod rb_capacity st, rb_head := (rb_head st + 1) mod rb_capacity st,
          rb_dropped_count := rb_dropped_count st + 1 \<rparr>"
        using assms(2) full DropOldest by (auto simp: push_round_def)
      let ?c = "rb_capacity st" and ?h = "rb_head st"
      have t: "rb_tail st = ?h" and h: "?h < ?c" using assms(1) full by (auto simp: ring_wf_def)
      have "ring_queue st' = tl (ring_queue st) @ [x]"
      proof (rule nth_equalityI)
        fix i
        assume "i < length (ring_queue st')"
        then have i: "i < ?c" using full by (simp add: st')
        show "ring_queue st' ! i = (tl (ring_queue st) @ [x]) ! i"
        proof (cases "i = ?c - 1")
          case True
          then have "(?h + 1 + i) mod ?c = ?h" using h by simp
          then have e: "((?h + 1) mod ?c + i) mod ?c = ?h" by (simp only: mod_add_left_eq)
          have "ring_queue st' ! i = x"
            using e i full h t assms(1) by (simp add: st' ring_queue_nth ring_wf_def)
          with True full show ?thesis by (simp add: nth_append)
        next
          case False
          with i have "Suc i < ?c" by linarith
          then have lt: "i < ?c - Suc 0" by linarith
          from \<open>Suc i < ?c\<close> have "(?h + Suc i) mod ?c \<noteq> ?h"
            using mod_add_inject [of "Suc i" ?c 0 ?h] h by simp
          with i full h t assms(1) lt show ?thesis
            by (simp add: st' ring_queue_nth nth_append nth_tl ring_wf_def mod_add_left_eq)
        qed
      qed (use full h in \<open>simp add: st'\<close>)
      moreover have "ring_wf st'"
        using assms(1) full t by (auto simp: st' ring_wf_def mod_simps)
      ultimately show ?thesis using full DropOldest st' by simp
    qed (use assms full in \<open>auto simp: push_round_def\<close>)
  qed (use assms in \<open>auto simp: push_round_def\<close>)
qed

lemma drain_loop_queue:
  "ring_wf st \<Longrightarrow> k \<le> rb_count st \<Longrightarrow> drain_loop k st acc = (ds, st') \<Longrightarrow>
   ring_wf st' \<and> ds = acc @ take k (ring_queue st) \<and> ring_queue st' = drop k (ring_queue st) \<and>
   rb_capacity st' = rb_capacity st \<and> rb_closed st' = rb_closed st \<and> rb_dropped_count st' = rb_dropped_count st"
proof (induction k arbitrary: st acc)
  case (Suc k)
  then have pos: "0 < rb_count st" by simp
  note p = ring_pop [OF Suc.prems(1) pos]
  from Suc.IH [OF p(1) _ Suc.prems(3) [simplified drain_loop.simps]] Suc.prems(2) p(2)
  show ?case by simp
qed simp

lemma drain_queue:
  assumes "ring_wf st" "drain n st = (ds, st')"
  shows "ring_wf st' \<and> ds = take n (ring_queue st) \<and> ring_queue st' = drop n (ring_queue st) \<and>
    rb_capacity st' = rb_capacity st \<and> rb_closed st' = rb_closed st \<and> rb_dropped_count st' = rb_dropped_count st"
proof (cases "rb_count st = 0")
  case True
  then have "ring_queue st = []" by (simp add: ring_queue_def)
  with True assms show ?thesis by (simp add: drain_def)
next
  case False
  with assms drain_loop_queue [of st "min (rb_count st) n" "[]" ds st'] show ?thesis
    by (auto simp: drain_def min_def)
qed

lemma snapshot_loop_queue:
  "ring_wf st \<Longrightarrow> cur = (rb_head st + i) mod rb_capacity st \<Longrightarrow>
   snapshot_loop k cur st acc = acc @ map (\<lambda>j. rb_data st ! ((rb_head st + j) mod rb_capacity st)) [i..<i + k]"
proof (induction k arbitrary: i cur acc)
  case (Suc k)
  have "(cur + 1) mod rb_capacity st = (rb_head st + Suc i) mod rb_capacity st"
    using Suc.prems(2) by (simp add: mod_Suc_eq)
  from Suc.IH [OF Suc.prems(1) this] Suc.prems(2) show ?case
    by (simp add: upt_conv_Cons del: upt_Suc)
qed simp

lemma snapshot_queue: "ring_wf st \<Longrightarrow> snapshot st = ring_queue st"
  by (simp add: snapshot_def ring_queue_def snapshot_loop_queue [of st _ 0] ring_wf_def)

section \<open>The buffer as a bounded queue\<close>

text \<open>What the engine relies on: a producer's round appends or refuses, a consumer takes from
  the front, readers see the queue.  The client lemma: draining in two goes is
  draining once, and a drain after a snapshot returns what the snapshot showed.\<close>

locale bounded_queue =
  fixes wf :: "'s \<Rightarrow> bool" and contents :: "'s \<Rightarrow> 'a list" and put :: "'a \<Rightarrow> 's \<Rightarrow> push_outcome \<times> 's"
    and get :: "nat \<Rightarrow> 's \<Rightarrow> 'a list \<times> 's" and view :: "'s \<Rightarrow> 'a list"
  assumes put_ok: "wf s \<Longrightarrow> put x s = (Returns (Ok ()), s') \<Longrightarrow>
        wf s' \<and> (\<exists>k. contents s' = drop k (contents s) @ [x])"
    and put_refused: "wf s \<Longrightarrow> put x s = (r, s') \<Longrightarrow> r \<noteq> Returns (Ok ()) \<Longrightarrow> s' = s"
    and get_front: "wf s \<Longrightarrow> get n s = (ds, s') \<Longrightarrow>
        wf s' \<and> ds = take n (contents s) \<and> contents s' = drop n (contents s)"
    and view_contents: "wf s \<Longrightarrow> view s = contents s"
begin

lemma get_get:
  assumes "wf s" "get n s = (ds, s')" "get m s' = (es, s'')"
  shows "ds @ es = take (n + m) (contents s)" "contents s'' = drop (n + m) (contents s)"
  using get_front [OF assms(1,2)] get_front [of s' m es s''] assms(3)
  by (auto simp: take_add add.commute [of m n])

lemma view_then_get:
  "wf s \<Longrightarrow> get (length (view s)) s = (ds, s') \<Longrightarrow> ds = view s \<and> contents s' = []"
  using get_front [of s "length (view s)" ds s'] view_contents [of s] by simp

end

interpretation ring: bounded_queue ring_wf ring_queue "push_round policy" drain snapshot for policy
proof (unfold_locales, goal_cases)
  case (1 s x s')
  note p = push_round_queue [OF 1]
  then have "ring_queue s' = drop 0 (ring_queue s) @ [x] \<or> ring_queue s' = drop 1 (ring_queue s) @ [x]"
    by (auto simp: drop_Suc split: if_splits backpressure_policy.splits)
  with p show ?case by blast
next
  case (2 s x r s')
  then show ?case using push_round_queue [OF 2(1,2)] by (auto split: if_splits backpressure_policy.splits)
next
  case (3 s n ds s')
  then show ?case using drain_queue by blast
next
  case (4 s)
  then show ?case by (rule snapshot_queue)
qed

section \<open>Threads\<close>

text \<open>Producers between arriving and returning are awake (about to take the lock) or asleep on
  \<^verbatim>\<open>not_full\<close>; a round of \<^verbatim>\<open>push\<close> is a round of \<^verbatim>\<open>push_timeout\<close> with no deadline reached.  \<open>accepted\<close> and \<open>taken\<close> record the pushes that returned \<open>Ok\<close> and the
  records drained so far, in the order of the lock.\<close>

record 'a ring_system =
  rs_state :: "'a ring_buffer_state"
  rs_awake :: "'a list"
  rs_asleep :: "'a list"
  rs_accepted :: "'a list"
  rs_taken :: "'a list"

inductive ring_step :: "backpressure_policy \<Rightarrow> 'a ring_system \<Rightarrow> 'a ring_system \<Rightarrow> bool" for policy where
  step_arrive: "ring_step policy s (s\<lparr> rs_awake := x # rs_awake s \<rparr>)"
| step_push: "rs_awake s = xs @ x # ys \<Longrightarrow>
    push_timeout_woken policy timed_out expired x (rs_state s) = (Returns r, st') \<Longrightarrow>
    ring_step policy s (s\<lparr> rs_state := st', rs_awake := xs @ ys,
      rs_accepted := (if is_ok r then rs_accepted s @ [x] else rs_accepted s) \<rparr>)"
| step_wait: "rs_awake s = xs @ x # ys \<Longrightarrow>
    push_timeout_woken policy timed_out expired x (rs_state s) = (Waits, st') \<Longrightarrow>
    ring_step policy s (s\<lparr> rs_state := st', rs_awake := xs @ ys, rs_asleep := x # rs_asleep s \<rparr>)"
| step_spurious: "rs_asleep s = xs @ x # ys \<Longrightarrow>
    ring_step policy s (s\<lparr> rs_asleep := xs @ ys, rs_awake := x # rs_awake s \<rparr>)"
| step_drain: "drain n (rs_state s) = (ds, st') \<Longrightarrow>
    ring_step policy s (s\<lparr> rs_state := st', rs_taken := rs_taken s @ ds,
      rs_awake := (if ds = [] then rs_awake s else rs_asleep s @ rs_awake s),
      rs_asleep := (if ds = [] then rs_asleep s else []) \<rparr>)"
| step_close: "ring_step policy s (s\<lparr> rs_state := ring_close (rs_state s),
      rs_awake := rs_asleep s @ rs_awake s, rs_asleep := [] \<rparr>)"

inductive_cases ring_stepE: "ring_step policy s s'"

definition ring_start :: "'a ring_buffer_state \<Rightarrow> 'a ring_system" where
  "ring_start st = \<lparr> rs_state = st, rs_awake = [], rs_asleep = [], rs_accepted = [], rs_taken = [] \<rparr>"

definition ring_inv :: "backpressure_policy \<Rightarrow> 'a ring_system \<Rightarrow> bool" where
  "ring_inv policy s \<longleftrightarrow> ring_wf (rs_state s) \<and>
    (rs_asleep s \<noteq> [] \<longrightarrow> policy = Block \<and> rb_count (rs_state s) = rb_capacity (rs_state s) \<and> \<not> rb_closed (rs_state s)) \<and>
    subseq (rs_taken s @ ring_queue (rs_state s)) (rs_accepted s) \<and>
    of_nat (length (rs_accepted s)) =
      of_nat (length (rs_taken s)) + of_nat (rb_count (rs_state s)) + rb_dropped_count (rs_state s) \<and>
    (policy \<noteq> DropOldest \<longrightarrow> rs_accepted s = rs_taken s @ ring_queue (rs_state s) \<and> rb_dropped_count (rs_state s) = 0)"

lemma ring_close_queue [simp]:
  "ring_wf (ring_close st) = ring_wf st" "ring_queue (ring_close st) = ring_queue st"
  "rb_count (ring_close st) = rb_count st" "rb_dropped_count (ring_close st) = rb_dropped_count st"
  by (simp_all add: ring_close_def ring_wf_def ring_queue_def)

text \<open>A round that waits waits on a full open buffer; nothing else changes.\<close>

lemma round_waits:
  assumes "ring_wf st" "push_timeout_woken policy timed_out expired x st = (Waits, st')"
  shows "st' = st \<and> policy = Block \<and> rb_count st = rb_capacity st \<and> \<not> rb_closed st"
proof -
  from assms(2) have "push_round policy x st = (Waits, st')" by (rule push_timeout_cases) auto
  from push_round_queue [OF assms(1) this] assms(1) show ?thesis
    by (auto simp: ring_wf_def split: if_splits backpressure_policy.splits)
qed

text \<open>A round that returns accepts the record behind the queue, dropping the front one under
  \<open>DropOldest\<close> when full, or refuses and changes nothing.\<close>

lemma round_returns:
  assumes wf: "ring_wf st" and "push_timeout_woken policy timed_out expired x st = (Returns r, st')"
  obtains (refused) "\<not> is_ok r" "st' = st"
    | (stored) "is_ok r" "ring_wf st'" "rb_count st < rb_capacity st" "rb_capacity st' = rb_capacity st"
        "ring_queue st' = ring_queue st @ [x]" "rb_dropped_count st' = rb_dropped_count st" "rb_closed st' = rb_closed st"
    | (dropped) "is_ok r" "ring_wf st'" "policy = DropOldest" "rb_count st = rb_capacity st" "rb_capacity st' = rb_capacity st"
        "ring_queue st' = tl (ring_queue st) @ [x]" "rb_dropped_count st' = rb_dropped_count st + 1" "rb_closed st' = rb_closed st"
  using assms(2)
proof (rule push_timeout_cases)
  assume "push_round policy x st = (Returns r, st')"
  note p = push_round_queue [OF wf this]
  consider "rb_closed st" | "\<not> rb_closed st" "rb_count st < rb_capacity st"
    | "\<not> rb_closed st" "rb_count st = rb_capacity st" "\<not> rb_count st < rb_capacity st"
    using wf by (fastforce simp: ring_wf_def le_less)
  then show thesis
  proof cases
    case 1
    with p show thesis by (intro refused) auto
  next
    case 2
    with p show thesis by (intro stored) auto
  next
    case 3
    with p show thesis by (cases policy) (auto intro: refused dropped)
  qed
next
  assume "Returns r = Returns (Err Timeout)" "st' = st"
  then show thesis by (intro refused) auto
qed

lemma ring_inv_step: "ring_step policy s s' \<Longrightarrow> ring_inv policy s \<Longrightarrow> ring_inv policy s'"
proof (induction rule: ring_step.induct)
  case (step_arrive s x)
  then show ?case by (simp add: ring_inv_def)
next
  case (step_push s xs x ys timed_out expired r st')
  then have wf: "ring_wf (rs_state s)" by (simp add: ring_inv_def)
  let ?q = "ring_queue (rs_state s)"
  show ?case
  proof (rule round_returns [OF wf step_push.hyps(2)])
    assume "\<not> is_ok r" "st' = rs_state s"
    with step_push.prems show ?thesis by (simp add: ring_inv_def)
  next
    assume a: "is_ok r" "ring_wf st'" "rb_count (rs_state s) < rb_capacity (rs_state s)" "rb_capacity st' = rb_capacity (rs_state s)"
      "ring_queue st' = ?q @ [x]" "rb_dropped_count st' = rb_dropped_count (rs_state s)" "rb_closed st' = rb_closed (rs_state s)"
    then have "rb_count st' = rb_count (rs_state s) + 1" by (metis length_append_singleton length_ring_queue Suc_eq_plus1)
    with a step_push.prems show ?thesis
      by (auto simp: ring_inv_def simp flip: append_assoc)
  next
    assume a: "is_ok r" "ring_wf st'" "policy = DropOldest" "rb_count (rs_state s) = rb_capacity (rs_state s)"
      "ring_queue st' = tl ?q @ [x]" "rb_dropped_count st' = rb_dropped_count (rs_state s) + 1"
    then have pos: "0 < rb_count (rs_state s)" using wf by (simp add: ring_wf_def)
    have "length (ring_queue st') = rb_count (rs_state s)" using a(5) pos by simp
    then have cnt: "rb_count st' = rb_count (rs_state s)" by simp
    have "subseq (rs_taken s @ tl ?q) (rs_taken s @ ?q)"
      by (cases ?q) (auto intro: list_emb_append_mono)
    then have "subseq (rs_taken s @ tl ?q) (rs_accepted s)"
      using step_push.prems by (auto simp: ring_inv_def intro: subseq_order.trans)
    then have "subseq ((rs_taken s @ tl ?q) @ [x]) (rs_accepted s @ [x])"
      by (intro list_emb_append_mono) simp_all
    with a cnt step_push.prems show ?thesis by (auto simp: ring_inv_def)
  qed
next
  case (step_wait s xs x ys timed_out expired st')
  then have "ring_wf (rs_state s)" by (simp add: ring_inv_def)
  from round_waits [OF this step_wait.hyps(2)] step_wait.prems show ?case by (auto simp: ring_inv_def)
next
  case (step_spurious s xs x ys)
  then show ?case by (simp add: ring_inv_def)
next
  case (step_drain n s ds st')
  then have "ring_wf (rs_state s)" by (simp add: ring_inv_def)
  note d = drain_queue [OF this step_drain.hyps]
  have q: "ds @ ring_queue st' = ring_queue (rs_state s)" using d by simp
  then have len: "length ds + rb_count st' = rb_count (rs_state s)" by (metis length_append length_ring_queue)
  then have w: "(of_nat (rb_count (rs_state s)) :: u64) = of_nat (length ds) + of_nat (rb_count st')"
    by (metis of_nat_add)
  have "of_nat (length (rs_accepted s)) = (of_nat (length (rs_taken s @ ds)) + of_nat (rb_count st') + rb_dropped_count st' :: u64)"
    using step_drain.prems d w by (simp add: ring_inv_def add.assoc)
  moreover have "subseq ((rs_taken s @ ds) @ ring_queue st') (rs_accepted s)"
    using step_drain.prems q by (simp add: ring_inv_def)
  moreover have "policy \<noteq> DropOldest \<longrightarrow> rs_accepted s = (rs_taken s @ ds) @ ring_queue st' \<and> rb_dropped_count st' = 0"
    using step_drain.prems q d by (simp add: ring_inv_def)
  moreover have "ds = [] \<Longrightarrow> rb_count st' = rb_count (rs_state s)" using len by simp
  moreover have "ring_wf st'" "rb_capacity st' = rb_capacity (rs_state s)" "rb_closed st' = rb_closed (rs_state s)"
    using d by simp_all
  ultimately show ?case using step_drain.prems unfolding ring_inv_def by (simp del: append_assoc)
next
  case (step_close s)
  then show ?case by (simp add: ring_inv_def)
qed

lemma ring_inv_reachable:
  assumes "ring_new d n = Some st" "(ring_step policy)\<^sup>*\<^sup>* (ring_start st) s"
  shows "ring_inv policy s"
  using assms(2)
proof (induction rule: rtranclp_induct)
  case base
  from ring_new_wf [OF assms(1)] assms(1) show ?case
    by (auto simp: ring_inv_def ring_start_def ring_new_def split: if_splits)
next
  case (step s s')
  then show ?case by (auto intro: ring_inv_step)
qed

section \<open>Properties\<close>

text \<open>C13: whatever producers, consumers and closing threads do, in any order, what was drained
  followed by what the buffer holds is a subsequence of the accepted pushes, in order;
  under the policies that do not drop it is all of them, and otherwise the dropped
  count makes up the difference (modulo the counter's 64 bits).\<close>

theorem ring_fifo:
  assumes "ring_new d n = Some st" "(ring_step policy)\<^sup>*\<^sup>* (ring_start st) s"
  shows "subseq (rs_taken s @ snapshot (rs_state s)) (rs_accepted s) \<and>
    (policy \<noteq> DropOldest \<longrightarrow> rs_taken s @ snapshot (rs_state s) = rs_accepted s) \<and>
    rb_dropped_count (rs_state s) =
      of_nat (length (rs_accepted s)) - of_nat (length (rs_taken s)) - of_nat (length (snapshot (rs_state s)))"
  using ring_inv_reachable [OF assms] by (auto simp: ring_inv_def snapshot_queue algebra_simps)

theorem ring_fifo_witness:
  "\<exists>st s. ring_new (0 :: nat) 2 = Some st \<and> (ring_step DropOldest)\<^sup>*\<^sup>* (ring_start st) s \<and>
    rs_accepted s = [7] \<and> subseq (rs_taken s @ snapshot (rs_state s)) [7]"
proof -
  let ?st = "\<lparr> rb_data = [0, 0], rb_head = 0, rb_tail = 0, rb_count = 0, rb_capacity = 2,
    rb_dropped_count = 0, rb_closed = False \<rparr> :: nat ring_buffer_state"
  let ?s1 = "ring_start ?st\<lparr>rs_awake := [7]\<rparr>"
  let ?st2 = "?st\<lparr> rb_data := [7, 0], rb_tail := 1, rb_count := 1 \<rparr>"
  let ?s2 = "?s1\<lparr>rs_state := ?st2, rs_awake := [], rs_accepted := [7]\<rparr>"
  have n: "ring_new (0 :: nat) 2 = Some ?st" by (simp add: ring_new_def eval_nat_numeral)
  have s1: "ring_step DropOldest (ring_start ?st) ?s1"
    using step_arrive [of DropOldest "ring_start ?st" 7] by (simp add: ring_start_def)
  have s2: "ring_step DropOldest ?s1 ?s2"
    using step_push [of ?s1 "[]" 7 "[]" DropOldest False False "Ok ()" ?st2]
    by (simp add: ring_start_def push_timeout_woken_def push_timeout_round_def push_round_def)
  have r: "(ring_step DropOldest)\<^sup>*\<^sup>* (ring_start ?st) ?s2"
    by (rule converse_rtranclp_into_rtranclp [OF s1 r_into_rtranclp [of "ring_step DropOldest", OF s2]])
  from ring_fifo [OF n r] n r show ?thesis
    by (intro exI [of _ ?st] exI [of _ ?s2]) simp
qed

text \<open>C26: no wake-up is lost: in every reachable state, a producer asleep on \<^verbatim>\<open>not_full\<close> means the
  policy is \<open>Block\<close> and the buffer is full and open; so after a drain that takes anything,
  and after a close, nobody is left asleep.\<close>

theorem ring_no_lost_wakeup:
  assumes "ring_new d n = Some st" "(ring_step policy)\<^sup>*\<^sup>* (ring_start st) s" "rs_asleep s \<noteq> []"
  shows "policy = Block \<and> rb_count (rs_state s) = rb_capacity (rs_state s) \<and> \<not> rb_closed (rs_state s)"
  using ring_inv_reachable [OF assms(1,2)] assms(3) by (simp add: ring_inv_def)

theorem ring_no_lost_wakeup_witness:
  "\<exists>s. rs_asleep s = [8] \<and> rb_count (rs_state s) = rb_capacity (rs_state (s :: nat ring_system))"
proof -
  let ?st = "\<lparr> rb_data = [0], rb_head = 0, rb_tail = 0, rb_count = 0, rb_capacity = 1,
    rb_dropped_count = 0, rb_closed = False \<rparr> :: nat ring_buffer_state"
  let ?s1 = "ring_start ?st\<lparr>rs_awake := [7]\<rparr>"
  let ?st2 = "?st\<lparr> rb_data := [7], rb_count := 1 \<rparr>"
  let ?s2 = "?s1\<lparr>rs_state := ?st2, rs_awake := [], rs_accepted := [7]\<rparr>"
  let ?s3 = "?s2\<lparr>rs_awake := [8]\<rparr>" and ?s4 = "?s2\<lparr>rs_asleep := [8]\<rparr>"
  have n: "ring_new (0 :: nat) 1 = Some ?st" by (simp add: ring_new_def)
  note ev = ring_start_def push_timeout_woken_def push_timeout_round_def push_round_def
  have s1: "ring_step Block (ring_start ?st) ?s1"
    using step_arrive [of Block "ring_start ?st" 7] by (simp add: ev)
  have s2: "ring_step Block ?s1 ?s2"
    using step_push [of ?s1 "[]" 7 "[]" Block False False "Ok ()" ?st2] by (simp add: ev)
  have s3: "ring_step Block ?s2 ?s3" using step_arrive [of Block ?s2 8] by (simp add: ev)
  have s4: "ring_step Block ?s3 ?s4"
    using step_wait [of ?s3 "[]" 8 "[]" Block False False ?st2] by (simp add: ev)
  have r: "(ring_step Block)\<^sup>*\<^sup>* (ring_start ?st) ?s4"
    by (rule converse_rtranclp_into_rtranclp [OF s1 converse_rtranclp_into_rtranclp [OF s2
          converse_rtranclp_into_rtranclp [OF s3 r_into_rtranclp [of "ring_step Block", OF s4]]]])
  have "rs_asleep ?s4 \<noteq> []" by simp
  from ring_no_lost_wakeup [OF n r this] show ?thesis by (intro exI [of _ ?s4]) simp
qed

end
