(* ===== verification/Core_Address.thy ===== *)
theory Core_Address
  imports Prelude
begin

text \<open>
  The slab size classes and 64-bit tile addresses of \<^verbatim>\<open>crates/s3a-core/src/schema.rs\<close>
  (its last section).  An address is a machine word with packed fields; the lemmas show
  that packing and unpacking are inverse on valid fields, that the chosen class is the
  smallest that fits, and that the byte ranges of different slots never overlap.
\<close>

unbundle bit_operations_syntax

section \<open>Size classes\<close>

definition SLAB_SIZE_CLASSES :: "u32 list" where
  "SLAB_SIZE_CLASSES = [4096, 8192, 12288, 16384, 24576, 32768, 49152, 65536, 98304, 131072]"

definition MAX_SLAB_PAYLOAD_SIZE :: nat where "MAX_SLAB_PAYLOAD_SIZE = 131072"

definition MAX_SIZE_CLASS_ID :: u8 where "MAX_SIZE_CLASS_ID = 9"
definition MAX_SLAB_EXTENT_ID :: u32 where "MAX_SLAB_EXTENT_ID = 0x0FFFFFFF"
definition MAX_SLOT_INDEX :: u32 where "MAX_SLOT_INDEX = 0x00FFFFFF"

primrec select_loop :: "nat \<Rightarrow> nat \<Rightarrow> u32 list \<Rightarrow> u8 option" where
  "select_loop payload_len idx [] = None"
| "select_loop payload_len idx (class_bytes # rest) =
    (if payload_len \<le> unat class_bytes then Some (of_nat idx) else select_loop payload_len (Suc idx) rest)"

definition select_size_class :: "nat \<Rightarrow> u8 option" where
  "select_size_class payload_len = select_loop payload_len 0 SLAB_SIZE_CLASSES"

definition size_class_bytes :: "u8 \<Rightarrow> u32 option" where
  "size_class_bytes class_id =
    (if unat class_id < length SLAB_SIZE_CLASSES then Some (SLAB_SIZE_CLASSES ! unat class_id) else None)"

section \<open>Tile addresses\<close>

datatype tile_address_error =
    AddrInvalidSizeClass u8
  | ExtentIdOverflow u32
  | SlotIndexOverflow u32
  | ReservedNonZero u8

datatype tile_address = TileAddress (as_u64: u64)

definition NULL_ADDRESS :: tile_address where "NULL_ADDRESS = TileAddress 0"

definition addr_size_class_id :: "tile_address \<Rightarrow> u8" where
  "addr_size_class_id a = ucast (drop_bit 60 (as_u64 a) AND 0x0F)"

definition addr_extent_id :: "tile_address \<Rightarrow> u32" where
  "addr_extent_id a = ucast (drop_bit 32 (as_u64 a) AND 0x0FFFFFFF)"

definition addr_slot_index :: "tile_address \<Rightarrow> u32" where
  "addr_slot_index a = ucast (drop_bit 8 (as_u64 a) AND 0x00FFFFFF)"

definition addr_reserved :: "tile_address \<Rightarrow> u8" where
  "addr_reserved a = ucast (as_u64 a AND 0xFF)"

definition address_new :: "u8 \<Rightarrow> u32 \<Rightarrow> u32 \<Rightarrow> (tile_address_error, tile_address) result" where
  "address_new size_class_id extent_id slot_index =
    (if size_class_id > MAX_SIZE_CLASS_ID then Err (AddrInvalidSizeClass size_class_id)
     else if extent_id > MAX_SLAB_EXTENT_ID then Err (ExtentIdOverflow extent_id)
     else if slot_index > MAX_SLOT_INDEX then Err (SlotIndexOverflow slot_index)
     else Ok (TileAddress (push_bit 60 (ucast size_class_id) OR push_bit 32 (ucast extent_id) OR
                           push_bit 8 (ucast slot_index))))"

definition address_from_u64 :: "u64 \<Rightarrow> (tile_address_error, tile_address) result" where
  "address_from_u64 raw =
    (let addr = TileAddress raw in
     if addr_size_class_id addr > MAX_SIZE_CLASS_ID then Err (AddrInvalidSizeClass (addr_size_class_id addr))
     else if addr_extent_id addr > MAX_SLAB_EXTENT_ID then Err (ExtentIdOverflow (addr_extent_id addr))
     else if addr_slot_index addr > MAX_SLOT_INDEX then Err (SlotIndexOverflow (addr_slot_index addr))
     else if addr_reserved addr \<noteq> 0 then Err (ReservedNonZero (addr_reserved addr))
     else Ok addr)"

definition physical_offset :: "tile_address \<Rightarrow> (tile_address_error, u64) result" where
  "physical_offset a =
    (case size_class_bytes (addr_size_class_id a) of
       None \<Rightarrow> Err (AddrInvalidSizeClass (addr_size_class_id a))
     | Some class_bytes \<Rightarrow> Ok (4096 + ucast (addr_slot_index a) * ucast class_bytes))"

section \<open>Fields as bits\<close>

lemma field_masks:
  "(0x0F :: u64) = mask 4" "(0x0FFFFFFF :: u64) = mask 28" "(0x00FFFFFF :: u64) = mask 24" "(0xFF :: u64) = mask 8"
  by (simp_all add: mask_eq_exp_minus_1)

lemma unat_less_bits:
  fixes x :: "'a::len word"
  shows "unat x < 2 ^ n \<longleftrightarrow> (\<forall>k\<ge>n. \<not> bit x k)"
proof
  assume "unat x < 2 ^ n"
  then have "unat x = take_bit n (unat x)" by (simp add: take_bit_nat_eq_self)
  then have "unat x = unat (take_bit n x)" by (simp add: unsigned_take_bit_eq)
  then have "x = take_bit n x" by (simp add: word_unat_eq_iff)
  then show "\<forall>k\<ge>n. \<not> bit x k" by (metis bit_take_bit_iff not_le)
next
  assume "\<forall>k\<ge>n. \<not> bit x k"
  then have "x = take_bit n x" by (intro bit_word_eqI) (auto simp: bit_take_bit_iff not_le [symmetric])
  then have "unat x = take_bit n (unat x)" by (metis unsigned_take_bit_eq)
  then show "unat x < 2 ^ n" by (metis take_bit_nat_less_exp)
qed

lemma bounded_bits:
  "c \<le> MAX_SIZE_CLASS_ID \<Longrightarrow> 4 \<le> k \<Longrightarrow> \<not> bit c k"
  "e \<le> MAX_SLAB_EXTENT_ID \<Longrightarrow> 28 \<le> k \<Longrightarrow> \<not> bit e k"
  "s \<le> MAX_SLOT_INDEX \<Longrightarrow> 24 \<le> k \<Longrightarrow> \<not> bit s k"
  using unat_less_bits [of c 4] unat_less_bits [of e 28] unat_less_bits [of s 24]
  by (auto simp: word_le_nat_alt MAX_SIZE_CLASS_ID_def MAX_SLAB_EXTENT_ID_def MAX_SLOT_INDEX_def)

lemma bit_bound: "bit (x :: u8) k \<Longrightarrow> k < 8" "bit (y :: u32) k \<Longrightarrow> k < 32"
  using bit_imp_le_length [of x k] bit_imp_le_length [of y k] by auto

text \<open>The fields of a packed address.\<close>

lemma address_new_fields:
  assumes "address_new c e s = Ok a"
  shows "addr_size_class_id a = c" "addr_extent_id a = e" "addr_slot_index a = s" "addr_reserved a = 0"
proof -
  from assms have le: "c \<le> MAX_SIZE_CLASS_ID" "e \<le> MAX_SLAB_EXTENT_ID" "s \<le> MAX_SLOT_INDEX"
    and a: "as_u64 a = push_bit 60 (ucast c) OR push_bit 32 (ucast e) OR push_bit 8 (ucast s)"
    by (auto simp: address_new_def split: if_splits)
  have b: "bit (as_u64 a) k \<longleftrightarrow> k < 64 \<and>
      (60 \<le> k \<and> bit c (k - 60) \<or> 32 \<le> k \<and> bit e (k - 32) \<or> 8 \<le> k \<and> bit s (k - 8))" for k
    by (auto simp: a bit_or_iff bit_push_bit_iff bit_ucast_iff)
  note bb = bounded_bits(1) [OF le(1)] bounded_bits(2) [OF le(2)] bounded_bits(3) [OF le(3)]
  show "addr_size_class_id a = c"
  proof (rule bit_word_eqI)
    fix k
    show "bit (addr_size_class_id a) k = bit c k"
      using bb(1) [of k] bb(2) [of "28 + k"] bb(3) [of "52 + k"] bit_bound(1) [of c k]
      by (cases "k < 4") (auto simp: addr_size_class_id_def field_masks bit_ucast_iff bit_and_iff bit_drop_bit_eq bit_mask_iff b)
  qed
  show "addr_extent_id a = e"
  proof (rule bit_word_eqI)
    fix k
    show "bit (addr_extent_id a) k = bit e k"
      using bb(2) [of k] bb(3) [of "24 + k"] bit_bound(2) [of e k]
      by (cases "k < 28") (auto simp: addr_extent_id_def field_masks bit_ucast_iff bit_and_iff bit_drop_bit_eq bit_mask_iff b)
  qed
  show "addr_slot_index a = s"
  proof (rule bit_word_eqI)
    fix k
    show "bit (addr_slot_index a) k = bit s k"
      using bb(3) [of k] bit_bound(2) [of s k]
      by (cases "k < 24") (auto simp: addr_slot_index_def field_masks bit_ucast_iff bit_and_iff bit_drop_bit_eq bit_mask_iff b)
  qed
  show "addr_reserved a = 0"
    by (rule bit_word_eqI) (auto simp: addr_reserved_def field_masks bit_ucast_iff bit_and_iff bit_mask_iff b)
qed

lemma address_fields_new:
  assumes "addr_size_class_id a \<le> MAX_SIZE_CLASS_ID" "addr_reserved a = 0"
  shows "address_new (addr_size_class_id a) (addr_extent_id a) (addr_slot_index a) = Ok a"
proof -
  let ?c = "addr_size_class_id a" and ?e = "addr_extent_id a" and ?s = "addr_slot_index a" and ?w = "as_u64 a"
  have c: "bit ?c k \<longleftrightarrow> k < 4 \<and> bit ?w (k + 60)" for k
    by (auto simp: addr_size_class_id_def field_masks bit_ucast_iff bit_and_iff bit_drop_bit_eq bit_mask_iff add.commute)
  have e: "bit ?e k \<longleftrightarrow> k < 28 \<and> bit ?w (k + 32)" for k
    by (auto simp: addr_extent_id_def field_masks bit_ucast_iff bit_and_iff bit_drop_bit_eq bit_mask_iff add.commute)
  have s: "bit ?s k \<longleftrightarrow> k < 24 \<and> bit ?w (k + 8)" for k
    by (auto simp: addr_slot_index_def field_masks bit_ucast_iff bit_and_iff bit_drop_bit_eq bit_mask_iff add.commute)
  have r: "\<not> bit ?w k" if "k < 8" for k
  proof -
    have "bit (addr_reserved a) k \<longleftrightarrow> k < 8 \<and> bit ?w k"
      by (auto simp: addr_reserved_def field_masks bit_ucast_iff bit_and_iff bit_mask_iff)
    with assms(2) that show ?thesis by simp
  qed
  have bounds: "?e \<le> MAX_SLAB_EXTENT_ID" "?s \<le> MAX_SLOT_INDEX"
  proof -
    have "unat ?e < 2 ^ 28" "unat ?s < 2 ^ 24" by (simp_all only: unat_less_bits e s) auto
    then show "?e \<le> MAX_SLAB_EXTENT_ID" "?s \<le> MAX_SLOT_INDEX"
      by (simp_all add: word_le_nat_alt MAX_SLAB_EXTENT_ID_def MAX_SLOT_INDEX_def)
  qed
  have "push_bit 60 (ucast ?c) OR push_bit 32 (ucast ?e) OR push_bit 8 (ucast ?s) = ?w"
  proof (rule bit_word_eqI)
    fix k
    assume "k < LENGTH(64)"
    then have k: "k < 64" by simp
    have p1: "bit (push_bit 60 (ucast ?c :: u64)) k \<longleftrightarrow> 60 \<le> k \<and> k - 60 < 4 \<and> bit ?w k"
      unfolding bit_push_bit_iff bit_ucast_iff c using k by auto
    have p2: "bit (push_bit 32 (ucast ?e :: u64)) k \<longleftrightarrow> 32 \<le> k \<and> k - 32 < 28 \<and> bit ?w k"
      unfolding bit_push_bit_iff bit_ucast_iff e using k by auto
    have p3: "bit (push_bit 8 (ucast ?s :: u64)) k \<longleftrightarrow> 8 \<le> k \<and> k - 8 < 24 \<and> bit ?w k"
      unfolding bit_push_bit_iff bit_ucast_iff s using k by auto
    note p = p1 p2 p3
    have "(60 \<le> k \<and> k - 60 < 4 \<and> bit ?w k) \<or> (32 \<le> k \<and> k - 32 < 28 \<and> bit ?w k) \<or> (8 \<le> k \<and> k - 8 < 24 \<and> bit ?w k)
        \<longleftrightarrow> bit ?w k"
      using k r [of k] by (cases "k < 8"; cases "k < 32"; cases "k < 60") auto
    then show "bit (push_bit 60 (ucast ?c) OR push_bit 32 (ucast ?e) OR push_bit 8 (ucast ?s) :: u64) k = bit ?w k"
      using p by (simp only: bit_or_iff)
  qed
  then have a: "TileAddress (push_bit 60 (ucast ?c) OR push_bit 32 (ucast ?e) OR push_bit 8 (ucast ?s)) = a"
    by (simp only: tile_address.collapse)
  have "\<not> MAX_SIZE_CLASS_ID < ?c" "\<not> MAX_SLAB_EXTENT_ID < ?e" "\<not> MAX_SLOT_INDEX < ?s"
    using assms(1) bounds by (simp_all only: not_less)
  with a show ?thesis by (simp only: address_new_def if_False)
qed

section \<open>Class selection and offsets\<close>

lemma select_loop_spec:
  "select_loop n i cs = Some c \<longleftrightarrow>
    (\<exists>j < length cs. c = of_nat (i + j) \<and> n \<le> unat (cs ! j) \<and> (\<forall>l<j. unat (cs ! l) < n))"
proof (induction cs arbitrary: i)
  case (Cons b bs)
  show ?case
  proof (cases "n \<le> unat b")
    case True
    have "(\<exists>j < length (b # bs). c = of_nat (i + j) \<and> n \<le> unat ((b # bs) ! j) \<and> (\<forall>l<j. unat ((b # bs) ! l) < n)) \<longleftrightarrow> c = of_nat i"
    proof
      assume "\<exists>j < length (b # bs). c = of_nat (i + j) \<and> n \<le> unat ((b # bs) ! j) \<and> (\<forall>l<j. unat ((b # bs) ! l) < n)"
      then obtain j where j: "c = of_nat (i + j)" "\<forall>l<j. unat ((b # bs) ! l) < n" by blast
      with True have "j = 0" by (metis gr0I leD nth_Cons_0)
      with j show "c = of_nat i" by simp
    next
      assume "c = of_nat i"
      with True show "\<exists>j < length (b # bs). c = of_nat (i + j) \<and> n \<le> unat ((b # bs) ! j) \<and> (\<forall>l<j. unat ((b # bs) ! l) < n)"
        by (intro exI [of _ 0]) simp
    qed
    with True show ?thesis by auto
  next
    case False
    have "(\<exists>j < length bs. c = of_nat (Suc i + j) \<and> n \<le> unat (bs ! j) \<and> (\<forall>l<j. unat (bs ! l) < n)) \<longleftrightarrow>
        (\<exists>j < length (b # bs). c = of_nat (i + j) \<and> n \<le> unat ((b # bs) ! j) \<and> (\<forall>l<j. unat ((b # bs) ! l) < n))"
    proof
      assume "\<exists>j < length bs. c = of_nat (Suc i + j) \<and> n \<le> unat (bs ! j) \<and> (\<forall>l<j. unat (bs ! l) < n)"
      then obtain j where j: "j < length bs" "c = of_nat (Suc i + j)" "n \<le> unat (bs ! j)" "\<forall>l<j. unat (bs ! l) < n" by blast
      then show "\<exists>j < length (b # bs). c = of_nat (i + j) \<and> n \<le> unat ((b # bs) ! j) \<and> (\<forall>l<j. unat ((b # bs) ! l) < n)"
        using False by (intro exI [of _ "Suc j"]) (auto simp: nth_Cons' not_le)
    next
      assume "\<exists>j < length (b # bs). c = of_nat (i + j) \<and> n \<le> unat ((b # bs) ! j) \<and> (\<forall>l<j. unat ((b # bs) ! l) < n)"
      then obtain j where j: "j < length (b # bs)" "c = of_nat (i + j)" "n \<le> unat ((b # bs) ! j)" "\<forall>l<j. unat ((b # bs) ! l) < n"
        by blast
      then obtain k where "j = Suc k" using False by (cases j) auto
      with j show "\<exists>j < length bs. c = of_nat (Suc i + j) \<and> n \<le> unat (bs ! j) \<and> (\<forall>l<j. unat (bs ! l) < n)"
        by (intro exI [of _ k]) force
    qed
    with False show ?thesis by (simp add: Cons.IH)
  qed
qed simp

lemma size_classes_sorted: "sorted_wrt (<) (map unat SLAB_SIZE_CLASSES)"
  by (simp add: SLAB_SIZE_CLASSES_def)

lemma length_size_classes: "length SLAB_SIZE_CLASSES = 10"
  by (simp add: SLAB_SIZE_CLASSES_def)

lemma size_class_bytes_cases:
  assumes "size_class_bytes c = Some b"
  shows "c \<le> MAX_SIZE_CLASS_ID \<and> 4096 \<le> unat b \<and> unat b \<le> 131072"
proof -
  from assms have l: "unat c < 10" "b = SLAB_SIZE_CLASSES ! unat c"
    by (auto simp: size_class_bytes_def length_size_classes split: if_splits)
  then have "b \<in> set SLAB_SIZE_CLASSES" using nth_mem [of "unat c" SLAB_SIZE_CLASSES] by (simp add: length_size_classes)
  then have "4096 \<le> unat b \<and> unat b \<le> 131072" by (auto simp: SLAB_SIZE_CLASSES_def)
  with l show ?thesis by (simp add: word_le_nat_alt MAX_SIZE_CLASS_ID_def)
qed

text \<open>The offset does not wrap: it is the header sector plus whole slots.\<close>

lemma physical_offset_unat:
  assumes "size_class_bytes (addr_size_class_id a) = Some b"
  shows "\<exists>off. physical_offset a = Ok off \<and> unat off = 4096 + unat (addr_slot_index a) * unat b"
proof -
  have s: "unat (addr_slot_index a) < 2 ^ 24"
    unfolding unat_less_bits
    by (auto simp: addr_slot_index_def field_masks bit_ucast_iff bit_and_iff bit_drop_bit_eq bit_mask_iff)
  have b: "unat b \<le> 2 ^ 17" using size_class_bytes_cases [OF assms] by simp
  have "unat (addr_slot_index a) * unat b \<le> 2 ^ 24 * 2 ^ 17"
    using s b by (intro mult_le_mono) simp_all
  moreover have "unat (ucast (addr_slot_index a) :: u64) = unat (addr_slot_index a)" "unat (ucast b :: u64) = unat b"
    by (simp_all add: unsigned_ucast_eq take_bit_nat_eq_self unsigned_less [THEN less_trans])
  ultimately have "unat (4096 + ucast (addr_slot_index a) * ucast b :: u64) = 4096 + unat (addr_slot_index a) * unat b"
    by (simp add: unat_word_ariths)
  with assms show ?thesis by (simp add: physical_offset_def)
qed

lemma select_size_class_spec:
  "(case select_size_class n of
      None \<Rightarrow> MAX_SLAB_PAYLOAD_SIZE < n
    | Some c \<Rightarrow> (\<exists>b. size_class_bytes c = Some b \<and> n \<le> unat b \<and>
        (\<forall>c' b'. size_class_bytes c' = Some b' \<longrightarrow> n \<le> unat b' \<longrightarrow> unat c \<le> unat c')))"
proof (cases "select_size_class n")
  case None
  then have "MAX_SLAB_PAYLOAD_SIZE < n"
    by (auto simp: select_size_class_def SLAB_SIZE_CLASSES_def MAX_SLAB_PAYLOAD_SIZE_def split: if_splits)
  with None show ?thesis by simp
next
  case (Some c)
  then obtain j where j: "j < 10" "c = of_nat j" "n \<le> unat (SLAB_SIZE_CLASSES ! j)"
      "\<forall>l<j. unat (SLAB_SIZE_CLASSES ! l) < n"
    unfolding select_size_class_def select_loop_spec length_size_classes by auto
  have uc: "unat c = j" using j(1,2) by (simp add: unat_of_nat take_bit_nat_eq_self)
  have "unat c \<le> unat c'" if "size_class_bytes c' = Some b'" "n \<le> unat b'" for c' b'
  proof (rule ccontr)
    assume "\<not> unat c \<le> unat c'"
    with j(4) uc have "unat (SLAB_SIZE_CLASSES ! unat c') < n" by simp
    with that show False by (auto simp: size_class_bytes_def split: if_splits)
  qed
  moreover have "size_class_bytes c = Some (SLAB_SIZE_CLASSES ! j)"
    using j(1) uc by (simp add: size_class_bytes_def length_size_classes)
  ultimately show ?thesis using Some j(3) by auto
qed

section \<open>Properties\<close>

text \<open>a tile address and its fields determine each other: an address built from fields within
  bounds returns exactly these fields and passes validation, and any raw word that
  passes validation is the address built from its own fields.\<close>

theorem tile_address_roundtrip:
  "(address_new c e s = Ok a \<longrightarrow> addr_size_class_id a = c \<and> addr_extent_id a = e \<and> addr_slot_index a = s \<and>
      address_from_u64 (as_u64 a) = Ok a) \<and>
   (address_from_u64 raw = Ok a' \<longrightarrow> as_u64 a' = raw \<and>
      address_new (addr_size_class_id a') (addr_extent_id a') (addr_slot_index a') = Ok a')"
proof (intro conjI impI)
  assume new: "address_new c e s = Ok a"
  note f = address_new_fields [OF new]
  then show "addr_size_class_id a = c" "addr_extent_id a = e" "addr_slot_index a = s" by simp_all
  from new have "\<not> MAX_SIZE_CLASS_ID < c" "\<not> MAX_SLAB_EXTENT_ID < e" "\<not> MAX_SLOT_INDEX < s"
    by (auto simp: address_new_def split: if_splits)
  with f show "address_from_u64 (as_u64 a) = Ok a" by (simp add: address_from_u64_def Let_def)
next
  assume v: "address_from_u64 raw = Ok a'"
  then show "as_u64 a' = raw" by (auto simp: address_from_u64_def Let_def split: if_splits)
  from v have "addr_size_class_id a' \<le> MAX_SIZE_CLASS_ID" "addr_reserved a' = 0"
    by (auto simp: address_from_u64_def Let_def split: if_splits)
  then show "address_new (addr_size_class_id a') (addr_extent_id a') (addr_slot_index a') = Ok a'"
    by (rule address_fields_new)
qed

theorem tile_address_roundtrip_witness:
  "\<exists>a. address_new 3 42 100 = Ok a \<and> addr_slot_index a = 100 \<and> address_from_u64 (as_u64 a) = Ok a"
proof -
  obtain a where a: "address_new 3 42 100 = Ok a"
    by (simp add: address_new_def MAX_SIZE_CLASS_ID_def MAX_SLAB_EXTENT_ID_def MAX_SLOT_INDEX_def)
  with tile_address_roundtrip [of 3 42 100 a] show ?thesis by blast
qed

lemma find_map: "find P (map f xs) = map_option f (find (P \<circ> f) xs)"
  by (induction xs) auto

lemma select_loop_find:
  "select_loop n i cs = map_option (\<lambda>j. of_nat (i + j)) (find (\<lambda>j. n \<le> unat (cs ! j)) [0..<length cs])"
proof (induction cs arbitrary: i)
  case (Cons c cs)
  have "[0..<length (c # cs)] = 0 # map Suc [0..<length cs]" by (simp add: upt_conv_Cons map_Suc_upt del: upt_Suc)
  with Cons [of "Suc i"] show ?case
    by (simp add: find_map comp_def option.map_comp add.left_commute del: upt_Suc)
qed simp

lemma select_size_class_find:
  "select_size_class n = find (\<lambda>c. n \<le> unat (the (size_class_bytes c))) (map of_nat [0..<10])"
proof -
  have "unat (of_nat j :: u8) = j" if "j < 10" for j using that by (simp add: unat_of_nat take_bit_nat_eq_self)
  then show ?thesis
    unfolding select_size_class_def select_loop_find find_map length_size_classes
    by (intro arg_cong2 [where f = map_option] find_cong) (auto simp: size_class_bytes_def length_size_classes)
qed

text \<open>the size class chosen for a payload is the first, hence the smallest, of the ten classes
  whose slots hold it, and exactly the payloads above the largest class have none.\<close>

theorem select_size_class_smallest:
  "select_size_class n = find (\<lambda>c. n \<le> unat (the (size_class_bytes c))) (map of_nat [0..<10]) \<and>
   (select_size_class n = None \<longleftrightarrow> MAX_SLAB_PAYLOAD_SIZE < n)"
proof
  show "select_size_class n = find (\<lambda>c. n \<le> unat (the (size_class_bytes c))) (map of_nat [0..<10])"
    by (rule select_size_class_find)
  show "select_size_class n = None \<longleftrightarrow> MAX_SLAB_PAYLOAD_SIZE < n"
    using select_size_class_spec [of n] size_class_bytes_cases
    by (cases "select_size_class n") (fastforce simp: MAX_SLAB_PAYLOAD_SIZE_def dest: order_trans)+
qed

text \<open>distinct slots of an extent never overlap, and none overlaps the extent's header sector.\<close>

theorem slot_ranges_disjoint:
  assumes "size_class_bytes (addr_size_class_id a) = Some sz" "addr_size_class_id a' = addr_size_class_id a"
    and "physical_offset a = Ok off" "physical_offset a' = Ok off'" "addr_slot_index a \<noteq> addr_slot_index a'"
  shows "4096 \<le> unat off \<and>
    (unat off + unat sz \<le> unat off' \<or> unat off' + unat sz \<le> unat off)"
proof -
  let ?i = "unat (addr_slot_index a)" and ?j = "unat (addr_slot_index a')"
  have o: "unat off = 4096 + ?i * unat sz" "unat off' = 4096 + ?j * unat sz"
    using physical_offset_unat [of a sz] physical_offset_unat [of a' sz] assms by auto
  have "?i \<noteq> ?j" using assms(5) by (simp add: word_unat_eq_iff)
  then have "Suc ?i * unat sz \<le> ?j * unat sz \<or> Suc ?j * unat sz \<le> ?i * unat sz"
    by (metis linorder_neqE_nat mult_le_mono1 Suc_leI)
  with o show ?thesis by auto
qed

theorem slot_ranges_disjoint_witness:
  "\<exists>a a' off off'. address_new 0 0 1 = Ok a \<and> address_new 0 0 2 = Ok a' \<and> physical_offset a = Ok off \<and>
    physical_offset a' = Ok off' \<and> (unat off + 4096 \<le> unat off' \<or> unat off' + 4096 \<le> unat off)"
proof -
  obtain a a' where a: "address_new 0 0 1 = Ok a" "address_new 0 0 2 = Ok a'"
    by (simp add: address_new_def MAX_SIZE_CLASS_ID_def MAX_SLAB_EXTENT_ID_def MAX_SLOT_INDEX_def)
  note f = address_new_fields [OF a(1)] address_new_fields [OF a(2)]
  have s: "size_class_bytes 0 = Some 4096" by (simp add: size_class_bytes_def SLAB_SIZE_CLASSES_def)
  with physical_offset_unat [of a] physical_offset_unat [of a'] f obtain off off' where
    o: "physical_offset a = Ok off" "physical_offset a' = Ok off'" by auto
  from slot_ranges_disjoint [of a 4096 a' off off'] a f s o show ?thesis by auto
qed

text \<open>The null address is also the address of a real slot, the first slot of the first extent
  of the smallest class.\<close>

theorem null_address_is_valid:
  "address_new 0 0 0 = Ok NULL_ADDRESS \<and> physical_offset NULL_ADDRESS = Ok 4096"
  by (simp add: address_new_def NULL_ADDRESS_def physical_offset_def addr_size_class_id_def addr_slot_index_def
      size_class_bytes_def SLAB_SIZE_CLASSES_def)

end
