(* ===== verification/Engine_Slab_Header.thy ===== *)
theory Engine_Slab_Header
  imports Core_Address
begin

text \<open>
  The extent header of the slab engine, \<^verbatim>\<open>crates/s3a-engine/src/slab.rs\<close>: its byte
  layout, the slot bitmap and the search for a free slot, and the pool of open file
  descriptors.  The bitmap is read through \<open>slot_bit\<close>; the lemmas state each operation
  in terms of it.
\<close>

section \<open>Constants and errors\<close>

definition SLAB_MAGIC :: "byte list" where
  "SLAB_MAGIC = [0x53, 0x33, 0x41, 0x53, 0x4C, 0x41, 0x42, 0x31]"

definition SLAB_HEADER_SIZE :: nat where "SLAB_HEADER_SIZE = 4096"
definition SLAB_BITMAP_BYTES :: nat where "SLAB_BITMAP_BYTES = 4072"
definition MAX_SLOTS_PER_EXTENT :: u32 where "MAX_SLOTS_PER_EXTENT = 32576"

datatype io_error_kind = NotFound | UnexpectedEof

datatype slab_error =
    SlabInvalidMagic
  | InvalidSizeClass u8
  | InvalidSlotCount u32
  | SlotIndexOutOfBounds (so_slot_index: u32) (so_slot_count: u32)
  | SlotNotAllocated u32
  | PayloadTooLarge (pt_payload_len: nat) (pt_max_capacity: nat)
  | DataExceedsSlotSize (de_data_len: nat) (de_slot_size: nat)
  | SlabAddress tile_address_error
  | SlabIo io_error_kind

section \<open>Header\<close>

record slab_extent_header =
  sh_magic :: "byte list"
  sh_extent_id :: u32
  sh_size_class_id :: u8
  sh_reserved :: "byte list"
  sh_slot_count :: u32
  sh_slot_size_bytes :: u32
  sh_allocation_bitmap :: "byte list"

definition slab_header_bytes :: "slab_extent_header \<Rightarrow> byte list" where
  "slab_header_bytes h = sh_magic h @ le32 (sh_extent_id h) @ [sh_size_class_id h] @ sh_reserved h @
     le32 (sh_slot_count h) @ le32 (sh_slot_size_bytes h) @ sh_allocation_bitmap h"

definition slab_header_of_bytes :: "byte list \<Rightarrow> slab_extent_header" where
  "slab_header_of_bytes bs =
     \<lparr> sh_magic = window 0 8 bs, sh_extent_id = of_le (window 8 4 bs), sh_size_class_id = bs ! 12,
       sh_reserved = window 13 3 bs, sh_slot_count = of_le (window 16 4 bs),
       sh_slot_size_bytes = of_le (window 20 4 bs), sh_allocation_bitmap = window 24 4072 bs \<rparr>"

definition slab_header_new :: "u8 \<Rightarrow> u32 \<Rightarrow> u32 \<Rightarrow> (slab_error, slab_extent_header) result" where
  "slab_header_new size_class_id extent_id slot_count =
    (if size_class_id > MAX_SIZE_CLASS_ID then Err (InvalidSizeClass size_class_id)
     else case size_class_bytes size_class_id of
       None \<Rightarrow> Err (InvalidSizeClass size_class_id)
     | Some slot_size_bytes \<Rightarrow>
         if slot_count = 0 \<or> slot_count > MAX_SLOTS_PER_EXTENT then Err (InvalidSlotCount slot_count)
         else Ok \<lparr> sh_magic = SLAB_MAGIC, sh_extent_id = extent_id, sh_size_class_id = size_class_id,
                   sh_reserved = [0, 0, 0], sh_slot_count = slot_count, sh_slot_size_bytes = slot_size_bytes,
                   sh_allocation_bitmap = replicate SLAB_BITMAP_BYTES 0 \<rparr>)"

definition is_slot_allocated :: "u32 \<Rightarrow> slab_extent_header \<Rightarrow> (slab_error, bool) result" where
  "is_slot_allocated slot_index h =
    (if slot_index \<ge> sh_slot_count h then Err (SlotIndexOutOfBounds slot_index (sh_slot_count h))
     else let byte_idx = unat (slot_index div 8); bit_idx = unat (slot_index mod 8)
          in Ok (sh_allocation_bitmap h ! byte_idx AND push_bit bit_idx 1 \<noteq> 0))"

definition set_slot_allocated :: "u32 \<Rightarrow> bool \<Rightarrow> slab_extent_header \<Rightarrow> (slab_error, slab_extent_header) result" where
  "set_slot_allocated slot_index allocated h =
    (if slot_index \<ge> sh_slot_count h then Err (SlotIndexOutOfBounds slot_index (sh_slot_count h))
     else let byte_idx = unat (slot_index div 8); bit_idx = unat (slot_index mod 8);
              byte = sh_allocation_bitmap h ! byte_idx;
              byte = (if allocated then byte OR push_bit bit_idx 1 else byte AND NOT (push_bit bit_idx 1))
          in Ok (h\<lparr> sh_allocation_bitmap := (sh_allocation_bitmap h)[byte_idx := byte] \<rparr>))"

text \<open>The two loops of \<^verbatim>\<open>find_first_free_slot\<close>: over the bits of a byte, over the bytes.\<close>

primrec free_in_byte :: "u32 \<Rightarrow> nat \<Rightarrow> byte \<Rightarrow> nat list \<Rightarrow> u32 option" where
  "free_in_byte slot_count byte_idx byte [] = None"
| "free_in_byte slot_count byte_idx byte (bit_idx # rest) =
    (if byte AND push_bit bit_idx 1 = 0 then
       let slot = of_nat byte_idx * 8 + of_nat bit_idx in
       if slot < slot_count then Some slot else free_in_byte slot_count byte_idx byte rest
     else free_in_byte slot_count byte_idx byte rest)"

primrec free_in_bytes :: "u32 \<Rightarrow> nat \<Rightarrow> byte list \<Rightarrow> u32 option" where
  "free_in_bytes slot_count byte_idx [] = None"
| "free_in_bytes slot_count byte_idx (byte # rest) =
    (if byte \<noteq> 0xFF then
       case free_in_byte slot_count byte_idx byte [0..<8] of
         Some slot \<Rightarrow> Some slot
       | None \<Rightarrow> free_in_bytes slot_count (Suc byte_idx) rest
     else free_in_bytes slot_count (Suc byte_idx) rest)"

definition find_first_free_slot :: "slab_extent_header \<Rightarrow> u32 option" where
  "find_first_free_slot h =
    (let max_bytes = unat ((sh_slot_count h + 7) div 8) in
     free_in_bytes (sh_slot_count h) 0 (take max_bytes (sh_allocation_bitmap h)))"

primrec count_in_byte :: "u32 \<Rightarrow> nat \<Rightarrow> byte \<Rightarrow> nat list \<Rightarrow> u32" where
  "count_in_byte slot_count byte_idx byte [] = 0"
| "count_in_byte slot_count byte_idx byte (bit_idx # rest) =
    (let slot = of_nat byte_idx * 8 + of_nat bit_idx in
     (if slot < slot_count \<and> byte AND push_bit bit_idx 1 \<noteq> 0 then 1 else 0) +
       count_in_byte slot_count byte_idx byte rest)"

primrec count_in_bytes :: "u32 \<Rightarrow> nat \<Rightarrow> byte list \<Rightarrow> u32" where
  "count_in_bytes slot_count byte_idx [] = 0"
| "count_in_bytes slot_count byte_idx (byte # rest) =
    (if byte \<noteq> 0 then count_in_byte slot_count byte_idx byte [0..<8] else 0) +
      count_in_bytes slot_count (Suc byte_idx) rest"

definition allocated_count :: "slab_extent_header \<Rightarrow> u32" where
  "allocated_count h =
    (let max_bytes = unat ((sh_slot_count h + 7) div 8) in
     count_in_bytes (sh_slot_count h) 0 (take max_bytes (sh_allocation_bitmap h)))"

definition is_full :: "slab_extent_header \<Rightarrow> bool" where
  "is_full h \<longleftrightarrow> allocated_count h \<ge> sh_slot_count h"

definition slab_header_validate :: "slab_extent_header \<Rightarrow> (slab_error, unit) result" where
  "slab_header_validate h =
    (if sh_magic h \<noteq> SLAB_MAGIC then Err SlabInvalidMagic
     else if sh_size_class_id h > MAX_SIZE_CLASS_ID then Err (InvalidSizeClass (sh_size_class_id h))
     else case size_class_bytes (sh_size_class_id h) of
       None \<Rightarrow> Err (InvalidSizeClass (sh_size_class_id h))
     | Some expected_size \<Rightarrow>
         if sh_slot_size_bytes h \<noteq> expected_size then Err (InvalidSizeClass (sh_size_class_id h))
         else if sh_slot_count h = 0 \<or> sh_slot_count h > MAX_SLOTS_PER_EXTENT
         then Err (InvalidSlotCount (sh_slot_count h))
         else Ok ())"

section \<open>Pool of open descriptors\<close>

type_synonym extent_key = "u8 \<times> u32"

text \<open>The map from keys to open files is the set of its keys.\<close>

record extent_fd_pool =
  fp_capacity :: nat
  fp_entries :: "extent_key set"
  fp_lru_order :: "extent_key list"

definition fd_pool_new :: "nat \<Rightarrow> extent_fd_pool" where
  "fd_pool_new cap = \<lparr> fp_capacity = max cap 1, fp_entries = {}, fp_lru_order = [] \<rparr>"

definition fd_open_count :: "extent_fd_pool \<Rightarrow> nat" where
  "fd_open_count p = card (fp_entries p)"

text \<open>\<^verbatim>\<open>get_or_open\<close>, the \<^verbatim>\<open>open\<close> call succeeding when \<open>can_open\<close>.\<close>

definition fd_get_or_open :: "extent_key \<Rightarrow> bool \<Rightarrow> extent_fd_pool \<Rightarrow> (io_error_kind, unit) result \<times> extent_fd_pool" where
  "fd_get_or_open key can_open p =
    (if key \<in> fp_entries p then
       (Ok (), p\<lparr> fp_lru_order := remove1 key (fp_lru_order p) @ [key] \<rparr>)
     else
       let p = (if card (fp_entries p) \<ge> fp_capacity p then
                  case fp_lru_order p of
                    [] \<Rightarrow> p
                  | evicted # rest \<Rightarrow> p\<lparr> fp_entries := fp_entries p - {evicted}, fp_lru_order := rest \<rparr>
                else p)
       in if can_open then
            (Ok (), p\<lparr> fp_entries := insert key (fp_entries p), fp_lru_order := fp_lru_order p @ [key] \<rparr>)
          else (Err NotFound, p))"

definition fd_remove :: "extent_key \<Rightarrow> extent_fd_pool \<Rightarrow> extent_fd_pool" where
  "fd_remove key p = p\<lparr> fp_entries := fp_entries p - {key}, fp_lru_order := remove1 key (fp_lru_order p) \<rparr>"

section \<open>Layout\<close>

lemma slab_header_layout [simp]:
  assumes "length bs = 4096"
  shows "slab_header_bytes (slab_header_of_bytes bs) = bs"
proof -
  have "[bs ! 12] @ xs = window 12 1 bs @ xs" for xs
    using assms by (simp add: window_def take_Suc_conv_app_nth take_Suc hd_drop_conv_nth)
  then show ?thesis
    using assms by (simp only: slab_header_of_bytes_def slab_header_bytes_def slab_extent_header.select_convs)
      (simp add: to_le_of_le window_join window_all)
qed

definition slab_header_shape :: "slab_extent_header \<Rightarrow> bool" where
  "slab_header_shape h \<longleftrightarrow> length (sh_magic h) = 8 \<and> length (sh_reserved h) = 3 \<and> length (sh_allocation_bitmap h) = 4072"

lemma length_slab_header_bytes [simp, layout]: "slab_header_shape h \<Longrightarrow> length (slab_header_bytes h) = 4096"
  by (simp add: slab_header_shape_def slab_header_bytes_def)

lemma slab_header_roundtrip [simp]: "slab_header_shape h \<Longrightarrow> slab_header_of_bytes (slab_header_bytes h) = h"
  by (cases h) (simp add: slab_header_shape_def slab_header_of_bytes_def slab_header_bytes_def window_append_skip
      window_append_here window_all window_Cons_skip nth_append)

lemma slab_header_of_bytes_shape [simp]: "4096 \<le> length bs \<Longrightarrow> slab_header_shape (slab_header_of_bytes bs)"
  by (simp add: slab_header_shape_def slab_header_of_bytes_def)

section \<open>The bitmap\<close>

definition slot_bit :: "slab_extent_header \<Rightarrow> nat \<Rightarrow> bool" where
  "slot_bit h s \<longleftrightarrow> bit (sh_allocation_bitmap h ! (s div 8)) (s mod 8)"

lemma byte_and_single: "(b :: byte) AND push_bit k 1 \<noteq> 0 \<longleftrightarrow> bit b k"
  by (auto simp: and_exp_eq_0_iff_not_bit push_bit_of_1)

lemma is_slot_allocated_bit:
  "s < sh_slot_count h \<Longrightarrow> is_slot_allocated s h = Ok (slot_bit h (unat s))"
  using byte_and_single by (simp add: is_slot_allocated_def slot_bit_def unat_div_distrib unat_mod_distrib)

definition slab_header_wf :: "slab_extent_header \<Rightarrow> bool" where
  "slab_header_wf h \<longleftrightarrow> slab_header_shape h \<and> slab_header_validate h = Ok ()"

lemma slab_header_wf_bounds:
  assumes "slab_header_wf h"
  shows "0 < unat (sh_slot_count h)" "unat (sh_slot_count h) \<le> 32576" "length (sh_allocation_bitmap h) = 4072"
    "size_class_bytes (sh_size_class_id h) = Some (sh_slot_size_bytes h)" "sh_size_class_id h \<le> MAX_SIZE_CLASS_ID"
  using assms
  by (auto simp: slab_header_wf_def slab_header_shape_def slab_header_validate_def word_le_nat_alt not_less
      MAX_SLOTS_PER_EXTENT_def unat_gt_0 split: if_splits option.splits)

lemma slab_header_new_wf:
  assumes "slab_header_new c e n = Ok h"
  shows "slab_header_wf h \<and> sh_extent_id h = e \<and> sh_size_class_id h = c \<and> sh_slot_count h = n \<and> (\<forall>s < 32576. \<not> slot_bit h s)"
proof -
  from assms have "slab_header_wf h \<and> sh_extent_id h = e \<and> sh_size_class_id h = c \<and> sh_slot_count h = n"
    by (auto simp: slab_header_new_def slab_header_wf_def slab_header_shape_def slab_header_validate_def
        SLAB_MAGIC_def SLAB_BITMAP_BYTES_def split: if_splits option.splits)
  moreover from assms have "sh_allocation_bitmap h = replicate 4072 0"
    by (auto simp: slab_header_new_def SLAB_BITMAP_BYTES_def split: if_splits option.splits)
  then have "\<not> slot_bit h s" if "s < 32576" for s
    using that by (simp add: slot_bit_def less_mult_imp_div_less)
  ultimately show ?thesis by blast
qed

lemma slab_header_new_ok:
  "c \<le> MAX_SIZE_CLASS_ID \<Longrightarrow> 0 < n \<Longrightarrow> n \<le> MAX_SLOTS_PER_EXTENT \<Longrightarrow> \<exists>h. slab_header_new c e n = Ok h"
proof -
  assume a: "c \<le> MAX_SIZE_CLASS_ID" "0 < n" "n \<le> MAX_SLOTS_PER_EXTENT"
  then obtain b where "size_class_bytes c = Some b"
    by (auto simp: size_class_bytes_def length_size_classes word_le_nat_alt MAX_SIZE_CLASS_ID_def)
  with a show ?thesis by (auto simp: slab_header_new_def not_less)
qed

lemma slot_index_split:
  fixes s t :: nat
  shows "s div 8 = t div 8 \<and> s mod 8 = t mod 8 \<longleftrightarrow> s = t"
  by (metis div_mult_mod_eq)

lemma bit_set_clear:
  "bit ((b :: byte) OR push_bit k 1) j \<longleftrightarrow> j < 8 \<and> (bit b j \<or> j = k)"
  "bit (b AND NOT (push_bit k 1)) j \<longleftrightarrow> bit b j \<and> j \<noteq> k"
  using bit_imp_le_length [of b j]
  by (auto simp: bit_or_iff bit_and_iff bit_not_iff push_bit_of_1 bit_exp_iff possible_bit_def)

lemma slab_header_bitmap_select:
  "sh_magic (h\<lparr> sh_allocation_bitmap := m \<rparr>) = sh_magic h"
  "sh_extent_id (h\<lparr> sh_allocation_bitmap := m \<rparr>) = sh_extent_id h"
  "sh_size_class_id (h\<lparr> sh_allocation_bitmap := m \<rparr>) = sh_size_class_id h"
  "sh_reserved (h\<lparr> sh_allocation_bitmap := m \<rparr>) = sh_reserved h"
  "sh_slot_count (h\<lparr> sh_allocation_bitmap := m \<rparr>) = sh_slot_count h"
  "sh_slot_size_bytes (h\<lparr> sh_allocation_bitmap := m \<rparr>) = sh_slot_size_bytes h"
  "sh_allocation_bitmap (h\<lparr> sh_allocation_bitmap := m \<rparr>) = m"
  by simp_all

lemma slab_header_wf_bitmap:
  "slab_header_wf h \<Longrightarrow> length m = 4072 \<Longrightarrow> slab_header_wf (h\<lparr> sh_allocation_bitmap := m \<rparr>)"
  unfolding slab_header_wf_def slab_header_shape_def slab_header_validate_def
  by (simp only: slab_header_bitmap_select simp_thms)

lemma set_slot_allocated_bit:
  assumes "slab_header_wf h" "s < sh_slot_count h"
  obtains h' where "set_slot_allocated s v h = Ok h'" "slab_header_wf h'" "sh_extent_id h' = sh_extent_id h"
    "sh_size_class_id h' = sh_size_class_id h" "sh_slot_count h' = sh_slot_count h"
    "\<And>t. t < 32576 \<Longrightarrow> slot_bit h' t \<longleftrightarrow> (if t = unat s then v else slot_bit h t)"
proof -
  note b = slab_header_wf_bounds [OF assms(1)]
  from assms(2) b(2) have s: "unat s < 32576" by (simp add: word_less_nat_alt)
  let ?i = "unat s div 8" and ?k = "unat s mod 8"
  let ?byte = "sh_allocation_bitmap h ! ?i"
  let ?new = "if v then ?byte OR push_bit ?k 1 else ?byte AND NOT (push_bit ?k 1)"
  let ?h = "h\<lparr> sh_allocation_bitmap := (sh_allocation_bitmap h)[?i := ?new] \<rparr>"
  have "set_slot_allocated s v h = Ok ?h"
    using assms(2) by (simp add: set_slot_allocated_def Let_def not_le unat_div_distrib unat_mod_distrib)
  moreover have "slab_header_wf ?h" using assms(1) b(3) by (intro slab_header_wf_bitmap) simp_all
  moreover have "slot_bit ?h t \<longleftrightarrow> (if t = unat s then v else slot_bit h t)" if "t < 32576" for t
  proof -
    have "?i < 4072" using s by (simp add: less_mult_imp_div_less)
    have b1: "bit ?new (t mod 8) \<longleftrightarrow> (if t mod 8 = ?k then v else bit ?byte (t mod 8))"
      by (simp only: if_distrib [of "\<lambda>b. bit b (t mod 8)"] bit_set_clear) auto
    have "slot_bit ?h t \<longleftrightarrow> bit ((sh_allocation_bitmap h)[?i := ?new] ! (t div 8)) (t mod 8)"
      by (simp only: slot_bit_def slab_header_bitmap_select)
    also have "\<dots> \<longleftrightarrow> (if t div 8 = ?i then bit ?new (t mod 8) else slot_bit h t)"
      using \<open>?i < 4072\<close> b(3) by (simp only: nth_list_update slot_bit_def) auto
    also have "\<dots> \<longleftrightarrow> (if t = unat s then v else slot_bit h t)"
      using slot_index_split [of t "unat s"] by (simp only: b1 slot_bit_def) metis
    finally show ?thesis .
  qed
  ultimately show thesis by (rule that [OF _ _ slab_header_bitmap_select(2,3,5)])
qed

text \<open>Both loops of the search are one search over the slot numbers.\<close>

lemma find_append: "find P (xs @ ys) = (case find P xs of None \<Rightarrow> find P ys | Some x \<Rightarrow> Some x)"
  by (induction xs) auto

lemma u32_slot:
  assumes "i < 4072" "k < 8"
  shows "unat (of_nat i * 8 + of_nat k :: u32) = i * 8 + k"
proof -
  have "unat (of_nat (i * 8 + k) :: u32) = i * 8 + k"
    using assms by (simp only: unat_of_nat) simp
  then show ?thesis by simp
qed

lemma free_in_byte_find:
  "i < 4072 \<Longrightarrow> set ks \<subseteq> {..<8} \<Longrightarrow>
   free_in_byte c i b ks = map_option of_nat (find (\<lambda>s. \<not> bit b (s mod 8) \<and> s < unat c) (map (\<lambda>k. i * 8 + k) ks))"
proof (induction ks)
  case (Cons k ks)
  then have k: "k < 8" by simp
  have "of_nat i * 8 + of_nat k < c \<longleftrightarrow> i * 8 + k < unat c"
    using u32_slot [OF Cons.prems(1) k] by (simp add: word_less_nat_alt)
  with Cons k byte_and_single [of b k] show ?case by auto
qed simp

lemma byte_full: "(b :: byte) = 0xFF \<longleftrightarrow> (\<forall>k<8. bit b k)"
proof -
  have m: "(0xFF :: byte) = - 1" by simp
  have "bit (-1 :: byte) k \<longleftrightarrow> k < 8" for k by (simp add: bit_minus_1_iff possible_bit_def)
  then show ?thesis unfolding m by (auto simp: bit_eq_iff bit_imp_le_length possible_bit_def dest: bit_imp_le_length)
qed

lemma upt_add_map: "[n..<n + k] = map (\<lambda>j. n + j) [0..<k]"
  by (simp add: map_add_upt add.commute)

lemma free_in_bytes_find:
  "i + length bs \<le> 4072 \<Longrightarrow>
   free_in_bytes c i bs =
     map_option of_nat (find (\<lambda>s. \<not> bit (bs ! (s div 8 - i)) (s mod 8) \<and> s < unat c) [i * 8..<(i + length bs) * 8])"
proof (induction bs arbitrary: i)
  case (Cons b bs)
  let ?P = "\<lambda>s. \<not> bit ((b # bs) ! (s div 8 - i)) (s mod 8) \<and> s < unat c"
  have split: "[i * 8..<(i + length (b # bs)) * 8] = [i * 8..<i * 8 + 8] @ [Suc i * 8..<(Suc i + length bs) * 8]"
    using upt_add_eq_append [of "i * 8" "i * 8 + 8" "length bs * 8"] by (simp add: algebra_simps del: upt_Suc)
  have "find ?P [i * 8..<i * 8 + 8] = find (\<lambda>s. \<not> bit b (s mod 8) \<and> s < unat c) [i * 8..<i * 8 + 8]"
    by (rule find_cong) auto
  moreover have "find ?P [Suc i * 8..<(Suc i + length bs) * 8] =
      find (\<lambda>s. \<not> bit (bs ! (s div 8 - Suc i)) (s mod 8) \<and> s < unat c) [Suc i * 8..<(Suc i + length bs) * 8]"
  proof (rule find_cong [OF refl])
    fix s
    assume "s \<in> set [Suc i * 8..<(Suc i + length bs) * 8]"
    then have "Suc i \<le> s div 8" by (simp add: less_eq_div_iff_mult_less_eq)
    then have "(b # bs) ! (s div 8 - i) = bs ! (s div 8 - Suc i)" by (simp add: nth_Cons' Suc_diff_le)
    then show "?P s \<longleftrightarrow> \<not> bit (bs ! (s div 8 - Suc i)) (s mod 8) \<and> s < unat c" by simp
  qed
  moreover have "free_in_byte c i b [0..<8] =
      map_option of_nat (find (\<lambda>s. \<not> bit b (s mod 8) \<and> s < unat c) [i * 8..<i * 8 + 8])"
    using Cons.prems by (subst upt_add_map, subst free_in_byte_find) auto
  moreover have "free_in_byte c i b [0..<8] = None" if "b = 0xFF"
  proof -
    have "bit b (s mod 8)" for s :: nat using that byte_full [of b] by simp
    with Cons.prems show ?thesis by (subst free_in_byte_find) (auto simp: find_None_iff)
  qed
  ultimately show ?case
    using Cons.IH [of "Suc i"] Cons.prems by (simp only: split find_append free_in_bytes.simps) (auto split: option.split)
qed simp

lemma find_first_free_slot_spec:
  assumes "slab_header_wf h"
  shows "find_first_free_slot h =
    map_option of_nat (find (\<lambda>s. \<not> slot_bit h s) [0..<unat (sh_slot_count h)])"
proof -
  let ?n = "unat (sh_slot_count h)"
  note b = slab_header_wf_bounds [OF assms]
  have max: "unat ((sh_slot_count h + 7) div 8) = (?n + 7) div 8"
    using b(2) by (simp add: unat_div_distrib unat_word_ariths)
  let ?m = "(?n + 7) div 8"
  have m: "?m \<le> 4072" "?n \<le> ?m * 8" using b(2) by linarith+
  have "free_in_bytes (sh_slot_count h) 0 (take ?m (sh_allocation_bitmap h)) =
      map_option of_nat (find (\<lambda>s. \<not> bit (take ?m (sh_allocation_bitmap h) ! (s div 8 - 0)) (s mod 8) \<and> s < ?n) [0..<?m * 8])"
    using free_in_bytes_find [of 0 "take ?m (sh_allocation_bitmap h)"] m(1) b(3) by simp
  also have "find (\<lambda>s. \<not> bit (take ?m (sh_allocation_bitmap h) ! (s div 8 - 0)) (s mod 8) \<and> s < ?n) [0..<?m * 8] =
      find (\<lambda>s. \<not> slot_bit h s \<and> s < ?n) [0..<?m * 8]"
    by (rule find_cong) (auto simp: slot_bit_def less_mult_imp_div_less)
  also have "[0..<?m * 8] = [0..<?n] @ [?n..<?m * 8]"
    using m(2) by (metis le_add_diff_inverse upt_add_eq_append zero_le)
  also have "find (\<lambda>s. \<not> slot_bit h s \<and> s < ?n) ([0..<?n] @ [?n..<?m * 8]) = find (\<lambda>s. \<not> slot_bit h s \<and> s < ?n) [0..<?n]"
  proof -
    have "find (\<lambda>s. \<not> slot_bit h s \<and> s < ?n) [?n..<?m * 8] = None" by (auto simp: find_None_iff)
    then show ?thesis by (simp add: find_append split: option.split)
  qed
  also have "\<dots> = find (\<lambda>s. \<not> slot_bit h s) [0..<?n]"
    by (rule find_cong) auto
  finally show ?thesis by (simp add: find_first_free_slot_def max)
qed


lemma find_upt_Some:
  "find P [0..<n] = Some i \<longleftrightarrow> i < n \<and> P i \<and> (\<forall>j<i. \<not> P j)"
proof
  assume "find P [0..<n] = Some i"
  then obtain k where "k < n" "P k" "i = k" "\<forall>j<k. \<not> P j" by (auto simp: find_Some_iff)
  then show "i < n \<and> P i \<and> (\<forall>j<i. \<not> P j)" by simp
qed (auto simp: find_Some_iff)

text \<open>The same for the count: it is the number of set bits below the slot count.\<close>

lemma count_in_byte_filter:
  "i < 4072 \<Longrightarrow> set ks \<subseteq> {..<8} \<Longrightarrow>
   count_in_byte c i b ks = of_nat (length (filter (\<lambda>s. bit b (s mod 8) \<and> s < unat c) (map (\<lambda>k. i * 8 + k) ks)))"
proof (induction ks)
  case (Cons k ks)
  then have k: "k < 8" by simp
  have "of_nat i * 8 + of_nat k < c \<longleftrightarrow> i * 8 + k < unat c"
    using u32_slot [OF Cons.prems(1) k] by (simp add: word_less_nat_alt)
  with Cons k byte_and_single [of b k] show ?case by auto
qed simp

lemma count_in_bytes_filter:
  "i + length bs \<le> 4072 \<Longrightarrow>
   count_in_bytes c i bs =
     of_nat (length (filter (\<lambda>s. bit (bs ! (s div 8 - i)) (s mod 8) \<and> s < unat c) [i * 8..<(i + length bs) * 8]))"
proof (induction bs arbitrary: i)
  case (Cons b bs)
  let ?P = "\<lambda>s. bit ((b # bs) ! (s div 8 - i)) (s mod 8) \<and> s < unat c"
  have split: "[i * 8..<(i + length (b # bs)) * 8] = [i * 8..<i * 8 + 8] @ [Suc i * 8..<(Suc i + length bs) * 8]"
    using upt_add_eq_append [of "i * 8" "i * 8 + 8" "length bs * 8"] by (simp add: algebra_simps del: upt_Suc)
  have "filter ?P [i * 8..<i * 8 + 8] = filter (\<lambda>s. bit b (s mod 8) \<and> s < unat c) [i * 8..<i * 8 + 8]"
    by (rule filter_cong) auto
  moreover have "filter ?P [Suc i * 8..<(Suc i + length bs) * 8] =
      filter (\<lambda>s. bit (bs ! (s div 8 - Suc i)) (s mod 8) \<and> s < unat c) [Suc i * 8..<(Suc i + length bs) * 8]"
  proof (rule filter_cong [OF refl])
    fix s
    assume "s \<in> set [Suc i * 8..<(Suc i + length bs) * 8]"
    then have "Suc i \<le> s div 8" by (simp add: less_eq_div_iff_mult_less_eq)
    then have "(b # bs) ! (s div 8 - i) = bs ! (s div 8 - Suc i)" by (simp add: nth_Cons' Suc_diff_le)
    then show "?P s \<longleftrightarrow> bit (bs ! (s div 8 - Suc i)) (s mod 8) \<and> s < unat c" by simp
  qed
  moreover have "count_in_byte c i b [0..<8] =
      of_nat (length (filter (\<lambda>s. bit b (s mod 8) \<and> s < unat c) [i * 8..<i * 8 + 8]))"
    using Cons.prems by (subst upt_add_map, subst count_in_byte_filter) auto
  moreover have "count_in_byte c i b [0..<8] = 0" if "b = 0"
    using that Cons.prems by (subst count_in_byte_filter) auto
  ultimately show ?case
    using Cons.IH [of "Suc i"] Cons.prems
    by (simp only: split filter_append length_append of_nat_add count_in_bytes.simps) auto
qed simp

lemma allocated_count_spec:
  assumes "slab_header_wf h"
  shows "unat (allocated_count h) = card {s. s < unat (sh_slot_count h) \<and> slot_bit h s}"
proof -
  let ?n = "unat (sh_slot_count h)"
  note b = slab_header_wf_bounds [OF assms]
  have max: "unat ((sh_slot_count h + 7) div 8) = (?n + 7) div 8"
    using b(2) by (simp add: unat_div_distrib unat_word_ariths)
  let ?m = "(?n + 7) div 8"
  let ?P = "\<lambda>s. bit (take ?m (sh_allocation_bitmap h) ! (s div 8 - 0)) (s mod 8) \<and> s < ?n"
  have m: "?m \<le> 4072" "?n \<le> ?m * 8" using b(2) by linarith+
  have "allocated_count h = of_nat (length (filter ?P [0..<?m * 8]))"
    using count_in_bytes_filter [of 0 "take ?m (sh_allocation_bitmap h)"] m(1) b(3)
    by (simp add: allocated_count_def max)
  moreover have "length (filter ?P [0..<?m * 8]) = card (set (filter ?P [0..<?m * 8]))"
    by (rule distinct_card [symmetric]) simp
  moreover have "set (filter ?P [0..<?m * 8]) = {s. s < ?n \<and> slot_bit h s}"
    using m(2) by (auto simp: slot_bit_def less_mult_imp_div_less)
  moreover have "card {s. s < ?n \<and> slot_bit h s} \<le> ?n"
    using card_mono [of "{..<?n}" "{s. s < ?n \<and> slot_bit h s}"] by auto
  ultimately show ?thesis using b(2) by (simp add: unat_of_nat take_bit_nat_eq_self)
qed

section \<open>The descriptor pool\<close>

definition fd_wf :: "extent_fd_pool \<Rightarrow> bool" where
  "fd_wf p \<longleftrightarrow> 1 \<le> fp_capacity p \<and> distinct (fp_lru_order p) \<and> set (fp_lru_order p) = fp_entries p \<and>
     length (fp_lru_order p) \<le> fp_capacity p"

lemma fd_pool_new_wf [simp]: "fd_wf (fd_pool_new n)"
  by (simp add: fd_wf_def fd_pool_new_def)

lemma fd_wf_card: "fd_wf p \<Longrightarrow> card (fp_entries p) = length (fp_lru_order p)"
  by (metis distinct_card fd_wf_def)

text \<open>A request moves its key to the back, and the front makes place when the pool is full.\<close>

lemma fd_get_or_open_ok:
  assumes "fd_wf p"
  shows "\<exists>q. fd_get_or_open k True p = (Ok (), q) \<and> fd_wf q \<and> fp_capacity q = fp_capacity p \<and> k \<in> fp_entries q \<and>
    fp_entries q \<subseteq> insert k (fp_entries p) \<and>
    fp_lru_order q = (let l = remove1 k (fp_lru_order p) @ [k] in drop (length l - fp_capacity p) l)"
proof (cases "k \<in> fp_entries p")
  case True
  with assms have "length (remove1 k (fp_lru_order p)) = length (fp_lru_order p) - 1" "0 < length (fp_lru_order p)"
    by (auto simp: fd_wf_def length_remove1 length_pos_if_in_set)
  with True assms show ?thesis
    by (auto simp: fd_get_or_open_def fd_wf_def Let_def)
next
  case False
  show ?thesis
  proof (cases "card (fp_entries p) < fp_capacity p")
    case True
    with False assms fd_wf_card [OF assms] show ?thesis
      by (auto simp: fd_get_or_open_def fd_wf_def Let_def remove1_idem)
  next
    case full: False
    with assms fd_wf_card [OF assms] have "length (fp_lru_order p) = fp_capacity p" "1 \<le> fp_capacity p"
      by (auto simp: fd_wf_def)
    then obtain x xs where "fp_lru_order p = x # xs" "Suc (length xs) = fp_capacity p"
      by (cases "fp_lru_order p") auto
    note lru = this
    let ?q = "p\<lparr> fp_entries := insert k (fp_entries p - {x}), fp_lru_order := xs @ [k] \<rparr>"
    have "fd_get_or_open k True p = (Ok (), ?q)"
      using full False lru by (simp add: fd_get_or_open_def)
    moreover have set: "fp_entries p = insert x (set xs)" "x \<notin> set xs" "distinct xs" "k \<notin> set xs" "k \<noteq> x"
      using assms lru False by (auto simp: fd_wf_def)
    moreover have "fd_wf ?q" using assms lru set by (simp add: fd_wf_def)
    ultimately show ?thesis
      using lru by (intro exI [of _ ?q]) (auto simp: Let_def remove1_idem simp flip: lru(2))
  qed
qed

lemma fd_get_or_open_wf: "fd_wf p \<Longrightarrow> fd_wf (snd (fd_get_or_open k ok p))"
proof (cases "ok \<or> k \<in> fp_entries p")
  case True
  assume "fd_wf p"
  then show ?thesis
    using fd_get_or_open_ok [of p k] True by (auto simp: fd_get_or_open_def)
next
  case False
  assume "fd_wf p"
  with False show ?thesis
    by (cases "fp_lru_order p") (auto simp: fd_get_or_open_def fd_wf_def)
qed

lemma fd_remove_wf: "fd_wf p \<Longrightarrow> fd_wf (fd_remove k p)"
  by (auto simp: fd_wf_def fd_remove_def length_remove1)

text \<open>The order of last use of the keys of a sequence of requests.\<close>

definition recency :: "extent_key list \<Rightarrow> extent_key list" where
  "recency ks = fold (\<lambda>k l. remove1 k l @ [k]) ks []"

definition fd_run :: "extent_key list \<Rightarrow> extent_fd_pool \<Rightarrow> extent_fd_pool" where
  "fd_run ks p = fold (\<lambda>k p. snd (fd_get_or_open k True p)) ks p"

lemma fd_run_snoc: "fd_run (ks @ [k]) p = snd (fd_get_or_open k True (fd_run ks p))"
  by (simp add: fd_run_def)

lemma recency_snoc: "recency (ks @ [k]) = remove1 k (recency ks) @ [k]"
  by (simp add: recency_def)

lemma recency_distinct: "distinct (recency ks)"
  by (induction ks rule: rev_induct) (simp_all add: recency_def)

lemma drop_suffix: "length ys = c \<Longrightarrow> drop (length (xs @ ys) - c) (xs @ ys) = drop (length ys - c) ys"
  by simp

lemma drop_recent:
  assumes "distinct r" "1 \<le> c"
  shows "(let l = remove1 k (drop (length r - c) r) @ [k] in drop (length l - c) l) =
    (let l = remove1 k r @ [k] in drop (length l - c) l)"
proof -
  obtain a b where r: "r = a @ b" "b = drop (length r - c) r" by (metis append_take_drop_id)
  have lb: "length b = min c (length r)" using r(2) by simp
  have d: "distinct a" "distinct b" "set a \<inter> set b = {}" using assms(1) r(1) by auto
  show ?thesis
  proof (cases "k \<in> set b")
    case True
    then have "k \<notin> set a" using d by auto
    then have "remove1 k r = a @ remove1 k b" using r(1) by (simp add: remove1_append)
    moreover have "length (remove1 k b @ [k]) = length b"
      using True length_pos_if_in_set [OF True] by (simp add: length_remove1)
    moreover have "a = [] \<or> length b = c"
    proof (cases "c \<le> length r")
      case False
      then have "length b = length r" using lb by simp
      then show ?thesis using r(1) by simp
    qed (use lb in simp)
    ultimately show ?thesis
      unfolding r(2) [symmetric] Let_def by (elim disjE) (simp_all only: append_Nil append_assoc drop_suffix)
  next
    case False
    then have rb: "remove1 k r = remove1 k a @ b" "remove1 k b = b" using r(1) by (auto simp: remove1_append remove1_idem)
    show ?thesis
    proof (cases "c \<le> length r")
      case True
      with lb have "length b = c" by simp
      then have l: "length (b @ [k]) - c = 1" "length (remove1 k a @ b @ [k]) - c = length (remove1 k a) + 1" by simp_all
      show ?thesis
        unfolding r(2) [symmetric] Let_def rb append_assoc l using assms(2) \<open>length b = c\<close> by (cases b) simp_all
    next
      case False
      then have "length b = length r" using lb by simp
      then have "r = b" using r(1) by simp
      then show ?thesis unfolding r(2) [symmetric] by (simp only:)
    qed
  qed
qed

section \<open>Properties\<close>

text \<open>the search for a free slot returns the lowest slot whose bit is clear, below the slot
  count, and none exactly when the extent is full.\<close>

theorem find_first_free_slot_lowest:
  assumes "slab_header_wf h"
  shows "(case find_first_free_slot h of
      None \<Rightarrow> is_full h \<and> (\<forall>s < unat (sh_slot_count h). slot_bit h s)
    | Some s \<Rightarrow> \<not> is_full h \<and> s < sh_slot_count h \<and> is_slot_allocated s h = Ok False \<and>
        (\<forall>t < s. is_slot_allocated t h = Ok True))"
proof -
  let ?n = "unat (sh_slot_count h)"
  have fulls: "is_full h \<longleftrightarrow> (\<forall>s < ?n. slot_bit h s)"
  proof -
    have "is_full h \<longleftrightarrow> card {..<?n} \<le> card {s. s < ?n \<and> slot_bit h s}"
      by (simp add: is_full_def word_le_nat_alt allocated_count_spec [OF assms])
    also have "\<dots> \<longleftrightarrow> {s. s < ?n \<and> slot_bit h s} = {..<?n}"
    proof
      assume "card {..<?n} \<le> card {s. s < ?n \<and> slot_bit h s}"
      then show "{s. s < ?n \<and> slot_bit h s} = {..<?n}" by (intro card_seteq) auto
    qed simp
    finally show ?thesis by auto
  qed
  show ?thesis
  proof (cases "find (\<lambda>s. \<not> slot_bit h s) [0..<?n]")
    case None
    then have "\<forall>s < ?n. slot_bit h s" by (auto simp: find_None_iff)
    with None fulls show ?thesis by (simp add: find_first_free_slot_spec [OF assms])
  next
    case (Some i)
    then have i: "i < ?n" "\<not> slot_bit h i" "\<forall>j<i. slot_bit h j" by (auto simp: find_upt_Some)
    then have u: "unat (of_nat i :: u32) = i"
      using slab_header_wf_bounds(2) [OF assms] by (simp add: unat_of_nat take_bit_nat_eq_self)
    then have "of_nat i < sh_slot_count h" using i(1) by (simp add: word_less_nat_alt)
    moreover have "is_slot_allocated t h = Ok True" if "t < of_nat i" for t
      using that u i by (simp add: is_slot_allocated_bit word_less_nat_alt)
    ultimately show ?thesis
      using i u fulls by (auto simp: find_first_free_slot_spec [OF assms] Some is_slot_allocated_bit)
  qed
qed

theorem find_first_free_slot_lowest_witness:
  "\<exists>h s. slab_header_new 0 7 1024 = Ok h \<and> find_first_free_slot h = Some s \<and> is_slot_allocated s h = Ok False"
proof -
  obtain h where h: "slab_header_new 0 7 1024 = Ok h"
    using slab_header_new_ok [of 0 1024 7] by (auto simp: MAX_SIZE_CLASS_ID_def MAX_SLOTS_PER_EXTENT_def)
  then have wf: "slab_header_wf h" "sh_slot_count h = 1024" "\<not> slot_bit h 0" using slab_header_new_wf by auto
  show ?thesis
    using find_first_free_slot_lowest [OF wf(1)] wf h by (cases "find_first_free_slot h") auto
qed

text \<open>after any sequence of successful requests the pool holds exactly the most recently used
  keys, at most its capacity of them, in the order of their last use.\<close>

theorem fd_pool_keeps_most_recent:
  "(let p = fd_run ks (fd_pool_new n); r = recency ks in
     fp_lru_order p = drop (length r - max n 1) r \<and> fp_entries p = set (fp_lru_order p) \<and>
     fd_open_count p = min (length r) (max n 1))"
proof -
  have "fd_wf (fd_run ks (fd_pool_new n)) \<and> fp_capacity (fd_run ks (fd_pool_new n)) = max n 1 \<and>
      fp_lru_order (fd_run ks (fd_pool_new n)) = drop (length (recency ks) - max n 1) (recency ks)"
  proof (induction ks rule: rev_induct)
    case Nil
    show ?case by (simp add: fd_run_def recency_def) (simp add: fd_pool_new_def)
  next
    case (snoc k ks)
    let ?p = "fd_run ks (fd_pool_new n)"
    obtain q where q: "fd_get_or_open k True ?p = (Ok (), q)" "fd_wf q" "fp_capacity q = fp_capacity ?p"
        "fp_lru_order q = (let l = remove1 k (fp_lru_order ?p) @ [k] in drop (length l - fp_capacity ?p) l)"
      using fd_get_or_open_ok [of ?p k] snoc by blast
    then show ?case
      using snoc drop_recent [OF recency_distinct [of ks], of "max n 1" k] by (simp add: fd_run_snoc recency_snoc Let_def)
  qed
  moreover from this have "fd_open_count (fd_run ks (fd_pool_new n)) = min (length (recency ks)) (max n 1)"
    using fd_wf_card [of "fd_run ks (fd_pool_new n)"] by (simp add: fd_open_count_def min_def)
  ultimately show ?thesis unfolding Let_def fd_wf_def by metis
qed

end
