(* ===== verification/Text_Numbers.thy ===== *)
theory Text_Numbers
  imports Prelude "HOL-Library.Char_ord"
begin

text \<open>
  How the standard library prints and reads unsigned integers, used by the file names of
  the slab store and by tile coordinates: \<^verbatim>\<open>format!("{n}")\<close> and \<^verbatim>\<open>format!("{n:07x}")\<close>
  print positional digits, \<^verbatim>\<open>from_str_radix\<close> and \<^verbatim>\<open>str::parse\<close> read them with an
  optional plus sign, any leading zeros and a check against the type's maximum.
\<close>

definition digit_char :: "nat \<Rightarrow> char" where
  "digit_char d = char_of (if d < 10 then 48 + d else 87 + d)"

definition char_digit :: "nat \<Rightarrow> char \<Rightarrow> nat option" where
  "char_digit b c =
    (let n = of_char c :: nat;
         d = (if 48 \<le> n \<and> n \<le> 57 then n - 48
              else if 97 \<le> n \<and> n \<le> 122 then n - 87
              else if 65 \<le> n \<and> n \<le> 90 then n - 55 else b)
     in if d < b then Some d else None)"

function format_radix :: "nat \<Rightarrow> nat \<Rightarrow> string" where
  "format_radix b n = (if n < b \<or> b < 2 then [digit_char n] else format_radix b (n div b) @ [digit_char (n mod b)])"
  by auto
termination by (relation "measure snd") auto

declare format_radix.simps [simp del]

definition pad_zeros :: "nat \<Rightarrow> string \<Rightarrow> string" where
  "pad_zeros w s = replicate (w - length s) (CHR ''0'') @ s"

fun radix_value :: "nat \<Rightarrow> nat \<Rightarrow> nat \<Rightarrow> string \<Rightarrow> nat option" where
  "radix_value b max_value acc [] = Some acc"
| "radix_value b max_value acc (c # cs) =
    (case char_digit b c of
       None \<Rightarrow> None
     | Some d \<Rightarrow> if acc * b + d \<le> max_value then radix_value b max_value (acc * b + d) cs else None)"

definition parse_radix :: "nat \<Rightarrow> nat \<Rightarrow> string \<Rightarrow> nat option" where
  "parse_radix b max_value s =
    (case s of
       [] \<Rightarrow> None
     | c # cs \<Rightarrow> if c = CHR ''+'' \<and> cs \<noteq> [] then radix_value b max_value 0 cs else radix_value b max_value 0 s)"

text \<open>\<^verbatim>\<open>{}\<close> and \<^verbatim>\<open>{:04x}\<close> of a \<^verbatim>\<open>u32\<close>.\<close>

definition decimal :: "u32 \<Rightarrow> string" where
  "decimal n = format_radix 10 (unat n)"

definition hex4 :: "u32 \<Rightarrow> string" where
  "hex4 n = pad_zeros 4 (format_radix 16 (unat n))"

section \<open>Reading what was printed\<close>

lemma char_digit_char: "d < b \<Longrightarrow> b \<le> 36 \<Longrightarrow> char_digit b (digit_char d) = Some d"
  by (auto simp: char_digit_def digit_char_def Let_def)

lemma digit_char_not_plus: "d < 36 \<Longrightarrow> digit_char d \<noteq> CHR ''+''"
proof
  assume "d < 36" "digit_char d = CHR ''+''"
  then have "of_char (digit_char d) = (43 :: nat)" by simp
  with \<open>d < 36\<close> show False by (auto simp: digit_char_def split: if_splits)
qed

lemma radix_value_append:
  "radix_value b m acc (xs @ ys) = (case radix_value b m acc xs of None \<Rightarrow> None | Some v \<Rightarrow> radix_value b m v ys)"
  by (induction xs arbitrary: acc) (auto split: option.split)

lemma radix_value_format:
  "2 \<le> b \<Longrightarrow> b \<le> 36 \<Longrightarrow> n \<le> m \<Longrightarrow> radix_value b m 0 (format_radix b n) = Some n"
proof (induction b n rule: format_radix.induct)
  case (1 b n)
  show ?case
  proof (cases "n < b \<or> b < 2")
    case True
    with 1 show ?thesis by (simp add: format_radix.simps [of b n] char_digit_char)
  next
    case False
    have "n div b \<le> m" using 1(4) div_le_dividend [of n b] by linarith
    with 1 False show ?thesis
      by (simp add: format_radix.simps [of b n] radix_value_append char_digit_char)
  qed
qed

lemma radix_value_zeros: "0 < b \<Longrightarrow> radix_value b m 0 (replicate k (CHR ''0'') @ s) = radix_value b m 0 s"
  by (induction k) (auto simp: char_digit_def Let_def)

lemma format_radix_nonempty [simp]: "format_radix b n \<noteq> []"
  by (subst format_radix.simps) simp

lemma hd_format_radix: "b \<le> 36 \<Longrightarrow> 2 \<le> b \<Longrightarrow> hd (format_radix b n) \<noteq> CHR ''+''"
proof (induction b n rule: format_radix.induct)
  case (1 b n)
  then show ?case by (simp add: format_radix.simps [of b n] digit_char_not_plus)
qed

lemma parse_radix_padded:
  assumes "2 \<le> b" "b \<le> 36" "n \<le> m"
  shows "parse_radix b m (pad_zeros w (format_radix b n)) = Some n"
proof -
  let ?s = "pad_zeros w (format_radix b n)"
  have v: "radix_value b m 0 ?s = Some n"
    using assms by (simp add: pad_zeros_def radix_value_zeros radix_value_format)
  have "?s \<noteq> []" by (simp add: pad_zeros_def)
  moreover have "hd ?s \<noteq> CHR ''+''"
    using hd_format_radix [OF assms(2,1)] by (simp add: pad_zeros_def hd_append)
  ultimately show ?thesis using v by (cases ?s) (auto simp: parse_radix_def)
qed

lemma parse_format_radix: "2 \<le> b \<Longrightarrow> b \<le> 36 \<Longrightarrow> n \<le> m \<Longrightarrow> parse_radix b m (format_radix b n) = Some n"
  using parse_radix_padded [of b n m 0] by (simp add: pad_zeros_def)

lemma padded_inject:
  assumes "2 \<le> b" "b \<le> 36"
  shows "pad_zeros w (format_radix b n) = pad_zeros w (format_radix b k) \<longleftrightarrow> n = k"
proof
  assume "pad_zeros w (format_radix b n) = pad_zeros w (format_radix b k)"
  moreover have "parse_radix b (max n k) (pad_zeros w (format_radix b n)) = Some n"
    "parse_radix b (max n k) (pad_zeros w (format_radix b k)) = Some k"
    by (rule parse_radix_padded [OF assms], simp)+
  ultimately show "n = k" by (metis option.inject)
qed simp

lemma format_inject: "2 \<le> b \<Longrightarrow> b \<le> 36 \<Longrightarrow> format_radix b n = format_radix b k \<longleftrightarrow> n = k"
  using padded_inject [of b 0 n k] by (simp add: pad_zeros_def)

text \<open>The characters printed are digits of the base.\<close>

lemma format_radix_chars: "2 \<le> b \<Longrightarrow> set (format_radix b n) \<subseteq> digit_char ` {..<b}"
proof (induction b n rule: format_radix.induct)
  case (1 b n)
  then have "n mod b < b" by simp
  with 1 show ?case by (cases "n < b \<or> b < 2") (simp_all add: format_radix.simps [of b n])
qed

end
