(* ===== verification/Engine_Slab.thy ===== *)
theory Engine_Slab
  imports Engine_Slab_Header Text_Numbers Files
begin

text \<open>
  The slab manager, \<^verbatim>\<open>QuantizedSlabManager\<close> of \<^verbatim>\<open>crates/s3a-engine/src/slab.rs\<close>: the
  extent files below the base directory, the slots handed out, freed, written and read.
  The files are part of the state, under the relative paths the manager gives them; the
  operating system's calls on an open file succeed, and opening a file fails only when its
  directory is missing.  The abstract view is the set of allocated slots and the bytes
  behind the header sector.
\<close>

section \<open>State\<close>

text \<open>A path is the class directory and the file name, both relative to \<^verbatim>\<open>base_dir\<close>.\<close>

type_synonym slab_path = "string \<times> string"

record slab_manager =
  sm_slots_per_extent :: u32
  sm_fd_pool :: extent_fd_pool
  sm_active_extents :: "u8 \<Rightarrow> u32 option"
  sm_dirs :: "string set"
  sm_files :: "slab_path \<Rightarrow> byte list option"

definition class_dir :: "u8 \<Rightarrow> string" where
  "class_dir class_id = ''slabs/class_'' @ format_radix 10 (unat class_id)"

definition extent_name :: "u32 \<Rightarrow> string" where
  "extent_name extent_id = ''extent_'' @ pad_zeros 7 (format_radix 16 (unat extent_id)) @ ''.slab''"

definition extent_path :: "u8 \<Rightarrow> u32 \<Rightarrow> slab_path" where
  "extent_path class_id extent_id = (class_dir class_id, extent_name extent_id)"

section \<open>Opening the store\<close>

definition extent_of_name :: "string \<Rightarrow> u32 option" where
  "extent_of_name name_str =
    (if take 7 name_str = ''extent_'' \<and> 5 \<le> length name_str \<and> drop (length name_str - 5) name_str = ''.slab''
     then map_option of_nat (parse_radix 16 (2 ^ 32 - 1) (take (length name_str - 5 - 7) (drop 7 name_str)))
     else None)"

definition scan_extents :: "string list \<Rightarrow> u32 \<times> bool" where
  "scan_extents entries =
    fold (\<lambda>name_str (max_extent, found_any).
      case extent_of_name name_str of
        Some ext_id \<Rightarrow> (max max_extent ext_id, True)
      | None \<Rightarrow> (max_extent, found_any)) entries (0, False)"

text \<open>\<open>read_dir\<close> is what the operating system lists for a directory, in its order.\<close>

definition slab_with_options ::
  "(string \<Rightarrow> string list option) \<Rightarrow> nat \<Rightarrow> u32 \<Rightarrow> string set \<Rightarrow> (slab_path \<Rightarrow> byte list option) \<Rightarrow> slab_manager" where
  "slab_with_options read_dir pool_capacity slots_per_extent dirs files =
    \<lparr> sm_slots_per_extent = max (min slots_per_extent MAX_SLOTS_PER_EXTENT) 1,
      sm_fd_pool = fd_pool_new pool_capacity,
      sm_active_extents = (\<lambda>class_id.
        if class_id \<le> MAX_SIZE_CLASS_ID \<and> class_dir class_id \<in> dirs then
          case read_dir (class_dir class_id) of
            None \<Rightarrow> None
          | Some entries \<Rightarrow>
              (case scan_extents entries of (max_extent, found_any) \<Rightarrow> if found_any then Some max_extent else None)
        else None),
      sm_dirs = dirs, sm_files = files \<rparr>"

section \<open>Extent files\<close>

text \<open>\<^verbatim>\<open>get_or_open\<close> with its effect on the disk: \<^verbatim>\<open>create(true)\<close> makes an empty file.\<close>

definition open_extent :: "u8 \<Rightarrow> u32 \<Rightarrow> slab_manager \<Rightarrow> (slab_error, unit) result \<times> slab_manager" where
  "open_extent class_id extent_id m =
    (let path = extent_path class_id extent_id in
     case fd_get_or_open (class_id, extent_id) (sm_files m path \<noteq> None \<or> fst path \<in> sm_dirs m) (sm_fd_pool m) of
       (Err e, pool) \<Rightarrow> (Err (SlabIo e), m\<lparr> sm_fd_pool := pool \<rparr>)
     | (Ok _, pool) \<Rightarrow>
         (Ok (), m\<lparr> sm_fd_pool := pool,
                    sm_files := (if sm_files m path = None then (sm_files m)(path \<mapsto> []) else sm_files m) \<rparr>))"

text \<open>\<^verbatim>\<open>seek\<close> and \<^verbatim>\<open>write_all\<close>: a write past the end fills the gap with zeros, an empty
  write changes nothing.\<close>

definition extent_contents :: "u8 \<Rightarrow> u32 \<Rightarrow> slab_manager \<Rightarrow> byte list" where
  "extent_contents class_id extent_id m = (case sm_files m (extent_path class_id extent_id) of None \<Rightarrow> [] | Some bs \<Rightarrow> bs)"

definition write_extent :: "u8 \<Rightarrow> u32 \<Rightarrow> nat \<Rightarrow> byte list \<Rightarrow> slab_manager \<Rightarrow> slab_manager" where
  "write_extent class_id extent_id offset data m =
    m\<lparr> sm_files := (sm_files m)(extent_path class_id extent_id \<mapsto> file_write offset data (extent_contents class_id extent_id m)) \<rparr>"

text \<open>\<^verbatim>\<open>read_exact\<close> of the header at offset 0, and its validation.\<close>

definition load_header :: "u8 \<Rightarrow> u32 \<Rightarrow> slab_manager \<Rightarrow> (slab_error, slab_extent_header) result" where
  "load_header class_id extent_id m =
    (let contents = extent_contents class_id extent_id m in
     if length contents < SLAB_HEADER_SIZE then Err (SlabIo UnexpectedEof)
     else let header = slab_header_of_bytes contents in
          case slab_header_validate header of Err e \<Rightarrow> Err e | Ok _ \<Rightarrow> Ok header)"

section \<open>Allocating\<close>

definition slab_address :: "u8 \<Rightarrow> u32 \<Rightarrow> u32 \<Rightarrow> (slab_error, tile_address) result" where
  "slab_address class_id extent_id slot_index =
    (case address_new class_id extent_id slot_index of Err e \<Rightarrow> Err (SlabAddress e) | Ok a \<Rightarrow> Ok a)"

text \<open>A round of the loop: the value returned, or \<open>None\<close> to go on with the next extent.\<close>

definition alloc_round ::
  "u8 \<Rightarrow> u32 \<Rightarrow> slab_manager \<Rightarrow> (slab_error, tile_address) result option \<times> slab_manager" where
  "alloc_round class_id extent_id m =
    (let path = extent_path class_id extent_id in
     if sm_files m path = None then
       let m = m\<lparr> sm_dirs := insert (fst path) (sm_dirs m) \<rparr> in
       case slab_header_new class_id extent_id (sm_slots_per_extent m) of
         Err e \<Rightarrow> (Some (Err e), m)
       | Ok header \<Rightarrow>
       case set_slot_allocated 0 True header of
         Err e \<Rightarrow> (Some (Err e), m)
       | Ok header \<Rightarrow>
       case open_extent class_id extent_id m of
         (Err e, m) \<Rightarrow> (Some (Err e), m)
       | (Ok _, m) \<Rightarrow>
       let m = write_extent class_id extent_id 0 (slab_header_bytes header) m;
           m = m\<lparr> sm_active_extents := (sm_active_extents m)(class_id \<mapsto> extent_id) \<rparr>
       in (Some (slab_address class_id extent_id 0), m)
     else
       case open_extent class_id extent_id m of
         (Err e, m) \<Rightarrow> (Some (Err e), m)
       | (Ok _, m) \<Rightarrow>
       case load_header class_id extent_id m of
         Err e \<Rightarrow> (Some (Err e), m)
       | Ok header \<Rightarrow>
       case find_first_free_slot header of
         Some free_slot \<Rightarrow>
           (case set_slot_allocated free_slot True header of
              Err e \<Rightarrow> (Some (Err e), m)
            | Ok header \<Rightarrow>
                (Some (slab_address class_id extent_id free_slot),
                 write_extent class_id extent_id 0 (slab_header_bytes header) m))
       | None \<Rightarrow> (None, m\<lparr> sm_active_extents := (sm_active_extents m)(class_id \<mapsto> extent_id + 1) \<rparr>))"

partial_function (option) alloc_loop ::
  "u8 \<Rightarrow> u32 \<Rightarrow> slab_manager \<Rightarrow> ((slab_error, tile_address) result \<times> slab_manager) option" where
  "alloc_loop class_id extent_id m =
    (case alloc_round class_id extent_id m of
       (Some r, m) \<Rightarrow> Some (r, m)
     | (None, m) \<Rightarrow> alloc_loop class_id (extent_id + 1) m)"

definition allocate_slot ::
  "nat \<Rightarrow> slab_manager \<Rightarrow> ((slab_error, tile_address) result \<times> slab_manager) option" where
  "allocate_slot payload_len m =
    (case select_size_class payload_len of
       None \<Rightarrow> Some (Err (PayloadTooLarge payload_len MAX_SLAB_PAYLOAD_SIZE), m)
     | Some class_id \<Rightarrow>
         (case sm_active_extents m class_id of
            Some extent_id \<Rightarrow> alloc_loop class_id extent_id m
          | None \<Rightarrow> alloc_loop class_id 0 (m\<lparr> sm_active_extents := (sm_active_extents m)(class_id \<mapsto> 0) \<rparr>)))"

section \<open>Freeing, writing and reading\<close>

definition free_slot :: "tile_address \<Rightarrow> slab_manager \<Rightarrow> (slab_error, unit) result \<times> slab_manager" where
  "free_slot address m =
    (let class_id = addr_size_class_id address; extent_id = addr_extent_id address; slot_index = addr_slot_index address in
     if sm_files m (extent_path class_id extent_id) = None then (Err (SlabIo NotFound), m)
     else
       case open_extent class_id extent_id m of
         (Err e, m) \<Rightarrow> (Err e, m)
       | (Ok _, m) \<Rightarrow>
       case load_header class_id extent_id m of
         Err e \<Rightarrow> (Err e, m)
       | Ok header \<Rightarrow>
       case is_slot_allocated slot_index header of
         Err e \<Rightarrow> (Err e, m)
       | Ok False \<Rightarrow> (Err (SlotNotAllocated slot_index), m)
       | Ok True \<Rightarrow>
       case set_slot_allocated slot_index False header of
         Err e \<Rightarrow> (Err e, m)
       | Ok header \<Rightarrow> (Ok (), write_extent class_id extent_id 0 (slab_header_bytes header) m))"

definition write_slot :: "tile_address \<Rightarrow> byte list \<Rightarrow> slab_manager \<Rightarrow> (slab_error, unit) result \<times> slab_manager" where
  "write_slot address data m =
    (let class_id = addr_size_class_id address in
     case size_class_bytes class_id of
       None \<Rightarrow> (Err (InvalidSizeClass class_id), m)
     | Some slot_size \<Rightarrow>
     if length data > unat slot_size then (Err (DataExceedsSlotSize (length data) (unat slot_size)), m)
     else
       case physical_offset address of
         Err e \<Rightarrow> (Err (SlabAddress e), m)
       | Ok offset \<Rightarrow>
       case open_extent class_id (addr_extent_id address) m of
         (Err e, m) \<Rightarrow> (Err e, m)
       | (Ok _, m) \<Rightarrow> (Ok (), write_extent class_id (addr_extent_id address) (unat offset) data m))"

text \<open>The result is the bytes stored into the front of a buffer of \<open>out_len\<close> bytes.\<close>

definition read_slot :: "tile_address \<Rightarrow> nat \<Rightarrow> slab_manager \<Rightarrow> (slab_error, byte list) result \<times> slab_manager" where
  "read_slot address out_len m =
    (let class_id = addr_size_class_id address in
     case size_class_bytes class_id of
       None \<Rightarrow> (Err (InvalidSizeClass class_id), m)
     | Some slot_size \<Rightarrow>
     let to_read = min (unat slot_size) out_len in
     case physical_offset address of
       Err e \<Rightarrow> (Err (SlabAddress e), m)
     | Ok offset \<Rightarrow>
     case open_extent class_id (addr_extent_id address) m of
       (Err e, m) \<Rightarrow> (Err e, m)
     | (Ok _, m) \<Rightarrow>
     let contents = extent_contents class_id (addr_extent_id address) m; file_len = length contents in
     if unat offset \<ge> file_len then (Ok [], m)
     else let available = file_len - unat offset; to_read = min to_read available
          in (Ok (window (unat offset) to_read contents), m))"

definition read_header :: "u8 \<Rightarrow> u32 \<Rightarrow> slab_manager \<Rightarrow> (slab_error, slab_extent_header) result \<times> slab_manager" where
  "read_header class_id extent_id m =
    (case open_extent class_id extent_id m of
       (Err e, m) \<Rightarrow> (Err e, m)
     | (Ok _, m) \<Rightarrow> (load_header class_id extent_id m, m))"

section \<open>Paths\<close>

lemma class_dir_inject [simp]: "class_dir c = class_dir c' \<longleftrightarrow> c = c'"
  by (simp add: class_dir_def format_inject word_unat_eq_iff)

lemma extent_name_inject [simp]: "extent_name e = extent_name e' \<longleftrightarrow> e = e'"
  by (simp add: extent_name_def padded_inject word_unat_eq_iff)

lemma extent_path_inject [simp]: "extent_path c e = extent_path c' e' \<longleftrightarrow> c = c' \<and> e = e'"
  by (simp add: extent_path_def)

lemma fst_extent_path [simp]: "fst (extent_path c e) = class_dir c"
  by (simp add: extent_path_def)

lemma extent_of_extent_name [simp]: "extent_of_name (extent_name e) = Some e"
proof -
  have "unat e < 2 ^ LENGTH(32)" by (rule unsigned_less)
  then have "unat e \<le> 2 ^ 32 - 1" by simp
  then have "parse_radix 16 (2 ^ 32 - 1) (pad_zeros 7 (format_radix 16 (unat e))) = Some (unat e)"
    by (intro parse_radix_padded) simp_all
  then show ?thesis by (simp add: extent_of_name_def extent_name_def)
qed

section \<open>The abstract view\<close>

definition extent_ok :: "u8 \<Rightarrow> u32 \<Rightarrow> byte list \<Rightarrow> bool" where
  "extent_ok c e bs \<longleftrightarrow> 4096 \<le> length bs \<and> slab_header_wf (slab_header_of_bytes bs) \<and>
     sh_extent_id (slab_header_of_bytes bs) = e \<and> sh_size_class_id (slab_header_of_bytes bs) = c"

definition slab_wf :: "slab_manager \<Rightarrow> bool" where
  "slab_wf m \<longleftrightarrow> 0 < sm_slots_per_extent m \<and> sm_slots_per_extent m \<le> MAX_SLOTS_PER_EXTENT \<and>
     fd_wf (sm_fd_pool m) \<and>
     (\<forall>c e. (c, e) \<in> fp_entries (sm_fd_pool m) \<longrightarrow> sm_files m (extent_path c e) \<noteq> None) \<and>
     (\<forall>c e bs. sm_files m (extent_path c e) = Some bs \<longrightarrow> extent_ok c e bs \<and> class_dir c \<in> sm_dirs m)"

type_synonym slot_key = "u8 \<times> u32 \<times> nat"

definition allocated_slots :: "slab_manager \<Rightarrow> slot_key set" where
  "allocated_slots m = {(c, e, s). \<exists>bs. sm_files m (extent_path c e) = Some bs \<and>
     s < unat (sh_slot_count (slab_header_of_bytes bs)) \<and> slot_bit (slab_header_of_bytes bs) s}"

definition extent_data :: "slab_manager \<Rightarrow> u8 \<Rightarrow> u32 \<Rightarrow> byte list" where
  "extent_data m c e = drop 4096 (extent_contents c e m)"

definition address_key :: "tile_address \<Rightarrow> slot_key" where
  "address_key a = (addr_size_class_id a, addr_extent_id a, unat (addr_slot_index a))"

lemma slab_wf_file:
  "slab_wf m \<Longrightarrow> sm_files m (extent_path c e) = Some bs \<Longrightarrow> extent_ok c e bs \<and> class_dir c \<in> sm_dirs m"
  by (auto simp: slab_wf_def)

lemma extent_contents_file: "sm_files m (extent_path c e) = Some bs \<Longrightarrow> extent_contents c e m = bs"
  by (simp add: extent_contents_def)

text \<open>What opening an extent does: the pool changes, a missing file becomes an empty one.\<close>

definition opened :: "u8 \<Rightarrow> u32 \<Rightarrow> slab_manager \<Rightarrow> slab_manager \<Rightarrow> bool" where
  "opened c e m n \<longleftrightarrow> fd_wf (sm_fd_pool n) \<and> fp_entries (sm_fd_pool n) \<subseteq> insert (c, e) (fp_entries (sm_fd_pool m)) \<and>
     sm_slots_per_extent n = sm_slots_per_extent m \<and> sm_dirs n = sm_dirs m \<and> sm_active_extents n = sm_active_extents m \<and>
     sm_files n = (if sm_files m (extent_path c e) = None then (sm_files m)(extent_path c e \<mapsto> []) else sm_files m)"

lemma open_extent_opened:
  assumes "slab_wf m" "class_dir c \<in> sm_dirs m"
  obtains n where "open_extent c e m = (Ok (), n)" "opened c e m n"
proof -
  have "fd_wf (sm_fd_pool m)" using assms(1) by (simp add: slab_wf_def)
  then obtain q where q: "fd_get_or_open (c, e) True (sm_fd_pool m) = (Ok (), q)" "fd_wf q"
      "fp_entries q \<subseteq> insert (c, e) (fp_entries (sm_fd_pool m))"
    using fd_get_or_open_ok by blast
  with assms(2) show thesis by (intro that) (auto simp: open_extent_def opened_def Let_def)
qed

lemma view_files:
  "sm_files n = sm_files m \<Longrightarrow> allocated_slots n = allocated_slots m \<and> extent_data n = extent_data m"
  by (simp add: allocated_slots_def extent_data_def [abs_def] extent_contents_def)

lemma opened_existing:
  assumes "opened c e m n" "slab_wf m" "sm_files m (extent_path c e) \<noteq> None"
  shows "slab_wf n" "sm_files n = sm_files m" "allocated_slots n = allocated_slots m" "extent_data n = extent_data m"
proof -
  show f: "sm_files n = sm_files m" using assms(1,3) by (simp add: opened_def)
  show "slab_wf n" using assms unfolding slab_wf_def opened_def by auto
  show "allocated_slots n = allocated_slots m" "extent_data n = extent_data m"
    using view_files [OF f] by simp_all
qed

section \<open>Rewriting a header\<close>

lemma slab_header_of_bytes_append:
  "length hb = 4096 \<Longrightarrow> slab_header_of_bytes (hb @ rest) = slab_header_of_bytes hb"
  by (simp add: slab_header_of_bytes_def window_append_inside nth_append)

lemma slab_header_wf_shape: "slab_header_wf h \<Longrightarrow> slab_header_shape h"
  by (simp add: slab_header_wf_def)

lemma file_write_header:
  assumes "slab_header_wf h" "bs = [] \<or> 4096 \<le> length bs"
  shows "file_write 0 (slab_header_bytes h) bs = slab_header_bytes h @ drop 4096 bs"
  using length_slab_header_bytes [OF slab_header_wf_shape [OF assms(1)]] assms(2)
  by (auto simp: file_write_def patch_def)

text \<open>Replacing the header of an extent replaces its slots and nothing else.\<close>

definition slots_of :: "u8 \<Rightarrow> u32 \<Rightarrow> slab_extent_header \<Rightarrow> slot_key set" where
  "slots_of c e h = {(c', e', s). c' = c \<and> e' = e \<and> s < unat (sh_slot_count h) \<and> slot_bit h s}"

lemma slots_of_allocated:
  assumes "sm_files m (extent_path c e) = Some bs"
  shows "(c, e, s) \<in> allocated_slots m \<longleftrightarrow> (c, e, s) \<in> slots_of c e (slab_header_of_bytes bs)"
  using assms by (simp add: allocated_slots_def slots_of_def)

lemma write_header:
  assumes op: "opened c e m n" "slab_wf m" "class_dir c \<in> sm_dirs m"
    and h: "slab_header_wf h" "sh_extent_id h = e" "sh_size_class_id h = c"
  defines "w \<equiv> write_extent c e 0 (slab_header_bytes h) n"
  shows "slab_wf w" "extent_data w = extent_data m"
    "allocated_slots w = {k \<in> allocated_slots m. fst k \<noteq> c \<or> fst (snd k) \<noteq> e} \<union> slots_of c e h"
proof -
  let ?hb = "slab_header_bytes h"
  have lhb: "length ?hb = 4096" using h(1) by (simp add: slab_header_wf_shape)
  have "extent_contents c e n = [] \<or> 4096 \<le> length (extent_contents c e n)"
    using op slab_wf_file [OF op(2), of c e]
    by (auto simp: extent_contents_def extent_ok_def opened_def split: option.split)
  then have fw: "file_write 0 ?hb (extent_contents c e n) = ?hb @ drop 4096 (extent_contents c e n)"
    by (rule file_write_header [OF h(1)])
  have hdr: "slab_header_of_bytes (?hb @ r) = h" for r
    using h(1) lhb by (simp add: slab_header_of_bytes_append slab_header_wf_shape)
  have w: "sm_files w (extent_path a b) =
      (if a = c \<and> b = e then Some (?hb @ drop 4096 (extent_contents c e n)) else sm_files m (extent_path a b))" for a b
    using op(1) by (auto simp: w_def write_extent_def fw opened_def)
  have rest: "sm_slots_per_extent w = sm_slots_per_extent m" "sm_fd_pool w = sm_fd_pool n" "sm_dirs w = sm_dirs m"
    using op(1) by (simp_all add: w_def write_extent_def opened_def)
  show "slab_wf w"
    unfolding slab_wf_def w rest using op h lhb hdr by (auto simp: slab_wf_def extent_ok_def opened_def)
  show "allocated_slots w = {k \<in> allocated_slots m. fst k \<noteq> c \<or> fst (snd k) \<noteq> e} \<union> slots_of c e h"
    unfolding allocated_slots_def slots_of_def w by (auto simp: hdr split: if_splits)
  have "drop 4096 (extent_contents c e n) = drop 4096 (extent_contents c e m)"
    using op(1) by (auto simp: extent_contents_def opened_def)
  then show "extent_data w = extent_data m"
    unfolding extent_data_def extent_contents_def [of _ _ w] w fun_eq_iff
    using lhb by (auto simp: extent_contents_def [of _ _ m])
qed

section \<open>Allocation\<close>

lemma slab_wf_dirs: "slab_wf m \<Longrightarrow> slab_wf (m\<lparr> sm_dirs := insert d (sm_dirs m) \<rparr>)"
  by (auto simp: slab_wf_def)

lemma slab_wf_active [simp]: "slab_wf (m\<lparr> sm_active_extents := a \<rparr>) \<longleftrightarrow> slab_wf m"
  by (simp add: slab_wf_def)

lemma slots_view_frame [simp]:
  "allocated_slots (m\<lparr> sm_active_extents := a \<rparr>) = allocated_slots m"
  "allocated_slots (m\<lparr> sm_fd_pool := q \<rparr>) = allocated_slots m"
  "allocated_slots (m\<lparr> sm_dirs := d \<rparr>) = allocated_slots m"
  "extent_data (m\<lparr> sm_active_extents := a \<rparr>) = extent_data m"
  "extent_data (m\<lparr> sm_fd_pool := q \<rparr>) = extent_data m"
  "extent_data (m\<lparr> sm_dirs := d \<rparr>) = extent_data m"
  by (simp_all add: allocated_slots_def extent_data_def extent_contents_def fun_eq_iff)

lemma load_header_ok:
  assumes "slab_wf m" "sm_files m (extent_path c e) = Some bs"
  shows "load_header c e m = Ok (slab_header_of_bytes bs)"
  using slab_wf_file [OF assms]
  by (simp add: load_header_def extent_contents_file [OF assms(2)] extent_ok_def SLAB_HEADER_SIZE_def slab_header_wf_def)

text \<open>What allocation promises: one slot that was free is allocated, no data changes.\<close>

definition takes_slot :: "u8 \<Rightarrow> slab_manager \<Rightarrow> (slab_error, tile_address) result \<Rightarrow> slab_manager \<Rightarrow> bool" where
  "takes_slot c m r m' \<longleftrightarrow> slab_wf m' \<and> extent_data m' = extent_data m \<and>
     (\<exists>e s. (c, e, unat s) \<notin> allocated_slots m \<and> allocated_slots m' = insert (c, e, unat s) (allocated_slots m) \<and>
        unat s < 32576 \<and> r = slab_address c e s)"

lemma alloc_round_new:
  assumes wf: "slab_wf m" and c: "c \<le> MAX_SIZE_CLASS_ID" and none: "sm_files m (extent_path c e) = None"
  shows "\<exists>m'. alloc_round c e m = (Some (slab_address c e 0), m') \<and> takes_slot c m (slab_address c e 0) m'"
proof -
  define m1 where "m1 = m\<lparr> sm_dirs := insert (class_dir c) (sm_dirs m) \<rparr>"
  have m1: "slab_wf m1" "class_dir c \<in> sm_dirs m1" "sm_slots_per_extent m1 = sm_slots_per_extent m"
      "allocated_slots m1 = allocated_slots m" "extent_data m1 = extent_data m"
    using slab_wf_dirs [OF wf] by (simp_all add: m1_def)
  have slots: "0 < sm_slots_per_extent m" "sm_slots_per_extent m \<le> MAX_SLOTS_PER_EXTENT"
    using wf by (simp_all add: slab_wf_def)
  obtain h where h: "slab_header_new c e (sm_slots_per_extent m) = Ok h"
    using slab_header_new_ok [OF c slots] by blast
  note hn = slab_header_new_wf [OF h]
  then have "slab_header_wf h" "0 < sh_slot_count h" using slots by simp_all
  then obtain h' where h': "set_slot_allocated 0 True h = Ok h'" "slab_header_wf h'" "sh_extent_id h' = sh_extent_id h"
      "sh_size_class_id h' = sh_size_class_id h" "sh_slot_count h' = sh_slot_count h"
      "\<And>t. t < 32576 \<Longrightarrow> slot_bit h' t \<longleftrightarrow> (if t = unat (0 :: u32) then True else slot_bit h t)"
    using set_slot_allocated_bit [of h 0 True] by blast
  obtain n where n: "open_extent c e m1 = (Ok (), n)" "opened c e m1 n"
    using open_extent_opened [OF m1(1,2)] .
  have "sh_extent_id h' = e" "sh_size_class_id h' = c" using h' hn by simp_all
  note w = write_header [OF n(2) m1(1,2) h'(2) this]
  have "slots_of c e h' = {(c, e, 0)}"
    using h'(5,6) hn slab_header_wf_bounds [OF h'(2)] by (auto simp: slots_of_def split: if_splits)
  moreover have k: "k \<notin> allocated_slots m" if "fst k = c \<and> fst (snd k) = e" for k
    using that none by (auto simp: allocated_slots_def)
  ultimately have "allocated_slots (write_extent c e 0 (slab_header_bytes h') n) = insert (c, e, 0) (allocated_slots m)"
    using w(3) m1(4) by auto
  then have "takes_slot c m (slab_address c e 0)
      ((write_extent c e 0 (slab_header_bytes h') n)\<lparr> sm_active_extents :=
        (sm_active_extents (write_extent c e 0 (slab_header_bytes h') n))(c \<mapsto> e) \<rparr>)"
    using w(1,2) m1(5) k [of "(c, e, 0)"] unfolding takes_slot_def by (intro conjI exI [of _ e] exI [of _ 0]) simp_all
  moreover have "alloc_round c e m = (Some (slab_address c e 0),
      (write_extent c e 0 (slab_header_bytes h') n)\<lparr> sm_active_extents :=
        (sm_active_extents (write_extent c e 0 (slab_header_bytes h') n))(c \<mapsto> e) \<rparr>)"
    using none h h'(1) n(1) m1(3) by (simp add: alloc_round_def Let_def m1_def)
  ultimately show ?thesis by blast
qed

text \<open>On an existing extent a round takes its lowest free slot, or finds the extent full.\<close>

lemma alloc_round_existing:
  assumes wf: "slab_wf m" and some: "sm_files m (extent_path c e) = Some bs"
  shows "(\<exists>r m'. alloc_round c e m = (Some r, m') \<and> takes_slot c m r m') \<or>
    (\<exists>m'. alloc_round c e m = (None, m') \<and> slab_wf m' \<and> sm_files m' = sm_files m \<and>
       (\<forall>s < unat (sh_slot_count (slab_header_of_bytes bs)). (c, e, s) \<in> allocated_slots m))"
proof -
  let ?h = "slab_header_of_bytes bs"
  have ok: "slab_header_wf ?h" "sh_extent_id ?h = e" "sh_size_class_id ?h = c" "class_dir c \<in> sm_dirs m"
    using slab_wf_file [OF wf some] by (simp_all add: extent_ok_def)
  note b = slab_header_wf_bounds [OF ok(1)]
  obtain n where n: "open_extent c e m = (Ok (), n)" "opened c e m n"
    using open_extent_opened [OF wf ok(4)] .
  have ne: "sm_files m (extent_path c e) \<noteq> None" using some by simp
  note on = opened_existing [OF n(2) wf ne]
  have lh: "load_header c e n = Ok ?h" using load_header_ok [OF on(1)] on(2) some by simp
  note search = find_first_free_slot_lowest [OF ok(1)]
  show ?thesis
  proof (cases "find_first_free_slot ?h")
    case None
    with search have "\<forall>s < unat (sh_slot_count ?h). slot_bit ?h s" by simp
    then have "\<forall>s < unat (sh_slot_count ?h). (c, e, s) \<in> allocated_slots m"
      using some by (simp add: allocated_slots_def)
    moreover have "alloc_round c e m = (None, n\<lparr> sm_active_extents := (sm_active_extents n)(c \<mapsto> e + 1) \<rparr>)"
      using some n(1) lh None by (simp add: alloc_round_def)
    ultimately show ?thesis using on by auto
  next
    case (Some s)
    with search have s: "s < sh_slot_count ?h" "is_slot_allocated s ?h = Ok False" by simp_all
    then have free: "\<not> slot_bit ?h (unat s)" by (simp add: is_slot_allocated_bit)
    have us: "unat s < 32576" "unat s < unat (sh_slot_count ?h)" using s(1) b(2) by (simp_all add: word_less_nat_alt)
    obtain h' where h': "set_slot_allocated s True ?h = Ok h'" "slab_header_wf h'" "sh_extent_id h' = sh_extent_id ?h"
      "sh_size_class_id h' = sh_size_class_id ?h" "sh_slot_count h' = sh_slot_count ?h"
      "\<And>t. t < 32576 \<Longrightarrow> slot_bit h' t \<longleftrightarrow> (if t = unat s then True else slot_bit ?h t)"
      using set_slot_allocated_bit [OF ok(1) s(1), of True] by blast
    note w = write_header [OF n(2) wf ok(4) h'(2) h'(3) [unfolded ok(2)] h'(4) [unfolded ok(3)]]
    have so: "slots_of c e h' = insert (c, e, unat s) (slots_of c e ?h)"
      using h'(5,6) us b(2) by (auto simp: slots_of_def)
    have "slots_of c e ?h = {k \<in> allocated_slots m. fst k = c \<and> fst (snd k) = e}"
      using some by (auto simp: slots_of_def allocated_slots_def)
    then have al: "allocated_slots (write_extent c e 0 (slab_header_bytes h') n) = insert (c, e, unat s) (allocated_slots m)"
      unfolding w(3) so by auto
    have "(c, e, unat s) \<notin> allocated_slots m" using some free by (simp add: allocated_slots_def)
    with al w(1,2) us(1) have "takes_slot c m (slab_address c e s) (write_extent c e 0 (slab_header_bytes h') n)"
      unfolding takes_slot_def by blast
    moreover have "alloc_round c e m = (Some (slab_address c e s), write_extent c e 0 (slab_header_bytes h') n)"
      using some n(1) lh Some h'(1) by (simp add: alloc_round_def)
    ultimately show ?thesis by blast
  qed
qed

text \<open>The loop takes a slot whenever it returns.\<close>

lemma alloc_loop_takes:
  assumes "alloc_loop c e m = Some (r, m')" "slab_wf m" "c \<le> MAX_SIZE_CLASS_ID"
  shows "takes_slot c m r m'"
proof -
  have "slab_wf m \<longrightarrow> c \<le> MAX_SIZE_CLASS_ID \<longrightarrow> takes_slot c m (fst p) (snd p)"
    if "alloc_loop c e m = Some p" for p
    using that
  proof (induction rule: alloc_loop.raw_induct [rotated 1, consumes 1])
    case (1 loop c e m p)
    show ?case
    proof (intro impI)
      assume wf: "slab_wf m" and c: "c \<le> MAX_SIZE_CLASS_ID"
      show "takes_slot c m (fst p) (snd p)"
      proof (cases "sm_files m (extent_path c e)")
        case None
        from alloc_round_new [OF wf c None] 1(2) show ?thesis by auto
      next
        case (Some bs)
        from alloc_round_existing [OF wf Some] show ?thesis
        proof (elim disjE exE conjE)
          fix r n
          assume "alloc_round c e m = (Some r, n)" "takes_slot c m r n"
          with 1(2) show ?thesis by auto
        next
          fix n
          assume n: "alloc_round c e m = (None, n)" "slab_wf n" "sm_files n = sm_files m"
          with 1(2) have "loop c (e + 1) n = Some p" by simp
          with 1(1) c n(2) have "takes_slot c n (fst p) (snd p)" by blast
          then show ?thesis using view_files [OF n(3)] by (simp add: takes_slot_def)
        qed
      qed
    qed
  qed
  with assms show ?thesis by force
qed

text \<open>It returns when some extent id from the active one on has no file yet.\<close>

lemma alloc_loop_returns:
  "slab_wf m \<Longrightarrow> c \<le> MAX_SIZE_CLASS_ID \<Longrightarrow> sm_files m (extent_path c (e + of_nat k)) = None \<Longrightarrow>
   \<exists>r m'. alloc_loop c e m = Some (r, m')"
proof (induction k arbitrary: e m)
  case 0
  then obtain r m' where "alloc_round c e m = (Some r, m')" using alloc_round_new [of m c e] by auto
  then show ?case by (subst alloc_loop.simps) simp
next
  case (Suc k)
  show ?case
  proof (cases "sm_files m (extent_path c e)")
    case None
    then obtain r m' where "alloc_round c e m = (Some r, m')" using alloc_round_new [of m c e] Suc by auto
    then show ?thesis by (subst alloc_loop.simps) simp
  next
    case (Some bs)
    from alloc_round_existing [OF Suc(2) Some] show ?thesis
    proof (elim disjE exE conjE)
      fix r n
      assume "alloc_round c e m = (Some r, n)"
      then show ?thesis by (subst alloc_loop.simps) simp
    next
      fix n
      assume n: "alloc_round c e m = (None, n)" "slab_wf n" "sm_files n = sm_files m"
      moreover have "sm_files n (extent_path c (e + 1 + of_nat k)) = None"
        using Suc(4) n(3) by (simp add: add.assoc)
      ultimately show ?thesis using Suc.IH [of n "e + 1"] Suc(3) by (subst alloc_loop.simps) simp
    qed
  qed
qed

lemma select_class_bound: "select_size_class n = Some c \<Longrightarrow> c \<le> MAX_SIZE_CLASS_ID \<and> (\<exists>b. size_class_bytes c = Some b \<and> n \<le> unat b)"
  using select_size_class_spec [of n] size_class_bytes_cases by auto

lemma slab_address_key:
  "slab_address c e s = Ok a \<Longrightarrow> address_key a = (c, e, unat s)"
  by (auto simp: slab_address_def address_key_def address_new_fields split: sum.splits)

lemma slab_address_error:
  "c \<le> MAX_SIZE_CLASS_ID \<Longrightarrow> unat s < 32576 \<Longrightarrow> slab_address c e s = Err x \<Longrightarrow>
   x = SlabAddress (ExtentIdOverflow e) \<and> MAX_SLAB_EXTENT_ID < e"
  by (auto simp: slab_address_def address_new_def word_less_nat_alt word_le_nat_alt MAX_SLOT_INDEX_def
      split: sum.splits if_splits)

lemma allocate_slot_takes:
  assumes "slab_wf m" "allocate_slot n m = Some (r, m')" "select_size_class n = Some c"
  shows "takes_slot c m r m'"
proof (cases "sm_active_extents m c")
  case None
  let ?m = "m\<lparr> sm_active_extents := (sm_active_extents m)(c \<mapsto> 0) \<rparr>"
  have "alloc_loop c 0 ?m = Some (r, m')" using assms(2,3) None by (simp add: allocate_slot_def)
  then have "takes_slot c ?m r m'" using alloc_loop_takes select_class_bound [OF assms(3)] assms(1) by simp
  then show ?thesis by (simp add: takes_slot_def)
next
  case (Some e)
  then have "alloc_loop c e m = Some (r, m')" using assms(2,3) by (simp add: allocate_slot_def)
  then show ?thesis using alloc_loop_takes select_class_bound [OF assms(3)] assms(1) by blast
qed

section \<open>Slots of one extent\<close>

lemma physical_offset_slot:
  assumes "size_class_bytes (addr_size_class_id a) = Some sz"
  obtains off where "physical_offset a = Ok off" "unat off = 4096 + unat (addr_slot_index a) * unat sz"
  using physical_offset_unat [OF assms] by blast

lemma slab_header_of_bytes_take: "4096 \<le> length bs \<Longrightarrow> slab_header_of_bytes bs = slab_header_of_bytes (take 4096 bs)"
  using slab_header_of_bytes_append [of "take 4096 bs" "drop 4096 bs"] by simp

lemma read_slot_value:
  assumes "slab_wf m" "sm_files m (extent_path (addr_size_class_id a) (addr_extent_id a)) = Some bs"
    and "size_class_bytes (addr_size_class_id a) = Some sz"
  shows "fst (read_slot a n m) = Ok (window (4096 + unat (addr_slot_index a) * unat sz) (min (unat sz) n) bs)"
proof -
  let ?c = "addr_size_class_id a" and ?e = "addr_extent_id a"
  obtain off where off: "physical_offset a = Ok off" "unat off = 4096 + unat (addr_slot_index a) * unat sz"
    using physical_offset_slot [OF assms(3)] .
  obtain k where k: "open_extent ?c ?e m = (Ok (), k)" "opened ?c ?e m k"
    using open_extent_opened [OF assms(1)] slab_wf_file [OF assms(1,2)] by blast
  have "sm_files k (extent_path ?c ?e) = Some bs" using opened_existing(2) [OF k(2) assms(1)] assms(2) by simp
  then have "extent_contents ?c ?e k = bs" by (rule extent_contents_file)
  then show ?thesis
    using assms(3) off k(1) by (auto simp: read_slot_def Let_def window_def min_def)
qed

lemma write_slot_value:
  assumes "slab_wf m" "sm_files m (extent_path (addr_size_class_id a) (addr_extent_id a)) = Some bs"
    and "size_class_bytes (addr_size_class_id a) = Some sz" "length data \<le> unat sz"
  obtains m' where "write_slot a data m = (Ok (), m')" "slab_wf m'" "allocated_slots m' = allocated_slots m"
    "\<And>c e. sm_files m' (extent_path c e) = (if c = addr_size_class_id a \<and> e = addr_extent_id a
       then Some (file_write (4096 + unat (addr_slot_index a) * unat sz) data bs) else sm_files m (extent_path c e))"
proof -
  let ?c = "addr_size_class_id a" and ?e = "addr_extent_id a"
  obtain off where off: "physical_offset a = Ok off" "unat off = 4096 + unat (addr_slot_index a) * unat sz"
    using physical_offset_slot [OF assms(3)] .
  obtain k where k: "open_extent ?c ?e m = (Ok (), k)" "opened ?c ?e m k"
    using open_extent_opened [OF assms(1)] slab_wf_file [OF assms(1,2)] by blast
  have kf: "sm_files k = sm_files m" "slab_wf k" using opened_existing [OF k(2) assms(1)] assms(2) by simp_all
  let ?bs = "file_write (unat off) data bs"
  let ?w = "write_extent ?c ?e (unat off) data k"
  have f: "sm_files ?w (extent_path c e) = (if c = ?c \<and> e = ?e then Some ?bs else sm_files m (extent_path c e))" for c e
    using kf(1) assms(2) by (simp add: write_extent_def extent_contents_file)
  have ok: "extent_ok ?c ?e bs" using slab_wf_file [OF assms(1,2)] by simp
  then have l: "4096 \<le> length bs" by (simp add: extent_ok_def)
  have dir: "class_dir ?c \<in> sm_dirs k" using slab_wf_file [OF assms(1,2)] k(2) by (simp add: opened_def)
  have l': "4096 \<le> length ?bs" using l by (cases "data = []") (simp_all add: file_write_def)
  have hdr: "slab_header_of_bytes ?bs = slab_header_of_bytes bs"
    using slab_header_of_bytes_take [OF l] slab_header_of_bytes_take [OF l'] file_write_take [OF _ l, of "unat off" data] off(2)
    by simp
  have rest: "sm_slots_per_extent ?w = sm_slots_per_extent k" "sm_fd_pool ?w = sm_fd_pool k" "sm_dirs ?w = sm_dirs k"
    by (simp_all add: write_extent_def)
  have "slab_wf ?w"
    unfolding slab_wf_def f rest using kf ok l' hdr dir by (auto simp: slab_wf_def extent_ok_def)
  moreover have "allocated_slots ?w = allocated_slots m"
    unfolding allocated_slots_def f using assms(2) hdr by (auto split: if_splits)
  moreover have "write_slot a data m = (Ok (), ?w)"
    using assms(3,4) off k(1) by (simp add: write_slot_def)
  ultimately show thesis using that f off(2) by simp
qed

lemma existing_file_class:
  assumes "slab_wf m" "sm_files m (extent_path c e) = Some bs"
  shows "\<exists>sz. size_class_bytes c = Some sz"
  using slab_wf_file [OF assms] slab_header_wf_bounds(4) [of "slab_header_of_bytes bs"] by (auto simp: extent_ok_def)

lemma allocated_file:
  assumes "slab_wf m" "address_key a \<in> allocated_slots m"
  obtains bs sz where "sm_files m (extent_path (addr_size_class_id a) (addr_extent_id a)) = Some bs"
    "size_class_bytes (addr_size_class_id a) = Some sz"
proof -
  from assms(2) obtain bs where bs: "sm_files m (extent_path (addr_size_class_id a) (addr_extent_id a)) = Some bs"
    by (auto simp: allocated_slots_def address_key_def)
  with existing_file_class [OF assms(1) bs] that show thesis by blast
qed

section \<open>The contract of the allocator\<close>

text \<open>A client that only allocates relies on one law: a slot handed out was free before and is
  taken after, and nothing else changes.  Then no slot is ever handed out twice.\<close>

fun alloc_all :: "(nat \<Rightarrow> 's \<Rightarrow> ('k \<times> 's) option) \<Rightarrow> nat list \<Rightarrow> 's \<Rightarrow> ('k list \<times> 's) option" where
  "alloc_all alloc [] s = Some ([], s)"
| "alloc_all alloc (n # ns) s =
    (case alloc n s of
       None \<Rightarrow> None
     | Some (k, s) \<Rightarrow>
         (case alloc_all alloc ns s of
            None \<Rightarrow> None
          | Some (ks, s) \<Rightarrow> Some (k # ks, s)))"

locale slot_allocator =
  fixes inv :: "'s \<Rightarrow> bool" and slots :: "'s \<Rightarrow> 'k set" and alloc :: "nat \<Rightarrow> 's \<Rightarrow> ('k \<times> 's) option"
  assumes alloc_fresh: "inv s \<Longrightarrow> alloc n s = Some (k, s') \<Longrightarrow> inv s' \<and> k \<notin> slots s \<and> slots s' = insert k (slots s)"
begin

lemma alloc_all_distinct:
  "inv s \<Longrightarrow> alloc_all alloc ns s = Some (ks, s') \<Longrightarrow>
   inv s' \<and> distinct ks \<and> set ks \<inter> slots s = {} \<and> slots s' = set ks \<union> slots s"
proof (induction ns arbitrary: s ks)
  case (Cons n ns)
  then obtain k s1 ks1 where a: "alloc n s = Some (k, s1)" "alloc_all alloc ns s1 = Some (ks1, s')" "ks = k # ks1"
    by (auto split: option.splits)
  note f = alloc_fresh [OF Cons.prems(1) a(1)]
  with Cons.IH [of s1 ks1] a(2) have "inv s'" "distinct ks1" "set ks1 \<inter> slots s1 = {}" "slots s' = set ks1 \<union> slots s1"
    by auto
  with f a(3) show ?case by auto
qed simp

end

text \<open>The successful allocations of the slab manager, by slot.\<close>

definition slab_alloc :: "nat \<Rightarrow> slab_manager \<Rightarrow> (slot_key \<times> slab_manager) option" where
  "slab_alloc n m = (case allocate_slot n m of Some (Ok a, m') \<Rightarrow> Some (address_key a, m') | _ \<Rightarrow> None)"

lemma slab_alloc_fresh:
  assumes "slab_wf m" "slab_alloc n m = Some (k, m')"
  shows "slab_wf m' \<and> k \<notin> allocated_slots m \<and> allocated_slots m' = insert k (allocated_slots m)"
proof -
  from assms(2) obtain a where a: "allocate_slot n m = Some (Ok a, m')" "k = address_key a"
    by (auto simp: slab_alloc_def split: option.splits prod.splits sum.splits)
  then obtain c where "select_size_class n = Some c" by (auto simp: allocate_slot_def split: option.splits)
  from allocate_slot_takes [OF assms(1) a(1) this] obtain e t where t: "slab_wf m'" "(c, e, unat t) \<notin> allocated_slots m"
      "allocated_slots m' = insert (c, e, unat t) (allocated_slots m)" "Ok a = slab_address c e t"
    unfolding takes_slot_def by blast
  with slab_address_key [of c e t a] a(2) have "k = (c, e, unat t)" by simp
  with t show ?thesis by simp
qed

interpretation slab: slot_allocator slab_wf allocated_slots slab_alloc
  by unfold_locales (rule slab_alloc_fresh)

section \<open>Properties\<close>

text \<open>The store opened on an empty directory, for the examples below.\<close>

abbreviation empty_store :: slab_manager where
  "empty_store \<equiv> slab_with_options (\<lambda>_. None) 32 1024 {} (\<lambda>_. None)"

lemma empty_store_wf [simp]: "slab_wf empty_store"
  by (simp add: slab_wf_def slab_with_options_def MAX_SLOTS_PER_EXTENT_def fd_pool_new_def)
    (simp add: fd_wf_def)

text \<open>Its first allocation creates the first extent and returns its first slot.\<close>

lemma empty_store_alloc:
  obtains a m' where "allocate_slot 100 empty_store = Some (Ok a, m')" "takes_slot 0 empty_store (Ok a) m'"
    "address_new 0 0 0 = Ok a"
proof -
  let ?m = "empty_store\<lparr> sm_active_extents := (sm_active_extents empty_store)(0 \<mapsto> 0) \<rparr>"
  have c: "select_size_class 100 = Some 0" by (simp add: select_size_class_def SLAB_SIZE_CLASSES_def)
  have none: "sm_files ?m (extent_path 0 0) = None" "sm_active_extents empty_store 0 = None"
    by (simp_all add: slab_with_options_def)
  obtain m' where r: "alloc_round 0 0 ?m = (Some (slab_address 0 0 0), m')"
    using alloc_round_new [of ?m 0 0] none by (auto simp: MAX_SIZE_CLASS_ID_def)
  then have l: "allocate_slot 100 empty_store = Some (slab_address 0 0 0, m')"
    using c none by (simp add: allocate_slot_def) (subst alloc_loop.simps, simp)
  obtain a where a: "address_new 0 0 0 = Ok a" "slab_address 0 0 0 = Ok a"
    by (simp add: slab_address_def address_new_def MAX_SIZE_CLASS_ID_def MAX_SLAB_EXTENT_ID_def MAX_SLOT_INDEX_def)
  from l a have "takes_slot 0 empty_store (Ok a) m'" using allocate_slot_takes [OF empty_store_wf _ c] by simp
  with l a show thesis by (intro that) simp_all
qed

text \<open>C23: an allocation that succeeds hands out a slot of the smallest class that holds the
  payload, a slot nobody had, and makes it and no other slot allocated; the stored bytes of
  every slot stay as they were.  It fails only for a payload above the largest class, or when
  the next extent id no longer fits into an address.\<close>

theorem allocate_slot_fresh:
  assumes "slab_wf m" "allocate_slot n m = Some (r, m')"
  shows "slab_wf m' \<and> extent_data m' = extent_data m \<and>
    (case r of
       Ok a \<Rightarrow> select_size_class n = Some (addr_size_class_id a) \<and> address_key a \<notin> allocated_slots m \<and>
         allocated_slots m' = insert (address_key a) (allocated_slots m)
     | Err x \<Rightarrow> x = PayloadTooLarge n MAX_SLAB_PAYLOAD_SIZE \<and> m' = m \<and> MAX_SLAB_PAYLOAD_SIZE < n \<or>
         (\<exists>e. x = SlabAddress (ExtentIdOverflow e) \<and> MAX_SLAB_EXTENT_ID < e))"
proof (cases "select_size_class n")
  case None
  then have "MAX_SLAB_PAYLOAD_SIZE < n" using select_size_class_spec [of n] by simp
  with None assms show ?thesis by (auto simp: allocate_slot_def)
next
  case (Some c)
  from allocate_slot_takes [OF assms Some] obtain e s where t: "slab_wf m'" "extent_data m' = extent_data m"
      "(c, e, unat s) \<notin> allocated_slots m" "allocated_slots m' = insert (c, e, unat s) (allocated_slots m)"
      "unat s < 32576" "r = slab_address c e s"
    unfolding takes_slot_def by blast
  show ?thesis
  proof (cases r)
    case (Inr a)
    then have "address_key a = (c, e, unat s)" using t(6) slab_address_key by simp
    with t(1-4) Inr Some show ?thesis by (simp add: address_key_def)
  next
    case (Inl x)
    then have "x = SlabAddress (ExtentIdOverflow e) \<and> MAX_SLAB_EXTENT_ID < e"
      using t(5,6) select_class_bound [OF Some] slab_address_error [of c s e x] by simp
    with t(1,2) Inl show ?thesis by simp
  qed
qed

theorem allocate_slot_fresh_witness:
  "\<exists>a m'. allocate_slot 100 empty_store = Some (Ok a, m') \<and> slab_wf m' \<and>
     allocated_slots m' = insert (address_key a) (allocated_slots empty_store)"
proof -
  obtain a m' where "allocate_slot 100 empty_store = Some (Ok a, m')" by (rule empty_store_alloc)
  with allocate_slot_fresh [OF empty_store_wf this] show ?thesis by auto
qed

text \<open>whatever sequence of payload sizes is requested, no slot is handed out twice and none that
  was in use before, and exactly the slots handed out are added to the slots in use.\<close>

theorem allocations_distinct:
  assumes "slab_wf m" "alloc_all slab_alloc ns m = Some (ks, m')"
  shows "slab_wf m' \<and> distinct ks \<and> set ks \<inter> allocated_slots m = {} \<and> allocated_slots m' = set ks \<union> allocated_slots m"
  using assms by (rule slab.alloc_all_distinct)

theorem allocations_distinct_witness:
  "\<exists>k m'. alloc_all slab_alloc [100] empty_store = Some ([k], m') \<and> slab_wf m' \<and> k \<in> allocated_slots m'"
proof -
  obtain a m' where "allocate_slot 100 empty_store = Some (Ok a, m')" by (rule empty_store_alloc)
  then have "alloc_all slab_alloc [100] empty_store = Some ([address_key a], m')" by (simp add: slab_alloc_def)
  with allocations_distinct [OF empty_store_wf this] show ?thesis by auto
qed

text \<open>C24: allocation terminates as long as one extent id of the class has no file yet: the loop over
  full extents ends at the latest at such an id.\<close>

theorem allocate_slot_returns:
  assumes "slab_wf m" "select_size_class n = Some c" "sm_files m (extent_path c e) = None"
  shows "\<exists>r m'. allocate_slot n m = Some (r, m')"
proof -
  have c: "c \<le> MAX_SIZE_CLASS_ID" using select_class_bound [OF assms(2)] by simp
  have reach: "e0 + of_nat (unat (e - e0)) = e" for e0 by simp
  show ?thesis
  proof (cases "sm_active_extents m c")
    case None
    let ?m = "m\<lparr> sm_active_extents := (sm_active_extents m)(c \<mapsto> 0) \<rparr>"
    have "\<exists>r m'. alloc_loop c 0 ?m = Some (r, m')"
      using alloc_loop_returns [of ?m c 0 "unat (e - 0)"] assms(1,3) c reach [of 0] by simp
    with None assms(2) show ?thesis by (simp add: allocate_slot_def)
  next
    case (Some e0)
    have "\<exists>r m'. alloc_loop c e0 m = Some (r, m')"
      using alloc_loop_returns [of m c e0 "unat (e - e0)"] assms(1,3) c reach [of e0] by simp
    with Some assms(2) show ?thesis by (simp add: allocate_slot_def)
  qed
qed

theorem allocate_slot_returns_witness:
  "\<exists>r m'. allocate_slot 5000 empty_store = Some (r, m')"
proof (rule allocate_slot_returns [of empty_store 5000 1 0])
  show "select_size_class 5000 = Some 1" by (simp add: select_size_class_def SLAB_SIZE_CLASSES_def)
  show "sm_files empty_store (extent_path 1 0) = None" by (simp add: slab_with_options_def)
qed simp

text \<open>Clearing the bit of a slot in use, in an extent that has been opened.\<close>

lemma free_used_slot:
  assumes "slab_wf m" "sm_files m (extent_path (addr_size_class_id a) (addr_extent_id a)) = Some bs"
    "address_key a \<in> allocated_slots m"
  obtains m' where "free_slot a m = (Ok (), m')" "slab_wf m'" "extent_data m' = extent_data m"
    "allocated_slots m' = allocated_slots m - {address_key a}"
proof -
  let ?c = "addr_size_class_id a" and ?e = "addr_extent_id a" and ?s = "addr_slot_index a" and ?h = "slab_header_of_bytes bs"
  have ok: "slab_header_wf ?h" "sh_extent_id ?h = ?e" "sh_size_class_id ?h = ?c" "class_dir ?c \<in> sm_dirs m"
    using slab_wf_file [OF assms(1,2)] by (simp_all add: extent_ok_def)
  obtain n where n: "open_extent ?c ?e m = (Ok (), n)" "opened ?c ?e m n" using open_extent_opened [OF assms(1) ok(4)] .
  have ne: "sm_files m (extent_path ?c ?e) \<noteq> None" using assms(2) by simp
  note on = opened_existing [OF n(2) assms(1) ne]
  have lh: "load_header ?c ?e n = Ok ?h" using load_header_ok [OF on(1)] on(2) assms(2) by simp
  have s: "?s < sh_slot_count ?h" "slot_bit ?h (unat ?s)"
    using assms(2,3) by (simp_all add: allocated_slots_def address_key_def word_less_nat_alt)
  obtain h' where h': "set_slot_allocated ?s False ?h = Ok h'" "slab_header_wf h'" "sh_extent_id h' = sh_extent_id ?h"
    "sh_size_class_id h' = sh_size_class_id ?h" "sh_slot_count h' = sh_slot_count ?h"
    "\<And>t. t < 32576 \<Longrightarrow> slot_bit h' t \<longleftrightarrow> (if t = unat ?s then False else slot_bit ?h t)"
    using set_slot_allocated_bit [OF ok(1) s(1), of False] by blast
  note w = write_header [OF n(2) assms(1) ok(4) h'(2) h'(3) [unfolded ok(2)] h'(4) [unfolded ok(3)]]
  have "slots_of ?c ?e h' = slots_of ?c ?e ?h - {address_key a}"
    using h'(5,6) slab_header_wf_bounds(2) [OF ok(1)] by (auto simp: slots_of_def address_key_def split: if_splits)
  moreover have "slots_of ?c ?e ?h = {k \<in> allocated_slots m. fst k = ?c \<and> fst (snd k) = ?e}"
    using assms(2) by (auto simp: slots_of_def allocated_slots_def)
  moreover have "fst (address_key a) = ?c" "fst (snd (address_key a)) = ?e" by (simp_all add: address_key_def)
  ultimately have "allocated_slots (write_extent ?c ?e 0 (slab_header_bytes h') n) = allocated_slots m - {address_key a}"
    unfolding w(3) by blast
  moreover have "free_slot a m = (Ok (), write_extent ?c ?e 0 (slab_header_bytes h') n)"
    using assms(2) n(1) lh s h'(1) by (simp add: free_slot_def is_slot_allocated_bit)
  ultimately show thesis using that w(1,2) by auto
qed

text \<open>freeing succeeds exactly on a slot in use, which becomes free, and no other slot and no stored
  byte changes; on any other address it reports why and changes neither.\<close>

theorem free_slot_exact:
  assumes "slab_wf m" "free_slot a m = (r, m')"
  shows "slab_wf m' \<and> extent_data m' = extent_data m \<and>
    (case r of
       Ok _ \<Rightarrow> address_key a \<in> allocated_slots m \<and> allocated_slots m' = allocated_slots m - {address_key a}
     | Err x \<Rightarrow> address_key a \<notin> allocated_slots m \<and> allocated_slots m' = allocated_slots m)"
proof -
  let ?c = "addr_size_class_id a" and ?e = "addr_extent_id a" and ?s = "addr_slot_index a"
  show ?thesis
  proof (cases "sm_files m (extent_path ?c ?e)")
    case None
    with assms show ?thesis by (auto simp: free_slot_def allocated_slots_def address_key_def)
  next
    case (Some bs)
    let ?h = "slab_header_of_bytes bs"
    show ?thesis
    proof (cases "address_key a \<in> allocated_slots m")
      case True
      obtain q where q: "free_slot a m = (Ok (), q)" "slab_wf q" "extent_data q = extent_data m"
        "allocated_slots q = allocated_slots m - {address_key a}" by (rule free_used_slot [OF assms(1) Some True])
      have "r = Ok ()" "m' = q" using assms(2) q(1) by simp_all
      then show ?thesis using True q(2-4) by simp
    next
      case False
      have ok: "class_dir ?c \<in> sm_dirs m" using slab_wf_file [OF assms(1) Some] by (simp add: extent_ok_def)
      obtain n where n: "open_extent ?c ?e m = (Ok (), n)" "opened ?c ?e m n" using open_extent_opened [OF assms(1) ok] .
      have ne: "sm_files m (extent_path ?c ?e) \<noteq> None" using Some by simp
      note on = opened_existing [OF n(2) assms(1) ne]
      have lh: "load_header ?c ?e n = Ok ?h" using load_header_ok [OF on(1)] on(2) Some by simp
      have "is_slot_allocated ?s ?h = Ok False \<or> (\<exists>x. is_slot_allocated ?s ?h = Err x)"
        using False Some by (cases "?s < sh_slot_count ?h")
          (simp add: is_slot_allocated_bit allocated_slots_def address_key_def word_less_nat_alt, simp add: is_slot_allocated_def not_less)
      then have "m' = n \<and> isl r" using assms(2) Some n(1) lh by (auto simp: free_slot_def Let_def)
      with False on show ?thesis by (cases r) auto
    qed
  qed
qed

theorem free_slot_exact_witness:
  "\<exists>a m1 m2. allocate_slot 100 empty_store = Some (Ok a, m1) \<and> free_slot a m1 = (Ok (), m2) \<and>
     allocated_slots m2 = allocated_slots m1 - {address_key a}"
proof -
  obtain a m1 where m1: "allocate_slot 100 empty_store = Some (Ok a, m1)" "takes_slot 0 empty_store (Ok a) m1"
    by (rule empty_store_alloc)
  then have "slab_wf m1" "address_key a \<in> allocated_slots m1"
    using slab_address_key [of 0] unfolding takes_slot_def by (blast, metis insertI1)
  moreover obtain r m2 where "free_slot a m1 = (r, m2)" by fastforce
  ultimately show ?thesis using m1(1) free_slot_exact [of m1 a r m2] by (cases r) auto
qed

text \<open>what is written to a slot in use is read back from it, and reading any other slot of any
  extent returns what it returned before, followed at most by zeros where its bytes were
  past the end of the file.\<close>

theorem write_slot_read_slot:
  assumes "slab_wf m" "address_key a \<in> allocated_slots m"
    and "sm_files m (extent_path (addr_size_class_id b) (addr_extent_id b)) \<noteq> None" "address_key a \<noteq> address_key b"
    and "size_class_bytes (addr_size_class_id a) = Some sz" "length data \<le> unat sz"
    and "write_slot a data m = (r, m')"
  shows "r = Ok () \<and> slab_wf m' \<and> allocated_slots m' = allocated_slots m \<and>
    fst (read_slot a (length data) m') = Ok data \<and>
    (\<exists>xs k. fst (read_slot b n m) = Ok xs \<and> fst (read_slot b n m') = Ok (xs @ replicate k 0))"
proof -
  obtain bs where bs: "sm_files m (extent_path (addr_size_class_id a) (addr_extent_id a)) = Some bs"
    using allocated_file [OF assms(1,2)] by blast
  obtain bs' sz' where b: "sm_files m (extent_path (addr_size_class_id b) (addr_extent_id b)) = Some bs'"
      "size_class_bytes (addr_size_class_id b) = Some sz'"
    using assms(3) existing_file_class [OF assms(1)] by blast
  let ?i = "unat (addr_slot_index a)" and ?j = "unat (addr_slot_index b)"
  let ?off = "4096 + ?i * unat sz"
  obtain m1 where m1: "write_slot a data m = (Ok (), m1)" "slab_wf m1" "allocated_slots m1 = allocated_slots m"
    "\<And>c e. sm_files m1 (extent_path c e) = (if c = addr_size_class_id a \<and> e = addr_extent_id a
       then Some (file_write ?off data bs) else sm_files m (extent_path c e))"
    using write_slot_value [OF assms(1) bs assms(5,6)] by blast
  have same: "fst (read_slot a (length data) m1) = Ok data"
    using read_slot_value [OF m1(2) _ assms(5), of "file_write ?off data bs" "length data"] m1(4) assms(6) file_write_read
    by (simp add: min_def)
  have "\<exists>xs k. fst (read_slot b n m) = Ok xs \<and> fst (read_slot b n m1) = Ok (xs @ replicate k 0)"
  proof (cases "addr_size_class_id b = addr_size_class_id a \<and> addr_extent_id b = addr_extent_id a")
    case True
    then have eq: "bs' = bs" "sz' = sz" using b bs assms(5) by simp_all
    have ij: "?i \<noteq> ?j" using True assms(4) by (simp add: address_key_def)
    let ?n = "min (unat sz) n"
    have "Suc ?i * unat sz \<le> ?j * unat sz \<or> Suc ?j * unat sz \<le> ?i * unat sz"
      using ij by (metis linorder_neqE_nat mult_le_mono1 Suc_leI)
    then have "?off + length data \<le> 4096 + ?j * unat sz \<or> 4096 + ?j * unat sz + ?n \<le> ?off"
      using assms(6) by auto
    from file_write_other [OF this, of bs] show ?thesis
      using read_slot_value [OF assms(1) b, of n] read_slot_value [OF m1(2) _ b(2), of "file_write ?off data bs" n] m1(4) True eq
      by auto
  next
    case False
    then have "sm_files m1 (extent_path (addr_size_class_id b) (addr_extent_id b)) = Some bs'" using m1(4) b(1) by auto
    then show ?thesis
      using read_slot_value [OF assms(1) b, of n] read_slot_value [OF m1(2) _ b(2), of bs' n]
      by (intro exI [of _ "window (4096 + ?j * unat sz') (min (unat sz') n) bs'"] exI [of _ 0]) simp
  qed
  with same m1 assms(7) show ?thesis by simp
qed

theorem write_slot_read_slot_witness:
  "\<exists>a b m1 m2. allocate_slot 100 empty_store = Some (Ok a, m1) \<and> address_new 0 0 1 = Ok b \<and>
     write_slot a [1, 2, 3] m1 = (Ok (), m2) \<and> fst (read_slot a 3 m2) = Ok [1, 2, 3] \<and>
     (\<exists>xs k. fst (read_slot b 10 m1) = Ok xs \<and> fst (read_slot b 10 m2) = Ok (xs @ replicate k 0))"
proof -
  obtain a m1 where m1: "allocate_slot 100 empty_store = Some (Ok a, m1)" "takes_slot 0 empty_store (Ok a) m1"
      "address_new 0 0 0 = Ok a"
    by (rule empty_store_alloc)
  then have wf: "slab_wf m1" and a: "address_key a \<in> allocated_slots m1"
    using slab_address_key [of 0] unfolding takes_slot_def by (blast, metis insertI1)
  obtain b where b: "address_new 0 0 1 = Ok b"
    by (simp add: address_new_def MAX_SIZE_CLASS_ID_def MAX_SLAB_EXTENT_ID_def MAX_SLOT_INDEX_def)
  note f = address_new_fields [OF m1(3)] address_new_fields [OF b]
  have "sm_files m1 (extent_path (addr_size_class_id b) (addr_extent_id b)) \<noteq> None"
    using allocated_file [OF wf a] f by auto
  moreover have "address_key a \<noteq> address_key b" using f by (simp add: address_key_def)
  moreover have "size_class_bytes (addr_size_class_id a) = Some 4096"
    using f by (simp add: size_class_bytes_def SLAB_SIZE_CLASSES_def)
  moreover obtain r m2 where w: "write_slot a [1, 2, 3] m1 = (r, m2)" by fastforce
  ultimately have "r = Ok () \<and> fst (read_slot a (length ([1, 2, 3] :: byte list)) m2) = Ok [1, 2, 3] \<and>
      (\<exists>xs k. fst (read_slot b 10 m1) = Ok xs \<and> fst (read_slot b 10 m2) = Ok (xs @ replicate k 0))"
    using write_slot_read_slot [OF wf a, of b 4096 "[1, 2, 3]" r m2 10] by simp
  then show ?thesis using m1(1) b w by (auto simp: numeral_3_eq_3)
qed

text \<open>reading a slot of an extent that does not exist yet reports success with no bytes, but leaves
  an empty extent file behind; when allocation reaches that extent it fails, and every later
  allocation of the class fails the same way.\<close>

theorem read_missing_extent_poisons:
  assumes "slab_wf m" "sm_files m (extent_path (addr_size_class_id a) (addr_extent_id a)) = None"
    and "class_dir (addr_size_class_id a) \<in> sm_dirs m" "size_class_bytes (addr_size_class_id a) = Some sz"
    and "read_slot a n m = (r, m')"
  shows "r = Ok [] \<and> sm_files m' (extent_path (addr_size_class_id a) (addr_extent_id a)) = Some [] \<and>
    (\<exists>m''. alloc_loop (addr_size_class_id a) (addr_extent_id a) m' = Some (Err (SlabIo UnexpectedEof), m'') \<and>
       sm_files m'' = sm_files m')"
proof -
  let ?c = "addr_size_class_id a" and ?e = "addr_extent_id a"
  obtain off where off: "physical_offset a = Ok off" using physical_offset_slot [OF assms(4)] by blast
  obtain k where k: "open_extent ?c ?e m = (Ok (), k)" "opened ?c ?e m k"
    using open_extent_opened [OF assms(1,3)] .
  then have f: "sm_files k (extent_path ?c ?e) = Some []" "fd_wf (sm_fd_pool k)" using assms(2) by (simp_all add: opened_def)
  then have kc: "extent_contents ?c ?e k = []" by (simp add: extent_contents_def)
  then have "read_slot a n m = (Ok [], k)" using assms(4) off k(1) by (simp add: read_slot_def Let_def)
  with assms(5) have r: "r = Ok []" "m' = k" by simp_all
  obtain q where "fd_get_or_open (?c, ?e) True (sm_fd_pool k) = (Ok (), q)" using fd_get_or_open_ok [OF f(2)] by blast
  then have "open_extent ?c ?e k = (Ok (), k\<lparr> sm_fd_pool := q \<rparr>)" using f(1) by (simp add: open_extent_def)
  moreover have "load_header ?c ?e (k\<lparr> sm_fd_pool := q \<rparr>) = Err (SlabIo UnexpectedEof)"
    using kc by (simp add: load_header_def extent_contents_def SLAB_HEADER_SIZE_def)
  ultimately have "alloc_round ?c ?e k = (Some (Err (SlabIo UnexpectedEof)), k\<lparr> sm_fd_pool := q \<rparr>)"
    using f(1) by (simp add: alloc_round_def)
  then have "alloc_loop ?c ?e k = Some (Err (SlabIo UnexpectedEof), k\<lparr> sm_fd_pool := q \<rparr>)"
    by (subst alloc_loop.simps) simp
  then show ?thesis using r f(1) by auto
qed

theorem read_missing_extent_poisons_witness:
  "\<exists>a m1 m2 m3. address_new 0 7 0 = Ok a \<and> sm_dirs m1 = {class_dir 0} \<and> read_slot a 16 m1 = (Ok [], m2) \<and>
     alloc_loop 0 7 m2 = Some (Err (SlabIo UnexpectedEof), m3)"
proof -
  let ?m = "slab_with_options (\<lambda>_. None) 32 1024 {class_dir 0} (\<lambda>_. None)"
  have wf: "slab_wf ?m" using slab_wf_dirs [OF empty_store_wf, of "class_dir 0"] by (simp add: slab_with_options_def cong: if_cong)
  obtain a where a: "address_new 0 7 0 = Ok a"
    by (simp add: address_new_def MAX_SIZE_CLASS_ID_def MAX_SLAB_EXTENT_ID_def MAX_SLOT_INDEX_def)
  note f = address_new_fields [OF a]
  have "size_class_bytes (addr_size_class_id a) = Some 4096"
    using f by (simp add: size_class_bytes_def SLAB_SIZE_CLASSES_def)
  moreover obtain r m2 where r: "read_slot a 16 ?m = (r, m2)" by fastforce
  ultimately obtain m3 where "r = Ok []" "alloc_loop (addr_size_class_id a) (addr_extent_id a) m2 = Some (Err (SlabIo UnexpectedEof), m3)"
    using read_missing_extent_poisons [OF wf, of a 4096 16 r m2] f by (auto simp: slab_with_options_def)
  moreover have "sm_dirs ?m = {class_dir 0}" by (simp add: slab_with_options_def)
  ultimately show ?thesis using a r f by metis
qed

text \<open>The scan of a class directory finds the largest extent id among its extent files.\<close>

lemma scan_extents_names:
  "fold (\<lambda>name_str (max_extent, found_any).
      case extent_of_name name_str of Some ext_id \<Rightarrow> (max max_extent ext_id, True) | None \<Rightarrow> (max_extent, found_any))
     (map extent_name es) (x, f) = (fold max es x, f \<or> es \<noteq> [])"
  by (induction es arbitrary: x f) (auto simp: max.commute)

text \<open>a store opened again resumes every class at the largest extent id that has a file, in whatever
  order the directory is listed, and is well formed whenever its files are.\<close>

theorem slab_reopen:
  assumes "slab_wf m" "\<And>c. c \<le> MAX_SIZE_CLASS_ID \<Longrightarrow> class_dir c \<in> sm_dirs m \<Longrightarrow> read_dir (class_dir c) = Some (map extent_name (ids c))"
    and "\<And>c e. e \<in> set (ids c) \<longleftrightarrow> sm_files m (extent_path c e) \<noteq> None"
    and m'_def: "m' = slab_with_options read_dir cap (sm_slots_per_extent m) (sm_dirs m) (sm_files m)"
  shows "slab_wf m' \<and> allocated_slots m' = allocated_slots m \<and> extent_data m' = extent_data m \<and>
    (\<forall>c \<le> MAX_SIZE_CLASS_ID. sm_active_extents m' c = (if ids c = [] then None else Some (Max (set (ids c)))))"
proof -
  have "sm_slots_per_extent m \<le> MAX_SLOTS_PER_EXTENT" "1 \<le> sm_slots_per_extent m"
    using assms(1) by (simp_all add: slab_wf_def word_le_nat_alt unat_gt_0 Suc_le_eq word_greater_zero_iff)
  then have "max (min (sm_slots_per_extent m) MAX_SLOTS_PER_EXTENT) 1 = sm_slots_per_extent m"
    by (simp add: min_absorb1 max_absorb1)
  then have files: "sm_files m' = sm_files m" "sm_slots_per_extent m' = sm_slots_per_extent m" "sm_dirs m' = sm_dirs m"
    "sm_fd_pool m' = fd_pool_new cap"
    by (simp_all add: m'_def slab_with_options_def)
  have "fp_entries (fd_pool_new cap) = {}" by (simp add: fd_pool_new_def)
  then have "slab_wf m'" using assms(1) by (simp add: slab_wf_def files)
  moreover have "sm_active_extents m' c = (if ids c = [] then None else Some (Max (set (ids c))))"
    if c: "c \<le> MAX_SIZE_CLASS_ID" for c
  proof (cases "class_dir c \<in> sm_dirs m")
    case True
    have "fold max (ids c) 0 = Max (set (ids c))" if "ids c \<noteq> []"
    proof -
      have "Max (set (0 # ids c)) = fold max (ids c) 0" by (rule Max.set_eq_fold)
      with that show ?thesis by (simp add: max_def)
    qed
    with True c assms(2) [OF c True] show ?thesis
      by (simp add: m'_def slab_with_options_def scan_extents_def scan_extents_names)
  next
    case False
    then have "ids c = []"
      using assms(3) [of _ c] slab_wf_file [OF assms(1)] by (metis not_None_eq list.set_intros(1) neq_Nil_conv)
    with False show ?thesis by (simp add: m'_def slab_with_options_def)
  qed
  ultimately show ?thesis using view_files [OF files(1)] by simp
qed

theorem slab_reopen_witness:
  "\<exists>m'. m' = slab_with_options (\<lambda>_. Some []) 8 (sm_slots_per_extent empty_store) (sm_dirs empty_store) (sm_files empty_store) \<and>
     slab_wf m' \<and> sm_active_extents m' 3 = None"
proof -
  have "\<And>e c. (e \<in> set ((\<lambda>_. []) c)) = (sm_files empty_store (extent_path c e) \<noteq> None)"
    by (simp add: slab_with_options_def)
  from slab_reopen [OF empty_store_wf _ this, of "\<lambda>_. Some []"] show ?thesis by (simp add: MAX_SIZE_CLASS_ID_def)
qed

end
