(* ===== verification/Core_Coordinate.thy ===== *)
theory Core_Coordinate
  imports Text_Numbers
begin

text \<open>
  Tile coordinates \<^verbatim>\<open>L<level>:T<tile>:R<record>\<close> of \<^verbatim>\<open>crates/s3a-core/src/lib.rs\<close>: the
  structure, its text form and its parser.  Characters are the code points below 256.
\<close>

record coordinate =
  co_level :: u16
  co_reserved :: u16
  co_tile_id :: u32
  co_record_offset :: u32
  co_padding :: u32

definition coordinate_new :: "u16 \<Rightarrow> u32 \<Rightarrow> u32 \<Rightarrow> coordinate" where
  "coordinate_new level tile_id record_offset =
     \<lparr> co_level = level, co_reserved = 0, co_tile_id = tile_id, co_record_offset = record_offset, co_padding = 0 \<rparr>"

definition coordinate_text :: "coordinate \<Rightarrow> string" where
  "coordinate_text c =
     ''L'' @ format_radix 10 (unat (co_level c)) @ '':T'' @ format_radix 10 (unat (co_tile_id c)) @
     '':R'' @ format_radix 10 (unat (co_record_offset c))"

text \<open>\<^verbatim>\<open>char::is_whitespace\<close>, \<^verbatim>\<open>str::trim\<close> and \<^verbatim>\<open>str::split(':')\<close>.\<close>

definition is_whitespace :: "char \<Rightarrow> bool" where
  "is_whitespace c \<longleftrightarrow> (let n = of_char c :: nat in 9 \<le> n \<and> n \<le> 13 \<or> n = 32 \<or> n = 133 \<or> n = 160)"

definition trim :: "string \<Rightarrow> string" where
  "trim s = rev (dropWhile is_whitespace (rev (dropWhile is_whitespace s)))"

fun split_on :: "char \<Rightarrow> string \<Rightarrow> string list" where
  "split_on d [] = [[]]"
| "split_on d (c # cs) =
    (if c = d then [] # split_on d cs
     else case split_on d cs of [] \<Rightarrow> [[c]] | p # ps \<Rightarrow> (c # p) # ps)"

datatype coordinate_error = InvalidCoordinate

definition coordinate_parse :: "string \<Rightarrow> (coordinate_error, coordinate) result" where
  "coordinate_parse s =
    (case split_on (CHR '':'') (trim s) of
       [p1, p2, p3] \<Rightarrow>
         if take 1 p1 \<noteq> ''L'' \<or> take 1 p2 \<noteq> ''T'' \<or> take 1 p3 \<noteq> ''R'' then Err InvalidCoordinate
         else (case parse_radix 10 (2 ^ 16 - 1) (drop 1 p1) of
           None \<Rightarrow> Err InvalidCoordinate
         | Some level \<Rightarrow>
         case parse_radix 10 (2 ^ 32 - 1) (drop 1 p2) of
           None \<Rightarrow> Err InvalidCoordinate
         | Some tile_id \<Rightarrow>
         case parse_radix 10 (2 ^ 32 - 1) (drop 1 p3) of
           None \<Rightarrow> Err InvalidCoordinate
         | Some record_offset \<Rightarrow> Ok (coordinate_new (of_nat level) (of_nat tile_id) (of_nat record_offset)))
     | _ \<Rightarrow> Err InvalidCoordinate)"

section \<open>Text and back\<close>

lemma split_on_nonempty [simp]: "split_on d s \<noteq> []"
  by (induction s) (auto split: list.split)

lemma split_on_none: "d \<notin> set s \<Longrightarrow> split_on d s = [s]"
  by (induction s) auto

lemma split_on_append: "d \<notin> set s \<Longrightarrow> split_on d (s @ d # t) = s # split_on d t"
  by (induction s) auto

lemma digit_char_plain: "d < 10 \<Longrightarrow> digit_char d \<noteq> CHR '':'' \<and> \<not> is_whitespace (digit_char d)"
  by (auto simp: digit_char_def is_whitespace_def Let_def split: if_splits dest: arg_cong [where f = "of_char :: char \<Rightarrow> nat"])

lemma decimal_plain:
  "x \<in> set (format_radix 10 n) \<Longrightarrow> x \<noteq> CHR '':'' \<and> \<not> is_whitespace x"
proof -
  assume "x \<in> set (format_radix 10 n)"
  then obtain d where "d < 10" "x = digit_char d" using format_radix_chars [of 10 n] by auto
  then show ?thesis using digit_char_plain by simp
qed

lemma colon_decimal: "CHR '':'' \<notin> set (format_radix 10 n)"
  using decimal_plain by blast

lemma trim_plain: "(\<And>x. x \<in> set s \<Longrightarrow> \<not> is_whitespace x) \<Longrightarrow> trim s = s"
proof -
  assume a: "\<And>x. x \<in> set s \<Longrightarrow> \<not> is_whitespace x"
  have d: "dropWhile is_whitespace t = t" if "set t \<subseteq> set s" for t using a that by (cases t) auto
  have "dropWhile is_whitespace s = s" "dropWhile is_whitespace (rev s) = rev s" by (simp_all add: d)
  then show ?thesis by (simp add: trim_def)
qed

lemma coordinate_text_plain: "x \<in> set (coordinate_text c) \<Longrightarrow> \<not> is_whitespace x"
  using decimal_plain by (auto simp: coordinate_text_def) (simp_all add: is_whitespace_def Let_def)

text \<open>a coordinate is read back from its own text, for every coordinate the
  constructor builds.\<close>

theorem coordinate_roundtrip:
  "coordinate_parse (coordinate_text (coordinate_new level tile offset)) = Ok (coordinate_new level tile offset)"
proof -
  let ?c = "coordinate_new level tile offset"
  have "unat level \<le> 2 ^ 16 - 1" using unsigned_less [of level, where 'a = nat] by simp
  moreover have "unat tile \<le> 2 ^ 32 - 1" "unat offset \<le> 2 ^ 32 - 1"
    using unsigned_less [of tile, where 'a = nat] unsigned_less [of offset, where 'a = nat] by simp_all
  moreover have "split_on (CHR '':'') (coordinate_text ?c) =
      [CHR ''L'' # format_radix 10 (unat level), CHR ''T'' # format_radix 10 (unat tile), CHR ''R'' # format_radix 10 (unat offset)]"
    by (simp add: coordinate_text_def coordinate_new_def split_on_append split_on_none colon_decimal)
  ultimately show ?thesis
    by (simp add: coordinate_parse_def trim_plain coordinate_text_plain parse_format_radix)
qed

end
