(* ===== verification/Ql_Error.thy ===== *)
theory Ql_Error
  imports Text_Numbers
begin

text \<open>
  The errors of the query language, \<^verbatim>\<open>crates/s3a-engine/src/ql/error.rs\<close>: their codes, their
  JSON form and the escaping of text inside it.
\<close>

datatype ql_error =
    QlParse (qe_message: string) (qe_line: u32) (qe_col: u32)
  | PackRequired string string
  | AddonRequired u32 string
  | UnsupportedLayout u32 u32
  | QlNotFound string
  | QlIo string
  | QlInternal string

definition ql_code :: "ql_error \<Rightarrow> string" where
  "ql_code e = (case e of
     QlParse _ _ _ \<Rightarrow> ''parse_error''
   | PackRequired _ _ \<Rightarrow> ''pack_required''
   | AddonRequired _ _ \<Rightarrow> ''addon_required''
   | UnsupportedLayout _ _ \<Rightarrow> ''unsupported_layout''
   | QlNotFound _ \<Rightarrow> ''not_found''
   | QlIo _ \<Rightarrow> ''io_error''
   | QlInternal _ \<Rightarrow> ''internal_error'')"

section \<open>Escaping\<close>

abbreviation (input) "ch_quote \<equiv> CHR 0x22"
abbreviation (input) "ch_backslash \<equiv> CHR 0x5C"
abbreviation (input) "ch_newline \<equiv> CHR 0x0A"
abbreviation (input) "ch_return \<equiv> CHR 0x0D"
abbreviation (input) "ch_tab \<equiv> CHR 0x09"

definition replace_char :: "char \<Rightarrow> string \<Rightarrow> string \<Rightarrow> string" where
  "replace_char c t s = concat (map (\<lambda>x. if x = c then t else [x]) s)"

definition escape_json :: "string \<Rightarrow> string" where
  "escape_json s =
    replace_char ch_tab [ch_backslash, CHR ''t'']
      (replace_char ch_return [ch_backslash, CHR ''r'']
        (replace_char ch_newline [ch_backslash, CHR ''n'']
          (replace_char ch_quote [ch_backslash, ch_quote]
            (replace_char ch_backslash [ch_backslash, ch_backslash] s))))"

definition ql_to_json :: "ql_error \<Rightarrow> string" where
  \<open>ql_to_json e = (case e of
     QlParse message line col \<Rightarrow>
       ''{"ok":false,"code":"parse_error","message":"'' @ escape_json message @ ''","line":'' @ decimal line @
       '',"col":'' @ decimal col @ ''}''
   | PackRequired pack feature \<Rightarrow>
       ''{"ok":false,"code":"pack_required","message":"Domain query requires pack '' @ [CHR 0x27] @ pack @ [CHR 0x27] @
       '' for feature '' @ [CHR 0x27] @ feature @ [CHR 0x27] @ ''","pack":"'' @ pack @ ''","feature":"'' @ feature @ ''"}''
   | AddonRequired addon_mask name \<Rightarrow>
       ''{"ok":false,"code":"addon_required","message":"Archive does not have capability 0x'' @ hex4 addon_mask @ '' ('' @
       [CHR 0x27] @ name @ [CHR 0x27] @ '') enabled","addon_mask":"0x'' @ hex4 addon_mask @ ''","name":"'' @ name @ ''"}''
   | UnsupportedLayout tile_type version \<Rightarrow>
       ''{"ok":false,"code":"unsupported_layout","message":"Unsupported record layout version '' @ decimal version @
       '' for tile type '' @ decimal tile_type @ ''","tile_type":'' @ decimal tile_type @ '',"version":'' @ decimal version @ ''}''
   | QlNotFound coordinate \<Rightarrow>
       ''{"ok":false,"code":"not_found","message":"Record not found at coordinate '' @ coordinate @
       ''","coordinate":"'' @ coordinate @ ''"}''
   | QlIo err \<Rightarrow> ''{"ok":false,"code":"io_error","message":"'' @ escape_json err @ ''"}''
   | QlInternal msg \<Rightarrow> ''{"ok":false,"code":"internal_error","message":"'' @ escape_json msg @ ''"}'')\<close>

definition ql_display :: "ql_error \<Rightarrow> string" where
  "ql_display e = (case e of
     QlParse message line col \<Rightarrow> ''Parse error at line '' @ decimal line @ '', col '' @ decimal col @ '': '' @ message
   | PackRequired pack feature \<Rightarrow>
       ''Pack required: feature '' @ [CHR 0x27] @ feature @ [CHR 0x27] @ '' requires domain pack '' @ [CHR 0x27] @ pack @ [CHR 0x27]
   | AddonRequired addon_mask name \<Rightarrow>
       ''Capability required: archive requires addon bit 0x'' @ hex4 addon_mask @ '' ('' @ [CHR 0x27] @ name @ [CHR 0x27] @ '')''
   | UnsupportedLayout tile_type version \<Rightarrow>
       ''Unsupported layout: tile type '' @ decimal tile_type @ '' layout version '' @ decimal version @ '' is not supported''
   | QlNotFound coordinate \<Rightarrow> ''Record not found at coordinate '' @ [CHR 0x27] @ coordinate @ [CHR 0x27]
   | QlIo err \<Rightarrow> ''I/O error: '' @ err
   | QlInternal msg \<Rightarrow> ''Internal error: '' @ msg)"

section \<open>What a JSON reader makes of it\<close>

fun json_unescape :: "string \<Rightarrow> string option" where
  "json_unescape [] = Some []"
| "json_unescape (c # cs) =
    (if c = ch_quote then None
     else if c = ch_backslash then
       (case cs of
          [] \<Rightarrow> None
        | d # ds \<Rightarrow>
            if d = ch_quote \<or> d = ch_backslash then map_option ((#) d) (json_unescape ds)
            else if d = CHR ''n'' then map_option ((#) ch_newline) (json_unescape ds)
            else if d = CHR ''r'' then map_option ((#) ch_return) (json_unescape ds)
            else if d = CHR ''t'' then map_option ((#) ch_tab) (json_unescape ds)
            else None)
     else map_option ((#) c) (json_unescape cs))"

definition escape_char :: "char \<Rightarrow> string" where
  "escape_char c =
    (if c = ch_backslash then [ch_backslash, ch_backslash]
     else if c = ch_quote then [ch_backslash, ch_quote]
     else if c = ch_newline then [ch_backslash, CHR ''n'']
     else if c = ch_return then [ch_backslash, CHR ''r'']
     else if c = ch_tab then [ch_backslash, CHR ''t'']
     else [c])"

lemma escape_json_chars: "escape_json s = concat (map escape_char s)"
  by (induction s) (simp_all add: escape_json_def replace_char_def escape_char_def)

lemma json_unescape_char: "json_unescape (escape_char c @ s) = map_option ((#) c) (json_unescape s)"
  by (simp add: escape_char_def)

definition control_free :: "string \<Rightarrow> bool" where
  "control_free s \<longleftrightarrow> list_all (\<lambda>c. 32 \<le> (of_char c :: nat)) s"

text \<open>the escaped text is a JSON string body that reads back as the text, but it is one that JSON
  allows, free of control characters, only if the text has none besides newline, carriage
  return and tab; the others are passed through unescaped.\<close>

theorem escape_json_reads_back:
  "json_unescape (escape_json s) = Some s \<and>
   (control_free (escape_json s) \<longleftrightarrow>
     control_free (filter (\<lambda>c. c \<noteq> ch_newline \<and> c \<noteq> ch_return \<and> c \<noteq> ch_tab) s))"
proof
  show "json_unescape (escape_json s) = Some s"
    by (induction s) (simp_all add: escape_json_chars json_unescape_char)
  have "control_free (escape_char c) \<longleftrightarrow> 32 \<le> (of_char c :: nat) \<or> c = ch_newline \<or> c = ch_return \<or> c = ch_tab" for c
    by (auto simp: escape_char_def control_free_def)
  then show "control_free (escape_json s) \<longleftrightarrow>
     control_free (filter (\<lambda>c. c \<noteq> ch_newline \<and> c \<noteq> ch_return \<and> c \<noteq> ch_tab) s)"
    by (induction s) (auto simp: escape_json_chars control_free_def)
qed

end
