(* ===== verification/Ql_Lexer.thy ===== *)
theory Ql_Lexer
  imports Ql_Error Core_Coordinate
begin

text \<open>
  The lexer of the query language, \<^verbatim>\<open>crates/s3a-engine/src/ql/lexer.rs\<close>.  The character
  vector and its position are the characters that are left; they are the code points below
  256.  The \<^verbatim>\<open>f64\<close> values of number tokens are a type parameter, and reading one from its
  text, the standard library's \<^verbatim>\<open>str::parse::<f64>\<close>, is the argument \<open>parse_f64\<close>.
\<close>

text \<open>The tokens in the groups the source gives them: keywords, domains, condition words,
  literals and symbols.\<close>

datatype keyword =
    KFetch | KRecord | KAt | KFrom | KSift | KWhere | KAnd | KBetween | KLimit | KInsert
    | KInto | KDelete | KCompact | KArchive | KFuse | KTiles | KWith | KTrue | KFalse
    | KVersion | KPragma

datatype domain_word =
    DTelemetry | DKinematics | DGisMesh | DEmbeddings | DDaCommitments | DLearningActivities
    | DHumanLrs | DAiTraces | DAcademicPapers

datatype condition_word =
    CTime | CSensorId | CMetricId | CActorId | CVerbId | CSpatialBox | CIn | CSimplex | CMin
    | CMax | CLatitude | CLongitude | CElevation | CSimilarity | CTo | CUsing | CCosine
    | CDotProduct | CThreshold | CBlockHeight | CCompose | CWeight | CSpatialProximity | CDecay
    | CHalflife

datatype 'f token =
    TKeyword keyword | TDomain domain_word | TCondition condition_word
  | TCoordinate string | TStringLiteral string | TNumber 'f | TIdentifier string
  | TComma | TEqual | TSemicolon | TLParen | TRParen | TLBracket | TRBracket
  | TEof

abbreviation "TFetch \<equiv> TKeyword KFetch"
abbreviation "TRecord \<equiv> TKeyword KRecord"
abbreviation "TAt \<equiv> TKeyword KAt"
abbreviation "TFrom \<equiv> TKeyword KFrom"
abbreviation "TSift \<equiv> TKeyword KSift"
abbreviation "TWhere \<equiv> TKeyword KWhere"
abbreviation "TAnd \<equiv> TKeyword KAnd"
abbreviation "TBetween \<equiv> TKeyword KBetween"
abbreviation "TLimit \<equiv> TKeyword KLimit"
abbreviation "TInsert \<equiv> TKeyword KInsert"
abbreviation "TInto \<equiv> TKeyword KInto"
abbreviation "TDelete \<equiv> TKeyword KDelete"
abbreviation "TCompact \<equiv> TKeyword KCompact"
abbreviation "TArchive \<equiv> TKeyword KArchive"
abbreviation "TFuse \<equiv> TKeyword KFuse"
abbreviation "TTiles \<equiv> TKeyword KTiles"
abbreviation "TWith \<equiv> TKeyword KWith"
abbreviation "TTrue \<equiv> TKeyword KTrue"
abbreviation "TFalse \<equiv> TKeyword KFalse"
abbreviation "TVersion \<equiv> TKeyword KVersion"
abbreviation "TPragma \<equiv> TKeyword KPragma"

abbreviation "TTelemetry \<equiv> TDomain DTelemetry"
abbreviation "TKinematics \<equiv> TDomain DKinematics"
abbreviation "TGisMesh \<equiv> TDomain DGisMesh"
abbreviation "TEmbeddings \<equiv> TDomain DEmbeddings"
abbreviation "TDaCommitments \<equiv> TDomain DDaCommitments"
abbreviation "TLearningActivities \<equiv> TDomain DLearningActivities"
abbreviation "THumanLrs \<equiv> TDomain DHumanLrs"
abbreviation "TAiTraces \<equiv> TDomain DAiTraces"
abbreviation "TAcademicPapers \<equiv> TDomain DAcademicPapers"

abbreviation "TTime \<equiv> TCondition CTime"
abbreviation "TSensorId \<equiv> TCondition CSensorId"
abbreviation "TMetricId \<equiv> TCondition CMetricId"
abbreviation "TActorId \<equiv> TCondition CActorId"
abbreviation "TVerbId \<equiv> TCondition CVerbId"
abbreviation "TSpatialBox \<equiv> TCondition CSpatialBox"
abbreviation "TIn \<equiv> TCondition CIn"
abbreviation "TSimplex \<equiv> TCondition CSimplex"
abbreviation "TMin \<equiv> TCondition CMin"
abbreviation "TMax \<equiv> TCondition CMax"
abbreviation "TLatitude \<equiv> TCondition CLatitude"
abbreviation "TLongitude \<equiv> TCondition CLongitude"
abbreviation "TElevation \<equiv> TCondition CElevation"
abbreviation "TSimilarity \<equiv> TCondition CSimilarity"
abbreviation "TTo \<equiv> TCondition CTo"
abbreviation "TUsing \<equiv> TCondition CUsing"
abbreviation "TCosine \<equiv> TCondition CCosine"
abbreviation "TDotProduct \<equiv> TCondition CDotProduct"
abbreviation "TThreshold \<equiv> TCondition CThreshold"
abbreviation "TBlockHeight \<equiv> TCondition CBlockHeight"
abbreviation "TCompose \<equiv> TCondition CCompose"
abbreviation "TWeight \<equiv> TCondition CWeight"
abbreviation "TSpatialProximity \<equiv> TCondition CSpatialProximity"
abbreviation "TDecay \<equiv> TCondition CDecay"
abbreviation "THalflife \<equiv> TCondition CHalflife"

record lexer =
  lx_rest :: string
  lx_line :: u32
  lx_col :: u32

definition lexer_new :: "string \<Rightarrow> lexer" where
  "lexer_new input = \<lparr> lx_rest = input, lx_line = 1, lx_col = 1 \<rparr>"

section \<open>Characters\<close>

definition is_ascii_digit :: "char \<Rightarrow> bool" where
  "is_ascii_digit c \<longleftrightarrow> (let n = of_char c :: nat in 48 \<le> n \<and> n \<le> 57)"

definition is_ascii_alphabetic :: "char \<Rightarrow> bool" where
  "is_ascii_alphabetic c \<longleftrightarrow> (let n = of_char c :: nat in 65 \<le> n \<and> n \<le> 90 \<or> 97 \<le> n \<and> n \<le> 122)"

definition to_ascii_upper :: "char \<Rightarrow> char" where
  "to_ascii_upper c = (let n = of_char c :: nat in if 97 \<le> n \<and> n \<le> 122 then char_of (n - 32) else c)"

fun contains_str :: "string \<Rightarrow> string \<Rightarrow> bool" where
  "contains_str pat [] \<longleftrightarrow> pat = []"
| "contains_str pat (c # cs) \<longleftrightarrow> take (length pat) (c # cs) = pat \<or> contains_str pat cs"

section \<open>Moving on\<close>

definition lx_advance :: "lexer \<Rightarrow> char option \<times> lexer" where
  "lx_advance lx =
    (case lx_rest lx of
       [] \<Rightarrow> (None, lx)
     | c # cs \<Rightarrow>
         (Some c, if c = ch_newline then \<lparr> lx_rest = cs, lx_line = lx_line lx + 1, lx_col = 1 \<rparr>
                  else \<lparr> lx_rest = cs, lx_line = lx_line lx, lx_col = lx_col lx + 1 \<rparr>))"

definition lx_peek :: "lexer \<Rightarrow> char option" where
  "lx_peek lx = (case lx_rest lx of [] \<Rightarrow> None | c # cs \<Rightarrow> Some c)"

abbreviation lx_next :: "lexer \<Rightarrow> lexer" where "lx_next lx \<equiv> snd (lx_advance lx)"

lemma lx_advance_simps [simp]:
  "lx_rest lx = [] \<Longrightarrow> lx_advance lx = (None, lx)"
  "lx_rest lx = c # cs \<Longrightarrow> fst (lx_advance lx) = Some c"
  "lx_rest (lx_next lx) = tl (lx_rest lx)"
  by (auto simp: lx_advance_def split: list.split)

lemma lx_advance_Cons: "lx_rest lx = c # cs \<Longrightarrow> lx_advance lx = (Some c, lx_next lx)"
  by (auto simp: lx_advance_def)

function skip_comment :: "lexer \<Rightarrow> lexer" where
  "skip_comment lx =
    (case lx_rest lx of
       [] \<Rightarrow> lx
     | c # cs \<Rightarrow> if c = ch_newline then lx_next lx else skip_comment (lx_next lx))"
  by auto
termination by (relation "measure (length \<circ> lx_rest)") auto

declare skip_comment.simps [simp del]

lemma skip_comment_length: "length (lx_rest (skip_comment lx)) \<le> length (lx_rest lx)"
proof (induction lx rule: skip_comment.induct)
  case (1 lx)
  then show ?case by (subst skip_comment.simps) (fastforce split: list.split)
qed

lemma skip_comment_shorter: "lx_rest lx = c # cs \<Longrightarrow> length (lx_rest (skip_comment lx)) < Suc (length cs)"
  using skip_comment_length [of "lx_next lx"]
  by (subst skip_comment.simps) (auto split: list.split)

function lx_skip_whitespace :: "lexer \<Rightarrow> lexer" where
  "lx_skip_whitespace lx =
    (case lx_rest lx of
       [] \<Rightarrow> lx
     | ch # cs \<Rightarrow>
         if is_whitespace ch then lx_skip_whitespace (lx_next lx)
         else if ch = CHR ''-'' \<and> take 1 cs = ''-'' then lx_skip_whitespace (skip_comment lx)
         else lx)"
  by auto
termination by (relation "measure (length \<circ> lx_rest)") (auto intro: skip_comment_shorter)

declare lx_skip_whitespace.simps [simp del]

text \<open>The loops of the literals: what they collect and the lexer after them.\<close>

function lex_string :: "char \<Rightarrow> lexer \<Rightarrow> string \<Rightarrow> (string \<times> lexer) option" where
  "lex_string quote lx s =
    (case lx_rest lx of
       [] \<Rightarrow> None
     | c # cs \<Rightarrow> if c = quote then Some (s, lx_next lx) else lex_string quote (lx_next lx) (s @ [c]))"
  by auto
termination by (relation "measure (\<lambda>(q, lx, s). length (lx_rest lx))") auto

function skip_unit :: "lexer \<Rightarrow> lexer" where
  "skip_unit lx =
    (case lx_rest lx of
       [] \<Rightarrow> lx
     | c # cs \<Rightarrow> if is_ascii_alphabetic c then skip_unit (lx_next lx) else lx)"
  by auto
termination by (relation "measure (length \<circ> lx_rest)") auto

declare lex_string.simps [simp del] skip_unit.simps [simp del]

lemma skip_unit_length: "length (lx_rest (skip_unit lx)) \<le> length (lx_rest lx)"
proof (induction lx rule: skip_unit.induct)
  case (1 lx)
  then show ?case by (subst skip_unit.simps) (fastforce split: list.split)
qed

function lex_digits :: "lexer \<Rightarrow> bool \<Rightarrow> string \<Rightarrow> string \<times> lexer" where
  "lex_digits lx seen_dot s =
    (case lx_rest lx of
       [] \<Rightarrow> (s, lx)
     | c # cs \<Rightarrow>
         if is_ascii_digit c then lex_digits (lx_next lx) seen_dot (s @ [c])
         else if c = CHR ''.'' \<and> \<not> seen_dot then lex_digits (lx_next lx) True (s @ [c])
         else if c = CHR ''_'' then lex_digits (skip_unit (lx_next lx)) seen_dot s
         else (s, lx))"
  by auto
termination
  by (relation "measure (\<lambda>(lx, d, s). length (lx_rest lx))")
    (auto intro: le_less_trans [OF skip_unit_length])

function lex_word :: "lexer \<Rightarrow> string \<Rightarrow> string \<times> lexer" where
  "lex_word lx s =
    (case lx_rest lx of
       [] \<Rightarrow> (s, lx)
     | c # cs \<Rightarrow>
         if is_ascii_alphabetic c \<or> is_ascii_digit c \<or> c = CHR ''_'' \<or> c = CHR '':''
         then lex_word (lx_next lx) (s @ [c]) else (s, lx))"
  by auto
termination by (relation "measure (\<lambda>(lx, s). length (lx_rest lx))") auto

declare lex_digits.simps [simp del] lex_word.simps [simp del]

definition lex_number :: "(string \<Rightarrow> 'f option) \<Rightarrow> lexer \<Rightarrow> (ql_error, 'f token \<times> lexer) result" where
  "lex_number parse_f64 lx =
    (let (s, lx1) = (if lx_peek lx = Some (CHR ''-'') then (''-'', lx_next lx) else ([], lx));
         (s, lx2) = lex_digits lx1 False s
     in case parse_f64 s of
          Some num \<Rightarrow> Ok (TNumber num, lx2)
        | None \<Rightarrow> Err (QlParse (''Failed to parse number: '' @ [CHR 0x27] @ s @ [CHR 0x27]) (lx_line lx) (lx_col lx)))"

definition keyword_table :: "(string \<times> 'f token) list" where
  "keyword_table =
    [(''VERSION'', TVersion), (''PRAGMA'', TPragma), (''FETCH'', TFetch), (''RECORD'', TRecord), (''AT'', TAt),
     (''FROM'', TFrom), (''SIFT'', TSift), (''WHERE'', TWhere), (''AND'', TAnd), (''BETWEEN'', TBetween),
     (''LIMIT'', TLimit), (''INSERT'', TInsert), (''INTO'', TInto), (''DELETE'', TDelete), (''COMPACT'', TCompact),
     (''ARCHIVE'', TArchive), (''FUSE'', TFuse), (''TILES'', TTiles), (''WITH'', TWith), (''TRUE'', TTrue), (''FALSE'', TFalse),
     (''TELEMETRY'', TTelemetry), (''KINEMATICS'', TKinematics), (''GIS_MESH'', TGisMesh), (''EMBEDDINGS'', TEmbeddings),
     (''DA_COMMITMENTS'', TDaCommitments), (''LEARNING_ACTIVITIES'', TLearningActivities),
     (''ACTIVITIES'', TLearningActivities), (''LRS'', TLearningActivities), (''HUMAN_LRS'', THumanLrs),
     (''AI_TRACES'', TAiTraces), (''AI_TRACE_LOG'', TAiTraces), (''ACADEMIC_PAPERS'', TAcademicPapers),
     (''PAPERS'', TAcademicPapers),
     (''TIME'', TTime), (''SENSOR_ID'', TSensorId), (''METRIC_ID'', TMetricId), (''ACTOR_ID'', TActorId),
     (''VERB_ID'', TVerbId), (''SPATIAL_BOX'', TSpatialBox), (''IN'', TIn), (''SIMPLEX'', TSimplex), (''MIN'', TMin),
     (''MAX'', TMax), (''LATITUDE'', TLatitude), (''LONGITUDE'', TLongitude), (''ELEVATION'', TElevation),
     (''SIMILARITY'', TSimilarity), (''TO'', TTo), (''USING'', TUsing), (''COSINE'', TCosine), (''DOT_PRODUCT'', TDotProduct),
     (''THRESHOLD'', TThreshold), (''BLOCK_HEIGHT'', TBlockHeight), (''COMPOSE'', TCompose), (''WEIGHT'', TWeight),
     (''SPATIAL_PROXIMITY'', TSpatialProximity), (''DECAY'', TDecay), (''HALFLIFE'', THalflife)]"

definition word_token :: "string \<Rightarrow> 'f token" where
  "word_token s =
    (if take 1 s = ''L'' \<and> contains_str '':T'' s \<and> contains_str '':R'' s then TCoordinate s
     else case map_of keyword_table (map to_ascii_upper s) of
       Some token \<Rightarrow> token
     | None \<Rightarrow> TIdentifier s)"

definition lex_ident_or_keyword :: "lexer \<Rightarrow> (ql_error, 'f token \<times> lexer) result" where
  "lex_ident_or_keyword lx = (let (s, lx) = lex_word lx [] in Ok (word_token s, lx))"

definition symbol_token :: "char \<Rightarrow> 'f token option" where
  "symbol_token ch =
    map_of [(CHR '','', TComma), (CHR ''='', TEqual), (CHR '';'', TSemicolon), (CHR ''('', TLParen), (CHR '')'', TRParen),
            (CHR ''['', TLBracket), (CHR '']'', TRBracket)] ch"

definition next_token :: "(string \<Rightarrow> 'f option) \<Rightarrow> lexer \<Rightarrow> (ql_error, 'f token \<times> lexer) result" where
  "next_token parse_f64 lx =
    (let lx = lx_skip_whitespace lx in
     case lx_rest lx of
       [] \<Rightarrow> Ok (TEof, lx)
     | ch # cs \<Rightarrow>
         (case symbol_token ch of
            Some token \<Rightarrow> Ok (token, lx_next lx)
          | None \<Rightarrow>
              if ch = ch_quote \<or> ch = CHR 0x27 then
                (case lex_string ch (lx_next lx) [] of
                   Some (s, lx') \<Rightarrow> Ok (TStringLiteral s, lx')
                 | None \<Rightarrow> Err (QlParse ''Unterminated string literal'' (lx_line lx) (lx_col lx)))
              else if is_ascii_digit ch \<or> ch = CHR ''-'' \<and> cs \<noteq> [] \<and> is_ascii_digit (hd cs) then lex_number parse_f64 lx
              else if is_ascii_alphabetic ch \<or> ch = CHR ''_'' then lex_ident_or_keyword lx
              else Err (QlParse (''Unexpected character: '' @ [CHR 0x27, ch, CHR 0x27]) (lx_line lx) (lx_col lx))))"

section \<open>Positions\<close>

text \<open>How the position moves over text; what one lexer state consumed to become another.\<close>

definition pos_step :: "char \<Rightarrow> u32 \<times> u32 \<Rightarrow> u32 \<times> u32" where
  "pos_step c p = (if c = ch_newline then (fst p + 1, 1) else (fst p, snd p + 1))"

definition consumed :: "string \<Rightarrow> lexer \<Rightarrow> lexer \<Rightarrow> bool" where
  "consumed pre lx lx' \<longleftrightarrow> lx_rest lx = pre @ lx_rest lx' \<and>
     (lx_line lx', lx_col lx') = fold pos_step pre (lx_line lx, lx_col lx)"

definition reaches :: "lexer \<Rightarrow> lexer \<Rightarrow> bool" where
  "reaches lx lx' \<longleftrightarrow> (\<exists>pre. consumed pre lx lx')"

lemma reaches_refl [simp]: "reaches lx lx"
  unfolding reaches_def by (rule exI [of _ "[]"]) (simp add: consumed_def)

lemma reaches_trans: "reaches a b \<Longrightarrow> reaches b c \<Longrightarrow> reaches a c"
  unfolding reaches_def consumed_def by (metis append_assoc fold_append comp_apply)

lemma reaches_next: "lx_rest lx = c # cs \<Longrightarrow> reaches lx (lx_next lx)"
  unfolding reaches_def by (rule exI [of _ "[c]"]) (simp add: consumed_def lx_advance_def pos_step_def)

lemma reaches_next_trans: "lx_rest lx = c # cs \<Longrightarrow> reaches (lx_next lx) l' \<Longrightarrow> reaches lx l'"
  by (rule reaches_trans [OF reaches_next])

lemma reaches_length: "reaches lx lx' \<Longrightarrow> length (lx_rest lx') \<le> length (lx_rest lx)"
  by (auto simp: reaches_def consumed_def)

lemma skip_comment_reaches: "reaches lx (skip_comment lx)"
proof (induction lx rule: skip_comment.induct)
  case (1 lx)
  then show ?case by (subst skip_comment.simps) (auto split: list.split intro: reaches_next reaches_next_trans)
qed

lemma skip_whitespace_reaches: "reaches lx (lx_skip_whitespace lx)"
proof (induction lx rule: lx_skip_whitespace.induct)
  case (1 lx)
  then show ?case
    by (subst lx_skip_whitespace.simps)
      (auto split: list.split intro: reaches_next_trans reaches_trans [OF skip_comment_reaches])
qed

lemma skip_unit_reaches: "reaches lx (skip_unit lx)"
proof (induction lx rule: skip_unit.induct)
  case (1 lx)
  then show ?case by (subst skip_unit.simps) (auto split: list.split intro: reaches_next_trans)
qed

lemma lex_string_reaches: "lex_string q lx s = Some (t, lx') \<Longrightarrow> reaches lx lx'"
proof (induction q lx s rule: lex_string.induct)
  case (1 q lx s)
  from 1(2) obtain c cs where c: "lx_rest lx = c # cs" by (subst (asm) lex_string.simps) (auto split: list.splits)
  show ?case
  proof (cases "c = q")
    case True
    with 1(2) c show ?thesis by (subst (asm) lex_string.simps) (auto intro: reaches_next)
  next
    case False
    with 1(2) c have "lex_string q (lx_next lx) (s @ [c]) = Some (t, lx')" by (subst (asm) lex_string.simps) simp
    with 1(1) [OF c False] reaches_next_trans [OF c] show ?thesis by blast
  qed
qed

lemma lex_digits_reaches: "reaches lx (snd (lex_digits lx d s))"
proof (induction lx d s rule: lex_digits.induct)
  case (1 lx d s)
  then show ?case
    by (subst lex_digits.simps)
      (auto split: list.split intro: reaches_next_trans reaches_next_trans [OF _ reaches_trans [OF skip_unit_reaches]])
qed

lemma lex_word_reaches: "reaches lx (snd (lex_word lx s))"
proof (induction lx s rule: lex_word.induct)
  case (1 lx s)
  then show ?case by (subst lex_word.simps) (auto split: list.split intro: reaches_next_trans)
qed

text \<open>A token moves forward, by at least a character unless it is the end; an error is reported
  at the position of a character that is still there.\<close>

lemma lex_digits_progress:
  "lx_rest lx = c # cs \<Longrightarrow> is_ascii_digit c \<Longrightarrow> length (lx_rest (snd (lex_digits lx d s))) \<le> length cs"
  using reaches_length [OF lex_digits_reaches [of "lx_next lx" d "s @ [c]"]]
  by (subst lex_digits.simps) simp

lemma lex_word_progress:
  "lx_rest lx = c # cs \<Longrightarrow> is_ascii_alphabetic c \<or> c = CHR ''_'' \<Longrightarrow> length (lx_rest (snd (lex_word lx s))) \<le> length cs"
  using reaches_length [OF lex_word_reaches [of "lx_next lx" "s @ [c]"]]
  by (subst lex_word.simps) auto

lemma lex_number_ok:
  assumes "lex_number f lx = Ok (tok, lx')" "lx_rest lx = c # cs"
    and "is_ascii_digit c \<or> c = CHR ''-'' \<and> cs \<noteq> [] \<and> is_ascii_digit (hd cs)"
  shows "reaches lx lx' \<and> length (lx_rest lx') \<le> length cs"
proof (cases "c = CHR ''-''")
  case True
  with assms have "lx' = snd (lex_digits (lx_next lx) False ''-'')"
    by (auto simp: lex_number_def lx_peek_def split: prod.splits option.splits)
  then show ?thesis
    using assms(2) reaches_next_trans [OF assms(2) lex_digits_reaches] reaches_length [OF lex_digits_reaches [of "lx_next lx"]]
    by simp
next
  case False
  with assms have "lx' = snd (lex_digits lx False [])"
    by (auto simp: lex_number_def lx_peek_def split: prod.splits option.splits)
  then show ?thesis using False assms lex_digits_reaches lex_digits_progress by simp
qed

lemma next_token_ok:
  assumes "next_token f lx = Ok (tok, lx')"
  shows "reaches lx lx' \<and> (tok = TEof \<or> length (lx_rest lx') < length (lx_rest lx))"
proof -
  let ?lx = "lx_skip_whitespace lx"
  have r: "reaches lx ?lx" by (rule skip_whitespace_reaches)
  show ?thesis
  proof (cases "lx_rest ?lx")
    case Nil
    with assms r show ?thesis by (simp add: next_token_def)
  next
    case (Cons ch cs)
    have "reaches ?lx lx' \<and> length (lx_rest lx') \<le> length cs"
    proof (cases "symbol_token ch :: 'a token option")
      case (Some t)
      with assms Cons show ?thesis by (simp add: next_token_def) (auto intro: reaches_next)
    next
      case None
      consider (str) "ch = ch_quote \<or> ch = CHR 0x27"
        | (num) "\<not> (ch = ch_quote \<or> ch = CHR 0x27)" "is_ascii_digit ch \<or> ch = CHR ''-'' \<and> cs \<noteq> [] \<and> is_ascii_digit (hd cs)"
        | (word) "\<not> (ch = ch_quote \<or> ch = CHR 0x27)"
            "\<not> (is_ascii_digit ch \<or> ch = CHR ''-'' \<and> cs \<noteq> [] \<and> is_ascii_digit (hd cs))"
            "is_ascii_alphabetic ch \<or> ch = CHR ''_''"
        | (bad) "\<not> (ch = ch_quote \<or> ch = CHR 0x27)"
            "\<not> (is_ascii_digit ch \<or> ch = CHR ''-'' \<and> cs \<noteq> [] \<and> is_ascii_digit (hd cs))"
            "\<not> (is_ascii_alphabetic ch \<or> ch = CHR ''_'')"
        by blast
      then show ?thesis
      proof cases
        case str
        with assms Cons None obtain s where s: "lex_string ch (lx_next ?lx) [] = Some (s, lx')"
          by (auto simp: next_token_def Let_def split: option.splits)
        with Cons show ?thesis
          using lex_string_reaches [OF s] reaches_length [OF lex_string_reaches [OF s]] reaches_next_trans by simp
      next
        case num
        with assms Cons None have "lex_number f ?lx = Ok (tok, lx')" by (simp add: next_token_def)
        from lex_number_ok [OF this Cons num(2)] show ?thesis .
      next
        case word
        with assms Cons None have "lx' = snd (lex_word ?lx [])"
          by (auto simp: next_token_def lex_ident_or_keyword_def split: prod.splits)
        then show ?thesis using lex_word_reaches lex_word_progress [OF Cons word(3)] by simp
      next
        case bad
        with assms Cons None show ?thesis by (simp add: next_token_def Let_def)
      qed
    qed
    with reaches_trans [OF r] reaches_length [OF r] Cons show ?thesis by auto
  qed
qed

lemma next_token_err:
  assumes "next_token f lx = Err e"
  shows "\<exists>msg lx'. e = QlParse msg (lx_line lx') (lx_col lx') \<and> reaches lx lx' \<and> lx_rest lx' \<noteq> []"
proof -
  let ?lx = "lx_skip_whitespace lx"
  have "lx_rest ?lx \<noteq> []" using assms by (auto simp: next_token_def)
  moreover from this assms have "\<exists>msg. e = QlParse msg (lx_line ?lx) (lx_col ?lx)"
    by (auto simp: next_token_def lex_number_def lex_ident_or_keyword_def Let_def
        split: list.splits option.splits if_splits prod.splits)
  ultimately show ?thesis using skip_whitespace_reaches by blast
qed

section \<open>The token sequence\<close>

function tokenize_loop :: "(string \<Rightarrow> 'f option) \<Rightarrow> lexer \<Rightarrow> 'f token list \<Rightarrow> (ql_error, 'f token list) result" where
  "tokenize_loop parse_f64 lx tokens =
    (case next_token parse_f64 lx of
       Err e \<Rightarrow> Err e
     | Ok (tok, lx) \<Rightarrow> if tok = TEof then Ok (tokens @ [TEof]) else tokenize_loop parse_f64 lx (tokens @ [tok]))"
  by auto
termination
  by (relation "measure (\<lambda>(f, lx, ts). length (lx_rest lx))") (auto dest: next_token_ok)

declare tokenize_loop.simps [simp del]

definition tokenize_all :: "(string \<Rightarrow> 'f option) \<Rightarrow> lexer \<Rightarrow> (ql_error, 'f token list) result" where
  "tokenize_all parse_f64 lx = tokenize_loop parse_f64 lx []"

lemma tokenize_loop_err:
  "tokenize_loop f lx ts = Err e \<Longrightarrow> \<exists>msg lx'. e = QlParse msg (lx_line lx') (lx_col lx') \<and> reaches lx lx' \<and> lx_rest lx' \<noteq> []"
proof (induction f lx ts rule: tokenize_loop.induct)
  case (1 f lx ts)
  show ?case
  proof (cases "next_token f lx")
    case (Inl x)
    with 1(2) show ?thesis using next_token_err by (subst (asm) tokenize_loop.simps) auto
  next
    case (Inr p)
    obtain tok l where p: "p = (tok, l)" by fastforce
    with 1(2) Inr have "tok \<noteq> TEof" "tokenize_loop f l (ts @ [tok]) = Err e"
      by (subst (asm) tokenize_loop.simps, simp split: if_splits)+
    with 1(1) [OF Inr p [symmetric]] show ?thesis using next_token_ok [of f lx tok l] Inr p reaches_trans by blast
  qed
qed

section \<open>Spelling tokens\<close>

text \<open>The ways to write a token down.\<close>

definition word_char :: "char \<Rightarrow> bool" where
  "word_char c \<longleftrightarrow> is_ascii_alphabetic c \<or> is_ascii_digit c \<or> c = CHR ''_'' \<or> c = CHR '':''"

inductive lexeme :: "(string \<Rightarrow> 'f option) \<Rightarrow> string \<Rightarrow> 'f token \<Rightarrow> bool" for f where
  symbol: "symbol_token c = Some t \<Longrightarrow> lexeme f [c] t"
| quoted: "q = ch_quote \<or> q = CHR 0x27 \<Longrightarrow> q \<notin> set s \<Longrightarrow> lexeme f (q # s @ [q]) (TStringLiteral s)"
| number: "sign = [] \<or> sign = ''-'' \<Longrightarrow> digits \<noteq> [] \<Longrightarrow> list_all is_ascii_digit digits \<Longrightarrow>
    fraction = [] \<or> (\<exists>ds. fraction = CHR ''.'' # ds \<and> list_all is_ascii_digit ds) \<Longrightarrow>
    f (sign @ digits @ fraction) = Some n \<Longrightarrow> lexeme f (sign @ digits @ fraction) (TNumber n)"
| word: "is_ascii_alphabetic c \<or> c = CHR ''_'' \<Longrightarrow> list_all word_char cs \<Longrightarrow> lexeme f (c # cs) (word_token (c # cs))"

lemma whitespace_chars:
  assumes "is_whitespace c"
  shows "\<not> is_ascii_digit c" "\<not> is_ascii_alphabetic c" "\<not> word_char c" "c \<noteq> CHR ''.''" "c \<noteq> CHR ''_''" "c \<noteq> CHR ''-''"
  using assms by (auto simp: is_whitespace_def is_ascii_digit_def is_ascii_alphabetic_def word_char_def Let_def)

lemma plain_chars [simp]:
  "\<not> is_whitespace (CHR ''_'')" "\<not> is_whitespace (CHR '':'')" "\<not> is_whitespace (CHR ''.'')" "\<not> is_whitespace (CHR ''-'')"
  "\<not> is_whitespace ch_quote" "\<not> is_whitespace (CHR 0x27)"
  by (simp_all add: is_whitespace_def)

lemma symbol_token_None:
  "symbol_token c = None \<longleftrightarrow> c \<notin> {CHR '','', CHR ''='', CHR '';'', CHR ''('', CHR '')'', CHR ''['', CHR '']''}"
  by (simp add: symbol_token_def)

lemma symbol_token_quotes [simp]: "symbol_token ch_quote = None" "symbol_token (CHR 0x27) = None" "symbol_token (CHR ''-'') = None"
  by (simp_all add: symbol_token_def)

lemma symbol_chars:
  assumes "symbol_token c = Some t"
  shows "\<not> is_whitespace c" "c \<noteq> CHR ''-''"
proof -
  have "c \<in> {CHR '','', CHR ''='', CHR '';'', CHR ''('', CHR '')'', CHR ''['', CHR '']''}"
    using assms symbol_token_None [of c] by (metis option.distinct(1))
  then show "\<not> is_whitespace c" "c \<noteq> CHR ''-''" by (auto simp: is_whitespace_def)
qed

lemma symbol_not_eof: "symbol_token c = Some t \<Longrightarrow> t \<noteq> TEof"
  unfolding symbol_token_def by (drule map_of_SomeD) auto

lemma digit_chars:
  assumes "is_ascii_digit c"
  shows "\<not> is_whitespace c" "c \<noteq> CHR ''.''" "c \<noteq> CHR ''_''" "c \<noteq> CHR ''-''" "c \<noteq> ch_quote" "c \<noteq> CHR 0x27" "symbol_token c = None"
  unfolding symbol_token_None using assms by (auto simp: is_whitespace_def is_ascii_digit_def Let_def)

lemma word_start_chars:
  assumes "is_ascii_alphabetic c \<or> c = CHR ''_''"
  shows "\<not> is_whitespace c" "\<not> is_ascii_digit c" "c \<noteq> CHR ''-''" "c \<noteq> ch_quote" "c \<noteq> CHR 0x27" "symbol_token c = None"
  unfolding symbol_token_None using assms by (auto simp: is_whitespace_def is_ascii_digit_def is_ascii_alphabetic_def Let_def)

text \<open>What stops the loops: the end, or white space.\<close>

definition stops :: "string \<Rightarrow> bool" where
  "stops r \<longleftrightarrow> r = [] \<or> is_whitespace (hd r)"

lemma lex_word_text:
  "list_all word_char u \<Longrightarrow> stops r \<Longrightarrow> lx_rest lx = u @ r \<Longrightarrow> \<exists>l. lex_word lx s = (s @ u, l) \<and> lx_rest l = r"
proof (induction u arbitrary: lx s)
  case Nil
  then show ?case
    using whitespace_chars(3) by (subst lex_word.simps) (auto simp: stops_def word_char_def split: list.split)
next
  case (Cons c u)
  from Cons.IH [of "lx_next lx" "s @ [c]"] Cons.prems show ?case
    by (subst lex_word.simps) (auto simp: word_char_def)
qed

lemma lex_digits_text:
  "list_all is_ascii_digit u \<Longrightarrow> lx_rest lx = u @ r \<Longrightarrow> \<exists>l. lex_digits lx d s = lex_digits l d (s @ u) \<and> lx_rest l = r"
proof (induction u arbitrary: lx s)
  case (Cons c u)
  from Cons.IH [of "lx_next lx" "s @ [c]"] Cons.prems show ?case
    by (subst lex_digits.simps) auto
qed auto

lemma lex_digits_stop: "stops (lx_rest lx) \<Longrightarrow> lex_digits lx d s = (s, lx)"
  using whitespace_chars by (subst lex_digits.simps) (auto simp: stops_def split: list.split)

lemma lex_number_text:
  assumes "digits \<noteq> []" "list_all is_ascii_digit digits" "stops r"
    and "fraction = [] \<or> (\<exists>ds. fraction = CHR ''.'' # ds \<and> list_all is_ascii_digit ds)"
    and "lx_rest lx = digits @ fraction @ r"
  shows "\<exists>l. lex_digits lx False s = (s @ digits @ fraction, l) \<and> lx_rest l = r"
proof -
  obtain l where l: "lex_digits lx False s = lex_digits l False (s @ digits)" "lx_rest l = fraction @ r"
    using lex_digits_text [OF assms(2), of lx "fraction @ r"] assms(5) by blast
  show ?thesis
  proof (cases fraction)
    case Nil
    then show ?thesis using l lex_digits_stop [of l] assms(3) by simp
  next
    case (Cons c ds)
    with assms(4) have c: "c = CHR ''.''" "list_all is_ascii_digit ds" by auto
    have "lex_digits l False (s @ digits) = lex_digits (lx_next l) True (s @ digits @ [CHR ''.''])"
      using l(2) Cons c(1) by (subst lex_digits.simps) (simp add: is_ascii_digit_def)
    moreover obtain k where "lex_digits (lx_next l) True (s @ digits @ [CHR ''.'']) =
        lex_digits k True ((s @ digits @ [CHR ''.'']) @ ds)" "lx_rest k = r"
      using lex_digits_text [OF c(2), of "lx_next l" r] l(2) Cons by fastforce
    ultimately show ?thesis using l(1) Cons c(1) lex_digits_stop [of k] assms(3) by simp
  qed
qed

lemma lex_string_text:
  "q \<notin> set u \<Longrightarrow> lx_rest lx = u @ q # r \<Longrightarrow> \<exists>l. lex_string q lx s = Some (s @ u, l) \<and> lx_rest l = r"
proof (induction u arbitrary: lx s)
  case Nil
  then show ?case by (subst lex_string.simps) auto
next
  case (Cons c u)
  from Cons.IH [of "lx_next lx" "s @ [c]"] Cons.prems show ?case
    by (subst lex_string.simps) auto
qed

lemma skip_whitespace_text:
  "list_all is_whitespace w \<Longrightarrow> lx_rest lx = w @ r \<Longrightarrow> r = [] \<or> \<not> is_whitespace (hd r) \<and> take 2 r \<noteq> ''--'' \<Longrightarrow>
   lx_rest (lx_skip_whitespace lx) = r"
proof (induction w arbitrary: lx)
  case Nil
  then show ?case by (subst lx_skip_whitespace.simps) (auto simp: numeral_2_eq_2 split: list.split)
next
  case (Cons c w)
  then show ?case by (subst lx_skip_whitespace.simps) simp
qed

text \<open>A spelled token is read whole when white space follows.\<close>

lemma lexeme_starts:
  assumes "lexeme f t tok" "stops r"
  shows "\<exists>c cs. t = c # cs \<and> \<not> is_whitespace c \<and> take 2 (t @ r) \<noteq> ''--''"
  using assms(1)
proof cases
  case (symbol c)
  then show ?thesis using symbol_chars by (auto simp: numeral_2_eq_2)
next
  case (quoted q s)
  then show ?thesis by (auto simp: numeral_2_eq_2)
next
  case (number sign digits fraction n)
  then obtain d ds where d: "digits = d # ds" "is_ascii_digit d" by (cases digits) auto
  then show ?thesis using number(3) digit_chars [OF d(2)] number(1) by (auto simp: numeral_2_eq_2)
next
  case (word c cs)
  then show ?thesis using word_start_chars [of c] by (auto simp: numeral_2_eq_2)
qed

lemma lexeme_not_eof: "lexeme f t tok \<Longrightarrow> tok \<noteq> TEof"
proof (induction rule: lexeme.induct)
  case (symbol c t)
  then show ?case by (rule symbol_not_eof)
next
  case (word c cs)
  have "tok \<noteq> TEof" if "map_of keyword_table s = Some tok" for s and tok :: "'a token"
    using map_of_SomeD [OF that] by (auto simp: keyword_table_def)
  then show ?case by (auto simp: word_token_def split: option.splits)
qed simp_all

lemma next_token_lexeme:
  assumes "lexeme f t tok" "list_all is_whitespace w" "lx_rest lx = w @ t @ r" "stops r"
  shows "\<exists>l. next_token f lx = Ok (tok, l) \<and> lx_rest l = r"
proof -
  let ?lx = "lx_skip_whitespace lx"
  have lx: "lx_rest ?lx = t @ r"
    using lexeme_starts [OF assms(1,4)] by (intro skip_whitespace_text [OF assms(2,3)]) auto
  show ?thesis
    using assms(1)
  proof cases
    case (symbol c)
    then show ?thesis using lx by (simp add: next_token_def Let_def)
  next
    case (quoted q s)
    obtain l where "lex_string q (lx_next ?lx) [] = Some (s, l)" "lx_rest l = r"
      using lex_string_text [OF quoted(4), of "lx_next ?lx" r "[]"] lx quoted(1) by auto
    note str = this
    from quoted(3) show ?thesis
    proof
      assume "q = ch_quote"
      then show ?thesis using lx quoted(1,2) str by (simp add: next_token_def)
    next
      assume "q = CHR 0x27"
      then show ?thesis using lx quoted(1,2) str by (simp add: next_token_def)
    qed
  next
    case (number sign digits fraction n)
    then obtain d ds where d: "digits = d # ds" "is_ascii_digit d" by (cases digits) auto
    note dc = digit_chars [OF d(2)]
    have lex: "\<exists>l. lex_number f ?lx = Ok (tok, l) \<and> lx_rest l = r"
    proof (cases "sign = []")
      case True
      obtain l where "lex_digits ?lx False [] = ([] @ digits @ fraction, l)" "lx_rest l = r"
        using lex_number_text [OF number(4,5) assms(4) number(6), of ?lx "[]"] lx number(1) True by auto
      then show ?thesis using lx number d dc True by (simp add: lex_number_def lx_peek_def)
    next
      case False
      then have sg: "sign = ''-''" using number(3) by simp
      obtain l where "lex_digits (lx_next ?lx) False ''-'' = (''-'' @ digits @ fraction, l)" "lx_rest l = r"
        using lex_number_text [OF number(4,5) assms(4) number(6), of "lx_next ?lx" "''-''"] lx number(1) sg by auto
      then show ?thesis using lx number sg by (simp add: lex_number_def lx_peek_def)
    qed
    have "next_token f lx = lex_number f ?lx"
      using lx number(1,3) d dc by (auto simp: next_token_def digit_chars)
    with lex show ?thesis by simp
  next
    case (word c cs)
    note wc = word_start_chars [OF word(3)]
    have "word_char c" using word(3) by (auto simp: word_char_def)
    then obtain l where "lex_word ?lx [] = (c # cs, l)" "lx_rest l = r"
      using lex_word_text [of "c # cs" r ?lx "[]"] word(4) assms(4) lx word(1) by auto
    then show ?thesis
      using lx word(1-3) by (simp add: next_token_def Let_def lex_ident_or_keyword_def wc)
  qed
qed

lemma tokenize_loop_spelled:
  "list_all (\<lambda>(t, tok, w). lexeme f t tok \<and> w \<noteq> [] \<and> list_all is_whitespace w) items \<Longrightarrow>
   list_all is_whitespace w0 \<Longrightarrow> lx_rest lx = w0 @ concat (map (\<lambda>(t, tok, w). t @ w) items) \<Longrightarrow>
   tokenize_loop f lx ts = Ok (ts @ map (fst \<circ> snd) items @ [TEof])"
proof (induction items arbitrary: lx ts w0)
  case Nil
  have "lx_rest (lx_skip_whitespace lx) = []" by (rule skip_whitespace_text [OF Nil(2)]) (use Nil in simp_all)
  then show ?case by (subst tokenize_loop.simps) (simp add: next_token_def)
next
  case (Cons it items)
  obtain t tok w where it: "it = (t, tok, w)" by (cases it)
  with Cons.prems have lex: "lexeme f t tok" and w: "w \<noteq> []" "list_all is_whitespace w" by auto
  let ?r = "w @ concat (map (\<lambda>(t, tok, w). t @ w) items)"
  have "stops ?r" using w by (cases w) (auto simp: stops_def)
  then obtain l where l: "next_token f lx = Ok (tok, l)" "lx_rest l = ?r"
    using next_token_lexeme [OF lex Cons.prems(2), of lx ?r] Cons.prems(3) it by auto
  with Cons.IH [of w l "ts @ [tok]"] Cons.prems(1) w(2) lexeme_not_eof [OF lex] it show ?case
    by (subst tokenize_loop.simps) simp
qed

section \<open>Properties\<close>

text \<open>tokens written one after the other, in any of their spellings and with any white space
  between them, are read back in order, with the end token after them.\<close>

theorem tokenize_spelled:
  assumes "list_all (\<lambda>(t, tok, w). lexeme f t tok \<and> w \<noteq> [] \<and> list_all is_whitespace w) items"
  shows "tokenize_all f (lexer_new (concat (map (\<lambda>(t, tok, w). t @ w) items))) = Ok (map (fst \<circ> snd) items @ [TEof])"
  using tokenize_loop_spelled [OF assms, of "[]"] by (simp add: tokenize_all_def lexer_new_def)

theorem tokenize_spelled_witness:
  "tokenize_all (\<lambda>s. Some (length s)) (lexer_new ''limit 42 '') = Ok [TLimit, TNumber 2, TEof]"
proof -
  have "lexeme (\<lambda>s. Some (length s)) ''limit'' (word_token ''limit'')"
    by (rule lexeme.word) (simp_all add: is_ascii_alphabetic_def word_char_def)
  moreover have "word_token ''limit'' = (TLimit :: nat token)"
    by (simp add: word_token_def keyword_table_def to_ascii_upper_def char_of_def bit_0)
  moreover have "lexeme (\<lambda>s. Some (length s)) ([] @ ''42'' @ []) (TNumber 2)"
    by (rule lexeme.number) (simp_all add: is_ascii_digit_def)
  ultimately show ?thesis
    using tokenize_spelled [of "\<lambda>s. Some (length s)" "[(''limit'', TLimit, '' ''), (''42'', TNumber 2, '' '')]"]
    by (simp add: is_whitespace_def)
qed

text \<open>lexing always ends, and when it fails the position in the error is the line and column of a
  character of the input.\<close>

theorem tokenize_error_position:
  assumes "tokenize_all f (lexer_new input) = Err e"
  shows "\<exists>pre c post. input = pre @ c # post \<and> (qe_line e, qe_col e) = fold pos_step pre (1, 1) \<and> ql_code e = ''parse_error''"
proof -
  from assms have "tokenize_loop f (lexer_new input) [] = Err e" by (simp add: tokenize_all_def)
  then obtain msg lx where lx: "e = QlParse msg (lx_line lx) (lx_col lx)" "reaches (lexer_new input) lx" "lx_rest lx \<noteq> []"
    using tokenize_loop_err by blast
  then show ?thesis
    by (cases "lx_rest lx") (auto simp: reaches_def consumed_def lexer_new_def ql_code_def)
qed

theorem tokenize_error_position_witness:
  "\<exists>e pre c post. tokenize_all (\<lambda>_. Some ()) (lexer_new ''@'') = Err e \<and> ''@'' = pre @ c # post \<and>
     (qe_line e, qe_col e) = fold pos_step pre (1, 1)"
proof -
  have "isl (tokenize_all (\<lambda>_. Some ()) (lexer_new ''@''))"
    by (simp add: tokenize_all_def tokenize_loop.simps next_token_def lx_skip_whitespace.simps lexer_new_def is_whitespace_def
        symbol_token_def is_ascii_digit_def is_ascii_alphabetic_def)
  then obtain e where "tokenize_all (\<lambda>_. Some ()) (lexer_new ''@'') = Err e" by (auto simp: isl_def)
  with tokenize_error_position [OF this] show ?thesis by blast
qed

end
