(* ===== verification/Ql_Parser.thy ===== *)
theory Ql_Parser
  imports Ql_Lexer
begin

text \<open>
  The statements of the query language, \<^verbatim>\<open>crates/s3a-engine/src/ql/ast.rs\<close>, and their
  recursive-descent parser, \<^verbatim>\<open>parser.rs\<close>.  The token vector and its position are the tokens
  that are left.  Floating point enters through \<open>ql_env\<close>: the casts of number tokens to
  \<^verbatim>\<open>u32\<close>, \<^verbatim>\<open>u64\<close> and \<^verbatim>\<open>f32\<close>, zero as \<^verbatim>\<open>f32\<close>, and the debug text of a token that error
  messages quote.
\<close>

section \<open>Statements\<close>

datatype sift_domain =
    Telemetry | Embeddings | Kinematics | GisMesh | DaCommitments | LearningActivities
  | HumanLrs | AiTraces | AcademicPapers

definition domain_as_str :: "sift_domain \<Rightarrow> string" where
  "domain_as_str d = (case d of
     Telemetry \<Rightarrow> ''telemetry'' | Embeddings \<Rightarrow> ''embeddings'' | Kinematics \<Rightarrow> ''kinematics'' | GisMesh \<Rightarrow> ''gis_mesh''
   | DaCommitments \<Rightarrow> ''da_commitments'' | LearningActivities \<Rightarrow> ''learning_activities'' | HumanLrs \<Rightarrow> ''human_lrs''
   | AiTraces \<Rightarrow> ''ai_traces'' | AcademicPapers \<Rightarrow> ''academic_papers'')"

datatype similarity_metric = Cosine | DotProduct

type_synonym 'g vec3 = "'g \<times> 'g \<times> 'g"

datatype ('f, 'g) condition =
    TimeBetween u64 u64
  | SensorId u32
  | MetricId u32
  | ActorId u64
  | VerbId u32
  | SpatialBoxSimplex "'g vec3" "'g vec3"
  | GisLatitudeBetween 'f 'f
  | GisLongitudeBetween 'f 'f
  | GisElevationBetween 'f 'f
  | Similarity "'g list" similarity_metric 'g
  | AlgebraicCompose "'g list" 'g "'g vec3 option" 'g "'f option" 'g
  | BlockHeightBetween u64 u64

record fetch_statement =
  fe_coordinate :: coordinate
  fe_from_path :: string
  fe_version :: "u32 option"

record ('f, 'g) sift_statement =
  si_domain :: sift_domain
  si_from_path :: string
  si_conditions :: "('f, 'g) condition list"
  si_limit :: "u64 option"
  si_version :: "u32 option"

record 'f insert_statement =
  in_timestamp :: u64
  in_sensor_id :: u32
  in_metric_id :: u32
  in_value :: 'f
  in_into_path :: string
  in_version :: "u32 option"

record delete_statement =
  de_sensor_id :: u32
  de_metric_id :: u32
  de_timestamp :: u64
  de_from_path :: string
  de_version :: "u32 option"

record compact_statement =
  cp_archive_path :: string
  cp_version :: "u32 option"

record fuse_statement =
  fu_input_paths :: "string list"
  fu_output_path :: string
  fu_resolve_versioned_updates :: bool
  fu_purge_tombstones :: bool
  fu_recalculate_simplex_hulls :: bool
  fu_version :: "u32 option"

datatype ('f, 'g) statement =
    Fetch fetch_statement
  | Sift "('f, 'g) sift_statement"
  | Insert "'f insert_statement"
  | Delete delete_statement
  | Compact compact_statement
  | Fuse fuse_statement

definition statement_version :: "('f, 'g) statement \<Rightarrow> u32 option" where
  "statement_version st = (case st of
     Fetch s \<Rightarrow> fe_version s | Sift s \<Rightarrow> si_version s | Insert s \<Rightarrow> in_version s
   | Delete s \<Rightarrow> de_version s | Compact s \<Rightarrow> cp_version s | Fuse s \<Rightarrow> fu_version s)"

section \<open>Parsers\<close>

record ('f, 'g) ql_env =
  f64_as_u32 :: "'f \<Rightarrow> u32"
  f64_as_u64 :: "'f \<Rightarrow> u64"
  f64_as_f32 :: "'f \<Rightarrow> 'g"
  zero_f32 :: 'g
  debug_token :: "'f token \<Rightarrow> string"

type_synonym ('f, 'a) parser = "'f token list \<Rightarrow> (ql_error, 'a \<times> 'f token list) result"

definition preturn :: "'a \<Rightarrow> ('f, 'a) parser" where
  "preturn x ts = Ok (x, ts)"

definition perror :: "string \<Rightarrow> ('f, 'a) parser" where
  "perror message ts = Err (QlParse message 0 0)"

text \<open>\<^verbatim>\<open>let x = p()?; f(x)\<close>\<close>

definition pbind :: "('f, 'a) parser \<Rightarrow> ('a \<Rightarrow> ('f, 'b) parser) \<Rightarrow> ('f, 'b) parser" where
  "pbind p f ts = (case p ts of Err e \<Rightarrow> Err e | Ok (x, ts) \<Rightarrow> f x ts)"

definition ppeek :: "'f token list \<Rightarrow> 'f token" where
  "ppeek ts = (case ts of [] \<Rightarrow> TEof | t # _ \<Rightarrow> t)"

definition peek_ahead :: "nat \<Rightarrow> 'f token list \<Rightarrow> 'f token option" where
  "peek_ahead offset ts = (if offset < length ts then Some (ts ! offset) else None)"

definition padvance :: "('f, 'f token) parser" where
  "padvance ts = Ok (ppeek ts, tl ts)"

definition expect :: "('f, 'g) ql_env \<Rightarrow> 'f token \<Rightarrow> ('f, unit) parser" where
  "expect env expected ts =
    (if ppeek ts = expected then Ok ((), tl ts)
     else perror (''Expected token '' @ debug_token env expected @ '', found '' @ debug_token env (ppeek ts)) ts)"

definition parse_file_path :: "('f, 'g) ql_env \<Rightarrow> ('f, string) parser" where
  "parse_file_path env ts =
    (case ppeek ts of
       TStringLiteral s \<Rightarrow> Ok (s, tl ts)
     | TIdentifier s \<Rightarrow> Ok (s, tl ts)
     | other \<Rightarrow> perror (''Expected file path string or identifier, found '' @ debug_token env other) ts)"

definition parse_u32 :: "('f, 'g) ql_env \<Rightarrow> ('f, u32) parser" where
  "parse_u32 env ts =
    (case ppeek ts of
       TNumber n \<Rightarrow> Ok (f64_as_u32 env n, tl ts)
     | other \<Rightarrow> perror (''Expected unsigned 32-bit integer, found '' @ debug_token env other) ts)"

definition parse_u64 :: "('f, 'g) ql_env \<Rightarrow> ('f, u64) parser" where
  "parse_u64 env ts =
    (case ppeek ts of
       TNumber n \<Rightarrow> Ok (f64_as_u64 env n, tl ts)
     | other \<Rightarrow> perror (''Expected unsigned integer number, found '' @ debug_token env other) ts)"

definition parse_f64 :: "('f, 'g) ql_env \<Rightarrow> ('f, 'f) parser" where
  "parse_f64 env ts =
    (case ppeek ts of
       TNumber n \<Rightarrow> Ok (n, tl ts)
     | other \<Rightarrow> perror (''Expected number, found '' @ debug_token env other) ts)"

definition parse_vector_3d :: "('f, 'g) ql_env \<Rightarrow> ('f, 'g vec3) parser" where
  "parse_vector_3d env =
    pbind (expect env TLBracket) (\<lambda>_.
    pbind (parse_f64 env) (\<lambda>x.
    pbind (expect env TComma) (\<lambda>_.
    pbind (parse_f64 env) (\<lambda>y.
    pbind (expect env TComma) (\<lambda>_.
    pbind (parse_f64 env) (\<lambda>z.
    pbind (expect env TRBracket) (\<lambda>_.
    preturn (f64_as_f32 env x, f64_as_f32 env y, f64_as_f32 env z))))))))"

section \<open>What the small parsers accept\<close>

lemma pbind_Ok: "pbind p f ts = Ok (y, r) \<longleftrightarrow> (\<exists>x m. p ts = Ok (x, m) \<and> f x m = Ok (y, r))"
  by (auto simp: pbind_def split: sum.splits)

lemma preturn_Ok: "preturn x ts = Ok (y, r) \<longleftrightarrow> y = x \<and> r = ts"
  by (auto simp: preturn_def)

lemma perror_Ok: "perror m ts \<noteq> Ok p" by (simp add: perror_def)

lemma ppeek_simps [simp]: "ppeek [] = TEof" "ppeek (t # ts) = t"
  by (simp_all add: ppeek_def)

lemma ppeek_Cons: "t \<noteq> TEof \<Longrightarrow> ppeek ts = t \<longleftrightarrow> (\<exists>r. ts = t # r)"
  by (cases ts) auto

lemma expect_Ok: "t \<noteq> TEof \<Longrightarrow> expect env t ts = Ok (u, r) \<longleftrightarrow> ts = t # r"
  by (cases ts) (auto simp: expect_def perror_Ok)

lemma parse_f64_Ok: "parse_f64 env ts = Ok (x, r) \<longleftrightarrow> ts = TNumber x # r"
  by (cases ts) (auto simp: parse_f64_def perror_Ok split: token.splits)

lemma parse_u64_Ok: "parse_u64 env ts = Ok (x, r) \<longleftrightarrow> (\<exists>n. ts = TNumber n # r \<and> x = f64_as_u64 env n)"
  by (cases ts) (auto simp: parse_u64_def perror_Ok split: token.splits)

lemma parse_u32_Ok: "parse_u32 env ts = Ok (x, r) \<longleftrightarrow> (\<exists>n. ts = TNumber n # r \<and> x = f64_as_u32 env n)"
  by (cases ts) (auto simp: parse_u32_def perror_Ok split: token.splits)

lemma parse_file_path_Ok:
  "parse_file_path env ts = Ok (s, r) \<longleftrightarrow> ts = TStringLiteral s # r \<or> ts = TIdentifier s # r"
  by (cases ts) (auto simp: parse_file_path_def perror_Ok split: token.splits)

lemma padvance_Ok: "padvance ts = Ok (t, r) \<longleftrightarrow> t = ppeek ts \<and> r = tl ts"
  by (auto simp: padvance_def)

lemmas parser_Ok = pbind_Ok preturn_Ok perror_Ok expect_Ok parse_f64_Ok parse_u64_Ok parse_u32_Ok parse_file_path_Ok padvance_Ok

lemma parse_vector_3d_Ok:
  "parse_vector_3d env ts = Ok (v, r) \<longleftrightarrow>
    (\<exists>x y z. ts = TLBracket # TNumber x # TComma # TNumber y # TComma # TNumber z # TRBracket # r \<and>
       v = (f64_as_f32 env x, f64_as_f32 env y, f64_as_f32 env z))"
  by (auto simp: parse_vector_3d_def parser_Ok)

lemma pbind_cong [fundef_cong]:
  assumes "p ts = p' ts'" "\<And>x r. p' ts' = Ok (x, r) \<Longrightarrow> f x r = f' x r" "ts = ts'"
  shows "pbind p f ts = pbind p' f' ts'"
  using assms by (auto simp: pbind_def split: sum.split)

section \<open>Conditions\<close>

function vector_loop :: "('f, 'g) ql_env \<Rightarrow> 'g list \<Rightarrow> ('f, 'g list) parser" where
  "vector_loop env vec ts =
    (if ppeek ts = TRBracket then Ok (vec, tl ts)
     else
       pbind (parse_f64 env) (\<lambda>val ts.
         if ppeek ts = TComma then vector_loop env (vec @ [f64_as_f32 env val]) (tl ts)
         else if ppeek ts = TRBracket then Ok (vec @ [f64_as_f32 env val], tl ts)
         else perror (''Expected '' @ [CHR 0x27] @ '','' @ [CHR 0x27] @ '' or '' @ [CHR 0x27] @ '']'' @ [CHR 0x27] @
           '' in vector, found '' @ debug_token env (ppeek ts)) ts) ts)"
  by auto
termination
  by (relation "measure (\<lambda>(env, v, ts). length ts)") (auto simp: parse_f64_Ok intro: le_less_trans [OF diff_le_self])

declare vector_loop.simps [simp del]

definition parse_float_vector :: "('f, 'g) ql_env \<Rightarrow> ('f, 'g list) parser" where
  "parse_float_vector env = pbind (expect env TLBracket) (\<lambda>_. vector_loop env [])"

definition parse_weighted_point :: "('f, 'g) ql_env \<Rightarrow> ('f, 'g vec3 \<times> 'g) parser" where
  "parse_weighted_point env =
    pbind (parse_vector_3d env) (\<lambda>pt. pbind (expect env TWeight) (\<lambda>_. pbind (parse_f64 env) (\<lambda>w. preturn (pt, f64_as_f32 env w))))"

definition parse_weighted_halflife :: "('f, 'g) ql_env \<Rightarrow> ('f, 'f \<times> 'g) parser" where
  "parse_weighted_halflife env =
    pbind (expect env THalflife) (\<lambda>_. pbind (parse_f64 env) (\<lambda>hl. pbind (expect env TWeight) (\<lambda>_.
    pbind (parse_f64 env) (\<lambda>w. preturn (hl, f64_as_f32 env w)))))"

lemma parse_weighted_point_Ok:
  "parse_weighted_point env ts = Ok (p, r) \<longleftrightarrow>
    (\<exists>x y z w. ts = TLBracket # TNumber x # TComma # TNumber y # TComma # TNumber z # TRBracket # TWeight # TNumber w # r \<and>
       p = ((f64_as_f32 env x, f64_as_f32 env y, f64_as_f32 env z), f64_as_f32 env w))"
  by (auto simp: parse_weighted_point_def parser_Ok parse_vector_3d_Ok)

lemma parse_weighted_halflife_Ok:
  "parse_weighted_halflife env ts = Ok (p, r) \<longleftrightarrow>
    (\<exists>h w. ts = THalflife # TNumber h # TWeight # TNumber w # r \<and> p = (h, f64_as_f32 env w))"
  by (auto simp: parse_weighted_halflife_def parser_Ok)

text \<open>The targets and weights a composition has collected: spatial target and weight, half-life
  and time weight.\<close>

type_synonym ('f, 'g) compose_state = "'g vec3 option \<times> 'g \<times> 'f option \<times> 'g"

function compose_loop :: "('f, 'g) ql_env \<Rightarrow> ('f, 'g) compose_state \<Rightarrow> ('f, ('f, 'g) compose_state) parser" where
  "compose_loop env st ts =
    (if ppeek ts = TAnd then
       if peek_ahead 1 ts = Some TSpatialProximity then
         pbind (parse_weighted_point env) (\<lambda>p ts. compose_loop env (Some (fst p), snd p, snd (snd st)) ts) (tl (tl ts))
       else if peek_ahead 1 ts = Some TDecay then
         pbind (parse_weighted_halflife env) (\<lambda>p ts. compose_loop env (fst st, fst (snd st), Some (fst p), snd p) ts) (tl (tl ts))
       else Ok (st, ts)
     else Ok (st, ts))"
  by auto
termination
proof (relation "measure (\<lambda>(env, st, ts). length ts)", goal_cases)
  case (2 env st ts x r)
  then have "length r < length (tl (tl ts))"
    by (subst (asm) parse_weighted_point_Ok) (metis length_Cons less_SucI less_Suc_eq)
  then show ?case by simp
next
  case (3 env st ts x r)
  then have "length r < length (tl (tl ts))"
    by (subst (asm) parse_weighted_halflife_Ok) (metis length_Cons less_SucI less_Suc_eq)
  then show ?case by simp
qed simp

declare compose_loop.simps [simp del]

definition parse_compose :: "('f, 'g) ql_env \<Rightarrow> ('f, ('f, 'g) condition) parser" where
  "parse_compose env =
    pbind (expect env TSimilarity) (\<lambda>_. pbind (expect env TTo) (\<lambda>_.
    pbind (parse_float_vector env) (\<lambda>vector.
    pbind (expect env TWeight) (\<lambda>_. pbind (parse_f64 env) (\<lambda>w.
    pbind (compose_loop env (None, zero_f32 env, None, zero_f32 env)) (\<lambda>st.
    preturn (AlgebraicCompose vector (f64_as_f32 env w) (fst st) (fst (snd st)) (fst (snd (snd st))) (snd (snd (snd st))))))))))"

definition parse_similarity :: "('f, 'g) ql_env \<Rightarrow> ('f, ('f, 'g) condition) parser" where
  "parse_similarity env =
    pbind (expect env TTo) (\<lambda>_.
    pbind (parse_float_vector env) (\<lambda>vector.
    pbind (expect env TUsing) (\<lambda>_.
    pbind padvance (\<lambda>t.
    pbind (if t = TCosine then preturn Cosine else if t = TDotProduct then preturn DotProduct
           else perror (''Expected COSINE or DOT_PRODUCT, found '' @ debug_token env t)) (\<lambda>metric.
    pbind (expect env TThreshold) (\<lambda>_.
    pbind (parse_f64 env) (\<lambda>threshold.
    preturn (Similarity vector metric (f64_as_f32 env threshold)))))))))"

definition parse_spatial_box :: "('f, 'g) ql_env \<Rightarrow> ('f, ('f, 'g) condition) parser" where
  "parse_spatial_box env =
    pbind (expect env TIn) (\<lambda>_. pbind (expect env TSimplex) (\<lambda>_. pbind (expect env TLParen) (\<lambda>_.
    pbind (expect env TMin) (\<lambda>_. pbind (parse_vector_3d env) (\<lambda>min.
    pbind (expect env TComma) (\<lambda>_. pbind (expect env TMax) (\<lambda>_. pbind (parse_vector_3d env) (\<lambda>max.
    pbind (expect env TRParen) (\<lambda>_. preturn (SpatialBoxSimplex min max))))))))))"

text \<open>The two shapes \<^verbatim>\<open>BETWEEN min AND max\<close> and \<^verbatim>\<open>= value\<close>.\<close>

definition parse_between :: "('f, 'g) ql_env \<Rightarrow> ('f, 'a) parser \<Rightarrow> ('a \<Rightarrow> 'a \<Rightarrow> 'c) \<Rightarrow> ('f, 'c) parser" where
  "parse_between env p c =
    pbind (expect env TBetween) (\<lambda>_. pbind p (\<lambda>min. pbind (expect env TAnd) (\<lambda>_. pbind p (\<lambda>max. preturn (c min max)))))"

definition parse_equals :: "('f, 'g) ql_env \<Rightarrow> (u64 \<Rightarrow> 'c) \<Rightarrow> ('f, 'c) parser" where
  "parse_equals env c = pbind (expect env TEqual) (\<lambda>_. pbind (parse_u64 env) (\<lambda>id. preturn (c id)))"

definition parse_condition :: "('f, 'g) ql_env \<Rightarrow> ('f, ('f, 'g) condition) parser" where
  "parse_condition env ts =
    (case ppeek ts of
       TCondition w \<Rightarrow>
         (case w of
            CTime \<Rightarrow> parse_between env (parse_u64 env) TimeBetween (tl ts)
          | CSensorId \<Rightarrow> parse_equals env (\<lambda>id. SensorId (ucast id)) (tl ts)
          | CMetricId \<Rightarrow> parse_equals env (\<lambda>id. MetricId (ucast id)) (tl ts)
          | CActorId \<Rightarrow> parse_equals env ActorId (tl ts)
          | CVerbId \<Rightarrow> parse_equals env (\<lambda>id. VerbId (ucast id)) (tl ts)
          | CBlockHeight \<Rightarrow> parse_between env (parse_u64 env) BlockHeightBetween (tl ts)
          | CLatitude \<Rightarrow> parse_between env (parse_f64 env) GisLatitudeBetween (tl ts)
          | CLongitude \<Rightarrow> parse_between env (parse_f64 env) GisLongitudeBetween (tl ts)
          | CElevation \<Rightarrow> parse_between env (parse_f64 env) GisElevationBetween (tl ts)
          | CSpatialBox \<Rightarrow> parse_spatial_box env (tl ts)
          | CSimilarity \<Rightarrow> parse_similarity env (tl ts)
          | CCompose \<Rightarrow> parse_compose env (tl ts)
          | other \<Rightarrow> perror (''Unknown or unsupported WHERE condition: '' @ debug_token env (TCondition other)) ts)
     | other \<Rightarrow> perror (''Unknown or unsupported WHERE condition: '' @ debug_token env other) ts)"

section \<open>The grammar of conditions\<close>

text \<open>Which token sequences denote a value, independently of how they are parsed.\<close>

inductive vector_body :: "('f, 'g) ql_env \<Rightarrow> 'f token list \<Rightarrow> 'g list \<Rightarrow> bool" for env where
  close: "vector_body env [TRBracket] []"
| last: "vector_body env [TNumber x, TRBracket] [f64_as_f32 env x]"
| more: "vector_body env ts v \<Longrightarrow> vector_body env (TNumber x # TComma # ts) (f64_as_f32 env x # v)"

inductive compose_tail :: "('f, 'g) ql_env \<Rightarrow> ('f, 'g) compose_state \<Rightarrow> 'f token list \<Rightarrow> ('f, 'g) compose_state \<Rightarrow> bool"
  for env where
  done_: "compose_tail env st [] st"
| spatial: "compose_tail env (Some (f64_as_f32 env x, f64_as_f32 env y, f64_as_f32 env z), f64_as_f32 env w, h, t) ts st \<Longrightarrow>
    compose_tail env (p, sw, h, t)
      (TAnd # TSpatialProximity # TLBracket # TNumber x # TComma # TNumber y # TComma # TNumber z # TRBracket #
       TWeight # TNumber w # ts) st"
| decay: "compose_tail env (p, sw, Some h, f64_as_f32 env w) ts st \<Longrightarrow>
    compose_tail env (p, sw, h', t) (TAnd # TDecay # THalflife # TNumber h # TWeight # TNumber w # ts) st"

definition no_compose_tail :: "'f token list \<Rightarrow> bool" where
  "no_compose_tail ts \<longleftrightarrow> \<not> (ppeek ts = TAnd \<and> peek_ahead 1 ts \<in> {Some TSpatialProximity, Some TDecay})"

lemma vector_loop_Ok:
  "vector_loop env vec ts = Ok (v, r) \<longleftrightarrow> (\<exists>pre w. ts = pre @ r \<and> vector_body env pre w \<and> v = vec @ w)"
proof
  assume "vector_loop env vec ts = Ok (v, r)"
  then show "\<exists>pre w. ts = pre @ r \<and> vector_body env pre w \<and> v = vec @ w"
  proof (induction env vec ts rule: vector_loop.induct)
    case (1 env vec ts)
    show ?case
    proof (cases "ppeek ts = TRBracket")
      case True
      with 1(2) have "ts = [TRBracket] @ r \<and> v = vec" by (subst (asm) vector_loop.simps) (auto simp: ppeek_Cons)
      then show ?thesis using vector_body.close by fastforce
    next
      case False
      with 1(2) obtain x m where x: "ts = TNumber x # m"
        "(if ppeek m = TComma then vector_loop env (vec @ [f64_as_f32 env x]) (tl m)
          else if ppeek m = TRBracket then Ok (vec @ [f64_as_f32 env x], tl m) else Err (QlParse [] 0 0)) = Ok (v, r)"
        by (subst (asm) vector_loop.simps) (auto simp: pbind_Ok parse_f64_Ok perror_Ok split: if_splits)
      show ?thesis
      proof (cases "ppeek m = TComma")
        case True
        with x have "vector_loop env (vec @ [f64_as_f32 env x]) (tl m) = Ok (v, r)" by simp
        with 1(1) [OF False _ True, of x] x(1) obtain pre w where "tl m = pre @ r" "vector_body env pre w"
          "v = (vec @ [f64_as_f32 env x]) @ w"
          by (auto simp: parse_f64_Ok)
        with True x(1) show ?thesis
          by (intro exI [of _ "TNumber x # TComma # pre"] exI [of _ "f64_as_f32 env x # w"]) (auto simp: ppeek_Cons intro: vector_body.more)
      next
        case False
        with x have "m = TRBracket # r" "v = vec @ [f64_as_f32 env x]" by (auto simp: ppeek_Cons split: if_splits)
        with x(1) show ?thesis
          by (intro exI [of _ "[TNumber x, TRBracket]"] exI [of _ "[f64_as_f32 env x]"]) (auto intro: vector_body.last)
      qed
    qed
  qed
next
  assume "\<exists>pre w. ts = pre @ r \<and> vector_body env pre w \<and> v = vec @ w"
  then obtain pre w where "vector_body env pre w" "ts = pre @ r" "v = vec @ w" by blast
  then show "vector_loop env vec ts = Ok (v, r)"
  proof (induction arbitrary: vec ts v rule: vector_body.induct)
    case close
    then show ?case by (subst vector_loop.simps) simp
  next
    case (last x)
    then show ?case by (subst vector_loop.simps) (simp add: pbind_def parse_f64_def)
  next
    case (more ts' w x)
    then show ?case by (subst vector_loop.simps) (simp add: pbind_def parse_f64_def)
  qed
qed

lemma compose_loop_spatial:
  "compose_loop env st (TAnd # TSpatialProximity # ts) =
    pbind (parse_weighted_point env) (\<lambda>p. compose_loop env (Some (fst p), snd p, snd (snd st))) ts"
  by (subst compose_loop.simps) (simp add: peek_ahead_def)

lemma compose_loop_decay:
  "compose_loop env st (TAnd # TDecay # ts) =
    pbind (parse_weighted_halflife env) (\<lambda>p. compose_loop env (fst st, fst (snd st), Some (fst p), snd p)) ts"
  by (subst compose_loop.simps) (simp add: peek_ahead_def)

lemma compose_loop_stop: "no_compose_tail ts \<Longrightarrow> compose_loop env st ts = Ok (st, ts)"
  by (subst compose_loop.simps) (auto simp: no_compose_tail_def)

lemma compose_tail_cases:
  obtains (spatial) u where "ts = TAnd # TSpatialProximity # u" | (decay) u where "ts = TAnd # TDecay # u"
    | (stop) "no_compose_tail ts"
proof (cases "no_compose_tail ts")
  case False
  then obtain t u where "ts = TAnd # t # u"
    by (cases ts; cases "tl ts") (auto simp: no_compose_tail_def peek_ahead_def)
  with False that show ?thesis by (auto simp: no_compose_tail_def peek_ahead_def)
qed (use that in blast)

lemma compose_loop_sound:
  "compose_loop env st ts = Ok (st', r) \<Longrightarrow> \<exists>pre. ts = pre @ r \<and> compose_tail env st pre st' \<and> no_compose_tail r"
proof (induction "length ts" arbitrary: st ts rule: less_induct)
  case less
  obtain p sw h t where st: "st = (p, sw, h, t)" by (cases st)
  show ?case
  proof (cases ts rule: compose_tail_cases)
    case (spatial u)
    with less.prems obtain q m where q: "parse_weighted_point env u = Ok (q, m)"
      "compose_loop env (Some (fst q), snd q, snd (snd st)) m = Ok (st', r)"
      by (auto simp: compose_loop_spatial pbind_Ok)
    from q(1) obtain x y z w where u: "u = TLBracket # TNumber x # TComma # TNumber y # TComma # TNumber z # TRBracket # TWeight # TNumber w # m"
      "q = ((f64_as_f32 env x, f64_as_f32 env y, f64_as_f32 env z), f64_as_f32 env w)"
      by (auto simp: parse_weighted_point_Ok)
    from less.hyps [OF _ q(2)] spatial u(1) obtain pre where pre: "m = pre @ r" "no_compose_tail r"
      "compose_tail env (Some (fst q), snd q, snd (snd st)) pre st'" by auto
    from compose_tail.spatial [of env x y z w h t pre st' p sw] pre(3) u(2) st
    have "compose_tail env st (TAnd # TSpatialProximity # TLBracket # TNumber x # TComma # TNumber y # TComma # TNumber z # TRBracket #
       TWeight # TNumber w # pre) st'" by simp
    with pre(1,2) u(1) spatial show ?thesis by (intro exI conjI) (assumption | simp)+
  next
    case (decay u)
    with less.prems obtain q m where q: "parse_weighted_halflife env u = Ok (q, m)"
      "compose_loop env (fst st, fst (snd st), Some (fst q), snd q) m = Ok (st', r)"
      by (auto simp: compose_loop_decay pbind_Ok)
    from q(1) obtain x w where u: "u = THalflife # TNumber x # TWeight # TNumber w # m" "q = (x, f64_as_f32 env w)"
      by (auto simp: parse_weighted_halflife_Ok)
    from less.hyps [OF _ q(2)] decay u(1) obtain pre where pre: "m = pre @ r" "no_compose_tail r"
      "compose_tail env (fst st, fst (snd st), Some (fst q), snd q) pre st'" by auto
    from compose_tail.decay [of env p sw x w pre st' h t] pre(3) u(2) st
    have "compose_tail env st (TAnd # TDecay # THalflife # TNumber x # TWeight # TNumber w # pre) st'" by simp
    with pre(1,2) u(1) decay show ?thesis by (intro exI conjI) (assumption | simp)+
  next
    case stop
    with less.prems have "st' = st" "r = ts" by (simp_all add: compose_loop_stop)
    with stop show ?thesis using compose_tail.done_ by fastforce
  qed
qed

lemma compose_loop_complete:
  "compose_tail env st pre st' \<Longrightarrow> no_compose_tail r \<Longrightarrow> compose_loop env st (pre @ r) = Ok (st', r)"
proof (induction rule: compose_tail.induct)
  case (done_ st)
  then show ?case by (subst compose_loop.simps) (auto simp: no_compose_tail_def)
next
  case (spatial x y z w h t ts st p sw)
  then show ?case by (subst compose_loop.simps) (simp add: pbind_def parse_weighted_point_def parse_vector_3d_def expect_def parse_f64_def preturn_def peek_ahead_def)
next
  case (decay p sw h w ts st h' t)
  then show ?case by (subst compose_loop.simps) (simp add: pbind_def parse_weighted_halflife_def expect_def parse_f64_def preturn_def peek_ahead_def)
qed

inductive cond_tokens :: "('f, 'g) ql_env \<Rightarrow> 'f token list \<Rightarrow> ('f, 'g) condition \<Rightarrow> bool" for env where
  time: "cond_tokens env [TTime, TBetween, TNumber a, TAnd, TNumber b] (TimeBetween (f64_as_u64 env a) (f64_as_u64 env b))"
| sensor: "cond_tokens env [TSensorId, TEqual, TNumber a] (SensorId (ucast (f64_as_u64 env a)))"
| metric: "cond_tokens env [TMetricId, TEqual, TNumber a] (MetricId (ucast (f64_as_u64 env a)))"
| actor: "cond_tokens env [TActorId, TEqual, TNumber a] (ActorId (f64_as_u64 env a))"
| verb: "cond_tokens env [TVerbId, TEqual, TNumber a] (VerbId (ucast (f64_as_u64 env a)))"
| block: "cond_tokens env [TBlockHeight, TBetween, TNumber a, TAnd, TNumber b]
    (BlockHeightBetween (f64_as_u64 env a) (f64_as_u64 env b))"
| latitude: "cond_tokens env [TLatitude, TBetween, TNumber a, TAnd, TNumber b] (GisLatitudeBetween a b)"
| longitude: "cond_tokens env [TLongitude, TBetween, TNumber a, TAnd, TNumber b] (GisLongitudeBetween a b)"
| elevation: "cond_tokens env [TElevation, TBetween, TNumber a, TAnd, TNumber b] (GisElevationBetween a b)"
| box: "cond_tokens env
    [TSpatialBox, TIn, TSimplex, TLParen,
     TMin, TLBracket, TNumber a, TComma, TNumber b, TComma, TNumber c, TRBracket, TComma,
     TMax, TLBracket, TNumber d, TComma, TNumber e, TComma, TNumber f, TRBracket, TRParen]
    (SpatialBoxSimplex (f64_as_f32 env a, f64_as_f32 env b, f64_as_f32 env c) (f64_as_f32 env d, f64_as_f32 env e, f64_as_f32 env f))"
| cosine: "vector_body env vs v \<Longrightarrow>
    cond_tokens env (TSimilarity # TTo # TLBracket # vs @ [TUsing, TCosine, TThreshold, TNumber x]) (Similarity v Cosine (f64_as_f32 env x))"
| dot: "vector_body env vs v \<Longrightarrow>
    cond_tokens env (TSimilarity # TTo # TLBracket # vs @ [TUsing, TDotProduct, TThreshold, TNumber x]) (Similarity v DotProduct (f64_as_f32 env x))"
| compose: "vector_body env vs v \<Longrightarrow> compose_tail env (None, zero_f32 env, None, zero_f32 env) ts (p, sw, h, tw) \<Longrightarrow>
    cond_tokens env (TCompose # TSimilarity # TTo # TLBracket # vs @ TWeight # TNumber w # ts)
      (AlgebraicCompose v (f64_as_f32 env w) p sw h tw)"

lemma parse_float_vector_Ok:
  "parse_float_vector env ts = Ok (v, r) \<longleftrightarrow> (\<exists>vs. ts = TLBracket # vs @ r \<and> vector_body env vs v)"
  by (auto simp: parse_float_vector_def parser_Ok vector_loop_Ok)

lemma token_starts:
  "cond_tokens env pre c \<Longrightarrow> P pre c \<Longrightarrow> ts = pre @ r \<Longrightarrow> \<exists>pre. ts = pre @ r \<and> cond_tokens env pre c \<and> P pre c"
  by blast

definition ends_open :: "('f, 'g) condition \<Rightarrow> bool" where
  "ends_open c \<longleftrightarrow> (case c of AlgebraicCompose _ _ _ _ _ _ \<Rightarrow> True | _ \<Rightarrow> False)"

lemma ends_open_simps [simp]:
  "\<not> ends_open (TimeBetween a b)" "\<not> ends_open (SensorId u)" "\<not> ends_open (MetricId u)" "\<not> ends_open (ActorId a)"
  "\<not> ends_open (VerbId u)" "\<not> ends_open (SpatialBoxSimplex p q)" "\<not> ends_open (GisLatitudeBetween x y)"
  "\<not> ends_open (GisLongitudeBetween x y)" "\<not> ends_open (GisElevationBetween x y)" "\<not> ends_open (Similarity v m g)"
  "\<not> ends_open (BlockHeightBetween a b)" "ends_open (AlgebraicCompose v g h i j k)"
  by (simp_all add: ends_open_def)

lemma parse_between_u64_Ok:
  "parse_between env (parse_u64 env) c ts = Ok (x, r) \<longleftrightarrow>
    (\<exists>a b. ts = [TBetween, TNumber a, TAnd, TNumber b] @ r \<and> x = c (f64_as_u64 env a) (f64_as_u64 env b))"
  by (auto simp: parse_between_def parser_Ok)

lemma parse_between_f64_Ok:
  "parse_between env (parse_f64 env) c ts = Ok (x, r) \<longleftrightarrow>
    (\<exists>a b. ts = [TBetween, TNumber a, TAnd, TNumber b] @ r \<and> x = c a b)"
  by (auto simp: parse_between_def parser_Ok)

lemma parse_equals_Ok:
  "parse_equals env c ts = Ok (x, r) \<longleftrightarrow> (\<exists>n. ts = [TEqual, TNumber n] @ r \<and> x = c (f64_as_u64 env n))"
  by (auto simp: parse_equals_def parser_Ok)

lemma parse_spatial_box_sound:
  assumes "parse_spatial_box env ts = Ok (x, r)"
  shows "\<exists>pre. TSpatialBox # ts = pre @ r \<and> cond_tokens env pre x \<and> \<not> ends_open x"
proof -
  from assms obtain a b c d e f where "ts = [TIn, TSimplex, TLParen,
     TMin, TLBracket, TNumber a, TComma, TNumber b, TComma, TNumber c, TRBracket, TComma,
     TMax, TLBracket, TNumber d, TComma, TNumber e, TComma, TNumber f, TRBracket, TRParen] @ r"
    "x = SpatialBoxSimplex (f64_as_f32 env a, f64_as_f32 env b, f64_as_f32 env c) (f64_as_f32 env d, f64_as_f32 env e, f64_as_f32 env f)"
    unfolding parse_spatial_box_def by (clarsimp simp: parser_Ok parse_vector_3d_Ok) 
  then show ?thesis by (simp only:) (rule token_starts, rule cond_tokens.box, simp_all)
qed

lemma parse_similarity_sound:
  assumes "parse_similarity env ts = Ok (x, r)"
  shows "\<exists>pre. TSimilarity # ts = pre @ r \<and> cond_tokens env pre x \<and> \<not> ends_open x"
proof -
  from assms obtain vs v u t m y where ts: "ts = TTo # TLBracket # vs @ TUsing # u" "vector_body env vs v"
    "t = ppeek u" "t = TCosine \<and> m = Cosine \<or> t = TDotProduct \<and> m = DotProduct" "tl u = TThreshold # TNumber y # r"
    "x = Similarity v m (f64_as_f32 env y)"
    unfolding parse_similarity_def by (clarsimp simp: parser_Ok parse_float_vector_Ok split: if_splits)
  from ts(3-5) have "u = t # TThreshold # TNumber y # r" by (cases u) auto
  with ts(1) have x: "TSimilarity # ts = (TSimilarity # TTo # TLBracket # vs @ [TUsing, t, TThreshold, TNumber y]) @ r" by simp
  from ts(4) show ?thesis
  proof (elim disjE conjE)
    assume "t = TCosine" "m = Cosine"
    then show ?thesis unfolding x ts(6) by (simp only:) (rule token_starts [OF cond_tokens.cosine [OF ts(2)]], simp_all)
  next
    assume "t = TDotProduct" "m = DotProduct"
    then show ?thesis unfolding x ts(6) by (simp only:) (rule token_starts [OF cond_tokens.dot [OF ts(2)]], simp_all)
  qed
qed

lemma parse_compose_sound:
  assumes "parse_compose env ts = Ok (x, r)"
  shows "\<exists>pre. TCompose # ts = pre @ r \<and> cond_tokens env pre x \<and> no_compose_tail r"
proof -
  from assms obtain vs v w u p sw h tw where ts: "ts = TSimilarity # TTo # TLBracket # vs @ TWeight # TNumber w # u"
    "vector_body env vs v" "compose_loop env (None, zero_f32 env, None, zero_f32 env) u = Ok ((p, sw, h, tw), r)"
    "x = AlgebraicCompose v (f64_as_f32 env w) p sw h tw"
    unfolding parse_compose_def by (clarsimp simp: parser_Ok parse_float_vector_Ok)
  from compose_loop_sound [OF ts(3)] obtain tl where tl: "u = tl @ r" "no_compose_tail r"
    "compose_tail env (None, zero_f32 env, None, zero_f32 env) tl (p, sw, h, tw)" by blast
  with ts show ?thesis
    by (intro exI [of _ "TCompose # TSimilarity # TTo # TLBracket # vs @ TWeight # TNumber w # tl"])
      (simp add: cond_tokens.compose)
qed

lemma parse_condition_sound:
  assumes "parse_condition env ts = Ok (c, r)"
  shows "\<exists>pre. ts = pre @ r \<and> cond_tokens env pre c \<and> (ends_open c \<longrightarrow> no_compose_tail r)"
proof -
  from assms obtain w m where ts: "ts = TCondition w # m"
    by (cases ts) (auto simp: parse_condition_def perror_Ok split: token.splits)
  note p = assms [unfolded parse_condition_def ts, simplified]
  show ?thesis
  proof (cases w)
    case CTime
    with p show ?thesis by (auto simp: parse_between_u64_Ok ts intro!: token_starts [OF cond_tokens.time])
  next
    case CSensorId
    with p show ?thesis by (auto simp: parse_equals_Ok ts intro!: token_starts [OF cond_tokens.sensor])
  next
    case CMetricId
    with p show ?thesis by (auto simp: parse_equals_Ok ts intro!: token_starts [OF cond_tokens.metric])
  next
    case CActorId
    with p show ?thesis by (auto simp: parse_equals_Ok ts intro!: token_starts [OF cond_tokens.actor])
  next
    case CVerbId
    with p show ?thesis by (auto simp: parse_equals_Ok ts intro!: token_starts [OF cond_tokens.verb])
  next
    case CBlockHeight
    with p show ?thesis by (auto simp: parse_between_u64_Ok ts intro!: token_starts [OF cond_tokens.block])
  next
    case CLatitude
    with p show ?thesis by (auto simp: parse_between_f64_Ok ts intro!: token_starts [OF cond_tokens.latitude])
  next
    case CLongitude
    with p show ?thesis by (auto simp: parse_between_f64_Ok ts intro!: token_starts [OF cond_tokens.longitude])
  next
    case CElevation
    with p show ?thesis by (auto simp: parse_between_f64_Ok ts intro!: token_starts [OF cond_tokens.elevation])
  next
    case CSpatialBox
    with p show ?thesis using parse_spatial_box_sound [of env m c r] ts by auto
  next
    case CSimilarity
    with p show ?thesis using parse_similarity_sound [of env m c r] ts by auto
  next
    case CCompose
    with p show ?thesis using parse_compose_sound [of env m c r] ts by auto
  qed (use p in \<open>simp_all add: perror_Ok\<close>)
qed

text \<open>Running a parser over tokens that are known.\<close>

lemma pbind_run: "p ts = Ok (x, r) \<Longrightarrow> pbind p f ts = f x r"
  by (simp add: pbind_def)

lemma expect_run: "expect env t (t # r) = Ok ((), r)"
  by (simp add: expect_def)

lemma parse_number_run:
  "parse_f64 env (TNumber x # r) = Ok (x, r)" "parse_u64 env (TNumber x # r) = Ok (f64_as_u64 env x, r)"
  "parse_u32 env (TNumber x # r) = Ok (f64_as_u32 env x, r)"
  by (simp_all add: parse_f64_def parse_u64_def parse_u32_def)

lemma parse_file_path_run:
  "parse_file_path env (TStringLiteral s # r) = Ok (s, r)" "parse_file_path env (TIdentifier s # r) = Ok (s, r)"
  by (simp_all add: parse_file_path_def)

lemma padvance_run: "padvance (t # r) = Ok (t, r)" by (simp add: padvance_def)

lemmas parser_run = pbind_run expect_run parse_number_run parse_file_path_run padvance_run preturn_def

lemma parse_vector_3d_run:
  "parse_vector_3d env (TLBracket # TNumber x # TComma # TNumber y # TComma # TNumber z # TRBracket # r) =
    Ok ((f64_as_f32 env x, f64_as_f32 env y, f64_as_f32 env z), r)"
  by (simp add: parse_vector_3d_def parser_run)

lemma parse_float_vector_run: "vector_body env vs v \<Longrightarrow> parse_float_vector env (TLBracket # vs @ r) = Ok (v, r)"
  by (auto simp: parse_float_vector_Ok)

lemma parse_condition_complete:
  assumes "cond_tokens env pre c" "ends_open c \<Longrightarrow> no_compose_tail r"
  shows "parse_condition env (pre @ r) = Ok (c, r)"
  using assms
proof cases
  case (cosine vs v x)
  then show ?thesis by (simp add: parse_condition_def parse_similarity_def parser_run parse_float_vector_run)
next
  case (dot vs v x)
  then show ?thesis by (simp add: parse_condition_def parse_similarity_def parser_run parse_float_vector_run)
next
  case (compose vs v ts p sw h tw w)
  with assms(2) have "compose_loop env (None, zero_f32 env, None, zero_f32 env) (ts @ r) = Ok ((p, sw, h, tw), r)"
    by (simp add: compose_loop_complete)
  with compose show ?thesis by (simp add: parse_condition_def parse_compose_def parser_run parse_float_vector_run)
qed (simp_all add: parse_condition_def parse_between_def parse_equals_def parse_spatial_box_def parser_run parse_vector_3d_run)

lemma parse_condition_shrinks: "parse_condition env ts = Ok (c, r) \<Longrightarrow> length r < length ts"
  by (drule parse_condition_sound) (auto elim: cond_tokens.cases)

end
