(* ===== verification/Ql_Statement.thy ===== *)
theory Ql_Statement
  imports Ql_Parser
begin

text \<open>
  The statement parsers of \<^verbatim>\<open>crates/s3a-engine/src/ql/parser.rs\<close> and the front half of
  \<^verbatim>\<open>execute_query\<close> in \<^verbatim>\<open>ql/mod.rs\<close>.  \<open>stmt_tokens\<close> is the statement language as a grammar;
  the parser accepts exactly its sentences, and leaves the tokens after the statement unread.
\<close>

section \<open>The clauses of a statement\<close>

definition parse_fetch :: "('f, 'g) ql_env \<Rightarrow> u32 option \<Rightarrow> ('f, ('f, 'g) statement) parser" where
  "parse_fetch env version =
    pbind (expect env TFetch) (\<lambda>_. pbind (expect env TRecord) (\<lambda>_. pbind (expect env TAt) (\<lambda>_.
    pbind padvance (\<lambda>t.
    pbind (case t of TCoordinate s \<Rightarrow> preturn s | TIdentifier s \<Rightarrow> preturn s
           | other \<Rightarrow> perror (''Expected S3A coordinate (e.g. L0:T4:R12), found '' @ debug_token env other)) (\<lambda>coord_str.
    pbind (case coordinate_parse coord_str of
             Err InvalidCoordinate \<Rightarrow>
               perror (''Invalid coordinate format: '' @ ''Invalid coordinate address format (expected L<level>:T<tile>:R<offset>)'')
           | Ok coord \<Rightarrow> preturn coord) (\<lambda>coord.
    pbind (expect env TFrom) (\<lambda>_. pbind (parse_file_path env) (\<lambda>from_path.
    preturn (Fetch \<lparr>fe_coordinate = coord, fe_from_path = from_path, fe_version = version\<rparr>)))))))))"

definition parse_domain :: "('f, 'g) ql_env \<Rightarrow> 'f token \<Rightarrow> ('f, sift_domain) parser" where
  "parse_domain env t =
    (case t of
       TTelemetry \<Rightarrow> preturn Telemetry
     | TKinematics \<Rightarrow> preturn Kinematics
     | TGisMesh \<Rightarrow> preturn GisMesh
     | TEmbeddings \<Rightarrow> preturn Embeddings
     | TDaCommitments \<Rightarrow> preturn DaCommitments
     | TLearningActivities \<Rightarrow> preturn LearningActivities
     | THumanLrs \<Rightarrow> preturn HumanLrs
     | TAiTraces \<Rightarrow> preturn AiTraces
     | TAcademicPapers \<Rightarrow> preturn AcademicPapers
     | other \<Rightarrow> perror (''Expected SIFT domain, found '' @ debug_token env other))"

function where_loop :: "('f, 'g) ql_env \<Rightarrow> ('f, 'g) condition list \<Rightarrow> ('f, ('f, 'g) condition list) parser" where
  "where_loop env conditions ts =
    pbind (parse_condition env) (\<lambda>cond ts.
      if ppeek ts = TAnd then where_loop env (conditions @ [cond]) (tl ts)
      else if ppeek ts = TCompose then
        pbind (parse_condition env) (\<lambda>comp_cond. preturn (conditions @ [cond] @ [comp_cond])) ts
      else Ok (conditions @ [cond], ts)) ts"
  by auto
termination
  by (relation "measure (\<lambda>(env, cs, ts). length ts)")
    (auto dest: parse_condition_shrinks intro: le_less_trans [OF diff_le_self])

declare where_loop.simps [simp del]

definition parse_sift_conditions :: "('f, 'g) ql_env \<Rightarrow> ('f, ('f, 'g) condition list) parser" where
  "parse_sift_conditions env ts =
    pbind (\<lambda>ts. if ppeek ts = TWhere then where_loop env [] (tl ts) else Ok ([], ts)) (\<lambda>conditions ts.
      if ppeek ts = TCompose then pbind (parse_condition env) (\<lambda>comp_cond. preturn (conditions @ [comp_cond])) ts
      else Ok (conditions, ts)) ts"

definition parse_limit :: "('f, 'g) ql_env \<Rightarrow> ('f, u64 option) parser" where
  "parse_limit env ts =
    (if ppeek ts = TLimit then pbind (parse_u64 env) (\<lambda>n. preturn (Some n)) (tl ts) else Ok (None, ts))"

definition parse_sift :: "('f, 'g) ql_env \<Rightarrow> u32 option \<Rightarrow> ('f, ('f, 'g) statement) parser" where
  "parse_sift env version =
    pbind (expect env TSift) (\<lambda>_. pbind padvance (\<lambda>t. pbind (parse_domain env t) (\<lambda>domain.
    pbind (expect env TFrom) (\<lambda>_. pbind (parse_file_path env) (\<lambda>from_path.
    pbind (parse_sift_conditions env) (\<lambda>conditions.
    pbind (parse_limit env) (\<lambda>limit.
    preturn (Sift \<lparr>si_domain = domain, si_from_path = from_path, si_conditions = conditions,
      si_limit = limit, si_version = version\<rparr>))))))))"

definition parse_insert :: "('f, 'g) ql_env \<Rightarrow> u32 option \<Rightarrow> ('f, ('f, 'g) statement) parser" where
  "parse_insert env version =
    pbind (expect env TInsert) (\<lambda>_. pbind (expect env TTelemetry) (\<lambda>_. pbind (expect env TLParen) (\<lambda>_.
    pbind (parse_u64 env) (\<lambda>timestamp. pbind (expect env TComma) (\<lambda>_.
    pbind (parse_u64 env) (\<lambda>sensor_id. pbind (expect env TComma) (\<lambda>_.
    pbind (parse_u64 env) (\<lambda>metric_id. pbind (expect env TComma) (\<lambda>_.
    pbind (parse_f64 env) (\<lambda>value. pbind (expect env TRParen) (\<lambda>_.
    pbind (expect env TInto) (\<lambda>_. pbind (parse_file_path env) (\<lambda>into_path.
    preturn (Insert \<lparr>in_timestamp = timestamp, in_sensor_id = ucast sensor_id, in_metric_id = ucast metric_id,
      in_value = value, in_into_path = into_path, in_version = version\<rparr>))))))))))))))"

text \<open>The fields a \<^verbatim>\<open>DELETE\<close> has seen: sensor, metric, timestamp.\<close>

type_synonym delete_fields = "u32 option \<times> u32 option \<times> u64 option"

function delete_loop :: "('f, 'g) ql_env \<Rightarrow> delete_fields \<Rightarrow> ('f, delete_fields) parser" where
  "delete_loop env st ts =
    pbind (\<lambda>ts. case ppeek ts of
        TSensorId \<Rightarrow> parse_equals env (\<lambda>id. (Some (ucast id), snd st)) (tl ts)
      | TMetricId \<Rightarrow> parse_equals env (\<lambda>id. (fst st, Some (ucast id), snd (snd st))) (tl ts)
      | TTime \<Rightarrow> parse_equals env (\<lambda>t. (fst st, fst (snd st), Some t)) (tl ts)
      | other \<Rightarrow> perror (''Unexpected field in DELETE WHERE clause: '' @ debug_token env other) ts)
     (\<lambda>st ts. if ppeek ts = TAnd then delete_loop env st (tl ts) else Ok (st, ts)) ts"
  by auto
termination
  by (relation "measure (\<lambda>(env, st, ts). length ts)")
    (auto simp: parse_equals_Ok perror_Ok ppeek_def split: list.splits token.splits condition_word.splits)

declare delete_loop.simps [simp del]

definition ok_or :: "string \<Rightarrow> 'a option \<Rightarrow> ('f, 'a) parser" where
  "ok_or message x = (case x of None \<Rightarrow> perror message | Some a \<Rightarrow> preturn a)"

definition parse_delete :: "('f, 'g) ql_env \<Rightarrow> u32 option \<Rightarrow> ('f, ('f, 'g) statement) parser" where
  "parse_delete env version =
    pbind (expect env TDelete) (\<lambda>_. pbind (expect env TTelemetry) (\<lambda>_. pbind (expect env TWhere) (\<lambda>_.
    pbind (delete_loop env (None, None, None)) (\<lambda>(sensor_id, metric_id, timestamp).
    pbind (ok_or ''Missing SENSOR_ID in DELETE clause'' sensor_id) (\<lambda>sensor_id.
    pbind (ok_or ''Missing METRIC_ID in DELETE clause'' metric_id) (\<lambda>metric_id.
    pbind (ok_or ''Missing TIME in DELETE clause'' timestamp) (\<lambda>timestamp.
    pbind (expect env TFrom) (\<lambda>_. pbind (parse_file_path env) (\<lambda>from_path.
    preturn (Delete \<lparr>de_sensor_id = sensor_id, de_metric_id = metric_id, de_timestamp = timestamp,
      de_from_path = from_path, de_version = version\<rparr>))))))))))"

definition parse_compact :: "('f, 'g) ql_env \<Rightarrow> u32 option \<Rightarrow> ('f, ('f, 'g) statement) parser" where
  "parse_compact env version =
    pbind (expect env TCompact) (\<lambda>_. pbind (expect env TArchive) (\<lambda>_. pbind (parse_file_path env) (\<lambda>archive_path.
    preturn (Compact \<lparr>cp_archive_path = archive_path, cp_version = version\<rparr>))))"

function fuse_paths :: "('f, 'g) ql_env \<Rightarrow> string list \<Rightarrow> ('f, string list) parser" where
  "fuse_paths env input_paths ts =
    pbind (parse_file_path env) (\<lambda>path ts.
      if ppeek ts = TComma then fuse_paths env (input_paths @ [path]) (tl ts)
      else if ppeek ts = TRParen then Ok (input_paths @ [path], tl ts)
      else perror (''Expected '' @ [CHR 0x27] @ '','' @ [CHR 0x27] @ '' or '' @ [CHR 0x27] @ '')'' @ [CHR 0x27] @
        '' in FROM list, found '' @ debug_token env (ppeek ts)) ts) ts"
  by auto
termination
  by (relation "measure (\<lambda>(env, ps, ts). length ts)") (auto simp: parse_file_path_Ok intro: le_less_trans [OF diff_le_self])

declare fuse_paths.simps [simp del]

text \<open>The three switches of \<^verbatim>\<open>FUSE ... WITH\<close>, in the order of the statement's fields.\<close>

type_synonym fuse_switches = "bool \<times> bool \<times> bool"

definition set_switch :: "string \<Rightarrow> bool \<Rightarrow> fuse_switches \<Rightarrow> fuse_switches" where
  "set_switch opt val st =
    (let name = map to_ascii_upper opt in
     if name = ''RESOLVE_VERSIONED_UPDATES'' then (val, snd st)
     else if name = ''PURGE_TOMBSTONES'' then (fst st, val, snd (snd st))
     else if name = ''RECALCULATE_SIMPLEX_HULLS'' then (fst st, fst (snd st), val)
     else st)"

definition skip_token :: "'f token \<Rightarrow> 'f token list \<Rightarrow> 'f token list" where
  "skip_token t ts = (if ppeek ts = t then tl ts else ts)"

definition parse_switch_value :: "('f, 'g) ql_env \<Rightarrow> ('f, bool) parser" where
  "parse_switch_value env =
    pbind (expect env TEqual) (\<lambda>_. pbind padvance (\<lambda>t.
      case t of TTrue \<Rightarrow> preturn True | TFalse \<Rightarrow> preturn False
      | other \<Rightarrow> perror (''Expected TRUE or FALSE, found '' @ debug_token env other)))"

lemma parse_switch_value_Ok:
  "parse_switch_value env ts = Ok (b, r) \<longleftrightarrow> ts = TEqual # (if b then TTrue else TFalse) # r"
  by (cases ts; cases "tl ts") (auto simp: parse_switch_value_def parser_Ok split: token.splits keyword.splits)

function fuse_options :: "('f, 'g) ql_env \<Rightarrow> fuse_switches \<Rightarrow> ('f, fuse_switches) parser" where
  "fuse_options env st ts =
    (if ppeek ts \<noteq> TRParen \<and> ppeek ts \<noteq> TEof then
       (case ppeek ts of
          TIdentifier opt \<Rightarrow>
            pbind (parse_switch_value env) (\<lambda>val ts. fuse_options env (set_switch opt val st) (skip_token TComma ts)) (tl ts)
        | _ \<Rightarrow> Ok (st, ts))
     else Ok (st, ts))"
  by auto
termination
  by (relation "measure (\<lambda>(env, st, ts). length ts)")
    (auto simp: parse_switch_value_Ok skip_token_def ppeek_def split: list.splits)

declare fuse_options.simps [simp del]

definition parse_fuse_with :: "('f, 'g) ql_env \<Rightarrow> ('f, fuse_switches) parser" where
  "parse_fuse_with env ts =
    (if ppeek ts = TWith then
       pbind (expect env TLParen) (\<lambda>_. pbind (fuse_options env (True, True, True)) (\<lambda>st.
       pbind (expect env TRParen) (\<lambda>_. preturn st))) (tl ts)
     else Ok ((True, True, True), ts))"

definition parse_fuse :: "('f, 'g) ql_env \<Rightarrow> u32 option \<Rightarrow> ('f, ('f, 'g) statement) parser" where
  "parse_fuse env version =
    pbind (expect env TFuse) (\<lambda>_. pbind (expect env TTiles) (\<lambda>_. pbind (expect env TFrom) (\<lambda>_. pbind (expect env TLParen) (\<lambda>_.
    pbind (fuse_paths env []) (\<lambda>input_paths.
    pbind (expect env TInto) (\<lambda>_. pbind (parse_file_path env) (\<lambda>output_path.
    pbind (parse_fuse_with env) (\<lambda>(resolve, purge, recalculate).
    preturn (Fuse \<lparr>fu_input_paths = input_paths, fu_output_path = output_path,
      fu_resolve_versioned_updates = resolve, fu_purge_tombstones = purge, fu_recalculate_simplex_hulls = recalculate,
      fu_version = version\<rparr>)))))))))"

text \<open>\<^verbatim>\<open>VERSION n;\<close> or \<^verbatim>\<open>PRAGMA VERSION n;\<close> before the statement.\<close>

definition parse_preamble :: "('f, 'g) ql_env \<Rightarrow> ('f, u32 option) parser" where
  "parse_preamble env ts =
    (if ppeek ts = TPragma then
       pbind (expect env TVersion) (\<lambda>_. pbind (parse_u32 env) (\<lambda>n ts. Ok (Some n, skip_token TSemicolon ts))) (tl ts)
     else if ppeek ts = TVersion then
       pbind (parse_u32 env) (\<lambda>n ts. Ok (Some n, skip_token TSemicolon ts)) (tl ts)
     else Ok (None, ts))"

definition parse_body :: "('f, 'g) ql_env \<Rightarrow> u32 option \<Rightarrow> ('f, ('f, 'g) statement) parser" where
  "parse_body env version ts =
    (case ppeek ts of
       TFetch \<Rightarrow> parse_fetch env version ts
     | TSift \<Rightarrow> parse_sift env version ts
     | TInsert \<Rightarrow> parse_insert env version ts
     | TDelete \<Rightarrow> parse_delete env version ts
     | TCompact \<Rightarrow> parse_compact env version ts
     | TFuse \<Rightarrow> parse_fuse env version ts
     | other \<Rightarrow> perror (''Unexpected query start token: '' @ debug_token env other) ts)"

definition parse_statement :: "('f, 'g) ql_env \<Rightarrow> ('f, ('f, 'g) statement) parser" where
  "parse_statement env =
    pbind (parse_preamble env) (\<lambda>version. pbind (parse_body env version) (\<lambda>stmt ts. Ok (stmt, skip_token TSemicolon ts)))"

text \<open>The front half of \<^verbatim>\<open>execute_query\<close>: the statement that is handed to the executor.\<close>

definition query_statement :: "(string \<Rightarrow> 'f option) \<Rightarrow> ('f, 'g) ql_env \<Rightarrow> string \<Rightarrow> (ql_error, ('f, 'g) statement) result" where
  "query_statement parse_num env query =
    (case tokenize_all parse_num (lexer_new query) of
       Err e \<Rightarrow> Err e
     | Ok tokens \<Rightarrow> (case parse_statement env tokens of Err e \<Rightarrow> Err e | Ok (stmt, _) \<Rightarrow> Ok stmt))"

section \<open>The statement grammar\<close>

definition path_token :: "'f token \<Rightarrow> string \<Rightarrow> bool" where
  "path_token t s \<longleftrightarrow> t = TStringLiteral s \<or> t = TIdentifier s"

definition coordinate_token :: "'f token \<Rightarrow> string \<Rightarrow> bool" where
  "coordinate_token t s \<longleftrightarrow> t = TCoordinate s \<or> t = TIdentifier s"

fun domain_token :: "sift_domain \<Rightarrow> 'f token" where
  "domain_token Telemetry = TTelemetry"
| "domain_token Kinematics = TKinematics"
| "domain_token GisMesh = TGisMesh"
| "domain_token Embeddings = TEmbeddings"
| "domain_token DaCommitments = TDaCommitments"
| "domain_token LearningActivities = TLearningActivities"
| "domain_token HumanLrs = THumanLrs"
| "domain_token AiTraces = TAiTraces"
| "domain_token AcademicPapers = TAcademicPapers"

inductive and_list :: "('f, 'g) ql_env \<Rightarrow> 'f token list \<Rightarrow> ('f, 'g) condition list \<Rightarrow> bool" for env where
  one: "cond_tokens env p c \<Longrightarrow> and_list env p [c]"
| more: "cond_tokens env p c \<Longrightarrow> and_list env q cs \<Longrightarrow> and_list env (p @ TAnd # q) (c # cs)"

inductive opt_compose :: "('f, 'g) ql_env \<Rightarrow> 'f token list \<Rightarrow> ('f, 'g) condition list \<Rightarrow> bool" for env where
  none: "opt_compose env [] []"
| some: "cond_tokens env p c \<Longrightarrow> ends_open c \<Longrightarrow> opt_compose env p [c]"

inductive sift_conds :: "('f, 'g) ql_env \<Rightarrow> 'f token list \<Rightarrow> ('f, 'g) condition list \<Rightarrow> bool" for env where
  bare: "opt_compose env p ds \<Longrightarrow> sift_conds env p ds"
| where_: "and_list env p cs \<Longrightarrow> opt_compose env q ds \<Longrightarrow> opt_compose env q' ds' \<Longrightarrow>
    sift_conds env (TWhere # p @ q @ q') (cs @ ds @ ds')"

inductive opt_limit :: "('f, 'g) ql_env \<Rightarrow> 'f token list \<Rightarrow> u64 option \<Rightarrow> bool" for env where
  none: "opt_limit env [] None"
| some: "opt_limit env [TLimit, TNumber n] (Some (f64_as_u64 env n))"

datatype delete_field = DelSensor u32 | DelMetric u32 | DelTime u64

fun set_field :: "delete_field \<Rightarrow> delete_fields \<Rightarrow> delete_fields" where
  "set_field (DelSensor s) (_, m, t) = (Some s, m, t)"
| "set_field (DelMetric m) (s, _, t) = (s, Some m, t)"
| "set_field (DelTime t) (s, m, _) = (s, m, Some t)"

inductive field_tokens :: "('f, 'g) ql_env \<Rightarrow> 'f token list \<Rightarrow> delete_field \<Rightarrow> bool" for env where
  "field_tokens env [TSensorId, TEqual, TNumber n] (DelSensor (ucast (f64_as_u64 env n)))"
| "field_tokens env [TMetricId, TEqual, TNumber n] (DelMetric (ucast (f64_as_u64 env n)))"
| "field_tokens env [TTime, TEqual, TNumber n] (DelTime (f64_as_u64 env n))"

inductive field_list :: "('f, 'g) ql_env \<Rightarrow> 'f token list \<Rightarrow> delete_field list \<Rightarrow> bool" for env where
  one: "field_tokens env p f \<Longrightarrow> field_list env p [f]"
| more: "field_tokens env p f \<Longrightarrow> field_list env q fs \<Longrightarrow> field_list env (p @ TAnd # q) (f # fs)"

inductive path_list :: "'f token list \<Rightarrow> string list \<Rightarrow> bool" where
  one: "path_token t s \<Longrightarrow> path_list [t, TRParen] [s]"
| more: "path_token t s \<Longrightarrow> path_list ts ss \<Longrightarrow> path_list (t # TComma # ts) (s # ss)"

abbreviation bool_token :: "bool \<Rightarrow> 'f token" where
  "bool_token b \<equiv> (if b then TTrue else TFalse)"

inductive switch_list :: "'f token list \<Rightarrow> (string \<times> bool) list \<Rightarrow> bool" where
  none: "switch_list [] []"
| more: "switch_list ts os \<Longrightarrow> sep = [] \<or> sep = [TComma] \<Longrightarrow>
    switch_list (TIdentifier opt # TEqual # bool_token b # sep @ ts) ((opt, b) # os)"

definition set_switches :: "(string \<times> bool) list \<Rightarrow> fuse_switches" where
  "set_switches os = fold (\<lambda>(opt, b). set_switch opt b) os (True, True, True)"

inductive fuse_with :: "'f token list \<Rightarrow> (string \<times> bool) list \<Rightarrow> bool" where
  none: "fuse_with [] []"
| some: "switch_list ts os \<Longrightarrow> fuse_with (TWith # TLParen # ts @ [TRParen]) os"

inductive body_tokens :: "('f, 'g) ql_env \<Rightarrow> u32 option \<Rightarrow> 'f token list \<Rightarrow> ('f, 'g) statement \<Rightarrow> bool"
  for env version where
  fetch: "coordinate_token t s \<Longrightarrow> coordinate_parse s = Ok c \<Longrightarrow> path_token u p \<Longrightarrow>
    body_tokens env version [TFetch, TRecord, TAt, t, TFrom, u]
      (Fetch \<lparr>fe_coordinate = c, fe_from_path = p, fe_version = version\<rparr>)"
| sift: "path_token u p \<Longrightarrow> sift_conds env cs conds \<Longrightarrow> opt_limit env ls limit \<Longrightarrow>
    body_tokens env version (TSift # domain_token d # TFrom # u # cs @ ls)
      (Sift \<lparr>si_domain = d, si_from_path = p, si_conditions = conds, si_limit = limit, si_version = version\<rparr>)"
| insert: "path_token u p \<Longrightarrow>
    body_tokens env version
      [TInsert, TTelemetry, TLParen, TNumber t, TComma, TNumber s, TComma, TNumber m, TComma, TNumber v, TRParen, TInto, u]
      (Insert \<lparr>in_timestamp = f64_as_u64 env t, in_sensor_id = ucast (f64_as_u64 env s),
        in_metric_id = ucast (f64_as_u64 env m), in_value = v, in_into_path = p, in_version = version\<rparr>)"
| delete: "field_list env fs fl \<Longrightarrow> fold set_field fl (None, None, None) = (Some s, Some m, Some t) \<Longrightarrow> path_token u p \<Longrightarrow>
    body_tokens env version (TDelete # TTelemetry # TWhere # fs @ [TFrom, u])
      (Delete \<lparr>de_sensor_id = s, de_metric_id = m, de_timestamp = t, de_from_path = p, de_version = version\<rparr>)"
| compact: "path_token u p \<Longrightarrow>
    body_tokens env version [TCompact, TArchive, u] (Compact \<lparr>cp_archive_path = p, cp_version = version\<rparr>)"
| fuse: "path_list ps paths \<Longrightarrow> path_token u p \<Longrightarrow> fuse_with ws os \<Longrightarrow> set_switches os = (a, b, c) \<Longrightarrow>
    body_tokens env version (TFuse # TTiles # TFrom # TLParen # ps @ TInto # u # ws)
      (Fuse \<lparr>fu_input_paths = paths, fu_output_path = p, fu_resolve_versioned_updates = a, fu_purge_tombstones = b,
        fu_recalculate_simplex_hulls = c, fu_version = version\<rparr>)"

definition opt_semicolon :: "'f token list \<Rightarrow> bool" where
  "opt_semicolon ts \<longleftrightarrow> ts = [] \<or> ts = [TSemicolon]"

inductive preamble_tokens :: "('f, 'g) ql_env \<Rightarrow> 'f token list \<Rightarrow> u32 option \<Rightarrow> bool" for env where
  none: "preamble_tokens env [] None"
| pragma: "opt_semicolon sc \<Longrightarrow> preamble_tokens env (TPragma # TVersion # TNumber n # sc) (Some (f64_as_u32 env n))"
| version: "opt_semicolon sc \<Longrightarrow> preamble_tokens env (TVersion # TNumber n # sc) (Some (f64_as_u32 env n))"

inductive stmt_tokens :: "('f, 'g) ql_env \<Rightarrow> 'f token list \<Rightarrow> ('f, 'g) statement \<Rightarrow> bool" for env where
  "preamble_tokens env p v \<Longrightarrow> body_tokens env v b st \<Longrightarrow> opt_semicolon sc \<Longrightarrow> stmt_tokens env (p @ b @ sc) st"

text \<open>Tokens that cannot continue a statement: the end of the input, or anything that starts no
  optional clause.\<close>

definition closes :: "'f token list \<Rightarrow> bool" where
  "closes ts \<longleftrightarrow> ppeek ts \<notin> {TAnd, TCompose, TLimit, TWhere, TWith, TSemicolon}"

section \<open>The clauses follow the grammar\<close>

lemma path_Ok: "parse_file_path env ts = Ok (s, r) \<longleftrightarrow> (\<exists>t. path_token t s \<and> ts = t # r)"
  by (auto simp: parse_file_path_Ok path_token_def)

lemma path_run: "path_token t s \<Longrightarrow> parse_file_path env (t # r) = Ok (s, r)"
  by (auto simp: path_Ok)

lemma cond_tokens_head: "cond_tokens env p c \<Longrightarrow> \<exists>w q. p = TCondition w # q \<and> (ends_open c \<longleftrightarrow> w = CCompose) \<and>
    w \<notin> {CSpatialProximity, CDecay}"
  by (induction rule: cond_tokens.induct) auto

lemma no_compose_tail_head: "ppeek ts \<noteq> TAnd \<Longrightarrow> no_compose_tail ts"
  by (simp add: no_compose_tail_def)

lemma no_compose_tail_and: "cond_tokens env p c \<Longrightarrow> no_compose_tail (TAnd # p @ ts)"
  by (auto simp: no_compose_tail_def peek_ahead_def dest: cond_tokens_head)

lemma and_list_head: "and_list env p cs \<Longrightarrow> no_compose_tail (TAnd # p @ ts)"
  by (erule and_list.cases) (simp_all add: no_compose_tail_and)

lemma opt_compose_Ok:
  assumes "(if ppeek ts = TCompose then pbind (parse_condition env) (\<lambda>d. preturn (f d)) ts else Ok (x, ts)) = Ok (y, r)"
  shows "\<exists>p ds. ts = p @ r \<and> opt_compose env p ds \<and> (case ds of [] \<Rightarrow> y = x | d # _ \<Rightarrow> y = f d)"
proof (cases "ppeek ts = TCompose")
  case True
  with assms obtain d where d: "parse_condition env ts = Ok (d, r)" "y = f d" by (auto simp: parser_Ok)
  with parse_condition_sound obtain p where p: "ts = p @ r" "cond_tokens env p d" by blast
  with True have "ends_open d" by (auto dest: cond_tokens_head)
  with p d show ?thesis by (intro exI [of _ p] exI [of _ "[d]"]) (simp add: opt_compose.some)
next
  case False
  with assms show ?thesis by (intro exI [of _ "[]"]) (simp add: opt_compose.none)
qed

lemma opt_compose_run:
  assumes "opt_compose env p ds" "ppeek r \<noteq> TAnd" "ppeek r \<noteq> TCompose"
  shows "(if ppeek (p @ r) = TCompose then pbind (parse_condition env) (\<lambda>d. preturn (f d)) (p @ r) else Ok (x, p @ r)) =
    Ok (case ds of [] \<Rightarrow> x | d # _ \<Rightarrow> f d, r)"
  using assms(1)
proof cases
  case (some c)
  then have "ppeek (p @ r) = TCompose" by (auto dest: cond_tokens_head)
  moreover from some have "parse_condition env (p @ r) = Ok (c, r)"
    by (intro parse_condition_complete) (simp_all add: no_compose_tail_head assms)
  ultimately show ?thesis using some by (simp add: parser_run)
qed (use assms in simp)

lemma where_loop_sound:
  "where_loop env acc ts = Ok (cs', r) \<Longrightarrow>
    \<exists>p cs q ds. ts = p @ q @ r \<and> and_list env p cs \<and> opt_compose env q ds \<and> cs' = acc @ cs @ ds"
proof (induction "length ts" arbitrary: acc ts rule: less_induct)
  case less
  from less.prems obtain c m where c: "parse_condition env ts = Ok (c, m)"
    "(if ppeek m = TAnd then where_loop env (acc @ [c]) (tl m)
      else if ppeek m = TCompose then pbind (parse_condition env) (\<lambda>d. preturn (acc @ [c] @ [d])) m
      else Ok (acc @ [c], m)) = Ok (cs', r)"
    by (subst (asm) where_loop.simps) (auto simp: pbind_Ok simp del: append_assoc append.simps)
  from parse_condition_sound [OF c(1)] obtain p where p: "ts = p @ m" "cond_tokens env p c" by blast
  show ?case
  proof (cases "ppeek m = TAnd")
    case True
    with c(2) have w: "where_loop env (acc @ [c]) (tl m) = Ok (cs', r)" and m: "m = TAnd # tl m" by (cases m; simp)+
    have "length (tl m) < length ts" using parse_condition_shrinks [OF c(1)] by simp
    from less.hyps [OF this w] obtain p' cs q ds where IH: "tl m = p' @ q @ r" "and_list env p' cs" "opt_compose env q ds"
      "cs' = (acc @ [c]) @ cs @ ds" by blast
    from IH(1) m have "ts = (p @ TAnd # p') @ q @ r" using p(1) by simp
    with IH p show ?thesis
      by (intro exI [of _ "p @ TAnd # p'"] exI [of _ "c # cs"] exI [of _ q] exI [of _ ds]) (simp add: and_list.more)
  next
    case False
    with c(2) opt_compose_Ok [of m env "\<lambda>d. acc @ [c] @ [d]" "acc @ [c]" cs' r] obtain q ds where
      "m = q @ r" "opt_compose env q ds" "case ds of [] \<Rightarrow> cs' = acc @ [c] | d # _ \<Rightarrow> cs' = acc @ [c] @ [d]" by auto
    with p show ?thesis
      by (intro exI [of _ p] exI [of _ "[c]"] exI [of _ q] exI [of _ ds]) (auto simp: and_list.one elim: opt_compose.cases)
  qed
qed

lemma where_loop_run:
  "and_list env p cs \<Longrightarrow> opt_compose env q ds \<Longrightarrow> ppeek r \<noteq> TAnd \<Longrightarrow> q \<noteq> [] \<or> ppeek r \<noteq> TCompose \<Longrightarrow>
    where_loop env acc (p @ q @ r) = Ok (acc @ cs @ ds, r)"
proof (induction arbitrary: acc rule: and_list.induct)
  case (one p c)
  have head: "ppeek (q @ r) \<noteq> TAnd" using one by (auto elim!: opt_compose.cases dest: cond_tokens_head)
  then have c: "parse_condition env (p @ q @ r) = Ok (c, q @ r)"
    by (intro parse_condition_complete one no_compose_tail_head)
  from one(2) show ?case
  proof cases
    case none
    with one c show ?thesis by (subst where_loop.simps) (simp add: parser_run)
  next
    case (some d)
    then have "ppeek (q @ r) = TCompose" by (auto dest: cond_tokens_head)
    moreover from some one have "parse_condition env (q @ r) = Ok (d, r)"
      by (intro parse_condition_complete) (simp_all add: no_compose_tail_head)
    ultimately show ?thesis using c some by (subst where_loop.simps) (simp add: parser_run)
  qed
next
  case (more p c p' cs)
  have "parse_condition env (p @ TAnd # p' @ q @ r) = Ok (c, TAnd # p' @ q @ r)"
    by (intro parse_condition_complete more) (rule and_list_head [OF more(2)])
  with more show ?case by (subst where_loop.simps) (simp add: parser_run)
qed

lemma parse_sift_conditions_sound:
  assumes "parse_sift_conditions env ts = Ok (cs, r)"
  shows "\<exists>p. ts = p @ r \<and> sift_conds env p cs"
proof -
  from assms obtain cs1 m where m: "(if ppeek ts = TWhere then where_loop env [] (tl ts) else Ok ([], ts)) = Ok (cs1, m)"
    "(if ppeek m = TCompose then pbind (parse_condition env) (\<lambda>d. preturn (cs1 @ [d])) m else Ok (cs1, m)) = Ok (cs, r)"
    by (auto simp: parse_sift_conditions_def pbind_Ok simp del: append.simps)
  from opt_compose_Ok [OF m(2)] obtain q ds where q: "m = q @ r" "opt_compose env q ds"
    and ds: "case ds of [] \<Rightarrow> cs = cs1 | d # _ \<Rightarrow> cs = cs1 @ [d]" by blast
  from q(2) ds have cs: "cs = cs1 @ ds" by cases simp_all
  show ?thesis
  proof (cases "ppeek ts = TWhere")
    case True
    with m(1) where_loop_sound [of env "[]" "tl ts" cs1 m] obtain p cs2 p' ds' where
      w: "tl ts = p @ p' @ m" "and_list env p cs2" "opt_compose env p' ds'" "cs1 = cs2 @ ds'" by auto
    from True have "ts = TWhere # tl ts" by (cases ts) auto
    with w(1) q(1) have "ts = (TWhere # p @ p' @ q) @ r" by simp
    moreover from sift_conds.where_ [OF w(2,3) q(2)] have "sift_conds env (TWhere # p @ p' @ q) cs"
      by (simp add: w(4) cs)
    ultimately show ?thesis by blast
  next
    case False
    with m(1) q cs show ?thesis by (auto intro: sift_conds.bare)
  qed
qed

lemma parse_sift_conditions_run:
  assumes "sift_conds env p cs" "ppeek r \<notin> {TAnd, TCompose, TWhere}"
  shows "parse_sift_conditions env (p @ r) = Ok (cs, r)"
  using assms(1)
proof cases
  case bare
  then have "ppeek (p @ r) \<noteq> TWhere" using assms(2) by (auto elim!: opt_compose.cases dest: cond_tokens_head)
  with opt_compose_run [OF bare, of r "\<lambda>d. [] @ [d]" "[]"] bare assms(2) show ?thesis
    by (auto simp: parse_sift_conditions_def pbind_run elim: opt_compose.cases)
next
  case (where_ p' cs' q ds q' ds')
  show ?thesis
  proof (cases "q = []")
    case False
    have "ppeek (q' @ r) \<noteq> TAnd" using where_(5) assms(2) by (auto elim!: opt_compose.cases dest: cond_tokens_head)
    with where_loop_run [OF where_(3,4), of "q' @ r" "[]"] False
    have "where_loop env [] (p' @ q @ q' @ r) = Ok (cs' @ ds, q' @ r)" by simp
    with opt_compose_run [OF where_(5), of r "\<lambda>d. (cs' @ ds) @ [d]" "cs' @ ds"] where_ assms(2) show ?thesis
      by (auto simp: parse_sift_conditions_def pbind_run elim: opt_compose.cases)
  next
    case True
    with where_(4) have "ds = []" by (auto elim: opt_compose.cases dest: cond_tokens_head)
    moreover from where_loop_run [OF where_(3,5), of r "[]"] assms(2)
    have "where_loop env [] (p' @ q' @ r) = Ok (cs' @ ds', r)" by simp
    ultimately show ?thesis using True where_ assms(2) by (simp add: parse_sift_conditions_def pbind_run)
  qed
qed

lemma parse_limit_Ok:
  "ppeek r \<noteq> TLimit \<Longrightarrow> parse_limit env ts = Ok (x, r) \<longleftrightarrow> (\<exists>p. ts = p @ r \<and> opt_limit env p x)"
  by (cases ts) (auto simp: parse_limit_def parser_Ok opt_limit.simps)

lemma parse_limit_sound: "parse_limit env ts = Ok (x, r) \<Longrightarrow> \<exists>p. ts = p @ r \<and> opt_limit env p x"
  by (cases ts) (auto simp: parse_limit_def parser_Ok opt_limit.simps split: if_splits)

lemma field_Ok:
  "(case ppeek ts of
        TSensorId \<Rightarrow> parse_equals env (\<lambda>id. (Some (ucast id), snd st)) (tl ts)
      | TMetricId \<Rightarrow> parse_equals env (\<lambda>id. (fst st, Some (ucast id), snd (snd st))) (tl ts)
      | TTime \<Rightarrow> parse_equals env (\<lambda>t. (fst st, fst (snd st), Some t)) (tl ts)
      | other \<Rightarrow> perror (''Unexpected field in DELETE WHERE clause: '' @ debug_token env other) ts) = Ok (st', r) \<longleftrightarrow>
   (\<exists>p f. ts = p @ r \<and> field_tokens env p f \<and> st' = set_field f st)"
  by (cases ts; cases st)
    (auto simp: field_tokens.simps parse_equals_Ok perror_Ok split: token.splits condition_word.splits)

lemma delete_loop_step:
  "delete_loop env st ts = Ok (st', r) \<longleftrightarrow>
    (\<exists>p f m. ts = p @ m \<and> field_tokens env p f \<and>
      (if ppeek m = TAnd then delete_loop env (set_field f st) (tl m) = Ok (st', r) else st' = set_field f st \<and> r = m))"
proof -
  have "delete_loop env st ts = Ok (st', r) \<longleftrightarrow>
    (\<exists>x m. (\<exists>p f. ts = p @ m \<and> field_tokens env p f \<and> x = set_field f st) \<and>
      (if ppeek m = TAnd then delete_loop env x (tl m) else Ok (x, m)) = Ok (st', r))"
    by (subst delete_loop.simps) (simp only: pbind_Ok field_Ok)
  also have "\<dots> \<longleftrightarrow> (\<exists>x m. (\<exists>p f. ts = p @ m \<and> field_tokens env p f \<and> x = set_field f st) \<and>
      (if ppeek m = TAnd then delete_loop env x (tl m) = Ok (st', r) else st' = x \<and> r = m))"
    by (intro arg_cong [where f = Ex] ext conj_cong refl) auto
  finally show ?thesis by blast
qed

lemma delete_loop_sound:
  "delete_loop env st ts = Ok (st', r) \<Longrightarrow> \<exists>p fs. ts = p @ r \<and> field_list env p fs \<and> st' = fold set_field fs st"
proof (induction "length ts" arbitrary: st ts rule: less_induct)
  case less
  from less.prems obtain p f m where p: "ts = p @ m" "field_tokens env p f"
    "if ppeek m = TAnd then delete_loop env (set_field f st) (tl m) = Ok (st', r) else st' = set_field f st \<and> r = m"
    by (auto simp: delete_loop_step [of env st ts])
  show ?case
  proof (cases "ppeek m = TAnd")
    case True
    then have m: "m = TAnd # tl m" by (cases m) auto
    then have "length (tl m) < length ts" using p(1) by (cases m) auto
    from p(3) True have d: "delete_loop env (set_field f st) (tl m) = Ok (st', r)" by simp
    from less.hyps [OF \<open>length (tl m) < length ts\<close> d] obtain q fs where "tl m = q @ r" "field_list env q fs" "st' = fold set_field fs (set_field f st)"
      by blast
    with p m show ?thesis
      by (intro exI [of _ "p @ TAnd # q"] exI [of _ "f # fs"]) (simp add: field_list.more)
  next
    case False
    with p show ?thesis by (intro exI [of _ p] exI [of _ "[f]"]) (simp add: field_list.one)
  qed
qed

lemma delete_loop_run:
  "field_list env p fs \<Longrightarrow> ppeek r \<noteq> TAnd \<Longrightarrow> delete_loop env st (p @ r) = Ok (fold set_field fs st, r)"
proof (induction arbitrary: st rule: field_list.induct)
  case (one p f)
  then show ?case by (subst delete_loop_step) auto
next
  case (more p f q fs)
  then show ?case
    by (subst delete_loop_step) (intro exI [of _ p] exI [of _ f] exI [of _ "TAnd # q @ r"], simp)
qed

lemma fuse_paths_sound:
  "fuse_paths env acc ts = Ok (ps, r) \<Longrightarrow> \<exists>p ss. ts = p @ r \<and> path_list p ss \<and> ps = acc @ ss"
proof (induction "length ts" arbitrary: acc ts rule: less_induct)
  case less
  from less.prems obtain t s m where t: "path_token t s" "ts = t # m"
    "(ppeek m = TComma \<and> fuse_paths env (acc @ [s]) (tl m) = Ok (ps, r)) \<or> (m = TRParen # r \<and> ps = acc @ [s])"
    by (subst (asm) fuse_paths.simps) (auto simp: pbind_Ok path_Ok perror_Ok ppeek_Cons split: if_splits)
  from t(3) show ?case
  proof (elim disjE conjE)
    assume m: "ppeek m = TComma" "fuse_paths env (acc @ [s]) (tl m) = Ok (ps, r)"
    have "length (tl m) < length ts" using t(2) by simp
    from less.hyps [OF this m(2)] obtain p ss where "tl m = p @ r" "path_list p ss" "ps = (acc @ [s]) @ ss" by blast
    moreover from m(1) have "m = TComma # tl m" by (cases m) auto
    ultimately show ?thesis using t
      by (intro exI [of _ "t # TComma # p"] exI [of _ "s # ss"]) (simp add: path_list.more)
  next
    assume "m = TRParen # r" "ps = acc @ [s]"
    with t show ?thesis by (intro exI [of _ "[t, TRParen]"] exI [of _ "[s]"]) (simp add: path_list.one)
  qed
qed

lemma fuse_paths_run: "path_list p ss \<Longrightarrow> fuse_paths env acc (p @ r) = Ok (acc @ ss, r)"
  by (induction arbitrary: acc rule: path_list.induct; subst fuse_paths.simps) (simp_all add: pbind_run path_run)

lemma fuse_options_sound:
  "fuse_options env st ts = Ok (st', r) \<Longrightarrow>
    \<exists>p os. ts = p @ r \<and> switch_list p os \<and> st' = fold (\<lambda>(opt, b). set_switch opt b) os st"
proof (induction "length ts" arbitrary: st ts rule: less_induct)
  case less
  show ?case
  proof (cases "\<exists>opt m. ts = TIdentifier opt # m")
    case True
    then obtain opt m where ts: "ts = TIdentifier opt # m" by blast
    with less.prems obtain b m' where m': "m = TEqual # bool_token b # m'"
      "fuse_options env (set_switch opt b st) (skip_token TComma m') = Ok (st', r)"
      by (subst (asm) fuse_options.simps) (auto simp: pbind_Ok parse_switch_value_Ok)
    define sep :: "'a token list" where "sep = (if ppeek m' = TComma then [TComma] else [])"
    then have sep: "m' = sep @ skip_token TComma m'" "sep = [] \<or> sep = [TComma]"
      by (cases m'; auto simp: skip_token_def)+
    then have "length (skip_token TComma m') < length ts" using ts m'(1) by (cases m') (auto simp: skip_token_def)
    from less.hyps [OF this m'(2)] obtain p os where "skip_token TComma m' = p @ r" "switch_list p os"
      "st' = fold (\<lambda>(opt, b). set_switch opt b) os (set_switch opt b st)" by blast
    with ts m'(1) sep show ?thesis
      by (intro exI [of _ "TIdentifier opt # TEqual # bool_token b # sep @ p"] exI [of _ "(opt, b) # os"])
        (simp add: switch_list.more)
  next
    case False
    with less.prems have "st' = st" "r = ts"
      by (subst (asm) fuse_options.simps, cases ts, auto split: if_splits token.splits)+
    then show ?thesis by (intro exI [of _ "[]"]) (simp add: switch_list.none)
  qed
qed

lemma fuse_options_run:
  "switch_list p os \<Longrightarrow> fuse_options env st (p @ TRParen # r) = Ok (fold (\<lambda>(opt, b). set_switch opt b) os st, TRParen # r)"
proof (induction arbitrary: st rule: switch_list.induct)
  case none
  then show ?case by (subst fuse_options.simps) simp
next
  case (more ts os sep opt b)
  have "ppeek (ts @ TRParen # r) \<noteq> TComma" using more(1) by cases auto
  with more(2) have "skip_token TComma (sep @ ts @ TRParen # r) = ts @ TRParen # r" by (auto simp: skip_token_def)
  moreover have "parse_switch_value env (TEqual # bool_token b # u) = Ok (b, u)" for u
    by (simp add: parse_switch_value_Ok)
  ultimately show ?case by (subst fuse_options.simps) (simp add: pbind_run more.IH del: if_split)
qed

lemma coordinate_token_Ok:
  "(case t of TCoordinate s \<Rightarrow> preturn s | TIdentifier s \<Rightarrow> preturn s
    | other \<Rightarrow> perror (''Expected S3A coordinate (e.g. L0:T4:R12), found '' @ debug_token env other)) ts = Ok (s, r) \<longleftrightarrow>
   coordinate_token t s \<and> r = ts"
  by (cases t) (auto simp: coordinate_token_def parser_Ok)

lemma coordinate_value_Ok:
  "(case x of Err InvalidCoordinate \<Rightarrow> perror message | Ok coord \<Rightarrow> preturn coord) ts = Ok (c, r) \<longleftrightarrow> x = Ok c \<and> r = ts"
  by (auto simp: parser_Ok split: sum.splits coordinate_error.splits)

lemma parse_fetch_sound:
  assumes "parse_fetch env version ts = Ok (st, r)"
  shows "\<exists>p. ts = p @ r \<and> body_tokens env version p st"
proof -
  from assms obtain t s c u p m where ts: "ts = TFetch # TRecord # TAt # m"
    "coordinate_token (ppeek m) s" "coordinate_parse s = Ok c" "tl m = TFrom # u # r" "path_token u p"
    "st = Fetch \<lparr>fe_coordinate = c, fe_from_path = p, fe_version = version\<rparr>"
    unfolding parse_fetch_def
    by (clarsimp simp: pbind_Ok preturn_Ok expect_Ok padvance_Ok path_Ok coordinate_token_Ok coordinate_value_Ok)
  from ts(2) have "m = ppeek m # TFrom # u # r" using ts(4) by (cases m) (auto simp: coordinate_token_def)
  then have "ts = [TFetch, TRecord, TAt, ppeek m, TFrom, u] @ r" using ts(1) by simp
  with body_tokens.fetch [OF ts(2,3,5), of env version] ts(6) show ?thesis by blast
qed

lemma parse_domain_Ok: "parse_domain env t ts = Ok (d, r) \<longleftrightarrow> t = domain_token d \<and> r = ts"
  by (cases d) (auto simp: parse_domain_def parser_Ok split: token.splits domain_word.splits)

lemma domain_token_Eof [simp]: "domain_token d \<noteq> TEof"
  by (cases d) auto

lemma parse_sift_sound:
  assumes "parse_sift env version ts = Ok (st, r)"
  shows "\<exists>p. ts = p @ r \<and> body_tokens env version p st"
proof -
  from assms obtain d m u p cs m' m'' limit where ts: "ts = TSift # m" "ppeek m = domain_token d" "tl m = TFrom # u # m'"
    "path_token u p" "parse_sift_conditions env m' = Ok (cs, m'')" "parse_limit env m'' = Ok (limit, r)"
    "st = Sift \<lparr>si_domain = d, si_from_path = p, si_conditions = cs, si_limit = limit, si_version = version\<rparr>"
    unfolding parse_sift_def
    by (clarsimp simp: pbind_Ok preturn_Ok expect_Ok padvance_Ok path_Ok parse_domain_Ok)
  from parse_sift_conditions_sound [OF ts(5)] obtain q where q: "m' = q @ m''" "sift_conds env q cs" by blast
  from parse_limit_sound [OF ts(6)] obtain l where l: "m'' = l @ r" "opt_limit env l limit" by blast
  from ts(2,3) have "m = domain_token d # TFrom # u # m'" by (cases m) auto
  with ts(1) q(1) l(1) have "ts = (TSift # domain_token d # TFrom # u # q @ l) @ r" by simp
  with body_tokens.sift [OF ts(4) q(2) l(2), of version d] ts(7) show ?thesis by blast
qed

lemma parse_insert_sound:
  assumes "parse_insert env version ts = Ok (st, r)"
  shows "\<exists>p. ts = p @ r \<and> body_tokens env version p st"
proof -
  from assms obtain t s m v u p where
    "ts = [TInsert, TTelemetry, TLParen, TNumber t, TComma, TNumber s, TComma, TNumber m, TComma, TNumber v, TRParen, TInto, u] @ r"
    "path_token u p"
    "st = Insert \<lparr>in_timestamp = f64_as_u64 env t, in_sensor_id = ucast (f64_as_u64 env s),
        in_metric_id = ucast (f64_as_u64 env m), in_value = v, in_into_path = p, in_version = version\<rparr>"
    unfolding parse_insert_def
    by (clarsimp simp: pbind_Ok preturn_Ok expect_Ok path_Ok parse_u64_Ok parse_f64_Ok)
  with body_tokens.insert [of u p env version t s m v] show ?thesis by blast
qed

lemma ok_or_Ok: "ok_or message x ts = Ok (y, r) \<longleftrightarrow> x = Some y \<and> r = ts"
  by (auto simp: ok_or_def parser_Ok split: option.splits)

lemma parse_delete_sound:
  assumes "parse_delete env version ts = Ok (st, r)"
  shows "\<exists>p. ts = p @ r \<and> body_tokens env version p st"
proof -
  from assms obtain m s me t u p where ts: "ts = TDelete # TTelemetry # TWhere # m"
    "delete_loop env (None, None, None) m = Ok ((Some s, Some me, Some t), TFrom # u # r)" "path_token u p"
    "st = Delete \<lparr>de_sensor_id = s, de_metric_id = me, de_timestamp = t, de_from_path = p, de_version = version\<rparr>"
    unfolding parse_delete_def
    by (clarsimp simp: pbind_Ok preturn_Ok expect_Ok path_Ok ok_or_Ok)
  from delete_loop_sound [OF ts(2)] obtain q fs where q: "m = q @ TFrom # u # r" "field_list env q fs"
    "fold set_field fs (None, None, None) = (Some s, Some me, Some t)" by auto
  from ts(1) q(1) have "ts = (TDelete # TTelemetry # TWhere # q @ [TFrom, u]) @ r" by simp
  with body_tokens.delete [OF q(2,3) ts(3), of version] ts(4) show ?thesis by blast
qed

lemma parse_compact_sound:
  assumes "parse_compact env version ts = Ok (st, r)"
  shows "\<exists>p. ts = p @ r \<and> body_tokens env version p st"
proof -
  from assms obtain u p where "ts = [TCompact, TArchive, u] @ r" "path_token u p"
    "st = Compact \<lparr>cp_archive_path = p, cp_version = version\<rparr>"
    unfolding parse_compact_def by (clarsimp simp: pbind_Ok preturn_Ok expect_Ok path_Ok)
  with body_tokens.compact [of u p env version] show ?thesis by blast
qed

lemma parse_fuse_with_sound:
  assumes "parse_fuse_with env ts = Ok (st, r)"
  shows "\<exists>p os. ts = p @ r \<and> fuse_with p os \<and> st = set_switches os"
proof (cases "ppeek ts = TWith")
  case True
  with assms obtain m where m: "tl ts = TLParen # m" "fuse_options env (True, True, True) m = Ok (st, TRParen # r)"
    unfolding parse_fuse_with_def by (clarsimp simp: pbind_Ok preturn_Ok expect_Ok)
  from fuse_options_sound [OF m(2)] obtain q os where q: "m = q @ TRParen # r" "switch_list q os" "st = set_switches os"
    by (auto simp: set_switches_def)
  from True m(1) q(1) have "ts = (TWith # TLParen # q @ [TRParen]) @ r" by (cases ts) auto
  with fuse_with.some [OF q(2)] q(3) show ?thesis by blast
next
  case False
  with assms show ?thesis unfolding parse_fuse_with_def
    by (intro exI [of _ "[]"]) (simp add: fuse_with.none set_switches_def)
qed

lemma parse_fuse_sound:
  assumes "parse_fuse env version ts = Ok (st, r)"
  shows "\<exists>p. ts = p @ r \<and> body_tokens env version p st"
proof -
  from assms obtain m ps u m' a b c p where ts: "ts = TFuse # TTiles # TFrom # TLParen # m"
    "fuse_paths env [] m = Ok (ps, TInto # u # m')" "path_token u p" "parse_fuse_with env m' = Ok ((a, b, c), r)"
    "st = Fuse \<lparr>fu_input_paths = ps, fu_output_path = p, fu_resolve_versioned_updates = a, fu_purge_tombstones = b,
        fu_recalculate_simplex_hulls = c, fu_version = version\<rparr>"
    unfolding parse_fuse_def by (clarsimp simp: pbind_Ok preturn_Ok expect_Ok path_Ok)
  from fuse_paths_sound [OF ts(2)] obtain q where q: "m = q @ TInto # u # m'" "path_list q ps" by auto
  from parse_fuse_with_sound [OF ts(4)] obtain w os where w: "m' = w @ r" "fuse_with w os" "set_switches os = (a, b, c)"
    by auto
  from ts(1) q(1) w(1) have "ts = (TFuse # TTiles # TFrom # TLParen # q @ TInto # u # w) @ r" by simp
  with body_tokens.fuse [OF q(2) ts(3) w(2,3), of env version] ts(5) show ?thesis by blast
qed

lemma parse_body_sound:
  assumes "parse_body env version ts = Ok (st, r)"
  shows "\<exists>p. ts = p @ r \<and> body_tokens env version p st"
proof (cases "ppeek ts")
  case (TKeyword k)
  with assms show ?thesis unfolding parse_body_def
    by (cases k) (simp_all add: perror_Ok parse_fetch_sound parse_sift_sound parse_insert_sound parse_delete_sound
        parse_compact_sound parse_fuse_sound)
qed (use assms in \<open>simp_all add: parse_body_def perror_Ok\<close>)

lemma skip_semicolon: "\<exists>sc. ts = sc @ skip_token TSemicolon ts \<and> opt_semicolon sc"
  by (cases ts) (auto simp: skip_token_def opt_semicolon_def)

lemma skip_semicolon_run: "opt_semicolon sc \<Longrightarrow> ppeek r \<noteq> TSemicolon \<Longrightarrow> skip_token TSemicolon (sc @ r) = r"
  by (auto simp: skip_token_def opt_semicolon_def)

lemma preamble_sound_aux:
  assumes "r = skip_token TSemicolon m" "ts = q @ m"
    "\<And>sc. opt_semicolon sc \<Longrightarrow> preamble_tokens env (q @ sc) v"
  shows "\<exists>p. ts = p @ r \<and> preamble_tokens env p v"
proof -
  obtain sc where "m = sc @ r" "opt_semicolon sc" using skip_semicolon [of m] assms(1) by auto
  then show ?thesis using assms(2) assms(3) [of sc] by (intro exI [of _ "q @ sc"]) simp
qed

lemma parse_preamble_sound:
  assumes "parse_preamble env ts = Ok (v, r)"
  shows "\<exists>p. ts = p @ r \<and> preamble_tokens env p v"
proof (cases "ppeek ts = TPragma")
  case True
  with assms obtain n m where m: "tl ts = TVersion # TNumber n # m" "r = skip_token TSemicolon m" "v = Some (f64_as_u32 env n)"
    unfolding parse_preamble_def by (clarsimp simp: pbind_Ok expect_Ok parse_u32_Ok)
  with True have "ts = [TPragma, TVersion, TNumber n] @ m" by (cases ts) auto
  from preamble_sound_aux [OF m(2) this, of env v] m(3) show ?thesis by (simp add: preamble_tokens.pragma)
next
  case no_pragma: False
  show ?thesis
  proof (cases "ppeek ts = TVersion")
    case True
    with assms obtain n m where m: "tl ts = TNumber n # m" "r = skip_token TSemicolon m" "v = Some (f64_as_u32 env n)"
      unfolding parse_preamble_def by (clarsimp simp: pbind_Ok parse_u32_Ok)
    with True have "ts = [TVersion, TNumber n] @ m" by (cases ts) auto
    from preamble_sound_aux [OF m(2) this, of env v] m(3) show ?thesis by (simp add: preamble_tokens.version)
  next
    case False
    with assms no_pragma show ?thesis unfolding parse_preamble_def
      by (intro exI [of _ "[]"]) (simp add: preamble_tokens.none)
  qed
qed

lemma parse_statement_sound:
  assumes "parse_statement env ts = Ok (st, r)"
  shows "\<exists>p. ts = p @ r \<and> stmt_tokens env p st"
proof -
  from assms obtain v m m' where m: "parse_preamble env ts = Ok (v, m)" "parse_body env v m = Ok (st, m')"
    "r = skip_token TSemicolon m'"
    unfolding parse_statement_def by (clarsimp simp: pbind_Ok)
  from parse_preamble_sound [OF m(1)] obtain p where p: "ts = p @ m" "preamble_tokens env p v" by blast
  from parse_body_sound [OF m(2)] obtain b where b: "m = b @ m'" "body_tokens env v b st" by blast
  from skip_semicolon [of m'] m(3) obtain sc where sc: "m' = sc @ r" "opt_semicolon sc" by auto
  from p(1) b(1) sc(1) have "ts = (p @ b @ sc) @ r" by simp
  with stmt_tokens.intros [OF p(2) b(2) sc(2)] show ?thesis by blast
qed

section \<open>The grammar is accepted\<close>

lemmas clause_run = pbind_run expect_run parse_number_run padvance_run preturn_def path_run

lemma parse_fuse_with_run:
  "fuse_with p os \<Longrightarrow> ppeek r \<noteq> TWith \<Longrightarrow> parse_fuse_with env (p @ r) = Ok (set_switches os, r)"
  by (erule fuse_with.cases) (simp_all add: parse_fuse_with_def set_switches_def pbind_run expect_run fuse_options_run preturn_def)

lemma parse_limit_run: "opt_limit env p x \<Longrightarrow> ppeek r \<noteq> TLimit \<Longrightarrow> parse_limit env (p @ r) = Ok (x, r)"
  by (erule opt_limit.cases) (simp_all add: parse_limit_def pbind_run parse_number_run preturn_def)

lemma opt_limit_head: "opt_limit env p x \<Longrightarrow> ppeek (p @ r) = TLimit \<or> p = []"
  by (erule opt_limit.cases) auto

text \<open>A closing semicolon closes every clause, so the body is followed by tokens that end it.\<close>

definition ends_body :: "'f token list \<Rightarrow> bool" where
  "ends_body ts \<longleftrightarrow> ppeek ts \<notin> {TAnd, TCompose, TLimit, TWhere, TWith}"

lemma parse_body_run:
  assumes "body_tokens env version b st" "ends_body r"
  shows "parse_body env version (b @ r) = Ok (st, r)"
  using assms(1)
proof cases
  case (fetch t s c u p)
  from fetch(3) show ?thesis unfolding coordinate_token_def
    by (elim disjE) (simp_all add: fetch path_run [OF fetch(5)] parse_body_def parse_fetch_def clause_run)
next
  case (sift u p cs conds ls limit d)
  have l: "parse_limit env (ls @ r) = Ok (limit, r)"
    by (intro parse_limit_run sift) (use assms(2) in \<open>simp add: ends_body_def\<close>)
  have "ppeek (ls @ r) \<notin> {TAnd, TCompose, TWhere}"
    using opt_limit_head [OF sift(5), of r] assms(2) by (auto simp: ends_body_def)
  with sift have c: "parse_sift_conditions env (cs @ ls @ r) = Ok (conds, ls @ r)"
    by (intro parse_sift_conditions_run)
  have d: "parse_domain env (domain_token d) ts = Ok (d, ts)" for ts
    by (simp add: parse_domain_Ok)
  from sift c l d show ?thesis by (simp add: parse_body_def parse_sift_def clause_run)
next
  case (insert u p t s m v)
  then show ?thesis by (simp add: parse_body_def parse_insert_def clause_run)
next
  case (delete fs fl s m t u p)
  then have "delete_loop env (None, None, None) (fs @ TFrom # u # r) = Ok ((Some s, Some m, Some t), TFrom # u # r)"
    by (simp add: delete_loop_run)
  with delete show ?thesis by (simp add: parse_body_def parse_delete_def clause_run ok_or_def)
next
  case (compact u p)
  then show ?thesis by (simp add: parse_body_def parse_compact_def clause_run)
next
  case (fuse ps paths u p ws os a b c)
  have "parse_fuse_with env (ws @ r) = Ok ((a, b, c), r)"
    using parse_fuse_with_run [OF fuse(5), of r env] assms(2) fuse(6) by (simp add: ends_body_def)
  with fuse show ?thesis by (simp add: parse_body_def parse_fuse_def clause_run fuse_paths_run)
qed

lemma body_tokens_head: "body_tokens env version b st \<Longrightarrow>
    \<exists>k q. b = TKeyword k # q \<and> k \<in> {KFetch, KSift, KInsert, KDelete, KCompact, KFuse}"
  by (erule body_tokens.cases) auto

lemma parse_preamble_run:
  assumes "preamble_tokens env p v" "ppeek r \<notin> {TPragma, TVersion, TSemicolon}"
  shows "parse_preamble env (p @ r) = Ok (v, r)"
  using assms by cases (auto simp: parse_preamble_def pbind_run expect_run parse_number_run skip_semicolon_run)

lemma parse_statement_run:
  assumes "stmt_tokens env ts st" "closes r"
  shows "parse_statement env (ts @ r) = Ok (st, r)"
  using assms(1)
proof cases
  case (1 p v b sc)
  have "ends_body (sc @ r)" using 1(4) assms(2) by (auto simp: opt_semicolon_def ends_body_def closes_def)
  from parse_body_run [OF 1(3) this] have "parse_body env v (b @ sc @ r) = Ok (st, sc @ r)" .
  moreover have "parse_preamble env (p @ b @ sc @ r) = Ok (v, b @ sc @ r)"
    using body_tokens_head [OF 1(3)] by (intro parse_preamble_run 1) auto
  ultimately show ?thesis using 1 assms(2)
    by (simp add: parse_statement_def pbind_run skip_semicolon_run closes_def)
qed

section \<open>The documented grammar\<close>

text \<open>The grammar of \<^verbatim>\<open>docs/s3a-ql-v1.md\<close>, section 2, production by production, with the
  value that each sentence denotes.  Its \<^verbatim>\<open>Integer\<close> and \<^verbatim>\<open>Float\<close> are both the number
  token of the lexer, and a \<^verbatim>\<open>Coordinate\<close> is one that is in range.  It is written without a look at the parser.\<close>

inductive ebnf_floats :: "('f, 'g) ql_env \<Rightarrow> 'f token list \<Rightarrow> 'g list \<Rightarrow> bool" for env where
  last_: "ebnf_floats env [TNumber x, TRBracket] [f64_as_f32 env x]"
| more: "ebnf_floats env ts v \<Longrightarrow> ebnf_floats env (TNumber x # TComma # ts) (f64_as_f32 env x # v)"

definition ebnf_vector_3d :: "'f \<Rightarrow> 'f \<Rightarrow> 'f \<Rightarrow> 'f token list" where
  "ebnf_vector_3d x y z = [TLBracket, TNumber x, TComma, TNumber y, TComma, TNumber z, TRBracket]"

definition float_triple :: "('f, 'g) ql_env \<Rightarrow> 'f \<Rightarrow> 'f \<Rightarrow> 'f \<Rightarrow> 'g \<times> 'g \<times> 'g" where
  "float_triple env x y z = (f64_as_f32 env x, f64_as_f32 env y, f64_as_f32 env z)"

inductive ebnf_condition :: "('f, 'g) ql_env \<Rightarrow> 'f token list \<Rightarrow> ('f, 'g) condition \<Rightarrow> bool" for env where
  "ebnf_condition env [TTime, TBetween, TNumber a, TAnd, TNumber b] (TimeBetween (f64_as_u64 env a) (f64_as_u64 env b))"
| "ebnf_condition env [TSensorId, TEqual, TNumber a] (SensorId (ucast (f64_as_u64 env a)))"
| "ebnf_condition env [TMetricId, TEqual, TNumber a] (MetricId (ucast (f64_as_u64 env a)))"
| "ebnf_condition env [TActorId, TEqual, TNumber a] (ActorId (f64_as_u64 env a))"
| "ebnf_condition env [TVerbId, TEqual, TNumber a] (VerbId (ucast (f64_as_u64 env a)))"
| "ebnf_condition env ([TSpatialBox, TIn, TSimplex, TLParen, TMin] @ ebnf_vector_3d a b c @ [TComma, TMax] @
     ebnf_vector_3d d e f @ [TRParen]) (SpatialBoxSimplex (float_triple env a b c) (float_triple env d e f))"
| "ebnf_condition env [TLatitude, TBetween, TNumber a, TAnd, TNumber b] (GisLatitudeBetween a b)"
| "ebnf_condition env [TLongitude, TBetween, TNumber a, TAnd, TNumber b] (GisLongitudeBetween a b)"
| "ebnf_condition env [TElevation, TBetween, TNumber a, TAnd, TNumber b] (GisElevationBetween a b)"
| "ebnf_condition env [TBlockHeight, TBetween, TNumber a, TAnd, TNumber b]
     (BlockHeightBetween (f64_as_u64 env a) (f64_as_u64 env b))"
| "ebnf_floats env vs v \<Longrightarrow> (metric, t) \<in> {(Cosine, TCosine), (DotProduct, TDotProduct)} \<Longrightarrow>
   ebnf_condition env ([TSimilarity, TTo, TLBracket] @ vs @ [TUsing, t, TThreshold, TNumber x])
     (Similarity v metric (f64_as_f32 env x))"

inductive ebnf_conditions :: "('f, 'g) ql_env \<Rightarrow> 'f token list \<Rightarrow> ('f, 'g) condition list \<Rightarrow> bool" for env where
  one: "ebnf_condition env p c \<Longrightarrow> ebnf_conditions env p [c]"
| more: "ebnf_condition env p c \<Longrightarrow> ebnf_conditions env q cs \<Longrightarrow> ebnf_conditions env (p @ TAnd # q) (c # cs)"

inductive ebnf_proximity :: "('f, 'g) ql_env \<Rightarrow> 'f token list \<Rightarrow> ('g \<times> 'g \<times> 'g) option \<times> 'g \<Rightarrow> bool" for env where
  none: "ebnf_proximity env [] (None, zero_f32 env)"
| some: "ebnf_proximity env ([TAnd, TSpatialProximity] @ ebnf_vector_3d x y z @ [TWeight, TNumber w])
    (Some (float_triple env x y z), f64_as_f32 env w)"

inductive ebnf_decay :: "('f, 'g) ql_env \<Rightarrow> 'f token list \<Rightarrow> 'f option \<times> 'g \<Rightarrow> bool" for env where
  none: "ebnf_decay env [] (None, zero_f32 env)"
| some: "ebnf_decay env [TAnd, TDecay, THalflife, TNumber x, TWeight, TNumber w] (Some x, f64_as_f32 env w)"

inductive ebnf_compose :: "('f, 'g) ql_env \<Rightarrow> 'f token list \<Rightarrow> ('f, 'g) condition list \<Rightarrow> bool" for env where
  none: "ebnf_compose env [] []"
| some: "ebnf_floats env vs v \<Longrightarrow> ebnf_proximity env ps (p, sw) \<Longrightarrow> ebnf_decay env ds (h, tw) \<Longrightarrow>
    ebnf_compose env ([TCompose, TSimilarity, TTo, TLBracket] @ vs @ [TWeight, TNumber w] @ ps @ ds)
      [AlgebraicCompose v (f64_as_f32 env w) p sw h tw]"

inductive ebnf_where :: "('f, 'g) ql_env \<Rightarrow> 'f token list \<Rightarrow> ('f, 'g) condition list \<Rightarrow> bool" for env where
  none: "ebnf_where env [] []"
| some: "ebnf_conditions env p cs \<Longrightarrow> ebnf_compose env q ds \<Longrightarrow> ebnf_where env (TWhere # p @ q) (cs @ ds)"

inductive ebnf_options :: "'f token list \<Rightarrow> (string \<times> bool) list \<Rightarrow> bool" where
  one: "ebnf_options [TIdentifier opt, TEqual, bool_token b] [(opt, b)]"
| more: "ebnf_options ts os \<Longrightarrow> ebnf_options (TIdentifier opt # TEqual # bool_token b # TComma # ts) ((opt, b) # os)"

inductive ebnf_with :: "'f token list \<Rightarrow> (string \<times> bool) list \<Rightarrow> bool" where
  none: "ebnf_with [] []"
| some: "ebnf_options ts os \<Longrightarrow> ebnf_with (TWith # TLParen # ts @ [TRParen]) os"

text \<open>A \<^verbatim>\<open>DELETE\<close> sentence denotes a statement when its conditions name the sensor, the metric and the time;
  the documented grammar has sentences with fewer, and they denote none.\<close>

inductive ebnf_body :: "('f, 'g) ql_env \<Rightarrow> u32 option \<Rightarrow> 'f token list \<Rightarrow> ('f, 'g) statement \<Rightarrow> bool"
  for env version where
  fetch: "coordinate_token t s \<Longrightarrow> coordinate_parse s = Ok c \<Longrightarrow> path_token u p \<Longrightarrow>
    ebnf_body env version [TFetch, TRecord, TAt, t, TFrom, u]
      (Fetch \<lparr>fe_coordinate = c, fe_from_path = p, fe_version = version\<rparr>)"
| sift: "path_token u p \<Longrightarrow> ebnf_where env cs conds \<Longrightarrow> opt_limit env ls limit \<Longrightarrow>
    ebnf_body env version ([TSift, domain_token d, TFrom, u] @ cs @ ls)
      (Sift \<lparr>si_domain = d, si_from_path = p, si_conditions = conds, si_limit = limit, si_version = version\<rparr>)"
| insert: "path_token u p \<Longrightarrow>
    ebnf_body env version
      [TInsert, TTelemetry, TLParen, TNumber t, TComma, TNumber s, TComma, TNumber m, TComma, TNumber v, TRParen, TInto, u]
      (Insert \<lparr>in_timestamp = f64_as_u64 env t, in_sensor_id = ucast (f64_as_u64 env s),
        in_metric_id = ucast (f64_as_u64 env m), in_value = v, in_into_path = p, in_version = version\<rparr>)"
| delete: "field_list env fs fl \<Longrightarrow> fold set_field fl (None, None, None) = (Some s, Some m, Some t) \<Longrightarrow> path_token u p \<Longrightarrow>
    ebnf_body env version ([TDelete, TTelemetry, TWhere] @ fs @ [TFrom, u])
      (Delete \<lparr>de_sensor_id = s, de_metric_id = m, de_timestamp = t, de_from_path = p, de_version = version\<rparr>)"
| compact: "path_token u p \<Longrightarrow>
    ebnf_body env version [TCompact, TArchive, u] (Compact \<lparr>cp_archive_path = p, cp_version = version\<rparr>)"
| fuse: "path_list ps paths \<Longrightarrow> path_token u p \<Longrightarrow> ebnf_with ws os \<Longrightarrow> set_switches os = (a, b, c) \<Longrightarrow>
    ebnf_body env version ([TFuse, TTiles, TFrom, TLParen] @ ps @ [TInto, u] @ ws)
      (Fuse \<lparr>fu_input_paths = paths, fu_output_path = p, fu_resolve_versioned_updates = a, fu_purge_tombstones = b,
        fu_recalculate_simplex_hulls = c, fu_version = version\<rparr>)"

inductive ebnf_preamble :: "('f, 'g) ql_env \<Rightarrow> 'f token list \<Rightarrow> u32 option \<Rightarrow> bool" for env where
  none: "ebnf_preamble env [] None"
| pragma: "ebnf_preamble env [TPragma, TVersion, TNumber n, TSemicolon] (Some (f64_as_u32 env n))"
| version: "ebnf_preamble env [TVersion, TNumber n, TSemicolon] (Some (f64_as_u32 env n))"

inductive ebnf_statement :: "('f, 'g) ql_env \<Rightarrow> 'f token list \<Rightarrow> ('f, 'g) statement \<Rightarrow> bool" for env where
  "ebnf_preamble env p v \<Longrightarrow> ebnf_body env v b st \<Longrightarrow> opt_semicolon sc \<Longrightarrow> ebnf_statement env (p @ b @ sc) st"

text \<open>The parser's language contains the documented one, clause by clause.\<close>

lemma ebnf_floats_vector: "ebnf_floats env ts v \<Longrightarrow> vector_body env ts v"
  by (induction rule: ebnf_floats.induct) (auto intro: vector_body.intros)

lemma ebnf_condition_tokens: "ebnf_condition env p c \<Longrightarrow> cond_tokens env p c \<and> \<not> ends_open c"
  by (erule ebnf_condition.cases)
    (auto simp: ebnf_vector_3d_def float_triple_def intro: cond_tokens.intros ebnf_floats_vector)

lemma ebnf_conditions_tokens: "ebnf_conditions env p cs \<Longrightarrow> and_list env p cs"
  by (induction rule: ebnf_conditions.induct) (auto intro: and_list.intros dest: ebnf_condition_tokens)

lemma ebnf_decay_tail: "ebnf_decay env ds (h, tw) \<Longrightarrow> compose_tail env (p, sw, None, zero_f32 env) ds (p, sw, h, tw)"
  by (erule ebnf_decay.cases) (auto intro: compose_tail.intros)

lemma ebnf_proximity_tail:
  assumes "ebnf_proximity env ps (p, sw)" "ebnf_decay env ds (h, tw)"
  shows "compose_tail env (None, zero_f32 env, None, zero_f32 env) (ps @ ds) (p, sw, h, tw)"
  using assms(1) ebnf_decay_tail [OF assms(2), of p sw]
  by cases (auto simp: ebnf_vector_3d_def float_triple_def intro: compose_tail.intros)

lemma ebnf_compose_tokens: "ebnf_compose env p cs \<Longrightarrow> opt_compose env p cs"
proof (induction rule: ebnf_compose.induct)
  case (some vs v ps p sw ds h tw w)
  from cond_tokens.compose [OF ebnf_floats_vector [OF some(1)] ebnf_proximity_tail [OF some(2,3)]]
  show ?case by (intro opt_compose.some) simp_all
qed (rule opt_compose.none)

lemma ebnf_where_tokens: "ebnf_where env p cs \<Longrightarrow> sift_conds env p cs"
proof (induction rule: ebnf_where.induct)
  case none
  show ?case by (rule sift_conds.bare) (rule opt_compose.none)
next
  case (some p cs q ds)
  from sift_conds.where_ [OF ebnf_conditions_tokens [OF some(1)] ebnf_compose_tokens [OF some(2)] opt_compose.none]
  show ?case by simp
qed

lemma ebnf_options_tokens: "ebnf_options ts os \<Longrightarrow> switch_list ts os"
proof (induction rule: ebnf_options.induct)
  case (one opt b)
  from switch_list.more [OF switch_list.none, of "[]" opt b] show ?case by simp
next
  case (more ts os opt b)
  from switch_list.more [OF more.IH, of "[TComma]" opt b] show ?case by simp
qed

lemma ebnf_with_tokens: "ebnf_with ts os \<Longrightarrow> fuse_with ts os"
  by (erule ebnf_with.cases) (auto intro: fuse_with.intros ebnf_options_tokens)

lemma ebnf_body_tokens: "ebnf_body env version b st \<Longrightarrow> body_tokens env version b st"
  by (erule ebnf_body.cases) (auto intro: body_tokens.intros ebnf_where_tokens ebnf_with_tokens)

lemma ebnf_preamble_tokens: "ebnf_preamble env p v \<Longrightarrow> preamble_tokens env p v"
  by (erule ebnf_preamble.cases)
    (auto simp: opt_semicolon_def intro: preamble_tokens.intros)

lemma ebnf_statement_tokens: "ebnf_statement env ts st \<Longrightarrow> stmt_tokens env ts st"
  by (erule ebnf_statement.cases) (auto intro: stmt_tokens.intros ebnf_preamble_tokens ebnf_body_tokens)

text \<open>C25: the parser and the documented grammar.  Every statement of the frozen grammar
  of \<^verbatim>\<open>docs/s3a-ql-v1.md\<close> is parsed, completely and to what it denotes (a \<^verbatim>\<open>DELETE\<close> has to name the
  sensor, the metric and the time).  The parser accepts more: it returns \<open>st\<close> and leaves the tokens \<open>r\<close>,
  which cannot continue a statement, unread if and only if the tokens before \<open>r\<close> are a sentence \<open>stmt_tokens\<close> that
  denotes \<open>st\<close>, the documented grammar with an optional preamble semicolon, empty vectors and trailing commas,
  \<^verbatim>\<open>COMPOSE\<close> without or among the conditions and a second time, its weights in any order and repeated, and
  \<^verbatim>\<open>WITH\<close> options that may be missing or written without commas.\<close>

theorem parse_statement_grammar:
  assumes "closes r"
  shows "(ebnf_statement env ts st \<longrightarrow> parse_statement env (ts @ r) = Ok (st, r)) \<and>
    (parse_statement env (ts @ r) = Ok (st, r) \<longleftrightarrow> stmt_tokens env ts st)"
proof (intro conjI impI iffI)
  assume "ebnf_statement env ts st"
  from parse_statement_run [OF ebnf_statement_tokens [OF this] assms] show "parse_statement env (ts @ r) = Ok (st, r)" .
next
  assume "parse_statement env (ts @ r) = Ok (st, r)"
  from parse_statement_sound [OF this] show "stmt_tokens env ts st" by auto
next
  assume "stmt_tokens env ts st"
  from parse_statement_run [OF this assms] show "parse_statement env (ts @ r) = Ok (st, r)" .
qed

definition nat_env :: "(nat, nat) ql_env" where
  "nat_env = \<lparr>f64_as_u32 = of_nat, f64_as_u64 = of_nat, f64_as_f32 = id, zero_f32 = 0, debug_token = (\<lambda>_. ''token'')\<rparr>"

theorem parse_statement_grammar_witness:
  "parse_statement nat_env
     ([TVersion, TNumber 2, TSemicolon, TFuse, TTiles, TFrom, TLParen, TStringLiteral ''a'', TComma, TIdentifier ''b'', TRParen, TInto,
       TIdentifier ''c'', TWith, TLParen, TIdentifier ''purge_tombstones'', TEqual, TFalse, TRParen, TSemicolon] @ [TEof]) =
   Ok (Fuse \<lparr>fu_input_paths = [''a'', ''b''], fu_output_path = ''c'', fu_resolve_versioned_updates = True,
     fu_purge_tombstones = False, fu_recalculate_simplex_hulls = True, fu_version = Some 2\<rparr>, [TEof])"
proof -
  have "path_list [TStringLiteral ''a'', TComma, TIdentifier ''b'', TRParen :: nat token] [''a'', ''b'']"
    by (intro path_list.intros) (simp_all add: path_token_def)
  moreover have "ebnf_with (TWith # TLParen # [TIdentifier ''purge_tombstones'', TEqual, TFalse :: nat token] @ [TRParen])
      [(''purge_tombstones'', False)]"
    using ebnf_options.one [of "''purge_tombstones''" False] by (intro ebnf_with.some) simp
  moreover have "set_switches [(''purge_tombstones'', False)] = (True, False, True)" by code_simp
  ultimately have "ebnf_body nat_env (Some (2 :: u32)) ([TFuse, TTiles, TFrom, TLParen] @
      [TStringLiteral ''a'', TComma, TIdentifier ''b'', TRParen] @ [TInto, TIdentifier ''c''] @
      (TWith # TLParen # [TIdentifier ''purge_tombstones'', TEqual, TFalse] @ [TRParen]))
     (Fuse \<lparr>fu_input_paths = [''a'', ''b''], fu_output_path = ''c'', fu_resolve_versioned_updates = True,
     fu_purge_tombstones = False, fu_recalculate_simplex_hulls = True, fu_version = Some 2\<rparr>)"
    by (intro ebnf_body.fuse) (simp_all add: path_token_def)
  moreover have "ebnf_preamble nat_env [TVersion, TNumber 2, TSemicolon] (Some 2)"
    using ebnf_preamble.version [of nat_env 2] by (simp add: nat_env_def)
  ultimately have e: "ebnf_statement nat_env
     [TVersion, TNumber 2, TSemicolon, TFuse, TTiles, TFrom, TLParen, TStringLiteral ''a'', TComma, TIdentifier ''b'', TRParen, TInto,
       TIdentifier ''c'', TWith, TLParen, TIdentifier ''purge_tombstones'', TEqual, TFalse, TRParen, TSemicolon]
     (Fuse \<lparr>fu_input_paths = [''a'', ''b''], fu_output_path = ''c'', fu_resolve_versioned_updates = True,
     fu_purge_tombstones = False, fu_recalculate_simplex_hulls = True, fu_version = Some 2\<rparr>)"
    by (auto simp: opt_semicolon_def dest: ebnf_statement.intros [where sc = "[TSemicolon]"])
  have "closes [TEof]" by (simp add: closes_def)
  from parse_statement_grammar [OF this, THEN conjunct1, THEN mp, OF e] show ?thesis .
qed

text \<open>Where the parser and the documented grammar part.  The semicolon of the preamble may be missing, a
  \<^verbatim>\<open>COMPOSE\<close> needs no \<^verbatim>\<open>WHERE\<close> and a vector no numbers, and two of the three conditions that a documented
  \<^verbatim>\<open>DELETE\<close> may consist of are not enough.\<close>

theorem preamble_semicolon_optional:
  "parse_statement env [TVersion, TNumber n, TCompact, TArchive, TIdentifier p] =
     Ok (Compact \<lparr>cp_archive_path = p, cp_version = Some (f64_as_u32 env n)\<rparr>, [])"
  by (simp add: parse_statement_def parse_preamble_def parse_body_def parse_compact_def clause_run parse_file_path_run skip_token_def)

lemma ebnf_preamble_semicolon: "ebnf_preamble env p v \<Longrightarrow> p \<noteq> [] \<Longrightarrow> last p = TSemicolon"
  by (erule ebnf_preamble.cases) auto

lemma ebnf_body_head: "ebnf_body env version b st \<Longrightarrow>
    \<exists>k q. b = TKeyword k # q \<and> k \<in> {KFetch, KSift, KInsert, KDelete, KCompact, KFuse}"
  by (drule ebnf_body_tokens) (rule body_tokens_head)

theorem preamble_semicolon_documented:
  "\<not> ebnf_statement env [TVersion, TNumber n, TCompact, TArchive, TIdentifier p] st"
proof
  assume "ebnf_statement env [TVersion, TNumber n, TCompact, TArchive, TIdentifier p] st"
  then obtain q v b sc where q: "[TVersion, TNumber n, TCompact, TArchive, TIdentifier p] = q @ b @ sc"
    "ebnf_preamble env q v" "ebnf_body env v b st" by cases auto
  from q(2) show False
  proof cases
    case none
    with q(1) ebnf_body_head [OF q(3)] show ?thesis by auto
  qed (use q(1) in auto)
qed

theorem compose_without_where:
  "stmt_tokens env ([TSift, domain_token d, TFrom, TIdentifier p, TCompose, TSimilarity, TTo, TLBracket, TRBracket, TWeight, TNumber w])
     (Sift \<lparr>si_domain = d, si_from_path = p,
       si_conditions = [AlgebraicCompose [] (f64_as_f32 env w) None (zero_f32 env) None (zero_f32 env)],
       si_limit = None, si_version = None\<rparr>)"
proof -
  from cond_tokens.compose [OF vector_body.close compose_tail.done_, of env w]
  have "sift_conds env [TCompose, TSimilarity, TTo, TLBracket, TRBracket, TWeight, TNumber w]
     [AlgebraicCompose [] (f64_as_f32 env w) None (zero_f32 env) None (zero_f32 env)]"
    by (intro sift_conds.bare opt_compose.some) simp_all
  from body_tokens.sift [OF _ this opt_limit.none, of "TIdentifier p" p None d]
    stmt_tokens.intros [OF preamble_tokens.none, of env _ _ "[]"]
  show ?thesis by (simp add: path_token_def opt_semicolon_def)
qed

theorem delete_needs_all_three:
  "parse_statement env [TDelete, TTelemetry, TWhere, TSensorId, TEqual, TNumber s, TAnd, TMetricId, TEqual, TNumber m,
     TFrom, TIdentifier p] = perror ''Missing TIME in DELETE clause'' [TFrom, TIdentifier p]"
proof -
  have "field_list env ([TSensorId, TEqual, TNumber s] @ TAnd # [TMetricId, TEqual, TNumber m])
      [DelSensor (ucast (f64_as_u64 env s)), DelMetric (ucast (f64_as_u64 env m))]"
    by (intro field_list.intros field_tokens.intros)
  from delete_loop_run [OF this, of "[TFrom, TIdentifier p]" "(None, None, None)"]
  have "delete_loop env (None, None, None) [TSensorId, TEqual, TNumber s, TAnd, TMetricId, TEqual, TNumber m, TFrom, TIdentifier p] =
      Ok ((Some (ucast (f64_as_u64 env s)), Some (ucast (f64_as_u64 env m)), None), [TFrom, TIdentifier p])"
    by simp
  then show ?thesis
    by (simp add: parse_statement_def parse_preamble_def parse_body_def parse_delete_def pbind_def perror_def expect_def
        padvance_def preturn_def ok_or_def)
qed

text \<open>The parser never looks at what follows a statement.  A \<^verbatim>\<open>WHERE\<close> clause written
  after \<^verbatim>\<open>LIMIT\<close> is dropped with everything behind it, and the query runs over all records of the path.\<close>

theorem late_where_dropped:
  "parse_statement env (TSift # domain_token d # TFrom # TStringLiteral path # TLimit # TNumber n # TWhere # anything) =
     Ok (Sift \<lparr>si_domain = d, si_from_path = path, si_conditions = [], si_limit = Some (f64_as_u64 env n), si_version = None\<rparr>,
       TWhere # anything)"
  by (simp add: parse_statement_def parse_preamble_def parse_body_def parse_sift_def clause_run
      parse_domain_Ok parse_file_path_run parse_sift_conditions_def parse_limit_def skip_token_def)

end
