(* ===== verification/Core_Registry.thy ===== *)
theory Core_Registry
  imports Text_Numbers
begin

text \<open>
  The registry of tile types, \<^verbatim>\<open>crates/s3a-core/src/registry.rs\<close>, and the addon bits and the
  lookup \<^verbatim>\<open>required_addon_for_tile\<close> of \<^verbatim>\<open>crates/s3a-core/src/lib.rs\<close>.  A registry is the vector
  of its descriptors; the process-global one is an argument.  The lemmas say what
  registering keeps, which writes and reads a descriptor admits, and that the built-in
  tables have no conflict.
\<close>

section \<open>Flags, life cycles and descriptors\<close>

definition TTF_NONE :: u32 where "TTF_NONE = 0"
definition TTF_FIXED_POD :: u32 where "TTF_FIXED_POD = 1"
definition TTF_COPY_THROUGH_COMPACT :: u32 where "TTF_COPY_THROUGH_COMPACT = 2"
definition TTF_MICRO_TILE :: u32 where "TTF_MICRO_TILE = 4"
definition TTF_VARIABLE_PAYLOAD :: u32 where "TTF_VARIABLE_PAYLOAD = 8"
definition TTF_RESERVED :: u32 where "TTF_RESERVED = 16"
definition TTF_DEPRECATED :: u32 where "TTF_DEPRECATED = 32"

definition flags_contains :: "u32 \<Rightarrow> u32 \<Rightarrow> bool" where
  "flags_contains flags other \<longleftrightarrow> flags AND other = other"

definition CORE_ADDON_EDU :: u32 where "CORE_ADDON_EDU = 1"
definition CORE_ADDON_ROBOTICS :: u32 where "CORE_ADDON_ROBOTICS = 4"
definition CORE_ADDON_WEARABLE :: u32 where "CORE_ADDON_WEARABLE = 8"
definition CORE_ADDON_GIS :: u32 where "CORE_ADDON_GIS = 16"
definition CORE_ADDON_DA :: u32 where "CORE_ADDON_DA = 32"
definition CORE_ADDON_ONTOLOGY :: u32 where "CORE_ADDON_ONTOLOGY = 64"

datatype tile_lifecycle = Active | Deprecated | Retired

definition lifecycle_allows_writes :: "tile_lifecycle \<Rightarrow> bool" where
  "lifecycle_allows_writes l \<longleftrightarrow> l = Active"

record tile_type_descriptor =
  td_tile_type :: u32
  td_name :: string
  td_owner_pack :: string
  td_lifecycle :: tile_lifecycle
  td_required_addon :: "u32 option"
  td_record_size :: nat
  td_current_layout_version :: u32
  td_min_supported_layout_version :: u32
  td_flags :: u32

datatype registry_error =
    DuplicateTileType u32 string string
  | UnregisteredTileType u32
  | ReservedTile u32
  | DeprecatedTile u32
  | RetiredTile u32
  | MissingAddon u32 string u32 u32
  | UnsupportedLayoutVersionTooOld u32 u32 u32
  | UnsupportedLayoutVersionTooNew u32 u32 u32
  | MigrationFailed string

definition registry_display :: "registry_error \<Rightarrow> string" where
  "registry_display e =
    (let quoted = (\<lambda>s. [CHR 0x27] @ s @ [CHR 0x27]) in
     case e of
       DuplicateTileType tile_type existing_name new_name \<Rightarrow>
         ''Duplicate registration for tile type '' @ decimal tile_type @ '': existing '' @ quoted existing_name @
         '' conflicts with new '' @ quoted new_name
     | UnregisteredTileType tt \<Rightarrow> ''Tile type '' @ decimal tt @ '' is not registered''
     | ReservedTile tt \<Rightarrow>
         ''Tile type '' @ decimal tt @ '' is marked RESERVED (no writes permitted; see docs/schema-evolution.md)''
     | DeprecatedTile tt \<Rightarrow> ''Tile type '' @ decimal tt @ '' is DEPRECATED (read-only; no writes permitted)''
     | RetiredTile tt \<Rightarrow> ''Tile type '' @ decimal tt @ '' is RETIRED (no reads or writes permitted)''
     | MissingAddon tile_type pack required_mask actual_mask \<Rightarrow>
         ''Tile type '' @ decimal tile_type @ '' belongs to '' @ pack @ '' but addon bit 0x'' @ hex4 required_mask @
         '' is not enabled on archive (addon_mask: 0x'' @ hex4 actual_mask @ '')''
     | UnsupportedLayoutVersionTooOld tile_type version min_supported \<Rightarrow>
         ''Tile type '' @ decimal tile_type @ '' layout version '' @ decimal version @
         '' is too old (minimum supported: '' @ decimal min_supported @ '')''
     | UnsupportedLayoutVersionTooNew tile_type version current_supported \<Rightarrow>
         ''Tile type '' @ decimal tile_type @ '' layout version '' @ decimal version @
         '' is too new (current supported: '' @ decimal current_supported @ '')''
     | MigrationFailed msg \<Rightarrow> ''Tile payload migration failed: '' @ msg)"

section \<open>Operations\<close>

type_synonym tile_type_registry = "tile_type_descriptor list"

definition registry_get :: "u32 \<Rightarrow> tile_type_registry \<Rightarrow> tile_type_descriptor option" where
  "registry_get tile_type reg = find (\<lambda>d. td_tile_type d = tile_type) reg"

definition registry_register :: "tile_type_descriptor \<Rightarrow> tile_type_registry \<Rightarrow> (registry_error, unit) result \<times> tile_type_registry" where
  "registry_register descriptor reg =
    (case registry_get (td_tile_type descriptor) reg of
       Some existing \<Rightarrow>
         if existing = descriptor then (Ok (), reg)
         else (Err (DuplicateTileType (td_tile_type descriptor) (td_name existing) (td_name descriptor)), reg)
     | None \<Rightarrow> (Ok (), reg @ [descriptor]))"

definition registry_required_addon :: "u32 \<Rightarrow> tile_type_registry \<Rightarrow> u32 option" where
  "registry_required_addon tile_type reg = Option.bind (registry_get tile_type reg) td_required_addon"

definition validate_write :: "tile_type_registry \<Rightarrow> u32 \<Rightarrow> u32 \<Rightarrow> u32 \<Rightarrow> (registry_error, unit) result" where
  "validate_write reg tile_type layout_version addon_mask =
    (case registry_get tile_type reg of
       None \<Rightarrow> Err (UnregisteredTileType tile_type)
     | Some desc \<Rightarrow>
         if td_lifecycle desc = Deprecated then Err (DeprecatedTile tile_type)
         else if td_lifecycle desc = Retired then Err (RetiredTile tile_type)
         else if flags_contains (td_flags desc) TTF_RESERVED then Err (ReservedTile tile_type)
         else
           let version_bounds =
             (if layout_version < td_min_supported_layout_version desc then
                Err (UnsupportedLayoutVersionTooOld tile_type layout_version (td_min_supported_layout_version desc))
              else if td_current_layout_version desc < layout_version then
                Err (UnsupportedLayoutVersionTooNew tile_type layout_version (td_current_layout_version desc))
              else Ok ())
           in case td_required_addon desc of
                Some required \<Rightarrow>
                  if addon_mask AND required = 0 then Err (MissingAddon tile_type (td_owner_pack desc) required addon_mask)
                  else version_bounds
              | None \<Rightarrow> version_bounds)"

definition validate_read :: "tile_type_registry \<Rightarrow> u32 \<Rightarrow> u32 \<Rightarrow> (registry_error, unit) result" where
  "validate_read reg tile_type layout_version =
    (case registry_get tile_type reg of
       None \<Rightarrow> Err (UnregisteredTileType tile_type)
     | Some desc \<Rightarrow>
         if td_lifecycle desc = Retired then Err (RetiredTile tile_type)
         else
           let effective_version = (if layout_version = 0 then 1 else layout_version) in
           if effective_version < td_min_supported_layout_version desc then
             Err (UnsupportedLayoutVersionTooOld tile_type effective_version (td_min_supported_layout_version desc))
           else if td_current_layout_version desc < effective_version then
             Err (UnsupportedLayoutVersionTooNew tile_type effective_version (td_current_layout_version desc))
           else Ok ())"

section \<open>The built-in tables\<close>

text \<open>The descriptors in the order in which they are registered; every one is \<^verbatim>\<open>Active\<close>.\<close>

definition tile_descriptor ::
  "u32 \<Rightarrow> string \<Rightarrow> string \<Rightarrow> u32 option \<Rightarrow> nat \<Rightarrow> u32 \<Rightarrow> u32 \<Rightarrow> u32 \<Rightarrow> tile_type_descriptor" where
  "tile_descriptor tile_type name owner addon rec_size current least flags =
    \<lparr> td_tile_type = tile_type, td_name = name, td_owner_pack = owner, td_lifecycle = Active, td_required_addon = addon,
      td_record_size = rec_size, td_current_layout_version = current, td_min_supported_layout_version = least, td_flags = flags \<rparr>"

definition core_types_a :: "tile_type_descriptor list" where
  "core_types_a =
    [tile_descriptor 0 ''telemetry'' ''core'' None 32 1 1 (TTF_FIXED_POD OR TTF_COPY_THROUGH_COMPACT),
     tile_descriptor 1 ''embedding_128'' ''core'' None 544 1 1 (TTF_FIXED_POD OR TTF_COPY_THROUGH_COMPACT),
     tile_descriptor 2 ''hybrid_index'' ''core'' None 0 1 1 (TTF_VARIABLE_PAYLOAD OR TTF_COPY_THROUGH_COMPACT),
     tile_descriptor 7 ''quantized_embedding_int8'' ''core'' None 40 1 1 (TTF_FIXED_POD OR TTF_COPY_THROUGH_COMPACT),
     tile_descriptor 8 ''quantized_embedding_4bit'' ''core'' None 24 1 1 (TTF_FIXED_POD OR TTF_COPY_THROUGH_COMPACT),
     tile_descriptor 9 ''reserved_boundary'' ''core'' None 0 1 1 TTF_RESERVED,
     tile_descriptor 19 ''marks'' ''core'' None 64 1 1 (TTF_FIXED_POD OR TTF_COPY_THROUGH_COMPACT),
     tile_descriptor 21 ''statement_body'' ''core'' None 0 1 1 (TTF_VARIABLE_PAYLOAD OR TTF_COPY_THROUGH_COMPACT),
     tile_descriptor 22 ''statement_index'' ''core'' None 64 1 1 (TTF_FIXED_POD OR TTF_COPY_THROUGH_COMPACT),
     tile_descriptor 23 ''document_store'' ''core'' None 0 1 1 (TTF_VARIABLE_PAYLOAD OR TTF_COPY_THROUGH_COMPACT),
     tile_descriptor 24 ''attachment_blob'' ''core'' None 0 1 1 (TTF_VARIABLE_PAYLOAD OR TTF_COPY_THROUGH_COMPACT)]"

definition core_types_b :: "tile_type_descriptor list" where
  "core_types_b =
    [tile_descriptor 25 ''elr_person'' ''core'' None 0 1 1 (TTF_VARIABLE_PAYLOAD OR TTF_COPY_THROUGH_COMPACT),
     tile_descriptor 26 ''elr_organization'' ''core'' None 0 1 1 (TTF_VARIABLE_PAYLOAD OR TTF_COPY_THROUGH_COMPACT),
     tile_descriptor 27 ''elr_learning_resource'' ''core'' None 0 1 1 (TTF_VARIABLE_PAYLOAD OR TTF_COPY_THROUGH_COMPACT),
     tile_descriptor 28 ''elr_learning_event'' ''core'' None 0 1 1 (TTF_VARIABLE_PAYLOAD OR TTF_COPY_THROUGH_COMPACT),
     tile_descriptor 29 ''elr_competency_assertion'' ''core'' None 0 1 1 (TTF_VARIABLE_PAYLOAD OR TTF_COPY_THROUGH_COMPACT),
     tile_descriptor 30 ''elr_credential_assertion'' ''core'' None 0 1 1 (TTF_VARIABLE_PAYLOAD OR TTF_COPY_THROUGH_COMPACT),
     tile_descriptor 31 ''elr_goal'' ''core'' None 0 1 1 (TTF_VARIABLE_PAYLOAD OR TTF_COPY_THROUGH_COMPACT),
     tile_descriptor 65 ''columnar'' ''core'' None 0 1 1 (TTF_VARIABLE_PAYLOAD OR TTF_COPY_THROUGH_COMPACT),
     tile_descriptor 66 ''array'' ''core'' None 0 1 1 (TTF_VARIABLE_PAYLOAD OR TTF_COPY_THROUGH_COMPACT),
     tile_descriptor 71 ''consent'' ''core'' None 136 1 1 (TTF_FIXED_POD OR TTF_COPY_THROUGH_COMPACT),
     tile_descriptor 73 ''erasure'' ''core'' None 144 1 1 (TTF_FIXED_POD OR TTF_COPY_THROUGH_COMPACT)]"

definition core_types_c :: "tile_type_descriptor list" where
  "core_types_c =
    [tile_descriptor 77 ''schema'' ''core'' None 0 1 1 (TTF_VARIABLE_PAYLOAD OR TTF_COPY_THROUGH_COMPACT),
     tile_descriptor 78 ''manifest'' ''core'' None 0 1 1 (TTF_VARIABLE_PAYLOAD OR TTF_COPY_THROUGH_COMPACT),
     tile_descriptor 79 ''specification'' ''core'' None 0 1 1 (TTF_VARIABLE_PAYLOAD OR TTF_COPY_THROUGH_COMPACT),
     tile_descriptor 83 ''record_root'' ''core'' None 64 1 1 TTF_FIXED_POD,
     tile_descriptor 80 ''vcs_commit'' ''vcs'' None 0 1 1 (TTF_VARIABLE_PAYLOAD OR TTF_COPY_THROUGH_COMPACT),
     tile_descriptor 81 ''vcs_ref'' ''vcs'' None 0 1 1 (TTF_VARIABLE_PAYLOAD OR TTF_COPY_THROUGH_COMPACT),
     tile_descriptor 82 ''vcs_resolution'' ''vcs'' None 0 1 1 (TTF_VARIABLE_PAYLOAD OR TTF_COPY_THROUGH_COMPACT),
     tile_descriptor 85 ''gate_directory'' ''vault'' None 0 1 1 (TTF_VARIABLE_PAYLOAD OR TTF_COPY_THROUGH_COMPACT),
     tile_descriptor 86 ''gate_mailbox'' ''vault'' None 0 1 1 (TTF_VARIABLE_PAYLOAD OR TTF_COPY_THROUGH_COMPACT)]"

definition pack_types_a :: "tile_type_descriptor list" where
  "pack_types_a =
    [tile_descriptor 3 ''wearable_micro'' ''Wearable Pack'' (Some CORE_ADDON_WEARABLE) 16 1 1 (TTF_FIXED_POD OR TTF_COPY_THROUGH_COMPACT OR TTF_MICRO_TILE),
     tile_descriptor 4 ''robotics_kinematic'' ''Robotics Pack'' (Some CORE_ADDON_ROBOTICS) 72 1 1 (TTF_FIXED_POD OR TTF_COPY_THROUGH_COMPACT),
     tile_descriptor 5 ''gis_survey_mesh'' ''GIS Pack'' (Some CORE_ADDON_GIS) 32 1 1 (TTF_FIXED_POD OR TTF_COPY_THROUGH_COMPACT),
     tile_descriptor 6 ''data_availability'' ''Data Availability Pack'' (Some CORE_ADDON_DA) 64 1 1 (TTF_FIXED_POD OR TTF_COPY_THROUGH_COMPACT),
     tile_descriptor 10 ''human_lrs'' ''Scholar Pack'' (Some CORE_ADDON_EDU) 64 1 1 (TTF_FIXED_POD OR TTF_COPY_THROUGH_COMPACT),
     tile_descriptor 11 ''ai_trace_log'' ''Scholar Pack'' (Some CORE_ADDON_EDU) 64 1 1 (TTF_FIXED_POD OR TTF_COPY_THROUGH_COMPACT),
     tile_descriptor 12 ''academic_papers'' ''Scholar Pack'' (Some CORE_ADDON_EDU) 64 1 1 (TTF_FIXED_POD OR TTF_COPY_THROUGH_COMPACT),
     tile_descriptor 13 ''research_graph'' ''Scholar Pack'' (Some CORE_ADDON_EDU) 64 1 1 (TTF_FIXED_POD OR TTF_COPY_THROUGH_COMPACT),
     tile_descriptor 14 ''srs_workspace'' ''Scholar Pack'' (Some CORE_ADDON_EDU) 64 1 1 (TTF_FIXED_POD OR TTF_COPY_THROUGH_COMPACT)]"

definition pack_types_b :: "tile_type_descriptor list" where
  "pack_types_b =
    [tile_descriptor 15 ''srs_manifest'' ''Scholar Pack'' (Some CORE_ADDON_EDU) 64 1 1 (TTF_FIXED_POD OR TTF_COPY_THROUGH_COMPACT),
     tile_descriptor 16 ''ontology_concept'' ''Ontology Pack'' (Some CORE_ADDON_ONTOLOGY) 64 1 1 (TTF_FIXED_POD OR TTF_COPY_THROUGH_COMPACT),
     tile_descriptor 17 ''ontology_axiom'' ''Ontology Pack'' (Some CORE_ADDON_ONTOLOGY) 64 1 1 (TTF_FIXED_POD OR TTF_COPY_THROUGH_COMPACT),
     tile_descriptor 18 ''agent_registry'' ''Scholar Pack'' (Some CORE_ADDON_EDU) 64 1 1 (TTF_FIXED_POD OR TTF_COPY_THROUGH_COMPACT),
     tile_descriptor 20 ''note_claims'' ''Scholar Pack'' (Some CORE_ADDON_EDU) 64 1 1 (TTF_FIXED_POD OR TTF_COPY_THROUGH_COMPACT),
     tile_descriptor 32 ''citation_fingerprint'' ''Scholar Pack'' (Some CORE_ADDON_EDU) 96 1 1 (TTF_FIXED_POD OR TTF_COPY_THROUGH_COMPACT)]"

text \<open>\<^verbatim>\<open>reg.register(d1)?; reg.register(d2)?; ...\<close> stops at the first error.\<close>

fun register_all :: "tile_type_descriptor list \<Rightarrow> tile_type_registry \<Rightarrow> (registry_error, unit) result \<times> tile_type_registry" where
  "register_all [] reg = (Ok (), reg)"
| "register_all (d # ds) reg =
    (case registry_register d reg of (Err e, reg) \<Rightarrow> (Err e, reg) | (Ok _, reg) \<Rightarrow> register_all ds reg)"

definition register_core_types :: "tile_type_registry \<Rightarrow> (registry_error, unit) result \<times> tile_type_registry" where
  "register_core_types = register_all (core_types_a @ core_types_b @ core_types_c)"

definition register_standard_pack_types :: "tile_type_registry \<Rightarrow> (registry_error, unit) result \<times> tile_type_registry" where
  "register_standard_pack_types = register_all (pack_types_a @ pack_types_b)"

text \<open>The constructors panic, here \<open>None\<close>, when a table does not register.\<close>

definition with_core_types :: "tile_type_registry option" where
  "with_core_types = (case register_core_types [] of (Ok _, reg) \<Rightarrow> Some reg | (Err _, _) \<Rightarrow> None)"

definition with_standard_types :: "tile_type_registry option" where
  "with_standard_types =
    (case register_core_types [] of
       (Err _, _) \<Rightarrow> None
     | (Ok _, reg) \<Rightarrow> (case register_standard_pack_types reg of (Err _, _) \<Rightarrow> None | (Ok _, reg) \<Rightarrow> Some reg))"

text \<open>The addon of a tile type, with the standard library and without.\<close>

definition required_addon_for_tile :: "tile_type_registry \<Rightarrow> u32 \<Rightarrow> (string \<times> u32) option" where
  "required_addon_for_tile reg tile_type =
    (case registry_get tile_type reg of
       Some desc \<Rightarrow> map_option (\<lambda>required. (td_owner_pack desc, required)) (td_required_addon desc)
     | None \<Rightarrow> None)"

definition required_addon_no_std :: "u32 \<Rightarrow> (string \<times> u32) option" where
  "required_addon_no_std tile_type =
    (if tile_type = 3 then Some (''s3a-pack-wearable'', CORE_ADDON_WEARABLE)
     else if tile_type = 4 then Some (''s3a-pack-robotics'', CORE_ADDON_ROBOTICS)
     else if tile_type = 5 then Some (''s3a-pack-gis'', CORE_ADDON_GIS)
     else if tile_type = 6 then Some (''s3a-pack-da'', CORE_ADDON_DA)
     else if 10 \<le> tile_type \<and> tile_type \<le> 15 \<or> tile_type = 18 \<or> tile_type = 20 then Some (''s3a-pack-scholar'', CORE_ADDON_EDU)
     else if 16 \<le> tile_type \<and> tile_type \<le> 17 then Some (''s3a-pack-ontology'', CORE_ADDON_ONTOLOGY)
     else None)"

text \<open>Conversion of a payload between layout versions.\<close>

function migrate_chunks :: "byte list \<Rightarrow> byte list" where
  "migrate_chunks payload =
    (if length payload < 16 then [] else take 16 payload @ [0, 0, 0, 0] @ migrate_chunks (drop 16 payload))"
  by auto
termination by (relation "measure length") auto

declare migrate_chunks.simps [simp del]

definition migrate_tile_payload :: "u32 \<Rightarrow> u32 \<Rightarrow> u32 \<Rightarrow> byte list \<Rightarrow> (registry_error, byte list) result" where
  "migrate_tile_payload tile_type from_version to_version payload =
    (if from_version = to_version then Ok payload
     else if from_version = 0 \<and> to_version = 1 then Ok payload
     else if tile_type = 99 \<and> from_version = 1 \<and> to_version = 2 then Ok (migrate_chunks payload)
     else Err (MigrationFailed (''No migrator registered for tile type '' @ decimal tile_type @ '' from v'' @
       decimal from_version @ '' to v'' @ decimal to_version)))"

section \<open>What registering keeps\<close>

definition registry_wf :: "tile_type_registry \<Rightarrow> bool" where
  "registry_wf reg \<longleftrightarrow> distinct (map td_tile_type reg)"

lemma registry_get_None: "registry_get t reg = None \<longleftrightarrow> t \<notin> td_tile_type ` set reg"
  by (auto simp: registry_get_def find_None_iff)

lemma registry_get_append:
  "registry_get t (reg @ ds) = (case registry_get t reg of Some d \<Rightarrow> Some d | None \<Rightarrow> registry_get t ds)"
  by (induction reg) (simp_all add: registry_get_def)

lemma registry_get_Some: "registry_get t reg = Some d \<Longrightarrow> d \<in> set reg \<and> td_tile_type d = t"
  by (auto simp: registry_get_def find_Some_iff)

lemma register_new: "td_tile_type d \<notin> td_tile_type ` set reg \<Longrightarrow> registry_register d reg = (Ok (), reg @ [d])"
  using registry_get_None [of "td_tile_type d" reg] by (simp add: registry_register_def)

lemma register_all_new: "distinct (map td_tile_type (reg @ ds)) \<Longrightarrow> register_all ds reg = (Ok (), reg @ ds)"
proof (induction ds arbitrary: reg)
  case (Cons d ds)
  then have "registry_register d reg = (Ok (), reg @ [d])" by (intro register_new) auto
  with Cons show ?case by simp
qed simp

lemma register_wf: "registry_wf reg \<Longrightarrow> registry_wf (snd (registry_register d reg))"
  using registry_get_None [of "td_tile_type d" reg]
  by (auto simp: registry_wf_def registry_register_def split: option.split)

lemma register_keeps: "registry_get t reg = Some d' \<Longrightarrow> registry_get t (snd (registry_register d reg)) = Some d'"
  by (auto simp: registry_register_def registry_get_append split: option.split)

definition registrations :: "tile_type_descriptor list \<Rightarrow> tile_type_registry \<Rightarrow> tile_type_registry" where
  "registrations ds reg = fold (\<lambda>d reg. snd (registry_register d reg)) ds reg"

lemma registrations_keep: "registry_get t reg = Some d' \<Longrightarrow> registry_get t (registrations ds reg) = Some d'"
  by (induction ds arbitrary: reg) (simp_all add: registrations_def register_keeps)

lemma registrations_wf: "registry_wf reg \<Longrightarrow> registry_wf (registrations ds reg)"
  by (induction ds arbitrary: reg) (simp_all add: registrations_def register_wf)

lemma validate_write_Ok:
  "validate_write reg t v addons = Ok () \<longleftrightarrow>
    (\<exists>d. registry_get t reg = Some d \<and> td_lifecycle d = Active \<and> \<not> flags_contains (td_flags d) TTF_RESERVED \<and>
       (\<forall>required. td_required_addon d = Some required \<longrightarrow> addons AND required \<noteq> 0) \<and>
       td_min_supported_layout_version d \<le> v \<and> v \<le> td_current_layout_version d)"
  by (auto simp: validate_write_def Let_def not_less split: option.split tile_lifecycle.split if_splits)
    (metis tile_lifecycle.exhaust)+

lemma validate_read_Ok:
  "validate_read reg t v = Ok () \<longleftrightarrow>
    (\<exists>d. registry_get t reg = Some d \<and> td_lifecycle d \<noteq> Retired \<and>
       \<not> (if v = 0 then 1 else v) < td_min_supported_layout_version d \<and>
       \<not> td_current_layout_version d < (if v = 0 then 1 else v))"
  by (simp add: validate_read_def Let_def split: option.split)

text \<open>a tile that the registry lets an archive write stays readable: its layout version
  passes the read check of the same registry, and of every registry that later registrations, successful
  or refused, make of it.\<close>

theorem written_stays_readable:
  assumes "validate_write reg t v addons = Ok ()" "v \<noteq> 0"
  shows "validate_read (registrations ds reg) t v = Ok ()"
proof -
  from assms(1) obtain d where d: "registry_get t reg = Some d" "td_lifecycle d = Active"
    "td_min_supported_layout_version d \<le> v" "v \<le> td_current_layout_version d"
    by (auto simp: validate_write_Ok)
  from registrations_keep [OF d(1)] d(2-) assms(2) show ?thesis by (simp add: validate_read_Ok not_less)
qed

definition sample_descriptor :: tile_type_descriptor where
  "sample_descriptor = tile_descriptor 99 ''sample'' ''pack'' (Some CORE_ADDON_EDU) 16 2 1 TTF_FIXED_POD"

theorem written_stays_readable_witness:
  "validate_write [sample_descriptor] 99 2 3 = Ok () \<and>
   validate_read (registrations [sample_descriptor\<lparr>td_current_layout_version := 1\<rparr>] [sample_descriptor]) 99 2 = Ok ()"
proof
  show w: "validate_write [sample_descriptor] 99 2 3 = Ok ()" by code_simp
  show "validate_read (registrations [sample_descriptor\<lparr>td_current_layout_version := 1\<rparr>] [sample_descriptor]) 99 2 = Ok ()"
    by (rule written_stays_readable [OF w]) simp
qed

section \<open>The built-in tables\<close>

lemmas builtin_tables = core_types_a_def core_types_b_def core_types_c_def pack_types_a_def pack_types_b_def

lemma builtin_distinct:
  "distinct (map td_tile_type ((core_types_a @ core_types_b @ core_types_c) @ pack_types_a @ pack_types_b))"
  by (simp add: builtin_tables tile_descriptor_def)

lemma with_standard_types_eq:
  "with_standard_types = Some ((core_types_a @ core_types_b @ core_types_c) @ pack_types_a @ pack_types_b)"
proof -
  have "distinct (map td_tile_type ([] @ core_types_a @ core_types_b @ core_types_c))"
    using builtin_distinct by (simp only: append_Nil map_append [of _ "core_types_a @ core_types_b @ core_types_c"] distinct_append)
  from register_all_new [OF this] register_all_new [OF builtin_distinct] show ?thesis
    by (simp add: with_standard_types_def register_core_types_def register_standard_pack_types_def)
qed

lemma u32_range: "10 \<le> t \<and> t \<le> 15 \<longleftrightarrow> t \<in> {10, 11, 12, 13, 14, 15 :: u32}" "16 \<le> t \<and> t \<le> 17 \<longleftrightarrow> t \<in> {16, 17 :: u32}"
  by (auto simp: word_le_nat_alt word_unat_eq_iff)

text \<open>The built-in descriptors register without conflict, so the constructors never
  panic; and the addon table compiled without the standard library asks for the same addon bit as the registry for
  every tile type except 32, the citation fingerprints, which it lets any archive write.\<close>

theorem no_std_addon_table:
  "\<exists>reg. with_standard_types = Some reg \<and> registry_wf reg \<and>
     (\<forall>t. map_option snd (required_addon_no_std t) = map_option snd (required_addon_for_tile reg t) \<longleftrightarrow> t \<noteq> 32)"
proof (intro exI conjI allI)
  let ?reg = "(core_types_a @ core_types_b @ core_types_c) @ pack_types_a @ pack_types_b"
  show "with_standard_types = Some ?reg" by (rule with_standard_types_eq)
  show "registry_wf ?reg" using builtin_distinct by (simp add: registry_wf_def)
  fix t
  show "map_option snd (required_addon_no_std t) = map_option snd (required_addon_for_tile ?reg t) \<longleftrightarrow> t \<noteq> 32"
    by (simp add: required_addon_no_std_def u32_range required_addon_for_tile_def registry_get_def builtin_tables tile_descriptor_def
        CORE_ADDON_EDU_def)
qed

end
