(* ===== verification/Core_Archive_Header.thy ===== *)
theory Core_Archive_Header
  imports Edge_Header Text_Numbers
begin

text \<open>
  The structures at the head of an engine archive and of its tiles,
  \<^verbatim>\<open>crates/s3a-core/src/lib.rs\<close>: errors, the file header slot, the dual header and the
  512-byte tile header.  The engine's \<^verbatim>\<open>FileHeader\<close> has the fields, the widths and the order of
  the edge crate's, with \<^verbatim>\<open>_reserved1\<close> in the place of the tile stride, so it is the same
  record.  Floating-point fields are their bit patterns.
\<close>

section \<open>Errors\<close>

datatype s3a_error =
    CoreInvalidMagic
  | CoreUnsupportedVersion u16
  | ChecksumMismatch (cm_expected: u32) (cm_actual: u32)
  | InvalidTileSize nat
  | BufferTooSmall nat nat
  | OutOfBounds
  | InvalidFormat
  | CorruptedHeader
  | CorePayloadOverflow
  | RecordNotFound
  | CoreInvalidCoordinate
  | UnsupportedLayoutVersion u32
  | FileUuidMismatch "u64 \<times> u64" "u64 \<times> u64"
  | SealedFooterCorrupt
  | SealedEndCapCorrupt
  | SealedTruncated
  | UnrepairableCorruption nat nat nat
  | SealedIndexHashMismatch
  | SealedChainBreak
  | SealedSwappedGeneration
  | UnsupportedHeaderFlags u16

definition FLAG_COMPACT_HEADER :: u16 where "FLAG_COMPACT_HEADER = push_bit 3 1"
definition FLAG_ED25519_SIGNED :: u16 where "FLAG_ED25519_SIGNED = push_bit 5 1"

definition KNOWN_HEADER_FLAGS :: u16 where
  "KNOWN_HEADER_FLAGS =
     FLAG_PROFILE_EDGE OR FLAG_TILE_SIZE_4KB OR FLAG_TILE_SIZE_8KB OR FLAG_COMPACT_HEADER OR
     FLAG_SEAL_CHAIN_ACTIVE OR FLAG_ED25519_SIGNED"

definition VALID_TILE_STRIDES :: "u32 list" where "VALID_TILE_STRIDES = [0, 4096, 8192]"

definition s3a_error_display :: "s3a_error \<Rightarrow> string" where
  "s3a_error_display e =
    (let dec = (\<lambda>n. format_radix 10 n); hex = (\<lambda>k n. ''0x'' @ pad_zeros k (format_radix 16 n));
         hex16 = (\<lambda>n :: u64. pad_zeros 16 (format_radix 16 (unat n))) in
     case e of
       CoreInvalidMagic \<Rightarrow> ''Invalid S3A file magic''
     | CoreUnsupportedVersion v \<Rightarrow> ''Unsupported file version: '' @ dec (unat v)
     | UnsupportedHeaderFlags v \<Rightarrow>
         ''Unsupported file header flags '' @ hex 4 (unat v) @ '' (known: '' @ hex 4 (unat KNOWN_HEADER_FLAGS) @ '')''
     | UnsupportedLayoutVersion v \<Rightarrow> ''Unsupported record layout version: '' @ dec (unat v)
     | ChecksumMismatch e a \<Rightarrow> ''Checksum mismatch: expected '' @ hex 8 (unat e) @ '', got '' @ hex 8 (unat a)
     | InvalidTileSize sz \<Rightarrow> ''Invalid tile size: '' @ dec sz
     | BufferTooSmall required provided \<Rightarrow> ''Buffer too small: required '' @ dec required @ '', provided '' @ dec provided
     | OutOfBounds \<Rightarrow> ''Index or offset out of bounds''
     | InvalidFormat \<Rightarrow> ''Invalid S3A file format''
     | CorruptedHeader \<Rightarrow> ''Corrupted block or file header''
     | CorePayloadOverflow \<Rightarrow> ''Hyper-Tile payload capacity exceeded''
     | RecordNotFound \<Rightarrow> ''Requested record was not found''
     | CoreInvalidCoordinate \<Rightarrow> ''Invalid coordinate address format (expected L<level>:T<tile>:R<offset>)''
     | FileUuidMismatch e a \<Rightarrow>
         ''Tile file_uuid mismatch: expected '' @ hex16 (fst e) @ hex16 (snd e) @ '', got '' @ hex16 (fst a) @ hex16 (snd a)
     | SealedFooterCorrupt \<Rightarrow> ''Sealed container footer corrupted''
     | SealedEndCapCorrupt \<Rightarrow> ''Sealed container end cap corrupted''
     | SealedTruncated \<Rightarrow> ''Sealed container truncated''
     | UnrepairableCorruption group_idx corrupted_count max_repairable \<Rightarrow>
         ''Group '' @ dec group_idx @ '' has '' @ dec corrupted_count @ '' corrupted tiles, exceeding max repairable '' @
         dec max_repairable
     | SealedIndexHashMismatch \<Rightarrow> ''Sealed footer index hash mismatch''
     | SealedChainBreak \<Rightarrow> ''Sealed hash chain break detected''
     | SealedSwappedGeneration \<Rightarrow> ''Sealed generation reordering or swapped seal detected'')"

section \<open>File headers\<close>

definition HYPER_TILE_SIZE :: nat where "HYPER_TILE_SIZE = 128 * 1024"
definition HYPER_TILE_HEADER_SIZE :: nat where "HYPER_TILE_HEADER_SIZE = 512"
definition HYPER_TILE_PAYLOAD_SIZE :: nat where "HYPER_TILE_PAYLOAD_SIZE = HYPER_TILE_SIZE - HYPER_TILE_HEADER_SIZE"

type_synonym archive_header = file_header

abbreviation (input) "fh_reserved1 \<equiv> fh_tile_stride"

definition archive_header_new :: "u32 \<Rightarrow> u64 \<Rightarrow> archive_header" where
  "archive_header_new tile_count created_timestamp =
     \<lparr> fh_magic = S3A_MAGIC, fh_version = 1, fh_flags = 0, fh_generation = 1, fh_tile_count = tile_count, fh_tile_stride = 0,
       fh_created_timestamp = created_timestamp, fh_commit_timestamp = created_timestamp, fh_header_crc32 = 0,
       fh_addon_mask = 0, fh_file_uuid = (0, 0) \<rparr>"

definition archive_header_with_commit :: "u32 \<Rightarrow> u64 \<Rightarrow> u64 \<Rightarrow> u64 \<Rightarrow> archive_header" where
  "archive_header_with_commit tile_count generation created_timestamp commit_timestamp =
     \<lparr> fh_magic = S3A_MAGIC, fh_version = 1, fh_flags = 0, fh_generation = generation, fh_tile_count = tile_count,
       fh_tile_stride = 0, fh_created_timestamp = created_timestamp, fh_commit_timestamp = commit_timestamp,
       fh_header_crc32 = 0, fh_addon_mask = 0, fh_file_uuid = (0, 0) \<rparr>"

definition with_file_uuid :: "u64 \<times> u64 \<Rightarrow> archive_header \<Rightarrow> archive_header" where
  "with_file_uuid file_uuid h = h\<lparr> fh_file_uuid := file_uuid \<rparr>"

definition header_has_addon :: "u32 \<Rightarrow> archive_header \<Rightarrow> bool" where
  "header_has_addon m h \<longleftrightarrow> fh_addon_mask h AND m \<noteq> 0"

definition header_enable_addon :: "u32 \<Rightarrow> archive_header \<Rightarrow> archive_header" where
  "header_enable_addon m h = h\<lparr> fh_addon_mask := fh_addon_mask h OR m \<rparr>"

definition header_tile_stride :: "archive_header \<Rightarrow> nat" where
  "header_tile_stride h = (if fh_reserved1 h \<noteq> 0 then unat (fh_reserved1 h) else HYPER_TILE_SIZE)"

definition is_edge_profile :: "archive_header \<Rightarrow> bool" where
  "is_edge_profile h \<longleftrightarrow>
     fh_flags h AND FLAG_PROFILE_EDGE \<noteq> 0 \<or> 0 < fh_reserved1 h \<and> unat (fh_reserved1 h) < HYPER_TILE_SIZE"

definition archive_header_verify :: "archive_header \<Rightarrow> (s3a_error, unit) result" where
  "archive_header_verify h =
    (if fh_magic h \<noteq> S3A_MAGIC then Err CoreInvalidMagic
     else if fh_version h \<noteq> 1 then Err (CoreUnsupportedVersion (fh_version h))
     else Ok ())"

definition check_layout_fields :: "archive_header \<Rightarrow> (s3a_error, unit) result" where
  "check_layout_fields h =
    (if fh_flags h AND NOT KNOWN_HEADER_FLAGS \<noteq> 0 then Err (UnsupportedHeaderFlags (fh_flags h))
     else if fh_reserved1 h \<notin> set VALID_TILE_STRIDES then Err (InvalidTileSize (unat (fh_reserved1 h)))
     else Ok ())"

text \<open>The dual header is slot A, a zeroed slot B and padding.\<close>

definition archive_dual_header_bytes :: "archive_header \<Rightarrow> byte list" where
  "archive_dual_header_bytes slot_a = file_header_bytes slot_a @ file_header_bytes file_header_zeroed @ replicate 384 0"

section \<open>Tile headers\<close>

definition INFINITY_BITS :: u32 where "INFINITY_BITS = 0x7F800000"
definition NEG_INFINITY_BITS :: u32 where "NEG_INFINITY_BITS = 0xFF800000"
definition ONE_BITS :: u32 where "ONE_BITS = 0x3F800000"

definition u32s_bytes :: "u32 list \<Rightarrow> byte list" where "u32s_bytes ws = concat (map le32 ws)"
definition u64s_bytes :: "u64 list \<Rightarrow> byte list" where "u64s_bytes ws = concat (map le64 ws)"
definition u32s_of_bytes :: "nat \<Rightarrow> byte list \<Rightarrow> u32 list" where
  "u32s_of_bytes n bs = map (\<lambda>i. of_le (window (4 * i) 4 bs)) [0..<n]"
definition u64s_of_bytes :: "nat \<Rightarrow> byte list \<Rightarrow> u64 list" where
  "u64s_of_bytes n bs = map (\<lambda>i. of_le (window (8 * i) 8 bs)) [0..<n]"

record simplex_hull =
  hu_dim :: u32
  hu_radius :: u32
  hu_min_bounds :: "u32 list"
  hu_max_bounds :: "u32 list"
  hu_centroid :: "u32 list"
  hu_reserved :: "u32 list"

definition simplex_hull_empty :: simplex_hull where
  "simplex_hull_empty =
     \<lparr> hu_dim = 0, hu_radius = 0, hu_min_bounds = replicate 16 INFINITY_BITS, hu_max_bounds = replicate 16 NEG_INFINITY_BITS,
       hu_centroid = replicate 16 0, hu_reserved = [0, 0] \<rparr>"

definition simplex_hull_bytes :: "simplex_hull \<Rightarrow> byte list" where
  "simplex_hull_bytes h =
     le32 (hu_dim h) @ le32 (hu_radius h) @ u32s_bytes (hu_min_bounds h) @ u32s_bytes (hu_max_bounds h) @
     u32s_bytes (hu_centroid h) @ u32s_bytes (hu_reserved h)"

definition simplex_hull_of_bytes :: "byte list \<Rightarrow> simplex_hull" where
  "simplex_hull_of_bytes bs =
     \<lparr> hu_dim = of_le (window 0 4 bs), hu_radius = of_le (window 4 4 bs), hu_min_bounds = u32s_of_bytes 16 (window 8 64 bs),
       hu_max_bounds = u32s_of_bytes 16 (window 72 64 bs), hu_centroid = u32s_of_bytes 16 (window 136 64 bs),
       hu_reserved = u32s_of_bytes 2 (window 200 8 bs) \<rparr>"

record tile_filter_metadata =
  ft_filter_type :: u16
  ft_hash_seed :: u16
  ft_distinct_sensors :: u32
  ft_bits :: "u64 list"

definition tile_filter_default :: tile_filter_metadata where
  "tile_filter_default = \<lparr> ft_filter_type = 1, ft_hash_seed = 0x533A, ft_distinct_sensors = 0, ft_bits = replicate 15 0 \<rparr>"

definition tile_filter_bytes :: "tile_filter_metadata \<Rightarrow> byte list" where
  "tile_filter_bytes f = le16 (ft_filter_type f) @ le16 (ft_hash_seed f) @ le32 (ft_distinct_sensors f) @ u64s_bytes (ft_bits f)"

definition tile_filter_of_bytes :: "byte list \<Rightarrow> tile_filter_metadata" where
  "tile_filter_of_bytes bs =
     \<lparr> ft_filter_type = of_le (window 0 2 bs), ft_hash_seed = of_le (window 2 2 bs), ft_distinct_sensors = of_le (window 4 4 bs),
       ft_bits = u64s_of_bytes 15 (window 8 120 bs) \<rparr>"

record tile_lifecycle_metadata =
  lc_tombstone_count :: u32
  lc_stratum_tier :: u8
  lc_compaction_epoch :: u8
  lc_reserved_tier :: u16
  lc_min_expiry_timestamp :: u64
  lc_max_expiry_timestamp :: u64

definition tile_lifecycle_default :: tile_lifecycle_metadata where
  "tile_lifecycle_default =
     \<lparr> lc_tombstone_count = 0, lc_stratum_tier = 1, lc_compaction_epoch = 0, lc_reserved_tier = 0,
       lc_min_expiry_timestamp = 0, lc_max_expiry_timestamp = -1 \<rparr>"

definition tile_lifecycle_bytes :: "tile_lifecycle_metadata \<Rightarrow> byte list" where
  "tile_lifecycle_bytes l =
     le32 (lc_tombstone_count l) @ [lc_stratum_tier l, lc_compaction_epoch l] @ le16 (lc_reserved_tier l) @
     le64 (lc_min_expiry_timestamp l) @ le64 (lc_max_expiry_timestamp l)"

definition tile_lifecycle_of_bytes :: "byte list \<Rightarrow> tile_lifecycle_metadata" where
  "tile_lifecycle_of_bytes bs =
     \<lparr> lc_tombstone_count = of_le (window 0 4 bs), lc_stratum_tier = bs ! 4, lc_compaction_epoch = bs ! 5,
       lc_reserved_tier = of_le (window 6 2 bs), lc_min_expiry_timestamp = of_le (window 8 8 bs),
       lc_max_expiry_timestamp = of_le (window 16 8 bs) \<rparr>"

record tile_security_metadata =
  sc_tenant_id :: u64
  sc_security_tag_mask :: u32
  sc_min_clearance_level :: u8
  sc_reserved :: "byte list"

definition tile_security_default :: tile_security_metadata where
  "tile_security_default =
     \<lparr> sc_tenant_id = 0, sc_security_tag_mask = 0, sc_min_clearance_level = 0, sc_reserved = [0, 0, 0] \<rparr>"

definition tile_security_bytes :: "tile_security_metadata \<Rightarrow> byte list" where
  "tile_security_bytes s =
     le64 (sc_tenant_id s) @ le32 (sc_security_tag_mask s) @ [sc_min_clearance_level s] @ sc_reserved s"

definition tile_security_of_bytes :: "byte list \<Rightarrow> tile_security_metadata" where
  "tile_security_of_bytes bs =
     \<lparr> sc_tenant_id = of_le (window 0 8 bs), sc_security_tag_mask = of_le (window 8 4 bs), sc_min_clearance_level = bs ! 12,
       sc_reserved = window 13 3 bs \<rparr>"

record tile_encoding_metadata =
  en_value_base :: u64
  en_value_scale :: u32
  en_encoding_mode :: u16
  en_reserved :: u16

definition tile_encoding_default :: tile_encoding_metadata where
  "tile_encoding_default = \<lparr> en_value_base = 0, en_value_scale = ONE_BITS, en_encoding_mode = 0, en_reserved = 0 \<rparr>"

definition tile_encoding_bytes :: "tile_encoding_metadata \<Rightarrow> byte list" where
  "tile_encoding_bytes e = le64 (en_value_base e) @ le32 (en_value_scale e) @ le16 (en_encoding_mode e) @ le16 (en_reserved e)"

definition tile_encoding_of_bytes :: "byte list \<Rightarrow> tile_encoding_metadata" where
  "tile_encoding_of_bytes bs =
     \<lparr> en_value_base = of_le (window 0 8 bs), en_value_scale = of_le (window 8 4 bs), en_encoding_mode = of_le (window 12 2 bs),
       en_reserved = of_le (window 14 2 bs) \<rparr>"

record tile_learned_index =
  li_slope :: u32
  li_intercept :: u32

definition tile_learned_default :: tile_learned_index where
  "tile_learned_default = \<lparr> li_slope = ONE_BITS, li_intercept = 0 \<rparr>"

definition tile_learned_bytes :: "tile_learned_index \<Rightarrow> byte list" where
  "tile_learned_bytes l = le32 (li_slope l) @ le32 (li_intercept l)"

definition tile_learned_of_bytes :: "byte list \<Rightarrow> tile_learned_index" where
  "tile_learned_of_bytes bs = \<lparr> li_slope = of_le (window 0 4 bs), li_intercept = of_le (window 4 4 bs) \<rparr>"

record hyper_tile_header =
  ht_tile_id :: u64
  ht_tile_type :: u32
  ht_record_count :: u32
  ht_min_timestamp :: u64
  ht_max_timestamp :: u64
  ht_data_crc32 :: u32
  ht_header_crc32 :: u32
  ht_payload_bytes :: u32
  ht_record_layout_version :: u32
  ht_hull :: simplex_hull
  ht_filter :: tile_filter_metadata
  ht_provenance :: "byte list"
  ht_lifecycle :: tile_lifecycle_metadata
  ht_security :: tile_security_metadata
  ht_encoding :: tile_encoding_metadata
  ht_learned_index :: tile_learned_index
  ht_generation :: u64
  ht_tile_index :: u32
  ht_reserved_addr :: u32
  ht_file_uuid :: "u64 \<times> u64"

text \<open>\<open>default_version\<close> is the current layout version that the registry gives the tile type, 1 when it
  has none.\<close>

definition hyper_tile_header_new :: "u32 \<Rightarrow> u64 \<Rightarrow> u32 \<Rightarrow> hyper_tile_header" where
  "hyper_tile_header_new default_version tile_id tile_type =
     \<lparr> ht_tile_id = tile_id, ht_tile_type = tile_type, ht_record_count = 0, ht_min_timestamp = -1, ht_max_timestamp = 0,
       ht_data_crc32 = 0, ht_header_crc32 = 0, ht_payload_bytes = 0, ht_record_layout_version = default_version,
       ht_hull = simplex_hull_empty, ht_filter = tile_filter_default, ht_provenance = replicate 32 0,
       ht_lifecycle = tile_lifecycle_default, ht_security = tile_security_default, ht_encoding = tile_encoding_default,
       ht_learned_index = tile_learned_default, ht_generation = 1, ht_tile_index = 0, ht_reserved_addr = 0,
       ht_file_uuid = (0, 0) \<rparr>"

definition hyper_tile_header_bytes :: "hyper_tile_header \<Rightarrow> byte list" where
  "hyper_tile_header_bytes h =
     le64 (ht_tile_id h) @ le32 (ht_tile_type h) @ le32 (ht_record_count h) @ le64 (ht_min_timestamp h) @
     le64 (ht_max_timestamp h) @ le32 (ht_data_crc32 h) @ le32 (ht_header_crc32 h) @ le32 (ht_payload_bytes h) @
     le32 (ht_record_layout_version h) @ simplex_hull_bytes (ht_hull h) @ tile_filter_bytes (ht_filter h) @
     ht_provenance h @ tile_lifecycle_bytes (ht_lifecycle h) @ tile_security_bytes (ht_security h) @
     tile_encoding_bytes (ht_encoding h) @ tile_learned_bytes (ht_learned_index h) @ le64 (ht_generation h) @
     le32 (ht_tile_index h) @ le32 (ht_reserved_addr h) @ le64 (fst (ht_file_uuid h)) @ le64 (snd (ht_file_uuid h))"

definition hyper_tile_header_of_bytes :: "byte list \<Rightarrow> hyper_tile_header" where
  "hyper_tile_header_of_bytes bs =
     \<lparr> ht_tile_id = of_le (window 0 8 bs), ht_tile_type = of_le (window 8 4 bs), ht_record_count = of_le (window 12 4 bs),
       ht_min_timestamp = of_le (window 16 8 bs), ht_max_timestamp = of_le (window 24 8 bs),
       ht_data_crc32 = of_le (window 32 4 bs), ht_header_crc32 = of_le (window 36 4 bs),
       ht_payload_bytes = of_le (window 40 4 bs), ht_record_layout_version = of_le (window 44 4 bs),
       ht_hull = simplex_hull_of_bytes (window 48 208 bs), ht_filter = tile_filter_of_bytes (window 256 128 bs),
       ht_provenance = window 384 32 bs, ht_lifecycle = tile_lifecycle_of_bytes (window 416 24 bs),
       ht_security = tile_security_of_bytes (window 440 16 bs), ht_encoding = tile_encoding_of_bytes (window 456 16 bs),
       ht_learned_index = tile_learned_of_bytes (window 472 8 bs), ht_generation = of_le (window 480 8 bs),
       ht_tile_index = of_le (window 488 4 bs), ht_reserved_addr = of_le (window 492 4 bs),
       ht_file_uuid = (of_le (window 496 8 bs), of_le (window 504 8 bs)) \<rparr>"

section \<open>The layouts are bijective\<close>

lemma length_words_bytes [simp, layout]: "length (u32s_bytes ws) = 4 * length ws" "length (u64s_bytes vs) = 8 * length vs"
  by (induction ws) (simp_all add: u32s_bytes_def, induction vs, simp_all add: u64s_bytes_def)

lemma length_words_of_bytes [simp]: "length (u32s_of_bytes n bs) = n" "length (u64s_of_bytes n bs) = n"
  by (simp_all add: u32s_of_bytes_def u64s_of_bytes_def)

lemma u32s_bytes_of_bytes: "4 * n \<le> length bs \<Longrightarrow> u32s_bytes (u32s_of_bytes n bs) = window 0 (4 * n) bs"
proof (induction n)
  case (Suc n)
  then have "u32s_bytes (u32s_of_bytes (Suc n) bs) = window 0 (4 * n) bs @ window (4 * n) 4 bs"
    by (simp add: u32s_bytes_def u32s_of_bytes_def to_le_of_le)
  then show ?case by (simp add: window_join add.commute)
qed (simp add: u32s_bytes_def u32s_of_bytes_def window_def)

lemma u64s_bytes_of_bytes: "8 * n \<le> length bs \<Longrightarrow> u64s_bytes (u64s_of_bytes n bs) = window 0 (8 * n) bs"
proof (induction n)
  case (Suc n)
  then have "u64s_bytes (u64s_of_bytes (Suc n) bs) = window 0 (8 * n) bs @ window (8 * n) 8 bs"
    by (simp add: u64s_bytes_def u64s_of_bytes_def to_le_of_le)
  then show ?case by (simp add: window_join add.commute)
qed (simp add: u64s_bytes_def u64s_of_bytes_def window_def)

lemma u32s_of_bytes_bytes: "u32s_of_bytes (length ws) (u32s_bytes ws) = ws"
proof (rule nth_equalityI)
  fix i assume i: "i < length (u32s_of_bytes (length ws) (u32s_bytes ws))"
  then have "u32s_bytes ws = u32s_bytes (take i ws) @ le32 (ws ! i) @ u32s_bytes (drop (Suc i) ws)"
    by (subst id_take_nth_drop [of i ws]) (simp_all add: u32s_bytes_def)
  with i show "u32s_of_bytes (length ws) (u32s_bytes ws) ! i = ws ! i"
    by (simp add: u32s_of_bytes_def window_append_skip window_append_here)
qed simp

lemma u64s_of_bytes_bytes: "u64s_of_bytes (length ws) (u64s_bytes ws) = ws"
proof (rule nth_equalityI)
  fix i assume i: "i < length (u64s_of_bytes (length ws) (u64s_bytes ws))"
  then have "u64s_bytes ws = u64s_bytes (take i ws) @ le64 (ws ! i) @ u64s_bytes (drop (Suc i) ws)"
    by (subst id_take_nth_drop [of i ws]) (simp_all add: u64s_bytes_def)
  with i show "u64s_of_bytes (length ws) (u64s_bytes ws) ! i = ws ! i"
    by (simp add: u64s_of_bytes_def window_append_skip window_append_here)
qed simp

text \<open>The lengths that the arrays of the Rust structures have by their types.\<close>

definition simplex_hull_shape :: "simplex_hull \<Rightarrow> bool" where
  "simplex_hull_shape h \<longleftrightarrow>
     length (hu_min_bounds h) = 16 \<and> length (hu_max_bounds h) = 16 \<and> length (hu_centroid h) = 16 \<and> length (hu_reserved h) = 2"

definition hyper_tile_header_shape :: "hyper_tile_header \<Rightarrow> bool" where
  "hyper_tile_header_shape h \<longleftrightarrow>
     simplex_hull_shape (ht_hull h) \<and> length (ft_bits (ht_filter h)) = 15 \<and> length (ht_provenance h) = 32 \<and>
     length (sc_reserved (ht_security h)) = 3"

lemma simplex_hull_layout:
  "simplex_hull_shape h \<Longrightarrow> length (simplex_hull_bytes h) = 208"
  "simplex_hull_shape h \<Longrightarrow> simplex_hull_of_bytes (simplex_hull_bytes h) = h"
  "length bs = 208 \<Longrightarrow> simplex_hull_bytes (simplex_hull_of_bytes bs) = bs"
  "simplex_hull_shape (simplex_hull_of_bytes bs)"
  subgoal by (simp add: simplex_hull_shape_def simplex_hull_bytes_def)
  subgoal
    using u32s_of_bytes_bytes [of "hu_min_bounds h"] u32s_of_bytes_bytes [of "hu_max_bounds h"]
      u32s_of_bytes_bytes [of "hu_centroid h"] u32s_of_bytes_bytes [of "hu_reserved h"]
    by (simp add: simplex_hull_shape_def simplex_hull_bytes_def simplex_hull_of_bytes_def window_append_skip window_append_here
        window_all)
  subgoal
    by (simp add: simplex_hull_bytes_def simplex_hull_of_bytes_def u32s_bytes_of_bytes window_window to_le_of_le window_join
        window_all)
  subgoal by (simp add: simplex_hull_shape_def simplex_hull_of_bytes_def)
  done

lemma tile_filter_layout:
  "length (ft_bits f) = 15 \<Longrightarrow> length (tile_filter_bytes f) = 128"
  "length (ft_bits f) = 15 \<Longrightarrow> tile_filter_of_bytes (tile_filter_bytes f) = f"
  "length bs = 128 \<Longrightarrow> tile_filter_bytes (tile_filter_of_bytes bs) = bs"
  "length (ft_bits (tile_filter_of_bytes bs)) = 15"
  subgoal by (simp add: tile_filter_bytes_def)
  subgoal using u64s_of_bytes_bytes [of "ft_bits f"]
    by (simp add: tile_filter_bytes_def tile_filter_of_bytes_def window_append_skip window_append_here window_all)
  subgoal
    by (simp add: tile_filter_bytes_def tile_filter_of_bytes_def u64s_bytes_of_bytes window_window to_le_of_le window_join window_all)
  subgoal by (simp add: tile_filter_of_bytes_def)
  done

lemma tile_lifecycle_layout:
  "length (tile_lifecycle_bytes l) = 24"
  "tile_lifecycle_of_bytes (tile_lifecycle_bytes l) = l"
  "length bs = 24 \<Longrightarrow> tile_lifecycle_bytes (tile_lifecycle_of_bytes bs) = bs"
  subgoal by (simp add: tile_lifecycle_bytes_def)
  subgoal
    by (simp add: tile_lifecycle_bytes_def tile_lifecycle_of_bytes_def window_append_skip window_append_here window_all
        window_Cons_skip nth_append)
  subgoal
    by (simp add: tile_lifecycle_bytes_def tile_lifecycle_of_bytes_def to_le_of_le window_join window_Cons_join window_all)
  done

lemma tile_security_layout:
  "length (sc_reserved s) = 3 \<Longrightarrow> length (tile_security_bytes s) = 16"
  "length (sc_reserved s) = 3 \<Longrightarrow> tile_security_of_bytes (tile_security_bytes s) = s"
  "length bs = 16 \<Longrightarrow> tile_security_bytes (tile_security_of_bytes bs) = bs"
  "length bs = 16 \<Longrightarrow> length (sc_reserved (tile_security_of_bytes bs)) = 3"
  subgoal by (simp add: tile_security_bytes_def)
  subgoal
    by (simp add: tile_security_bytes_def tile_security_of_bytes_def window_append_skip window_append_here window_all
        window_Cons_skip nth_append)
  subgoal
    by (simp add: tile_security_bytes_def tile_security_of_bytes_def to_le_of_le window_join window_Cons_join window_all)
  subgoal by (simp add: tile_security_of_bytes_def)
  done

lemma tile_encoding_layout:
  "length (tile_encoding_bytes e) = 16"
  "tile_encoding_of_bytes (tile_encoding_bytes e) = e"
  "length bs = 16 \<Longrightarrow> tile_encoding_bytes (tile_encoding_of_bytes bs) = bs"
  subgoal by (simp add: tile_encoding_bytes_def)
  subgoal by (simp add: tile_encoding_bytes_def tile_encoding_of_bytes_def window_append_skip window_append_here window_all)
  subgoal by (simp add: tile_encoding_bytes_def tile_encoding_of_bytes_def to_le_of_le window_join window_all)
  done

lemma tile_learned_layout:
  "length (tile_learned_bytes l) = 8"
  "tile_learned_of_bytes (tile_learned_bytes l) = l"
  "length bs = 8 \<Longrightarrow> tile_learned_bytes (tile_learned_of_bytes bs) = bs"
  subgoal by (simp add: tile_learned_bytes_def)
  subgoal by (simp add: tile_learned_bytes_def tile_learned_of_bytes_def window_append_skip window_append_here window_all)
  subgoal by (simp add: tile_learned_bytes_def tile_learned_of_bytes_def to_le_of_le window_join window_all)
  done

lemmas part_layouts = simplex_hull_layout tile_filter_layout tile_lifecycle_layout tile_security_layout tile_encoding_layout
  tile_learned_layout

lemma length_hyper_tile_header_bytes [simp, layout]:
  "hyper_tile_header_shape h \<Longrightarrow> length (hyper_tile_header_bytes h) = 512"
  by (simp add: hyper_tile_header_shape_def hyper_tile_header_bytes_def part_layouts)

lemma hyper_tile_header_roundtrip [simp]:
  "hyper_tile_header_shape h \<Longrightarrow> hyper_tile_header_of_bytes (hyper_tile_header_bytes h) = h"
  by (simp add: hyper_tile_header_shape_def hyper_tile_header_of_bytes_def hyper_tile_header_bytes_def part_layouts
      window_append_skip window_append_here window_all)

lemma hyper_tile_header_bytes_of_bytes [simp]:
  "length bs = 512 \<Longrightarrow> hyper_tile_header_bytes (hyper_tile_header_of_bytes bs) = bs"
  by (simp add: hyper_tile_header_of_bytes_def hyper_tile_header_bytes_def part_layouts to_le_of_le window_join window_all)

lemma hyper_tile_header_of_bytes_shape [simp]:
  "length bs = 512 \<Longrightarrow> hyper_tile_header_shape (hyper_tile_header_of_bytes bs)"
  by (simp add: hyper_tile_header_shape_def hyper_tile_header_of_bytes_def part_layouts)

lemma hyper_tile_header_new_shape [simp]: "hyper_tile_header_shape (hyper_tile_header_new v i t)"
  by (simp add: hyper_tile_header_shape_def hyper_tile_header_new_def simplex_hull_shape_def simplex_hull_empty_def
      tile_filter_default_def tile_security_default_def)

text \<open>The flag of deleted records.\<close>

definition FLAG_TOMBSTONE :: u64 where "FLAG_TOMBSTONE = push_bit 0 1"

end
