(* ===== verification/Simd_Reject.thy ===== *)
theory Simd_Reject
  imports Core_Archive_Header
begin

text \<open>
  The tests that let a query skip a whole tile, \<^verbatim>\<open>crates/s3a-simd/src/lib.rs\<close>: its time range,
  the Bloom filter of its discrete identifiers, its expiry and its tenant.  A filter is
  seen as the set of its 960 bits; inserting only adds bits, so no identifier that was
  inserted is ever rejected.
\<close>

definition can_reject_tile_time :: "hyper_tile_header \<Rightarrow> u64 \<Rightarrow> u64 \<Rightarrow> bool" where
  "can_reject_tile_time header query_min_ts query_max_ts \<longleftrightarrow>
    (if ht_record_count header = 0 then True
     else ht_max_timestamp header < query_min_ts \<or> query_max_ts < ht_min_timestamp header)"

definition bloom_hash :: "u64 \<Rightarrow> u16 \<Rightarrow> u32 \<Rightarrow> nat" where
  "bloom_hash key seed salt =
    (let h = (key * 0x517cc1b727220a95) XOR push_bit 32 (ucast seed) XOR ucast salt;
         h = h XOR drop_bit 33 h;
         h = h * 0xff51afd7ed558ccd;
         h = h XOR drop_bit 33 h
     in unat h mod 960)"

definition bloom_set :: "nat \<Rightarrow> u64 list \<Rightarrow> u64 list" where
  "bloom_set b bits = bits[b div 64 := (bits ! (b div 64)) OR push_bit (b mod 64) 1]"

definition bloom_filter_insert :: "u64 \<Rightarrow> u16 \<Rightarrow> u64 list \<Rightarrow> u64 list" where
  "bloom_filter_insert key seed bits =
    (let bit0 = bloom_hash key seed 0x1B873593; bit1 = bloom_hash key seed 0x85EBCA6B; bit2 = bloom_hash key seed 0xC2B2AE35
     in bloom_set bit2 (bloom_set bit1 (bloom_set bit0 bits)))"

definition bloom_test :: "nat \<Rightarrow> u64 list \<Rightarrow> bool" where
  "bloom_test b bits \<longleftrightarrow> (bits ! (b div 64)) AND push_bit (b mod 64) 1 \<noteq> 0"

definition bloom_filter_contains :: "u64 list \<Rightarrow> u64 \<Rightarrow> u16 \<Rightarrow> bool" where
  "bloom_filter_contains bits key seed \<longleftrightarrow>
    (if \<not> bloom_test (bloom_hash key seed 0x1B873593) bits then False
     else if \<not> bloom_test (bloom_hash key seed 0x85EBCA6B) bits then False
     else if \<not> bloom_test (bloom_hash key seed 0xC2B2AE35) bits then False
     else True)"

definition can_reject_tile_bloom :: "hyper_tile_header \<Rightarrow> u64 \<Rightarrow> bool" where
  "can_reject_tile_bloom header key \<longleftrightarrow>
    (if ft_filter_type (ht_filter header) = 0 then False
     else \<not> bloom_filter_contains (ft_bits (ht_filter header)) key (ft_hash_seed (ht_filter header)))"

definition can_reject_tile_ttl :: "hyper_tile_header \<Rightarrow> u64 \<Rightarrow> bool" where
  "can_reject_tile_ttl header current_query_time \<longleftrightarrow> lc_max_expiry_timestamp (ht_lifecycle header) < current_query_time"

definition can_reject_tile_security :: "hyper_tile_header \<Rightarrow> u64 \<Rightarrow> u8 \<Rightarrow> bool" where
  "can_reject_tile_security header tenant_id clearance_level \<longleftrightarrow>
    (if sc_tenant_id (ht_security header) \<noteq> 0 \<and> sc_tenant_id (ht_security header) \<noteq> tenant_id then True
     else if clearance_level < sc_min_clearance_level (ht_security header) then True
     else False)"

section \<open>Filters as sets of bits\<close>

lemma bloom_hash_less: "bloom_hash key seed salt < 960"
  by (simp add: bloom_hash_def Let_def)

lemma bloom_test_bit: "bloom_test b bits \<longleftrightarrow> bit (bits ! (b div 64)) (b mod 64)"
  by (auto simp: bloom_test_def and_exp_eq_0_iff_not_bit push_bit_of_1)

lemma length_bloom_set [simp]: "length (bloom_set b bits) = length bits"
  by (simp add: bloom_set_def)

lemma length_bloom_insert [simp]: "length (bloom_filter_insert k s bits) = length bits"
  by (simp add: bloom_filter_insert_def Let_def)

lemma bloom_set_test:
  assumes "length bits = 15" "b < 960" "a < 960"
  shows "bloom_test a (bloom_set b bits) \<longleftrightarrow> a = b \<or> bloom_test a bits"
proof -
  have l: "b div 64 < 15" "a div 64 < 15" using assms(2,3) by simp_all
  show ?thesis
  proof (cases "a div 64 = b div 64")
    case True
    have "a mod 64 = b mod 64 \<longleftrightarrow> a = b" using True by (metis div_mult_mod_eq)
    then show ?thesis using True l assms(1)
      by (auto simp: bloom_test_bit bloom_set_def bit_or_iff bit_push_bit_iff bit_1_iff bit_exp_iff)
  next
    case False
    then show ?thesis using l assms(1) by (auto simp: bloom_test_bit bloom_set_def)
  qed
qed

lemma bloom_insert_contains:
  "length bits = 15 \<Longrightarrow> bloom_filter_contains (bloom_filter_insert k s bits) k s"
  by (simp add: bloom_filter_contains_def bloom_filter_insert_def Let_def bloom_set_test bloom_hash_less)

lemma bloom_insert_keeps:
  "length bits = 15 \<Longrightarrow> bloom_filter_contains bits k s \<Longrightarrow> bloom_filter_contains (bloom_filter_insert k' s' bits) k s"
  by (simp add: bloom_filter_contains_def bloom_filter_insert_def Let_def bloom_set_test bloom_hash_less split: if_splits)

lemma bloom_fold_contains:
  assumes "length bits = 15" "k \<in> set ks \<or> bloom_filter_contains bits k s"
  shows "bloom_filter_contains (fold (\<lambda>k. bloom_filter_insert k s) ks bits) k s"
  using assms
proof (induction ks arbitrary: bits)
  case (Cons x ks)
  then show ?case using bloom_insert_contains [of bits x s] bloom_insert_keeps [of bits k s x s] by auto
qed simp

lemma length_bloom_fold [simp]: "length (fold (\<lambda>k. bloom_filter_insert k s) ks bits) = length bits"
  by (induction ks arbitrary: bits) simp_all

end
