(* ===== verification/Pod_Codec.thy ===== *)
theory Pod_Codec
  imports Prelude
begin

text \<open>
  Slices of plain-data structures.  \<open>pod_bytes\<close> is \<^verbatim>\<open>bytemuck::cast_slice\<close> of a slice of structures to
  its bytes, \<open>pod_slice\<close> the structures read from consecutive chunks (\<^verbatim>\<open>chunks_exact\<close> with
  \<^verbatim>\<open>pod_read_unaligned\<close>, or \<^verbatim>\<open>cast_slice\<close> the other way).  The locale \<open>pod_codec\<close> is what the byte layout of one
  structure promises; the theories of the structures interpret it.  UTF-8 is the standard library's
  \<^verbatim>\<open>str::from_utf8\<close>: text is the list of its bytes wherever the code cuts it at a byte count.
\<close>

definition pod_bytes :: "('a \<Rightarrow> byte list) \<Rightarrow> 'a list \<Rightarrow> byte list" where
  "pod_bytes enc xs = concat (map enc xs)"

definition pod_slice :: "nat \<Rightarrow> (byte list \<Rightarrow> 'a) \<Rightarrow> byte list \<Rightarrow> 'a list" where
  "pod_slice w dec bs = map (\<lambda>i. dec (window (i * w) w bs)) [0..<length bs div w]"

lemma length_pod_slice [simp]: "length (pod_slice w dec bs) = length bs div w"
  by (simp add: pod_slice_def)

lemma pod_bytes_simps [simp]:
  "pod_bytes enc [] = []" "pod_bytes enc (x # xs) = enc x @ pod_bytes enc xs"
  "pod_bytes enc (xs @ ys) = pod_bytes enc xs @ pod_bytes enc ys"
  by (simp_all add: pod_bytes_def)

locale pod_codec =
  fixes enc :: "'a \<Rightarrow> byte list" and dec :: "byte list \<Rightarrow> 'a" and width :: nat and shaped :: "'a \<Rightarrow> bool"
  assumes width_pos: "0 < width"
    and length_enc: "shaped x \<Longrightarrow> length (enc x) = width"
    and dec_enc: "shaped x \<Longrightarrow> dec (enc x) = x"
    and enc_dec: "length bs = width \<Longrightarrow> enc (dec bs) = bs"
    and shaped_dec: "length bs = width \<Longrightarrow> shaped (dec bs)"
begin

lemma length_pod_bytes: "list_all shaped xs \<Longrightarrow> length (pod_bytes enc xs) = length xs * width"
  by (induction xs) (simp_all add: length_enc)

lemma window_pod_bytes:
  "list_all shaped xs \<Longrightarrow> i < length xs \<Longrightarrow> window (i * width) width (pod_bytes enc xs @ ys) = enc (xs ! i)"
proof (induction xs arbitrary: i)
  case (Cons x xs)
  then have l: "length (enc x) = width" by (simp add: length_enc)
  show ?case
  proof (cases i)
    case 0
    with l show ?thesis by (simp add: window_append_here)
  next
    case (Suc j)
    have "Suc j * width - width = j * width" by simp
    with l Suc Cons show ?thesis by (simp add: window_append_skip)
  qed
qed simp

lemma pod_slice_append:
  "list_all shaped xs \<Longrightarrow> length ys < width \<Longrightarrow> pod_slice width dec (pod_bytes enc xs @ ys) = xs"
proof (rule nth_equalityI)
  assume a: "list_all shaped xs" "length ys < width"
  then show l: "length (pod_slice width dec (pod_bytes enc xs @ ys)) = length xs"
    by (simp add: length_pod_bytes)
  fix i assume "i < length (pod_slice width dec (pod_bytes enc xs @ ys))"
  then have i: "i < length xs" unfolding l .
  then have "shaped (xs ! i)" using a(1) by (simp add: list_all_length)
  then show "pod_slice width dec (pod_bytes enc xs @ ys) ! i = xs ! i"
    using i l a by (simp add: pod_slice_def window_pod_bytes dec_enc)
qed

lemma pod_slice_bytes: "list_all shaped xs \<Longrightarrow> pod_slice width dec (pod_bytes enc xs) = xs"
  using pod_slice_append [of xs "[]"] width_pos by simp

lemma pod_bytes_slice:
  assumes "length bs = n * width"
  shows "pod_bytes enc (pod_slice width dec bs) = bs"
proof -
  have n: "length bs div width = n" using assms width_pos by simp
  have "concat (map (\<lambda>i. enc (dec (window (i * width) width bs))) [0..<m]) = window 0 (m * width) bs" if "m \<le> n" for m
    using that
  proof (induction m)
    case (Suc m)
    have "m * width + width \<le> length bs" using Suc.prems mult_le_mono1 [of "Suc m" n width] assms by simp
    with Suc show ?case by (simp add: enc_dec window_join add.commute)
  qed (simp add: window_def)
  from this [of n] show ?thesis using assms width_pos by (simp add: pod_bytes_def pod_slice_def n comp_def window_all)
qed

lemma shaped_slice: "list_all shaped (pod_slice width dec bs)"
proof -
  have "i * width + width \<le> length bs" if "i < length bs div width" for i
    using that mult_le_mono1 [of "Suc i" "length bs div width" width] div_times_less_eq_dividend [of "length bs" width]
    by (simp add: add.commute order.trans)
  then show ?thesis by (auto simp: list_all_iff pod_slice_def intro!: shaped_dec)
qed

lemma enc_inject: "shaped x \<Longrightarrow> shaped y \<Longrightarrow> enc x = enc y \<longleftrightarrow> x = y"
  by (metis dec_enc)

lemma pod_bytes_inject:
  "list_all shaped xs \<Longrightarrow> list_all shaped ys \<Longrightarrow> pod_bytes enc xs = pod_bytes enc ys \<longleftrightarrow> xs = ys"
  by (metis pod_slice_bytes)

end

text \<open>\<^verbatim>\<open>bytemuck::try_cast_slice\<close>: the length must divide and the bytes must be aligned for the type.\<close>

definition try_cast_slice :: "nat \<Rightarrow> bool \<Rightarrow> byte list \<Rightarrow> byte list list option" where
  "try_cast_slice sz align_ok bytes =
    (if align_ok \<and> length bytes mod sz = 0
     then Some (map (\<lambda>i. window (i * sz) sz bytes) [0..<length bytes div sz]) else None)"

section \<open>Text as bytes\<close>

definition ascii :: "string \<Rightarrow> byte list" where
  "ascii s = map of_char s"

lemma length_ascii [simp]: "length (ascii s) = length s"
  by (simp add: ascii_def)

abbreviation utf8_tail :: "byte \<Rightarrow> bool" where
  "utf8_tail b \<equiv> 0x80 \<le> b \<and> b \<le> 0xBF"

text \<open>Well-formed UTF-8: no overlong form, no surrogate, nothing above U+10FFFF.\<close>

fun utf8_valid :: "byte list \<Rightarrow> bool" where
  "utf8_valid [] \<longleftrightarrow> True"
| "utf8_valid (a # bs) \<longleftrightarrow>
    (if a < 0x80 then utf8_valid bs
     else if 0xC2 \<le> a \<and> a \<le> 0xDF then (case bs of b # cs \<Rightarrow> utf8_tail b \<and> utf8_valid cs | _ \<Rightarrow> False)
     else if 0xE0 \<le> a \<and> a \<le> 0xEF then
       (case bs of
          b # c # ds \<Rightarrow> (if a = 0xE0 then 0xA0 \<le> b \<and> b \<le> 0xBF else if a = 0xED then 0x80 \<le> b \<and> b \<le> 0x9F else utf8_tail b)
            \<and> utf8_tail c \<and> utf8_valid ds
        | _ \<Rightarrow> False)
     else if 0xF0 \<le> a \<and> a \<le> 0xF4 then
       (case bs of
          b # c # d # es \<Rightarrow> (if a = 0xF0 then 0x90 \<le> b \<and> b \<le> 0xBF else if a = 0xF4 then 0x80 \<le> b \<and> b \<le> 0x8F else utf8_tail b)
            \<and> utf8_tail c \<and> utf8_tail d \<and> utf8_valid es
        | _ \<Rightarrow> False)
     else False)"

declare utf8_valid.simps(2) [simp del]

lemma utf8_ascii_step: "a < 0x80 \<Longrightarrow> utf8_valid (a # bs) \<longleftrightarrow> utf8_valid bs"
  by (simp add: utf8_valid.simps)

lemma utf8_all_ascii: "list_all (\<lambda>b. b < 0x80) bs \<Longrightarrow> utf8_valid bs"
  by (induction bs) (simp_all add: utf8_ascii_step)

lemma utf8_append: "utf8_valid as \<Longrightarrow> utf8_valid bs \<Longrightarrow> utf8_valid (as @ bs)"
proof (induction as rule: utf8_valid.induct)
  case (2 a as)
  then show ?case
    by (subst append_Cons, subst utf8_valid.simps, subst (asm) utf8_valid.simps)
      (auto split: list.splits if_splits)
qed simp

text \<open>Replacing some ASCII bytes by ASCII bytes keeps text well formed.\<close>

lemma utf8_map:
  assumes "\<And>b. 0x80 \<le> b \<Longrightarrow> f b = b" "\<And>b. b < 0x80 \<Longrightarrow> f b < 0x80"
  shows "utf8_valid as \<Longrightarrow> utf8_valid (map f as)"
proof (induction as rule: utf8_valid.induct)
  case (2 a as)
  show ?case
  proof (cases "a < 0x80")
    case True
    then show ?thesis using 2 assms(2) [OF True] by (simp add: utf8_ascii_step)
  next
    case False
    have ge: "0x80 \<le> b" if "0x90 \<le> b \<or> 0xA0 \<le> b" for b :: byte using that by (auto simp: word_le_nat_alt)
    have a: "f a = a" using False by (simp add: assms(1))
    show ?thesis using 2 False
      by (subst list.map, subst utf8_valid.simps, subst (asm) utf8_valid.simps)
        (auto simp: a assms(1) ge split: list.splits if_splits)
  qed
qed simp

end
