(* ===== verification/Engine_Archive.thy ===== *)
theory Engine_Archive
  imports Files Pod_Codec Core_Archive_Header Core_Registry Simd_Reject
begin

text \<open>
  The archive of the engine, \<^verbatim>\<open>crates/s3a-engine/src/lib.rs\<close>: the choice between the two header
  slots, \<^verbatim>\<open>TileWriter\<close> and \<^verbatim>\<open>recover_archive\<close>, and the gate of \<^verbatim>\<open>compactor_gates.rs\<close> that reads a
  written tile back.  CRC-32C comes from the \<^verbatim>\<open>crc32c\<close> crate and is a parameter; the clock, the
  registry and the division of two \<^verbatim>\<open>f32\<close> are arguments.  Calls on an open file succeed; files
  record the order of writes and barriers, so that a power cut can be stated.
\<close>

section \<open>Header slots\<close>

record crc_crate =
  cc_crc32c :: "byte list \<Rightarrow> u32"
  cc_append :: "u32 \<Rightarrow> byte list \<Rightarrow> u32"

definition compute_header_crc32 :: "crc_crate \<Rightarrow> archive_header \<Rightarrow> u32" where
  "compute_header_crc32 cc header =
    (let bytes = file_header_bytes header;
         crc = cc_crc32c cc (window 0 40 bytes)
     in cc_append cc crc (window 44 20 bytes))"

definition compute_tile_header_crc32 :: "crc_crate \<Rightarrow> hyper_tile_header \<Rightarrow> u32" where
  "compute_tile_header_crc32 cc header =
    (let bytes = hyper_tile_header_bytes header;
         crc = cc_crc32c cc (window 0 36 bytes)
     in cc_append cc crc (window 40 472 bytes))"

definition verify_header_slot :: "crc_crate \<Rightarrow> archive_header \<Rightarrow> bool" where
  "verify_header_slot cc header \<longleftrightarrow>
    (if isl (archive_header_verify header) then False
     else fh_header_crc32 header \<noteq> 0 \<and> fh_header_crc32 header = compute_header_crc32 cc header)"

definition is_legacy_tile :: "hyper_tile_header \<Rightarrow> bool" where
  "is_legacy_tile header \<longleftrightarrow> ht_record_layout_version header = 0"

definition check_tile_header_crc :: "crc_crate \<Rightarrow> hyper_tile_header \<Rightarrow> (s3a_error, unit) result" where
  "check_tile_header_crc cc header =
    (if ht_header_crc32 header = 0 \<and> is_legacy_tile header then Ok ()
     else
       let expected = compute_tile_header_crc32 cc header in
       if ht_header_crc32 header \<noteq> expected then Err (ChecksumMismatch (ht_header_crc32 header) expected) else Ok ())"

definition resolve_active_header ::
  "crc_crate \<Rightarrow> archive_header \<Rightarrow> archive_header \<Rightarrow> (s3a_error, archive_header \<times> nat) result" where
  "resolve_active_header cc slot_a slot_b =
    (let picked =
       (case (verify_header_slot cc slot_a, verify_header_slot cc slot_b) of
          (True, True) \<Rightarrow> if fh_generation slot_a < fh_generation slot_b then Ok (slot_b, 1) else Ok (slot_a, 0)
        | (True, False) \<Rightarrow> Ok (slot_a, 0)
        | (False, True) \<Rightarrow> Ok (slot_b, 1)
        | (False, False) \<Rightarrow>
            if \<not> isl (archive_header_verify slot_a) \<and> fh_header_crc32 slot_a = 0 \<and>
               list_all (\<lambda>b. b = 0) (file_header_bytes slot_b)
            then Ok (slot_a, 0) else Err CorruptedHeader)
     in case picked of
          Err e \<Rightarrow> Err e
        | Ok p \<Rightarrow> (case check_layout_fields (fst p) of Err e \<Rightarrow> Err e | Ok _ \<Rightarrow> Ok p))"

section \<open>The writer\<close>

datatype archive_io_error =
    IoInvalidData string | IoInvalidInput string | IoPermissionDenied string | IoNotFound string | IoUnexpectedEof

record tile_writer =
  tw_file :: disk_file
  tw_tile_count :: u32
  tw_current_tile_id :: u64
  tw_generation :: u64
  tw_active_slot :: nat
  tw_created_timestamp :: u64
  tw_addon_mask :: u32
  tw_file_uuid :: "u64 \<times> u64"

definition create_with_uuid :: "crc_crate \<Rightarrow> u64 \<Rightarrow> u64 \<times> u64 \<Rightarrow> tile_writer" where
  "create_with_uuid cc now file_uuid =
    (let file = \<lparr> df_bytes = [], df_pos = 0, df_log = [] \<rparr>;
         slot_a = (with_file_uuid file_uuid (archive_header_new 0 now))\<lparr> fh_generation := 1 \<rparr>;
         slot_a = slot_a\<lparr> fh_header_crc32 := compute_header_crc32 cc slot_a \<rparr>;
         file = sync_file (write_all (archive_dual_header_bytes slot_a) file)
     in \<lparr> tw_file = file, tw_tile_count = 0, tw_current_tile_id = 1, tw_generation = 1, tw_active_slot = 0,
          tw_created_timestamp = now, tw_addon_mask = 0, tw_file_uuid = file_uuid \<rparr>)"

definition slot_a_of :: "byte list \<Rightarrow> archive_header" where
  "slot_a_of bs = file_header_of_bytes (window 0 64 bs)"

definition slot_b_of :: "byte list \<Rightarrow> archive_header" where
  "slot_b_of bs = file_header_of_bytes (window 64 64 bs)"

definition expected_size :: "u32 \<Rightarrow> nat" where
  "expected_size tile_count = 512 + unat tile_count * HYPER_TILE_SIZE"

text \<open>\<open>open_append\<close> and \<open>recover_archive\<close> share the first half: read both slots, choose, cut off what lies
  behind the committed tiles.\<close>

definition open_committed ::
  "crc_crate \<Rightarrow> byte list \<Rightarrow> (archive_io_error, archive_header \<times> nat \<times> disk_file) result" where
  "open_committed cc bytes =
    (let file = \<lparr> df_bytes = bytes, df_pos = 0, df_log = [] \<rparr> in
     if length bytes < 512 then Err (IoInvalidData ''File too small for S3A dual header'')
     else case resolve_active_header cc (slot_a_of bytes) (slot_b_of bytes) of
       Err e \<Rightarrow> Err (IoInvalidData (s3a_error_display e))
     | Ok (active_header, active_slot) \<Rightarrow>
         let size = expected_size (fh_tile_count active_header);
             file = seek_start 512 file;
             file = (if size < length bytes then sync_file (set_len size file) else file)
         in Ok (active_header, active_slot, file))"

definition open_append :: "crc_crate \<Rightarrow> byte list \<Rightarrow> (archive_io_error, tile_writer) result" where
  "open_append cc bytes =
    (case open_committed cc bytes of
       Err e \<Rightarrow> Err e
     | Ok (active_header, active_slot, file) \<Rightarrow>
         Ok \<lparr> tw_file = seek_end file, tw_tile_count = fh_tile_count active_header,
              tw_current_tile_id = ucast (fh_tile_count active_header) + 1, tw_generation = fh_generation active_header,
              tw_active_slot = active_slot, tw_created_timestamp = fh_created_timestamp active_header,
              tw_addon_mask = fh_addon_mask active_header, tw_file_uuid = fh_file_uuid active_header \<rparr>)"

text \<open>\<open>None\<close> is a missing file.\<close>

definition recover_archive ::
  "crc_crate \<Rightarrow> string \<Rightarrow> byte list option \<Rightarrow> (archive_io_error, archive_header \<times> byte list) result" where
  "recover_archive cc path content =
    (case content of
       None \<Rightarrow> Err (IoNotFound (''Archive file not found: '' @ path))
     | Some bytes \<Rightarrow>
         (case open_committed cc bytes of
            Err e \<Rightarrow> Err e
          | Ok (active_header, _, file) \<Rightarrow> Ok (active_header, df_bytes file)))"

definition commit_header_slot :: "crc_crate \<Rightarrow> u64 \<Rightarrow> u32 \<Rightarrow> u32 \<Rightarrow> tile_writer \<Rightarrow> tile_writer" where
  "commit_header_slot cc now next_tile_count addon_mask w =
    (let next_generation = tw_generation w + 1;
         target_slot = 1 - tw_active_slot w;
         new_slot = (archive_header_with_commit next_tile_count next_generation (tw_created_timestamp w) now)
           \<lparr> fh_addon_mask := addon_mask, fh_file_uuid := tw_file_uuid w \<rparr>;
         new_slot = new_slot\<lparr> fh_header_crc32 := compute_header_crc32 cc new_slot \<rparr>;
         slot_offset = (if target_slot = 0 then 0 else 64);
         file = sync_file (write_all (file_header_bytes new_slot) (seek_start slot_offset (tw_file w)))
     in w\<lparr> tw_file := seek_end file, tw_active_slot := target_slot, tw_generation := next_generation,
          tw_tile_count := next_tile_count, tw_addon_mask := addon_mask \<rparr>)"

definition enable_addon :: "crc_crate \<Rightarrow> u64 \<Rightarrow> u32 \<Rightarrow> tile_writer \<Rightarrow> tile_writer" where
  "enable_addon cc now m w = commit_header_slot cc now (tw_tile_count w) (tw_addon_mask w OR m) w"

text \<open>The capability gate before a write.\<close>

definition write_gate :: "tile_type_registry \<Rightarrow> u32 \<Rightarrow> u32 \<Rightarrow> u32 \<Rightarrow> (archive_io_error, unit) result" where
  "write_gate registry tile_type version addon_mask =
    (if registry_get tile_type registry \<noteq> None then
       (case validate_write registry tile_type version addon_mask of
          Err e \<Rightarrow> Err (IoPermissionDenied (registry_display e))
        | Ok _ \<Rightarrow> Ok ())
     else case required_addon_for_tile registry tile_type of
       Some (pack_name, required) \<Rightarrow>
         if addon_mask AND required = 0 then
           Err (IoPermissionDenied (''Tile type '' @ decimal tile_type @ '' belongs to '' @ pack_name @ '' but addon bit 0x'' @
             hex4 required @ '' is not enabled on archive (addon_mask: 0x'' @ hex4 addon_mask @ '')''))
         else Ok ()
     | None \<Rightarrow> Ok ())"

definition hex8_upper :: "u32 \<Rightarrow> string" where
  "hex8_upper n = map (\<lambda>c. if CHR ''a'' \<le> c \<and> c \<le> CHR ''f'' then char_of (of_char c - 32 :: nat) else c)
     (pad_zeros 8 (format_radix 16 (unat n)))"

definition verify_written_tile_from_disk ::
  "crc_crate \<Rightarrow> nat \<Rightarrow> u32 \<Rightarrow> u32 \<Rightarrow> nat \<Rightarrow> disk_file \<Rightarrow> (archive_io_error, unit) result \<times> disk_file" where
  "verify_written_tile_from_disk cc tile_offset expected_header_crc expected_data_crc payload_bytes file =
    (case read_exact HYPER_TILE_HEADER_SIZE (seek_start tile_offset file) of
       (None, file) \<Rightarrow> (Err IoUnexpectedEof, file)
     | (Some header_buf, file) \<Rightarrow>
         let disk_header = hyper_tile_header_of_bytes header_buf;
             disk_header_crc = compute_tile_header_crc32 cc disk_header in
         if ht_header_crc32 disk_header \<noteq> expected_header_crc \<or> ht_header_crc32 disk_header \<noteq> disk_header_crc then
           (Err (IoInvalidData (''After-gate output tile header CRC mismatch on disk: expected 0x'' @
              hex8_upper expected_header_crc @ '', read 0x'' @ hex8_upper (ht_header_crc32 disk_header))), seek_end file)
         else case read_exact payload_bytes file of
           (None, file) \<Rightarrow> (Err IoUnexpectedEof, file)
         | (Some payload_buf, file) \<Rightarrow>
             if cc_crc32c cc payload_buf \<noteq> expected_data_crc then
               (Err (IoInvalidData (''After-gate output tile data CRC mismatch on disk: expected 0x'' @
                  hex8_upper expected_data_crc @ '', read 0x'' @ hex8_upper (cc_crc32c cc payload_buf))), seek_end file)
             else (Ok (), seek_end file))"


section \<open>Writing a tile\<close>

text \<open>The tail of both write functions: the tile, the barrier, the after gate, the commit.\<close>

definition finish_tile ::
  "crc_crate \<Rightarrow> u64 \<Rightarrow> hyper_tile_header \<Rightarrow> byte list \<Rightarrow> tile_writer \<Rightarrow> (archive_io_error, u64) result \<times> tile_writer" where
  "finish_tile cc now header payload w =
    (let file = write_all payload (write_all (hyper_tile_header_bytes header) (tw_file w));
         padding_needed = HYPER_TILE_SIZE - (HYPER_TILE_HEADER_SIZE + length payload);
         file = (if 0 < padding_needed then write_all (replicate padding_needed 0) file else file);
         file = sync_file file;
         tile_offset = 512 + unat (tw_tile_count w) * HYPER_TILE_SIZE
     in case verify_written_tile_from_disk cc tile_offset (ht_header_crc32 header) (ht_data_crc32 header) (length payload) file of
          (Err e, file) \<Rightarrow> (Err e, w\<lparr> tw_file := file \<rparr>)
        | (Ok _, file) \<Rightarrow>
            let w' = commit_header_slot cc now (tw_tile_count w + 1) (tw_addon_mask w) (w\<lparr> tw_file := file \<rparr>)
            in (Ok (tw_current_tile_id w), w'\<lparr> tw_current_tile_id := tw_current_tile_id w + 1 \<rparr>))"

definition raw_tile_header :: "crc_crate \<Rightarrow> hyper_tile_header \<Rightarrow> byte list \<Rightarrow> tile_writer \<Rightarrow> hyper_tile_header" where
  "raw_tile_header cc header payload w =
    (let new_header = header\<lparr> ht_tile_id := tw_current_tile_id w \<rparr>;
         new_header = (if ht_data_crc32 new_header = 0 then new_header\<lparr> ht_data_crc32 := cc_crc32c cc payload \<rparr> else new_header);
         new_header = (if ht_payload_bytes new_header = 0 then new_header\<lparr> ht_payload_bytes := of_nat (length payload) \<rparr> else new_header);
         new_header = (if ht_file_uuid new_header = (0, 0) then new_header\<lparr> ht_file_uuid := tw_file_uuid w \<rparr> else new_header);
         new_header = (if ht_generation new_header = 0 then new_header\<lparr> ht_generation := tw_generation w \<rparr> else new_header);
         new_header = new_header\<lparr> ht_tile_index := tw_tile_count w \<rparr>
     in new_header\<lparr> ht_header_crc32 := compute_tile_header_crc32 cc new_header \<rparr>)"

definition write_raw_hyper_tile ::
  "crc_crate \<Rightarrow> tile_type_registry \<Rightarrow> u64 \<Rightarrow> hyper_tile_header \<Rightarrow> byte list \<Rightarrow> tile_writer \<Rightarrow>
   (archive_io_error, u64) result \<times> tile_writer" where
  "write_raw_hyper_tile cc registry now header payload w =
    (let effective_version = (if ht_record_layout_version header = 0 then 1 else ht_record_layout_version header) in
     case write_gate registry (ht_tile_type header) effective_version (tw_addon_mask w) of
       Err e \<Rightarrow> (Err e, w)
     | Ok _ \<Rightarrow>
         let new_header = raw_tile_header cc header payload w in
         if HYPER_TILE_SIZE < HYPER_TILE_HEADER_SIZE + length payload then
           (Err (IoInvalidInput (''Payload size '' @ format_radix 10 (length payload) @ '' exceeds hyper tile capacity '' @
              format_radix 10 (HYPER_TILE_SIZE - HYPER_TILE_HEADER_SIZE))), w)
         else finish_tile cc now new_header payload w)"

text \<open>The identifiers that enter the Bloom filter and the number of tombstones.  A slice of Pod records is
  its count and its bytes; \<open>align_ok\<close> says that the bytes are aligned for the record type they are cast to.\<close>

definition telemetry_keys :: "byte list \<Rightarrow> u64 list" where
  "telemetry_keys r = [ucast (of_le (window 8 4 r) :: u32), ucast (of_le (window 12 4 r) :: u32)]"

definition telemetry_is_tombstone :: "byte list \<Rightarrow> bool" where
  "telemetry_is_tombstone r \<longleftrightarrow> of_le (window 24 8 r) AND FLAG_TOMBSTONE \<noteq> 0"

definition learning_keys :: "byte list \<Rightarrow> u64 list" where
  "learning_keys r = [of_le (window 0 8 r), ucast (of_le (window 16 4 r) :: u32)]"

definition learning_is_tombstone :: "byte list \<Rightarrow> bool" where
  "learning_is_tombstone r \<longleftrightarrow> of_le (window 40 8 r) AND FLAG_TOMBSTONE \<noteq> 0"

definition tile_keys :: "u32 \<Rightarrow> u64 list option \<Rightarrow> bool \<Rightarrow> byte list \<Rightarrow> u64 list \<times> nat" where
  "tile_keys tile_type filter_keys align_ok record_bytes =
    (case filter_keys of
       Some keys \<Rightarrow> (keys, 0)
     | None \<Rightarrow>
         if tile_type = 0 then
           (case try_cast_slice 32 align_ok record_bytes of
              Some rs \<Rightarrow> (concat (map telemetry_keys rs), length (filter telemetry_is_tombstone rs))
            | None \<Rightarrow> ([], 0))
         else if tile_type = 9 \<or> tile_type = 10 then
           (case try_cast_slice 64 align_ok record_bytes of
              Some rs \<Rightarrow> (concat (map learning_keys rs), length (filter learning_is_tombstone rs))
            | None \<Rightarrow> ([], 0))
         else ([], 0))"

definition target_version_of :: "tile_type_registry \<Rightarrow> u32 \<Rightarrow> u32" where
  "target_version_of registry tile_type =
    (case registry_get tile_type registry of Some d \<Rightarrow> td_current_layout_version d | None \<Rightarrow> 1)"

text \<open>The stages in which the header of a typed tile is filled: its time range, its hull, the digest of the
  payload, the learned index and the filter.  \<open>f32_ratio dr dt\<close> is the bit pattern of
  \<open>dr as f32 / dt as f32\<close>.\<close>

definition stamp_range :: "u64 list option \<Rightarrow> hyper_tile_header \<Rightarrow> hyper_tile_header" where
  "stamp_range timestamps header =
    (case timestamps of
       Some ts \<Rightarrow> if ts \<noteq> [] then header\<lparr> ht_min_timestamp := fold min ts (-1), ht_max_timestamp := fold max ts 0 \<rparr> else header
     | None \<Rightarrow> header)"

definition stamp_hull :: "simplex_hull option \<Rightarrow> hyper_tile_header \<Rightarrow> hyper_tile_header" where
  "stamp_hull hull header = (case hull of Some h \<Rightarrow> header\<lparr> ht_hull := h \<rparr> | None \<Rightarrow> header)"

definition stamp_digest :: "crc_crate \<Rightarrow> byte list \<Rightarrow> hyper_tile_header \<Rightarrow> hyper_tile_header" where
  "stamp_digest cc record_bytes header =
    (let data_crc32 = cc_crc32c cc record_bytes
     in header\<lparr> ht_data_crc32 := data_crc32,
          ht_provenance := le32 data_crc32 @ le32 (of_nat (length record_bytes)) @ replicate 24 0 \<rparr>)"

definition stamp_learned_index :: "(u64 \<Rightarrow> u64 \<Rightarrow> u32) \<Rightarrow> nat \<Rightarrow> u64 list option \<Rightarrow> hyper_tile_header \<Rightarrow> hyper_tile_header" where
  "stamp_learned_index f32_ratio record_count timestamps header =
    (case timestamps of
       Some ts \<Rightarrow>
         if 1 < length ts \<and> ht_min_timestamp header < ht_max_timestamp header
         then header\<lparr> ht_learned_index :=
           \<lparr> li_slope = f32_ratio (of_nat record_count - 1) (ht_max_timestamp header - ht_min_timestamp header), li_intercept = 0 \<rparr> \<rparr>
         else header
     | None \<Rightarrow> header)"

definition stamp_filter :: "u64 list \<times> nat \<Rightarrow> hyper_tile_header \<Rightarrow> hyper_tile_header" where
  "stamp_filter entries header =
    (let (keys, tombstones) = entries; flt = ht_filter header; lc = ht_lifecycle header
     in header\<lparr> ht_filter := flt\<lparr> ft_bits := fold (\<lambda>k. bloom_filter_insert k (ft_hash_seed flt)) keys (ft_bits flt) \<rparr>,
          ht_lifecycle := lc\<lparr> lc_tombstone_count := lc_tombstone_count lc + of_nat tombstones \<rparr> \<rparr>)"

definition ext_tile_header ::
  "crc_crate \<Rightarrow> (u64 \<Rightarrow> u64 \<Rightarrow> u32) \<Rightarrow> u32 \<Rightarrow> u32 \<Rightarrow> nat \<Rightarrow> bool \<Rightarrow> byte list \<Rightarrow> u64 list option \<Rightarrow> simplex_hull option \<Rightarrow>
   u64 list option \<Rightarrow> tile_writer \<Rightarrow> hyper_tile_header" where
  "ext_tile_header cc f32_ratio tile_type target_version record_count align_ok record_bytes timestamps hull filter_keys w =
    (let header = (hyper_tile_header_new target_version (tw_current_tile_id w) tile_type)
           \<lparr> ht_record_count := of_nat record_count, ht_payload_bytes := of_nat (length record_bytes),
             ht_generation := tw_generation w, ht_tile_index := tw_tile_count w, ht_file_uuid := tw_file_uuid w,
             ht_record_layout_version := target_version \<rparr>;
         header = stamp_range timestamps header;
         header = stamp_hull hull header;
         header = stamp_digest cc record_bytes header;
         header = stamp_learned_index f32_ratio record_count timestamps header;
         header = stamp_filter (tile_keys tile_type filter_keys align_ok record_bytes) header
     in header\<lparr> ht_header_crc32 := compute_tile_header_crc32 cc header \<rparr>)"

definition write_hyper_tile_ext ::
  "crc_crate \<Rightarrow> tile_type_registry \<Rightarrow> (u64 \<Rightarrow> u64 \<Rightarrow> u32) \<Rightarrow> u64 \<Rightarrow> u32 \<Rightarrow> nat \<Rightarrow> bool \<Rightarrow> byte list \<Rightarrow> u64 list option \<Rightarrow>
   simplex_hull option \<Rightarrow> u64 list option \<Rightarrow> tile_writer \<Rightarrow> (archive_io_error, u64) result \<times> tile_writer" where
  "write_hyper_tile_ext cc registry f32_ratio now tile_type record_count align_ok record_bytes timestamps hull filter_keys w =
    (let target_version = target_version_of registry tile_type in
     case write_gate registry tile_type target_version (tw_addon_mask w) of
       Err e \<Rightarrow> (Err e, w)
     | Ok _ \<Rightarrow>
         if HYPER_TILE_PAYLOAD_SIZE < length record_bytes then
           (Err (IoInvalidInput ''Records size exceeds Hyper-Tile payload capacity''), w)
         else
           let header = ext_tile_header cc f32_ratio tile_type target_version record_count align_ok record_bytes timestamps hull
                 filter_keys w
           in finish_tile cc now header record_bytes w)"

end
