(* ===== verification/Engine_Reader.thy ===== *)
theory Engine_Reader
  imports Engine_Archive
begin

text \<open>
  \<^verbatim>\<open>MmapReader\<close> of \<^verbatim>\<open>crates/s3a-engine/src/lib.rs\<close>: opening the bytes of an archive, the
  bounds-checked and checksum-checked access to its tiles of either profile, the record lookup
  by coordinate and the verification of the whole file.  The mapped file and the owned copy behave
  alike and are both a list of bytes.  SHA-256 of the \<^verbatim>\<open>sha2\<close> crate is a parameter.
\<close>

section \<open>Opening\<close>

datatype corrupt_reason =
    CrIndexOutOfRange
  | CrStrideTooSmall nat
  | CrOffsetOverflow
  | CrSlotPastEof nat nat
  | CrPayloadTooLong nat nat
  | CrHeaderCrcMismatch u32 u32
  | CrDataCrcMismatch u32 u32
  | CrMisaligned nat

record corrupt =
  cr_tile :: nat
  cr_reason :: corrupt_reason

definition corrupt_new :: "nat \<Rightarrow> corrupt_reason \<Rightarrow> corrupt" where
  "corrupt_new tile reason = \<lparr> cr_tile = tile, cr_reason = reason \<rparr>"

record mmap_reader =
  mr_mmap :: "byte list"
  mr_active_header :: archive_header
  mr_active_slot :: nat

definition reader_open :: "crc_crate \<Rightarrow> byte list \<Rightarrow> (archive_io_error, mmap_reader) result" where
  "reader_open cc mmap =
    (if length mmap < FILE_HEADER_SIZE then Err (IoInvalidData ''File too small for S3A header'')
     else case resolve_active_header cc (slot_a_of mmap) (slot_b_of mmap) of
       Err e \<Rightarrow> Err (IoInvalidData (s3a_error_display e))
     | Ok (active_header, active_slot) \<Rightarrow>
         let (base, stride, min_hdr) =
               (if is_edge_profile active_header then
                  let stride = header_tile_stride active_header;
                      base = (if fh_flags active_header AND FLAG_COMPACT_HEADER \<noteq> 0 then max 256 stride else FILE_HEADER_SIZE)
                  in (base, stride, COMMON_TILE_HEADER_SIZE)
                else (FILE_HEADER_SIZE, HYPER_TILE_SIZE, HYPER_TILE_HEADER_SIZE))
         in if stride < min_hdr then
              Err (IoInvalidData (''tile stride '' @ format_radix 10 stride @ '' smaller than tile header '' @
                format_radix 10 min_hdr))
            else case Option.bind (checked_mul (unat (fh_tile_count active_header)) stride) (\<lambda>n. checked_add n base) of
              None \<Rightarrow> Err (IoInvalidData ''tile_count * stride overflows'')
            | Some _ \<Rightarrow> Ok \<lparr> mr_mmap = mmap, mr_active_header = active_header, mr_active_slot = active_slot \<rparr>)"

definition reader_tile_count :: "mmap_reader \<Rightarrow> nat" where
  "reader_tile_count r = unat (fh_tile_count (mr_active_header r))"

definition reader_tile_stride :: "mmap_reader \<Rightarrow> nat" where
  "reader_tile_stride r = header_tile_stride (mr_active_header r)"

definition is_edge_archive :: "mmap_reader \<Rightarrow> bool" where
  "is_edge_archive r \<longleftrightarrow> is_edge_profile (mr_active_header r)"

definition header_extent :: "mmap_reader \<Rightarrow> nat" where
  "header_extent r =
    (if fh_flags (mr_active_header r) AND FLAG_COMPACT_HEADER \<noteq> 0 then max 256 (reader_tile_stride r) else FILE_HEADER_SIZE)"

definition validate_file_size :: "mmap_reader \<Rightarrow> (corrupt, unit) result" where
  "validate_file_size r =
    (let count = reader_tile_count r in
     if count = 0 then Ok ()
     else
       let (base, stride) = (if is_edge_archive r then (header_extent r, reader_tile_stride r) else (FILE_HEADER_SIZE, HYPER_TILE_SIZE))
       in case Option.bind (checked_mul count stride) (\<lambda>n. checked_add n base) of
            None \<Rightarrow> Err (corrupt_new (count - 1) CrOffsetOverflow)
          | Some need \<Rightarrow>
              if length (mr_mmap r) < need then
                let first_missing = (length (mr_mmap r) - base) div max stride 1
                in Err (corrupt_new first_missing (CrSlotPastEof need (length (mr_mmap r))))
              else Ok ())"

section \<open>Tiles\<close>

definition tile_slot :: "mmap_reader \<Rightarrow> nat \<Rightarrow> nat \<Rightarrow> nat \<Rightarrow> nat \<Rightarrow> (corrupt, nat \<times> nat) result" where
  "tile_slot r index base stride min_header =
    (if reader_tile_count r \<le> index then Err (corrupt_new index CrIndexOutOfRange)
     else if stride < min_header then Err (corrupt_new index (CrStrideTooSmall stride))
     else case Option.bind (checked_mul index stride) (\<lambda>n. checked_add n base) of
       None \<Rightarrow> Err (corrupt_new index CrOffsetOverflow)
     | Some start \<Rightarrow>
         (case checked_add start stride of
            None \<Rightarrow> Err (corrupt_new index CrOffsetOverflow)
          | Some end' \<Rightarrow>
              if length (mr_mmap r) < end' then Err (corrupt_new index (CrSlotPastEof end' (length (mr_mmap r))))
              else Ok (start, end')))"

text \<open>A header is borrowed from the mapping, so it must lie at a multiple of 8.  The rest of the slot is
  the capacity for the payload.\<close>

definition payload_slice :: "mmap_reader \<Rightarrow> nat \<Rightarrow> nat \<Rightarrow> nat \<Rightarrow> nat \<Rightarrow> (corrupt, byte list) result" where
  "payload_slice r index payload_start len slot_end =
    (case checked_add payload_start len of
       Some e \<Rightarrow>
         if e \<le> slot_end then Ok (window payload_start len (mr_mmap r))
         else Err (corrupt_new index (CrPayloadTooLong len (slot_end - payload_start)))
     | None \<Rightarrow> Err (corrupt_new index (CrPayloadTooLong len (slot_end - payload_start))))"

definition try_get_edge_tile_unverified :: "mmap_reader \<Rightarrow> nat \<Rightarrow> (corrupt, common_tile_header \<times> byte list) result" where
  "try_get_edge_tile_unverified r index =
    (let hs = COMMON_TILE_HEADER_SIZE in
     case tile_slot r index (header_extent r) (reader_tile_stride r) hs of
       Err c \<Rightarrow> Err c
     | Ok (offset, slot_end) \<Rightarrow>
         if offset mod 8 \<noteq> 0 then Err (corrupt_new index (CrMisaligned offset))
         else
           let tile_header = common_tile_header_of_bytes (window offset hs (mr_mmap r)) in
           case payload_slice r index (offset + hs) (unat (th_payload_len tile_header)) slot_end of
             Err c \<Rightarrow> Err c
           | Ok payload \<Rightarrow> Ok (tile_header, payload))"

definition try_get_edge_tile :: "crc_crate \<Rightarrow> mmap_reader \<Rightarrow> nat \<Rightarrow> (corrupt, common_tile_header \<times> byte list) result" where
  "try_get_edge_tile cc r index =
    (case try_get_edge_tile_unverified r index of
       Err c \<Rightarrow> Err c
     | Ok (tile_header, payload) \<Rightarrow>
         let must_verify = (th_flags tile_header AND (TILE_FLAG_CRC_CHAIN OR TILE_FLAG_SEALED) \<noteq> 0 \<or>
               th_header_crc32 tile_header \<noteq> 0 \<or> th_data_crc32 tile_header \<noteq> 0);
             h = compute_common_tile_header_crc32 tile_header;
             d = cc_crc32c cc payload
         in if must_verify \<and> h \<noteq> th_header_crc32 tile_header
            then Err (corrupt_new index (CrHeaderCrcMismatch (th_header_crc32 tile_header) h))
            else if must_verify \<and> d \<noteq> th_data_crc32 tile_header
            then Err (corrupt_new index (CrDataCrcMismatch (th_data_crc32 tile_header) d))
            else Ok (tile_header, payload))"

definition try_get_tile_unverified :: "mmap_reader \<Rightarrow> nat \<Rightarrow> (corrupt, hyper_tile_header \<times> byte list) result" where
  "try_get_tile_unverified r index =
    (case tile_slot r index FILE_HEADER_SIZE HYPER_TILE_SIZE HYPER_TILE_HEADER_SIZE of
       Err c \<Rightarrow> Err c
     | Ok (offset, slot_end) \<Rightarrow>
         if offset mod 8 \<noteq> 0 then Err (corrupt_new index (CrMisaligned offset))
         else
           let tile_header = hyper_tile_header_of_bytes (window offset HYPER_TILE_HEADER_SIZE (mr_mmap r)) in
           case payload_slice r index (offset + HYPER_TILE_HEADER_SIZE) (unat (ht_payload_bytes tile_header)) slot_end of
             Err c \<Rightarrow> Err c
           | Ok payload \<Rightarrow> Ok (tile_header, payload))"

definition try_get_tile :: "crc_crate \<Rightarrow> mmap_reader \<Rightarrow> nat \<Rightarrow> (corrupt, hyper_tile_header \<times> byte list) result" where
  "try_get_tile cc r index =
    (case try_get_tile_unverified r index of
       Err c \<Rightarrow> Err c
     | Ok (tile_header, payload) \<Rightarrow>
         let legacy = is_legacy_tile tile_header in
         if isl (check_tile_header_crc cc tile_header)
         then Err (corrupt_new index (CrHeaderCrcMismatch (ht_header_crc32 tile_header) (compute_tile_header_crc32 cc tile_header)))
         else
           let d = cc_crc32c cc payload in
           if \<not> (legacy \<and> ht_data_crc32 tile_header = 0) \<and> d \<noteq> ht_data_crc32 tile_header
           then Err (corrupt_new index (CrDataCrcMismatch (ht_data_crc32 tile_header) d))
           else Ok (tile_header, payload))"

definition try_get_promoted_tile ::
  "crc_crate \<Rightarrow> tile_type_registry \<Rightarrow> mmap_reader \<Rightarrow> nat \<Rightarrow> (corrupt, hyper_tile_header \<times> byte list) result" where
  "try_get_promoted_tile cc registry r index =
    (if is_edge_archive r then
       (case try_get_edge_tile cc r index of
          Err c \<Rightarrow> Err c
        | Ok (edge_hdr, payload) \<Rightarrow>
            let promoted = hyper_tile_header_new (target_version_of registry (ucast (th_type_id edge_hdr)))
                  (of_nat (index + 1)) (ucast (th_type_id edge_hdr))
            in Ok (promoted\<lparr> ht_record_count := th_record_count edge_hdr, ht_payload_bytes := ucast (th_payload_len edge_hdr),
                 ht_record_layout_version := ucast (th_type_version edge_hdr), ht_data_crc32 := th_data_crc32 edge_hdr,
                 ht_header_crc32 := th_header_crc32 edge_hdr, ht_generation := ucast (th_generation edge_hdr),
                 ht_tile_index := of_nat index, ht_file_uuid := fh_file_uuid (mr_active_header r),
                 ht_provenance := th_payload_hash edge_hdr \<rparr>, payload))
     else try_get_tile cc r index)"

section \<open>Records and whole files\<close>

definition file_uuid_mismatch :: "u64 \<times> u64 \<Rightarrow> hyper_tile_header \<Rightarrow> bool" where
  "file_uuid_mismatch file_uuid header \<longleftrightarrow>
    (file_uuid \<noteq> (0, 0) \<or> ht_file_uuid header \<noteq> (0, 0)) \<and>
    \<not> (ht_record_layout_version header \<le> 1 \<and> ht_file_uuid header = (0, 0)) \<and> ht_file_uuid header \<noteq> file_uuid"

text \<open>\<open>None\<close> is the panic of \<open>bytemuck::cast_slice\<close>, which does not round a payload down to whole records.\<close>

definition read_record_by_coordinate ::
  "crc_crate \<Rightarrow> tile_type_registry \<Rightarrow> nat \<Rightarrow> mmap_reader \<Rightarrow> nat \<Rightarrow> nat \<Rightarrow> (s3a_error, byte list) result option" where
  "read_record_by_coordinate cc registry sz r tile_id record_offset =
    (case try_get_tile cc r tile_id of
       Err c \<Rightarrow> Some (Err (case cr_reason c of
           CrHeaderCrcMismatch stored computed \<Rightarrow> ChecksumMismatch stored computed
         | CrDataCrcMismatch stored computed \<Rightarrow> ChecksumMismatch stored computed
         | _ \<Rightarrow> OutOfBounds))
     | Ok (header, payload) \<Rightarrow>
         if file_uuid_mismatch (fh_file_uuid (mr_active_header r)) header
         then Some (Err (FileUuidMismatch (fh_file_uuid (mr_active_header r)) (ht_file_uuid header)))
         else
           let cast_and_pick =
             (case try_cast_slice sz True payload of
                None \<Rightarrow> None
              | Some records \<Rightarrow>
                  if length records \<le> record_offset \<or> unat (ht_record_count header) \<le> record_offset then Some (Err OutOfBounds)
                  else Some (Ok (records ! record_offset)))
           in case validate_read registry (ht_tile_type header) (ht_record_layout_version header) of
                Err (UnsupportedLayoutVersionTooOld _ version _) \<Rightarrow> Some (Err (UnsupportedLayoutVersion version))
              | Err (UnsupportedLayoutVersionTooNew _ version _) \<Rightarrow> Some (Err (UnsupportedLayoutVersion version))
              | _ \<Rightarrow> cast_and_pick)"

definition verify_edge_tile :: "crc_crate \<Rightarrow> (byte list \<Rightarrow> byte list) \<Rightarrow> common_tile_header \<times> byte list \<Rightarrow> (s3a_error, unit) result" where
  "verify_edge_tile cc sha256 t =
    (let (header, payload) = t;
         crc_chain = (th_flags header AND TILE_FLAG_CRC_CHAIN \<noteq> 0);
         expected_hdr_crc = compute_common_tile_header_crc32 header;
         actual_data_crc = cc_crc32c cc payload;
         actual_hash = sha256 payload
     in if (crc_chain \<or> th_header_crc32 header \<noteq> 0) \<and> th_header_crc32 header \<noteq> expected_hdr_crc
        then Err (ChecksumMismatch (th_header_crc32 header) expected_hdr_crc)
        else if (crc_chain \<or> th_data_crc32 header \<noteq> 0) \<and> actual_data_crc \<noteq> th_data_crc32 header
        then Err (ChecksumMismatch (th_data_crc32 header) actual_data_crc)
        else if actual_hash \<noteq> th_payload_hash header
        then Err (ChecksumMismatch (of_le (take 4 (th_payload_hash header))) (of_le (take 4 actual_hash)))
        else Ok ())"

definition verify_hyper_tile :: "crc_crate \<Rightarrow> u64 \<times> u64 \<Rightarrow> hyper_tile_header \<times> byte list \<Rightarrow> (s3a_error, unit) result" where
  "verify_hyper_tile cc file_uuid t =
    (let (header, payload) = t in
     case check_tile_header_crc cc header of
       Err e \<Rightarrow> Err e
     | Ok _ \<Rightarrow>
         if file_uuid_mismatch file_uuid header then Err (FileUuidMismatch file_uuid (ht_file_uuid header))
         else
           let actual_data_crc = cc_crc32c cc payload in
           if actual_data_crc \<noteq> ht_data_crc32 header then Err (ChecksumMismatch (ht_data_crc32 header) actual_data_crc)
           else Ok ())"

text \<open>The loop over the tiles: \<open>left\<close> tiles from \<open>i\<close> on.\<close>

primrec verify_tiles :: "(nat \<Rightarrow> (s3a_error, unit) result) \<Rightarrow> nat \<Rightarrow> nat \<Rightarrow> (s3a_error, unit) result" where
  "verify_tiles check i 0 = Ok ()"
| "verify_tiles check i (Suc left) = (case check i of Err e \<Rightarrow> Err e | Ok _ \<Rightarrow> verify_tiles check (i + 1) left)"

definition verify_checksums :: "crc_crate \<Rightarrow> (byte list \<Rightarrow> byte list) \<Rightarrow> mmap_reader \<Rightarrow> (s3a_error, unit) result" where
  "verify_checksums cc sha256 r =
    (let h = mr_active_header r; expected_header_crc = compute_header_crc32 cc h in
     if fh_header_crc32 h \<noteq> 0 \<and> fh_header_crc32 h \<noteq> expected_header_crc
     then Err (ChecksumMismatch (fh_header_crc32 h) expected_header_crc)
     else if isl (validate_file_size r) then Err OutOfBounds
     else if is_edge_archive r then
       verify_tiles (\<lambda>i. case try_get_edge_tile cc r i of Err _ \<Rightarrow> Err OutOfBounds | Ok t \<Rightarrow> verify_edge_tile cc sha256 t)
         0 (reader_tile_count r)
     else
       verify_tiles (\<lambda>i. case try_get_tile_unverified r i of Err _ \<Rightarrow> Err OutOfBounds | Ok t \<Rightarrow> verify_hyper_tile cc (fh_file_uuid h) t)
         0 (reader_tile_count r))"

end
