(* ===== verification/Engine_Commit.thy ===== *)
theory Engine_Commit
  imports Engine_Archive
begin

text \<open>
  What a commit of the archive writer promises.  The invariant \<open>tw_wf\<close> ties the writer to its
  file: the active slot is valid and newer than the other, and the tiles end where the file ends.  A
  write appends exactly one tile; a power cut at any point of it leaves an archive that
  recovers to the tiles before or after the write.
\<close>

section \<open>Slots\<close>

definition slot_at :: "nat \<Rightarrow> byte list \<Rightarrow> archive_header" where
  "slot_at s bs = file_header_of_bytes (window (64 * s) 64 bs)"

lemma slot_at_0_1: "slot_a_of bs = slot_at 0 bs" "slot_b_of bs = slot_at 1 bs"
  by (simp_all add: slot_at_def slot_a_of_def slot_b_of_def)

text \<open>Slot \<open>s\<close> holds the header \<open>h\<close> and wins against the other slot.\<close>

definition holds_header :: "crc_crate \<Rightarrow> byte list \<Rightarrow> archive_header \<Rightarrow> nat \<Rightarrow> bool" where
  "holds_header cc bs h s \<longleftrightarrow>
    s < 2 \<and> 512 \<le> length bs \<and> slot_at s bs = h \<and> verify_header_slot cc h \<and> check_layout_fields h = Ok () \<and>
    (verify_header_slot cc (slot_at (1 - s) bs) \<longrightarrow> fh_generation (slot_at (1 - s) bs) < fh_generation h)"

lemma resolve_holds:
  assumes "holds_header cc bs h s"
  shows "resolve_active_header cc (slot_a_of bs) (slot_b_of bs) = Ok (h, s)"
proof -
  consider "s = 0" | "s = 1" using assms unfolding holds_header_def by linarith
  then show ?thesis
  proof cases
    case 1
    then show ?thesis using assms
      by (cases "verify_header_slot cc (slot_at 1 bs)") (auto simp: holds_header_def resolve_active_header_def slot_at_0_1)
  next
    case 2
    then show ?thesis using assms
      by (cases "verify_header_slot cc (slot_at 0 bs)") (auto simp: holds_header_def resolve_active_header_def slot_at_0_1)
  qed
qed

lemma open_committed_holds:
  assumes "holds_header cc bs h s" "expected_size (fh_tile_count h) \<le> length bs"
  shows "\<exists>file. open_committed cc bs = Ok (h, s, file) \<and> df_bytes file = take (expected_size (fh_tile_count h)) bs"
  using assms resolve_holds [OF assms(1)]
  by (auto simp: open_committed_def Let_def set_length_def holds_header_def)

lemma recover_holds:
  assumes "holds_header cc bs h s" "expected_size (fh_tile_count h) \<le> length bs"
  shows "recover_archive cc path (Some bs) = Ok (h, take (expected_size (fh_tile_count h)) bs)"
  using open_committed_holds [OF assms] by (auto simp: recover_archive_def)

text \<open>The checksum of a header does not depend on the field that stores it.\<close>

lemma compute_header_crc32_stored [simp]:
  "length (fh_magic h) = 4 \<Longrightarrow> compute_header_crc32 cc (h\<lparr>fh_header_crc32 := c\<rparr>) = compute_header_crc32 cc h"
  by (simp add: compute_header_crc32_def Let_def file_header_bytes_def window_def)

lemma compute_tile_header_crc32_stored [simp]:
  "hyper_tile_header_shape h \<Longrightarrow> compute_tile_header_crc32 cc (h\<lparr>ht_header_crc32 := c\<rparr>) = compute_tile_header_crc32 cc h"
  by (simp add: compute_tile_header_crc32_def Let_def hyper_tile_header_bytes_def window_def hyper_tile_header_shape_def
      part_layouts)

lemma shape_header_crc [simp]: "hyper_tile_header_shape (h\<lparr>ht_header_crc32 := c\<rparr>) = hyper_tile_header_shape h"
  by (simp add: hyper_tile_header_shape_def)

section \<open>A commit\<close>

definition next_slot :: "crc_crate \<Rightarrow> u64 \<Rightarrow> u32 \<Rightarrow> u32 \<Rightarrow> tile_writer \<Rightarrow> archive_header" where
  "next_slot cc now count m w =
    (let h = (archive_header_with_commit count (tw_generation w + 1) (tw_created_timestamp w) now)
           \<lparr> fh_addon_mask := m, fh_file_uuid := tw_file_uuid w \<rparr>
     in h\<lparr> fh_header_crc32 := compute_header_crc32 cc h \<rparr>)"

lemma next_slot_simps [simp]:
  "fh_tile_count (next_slot cc now n m w) = n" "fh_generation (next_slot cc now n m w) = tw_generation w + 1"
  "fh_created_timestamp (next_slot cc now n m w) = tw_created_timestamp w" "fh_addon_mask (next_slot cc now n m w) = m"
  "fh_file_uuid (next_slot cc now n m w) = tw_file_uuid w" "fh_flags (next_slot cc now n m w) = 0"
  "fh_tile_stride (next_slot cc now n m w) = 0" "fh_magic (next_slot cc now n m w) = S3A_MAGIC"
  "fh_version (next_slot cc now n m w) = 1"
  "check_layout_fields (next_slot cc now n m w) = Ok ()"
  "archive_header_verify (next_slot cc now n m w) = Ok ()"
  by (simp_all add: next_slot_def Let_def archive_header_with_commit_def check_layout_fields_def VALID_TILE_STRIDES_def
      archive_header_verify_def)

lemma next_slot_crc: "fh_header_crc32 (next_slot cc now n m w) = compute_header_crc32 cc (next_slot cc now n m w)"
proof -
  define h where "h = (archive_header_with_commit n (tw_generation w + 1) (tw_created_timestamp w) now)
    \<lparr> fh_addon_mask := m, fh_file_uuid := tw_file_uuid w \<rparr>"
  have n: "next_slot cc now n m w = h\<lparr> fh_header_crc32 := compute_header_crc32 cc h \<rparr>"
    by (simp only: next_slot_def h_def Let_def)
  have "length (fh_magic h) = 4" by (simp add: h_def archive_header_with_commit_def)
  then show ?thesis by (simp add: n)
qed

lemma next_slot_valid: "verify_header_slot cc (next_slot cc now n m w) \<longleftrightarrow> fh_header_crc32 (next_slot cc now n m w) \<noteq> 0"
  using next_slot_crc [of cc now n m w] by (simp add: verify_header_slot_def)

lemma commit_header_slot_simps:
  fixes cc now n m and w :: tile_writer
  assumes "tw_active_slot w < 2" "512 \<le> length (df_bytes (tw_file w))"
  defines "w' \<equiv> commit_header_slot cc now n m w"
  defines "t \<equiv> 64 * (1 - tw_active_slot w)"
  shows "df_bytes (tw_file w') = patch t (file_header_bytes (next_slot cc now n m w)) (df_bytes (tw_file w))"
    "df_pos (tw_file w') = length (df_bytes (tw_file w))"
    "df_log (tw_file w') = df_log (tw_file w) @ [DWrite t (file_header_bytes (next_slot cc now n m w)), DSync]"
    "tw_tile_count w' = n" "tw_generation w' = tw_generation w + 1" "tw_addon_mask w' = m"
    "tw_active_slot w' = 1 - tw_active_slot w" "tw_created_timestamp w' = tw_created_timestamp w"
    "tw_file_uuid w' = tw_file_uuid w" "tw_current_tile_id w' = tw_current_tile_id w"
proof -
  have t: "(if 1 - tw_active_slot w = 0 then 0 else 64) = t" using assms(1) by (auto simp: t_def)
  have i: "file_write t (file_header_bytes (next_slot cc now n m w)) (df_bytes (tw_file w)) =
      patch t (file_header_bytes (next_slot cc now n m w)) (df_bytes (tw_file w))"
    using assms(2) by (intro file_write_inside) (simp add: t_def)
  have l: "length (patch t (file_header_bytes (next_slot cc now n m w)) (df_bytes (tw_file w))) = length (df_bytes (tw_file w))"
    using assms(2) by (simp add: t_def)
  show "df_bytes (tw_file w') = patch t (file_header_bytes (next_slot cc now n m w)) (df_bytes (tw_file w))"
    "df_pos (tw_file w') = length (df_bytes (tw_file w))"
    "df_log (tw_file w') = df_log (tw_file w) @ [DWrite t (file_header_bytes (next_slot cc now n m w)), DSync]"
    "tw_tile_count w' = n" "tw_generation w' = tw_generation w + 1" "tw_addon_mask w' = m"
    "tw_active_slot w' = 1 - tw_active_slot w" "tw_created_timestamp w' = tw_created_timestamp w"
    "tw_file_uuid w' = tw_file_uuid w" "tw_current_tile_id w' = tw_current_tile_id w"
    using i l by (simp_all only: w'_def commit_header_slot_def Let_def t next_slot_def) (simp_all del: length_patch)
qed


lemma slot_at_patch:
  assumes "s < 2" "512 \<le> length bs" "length (fh_magic h) = 4"
  shows "slot_at (1 - s) (patch (64 * (1 - s)) (file_header_bytes h) bs) = h"
    "slot_at s (patch (64 * (1 - s)) (file_header_bytes h) bs) = slot_at s bs"
proof -
  consider "s = 0" | "s = 1" using assms(1) by linarith
  then have w: "window (64 * (1 - s)) 64 (patch (64 * (1 - s)) (file_header_bytes h) bs) = file_header_bytes h \<and>
      window (64 * s) 64 (patch (64 * (1 - s)) (file_header_bytes h) bs) = window (64 * s) 64 bs"
    by cases (use assms(2,3) in \<open>simp_all add: window_patch_apart\<close>)
  show "slot_at (1 - s) (patch (64 * (1 - s)) (file_header_bytes h) bs) = h"
    unfolding slot_at_def conjunct1 [OF w] using assms(3) by simp
  show "slot_at s (patch (64 * (1 - s)) (file_header_bytes h) bs) = slot_at s bs"
    unfolding slot_at_def conjunct2 [OF w] ..
qed

text \<open>A newer header in the other slot takes over.\<close>

lemma holds_newer:
  assumes "holds_header cc bs h s" "512 \<le> length c" "slot_at s c = h" "slot_at (1 - s) c = g"
    "verify_header_slot cc g" "check_layout_fields g = Ok ()" "fh_generation h < fh_generation g"
  shows "holds_header cc c g (1 - s)"
proof -
  have "s < 2" using assms(1) by (simp add: holds_header_def)
  then have "1 - (1 - s) = s" by simp
  then show ?thesis using assms by (simp add: holds_header_def)
qed

lemma holds_patched:
  assumes "holds_header cc bs h s" "verify_header_slot cc g" "check_layout_fields g = Ok ()" "fh_generation h < fh_generation g"
    "length (fh_magic g) = 4"
  shows "holds_header cc (patch (64 * (1 - s)) (file_header_bytes g) bs) g (1 - s)"
proof -
  have s: "s < 2" "512 \<le> length bs" "slot_at s bs = h" using assms(1) by (simp_all add: holds_header_def)
  show ?thesis using slot_at_patch [OF s(1,2) assms(5)] s assms(1-5) by (intro holds_newer [of cc bs h s]) simp_all
qed

text \<open>Bytes behind the slots do not matter, nor does a damaged other slot, unless it verifies as something newer.\<close>

lemma holds_same_slots:
  assumes "holds_header cc bs h s" "512 \<le> length c" "window 0 128 c = window 0 128 bs"
  shows "holds_header cc c h s"
proof -
  have w: "slot_at t c = slot_at t bs" if "t < 2" for t
  proof -
    have "window (64 * t) 64 (window 0 128 c) = window (64 * t) 64 (window 0 128 bs)" using assms(3) by simp
    moreover have "64 * t + 64 \<le> 128" using that by simp
    ultimately show ?thesis by (simp add: window_window slot_at_def)
  qed
  show ?thesis using assms(1,2) w [of s] w [of "1 - s"] by (simp add: holds_header_def)
qed

lemma holds_damaged_other:
  assumes "holds_header cc bs h s" "512 \<le> length c" "slot_at s c = slot_at s bs"
    "\<not> verify_header_slot cc (slot_at (1 - s) c) \<or> slot_at (1 - s) c = slot_at (1 - s) bs"
  shows "holds_header cc c h s"
  using assms by (auto simp: holds_header_def)

section \<open>The invariant of the writer\<close>

definition plain_header :: "u64 \<times> u64 \<Rightarrow> u32 \<Rightarrow> archive_header \<Rightarrow> bool" where
  "plain_header uuid n h \<longleftrightarrow> fh_tile_count h = n \<and> fh_file_uuid h = uuid \<and> fh_flags h = 0 \<and> fh_tile_stride h = 0"

definition tw_wf :: "crc_crate \<Rightarrow> tile_writer \<Rightarrow> bool" where
  "tw_wf cc w \<longleftrightarrow>
    (let bs = df_bytes (tw_file w); h = slot_at (tw_active_slot w) bs in
     holds_header cc bs h (tw_active_slot w) \<and> length bs = expected_size (tw_tile_count w) \<and> df_pos (tw_file w) = length bs \<and>
     tw_current_tile_id w = ucast (tw_tile_count w) + 1 \<and> fh_tile_count h = tw_tile_count w \<and>
     fh_generation h = tw_generation w \<and> fh_created_timestamp h = tw_created_timestamp w \<and>
     fh_addon_mask h = tw_addon_mask w \<and> fh_file_uuid h = tw_file_uuid w \<and> fh_flags h = 0 \<and> fh_tile_stride h = 0)"

lemma tw_wfD:
  assumes "tw_wf cc w"
  shows "tw_active_slot w < 2" "512 \<le> length (df_bytes (tw_file w))"
    "length (df_bytes (tw_file w)) = expected_size (tw_tile_count w)" "df_pos (tw_file w) = length (df_bytes (tw_file w))"
    "tw_current_tile_id w = ucast (tw_tile_count w) + 1"
    "holds_header cc (df_bytes (tw_file w)) (slot_at (tw_active_slot w) (df_bytes (tw_file w))) (tw_active_slot w)"
    "fh_tile_count (slot_at (tw_active_slot w) (df_bytes (tw_file w))) = tw_tile_count w"
    "fh_generation (slot_at (tw_active_slot w) (df_bytes (tw_file w))) = tw_generation w"
    "plain_header (tw_file_uuid w) (tw_tile_count w) (slot_at (tw_active_slot w) (df_bytes (tw_file w)))"
  using assms unfolding plain_header_def tw_wf_def Let_def holds_header_def by blast+

definition tile_image :: "hyper_tile_header \<Rightarrow> byte list \<Rightarrow> byte list" where
  "tile_image header payload =
    hyper_tile_header_bytes header @ payload @ replicate (HYPER_TILE_SIZE - (HYPER_TILE_HEADER_SIZE + length payload)) 0"

lemma length_tile_image:
  "hyper_tile_header_shape h \<Longrightarrow> length payload \<le> HYPER_TILE_PAYLOAD_SIZE \<Longrightarrow> length (tile_image h payload) = HYPER_TILE_SIZE"
  by (simp add: tile_image_def HYPER_TILE_SIZE_def HYPER_TILE_HEADER_SIZE_def HYPER_TILE_PAYLOAD_SIZE_def)


text \<open>The after gate accepts what was just written.\<close>

lemma gate_accepts:
  assumes "hyper_tile_header_shape h" "ht_header_crc32 h = compute_tile_header_crc32 cc h"
    "ht_data_crc32 h = cc_crc32c cc payload" "length payload \<le> HYPER_TILE_PAYLOAD_SIZE"
    "df_bytes f = bs @ tile_image h payload"
  shows "verify_written_tile_from_disk cc (length bs) (ht_header_crc32 h) (ht_data_crc32 h) (length payload) f =
    (Ok (), f\<lparr> df_pos := length bs + HYPER_TILE_SIZE \<rparr>)"
proof -
  have l: "length (df_bytes f) = length bs + HYPER_TILE_SIZE" using assms by (simp add: length_tile_image)
  have z: "length payload + 512 \<le> HYPER_TILE_SIZE"
    using assms(4) by (simp add: HYPER_TILE_SIZE_def HYPER_TILE_HEADER_SIZE_def HYPER_TILE_PAYLOAD_SIZE_def)
  have z': "length bs + 512 \<le> length bs + HYPER_TILE_SIZE" "length bs + 512 + length payload \<le> length bs + HYPER_TILE_SIZE"
    using z by simp_all
  have h: "window (length bs) 512 (df_bytes f) = hyper_tile_header_bytes h"
    using assms(1) by (simp add: assms(5) tile_image_def window_append_skip window_append_here)
  have p: "window (length bs + 512) (length payload) (df_bytes f) = payload"
    using assms(1) by (simp add: assms(5) tile_image_def window_append_skip window_append_here)
  show ?thesis
    using assms(1-3) z'
    by (simp add: verify_written_tile_from_disk_def read_exact_def seek_start_def seek_end_def HYPER_TILE_HEADER_SIZE_def l h p)
qed

text \<open>The tile is written behind the committed bytes, before the barrier that the commit follows.\<close>

definition tile_ops :: "nat \<Rightarrow> hyper_tile_header \<Rightarrow> byte list \<Rightarrow> disk_op list" where
  "tile_ops p h payload =
    (let pad = HYPER_TILE_SIZE - (HYPER_TILE_HEADER_SIZE + length payload) in
     [DWrite p (hyper_tile_header_bytes h), DWrite (p + 512) payload] @
     (if 0 < pad then [DWrite (p + 512 + length payload) (replicate pad 0)] else []))"

lemma tile_ops_behind:
  "DSync \<notin> set (tile_ops p h payload)" "op \<in> set (tile_ops p h payload) \<Longrightarrow> i < p \<Longrightarrow> \<not> touches op i"
  by (auto simp: tile_ops_def Let_def split: if_splits)

lemma tile_ops_written:
  fixes payload :: "byte list"
  assumes "hyper_tile_header_shape h" "df_pos f = length (df_bytes f)"
  defines "pad \<equiv> HYPER_TILE_SIZE - (HYPER_TILE_HEADER_SIZE + length payload)"
  defines "f' \<equiv> write_all payload (write_all (hyper_tile_header_bytes h) f)"
  defines "f'' \<equiv> if 0 < pad then write_all (replicate pad 0) f' else f'"
  shows "df_bytes f'' = df_bytes f @ tile_image h payload" "df_log f'' = df_log f @ tile_ops (length (df_bytes f)) h payload"
proof -
  have b: "df_bytes f' = df_bytes f @ hyper_tile_header_bytes h @ payload"
    "df_pos f' = length (df_bytes f @ hyper_tile_header_bytes h @ payload)"
    "df_log f' = df_log f @ [DWrite (length (df_bytes f)) (hyper_tile_header_bytes h), DWrite (length (df_bytes f) + 512) payload]"
    using assms(1,2) file_write_end [of "df_bytes f"] file_write_end [of "df_bytes f @ hyper_tile_header_bytes h" payload]
    by (simp_all add: f'_def)
  show "df_bytes f'' = df_bytes f @ tile_image h payload"
    using b file_write_end [of "df_bytes f @ hyper_tile_header_bytes h @ payload" "replicate pad 0"]
    by (simp add: f''_def tile_image_def pad_def)
  show "df_log f'' = df_log f @ tile_ops (length (df_bytes f)) h payload"
    using b assms(1) by (simp add: f''_def tile_ops_def Let_def pad_def add.assoc)
qed

lemma fold_tile_ops:
  assumes "hyper_tile_header_shape h"
  shows "fold apply_op (tile_ops (length bs) h payload) bs = bs @ tile_image h payload"
  using assms file_write_end [of bs] file_write_end [of "bs @ hyper_tile_header_bytes h" payload]
    file_write_end [of "bs @ hyper_tile_header_bytes h @ payload"]
  by (simp add: tile_ops_def tile_image_def Let_def add.assoc)

lemma finish_tile_Ok:
  assumes "tw_wf cc w" "hyper_tile_header_shape h" "ht_header_crc32 h = compute_tile_header_crc32 cc h"
    "ht_data_crc32 h = cc_crc32c cc payload" "length payload \<le> HYPER_TILE_PAYLOAD_SIZE"
  obtains f where
    "finish_tile cc now h payload w =
      (Ok (tw_current_tile_id w), (commit_header_slot cc now (tw_tile_count w + 1) (tw_addon_mask w) (w\<lparr>tw_file := f\<rparr>))
        \<lparr>tw_current_tile_id := tw_current_tile_id w + 1\<rparr>)"
    "df_bytes f = df_bytes (tw_file w) @ tile_image h payload"
    "df_log f = df_log (tw_file w) @ tile_ops (length (df_bytes (tw_file w))) h payload @ [DSync]"
proof -
  define pad where "pad = HYPER_TILE_SIZE - (HYPER_TILE_HEADER_SIZE + length payload)"
  define f1 where "f1 = write_all payload (write_all (hyper_tile_header_bytes h) (tw_file w))"
  define f2 where "f2 = (if 0 < pad then write_all (replicate pad 0) f1 else f1)"
  define f where "f = (sync_file f2)\<lparr> df_pos := length (df_bytes (tw_file w)) + HYPER_TILE_SIZE \<rparr>"
  note wf = tw_wfD [OF assms(1)]
  have f2: "df_bytes f2 = df_bytes (tw_file w) @ tile_image h payload"
    "df_log f2 = df_log (tw_file w) @ tile_ops (length (df_bytes (tw_file w))) h payload"
    using tile_ops_written [OF assms(2) wf(4), of payload] unfolding f2_def f1_def pad_def by blast+
  have o: "512 + unat (tw_tile_count w) * HYPER_TILE_SIZE = length (df_bytes (tw_file w))"
    using wf(3) by (simp add: expected_size_def)
  have v: "verify_written_tile_from_disk cc (length (df_bytes (tw_file w))) (ht_header_crc32 h) (ht_data_crc32 h)
      (length payload) (sync_file f2) = (Ok (), f)"
    unfolding f_def using assms(2-5) f2 by (intro gate_accepts) simp_all
  have "finish_tile cc now h payload w =
      (Ok (tw_current_tile_id w), (commit_header_slot cc now (tw_tile_count w + 1) (tw_addon_mask w) (w\<lparr>tw_file := f\<rparr>))
        \<lparr>tw_current_tile_id := tw_current_tile_id w + 1\<rparr>)"
    unfolding finish_tile_def Let_def o pad_def [symmetric] f1_def [symmetric] f2_def [symmetric] v by simp
  moreover have "df_bytes f = df_bytes (tw_file w) @ tile_image h payload"
    "df_log f = df_log (tw_file w) @ tile_ops (length (df_bytes (tw_file w))) h payload @ [DSync]"
    using f2 by (simp_all add: f_def)
  ultimately show thesis using that by blast
qed


section \<open>One tile more\<close>

lemma drop_patch_slot:
  assumes "s < 2" "512 \<le> length bs" "length d = 64"
  shows "drop 512 (patch (64 * (1 - s)) d bs) = drop 512 bs"
proof -
  have "64 * (1 - s) + 64 \<le> 512" by simp
  then show ?thesis using assms by (simp add: patch_def)
qed

lemma expected_size_Suc:
  "unat n + 1 < 2 ^ 32 \<Longrightarrow> expected_size (n + 1) = expected_size n + HYPER_TILE_SIZE"
  by (simp add: expected_size_def unat_word_ariths)

lemma ucast_succ:
  fixes n :: u32
  assumes "unat n + 1 < 2 ^ 32"
  shows "ucast (n + 1) = (ucast n + 1 :: u64)"
proof -
  have "unat n < 2 ^ 64 - 1" using assms by simp
  moreover have "unat (n + 1) = unat n + 1" using assms by (simp add: unat_word_ariths)
  ultimately show ?thesis
    by (simp add: word_unat_eq_iff unat_word_ariths unsigned_ucast_eq unsigned_take_bit_eq take_bit_nat_eq_self_iff take_bit_eq_mod)
qed

lemma finish_tile_commits:
  assumes "tw_wf cc w" "hyper_tile_header_shape h" "ht_header_crc32 h = compute_tile_header_crc32 cc h"
    "ht_data_crc32 h = cc_crc32c cc payload" "length payload \<le> HYPER_TILE_PAYLOAD_SIZE"
    "tw_generation w < tw_generation w + 1" "unat (tw_tile_count w) + 1 < 2 ^ 32"
    "fh_header_crc32 (next_slot cc now (tw_tile_count w + 1) (tw_addon_mask w) w) \<noteq> 0"
  defines "t \<equiv> 64 * (1 - tw_active_slot w)"
    and "nb \<equiv> file_header_bytes (next_slot cc now (tw_tile_count w + 1) (tw_addon_mask w) w)"
  obtains w' where "finish_tile cc now h payload w = (Ok (tw_current_tile_id w), w')" "tw_wf cc w'"
    "tw_tile_count w' = tw_tile_count w + 1" "tw_file_uuid w' = tw_file_uuid w" "tw_addon_mask w' = tw_addon_mask w"
    "df_bytes (tw_file w') = patch t nb (df_bytes (tw_file w) @ tile_image h payload)"
    "df_log (tw_file w') = df_log (tw_file w) @ tile_ops (length (df_bytes (tw_file w))) h payload @ DSync # [DWrite t nb, DSync]"
proof -
  note wf = tw_wfD [OF assms(1)]
  let ?g = "next_slot cc now (tw_tile_count w + 1) (tw_addon_mask w) w"
  from finish_tile_Ok [OF assms(1-5), of now] obtain f where f:
    "finish_tile cc now h payload w =
      (Ok (tw_current_tile_id w), (commit_header_slot cc now (tw_tile_count w + 1) (tw_addon_mask w) (w\<lparr>tw_file := f\<rparr>))
        \<lparr>tw_current_tile_id := tw_current_tile_id w + 1\<rparr>)"
    "df_bytes f = df_bytes (tw_file w) @ tile_image h payload"
    "df_log f = df_log (tw_file w) @ tile_ops (length (df_bytes (tw_file w))) h payload @ [DSync]" .
  define v where "v = w\<lparr>tw_file := f\<rparr>"
  define w' where "w' = (commit_header_slot cc now (tw_tile_count w + 1) (tw_addon_mask w) v)
    \<lparr>tw_current_tile_id := tw_current_tile_id w + 1\<rparr>"
  have g: "next_slot cc now n m v = next_slot cc now n m w" for n m by (simp add: v_def next_slot_def)
  have vb: "tw_active_slot v < 2" "512 \<le> length (df_bytes (tw_file v))" using wf f(2) by (simp_all add: v_def)
  note c = commit_header_slot_simps [OF vb, of cc now "tw_tile_count w + 1" "tw_addon_mask w", unfolded g]
  have b: "df_bytes (tw_file w') = patch t nb (df_bytes (tw_file w) @ tile_image h payload)"
    using c(1) f(2) by (simp add: w'_def t_def nb_def v_def)
  have l: "length (df_bytes (tw_file w')) = expected_size (tw_tile_count w + 1)"
    using wf(1-3) expected_size_Suc [OF assms(7)] length_tile_image [OF assms(2,5)] unfolding b
    by (simp add: t_def nb_def)
  have "holds_header cc (df_bytes (tw_file w) @ tile_image h payload)
      (slot_at (tw_active_slot w) (df_bytes (tw_file w))) (tw_active_slot w)"
    using wf(2,6) by (intro holds_same_slots [OF wf(6)]) (simp_all add: window_append_inside)
  then have hold: "holds_header cc (df_bytes (tw_file w')) ?g (1 - tw_active_slot w)"
    unfolding b t_def nb_def by (rule holds_patched) (use wf(8) assms(6,8) in \<open>simp_all add: next_slot_valid\<close>)
  have sl: "slot_at (1 - tw_active_slot w) (df_bytes (tw_file w')) = ?g" using hold by (simp add: holds_header_def)
  have id: "ucast (tw_tile_count w + 1) = (ucast (tw_tile_count w) + 1 :: u64)"
    by (rule ucast_succ [OF assms(7)])
  have "tw_active_slot w' = 1 - tw_active_slot w" "df_pos (tw_file w') = length (df_bytes (tw_file w'))"
    "tw_tile_count w' = tw_tile_count w + 1" "tw_generation w' = tw_generation w + 1"
    "tw_created_timestamp w' = tw_created_timestamp w" "tw_addon_mask w' = tw_addon_mask w" "tw_file_uuid w' = tw_file_uuid w"
    "tw_current_tile_id w' = ucast (tw_tile_count w + 1) + 1"
    using c wf(1,2) f(2) wf(5) id by (simp_all add: w'_def v_def)
  then have "tw_wf cc w'" using hold sl l by (simp add: tw_wf_def)
  moreover have "df_log (tw_file w') = df_log (tw_file w) @ tile_ops (length (df_bytes (tw_file w))) h payload @ DSync # [DWrite t nb, DSync]"
    using c(3) f(3) by (simp add: w'_def t_def nb_def v_def)
  moreover have "finish_tile cc now h payload w = (Ok (tw_current_tile_id w), w')" using f(1) by (simp add: w'_def v_def)
  ultimately show thesis using that b c(4,6,9) by (simp add: w'_def v_def)
qed


section \<open>Power cuts\<close>

lemma torn_write_inside:
  assumes "torn [DWrite p d] c c'" "p + length d < length c"
  shows "length c' = length c"
    "a + n \<le> length c \<Longrightarrow> a + n \<le> p \<or> p + length d \<le> a \<Longrightarrow> window a n c' = window a n c"
proof -
  have i: "i < length c' \<and> c' ! i = c ! i" if "i < length c" "i < p \<or> p + length d \<le> i" for i
    using assms(1) that unfolding torn_def by auto
  have "i < length c" if "i < length c'" for i using assms that unfolding torn_def by auto
  then have "length c' \<le> length c" by (meson leI less_irrefl)
  moreover have "length c \<le> length c'"
  proof -
    have "length c - 1 < length c" "p + length d \<le> length c - 1" using assms(2) by linarith+
    then have "length c - 1 < length c'" using i by blast
    then show ?thesis by simp
  qed
  ultimately show l: "length c' = length c" by (rule antisym)
  show "window a n c' = window a n c" if "a + n \<le> length c" "a + n \<le> p \<or> p + length d \<le> a"
    using that i l by (intro window_eqI) auto
qed

text \<open>The bytes hold an archive of \<open>n\<close> tiles, with anything behind them.\<close>

definition archive_image :: "crc_crate \<Rightarrow> byte list \<Rightarrow> u64 \<times> u64 \<Rightarrow> u32 \<Rightarrow> byte list \<Rightarrow> bool" where
  "archive_image cc c uuid n tiles \<longleftrightarrow>
    (\<exists>h s. holds_header cc c h s \<and> plain_header uuid n h \<and> expected_size n \<le> length c \<and> drop 512 (take (expected_size n) c) = tiles)"

lemma archive_image_recovers:
  assumes "archive_image cc c uuid n tiles"
  obtains h bs where "recover_archive cc path (Some c) = Ok (h, bs)" "plain_header uuid n h" "drop 512 bs = tiles"
  using assms recover_holds unfolding archive_image_def plain_header_def by metis

definition writer_tiles :: "tile_writer \<Rightarrow> byte list" where
  "writer_tiles w = drop 512 (df_bytes (tw_file w))"

lemma archive_image_reopens:
  assumes "archive_image cc c uuid n tiles"
  obtains w where "open_append cc c = Ok w" "tw_wf cc w" "tw_file_uuid w = uuid" "tw_tile_count w = n" "writer_tiles w = tiles"
proof -
  from assms obtain h s where h: "holds_header cc c h s" "plain_header uuid n h" "expected_size n \<le> length c"
    "drop 512 (take (expected_size n) c) = tiles" by (auto simp: archive_image_def)
  from open_committed_holds [OF h(1)] h(2,3) obtain fl where f: "open_committed cc c = Ok (h, s, fl)"
    "df_bytes fl = take (expected_size n) c" by (auto simp: plain_header_def)
  define w where "w = \<lparr> tw_file = seek_end fl, tw_tile_count = n,
    tw_current_tile_id = ucast n + 1, tw_generation = fh_generation h, tw_active_slot = s,
    tw_created_timestamp = fh_created_timestamp h, tw_addon_mask = fh_addon_mask h, tw_file_uuid = uuid \<rparr>"
  have "512 \<le> expected_size n" by (simp add: expected_size_def)
  then have c: "512 \<le> length (take (expected_size n) c)" "window 0 128 (take (expected_size n) c) = window 0 128 c"
    using h(3) by (simp_all add: window_def min_def)
  then have "holds_header cc (take (expected_size n) c) h s" by (intro holds_same_slots [OF h(1)])
  moreover from this have "slot_at s (take (expected_size n) c) = h" by (simp add: holds_header_def)
  ultimately have "tw_wf cc w" using h(2,3) f(2) by (simp add: tw_wf_def w_def plain_header_def)
  moreover have "open_append cc c = Ok w" using f(1) h(2) by (simp add: open_append_def w_def plain_header_def)
  ultimately show thesis using that [of w] f(2) h(4) by (simp add: w_def writer_tiles_def)
qed

lemma tw_wf_image: "tw_wf cc w \<Longrightarrow> archive_image cc (df_bytes (tw_file w)) (tw_file_uuid w) (tw_tile_count w) (writer_tiles w)"
  unfolding archive_image_def writer_tiles_def by (metis order_refl take_all tw_wfD(3,6,9))

text \<open>While the tile is written, nothing that is committed changes.\<close>

lemma cut_in_tile:
  assumes "tw_wf cc w" "torn (tile_ops (length (df_bytes (tw_file w))) h payload) (df_bytes (tw_file w)) c"
  shows "archive_image cc c (tw_file_uuid w) (tw_tile_count w) (writer_tiles w)"
proof -
  note wf = tw_wfD [OF assms(1)]
  let ?bs = "df_bytes (tw_file w)"
  have keep: "a + n \<le> length c \<and> window a n c = window a n ?bs" if "a + n \<le> length ?bs" "0 < n" for a n
  proof -
    have "\<not> touches op i" if "op \<in> set (tile_ops (length ?bs) h payload)" "a \<le> i" "i < a + n" for op i
      by (rule tile_ops_behind(2) [OF that(1)]) (use that(3) \<open>a + n \<le> length ?bs\<close> in linarith)
    from torn_window [OF assms(2) that this] show ?thesis by blast
  qed
  have "?bs \<noteq> []" using wf(2) by auto
  then have l: "length ?bs \<le> length c" "window 0 (length ?bs) c = ?bs"
    using keep [of 0 "length ?bs"] by (simp_all add: window_all)
  have "window 0 128 c = window 0 128 ?bs" using keep [of 0 128] wf(2) by simp
  then have "holds_header cc c (slot_at (tw_active_slot w) ?bs) (tw_active_slot w)"
    using holds_same_slots [OF wf(6)] l(1) wf(2) by simp
  moreover have "take (length ?bs) c = ?bs" using l(2) by (simp add: window_def)
  ultimately show ?thesis using wf(3,9) l(1) unfolding archive_image_def writer_tiles_def by metis
qed

text \<open>While the slot is written, the active slot and all tiles stay; the slot itself may be anything that
  does not verify, or one of the two headers.\<close>

lemma cut_in_slot:
  assumes "holds_header cc bs h s" "plain_header uuid n h" "length bs = expected_size n + k"
    "torn [DWrite (64 * (1 - s)) (file_header_bytes g)] bs c" "length (fh_magic g) = 4"
    "verify_header_slot cc g" "check_layout_fields g = Ok ()" "fh_generation h < fh_generation g"
    "plain_header uuid m g" "expected_size m = length bs"
    "verify_header_slot cc (slot_at (1 - s) c) \<Longrightarrow> slot_at (1 - s) c \<in> {slot_at (1 - s) bs, g}"
  shows "archive_image cc c uuid n (drop 512 (take (expected_size n) bs)) \<or> archive_image cc c uuid m (drop 512 bs)"
proof -
  have s: "s < 2" "512 \<le> length bs" "slot_at s bs = h" using assms(1) by (simp_all add: holds_header_def)
  have p: "64 * (1 - s) + 64 \<le> 128" "64 * s + 64 \<le> 128" "64 * s + 64 \<le> 64 * (1 - s) \<or> 64 * (1 - s) + 64 \<le> 64 * s"
    using s(1) by (linarith, linarith, cases "s = 0", simp_all)
  have "64 * (1 - s) + length (file_header_bytes g) < length bs" using p(1) s(2) assms(5) by simp
  note t = torn_write_inside [OF assms(4) this]
  have "window (64 * s) 64 c = window (64 * s) 64 bs" using p s(2) assms(5) by (intro t(2)) auto
  then have sc: "slot_at s c = h" using s(3) by (simp add: slot_at_def)
  have "window 512 (length bs - 512) c = window 512 (length bs - 512) bs" using p s(2) assms(5) by (intro t(2)) auto
  then have d: "drop 512 c = drop 512 bs" using t(1) by (simp add: window_def)
  have l: "512 \<le> length c" using t(1) s(2) by simp
  show ?thesis
  proof (cases "verify_header_slot cc (slot_at (1 - s) c) \<and> slot_at (1 - s) c = g")
    case True
    then have "slot_at (1 - s) c = g" by blast
    from holds_newer [OF assms(1) l sc this assms(6-8)] have "holds_header cc c g (1 - s)" .
    then have "archive_image cc c uuid m (drop 512 bs)"
      using assms(9,10) t(1) d unfolding archive_image_def by (metis order_refl take_all)
    then show ?thesis ..
  next
    case False
    with assms(11) have "\<not> verify_header_slot cc (slot_at (1 - s) c) \<or> slot_at (1 - s) c = slot_at (1 - s) bs" by auto
    from holds_damaged_other [OF assms(1) l _ this] sc s(3) have "holds_header cc c h s" by simp
    moreover have "drop 512 (take (expected_size n) c) = drop 512 (take (expected_size n) bs)"
      using d by (simp add: drop_take)
    moreover have "expected_size n \<le> length c" using assms(3) t(1) by simp
    ultimately show ?thesis using assms(2) unfolding archive_image_def by blast
  qed
qed

section \<open>The write of a prepared tile\<close>

lemma raw_tile_header_simps:
  assumes "hyper_tile_header_shape h"
  shows "hyper_tile_header_shape (raw_tile_header cc h payload w)"
    "ht_header_crc32 (raw_tile_header cc h payload w) = compute_tile_header_crc32 cc (raw_tile_header cc h payload w)"
    "ht_data_crc32 (raw_tile_header cc h payload w) = (if ht_data_crc32 h = 0 then cc_crc32c cc payload else ht_data_crc32 h)"
    "ht_payload_bytes (raw_tile_header cc h payload w) = (if ht_payload_bytes h = 0 then of_nat (length payload) else ht_payload_bytes h)"
    "ht_tile_index (raw_tile_header cc h payload w) = tw_tile_count w"
    "ht_tile_id (raw_tile_header cc h payload w) = tw_current_tile_id w"
    "ht_file_uuid (raw_tile_header cc h payload w) = (if ht_file_uuid h = (0, 0) then tw_file_uuid w else ht_file_uuid h)"
proof -
  define g where "g = raw_tile_header cc h payload w"
  obtain g0 where g0: "g = g0\<lparr> ht_header_crc32 := compute_tile_header_crc32 cc g0 \<rparr>" "hyper_tile_header_shape g0"
    "ht_data_crc32 g0 = (if ht_data_crc32 h = 0 then cc_crc32c cc payload else ht_data_crc32 h)"
    "ht_payload_bytes g0 = (if ht_payload_bytes h = 0 then of_nat (length payload) else ht_payload_bytes h)"
    "ht_tile_index g0 = tw_tile_count w" "ht_tile_id g0 = tw_current_tile_id w"
    "ht_file_uuid g0 = (if ht_file_uuid h = (0, 0) then tw_file_uuid w else ht_file_uuid h)"
    using assms unfolding g_def raw_tile_header_def Let_def hyper_tile_header_shape_def by force
  show "hyper_tile_header_shape (raw_tile_header cc h payload w)"
    "ht_header_crc32 (raw_tile_header cc h payload w) = compute_tile_header_crc32 cc (raw_tile_header cc h payload w)"
    "ht_data_crc32 (raw_tile_header cc h payload w) = (if ht_data_crc32 h = 0 then cc_crc32c cc payload else ht_data_crc32 h)"
    "ht_payload_bytes (raw_tile_header cc h payload w) = (if ht_payload_bytes h = 0 then of_nat (length payload) else ht_payload_bytes h)"
    "ht_tile_index (raw_tile_header cc h payload w) = tw_tile_count w"
    "ht_tile_id (raw_tile_header cc h payload w) = tw_current_tile_id w"
    "ht_file_uuid (raw_tile_header cc h payload w) = (if ht_file_uuid h = (0, 0) then tw_file_uuid w else ht_file_uuid h)"
    unfolding g_def [symmetric] using g0 by simp_all
qed

text \<open>What a commit of the next tile needs: counters that do not wrap, and a slot checksum that is not the
  value the format reserves for "unset".\<close>

definition commit_possible :: "crc_crate \<Rightarrow> u64 \<Rightarrow> tile_writer \<Rightarrow> bool" where
  "commit_possible cc now w \<longleftrightarrow>
    tw_generation w < tw_generation w + 1 \<and> unat (tw_tile_count w) + 1 < 2 ^ 32 \<and>
    fh_header_crc32 (next_slot cc now (tw_tile_count w + 1) (tw_addon_mask w) w) \<noteq> 0"

definition raw_tile_ok :: "crc_crate \<Rightarrow> tile_type_registry \<Rightarrow> hyper_tile_header \<Rightarrow> byte list \<Rightarrow> tile_writer \<Rightarrow> bool" where
  "raw_tile_ok cc registry h payload w \<longleftrightarrow>
    write_gate registry (ht_tile_type h) (if ht_record_layout_version h = 0 then 1 else ht_record_layout_version h)
      (tw_addon_mask w) = Ok () \<and>
    hyper_tile_header_shape h \<and> ht_data_crc32 h \<in> {0, cc_crc32c cc payload} \<and>
    ht_payload_bytes h \<in> {0, of_nat (length payload)} \<and> length payload \<le> HYPER_TILE_PAYLOAD_SIZE"

lemma write_raw_finish:
  assumes "raw_tile_ok cc registry h payload w"
  shows "write_raw_hyper_tile cc registry now h payload w = finish_tile cc now (raw_tile_header cc h payload w) payload w"
proof -
  have "\<not> HYPER_TILE_SIZE < HYPER_TILE_HEADER_SIZE + length payload"
    using assms by (simp add: raw_tile_ok_def HYPER_TILE_SIZE_def HYPER_TILE_HEADER_SIZE_def HYPER_TILE_PAYLOAD_SIZE_def)
  then show ?thesis using assms by (simp add: write_raw_hyper_tile_def raw_tile_ok_def Let_def)
qed

lemma raw_tile_finishable:
  assumes "raw_tile_ok cc registry h payload w"
  defines "g \<equiv> raw_tile_header cc h payload w"
  shows "hyper_tile_header_shape g" "ht_header_crc32 g = compute_tile_header_crc32 cc g"
    "ht_data_crc32 g = cc_crc32c cc payload" "length payload \<le> HYPER_TILE_PAYLOAD_SIZE" "ht_payload_bytes g = of_nat (length payload)"
  using assms(1) raw_tile_header_simps [of h cc payload w] by (auto simp: raw_tile_ok_def g_def)

end
