(* ===== verification/Engine_Durability.thy ===== *)
theory Engine_Durability
  imports Engine_Commit Engine_Reader
begin

text \<open>
  The archive writer and the reader together: what is written is read back, nothing else
  changes, a power cut loses at most the tile being written, and what a verified archive holds is
  delivered.
\<close>

section \<open>Tiles as windows of the file\<close>

lemmas tile_sizes = HYPER_TILE_SIZE_def HYPER_TILE_HEADER_SIZE_def HYPER_TILE_PAYLOAD_SIZE_def

lemma unat_u32_less: "unat (x :: u32) < 2 ^ 32"
  by (rule order.strict_trans2 [OF unsigned_less]) simp

lemma reader_index_less: "i < reader_tile_count r \<Longrightarrow> i < 2 ^ 32"
  unfolding reader_tile_count_def by (rule less_trans [OF _ unat_u32_less])

lemma tile_slot_hyper:
  assumes "i < reader_tile_count r"
  shows "tile_slot r i FILE_HEADER_SIZE HYPER_TILE_SIZE HYPER_TILE_HEADER_SIZE =
    (if length (mr_mmap r) < 512 + (i + 1) * HYPER_TILE_SIZE
     then Err (corrupt_new i (CrSlotPastEof (512 + (i + 1) * HYPER_TILE_SIZE) (length (mr_mmap r))))
     else Ok (512 + i * HYPER_TILE_SIZE, 512 + (i + 1) * HYPER_TILE_SIZE))"
proof -
  have "i < 2 ^ 32" using assms by (rule reader_index_less)
  then have "i * 131072 < 2 ^ 64" "i * 131072 + 512 < 2 ^ 64" "i * 131072 + 512 + 131072 < 2 ^ 64" by simp_all
  then show ?thesis using assms
    by (simp add: tile_slot_def checked_mul_def checked_add_def tile_sizes algebra_simps)
qed

text \<open>What the reader makes of the bytes of one tile.\<close>

definition tile_view :: "nat \<Rightarrow> byte list \<Rightarrow> (corrupt, hyper_tile_header \<times> byte list) result" where
  "tile_view i t =
    (let h = hyper_tile_header_of_bytes (window 0 512 t); len = unat (ht_payload_bytes h) in
     if len \<le> HYPER_TILE_PAYLOAD_SIZE then Ok (h, window 512 len t)
     else Err (corrupt_new i (CrPayloadTooLong len HYPER_TILE_PAYLOAD_SIZE)))"

definition tile_bytes :: "nat \<Rightarrow> byte list \<Rightarrow> byte list" where
  "tile_bytes i bs = window (512 + i * HYPER_TILE_SIZE) HYPER_TILE_SIZE bs"

lemma try_get_tile_unverified_view:
  assumes "i < reader_tile_count r" "512 + (i + 1) * HYPER_TILE_SIZE \<le> length (mr_mmap r)"
  shows "try_get_tile_unverified r i = tile_view i (tile_bytes i (mr_mmap r))"
proof -
  define off where "off = 512 + i * HYPER_TILE_SIZE"
  have off: "off mod 8 = 0" "512 + (i + 1) * HYPER_TILE_SIZE = off + HYPER_TILE_SIZE"
    by (simp_all add: off_def HYPER_TILE_SIZE_def mod_add_eq)
  have slot: "tile_slot r i FILE_HEADER_SIZE HYPER_TILE_SIZE HYPER_TILE_HEADER_SIZE = Ok (off, off + HYPER_TILE_SIZE)"
    using assms tile_slot_hyper [OF assms(1)] off(2) by (simp add: off_def)
  have hw: "window 0 512 (tile_bytes i (mr_mmap r)) = window off 512 (mr_mmap r)"
    by (simp add: tile_bytes_def window_window off_def HYPER_TILE_SIZE_def)
  define h where "h = hyper_tile_header_of_bytes (window off 512 (mr_mmap r))"
  define len where "len = unat (ht_payload_bytes h)"
  have i: "i < 2 ^ 32" using assms(1) by (rule reader_index_less)
  have len: "len < 2 ^ 32" unfolding len_def by (rule unat_u32_less)
  have no: "off + 512 + len < 2 ^ 64" using i len by (simp add: off_def HYPER_TILE_SIZE_def)
  have pw: "len \<le> HYPER_TILE_PAYLOAD_SIZE \<Longrightarrow> window 512 len (tile_bytes i (mr_mmap r)) = window (off + 512) len (mr_mmap r)"
    by (simp add: tile_bytes_def window_window off_def tile_sizes)
  have cap: "off + 512 + len \<le> off + HYPER_TILE_SIZE \<longleftrightarrow> len \<le> HYPER_TILE_PAYLOAD_SIZE"
    "off + HYPER_TILE_SIZE - (off + 512) = HYPER_TILE_PAYLOAD_SIZE" by (simp_all add: tile_sizes)
  have ps: "payload_slice r i (off + 512) len (off + HYPER_TILE_SIZE) =
      (if len \<le> HYPER_TILE_PAYLOAD_SIZE then Ok (window (off + 512) len (mr_mmap r))
       else Err (corrupt_new i (CrPayloadTooLong len HYPER_TILE_PAYLOAD_SIZE)))"
    using no cap by (simp add: payload_slice_def checked_add_def)
  show ?thesis
    unfolding try_get_tile_unverified_def slot
    unfolding tile_view_def hw HYPER_TILE_HEADER_SIZE_def Let_def h_def [symmetric] len_def [symmetric]
    using off(1) pw ps by (simp add: HYPER_TILE_HEADER_SIZE_def len_def [symmetric] h_def [symmetric])
qed

lemma try_get_tile_same:
  assumes "i < reader_tile_count r" "512 + (i + 1) * HYPER_TILE_SIZE \<le> length (mr_mmap r)"
    "i < reader_tile_count r'" "512 + (i + 1) * HYPER_TILE_SIZE \<le> length (mr_mmap r')"
    "tile_bytes i (mr_mmap r') = tile_bytes i (mr_mmap r)"
  shows "try_get_tile cc r' i = try_get_tile cc r i"
  by (simp only: try_get_tile_def try_get_tile_unverified_view [OF assms(1,2)] try_get_tile_unverified_view [OF assms(3,4)] assms(5))

lemma tile_view_image:
  assumes "hyper_tile_header_shape h" "length payload \<le> HYPER_TILE_PAYLOAD_SIZE" "ht_payload_bytes h = of_nat (length payload)"
  shows "tile_view i (tile_image h payload) = Ok (h, payload)"
proof -
  have "unat (ht_payload_bytes h) = length payload"
    using assms(2,3) by (simp add: unsigned_of_nat take_bit_nat_eq_self_iff tile_sizes)
  moreover have "window 0 512 (tile_image h payload) = hyper_tile_header_bytes h"
    using assms(1) by (simp add: tile_image_def window_append_here)
  moreover have "window 512 (length payload) (tile_image h payload) = payload"
    using assms(1) by (simp add: tile_image_def window_append_skip window_append_here)
  ultimately show ?thesis using assms(1,2) by (simp add: tile_view_def)
qed

lemma try_get_tile_image:
  assumes "i < reader_tile_count r" "512 + (i + 1) * HYPER_TILE_SIZE \<le> length (mr_mmap r)"
    "tile_bytes i (mr_mmap r) = tile_image h payload"
    "hyper_tile_header_shape h" "ht_header_crc32 h = compute_tile_header_crc32 cc h" "ht_data_crc32 h = cc_crc32c cc payload"
    "length payload \<le> HYPER_TILE_PAYLOAD_SIZE" "ht_payload_bytes h = of_nat (length payload)"
  shows "try_get_tile cc r i = Ok (h, payload)"
proof -
  have "try_get_tile_unverified r i = Ok (h, payload)"
    using try_get_tile_unverified_view [OF assms(1,2)] tile_view_image [OF assms(4,7,8)] assms(3) by simp
  moreover have "check_tile_header_crc cc h = Ok ()" using assms(5) by (simp add: check_tile_header_crc_def)
  ultimately show ?thesis using assms(6) by (simp add: try_get_tile_def)
qed


section \<open>Power cuts\<close>

text \<open>The slot that a commit overwrites is damaged, still the old one, or already the new one: what a
  checksum is for.\<close>

definition slot_detects :: "crc_crate \<Rightarrow> u64 \<Rightarrow> tile_writer \<Rightarrow> byte list \<Rightarrow> bool" where
  "slot_detects cc now w c \<longleftrightarrow>
    (let other = 1 - tw_active_slot w in
     \<not> verify_header_slot cc (slot_at other c) \<or>
     slot_at other c \<in> {slot_at other (df_bytes (tw_file w)), next_slot cc now (tw_tile_count w + 1) (tw_addon_mask w) w})"

definition ops_since :: "tile_writer \<Rightarrow> tile_writer \<Rightarrow> disk_op list" where
  "ops_since w w' = drop (length (df_log (tw_file w))) (df_log (tw_file w'))"

lemma next_slot_plain: "plain_header (tw_file_uuid w) n (next_slot cc now n m w)"
  by (simp add: plain_header_def)

lemma cut_in_commit:
  fixes cc now w h payload
  defines "bs \<equiv> df_bytes (tw_file w)" and "g \<equiv> next_slot cc now (tw_tile_count w + 1) (tw_addon_mask w) w"
    and "s \<equiv> tw_active_slot w" and "img \<equiv> tile_image h payload"
  assumes "tw_wf cc w" "hyper_tile_header_shape h" "length payload \<le> HYPER_TILE_PAYLOAD_SIZE" "commit_possible cc now w"
    "torn [DWrite (64 * (1 - s)) (file_header_bytes g)] (bs @ img) c" "slot_detects cc now w c"
  shows "archive_image cc c (tw_file_uuid w) (tw_tile_count w) (writer_tiles w) \<or>
    archive_image cc c (tw_file_uuid w) (tw_tile_count w + 1) (writer_tiles w @ img)"
proof -
  note wf = tw_wfD [OF assms(5), folded bs_def s_def]
  have g: "verify_header_slot cc g" "check_layout_fields g = Ok ()" "fh_generation (slot_at s bs) < fh_generation g"
    "length (fh_magic g) = 4" "plain_header (tw_file_uuid w) (tw_tile_count w + 1) g"
    using assms(8) wf(8) by (simp_all add: commit_possible_def g_def next_slot_valid next_slot_plain)
  have li: "length img = HYPER_TILE_SIZE" using assms(6,7) by (simp add: img_def length_tile_image)
  have len: "expected_size (tw_tile_count w + 1) = length (bs @ img)" "length (bs @ img) = expected_size (tw_tile_count w) + HYPER_TILE_SIZE"
    using expected_size_Suc assms(8) wf(3) li by (simp_all add: commit_possible_def)
  have hold: "holds_header cc (bs @ img) (slot_at s bs) s"
    using wf(2) by (intro holds_same_slots [OF wf(6)]) (simp_all add: window_append_inside)
  have d: "drop 512 (bs @ img) = writer_tiles w @ img" "drop 512 (take (expected_size (tw_tile_count w)) (bs @ img)) = writer_tiles w"
    using wf(2,3) by (simp_all add: writer_tiles_def bs_def)
  have "64 * (1 - s) + 64 \<le> length bs" using wf(2) by linarith
  then have "slot_at (1 - s) (bs @ img) = slot_at (1 - s) bs" by (simp add: slot_at_def window_append_inside)
  then have v: "verify_header_slot cc (slot_at (1 - s) c) \<Longrightarrow> slot_at (1 - s) c \<in> {slot_at (1 - s) (bs @ img), g}"
    using assms(10) by (auto simp: slot_detects_def Let_def bs_def s_def g_def)
  from cut_in_slot [OF hold wf(9) len(2) assms(9) g(4) g(1-3) g(5) len(1) v]
  show ?thesis unfolding d by (simp add: g_def)
qed

lemma finish_tile_power_cut:
  fixes cc now w h payload
  defines "r \<equiv> finish_tile cc now h payload w"
  assumes "tw_wf cc w" "hyper_tile_header_shape h" "ht_header_crc32 h = compute_tile_header_crc32 cc h"
    "ht_data_crc32 h = cc_crc32c cc payload" "length payload \<le> HYPER_TILE_PAYLOAD_SIZE" "commit_possible cc now w"
    "crash_image (df_bytes (tw_file w)) (ops_since w (snd r)) c" "slot_detects cc now w c"
  shows "archive_image cc c (tw_file_uuid w) (tw_tile_count w) (writer_tiles w) \<or>
    archive_image cc c (tw_file_uuid w) (tw_tile_count w + 1) (writer_tiles w @ tile_image h payload)"
proof -
  define bs g s where "bs = df_bytes (tw_file w)" and "g = next_slot cc now (tw_tile_count w + 1) (tw_addon_mask w) w"
    and "s = tw_active_slot w"
  have cp: "tw_generation w < tw_generation w + 1" "unat (tw_tile_count w) + 1 < 2 ^ 32" "fh_header_crc32 g \<noteq> 0"
    using assms(7) by (simp_all add: commit_possible_def g_def)
  from finish_tile_commits [OF assms(2-6) cp [unfolded g_def]] obtain w' where w': "r = (Ok (tw_current_tile_id w), w')"
    "tw_wf cc w'" "tw_tile_count w' = tw_tile_count w + 1" "tw_file_uuid w' = tw_file_uuid w"
    "df_bytes (tw_file w') = patch (64 * (1 - s)) (file_header_bytes g) (bs @ tile_image h payload)"
    "df_log (tw_file w') = df_log (tw_file w) @ tile_ops (length bs) h payload @ DSync # [DWrite (64 * (1 - s)) (file_header_bytes g), DSync]"
    unfolding r_def bs_def s_def g_def by metis
  have "crash_image bs (tile_ops (length bs) h payload @ DSync # [DWrite (64 * (1 - s)) (file_header_bytes g), DSync]) c"
    using assms(8) w'(1,6) by (simp add: ops_since_def bs_def)
  from crash_image_barrier [OF this tile_ops_behind(1)]
  show ?thesis unfolding fold_tile_ops [OF assms(3)]
  proof
    assume "torn (tile_ops (length bs) h payload) bs c"
    from cut_in_tile [OF assms(2) this [unfolded bs_def]] show ?thesis ..
  next
    assume "crash_image (bs @ tile_image h payload) [DWrite (64 * (1 - s)) (file_header_bytes g), DSync] c"
    then have k: "crash_image (bs @ tile_image h payload) ([DWrite (64 * (1 - s)) (file_header_bytes g)] @ DSync # []) c" by simp
    have s: "s < 2" "512 \<le> length (bs @ tile_image h payload)" using tw_wfD(1,2) [OF assms(2)] by (simp_all add: s_def bs_def)
    have l: "64 * (1 - s) + length (file_header_bytes g) \<le> length (bs @ tile_image h payload)"
      using s by (simp add: g_def)
    from crash_image_barrier [OF k] crash_image_Nil file_write_inside [OF l] w'(5)
    consider "torn [DWrite (64 * (1 - s)) (file_header_bytes g)] (bs @ tile_image h payload) c" | "c = df_bytes (tw_file w')"
      by fastforce
    then show ?thesis
    proof cases
      case 1
      from cut_in_commit [OF assms(2,3,6,7) this [unfolded bs_def g_def s_def] assms(9)] show ?thesis .
    next
      case 2
      have "writer_tiles w' = writer_tiles w @ tile_image h payload"
        using drop_patch_slot [OF s, of "file_header_bytes g"] tw_wfD(2) [OF assms(2)]
        by (simp add: writer_tiles_def w'(5) g_def) (simp add: bs_def)
      with tw_wf_image [OF w'(2)] w'(3,4) 2 show ?thesis by simp
    qed
  qed
qed


section \<open>The two ways to write a tile\<close>

definition ext_tile_ok :: "tile_type_registry \<Rightarrow> u32 \<Rightarrow> byte list \<Rightarrow> simplex_hull option \<Rightarrow> tile_writer \<Rightarrow> bool" where
  "ext_tile_ok registry tile_type record_bytes hull w \<longleftrightarrow>
    write_gate registry tile_type (target_version_of registry tile_type) (tw_addon_mask w) = Ok () \<and>
    length record_bytes \<le> HYPER_TILE_PAYLOAD_SIZE \<and> (case hull of Some h \<Rightarrow> simplex_hull_shape h | None \<Rightarrow> True)"

lemma stamp_shapes:
  "hyper_tile_header_shape g \<Longrightarrow> hyper_tile_header_shape (stamp_range ts g)"
  "hyper_tile_header_shape g \<Longrightarrow> case hull of Some h \<Rightarrow> simplex_hull_shape h | None \<Rightarrow> True \<Longrightarrow> hyper_tile_header_shape (stamp_hull hull g)"
  "hyper_tile_header_shape g \<Longrightarrow> hyper_tile_header_shape (stamp_digest cc bs g)"
  "hyper_tile_header_shape g \<Longrightarrow> hyper_tile_header_shape (stamp_learned_index ratio n ts g)"
  "hyper_tile_header_shape g \<Longrightarrow> hyper_tile_header_shape (stamp_filter ks g)"
  by (auto simp: stamp_range_def stamp_hull_def stamp_digest_def stamp_learned_index_def stamp_filter_def
      hyper_tile_header_shape_def Let_def split: option.splits prod.splits)

lemma stamp_fields:
  "ht_data_crc32 (stamp_filter ks g) = ht_data_crc32 g" "ht_data_crc32 (stamp_learned_index ratio n ts g) = ht_data_crc32 g"
  "ht_data_crc32 (stamp_digest cc bs g) = cc_crc32c cc bs"
  "ht_payload_bytes (stamp_filter ks g) = ht_payload_bytes g" "ht_payload_bytes (stamp_learned_index ratio n ts g) = ht_payload_bytes g"
  "ht_payload_bytes (stamp_digest cc bs g) = ht_payload_bytes g" "ht_payload_bytes (stamp_hull hull g) = ht_payload_bytes g"
  "ht_payload_bytes (stamp_range ts g) = ht_payload_bytes g"
  "ht_filter (stamp_filter ks g) = (ht_filter g)\<lparr> ft_bits :=
     fold (\<lambda>k. bloom_filter_insert k (ft_hash_seed (ht_filter g))) (fst ks) (ft_bits (ht_filter g)) \<rparr>"
  "ht_filter (stamp_learned_index ratio n ts g) = ht_filter g" "ht_filter (stamp_digest cc bs g) = ht_filter g"
  "ht_filter (stamp_hull hull g) = ht_filter g" "ht_filter (stamp_range ts g) = ht_filter g"
  by (simp_all add: stamp_range_def stamp_hull_def stamp_digest_def stamp_learned_index_def stamp_filter_def Let_def
      split: option.splits prod.splits)

lemma ext_tile_finishable:
  fixes cc ratio ty v n al bs ts hull ks w
  assumes "case hull of Some h \<Rightarrow> simplex_hull_shape h | None \<Rightarrow> True"
  defines "g \<equiv> ext_tile_header cc ratio ty v n al bs ts hull ks w"
  shows "hyper_tile_header_shape g" "ht_header_crc32 g = compute_tile_header_crc32 cc g" "ht_data_crc32 g = cc_crc32c cc bs"
    "ht_payload_bytes g = of_nat (length bs)" "ht_filter g = tile_filter_default\<lparr> ft_bits :=
      fold (\<lambda>k. bloom_filter_insert k (ft_hash_seed tile_filter_default)) (fst (tile_keys ty ks al bs)) (ft_bits tile_filter_default) \<rparr>"
proof -
  define g0 where "g0 = stamp_filter (tile_keys ty ks al bs) (stamp_learned_index ratio n ts (stamp_digest cc bs (stamp_hull hull
    (stamp_range ts ((hyper_tile_header_new v (tw_current_tile_id w) ty)
      \<lparr> ht_record_count := of_nat n, ht_payload_bytes := of_nat (length bs), ht_generation := tw_generation w,
        ht_tile_index := tw_tile_count w, ht_file_uuid := tw_file_uuid w, ht_record_layout_version := v \<rparr>)))))"
  have "g = g0\<lparr> ht_header_crc32 := compute_tile_header_crc32 cc g0 \<rparr>"
    unfolding g_def g0_def ext_tile_header_def Let_def ..
  moreover have "hyper_tile_header_shape g0" unfolding g0_def
    by (intro stamp_shapes assms(1)) (simp add: hyper_tile_header_new_def hyper_tile_header_shape_def simplex_hull_shape_def
      simplex_hull_empty_def tile_filter_default_def tile_security_default_def)
  moreover have "ht_data_crc32 g0 = cc_crc32c cc bs" "ht_payload_bytes g0 = of_nat (length bs)"
    "ht_filter g0 = tile_filter_default\<lparr> ft_bits :=
      fold (\<lambda>k. bloom_filter_insert k (ft_hash_seed tile_filter_default)) (fst (tile_keys ty ks al bs)) (ft_bits tile_filter_default) \<rparr>"
    by (simp_all add: g0_def stamp_fields) (simp add: hyper_tile_header_new_def)
  ultimately show "hyper_tile_header_shape g" "ht_header_crc32 g = compute_tile_header_crc32 cc g" "ht_data_crc32 g = cc_crc32c cc bs"
    "ht_payload_bytes g = of_nat (length bs)" "ht_filter g = tile_filter_default\<lparr> ft_bits :=
      fold (\<lambda>k. bloom_filter_insert k (ft_hash_seed tile_filter_default)) (fst (tile_keys ty ks al bs)) (ft_bits tile_filter_default) \<rparr>"
    by simp_all
qed


inductive tile_write ::
  "crc_crate \<Rightarrow> tile_type_registry \<Rightarrow> (u64 \<Rightarrow> u64 \<Rightarrow> u32) \<Rightarrow> u64 \<Rightarrow> tile_writer \<Rightarrow> hyper_tile_header \<Rightarrow> byte list \<Rightarrow>
   tile_writer \<Rightarrow> bool"
  for cc registry ratio now w
where
  raw: "tile_write cc registry ratio now w (raw_tile_header cc h payload w) payload
      (snd (write_raw_hyper_tile cc registry now h payload w))"
    if "raw_tile_ok cc registry h payload w" "commit_possible cc now w"
| ext: "tile_write cc registry ratio now w
      (ext_tile_header cc ratio ty (target_version_of registry ty) n al bs ts hull ks w) bs
      (snd (write_hyper_tile_ext cc registry ratio now ty n al bs ts hull ks w))"
    if "ext_tile_ok registry ty bs hull w" "commit_possible cc now w"

lemma write_ext_finish:
  assumes "ext_tile_ok registry ty bs hull w"
  shows "write_hyper_tile_ext cc registry ratio now ty n al bs ts hull ks w =
    finish_tile cc now (ext_tile_header cc ratio ty (target_version_of registry ty) n al bs ts hull ks w) bs w"
  using assms by (simp add: write_hyper_tile_ext_def ext_tile_ok_def)

lemma tile_write_finish:
  assumes "tile_write cc registry ratio now w g payload w'"
  shows "hyper_tile_header_shape g \<and> ht_header_crc32 g = compute_tile_header_crc32 cc g \<and>
    ht_data_crc32 g = cc_crc32c cc payload \<and> length payload \<le> HYPER_TILE_PAYLOAD_SIZE \<and>
    ht_payload_bytes g = of_nat (length payload) \<and> commit_possible cc now w \<and> w' = snd (finish_tile cc now g payload w)"
  using assms
proof cases
  case (raw h)
  then show ?thesis using raw_tile_finishable [OF raw(3)] write_raw_finish [OF raw(3)] by simp
next
  case (ext ty hull n al ts ks)
  have h: "case hull of Some h \<Rightarrow> simplex_hull_shape h | None \<Rightarrow> True" "length payload \<le> HYPER_TILE_PAYLOAD_SIZE"
    using ext(3) by (simp_all add: ext_tile_ok_def)
  show ?thesis
    unfolding ext(1,2) write_ext_finish [OF ext(3)]
    by (intro conjI ext_tile_finishable(1-4) h ext(4) refl)
qed

lemmas tile_writeD = tile_write_finish [THEN conjunct1]
  tile_write_finish [THEN conjunct2, THEN conjunct1]
  tile_write_finish [THEN conjunct2, THEN conjunct2, THEN conjunct1]
  tile_write_finish [THEN conjunct2, THEN conjunct2, THEN conjunct2, THEN conjunct1]
  tile_write_finish [THEN conjunct2, THEN conjunct2, THEN conjunct2, THEN conjunct2, THEN conjunct1]
  tile_write_finish [THEN conjunct2, THEN conjunct2, THEN conjunct2, THEN conjunct2, THEN conjunct2, THEN conjunct1]
  tile_write_finish [THEN conjunct2, THEN conjunct2, THEN conjunct2, THEN conjunct2, THEN conjunct2, THEN conjunct2]

lemma tile_write_commits:
  assumes "tw_wf cc w" "tile_write cc registry ratio now w g payload w'"
  shows "tw_wf cc w'" "tw_tile_count w' = tw_tile_count w + 1" "unat (tw_tile_count w') = unat (tw_tile_count w) + 1"
    "tw_file_uuid w' = tw_file_uuid w"
    "writer_tiles w' = writer_tiles w @ tile_image g payload"
proof -
  note t = tile_writeD [OF assms(2)]
  have cp: "tw_generation w < tw_generation w + 1" "unat (tw_tile_count w) + 1 < 2 ^ 32"
    "fh_header_crc32 (next_slot cc now (tw_tile_count w + 1) (tw_addon_mask w) w) \<noteq> 0"
    using t(6) by (simp_all add: commit_possible_def)
  from finish_tile_commits [OF assms(1) t(1-4) cp] have w': "tw_wf cc w'" "tw_tile_count w' = tw_tile_count w + 1"
    "tw_file_uuid w' = tw_file_uuid w" "df_bytes (tw_file w') = patch (64 * (1 - tw_active_slot w))
      (file_header_bytes (next_slot cc now (tw_tile_count w + 1) (tw_addon_mask w) w)) (df_bytes (tw_file w) @ tile_image g payload)"
    unfolding t(7) by (metis snd_conv)+
  show "tw_wf cc w'" "tw_tile_count w' = tw_tile_count w + 1" "tw_file_uuid w' = tw_file_uuid w" by fact+
  show "unat (tw_tile_count w') = unat (tw_tile_count w) + 1" using cp(2) w'(2) by (simp add: unat_word_ariths)
  note wf = tw_wfD(1,2) [OF assms(1)]
  have "512 \<le> length (df_bytes (tw_file w) @ tile_image g payload)" using wf(2) by simp
  from drop_patch_slot [OF wf(1) this] wf(2)
  show "writer_tiles w' = writer_tiles w @ tile_image g payload" by (simp add: writer_tiles_def w'(4))
qed

lemma tile_write_counters:
  assumes "tw_wf cc w" "tile_write cc registry ratio now w g payload w'"
  shows "tw_generation w' = tw_generation w + 1" "tw_created_timestamp w' = tw_created_timestamp w"
    "tw_addon_mask w' = tw_addon_mask w"
proof -
  note t = tile_writeD [OF assms(2)]
  obtain f where "w' = (commit_header_slot cc now (tw_tile_count w + 1) (tw_addon_mask w) (w\<lparr>tw_file := f\<rparr>))
      \<lparr>tw_current_tile_id := tw_current_tile_id w + 1\<rparr>"
    unfolding t(7) by (rule finish_tile_Ok [OF assms(1) t(1-4), of now]) simp
  then show "tw_generation w' = tw_generation w + 1" "tw_created_timestamp w' = tw_created_timestamp w"
    "tw_addon_mask w' = tw_addon_mask w"
    by (simp_all add: commit_header_slot_def Let_def)
qed

section \<open>Addons\<close>

definition addon_possible :: "crc_crate \<Rightarrow> u64 \<Rightarrow> u32 \<Rightarrow> tile_writer \<Rightarrow> bool" where
  "addon_possible cc now m w \<longleftrightarrow> tw_generation w < tw_generation w + 1 \<and>
    fh_header_crc32 (next_slot cc now (tw_tile_count w) (tw_addon_mask w OR m) w) \<noteq> 0"

lemma enable_addon_keeps:
  assumes "tw_wf cc w" "addon_possible cc now m w"
  shows "tw_wf cc (enable_addon cc now m w)" "tw_tile_count (enable_addon cc now m w) = tw_tile_count w"
    "tw_file_uuid (enable_addon cc now m w) = tw_file_uuid w" "tw_addon_mask (enable_addon cc now m w) = tw_addon_mask w OR m"
    "writer_tiles (enable_addon cc now m w) = writer_tiles w"
proof -
  note wf = tw_wfD [OF assms(1)]
  let ?g = "next_slot cc now (tw_tile_count w) (tw_addon_mask w OR m) w"
  note c = commit_header_slot_simps [OF wf(1,2), of cc now "tw_tile_count w" "tw_addon_mask w OR m", folded enable_addon_def]
  have hold: "holds_header cc (df_bytes (tw_file (enable_addon cc now m w))) ?g (1 - tw_active_slot w)"
    unfolding c(1) by (rule holds_patched [OF wf(6)]) (use wf(8) assms(2) in \<open>simp_all add: addon_possible_def next_slot_valid\<close>)
  then have "slot_at (1 - tw_active_slot w) (df_bytes (tw_file (enable_addon cc now m w))) = ?g" by (simp add: holds_header_def)
  moreover have "length (df_bytes (tw_file (enable_addon cc now m w))) = length (df_bytes (tw_file w))"
    using wf(1,2) by (simp add: c(1))
  ultimately show "tw_wf cc (enable_addon cc now m w)" using hold wf(3,5) by (simp add: tw_wf_def c(2-))
  show "writer_tiles (enable_addon cc now m w) = writer_tiles w"
    using drop_patch_slot [OF wf(1,2), of "file_header_bytes ?g"] by (simp add: writer_tiles_def c(1))
qed (simp_all add: enable_addon_def commit_header_slot_def Let_def)

section \<open>Runs with power cuts\<close>

text \<open>A step is a write, an addon, a clean restart, or a power cut during a write followed by a restart.\<close>

inductive archive_step ::
  "crc_crate \<Rightarrow> tile_type_registry \<Rightarrow> (u64 \<Rightarrow> u64 \<Rightarrow> u32) \<Rightarrow> tile_writer \<Rightarrow> tile_writer \<Rightarrow> bool"
  for cc registry ratio
where
  step_write: "archive_step cc registry ratio w w'" if "tile_write cc registry ratio now w g payload w'"
| step_addon: "archive_step cc registry ratio w (enable_addon cc now m w)" if "addon_possible cc now m w"
| step_restart: "archive_step cc registry ratio w w'" if "open_append cc (df_bytes (tw_file w)) = Ok w'"
| step_cut: "archive_step cc registry ratio w w''"
    if "tile_write cc registry ratio now w g payload w'" "crash_image (df_bytes (tw_file w)) (ops_since w w') c"
      "slot_detects cc now w c" "open_append cc c = Ok w''"

lemma archive_step_extends:
  assumes "archive_step cc registry ratio w w'" "tw_wf cc w"
  shows "tw_wf cc w' \<and> tw_file_uuid w' = tw_file_uuid w \<and> (\<exists>more. writer_tiles w' = writer_tiles w @ more)"
  using assms(1)
proof cases
  case (step_write now g payload)
  from tile_write_commits [OF assms(2) this] show ?thesis by simp
next
  case (step_addon now m)
  with enable_addon_keeps [OF assms(2), of now m] show ?thesis by simp
next
  case step_restart
  obtain u where "open_append cc (df_bytes (tw_file w)) = Ok u" "tw_wf cc u" "tw_file_uuid u = tw_file_uuid w"
    "writer_tiles u = writer_tiles w" by (rule archive_image_reopens [OF tw_wf_image [OF assms(2)]])
  with step_restart show ?thesis by simp
next
  case (step_cut now g payload w1 c)
  note t = tile_writeD [OF step_cut(1)]
  from finish_tile_power_cut [OF assms(2) t(1-4,6) step_cut(2) [unfolded t(7)] step_cut(3)]
  obtain n tiles where "archive_image cc c (tw_file_uuid w) n tiles" "\<exists>more. tiles = writer_tiles w @ more"
    by (metis append_Nil2)
  moreover obtain u where "open_append cc c = Ok u" "tw_wf cc u" "tw_file_uuid u = tw_file_uuid w" "writer_tiles u = tiles"
    by (rule archive_image_reopens [OF calculation(1)])
  ultimately show ?thesis using step_cut(4) by simp
qed

lemma archive_run_extends:
  assumes "(archive_step cc registry ratio)\<^sup>*\<^sup>* w w'" "tw_wf cc w"
  shows "tw_wf cc w' \<and> tw_file_uuid w' = tw_file_uuid w \<and> (\<exists>more. writer_tiles w' = writer_tiles w @ more)"
  using assms
proof (induction rule: rtranclp_induct)
  case (step y z)
  then have "tw_wf cc y" "tw_file_uuid y = tw_file_uuid w" "\<exists>more. writer_tiles y = writer_tiles w @ more" by auto
  with archive_step_extends [OF step.hyps(2)] show ?case by (metis append_assoc)
qed simp


section \<open>Reading what was written\<close>

lemma reader_of_writer:
  assumes "tw_wf cc w"
  shows "reader_open cc (df_bytes (tw_file w)) = Ok \<lparr> mr_mmap = df_bytes (tw_file w),
    mr_active_header = slot_at (tw_active_slot w) (df_bytes (tw_file w)), mr_active_slot = tw_active_slot w \<rparr>"
proof -
  note wf = tw_wfD [OF assms]
  let ?h = "slot_at (tw_active_slot w) (df_bytes (tw_file w))"
  have e: "\<not> is_edge_profile ?h" using wf(9) by (simp add: is_edge_profile_def plain_header_def)
  have "unat (fh_tile_count ?h) < 2 ^ 32" by (rule unat_u32_less)
  then have "Option.bind (checked_mul (unat (fh_tile_count ?h)) HYPER_TILE_SIZE) (\<lambda>n. checked_add n 512) \<noteq> None"
    by (simp add: checked_mul_def checked_add_def HYPER_TILE_SIZE_def)
  then show ?thesis using wf(2) resolve_holds [OF wf(6)] e
    by (auto simp: reader_open_def tile_sizes split: option.splits)
qed

lemma tile_bytes_writer: "tile_bytes i (df_bytes (tw_file w)) = window (i * HYPER_TILE_SIZE) HYPER_TILE_SIZE (writer_tiles w)"
  by (simp add: tile_bytes_def writer_tiles_def window_def add.commute)

lemma length_writer_tiles: "tw_wf cc w \<Longrightarrow> length (writer_tiles w) = unat (tw_tile_count w) * HYPER_TILE_SIZE"
  using tw_wfD(3) [of cc w] by (simp add: writer_tiles_def expected_size_def)

text \<open>A dual header with an unwritten slot B.\<close>

lemma dual_holds:
  assumes "verify_header_slot cc h" "check_layout_fields h = Ok ()"
  shows "holds_header cc (archive_dual_header_bytes h) h 0" "length (archive_dual_header_bytes h) = 512"
proof -
  have m: "length (fh_magic h) = 4" using assms(1) by (auto simp: verify_header_slot_def archive_header_verify_def split: if_splits)
  show l: "length (archive_dual_header_bytes h) = 512" using m by (simp add: archive_dual_header_bytes_def file_header_zeroed_def)
  have a: "slot_at 0 (archive_dual_header_bytes h) = h"
    using m by (simp add: slot_at_def archive_dual_header_bytes_def window_append_here)
  have b: "slot_at 1 (archive_dual_header_bytes h) = file_header_zeroed"
    using m by (simp add: slot_at_def archive_dual_header_bytes_def window_append_skip window_append_here file_header_zeroed_def)
  have "\<not> verify_header_slot cc file_header_zeroed" by (simp add: verify_header_slot_def file_header_zeroed_def)
  then show "holds_header cc (archive_dual_header_bytes h) h 0" using l a b assms by (simp add: holds_header_def)
qed

text \<open>A fresh archive satisfies the invariant, unless its header has checksum zero.\<close>

definition first_slot :: "crc_crate \<Rightarrow> u64 \<Rightarrow> u64 \<times> u64 \<Rightarrow> archive_header" where
  "first_slot cc now uuid =
    (let h = (with_file_uuid uuid (archive_header_new 0 now))\<lparr> fh_generation := 1 \<rparr>
     in h\<lparr> fh_header_crc32 := compute_header_crc32 cc h \<rparr>)"

lemma first_slot_simps [simp]:
  "fh_magic (first_slot cc now uuid) = S3A_MAGIC" "fh_version (first_slot cc now uuid) = 1"
  "fh_flags (first_slot cc now uuid) = 0" "fh_generation (first_slot cc now uuid) = 1"
  "fh_tile_count (first_slot cc now uuid) = 0" "fh_tile_stride (first_slot cc now uuid) = 0"
  "fh_created_timestamp (first_slot cc now uuid) = now" "fh_addon_mask (first_slot cc now uuid) = 0"
  "fh_file_uuid (first_slot cc now uuid) = uuid"
  by (simp_all add: first_slot_def Let_def with_file_uuid_def archive_header_new_def)

lemma first_slot_crc: "fh_header_crc32 (first_slot cc now uuid) = compute_header_crc32 cc (first_slot cc now uuid)"
proof -
  define h where "h = (with_file_uuid uuid (archive_header_new 0 now))\<lparr> fh_generation := 1 \<rparr>"
  have f: "first_slot cc now uuid = h\<lparr> fh_header_crc32 := compute_header_crc32 cc h \<rparr>"
    by (simp only: first_slot_def h_def Let_def)
  have "length (fh_magic h) = 4" by (simp add: h_def with_file_uuid_def archive_header_new_def)
  then show ?thesis by (simp add: f)
qed

lemma create_wf:
  assumes "fh_header_crc32 (first_slot cc now uuid) \<noteq> 0"
  shows "tw_wf cc (create_with_uuid cc now uuid)" "tw_tile_count (create_with_uuid cc now uuid) = 0"
    "tw_generation (create_with_uuid cc now uuid) = 1" "tw_created_timestamp (create_with_uuid cc now uuid) = now"
    "tw_addon_mask (create_with_uuid cc now uuid) = 0" "tw_file_uuid (create_with_uuid cc now uuid) = uuid"
    "writer_tiles (create_with_uuid cc now uuid) = []"
proof -
  let ?g = "first_slot cc now uuid"
  let ?bs = "archive_dual_header_bytes ?g"
  have w: "df_bytes (tw_file (create_with_uuid cc now uuid)) = ?bs" "df_pos (tw_file (create_with_uuid cc now uuid)) = length ?bs"
    using file_write_end [of "[]" ?bs] by (simp_all add: create_with_uuid_def first_slot_def Let_def)
  have v: "verify_header_slot cc ?g" using first_slot_crc [of cc now uuid] assms
    by (simp add: verify_header_slot_def archive_header_verify_def)
  have f: "check_layout_fields ?g = Ok ()" by (simp add: check_layout_fields_def VALID_TILE_STRIDES_def)
  note h = dual_holds(1) [OF v f] and l = dual_holds(2) [OF v f]
  have a: "slot_at 0 ?bs = ?g" using h by (simp add: holds_header_def)
  show "tw_tile_count (create_with_uuid cc now uuid) = 0"
    "tw_generation (create_with_uuid cc now uuid) = 1" "tw_created_timestamp (create_with_uuid cc now uuid) = now"
    "tw_addon_mask (create_with_uuid cc now uuid) = 0" "tw_file_uuid (create_with_uuid cc now uuid) = uuid"
    by (simp_all add: create_with_uuid_def Let_def)
  then show "tw_wf cc (create_with_uuid cc now uuid)"
    using w l a h by (simp add: tw_wf_def expected_size_def) (simp add: create_with_uuid_def Let_def a)
  show "writer_tiles (create_with_uuid cc now uuid) = []" using w l by (simp add: writer_tiles_def)
qed

text \<open>C2: durability.  A tile whose typed write returned, or whose raw write returned and whose given payload length and payload
  checksum, where they are not 0, are those of the payload (the raw write keeps wrong ones), is read back, header and payload exactly as
  written, after any later run of such writes, addon changes, restarts, and power cuts in the middle of a write that leave any mixture
  of the bytes being written on the disk.  No counter may wrap in a commit, and the checksum of a header slot must not come out as 0,
  which readers take for a missing header: the writer does not check either.  A half-overwritten header slot is taken to fail its checksum.\<close>

theorem written_tile_survives:
  assumes "tw_wf cc w" "tile_write cc registry ratio now w g payload w1"
    "(archive_step cc registry ratio)\<^sup>*\<^sup>* w1 w2"
  shows "\<exists>r. reader_open cc (df_bytes (tw_file w2)) = Ok r \<and> try_get_tile cc r (unat (tw_tile_count w)) = Ok (g, payload)"
proof -
  note w1 = tile_write_commits [OF assms(1,2)]
  note t = tile_writeD [OF assms(2)]
  from archive_run_extends [OF assms(3) w1(1)] obtain more where w2: "tw_wf cc w2" "writer_tiles w2 = writer_tiles w1 @ more" by auto
  define i where "i = unat (tw_tile_count w)"
  define r where "r = \<lparr> mr_mmap = df_bytes (tw_file w2), mr_active_header = slot_at (tw_active_slot w2) (df_bytes (tw_file w2)),
    mr_active_slot = tw_active_slot w2 \<rparr>"
  have l: "length (writer_tiles w) = i * HYPER_TILE_SIZE" "length (tile_image g payload) = HYPER_TILE_SIZE"
    using length_writer_tiles [OF assms(1)] length_tile_image [OF t(1,4)] by (simp_all add: i_def)
  have "(i + 1) * HYPER_TILE_SIZE \<le> length (writer_tiles w2)" using w2(2) w1(5) l by simp
  then have "i + 1 \<le> unat (tw_tile_count w2)" unfolding length_writer_tiles [OF w2(1)]
    by (simp only: mult_le_cancel2) (simp add: HYPER_TILE_SIZE_def)
  then have "i < reader_tile_count r" using tw_wfD(7) [OF w2(1)] by (simp add: reader_tile_count_def r_def)
  moreover have "512 + (i + 1) * HYPER_TILE_SIZE \<le> length (mr_mmap r)"
    using \<open>(i + 1) * HYPER_TILE_SIZE \<le> length (writer_tiles w2)\<close> tw_wfD(2) [OF w2(1)] by (simp add: writer_tiles_def r_def)
  moreover have "tile_bytes i (mr_mmap r) = tile_image g payload"
    by (simp add: r_def tile_bytes_writer w2(2) w1(5) window_append_skip l window_append_here)
  ultimately have "try_get_tile cc r i = Ok (g, payload)" using t(1-5) by (intro try_get_tile_image)
  with reader_of_writer [OF w2(1)] show ?thesis by (simp add: r_def i_def)
qed

text \<open>C3: a power cut in the middle of a write is all or nothing.  Whatever mixture of the written
  bytes the disk holds, recovery succeeds and yields the tiles from before the write, or those
  and the complete new tile, under the same file identity.\<close>

theorem write_power_cut:
  assumes "tw_wf cc w" "tile_write cc registry ratio now w g payload w1"
    "crash_image (df_bytes (tw_file w)) (ops_since w w1) c" "slot_detects cc now w c"
  shows "\<exists>h bs. recover_archive cc path (Some c) = Ok (h, bs) \<and> fh_file_uuid h = tw_file_uuid w \<and>
    (fh_tile_count h, drop 512 bs) \<in>
      {(tw_tile_count w, writer_tiles w), (tw_tile_count w + 1, writer_tiles w @ tile_image g payload)}"
proof -
  note t = tile_writeD [OF assms(2)]
  from finish_tile_power_cut [OF assms(1) t(1-4,6) assms(3) [unfolded t(7)] assms(4)]
  obtain n tiles where i: "archive_image cc c (tw_file_uuid w) n tiles"
    "(n, tiles) \<in> {(tw_tile_count w, writer_tiles w), (tw_tile_count w + 1, writer_tiles w @ tile_image g payload)}" by auto
  obtain h bs where "recover_archive cc path (Some c) = Ok (h, bs)" "plain_header (tw_file_uuid w) n h" "drop 512 bs = tiles"
    by (rule archive_image_recovers [OF i(1)])
  with i(2) show ?thesis unfolding plain_header_def by blast
qed


section \<open>Instances\<close>

text \<open>The checksum of the edge crate, which is CRC-32C as well, stands for the one of the \<^verbatim>\<open>crc32c\<close> crate.\<close>

definition castagnoli :: crc_crate where
  "castagnoli = \<lparr> cc_crc32c = crc32c, cc_append = crc32c_append \<rparr>"

definition sample_writer :: tile_writer where
  "sample_writer = create_with_uuid castagnoli 7 (1, 2)"

definition sample_tile :: hyper_tile_header where
  "sample_tile = hyper_tile_header_new 1 0 99"

lemma castagnoli_header: "compute_header_crc32 castagnoli h = compute_file_header_crc32 h"
  by (simp add: compute_header_crc32_def compute_file_header_crc32_def castagnoli_def)

lemma sample_first_slot: "fh_header_crc32 (first_slot castagnoli 7 (1, 2)) \<noteq> 0"
  unfolding first_slot_def Let_def castagnoli_header
  by (simp add: header_eval with_file_uuid_def archive_header_new_def)


lemmas sample_created = create_wf [OF sample_first_slot, folded sample_writer_def]

lemma sample_commit: "commit_possible castagnoli 9 sample_writer"
proof -
  have "fh_header_crc32 (next_slot castagnoli 9 1 0 sample_writer) \<noteq> 0"
    unfolding next_slot_def Let_def castagnoli_header
    by (simp add: sample_created header_eval archive_header_with_commit_def)
  then show ?thesis by (simp add: commit_possible_def sample_created)
qed

lemma sample_raw_ok: "raw_tile_ok castagnoli [] sample_tile [1, 2, 3] sample_writer"
proof -
  have "write_gate [] 99 1 0 = Ok ()" by code_simp
  then show ?thesis
    by (simp add: raw_tile_ok_def sample_created sample_tile_def tile_sizes)
      (simp add: hyper_tile_header_new_def)
qed

lemmas sample_write = tile_write.raw [OF sample_raw_ok sample_commit]

text \<open>A second write, cut off by a power loss before any of its bytes reached the disk, and the restart.\<close>

definition first_written :: tile_writer where
  "first_written = snd (write_raw_hyper_tile castagnoli [] 9 sample_tile [1, 2, 3] sample_writer)"

lemmas first_write = sample_write [where ratio = "\<lambda>_ _. 0", folded first_written_def]
  and first_written_wf = tile_write_commits [OF sample_created(1) sample_write, folded first_written_def]
  and first_written_counters = tile_write_counters [OF sample_created(1) sample_write, folded first_written_def]

lemma second_write_ok: "raw_tile_ok castagnoli [] sample_tile [4] first_written" "commit_possible castagnoli 11 first_written"
proof -
  have "write_gate [] 99 1 0 = Ok ()" by code_simp
  then show "raw_tile_ok castagnoli [] sample_tile [4] first_written"
    by (simp add: raw_tile_ok_def first_written_counters sample_created sample_tile_def tile_sizes)
      (simp add: hyper_tile_header_new_def)
  have "fh_header_crc32 (next_slot castagnoli 11 2 0 first_written) \<noteq> 0"
    unfolding next_slot_def Let_def castagnoli_header
    by (simp add: first_written_wf first_written_counters sample_created header_eval archive_header_with_commit_def)
  then show "commit_possible castagnoli 11 first_written"
    by (simp add: commit_possible_def first_written_wf first_written_counters sample_created)
qed

lemma second_write_cut:
  obtains w2 where "archive_step castagnoli [] (\<lambda>_ _. 0) first_written w2"
    "open_append castagnoli (df_bytes (tw_file first_written)) = Ok w2"
proof -
  let ?bs = "df_bytes (tw_file first_written)"
  obtain w2 where w2: "open_append castagnoli ?bs = Ok w2"
    by (rule archive_image_reopens [OF tw_wf_image [OF first_written_wf(1)]])
  have "crash_image ?bs ops ?bs" for ops
    unfolding crash_image_def by (intro exI [of _ "[]"] exI [of _ ops]) simp
  moreover have "slot_detects castagnoli 11 first_written ?bs" by (simp add: slot_detects_def Let_def)
  ultimately have "archive_step castagnoli [] (\<lambda>_ _. 0) first_written w2"
    by (intro archive_step.step_cut [OF tile_write.raw [OF second_write_ok] _ _ w2])
  from that [OF this w2] show thesis .
qed

theorem written_tile_survives_witness:
  "\<exists>w2 r. archive_step castagnoli [] (\<lambda>_ _. 0) first_written w2 \<and> reader_open castagnoli (df_bytes (tw_file w2)) = Ok r \<and>
    try_get_tile castagnoli r 0 = Ok (raw_tile_header castagnoli sample_tile [1, 2, 3] sample_writer, [1, 2, 3])"
proof -
  obtain w2 where w2: "archive_step castagnoli [] (\<lambda>_ _. 0) first_written w2" by (rule second_write_cut)
  from written_tile_survives [OF sample_created(1) first_write r_into_rtranclp [of "archive_step castagnoli [] (\<lambda>_ _. 0)", OF w2]] w2 show ?thesis
    by (auto simp: sample_created(2))
qed

theorem write_power_cut_witness:
  "\<exists>h bs. recover_archive castagnoli ''a.s3a'' (Some (df_bytes (tw_file sample_writer))) = Ok (h, bs) \<and>
    fh_file_uuid h = (1, 2) \<and> (fh_tile_count h, drop 512 bs) \<in>
      {(0, []), (1, tile_image (raw_tile_header castagnoli sample_tile [1, 2, 3] sample_writer) [1, 2, 3])}"
proof -
  have "crash_image (df_bytes (tw_file sample_writer)) ops (df_bytes (tw_file sample_writer))" for ops
    unfolding crash_image_def by (intro exI [of _ "[]"] exI [of _ ops]) simp
  moreover have "slot_detects castagnoli 9 sample_writer (df_bytes (tw_file sample_writer))" by (simp add: slot_detects_def Let_def)
  ultimately show ?thesis
    using write_power_cut [OF sample_created(1) sample_write, of _ "''a.s3a''"] by (simp add: sample_created)
qed

end
