(* ===== verification/Engine_Archive_Checks.thy ===== *)
theory Engine_Archive_Checks
  imports Engine_Durability
begin

text \<open>
  What the reader lets through, and where the archive falls short: tiles are delivered within
  their slot and with matching checksums, a verified archive is readable throughout, a written
  identifier is never filtered out, a commit whose checksum comes out as zero is lost, and changing
  the addons of an edge archive through the engine turns it into something the reader cannot interpret.
\<close>

section \<open>The reader\<close>

lemma try_get_tile_unverified_Ok:
  assumes "try_get_tile_unverified r i = Ok t"
  shows "i < reader_tile_count r" "512 + (i + 1) * HYPER_TILE_SIZE \<le> length (mr_mmap r)"
    "tile_view i (tile_bytes i (mr_mmap r)) = Ok t"
proof -
  show i: "i < reader_tile_count r"
    using assms by (rule contrapos_pp) (simp add: try_get_tile_unverified_def tile_slot_def)
  show l: "512 + (i + 1) * HYPER_TILE_SIZE \<le> length (mr_mmap r)"
    using assms tile_slot_hyper [OF i] unfolding try_get_tile_unverified_def by (rule_tac ccontr) (simp add: not_le)
  show "tile_view i (tile_bytes i (mr_mmap r)) = Ok t"
    using try_get_tile_unverified_view [OF i l] assms by simp
qed

lemma check_tile_header_crc_Ok:
  "check_tile_header_crc cc h = Ok () \<longleftrightarrow>
    ht_header_crc32 h = compute_tile_header_crc32 cc h \<or> ht_header_crc32 h = 0 \<and> is_legacy_tile h"
  by (simp add: check_tile_header_crc_def Let_def)

lemma try_get_tile_Ok:
  "try_get_tile cc r i = Ok (h, p) \<longleftrightarrow>
    try_get_tile_unverified r i = Ok (h, p) \<and> check_tile_header_crc cc h = Ok () \<and>
    (ht_data_crc32 h = cc_crc32c cc p \<or> ht_data_crc32 h = 0 \<and> is_legacy_tile h)"
  by (cases "check_tile_header_crc cc h") (auto simp: try_get_tile_def Let_def split: sum.splits)

text \<open>C14: the reader delivers a tile only for an index below the committed count, whose slot lies in
  the file; header and payload are the bytes of that slot, the payload has the length the header states and fits
  behind it, and both checksums match unless the tile is of the explicitly legacy layout version 0.\<close>

theorem reader_delivers_checked:
  assumes "try_get_tile cc r i = Ok (h, p)"
  shows "i < reader_tile_count r \<and> 512 + (i + 1) * HYPER_TILE_SIZE \<le> length (mr_mmap r) \<and>
    h = hyper_tile_header_of_bytes (window (512 + i * HYPER_TILE_SIZE) 512 (mr_mmap r)) \<and>
    p = window (512 + i * HYPER_TILE_SIZE + 512) (unat (ht_payload_bytes h)) (mr_mmap r) \<and>
    unat (ht_payload_bytes h) \<le> HYPER_TILE_PAYLOAD_SIZE \<and>
    (is_legacy_tile h \<or> ht_header_crc32 h = compute_tile_header_crc32 cc h \<and> ht_data_crc32 h = cc_crc32c cc p)"
proof -
  from assms have u: "try_get_tile_unverified r i = Ok (h, p)" "check_tile_header_crc cc h = Ok ()"
    "ht_data_crc32 h = cc_crc32c cc p \<or> ht_data_crc32 h = 0 \<and> is_legacy_tile h" by (simp_all add: try_get_tile_Ok)
  note v = try_get_tile_unverified_Ok [OF u(1)]
  from v(3) have "h = hyper_tile_header_of_bytes (window 0 512 (tile_bytes i (mr_mmap r)))"
    "p = window 512 (unat (ht_payload_bytes h)) (tile_bytes i (mr_mmap r))" "unat (ht_payload_bytes h) \<le> HYPER_TILE_PAYLOAD_SIZE"
    by (auto simp: tile_view_def Let_def split: if_splits)
  moreover have "window 0 512 (tile_bytes i (mr_mmap r)) = window (512 + i * HYPER_TILE_SIZE) 512 (mr_mmap r)"
    by (simp add: tile_bytes_def window_window HYPER_TILE_SIZE_def)
  moreover have "window 512 n (tile_bytes i (mr_mmap r)) = window (512 + i * HYPER_TILE_SIZE + 512) n (mr_mmap r)"
    if "n \<le> HYPER_TILE_PAYLOAD_SIZE" for n
    using that by (simp add: tile_bytes_def window_window tile_sizes)
  ultimately show ?thesis using v(1,2) u(2,3) by (auto simp: check_tile_header_crc_Ok)
qed

lemma verify_tiles_Ok: "verify_tiles check i n = Ok () \<longleftrightarrow> (\<forall>j. i \<le> j \<longrightarrow> j < i + n \<longrightarrow> check j = Ok ())"
proof (induction n arbitrary: i)
  case (Suc n)
  have "(\<forall>j. i \<le> j \<longrightarrow> j < i + Suc n \<longrightarrow> check j = Ok ()) \<longleftrightarrow> check i = Ok () \<and> (\<forall>j. i + 1 \<le> j \<longrightarrow> j < i + 1 + n \<longrightarrow> check j = Ok ())"
    by (auto simp: le_Suc_eq Suc_le_eq dest: le_neq_implies_less)
  then show ?case using Suc by (auto split: sum.splits)
qed simp

text \<open>an archive of full-size tiles that passes verification delivers every committed tile, with
  both checksums matching its bytes and under the identity of the file.\<close>

theorem verified_archive_readable:
  assumes "verify_checksums cc sha256 r = Ok ()" "\<not> is_edge_archive r" "i < reader_tile_count r"
  shows "\<exists>h p. try_get_tile cc r i = Ok (h, p) \<and> ht_data_crc32 h = cc_crc32c cc p \<and>
    \<not> file_uuid_mismatch (fh_file_uuid (mr_active_header r)) h"
proof -
  have "verify_tiles (\<lambda>i. case try_get_tile_unverified r i of Err _ \<Rightarrow> Err OutOfBounds
      | Ok t \<Rightarrow> verify_hyper_tile cc (fh_file_uuid (mr_active_header r)) t) 0 (reader_tile_count r) = Ok ()"
    using assms(1,2) by (simp add: verify_checksums_def Let_def split: if_splits)
  with assms(3) have "(case try_get_tile_unverified r i of Err _ \<Rightarrow> Err OutOfBounds
      | Ok t \<Rightarrow> verify_hyper_tile cc (fh_file_uuid (mr_active_header r)) t) = Ok ()" unfolding verify_tiles_Ok by auto
  then obtain h p where "try_get_tile_unverified r i = Ok (h, p)"
    "verify_hyper_tile cc (fh_file_uuid (mr_active_header r)) (h, p) = Ok ()"
    by (auto split: sum.splits)
  then show ?thesis
    by (intro exI [of _ h] exI [of _ p]) (auto simp: try_get_tile_Ok verify_hyper_tile_def Let_def split: sum.splits if_splits)
qed

section \<open>Identifiers\<close>

text \<open>C22: no false negatives.  In the header of a telemetry tile the Bloom filter never rejects a
  sensor or metric identifier of any record of the tile, so a query for one does not skip the tile.\<close>

theorem telemetry_never_rejected:
  assumes "try_cast_slice 32 align_ok record_bytes = Some rs" "rec \<in> set rs" "k \<in> set (telemetry_keys rec)"
    "case hull of Some h \<Rightarrow> simplex_hull_shape h | None \<Rightarrow> True"
  shows "\<not> can_reject_tile_bloom (ext_tile_header cc ratio 0 v n align_ok record_bytes ts hull None w) k"
proof -
  have "k \<in> set (fst (tile_keys 0 None align_ok record_bytes))" using assms(1-3) by (auto simp: tile_keys_def)
  then have "bloom_filter_contains (fold (\<lambda>k. bloom_filter_insert k (ft_hash_seed tile_filter_default))
      (fst (tile_keys 0 None align_ok record_bytes)) (ft_bits tile_filter_default)) k (ft_hash_seed tile_filter_default)"
    by (intro bloom_fold_contains) (simp_all add: tile_filter_default_def)
  then show ?thesis
    using ext_tile_finishable(5) [OF assms(4), of cc ratio 0 v n align_ok record_bytes ts None w]
    by (simp add: can_reject_tile_bloom_def)
qed


section \<open>Commits that do not take\<close>

text \<open>checksum zero means "unset" to the reader, and the writer does not avoid it.  When the
  checksum of the new header slot comes out as zero, the write reports success and the writer counts the tile, but
  recovery returns to the old slot and cuts the tile off.\<close>

theorem zero_crc_commit_is_lost:
  assumes "tw_wf cc w" "raw_tile_ok cc registry h payload w"
    "fh_header_crc32 (next_slot cc now (tw_tile_count w + 1) (tw_addon_mask w) w) = 0"
  shows "\<exists>w1 g bs. write_raw_hyper_tile cc registry now h payload w = (Ok (tw_current_tile_id w), w1) \<and>
    tw_tile_count w1 = tw_tile_count w + 1 \<and>
    recover_archive cc path (Some (df_bytes (tw_file w1))) = Ok (g, bs) \<and>
    fh_tile_count g = tw_tile_count w \<and> drop 512 bs = writer_tiles w"
proof -
  note wf = tw_wfD [OF assms(1)]
  note t = raw_tile_finishable [OF assms(2)]
  let ?g = "next_slot cc now (tw_tile_count w + 1) (tw_addon_mask w) w" and ?s = "tw_active_slot w"
  let ?img = "tile_image (raw_tile_header cc h payload w) payload"
  let ?bs = "df_bytes (tw_file w) @ ?img"
  from finish_tile_Ok [OF assms(1) t(1-4), of now] obtain f where f:
    "write_raw_hyper_tile cc registry now h payload w = (Ok (tw_current_tile_id w),
      (commit_header_slot cc now (tw_tile_count w + 1) (tw_addon_mask w) (w\<lparr>tw_file := f\<rparr>))
        \<lparr>tw_current_tile_id := tw_current_tile_id w + 1\<rparr>)" (is "_ = (_, ?w1)")
    "df_bytes f = ?bs" unfolding write_raw_finish [OF assms(2)] by metis
  have g: "next_slot cc now n m (w\<lparr>tw_file := f\<rparr>) = next_slot cc now n m w" for n m by (simp add: next_slot_def)
  have v: "tw_active_slot (w\<lparr>tw_file := f\<rparr>) < 2" "512 \<le> length (df_bytes (tw_file (w\<lparr>tw_file := f\<rparr>)))"
    using wf(1,2) f(2) by simp_all
  note c = commit_header_slot_simps [OF v, of cc now "tw_tile_count w + 1" "tw_addon_mask w", unfolded g]
  define d where "d = patch (64 * (1 - ?s)) (file_header_bytes ?g) ?bs"
  have w1: "df_bytes (tw_file ?w1) = d" "tw_tile_count ?w1 = tw_tile_count w + 1" using c(1,4) f(2) by (simp_all add: d_def)
  have "holds_header cc ?bs (slot_at ?s (df_bytes (tw_file w))) ?s"
    using wf(2) by (intro holds_same_slots [OF wf(6)]) (simp_all add: window_append_inside)
  moreover have "length d = length ?bs" "512 \<le> length ?bs" using wf(1,2) by (simp_all add: d_def)
  moreover have "slot_at ?s d = slot_at ?s ?bs" "slot_at (1 - ?s) d = ?g"
    using slot_at_patch [OF wf(1), of ?bs ?g] wf(2) by (simp_all add: d_def)
  moreover have "\<not> verify_header_slot cc ?g" using assms(3) by (simp add: next_slot_valid)
  ultimately have hd: "holds_header cc d (slot_at ?s (df_bytes (tw_file w))) ?s"
    by (metis holds_damaged_other)
  have "take (expected_size (tw_tile_count w)) d = take (expected_size (tw_tile_count w)) (patch (64 * (1 - ?s)) (file_header_bytes ?g) ?bs)"
    by (simp add: d_def)
  then have "drop 512 (take (expected_size (tw_tile_count w)) d) = writer_tiles w"
    using drop_patch_slot [OF wf(1), of ?bs "file_header_bytes ?g"] wf(2,3) by (simp add: drop_take writer_tiles_def)
  moreover have "expected_size (tw_tile_count w) \<le> length d" using \<open>length d = length ?bs\<close> wf(3) by simp
  ultimately show ?thesis using recover_holds [OF hd, of path] wf(7) f(1) w1 by auto
qed

text \<open>the engine's commit writes headers without flags and without a tile stride.  Enabling an
  addon on an archive of the edge profile therefore leaves one that opens, with the same tile count, as an archive of
  full-size tiles, so its tiles are looked up at the wrong offsets.\<close>

theorem enable_addon_forgets_edge_profile:
  assumes "holds_header cc bs h s" "is_edge_profile h" "open_append cc bs = Ok w"
    "fh_generation h < fh_generation h + 1" "fh_header_crc32 (next_slot cc now (fh_tile_count h) (fh_addon_mask h OR m) w) \<noteq> 0"
  shows "\<exists>r. reader_open cc (df_bytes (tw_file (enable_addon cc now m w))) = Ok r \<and> \<not> is_edge_archive r \<and>
    reader_tile_count r = unat (fh_tile_count h)"
proof -
  have b: "512 \<le> length bs" using assms(1) by (simp add: holds_header_def)
  define c where "c = (if expected_size (fh_tile_count h) < length bs then take (expected_size (fh_tile_count h)) bs else bs)"
  have w: "df_bytes (tw_file w) = c" "tw_active_slot w = s" "tw_tile_count w = fh_tile_count h" "tw_addon_mask w = fh_addon_mask h"
    "tw_generation w = fh_generation h"
    using assms(3) resolve_holds [OF assms(1)] b
    by (auto simp: open_append_def open_committed_def Let_def set_length_def c_def)
  have e: "512 \<le> expected_size (fh_tile_count h)" by (simp add: expected_size_def)
  then have l: "512 \<le> length c" "window 0 128 c = window 0 128 bs" using b by (simp_all add: c_def window_def min_def)
  have hc: "holds_header cc c h s" by (rule holds_same_slots [OF assms(1) l])
  then have s: "s < 2" by (simp add: holds_header_def)
  let ?g = "next_slot cc now (fh_tile_count h) (fh_addon_mask h OR m) w"
  let ?d = "patch (64 * (1 - s)) (file_header_bytes ?g) c"
  have d: "df_bytes (tw_file (enable_addon cc now m w)) = ?d"
    using commit_header_slot_simps(1) [of w cc now "fh_tile_count h" "fh_addon_mask h OR m"] s l(1) w
    by (simp add: enable_addon_def)
  have "holds_header cc ?d ?g (1 - s)"
    by (rule holds_patched [OF hc]) (use assms(4,5) w in \<open>simp_all add: next_slot_valid\<close>)
  from resolve_holds [OF this] have r: "resolve_active_header cc (slot_a_of ?d) (slot_b_of ?d) = Ok (?g, 1 - s)" .
  have "\<not> is_edge_profile ?g" by (simp add: is_edge_profile_def)
  moreover have "length ?d = length c" using l(1) by simp
  moreover have "unat (fh_tile_count h) * HYPER_TILE_SIZE + 512 < 2 ^ 64"
    using unat_u32_less [of "fh_tile_count h"] by (simp add: HYPER_TILE_SIZE_def)
  ultimately show ?thesis
    using r l(1) by (simp add: d reader_open_def checked_mul_def checked_add_def tile_sizes is_edge_archive_def reader_tile_count_def)
qed


section \<open>Instances\<close>

definition sample_written :: tile_writer where
  "sample_written = snd (write_raw_hyper_tile castagnoli [] 9 sample_tile [1, 2, 3] sample_writer)"

definition sample_header :: hyper_tile_header where
  "sample_header = raw_tile_header castagnoli sample_tile [1, 2, 3] sample_writer"

definition sample_reader :: mmap_reader where
  "sample_reader = \<lparr> mr_mmap = df_bytes (tw_file sample_written),
    mr_active_header = slot_at (tw_active_slot sample_written) (df_bytes (tw_file sample_written)),
    mr_active_slot = tw_active_slot sample_written \<rparr>"

lemmas sample_writes = sample_write [folded sample_written_def sample_header_def]
lemmas sample_written_wf = tile_write_commits [OF sample_created(1) sample_writes, unfolded sample_created, simplified]

lemma sample_header_facts: "ht_file_uuid sample_header = (1, 2)" "ht_data_crc32 sample_header = cc_crc32c castagnoli [1, 2, 3]"
  "check_tile_header_crc castagnoli sample_header = Ok ()"
proof -
  have "hyper_tile_header_shape sample_tile" "ht_file_uuid sample_tile = (0, 0)"
    by (simp_all add: sample_tile_def) (simp add: hyper_tile_header_new_def)
  then show "ht_file_uuid sample_header = (1, 2)"
    using raw_tile_header_simps(7) [of sample_tile castagnoli "[1, 2, 3]" sample_writer] by (simp add: sample_header_def sample_created)
  show "ht_data_crc32 sample_header = cc_crc32c castagnoli [1, 2, 3]" "check_tile_header_crc castagnoli sample_header = Ok ()"
    using tile_writeD(2,3) [OF sample_writes] by (simp_all add: check_tile_header_crc_Ok)
qed

lemma sample_reads:
  "reader_tile_count sample_reader = 1" "length (mr_mmap sample_reader) = 512 + HYPER_TILE_SIZE"
  "try_get_tile_unverified sample_reader 0 = Ok (sample_header, [1, 2, 3])"
proof -
  note wf = tw_wfD [OF sample_written_wf(1)]
  show c: "reader_tile_count sample_reader = 1"
    using wf(7) sample_written_wf(2) by (simp add: reader_tile_count_def sample_reader_def)
  show l: "length (mr_mmap sample_reader) = 512 + HYPER_TILE_SIZE"
    using wf(3) sample_written_wf(2) by (simp add: sample_reader_def expected_size_def)
  have "tile_bytes 0 (mr_mmap sample_reader) = tile_image sample_header [1, 2, 3]"
    using tile_writeD(1,4) [OF sample_writes] length_tile_image sample_written_wf(5)
    by (simp add: sample_reader_def tile_bytes_writer window_append_here window_all)
  with c l tile_writeD(1,4,5) [OF sample_writes] show "try_get_tile_unverified sample_reader 0 = Ok (sample_header, [1, 2, 3])"
    using tile_view_image try_get_tile_unverified_view [of 0 sample_reader] by simp
qed

lemma sample_try_get: "try_get_tile castagnoli sample_reader 0 = Ok (sample_header, [1, 2, 3])"
  using sample_reads(3) sample_header_facts by (simp add: try_get_tile_Ok)

theorem reader_delivers_checked_witness:
  "unat (ht_payload_bytes sample_header) \<le> HYPER_TILE_PAYLOAD_SIZE \<and>
    [1, 2, 3] = window (512 + 0 * HYPER_TILE_SIZE + 512) (unat (ht_payload_bytes sample_header)) (mr_mmap sample_reader)"
  using reader_delivers_checked [OF sample_try_get] by blast

lemma sample_verifies: "verify_checksums castagnoli sha256 sample_reader = Ok ()" "\<not> is_edge_archive sample_reader"
proof -
  note wf = tw_wfD [OF sample_written_wf(1)]
  let ?h = "mr_active_header sample_reader"
  have h: "plain_header (1, 2) 1 ?h" "verify_header_slot castagnoli ?h"
    using wf(6,9) sample_written_wf(2,4) by (simp_all add: sample_reader_def holds_header_def)
  then show e: "\<not> is_edge_archive sample_reader" by (simp add: is_edge_archive_def is_edge_profile_def plain_header_def)
  have "validate_file_size sample_reader = Ok ()"
    using e sample_reads(1,2) by (simp add: validate_file_size_def checked_mul_def checked_add_def HYPER_TILE_SIZE_def)
  moreover have "verify_hyper_tile castagnoli (fh_file_uuid ?h) (sample_header, [1, 2, 3]) = Ok ()"
    using h(1) sample_header_facts by (simp add: verify_hyper_tile_def file_uuid_mismatch_def plain_header_def)
  ultimately show "verify_checksums castagnoli sha256 sample_reader = Ok ()"
    using h(2) e sample_reads by (auto simp: verify_checksums_def verify_header_slot_def Let_def split: if_splits)
qed

theorem verified_archive_readable_witness:
  "\<exists>h p. try_get_tile castagnoli sample_reader 0 = Ok (h, p) \<and> ht_data_crc32 h = cc_crc32c castagnoli p \<and>
    \<not> file_uuid_mismatch (fh_file_uuid (mr_active_header sample_reader)) h"
  using verified_archive_readable [OF sample_verifies(1) [of "\<lambda>bs. bs"] sample_verifies(2), of 0] sample_reads(1) by simp

definition sample_telemetry :: "byte list" where
  "sample_telemetry = replicate 8 0 @ [5, 0, 0, 0] @ [9, 0, 0, 0] @ replicate 16 0"

theorem telemetry_never_rejected_witness:
  "\<not> can_reject_tile_bloom (ext_tile_header castagnoli (\<lambda>_ _. 0) 0 1 1 True sample_telemetry None None None sample_writer) 5"
proof (rule telemetry_never_rejected)
  show "try_cast_slice 32 True sample_telemetry = Some [sample_telemetry]"
    by (simp add: try_cast_slice_def sample_telemetry_def window_def)
  show "5 \<in> set (telemetry_keys sample_telemetry)"
    by (simp add: telemetry_keys_def sample_telemetry_def window_def word_eval)
qed simp_all

text \<open>A checksum that is zero exactly for headers of generation 2.\<close>

definition unlucky :: crc_crate where
  "unlucky = \<lparr> cc_crc32c = \<lambda>bs. if length bs = 40 \<and> bs ! 8 = 2 then 0 else 1, cc_append = \<lambda>c _. c \<rparr>"


lemma unlucky_header:
  "compute_header_crc32 unlucky h = (let bs = window 0 40 (file_header_bytes h) in if length bs = 40 \<and> bs ! 8 = 2 then 0 else 1)"
  by (simp add: compute_header_crc32_def unlucky_def Let_def)

lemma unlucky_created: "fh_header_crc32 (first_slot unlucky 7 (1, 2)) \<noteq> 0"
  unfolding first_slot_def Let_def unlucky_header
  by (simp add: header_eval with_file_uuid_def archive_header_new_def)

theorem zero_crc_commit_is_lost_witness:
  "\<exists>w1 g bs. write_raw_hyper_tile unlucky [] 9 sample_tile [1, 2, 3] (create_with_uuid unlucky 7 (1, 2)) = (Ok 1, w1) \<and>
    tw_tile_count w1 = 1 \<and> recover_archive unlucky ''a.s3a'' (Some (df_bytes (tw_file w1))) = Ok (g, bs) \<and>
    fh_tile_count g = 0 \<and> drop 512 bs = []"
proof -
  let ?w = "create_with_uuid unlucky 7 (1, 2)"
  note w = create_wf [OF unlucky_created]
  have "write_gate [] 99 1 0 = Ok ()" by code_simp
  then have r: "raw_tile_ok unlucky [] sample_tile [1, 2, 3] ?w"
    by (simp add: raw_tile_ok_def w sample_tile_def tile_sizes) (simp add: hyper_tile_header_new_def)
  have z: "fh_header_crc32 (next_slot unlucky 9 (tw_tile_count ?w + 1) (tw_addon_mask ?w) ?w) = 0"
    unfolding next_slot_def Let_def unlucky_header
    by (simp add: w header_eval archive_header_with_commit_def)
  have "tw_current_tile_id ?w = 1" by (simp add: create_with_uuid_def Let_def)
  with zero_crc_commit_is_lost [OF w(1) r z, of "''a.s3a''"] show ?thesis by (simp add: w)
qed

definition edge_slot :: archive_header where
  "edge_slot = (let h = (archive_header_new 0 7)\<lparr> fh_flags := FLAG_PROFILE_EDGE, fh_tile_stride := 4096 \<rparr>
    in h\<lparr> fh_header_crc32 := compute_header_crc32 castagnoli h \<rparr>)"

lemma edge_slot_holds: "holds_header castagnoli (archive_dual_header_bytes edge_slot) edge_slot 0"
proof (rule dual_holds)
  have "fh_header_crc32 edge_slot \<noteq> 0" "compute_header_crc32 castagnoli edge_slot = fh_header_crc32 edge_slot"
    unfolding edge_slot_def Let_def castagnoli_header by (simp_all add: header_eval archive_header_new_def)
  then show "verify_header_slot castagnoli edge_slot"
    by (simp add: verify_header_slot_def archive_header_verify_def) (simp add: edge_slot_def Let_def archive_header_new_def)
  show "check_layout_fields edge_slot = Ok ()"
    by (simp add: edge_slot_def Let_def archive_header_new_def check_layout_fields_def VALID_TILE_STRIDES_def KNOWN_HEADER_FLAGS_def
      FLAG_PROFILE_EDGE_def FLAG_TILE_SIZE_4KB_def FLAG_TILE_SIZE_8KB_def FLAG_COMPACT_HEADER_def FLAG_SEAL_CHAIN_ACTIVE_def
      FLAG_ED25519_SIGNED_def)
qed

theorem enable_addon_forgets_edge_profile_witness:
  "\<exists>w r. open_append castagnoli (archive_dual_header_bytes edge_slot) = Ok w \<and>
    reader_open castagnoli (df_bytes (tw_file (enable_addon castagnoli 9 4 w))) = Ok r \<and> \<not> is_edge_archive r \<and>
    reader_tile_count r = 0"
proof -
  have f: "is_edge_profile edge_slot" "fh_tile_count edge_slot = 0" "fh_generation edge_slot = 1" "fh_addon_mask edge_slot = 0"
    "fh_created_timestamp edge_slot = 7" "fh_file_uuid edge_slot = (0, 0)"
    by (simp_all add: edge_slot_def Let_def archive_header_new_def is_edge_profile_def FLAG_PROFILE_EDGE_def)
  have l: "length (archive_dual_header_bytes edge_slot) = 512" using edge_slot_holds
    by (simp add: archive_dual_header_bytes_def edge_slot_def Let_def archive_header_new_def file_header_zeroed_def)
  from open_committed_holds [OF edge_slot_holds] f(2) l obtain fl where
    "open_committed castagnoli (archive_dual_header_bytes edge_slot) = Ok (edge_slot, 0, fl)" by (auto simp: expected_size_def)
  then obtain w where w: "open_append castagnoli (archive_dual_header_bytes edge_slot) = Ok w" "tw_generation w = 1"
    "tw_created_timestamp w = 7" "tw_file_uuid w = (0, 0)"
    using f by (simp add: open_append_def)
  have n: "fh_header_crc32 (next_slot castagnoli 9 (fh_tile_count edge_slot) (fh_addon_mask edge_slot OR 4) w) \<noteq> 0"
    unfolding next_slot_def Let_def castagnoli_header by (simp add: w f header_eval archive_header_with_commit_def)
  have g: "fh_generation edge_slot < fh_generation edge_slot + 1" by (simp add: f)
  from enable_addon_forgets_edge_profile [OF edge_slot_holds f(1) w(1) g n] w(1) f(2) show ?thesis by auto
qed

end
