(* ===== verification/Core_Schema.thy ===== *)
theory Core_Schema
  imports Pod_Codec Core_Archive_Header
begin

text \<open>
  The embedded schema of \<^verbatim>\<open>crates/s3a-core/src/schema.rs\<close>: the compact binary catalogue of tile
  types and the "about" trailer behind it.  CRC-32C is the parameter \<open>crc\<close>; text is the list of its
  UTF-8 bytes, since the code cuts names at 32 bytes.
\<close>

section \<open>Records and their bytes\<close>

record compact_schema_header =
  cs_schema_id :: u32
  cs_schema_format :: u16
  cs_type_count :: u16
  cs_total_fields :: u32
  cs_schema_crc32 :: u32
  cs_reserved :: "byte list"

record compact_schema_type =
  ct_type_id :: u32
  ct_type_version :: u32
  ct_name :: "byte list"
  ct_owning_pack :: "byte list"
  ct_record_size :: u32
  ct_field_count :: u16
  ct_reserved :: u16

record compact_schema_field =
  cf_field_id :: u16
  cf_field_type :: u16
  cf_byte_offset :: u32
  cf_byte_len :: u32
  cf_null_allowed :: u8
  cf_reserved :: "byte list"
  cf_name :: "byte list"

record schema_field_definition =
  sf_field_id :: u16
  sf_field_type :: u16
  sf_byte_offset :: u32
  sf_byte_len :: u32
  sf_null_allowed :: bool
  sf_name :: "byte list"

record schema_type_definition =
  st_type_id :: u32
  st_type_version :: u32
  st_name :: "byte list"
  st_owning_pack :: "byte list"
  st_record_size :: u32
  st_fields :: "schema_field_definition list"

definition SCHEMA_FORMAT_COMPACT_BINARY :: u16 where "SCHEMA_FORMAT_COMPACT_BINARY = 1"

definition schema_header_bytes :: "compact_schema_header \<Rightarrow> byte list" where
  "schema_header_bytes h = le32 (cs_schema_id h) @ le16 (cs_schema_format h) @ le16 (cs_type_count h) @
     le32 (cs_total_fields h) @ le32 (cs_schema_crc32 h) @ cs_reserved h"

definition schema_header_of_bytes :: "byte list \<Rightarrow> compact_schema_header" where
  "schema_header_of_bytes bs =
     \<lparr> cs_schema_id = of_le (window 0 4 bs), cs_schema_format = of_le (window 4 2 bs), cs_type_count = of_le (window 6 2 bs),
       cs_total_fields = of_le (window 8 4 bs), cs_schema_crc32 = of_le (window 12 4 bs), cs_reserved = window 16 16 bs \<rparr>"

definition schema_type_bytes :: "compact_schema_type \<Rightarrow> byte list" where
  "schema_type_bytes t = le32 (ct_type_id t) @ le32 (ct_type_version t) @ ct_name t @ ct_owning_pack t @
     le32 (ct_record_size t) @ le16 (ct_field_count t) @ le16 (ct_reserved t)"

definition schema_type_of_bytes :: "byte list \<Rightarrow> compact_schema_type" where
  "schema_type_of_bytes bs =
     \<lparr> ct_type_id = of_le (window 0 4 bs), ct_type_version = of_le (window 4 4 bs), ct_name = window 8 32 bs,
       ct_owning_pack = window 40 32 bs, ct_record_size = of_le (window 72 4 bs), ct_field_count = of_le (window 76 2 bs),
       ct_reserved = of_le (window 78 2 bs) \<rparr>"

definition schema_field_bytes :: "compact_schema_field \<Rightarrow> byte list" where
  "schema_field_bytes f = le16 (cf_field_id f) @ le16 (cf_field_type f) @ le32 (cf_byte_offset f) @ le32 (cf_byte_len f) @
     [cf_null_allowed f] @ cf_reserved f @ cf_name f"

definition schema_field_of_bytes :: "byte list \<Rightarrow> compact_schema_field" where
  "schema_field_of_bytes bs =
     \<lparr> cf_field_id = of_le (window 0 2 bs), cf_field_type = of_le (window 2 2 bs), cf_byte_offset = of_le (window 4 4 bs),
       cf_byte_len = of_le (window 8 4 bs), cf_null_allowed = bs ! 12, cf_reserved = window 13 3 bs, cf_name = window 16 32 bs \<rparr>"

definition schema_type_shape :: "compact_schema_type \<Rightarrow> bool" where
  "schema_type_shape t \<longleftrightarrow> length (ct_name t) = 32 \<and> length (ct_owning_pack t) = 32"

definition schema_field_shape :: "compact_schema_field \<Rightarrow> bool" where
  "schema_field_shape f \<longleftrightarrow> length (cf_reserved f) = 3 \<and> length (cf_name f) = 32"

interpretation type_codec: pod_codec schema_type_bytes schema_type_of_bytes 80 schema_type_shape
  by unfold_locales
    (simp_all add: schema_type_shape_def schema_type_bytes_def schema_type_of_bytes_def window_append_skip window_append_here
      window_all to_le_of_le window_join)

interpretation field_codec: pod_codec schema_field_bytes schema_field_of_bytes 48 schema_field_shape
  by unfold_locales
    (simp_all add: schema_field_shape_def schema_field_bytes_def schema_field_of_bytes_def window_append_skip window_append_here
      window_all to_le_of_le window_join window_Cons_join window_Cons_skip nth_append)

interpretation header_codec: pod_codec schema_header_bytes schema_header_of_bytes 32 "\<lambda>h. length (cs_reserved h) = 16"
  by unfold_locales
    (simp_all add: schema_header_bytes_def schema_header_of_bytes_def window_append_skip window_append_here window_all
      to_le_of_le window_join)

section \<open>The catalogue\<close>

definition string_to_fixed_32 :: "byte list \<Rightarrow> byte list" where
  "string_to_fixed_32 s = take 32 s @ replicate (32 - length s) 0"

definition fixed_32_to_string :: "byte list \<Rightarrow> byte list" where
  "fixed_32_to_string arr = (let s = takeWhile (\<lambda>b. b \<noteq> 0) arr in if utf8_valid s then s else [])"

definition type_record_of :: "schema_type_definition \<Rightarrow> compact_schema_type" where
  "type_record_of t =
     \<lparr> ct_type_id = st_type_id t, ct_type_version = st_type_version t, ct_name = string_to_fixed_32 (st_name t),
       ct_owning_pack = string_to_fixed_32 (st_owning_pack t), ct_record_size = st_record_size t,
       ct_field_count = of_nat (length (st_fields t)), ct_reserved = 0 \<rparr>"

definition field_record_of :: "schema_field_definition \<Rightarrow> compact_schema_field" where
  "field_record_of f =
     \<lparr> cf_field_id = sf_field_id f, cf_field_type = sf_field_type f, cf_byte_offset = sf_byte_offset f,
       cf_byte_len = sf_byte_len f, cf_null_allowed = (if sf_null_allowed f then 1 else 0), cf_reserved = replicate 3 0,
       cf_name = string_to_fixed_32 (sf_name f) \<rparr>"

definition field_of_record :: "compact_schema_field \<Rightarrow> schema_field_definition" where
  "field_of_record r =
     \<lparr> sf_field_id = cf_field_id r, sf_field_type = cf_field_type r, sf_byte_offset = cf_byte_offset r,
       sf_byte_len = cf_byte_len r, sf_null_allowed = (cf_null_allowed r \<noteq> 0), sf_name = fixed_32_to_string (cf_name r) \<rparr>"

definition encode_schema_payload :: "(byte list \<Rightarrow> u32) \<Rightarrow> schema_type_definition list \<Rightarrow> byte list" where
  "encode_schema_payload crc types =
    (let total_fields = sum_list (map (length \<circ> st_fields) types);
         type_records = map type_record_of types;
         field_records = concat (map (map field_record_of \<circ> st_fields) types);
         body_bytes = pod_bytes schema_type_bytes type_records @ pod_bytes schema_field_bytes field_records;
         header = \<lparr> cs_schema_id = 1, cs_schema_format = SCHEMA_FORMAT_COMPACT_BINARY, cs_type_count = of_nat (length types),
           cs_total_fields = of_nat total_fields, cs_schema_crc32 = crc body_bytes, cs_reserved = replicate 16 0 \<rparr>
     in schema_header_bytes header @ body_bytes)"

text \<open>The loop that cuts the field records into the fields of each type, at the running cursor.\<close>

fun decode_types ::
  "compact_schema_field list \<Rightarrow> nat \<Rightarrow> compact_schema_type list \<Rightarrow> (s3a_error, schema_type_definition list) result" where
  "decode_types field_slice field_cursor [] = Ok []"
| "decode_types field_slice field_cursor (tr # trs) =
    (let f_count = unat (ct_field_count tr) in
     if length field_slice < field_cursor + f_count then Err OutOfBounds
     else
       let t = \<lparr> st_type_id = ct_type_id tr, st_type_version = ct_type_version tr, st_name = fixed_32_to_string (ct_name tr),
             st_owning_pack = fixed_32_to_string (ct_owning_pack tr), st_record_size = ct_record_size tr,
             st_fields = map field_of_record (window field_cursor f_count field_slice) \<rparr>
       in case decode_types field_slice (field_cursor + f_count) trs of Err e \<Rightarrow> Err e | Ok ts \<Rightarrow> Ok (t # ts))"

definition decode_schema_payload ::
  "(byte list \<Rightarrow> u32) \<Rightarrow> byte list \<Rightarrow> (s3a_error, schema_type_definition list) result" where
  "decode_schema_payload crc payload =
    (if length payload < 32 then Err (BufferTooSmall 32 (length payload))
     else let header = schema_header_of_bytes (window 0 32 payload) in
     if cs_schema_format header \<noteq> SCHEMA_FORMAT_COMPACT_BINARY then Err InvalidFormat
     else
       let types_len = unat (cs_type_count header) * 80 in
       case checked_mul (unat (cs_total_fields header)) 48 of None \<Rightarrow> Err OutOfBounds | Some fields_len \<Rightarrow>
       (case checked_add types_len fields_len of None \<Rightarrow> Err OutOfBounds | Some required_body \<Rightarrow>
       (case checked_add 32 required_body of None \<Rightarrow> Err OutOfBounds | Some required_total \<Rightarrow>
         if length payload < required_total then Err (BufferTooSmall required_total (length payload))
         else
           let body_bytes = window 32 required_body payload; actual_crc = crc body_bytes in
           if actual_crc \<noteq> cs_schema_crc32 header then Err (ChecksumMismatch (cs_schema_crc32 header) actual_crc)
           else
             let type_slice = pod_slice 80 schema_type_of_bytes (window 32 types_len payload);
                 field_slice = pod_slice 48 schema_field_of_bytes (window (32 + types_len) fields_len payload)
             in if sum_list (map (unat \<circ> ct_field_count) type_slice) \<noteq> length field_slice then Err InvalidFormat
                else decode_types field_slice 0 type_slice)))"

section \<open>The about trailer\<close>

definition SCHEMA_ABOUT_MAGIC :: "byte list" where "SCHEMA_ABOUT_MAGIC = ascii ''S3AABOUT''"

record schema_about =
  ab_spec_version :: "byte list"
  ab_spec_url :: "byte list"
  ab_spec_sha256 :: "byte list"
  ab_writer :: "byte list"
  ab_seal_hash_alg :: "byte list"
  ab_sig_alg :: "byte list"

definition about_default :: schema_about where
  "about_default = \<lparr> ab_spec_version = [], ab_spec_url = [], ab_spec_sha256 = [], ab_writer = [], ab_seal_hash_alg = [],
     ab_sig_alg = [] \<rparr>"

text \<open>Line breaks in a value become spaces.\<close>

definition one_line :: "byte list \<Rightarrow> byte list" where
  "one_line v = map (\<lambda>b. if b = 10 \<or> b = 13 then 32 else b) v"

definition about_text :: "schema_about \<Rightarrow> byte list" where
  "about_text a =
    concat (map (\<lambda>(k, v).
        if v = [] \<and> (k = ascii ''seal_hash_alg'' \<or> k = ascii ''sig_alg'') then [] else k @ [61] @ one_line v @ [10])
      [(ascii ''spec_version'', ab_spec_version a), (ascii ''spec_url'', ab_spec_url a),
       (ascii ''spec_sha256'', ab_spec_sha256 a), (ascii ''writer'', ab_writer a),
       (ascii ''seal_hash_alg'', ab_seal_hash_alg a), (ascii ''sig_alg'', ab_sig_alg a)])"

definition encode_schema_about :: "(byte list \<Rightarrow> u32) \<Rightarrow> schema_about \<Rightarrow> byte list" where
  "encode_schema_about crc about =
    (let txt = about_text about
     in SCHEMA_ABOUT_MAGIC @ le32 (of_nat (length txt)) @ le32 (crc txt) @ txt)"

definition schema_records_len :: "byte list \<Rightarrow> (s3a_error, nat) result" where
  "schema_records_len payload =
    (if length payload < 32 then Err (BufferTooSmall 32 (length payload))
     else let h = schema_header_of_bytes (window 0 32 payload) in
       case Option.bind (Option.bind (checked_mul (unat (cs_type_count h)) 80)
           (\<lambda>t. Option.bind (checked_mul (unat (cs_total_fields h)) 48) (\<lambda>f. checked_add t f))) (\<lambda>b. checked_add b 32) of
         None \<Rightarrow> Err OutOfBounds
       | Some total_len \<Rightarrow>
           if length payload < total_len then Err (BufferTooSmall total_len (length payload)) else Ok total_len)"

text \<open>\<^verbatim>\<open>str::lines\<close>: cut behind each line feed; the line feed, and a carriage return before it, are dropped.\<close>

definition strip_cr :: "byte list \<Rightarrow> byte list" where
  "strip_cr l = (if l \<noteq> [] \<and> last l = 13 then butlast l else l)"

function text_lines :: "byte list \<Rightarrow> byte list list" where
  "text_lines t =
    (if t = [] then []
     else let l = takeWhile (\<lambda>b. b \<noteq> 10) t in
       if l = t then [t] else strip_cr l # text_lines (drop (Suc (length l)) t))"
  by auto
termination by (relation "measure length") auto

declare text_lines.simps [simp del]

definition about_line :: "schema_about \<Rightarrow> byte list \<Rightarrow> schema_about" where
  "about_line a line =
    (if 61 \<in> set line then
       let k = takeWhile (\<lambda>b. b \<noteq> 61) line; v = drop (Suc (length k)) line in
       if k = ascii ''spec_version'' then a\<lparr> ab_spec_version := v \<rparr>
       else if k = ascii ''spec_url'' then a\<lparr> ab_spec_url := v \<rparr>
       else if k = ascii ''spec_sha256'' then a\<lparr> ab_spec_sha256 := v \<rparr>
       else if k = ascii ''writer'' then a\<lparr> ab_writer := v \<rparr>
       else if k = ascii ''seal_hash_alg'' then a\<lparr> ab_seal_hash_alg := v \<rparr>
       else if k = ascii ''sig_alg'' then a\<lparr> ab_sig_alg := v \<rparr>
       else a
     else a)"

definition decode_schema_about :: "(byte list \<Rightarrow> u32) \<Rightarrow> byte list \<Rightarrow> (s3a_error, schema_about option) result" where
  "decode_schema_about crc payload =
    (case schema_records_len payload of
       Err e \<Rightarrow> Err e
     | Ok start \<Rightarrow>
         let rest = drop start payload in
         if length rest < 16 \<or> window 0 8 rest \<noteq> SCHEMA_ABOUT_MAGIC then Ok None
         else
           let len = unat (of_le (window 8 4 rest) :: u32); stored = of_le (window 12 4 rest) in
           if length rest < 16 + len then Err OutOfBounds
           else
             let txt = window 16 len rest in
             if crc txt \<noteq> stored then Err (ChecksumMismatch stored (crc txt))
             else if \<not> utf8_valid txt then Err InvalidFormat
             else Ok (Some (foldl about_line about_default (text_lines txt))))"

definition schema_about_bytes :: "(byte list \<Rightarrow> u32) \<Rightarrow> byte list \<Rightarrow> byte list option" where
  "schema_about_bytes crc payload =
    (case decode_schema_about crc payload of
       Ok (Some _) \<Rightarrow>
         (case schema_records_len payload of
            Ok start \<Rightarrow>
              let len = unat (of_le (window (start + 8) 4 payload) :: u32) in
              if start + 16 + len \<le> length payload then Some (window start (16 + len) payload) else None
          | Err _ \<Rightarrow> None)
     | _ \<Rightarrow> None)"

section \<open>The catalogue is read back\<close>

text \<open>A name that fits its field: at most 32 bytes of text without a zero byte.\<close>

definition schema_name_fits :: "byte list \<Rightarrow> bool" where
  "schema_name_fits s \<longleftrightarrow> length s \<le> 32 \<and> 0 \<notin> set s \<and> utf8_valid s"

definition schema_type_fits :: "schema_type_definition \<Rightarrow> bool" where
  "schema_type_fits t \<longleftrightarrow> schema_name_fits (st_name t) \<and> schema_name_fits (st_owning_pack t) \<and> length (st_fields t) < 2 ^ 16 \<and>
     list_all (schema_name_fits \<circ> sf_name) (st_fields t)"

lemma length_fixed_32 [simp]: "length (string_to_fixed_32 s) = 32"
  by (simp add: string_to_fixed_32_def)

lemma fixed_32_roundtrip: "schema_name_fits s \<Longrightarrow> fixed_32_to_string (string_to_fixed_32 s) = s"
  by (auto simp: schema_name_fits_def string_to_fixed_32_def fixed_32_to_string_def takeWhile_append takeWhile_replicate)

text \<open>A name cut inside a character is read as the empty name.\<close>

lemma fixed_32_cut:
  "32 \<le> length s \<Longrightarrow> 0 \<notin> set s \<Longrightarrow> fixed_32_to_string (string_to_fixed_32 s) = (if utf8_valid (take 32 s) then take 32 s else [])"
proof -
  assume s: "32 \<le> length s" "0 \<notin> set s"
  then have "takeWhile (\<lambda>b. b \<noteq> 0) (take 32 s) = take 32 s"
    by (intro takeWhile_eq_all_conv [THEN iffD2]) (auto dest: in_set_takeD)
  moreover have "string_to_fixed_32 s = take 32 s" using s(1) by (simp add: string_to_fixed_32_def)
  ultimately show ?thesis by (simp only: fixed_32_to_string_def Let_def)
qed

lemma type_record_shape [simp]: "schema_type_shape (type_record_of t)"
  by (simp add: schema_type_shape_def type_record_of_def)

lemma field_record_shape [simp]: "schema_field_shape (field_record_of f)"
  by (simp add: schema_field_shape_def field_record_of_def)

lemma field_record_roundtrip: "schema_name_fits (sf_name f) \<Longrightarrow> field_of_record (field_record_of f) = f"
  by (simp add: field_of_record_def field_record_of_def fixed_32_roundtrip)

lemma decode_types_encoded:
  "list_all schema_type_fits types \<Longrightarrow>
   decode_types (before @ concat (map (map field_record_of \<circ> st_fields) types)) (length before) (map type_record_of types) = Ok types"
proof (induction types arbitrary: before)
  case (Cons t types)
  have t: "schema_type_fits t" using Cons.prems by simp
  then have n: "unat (of_nat (length (st_fields t)) :: u16) = length (st_fields t)"
    by (simp add: schema_type_fits_def unat_of_nat)
  have f: "map field_of_record (map field_record_of (st_fields t)) = st_fields t"
    using t by (simp add: schema_type_fits_def list_all_iff field_record_roundtrip map_idI)
  have tl: "decode_types ((before @ map field_record_of (st_fields t)) @ concat (map (map field_record_of \<circ> st_fields) types))
      (length before + length (st_fields t)) (map type_record_of types) = Ok types"
    using Cons.IH [of "before @ map field_record_of (st_fields t)"] Cons.prems by (simp add: comp_def)
  show ?case using tl f t
    by (simp add: type_record_of_def [of t] n schema_type_fits_def fixed_32_roundtrip window_append_skip window_append_left comp_def)
qed simp

lemma length_field_records: "length (concat (map (map field_record_of \<circ> st_fields) types)) = sum_list (map (length \<circ> st_fields) types)"
  by (simp add: length_concat comp_def)

lemma sum_field_counts:
  "list_all schema_type_fits types \<Longrightarrow>
   sum_list (map (unat \<circ> ct_field_count) (map type_record_of types)) = sum_list (map (length \<circ> st_fields) types)"
  by (induction types) (simp_all add: type_record_of_def schema_type_fits_def unat_of_nat)

text \<open>The parts of an encoded catalogue, whatever follows it.\<close>

lemma encoded_parts:
  fixes types :: "schema_type_definition list" and crc :: "byte list \<Rightarrow> u32" and rest :: "byte list"
  defines "trs \<equiv> map type_record_of types" and "frs \<equiv> concat (map (map field_record_of \<circ> st_fields) types)"
  assumes "length types < 2 ^ 16" "sum_list (map (length \<circ> st_fields) types) < 2 ^ 32"
  defines "bs \<equiv> encode_schema_payload crc types @ rest"
  obtains h where
    "schema_header_of_bytes (window 0 32 bs) = h" "cs_schema_format h = SCHEMA_FORMAT_COMPACT_BINARY"
    "unat (cs_type_count h) = length types" "unat (cs_total_fields h) = length frs"
    "cs_schema_crc32 h = crc (window 32 (length types * 80 + length frs * 48) bs)"
    "window 32 (length types * 80) bs = pod_bytes schema_type_bytes trs"
    "window (32 + length types * 80) (length frs * 48) bs = pod_bytes schema_field_bytes frs"
    "length (encode_schema_payload crc types) = 32 + (length types * 80 + length frs * 48)"
proof -
  have t: "length (pod_bytes schema_type_bytes trs) = length types * 80"
    by (subst type_codec.length_pod_bytes) (simp_all add: trs_def list_all_iff)
  have f: "length (pod_bytes schema_field_bytes frs) = length frs * 48"
    by (rule field_codec.length_pod_bytes) (auto simp: frs_def list_all_iff)
  have n: "sum_list (map (length \<circ> st_fields) types) = length frs" by (simp add: frs_def length_field_records)
  define body where "body = pod_bytes schema_type_bytes trs @ pod_bytes schema_field_bytes frs"
  define h where "h = \<lparr> cs_schema_id = 1, cs_schema_format = SCHEMA_FORMAT_COMPACT_BINARY, cs_type_count = of_nat (length types),
      cs_total_fields = of_nat (length frs), cs_schema_crc32 = crc body, cs_reserved = replicate 16 0 \<rparr>"
  have hl: "length (schema_header_bytes h) = 32" by (simp add: header_codec.length_enc h_def)
  have b: "bs = schema_header_bytes h @ body @ rest"
    by (simp add: bs_def encode_schema_payload_def Let_def n h_def body_def flip: trs_def frs_def)
  have bl: "length body = length types * 80 + length frs * 48" by (simp add: body_def t f)
  have "window 32 (length types * 80 + length frs * 48) bs = body"
    by (simp add: b hl window_append_skip window_append_here bl)
  moreover have "window 0 32 bs = schema_header_bytes h" by (simp add: b window_append_here hl)
  moreover have "window 32 (length types * 80) bs = pod_bytes schema_type_bytes trs"
    by (simp add: b hl body_def window_append_skip window_append_here t)
  moreover have "window (32 + length types * 80) (length frs * 48) bs = pod_bytes schema_field_bytes frs"
    by (simp add: b hl body_def window_append_skip window_append_here t f)
  moreover have "length (encode_schema_payload crc types) = 32 + (length types * 80 + length frs * 48)"
    using arg_cong [OF b, of length] by (simp add: bs_def hl bl)
  ultimately show ?thesis using assms(3,4) n
    by (intro that [of h]) (simp_all add: header_codec.dec_enc h_def unat_of_nat)
qed

lemma schema_records_len_encoded:
  assumes "length types < 2 ^ 16" "sum_list (map (length \<circ> st_fields) types) < 2 ^ 32"
  shows "schema_records_len (encode_schema_payload crc types @ rest) = Ok (length (encode_schema_payload crc types))"
  by (rule encoded_parts [OF assms, of crc rest])
    (use assms in \<open>simp add: schema_records_len_def Let_def checked_mul_def checked_add_def length_field_records\<close>)

lemma checked_small:
  assumes "f < 2 ^ 32" "t < 2 ^ 16"
  shows "checked_mul f 48 = Some (f * 48)" "checked_add (t * 80) (f * 48) = Some (t * 80 + f * 48)"
    "checked_add 32 (t * 80 + f * 48) = Some (32 + (t * 80 + f * 48))"
  using assms by (simp_all add: checked_mul_def checked_add_def)

text \<open>A catalogue whose names fit their 32-byte fields is decoded to what was encoded, whatever
  bytes follow it, in particular the about trailer.\<close>

theorem schema_roundtrip:
  assumes "list_all schema_type_fits types" "length types < 2 ^ 16" "sum_list (map (length \<circ> st_fields) types) < 2 ^ 32"
  shows "decode_schema_payload crc (encode_schema_payload crc types @ rest) = Ok types"
proof -
  let ?trs = "map type_record_of types" and ?frs = "concat (map (map field_record_of \<circ> st_fields) types)"
  have t: "pod_slice 80 schema_type_of_bytes (pod_bytes schema_type_bytes ?trs) = ?trs"
    by (rule type_codec.pod_slice_bytes) (simp add: list_all_iff)
  have f: "pod_slice 48 schema_field_of_bytes (pod_bytes schema_field_bytes ?frs) = ?frs"
    by (rule field_codec.pod_slice_bytes) (auto simp: list_all_iff)
  have s: "sum_list (map (unat \<circ> ct_field_count) ?trs) = length ?frs"
    by (simp only: sum_field_counts [OF assms(1)] length_field_records)
  have d: "decode_types ?frs 0 ?trs = Ok types" using decode_types_encoded [OF assms(1), of "[]"] by simp
  have small: "length ?frs < 2 ^ 32" using assms(3) by (simp only: length_field_records)
  show ?thesis
  proof (rule encoded_parts [OF assms(2,3), of crc rest])
    fix h
    assume h: "schema_header_of_bytes (window 0 32 (encode_schema_payload crc types @ rest)) = h"
      "cs_schema_format h = SCHEMA_FORMAT_COMPACT_BINARY" "unat (cs_type_count h) = length types"
      "unat (cs_total_fields h) = length ?frs"
      "cs_schema_crc32 h = crc (window 32 (length types * 80 + length ?frs * 48) (encode_schema_payload crc types @ rest))"
      "window 32 (length types * 80) (encode_schema_payload crc types @ rest) = pod_bytes schema_type_bytes ?trs"
      "window (32 + length types * 80) (length ?frs * 48) (encode_schema_payload crc types @ rest) = pod_bytes schema_field_bytes ?frs"
      "length (encode_schema_payload crc types) = 32 + (length types * 80 + length ?frs * 48)"
    have c: "checked_mul (length ?frs) 48 = Some (length ?frs * 48)"
      "checked_add (length types * 80) (length ?frs * 48) = Some (length types * 80 + length ?frs * 48)"
      "checked_add 32 (length types * 80 + length ?frs * 48) = Some (32 + (length types * 80 + length ?frs * 48))"
      by (rule checked_small [OF small assms(2)])+
    have l: "\<not> length (encode_schema_payload crc types @ rest) < 32"
      "\<not> length (encode_schema_payload crc types @ rest) < 32 + (length types * 80 + length ?frs * 48)"
      by (simp_all only: h(8) length_append)
    show ?thesis
      by (simp only: decode_schema_payload_def Let_def h(1-7) c t f s d option.case l if_False simp_thms)
  qed
qed

section \<open>The about trailer is read back\<close>

lemma of_char_ascii_eval: "ascii (c # cs) = of_char c # ascii cs" "ascii [] = []"
  by (simp_all add: ascii_def)

lemma about_keys:
  "61 \<notin> set (ascii ''spec_version'')" "61 \<notin> set (ascii ''spec_url'')" "61 \<notin> set (ascii ''spec_sha256'')"
  "61 \<notin> set (ascii ''writer'')" "61 \<notin> set (ascii ''seal_hash_alg'')" "61 \<notin> set (ascii ''sig_alg'')"
  "list_all (\<lambda>k. list_all (\<lambda>b. b < 0x80 \<and> b \<noteq> 10 \<and> b \<noteq> 13) k)
    [ascii ''spec_version'', ascii ''spec_url'', ascii ''spec_sha256'', ascii ''writer'', ascii ''seal_hash_alg'', ascii ''sig_alg'']"
  by code_simp+

lemma ascii_inject: "ascii s = ascii t \<longleftrightarrow> s = t"
proof -
  have "unat (of_char c :: byte) = of_char c" for c
    using of_nat_of_char [of c, where 'a = "8 word", symmetric] by (simp add: unat_of_nat)
  then have "map (\<lambda>b. char_of (unat b)) (ascii s) = s" for s by (simp add: ascii_def comp_def)
  then show ?thesis by metis
qed

lemma text_lines_Cons: "10 \<notin> set l \<Longrightarrow> text_lines (l @ 10 # t) = strip_cr l # text_lines t"
  by (subst text_lines.simps) (simp add: takeWhile_append Let_def)

lemma text_lines_lines:
  "list_all (\<lambda>l. 10 \<notin> set l \<and> 13 \<notin> set l) ls \<Longrightarrow> text_lines (concat (map (\<lambda>l. l @ [10]) ls)) = ls"
proof (induction ls)
  case (Cons l ls)
  then have "strip_cr l = l" by (auto simp: strip_cr_def dest: last_in_set)
  with Cons show ?case by (simp add: text_lines_Cons)
qed (simp add: text_lines.simps)

lemma one_line_breaks [simp]: "10 \<notin> set (one_line v)" "13 \<notin> set (one_line v)"
  by (auto simp: one_line_def)

lemma one_line_utf8: "utf8_valid v \<Longrightarrow> utf8_valid (one_line v)"
  unfolding one_line_def by (rule utf8_map) auto

definition about_entry :: "byte list \<times> byte list \<Rightarrow> byte list" where
  "about_entry e = fst e @ 61 # one_line (snd e)"

definition about_all_entries :: "schema_about \<Rightarrow> (byte list \<times> byte list) list" where
  "about_all_entries a =
    [(ascii ''spec_version'', ab_spec_version a), (ascii ''spec_url'', ab_spec_url a),
     (ascii ''spec_sha256'', ab_spec_sha256 a), (ascii ''writer'', ab_writer a),
     (ascii ''seal_hash_alg'', ab_seal_hash_alg a), (ascii ''sig_alg'', ab_sig_alg a)]"

definition about_entries :: "schema_about \<Rightarrow> (byte list \<times> byte list) list" where
  "about_entries a =
    filter (\<lambda>(k, v). \<not> (v = [] \<and> (k = ascii ''seal_hash_alg'' \<or> k = ascii ''sig_alg''))) (about_all_entries a)"

lemma about_text_entries: "about_text a = concat (map (\<lambda>l. l @ [10]) (map about_entry (about_entries a)))"
proof -
  have "concat (map (\<lambda>(k, v). if P k v then [] else k @ [61] @ one_line v @ [10]) es) =
      concat (map (\<lambda>l. l @ [10]) (map about_entry (filter (\<lambda>(k, v). \<not> P k v) es)))" for P es
    by (induction es) (auto simp: about_entry_def)
  then show ?thesis unfolding about_text_def about_entries_def about_all_entries_def .
qed

lemma about_entry_plain:
  assumes "e \<in> set (about_entries a)"
  shows "10 \<notin> set (about_entry e)" "13 \<notin> set (about_entry e)" "list_all (\<lambda>b. b < 0x80) (fst e)"
    "snd e \<in> set [ab_spec_version a, ab_spec_url a, ab_spec_sha256 a, ab_writer a, ab_seal_hash_alg a, ab_sig_alg a]"
proof -
  have e: "e \<in> set (about_all_entries a)" using assms by (simp add: about_entries_def)
  then have "snd e \<in> set (map snd (about_all_entries a))" by simp
  then show "snd e \<in> set [ab_spec_version a, ab_spec_url a, ab_spec_sha256 a, ab_writer a, ab_seal_hash_alg a, ab_sig_alg a]"
    by (simp add: about_all_entries_def)
  from e have "fst e \<in> set (map fst (about_all_entries a))" by simp
  then have k: "list_all (\<lambda>b. b < 0x80 \<and> b \<noteq> 10 \<and> b \<noteq> 13) (fst e)"
    using about_keys(7) by (simp add: about_all_entries_def) (elim disjE; simp)
  then show "list_all (\<lambda>b. b < 0x80) (fst e)" by (simp add: list_all_iff)
  from k have "10 \<notin> set (fst e)" "13 \<notin> set (fst e)" by (auto simp: list_all_iff)
  then show "10 \<notin> set (about_entry e)" "13 \<notin> set (about_entry e)" by (simp_all add: about_entry_def)
qed

text \<open>What a value keeps: its line breaks are spaces.\<close>

definition about_clean :: "schema_about \<Rightarrow> schema_about" where
  "about_clean a = \<lparr> ab_spec_version = one_line (ab_spec_version a), ab_spec_url = one_line (ab_spec_url a),
     ab_spec_sha256 = one_line (ab_spec_sha256 a), ab_writer = one_line (ab_writer a),
     ab_seal_hash_alg = one_line (ab_seal_hash_alg a), ab_sig_alg = one_line (ab_sig_alg a) \<rparr>"

lemma about_line_entry:
  "61 \<notin> set k \<Longrightarrow> about_line a (k @ 61 # v) =
    (if k = ascii ''spec_version'' then a\<lparr> ab_spec_version := v \<rparr>
     else if k = ascii ''spec_url'' then a\<lparr> ab_spec_url := v \<rparr>
     else if k = ascii ''spec_sha256'' then a\<lparr> ab_spec_sha256 := v \<rparr>
     else if k = ascii ''writer'' then a\<lparr> ab_writer := v \<rparr>
     else if k = ascii ''seal_hash_alg'' then a\<lparr> ab_seal_hash_alg := v \<rparr>
     else if k = ascii ''sig_alg'' then a\<lparr> ab_sig_alg := v \<rparr> else a)"
proof -
  assume "61 \<notin> set k"
  then have "takeWhile (\<lambda>b. b \<noteq> 61) (k @ 61 # v) = k" by (induction k) auto
  then show ?thesis by (simp add: about_line_def)
qed

lemma about_entries_split:
  "about_entries a =
    [(ascii ''spec_version'', ab_spec_version a), (ascii ''spec_url'', ab_spec_url a),
     (ascii ''spec_sha256'', ab_spec_sha256 a), (ascii ''writer'', ab_writer a)] @
    (if ab_seal_hash_alg a = [] then [] else [(ascii ''seal_hash_alg'', ab_seal_hash_alg a)]) @
    (if ab_sig_alg a = [] then [] else [(ascii ''sig_alg'', ab_sig_alg a)])"
  by (simp add: about_entries_def about_all_entries_def ascii_inject)

lemma about_fold: "foldl about_line about_default (map about_entry (about_entries a)) = about_clean a"
  by (simp add: about_entries_split about_entry_def about_line_entry about_keys(1-6) ascii_inject about_default_def about_clean_def
      one_line_def)

text \<open>The about entry behind a catalogue is read back, with line breaks in its values as spaces.\<close>

theorem schema_about_roundtrip:
  assumes "length types < 2 ^ 16" "sum_list (map (length \<circ> st_fields) types) < 2 ^ 32" "length (about_text a) < 2 ^ 32"
    "list_all utf8_valid [ab_spec_version a, ab_spec_url a, ab_spec_sha256 a, ab_writer a, ab_seal_hash_alg a, ab_sig_alg a]"
  shows "decode_schema_about crc (encode_schema_payload crc types @ encode_schema_about crc a) = Ok (Some (about_clean a))"
proof -
  let ?rest = "encode_schema_about crc a"
  have m: "length SCHEMA_ABOUT_MAGIC = 8" by (simp add: SCHEMA_ABOUT_MAGIC_def)
  have r: "?rest = SCHEMA_ABOUT_MAGIC @ le32 (of_nat (length (about_text a))) @ le32 (crc (about_text a)) @ about_text a"
    by (simp add: encode_schema_about_def Let_def)
  have w: "\<not> length ?rest < 16" "window 0 8 ?rest = SCHEMA_ABOUT_MAGIC" "\<not> length ?rest < 16 + length (about_text a)"
    "unat (of_le (window 8 4 ?rest) :: u32) = length (about_text a)" "of_le (window 12 4 ?rest) = crc (about_text a)"
    "window 16 (length (about_text a)) ?rest = about_text a"
    using assms(3) by (simp_all add: r m window_append_skip window_append_here window_all unat_of_nat)
  have "utf8_valid (about_entry e)" if "e \<in> set (about_entries a)" for e
  proof -
    have "utf8_valid (snd e)" using about_entry_plain(4) [OF that] assms(4) by (auto simp: list_all_iff)
    moreover have "utf8_valid (fst e)" by (rule utf8_all_ascii) (rule about_entry_plain(3) [OF that])
    ultimately show ?thesis by (auto simp: about_entry_def utf8_append utf8_ascii_step one_line_utf8)
  qed
  then have "utf8_valid (concat (map (\<lambda>l. l @ [10]) (map about_entry es)))" if "set es \<subseteq> set (about_entries a)" for es
    using that by (induction es) (auto intro!: utf8_append simp: utf8_ascii_step)
  then have u: "utf8_valid (about_text a)" by (simp add: about_text_entries del: map_map)
  have l: "text_lines (about_text a) = map about_entry (about_entries a)"
    unfolding about_text_entries by (rule text_lines_lines) (auto simp: list_all_iff about_entry_plain(1,2))
  show ?thesis
    unfolding decode_schema_about_def schema_records_len_encoded [OF assms(1,2)] sum.case Let_def
    by (simp add: w u l about_fold)
qed

section \<open>Concrete inputs\<close>

definition sample_schema :: "schema_type_definition list" where
  "sample_schema =
    [\<lparr> st_type_id = 0, st_type_version = 1, st_name = ascii ''telemetry'', st_owning_pack = ascii ''core'', st_record_size = 32,
       st_fields =
         [\<lparr> sf_field_id = 1, sf_field_type = 4, sf_byte_offset = 0, sf_byte_len = 8, sf_null_allowed = False,
            sf_name = ascii ''timestamp'' \<rparr>] \<rparr>]"

definition sample_about :: schema_about where
  "sample_about = about_default\<lparr> ab_writer := ascii ''s3a'' @ [10], ab_sig_alg := ascii ''ed25519'' \<rparr>"

lemma sample_schema_fits:
  "list_all schema_type_fits sample_schema" "length sample_schema < 2 ^ 16"
  "sum_list (map (length \<circ> st_fields) sample_schema) < 2 ^ 32"
proof -
  have "list_all schema_name_fits (map ascii [''telemetry'', ''core'', ''timestamp''])" by code_simp
  then show "list_all schema_type_fits sample_schema" by (simp add: sample_schema_def schema_type_fits_def)
  show "length sample_schema < 2 ^ 16" "sum_list (map (length \<circ> st_fields) sample_schema) < 2 ^ 32"
    by (simp_all add: sample_schema_def)
qed

theorem schema_roundtrip_witness:
  "decode_schema_payload (\<lambda>_. 7) (encode_schema_payload (\<lambda>_. 7) sample_schema @ [1, 2]) = Ok sample_schema"
  by (rule schema_roundtrip) (rule sample_schema_fits)+

theorem schema_about_roundtrip_witness:
  "decode_schema_about (\<lambda>_. 7) (encode_schema_payload (\<lambda>_. 7) sample_schema @ encode_schema_about (\<lambda>_. 7) sample_about)
    = Ok (Some (sample_about\<lparr> ab_writer := ascii ''s3a'' @ [32] \<rparr>))"
proof -
  have "length (about_text sample_about) = 65" by code_simp
  then have "length (about_text sample_about) < 2 ^ 32" by simp
  moreover have "list_all utf8_valid [ab_spec_version sample_about, ab_spec_url sample_about, ab_spec_sha256 sample_about,
      ab_writer sample_about, ab_seal_hash_alg sample_about, ab_sig_alg sample_about]" by code_simp
  moreover have "about_clean sample_about = sample_about\<lparr> ab_writer := ascii ''s3a'' @ [32] \<rparr>" by code_simp
  ultimately show ?thesis
    using schema_about_roundtrip [OF sample_schema_fits(2,3), of sample_about "\<lambda>_. 7"] by simp
qed

end
