(* ===== verification/Core_Array.thy ===== *)
theory Core_Array
  imports Pod_Codec Core_Archive_Header
begin

text \<open>
  N-dimensional array tiles, \<^verbatim>\<open>crates/s3a-core/src/array.rs\<close>: the 320-byte header, the builder, the view
  and its row-major index.  SHA-256 is the parameter \<open>sha\<close>; a typed element is its bytes, and an alignment
  flag says whether the payload is aligned for the type it is cast to.  Sizes are \<^verbatim>\<open>usize\<close>; the product of
  \<^verbatim>\<open>expected_payload_bytes\<close> wraps as in a release build.
\<close>

section \<open>Header\<close>

definition MAX_ARRAY_DIMENSIONS :: nat where "MAX_ARRAY_DIMENSIONS = 8"

datatype array_data_type =
  DtInt8 | DtUInt8 | DtInt16 | DtUInt16 | DtInt32 | DtUInt32 | DtFloat32 | DtFloat64 | DtComplex64

fun dtype_element_size :: "array_data_type \<Rightarrow> nat" where
  "dtype_element_size DtInt8 = 1"
| "dtype_element_size DtUInt8 = 1"
| "dtype_element_size DtInt16 = 2"
| "dtype_element_size DtUInt16 = 2"
| "dtype_element_size DtInt32 = 4"
| "dtype_element_size DtUInt32 = 4"
| "dtype_element_size DtFloat32 = 4"
| "dtype_element_size DtFloat64 = 8"
| "dtype_element_size DtComplex64 = 8"

fun dtype_code :: "array_data_type \<Rightarrow> u16" where
  "dtype_code DtInt8 = 1"
| "dtype_code DtUInt8 = 2"
| "dtype_code DtInt16 = 3"
| "dtype_code DtUInt16 = 4"
| "dtype_code DtInt32 = 5"
| "dtype_code DtUInt32 = 6"
| "dtype_code DtFloat32 = 7"
| "dtype_code DtFloat64 = 8"
| "dtype_code DtComplex64 = 9"

definition dtype_from_u16 :: "u16 \<Rightarrow> array_data_type option" where
  "dtype_from_u16 val =
    (if val = 1 then Some DtInt8 else if val = 2 then Some DtUInt8 else if val = 3 then Some DtInt16
     else if val = 4 then Some DtUInt16 else if val = 5 then Some DtInt32 else if val = 6 then Some DtUInt32
     else if val = 7 then Some DtFloat32 else if val = 8 then Some DtFloat64 else if val = 9 then Some DtComplex64
     else None)"

record array_header =
  ar_magic :: "byte list"
  ar_version :: u16
  ar_ndim :: u16
  ar_dtype :: u16
  ar_compression_codec :: u16
  ar_reserved16 :: u32
  ar_shape :: "u64 list"
  ar_chunk_shape :: "u64 list"
  ar_chunk_coords :: "u64 list"
  ar_fill_value :: "byte list"
  ar_chunk_hash :: "byte list"
  ar_axis_names :: "byte list"
  ar_reserved :: "byte list"

definition ARRAY_MAGIC :: "byte list" where "ARRAY_MAGIC = [0x53, 0x33, 0x41, 0x41]"
definition ARRAY_HEADER_SIZE :: nat where "ARRAY_HEADER_SIZE = 320"

definition array_header_bytes :: "array_header \<Rightarrow> byte list" where
  "array_header_bytes h =
     ar_magic h @ le16 (ar_version h) @ le16 (ar_ndim h) @ le16 (ar_dtype h) @ le16 (ar_compression_codec h) @
     le32 (ar_reserved16 h) @ u64s_bytes (ar_shape h) @ u64s_bytes (ar_chunk_shape h) @ u64s_bytes (ar_chunk_coords h) @
     ar_fill_value h @ ar_chunk_hash h @ ar_axis_names h @ ar_reserved h"

definition array_header_of_bytes :: "byte list \<Rightarrow> array_header" where
  "array_header_of_bytes bs =
     \<lparr> ar_magic = window 0 4 bs, ar_version = of_le (window 4 2 bs), ar_ndim = of_le (window 6 2 bs),
       ar_dtype = of_le (window 8 2 bs), ar_compression_codec = of_le (window 10 2 bs), ar_reserved16 = of_le (window 12 4 bs),
       ar_shape = u64s_of_bytes 8 (window 16 64 bs), ar_chunk_shape = u64s_of_bytes 8 (window 80 64 bs),
       ar_chunk_coords = u64s_of_bytes 8 (window 144 64 bs), ar_fill_value = window 208 8 bs,
       ar_chunk_hash = window 216 32 bs, ar_axis_names = window 248 64 bs, ar_reserved = window 312 8 bs \<rparr>"

definition array_header_shape :: "array_header \<Rightarrow> bool" where
  "array_header_shape h \<longleftrightarrow>
     length (ar_magic h) = 4 \<and> length (ar_shape h) = 8 \<and> length (ar_chunk_shape h) = 8 \<and> length (ar_chunk_coords h) = 8 \<and>
     length (ar_fill_value h) = 8 \<and> length (ar_chunk_hash h) = 32 \<and> length (ar_axis_names h) = 64 \<and> length (ar_reserved h) = 8"

text \<open>The loop of \<^verbatim>\<open>new\<close> rejects the first zero dimension.\<close>

definition array_header_new ::
  "nat \<Rightarrow> array_data_type \<Rightarrow> u64 list \<Rightarrow> u64 list \<Rightarrow> (string, array_header) result" where
  "array_header_new ndim dtype shape chunk_coords =
    (if ndim = 0 \<or> MAX_ARRAY_DIMENSIONS < ndim then Err ''ndim must be between 1 and 8''
     else if length shape < ndim \<or> length chunk_coords < ndim then Err ''shape and chunk_coords length must match ndim''
     else if 0 \<in> set (take ndim shape) then Err ''shape dimensions must be greater than zero''
     else
       let fixed_shape = take ndim shape @ replicate (8 - ndim) 0;
           fixed_chunk_coords = take ndim chunk_coords @ replicate (8 - ndim) 0
       in Ok \<lparr> ar_magic = ARRAY_MAGIC, ar_version = 1, ar_ndim = of_nat ndim, ar_dtype = dtype_code dtype,
               ar_compression_codec = 0, ar_reserved16 = 0, ar_shape = fixed_shape, ar_chunk_shape = fixed_shape,
               ar_chunk_coords = fixed_chunk_coords, ar_fill_value = replicate 8 0, ar_chunk_hash = replicate 32 0,
               ar_axis_names = replicate 64 0, ar_reserved = replicate 8 0 \<rparr>)"

definition array_header_valid :: "array_header \<Rightarrow> bool" where
  "array_header_valid h \<longleftrightarrow> ar_magic h = ARRAY_MAGIC \<and> ar_version h = 1 \<and> 1 \<le> ar_ndim h \<and> unat (ar_ndim h) \<le> MAX_ARRAY_DIMENSIONS"

definition total_elements :: "array_header \<Rightarrow> nat" where
  "total_elements h = fold (\<lambda>i count. min (count * unat (ar_shape h ! i)) (2 ^ 64 - 1)) [0..<unat (ar_ndim h)] 1"

definition header_element_size :: "array_header \<Rightarrow> nat" where
  "header_element_size h = (case dtype_from_u16 (ar_dtype h) of Some d \<Rightarrow> dtype_element_size d | None \<Rightarrow> 1)"

definition expected_payload_bytes :: "array_header \<Rightarrow> nat" where
  "expected_payload_bytes h = total_elements h * header_element_size h mod 2 ^ 64"

definition header_set_axis_names :: "byte list \<Rightarrow> array_header \<Rightarrow> array_header" where
  "header_set_axis_names names h =
    (let n = min (length names) 63
     in h\<lparr> ar_axis_names := (patch 0 (take n names) (ar_axis_names h))[n := 0] \<rparr>)"

definition axis_names_as_str :: "array_header \<Rightarrow> byte list" where
  "axis_names_as_str h = (let s = takeWhile (\<lambda>b. b \<noteq> 0) (ar_axis_names h) in if utf8_valid s then s else [])"

section \<open>Builder\<close>

record array_builder =
  ab_header :: array_header
  ab_data :: "byte list"

definition array_builder_new ::
  "nat \<Rightarrow> array_data_type \<Rightarrow> u64 list \<Rightarrow> u64 list \<Rightarrow> (string, array_builder) result" where
  "array_builder_new ndim dtype shape chunk_coords =
    (case array_header_new ndim dtype shape chunk_coords of
       Err e \<Rightarrow> Err e | Ok h \<Rightarrow> Ok \<lparr> ab_header = h, ab_data = [] \<rparr>)"

definition set_fill_value :: "byte list \<Rightarrow> array_builder \<Rightarrow> (string, unit) result \<times> array_builder" where
  "set_fill_value fill b =
    (if 8 < length fill then (Err ''fill value exceeds 8 bytes'', b)
     else (Ok (), b\<lparr> ab_header := (ab_header b)\<lparr> ar_fill_value := patch 0 fill (replicate 8 0) \<rparr> \<rparr>))"

definition builder_set_axis_names :: "byte list \<Rightarrow> array_builder \<Rightarrow> array_builder" where
  "builder_set_axis_names names b = b\<lparr> ab_header := header_set_axis_names names (ab_header b) \<rparr>"

definition store_data :: "(byte list \<Rightarrow> byte list) \<Rightarrow> byte list \<Rightarrow> array_builder \<Rightarrow> array_builder" where
  "store_data sha raw b = b\<lparr> ab_header := (ab_header b)\<lparr> ar_chunk_hash := sha raw \<rparr>, ab_data := raw \<rparr>"

definition set_data :: "(byte list \<Rightarrow> byte list) \<Rightarrow> byte list list \<Rightarrow> array_builder \<Rightarrow> (string, unit) result \<times> array_builder" where
  "set_data sha elements b =
    (if length elements \<noteq> total_elements (ab_header b) then (Err ''element count does not match array shape'', b)
     else let raw = concat elements in
       if length raw \<noteq> expected_payload_bytes (ab_header b) then (Err ''byte length mismatch for array dtype'', b)
       else (Ok (), store_data sha raw b))"

definition set_raw_data :: "(byte list \<Rightarrow> byte list) \<Rightarrow> byte list \<Rightarrow> array_builder \<Rightarrow> (string, unit) result \<times> array_builder" where
  "set_raw_data sha raw b =
    (if length raw \<noteq> expected_payload_bytes (ab_header b) then (Err ''byte length mismatch for array shape and dtype'', b)
     else (Ok (), store_data sha raw b))"

definition array_build :: "array_builder \<Rightarrow> byte list" where
  "array_build b = array_header_bytes (ab_header b) @ ab_data b"

section \<open>View\<close>

record array_view =
  av_header :: array_header
  av_data :: "byte list"

definition array_parse :: "bool \<Rightarrow> byte list \<Rightarrow> (string, array_view) result" where
  "array_parse align_ok payload =
    (if length payload < ARRAY_HEADER_SIZE then Err ''payload too small for ArrayTileHeader''
     else if \<not> align_ok then Err ''misaligned tile header (A4: borrowed view requires 8-byte alignment)''
     else let header = array_header_of_bytes (window 0 ARRAY_HEADER_SIZE payload) in
     if \<not> array_header_valid header then Err ''invalid ArrayTileHeader magic or version''
     else
       let expected_bytes = expected_payload_bytes header; data = drop ARRAY_HEADER_SIZE payload in
       if length data < expected_bytes then Err ''payload truncated: fewer data bytes than declared by array shape''
       else Ok \<lparr> av_header = header, av_data = take expected_bytes data \<rparr>)"

definition read_elements :: "nat \<Rightarrow> bool \<Rightarrow> array_view \<Rightarrow> (string, byte list list) result" where
  "read_elements sz align_ok v =
    (case try_cast_slice sz align_ok (av_data v) of None \<Rightarrow> Err ''cast failed for array elements'' | Some es \<Rightarrow> Ok es)"

definition verify_chunk_hash :: "(byte list \<Rightarrow> byte list) \<Rightarrow> array_view \<Rightarrow> bool" where
  "verify_chunk_hash sha v \<longleftrightarrow> sha (av_data v) = ar_chunk_hash (av_header v)"

fun linear_loop :: "nat \<Rightarrow> (u64 \<times> u64) list \<Rightarrow> nat option" where
  "linear_loop index [] = Some index"
| "linear_loop index ((coord, dim_size) # rest) =
    (if dim_size \<le> coord then None else linear_loop ((index * unat dim_size + unat coord) mod 2 ^ 64) rest)"

definition linear_index :: "array_view \<Rightarrow> u64 list \<Rightarrow> nat option" where
  "linear_index v local_coords =
    (let ndim = unat (ar_ndim (av_header v)) in
     if length local_coords < ndim then None
     else linear_loop 0 (map (\<lambda>i. (local_coords ! i, ar_shape (av_header v) ! i)) [0..<ndim]))"

definition get_element :: "nat \<Rightarrow> bool \<Rightarrow> array_view \<Rightarrow> u64 list \<Rightarrow> byte list option" where
  "get_element sz align_ok v local_coords =
    (case linear_index v local_coords of
       None \<Rightarrow> None
     | Some idx \<Rightarrow>
         (case read_elements sz align_ok v of
            Err _ \<Rightarrow> None
          | Ok es \<Rightarrow> if idx < length es then Some (es ! idx) else None))"

section \<open>The row-major index\<close>

fun row_major :: "nat list \<Rightarrow> nat list \<Rightarrow> nat" where
  "row_major (c # cs) (d # ds) = c * prod_list ds + row_major cs ds"
| "row_major _ _ = 0"

lemma linear_loop_range: "linear_loop index ps \<noteq> None \<longleftrightarrow> (\<forall>(c, d) \<in> set ps. c < d)"
  by (induction index ps rule: linear_loop.induct) (auto simp: not_less)

lemma row_major_less: "list_all2 (<) cs ds \<Longrightarrow> row_major cs ds < prod_list ds"
proof (induction rule: list_all2_induct)
  case (Cons c cs d ds)
  have "c * prod_list ds + row_major cs ds < Suc c * prod_list ds" using Cons.IH by simp
  also have "\<dots> \<le> d * prod_list ds" using Cons.hyps by (intro mult_le_mono1) simp
  finally show ?case by simp
qed simp

lemma row_major_inj:
  "list_all2 (<) cs ds \<Longrightarrow> list_all2 (<) cs' ds \<Longrightarrow> row_major cs ds = row_major cs' ds \<Longrightarrow> cs = cs'"
proof (induction ds arbitrary: cs cs')
  case (Cons d ds)
  obtain c e rest rest' where c: "cs = c # rest" "cs' = e # rest'" "list_all2 (<) rest ds" "list_all2 (<) rest' ds"
    using Cons.prems by (auto simp: list_all2_Cons2)
  have lt: "row_major rest ds < prod_list ds" "row_major rest' ds < prod_list ds" using c by (simp_all add: row_major_less)
  have eq: "c * prod_list ds + row_major rest ds = e * prod_list ds + row_major rest' ds" using Cons.prems(3) c by simp
  have "c = e" using arg_cong [OF eq, of "\<lambda>n. n div prod_list ds"] lt by simp
  moreover from this have "rest = rest'" using eq c Cons.IH by simp
  ultimately show ?case using c by simp
qed simp

lemma row_major_surj: "n < prod_list ds \<Longrightarrow> \<exists>cs. list_all2 (<) cs ds \<and> row_major cs ds = n"
proof (induction ds arbitrary: n)
  case (Cons d ds)
  then have pos: "0 < prod_list ds" by (cases "prod_list ds") auto
  then obtain cs where cs: "list_all2 (<) cs ds" "row_major cs ds = n mod prod_list ds" using Cons.IH [of "n mod prod_list ds"] by auto
  have "n div prod_list ds < d" using Cons.prems pos by (simp add: div_less_iff_less_mult)
  then show ?case using cs by (intro exI [of _ "(n div prod_list ds) # cs"]) simp
qed simp

lemma coords_unat: "list_all2 (<) (map unat cs) (map unat ds) \<longleftrightarrow> list_all2 (<) cs (ds :: u64 list)"
proof -
  have "(\<lambda>x y :: u64. unat x < unat y) = (<)" by (intro ext) (simp add: word_less_nat_alt)
  then show ?thesis by (simp add: list_all2_map1 list_all2_map2)
qed

text \<open>The loop never wraps as long as the array has fewer than \<open>2\<^sup>6\<^sup>4\<close> elements.\<close>

lemma linear_loop_value:
  assumes "list_all2 (<) cs ds" "Suc index * prod_list (map unat ds) \<le> 2 ^ 64"
  shows "linear_loop index (zip cs ds) = Some (index * prod_list (map unat ds) + row_major (map unat cs) (map unat ds))"
  using assms
proof (induction arbitrary: index rule: list_all2_induct)
  case (Cons c cs d ds)
  let ?p = "prod_list (map unat ds)"
  have "list_all2 (<) (map unat cs) (map unat ds)" using Cons.hyps(2) by (simp only: coords_unat)
  then have pos: "0 < ?p" using row_major_less by fastforce
  have cd: "unat c < unat d" using Cons.hyps(1) by (simp add: word_less_nat_alt)
  have "Suc (index * unat d + unat c) \<le> Suc index * unat d" using cd by simp
  then have "Suc (index * unat d + unat c) * ?p \<le> Suc index * unat d * ?p" by (rule mult_le_mono1)
  also have "\<dots> \<le> 2 ^ 64" using Cons.prems by (simp only: list.map prod_list.Cons mult.assoc)
  finally have le: "Suc (index * unat d + unat c) * ?p \<le> 2 ^ 64" .
  have "Suc (index * unat d + unat c) * 1 \<le> Suc (index * unat d + unat c) * ?p" using pos by (intro mult_le_mono2) simp
  then have "Suc (index * unat d + unat c) \<le> 2 ^ 64" using le by (simp only: mult_1_right)
  then have "index * unat d + unat c < 2 ^ 64" by simp
  then show ?case using Cons.IH [OF le] Cons.hyps(1) by (simp add: not_le algebra_simps)
qed simp

lemma total_elements_fold:
  fixes ds :: "nat list"
  assumes "prod_list ds < 2 ^ 64"
  shows "fold (\<lambda>d count. min (count * d) (2 ^ 64 - 1)) ds 1 = prod_list ds"
proof -
  have zero: "fold (\<lambda>d count. min (count * d) 18446744073709551615) ds 0 = 0" for ds :: "nat list" by (induction ds) simp_all
  have "fold (\<lambda>d count. min (count * d) (2 ^ 64 - 1)) ds a = a * prod_list ds" if "a * prod_list ds < 2 ^ 64" for a
    using that
  proof (induction ds arbitrary: a)
    case (Cons d ds)
    show ?case
    proof (cases "prod_list ds = 0")
      case True
      have "fold (\<lambda>d count. min (count * d) (2 ^ 64 - 1)) ds b = 0" for b
        using True
      proof (induction ds arbitrary: b)
        case (Cons e ds)
        then show ?case by (cases "e = 0") (simp_all add: zero)
      qed simp
      then show ?thesis using True by simp
    next
      case False
      then have "a * d * 1 \<le> a * d * prod_list ds" by (intro mult_le_mono2) simp
      also have "\<dots> < 2 ^ 64" using Cons.prems by (simp only: prod_list.Cons mult.assoc)
      finally have "a * d \<le> 2 ^ 64 - 1" by simp
      then show ?thesis using Cons by (simp add: mult.assoc min_absorb1)
    qed
  qed simp
  from this [of 1] assms show ?thesis by simp
qed

definition array_dims :: "array_header \<Rightarrow> u64 list" where
  "array_dims h = take (unat (ar_ndim h)) (ar_shape h)"

lemma total_elements_prod:
  assumes "unat (ar_ndim h) \<le> length (ar_shape h)" "prod_list (map unat (array_dims h)) < 2 ^ 64"
  shows "total_elements h = prod_list (map unat (array_dims h))"
proof -
  let ?n = "unat (ar_ndim h)"
  have "map unat (array_dims h) = map (\<lambda>i. unat (ar_shape h ! i)) [0..<?n]"
    by (rule nth_equalityI) (use assms(1) in \<open>simp_all add: array_dims_def\<close>)
  then show ?thesis using total_elements_fold [OF assms(2)] by (simp add: total_elements_def fold_map comp_def)
qed

lemma length_u64s_of [simp]: "length (ar_shape (array_header_of_bytes bs)) = 8"
  by (simp add: array_header_of_bytes_def)

lemma array_parse_Ok:
  assumes "array_parse ok payload = Ok v"
  shows "array_header_valid (av_header v)" "length (ar_shape (av_header v)) = 8" "unat (ar_ndim (av_header v)) \<le> 8"
    "length (av_data v) = expected_payload_bytes (av_header v)"
  using assms by (auto simp: array_parse_def Let_def array_header_valid_def MAX_ARRAY_DIMENSIONS_def split: if_splits)

lemma linear_index_value:
  assumes "array_parse ok payload = Ok v" "prod_list (map unat (array_dims (av_header v))) < 2 ^ 64"
    "list_all2 (<) cs (array_dims (av_header v))"
  shows "linear_index v cs = Some (row_major (map unat cs) (map unat (array_dims (av_header v))))"
proof -
  let ?h = "av_header v" and ?ds = "array_dims (av_header v)" and ?n = "unat (ar_ndim (av_header v))"
  note ok = array_parse_Ok [OF assms(1)]
  have l: "length cs = ?n" using list_all2_lengthD [OF assms(3)] ok(2,3) by (simp add: array_dims_def)
  have "map (\<lambda>i. (cs ! i, ar_shape ?h ! i)) [0..<?n] = zip cs ?ds"
    by (rule nth_equalityI) (use l ok(2,3) in \<open>simp_all add: array_dims_def\<close>)
  then show ?thesis using linear_loop_value [OF assms(3), of 0] assms(2) l by (simp add: linear_index_def)
qed

text \<open>In a parsed array of fewer than \<open>2\<^sup>6\<^sup>4\<close> elements the row-major index is a bijection between the coordinates
  within the shape and the element numbers.\<close>

theorem array_index_bijection:
  assumes "array_parse ok payload = Ok v" "prod_list (map unat (array_dims (av_header v))) < 2 ^ 64"
  shows "bij_betw (linear_index v) {cs. list_all2 (<) cs (array_dims (av_header v))} (Some ` {..<total_elements (av_header v)})"
proof -
  let ?h = "av_header v" and ?ds = "array_dims (av_header v)" and ?n = "unat (ar_ndim (av_header v))"
  note ok = array_parse_Ok [OF assms(1)]
  have tot: "total_elements ?h = prod_list (map unat ?ds)" using total_elements_prod ok(2,3) assms(2) by simp
  note idx = linear_index_value [OF assms]
  note nat = coords_unat [of _ ?ds]
  show ?thesis
  proof (rule bij_betwI')
    fix cs cs' assume c: "cs \<in> {cs. list_all2 (<) cs ?ds}" "cs' \<in> {cs. list_all2 (<) cs ?ds}"
    show "linear_index v cs = linear_index v cs' \<longleftrightarrow> cs = cs'"
    proof
      assume "linear_index v cs = linear_index v cs'"
      then have "row_major (map unat cs) (map unat ?ds) = row_major (map unat cs') (map unat ?ds)" using c idx by simp
      with c have "map unat cs = map unat cs'" by (intro row_major_inj [of _ "map unat ?ds"]) (simp_all only: nat mem_Collect_eq)
      then show "cs = cs'" by (rule map_injective [where f = unat]) (simp_all add: inj_def word_unat_eq_iff)
    qed simp
  next
    fix cs assume "cs \<in> {cs. list_all2 (<) cs ?ds}"
    then show "linear_index v cs \<in> Some ` {..<total_elements ?h}" using idx row_major_less nat by (simp add: tot)
  next
    fix k assume "k \<in> Some ` {..<total_elements ?h}"
    then obtain n where n: "k = Some n" "n < prod_list (map unat ?ds)" by (auto simp: tot)
    obtain cs where cs: "list_all2 (<) cs (map unat ?ds)" "row_major cs (map unat ?ds) = n" using row_major_surj [OF n(2)] by auto
    have "c < 2 ^ 64" if "c \<in> set cs" for c
    proof -
      obtain i where i: "i < length cs" "cs ! i = c" using \<open>c \<in> set cs\<close> by (auto simp: in_set_conv_nth)
      then have "c < unat (?ds ! i)" using cs(1) by (auto simp: list_all2_conv_all_nth)
      also have "unat (?ds ! i) < 2 ^ 64" by (rule order.strict_trans2 [OF unsigned_less]) simp
      finally show "c < 2 ^ 64" .
    qed
    then have m: "map unat (map of_nat cs :: u64 list) = cs" by (simp add: map_idI unat_of_nat)
    then have "list_all2 (<) (map of_nat cs) ?ds" using cs(1) nat [of "map of_nat cs"] by (simp only:)
    then show "\<exists>x \<in> {cs. list_all2 (<) cs ?ds}. k = linear_index v x"
      using idx [of "map of_nat cs"] m cs(2) n(1) by (intro bexI [of _ "map of_nat cs"]) (simp_all only: mem_Collect_eq)
  qed
qed

section \<open>What is built is read back\<close>

lemma array_header_layout:
  "array_header_shape h \<Longrightarrow> length (array_header_bytes h) = 320"
  "array_header_shape h \<Longrightarrow> array_header_of_bytes (array_header_bytes h) = h"
  subgoal by (simp add: array_header_shape_def array_header_bytes_def)
  subgoal
    using u64s_of_bytes_bytes [of "ar_shape h"] u64s_of_bytes_bytes [of "ar_chunk_shape h"] u64s_of_bytes_bytes [of "ar_chunk_coords h"]
    by (simp add: array_header_shape_def array_header_bytes_def array_header_of_bytes_def window_append_skip window_append_here
        window_all)
  done

text \<open>The invariant of a builder: its header has the shape of the structure and is valid.\<close>

definition builder_wf :: "array_builder \<Rightarrow> bool" where
  "builder_wf b \<longleftrightarrow> array_header_shape (ab_header b) \<and> array_header_valid (ab_header b)"

lemma builder_wf_new: "array_builder_new ndim dtype shape coords = Ok b \<Longrightarrow> builder_wf b"
proof -
  assume b: "array_builder_new ndim dtype shape coords = Ok b"
  then have n: "0 < ndim" "ndim \<le> 8" "ndim \<le> length shape" "ndim \<le> length coords"
    by (auto simp: array_builder_new_def array_header_new_def MAX_ARRAY_DIMENSIONS_def Let_def split: if_splits)
  have u: "unat (of_nat ndim :: u16) = ndim" using n(2) by (simp add: unat_of_nat)
  then have "1 \<le> (of_nat ndim :: u16)" using n(1) by (simp add: word_le_nat_alt)
  with b n u show ?thesis
    by (auto simp: array_builder_new_def array_header_new_def MAX_ARRAY_DIMENSIONS_def Let_def builder_wf_def array_header_shape_def
        array_header_valid_def ARRAY_MAGIC_def split: if_splits)
qed

lemma builder_wf_ops:
  "builder_wf b \<Longrightarrow> builder_wf (snd (set_fill_value fill b))"
  "builder_wf b \<Longrightarrow> builder_wf (builder_set_axis_names names b)"
  "builder_wf b \<Longrightarrow> length (sha raw) = 32 \<Longrightarrow> builder_wf (store_data sha raw b)"
  by (simp_all add: builder_wf_def set_fill_value_def builder_set_axis_names_def header_set_axis_names_def store_data_def
      array_header_shape_def array_header_valid_def Let_def ARRAY_MAGIC_def)

lemma axis_names_roundtrip:
  assumes "array_header_shape h" "length names < 64" "0 \<notin> set names" "utf8_valid names"
  shows "axis_names_as_str (header_set_axis_names names h) = names"
proof -
  have l: "length (ar_axis_names h) = 64" using assms(1) by (simp add: array_header_shape_def)
  have "(patch 0 names (ar_axis_names h))[length names := 0] = names @ 0 # drop (Suc (length names)) (ar_axis_names h)"
    using assms(2) l by (simp add: patch_def list_update_append) (metis Cons_nth_drop_Suc list_update_code(2))
  moreover have "takeWhile (\<lambda>b. b \<noteq> 0) (names @ 0 # rest) = names" for rest
    using assms(3) by (auto simp: takeWhile_append)
  ultimately show ?thesis
    using assms(2,4) by (simp add: axis_names_as_str_def header_set_axis_names_def Let_def min_absorb1)
qed

lemma parse_built:
  assumes "builder_wf b" "length (ab_data b) = expected_payload_bytes (ab_header b)"
  shows "array_parse True (array_build b) = Ok \<lparr> av_header = ab_header b, av_data = ab_data b \<rparr>"
proof -
  have "array_header_shape (ab_header b)" "array_header_valid (ab_header b)" using assms(1) by (simp_all add: builder_wf_def)
  then show ?thesis using assms(2)
    by (simp add: array_parse_def array_build_def ARRAY_HEADER_SIZE_def array_header_layout window_append_here Let_def)
qed

text \<open>Elements stored by \<^verbatim>\<open>set_data\<close> are read back one by one at their coordinates from the built payload, and the
  chunk hash of the view verifies.\<close>

theorem array_build_roundtrip:
  assumes "builder_wf b" "set_data sha elements b = (Ok (), b')" "\<And>x. length (sha x) = 32"
    and "0 < sz" "list_all (\<lambda>e. length e = sz) elements" "list_all2 (<) cs (array_dims (ab_header b))"
    and "prod_list (map unat (array_dims (ab_header b))) < 2 ^ 64"
  shows "\<exists>v. array_parse True (array_build b') = Ok v \<and> verify_chunk_hash sha v
    \<and> get_element sz True v cs = Some (elements ! row_major (map unat cs) (map unat (array_dims (ab_header b))))"
proof -
  have b': "b' = store_data sha (concat elements) b" "length (concat elements) = expected_payload_bytes (ab_header b)"
    "length elements = total_elements (ab_header b)"
    using assms(2) by (auto simp: set_data_def Let_def split: if_splits)
  have same: "expected_payload_bytes (h\<lparr> ar_chunk_hash := x \<rparr>) = expected_payload_bytes h" "array_dims (h\<lparr> ar_chunk_hash := x \<rparr>) = array_dims h"
    for h x by (simp_all add: expected_payload_bytes_def total_elements_def header_element_size_def array_dims_def)
  let ?v = "\<lparr> av_header = ab_header b', av_data = concat elements \<rparr>"
  have wf: "builder_wf b'" unfolding b'(1) by (rule builder_wf_ops(3)) (rule assms(1), rule assms(3))
  have parse: "array_parse True (array_build b') = Ok ?v"
    using parse_built [OF wf] b' by (simp add: store_data_def same)
  have dims: "array_dims (ab_header b') = array_dims (ab_header b)" by (simp add: b'(1) store_data_def same)
  let ?i = "row_major (map unat cs) (map unat (array_dims (ab_header b)))"
  have h: "length (ar_shape (ab_header b)) = 8" "unat (ar_ndim (ab_header b)) \<le> 8"
    using assms(1) by (simp_all add: builder_wf_def array_header_shape_def array_header_valid_def MAX_ARRAY_DIMENSIONS_def)
  have i: "?i < length elements"
    using row_major_less [of "map unat cs" "map unat (array_dims (ab_header b))"] assms(6,7) b'(3)
    by (simp add: coords_unat total_elements_prod h)
  have "length cs = unat (ar_ndim (ab_header b))" using list_all2_lengthD [OF assms(6)] h by (simp add: array_dims_def)
  moreover have "map (\<lambda>i. (cs ! i, ar_shape (ab_header b) ! i)) [0..<unat (ar_ndim (ab_header b))] = zip cs (array_dims (ab_header b))"
    by (rule nth_equalityI) (use calculation h in \<open>simp_all add: array_dims_def\<close>)
  ultimately have li: "linear_index ?v cs = Some ?i"
    using linear_loop_value [OF assms(6), of 0] assms(7) by (simp add: linear_index_def b'(1) store_data_def)
  have cells: "pod_codec id id sz (\<lambda>e. length e = sz)" by unfold_locales (simp_all add: assms(4))
  have len: "length (concat elements) = length elements * sz"
    using pod_codec.length_pod_bytes [OF cells assms(5)] by (simp add: pod_bytes_def)
  have "window (?i * sz) sz (concat elements) = elements ! ?i"
    using pod_codec.window_pod_bytes [OF cells assms(5) i, of "[]"] by (simp add: pod_bytes_def)
  then have "get_element sz True ?v cs = Some (elements ! ?i)"
    using i assms(4) by (simp add: get_element_def li read_elements_def try_cast_slice_def len)
  moreover have "verify_chunk_hash sha ?v" by (simp add: verify_chunk_hash_def b'(1) store_data_def)
  ultimately show ?thesis using parse by blast
qed

definition sample_builder :: array_builder where
  "sample_builder = (case array_builder_new 2 DtUInt8 [2, 3] [0, 0] of Ok b \<Rightarrow> b | Err _ \<Rightarrow> undefined)"

lemma sample_builder_new: "array_builder_new 2 DtUInt8 [2, 3] [0, 0] = Ok sample_builder"
  by (simp add: sample_builder_def array_builder_new_def array_header_new_def MAX_ARRAY_DIMENSIONS_def Let_def)

lemma sample_builder_dims:
  "array_dims (ab_header sample_builder) = [2, 3]" "ar_dtype (ab_header sample_builder) = 2"
  "total_elements (ab_header sample_builder) = 6" "expected_payload_bytes (ab_header sample_builder) = 6"
proof -
  have h: "ar_ndim (ab_header sample_builder) = 2" "ar_shape (ab_header sample_builder) = [2, 3, 0, 0, 0, 0, 0, 0]"
    "ar_dtype (ab_header sample_builder) = 2"
    by (simp_all add: sample_builder_def array_builder_new_def array_header_new_def MAX_ARRAY_DIMENSIONS_def Let_def replicate_eval)
  have u: "[0..<2] = [0, 1 :: nat]" by (simp add: upt_rec)
  show "array_dims (ab_header sample_builder) = [2, 3]" "ar_dtype (ab_header sample_builder) = 2" by (simp_all add: array_dims_def h)
  show t: "total_elements (ab_header sample_builder) = 6" by (simp add: total_elements_def h u)
  show "expected_payload_bytes (ab_header sample_builder) = 6"
    by (simp add: expected_payload_bytes_def t header_element_size_def h dtype_from_u16_def)
qed

definition sample_sha :: "byte list \<Rightarrow> byte list" where
  "sample_sha x = replicate 32 (of_nat (length x))"

theorem array_build_roundtrip_witness:
  "\<exists>v. array_parse True (array_build (store_data sample_sha [10, 11, 12, 13, 14, 15] sample_builder)) = Ok v \<and> verify_chunk_hash sample_sha v
    \<and> get_element 1 True v [1, 2] = Some [15]"
proof -
  have "set_data sample_sha [[10], [11], [12], [13], [14], [15]] sample_builder = (Ok (), store_data sample_sha [10, 11, 12, 13, 14, 15] sample_builder)"
    by (simp add: set_data_def sample_builder_dims)
  then show ?thesis
    using array_build_roundtrip [OF builder_wf_new [OF sample_builder_new], of sample_sha "[[10], [11], [12], [13], [14], [15]]" _ 1 "[1, 2]"]
    by (simp add: sample_builder_dims sample_sha_def)
qed

theorem array_index_bijection_witness:
  "\<exists>v. array_parse True (array_build (store_data sample_sha [10, 11, 12, 13, 14, 15] sample_builder)) = Ok v
    \<and> bij_betw (linear_index v) {cs. list_all2 (<) cs [2, 3]} (Some ` {..<6})"
proof -
  let ?b = "store_data sample_sha [10, 11, 12, 13, 14, 15] sample_builder"
  have h: "array_dims (ab_header ?b) = [2, 3]" "total_elements (ab_header ?b) = 6" "expected_payload_bytes (ab_header ?b) = 6"
    using sample_builder_dims
    by (simp_all add: store_data_def array_dims_def total_elements_def expected_payload_bytes_def header_element_size_def)
  have "array_parse True (array_build ?b) = Ok \<lparr> av_header = ab_header ?b, av_data = ab_data ?b \<rparr>"
  proof (rule parse_built)
    show "builder_wf ?b" by (rule builder_wf_ops(3)) (simp_all add: builder_wf_new [OF sample_builder_new] sample_sha_def)
    show "length (ab_data ?b) = expected_payload_bytes (ab_header ?b)" unfolding h(3) by (simp add: store_data_def)
  qed
  then show ?thesis using array_index_bijection [of True "array_build ?b"] h by simp
qed

text \<open>The size check of the parser wraps: a header that declares \<open>2\<^sup>6\<^sup>1\<close> numbers of eight bytes is accepted with no data
  behind it.\<close>

theorem array_parse_size_wraps:
  "\<exists>b v. array_builder_new 1 DtFloat64 [2 ^ 61] [0] = Ok b \<and> array_parse True (array_build b) = Ok v
    \<and> total_elements (av_header v) = 2 ^ 61 \<and> av_data v = [] \<and> linear_index v [5] = Some 5 \<and> get_element 8 True v [5] = None"
proof -
  obtain b where b: "array_builder_new 1 DtFloat64 [2 ^ 61] [0] = Ok b"
    by (simp add: array_builder_new_def array_header_new_def MAX_ARRAY_DIMENSIONS_def Let_def)
  have h: "ab_data b = []" "ar_ndim (ab_header b) = 1" "ar_dtype (ab_header b) = 8" "ar_shape (ab_header b) ! 0 = 2 ^ 61"
    using b by (auto simp: array_builder_new_def array_header_new_def MAX_ARRAY_DIMENSIONS_def Let_def)
  have t: "total_elements (ab_header b) = 2 ^ 61" by (simp add: total_elements_def h)
  have "expected_payload_bytes (ab_header b) = 0" by (simp add: expected_payload_bytes_def t header_element_size_def h dtype_from_u16_def)
  then have p: "array_parse True (array_build b) = Ok \<lparr> av_header = ab_header b, av_data = [] \<rparr>"
    using parse_built [OF builder_wf_new [OF b]] h(1) by simp
  have "linear_index \<lparr> av_header = ab_header b, av_data = [] \<rparr> [5] = Some 5" by (simp add: linear_index_def h)
  then show ?thesis using b p t
    by (intro exI [of _ b] exI [of _ "\<lparr> av_header = ab_header b, av_data = [] \<rparr>"])
      (simp add: get_element_def read_elements_def try_cast_slice_def)
qed

end
