(* ===== verification/Core_Columnar.thy ===== *)
theory Core_Columnar
  imports Pod_Codec Core_Archive_Header
begin

text \<open>
  Columnar tiles, \<^verbatim>\<open>crates/s3a-core/src/columnar.rs\<close>: header, column descriptors, the builder that lays out
  bitmaps and columns, and the view that reads them.  SHA-256 is the parameter \<open>sha\<close>, \<^verbatim>\<open>f64\<close> values are
  their bit patterns and their order a parameter; an alignment flag says whether the payload is aligned for
  the structures borrowed from it.
\<close>

section \<open>Structures\<close>

datatype column_data_type = CtUInt8 | CtUInt16 | CtUInt32 | CtUInt64 | CtInt32 | CtInt64 | CtFloat32 | CtFloat64

fun column_byte_size :: "column_data_type \<Rightarrow> nat" where
  "column_byte_size CtUInt8 = 1"
| "column_byte_size CtUInt16 = 2"
| "column_byte_size CtUInt32 = 4"
| "column_byte_size CtInt32 = 4"
| "column_byte_size CtFloat32 = 4"
| "column_byte_size CtUInt64 = 8"
| "column_byte_size CtInt64 = 8"
| "column_byte_size CtFloat64 = 8"

fun column_type_code :: "column_data_type \<Rightarrow> u16" where
  "column_type_code CtUInt8 = 1"
| "column_type_code CtUInt16 = 2"
| "column_type_code CtUInt32 = 3"
| "column_type_code CtUInt64 = 4"
| "column_type_code CtInt32 = 5"
| "column_type_code CtInt64 = 6"
| "column_type_code CtFloat32 = 7"
| "column_type_code CtFloat64 = 8"

record columnar_header =
  ch_magic :: "byte list"
  ch_version :: u16
  ch_column_count :: u16
  ch_record_count :: u32
  ch_compression_codec :: u16
  ch_reserved16 :: u16
  ch_column_descriptors_offset :: u32
  ch_null_bitmap_offset :: u32
  ch_source_tile_type :: u32
  ch_reserved :: "byte list"

definition COLUMNAR_MAGIC :: "byte list" where "COLUMNAR_MAGIC = [0x53, 0x33, 0x41, 0x43]"

definition columnar_header_bytes :: "columnar_header \<Rightarrow> byte list" where
  "columnar_header_bytes h =
     ch_magic h @ le16 (ch_version h) @ le16 (ch_column_count h) @ le32 (ch_record_count h) @ le16 (ch_compression_codec h) @
     le16 (ch_reserved16 h) @ le32 (ch_column_descriptors_offset h) @ le32 (ch_null_bitmap_offset h) @
     le32 (ch_source_tile_type h) @ ch_reserved h"

definition columnar_header_of_bytes :: "byte list \<Rightarrow> columnar_header" where
  "columnar_header_of_bytes bs =
     \<lparr> ch_magic = window 0 4 bs, ch_version = of_le (window 4 2 bs), ch_column_count = of_le (window 6 2 bs),
       ch_record_count = of_le (window 8 4 bs), ch_compression_codec = of_le (window 12 2 bs),
       ch_reserved16 = of_le (window 14 2 bs), ch_column_descriptors_offset = of_le (window 16 4 bs),
       ch_null_bitmap_offset = of_le (window 20 4 bs), ch_source_tile_type = of_le (window 24 4 bs),
       ch_reserved = window 28 4 bs \<rparr>"

definition columnar_header_new :: "u16 \<Rightarrow> u32 \<Rightarrow> u32 \<Rightarrow> columnar_header" where
  "columnar_header_new column_count record_count source_tile_type =
     \<lparr> ch_magic = COLUMNAR_MAGIC, ch_version = 1, ch_column_count = column_count, ch_record_count = record_count,
       ch_compression_codec = 0, ch_reserved16 = 0, ch_column_descriptors_offset = 32, ch_null_bitmap_offset = 0,
       ch_source_tile_type = source_tile_type, ch_reserved = replicate 4 0 \<rparr>"

definition columnar_header_valid :: "columnar_header \<Rightarrow> bool" where
  "columnar_header_valid h \<longleftrightarrow> ch_magic h = COLUMNAR_MAGIC \<and> ch_version h = 1"

record column_descriptor =
  cd_name :: "byte list"
  cd_data_type :: u16
  cd_nullable :: u16
  cd_data_offset :: u32
  cd_data_bytes :: u32
  cd_null_bitmap_offset :: u32
  cd_null_count :: u32
  cd_padding :: "byte list"
  cd_min_value :: u64
  cd_max_value :: u64
  cd_column_hash :: "byte list"

definition column_descriptor_bytes :: "column_descriptor \<Rightarrow> byte list" where
  "column_descriptor_bytes d =
     cd_name d @ le16 (cd_data_type d) @ le16 (cd_nullable d) @ le32 (cd_data_offset d) @ le32 (cd_data_bytes d) @
     le32 (cd_null_bitmap_offset d) @ le32 (cd_null_count d) @ cd_padding d @ le64 (cd_min_value d) @ le64 (cd_max_value d) @
     cd_column_hash d"

definition column_descriptor_of_bytes :: "byte list \<Rightarrow> column_descriptor" where
  "column_descriptor_of_bytes bs =
     \<lparr> cd_name = window 0 32 bs, cd_data_type = of_le (window 32 2 bs), cd_nullable = of_le (window 34 2 bs),
       cd_data_offset = of_le (window 36 4 bs), cd_data_bytes = of_le (window 40 4 bs),
       cd_null_bitmap_offset = of_le (window 44 4 bs), cd_null_count = of_le (window 48 4 bs), cd_padding = window 52 4 bs,
       cd_min_value = of_le (window 56 8 bs), cd_max_value = of_le (window 64 8 bs), cd_column_hash = window 72 32 bs \<rparr>"

definition column_descriptor_shape :: "column_descriptor \<Rightarrow> bool" where
  "column_descriptor_shape d \<longleftrightarrow> length (cd_name d) = 32 \<and> length (cd_padding d) = 4 \<and> length (cd_column_hash d) = 32"

definition F64_MAX_BITS :: u64 where "F64_MAX_BITS = 0x7FEFFFFFFFFFFFFF"
definition F64_MIN_BITS :: u64 where "F64_MIN_BITS = 0xFFEFFFFFFFFFFFFF"

definition column_descriptor_new :: "byte list \<Rightarrow> column_data_type \<Rightarrow> bool \<Rightarrow> column_descriptor" where
  "column_descriptor_new name_str data_type nullable =
     \<lparr> cd_name = patch 0 (take 31 name_str) (replicate 32 0), cd_data_type = column_type_code data_type,
       cd_nullable = (if nullable then 1 else 0), cd_data_offset = 0, cd_data_bytes = 0, cd_null_bitmap_offset = 0,
       cd_null_count = 0, cd_padding = replicate 4 0, cd_min_value = F64_MAX_BITS, cd_max_value = F64_MIN_BITS,
       cd_column_hash = replicate 32 0 \<rparr>"

definition column_name_as_str :: "column_descriptor \<Rightarrow> byte list" where
  "column_name_as_str d = (let s = takeWhile (\<lambda>b. b \<noteq> 0) (cd_name d) in if utf8_valid s then s else [])"

section \<open>Builder\<close>

record columnar_builder =
  cb_header :: columnar_header
  cb_descriptors :: "column_descriptor list"
  cb_null_bitmaps :: "byte list list"
  cb_data_buffers :: "byte list list"

definition columnar_builder_new :: "u32 \<Rightarrow> u32 \<Rightarrow> columnar_builder" where
  "columnar_builder_new record_count source_tile_type =
     \<lparr> cb_header = columnar_header_new 0 record_count source_tile_type, cb_descriptors = [], cb_null_bitmaps = [],
       cb_data_buffers = [] \<rparr>"

text \<open>The number of bytes of a bitmap over \<open>n\<close> rows, and the loop that clears the bits of the null rows.\<close>

definition bitmap_len :: "nat \<Rightarrow> nat" where
  "bitmap_len n = (n + 7) div 8"

definition mark_row :: "nat \<times> bool \<Rightarrow> byte list \<times> u32 \<Rightarrow> byte list \<times> u32" where
  "mark_row = (\<lambda>(idx, is_valid) (null_map, null_count).
     if \<not> is_valid
     then (null_map[idx div 8 := null_map ! (idx div 8) AND NOT (push_bit (idx mod 8) 1)], null_count + 1)
     else (null_map, null_count))"

definition null_bitmap :: "nat \<Rightarrow> bool list \<Rightarrow> byte list \<times> u32" where
  "null_bitmap num_records v_mask =
    fold mark_row (enumerate 0 (take num_records v_mask)) (replicate (bitmap_len num_records) 0xFF, 0)"

definition add_column ::
  "(byte list \<Rightarrow> byte list) \<Rightarrow> byte list \<Rightarrow> column_data_type \<Rightarrow> byte list list \<Rightarrow> bool list option \<Rightarrow> u64 \<Rightarrow> u64 \<Rightarrow> columnar_builder \<Rightarrow>
   columnar_builder" where
  "add_column sha name data_type values validity min_val max_val b =
    (let desc = (column_descriptor_new name data_type (validity \<noteq> None))\<lparr> cd_min_value := min_val, cd_max_value := max_val \<rparr>;
         data_raw = concat values;
         desc = desc\<lparr> cd_data_bytes := of_nat (length data_raw) \<rparr>;
         num_records = unat (ch_record_count (cb_header b));
         (null_map, desc) =
           (case validity of
              Some v_mask \<Rightarrow> let (null_map, null_count) = null_bitmap num_records v_mask in (null_map, desc\<lparr> cd_null_count := null_count \<rparr>)
            | None \<Rightarrow> (replicate (bitmap_len num_records) 0xFF, desc));
         desc = desc\<lparr> cd_column_hash := sha (data_raw @ null_map) \<rparr>;
         descriptors = cb_descriptors b @ [desc]
     in b\<lparr> cb_descriptors := descriptors, cb_null_bitmaps := cb_null_bitmaps b @ [null_map],
          cb_data_buffers := cb_data_buffers b @ [data_raw],
          cb_header := (cb_header b)\<lparr> ch_column_count := of_nat (length descriptors) \<rparr> \<rparr>)"

definition pad8 :: "nat \<Rightarrow> nat" where
  "pad8 offset = (8 - offset mod 8) mod 8"

fun place_bitmaps :: "nat \<Rightarrow> column_descriptor list \<Rightarrow> byte list list \<Rightarrow> column_descriptor list \<times> nat" where
  "place_bitmaps current_offset (d # ds) (bm # bms) =
    (let (ds', end_offset) = place_bitmaps (current_offset + length bm) ds bms
     in (d\<lparr> cd_null_bitmap_offset := of_nat current_offset \<rparr> # ds', end_offset))"
| "place_bitmaps current_offset ds bms = (ds, current_offset)"

fun place_data :: "nat \<Rightarrow> column_descriptor list \<Rightarrow> byte list list \<Rightarrow> column_descriptor list" where
  "place_data current_offset (d # ds) (buf # bufs) =
    (let next = current_offset + length buf
     in d\<lparr> cd_data_offset := of_nat current_offset \<rparr> # place_data (next + pad8 next) ds bufs)"
| "place_data current_offset ds bufs = ds"

fun emit_data :: "byte list \<Rightarrow> column_descriptor list \<Rightarrow> byte list list \<Rightarrow> byte list" where
  "emit_data payload (d # ds) (buf # bufs) =
    (let expected_start = unat (cd_data_offset d);
         payload = (if length payload < expected_start then payload @ replicate (expected_start - length payload) 0 else payload)
     in emit_data (payload @ buf) ds bufs)"
| "emit_data payload ds bufs = payload"

definition columnar_build :: "columnar_builder \<Rightarrow> byte list" where
  "columnar_build b =
    (let desc_array_bytes = length (cb_descriptors b) * 104;
         current_offset = 32 + desc_array_bytes;
         header = (cb_header b)\<lparr> ch_null_bitmap_offset := of_nat current_offset \<rparr>;
         (descriptors, current_offset) = place_bitmaps current_offset (cb_descriptors b) (cb_null_bitmaps b);
         align_pad = pad8 current_offset;
         descriptors = place_data (current_offset + align_pad) descriptors (cb_data_buffers b);
         payload = columnar_header_bytes header @ pod_bytes column_descriptor_bytes descriptors @ concat (cb_null_bitmaps b) @
           replicate align_pad 0
     in emit_data payload descriptors (cb_data_buffers b))"

section \<open>View\<close>

record columnar_view =
  cv_header :: columnar_header
  cv_descriptors :: "column_descriptor list"
  cv_payload :: "byte list"

text \<open>\<open>ColumnarPanic\<close> is the panic of \<^verbatim>\<open>cast_slice\<close> on descriptors that are not aligned to eight bytes.\<close>

datatype columnar_error = ColumnarEof string | ColumnarInvalid string | ColumnarPanic

definition columnar_parse :: "bool \<Rightarrow> byte list \<Rightarrow> (columnar_error, columnar_view) result" where
  "columnar_parse align_ok payload =
    (if length payload < 32 then Err (ColumnarEof ''Payload too small for ColumnarTileHeader'')
     else if \<not> align_ok then
       Err (ColumnarInvalid ''misaligned tile header (A4: borrowed view requires 8-byte alignment)'')
     else let header = columnar_header_of_bytes (window 0 32 payload) in
     if \<not> columnar_header_valid header then Err (ColumnarInvalid ''Invalid ColumnarTileHeader magic/version'')
     else
       let desc_start = unat (ch_column_descriptors_offset header); desc_len = unat (ch_column_count header) * 104 in
       if length payload < desc_start + desc_len then Err (ColumnarEof ''Payload truncated before column descriptors'')
       else if desc_start mod 8 \<noteq> 0 then Err ColumnarPanic
       else Ok \<lparr> cv_header = header, cv_descriptors = pod_slice 104 column_descriptor_of_bytes (window desc_start desc_len payload),
              cv_payload = payload \<rparr>)"

definition find_column :: "byte list \<Rightarrow> columnar_view \<Rightarrow> column_descriptor option" where
  "find_column name v = find (\<lambda>d. column_name_as_str d = name) (cv_descriptors v)"

definition can_prune_column :: "(u64 \<Rightarrow> u64 \<Rightarrow> bool) \<Rightarrow> byte list \<Rightarrow> u64 \<Rightarrow> u64 \<Rightarrow> columnar_view \<Rightarrow> bool" where
  "can_prune_column f64_less name query_min query_max v \<longleftrightarrow>
    (case find_column name v of
       Some desc \<Rightarrow> f64_less (cd_max_value desc) query_min \<or> f64_less query_max (cd_min_value desc)
     | None \<Rightarrow> False)"

definition row_is_valid :: "column_descriptor \<Rightarrow> nat \<Rightarrow> columnar_view \<Rightarrow> bool" where
  "row_is_valid desc row_idx v \<longleftrightarrow>
    (if cd_nullable desc = 0 \<or> cd_null_count desc = 0 then True
     else
       let byte_offset = unat (cd_null_bitmap_offset desc) + row_idx div 8 in
       if length (cv_payload v) \<le> byte_offset then False
       else cv_payload v ! byte_offset AND push_bit (row_idx mod 8) 1 \<noteq> 0)"

definition read_column_data :: "column_descriptor \<Rightarrow> columnar_view \<Rightarrow> (columnar_error, byte list) result" where
  "read_column_data desc v =
    (let start = unat (cd_data_offset desc); len = unat (cd_data_bytes desc) in
     if length (cv_payload v) < start + len then Err (ColumnarEof ''Column data truncated'')
     else Ok (window start len (cv_payload v)))"

text \<open>The payload of a view is aligned to eight bytes, so a column is aligned for its type when its offset is a
  multiple of the size.  The message of a failed cast carries the text of the external error.\<close>

definition read_column_slice ::
  "string \<Rightarrow> nat \<Rightarrow> column_descriptor \<Rightarrow> columnar_view \<Rightarrow> (columnar_error, byte list list) result" where
  "read_column_slice cast_error sz desc v =
    (case read_column_data desc v of
       Err e \<Rightarrow> Err e
     | Ok bytes \<Rightarrow>
         (case try_cast_slice sz (unat (cd_data_offset desc) mod sz = 0) bytes of
            Some vs \<Rightarrow> Ok vs | None \<Rightarrow> Err (ColumnarInvalid (''Cast failed for column slice: '' @ cast_error))))"

definition verify_column_hash :: "(byte list \<Rightarrow> byte list) \<Rightarrow> column_descriptor \<Rightarrow> columnar_view \<Rightarrow> bool" where
  "verify_column_hash sha desc v \<longleftrightarrow>
    (case read_column_data desc v of
       Err _ \<Rightarrow> False
     | Ok data \<Rightarrow>
         let len = bitmap_len (unat (ch_record_count (cv_header v))); bm_start = unat (cd_null_bitmap_offset desc) in
         if length (cv_payload v) < bm_start + len then False
         else sha (data @ window bm_start len (cv_payload v)) = cd_column_hash desc)"

section \<open>Layout of a built tile\<close>

interpretation descriptor_codec: pod_codec column_descriptor_bytes column_descriptor_of_bytes 104 column_descriptor_shape
  by unfold_locales
    (simp_all add: column_descriptor_shape_def column_descriptor_bytes_def column_descriptor_of_bytes_def window_append_skip
      window_append_here window_all to_le_of_le window_join)

interpretation columnar_header_codec: pod_codec columnar_header_bytes columnar_header_of_bytes 32
  "\<lambda>h. length (ch_magic h) = 4 \<and> length (ch_reserved h) = 4"
  by unfold_locales
    (simp_all add: columnar_header_bytes_def columnar_header_of_bytes_def window_append_skip window_append_here window_all
      to_le_of_le window_join)

lemma null_bitmap_fold:
  fixes c :: u32
  assumes "k + length ms \<le> 8 * length bm" "j div 8 < length bm"
  defines "r \<equiv> fold mark_row (enumerate k ms) (bm, c)"
  shows "length (fst r) = length bm \<and> snd r = c + of_nat (length (filter Not ms)) \<and>
    (bit (fst r ! (j div 8)) (j mod 8) \<longleftrightarrow> bit (bm ! (j div 8)) (j mod 8) \<and> \<not> (k \<le> j \<and> j < k + length ms \<and> \<not> ms ! (j - k)))"
  unfolding r_def using assms(1,2)
proof (induction ms arbitrary: k bm c)
  case (Cons m ms)
  let ?bm = "if m then bm else bm[k div 8 := bm ! (k div 8) AND NOT (push_bit (k mod 8) 1)]"
  let ?c = "if m then c else c + 1"
  have l: "length ?bm = length bm" by simp
  have step: "bit (?bm ! (j div 8)) (j mod 8) \<longleftrightarrow> bit (bm ! (j div 8)) (j mod 8) \<and> \<not> (j = k \<and> \<not> m)"
  proof -
    have "j mod 8 < 8" by simp
    then have "bit (bm ! (j div 8) AND NOT (push_bit (k mod 8) 1)) (j mod 8) \<longleftrightarrow> bit (bm ! (j div 8)) (j mod 8) \<and> j mod 8 \<noteq> k mod 8"
      by (auto simp: bit_and_iff bit_not_iff bit_push_bit_iff bit_1_iff bit_exp_iff)
    moreover have "j div 8 = k div 8 \<and> j mod 8 = k mod 8 \<longleftrightarrow> j = k" by (metis div_mult_mod_eq)
    ultimately show ?thesis using Cons.prems by (auto simp: nth_list_update)
  qed
  have pre: "Suc k + length ms \<le> 8 * length ?bm" "j div 8 < length ?bm" using Cons.prems by (simp_all add: l)
  note IH = Cons.IH [OF pre, of ?c]
  have f: "fold mark_row (enumerate k (m # ms)) (bm, c) =
      fold mark_row (enumerate (Suc k) ms) (?bm, ?c)" by (simp add: mark_row_def)
  have "Suc k \<le> j \<Longrightarrow> (m # ms) ! (j - k) = ms ! (j - Suc k)" by (simp add: nth_Cons' Suc_diff_Suc)
  moreover have "j = k \<Longrightarrow> (m # ms) ! (j - k) = m" by simp
  moreover have "k \<le> j \<longleftrightarrow> j = k \<or> Suc k \<le> j" by auto
  ultimately show ?case unfolding f using IH step l by auto
qed simp_all

lemma bitmap_len_rows: "row < n \<Longrightarrow> row div 8 < bitmap_len n" "n \<le> 8 * bitmap_len n"
  by (simp_all add: bitmap_len_def div_less_iff_less_mult)

lemma null_bitmap_rows:
  assumes "row < n"
  shows "length (fst (null_bitmap n ms)) = bitmap_len n"
    "snd (null_bitmap n ms) = of_nat (length (filter Not (take n ms)))"
    "bit (fst (null_bitmap n ms) ! (row div 8)) (row mod 8) \<longleftrightarrow> (row < length ms \<longrightarrow> ms ! row)"
proof -
  have a: "0 + length (take n ms) \<le> 8 * length (replicate (bitmap_len n) (0xFF :: byte))" "row div 8 < length (replicate (bitmap_len n) (0xFF :: byte))"
    using bitmap_len_rows(2) [of n] bitmap_len_rows(1) [OF assms] by (simp_all add: min_def)
  note f = null_bitmap_fold [OF a, of 0, folded null_bitmap_def]
  show "length (fst (null_bitmap n ms)) = bitmap_len n" using f by simp
  show "snd (null_bitmap n ms) = of_nat (length (filter Not (take n ms)))" using f by simp
  have "j < 8 \<Longrightarrow> bit (0xFF :: byte) j" for j
  proof -
    assume "j < 8"
    then have "j \<in> {0, 1, 2, 3, 4, 5, 6, 7}" by auto
    then show "bit (0xFF :: byte) j" by (elim insertE) simp_all
  qed
  then show "bit (fst (null_bitmap n ms) ! (row div 8)) (row mod 8) \<longleftrightarrow> (row < length ms \<longrightarrow> ms ! row)"
    using f assms bitmap_len_rows(1) [OF assms] by auto
qed

lemma place_bitmaps_spec:
  assumes "length bms = length ds" "list_all (\<lambda>bm. length bm = L) bms"
  shows "snd (place_bitmaps off ds bms) = off + length ds * L" "length (fst (place_bitmaps off ds bms)) = length ds"
    "i < length ds \<Longrightarrow> fst (place_bitmaps off ds bms) ! i = (ds ! i)\<lparr> cd_null_bitmap_offset := of_nat (off + i * L) \<rparr>"
  using assms
proof (induction off ds bms arbitrary: i rule: place_bitmaps.induct)
  case (1 off d ds bm bms)
  note IH = "1.IH"
  {
    case 1
    then show ?case using IH(1) by (simp add: split_beta)
  next
    case 2
    then show ?case using IH(2) by (simp add: split_beta)
  next
    case 3
    then show ?case using IH(3) [of "i - 1"] by (cases i) (simp_all add: split_beta add.assoc)
  }
qed simp_all

lemma pad8_le: "pad8 n \<le> 7"
  by (simp add: pad8_def)

lemma pad8_aligned: "(n + pad8 n) mod 8 = 0"
proof -
  have "(r + (8 - r) mod 8) mod 8 = 0" if "r < 8" for r :: nat using that by (cases "r = 0") auto
  from this [of "n mod 8"] show ?thesis unfolding pad8_def by (simp only: mod_add_left_eq)
qed

lemma unat_u32_mod8: "n mod 8 = 0 \<Longrightarrow> unat (of_nat n :: u32) mod 8 = 0"
  by (simp add: unat_of_nat mod_mod_cancel)

lemma place_data_spec:
  assumes "length bufs = length ds"
  shows "length (place_data off ds bufs) = length ds"
    "i < length ds \<Longrightarrow> off mod 8 = 0 \<Longrightarrow> \<exists>at. place_data off ds bufs ! i = (ds ! i)\<lparr> cd_data_offset := at \<rparr> \<and> unat at mod 8 = 0"
  using assms
proof (induction off ds bufs arbitrary: i rule: place_data.induct)
  case (1 off d ds buf bufs)
  note IH = "1.IH"
  {
    case 1
    then show ?case using IH(1) by (simp add: Let_def)
  next
    case 2
    have "(off + length buf + pad8 (off + length buf)) mod 8 = 0" by (rule pad8_aligned)
    then show ?case using 2 IH(2) [of _ "i - 1"] by (cases i) (auto simp: Let_def unat_u32_mod8)
  }
qed simp_all

text \<open>Emission keeps what is there and puts every column where its descriptor says.\<close>

lemma emit_data_spec:
  assumes "length bufs = length ds" "length payload \<le> off" "off + (\<Sum>buf \<leftarrow> bufs. length buf + 7) < 2 ^ 32"
  defines "P \<equiv> emit_data payload (place_data off ds bufs) bufs"
  shows "(\<exists>ys. P = payload @ ys) \<and>
    (\<forall>i < length bufs. unat (cd_data_offset (place_data off ds bufs ! i)) + length (bufs ! i) \<le> length P \<and>
      window (unat (cd_data_offset (place_data off ds bufs ! i))) (length (bufs ! i)) P = bufs ! i)"
  unfolding P_def using assms(1-3)
proof (induction bufs arbitrary: off ds payload)
  case (Cons buf bufs)
  obtain d ds' where ds: "ds = d # ds'" using Cons.prems by (cases ds) auto
  let ?next = "off + length buf"
  let ?off = "?next + pad8 ?next" and ?pay = "payload @ replicate (off - length payload) 0 @ buf"
  have off: "unat (of_nat off :: u32) = off" using Cons.prems(3) by (simp add: unat_of_nat)
  have len: "length ?pay = ?next" using Cons.prems(2) by simp
  have pre: "length bufs = length ds'" "length ?pay \<le> ?off" "?off + (\<Sum>buf \<leftarrow> bufs. length buf + 7) < 2 ^ 32"
    using Cons.prems ds len pad8_le [of ?next] by simp_all
  have e: "emit_data payload (place_data off ds (buf # bufs)) (buf # bufs) = emit_data ?pay (place_data ?off ds' bufs) bufs"
    using Cons.prems(2) by (simp add: ds Let_def off)
  note IH = Cons.IH [OF pre]
  obtain ys where ys: "emit_data ?pay (place_data ?off ds' bufs) bufs = ?pay @ ys" using IH by blast
  have here: "window off (length buf) (?pay @ ys) = buf" using Cons.prems(2)
    by (simp add: window_append_skip window_append_here)
  have "unat (cd_data_offset (place_data off ds (buf # bufs) ! i)) + length ((buf # bufs) ! i) \<le> length (emit_data ?pay (place_data ?off ds' bufs) bufs) \<and>
      window (unat (cd_data_offset (place_data off ds (buf # bufs) ! i))) (length ((buf # bufs) ! i)) (emit_data ?pay (place_data ?off ds' bufs) bufs) =
      (buf # bufs) ! i" if "i < length (buf # bufs)" for i
  proof (cases i)
    case 0
    then show ?thesis using here len unfolding ys by (simp add: ds Let_def off)
  next
    case (Suc j)
    then show ?thesis using IH that by (simp add: ds Let_def)
  qed
  then show ?case unfolding e using ys by simp
qed simp

section \<open>Building from a list of columns\<close>

type_synonym column = "byte list \<times> column_data_type \<times> byte list list \<times> bool list option \<times> u64 \<times> u64"

definition add_columns :: "(byte list \<Rightarrow> byte list) \<Rightarrow> column list \<Rightarrow> columnar_builder \<Rightarrow> columnar_builder" where
  "add_columns sha = fold (\<lambda>(name, dt, vs, validity, mn, mx). add_column sha name dt vs validity mn mx)"

definition column_bitmap :: "nat \<Rightarrow> column \<Rightarrow> byte list" where
  "column_bitmap n = (\<lambda>(name, dt, vs, validity, mn, mx).
     case validity of Some m \<Rightarrow> fst (null_bitmap n m) | None \<Rightarrow> replicate (bitmap_len n) 0xFF)"

definition column_data :: "column \<Rightarrow> byte list" where
  "column_data = (\<lambda>(name, dt, vs, validity, mn, mx). concat vs)"

definition column_desc :: "(byte list \<Rightarrow> byte list) \<Rightarrow> nat \<Rightarrow> column \<Rightarrow> column_descriptor" where
  "column_desc sha n c = (case c of (name, dt, vs, validity, mn, mx) \<Rightarrow>
     (column_descriptor_new name dt (validity \<noteq> None))
       \<lparr> cd_min_value := mn, cd_max_value := mx, cd_data_bytes := of_nat (length (concat vs)),
         cd_null_count := (case validity of Some m \<Rightarrow> snd (null_bitmap n m) | None \<Rightarrow> 0),
         cd_column_hash := sha (column_data c @ column_bitmap n c) \<rparr>)"

lemma add_columns_fields:
  assumes "length (cb_descriptors b) = m" "unat (ch_record_count (cb_header b)) = n"
  shows "cb_descriptors (add_columns sha cols b) = cb_descriptors b @ map (column_desc sha n) cols \<and>
    cb_null_bitmaps (add_columns sha cols b) = cb_null_bitmaps b @ map (column_bitmap n) cols \<and>
    cb_data_buffers (add_columns sha cols b) = cb_data_buffers b @ map column_data cols \<and>
    cb_header (add_columns sha cols b) =
      (if cols = [] then cb_header b else (cb_header b)\<lparr> ch_column_count := of_nat (m + length cols) \<rparr>)"
  using assms
proof (induction cols arbitrary: b m)
  case (Cons c cols)
  obtain name dt vs validity mn mx where c: "c = (name, dt, vs, validity, mn, mx)" by (cases c) auto
  let ?b = "add_column sha name dt vs validity mn mx b"
  have s: "add_columns sha (c # cols) b = add_columns sha cols ?b" by (simp add: add_columns_def c)
  have f: "cb_descriptors ?b = cb_descriptors b @ [column_desc sha n c]" "cb_null_bitmaps ?b = cb_null_bitmaps b @ [column_bitmap n c]"
    "cb_data_buffers ?b = cb_data_buffers b @ [column_data c]" "cb_header ?b = (cb_header b)\<lparr> ch_column_count := of_nat (Suc m) \<rparr>"
    using Cons.prems
    by (simp_all add: add_column_def c column_desc_def column_bitmap_def column_data_def column_descriptor_new_def Let_def split_beta
        split: option.split)
  have pre: "length (cb_descriptors ?b) = Suc m" "unat (ch_record_count (cb_header ?b)) = n" using Cons.prems f by simp_all
  show ?case using Cons.IH [OF pre] unfolding s f by simp
qed (simp add: add_columns_def)

lemma window_concat:
  "list_all (\<lambda>x. length x = L) xs \<Longrightarrow> i < length xs \<Longrightarrow> window (i * L) L (concat xs @ ys) = xs ! i"
proof (induction xs arbitrary: i)
  case (Cons x xs)
  then show ?case by (cases i) (simp_all add: window_append_here window_append_skip)
qed simp

lemma length_concat_equal: "list_all (\<lambda>x. length x = L) xs \<Longrightarrow> length (concat xs) = length xs * L"
  by (induction xs) simp_all

lemma length_column_bitmap: "length (column_bitmap n c) = bitmap_len n"
  using null_bitmap_fold [of 0 _ "replicate (bitmap_len n) 0xFF" 0 0]
  by (cases n) (auto simp: column_bitmap_def null_bitmap_rows(1) [of 0] null_bitmap_def bitmap_len_def split: prod.split option.split)

text \<open>The tile of a list of columns fits the 32-bit offsets of its descriptors.\<close>

definition columns_fit :: "nat \<Rightarrow> column list \<Rightarrow> bool" where
  "columns_fit n cols \<longleftrightarrow> length cols < 2 ^ 16 \<and>
    39 + length cols * (104 + bitmap_len n) + (\<Sum>c \<leftarrow> cols. length (column_data c) + 7) < 2 ^ 32"

lemma columnar_layout:
  fixes n src :: u32
  assumes "columns_fit (unat n) cols" "\<And>x. length (sha x) = 32"
  defines "p \<equiv> columnar_build (add_columns sha cols (columnar_builder_new n src))" and "k \<equiv> length cols" and "L \<equiv> bitmap_len (unat n)"
  shows "\<exists>v. columnar_parse True p = Ok v \<and> cv_payload v = p \<and> ch_record_count (cv_header v) = n \<and> length (cv_descriptors v) = k \<and>
    (\<forall>i < k. \<exists>at. cv_descriptors v ! i = (column_desc sha (unat n) (cols ! i))\<lparr> cd_null_bitmap_offset := of_nat (32 + k * 104 + i * L), cd_data_offset := at \<rparr> \<and>
      unat at mod 8 = 0 \<and> unat at + length (column_data (cols ! i)) \<le> length p \<and> window (unat at) (length (column_data (cols ! i))) p = column_data (cols ! i) \<and>
      32 + k * 104 + i * L + L \<le> length p \<and> window (32 + k * 104 + i * L) L p = column_bitmap (unat n) (cols ! i))"
proof -
  let ?b = "columnar_builder_new n src" and ?N = "unat n"
  let ?B = "add_columns sha cols ?b" and ?bms = "map (column_bitmap ?N) cols" and ?bufs = "map column_data cols"
  let ?plain = "map (column_desc sha ?N) cols" and ?off = "32 + k * 104" and ?stop = "32 + k * 104 + k * L"
  let ?placed = "fst (place_bitmaps ?off ?plain ?bms)"
  let ?ds = "place_data (?stop + pad8 ?stop) ?placed ?bufs"
  let ?h = "(columnar_header_new (of_nat k) n src)\<lparr> ch_null_bitmap_offset := of_nat ?off \<rparr>"
  let ?pay = "columnar_header_bytes ?h @ pod_bytes column_descriptor_bytes ?ds @ concat ?bms @ replicate (pad8 ?stop) 0"
  have "length (cb_descriptors ?b) = 0" "unat (ch_record_count (cb_header ?b)) = ?N"
    by (simp_all add: columnar_builder_new_def columnar_header_new_def)
  note f = add_columns_fields [OF this, of sha cols]
  have fb: "cb_descriptors ?b = []" "cb_null_bitmaps ?b = []" "cb_data_buffers ?b = []" "cb_header ?b = columnar_header_new 0 n src"
    "\<And>c. (columnar_header_new 0 n src)\<lparr> ch_column_count := c \<rparr> = columnar_header_new c n src"
    by (simp_all add: columnar_builder_new_def columnar_header_new_def)
  have bf: "cb_descriptors ?B = ?plain" "cb_null_bitmaps ?B = ?bms" "cb_data_buffers ?B = ?bufs"
    "cb_header ?B = columnar_header_new (of_nat k) n src"
    unfolding k_def using f by (simp_all add: fb)
  have Ls: "list_all (\<lambda>bm. length bm = L) ?bms" by (simp add: list_all_iff length_column_bitmap L_def)
  have lbm: "length ?bms = length ?plain" by simp
  note pb = place_bitmaps_spec [OF lbm Ls, where off = ?off]
  have p: "p = emit_data ?pay ?ds ?bufs"
    unfolding p_def columnar_build_def bf Let_def split_beta using pb(1) by (simp add: k_def)
  have lds: "length ?bufs = length ?placed" using pb(2) by simp
  have ds_at: "\<exists>at. ?ds ! i = (column_desc sha ?N (cols ! i))\<lparr> cd_null_bitmap_offset := of_nat (?off + i * L), cd_data_offset := at \<rparr> \<and>
      unat at mod 8 = 0"
    if "i < k" for i
  proof -
    have i: "i < length ?placed" using that pb(2) by (simp add: k_def)
    then obtain at where "?ds ! i = (?placed ! i)\<lparr> cd_data_offset := at \<rparr>" "unat at mod 8 = 0"
      using place_data_spec(2) [OF lds i pad8_aligned [of ?stop]] by (elim exE conjE)
    moreover have "?placed ! i = (column_desc sha ?N (cols ! i))\<lparr> cd_null_bitmap_offset := of_nat (?off + i * L) \<rparr>"
      using pb(3) [of i] that by (simp add: k_def)
    ultimately have "?ds ! i = (column_desc sha ?N (cols ! i))\<lparr> cd_null_bitmap_offset := of_nat (?off + i * L), cd_data_offset := at \<rparr> \<and> unat at mod 8 = 0" by simp
    then show ?thesis by (rule exI)
  qed
  have kds: "length ?ds = k" using place_data_spec(1) [OF lds] pb(2) by (simp add: k_def)
  have shape: "list_all column_descriptor_shape ?ds"
    unfolding list_all_length kds
  proof (intro allI impI)
    fix i assume "i < k"
    from ds_at [OF this] show "column_descriptor_shape (?ds ! i)"
      using assms(2) by (auto simp: column_descriptor_shape_def column_desc_def column_descriptor_new_def split: prod.split)
  qed
  have hsh: "length (ch_magic ?h) = 4 \<and> length (ch_reserved ?h) = 4" by (simp add: columnar_header_new_def COLUMNAR_MAGIC_def)
  have lh: "length (columnar_header_bytes ?h) = 32" using columnar_header_codec.length_enc [OF hsh] .
  have ld: "length (pod_bytes column_descriptor_bytes ?ds) = k * 104" using descriptor_codec.length_pod_bytes [OF shape] kds by simp
  have lb: "length (concat ?bms) = k * L" using length_concat_equal [OF Ls] by (simp add: k_def)
  have lp: "length ?pay = ?stop + pad8 ?stop" using lh ld lb by simp
  have bound: "?stop + pad8 ?stop + (\<Sum>buf \<leftarrow> ?bufs. length buf + 7) < 2 ^ 32"
    using assms(1) pad8_le [of ?stop] by (simp add: columns_fit_def k_def L_def algebra_simps comp_def)
  note em = emit_data_spec [OF lds eq_refl [OF lp] bound, folded p]
  obtain ys where ys: "p = ?pay @ ys" using em by blast
  have lenp: "?stop \<le> length p" unfolding ys using lp by simp
  have uk: "unat (of_nat k :: u16) = k" using assms(1) by (simp add: columns_fit_def k_def unat_of_nat)
  have hw: "columnar_header_of_bytes (window 0 32 p) = ?h"
    unfolding ys using lh columnar_header_codec.dec_enc [OF hsh] by (simp add: window_append_here)
  have dw: "window 32 (k * 104) p = pod_bytes column_descriptor_bytes ?ds"
    unfolding ys using lh ld by (simp add: window_append_skip window_append_here)
  have "columnar_parse True p = Ok \<lparr> cv_header = ?h, cv_descriptors = ?ds, cv_payload = p \<rparr>"
    using lenp descriptor_codec.pod_slice_bytes [OF shape]
    by (simp add: columnar_parse_def hw dw uk columnar_header_valid_def columnar_header_new_def Let_def)
  moreover have "window (?off + i * L) L p = column_bitmap ?N (cols ! i) \<and> ?off + i * L + L \<le> length p" if "i < k" for i
  proof -
    have "window (?off + i * L) L p = window (i * L) L (concat ?bms @ replicate (pad8 ?stop) 0 @ ys)"
      unfolding ys using lh ld by (simp add: window_append_skip)
    also have "\<dots> = ?bms ! i" using window_concat [OF Ls] that by (simp add: k_def)
    finally have "window (?off + i * L) L p = column_bitmap ?N (cols ! i)" using that by (simp add: k_def)
    moreover have "Suc i * L \<le> k * L" using that by (intro mult_le_mono1) simp
    ultimately show ?thesis using lenp by simp
  qed
  moreover have "\<exists>at. ?ds ! i = (column_desc sha ?N (cols ! i))\<lparr> cd_null_bitmap_offset := of_nat (?off + i * L), cd_data_offset := at \<rparr> \<and>
      unat at mod 8 = 0 \<and> unat at + length (column_data (cols ! i)) \<le> length p \<and> window (unat at) (length (column_data (cols ! i))) p = column_data (cols ! i)"
    if i: "i < k" for i
  proof -
    obtain at where at: "?ds ! i = (column_desc sha ?N (cols ! i))\<lparr> cd_null_bitmap_offset := of_nat (?off + i * L), cd_data_offset := at \<rparr>"
      "unat at mod 8 = 0" using ds_at [OF i] by (elim exE conjE)
    have "unat (cd_data_offset (?ds ! i)) + length (?bufs ! i) \<le> length p \<and>
        window (unat (cd_data_offset (?ds ! i))) (length (?bufs ! i)) p = ?bufs ! i"
      using em i by (simp add: k_def)
    then have "unat at + length (column_data (cols ! i)) \<le> length p \<and> window (unat at) (length (column_data (cols ! i))) p = column_data (cols ! i)"
      using i unfolding at(1) by (simp add: k_def)
    with at show ?thesis by (intro exI [of _ at] conjI) (simp_all only:)
  qed
  moreover have "ch_record_count ?h = n" by (simp add: columnar_header_new_def)
  ultimately show ?thesis using kds by (intro exI [of _ "\<lparr> cv_header = ?h, cv_descriptors = ?ds, cv_payload = p \<rparr>"]) simp
qed

lemma try_cast_concat:
  assumes "0 < sz" "list_all (\<lambda>x. length x = sz) vs"
  shows "try_cast_slice sz True (concat vs) = Some vs"
proof -
  have "map (\<lambda>i. window (i * sz) sz (concat vs)) [0..<length vs] = vs"
    by (rule nth_equalityI) (use window_concat [OF assms(2), where ys = "[]"] in simp_all)
  then show ?thesis using assms(1) length_concat_equal [OF assms(2)] by (simp add: try_cast_slice_def)
qed

lemma column_byte_size_pos: "0 < column_byte_size dt"
  by (cases dt) simp_all

lemma column_byte_size_dvd: "n mod 8 = 0 \<Longrightarrow> n mod column_byte_size dt = 0"
proof -
  have "column_byte_size dt dvd 8" by (cases dt) simp_all
  then show "n mod 8 = 0 \<Longrightarrow> n mod column_byte_size dt = 0" by (simp add: mod_eq_0_iff_dvd) (rule dvd_trans)
qed

abbreviation column_name_ok :: "byte list \<Rightarrow> bool" where
  "column_name_ok name \<equiv> length name \<le> 31 \<and> 0 \<notin> set name \<and> utf8_valid name"

lemma column_desc_name:
  assumes "column_name_ok (fst c)"
  shows "column_name_as_str ((column_desc sha n c)\<lparr> cd_null_bitmap_offset := a, cd_data_offset := b \<rparr>) = fst c"
proof -
  have "takeWhile (\<lambda>b. b \<noteq> 0) (patch 0 (fst c) (replicate 32 0)) = fst c"
    using assms by (cases "32 - length (fst c)") (auto simp: patch_def takeWhile_append)
  then show ?thesis using assms
    by (cases c) (simp add: column_desc_def column_descriptor_new_def column_name_as_str_def Let_def)
qed

lemma find_unique:
  assumes "length ds = length ks" "\<And>j. j < length ks \<Longrightarrow> f (ds ! j) = ks ! j" "distinct ks" "i < length ks"
  shows "find (\<lambda>d. f d = ks ! i) ds = Some (ds ! i)"
  unfolding find_Some_iff
proof (intro exI conjI allI impI)
  show "i < length ds" "f (ds ! i) = ks ! i" using assms by simp_all
  fix j assume "j < i"
  then show "f (ds ! j) \<noteq> ks ! i" using assms by (simp add: nth_eq_iff_index_eq)
qed simp

lemma of_nat_u32_0: "m < 2 ^ 32 \<Longrightarrow> (of_nat m :: u32) = 0 \<longleftrightarrow> m = 0"
  by (cases "m = 0") (auto simp: word_of_nat_eq_0_iff dest: nat_dvd_not_less)

text \<open>A row is valid in the bitmap exactly when the mask says so, or does not reach it.\<close>

lemma row_valid_built:
  fixes n :: u32
  assumes "row < unat n" "bm_at + bitmap_len (unat n) \<le> length (cv_payload v)" "bm_at < 2 ^ 32"
    "window bm_at (bitmap_len (unat n)) (cv_payload v) = column_bitmap (unat n) c" "c = (name, dt, vs, validity, mn, mx)"
  shows "row_is_valid ((column_desc sha (unat n) c)\<lparr> cd_null_bitmap_offset := of_nat bm_at, cd_data_offset := at \<rparr>) row v \<longleftrightarrow>
    (case validity of None \<Rightarrow> True | Some m \<Rightarrow> row < length m \<longrightarrow> m ! row)"
proof (cases validity)
  case (Some m)
  let ?N = "unat n" and ?o = "bm_at + row div 8"
  have u: "unat (of_nat bm_at :: u32) = bm_at" using assms(3) by (simp add: unat_of_nat)
  have r: "row div 8 < bitmap_len ?N" using bitmap_len_rows(1) [OF assms(1)] .
  have "cv_payload v ! ?o = window bm_at (bitmap_len ?N) (cv_payload v) ! (row div 8)" using r assms(2) by (simp add: window_def)
  then have at: "cv_payload v ! ?o = fst (null_bitmap ?N m) ! (row div 8)" using assms(4,5) Some by (simp add: column_bitmap_def)
  note nb = null_bitmap_rows [OF assms(1), of m]
  have bit: "cv_payload v ! ?o AND push_bit (row mod 8) 1 \<noteq> 0 \<longleftrightarrow> (row < length m \<longrightarrow> m ! row)"
    using nb(3) by (simp add: at bit_iff_odd_drop_bit and_exp_eq_0_iff_not_bit push_bit_of_1)
  have cnt: "snd (null_bitmap ?N m) = 0 \<longleftrightarrow> filter Not (take ?N m) = []"
  proof -
    have "length (filter Not (take ?N m)) \<le> ?N" using length_filter_le [of Not "take ?N m"] by simp
    also have "?N < 2 ^ LENGTH(32)" by (rule unsigned_less)
    finally have "length (filter Not (take ?N m)) < 2 ^ 32" by simp
    then show ?thesis using of_nat_u32_0 nb(2) by (simp only: length_0_conv)
  qed
  have none: "filter Not (take ?N m) = [] \<Longrightarrow> row < length m \<longrightarrow> m ! row"
  proof
    assume "filter Not (take ?N m) = []" "row < length m"
    moreover from this assms(1) have "m ! row \<in> set (take ?N m)" using nth_mem [of row "take ?N m"] by simp
    ultimately show "m ! row" by (metis filter_empty_conv)
  qed
  let ?d = "(column_desc sha ?N c)\<lparr> cd_null_bitmap_offset := of_nat bm_at, cd_data_offset := at \<rparr>"
  have d: "cd_nullable ?d = 1" "cd_null_count ?d = snd (null_bitmap ?N m)" "cd_null_bitmap_offset ?d = of_nat bm_at"
    using assms(5) Some by (simp_all add: column_desc_def column_descriptor_new_def)
  have "\<not> length (cv_payload v) \<le> ?o" using r assms(2) by simp
  then have "row_is_valid ?d row v \<longleftrightarrow> snd (null_bitmap ?N m) = 0 \<or> (row < length m \<longrightarrow> m ! row)"
    using bit by (simp only: row_is_valid_def d u Let_def if_False one_neq_zero simp_thms split: if_split) blast
  then show ?thesis using cnt none Some by (simp only: option.case) blast
qed (use assms(5) in \<open>simp add: row_is_valid_def column_desc_def column_descriptor_new_def\<close>)

lemma columns_fit_bounds:
  assumes "columns_fit n cols" "i < length cols"
  shows "32 + length cols * 104 + i * bitmap_len n < 2 ^ 32" "length (column_data (cols ! i)) < 2 ^ 32"
proof -
  have "i * bitmap_len n \<le> length cols * bitmap_len n" using assms(2) by (intro mult_le_mono1) simp
  then show "32 + length cols * 104 + i * bitmap_len n < 2 ^ 32" using assms(1) unfolding columns_fit_def distrib_left by linarith
  have "length (column_data (cols ! i)) + 7 \<le> (\<Sum>c \<leftarrow> cols. length (column_data c) + 7)"
    using member_le_sum_list [of "length (column_data (cols ! i)) + 7" "map (\<lambda>c. length (column_data c) + 7) cols"] nth_mem [OF assms(2)]
    by force
  then show "length (column_data (cols ! i)) < 2 ^ 32" using assms(1) by (simp add: columns_fit_def)
qed

text \<open>What the view of a tile says of a column that was given to the builder.\<close>

definition column_given :: "(byte list \<Rightarrow> byte list) \<Rightarrow> nat \<Rightarrow> columnar_view \<Rightarrow> column \<Rightarrow> bool" where
  "column_given sha n v = (\<lambda>(name, dt, vs, validity, mn, mx).
     \<exists>d. find_column name v = Some d \<and> cd_min_value d = mn \<and> cd_max_value d = mx \<and>
       (list_all (\<lambda>x. length x = column_byte_size dt) vs \<longrightarrow> (\<forall>e. read_column_slice e (column_byte_size dt) d v = Ok vs)) \<and>
       verify_column_hash sha d v \<and>
       (\<forall>row < n. row_is_valid d row v \<longleftrightarrow> (case validity of None \<Rightarrow> True | Some m \<Rightarrow> row < length m \<longrightarrow> m ! row)))"

lemma columnar_built:
  fixes n src :: u32
  assumes "columns_fit (unat n) cols" "\<And>x. length (sha x) = 32" "distinct (map fst cols)" "\<And>c. c \<in> set cols \<Longrightarrow> column_name_ok (fst c)"
  obtains v where "columnar_parse True (columnar_build (add_columns sha cols (columnar_builder_new n src))) = Ok v"
    "ch_record_count (cv_header v) = n" "\<And>c. c \<in> set cols \<Longrightarrow> column_given sha (unat n) v c"
    "\<And>name. name \<notin> fst ` set cols \<Longrightarrow> find_column name v = None"
proof -
  let ?p = "columnar_build (add_columns sha cols (columnar_builder_new n src))"
  let ?k = "length cols" and ?N = "unat n"
  let ?at = "\<lambda>i. 32 + ?k * 104 + i * bitmap_len ?N"
  obtain v where v: "columnar_parse True ?p = Ok v" "cv_payload v = ?p" "ch_record_count (cv_header v) = n"
    "length (cv_descriptors v) = ?k" and
    ds: "\<And>j. j < ?k \<Longrightarrow> \<exists>at. cv_descriptors v ! j = (column_desc sha ?N (cols ! j))\<lparr> cd_null_bitmap_offset := of_nat (?at j), cd_data_offset := at \<rparr> \<and>
      unat at mod 8 = 0 \<and> unat at + length (column_data (cols ! j)) \<le> length ?p \<and> window (unat at) (length (column_data (cols ! j))) ?p = column_data (cols ! j) \<and>
      ?at j + bitmap_len ?N \<le> length ?p \<and> window (?at j) (bitmap_len ?N) ?p = column_bitmap ?N (cols ! j)"
    using columnar_layout [where cols = cols and n = n and sha = sha and src = src, OF assms(1,2)] by blast
  have names: "column_name_as_str (cv_descriptors v ! j) = map fst cols ! j" if "j < ?k" for j
    using ds [OF that] column_desc_name [OF assms(4) [OF nth_mem [OF that]]] that by (elim exE conjE) (simp only: nth_map)
  have "column_given sha ?N v c" if cm: "c \<in> set cols" for c
  proof -
    obtain i where i': "i < ?k" "cols ! i = c" using cm unfolding in_set_conv_nth by blast
    obtain name dt vs validity mn mx where c: "c = (name, dt, vs, validity, mn, mx)" by (cases c) auto
    have i: "i < ?k" "cols ! i = (name, dt, vs, validity, mn, mx)" using i' c by simp_all
    obtain at where d: "cv_descriptors v ! i = (column_desc sha ?N (cols ! i))\<lparr> cd_null_bitmap_offset := of_nat (?at i), cd_data_offset := at \<rparr>"
      and al: "unat at mod 8 = 0" and dat: "unat at + length (concat vs) \<le> length ?p" "window (unat at) (length (concat vs)) ?p = concat vs"
      and bm: "?at i + bitmap_len ?N \<le> length ?p" "window (?at i) (bitmap_len ?N) ?p = column_bitmap ?N (cols ! i)"
      using ds [OF i(1)] by (auto simp: i(2) column_data_def)
    let ?d = "cv_descriptors v ! i"
    have find: "find_column name v = Some ?d"
      using names find_unique [of "cv_descriptors v" "map fst cols" column_name_as_str i] v(4) assms(3) i by (simp add: find_column_def)
    have at32: "?at i < 2 ^ 32" and ul: "unat (of_nat (length (concat vs)) :: u32) = length (concat vs)"
      using columns_fit_bounds [OF assms(1) i(1)] by (simp_all add: i(2) column_data_def unat_of_nat)
    then have uat: "unat (of_nat (?at i) :: u32) = ?at i" by (simp only: unat_of_nat) simp
    have fields: "cd_data_offset ?d = at" "cd_data_bytes ?d = of_nat (length (concat vs))" "cd_null_bitmap_offset ?d = of_nat (?at i)"
      "cd_min_value ?d = mn" "cd_max_value ?d = mx" "cd_column_hash ?d = sha (concat vs @ column_bitmap ?N (cols ! i))"
      unfolding d by (simp_all add: column_desc_def column_data_def i(2))
    have rd: "read_column_data ?d v = Ok (concat vs)"
      using dat by (simp add: read_column_data_def fields ul v(2) Let_def del: of_nat_add length_concat)
    have "list_all (\<lambda>x. length x = column_byte_size dt) vs \<longrightarrow> (\<forall>e. read_column_slice e (column_byte_size dt) ?d v = Ok vs)"
      using try_cast_concat [OF column_byte_size_pos] column_byte_size_dvd [OF al] by (simp add: read_column_slice_def rd fields(1))
    moreover have "verify_column_hash sha ?d v"
      using bm by (simp add: verify_column_hash_def rd fields(3,6) uat v(2,3) Let_def del: of_nat_add)
    moreover have "\<forall>row < ?N. row_is_valid ?d row v \<longleftrightarrow> (case validity of None \<Rightarrow> True | Some m \<Rightarrow> row < length m \<longrightarrow> m ! row)"
      unfolding d using row_valid_built [where bm_at = "?at i" and v = v and c = "cols ! i"] bm at32 i(2) by (simp only: v(2)) blast
    ultimately show ?thesis using find fields(4,5) by (simp only: c column_given_def prod.case) blast
  qed
  moreover have "find_column name v = None" if "name \<notin> fst ` set cols" for name
    using that v(4) names by (force simp: find_column_def find_None_iff in_set_conv_nth)
  ultimately show ?thesis using v(1,3) that by blast
qed

text \<open>C27: A built tile is parsed, every column is found under its name, its values, statistics and the validity of every row are
  those given to the builder, and its hash verifies.\<close>

theorem columnar_roundtrip:
  fixes n src :: u32
  assumes "columns_fit (unat n) cols" "\<And>x. length (sha x) = 32" "distinct (map fst cols)" "\<And>c. c \<in> set cols \<Longrightarrow> column_name_ok (fst c)"
    "(name, dt, vs, validity, mn, mx) \<in> set cols" "list_all (\<lambda>x. length x = column_byte_size dt) vs"
  shows "\<exists>v d. columnar_parse True (columnar_build (add_columns sha cols (columnar_builder_new n src))) = Ok v \<and>
    find_column name v = Some d \<and> cd_min_value d = mn \<and> cd_max_value d = mx \<and>
    read_column_slice e (column_byte_size dt) d v = Ok vs \<and> verify_column_hash sha d v \<and>
    (\<forall>row < unat n. row_is_valid d row v \<longleftrightarrow> (case validity of None \<Rightarrow> True | Some m \<Rightarrow> row < length m \<longrightarrow> m ! row))"
proof -
  obtain v where v: "columnar_parse True (columnar_build (add_columns sha cols (columnar_builder_new n src))) = Ok v"
    "ch_record_count (cv_header v) = n" "\<And>c. c \<in> set cols \<Longrightarrow> column_given sha (unat n) v c"
    "\<And>name. name \<notin> fst ` set cols \<Longrightarrow> find_column name v = None"
    using columnar_built [where cols = cols and n = n and sha = sha and src = src, OF assms(1-4)] by metis
  from v(3) [OF assms(5)] assms(6) v(1) show ?thesis unfolding column_given_def prod.case by blast
qed

text \<open>Two columns over three rows, the second with a null row and text that is not ASCII in its name.\<close>

definition sample_columns :: "column list" where
  "sample_columns =
     [(ascii ''id'', CtUInt16, [le16 7, le16 8, le16 9], None, 1, 2),
      ([0xC3, 0xA9], CtUInt8, [[1], [0], [3]], Some [True, False, True], 3, 4)]"

theorem columnar_roundtrip_witness:
  "\<exists>v d. columnar_parse True (columnar_build (add_columns (\<lambda>x. replicate 32 0) sample_columns (columnar_builder_new 3 9))) = Ok v \<and>
    find_column [0xC3, 0xA9] v = Some d \<and> read_column_slice [] 1 d v = Ok [[1], [0], [3]] \<and> \<not> row_is_valid d 1 v \<and> row_is_valid d 2 v"
proof -
  have "\<exists>v d. columnar_parse True (columnar_build (add_columns (\<lambda>x. replicate 32 0) sample_columns (columnar_builder_new 3 9))) = Ok v \<and>
    find_column [0xC3, 0xA9] v = Some d \<and> cd_min_value d = 3 \<and> cd_max_value d = 4 \<and>
    read_column_slice [] (column_byte_size CtUInt8) d v = Ok [[1], [0], [3]] \<and> verify_column_hash (\<lambda>x. replicate 32 0) d v \<and>
    (\<forall>row < unat (3 :: u32). row_is_valid d row v \<longleftrightarrow>
      (case Some [True, False, True] of None \<Rightarrow> True | Some m \<Rightarrow> row < length m \<longrightarrow> m ! row))"
    by (rule columnar_roundtrip)
      (auto simp: sample_columns_def columns_fit_def column_data_def bitmap_len_def ascii_def utf8_valid.simps)
  then show ?thesis by (fastforce dest: spec [of _ 1] spec [of _ 2])
qed

text \<open>A payload with a valid header and room for its descriptor, which starts at an offset that is not a multiple of eight,
  makes the parser panic, where its comment promises an error for misaligned input.\<close>

theorem columnar_parse_can_panic:
  "columnar_parse True (columnar_header_bytes ((columnar_header_new 1 n src)\<lparr> ch_column_descriptors_offset := 36 \<rparr>) @ replicate 108 0) =
    Err ColumnarPanic"
proof -
  let ?h = "(columnar_header_new 1 n src)\<lparr> ch_column_descriptors_offset := 36 \<rparr>"
  have s: "length (ch_magic ?h) = 4 \<and> length (ch_reserved ?h) = 4" by (simp add: columnar_header_new_def COLUMNAR_MAGIC_def)
  have "window 0 32 (columnar_header_bytes ?h @ replicate 108 0) = columnar_header_bytes ?h"
    using columnar_header_codec.length_enc [OF s] by (simp add: window_append_here)
  then show ?thesis
    using columnar_header_codec.length_enc [OF s] columnar_header_codec.dec_enc [OF s]
    by (simp add: columnar_parse_def columnar_header_valid_def columnar_header_new_def Let_def)
qed

end
