(* ===== verification/Core_Hilbert.thy ===== *)
theory Core_Hilbert
  imports Prelude
begin

text \<open>
  Space-filling curves of \<^verbatim>\<open>crates/s3a-core/src/hilbert.rs\<close>: Skilling's transform between the axes
  and the transposed Hilbert index, the interleaving of its bits, and the Morton code with
  its spreading masks.  The measurements of locality in the same file are floating point and not
  modelled.
\<close>

section \<open>Skilling's transform\<close>

text \<open>One round at bit \<open>q\<close> and axis \<open>i\<close>: invert the low bits of the first axis, or exchange them with
  axis \<open>i\<close>.\<close>

definition excess_step :: "u32 \<Rightarrow> nat \<Rightarrow> u32 list \<Rightarrow> u32 list" where
  "excess_step q i x =
    (let p = q - 1 in
     if x ! i AND q \<noteq> 0 then x[0 := x ! 0 XOR p]
     else
       let t = (x ! 0 XOR x ! i) AND p;
           x = x[0 := x ! 0 XOR t]
       in x[i := x ! i XOR t])"

function excess_loop :: "nat \<Rightarrow> u32 \<Rightarrow> u32 list \<Rightarrow> u32 list" where
  "excess_loop n q x = (if 1 < q then excess_loop n (drop_bit 1 q) (fold (excess_step q) [0..<n] x) else x)"
  by auto
termination by (relation "measure (\<lambda>(n, q, x). unat q)") (auto simp: unat_div_distrib drop_bit_Suc word_less_nat_alt)

definition gray_encode :: "nat \<Rightarrow> u32 list \<Rightarrow> u32 list" where
  "gray_encode n x = fold (\<lambda>i x. x[i := x ! i XOR x ! (i - 1)]) [1..<n] x"

function gray_mask :: "u32 \<Rightarrow> u32 \<Rightarrow> u32 \<Rightarrow> u32" where
  "gray_mask hi q t = (if 1 < q then gray_mask hi (drop_bit 1 q) (if hi AND q \<noteq> 0 then t XOR (q - 1) else t) else t)"
  by auto
termination by (relation "measure (\<lambda>(hi, q, t). unat q)") (auto simp: unat_div_distrib drop_bit_Suc word_less_nat_alt)

definition axes_to_transpose :: "nat \<Rightarrow> nat \<Rightarrow> u32 list \<Rightarrow> u32 list" where
  "axes_to_transpose b n x =
    (let m = push_bit (b - 1) 1;
         x = excess_loop n m x;
         x = gray_encode n x;
         t = gray_mask (x ! (n - 1)) m 0
     in map (\<lambda>a. a XOR t) x)"

definition gray_decode :: "nat \<Rightarrow> u32 list \<Rightarrow> u32 list" where
  "gray_decode n x =
    (let t = drop_bit 1 (x ! (n - 1));
         x = fold (\<lambda>i x. x[i := x ! i XOR x ! (i - 1)]) (rev [1..<n]) x
     in x[0 := x ! 0 XOR t])"

text \<open>The loop ends when \<open>q\<close>, doubled in each round, meets \<open>big_n\<close>; \<open>None\<close> is a loop that never does.\<close>

partial_function (option) undo_loop :: "nat \<Rightarrow> u32 \<Rightarrow> u32 \<Rightarrow> u32 list \<Rightarrow> u32 list option" where
  "undo_loop n big_n q x =
    (if q \<noteq> big_n then undo_loop n big_n (push_bit 1 q) (fold (excess_step q) (rev [0..<n]) x) else Some x)"

definition transpose_to_axes :: "nat \<Rightarrow> nat \<Rightarrow> u32 list \<Rightarrow> u32 list option" where
  "transpose_to_axes b n x = undo_loop n (push_bit (b - 1) 2) 2 (gray_decode n x)"

definition interleave_transposed_bits :: "u32 list \<Rightarrow> nat \<Rightarrow> nat \<Rightarrow> u64" where
  "interleave_transposed_bits coords bits n =
    fold (\<lambda>b r. fold (\<lambda>i r. push_bit 1 r OR ucast (drop_bit b (coords ! i) AND 1)) [0..<n] r) (rev [0..<bits]) 0"

definition deinterleave_transposed_bits :: "u64 \<Rightarrow> u32 list \<Rightarrow> nat \<Rightarrow> nat \<Rightarrow> u32 list" where
  "deinterleave_transposed_bits index coords bits n =
    fold (\<lambda>k c. let b = k div n; i = n - 1 - k mod n in c[i := c ! i OR push_bit b (ucast (drop_bit k index AND 1))])
      (rev [0..<bits * n]) (map (\<lambda>_. 0) coords)"

text \<open>\<open>None\<close> is the failed assertion on \<open>bits\<close>.\<close>

definition point_to_hilbert_3d :: "u32 \<Rightarrow> u32 \<Rightarrow> u32 \<Rightarrow> nat \<Rightarrow> u64 option" where
  "point_to_hilbert_3d x y z bits =
    (if 0 < bits \<and> bits \<le> 21 then Some (interleave_transposed_bits (axes_to_transpose bits 3 [x, y, z]) bits 3) else None)"

definition hilbert_to_point_3d :: "u64 \<Rightarrow> nat \<Rightarrow> (u32 \<times> u32 \<times> u32) option" where
  "hilbert_to_point_3d index bits =
    (if 0 < bits \<and> bits \<le> 21 then
       (case transpose_to_axes bits 3 (deinterleave_transposed_bits index [0, 0, 0] bits 3) of
          None \<Rightarrow> None
        | Some coords \<Rightarrow> Some (coords ! 0, coords ! 1, coords ! 2))
     else None)"

section \<open>Morton codes\<close>

definition part1by2 :: "u32 \<Rightarrow> u64" where
  "part1by2 n =
    (let n = n AND 0x001fffff;
         n64 = ucast n;
         n64 = (n64 OR push_bit 32 n64) AND 0x001f00000000ffff;
         n64 = (n64 OR push_bit 16 n64) AND 0x001f0000ff0000ff;
         n64 = (n64 OR push_bit 8 n64) AND 0x100f00f00f00f00f;
         n64 = (n64 OR push_bit 4 n64) AND 0x10c30c30c30c30c3;
         n64 = (n64 OR push_bit 2 n64) AND 0x1249249249249249
     in n64)"

definition s3a_morton_3d :: "u32 \<Rightarrow> u32 \<Rightarrow> u32 \<Rightarrow> u64" where
  "s3a_morton_3d x y z = part1by2 x OR push_bit 1 (part1by2 y) OR push_bit 2 (part1by2 z)"

definition morton_to_point_3d :: "u64 \<Rightarrow> u32 \<times> u32 \<times> u32" where
  "morton_to_point_3d m =
    fold (\<lambda>i (x, y, z).
      (x OR push_bit i (ucast (drop_bit (3 * i) m AND 1)),
       y OR push_bit i (ucast (drop_bit (3 * i + 1) m AND 1)),
       z OR push_bit i (ucast (drop_bit (3 * i + 2) m AND 1)))) [0..<21] (0, 0, 0)"

declare excess_loop.simps [simp del] gray_mask.simps [simp del]

section \<open>The steps are their own inverse\<close>

lemma unat_exp_u32: "k < 32 \<Longrightarrow> unat (2 ^ k :: u32) = 2 ^ k"
proof -
  assume k: "k < 32"
  have "unat (2 ^ k :: u32) = unat (of_nat (2 ^ k) :: u32)" by simp
  also have "\<dots> = 2 ^ k mod 2 ^ 32" by (simp add: unat_of_nat del: of_nat_power of_nat_numeral)
  also have "\<dots> = 2 ^ k" using k by (intro mod_less power_strict_increasing) simp_all
  finally show ?thesis .
qed

lemma half_power: "Suc k < 32 \<Longrightarrow> drop_bit 1 (2 ^ Suc k :: u32) = 2 ^ k" "Suc k < 32 \<Longrightarrow> (1 :: u32) < 2 ^ Suc k"
proof -
  assume k: "Suc k < 32"
  show "drop_bit 1 (2 ^ Suc k :: u32) = 2 ^ k"
    using k by (intro bit_word_eqI) (auto simp: bit_drop_bit_eq bit_exp_iff simp del: power_Suc)
  show "(1 :: u32) < 2 ^ Suc k" using power_gt1 [of "2 :: nat" k] unfolding word_less_nat_alt unat_exp_u32 [OF k] by simp
qed

lemma length_excess_step [simp]: "length (excess_step q i x) = length x"
  by (simp add: excess_step_def Let_def)

lemma length_excess_fold [simp]: "length (fold (excess_step q) is x) = length x"
  by (induction "is" arbitrary: x) simp_all

lemma excess_step_bit:
  assumes "k < 32"
  shows "excess_step (2 ^ k) i x =
    (if bit (x ! i) k then x[0 := x ! 0 XOR mask k]
     else let t = (x ! 0 XOR x ! i) AND mask k; x = x[0 := x ! 0 XOR t] in x[i := x ! i XOR t])"
proof -
  have "x ! i AND 2 ^ k \<noteq> 0 \<longleftrightarrow> bit (x ! i) k" by (simp add: and_exp_eq_0_iff_not_bit)
  then show ?thesis by (simp add: excess_step_def Let_def mask_eq_decr_exp)
qed

lemma excess_step_involution:
  assumes "i < length x" "k < 32"
  shows "excess_step (2 ^ k) i (excess_step (2 ^ k) i x) = x"
proof (cases "bit (x ! i) k")
  case True
  have b: "bit (a XOR mask k) k \<longleftrightarrow> bit a k" for a :: u32 by (simp add: bit_xor_iff bit_mask_iff)
  have 1: "excess_step (2 ^ k) i x = x[0 := x ! 0 XOR mask k]" using True by (simp add: excess_step_bit [OF assms(2)])
  have "bit (x[0 := x ! 0 XOR mask k] ! i) k" using True assms(1) b by (cases "i = 0") simp_all
  then have "excess_step (2 ^ k) i (x[0 := x ! 0 XOR mask k]) = x[0 := x[0 := x ! 0 XOR mask k] ! 0 XOR mask k]"
    by (simp add: excess_step_bit [OF assms(2)])
  also have "\<dots> = x" using assms(1) by (cases x) (simp_all add: xor.assoc)
  finally show ?thesis unfolding 1 .
next
  case False
  have b: "bit (a XOR (c AND mask k)) k \<longleftrightarrow> bit a k" for a c :: u32 by (simp add: bit_xor_iff bit_and_iff bit_mask_iff)
  have t: "((a XOR ((a XOR c) AND m)) XOR (c XOR ((a XOR c) AND m))) AND m = (a XOR c) AND m" for a c m :: u32
    by (rule bit_word_eqI) (auto simp: bit_xor_iff bit_and_iff)
  let ?t = "(x ! 0 XOR x ! i) AND mask k"
  show ?thesis
  proof (cases "i = 0")
    case True
    then show ?thesis using False by (simp add: excess_step_bit [OF assms(2)])
  next
    case i: False
    define y where "y = x[0 := x ! 0 XOR ?t, i := x ! i XOR ?t]"
    have y: "excess_step (2 ^ k) i x = y" using False i by (simp add: excess_step_bit [OF assms(2)] Let_def y_def)
    have "0 < length x" using assms(1) by linarith
    then have yv: "y ! 0 = x ! 0 XOR ?t" "y ! i = x ! i XOR ?t" using i assms(1) by (simp_all add: y_def nth_list_update del: length_greater_0_conv)
    then have "\<not> bit (y ! i) k" using False b by simp
    moreover have "(y ! 0 XOR y ! i) AND mask k = ?t" unfolding yv by (rule t)
    ultimately have "excess_step (2 ^ k) i y = y[0 := y ! 0 XOR ?t, i := y ! i XOR ?t]"
      using i by (simp add: excess_step_bit [OF assms(2)] Let_def)
    also have "\<dots> = y[0 := x ! 0, i := x ! i]" unfolding yv by (simp add: xor.assoc)
    also have "\<dots> = x" using i assms(1) by (cases x) (auto simp: y_def split: nat.splits simp flip: list_update_id intro!: nth_equalityI simp: nth_list_update nth_Cons)
    finally show ?thesis unfolding y .
  qed
qed

text \<open>A whole pass is undone by the pass in reverse order.\<close>

lemma excess_pass_inverse:
  assumes "k < 32" "set is \<subseteq> {..<length x}"
  shows "fold (excess_step (2 ^ k)) (rev is) (fold (excess_step (2 ^ k)) is x) = x"
    "fold (excess_step (2 ^ k)) is (fold (excess_step (2 ^ k)) (rev is) x) = x"
  using assms(2)
  by (induction "is" arbitrary: x rule: list.induct) (simp_all add: excess_step_involution assms(1))

text \<open>The loops as folds over the bit positions.\<close>

lemma excess_loop_fold:
  "k < 32 \<Longrightarrow> excess_loop n (2 ^ k) x = fold (\<lambda>j. fold (excess_step (2 ^ j)) [0..<n]) (rev [1..<Suc k]) x"
proof (induction k arbitrary: x)
  case (Suc k)
  then show ?case using half_power [OF Suc.prems] by (subst excess_loop.simps) (simp del: power_Suc)
qed (simp add: excess_loop.simps)

lemma undo_loop_fold:
  assumes "j \<le> b" "b < 32"
  shows "undo_loop n (2 ^ b) (2 ^ j) x = Some (fold (\<lambda>j. fold (excess_step (2 ^ j)) (rev [0..<n])) [j..<b] x)"
  using assms(1)
proof (induction "b - j" arbitrary: j x)
  case 0
  then have "j = b" by simp
  then show ?case by (subst undo_loop.simps) simp
next
  case (Suc d)
  then have "j < b" by simp
  then have "(2 ^ j :: u32) \<noteq> 2 ^ b" using assms(2) by (simp add: word_unat_eq_iff unat_exp_u32)
  moreover have "[j..<b] = j # [Suc j..<b]" using \<open>j < b\<close> by (rule upt_conv_Cons)
  ultimately show ?case using Suc.hyps(1) [of "Suc j"] Suc.hyps(2) \<open>j < b\<close>
    by (subst undo_loop.simps) (simp add: push_bit_eq_mult mult.commute)
qed

lemma fold_undo:
  assumes "\<And>k x. k \<in> set ks \<Longrightarrow> P x \<Longrightarrow> P (f k x) \<and> g k (f k x) = x" "P x"
  shows "fold g ks (fold f (rev ks) x) = x"
  using assms
proof (induction ks arbitrary: x)
  case (Cons k ks)
  have "P (fold f (rev ks) x)" using Cons.prems
  proof (induction ks arbitrary: x rule: rev_induct)
    case (snoc a as)
    then show ?case by (auto simp: fold_append)
  qed simp
  then have "g k (f k (fold f (rev ks) x)) = fold f (rev ks) x" using Cons.prems(1) by simp
  then show ?case using Cons by simp
qed simp

lemma undo_excess:
  assumes "b < 32" "length x = n"
  shows "fold (\<lambda>j. fold (excess_step (2 ^ j)) (rev [0..<n])) [1..<b] (fold (\<lambda>j. fold (excess_step (2 ^ j)) [0..<n]) (rev [1..<b]) x) = x"
    "fold (\<lambda>j. fold (excess_step (2 ^ j)) [0..<n]) (rev [1..<b]) (fold (\<lambda>j. fold (excess_step (2 ^ j)) (rev [0..<n])) [1..<b] x) = x"
proof -
  show "fold (\<lambda>j. fold (excess_step (2 ^ j)) (rev [0..<n])) [1..<b] (fold (\<lambda>j. fold (excess_step (2 ^ j)) [0..<n]) (rev [1..<b]) x) = x"
    by (rule fold_undo [where P = "\<lambda>x. length x = n"]) (use assms in \<open>auto intro!: excess_pass_inverse(1)\<close>)
  have "fold (\<lambda>j. fold (excess_step (2 ^ j)) [0..<n]) (rev [1..<b])
      (fold (\<lambda>j. fold (excess_step (2 ^ j)) (rev [0..<n])) (rev (rev [1..<b])) x) = x"
    by (rule fold_undo [where P = "\<lambda>x. length x = n"]) (use assms in \<open>auto intro!: excess_pass_inverse(2)\<close>)
  then show "fold (\<lambda>j. fold (excess_step (2 ^ j)) [0..<n]) (rev [1..<b])
      (fold (\<lambda>j. fold (excess_step (2 ^ j)) (rev [0..<n])) [1..<b] x) = x" by simp
qed

section \<open>Gray codes\<close>

lemma gray_encode_3: "gray_encode 3 [a, b, c] = [a, b XOR a, c XOR (b XOR a)]"
  by (simp add: gray_encode_def upt_rec)

lemma gray_decode_3: "gray_decode 3 [a, b, c] = [a XOR drop_bit 1 c, b XOR a, c XOR b]"
  by (simp add: gray_decode_def upt_rec)

primrec parity_mask :: "u32 \<Rightarrow> nat \<Rightarrow> u32" where
  "parity_mask hi 0 = 0"
| "parity_mask hi (Suc k) = (if bit hi (Suc k) then mask (Suc k) else 0) XOR parity_mask hi k"

lemma gray_mask_power: "k < 32 \<Longrightarrow> gray_mask hi (2 ^ k) t = t XOR parity_mask hi k"
proof (induction k arbitrary: t)
  case 0
  show ?case by (subst gray_mask.simps) simp
next
  case (Suc k)
  have "hi AND 2 ^ Suc k \<noteq> 0 \<longleftrightarrow> bit hi (Suc k)" by (simp add: and_exp_eq_0_iff_not_bit del: power_Suc)
  with half_power [OF Suc.prems] Suc show ?case
    by (subst gray_mask.simps) (simp add: mask_eq_decr_exp xor.assoc del: power_Suc)
qed

text \<open>The mask is the fixed point of shifting the masked code.\<close>

lemma parity_mask_fixed: "Suc k \<le> 32 \<Longrightarrow> drop_bit 1 (take_bit (Suc k) hi XOR parity_mask hi k) = parity_mask hi k"
proof (induction k)
  case 0
  show ?case by (rule bit_word_eqI) (simp add: bit_drop_bit_eq bit_take_bit_iff)
next
  case (Suc k)
  have m: "mask (Suc k) = drop_bit 1 (2 ^ Suc k XOR mask (Suc k) :: u32)"
    using Suc.prems by (intro bit_word_eqI) (auto simp: bit_drop_bit_eq bit_xor_iff bit_mask_iff bit_exp_iff simp del: power_Suc)
  have "take_bit (Suc (Suc k)) hi = take_bit (Suc k) hi XOR (if bit hi (Suc k) then 2 ^ Suc k else 0)"
    by (rule bit_word_eqI) (auto simp: bit_take_bit_iff bit_xor_iff bit_exp_iff less_Suc_eq simp del: power_Suc)
  then have "drop_bit 1 (take_bit (Suc (Suc k)) hi XOR parity_mask hi (Suc k)) =
      drop_bit 1 (take_bit (Suc k) hi XOR parity_mask hi k) XOR (if bit hi (Suc k) then drop_bit 1 (2 ^ Suc k XOR mask (Suc k)) else 0)"
    by (rule_tac bit_word_eqI) (auto simp: bit_drop_bit_eq bit_xor_iff)
  then show ?case using Suc m by (simp add: xor.commute del: power_Suc)
qed

lemma shift_fixed_unique:
  fixes u v :: u32
  assumes "drop_bit 1 (h XOR u) = u" "drop_bit 1 (h XOR v) = v"
  shows "u = v"
proof -
  have step: "(bit u j \<longleftrightarrow> bit v j) \<longleftrightarrow> (bit u (Suc j) \<longleftrightarrow> bit v (Suc j))" for j
  proof -
    have "bit u j \<longleftrightarrow> bit (drop_bit 1 (h XOR u)) j" "bit v j \<longleftrightarrow> bit (drop_bit 1 (h XOR v)) j" using assms by simp_all
    then show ?thesis by (auto simp: bit_drop_bit_eq bit_xor_iff)
  qed
  have all: "bit u (32 - d) \<longleftrightarrow> bit v (32 - d)" if "d \<le> 32" for d using that
  proof (induction d)
    case 0
    show ?case by (auto dest: bit_imp_le_length)
  next
    case (Suc d)
    then show ?case using step [of "32 - Suc d"] by (simp add: Suc_diff_le [symmetric] Suc_diff_Suc)
  qed
  then have "bit u j \<longleftrightarrow> bit v j" if "j < 32" for j using all [of "32 - j"] that by simp
  then show ?thesis by (intro bit_word_eqI) simp
qed

section \<open>The transforms undo each other\<close>

abbreviation below :: "nat \<Rightarrow> 'a :: len word \<Rightarrow> bool" where
  "below b w \<equiv> take_bit b w = w"

lemma below_bit: "below b w \<longleftrightarrow> (\<forall>k. bit w k \<longrightarrow> k < b)"
proof
  show "\<forall>k. bit w k \<longrightarrow> k < b" if "below b w" using that by (metis bit_take_bit_iff)
  show "below b w" if "\<forall>k. bit w k \<longrightarrow> k < b"
    using that by (intro bit_word_eqI) (auto simp: bit_take_bit_iff)
qed

lemma below_xor: "below b v \<Longrightarrow> below b w \<Longrightarrow> below b (v XOR w)"
  by (simp add: take_bit_xor)

lemma below_and_mask: "k \<le> b \<Longrightarrow> below b (w AND mask k)"
  by (simp add: take_bit_eq_mask and.assoc flip: min_def) (simp add: min_absorb1 flip: take_bit_eq_mask)

lemma below_mask: "k \<le> b \<Longrightarrow> below b (mask k :: 'a :: len word)"
  by (auto simp: below_bit bit_mask_iff)

lemma below_excess_step:
  assumes "k < 32" "k \<le> b" "i < length x" "list_all (below b) x"
  shows "list_all (below b) (excess_step (2 ^ k) i x)"
proof -
  have n: "0 < length x" using assms(3) by linarith
  have "below b (x ! 0)" "below b (x ! i)" using assms n by (simp_all add: list_all_length del: length_greater_0_conv)
  then show ?thesis using assms n
    by (auto simp: excess_step_bit Let_def list_all_length nth_list_update below_xor below_mask below_and_mask)
qed

lemma below_excess_fold:
  assumes "k < 32" "k \<le> b" "set is \<subseteq> {..<length x}" "list_all (below b) x"
  shows "list_all (below b) (fold (excess_step (2 ^ k)) is x)"
  using assms(3,4) by (induction "is" arbitrary: x) (simp_all add: assms(1,2) below_excess_step)

lemma below_excess_folds:
  assumes "\<forall>k \<in> set ks. k < 32 \<and> k \<le> b" "set is \<subseteq> {..<length x}" "list_all (below b) x"
  shows "list_all (below b) (fold (\<lambda>j. fold (excess_step (2 ^ j)) is) ks x)"
    "length (fold (\<lambda>j. fold (excess_step (2 ^ j)) is) ks x) = length x"
  using assms by (induction ks arbitrary: x) (simp_all add: below_excess_fold)

lemma below_parity_mask: "k \<le> b \<Longrightarrow> below b (parity_mask hi k)"
  by (induction k) (simp_all add: below_xor below_mask)

lemma length3: "length x = 3 \<Longrightarrow> (\<And>a b c. x = [a, b, c] \<Longrightarrow> P) \<Longrightarrow> P"
  by (auto simp: numeral_3_eq_3 length_Suc_conv)

definition gray_transpose :: "nat \<Rightarrow> u32 list \<Rightarrow> u32 list" where
  "gray_transpose b x = (let x = gray_encode 3 x; t = parity_mask (x ! 2) (b - 1) in map (\<lambda>a. a XOR t) x)"

lemma gray_inverse:
  assumes "list_all (below b) x" "length x = 3" "0 < b" "b \<le> 32"
  shows "gray_decode 3 (gray_transpose b x) = x" "gray_transpose b (gray_decode 3 x) = x"
    "list_all (below b) (gray_transpose b x)" "list_all (below b) (gray_decode 3 x)"
proof -
  obtain c d e where x: "x = [c, d, e]" using assms(2) by (rule length3)
  have b: "below b c" "below b d" "below b e" using assms(1) by (simp_all add: x)
  let ?h = "e XOR (d XOR c)"
  let ?t = "parity_mask ?h (b - 1)"
  have h: "below b ?h" by (intro below_xor b)
  have t: "below b ?t" by (rule below_parity_mask) simp
  have "drop_bit 1 (take_bit b ?h XOR ?t) = ?t"
    using parity_mask_fixed [of "b - 1" ?h] assms(3,4) by (simp only: Suc_diff_1)
  then have fix_t: "drop_bit 1 (?h XOR ?t) = ?t" unfolding h .
  have x3: "(a XOR v) XOR (w XOR v) = a XOR w" for a v w :: u32 by (rule bit_word_eqI) (auto simp: bit_xor_iff)
  have x2: "(a XOR v) XOR v = a" for a v :: u32 by (rule bit_word_eqI) (auto simp: bit_xor_iff)
  have g: "gray_transpose b x = [c XOR ?t, (d XOR c) XOR ?t, ?h XOR ?t]"
    by (simp add: x gray_transpose_def Let_def gray_encode_3)
  show "gray_decode 3 (gray_transpose b x) = x"
    by (simp only: g gray_decode_3 fix_t x3 x2) (simp only: x xor.assoc [symmetric] x2)
  show "list_all (below b) (gray_transpose b x)" using b t by (simp add: g below_xor)
  have u: "below b (drop_bit 1 e)" using b(3) by (auto simp: below_bit bit_drop_bit_eq)
  show "list_all (below b) (gray_decode 3 x)" using b u by (simp add: x gray_decode_3 below_xor)
  let ?u = "drop_bit 1 e"
  have e: "gray_encode 3 (gray_decode 3 x) = [c XOR ?u, d XOR ?u, e XOR ?u]"
    by (simp add: x gray_decode_3 gray_encode_3) (intro conjI bit_word_eqI; auto simp: bit_xor_iff)
  have "?u = parity_mask (e XOR ?u) (b - 1)"
  proof (rule shift_fixed_unique [where h = "e XOR ?u"])
    show "drop_bit 1 ((e XOR ?u) XOR ?u) = ?u" by (simp add: x2)
    have "drop_bit 1 (take_bit b (e XOR ?u) XOR parity_mask (e XOR ?u) (b - 1)) = parity_mask (e XOR ?u) (b - 1)"
      using parity_mask_fixed [of "b - 1" "e XOR ?u"] assms(3,4) by (simp only: Suc_diff_1)
    then show "drop_bit 1 ((e XOR ?u) XOR parity_mask (e XOR ?u) (b - 1)) = parity_mask (e XOR ?u) (b - 1)"
      unfolding below_xor [OF b(3) u] .
  qed
  then show "gray_transpose b (gray_decode 3 x) = x"
    by (simp add: gray_transpose_def e Let_def) (simp add: x x2)
qed

text \<open>The code's two transforms, over the folds.\<close>

abbreviation excess_all :: "nat \<Rightarrow> u32 list \<Rightarrow> u32 list" where
  "excess_all b \<equiv> fold (\<lambda>j. fold (excess_step (2 ^ j)) [0..<3]) (rev [1..<b])"

abbreviation undo_all :: "nat \<Rightarrow> u32 list \<Rightarrow> u32 list" where
  "undo_all b \<equiv> fold (\<lambda>j. fold (excess_step (2 ^ j)) (rev [0..<3])) [1..<b]"

lemma axes_to_transpose_split:
  assumes "0 < b" "b < 32" "length x = 3"
  shows "axes_to_transpose b 3 x = gray_transpose b (excess_all b x)"
proof -
  have p: "push_bit (b - 1) 1 = (2 ^ (b - 1) :: u32)" by (simp add: push_bit_eq_mult)
  have "excess_loop 3 (2 ^ (b - 1)) x = excess_all b x"
    using excess_loop_fold [of "b - 1" 3 x] assms(1,2) by (simp only: Suc_diff_1 less_imp_diff_less)
  then show ?thesis using assms(1,2)
    by (simp add: axes_to_transpose_def gray_transpose_def Let_def p gray_mask_power del: upt_conv_Cons)
qed

lemma transpose_to_axes_split:
  assumes "0 < b" "b < 32"
  shows "transpose_to_axes b 3 x = Some (undo_all b (gray_decode 3 x))"
proof -
  have "push_bit (b - 1) 2 = (2 ^ Suc (b - 1) :: u32)" by (simp add: push_bit_eq_mult)
  then have "push_bit (b - 1) 2 = (2 ^ b :: u32)" using assms(1) by (simp only: Suc_diff_1)
  then show ?thesis using undo_loop_fold [of 1 b 3 "gray_decode 3 x"] assms by (simp add: transpose_to_axes_def)
qed

lemma transpose_round_trip:
  assumes "0 < b" "b < 32" "length x = 3" "list_all (below b) x"
  shows "transpose_to_axes b 3 (axes_to_transpose b 3 x) = Some x"
    "\<exists>y. transpose_to_axes b 3 x = Some y \<and> axes_to_transpose b 3 y = x"
    "length (axes_to_transpose b 3 x) = 3" "list_all (below b) (axes_to_transpose b 3 x)"
    "\<And>y. transpose_to_axes b 3 x = Some y \<Longrightarrow> length y = 3 \<and> list_all (below b) y"
proof -
  have ks: "\<forall>k \<in> set (rev [1..<b]). k < 32 \<and> k \<le> b" "\<forall>k \<in> set [1..<b]. k < 32 \<and> k \<le> b" using assms(2) by auto
  have is3: "set [0..<3] \<subseteq> {..<length y}" "set (rev [0..<3]) \<subseteq> {..<length y}" if "length y = 3" for y :: "u32 list"
    using that by auto
  note e = below_excess_folds [OF ks(1) is3(1) assms(4)]
  have e3: "length (excess_all b x) = 3" "list_all (below b) (excess_all b x)" using e assms(3) by simp_all
  have d3: "length (gray_decode 3 x) = 3" "list_all (below b) (gray_decode 3 x)"
    using gray_inverse(4) [OF assms(4,3,1)] assms(2,3) by (auto simp: gray_decode_3 elim!: length3)
  have u3: "length (undo_all b (gray_decode 3 x)) = 3" "list_all (below b) (undo_all b (gray_decode 3 x))"
    using below_excess_folds [OF ks(2) is3(2) d3(2)] d3(1) by simp_all
  note split = axes_to_transpose_split [OF assms(1,2)] transpose_to_axes_split [OF assms(1,2)]
  show "transpose_to_axes b 3 (axes_to_transpose b 3 x) = Some x"
    using gray_inverse(1) [OF e3(2,1) assms(1)] assms(2,3) undo_excess(1) [OF assms(2,3)] by (simp only: split less_imp_le)
  show "\<exists>y. transpose_to_axes b 3 x = Some y \<and> axes_to_transpose b 3 y = x"
    using gray_inverse(2) [OF assms(4,3,1)] assms(2) undo_excess(2) [OF assms(2) d3(1)]
    by (simp only: split(2) split(1) [OF u3(1)] d3(1) less_imp_le simp_thms option.inject ex_simps)
  show "list_all (below b) (axes_to_transpose b 3 x)"
    using gray_inverse(3) [OF e3(2,1) assms(1)] assms(2,3) by (simp only: split less_imp_le)
  show "length (axes_to_transpose b 3 x) = 3"
    using e3(1) unfolding split(1) [OF assms(3)] by (elim length3) (simp add: gray_transpose_def Let_def gray_encode_3)
  show "length y = 3 \<and> list_all (below b) y" if "transpose_to_axes b 3 x = Some y" for y
    using that u3 by (simp only: split(2) option.inject)
qed

section \<open>Interleaving\<close>

lemma upt3: "[0..<3] = [0, 1, 2]" by (simp add: upt_rec)

lemma bit_shift_in:
  assumes "j < 64"
  shows "bit (push_bit 1 r OR ucast (drop_bit m (w :: u32) AND 1) :: u64) j \<longleftrightarrow> (if j = 0 then bit w m else bit r (j - 1))"
  using assms unfolding bit_or_iff bit_push_bit_iff
  by (auto simp: bit_ucast_iff bit_and_iff bit_drop_bit_eq bit_1_iff)

lemma div3_cell:
  fixes k :: nat
  assumes "\<not> k < 3 * m" "k < 3 * Suc m"
  shows "m = k div 3" "k - 3 * m = k mod 3"
proof -
  show "m = k div 3" using assms by simp
  then show "k - 3 * m = k mod 3" by (metis modulo_nat_def mult.commute)
qed

lemma spread3:
  fixes k :: nat
  shows "r < 3 \<Longrightarrow> r \<le> k \<and> (k - r) mod 3 = 0 \<longleftrightarrow> k mod 3 = r" "k mod 3 = r \<Longrightarrow> (k - r) div 3 = k div 3"
proof -
  show "r \<le> k \<and> (k - r) mod 3 = 0 \<longleftrightarrow> k mod 3 = r" if "r < 3"
  proof
    assume k: "r \<le> k \<and> (k - r) mod 3 = 0"
    then obtain q where "k - r = 3 * q" by (metis mod_0_imp_dvd dvdE)
    then have "k = r + 3 * q" using k by simp
    with that show "k mod 3 = r" by simp
  qed (auto simp: minus_mod_eq_mult_div)
  show "(k - r) div 3 = k div 3" if "k mod 3 = r" using that by (auto simp: minus_mod_eq_mult_div)
qed

lemma bit_interleave:
  assumes "k < 64"
  shows "bit (fold (\<lambda>b r. fold (\<lambda>i r. push_bit 1 r OR ucast (drop_bit b (c ! i) AND 1)) [0..<3] r) (rev [0..<m]) (r :: u64)) k \<longleftrightarrow>
    (if k < 3 * m then bit (c ! (2 - k mod 3) :: u32) (k div 3) else bit r (k - 3 * m))"
  using assms
proof (induction m arbitrary: r)
  case (Suc m)
  let ?s = "fold (\<lambda>i r. push_bit 1 r OR ucast (drop_bit m (c ! i) AND 1)) [0..<3] r"
  have s: "?s = push_bit 1 (push_bit 1 (push_bit 1 r OR ucast (drop_bit m (c ! 0) AND 1)) OR ucast (drop_bit m (c ! 1) AND 1)) OR
      ucast (drop_bit m (c ! 2) AND 1)" by (simp only: upt3 fold_simps)
  have b: "bit ?s j \<longleftrightarrow> (if j < 3 then bit (c ! (2 - j)) m else bit r (j - 3))" if "j < 64" for j
  proof -
    have "bit ?s j \<longleftrightarrow> (if j = 0 then bit (c ! 2) m else if j - 1 = 0 then bit (c ! 1) m
        else if j - 1 - 1 = 0 then bit (c ! 0) m else bit r (j - 1 - 1 - 1))"
      using that unfolding s by (simp only: bit_shift_in less_imp_diff_less)
    moreover have "j = 0 \<or> j = 1 \<or> j = 2 \<or> 3 \<le> j" by arith
    ultimately show ?thesis by (auto simp: numeral_3_eq_3 simp del: fold_simps)
  qed
  show ?case
  proof (cases "k < 3 * m")
    case True
    then show ?thesis using Suc by simp
  next
    case False
    have "k - 3 * m - 3 = k - 3 * Suc m" "k - 3 * m < 3 \<longleftrightarrow> k < 3 * Suc m" using False by presburger+
    moreover have "k < 3 * Suc m \<Longrightarrow> bit (c ! (2 - (k - 3 * m))) m \<longleftrightarrow> bit (c ! (2 - k mod 3)) (k div 3)"
      by (simp only: div3_cell(2) [OF False] div3_cell(1) [OF False, symmetric])
    moreover have "bit (fold (\<lambda>b r. fold (\<lambda>i r. push_bit 1 r OR ucast (drop_bit b (c ! i) AND 1)) [0..<3] r) (rev [0..<Suc m]) r) k =
        bit ?s (k - 3 * m)" using False Suc.IH [OF Suc.prems, of ?s] by simp
    moreover have "k - 3 * m < 64" using Suc.prems by simp
    ultimately show ?thesis using b [of "k - 3 * m"] False by (cases "k < 3 * Suc m") (simp_all only: if_True if_False)
  qed
qed simp

abbreviation deinterleave_step :: "u64 \<Rightarrow> nat \<Rightarrow> u32 list \<Rightarrow> u32 list" where
  "deinterleave_step index \<equiv>
    \<lambda>k c. let b = k div 3; i = 3 - 1 - k mod 3 in c[i := c ! i OR push_bit b (ucast (drop_bit k index AND 1))]"

lemma bit_push_one: "k < 32 \<Longrightarrow> bit (push_bit b (ucast (drop_bit j (index :: u64) AND 1)) :: u32) k \<longleftrightarrow> k = b \<and> bit index j"
  unfolding bit_push_bit_iff by (auto simp: bit_ucast_iff bit_and_iff bit_drop_bit_eq bit_1_iff)

lemma bit_deinterleave_fold:
  assumes "length c = 3" "i < 3" "k < 32"
  shows "length (fold (deinterleave_step index) js c) = 3"
    "bit (fold (deinterleave_step index) js c ! i) k \<longleftrightarrow>
      bit (c ! i) k \<or> (\<exists>j \<in> set js. i = 2 - j mod 3 \<and> k = j div 3 \<and> bit index j)"
  using assms(1)
proof (induction js arbitrary: c)
  case (Cons j js)
  case 1
  then show ?case using Cons.IH(1) by (simp add: Let_def)
  case 2
  have "length (deinterleave_step index j c) = 3" using 2 by (simp add: Let_def)
  from Cons.IH(2) [OF this] have "bit (fold (deinterleave_step index) (j # js) c ! i) k \<longleftrightarrow>
      bit (deinterleave_step index j c ! i) k \<or> (\<exists>j \<in> set js. i = 2 - j mod 3 \<and> k = j div 3 \<and> bit index j)"
    by simp
  moreover have "bit (deinterleave_step index j c ! i) k \<longleftrightarrow>
      bit (c ! i) k \<or> (i = 2 - j mod 3 \<and> k = j div 3 \<and> bit index j)"
    using 2 assms(2,3) by (auto simp: Let_def nth_list_update bit_or_iff bit_push_one)
  ultimately show ?case by auto
qed simp_all

lemma index3:
  fixes i j k :: nat
  assumes "i < 3"
  shows "(3 * k + 2 - i) mod 3 = 2 - i" "(3 * k + 2 - i) div 3 = k" "2 - (3 * k + 2 - i) mod 3 = i"
    "j < bits * 3 \<and> i = 2 - j mod 3 \<and> k = j div 3 \<longleftrightarrow> k < bits \<and> j = 3 * k + 2 - i"
proof -
  have s: "3 * k + 2 - i = (2 - i) + 3 * k" using assms by simp
  show m: "(3 * k + 2 - i) mod 3 = 2 - i" and d: "(3 * k + 2 - i) div 3 = k" unfolding s by simp_all
  show "2 - (3 * k + 2 - i) mod 3 = i" unfolding m using assms by simp
  show "j < bits * 3 \<and> i = 2 - j mod 3 \<and> k = j div 3 \<longleftrightarrow> k < bits \<and> j = 3 * k + 2 - i"
  proof
    assume j: "j < bits * 3 \<and> i = 2 - j mod 3 \<and> k = j div 3"
    then have "j = 3 * k + j mod 3" by simp
    moreover have "j mod 3 < 3" by simp
    ultimately show "k < bits \<and> j = 3 * k + 2 - i" using j by linarith
  next
    assume j: "k < bits \<and> j = 3 * k + 2 - i"
    then have "j < bits * 3" using assms by linarith
    with j show "j < bits * 3 \<and> i = 2 - j mod 3 \<and> k = j div 3" using m d assms by simp
  qed
qed

lemma bit_deinterleave:
  assumes "i < 3" "k < 32"
  shows "length (deinterleave_transposed_bits index [0, 0, 0] bits 3) = 3"
    "bit (deinterleave_transposed_bits index [0, 0, 0] bits 3 ! i) k \<longleftrightarrow> k < bits \<and> bit index (3 * k + 2 - i)"
proof -
  have z: "length [0, 0, 0 :: u32] = 3" "bit ([0, 0, 0 :: u32] ! i) k = False"
    using assms(1) by (simp_all add: nth_Cons split: nat.split)
  note e = index3(4) [OF assms(1)]
  note f = bit_deinterleave_fold [OF z(1) assms, of index "rev [0..<bits * 3]"]
  have d: "deinterleave_transposed_bits index [0, 0, 0] bits 3 = fold (deinterleave_step index) (rev [0..<bits * 3]) [0, 0, 0]"
    by (simp add: deinterleave_transposed_bits_def)
  show "length (deinterleave_transposed_bits index [0, 0, 0] bits 3) = 3" unfolding d by (rule f(1))
  show "bit (deinterleave_transposed_bits index [0, 0, 0] bits 3 ! i) k \<longleftrightarrow> k < bits \<and> bit index (3 * k + 2 - i)"
  proof -
    have "(\<exists>j \<in> set (rev [0..<bits * 3]). i = 2 - j mod 3 \<and> k = j div 3 \<and> bit index j) \<longleftrightarrow>
        (\<exists>j. (j < bits * 3 \<and> i = 2 - j mod 3 \<and> k = j div 3) \<and> bit index j)" by (simp only: set_rev set_upt) fastforce
    then show ?thesis unfolding d f(2) z(2) e by simp
  qed
qed

lemma interleave_bit:
  assumes "k < 64"
  shows "bit (interleave_transposed_bits c bits 3) k \<longleftrightarrow> k < 3 * bits \<and> bit (c ! (2 - k mod 3)) (k div 3)"
  unfolding interleave_transposed_bits_def bit_interleave [OF assms] by simp

lemma interleave_inverse:
  assumes "bits \<le> 21"
  shows "length c = 3 \<Longrightarrow> list_all (below bits) c \<Longrightarrow>
      deinterleave_transposed_bits (interleave_transposed_bits c bits 3) [0, 0, 0] bits 3 = c"
    "below (3 * bits) w \<Longrightarrow> interleave_transposed_bits (deinterleave_transposed_bits w [0, 0, 0] bits 3) bits 3 = w"
    "below (3 * bits) (interleave_transposed_bits c bits 3)"
    "list_all (below bits) (deinterleave_transposed_bits w [0, 0, 0] bits 3)"
proof -
  have len: "length (deinterleave_transposed_bits v [0, 0, 0] bits 3) = 3" for v by (rule bit_deinterleave(1) [of 0 0]) simp_all
  show "deinterleave_transposed_bits (interleave_transposed_bits c bits 3) [0, 0, 0] bits 3 = c"
    if c: "length c = 3" "list_all (below bits) c"
  proof (intro nth_equalityI bit_word_eqI)
    fix i k
    assume "i < length (deinterleave_transposed_bits (interleave_transposed_bits c bits 3) [0, 0, 0] bits 3)" "k < LENGTH(32)"
    then have ik: "i < 3" "k < 32" by (simp_all add: len)
    have "bit (c ! i) k \<Longrightarrow> k < bits" using c ik by (auto simp: list_all_length below_bit)
    moreover note index3(2,3) [OF ik(1), of k]
    moreover have "k < bits \<Longrightarrow> 3 * k + 2 - i < 64 \<and> 3 * k + 2 - i < 3 * bits" using assms ik(1) by linarith
    ultimately show "bit (deinterleave_transposed_bits (interleave_transposed_bits c bits 3) [0, 0, 0] bits 3 ! i) k = bit (c ! i) k"
      unfolding bit_deinterleave(2) [OF ik] using interleave_bit [of "3 * k + 2 - i" c bits] by metis
  qed (simp add: len c)
  show "interleave_transposed_bits (deinterleave_transposed_bits w [0, 0, 0] bits 3) bits 3 = w" if w: "below (3 * bits) w"
  proof (rule bit_word_eqI)
    fix k assume k: "k < LENGTH(64)"
    have "3 * (k div 3) + 2 - (2 - k mod 3) = k" using mult_div_mod_eq [of 3 k] mod_less_divisor [of 3 k] by linarith
    moreover have "bit w k \<Longrightarrow> k < 3 * bits" using w by (simp add: below_bit)
    moreover have "k < 3 * bits \<Longrightarrow> k div 3 < bits \<and> k div 3 < 32" using assms by auto
    ultimately show "bit (interleave_transposed_bits (deinterleave_transposed_bits w [0, 0, 0] bits 3) bits 3) k = bit w k"
      using k by (auto simp: interleave_bit bit_deinterleave(2))
  qed
  show "below (3 * bits) (interleave_transposed_bits c bits 3)"
    unfolding below_bit
  proof (intro allI impI)
    fix k assume k: "bit (interleave_transposed_bits c bits 3) k"
    then have "k < 64" by (auto dest: bit_imp_le_length)
    with k show "k < 3 * bits" by (simp add: interleave_bit)
  qed
  show "list_all (below bits) (deinterleave_transposed_bits w [0, 0, 0] bits 3)"
    unfolding list_all_length below_bit len
  proof (intro allI impI)
    fix i k assume i: "i < 3" and k: "bit (deinterleave_transposed_bits w [0, 0, 0] bits 3 ! i) k"
    then have "k < 32" by (auto dest: bit_imp_le_length)
    with i k show "k < bits" by (simp add: bit_deinterleave(2))
  qed
qed

section \<open>The Hilbert index is a bijection\<close>

lemma below_less: "b < LENGTH('a) \<Longrightarrow> below b (w :: 'a :: len word) \<longleftrightarrow> unat w < 2 ^ b"
  by (metis take_bit_nat_eq_self_iff unsigned_take_bit_eq word_unat_eq_iff)

text \<open>Every point of the cube has a Hilbert index below the cube's volume, and the inverse transform
  finds the point again: its loop ends for every resolution the code admits.\<close>

theorem hilbert_round_trip:
  assumes "0 < bits" "bits \<le> 21" "unat x < 2 ^ bits" "unat y < 2 ^ bits" "unat z < 2 ^ bits"
  shows "\<exists>h. point_to_hilbert_3d x y z bits = Some h \<and> unat h < 2 ^ (3 * bits) \<and> hilbert_to_point_3d h bits = Some (x, y, z)"
proof -
  have b: "bits < 32" using assms(2) by simp
  have x: "list_all (below bits) [x, y, z]" using assms(3-5) b by (simp add: below_less)
  note t = transpose_round_trip [OF assms(1) b _ x, simplified]
  note i = interleave_inverse [OF assms(2)]
  let ?h = "interleave_transposed_bits (axes_to_transpose bits 3 [x, y, z]) bits 3"
  have "hilbert_to_point_3d ?h bits = Some (x, y, z)"
    using assms(1,2) by (simp add: hilbert_to_point_3d_def i(1) [OF t(3,4)] t(1))
  moreover have "unat ?h < 2 ^ (3 * bits)" using i(3) assms(2) below_less [of "3 * bits" ?h] by simp
  ultimately show ?thesis using assms(1,2) by (simp add: point_to_hilbert_3d_def)
qed

theorem hilbert_round_trip_witness:
  "\<exists>h. point_to_hilbert_3d 5 1 6 3 = Some h \<and> unat h < 2 ^ 9 \<and> hilbert_to_point_3d h 3 = Some (5, 1, 6)"
  using hilbert_round_trip [of 3 5 1 6] by simp

text \<open>C28: Every index below the cube's volume is the index of the point it is read back to, so the
  curve visits each cell of the cube exactly once.\<close>

theorem hilbert_index_round_trip:
  assumes "0 < bits" "bits \<le> 21" "unat h < 2 ^ (3 * bits)"
  shows "\<exists>x y z. hilbert_to_point_3d h bits = Some (x, y, z) \<and> unat x < 2 ^ bits \<and> unat y < 2 ^ bits \<and> unat z < 2 ^ bits
    \<and> point_to_hilbert_3d x y z bits = Some h"
proof -
  have b: "bits < 32" using assms(2) by simp
  note i = interleave_inverse [OF assms(2)]
  let ?d = "deinterleave_transposed_bits h [0, 0, 0] bits 3"
  have d: "length ?d = 3" by (rule bit_deinterleave(1) [of 0 0]) simp_all
  note t = transpose_round_trip [OF assms(1) b d i(4)]
  obtain v where v: "transpose_to_axes bits 3 ?d = Some v" "axes_to_transpose bits 3 v = ?d" using t(2) by auto
  obtain x y z where xyz: "v = [x, y, z]" using t(5) [OF v(1)] by (auto elim: length3)
  have "unat x < 2 ^ bits \<and> unat y < 2 ^ bits \<and> unat z < 2 ^ bits" using t(5) [OF v(1)] b by (simp add: xyz below_less)
  moreover have "below (3 * bits) h" using assms(2,3) by (simp add: below_less)
  then have "point_to_hilbert_3d x y z bits = Some h"
    using assms(1,2) v(2) i(2) by (simp add: point_to_hilbert_3d_def xyz)
  moreover have "hilbert_to_point_3d h bits = Some (x, y, z)" using assms(1,2) v(1) by (simp add: hilbert_to_point_3d_def xyz)
  ultimately show ?thesis by blast
qed

theorem hilbert_index_round_trip_witness:
  "\<exists>x y z. hilbert_to_point_3d 300 3 = Some (x, y, z) \<and> unat x < 2 ^ 3 \<and> unat y < 2 ^ 3 \<and> unat z < 2 ^ 3
    \<and> point_to_hilbert_3d x y z 3 = Some 300"
  using hilbert_index_round_trip [of 3 300] by simp

section \<open>The Morton code is a bijection\<close>

lemma part1by2_or: "part1by2 (v OR w) = part1by2 v OR part1by2 w"
  unfolding part1by2_def Let_def by (simp only: bit.conj_disj_distrib2 unsigned_or_eq push_bit_or or.assoc or.left_commute or.commute)

lemma part1by2_single:
  "m < 21 \<Longrightarrow> part1by2 (2 ^ m) = 2 ^ (3 * m)"
proof -
  assume "m < 21"
  then have "m \<in> set [0, 1, 2, 3, 4, 5, 6, 7, 8, 9, 10, 11, 12, 13, 14, 15, 16, 17, 18, 19, 20]" by (simp only: list.set insert_iff empty_iff) arith
  then show "part1by2 (2 ^ m) = 2 ^ (3 * m)" by (elim set_ConsD [THEN disjE]) (simp_all add: part1by2_def)
qed

text \<open>The masks spread the bits three places apart.\<close>

lemma bit_part1by2_take:
  "m \<le> 21 \<Longrightarrow> bit (part1by2 (take_bit m n)) k \<longleftrightarrow> k mod 3 = 0 \<and> k div 3 < m \<and> bit n (k div 3)"
proof (induction m)
  case 0
  show ?case by (simp add: part1by2_def)
next
  case (Suc m)
  have "take_bit (Suc m) n = take_bit m n OR (if bit n m then 2 ^ m else 0)"
    by (rule bit_word_eqI) (auto simp: bit_take_bit_iff bit_or_iff bit_exp_iff less_Suc_eq)
  then have "part1by2 (take_bit (Suc m) n) = part1by2 (take_bit m n) OR (if bit n m then 2 ^ (3 * m) else 0)"
    using Suc.prems by (simp add: part1by2_or part1by2_single) (simp add: part1by2_def)
  moreover have "k = 3 * m \<longleftrightarrow> k mod 3 = 0 \<and> k div 3 = m" by presburger
  ultimately show ?case using Suc by (auto simp: bit_or_iff bit_exp_iff less_Suc_eq)
qed

lemma bit_part1by2: "bit (part1by2 n) k \<longleftrightarrow> k mod 3 = 0 \<and> k div 3 < 21 \<and> bit n (k div 3)"
proof -
  have "part1by2 n = part1by2 (take_bit 21 n)"
    by (simp add: part1by2_def take_bit_eq_mask mask_eq_exp_minus_1 and.assoc)
  then show ?thesis using bit_part1by2_take [of 21 n k] by simp
qed

lemma bit_morton:
  "bit (s3a_morton_3d x y z) k \<longleftrightarrow>
    k < 63 \<and> bit (if k mod 3 = 0 then x else if k mod 3 = 1 then y else z) (k div 3)"
proof -
  have s: "bit (push_bit r (part1by2 n)) k \<longleftrightarrow> k < 64 \<and> k mod 3 = r \<and> k div 3 < 21 \<and> bit n (k div 3)" if "r < 3" for r n
  proof -
    have "bit (push_bit r (part1by2 n)) k \<longleftrightarrow>
        k < 64 \<and> (r \<le> k \<and> (k - r) mod 3 = 0) \<and> (k - r) div 3 < 21 \<and> bit n ((k - r) div 3)"
      by (auto simp: bit_push_bit_iff bit_part1by2)
    then show ?thesis unfolding spread3(1) [OF that] using spread3(2) [of k r] by auto
  qed
  have "k div 3 < 21 \<longleftrightarrow> k < 63" "k mod 3 = 0 \<or> k mod 3 = 1 \<or> k mod 3 = 2" by presburger+
  then show ?thesis unfolding s3a_morton_3d_def bit_or_iff bit_part1by2 using s [of 1 y] s [of 2 z] by auto
qed

lemma bit_set_one: "k < 32 \<Longrightarrow> bit (x OR push_bit i (ucast (drop_bit j (m :: u64) AND 1)) :: u32) k \<longleftrightarrow> bit x k \<or> k = i \<and> bit m j"
  by (simp only: bit_or_iff bit_push_one)

primrec gather :: "u64 \<Rightarrow> nat \<Rightarrow> nat \<Rightarrow> u32" where
  "gather m j 0 = 0"
| "gather m j (Suc n) = gather m j n OR push_bit n (ucast (drop_bit (3 * n + j) m AND 1))"

lemma bit_gather: "k < 32 \<Longrightarrow> bit (gather m j n) k \<longleftrightarrow> k < n \<and> bit m (3 * k + j)"
  by (induction n) (auto simp only: gather.simps bit_set_one less_Suc_eq bit_0_eq bot_apply bot_bool_def)

lemma morton_to_point_gather: "morton_to_point_3d m = (gather m 0 21, gather m 1 21, gather m 2 21)"
proof -
  have "fold (\<lambda>i (x, y, z).
      (x OR push_bit i (ucast (drop_bit (3 * i) m AND 1)),
       y OR push_bit i (ucast (drop_bit (3 * i + 1) m AND 1)),
       z OR push_bit i (ucast (drop_bit (3 * i + 2) m AND 1)))) [0..<n] (0, 0, 0) = (gather m 0 n, gather m 1 n, gather m 2 n)" for n
    by (induction n)
      (simp_all only: upt_Suc_append le0 fold_append fold_simps comp_apply prod.case gather.simps add_0_right upt_0 id_apply)
  then show ?thesis unfolding morton_to_point_3d_def .
qed

text \<open>The Morton code is read back to the low 21 bits of each coordinate, whatever the coordinates.\<close>

theorem morton_round_trip: "morton_to_point_3d (s3a_morton_3d x y z) = (take_bit 21 x, take_bit 21 y, take_bit 21 z)"
proof -
  let ?m = "s3a_morton_3d x y z"
  have mods: "(3 * k + 0) mod 3 = 0" "(3 * k + 1) mod 3 = 1" "(3 * k + 2) mod 3 = 2"
    "(3 * k + 0) div 3 = k" "(3 * k + 1) div 3 = k" "(3 * k + 2) div 3 = k" for k :: nat by presburger+
  have lt: "3 * k + j < 63 \<longleftrightarrow> k < 21" if "j < 3" for k j :: nat using that by arith
  have "bit (gather ?m 0 21) k \<longleftrightarrow> bit (take_bit 21 x) k" "bit (gather ?m 1 21) k \<longleftrightarrow> bit (take_bit 21 y) k"
    "bit (gather ?m 2 21) k \<longleftrightarrow> bit (take_bit 21 z) k" if "k < 32" for k
    unfolding bit_gather [OF that] bit_morton mods bit_take_bit_iff using lt [of 0 k] lt [of 1 k] lt [of 2 k] by auto
  then show ?thesis unfolding morton_to_point_gather prod.inject by (intro conjI bit_word_eqI) simp_all
qed

text \<open>The point read from a Morton code has the code's low 63 bits as its own code: below \<open>2 ^ 63\<close> no
  code is lost.\<close>

theorem morton_code_round_trip:
  "(case morton_to_point_3d m of (x, y, z) \<Rightarrow> s3a_morton_3d x y z) = take_bit 63 m"
proof -
  have "bit (s3a_morton_3d (gather m 0 21) (gather m 1 21) (gather m 2 21)) k \<longleftrightarrow> bit (take_bit 63 m) k" for k
  proof (cases "k < 63")
    case True
    then have d: "k div 3 < 32" "k div 3 < 21" by (simp_all add: div_less_iff_less_mult)
    have "k = 3 * (k div 3) + k mod 3" by simp
    moreover have "k mod 3 = 0 \<or> k mod 3 = 1 \<or> k mod 3 = 2" by presburger
    ultimately consider "k mod 3 = 0" "3 * (k div 3) + 0 = k" | "k mod 3 = 1" "3 * (k div 3) + 1 = k" | "k mod 3 = 2" "3 * (k div 3) + 2 = k"
      by (metis add.commute)
    then show ?thesis unfolding bit_morton bit_take_bit_iff using True d(2)
      by cases (simp_all only: if_True if_False bit_gather [OF d(1)] refl one_neq_zero zero_neq_numeral numeral_neq_zero zero_neq_one numeral_eq_one_iff num.distinct simp_thms)
  qed (simp add: bit_morton bit_take_bit_iff)
  then show ?thesis unfolding morton_to_point_gather prod.case by (intro bit_word_eqI) simp
qed

end
