(* ===== verification/Core_Governance.thy ===== *)
theory Core_Governance
  imports Pod_Codec Core_Archive_Header
begin

text \<open>
  The records by which an archive is governed: consent (\<^verbatim>\<open>crates/s3a-core/src/consent.rs\<close>), erasure
  (\<^verbatim>\<open>erasure.rs\<close>), marks, and the telemetry and learning records they are about (\<^verbatim>\<open>lib.rs\<close>).  SHA-256 is the
  parameter \<open>sha\<close>; \<^verbatim>\<open>f32\<close> and \<^verbatim>\<open>f64\<close> fields are bit patterns.  Consent and erasure records carry the hash of the
  record before them.
\<close>

section \<open>Consent\<close>

datatype consent_purpose = Research | Analytics | ModelTraining | Sharing

fun purpose_code :: "consent_purpose \<Rightarrow> u32" where
  "purpose_code Research = 1"
| "purpose_code Analytics = 2"
| "purpose_code ModelTraining = 3"
| "purpose_code Sharing = 4"

definition purpose_from_u32 :: "u32 \<Rightarrow> consent_purpose option" where
  "purpose_from_u32 val =
    (if val = 1 then Some Research else if val = 2 then Some Analytics else if val = 3 then Some ModelTraining
     else if val = 4 then Some Sharing else None)"

fun purpose_as_str :: "consent_purpose \<Rightarrow> string" where
  "purpose_as_str Research = ''research''"
| "purpose_as_str Analytics = ''analytics''"
| "purpose_as_str ModelTraining = ''model_training''"
| "purpose_as_str Sharing = ''sharing''"

record consent_record =
  cn_subject_id :: "byte list"
  cn_study_id :: u64
  cn_purpose :: u32
  cn_scope :: u32
  cn_granted_at :: u64
  cn_expires_at :: u64
  cn_withdrawn_at :: u64
  cn_legal_hold :: u8
  cn_reserved :: "byte list"
  cn_granted_by :: u64
  cn_prev_consent_hash :: "byte list"
  cn_consent_hash :: "byte list"

definition consent_bytes :: "consent_record \<Rightarrow> byte list" where
  "consent_bytes r =
     cn_subject_id r @ le64 (cn_study_id r) @ le32 (cn_purpose r) @ le32 (cn_scope r) @ le64 (cn_granted_at r) @
     le64 (cn_expires_at r) @ le64 (cn_withdrawn_at r) @ cn_legal_hold r # cn_reserved r @ le64 (cn_granted_by r) @
     cn_prev_consent_hash r @ cn_consent_hash r"

definition consent_of_bytes :: "byte list \<Rightarrow> consent_record" where
  "consent_of_bytes bs =
     \<lparr> cn_subject_id = window 0 16 bs, cn_study_id = of_le (window 16 8 bs), cn_purpose = of_le (window 24 4 bs),
       cn_scope = of_le (window 28 4 bs), cn_granted_at = of_le (window 32 8 bs), cn_expires_at = of_le (window 40 8 bs),
       cn_withdrawn_at = of_le (window 48 8 bs), cn_legal_hold = bs ! 56, cn_reserved = window 57 7 bs,
       cn_granted_by = of_le (window 64 8 bs), cn_prev_consent_hash = window 72 32 bs, cn_consent_hash = window 104 32 bs \<rparr>"

definition consent_shape :: "consent_record \<Rightarrow> bool" where
  "consent_shape r \<longleftrightarrow> length (cn_subject_id r) = 16 \<and> length (cn_reserved r) = 7 \<and> length (cn_prev_consent_hash r) = 32 \<and>
    length (cn_consent_hash r) = 32"

definition consent_compute_hash :: "(byte list \<Rightarrow> byte list) \<Rightarrow> consent_record \<Rightarrow> byte list" where
  "consent_compute_hash sha r = sha (take 104 (consent_bytes r))"

definition consent_verify_hash :: "(byte list \<Rightarrow> byte list) \<Rightarrow> consent_record \<Rightarrow> bool" where
  "consent_verify_hash sha r \<longleftrightarrow> cn_consent_hash r = consent_compute_hash sha r"

definition consent_new ::
  "(byte list \<Rightarrow> byte list) \<Rightarrow> byte list \<Rightarrow> u64 \<Rightarrow> consent_purpose \<Rightarrow> u32 \<Rightarrow> u64 \<Rightarrow> u64 \<Rightarrow> bool \<Rightarrow> u64 \<Rightarrow> byte list \<Rightarrow>
   consent_record" where
  "consent_new sha subject_id study_id purpose scope granted_at expires_at legal_hold granted_by prev_consent_hash =
    (let rec = \<lparr> cn_subject_id = subject_id, cn_study_id = study_id, cn_purpose = purpose_code purpose, cn_scope = scope,
           cn_granted_at = granted_at, cn_expires_at = expires_at, cn_withdrawn_at = 0,
           cn_legal_hold = (if legal_hold then 1 else 0), cn_reserved = replicate 7 0, cn_granted_by = granted_by,
           cn_prev_consent_hash = prev_consent_hash, cn_consent_hash = replicate 32 0 \<rparr>
     in rec\<lparr> cn_consent_hash := consent_compute_hash sha rec \<rparr>)"

definition consent_new_withdrawal ::
  "(byte list \<Rightarrow> byte list) \<Rightarrow> byte list \<Rightarrow> u64 \<Rightarrow> consent_purpose \<Rightarrow> u32 \<Rightarrow> u64 \<Rightarrow> u64 \<Rightarrow> byte list \<Rightarrow> consent_record" where
  "consent_new_withdrawal sha subject_id study_id purpose scope withdrawn_at granted_by prev_consent_hash =
    (let rec = \<lparr> cn_subject_id = subject_id, cn_study_id = study_id, cn_purpose = purpose_code purpose, cn_scope = scope,
           cn_granted_at = 0, cn_expires_at = 0, cn_withdrawn_at = withdrawn_at,
           cn_legal_hold = 0, cn_reserved = replicate 7 0, cn_granted_by = granted_by,
           cn_prev_consent_hash = prev_consent_hash, cn_consent_hash = replicate 32 0 \<rparr>
     in rec\<lparr> cn_consent_hash := consent_compute_hash sha rec \<rparr>)"

definition consent_is_active :: "u64 \<Rightarrow> consent_record \<Rightarrow> bool" where
  "consent_is_active now r \<longleftrightarrow>
    (if 0 < cn_withdrawn_at r then False else if 0 < cn_expires_at r \<and> cn_expires_at r < now then False else True)"

definition consent_is_legal_hold :: "consent_record \<Rightarrow> bool" where
  "consent_is_legal_hold r \<longleftrightarrow> cn_legal_hold r \<noteq> 0"

definition parsed_purpose :: "consent_record \<Rightarrow> consent_purpose option" where
  "parsed_purpose r = purpose_from_u32 (cn_purpose r)"

definition actor_id_to_subject_id :: "u64 \<Rightarrow> byte list" where
  "actor_id_to_subject_id actor_id = patch 0 (le64 actor_id) (replicate 16 0)"

section \<open>Erasure\<close>

datatype erasure_reason = ErWithdrawal | ErRetentionExpiry | ErLegalRequest | ErCorrection

fun reason_code :: "erasure_reason \<Rightarrow> u32" where
  "reason_code ErWithdrawal = 1"
| "reason_code ErRetentionExpiry = 2"
| "reason_code ErLegalRequest = 3"
| "reason_code ErCorrection = 4"

definition reason_from_u32 :: "u32 \<Rightarrow> erasure_reason option" where
  "reason_from_u32 val =
    (if val = 1 then Some ErWithdrawal else if val = 2 then Some ErRetentionExpiry else if val = 3 then Some ErLegalRequest
     else if val = 4 then Some ErCorrection else None)"

record erasure_record =
  er_erased_record_hash :: "byte list"
  er_target_tile_type :: u32
  er_record_index :: u32
  er_target_tile_id :: u64
  er_reason :: u32
  er_reserved_u32 :: u32
  er_authority :: u64
  er_requested_at :: u64
  er_executed_at :: u64
  er_prev_erasure_hash :: "byte list"
  er_erasure_hash :: "byte list"

definition erasure_bytes :: "erasure_record \<Rightarrow> byte list" where
  "erasure_bytes r =
     er_erased_record_hash r @ le32 (er_target_tile_type r) @ le32 (er_record_index r) @ le64 (er_target_tile_id r) @
     le32 (er_reason r) @ le32 (er_reserved_u32 r) @ le64 (er_authority r) @ le64 (er_requested_at r) @
     le64 (er_executed_at r) @ er_prev_erasure_hash r @ er_erasure_hash r"

definition erasure_of_bytes :: "byte list \<Rightarrow> erasure_record" where
  "erasure_of_bytes bs =
     \<lparr> er_erased_record_hash = window 0 32 bs, er_target_tile_type = of_le (window 32 4 bs), er_record_index = of_le (window 36 4 bs),
       er_target_tile_id = of_le (window 40 8 bs), er_reason = of_le (window 48 4 bs), er_reserved_u32 = of_le (window 52 4 bs),
       er_authority = of_le (window 56 8 bs), er_requested_at = of_le (window 64 8 bs), er_executed_at = of_le (window 72 8 bs),
       er_prev_erasure_hash = window 80 32 bs, er_erasure_hash = window 112 32 bs \<rparr>"

definition erasure_shape :: "erasure_record \<Rightarrow> bool" where
  "erasure_shape r \<longleftrightarrow> length (er_erased_record_hash r) = 32 \<and> length (er_prev_erasure_hash r) = 32 \<and> length (er_erasure_hash r) = 32"

definition erasure_compute_hash :: "(byte list \<Rightarrow> byte list) \<Rightarrow> erasure_record \<Rightarrow> byte list" where
  "erasure_compute_hash sha r = sha (take 112 (erasure_bytes r))"

definition erasure_verify_hash :: "(byte list \<Rightarrow> byte list) \<Rightarrow> erasure_record \<Rightarrow> bool" where
  "erasure_verify_hash sha r \<longleftrightarrow> er_erasure_hash r = erasure_compute_hash sha r"

definition erasure_new ::
  "(byte list \<Rightarrow> byte list) \<Rightarrow> byte list \<Rightarrow> u32 \<Rightarrow> u64 \<Rightarrow> u32 \<Rightarrow> erasure_reason \<Rightarrow> u64 \<Rightarrow> u64 \<Rightarrow> u64 \<Rightarrow> byte list \<Rightarrow>
   erasure_record" where
  "erasure_new sha erased_record_hash target_tile_type target_tile_id record_index reason authority requested_at executed_at
     prev_erasure_hash =
    (let rec = \<lparr> er_erased_record_hash = erased_record_hash, er_target_tile_type = target_tile_type,
           er_record_index = record_index, er_target_tile_id = target_tile_id, er_reason = reason_code reason,
           er_reserved_u32 = 0, er_authority = authority, er_requested_at = requested_at, er_executed_at = executed_at,
           er_prev_erasure_hash = prev_erasure_hash, er_erasure_hash = replicate 32 0 \<rparr>
     in rec\<lparr> er_erasure_hash := erasure_compute_hash sha rec \<rparr>)"

section \<open>Marks\<close>

definition MARK_QUARANTINE :: u32 where "MARK_QUARANTINE = 1"
definition MARK_NEEDS_REVIEW :: u32 where "MARK_NEEDS_REVIEW = 2"
definition MARK_CONSENT_WITHDRAWN :: u32 where "MARK_CONSENT_WITHDRAWN = 3"
definition MARK_LEGAL_HOLD :: u32 where "MARK_LEGAL_HOLD = 4"
definition MARK_ACCESS_HEAT :: u32 where "MARK_ACCESS_HEAT = 5"
definition MARK_RETENTION_EXPIRED :: u32 where "MARK_RETENTION_EXPIRED = 6"
definition MARK_CLEAR :: u8 where "MARK_CLEAR = 0"
definition MARK_SET :: u8 where "MARK_SET = 1"
definition MARK_TARGET_ALL_RECORDS :: u32 where "MARK_TARGET_ALL_RECORDS = -1"

record mark_record =
  mk_target_tile_type :: u32
  mk_record_index :: u32
  mk_target_tile_id :: u64
  mk_generation :: u64
  mk_timestamp :: u64
  mk_actor_hash :: u64
  mk_mark_kind :: u32
  mk_set_or_clear :: u8
  mk_padding :: "byte list"
  mk_reserved :: "u64 \<times> u64"

definition mark_bytes :: "mark_record \<Rightarrow> byte list" where
  "mark_bytes m =
     le32 (mk_target_tile_type m) @ le32 (mk_record_index m) @ le64 (mk_target_tile_id m) @ le64 (mk_generation m) @
     le64 (mk_timestamp m) @ le64 (mk_actor_hash m) @ le32 (mk_mark_kind m) @ mk_set_or_clear m # mk_padding m @
     le64 (fst (mk_reserved m)) @ le64 (snd (mk_reserved m))"

definition mark_of_bytes :: "byte list \<Rightarrow> mark_record" where
  "mark_of_bytes bs =
     \<lparr> mk_target_tile_type = of_le (window 0 4 bs), mk_record_index = of_le (window 4 4 bs), mk_target_tile_id = of_le (window 8 8 bs),
       mk_generation = of_le (window 16 8 bs), mk_timestamp = of_le (window 24 8 bs), mk_actor_hash = of_le (window 32 8 bs),
       mk_mark_kind = of_le (window 40 4 bs), mk_set_or_clear = bs ! 44, mk_padding = window 45 3 bs,
       mk_reserved = (of_le (window 48 8 bs), of_le (window 56 8 bs)) \<rparr>"

definition mark_new :: "u32 \<Rightarrow> u64 \<Rightarrow> u32 \<Rightarrow> u64 \<Rightarrow> u32 \<Rightarrow> u8 \<Rightarrow> u64 \<Rightarrow> u64 \<Rightarrow> mark_record" where
  "mark_new target_tile_type target_tile_id record_index generation mark_kind set_or_clear timestamp actor_hash =
     \<lparr> mk_target_tile_type = target_tile_type, mk_record_index = record_index, mk_target_tile_id = target_tile_id,
       mk_generation = generation, mk_timestamp = timestamp, mk_actor_hash = actor_hash, mk_mark_kind = mark_kind,
       mk_set_or_clear = set_or_clear, mk_padding = replicate 3 0, mk_reserved = (0, 0) \<rparr>"

definition mark_is_set :: "mark_record \<Rightarrow> bool" where
  "mark_is_set m \<longleftrightarrow> mk_set_or_clear m = MARK_SET"

definition mark_is_cleared :: "mark_record \<Rightarrow> bool" where
  "mark_is_cleared m \<longleftrightarrow> mk_set_or_clear m = MARK_CLEAR"

definition is_policy_mark :: "mark_record \<Rightarrow> bool" where
  "is_policy_mark m \<longleftrightarrow> mk_mark_kind m \<in> {MARK_QUARANTINE, MARK_CONSENT_WITHDRAWN, MARK_LEGAL_HOLD}"

definition mark_is_whole_tile :: "mark_record \<Rightarrow> bool" where
  "mark_is_whole_tile m \<longleftrightarrow> mk_record_index m = MARK_TARGET_ALL_RECORDS"

section \<open>Telemetry and learning records\<close>

definition FLAG_ACTIVE :: u64 where "FLAG_ACTIVE = 0"

record telemetry_record =
  tl_timestamp :: u64
  tl_sensor_id :: u32
  tl_metric_id :: u32
  tl_value :: u64
  tl_flags :: u64

definition telemetry_bytes :: "telemetry_record \<Rightarrow> byte list" where
  "telemetry_bytes r =
     le64 (tl_timestamp r) @ le32 (tl_sensor_id r) @ le32 (tl_metric_id r) @ le64 (tl_value r) @ le64 (tl_flags r)"

definition telemetry_of_bytes :: "byte list \<Rightarrow> telemetry_record" where
  "telemetry_of_bytes bs =
     \<lparr> tl_timestamp = of_le (window 0 8 bs), tl_sensor_id = of_le (window 8 4 bs), tl_metric_id = of_le (window 12 4 bs),
       tl_value = of_le (window 16 8 bs), tl_flags = of_le (window 24 8 bs) \<rparr>"

definition telemetry_new :: "u64 \<Rightarrow> u32 \<Rightarrow> u32 \<Rightarrow> u64 \<Rightarrow> telemetry_record" where
  "telemetry_new timestamp sensor_id metric_id val =
     \<lparr> tl_timestamp = timestamp, tl_sensor_id = sensor_id, tl_metric_id = metric_id, tl_value = val, tl_flags = FLAG_ACTIVE \<rparr>"

definition telemetry_tombstone :: "telemetry_record \<Rightarrow> bool" where
  "telemetry_tombstone r \<longleftrightarrow> tl_flags r AND FLAG_TOMBSTONE \<noteq> 0"

definition mark_tombstone :: "telemetry_record \<Rightarrow> telemetry_record" where
  "mark_tombstone r = r\<lparr> tl_flags := tl_flags r OR FLAG_TOMBSTONE \<rparr>"

record learning_record =
  la_actor_id :: u64
  la_timestamp_sec :: u64
  la_verb_id :: u32
  la_object_id :: u32
  la_result_score :: u32
  la_duration_ms :: u32
  la_success_flag :: u32
  la_reserved32 :: u32
  la_flags :: u64
  la_reserved :: "u64 \<times> u64"

definition learning_bytes :: "learning_record \<Rightarrow> byte list" where
  "learning_bytes r =
     le64 (la_actor_id r) @ le64 (la_timestamp_sec r) @ le32 (la_verb_id r) @ le32 (la_object_id r) @ le32 (la_result_score r) @
     le32 (la_duration_ms r) @ le32 (la_success_flag r) @ le32 (la_reserved32 r) @ le64 (la_flags r) @
     le64 (fst (la_reserved r)) @ le64 (snd (la_reserved r))"

definition learning_of_bytes :: "byte list \<Rightarrow> learning_record" where
  "learning_of_bytes bs =
     \<lparr> la_actor_id = of_le (window 0 8 bs), la_timestamp_sec = of_le (window 8 8 bs), la_verb_id = of_le (window 16 4 bs),
       la_object_id = of_le (window 20 4 bs), la_result_score = of_le (window 24 4 bs), la_duration_ms = of_le (window 28 4 bs),
       la_success_flag = of_le (window 32 4 bs), la_reserved32 = of_le (window 36 4 bs), la_flags = of_le (window 40 8 bs),
       la_reserved = (of_le (window 48 8 bs), of_le (window 56 8 bs)) \<rparr>"

definition learning_new :: "u64 \<Rightarrow> u64 \<Rightarrow> u32 \<Rightarrow> u32 \<Rightarrow> u32 \<Rightarrow> u32 \<Rightarrow> u32 \<Rightarrow> learning_record" where
  "learning_new actor_id timestamp_sec verb_id object_id result_score duration_ms success_flag =
     \<lparr> la_actor_id = actor_id, la_timestamp_sec = timestamp_sec, la_verb_id = verb_id, la_object_id = object_id,
       la_result_score = result_score, la_duration_ms = duration_ms, la_success_flag = success_flag, la_reserved32 = 0,
       la_flags = FLAG_ACTIVE, la_reserved = (0, 0) \<rparr>"

definition learning_tombstone :: "learning_record \<Rightarrow> bool" where
  "learning_tombstone r \<longleftrightarrow> la_flags r AND FLAG_TOMBSTONE \<noteq> 0"

definition learning_mark_tombstone :: "learning_record \<Rightarrow> learning_record" where
  "learning_mark_tombstone r = r\<lparr> la_flags := la_flags r OR FLAG_TOMBSTONE \<rparr>"

section \<open>Byte layouts\<close>

lemmas record_layout = window_append_skip window_append_here window_all to_le_of_le window_join window_Cons_join
  window_Cons_skip nth_append

interpretation consent_codec: pod_codec consent_bytes consent_of_bytes 136 consent_shape
  by unfold_locales (simp_all add: consent_shape_def consent_bytes_def consent_of_bytes_def record_layout)

interpretation erasure_codec: pod_codec erasure_bytes erasure_of_bytes 144 erasure_shape
  by unfold_locales (simp_all add: erasure_shape_def erasure_bytes_def erasure_of_bytes_def record_layout)

interpretation mark_codec: pod_codec mark_bytes mark_of_bytes 64 "\<lambda>m. length (mk_padding m) = 3"
  by unfold_locales (simp_all add: mark_bytes_def mark_of_bytes_def record_layout)

interpretation telemetry_codec: pod_codec telemetry_bytes telemetry_of_bytes 32 "\<lambda>r. True"
  by unfold_locales (simp_all add: telemetry_bytes_def telemetry_of_bytes_def record_layout)

interpretation learning_codec: pod_codec learning_bytes learning_of_bytes 64 "\<lambda>r. True"
  by unfold_locales (simp_all add: learning_bytes_def learning_of_bytes_def record_layout)

end
