(* ===== verification/Hash_Chain.thy ===== *)
theory Hash_Chain
  imports Edge_Merkle
begin

text \<open>
  Append-only logs whose records carry the hash of the one before: the consent log and the erasure log of an
  archive.  \<open>linked\<close> says what a good log is; the locale \<open>hash_chain\<close> is the contract of a loop that verifies
  one, and \<open>bound_chain\<close> adds that the hash of a record of the right shape covers the record.
\<close>

primrec linked :: "('r \<Rightarrow> bool) \<Rightarrow> ('r \<Rightarrow> hash) \<Rightarrow> ('r \<Rightarrow> hash) \<Rightarrow> hash \<Rightarrow> 'r list \<Rightarrow> bool" where
  "linked good prev own e [] \<longleftrightarrow> True"
| "linked good prev own e (r # rs) \<longleftrightarrow> good r \<and> prev r = e \<and> linked good prev own (own r) rs"

definition chain_end :: "('r \<Rightarrow> hash) \<Rightarrow> hash \<Rightarrow> 'r list \<Rightarrow> hash" where
  "chain_end own e rs = (if rs = [] then e else own (last rs))"

lemma chain_end_simps [simp]:
  "chain_end own e [] = e" "chain_end own e (rs @ [r]) = own r"
  "chain_end own e (r # rs) = chain_end own (own r) rs"
  by (simp_all add: chain_end_def)

lemma linked_append: "linked good prev own e (rs @ ss) \<longleftrightarrow> linked good prev own e rs \<and> linked good prev own (chain_end own e rs) ss"
  by (induction rs arbitrary: e) auto

locale hash_chain =
  fixes check :: "nat \<Rightarrow> hash \<Rightarrow> 'r list \<Rightarrow> (string, bool) result"
    and good :: "'r \<Rightarrow> bool" and prev own :: "'r \<Rightarrow> hash" and start :: hash
  assumes check_Nil: "check idx e [] = Ok True"
    and check_good: "good r \<Longrightarrow> prev r = (if idx = 0 then start else e) \<Longrightarrow> check idx e (r # rs) = check (Suc idx) (own r) rs"
    and check_bad: "\<not> (good r \<and> prev r = (if idx = 0 then start else e)) \<Longrightarrow> \<exists>msg. check idx e (r # rs) = Err msg"
begin

lemma check_linked: "check idx e rs = Ok True \<longleftrightarrow> linked good prev own (if idx = 0 then start else e) rs"
proof (induction rs arbitrary: idx e)
  case (Cons r rs)
  show ?case
  proof (cases "good r \<and> prev r = (if idx = 0 then start else e)")
    case True
    then show ?thesis using Cons.IH [of "Suc idx" "own r"] by (simp add: check_good)
  next
    case False
    then show ?thesis using check_bad [OF False, of rs] by auto
  qed
qed (simp add: check_Nil)

lemma check_result: "check idx e rs = Ok True \<or> (\<exists>msg. check idx e rs = Err msg)"
proof (induction rs arbitrary: idx e)
  case (Cons r rs)
  then show ?case using check_good [of r idx e rs] check_bad [of r idx e rs] by metis
qed (simp add: check_Nil)

lemma check_extend:
  assumes "check 0 e rs = Ok True" "good r" "prev r = chain_end own start rs"
  shows "check 0 e (rs @ [r]) = Ok True"
  using assms by (simp add: check_linked linked_append)

end

locale bound_chain = hash_chain +
  fixes sha :: sha256 and body :: "'a \<Rightarrow> byte list" and shaped :: "'a \<Rightarrow> bool"
  assumes good_own: "good r \<Longrightarrow> own r = sha (body r)"
    and body_inj: "good r \<Longrightarrow> good s \<Longrightarrow> shaped r \<Longrightarrow> shaped s \<Longrightarrow> body r = body s \<Longrightarrow> r = s"
begin

lemma linked_binding:
  "linked good prev own start rs \<Longrightarrow> linked good prev own start ss \<Longrightarrow> chain_end own start rs = chain_end own start ss \<Longrightarrow>
    list_all shaped rs \<Longrightarrow> list_all shaped ss \<Longrightarrow>
    collision_free sha (map body rs) (map body ss) \<Longrightarrow> start \<notin> sha ` body ` (set rs \<union> set ss) \<Longrightarrow> rs = ss"
proof (induction rs arbitrary: ss rule: rev_induct)
  case Nil
  show ?case
  proof (cases ss rule: rev_cases)
    case (snoc ss' s)
    with Nil(2,3) have "good s" "start = own s" by (simp_all add: linked_append)
    with Nil(7) snoc good_own [of s] show ?thesis by auto
  qed simp
next
  case (snoc r rs)
  show ?case
  proof (cases ss rule: rev_cases)
    case Nil
    with snoc.prems(1,3) have "good r" "start = own r" by (simp_all add: linked_append)
    with snoc.prems(7) good_own [of r] show ?thesis by auto
  next
    case (snoc ss' s)
    note ss = this
    from snoc.prems(1-3) ss have g: "good r" "good s" "own r = own s" "prev r = chain_end own start rs" "prev s = chain_end own start ss'"
      "linked good prev own start rs" "linked good prev own start ss'" by (simp_all add: linked_append)
    have "sha (body r) = sha (body s)" using g(1-3) by (simp add: good_own)
    then have "body r = body s" by (rule collision_freeD [OF snoc.prems(6), rotated 2]) (simp_all add: ss)
    then have rs: "r = s" using body_inj g snoc.prems(4,5) ss by simp
    have "collision_free sha (map body rs) (map body ss')"
      by (rule collision_free_mono [OF snoc.prems(6)]) (auto simp: ss)
    moreover have "start \<notin> sha ` body ` (set rs \<union> set ss')" using snoc.prems(7) by (auto simp: ss)
    ultimately have "rs = ss'" using g rs snoc.prems(4,5) ss by (intro snoc.IH) simp_all
    with rs ss show ?thesis by simp
  qed
qed

end

end
