(* ===== verification/Ordered_Map.thy ===== *)
theory Ordered_Map
  imports Main "HOL-Library.Product_Lexorder"
begin

text \<open>
  \<^verbatim>\<open>std::collections::BTreeMap\<close> as the list of its entries in the order of the keys, with insertion and removal,
  and the specification of both by the map it denotes.
\<close>

type_synonym ('k, 'v) btree_map = "('k \<times> 'v) list"

fun bt_insert :: "'k::linorder \<Rightarrow> 'v \<Rightarrow> ('k, 'v) btree_map \<Rightarrow> ('k, 'v) btree_map" where
  "bt_insert k v [] = [(k, v)]"
| "bt_insert k v ((k', v') # m) =
    (if k < k' then (k, v) # (k', v') # m else if k = k' then (k, v) # m else (k', v') # bt_insert k v m)"

fun bt_remove :: "'k::linorder \<Rightarrow> ('k, 'v) btree_map \<Rightarrow> ('k, 'v) btree_map" where
  "bt_remove k [] = []"
| "bt_remove k ((k', v') # m) = (if k = k' then m else (k', v') # bt_remove k m)"

abbreviation bt_wf :: "('k::linorder, 'v) btree_map \<Rightarrow> bool" where
  "bt_wf m \<equiv> sorted_wrt (<) (map fst m)"

lemma bt_insert_keys: "set (map fst (bt_insert k v m)) = insert k (set (map fst m))"
  by (induction k v m rule: bt_insert.induct) auto

lemma bt_remove_keys: "set (map fst (bt_remove k m)) \<subseteq> set (map fst m)"
  by (induction k m rule: bt_remove.induct) auto

lemma bt_insert_wf: "bt_wf m \<Longrightarrow> bt_wf (bt_insert k v m)"
proof (induction k v m rule: bt_insert.induct)
  case (2 k v k' v' m)
  then show ?case using bt_insert_keys [of k v m] by (auto simp del: set_map)
qed simp

lemma bt_remove_wf: "bt_wf m \<Longrightarrow> bt_wf (bt_remove k m)"
proof (induction k m rule: bt_remove.induct)
  case (2 k k' v' m)
  then show ?case using bt_remove_keys [of k m] by (auto simp del: set_map)
qed simp

lemma bt_insert_lookup: "bt_wf m \<Longrightarrow> map_of (bt_insert k v m) = (map_of m)(k \<mapsto> v)"
  by (induction k v m rule: bt_insert.induct) (auto simp: fun_eq_iff)

lemma bt_remove_lookup: "bt_wf m \<Longrightarrow> map_of (bt_remove k m) = (map_of m)(k := None)"
proof (induction k m rule: bt_remove.induct)
  case (2 k k' v' m)
  moreover have "k' \<notin> fst ` set m" using 2(2) by auto
  ultimately show ?case by (auto simp: fun_eq_iff map_of_eq_None_iff)
qed simp

lemma bt_wf_distinct: "bt_wf m \<Longrightarrow> distinct (map fst m)"
  by (simp add: strict_sorted_iff)

lemma bt_entry: "bt_wf m \<Longrightarrow> (k, v) \<in> set m \<longleftrightarrow> map_of m k = Some v"
  using bt_wf_distinct [of m] by (simp add: map_of_eq_Some_iff)

lemma bt_insert_split: "bt_wf m \<Longrightarrow> bt_insert k v m = filter (\<lambda>e. fst e < k) m @ (k, v) # filter (\<lambda>e. k < fst e) m"
proof (induction k v m rule: bt_insert.induct)
  case (2 k v k' v' m)
  have "k' < fst e" if "e \<in> set m" for e using 2(2) that by auto
  then have "k \<le> k' \<Longrightarrow> filter (\<lambda>e. fst e < k) m = [] \<and> filter (\<lambda>e. k < fst e) m = m"
    by (fastforce simp: filter_empty_conv filter_id_conv)
  with 2 show ?case by auto
qed simp

lemma bt_remove_filter: "bt_wf m \<Longrightarrow> bt_remove k m = filter (\<lambda>e. fst e \<noteq> k) m"
proof (induction k m rule: bt_remove.induct)
  case (2 k k' v' m)
  have "filter (\<lambda>e. fst e \<noteq> k') m = m" if "k = k'" using 2(2) by (auto simp: filter_id_conv)
  with 2 show ?case by auto
qed simp

end
