(* ===== verification/Engine_Columnar.thy ===== *)
theory Engine_Columnar
  imports Core_Columnar Core_Governance
begin

text \<open>
  Telemetry as columnar tiles, \<^verbatim>\<open>encode_columnar_telemetry\<close> and \<^verbatim>\<open>decode_columnar_telemetry\<close> of
  \<^verbatim>\<open>crates/s3a-engine/src/lib.rs\<close>.  The casts of integers to \<^verbatim>\<open>f64\<close> and the order of \<^verbatim>\<open>f64\<close> are parameters.
\<close>

record f64_ops =
  fo_of_u64 :: "u64 \<Rightarrow> u64"
  fo_less :: "u64 \<Rightarrow> u64 \<Rightarrow> bool"

definition running_min :: "('a \<Rightarrow> 'a \<Rightarrow> bool) \<Rightarrow> 'a \<Rightarrow> 'a list \<Rightarrow> 'a" where
  "running_min lt start xs = fold (\<lambda>x m. if lt x m then x else m) xs start"

definition running_max :: "('a \<Rightarrow> 'a \<Rightarrow> bool) \<Rightarrow> 'a \<Rightarrow> 'a list \<Rightarrow> 'a" where
  "running_max lt start xs = fold (\<lambda>x m. if lt m x then x else m) xs start"

definition telemetry_columns :: "f64_ops \<Rightarrow> telemetry_record list \<Rightarrow> column list" where
  "telemetry_columns fo records =
    (let ts = map tl_timestamp records; sensor = map tl_sensor_id records; metric = map tl_metric_id records;
         val = map tl_value records; flags = map tl_flags records;
         e = (records = []);
         min_ts = (if e then 0 else running_min (<) (-1) ts); max_ts = (if e then 0 else running_max (<) 0 ts);
         min_sensor = (if e then 0 else running_min (<) (-1) sensor); max_sensor = (if e then 0 else running_max (<) 0 sensor);
         min_metric = (if e then 0 else running_min (<) (-1) metric); max_metric = (if e then 0 else running_max (<) 0 metric);
         min_val = (if e then 0 else running_min (fo_less fo) F64_MAX_BITS val);
         max_val = (if e then 0 else running_max (fo_less fo) F64_MIN_BITS val)
     in [(ascii ''timestamp'', CtUInt64, map le64 ts, None, fo_of_u64 fo min_ts, fo_of_u64 fo max_ts),
         (ascii ''sensor_id'', CtUInt32, map le32 sensor, None, fo_of_u64 fo (ucast min_sensor), fo_of_u64 fo (ucast max_sensor)),
         (ascii ''metric_id'', CtUInt32, map le32 metric, None, fo_of_u64 fo (ucast min_metric), fo_of_u64 fo (ucast max_metric)),
         (ascii ''value'', CtFloat64, map le64 val, None, min_val, max_val),
         (ascii ''flags'', CtUInt64, map le64 flags, None, 0, 0)])"

definition encode_columnar_telemetry :: "f64_ops \<Rightarrow> (byte list \<Rightarrow> byte list) \<Rightarrow> telemetry_record list \<Rightarrow> byte list" where
  "encode_columnar_telemetry fo sha records =
    columnar_build (add_columns sha (telemetry_columns fo records) (columnar_builder_new (of_nat (length records)) 0))"

text \<open>\<open>None\<close> is a panic: of the parser, or of the index into a column shorter than the record count.\<close>

definition decode_columns ::
  "string \<Rightarrow> columnar_view \<Rightarrow> nat \<Rightarrow> column_descriptor \<Rightarrow> column_descriptor \<Rightarrow> column_descriptor \<Rightarrow> column_descriptor \<Rightarrow>
   column_descriptor option \<Rightarrow> (columnar_error, telemetry_record list) result option" where
  "decode_columns ce view n desc_ts desc_sensor desc_metric desc_val desc_flags =
    (case read_column_slice ce 8 desc_ts view of Err e \<Rightarrow> Some (Err e) | Ok col_ts \<Rightarrow>
     case read_column_slice ce 4 desc_sensor view of Err e \<Rightarrow> Some (Err e) | Ok col_sensor \<Rightarrow>
     case read_column_slice ce 4 desc_metric view of Err e \<Rightarrow> Some (Err e) | Ok col_metric \<Rightarrow>
     case read_column_slice ce 8 desc_val view of Err e \<Rightarrow> Some (Err e) | Ok col_val \<Rightarrow>
     let col_flags = (case desc_flags of
           Some df \<Rightarrow> (case read_column_slice ce 8 df view of Ok cf \<Rightarrow> Some cf | Err _ \<Rightarrow> None)
         | None \<Rightarrow> None)
     in if length col_ts < n \<or> length col_sensor < n \<or> length col_metric < n \<or> length col_val < n \<or>
           (case col_flags of Some cf \<Rightarrow> length cf < n | None \<Rightarrow> False) then None
        else Some (Ok (map (\<lambda>i. \<lparr> tl_timestamp = of_le (col_ts ! i), tl_sensor_id = of_le (col_sensor ! i),
               tl_metric_id = of_le (col_metric ! i), tl_value = of_le (col_val ! i),
               tl_flags = (case col_flags of Some cf \<Rightarrow> of_le (cf ! i) | None \<Rightarrow> 1) \<rparr>) [0..<n])))"

definition missing_column :: "string \<Rightarrow> columnar_error" where
  "missing_column name = ColumnarInvalid (''Missing '' @ [CHR 0x27] @ name @ [CHR 0x27] @ '' column in columnar telemetry'')"

definition decode_columnar_telemetry :: "string \<Rightarrow> byte list \<Rightarrow> (columnar_error, telemetry_record list) result option" where
  "decode_columnar_telemetry ce payload =
    (case columnar_parse True payload of
       Err ColumnarPanic \<Rightarrow> None
     | Err e \<Rightarrow> Some (Err e)
     | Ok view \<Rightarrow>
         let n = unat (ch_record_count (cv_header view)) in
         if n = 0 then Some (Ok [])
         else case find_column (ascii ''timestamp'') view of None \<Rightarrow> Some (Err (missing_column ''timestamp'')) | Some desc_ts \<Rightarrow>
           case find_column (ascii ''sensor_id'') view of None \<Rightarrow> Some (Err (missing_column ''sensor_id'')) | Some desc_sensor \<Rightarrow>
           case find_column (ascii ''metric_id'') view of None \<Rightarrow> Some (Err (missing_column ''metric_id'')) | Some desc_metric \<Rightarrow>
           case find_column (ascii ''value'') view of None \<Rightarrow> Some (Err (missing_column ''value'')) | Some desc_val \<Rightarrow>
           decode_columns ce view n desc_ts desc_sensor desc_metric desc_val (find_column (ascii ''flags'') view))"

section \<open>Round trip\<close>

lemma telemetry_column_names:
  "map fst (telemetry_columns fo records) = [ascii ''timestamp'', ascii ''sensor_id'', ascii ''metric_id'', ascii ''value'', ascii ''flags'']"
  by (simp add: telemetry_columns_def Let_def)

lemma distinct_column_names: "distinct [ascii ''timestamp'', ascii ''sensor_id'', ascii ''metric_id'', ascii ''value'', ascii ''flags'']"
  by (simp add: ascii_def)

lemma telemetry_names_ok: "c \<in> set (telemetry_columns fo records) \<Longrightarrow> column_name_ok (fst c)"
proof -
  assume "c \<in> set (telemetry_columns fo records)"
  then have "fst c \<in> set (map fst (telemetry_columns fo records))" by simp
  then show ?thesis unfolding telemetry_column_names by (auto simp: ascii_def utf8_valid.simps)
qed

lemma length_concat_le: "length (concat (map le64 xs)) = 8 * length xs" "length (concat (map le32 ys)) = 4 * length ys"
  by (induction xs, simp_all) (induction ys, simp_all)

lemma telemetry_columns_fit:
  assumes "length records < 2 ^ 26"
  shows "columns_fit (length records) (telemetry_columns fo records)"
proof -
  have "bitmap_len (length records) \<le> length records + 7" by (simp add: bitmap_len_def)
  then show ?thesis using assms
    by (simp add: columns_fit_def telemetry_columns_def Let_def column_data_def length_concat_le del: length_concat map_map)
qed

lemma telemetry_columns_mem:
  "\<exists>mn mx. (ascii ''timestamp'', CtUInt64, map le64 (map tl_timestamp records), None, mn, mx) \<in> set (take 4 (telemetry_columns fo records))"
  "\<exists>mn mx. (ascii ''sensor_id'', CtUInt32, map le32 (map tl_sensor_id records), None, mn, mx) \<in> set (take 4 (telemetry_columns fo records))"
  "\<exists>mn mx. (ascii ''metric_id'', CtUInt32, map le32 (map tl_metric_id records), None, mn, mx) \<in> set (take 4 (telemetry_columns fo records))"
  "\<exists>mn mx. (ascii ''value'', CtFloat64, map le64 (map tl_value records), None, mn, mx) \<in> set (take 4 (telemetry_columns fo records))"
  "\<exists>mn mx. (ascii ''flags'', CtUInt64, map le64 (map tl_flags records), None, mn, mx) \<in> set (telemetry_columns fo records)"
  by (simp_all add: telemetry_columns_def Let_def del: map_map) blast+

text \<open>What decoding makes of a tile whose first four columns, and perhaps the fifth, were built from telemetry.\<close>

lemma decode_built:
  fixes records :: "telemetry_record list" and fo :: f64_ops
  defines "n \<equiv> length records" and "all \<equiv> telemetry_columns fo records"
  assumes "n < 2 ^ 26" "\<And>x. length (sha x) = 32" "cols = all \<or> cols = take 4 all"
  shows "decode_columnar_telemetry ce (columnar_build (add_columns sha cols (columnar_builder_new (of_nat n) src))) =
    Some (Ok (if cols = all then records else map (tl_flags_update (\<lambda>_. 1)) records))"
proof -
  have n: "unat (of_nat n :: u32) = n" using assms(3) by (simp add: unat_of_nat)
  have sub: "set cols \<subseteq> set all" using assms(5) set_take_subset [of 4 all] by auto
  have dist: "distinct (map fst cols)"
    using assms(5) distinct_column_names distinct_take [of "map fst all" 4]
    by (auto simp: telemetry_column_names all_def simp flip: take_map)
  have fit: "columns_fit n cols"
  proof -
    have "columns_fit n all" using assms(3) by (simp add: n_def all_def telemetry_columns_fit)
    moreover have "length (take 4 all) \<le> length all" "(\<Sum>c \<leftarrow> take 4 all. length (column_data c) + 7) \<le> (\<Sum>c \<leftarrow> all. length (column_data c) + 7)"
      by (simp_all add: all_def telemetry_columns_def Let_def)
    ultimately show ?thesis using assms(5) unfolding columns_fit_def
      by (smt (verit) add_mono le_less_trans mult_le_mono1 order_refl)
  qed
  have names: "\<And>c. c \<in> set cols \<Longrightarrow> column_name_ok (fst c)" using sub telemetry_names_ok unfolding all_def by blast
  obtain v where v: "columnar_parse True (columnar_build (add_columns sha cols (columnar_builder_new (of_nat n) src))) = Ok v"
    "ch_record_count (cv_header v) = of_nat n" "\<And>c. c \<in> set cols \<Longrightarrow> column_given sha n v c"
    "\<And>name. name \<notin> fst ` set cols \<Longrightarrow> find_column name v = None"
    using columnar_built [of "of_nat n" cols sha src, unfolded n, OF fit assms(4) dist names] by metis
  have c64: "\<exists>d. find_column name v = Some d \<and> read_column_slice ce 8 d v = Ok (map le64 xs)"
    if "\<exists>mn mx. (name, dt, map le64 xs, None, mn, mx) \<in> set cs" "set cs \<subseteq> set cols" "column_byte_size dt = 8" for cs name dt xs
    using that v(3) by (fastforce simp: column_given_def list_all_iff)
  have c32: "\<exists>d. find_column name v = Some d \<and> read_column_slice ce 4 d v = Ok (map le32 xs)"
    if "\<exists>mn mx. (name, dt, map le32 xs, None, mn, mx) \<in> set cs" "set cs \<subseteq> set cols" "column_byte_size dt = 4" for cs name dt xs
    using that v(3) by (fastforce simp: column_given_def list_all_iff)
  have four: "set (take 4 (telemetry_columns fo records)) \<subseteq> set cols" using assms(5) set_take_subset [of 4 all] by (auto simp: all_def)
  obtain d1 where d1: "find_column (ascii ''timestamp'') v = Some d1" "read_column_slice ce 8 d1 v = Ok (map le64 (map tl_timestamp records))"
    using c64 [OF telemetry_columns_mem(1) four] by (auto simp del: map_map)
  obtain d2 where d2: "find_column (ascii ''sensor_id'') v = Some d2" "read_column_slice ce 4 d2 v = Ok (map le32 (map tl_sensor_id records))"
    using c32 [OF telemetry_columns_mem(2) four] by (auto simp del: map_map)
  obtain d3 where d3: "find_column (ascii ''metric_id'') v = Some d3" "read_column_slice ce 4 d3 v = Ok (map le32 (map tl_metric_id records))"
    using c32 [OF telemetry_columns_mem(3) four] by (auto simp del: map_map)
  obtain d4 where d4: "find_column (ascii ''value'') v = Some d4" "read_column_slice ce 8 d4 v = Ok (map le64 (map tl_value records))"
    using c64 [OF telemetry_columns_mem(4) four] by (auto simp del: map_map)
  show ?thesis
  proof (cases "cols = all")
    case True
    obtain d5 where d5: "find_column (ascii ''flags'') v = Some d5" "read_column_slice ce 8 d5 v = Ok (map le64 (map tl_flags records))"
      using c64 [OF telemetry_columns_mem(5)] True by (auto simp: all_def simp del: map_map)
    show ?thesis unfolding decode_columnar_telemetry_def v(1) using True n d1 d2 d3 d4 d5
      by (auto simp: v(2) decode_columns_def Let_def n_def intro!: nth_equalityI)
  next
    case False
    then have "cols = take 4 all" using assms(5) by simp
    then have "ascii ''flags'' \<notin> fst ` set cols" by (simp add: all_def telemetry_columns_def Let_def ascii_def)
    then have d5: "find_column (ascii ''flags'') v = None" by (rule v(4))
    show ?thesis unfolding decode_columnar_telemetry_def v(1) using False n d1 d2 d3 d4 d5
      by (auto simp: v(2) decode_columns_def Let_def n_def intro!: nth_equalityI)
  qed
qed

text \<open>Telemetry encoded as a columnar tile is decoded to the same records.\<close>

theorem telemetry_columnar_roundtrip:
  assumes "length records < 2 ^ 26" "\<And>x. length (sha x) = 32"
  shows "decode_columnar_telemetry ce (encode_columnar_telemetry fo sha records) = Some (Ok records)"
  using decode_built [where cols = "telemetry_columns fo records" and fo = fo and sha = sha, OF assms] by (simp add: encode_columnar_telemetry_def)

theorem telemetry_columnar_roundtrip_witness:
  "decode_columnar_telemetry [] (encode_columnar_telemetry \<lparr> fo_of_u64 = id, fo_less = (<) \<rparr> (\<lambda>x. replicate 32 0)
    [telemetry_new 5 6 7 8, mark_tombstone (telemetry_new 9 6 7 8)]) = Some (Ok [telemetry_new 5 6 7 8, mark_tombstone (telemetry_new 9 6 7 8)])"
  by (rule telemetry_columnar_roundtrip) simp_all

text \<open>A columnar tile without the optional flags column is decoded with the flags 1 in every row, which is the tombstone flag: a
  query takes each of its records for a deletion.\<close>

theorem missing_flags_delete:
  fixes fo :: f64_ops
  assumes "length records < 2 ^ 26" "\<And>x. length (sha x) = 32"
  defines "tile \<equiv> columnar_build (add_columns sha (take 4 (telemetry_columns fo records)) (columnar_builder_new (of_nat (length records)) 0))"
  shows "\<exists>rs. decode_columnar_telemetry ce tile = Some (Ok rs) \<and> length rs = length records \<and> list_all telemetry_tombstone rs"
proof -
  have "take 4 (telemetry_columns fo records) \<noteq> telemetry_columns fo records" by (simp add: telemetry_columns_def Let_def)
  then show ?thesis unfolding tile_def
    using decode_built [where cols = "take 4 (telemetry_columns fo records)" and fo = fo and sha = sha, OF assms(1,2)]
    by (simp add: list_all_iff telemetry_tombstone_def FLAG_TOMBSTONE_def)
qed

theorem missing_flags_delete_witness:
  "\<exists>rs. decode_columnar_telemetry [] (columnar_build (add_columns (\<lambda>x. replicate 32 0)
      (take 4 (telemetry_columns \<lparr> fo_of_u64 = id, fo_less = (<) \<rparr> [telemetry_new 5 6 7 8])) (columnar_builder_new 1 0))) = Some (Ok rs) \<and>
    length rs = 1 \<and> list_all telemetry_tombstone rs"
  using missing_flags_delete [of "[telemetry_new 5 6 7 8]" "\<lambda>x. replicate 32 0" "[]" "\<lparr> fo_of_u64 = id, fo_less = (<) \<rparr>"] by simp

end
