(* ===== verification/Engine_Sieve.thy ===== *)
theory Engine_Sieve
  imports Engine_Reader Engine_Columnar Hash_Chain Ordered_Map Core_Coordinate
begin

text \<open>
  \<^verbatim>\<open>QuerySieve\<close> of \<^verbatim>\<open>crates/s3a-engine/src/lib.rs\<close>: consent, erasure and mark queries over the tiles that a reader delivers,
  and the telemetry and learning queries that respect them.  A function that casts a payload with
  \<^verbatim>\<open>bytemuck::cast_slice\<close> panics when the payload is not a whole number of records; \<open>None\<close> is that panic.
\<close>

section \<open>Tiles and records\<close>

type_synonym tile = "hyper_tile_header \<times> byte list"

definition get_tile :: "crc_crate \<Rightarrow> mmap_reader \<Rightarrow> nat \<Rightarrow> tile option" where
  "get_tile cc r index = (case try_get_tile cc r index of Ok t \<Rightarrow> Some t | Err _ \<Rightarrow> None)"

text \<open>What the loops over \<open>0..tile_count\<close> see.\<close>

definition reader_tiles :: "crc_crate \<Rightarrow> mmap_reader \<Rightarrow> tile option list" where
  "reader_tiles cc r = map (get_tile cc r) [0..<reader_tile_count r]"

definition cast_slice :: "nat \<Rightarrow> (byte list \<Rightarrow> 'a) \<Rightarrow> byte list \<Rightarrow> 'a list option" where
  "cast_slice w dec payload = (if length payload mod w = 0 then Some (pod_slice w dec payload) else None)"

definition TILE_TELEMETRY :: u32 where "TILE_TELEMETRY = 0"
definition TILE_HYBRID :: u32 where "TILE_HYBRID = 2"
definition TILE_RESERVED_BOUNDARY :: u32 where "TILE_RESERVED_BOUNDARY = 9"
definition TILE_MARKS :: u32 where "TILE_MARKS = 19"
definition TILE_COLUMNAR :: u32 where "TILE_COLUMNAR = 65"
definition TILE_CONSENT :: u32 where "TILE_CONSENT = 71"
definition TILE_ERASURE :: u32 where "TILE_ERASURE = 73"

text \<open>The records of all tiles of a type, in append order.\<close>

primrec typed_records :: "nat \<Rightarrow> (byte list \<Rightarrow> 'a) \<Rightarrow> u32 \<Rightarrow> tile option list \<Rightarrow> 'a list option" where
  "typed_records w dec ty [] = Some []"
| "typed_records w dec ty (t # ts) =
    (case t of
       Some (header, payload) \<Rightarrow>
         if ht_tile_type header = ty then
           (case cast_slice w dec payload of None \<Rightarrow> None | Some rs \<Rightarrow> map_option ((@) rs) (typed_records w dec ty ts))
         else typed_records w dec ty ts
     | None \<Rightarrow> typed_records w dec ty ts)"

record query_sieve =
  qs_tiles :: "tile option list"
  qs_include_hidden :: bool
  qs_purpose :: "consent_purpose option"
  qs_now :: u64

definition sieve_new :: "crc_crate \<Rightarrow> mmap_reader \<Rightarrow> query_sieve" where
  "sieve_new cc reader = \<lparr> qs_tiles = reader_tiles cc reader, qs_include_hidden = False, qs_purpose = None, qs_now = 0 \<rparr>"

definition sieve_for_export :: "crc_crate \<Rightarrow> u64 \<Rightarrow> mmap_reader \<Rightarrow> query_sieve" where
  "sieve_for_export cc now_sec reader =
     \<lparr> qs_tiles = reader_tiles cc reader, qs_include_hidden = False, qs_purpose = Some Research, qs_now = now_sec \<rparr>"

definition with_hidden_marks :: "bool \<Rightarrow> query_sieve \<Rightarrow> query_sieve" where
  "with_hidden_marks include_hidden s = s\<lparr> qs_include_hidden := include_hidden \<rparr>"

definition with_purpose :: "consent_purpose \<Rightarrow> query_sieve \<Rightarrow> query_sieve" where
  "with_purpose purpose s = s\<lparr> qs_purpose := Some purpose \<rparr>"

definition with_now :: "u64 \<Rightarrow> query_sieve \<Rightarrow> query_sieve" where
  "with_now now s = s\<lparr> qs_now := now \<rparr>"

section \<open>Consent\<close>

definition query_consent_records :: "byte list option \<Rightarrow> query_sieve \<Rightarrow> consent_record list option" where
  "query_consent_records subject_id s =
    map_option (filter (\<lambda>r. case subject_id of Some t \<Rightarrow> cn_subject_id r = t | None \<Rightarrow> True))
      (typed_records 136 consent_of_bytes TILE_CONSENT (qs_tiles s))"

fun consent_chain_loop :: "(byte list \<Rightarrow> byte list) \<Rightarrow> nat \<Rightarrow> byte list \<Rightarrow> consent_record list \<Rightarrow> (string, bool) result" where
  "consent_chain_loop sha idx expected_prev_hash [] = Ok True"
| "consent_chain_loop sha idx expected_prev_hash (r # rs) =
    (if \<not> consent_verify_hash sha r then
       Err ''InvalidRecordHash: consent_hash does not match SHA-256 of record fields''
     else if idx = 0 \<and> cn_prev_consent_hash r \<noteq> replicate 32 0 then
       Err ''BrokenGenesisHash: first consent record must have zero prev_consent_hash''
     else if idx \<noteq> 0 \<and> cn_prev_consent_hash r \<noteq> expected_prev_hash then
       Err ''BrokenChainHash: prev_consent_hash does not match previous record consent_hash''
     else consent_chain_loop sha (idx + 1) (cn_consent_hash r) rs)"

definition verify_consent_chain :: "(byte list \<Rightarrow> byte list) \<Rightarrow> byte list \<Rightarrow> query_sieve \<Rightarrow> (string, bool) result option" where
  "verify_consent_chain sha subject_id s =
    map_option (consent_chain_loop sha 0 (replicate 32 0)) (query_consent_records (Some subject_id) s)"

definition latest_consent :: "u64 option \<Rightarrow> consent_purpose \<Rightarrow> consent_record list \<Rightarrow> consent_record option" where
  "latest_consent study_id purpose records =
    fold (\<lambda>r latest.
        if cn_purpose r = purpose_code purpose \<and> (case study_id of Some sid \<Rightarrow> cn_study_id r = sid | None \<Rightarrow> True)
        then Some r else latest) records None"

definition is_subject_consent_active_for_purpose ::
  "byte list \<Rightarrow> u64 option \<Rightarrow> consent_purpose \<Rightarrow> u64 \<Rightarrow> query_sieve \<Rightarrow> bool option" where
  "is_subject_consent_active_for_purpose subject_id study_id purpose now s =
    map_option (\<lambda>records. case latest_consent study_id purpose records of Some r \<Rightarrow> consent_is_active now r | None \<Rightarrow> False)
      (query_consent_records (Some subject_id) s)"

definition is_subject_under_legal_hold :: "byte list \<Rightarrow> query_sieve \<Rightarrow> bool option" where
  "is_subject_under_legal_hold subject_id s =
    map_option (\<lambda>records.
        let latest_per_purpose = fold (\<lambda>r. bt_insert (cn_study_id r, cn_purpose r) r) records []
        in list_ex (\<lambda>(k, r). consent_is_legal_hold r) latest_per_purpose)
      (query_consent_records (Some subject_id) s)"

definition is_subject_allowed :: "byte list \<Rightarrow> query_sieve \<Rightarrow> bool option" where
  "is_subject_allowed subject_id s =
    (case qs_purpose s of
       Some purpose \<Rightarrow> is_subject_consent_active_for_purpose subject_id None purpose (qs_now s) s
     | None \<Rightarrow> Some True)"

definition is_actor_allowed :: "u64 \<Rightarrow> query_sieve \<Rightarrow> bool option" where
  "is_actor_allowed actor_id s = is_subject_allowed (actor_id_to_subject_id actor_id) s"

section \<open>Erasure\<close>

definition query_erasure_records :: "byte list option \<Rightarrow> query_sieve \<Rightarrow> erasure_record list option" where
  "query_erasure_records target_hash s =
    map_option (filter (\<lambda>r. case target_hash of Some t \<Rightarrow> er_erased_record_hash r = t | None \<Rightarrow> True))
      (typed_records 144 erasure_of_bytes TILE_ERASURE (qs_tiles s))"

fun erasure_chain_loop :: "(byte list \<Rightarrow> byte list) \<Rightarrow> nat \<Rightarrow> byte list \<Rightarrow> erasure_record list \<Rightarrow> (string, bool) result" where
  "erasure_chain_loop sha idx expected_prev_hash [] = Ok True"
| "erasure_chain_loop sha idx expected_prev_hash (r # rs) =
    (if \<not> erasure_verify_hash sha r then
       Err ''InvalidRecordHash: erasure_hash does not match SHA-256 of record fields''
     else if idx = 0 \<and> er_prev_erasure_hash r \<noteq> replicate 32 0 then
       Err ''BrokenGenesisHash: first erasure record must have zero prev_erasure_hash''
     else if idx \<noteq> 0 \<and> er_prev_erasure_hash r \<noteq> expected_prev_hash then
       Err ''BrokenChainHash: prev_erasure_hash does not match previous record erasure_hash''
     else erasure_chain_loop sha (idx + 1) (er_erasure_hash r) rs)"

definition verify_erasure_chain :: "(byte list \<Rightarrow> byte list) \<Rightarrow> query_sieve \<Rightarrow> (string, bool) result option" where
  "verify_erasure_chain sha s = map_option (erasure_chain_loop sha 0 (replicate 32 0)) (query_erasure_records None s)"

definition is_record_hash_erased :: "byte list \<Rightarrow> query_sieve \<Rightarrow> bool option" where
  "is_record_hash_erased record_hash s = map_option (\<lambda>records. records \<noteq> []) (query_erasure_records (Some record_hash) s)"

text \<open>The first tile of the type and identifier in which the index lies; the record size is the payload divided by the count.\<close>

primrec target_chunk :: "u32 \<Rightarrow> u64 \<Rightarrow> u32 \<Rightarrow> tile option list \<Rightarrow> byte list option" where
  "target_chunk target_tile_type target_tile_id record_index [] = None"
| "target_chunk target_tile_type target_tile_id record_index (t # ts) =
    (let rest = target_chunk target_tile_type target_tile_id record_index ts in
     case t of
       Some (header, payload) \<Rightarrow>
         if ht_tile_type header = target_tile_type \<and> ht_tile_id header = target_tile_id then
           let rec_size = (if 0 < ht_record_count header \<and> 0 < ht_payload_bytes header
                 then unat (ht_payload_bytes header) div unat (ht_record_count header) else 0);
               offset = unat record_index * rec_size
           in if 0 < rec_size \<and> offset + rec_size \<le> length payload then Some (window offset rec_size payload) else rest
         else rest
     | None \<Rightarrow> rest)"

definition is_record_erased :: "(byte list \<Rightarrow> byte list) \<Rightarrow> u32 \<Rightarrow> u64 \<Rightarrow> u32 \<Rightarrow> query_sieve \<Rightarrow> bool option" where
  "is_record_erased sha target_tile_type target_tile_id record_index s =
    (case target_chunk target_tile_type target_tile_id record_index (qs_tiles s) of
       Some chunk \<Rightarrow> is_record_hash_erased (sha chunk) s
     | None \<Rightarrow> Some False)"

section \<open>Marks\<close>

definition mark_state_step :: "u32 \<Rightarrow> u64 \<Rightarrow> u32 \<Rightarrow> u32 \<Rightarrow> mark_record \<Rightarrow> bool option \<times> bool option \<Rightarrow> bool option \<times> bool option" where
  "mark_state_step target_tile_type target_tile_id record_index mark_kind m =
    (\<lambda>(latest_record_state, latest_tile_state).
       if mk_target_tile_type m = target_tile_type \<and> mk_target_tile_id m = target_tile_id \<and> mk_mark_kind m = mark_kind then
         (if mk_record_index m = record_index then (Some (mark_is_set m), latest_tile_state)
          else if mark_is_whole_tile m then (latest_record_state, Some (mark_is_set m))
          else (latest_record_state, latest_tile_state))
       else (latest_record_state, latest_tile_state))"

definition is_marked :: "u32 \<Rightarrow> u64 \<Rightarrow> u32 \<Rightarrow> u32 \<Rightarrow> query_sieve \<Rightarrow> bool option" where
  "is_marked target_tile_type target_tile_id record_index mark_kind s =
    map_option (\<lambda>marks.
        let (latest_record_state, latest_tile_state) =
          fold (mark_state_step target_tile_type target_tile_id record_index mark_kind) marks (None, None)
        in (case latest_record_state of Some b \<Rightarrow> b | None \<Rightarrow> (case latest_tile_state of Some b \<Rightarrow> b | None \<Rightarrow> False)))
      (typed_records 64 mark_of_bytes TILE_MARKS (qs_tiles s))"

definition or_else :: "bool option \<Rightarrow> bool option \<Rightarrow> bool option" where
  "or_else a b = (case a of None \<Rightarrow> None | Some True \<Rightarrow> Some True | Some False \<Rightarrow> b)"

definition is_record_hidden :: "(byte list \<Rightarrow> byte list) \<Rightarrow> u32 \<Rightarrow> u64 \<Rightarrow> u32 \<Rightarrow> query_sieve \<Rightarrow> bool option" where
  "is_record_hidden sha target_tile_type target_tile_id record_index s =
    (if qs_include_hidden s then Some False
     else or_else (is_marked target_tile_type target_tile_id record_index MARK_CONSENT_WITHDRAWN s)
       (or_else (is_marked target_tile_type target_tile_id record_index MARK_QUARANTINE s)
         (or_else (is_marked target_tile_type target_tile_id record_index MARK_RETENTION_EXPIRED s)
           (is_record_erased sha target_tile_type target_tile_id record_index s))))"

text \<open>The identifier filter of \<^verbatim>\<open>query_marks\<close> also admits the marks whose target is the index \<open>i\<close> of the tile they are stored in.\<close>

primrec query_marks_from :: "u32 option \<Rightarrow> u64 option \<Rightarrow> nat \<Rightarrow> tile option list \<Rightarrow> mark_record list option" where
  "query_marks_from target_tile_type target_tile_id i [] = Some []"
| "query_marks_from target_tile_type target_tile_id i (t # ts) =
    (case t of
       Some (header, payload) \<Rightarrow>
         if ht_tile_type header = TILE_MARKS then
           (case cast_slice 64 mark_of_bytes payload of
              None \<Rightarrow> None
            | Some marks \<Rightarrow>
                map_option ((@) (filter (\<lambda>m.
                    (case target_tile_type of Some tt \<Rightarrow> mk_target_tile_type m = tt | None \<Rightarrow> True) \<and>
                    (case target_tile_id of Some tid \<Rightarrow> mk_target_tile_id m = tid \<or> mk_target_tile_id m = of_nat i | None \<Rightarrow> True)) marks))
                  (query_marks_from target_tile_type target_tile_id (i + 1) ts))
         else query_marks_from target_tile_type target_tile_id (i + 1) ts
     | None \<Rightarrow> query_marks_from target_tile_type target_tile_id (i + 1) ts)"

definition query_marks :: "u32 option \<Rightarrow> u64 option \<Rightarrow> query_sieve \<Rightarrow> mark_record list option" where
  "query_marks target_tile_type target_tile_id s = query_marks_from target_tile_type target_tile_id 0 (qs_tiles s)"

definition active_marks :: "query_sieve \<Rightarrow> mark_record list option" where
  "active_marks s =
    map_option (\<lambda>all_marks.
        let m = fold (\<lambda>m. bt_insert (mk_target_tile_type m, mk_target_tile_id m, mk_record_index m, mk_mark_kind m) m) all_marks []
        in filter mark_is_set (map snd m))
      (query_marks None None s)"

section \<open>Telemetry\<close>

definition telemetry_matches :: "u64 \<Rightarrow> u64 \<Rightarrow> u32 option \<Rightarrow> u32 option \<Rightarrow> telemetry_record \<Rightarrow> bool" where
  "telemetry_matches min_ts max_ts sensor_id metric_id r \<longleftrightarrow>
    min_ts \<le> tl_timestamp r \<and> tl_timestamp r \<le> max_ts \<and>
    (case sensor_id of Some s \<Rightarrow> tl_sensor_id r = s | None \<Rightarrow> True) \<and>
    (case metric_id of Some m \<Rightarrow> tl_metric_id r = m | None \<Rightarrow> True)"

text \<open>The loop over the records of tile \<open>i\<close> from record \<open>k\<close> on; \<open>skip\<close> is the test for hidden records.\<close>

primrec scan_records ::
  "(nat \<Rightarrow> 'r \<Rightarrow> bool option) \<Rightarrow> ('r \<Rightarrow> bool) \<Rightarrow> nat \<Rightarrow> nat \<Rightarrow> 'r list \<Rightarrow> ('r \<times> coordinate) list option" where
  "scan_records skip keep i k [] = Some []"
| "scan_records skip keep i k (r # rs) =
    (case skip k r of
       None \<Rightarrow> None
     | Some True \<Rightarrow> scan_records skip keep i (k + 1) rs
     | Some False \<Rightarrow>
         if keep r then map_option ((#) (r, coordinate_new 0 (of_nat i) (of_nat k))) (scan_records skip keep i (k + 1) rs)
         else scan_records skip keep i (k + 1) rs)"

definition prune_columnar :: "f64_ops \<Rightarrow> columnar_view \<Rightarrow> u64 \<Rightarrow> u64 \<Rightarrow> u32 option \<Rightarrow> u32 option \<Rightarrow> bool" where
  "prune_columnar fo view min_ts max_ts sensor_id metric_id \<longleftrightarrow>
    can_prune_column (fo_less fo) (ascii ''timestamp'') (fo_of_u64 fo min_ts) (fo_of_u64 fo max_ts) view \<or>
    (case sensor_id of
       Some s \<Rightarrow> can_prune_column (fo_less fo) (ascii ''sensor_id'') (fo_of_u64 fo (ucast s)) (fo_of_u64 fo (ucast s)) view
     | None \<Rightarrow> False) \<or>
    (case metric_id of
       Some m \<Rightarrow> can_prune_column (fo_less fo) (ascii ''metric_id'') (fo_of_u64 fo (ucast m)) (fo_of_u64 fo (ucast m)) view
     | None \<Rightarrow> False)"

definition columnar_candidates ::
  "f64_ops \<Rightarrow> string \<Rightarrow> (byte list \<Rightarrow> byte list) \<Rightarrow> u64 \<Rightarrow> u64 \<Rightarrow> u32 option \<Rightarrow> u32 option \<Rightarrow> query_sieve \<Rightarrow> nat \<Rightarrow> tile \<Rightarrow>
   (telemetry_record \<times> coordinate) list option" where
  "columnar_candidates fo ce sha min_ts max_ts sensor_id metric_id s i t =
    (let (header, payload) = t in
     case columnar_parse True payload of
       Err ColumnarPanic \<Rightarrow> None
     | Err _ \<Rightarrow> Some []
     | Ok view \<Rightarrow>
         if ch_source_tile_type (cv_header view) \<noteq> TILE_TELEMETRY then Some []
         else if prune_columnar fo view min_ts max_ts sensor_id metric_id then Some []
         else (case decode_columnar_telemetry ce payload of
             None \<Rightarrow> None
           | Some (Err _) \<Rightarrow> Some []
           | Some (Ok records) \<Rightarrow>
               scan_records (\<lambda>k r. or_else (is_record_hidden sha (ht_tile_type header) (ht_tile_id header) (of_nat k) s)
                   (is_record_hash_erased (sha (telemetry_bytes r)) s))
                 (telemetry_matches min_ts max_ts sensor_id metric_id) i 0 records))"

definition tile_candidates ::
  "f64_ops \<Rightarrow> string \<Rightarrow> (byte list \<Rightarrow> byte list) \<Rightarrow> u64 \<Rightarrow> u64 \<Rightarrow> u32 option \<Rightarrow> u32 option \<Rightarrow> query_sieve \<Rightarrow> nat \<Rightarrow> tile option \<Rightarrow>
   (telemetry_record \<times> coordinate) list option" where
  "tile_candidates fo ce sha min_ts max_ts sensor_id metric_id s i tile =
    (case tile of
       None \<Rightarrow> Some []
     | Some (header, payload) \<Rightarrow>
         if can_reject_tile_time header min_ts max_ts then Some []
         else if (case sensor_id of Some sn \<Rightarrow> can_reject_tile_bloom header (ucast sn) | None \<Rightarrow> False) then Some []
         else if ht_tile_type header = TILE_COLUMNAR then
           columnar_candidates fo ce sha min_ts max_ts sensor_id metric_id s i (header, payload)
         else if ht_tile_type header \<noteq> TILE_TELEMETRY \<and> ht_tile_type header \<noteq> TILE_HYBRID then Some []
         else (case cast_slice 32 telemetry_of_bytes payload of
             None \<Rightarrow> None
           | Some records \<Rightarrow>
               scan_records (\<lambda>k r. is_record_hidden sha (ht_tile_type header) (ht_tile_id header) (of_nat k) s)
                 (telemetry_matches min_ts max_ts sensor_id metric_id) i 0 records))"

primrec all_candidates ::
  "(nat \<Rightarrow> tile option \<Rightarrow> 'a list option) \<Rightarrow> nat \<Rightarrow> tile option list \<Rightarrow> 'a list option" where
  "all_candidates f i [] = Some []"
| "all_candidates f i (t # ts) =
    (case f i t of None \<Rightarrow> None | Some xs \<Rightarrow> map_option ((@) xs) (all_candidates f (i + 1) ts))"

definition telemetry_key :: "telemetry_record \<Rightarrow> u32 \<times> u32 \<times> u64" where
  "telemetry_key r = (tl_sensor_id r, tl_metric_id r, tl_timestamp r)"

definition latest_versions :: "(telemetry_record \<times> coordinate) list \<Rightarrow> (u32 \<times> u32 \<times> u64, telemetry_record \<times> coordinate) btree_map" where
  "latest_versions all_records =
    fold (\<lambda>(r, c) m. if telemetry_tombstone r then bt_remove (telemetry_key r) m else bt_insert (telemetry_key r) (r, c) m)
      all_records []"

definition query_telemetry_with_coords ::
  "f64_ops \<Rightarrow> string \<Rightarrow> (byte list \<Rightarrow> byte list) \<Rightarrow> u64 \<Rightarrow> u64 \<Rightarrow> u32 option \<Rightarrow> u32 option \<Rightarrow> query_sieve \<Rightarrow>
   (telemetry_record \<times> coordinate) list option" where
  "query_telemetry_with_coords fo ce sha min_ts max_ts sensor_id metric_id s =
    map_option (\<lambda>all_records. map snd (latest_versions all_records))
      (all_candidates (tile_candidates fo ce sha min_ts max_ts sensor_id metric_id s) 0 (qs_tiles s))"

definition query_telemetry ::
  "f64_ops \<Rightarrow> string \<Rightarrow> (byte list \<Rightarrow> byte list) \<Rightarrow> u64 \<Rightarrow> u64 \<Rightarrow> u32 option \<Rightarrow> u32 option \<Rightarrow> query_sieve \<Rightarrow>
   telemetry_record list option" where
  "query_telemetry fo ce sha min_ts max_ts sensor_id metric_id s =
    map_option (map fst) (query_telemetry_with_coords fo ce sha min_ts max_ts sensor_id metric_id s)"

section \<open>Learning activities\<close>

definition learning_matches :: "u64 \<Rightarrow> u64 \<Rightarrow> u64 option \<Rightarrow> u32 option \<Rightarrow> learning_record \<Rightarrow> bool" where
  "learning_matches min_ts max_ts actor_id verb_id r \<longleftrightarrow>
    min_ts \<le> la_timestamp_sec r \<and> la_timestamp_sec r \<le> max_ts \<and>
    (case actor_id of Some a \<Rightarrow> la_actor_id r = a | None \<Rightarrow> True) \<and>
    (case verb_id of Some v \<Rightarrow> la_verb_id r = v | None \<Rightarrow> True) \<and> \<not> learning_tombstone r"

definition learning_candidates ::
  "(byte list \<Rightarrow> byte list) \<Rightarrow> u64 \<Rightarrow> u64 \<Rightarrow> u64 option \<Rightarrow> u32 option \<Rightarrow> query_sieve \<Rightarrow> nat \<Rightarrow> tile option \<Rightarrow>
   (learning_record \<times> coordinate) list option" where
  "learning_candidates sha min_ts max_ts actor_id verb_id s i tile =
    (case tile of
       None \<Rightarrow> Some []
     | Some (header, payload) \<Rightarrow>
         if ht_tile_type header \<noteq> TILE_RESERVED_BOUNDARY \<and> ht_tile_type header \<noteq> 10 then Some []
         else if can_reject_tile_time header min_ts max_ts then Some []
         else if (case actor_id of Some a \<Rightarrow> can_reject_tile_bloom header a | None \<Rightarrow> False) then Some []
         else (case cast_slice 64 learning_of_bytes payload of
             None \<Rightarrow> None
           | Some records \<Rightarrow>
               scan_records (\<lambda>k r. or_else (is_record_hidden sha (ht_tile_type header) (ht_tile_id header) (of_nat k) s)
                   (map_option Not (is_actor_allowed (la_actor_id r) s)))
                 (learning_matches min_ts max_ts actor_id verb_id) i 0 records))"

definition query_learning_activities ::
  "(byte list \<Rightarrow> byte list) \<Rightarrow> u64 \<Rightarrow> u64 \<Rightarrow> u64 option \<Rightarrow> u32 option \<Rightarrow> query_sieve \<Rightarrow> (learning_record \<times> coordinate) list option" where
  "query_learning_activities sha min_ts max_ts actor_id verb_id s =
    all_candidates (learning_candidates sha min_ts max_ts actor_id verb_id s) 0 (qs_tiles s)"

end
