(* ===== verification/Engine_Crud.thy ===== *)
theory Engine_Crud
  imports Engine_Sieve
begin

text \<open>
  \<^verbatim>\<open>S3ACrudEngine\<close> of \<^verbatim>\<open>crates/s3a-engine/src/lib.rs\<close>: every operation opens the archive file anew, so the state is the
  bytes of that file.  The environment holds the external functions, the registry and the clock.  The outer \<open>None\<close> of an
  operation that queries is the panic of a malformed payload.
\<close>

record crud_env =
  en_crc :: crc_crate
  en_sha :: "byte list \<Rightarrow> byte list"
  en_registry :: tile_type_registry
  en_ratio :: "u64 \<Rightarrow> u64 \<Rightarrow> u32"
  en_f64 :: f64_ops
  en_cast_error :: string
  en_now :: u64

type_synonym 'a crud_result = "(archive_io_error, 'a) result \<times> byte list"

text \<open>\<^verbatim>\<open>TileWriter::open_append\<close> followed by \<^verbatim>\<open>write_hyper_tile\<close>, as in every create operation; the
  operations of version control give no timestamps.\<close>

definition append_tile :: "crud_env \<Rightarrow> u32 \<Rightarrow> nat \<Rightarrow> byte list \<Rightarrow> u64 list option \<Rightarrow> byte list \<Rightarrow> u64 crud_result" where
  "append_tile env tile_type n record_bytes timestamps disk =
    (case open_append (en_crc env) disk of
       Err e \<Rightarrow> (Err e, disk)
     | Ok w \<Rightarrow>
         let (r, w') = write_hyper_tile_ext (en_crc env) (en_registry env) (en_ratio env) (en_now env) tile_type n True record_bytes
               timestamps None None w
         in (r, df_bytes (tw_file w')))"

definition append_records :: "crud_env \<Rightarrow> u32 \<Rightarrow> nat \<Rightarrow> byte list \<Rightarrow> u64 list \<Rightarrow> byte list \<Rightarrow> u64 crud_result" where
  "append_records env tile_type n record_bytes timestamps disk = append_tile env tile_type n record_bytes (Some timestamps) disk"

definition open_or_create :: "crud_env \<Rightarrow> u64 \<times> u64 \<Rightarrow> byte list option \<Rightarrow> byte list" where
  "open_or_create env uuid disk =
    (case disk of
       Some bs \<Rightarrow> if bs = [] then df_bytes (tw_file (create_with_uuid (en_crc env) (en_now env) uuid)) else bs
     | None \<Rightarrow> df_bytes (tw_file (create_with_uuid (en_crc env) (en_now env) uuid)))"

definition crud_enable_addon :: "crud_env \<Rightarrow> u32 \<Rightarrow> byte list \<Rightarrow> unit crud_result" where
  "crud_enable_addon env m disk =
    (case open_append (en_crc env) disk of
       Err e \<Rightarrow> (Err e, disk)
     | Ok w \<Rightarrow> (Ok (), df_bytes (tw_file (enable_addon (en_crc env) (en_now env) m w))))"

definition active_addons :: "crud_env \<Rightarrow> byte list \<Rightarrow> u32" where
  "active_addons env disk =
    (case reader_open (en_crc env) disk of Ok r \<Rightarrow> fh_addon_mask (mr_active_header r) | Err _ \<Rightarrow> 0)"

definition is_addon_active :: "crud_env \<Rightarrow> u32 \<Rightarrow> byte list \<Rightarrow> bool" where
  "is_addon_active env m disk \<longleftrightarrow>
    (case reader_open (en_crc env) disk of Ok r \<Rightarrow> fh_addon_mask (mr_active_header r) AND m \<noteq> 0 | Err _ \<Rightarrow> False)"

section \<open>Creating records\<close>

definition create_telemetry :: "crud_env \<Rightarrow> telemetry_record list \<Rightarrow> byte list \<Rightarrow> u64 crud_result" where
  "create_telemetry env records disk =
    (if records = [] then (Ok 0, disk)
     else append_records env TILE_TELEMETRY (length records) (pod_bytes telemetry_bytes records) (map tl_timestamp records) disk)"

definition create_marks :: "crud_env \<Rightarrow> mark_record list \<Rightarrow> byte list \<Rightarrow> u64 crud_result" where
  "create_marks env marks disk =
    (if marks = [] then (Ok 0, disk)
     else append_records env TILE_MARKS (length marks) (pod_bytes mark_bytes marks) (map mk_timestamp marks) disk)"

definition mark_record_op :: "crud_env \<Rightarrow> u32 \<Rightarrow> u64 \<Rightarrow> u32 \<Rightarrow> u32 \<Rightarrow> bool \<Rightarrow> u64 \<Rightarrow> u64 \<Rightarrow> byte list \<Rightarrow> u64 crud_result" where
  "mark_record_op env target_tile_type target_tile_id record_index mark_kind set_flag timestamp actor_hash disk =
    (let gen = (case reader_open (en_crc env) disk of Ok r \<Rightarrow> fh_generation (mr_active_header r) | Err _ \<Rightarrow> 1);
         mark = mark_new target_tile_type target_tile_id record_index gen mark_kind (if set_flag then MARK_SET else MARK_CLEAR)
           timestamp actor_hash
     in create_marks env [mark] disk)"

definition create_consent_records :: "crud_env \<Rightarrow> consent_record list \<Rightarrow> bool \<Rightarrow> byte list \<Rightarrow> u64 crud_result" where
  "create_consent_records env records is_admin_or_human disk =
    (if records = [] then (Ok 0, disk)
     else if \<not> is_admin_or_human then
       (Err (IoPermissionDenied ''Consent records may only be authored by authorized human/admin actors, never AI agents''), disk)
     else if \<not> list_all (consent_verify_hash (en_sha env)) records then
       (Err (IoInvalidData ''Consent record hash mismatch (SHA-256 verification failed)''), disk)
     else append_records env TILE_CONSENT (length records) (pod_bytes consent_bytes records)
       (map (\<lambda>r. max (cn_granted_at r) (cn_withdrawn_at r)) records) disk)"

definition create_consent_record :: "crud_env \<Rightarrow> consent_record \<Rightarrow> bool \<Rightarrow> byte list \<Rightarrow> u64 crud_result" where
  "create_consent_record env r is_admin_or_human disk = create_consent_records env [r] is_admin_or_human disk"

definition prev_consent_hash :: "crud_env \<Rightarrow> byte list \<Rightarrow> byte list \<Rightarrow> byte list option" where
  "prev_consent_hash env subject_id disk =
    (case reader_open (en_crc env) disk of
       Ok reader \<Rightarrow>
         map_option (\<lambda>records. if records = [] then replicate 32 0 else cn_consent_hash (last records))
           (query_consent_records (Some subject_id) (sieve_new (en_crc env) reader))
     | Err _ \<Rightarrow> Some (replicate 32 0))"

definition and_return :: "'b \<Rightarrow> 'a crud_result \<Rightarrow> 'b crud_result" where
  "and_return x res = (case res of (Err e, disk) \<Rightarrow> (Err e, disk) | (Ok _, disk) \<Rightarrow> (Ok x, disk))"

definition grant_consent ::
  "crud_env \<Rightarrow> byte list \<Rightarrow> u64 \<Rightarrow> consent_purpose \<Rightarrow> u32 \<Rightarrow> u64 \<Rightarrow> u64 \<Rightarrow> bool \<Rightarrow> u64 \<Rightarrow> bool \<Rightarrow> byte list \<Rightarrow>
   consent_record crud_result option" where
  "grant_consent env subject_id study_id purpose scope granted_at expires_at legal_hold granted_by is_admin_or_human disk =
    map_option (\<lambda>prev_hash.
        let r = consent_new (en_sha env) subject_id study_id purpose scope granted_at expires_at legal_hold granted_by prev_hash
        in and_return r (create_consent_record env r is_admin_or_human disk))
      (prev_consent_hash env subject_id disk)"

definition withdraw_consent ::
  "crud_env \<Rightarrow> byte list \<Rightarrow> u64 \<Rightarrow> consent_purpose \<Rightarrow> u32 \<Rightarrow> u64 \<Rightarrow> u64 \<Rightarrow> bool \<Rightarrow> byte list \<Rightarrow>
   consent_record crud_result option" where
  "withdraw_consent env subject_id study_id purpose scope withdrawn_at granted_by is_admin_or_human disk =
    map_option (\<lambda>prev_hash.
        let r = consent_new_withdrawal (en_sha env) subject_id study_id purpose scope withdrawn_at granted_by prev_hash
        in and_return r (create_consent_record env r is_admin_or_human disk))
      (prev_consent_hash env subject_id disk)"

definition create_erasure_records :: "crud_env \<Rightarrow> erasure_record list \<Rightarrow> bool \<Rightarrow> byte list \<Rightarrow> u64 crud_result" where
  "create_erasure_records env records is_admin_or_human disk =
    (if records = [] then (Ok 0, disk)
     else if \<not> is_admin_or_human then
       (Err (IoPermissionDenied ''Erasure records may only be authored by authorized human/admin actors, never AI agents''), disk)
     else if \<not> list_all (erasure_verify_hash (en_sha env)) records then
       (Err (IoInvalidData ''Erasure record hash mismatch (SHA-256 verification failed)''), disk)
     else append_records env TILE_ERASURE (length records) (pod_bytes erasure_bytes records) (map er_executed_at records) disk)"

definition create_erasure_record :: "crud_env \<Rightarrow> erasure_record \<Rightarrow> bool \<Rightarrow> byte list \<Rightarrow> u64 crud_result" where
  "create_erasure_record env r is_admin_or_human disk = create_erasure_records env [r] is_admin_or_human disk"

definition create_learning_activities :: "crud_env \<Rightarrow> learning_record list \<Rightarrow> byte list \<Rightarrow> u64 crud_result" where
  "create_learning_activities env records disk =
    (if records = [] then (Ok 0, disk)
     else case open_append (en_crc env) disk of
       Err e \<Rightarrow> (Err e, disk)
     | Ok w \<Rightarrow>
         if HYPER_TILE_PAYLOAD_SIZE div 64 < length records then
           (Err (IoInvalidInput ''Records exceed single tile capacity''), df_bytes (tw_file w))
         else append_records env TILE_RESERVED_BOUNDARY (length records) (pod_bytes learning_bytes records)
           (map la_timestamp_sec records) disk)"

section \<open>Erasure\<close>

text \<open>The loops over the telemetry tiles with an identifier: whether the subject of one of the records at the index is held,
  and the first of these records.\<close>

primrec target_subject_held :: "(byte list \<Rightarrow> bool option) \<Rightarrow> u64 \<Rightarrow> u32 \<Rightarrow> tile option list \<Rightarrow> bool option" where
  "target_subject_held held target_tile_id record_index [] = Some False"
| "target_subject_held held target_tile_id record_index (t # ts) =
    (case t of
       Some (header, payload) \<Rightarrow>
         if ht_tile_type header = TILE_TELEMETRY \<and> ht_tile_id header = target_tile_id then
           (case cast_slice 32 telemetry_of_bytes payload of
              None \<Rightarrow> None
            | Some recs \<Rightarrow>
                if unat record_index < length recs
                then or_else (held (actor_id_to_subject_id (ucast (tl_sensor_id (recs ! unat record_index)))))
                  (target_subject_held held target_tile_id record_index ts)
                else target_subject_held held target_tile_id record_index ts)
         else target_subject_held held target_tile_id record_index ts
     | None \<Rightarrow> target_subject_held held target_tile_id record_index ts)"

primrec first_target :: "u64 \<Rightarrow> u32 \<Rightarrow> tile option list \<Rightarrow> telemetry_record option option" where
  "first_target target_tile_id record_index [] = Some None"
| "first_target target_tile_id record_index (t # ts) =
    (case t of
       Some (header, payload) \<Rightarrow>
         if ht_tile_type header = TILE_TELEMETRY \<and> ht_tile_id header = target_tile_id then
           (case cast_slice 32 telemetry_of_bytes payload of
              None \<Rightarrow> None
            | Some recs \<Rightarrow>
                if unat record_index < length recs then Some (Some (recs ! unat record_index))
                else first_target target_tile_id record_index ts)
         else first_target target_tile_id record_index ts
     | None \<Rightarrow> first_target target_tile_id record_index ts)"

text \<open>What the checks before an erasure find: a refusal, the receipt of an earlier erasure, or the hash to link to.\<close>

datatype erasure_gate = Blocked string | AlreadyErased erasure_record | LinkTo "byte list"

definition erasure_checks :: "u32 \<Rightarrow> u64 \<Rightarrow> u32 \<Rightarrow> byte list \<Rightarrow> query_sieve \<Rightarrow> erasure_gate option" where
  "erasure_checks target_tile_type target_tile_id record_index erased_record_hash s =
    (case is_marked target_tile_type target_tile_id record_index MARK_LEGAL_HOLD s of
       None \<Rightarrow> None
     | Some True \<Rightarrow> Some (Blocked ''Erasure blocked: target record is under active legal hold'')
     | Some False \<Rightarrow>
         (case (if target_tile_type = TILE_TELEMETRY
                then target_subject_held (\<lambda>sub. is_subject_under_legal_hold sub s) target_tile_id record_index (qs_tiles s)
                else Some False) of
            None \<Rightarrow> None
          | Some True \<Rightarrow> Some (Blocked ''Erasure blocked: subject is under active legal hold'')
          | Some False \<Rightarrow>
              map_option (\<lambda>existing.
                  case find (\<lambda>r. er_target_tile_type r = target_tile_type \<and> er_target_tile_id r = target_tile_id \<and>
                      er_record_index r = record_index \<and> er_erased_record_hash r = erased_record_hash) existing of
                    Some r \<Rightarrow> AlreadyErased r
                  | None \<Rightarrow> LinkTo (if existing = [] then replicate 32 0 else er_erasure_hash (last existing)))
                (query_erasure_records None s)))"

definition append_tombstone :: "crud_env \<Rightarrow> u64 \<Rightarrow> u32 \<Rightarrow> byte list \<Rightarrow> byte list option" where
  "append_tombstone env target_tile_id record_index disk =
    (case reader_open (en_crc env) disk of
       Err _ \<Rightarrow> Some disk
     | Ok reader \<Rightarrow>
         (case first_target target_tile_id record_index (reader_tiles (en_crc env) reader) of
            None \<Rightarrow> None
          | Some None \<Rightarrow> Some disk
          | Some (Some target) \<Rightarrow> Some (snd (create_telemetry env [mark_tombstone target] disk))))"

definition record_erasure ::
  "crud_env \<Rightarrow> u32 \<Rightarrow> u64 \<Rightarrow> u32 \<Rightarrow> byte list \<Rightarrow> erasure_reason \<Rightarrow> u64 \<Rightarrow> u64 \<Rightarrow> u64 \<Rightarrow> bool \<Rightarrow> byte list \<Rightarrow>
   erasure_record crud_result option" where
  "record_erasure env target_tile_type target_tile_id record_index erased_record_hash reason authority requested_at executed_at
     is_admin_or_human disk =
    (if \<not> is_admin_or_human then
       Some (Err (IoPermissionDenied ''Erasure records may only be authored by authorized human/admin actors, never AI agents''), disk)
     else
       case (case reader_open (en_crc env) disk of
           Ok reader \<Rightarrow> erasure_checks target_tile_type target_tile_id record_index erased_record_hash (sieve_new (en_crc env) reader)
         | Err _ \<Rightarrow> Some (LinkTo (replicate 32 0))) of
         None \<Rightarrow> None
       | Some (Blocked msg) \<Rightarrow> Some (Err (IoPermissionDenied msg), disk)
       | Some (AlreadyErased r) \<Rightarrow> Some (Ok r, disk)
       | Some (LinkTo prev_hash) \<Rightarrow>
           let r = erasure_new (en_sha env) erased_record_hash target_tile_type target_tile_id record_index reason authority
                 requested_at executed_at prev_hash
           in (case create_erasure_record env r is_admin_or_human disk of
                 (Err e, disk) \<Rightarrow> Some (Err e, disk)
               | (Ok _, disk) \<Rightarrow>
                   map_option (Pair (Ok r))
                     (if target_tile_type = TILE_TELEMETRY then append_tombstone env target_tile_id record_index disk else Some disk)))"

section \<open>Reading, updating, deleting\<close>

definition read_telemetry ::
  "crud_env \<Rightarrow> u32 \<Rightarrow> u32 \<Rightarrow> u64 \<Rightarrow> u64 \<Rightarrow> byte list \<Rightarrow> (archive_io_error, telemetry_record list) result option" where
  "read_telemetry env sensor_id metric_id min_ts max_ts disk =
    (case reader_open (en_crc env) disk of
       Err e \<Rightarrow> Some (Err e)
     | Ok reader \<Rightarrow>
         map_option Ok (query_telemetry (en_f64 env) (en_cast_error env) (en_sha env) min_ts max_ts (Some sensor_id) (Some metric_id)
           (sieve_new (en_crc env) reader)))"

definition read_telemetry_with_coords ::
  "crud_env \<Rightarrow> u32 \<Rightarrow> u32 \<Rightarrow> u64 \<Rightarrow> u64 \<Rightarrow> byte list \<Rightarrow>
   (archive_io_error, (telemetry_record \<times> coordinate) list) result option" where
  "read_telemetry_with_coords env sensor_id metric_id min_ts max_ts disk =
    (case reader_open (en_crc env) disk of
       Err e \<Rightarrow> Some (Err e)
     | Ok reader \<Rightarrow>
         map_option Ok (query_telemetry_with_coords (en_f64 env) (en_cast_error env) (en_sha env) min_ts max_ts (Some sensor_id)
           (Some metric_id) (sieve_new (en_crc env) reader)))"

definition read_learning_activities ::
  "crud_env \<Rightarrow> u64 option \<Rightarrow> u32 option \<Rightarrow> u64 \<Rightarrow> u64 \<Rightarrow> byte list \<Rightarrow>
   (archive_io_error, (learning_record \<times> coordinate) list) result option" where
  "read_learning_activities env actor_id verb_id min_ts max_ts disk =
    (case reader_open (en_crc env) disk of
       Err e \<Rightarrow> Some (Err e)
     | Ok reader \<Rightarrow>
         map_option Ok (query_learning_activities (en_sha env) min_ts max_ts actor_id verb_id (sieve_new (en_crc env) reader)))"

definition read_by_coordinate :: "crud_env \<Rightarrow> nat \<Rightarrow> coordinate \<Rightarrow> byte list \<Rightarrow> (s3a_error, byte list) result option" where
  "read_by_coordinate env sz coord disk =
    (case reader_open (en_crc env) disk of
       Err _ \<Rightarrow> Some (Err CorruptedHeader)
     | Ok reader \<Rightarrow>
         read_record_by_coordinate (en_crc env) (en_registry env) sz reader (unat (co_tile_id coord)) (unat (co_record_offset coord)))"

definition delete_telemetry :: "crud_env \<Rightarrow> u32 \<Rightarrow> u32 \<Rightarrow> u64 \<Rightarrow> byte list \<Rightarrow> bool crud_result option" where
  "delete_telemetry env sensor_id metric_id timestamp disk =
    (case read_telemetry env sensor_id metric_id timestamp timestamp disk of
       None \<Rightarrow> None
     | Some (Err e) \<Rightarrow> Some (Err e, disk)
     | Some (Ok []) \<Rightarrow> Some (Ok False, disk)
     | Some (Ok (r # _)) \<Rightarrow> Some (and_return True (create_telemetry env [mark_tombstone r] disk)))"

definition update_telemetry :: "crud_env \<Rightarrow> u32 \<Rightarrow> u32 \<Rightarrow> u64 \<Rightarrow> u64 \<Rightarrow> byte list \<Rightarrow> bool crud_result option" where
  "update_telemetry env sensor_id metric_id timestamp new_value disk =
    (case delete_telemetry env sensor_id metric_id timestamp disk of
       None \<Rightarrow> None
     | Some (Err e, disk) \<Rightarrow> Some (Err e, disk)
     | Some (Ok deleted, disk) \<Rightarrow>
         Some (and_return deleted (create_telemetry env [telemetry_new timestamp sensor_id metric_id new_value] disk)))"

definition purge_telemetry_record :: "crud_env \<Rightarrow> u32 \<Rightarrow> u32 \<Rightarrow> u64 \<Rightarrow> byte list \<Rightarrow> bool crud_result option" where
  "purge_telemetry_record env sensor_id metric_id timestamp disk =
    (case (case reader_open (en_crc env) disk of
         Ok reader \<Rightarrow> is_subject_under_legal_hold (actor_id_to_subject_id (ucast sensor_id)) (sieve_new (en_crc env) reader)
       | Err _ \<Rightarrow> Some False) of
       None \<Rightarrow> None
     | Some True \<Rightarrow> Some (Err (IoPermissionDenied ''Purge blocked: participant subject is under active legal hold''), disk)
     | Some False \<Rightarrow> delete_telemetry env sensor_id metric_id timestamp disk)"

end
