(* ===== verification/Engine_Crud_Store.thy ===== *)
theory Engine_Crud_Store
  imports Engine_Crud Engine_Durability
begin

text \<open>
  The archive file as the store of \<^verbatim>\<open>S3ACrudEngine\<close>: on a sound archive every create operation either refuses and leaves
  the bytes as they are, or adds exactly one tile behind the tiles that the next reader delivers.
\<close>

section \<open>Sound archives\<close>

definition archive_ok :: "crc_crate \<Rightarrow> byte list \<Rightarrow> bool" where
  "archive_ok cc disk \<longleftrightarrow>
    (case open_append cc disk of Ok w \<Rightarrow> tw_wf cc w \<and> df_bytes (tw_file w) = disk | Err _ \<Rightarrow> False)"

text \<open>The next \<open>k\<close> commits are possible: no counter wraps and no slot checksum is the reserved zero.\<close>

definition disk_room :: "crud_env \<Rightarrow> nat \<Rightarrow> byte list \<Rightarrow> bool" where
  "disk_room env k disk \<longleftrightarrow>
    (case open_append (en_crc env) disk of
       Ok w \<Rightarrow> list_all (\<lambda>j. commit_possible (en_crc env) (en_now env)
           (w\<lparr> tw_generation := tw_generation w + of_nat j, tw_tile_count := tw_tile_count w + of_nat j \<rparr>)) [0..<k]
     | Err _ \<Rightarrow> False)"

definition disk_tiles :: "crc_crate \<Rightarrow> byte list \<Rightarrow> tile option list" where
  "disk_tiles cc disk = (case reader_open cc disk of Ok r \<Rightarrow> reader_tiles cc r | Err _ \<Rightarrow> [])"

lemma archive_okE:
  assumes "archive_ok cc disk"
  obtains w where "open_append cc disk = Ok w" "tw_wf cc w" "df_bytes (tw_file w) = disk"
  using assms by (auto simp: archive_ok_def split: sum.splits)

lemma reopen_writer:
  assumes "tw_wf cc w"
  obtains f where "open_append cc (df_bytes (tw_file w)) = Ok (w\<lparr>tw_file := f\<rparr>)" "df_bytes f = df_bytes (tw_file w)"
    "df_pos f = length (df_bytes (tw_file w))"
proof -
  note wf = tw_wfD [OF assms]
  let ?bs = "df_bytes (tw_file w)"
  from open_committed_holds [OF wf(6)] wf(3,7) obtain f where f: "open_committed cc ?bs =
      Ok (slot_at (tw_active_slot w) ?bs, tw_active_slot w, f)" "df_bytes f = ?bs" by auto
  have "open_append cc ?bs = Ok (w\<lparr>tw_file := seek_end f\<rparr>)"
    using f(1) assms by (simp add: open_append_def tw_wf_def Let_def)
  then show thesis using that [of "seek_end f"] f(2) by simp
qed

lemma archive_ok_writer: "tw_wf cc w \<Longrightarrow> archive_ok cc (df_bytes (tw_file w))"
proof -
  assume wf: "tw_wf cc w"
  then show "archive_ok cc (df_bytes (tw_file w))"
    by (rule reopen_writer) (use wf in \<open>simp add: archive_ok_def tw_wf_def Let_def\<close>)
qed

lemma disk_tiles_writer:
  assumes "tw_wf cc w"
  shows "disk_tiles cc (df_bytes (tw_file w)) = map (get_tile cc \<lparr> mr_mmap = df_bytes (tw_file w),
    mr_active_header = slot_at (tw_active_slot w) (df_bytes (tw_file w)), mr_active_slot = tw_active_slot w \<rparr>) [0..<unat (tw_tile_count w)]"
  using reader_of_writer [OF assms] tw_wfD(7) [OF assms] by (simp add: disk_tiles_def reader_tiles_def reader_tile_count_def)

lemma archive_ok_reader:
  assumes "archive_ok cc disk"
  obtains r where "reader_open cc disk = Ok r" "reader_tiles cc r = disk_tiles cc disk"
proof -
  obtain w where "tw_wf cc w" "df_bytes (tw_file w) = disk" using assms by (rule archive_okE)
  with reader_of_writer [of cc w] show thesis using that by (simp add: disk_tiles_def)
qed

section \<open>One more tile\<close>

lemma disk_tiles_append:
  assumes "tw_wf cc w" "tile_write cc registry ratio now w g payload w'"
  shows "disk_tiles cc (df_bytes (tw_file w')) = disk_tiles cc (df_bytes (tw_file w)) @ [Some (g, payload)]"
proof -
  note t = tile_writeD [OF assms(2)] and c = tile_write_commits [OF assms]
  define R where "R = (\<lambda>w :: tile_writer. \<lparr> mr_mmap = df_bytes (tw_file w),
    mr_active_header = slot_at (tw_active_slot w) (df_bytes (tw_file w)), mr_active_slot = tw_active_slot w \<rparr>)"
  have n: "reader_tile_count (R w) = unat (tw_tile_count w)" "reader_tile_count (R w') = unat (tw_tile_count w) + 1"
    using tw_wfD(7) [OF assms(1)] tw_wfD(7) [OF c(1)] c(3) by (simp_all add: R_def reader_tile_count_def)
  have m: "mr_mmap (R v) = df_bytes (tw_file v)" for v by (simp add: R_def)
  have l: "length (mr_mmap (R w)) = 512 + unat (tw_tile_count w) * HYPER_TILE_SIZE"
    "length (mr_mmap (R w')) = 512 + (unat (tw_tile_count w) + 1) * HYPER_TILE_SIZE"
    using tw_wfD(3) [OF assms(1)] tw_wfD(3) [OF c(1)] c(3) by (simp_all add: m expected_size_def)
  note lt = length_writer_tiles [OF assms(1)]
  have old: "get_tile cc (R w') i = get_tile cc (R w) i" if i: "i < unat (tw_tile_count w)" for i
  proof -
    have b: "(i + 1) * HYPER_TILE_SIZE \<le> unat (tw_tile_count w) * HYPER_TILE_SIZE"
      using i by (intro mult_le_mono1) simp
    then have "window (i * HYPER_TILE_SIZE) HYPER_TILE_SIZE (writer_tiles w @ tile_image g payload) =
        window (i * HYPER_TILE_SIZE) HYPER_TILE_SIZE (writer_tiles w)"
      using lt by (intro window_append_inside) simp
    then have "tile_bytes i (mr_mmap (R w')) = tile_bytes i (mr_mmap (R w))"
      by (simp only: m tile_bytes_writer c(5))
    then show ?thesis using n l b i by (simp add: get_tile_def try_get_tile_same [of i "R w" "R w'" cc])
  qed
  have "window (length (writer_tiles w)) HYPER_TILE_SIZE (writer_tiles w @ tile_image g payload) = tile_image g payload"
    using length_tile_image [OF t(1,4)] by (simp add: window_append_skip window_all)
  then have "tile_bytes (unat (tw_tile_count w)) (mr_mmap (R w')) = tile_image g payload"
    by (simp only: m tile_bytes_writer c(5) lt)
  then have "try_get_tile cc (R w') (unat (tw_tile_count w)) = Ok (g, payload)"
    using n l by (intro try_get_tile_image t(1-5)) simp_all
  then have new: "get_tile cc (R w') (unat (tw_tile_count w)) = Some (g, payload)" by (simp add: get_tile_def)
  have "map (get_tile cc (R w')) [0..<unat (tw_tile_count w)] = map (get_tile cc (R w)) [0..<unat (tw_tile_count w)]"
    using old by simp
  with new show ?thesis
    unfolding disk_tiles_writer [OF assms(1)] disk_tiles_writer [OF c(1)] c(3) R_def by simp
qed

lemma disk_tiles_cong:
  assumes "tw_wf cc w" "tw_wf cc w'" "tw_tile_count w' = tw_tile_count w" "writer_tiles w' = writer_tiles w"
  shows "disk_tiles cc (df_bytes (tw_file w')) = disk_tiles cc (df_bytes (tw_file w))"
proof -
  define R where "R = (\<lambda>w :: tile_writer. \<lparr> mr_mmap = df_bytes (tw_file w),
    mr_active_header = slot_at (tw_active_slot w) (df_bytes (tw_file w)), mr_active_slot = tw_active_slot w \<rparr>)"
  have m: "mr_mmap (R v) = df_bytes (tw_file v)" for v by (simp add: R_def)
  have n: "reader_tile_count (R w) = unat (tw_tile_count w)" "reader_tile_count (R w') = unat (tw_tile_count w)"
    using tw_wfD(7) [OF assms(1)] tw_wfD(7) [OF assms(2)] assms(3) by (simp_all add: R_def reader_tile_count_def)
  have l: "length (mr_mmap (R w)) = 512 + unat (tw_tile_count w) * HYPER_TILE_SIZE"
    "length (mr_mmap (R w')) = 512 + unat (tw_tile_count w) * HYPER_TILE_SIZE"
    using tw_wfD(3) [OF assms(1)] tw_wfD(3) [OF assms(2)] assms(3) by (simp_all add: m expected_size_def)
  have "get_tile cc (R w') i = get_tile cc (R w) i" if i: "i < unat (tw_tile_count w)" for i
  proof -
    have "(i + 1) * HYPER_TILE_SIZE \<le> unat (tw_tile_count w) * HYPER_TILE_SIZE"
      using i by (intro mult_le_mono1) simp
    moreover have "tile_bytes i (mr_mmap (R w')) = tile_bytes i (mr_mmap (R w))"
      by (simp only: m tile_bytes_writer assms(4))
    ultimately show ?thesis using n l i by (simp add: get_tile_def try_get_tile_same [of i "R w" "R w'" cc])
  qed
  then show ?thesis
    unfolding disk_tiles_writer [OF assms(1)] disk_tiles_writer [OF assms(2)] assms(3) R_def by simp
qed

text \<open>What the header of a created tile says of its records; \<open>i\<close> is the number of tiles before it.\<close>

definition describes :: "nat \<Rightarrow> u32 \<Rightarrow> nat \<Rightarrow> byte list \<Rightarrow> u64 list \<Rightarrow> hyper_tile_header \<Rightarrow> bool" where
  "describes i ty n bs ts g \<longleftrightarrow>
    ht_tile_type g = ty \<and> ht_tile_id g = of_nat i + 1 \<and> ht_record_count g = of_nat n \<and> ht_payload_bytes g = of_nat (length bs) \<and>
    length bs \<le> HYPER_TILE_PAYLOAD_SIZE \<and>
    (ts \<noteq> [] \<longrightarrow> ht_min_timestamp g = fold min ts (-1) \<and> ht_max_timestamp g = fold max ts 0) \<and>
    ht_filter g = tile_filter_default\<lparr> ft_bits :=
      fold (\<lambda>k. bloom_filter_insert k (ft_hash_seed tile_filter_default)) (fst (tile_keys ty None True bs)) (ft_bits tile_filter_default) \<rparr>"

lemma ext_header_describes:
  assumes "length bs \<le> HYPER_TILE_PAYLOAD_SIZE" "tw_current_tile_id w = of_nat i + 1"
  shows "describes i ty n bs (case ts of Some l \<Rightarrow> l | None \<Rightarrow> []) (ext_tile_header cc ratio ty v n True bs ts None None w)"
proof -
  have f: "ht_filter (ext_tile_header cc ratio ty v n True bs ts None None w) = tile_filter_default\<lparr> ft_bits :=
      fold (\<lambda>k. bloom_filter_insert k (ft_hash_seed tile_filter_default)) (fst (tile_keys ty None True bs)) (ft_bits tile_filter_default) \<rparr>"
    by (rule ext_tile_finishable(5)) simp
  show ?thesis unfolding describes_def f
    using assms by (simp add: ext_tile_header_def Let_def stamp_range_def stamp_hull_def stamp_digest_def
        stamp_learned_index_def stamp_filter_def hyper_tile_header_new_def split: prod.split option.split)
qed

lemma commit_possible_cong:
  "tw_generation w' = tw_generation w \<Longrightarrow> tw_tile_count w' = tw_tile_count w \<Longrightarrow> tw_created_timestamp w' = tw_created_timestamp w \<Longrightarrow>
    tw_addon_mask w' = tw_addon_mask w \<Longrightarrow> tw_file_uuid w' = tw_file_uuid w \<Longrightarrow>
    commit_possible cc now w' \<longleftrightarrow> commit_possible cc now w"
  by (simp add: commit_possible_def next_slot_def)

lemma disk_roomD:
  assumes "disk_room env k disk" "open_append (en_crc env) disk = Ok w" "j < k"
  shows "commit_possible (en_crc env) (en_now env)
    (w\<lparr> tw_generation := tw_generation w + of_nat j, tw_tile_count := tw_tile_count w + of_nat j \<rparr>)"
  using assms by (simp add: disk_room_def list_all_iff)

lemma disk_room_mono: "disk_room env k disk \<Longrightarrow> j \<le> k \<Longrightarrow> disk_room env j disk"
  by (auto simp: disk_room_def list_all_iff split: sum.splits)

lemma disk_room_append:
  assumes "disk_room env (Suc k) disk" "open_append (en_crc env) disk = Ok w" "tw_wf (en_crc env) w"
    "tile_write (en_crc env) registry ratio (en_now env) w g payload w'"
  shows "disk_room env k (df_bytes (tw_file w'))"
proof -
  note c = tile_write_commits [OF assms(3,4)] and n = tile_write_counters [OF assms(3,4)]
  obtain f where f: "open_append (en_crc env) (df_bytes (tw_file w')) = Ok (w'\<lparr>tw_file := f\<rparr>)"
    by (rule reopen_writer [OF c(1)])
  have "commit_possible (en_crc env) (en_now env) (w'\<lparr> tw_file := f, tw_generation := tw_generation w' + of_nat j,
      tw_tile_count := tw_tile_count w' + of_nat j \<rparr>)" if "j < k" for j
    using disk_roomD [OF assms(1,2), of "Suc j"] that c(2,4) n
    by (subst commit_possible_cong [where w = "w\<lparr> tw_generation := tw_generation w + of_nat (Suc j),
        tw_tile_count := tw_tile_count w + of_nat (Suc j) \<rparr>"]) (simp_all add: algebra_simps)
  then show ?thesis using f by (simp add: disk_room_def list_all_iff)
qed

lemma append_tile_cases:
  assumes "archive_ok (en_crc env) disk" "disk_room env (Suc k) disk" "append_tile env ty n bs ts disk = (res, disk')"
  obtains (refused) e where "res = Err e" "disk' = disk"
  | (appended) g where "res = Ok (ht_tile_id g)" "archive_ok (en_crc env) disk'" "disk_room env k disk'"
      "disk_tiles (en_crc env) disk' = disk_tiles (en_crc env) disk @ [Some (g, bs)]"
      "describes (length (disk_tiles (en_crc env) disk)) ty n bs (case ts of Some l \<Rightarrow> l | None \<Rightarrow> []) g"
proof -
  let ?cc = "en_crc env"
  obtain w where w: "open_append ?cc disk = Ok w" "tw_wf ?cc w" "df_bytes (tw_file w) = disk"
    using assms(1) by (rule archive_okE)
  have cp: "commit_possible ?cc (en_now env) w" 
    using disk_roomD [OF assms(2) w(1), of 0] by simp
  define W where "W = write_hyper_tile_ext ?cc (en_registry env) (en_ratio env) (en_now env) ty n True bs ts None None w"
  have r: "(res, disk') = (fst W, df_bytes (tw_file (snd W)))"
    using assms(3) w(1) by (simp add: append_tile_def W_def split_def Let_def)
  show thesis
  proof (cases "ext_tile_ok (en_registry env) ty bs None w")
    case False
    then have "\<exists>e. W = (Err e, w)"
      by (auto simp: W_def write_hyper_tile_ext_def ext_tile_ok_def Let_def split: sum.splits)
    then show thesis using refused r w(3) by auto
  next
    case True
    define g where "g = ext_tile_header ?cc (en_ratio env) ty (target_version_of (en_registry env) ty) n True bs ts None None w"
    have tw: "tile_write ?cc (en_registry env) (en_ratio env) (en_now env) w g bs (snd W)"
      unfolding g_def W_def by (rule tile_write.ext [OF True cp])
    note t = tile_writeD [OF tw]
    have "W = finish_tile ?cc (en_now env) g bs w" unfolding W_def g_def by (rule write_ext_finish [OF True])
    moreover have "fst (finish_tile ?cc (en_now env) g bs w) = Ok (tw_current_tile_id w)"
      by (rule finish_tile_Ok [OF w(2) t(1-4), of "en_now env"]) simp
    ultimately have "res = Ok (tw_current_tile_id w)" using r by simp
    moreover have "ht_tile_id g = tw_current_tile_id w"
      by (simp add: g_def ext_tile_header_def Let_def stamp_range_def stamp_hull_def stamp_digest_def
        stamp_learned_index_def stamp_filter_def hyper_tile_header_new_def split: prod.split option.split)
    moreover have "length (disk_tiles ?cc disk) = unat (tw_tile_count w)" using disk_tiles_writer [OF w(2)] w(3) by simp
    then have "tw_current_tile_id w = of_nat (length (disk_tiles ?cc disk)) + 1"
      using tw_wfD(5) [OF w(2)] by simp
    then have "describes (length (disk_tiles ?cc disk)) ty n bs (case ts of Some l \<Rightarrow> l | None \<Rightarrow> []) g"
      unfolding g_def using t(4) by (intro ext_header_describes)
    ultimately show thesis using appended [of g] r disk_room_append [OF assms(2) w(1,2) tw] disk_tiles_append [OF w(2) tw] w(3)
        archive_ok_writer [OF tile_write_commits(1) [OF w(2) tw]] by simp
  qed
qed

text \<open>The gate of the writer admits tiles of the type whatever addons are enabled.\<close>

definition gate_open :: "crud_env \<Rightarrow> u32 \<Rightarrow> bool" where
  "gate_open env ty \<longleftrightarrow> (\<forall>m. write_gate (en_registry env) ty (target_version_of (en_registry env) ty) m = Ok ())"

lemma append_tile_succeeds:
  assumes "archive_ok (en_crc env) disk" "disk_room env (Suc k) disk" "gate_open env ty" "length bs \<le> HYPER_TILE_PAYLOAD_SIZE"
  obtains id disk' where "append_tile env ty n bs ts disk = (Ok id, disk')"
proof -
  let ?cc = "en_crc env"
  obtain w where w: "open_append ?cc disk = Ok w" "tw_wf ?cc w" using assms(1) by (rule archive_okE)
  define g where "g = ext_tile_header ?cc (en_ratio env) ty (target_version_of (en_registry env) ty) n True bs ts None None w"
  have ok: "ext_tile_ok (en_registry env) ty bs None w" using assms(3,4) by (simp add: ext_tile_ok_def gate_open_def)
  have "commit_possible ?cc (en_now env) w" using disk_roomD [OF assms(2) w(1), of 0] by simp
  note t = tile_writeD [OF tile_write.ext [OF ok this, of "en_ratio env" n True ts None], folded g_def]
  have "fst (finish_tile ?cc (en_now env) g bs w) = Ok (tw_current_tile_id w)"
    by (rule finish_tile_Ok [OF w(2) t(1-4), of "en_now env"]) simp
  with that show thesis
    by (simp add: append_tile_def w(1) write_ext_finish [OF ok] g_def split_def Let_def)
qed

text \<open>The create operations of the engine give the timestamps of the records.\<close>

lemma append_records_cases:
  assumes "archive_ok (en_crc env) disk" "disk_room env (Suc k) disk" "append_records env ty n bs ts disk = (res, disk')"
  obtains (refused) e where "res = Err e" "disk' = disk"
  | (appended) g where "res = Ok (ht_tile_id g)" "archive_ok (en_crc env) disk'" "disk_room env k disk'"
      "disk_tiles (en_crc env) disk' = disk_tiles (en_crc env) disk @ [Some (g, bs)]"
      "describes (length (disk_tiles (en_crc env) disk)) ty n bs ts g"
  using assms(3) unfolding append_records_def by (cases rule: append_tile_cases [OF assms(1,2)]) (auto intro: that)

lemma append_records_succeeds:
  assumes "archive_ok (en_crc env) disk" "disk_room env (Suc k) disk" "gate_open env ty" "length bs \<le> HYPER_TILE_PAYLOAD_SIZE"
  obtains id disk' where "append_records env ty n bs ts disk = (Ok id, disk')"
  using append_tile_succeeds [OF assms, of n "Some ts"] that unfolding append_records_def by blast

text \<open>Enabling an addon rewrites a header slot and nothing else.\<close>

definition addon_room :: "crud_env \<Rightarrow> u32 \<Rightarrow> byte list \<Rightarrow> bool" where
  "addon_room env m disk \<longleftrightarrow>
    (case open_append (en_crc env) disk of Ok w \<Rightarrow> addon_possible (en_crc env) (en_now env) m w | Err _ \<Rightarrow> False)"

lemma enable_addon_store:
  assumes "archive_ok (en_crc env) disk" "addon_room env m disk" "crud_enable_addon env m disk = (res, disk')"
  shows "archive_ok (en_crc env) disk'" "disk_tiles (en_crc env) disk' = disk_tiles (en_crc env) disk" "res = Ok ()"
    "active_addons env disk' = active_addons env disk OR m"
proof -
  let ?cc = "en_crc env"
  obtain w where w: "open_append ?cc disk = Ok w" "tw_wf ?cc w" "df_bytes (tw_file w) = disk"
    using assms(1) by (rule archive_okE)
  have p: "addon_possible ?cc (en_now env) m w" using assms(2) w(1) by (simp add: addon_room_def)
  note k = enable_addon_keeps [OF w(2) p]
  have d: "disk' = df_bytes (tw_file (enable_addon ?cc (en_now env) m w))" and "res = Ok ()"
    using assms(3) w(1) by (simp_all add: crud_enable_addon_def)
  show "archive_ok ?cc disk'" using archive_ok_writer [OF k(1)] by (simp add: d)
  show "disk_tiles ?cc disk' = disk_tiles ?cc disk" using disk_tiles_cong [OF w(2) k(1,2,5)] w(3) by (simp add: d)
  show "res = Ok ()" by fact
  have a: "active_addons env (df_bytes (tw_file v)) = tw_addon_mask v" if "tw_wf ?cc v" for v
    using reader_of_writer [OF that] that by (simp add: active_addons_def tw_wf_def Let_def)
  show "active_addons env disk' = active_addons env disk OR m"
    using a [OF k(1)] a [OF w(2)] k(4) w(3) by (simp add: d)
qed

end
