(* ===== verification/Engine_Governance.thy ===== *)
theory Engine_Governance
  imports Engine_Crud_Store
begin

text \<open>
  Consent and erasure over the life of an archive: the chains of hashes stay verified through every operation of the
  engine, a withdrawal ends a consent, a legal hold stops an erasure, an erasure is recorded once.
\<close>

section \<open>The logs of an archive\<close>

context pod_codec
begin

lemma typed_records_append:
  "typed_records width dec ty (ts @ us) =
    (case typed_records width dec ty ts of None \<Rightarrow> None | Some rs \<Rightarrow> map_option ((@) rs) (typed_records width dec ty us))"
  by (cases "typed_records width dec ty us"; induction ts) (auto split: option.splits)

lemma typed_records_own:
  "ht_tile_type g = ty \<Longrightarrow> list_all shaped xs \<Longrightarrow>
    typed_records width dec ty (ts @ [Some (g, pod_bytes enc xs)]) = map_option (\<lambda>rs. rs @ xs) (typed_records width dec ty ts)"
  by (simp add: typed_records_append cast_slice_def length_pod_bytes pod_slice_bytes split: option.split)

lemma typed_records_shaped: "typed_records width dec ty ts = Some rs \<Longrightarrow> list_all shaped rs"
  by (induction ts arbitrary: rs) (auto simp: cast_slice_def shaped_slice split: option.splits if_splits)

end

lemma typed_records_other:
  "ht_tile_type g \<noteq> ty \<Longrightarrow> typed_records w dec ty (ts @ [Some (g, bs)]) = typed_records w dec ty ts"
  by (induction ts) (auto split: option.splits)

definition disk_sieve :: "crc_crate \<Rightarrow> byte list \<Rightarrow> query_sieve" where
  "disk_sieve cc disk = \<lparr> qs_tiles = disk_tiles cc disk, qs_include_hidden = False, qs_purpose = None, qs_now = 0 \<rparr>"

abbreviation consent_log :: "tile option list \<Rightarrow> consent_record list option" where
  "consent_log \<equiv> typed_records 136 consent_of_bytes TILE_CONSENT"

abbreviation erasure_log :: "tile option list \<Rightarrow> erasure_record list option" where
  "erasure_log \<equiv> typed_records 144 erasure_of_bytes TILE_ERASURE"

abbreviation mark_log :: "tile option list \<Rightarrow> mark_record list option" where
  "mark_log \<equiv> typed_records 64 mark_of_bytes TILE_MARKS"

lemma sieve_of_disk: "reader_open cc disk = Ok r \<Longrightarrow> sieve_new cc r = disk_sieve cc disk"
  by (simp add: sieve_new_def disk_sieve_def disk_tiles_def)

lemma disk_sieve_tiles [simp]: "qs_tiles (disk_sieve cc disk) = disk_tiles cc disk"
  "qs_include_hidden (disk_sieve cc disk) = False" "qs_purpose (disk_sieve cc disk) = None"
  by (simp_all add: disk_sieve_def)

definition subject_log :: "byte list \<Rightarrow> consent_record list \<Rightarrow> consent_record list" where
  "subject_log subject_id = filter (\<lambda>r. cn_subject_id r = subject_id)"

lemma subject_log_simps [simp]:
  "subject_log sub [] = []" "subject_log sub (rs @ ss) = subject_log sub rs @ subject_log sub ss"
  "subject_log sub (r # rs) = (if cn_subject_id r = sub then r # subject_log sub rs else subject_log sub rs)"
  by (simp_all add: subject_log_def)

lemma query_consent_of_subject: "query_consent_records (Some sub) s = map_option (subject_log sub) (consent_log (qs_tiles s))"
  by (simp add: query_consent_records_def subject_log_def)

lemma query_erasure_all: "query_erasure_records None s = erasure_log (qs_tiles s)"
  by (cases "erasure_log (qs_tiles s)") (simp_all add: query_erasure_records_def)

section \<open>Chains\<close>

abbreviation no_hash :: "byte list" where
  "no_hash \<equiv> replicate 32 0"

lemma take_consent_bytes:
  "consent_shape r \<Longrightarrow> consent_bytes r = take 104 (consent_bytes r) @ cn_consent_hash r"
  by (simp add: consent_bytes_def consent_shape_def)

lemma take_erasure_bytes:
  "erasure_shape r \<Longrightarrow> erasure_bytes r = take 112 (erasure_bytes r) @ er_erasure_hash r"
  by (simp add: erasure_bytes_def erasure_shape_def)

interpretation consent_chain: bound_chain "consent_chain_loop sha" "consent_verify_hash sha" cn_prev_consent_hash cn_consent_hash
    no_hash sha "\<lambda>r. take 104 (consent_bytes r)" consent_shape
  for sha
proof unfold_locales
  fix r s
  assume "consent_verify_hash sha r" "consent_verify_hash sha s" "consent_shape r" "consent_shape s"
    "take 104 (consent_bytes r) = take 104 (consent_bytes s)"
  then have "consent_bytes r = consent_bytes s"
    using take_consent_bytes [of r] take_consent_bytes [of s] by (simp add: consent_verify_hash_def consent_compute_hash_def)
  with \<open>consent_shape r\<close> \<open>consent_shape s\<close> show "r = s" by (simp add: consent_codec.enc_inject)
qed (auto simp: consent_verify_hash_def consent_compute_hash_def split: if_splits)

interpretation erasure_chain: bound_chain "erasure_chain_loop sha" "erasure_verify_hash sha" er_prev_erasure_hash er_erasure_hash
    no_hash sha "\<lambda>r. take 112 (erasure_bytes r)" erasure_shape
  for sha
proof unfold_locales
  fix r s
  assume "erasure_verify_hash sha r" "erasure_verify_hash sha s" "erasure_shape r" "erasure_shape s"
    "take 112 (erasure_bytes r) = take 112 (erasure_bytes s)"
  then have "erasure_bytes r = erasure_bytes s"
    using take_erasure_bytes [of r] take_erasure_bytes [of s] by (simp add: erasure_verify_hash_def erasure_compute_hash_def)
  with \<open>erasure_shape r\<close> \<open>erasure_shape s\<close> show "r = s" by (simp add: erasure_codec.enc_inject)
qed (auto simp: erasure_verify_hash_def erasure_compute_hash_def split: if_splits)

text \<open>All chains of an archive verify.\<close>

definition consent_chains_ok :: "(byte list \<Rightarrow> byte list) \<Rightarrow> tile option list \<Rightarrow> bool" where
  "consent_chains_ok sha ts \<longleftrightarrow>
    (case consent_log ts of
       None \<Rightarrow> False
     | Some rs \<Rightarrow> list_all (\<lambda>sub. consent_chain_loop sha 0 no_hash (subject_log sub rs) = Ok True) (map cn_subject_id rs))"

definition erasure_chain_ok :: "(byte list \<Rightarrow> byte list) \<Rightarrow> tile option list \<Rightarrow> bool" where
  "erasure_chain_ok sha ts \<longleftrightarrow> (case erasure_log ts of None \<Rightarrow> False | Some rs \<Rightarrow> erasure_chain_loop sha 0 no_hash rs = Ok True)"

lemma consent_chains_verify:
  assumes "consent_chains_ok sha (qs_tiles s)"
  shows "verify_consent_chain sha sub s = Some (Ok True)"
proof -
  obtain rs where rs: "consent_log (qs_tiles s) = Some rs" "\<forall>r \<in> set rs. consent_chain_loop sha 0 no_hash (subject_log (cn_subject_id r) rs) = Ok True"
    using assms by (auto simp: consent_chains_ok_def list_all_iff split: option.splits)
  have "consent_chain_loop sha 0 no_hash (subject_log sub rs) = Ok True"
  proof (cases "sub \<in> cn_subject_id ` set rs")
    case False
    then have "subject_log sub rs = []" by (auto simp: subject_log_def filter_empty_conv)
    then show ?thesis by simp
  qed (use rs(2) in auto)
  then show ?thesis using rs(1) by (simp add: verify_consent_chain_def query_consent_of_subject)
qed

lemma erasure_chain_verify: "erasure_chain_ok sha (qs_tiles s) \<longleftrightarrow> verify_erasure_chain sha s = Some (Ok True)"
  by (simp add: erasure_chain_ok_def verify_erasure_chain_def query_erasure_all split: option.split)

lemma consent_chains_other:
  "ht_tile_type g \<noteq> TILE_CONSENT \<Longrightarrow> consent_chains_ok sha (ts @ [Some (g, bs)]) = consent_chains_ok sha ts"
  by (simp add: consent_chains_ok_def typed_records_other)

lemma erasure_chain_other:
  "ht_tile_type g \<noteq> TILE_ERASURE \<Longrightarrow> erasure_chain_ok sha (ts @ [Some (g, bs)]) = erasure_chain_ok sha ts"
  by (simp add: erasure_chain_ok_def typed_records_other)

lemma consent_chains_extend:
  assumes "consent_chains_ok sha ts" "consent_log ts = Some rs" "ht_tile_type g = TILE_CONSENT" "consent_shape r"
    "consent_verify_hash sha r" "cn_prev_consent_hash r = chain_end cn_consent_hash no_hash (subject_log (cn_subject_id r) rs)"
  shows "consent_chains_ok sha (ts @ [Some (g, pod_bytes consent_bytes [r])])"
proof -
  have old: "consent_chain_loop sha 0 no_hash (subject_log sub rs) = Ok True" for sub
    using consent_chains_verify [of sha "\<lparr> qs_tiles = ts, qs_include_hidden = False, qs_purpose = None, qs_now = 0 \<rparr>" sub] assms(1,2)
    by (simp add: verify_consent_chain_def query_consent_of_subject)
  have log: "consent_log (ts @ [Some (g, pod_bytes consent_bytes [r])]) = Some (rs @ [r])"
    using consent_codec.typed_records_own [OF assms(3), of "[r]" ts] assms(2,4) by simp
  have "consent_chain_loop sha 0 no_hash (subject_log sub (rs @ [r])) = Ok True" for sub
    using old [of sub] consent_chain.check_extend [OF old [of "cn_subject_id r"] assms(5,6)] by auto
  then show ?thesis unfolding consent_chains_ok_def log option.case list_all_iff by blast
qed

lemma erasure_chain_extend:
  assumes "erasure_chain_ok sha ts" "erasure_log ts = Some rs" "ht_tile_type g = TILE_ERASURE" "erasure_shape r"
    "erasure_verify_hash sha r" "er_prev_erasure_hash r = chain_end er_erasure_hash no_hash rs"
  shows "erasure_chain_ok sha (ts @ [Some (g, pod_bytes erasure_bytes [r])])"
  using assms erasure_codec.typed_records_own [OF assms(3), of "[r]" ts] erasure_chain.check_extend [of sha no_hash rs r]
  by (simp add: erasure_chain_ok_def)

section \<open>What one operation does to the logs\<close>

text \<open>A sound archive whose chains all verify.\<close>

definition governed :: "crc_crate \<Rightarrow> (byte list \<Rightarrow> byte list) \<Rightarrow> byte list \<Rightarrow> bool" where
  "governed cc sha disk \<longleftrightarrow>
    archive_ok cc disk \<and> consent_chains_ok sha (disk_tiles cc disk) \<and> erasure_chain_ok sha (disk_tiles cc disk)"

lemma governed_logs:
  assumes "governed cc sha disk"
  obtains cs es where "consent_log (disk_tiles cc disk) = Some cs" "erasure_log (disk_tiles cc disk) = Some es"
  using assms by (auto simp: governed_def consent_chains_ok_def erasure_chain_ok_def split: option.splits)

lemma governed_reader:
  assumes "governed cc sha disk"
  obtains r where "reader_open cc disk = Ok r" "reader_tiles cc r = disk_tiles cc disk" "sieve_new cc r = disk_sieve cc disk"
  using assms archive_ok_reader [of cc disk] by (auto simp: governed_def sieve_of_disk)

lemma governed_append:
  assumes "governed (en_crc env) sha disk" "disk_room env (Suc k) disk" "append_records env ty n bs ts disk = (res, disk')"
    "ty \<noteq> TILE_CONSENT" "ty \<noteq> TILE_ERASURE"
  shows "governed (en_crc env) sha disk' \<and> disk_room env k disk'"
proof -
  have ok: "archive_ok (en_crc env) disk" using assms(1) by (simp add: governed_def)
  from ok assms(2,3) show ?thesis
  proof (cases rule: append_records_cases)
    case refused
    then show ?thesis using assms(1,2) disk_room_mono [of env "Suc k" disk k] by simp
  next
    case (appended g)
    then show ?thesis using assms(1,4,5) by (simp add: governed_def consent_chains_other erasure_chain_other describes_def)
  qed
qed

lemma consent_new_simps [simp]:
  "cn_subject_id (consent_new sha sub study purpose scope at e hold granter prev) = sub"
  "cn_study_id (consent_new sha sub study purpose scope at e hold granter prev) = study"
  "cn_purpose (consent_new sha sub study purpose scope at e hold granter prev) = purpose_code purpose"
  "cn_withdrawn_at (consent_new sha sub study purpose scope at e hold granter prev) = 0"
  "cn_expires_at (consent_new sha sub study purpose scope at e hold granter prev) = e"
  "cn_legal_hold (consent_new sha sub study purpose scope at e hold granter prev) = (if hold then 1 else 0)"
  "cn_prev_consent_hash (consent_new sha sub study purpose scope at e hold granter prev) = prev"
  by (simp_all add: consent_new_def Let_def)

lemma consent_withdrawal_simps [simp]:
  "cn_subject_id (consent_new_withdrawal sha sub study purpose scope at granter prev) = sub"
  "cn_study_id (consent_new_withdrawal sha sub study purpose scope at granter prev) = study"
  "cn_purpose (consent_new_withdrawal sha sub study purpose scope at granter prev) = purpose_code purpose"
  "cn_withdrawn_at (consent_new_withdrawal sha sub study purpose scope at granter prev) = at"
  "cn_expires_at (consent_new_withdrawal sha sub study purpose scope at granter prev) = 0"
  "cn_legal_hold (consent_new_withdrawal sha sub study purpose scope at granter prev) = 0"
  "cn_prev_consent_hash (consent_new_withdrawal sha sub study purpose scope at granter prev) = prev"
  by (simp_all add: consent_new_withdrawal_def Let_def)

lemma erasure_new_simps [simp]:
  "er_erased_record_hash (erasure_new sha h ty tid ix reason auth at ex prev) = h"
  "er_target_tile_type (erasure_new sha h ty tid ix reason auth at ex prev) = ty"
  "er_target_tile_id (erasure_new sha h ty tid ix reason auth at ex prev) = tid"
  "er_record_index (erasure_new sha h ty tid ix reason auth at ex prev) = ix"
  "er_prev_erasure_hash (erasure_new sha h ty tid ix reason auth at ex prev) = prev"
  by (simp_all add: erasure_new_def Let_def)

lemma consent_stamped:
  assumes "\<And>bs. length (sha bs) = 32" "consent_shape r"
  shows "consent_shape (r\<lparr> cn_consent_hash := consent_compute_hash sha r \<rparr>) \<and>
    consent_verify_hash sha (r\<lparr> cn_consent_hash := consent_compute_hash sha r \<rparr>)"
  using assms by (simp add: consent_verify_hash_def consent_compute_hash_def consent_bytes_def consent_shape_def)

lemma erasure_stamped:
  assumes "\<And>bs. length (sha bs) = 32" "erasure_shape r"
  shows "erasure_shape (r\<lparr> er_erasure_hash := erasure_compute_hash sha r \<rparr>) \<and>
    erasure_verify_hash sha (r\<lparr> er_erasure_hash := erasure_compute_hash sha r \<rparr>)"
  using assms by (simp add: erasure_verify_hash_def erasure_compute_hash_def erasure_bytes_def erasure_shape_def)

lemma new_records_valid:
  assumes "\<And>bs. length (sha bs) = 32"
  shows "length sub = 16 \<Longrightarrow> length prev = 32 \<Longrightarrow> consent_shape (consent_new sha sub study purpose scope at e hold granter prev) \<and>
      consent_verify_hash sha (consent_new sha sub study purpose scope at e hold granter prev)"
    "length sub = 16 \<Longrightarrow> length prev = 32 \<Longrightarrow> consent_shape (consent_new_withdrawal sha sub study purpose scope at granter prev) \<and>
      consent_verify_hash sha (consent_new_withdrawal sha sub study purpose scope at granter prev)"
    "length h = 32 \<Longrightarrow> length prev = 32 \<Longrightarrow> erasure_shape (erasure_new sha h ty tid ix reason auth at ex prev) \<and>
      erasure_verify_hash sha (erasure_new sha h ty tid ix reason auth at ex prev)"
  unfolding consent_new_def consent_new_withdrawal_def erasure_new_def Let_def
  by (rule consent_stamped erasure_stamped, rule assms, simp add: consent_shape_def erasure_shape_def)+

lemma prev_consent_hash_end:
  assumes "governed (en_crc env) sha disk" "consent_log (disk_tiles (en_crc env) disk) = Some cs"
  shows "prev_consent_hash env sub disk = Some (chain_end cn_consent_hash no_hash (subject_log sub cs))"
proof -
  obtain r where "reader_open (en_crc env) disk = Ok r" "sieve_new (en_crc env) r = disk_sieve (en_crc env) disk"
    using assms(1) by (rule governed_reader)
  then show ?thesis using assms(2) by (simp add: prev_consent_hash_def query_consent_of_subject chain_end_def)
qed

lemma subject_log_hash_length:
  assumes "consent_log ts = Some cs"
  shows "length (chain_end cn_consent_hash no_hash (subject_log sub cs)) = 32"
proof -
  have "list_all consent_shape (subject_log sub cs)"
    using consent_codec.typed_records_shaped [OF assms] by (auto simp: list_all_iff subject_log_def)
  then show ?thesis by (cases "subject_log sub cs" rule: rev_cases) (auto simp: consent_shape_def)
qed

lemma erasure_end_length:
  assumes "erasure_log ts = Some es"
  shows "length (chain_end er_erasure_hash no_hash es) = 32"
  using erasure_codec.typed_records_shaped [OF assms] by (cases es rule: rev_cases) (auto simp: erasure_shape_def)

lemma create_consent_record_cases:
  assumes "archive_ok (en_crc env) disk" "disk_room env (Suc k) disk" "create_consent_record env r auth disk = (res, disk')"
    "consent_shape r"
  obtains (refused) e where "res = Err e" "disk' = disk"
  | (created) id g where "res = Ok id" "auth" "consent_verify_hash (en_sha env) r" "archive_ok (en_crc env) disk'" "disk_room env k disk'"
      "disk_tiles (en_crc env) disk' = disk_tiles (en_crc env) disk @ [Some (g, pod_bytes consent_bytes [r])]"
      "ht_tile_type g = TILE_CONSENT" "ht_tile_id g = of_nat (length (disk_tiles (en_crc env) disk)) + 1"
proof (cases "auth \<and> consent_verify_hash (en_sha env) r")
  case False
  then show thesis using refused assms(3)
    by (auto simp: create_consent_record_def create_consent_records_def split: if_splits)
next
  case True
  then have "append_records env TILE_CONSENT 1 (pod_bytes consent_bytes [r]) [max (cn_granted_at r) (cn_withdrawn_at r)] disk = (res, disk')"
    using assms(3) by (simp add: create_consent_record_def create_consent_records_def)
  from assms(1,2) this show thesis
    by (cases rule: append_records_cases) (use True in \<open>auto simp: describes_def intro: refused created\<close>)
qed

lemma create_consent_record_succeeds:
  assumes "archive_ok (en_crc env) disk" "disk_room env (Suc k) disk" "gate_open env TILE_CONSENT" "consent_shape r"
    "consent_verify_hash (en_sha env) r"
  obtains id disk' where "create_consent_record env r True disk = (Ok id, disk')"
proof -
  have "length (pod_bytes consent_bytes [r]) \<le> HYPER_TILE_PAYLOAD_SIZE"
    using consent_codec.length_pod_bytes [of "[r]"] assms(4) by (simp add: tile_sizes)
  from append_records_succeeds [OF assms(1-3) this, of 1 "[max (cn_granted_at r) (cn_withdrawn_at r)]"] that assms(5)
  show thesis by (auto simp: create_consent_record_def create_consent_records_def)
qed

lemma create_erasure_record_cases:
  assumes "archive_ok (en_crc env) disk" "disk_room env (Suc k) disk" "create_erasure_record env r auth disk = (res, disk')"
    "erasure_shape r"
  obtains (refused) e where "res = Err e" "disk' = disk"
  | (created) id g where "res = Ok id" "auth" "erasure_verify_hash (en_sha env) r" "archive_ok (en_crc env) disk'" "disk_room env k disk'"
      "disk_tiles (en_crc env) disk' = disk_tiles (en_crc env) disk @ [Some (g, pod_bytes erasure_bytes [r])]"
      "ht_tile_type g = TILE_ERASURE"
proof (cases "auth \<and> erasure_verify_hash (en_sha env) r")
  case False
  then show thesis using refused assms(3)
    by (auto simp: create_erasure_record_def create_erasure_records_def split: if_splits)
next
  case True
  then have "append_records env TILE_ERASURE 1 (pod_bytes erasure_bytes [r]) [er_executed_at r] disk = (res, disk')"
    using assms(3) by (simp add: create_erasure_record_def create_erasure_records_def)
  from assms(1,2) this show thesis
    by (cases rule: append_records_cases) (use True in \<open>auto simp: describes_def intro: refused created\<close>)
qed

text \<open>A consent record that links to the end of its subject's chain, as \<^verbatim>\<open>grant_consent\<close> and \<^verbatim>\<open>withdraw_consent\<close> make it.\<close>

lemma linked_consent_cases:
  assumes "governed (en_crc env) (en_sha env) disk" "disk_room env (Suc k) disk" "create_consent_record env r auth disk = (res, disk')"
    "consent_shape r" "consent_log (disk_tiles (en_crc env) disk) = Some cs"
    "cn_prev_consent_hash r = chain_end cn_consent_hash no_hash (subject_log (cn_subject_id r) cs)"
  obtains (refused) e where "res = Err e" "disk' = disk"
  | (created) id where "res = Ok id" "auth" "governed (en_crc env) (en_sha env) disk'" "disk_room env k disk'"
      "consent_log (disk_tiles (en_crc env) disk') = Some (cs @ [r])"
proof -
  have ok: "archive_ok (en_crc env) disk" using assms(1) by (simp add: governed_def)
  from ok assms(2-4) show thesis
  proof (cases rule: create_consent_record_cases)
    case refused
    then show thesis by (rule that(1))
  next
    case (created id g)
    have "governed (en_crc env) (en_sha env) disk'"
      using assms(1) created consent_chains_extend [OF _ assms(5) created(7) assms(4) created(3) assms(6)]
      by (simp add: governed_def erasure_chain_other TILE_CONSENT_def TILE_ERASURE_def)
    moreover have "consent_log (disk_tiles (en_crc env) disk') = Some (cs @ [r])"
      using consent_codec.typed_records_own [OF created(7), of "[r]"] assms(4,5) created(6) by simp
    ultimately show thesis using that(2) created by blast
  qed
qed

lemma returned_consent_cases:
  assumes "governed (en_crc env) (en_sha env) disk" "disk_room env (Suc k) disk" "consent_log (disk_tiles (en_crc env) disk) = Some cs"
    "consent_shape r" "cn_prev_consent_hash r = chain_end cn_consent_hash no_hash (subject_log (cn_subject_id r) cs)"
    "and_return r (create_consent_record env r auth disk) = (res, disk')"
  obtains (refused) e where "res = Err e" "disk' = disk"
  | (ok) "res = Ok r" "auth" "governed (en_crc env) (en_sha env) disk'" "disk_room env k disk'"
      "consent_log (disk_tiles (en_crc env) disk') = Some (cs @ [r])"
proof -
  obtain res0 disk0 where c: "create_consent_record env r auth disk = (res0, disk0)" by (metis prod.exhaust)
  from assms(1,2) c assms(4,3,5) show thesis
    by (cases rule: linked_consent_cases) (use assms(6) c that in \<open>auto simp: and_return_def\<close>)
qed

text \<open>The record that a grant or a withdrawal appends to the log \<open>cs\<close>.\<close>

definition granted_record ::
  "crud_env \<Rightarrow> byte list \<Rightarrow> u64 \<Rightarrow> consent_purpose \<Rightarrow> u32 \<Rightarrow> u64 \<Rightarrow> u64 \<Rightarrow> bool \<Rightarrow> u64 \<Rightarrow> consent_record list \<Rightarrow> consent_record" where
  "granted_record env sub study purpose scope at e hold granter cs =
    consent_new (en_sha env) sub study purpose scope at e hold granter (chain_end cn_consent_hash no_hash (subject_log sub cs))"

definition withdrawal_record ::
  "crud_env \<Rightarrow> byte list \<Rightarrow> u64 \<Rightarrow> consent_purpose \<Rightarrow> u32 \<Rightarrow> u64 \<Rightarrow> u64 \<Rightarrow> consent_record list \<Rightarrow> consent_record" where
  "withdrawal_record env sub study purpose scope at granter cs =
    consent_new_withdrawal (en_sha env) sub study purpose scope at granter (chain_end cn_consent_hash no_hash (subject_log sub cs))"

lemma grant_consent_cases:
  assumes "governed (en_crc env) (en_sha env) disk" "disk_room env (Suc k) disk" "consent_log (disk_tiles (en_crc env) disk) = Some cs"
    "\<And>bs. length (en_sha env bs) = 32" "length sub = 16"
    "grant_consent env sub study purpose scope at e hold granter auth disk = Some (res, disk')"
  obtains (refused) err where "res = Err err" "disk' = disk"
  | (ok) "res = Ok (granted_record env sub study purpose scope at e hold granter cs)" "auth"
      "governed (en_crc env) (en_sha env) disk'" "disk_room env k disk'"
      "consent_log (disk_tiles (en_crc env) disk') = Some (cs @ [granted_record env sub study purpose scope at e hold granter cs])"
  using assms(1-3)
proof (rule returned_consent_cases)
  let ?r = "granted_record env sub study purpose scope at e hold granter cs"
  show "consent_shape ?r" "cn_prev_consent_hash ?r = chain_end cn_consent_hash no_hash (subject_log (cn_subject_id ?r) cs)"
    using new_records_valid(1) [OF assms(4,5)] subject_log_hash_length [OF assms(3)] by (simp_all add: granted_record_def)
  show "and_return ?r (create_consent_record env ?r auth disk) = (res, disk')"
    using assms(6) by (simp add: grant_consent_def prev_consent_hash_end [OF assms(1,3)] Let_def granted_record_def)
qed (use that in blast)+

lemma withdraw_consent_cases:
  assumes "governed (en_crc env) (en_sha env) disk" "disk_room env (Suc k) disk" "consent_log (disk_tiles (en_crc env) disk) = Some cs"
    "\<And>bs. length (en_sha env bs) = 32" "length sub = 16"
    "withdraw_consent env sub study purpose scope at granter auth disk = Some (res, disk')"
  obtains (refused) err where "res = Err err" "disk' = disk"
  | (ok) "res = Ok (withdrawal_record env sub study purpose scope at granter cs)" "auth"
      "governed (en_crc env) (en_sha env) disk'" "disk_room env k disk'"
      "consent_log (disk_tiles (en_crc env) disk') = Some (cs @ [withdrawal_record env sub study purpose scope at granter cs])"
  using assms(1-3)
proof (rule returned_consent_cases)
  let ?r = "withdrawal_record env sub study purpose scope at granter cs"
  show "consent_shape ?r" "cn_prev_consent_hash ?r = chain_end cn_consent_hash no_hash (subject_log (cn_subject_id ?r) cs)"
    using new_records_valid(2) [OF assms(4,5)] subject_log_hash_length [OF assms(3)] by (simp_all add: withdrawal_record_def)
  show "and_return ?r (create_consent_record env ?r auth disk) = (res, disk')"
    using assms(6) by (simp add: withdraw_consent_def prev_consent_hash_end [OF assms(1,3)] Let_def withdrawal_record_def)
qed (use that in blast)+

lemma grant_consent_succeeds:
  assumes "governed (en_crc env) (en_sha env) disk" "disk_room env (Suc k) disk" "consent_log (disk_tiles (en_crc env) disk) = Some cs"
    "\<And>bs. length (en_sha env bs) = 32" "length sub = 16" "gate_open env TILE_CONSENT"
  obtains disk' where "grant_consent env sub study purpose scope at e hold granter True disk =
    Some (Ok (granted_record env sub study purpose scope at e hold granter cs), disk')"
proof -
  let ?r = "granted_record env sub study purpose scope at e hold granter cs"
  have r: "consent_shape ?r" "consent_verify_hash (en_sha env) ?r"
    using new_records_valid(1) [OF assms(4,5)] subject_log_hash_length [OF assms(3)] by (simp_all add: granted_record_def)
  have "archive_ok (en_crc env) disk" using assms(1) by (simp add: governed_def)
  from create_consent_record_succeeds [OF this assms(2,6) r] obtain id disk' where
    "create_consent_record env ?r True disk = (Ok id, disk')" .
  then show thesis
    by (intro that [of disk'])
      (simp add: grant_consent_def prev_consent_hash_end [OF assms(1,3)] granted_record_def and_return_def Let_def)
qed

lemma withdraw_consent_succeeds:
  assumes "governed (en_crc env) (en_sha env) disk" "disk_room env (Suc k) disk" "consent_log (disk_tiles (en_crc env) disk) = Some cs"
    "\<And>bs. length (en_sha env bs) = 32" "length sub = 16" "gate_open env TILE_CONSENT"
  obtains disk' where "withdraw_consent env sub study purpose scope at granter True disk =
    Some (Ok (withdrawal_record env sub study purpose scope at granter cs), disk')"
proof -
  let ?r = "withdrawal_record env sub study purpose scope at granter cs"
  have r: "consent_shape ?r" "consent_verify_hash (en_sha env) ?r"
    using new_records_valid(2) [OF assms(4,5)] subject_log_hash_length [OF assms(3)] by (simp_all add: withdrawal_record_def)
  have "archive_ok (en_crc env) disk" using assms(1) by (simp add: governed_def)
  from create_consent_record_succeeds [OF this assms(2,6) r] obtain id disk' where
    "create_consent_record env ?r True disk = (Ok id, disk')" .
  then show thesis
    by (intro that [of disk'])
      (simp add: withdraw_consent_def prev_consent_hash_end [OF assms(1,3)] withdrawal_record_def and_return_def Let_def)
qed

section \<open>Erasure\<close>

lemma create_telemetry_governed:
  assumes "governed (en_crc env) sha disk" "disk_room env (Suc k) disk" "create_telemetry env records disk = (res, disk')"
  shows "governed (en_crc env) sha disk' \<and> disk_room env k disk'"
proof (cases "records = []")
  case True
  with assms show ?thesis using disk_room_mono [of env "Suc k" disk k] by (simp add: create_telemetry_def)
next
  case False
  then have "append_records env TILE_TELEMETRY (length records) (pod_bytes telemetry_bytes records) (map tl_timestamp records) disk = (res, disk')"
    using assms(3) by (simp add: create_telemetry_def)
  from governed_append [OF assms(1,2) this] show ?thesis by (simp add: TILE_TELEMETRY_def TILE_CONSENT_def TILE_ERASURE_def)
qed

lemma append_tombstone_cases:
  assumes "governed (en_crc env) sha disk" "disk_room env (Suc k) disk" "append_tombstone env tid ix disk = Some disk'"
  obtains (none) "disk' = disk"
  | (one) tgt g where "first_target tid ix (disk_tiles (en_crc env) disk) = Some (Some tgt)" "ht_tile_type g = TILE_TELEMETRY"
      "disk_tiles (en_crc env) disk' = disk_tiles (en_crc env) disk @ [Some (g, pod_bytes telemetry_bytes [mark_tombstone tgt])]"
      "governed (en_crc env) sha disk'" "disk_room env k disk'"
proof -
  obtain r where r: "reader_open (en_crc env) disk = Ok r" "reader_tiles (en_crc env) r = disk_tiles (en_crc env) disk"
    using assms(1) by (rule governed_reader)
  have ok: "archive_ok (en_crc env) disk" using assms(1) by (simp add: governed_def)
  consider "disk' = disk" | tgt res where "first_target tid ix (disk_tiles (en_crc env) disk) = Some (Some tgt)"
      "create_telemetry env [mark_tombstone tgt] disk = (res, disk')"
    using assms(3) r by (auto simp: append_tombstone_def split: option.splits) (metis prod.collapse)
  then show thesis
  proof cases
    case 1
    then show thesis by (rule none)
  next
    case (2 tgt res)
    then have "append_records env TILE_TELEMETRY 1 (pod_bytes telemetry_bytes [mark_tombstone tgt]) [tl_timestamp (mark_tombstone tgt)] disk =
        (res, disk')" by (simp add: create_telemetry_def)
    from ok assms(2) this show thesis
      by (cases rule: append_records_cases)
        (use 2 none one create_telemetry_governed [OF assms(1,2) 2(2)] in \<open>auto simp: describes_def\<close>)
  qed
qed

lemma record_erasure_cases:
  assumes "governed (en_crc env) (en_sha env) disk" "disk_room env (Suc (Suc k)) disk" "erasure_log (disk_tiles (en_crc env) disk) = Some es"
    "\<And>bs. length (en_sha env bs) = 32" "length h = 32"
    "record_erasure env ty tid ix h reason authority req ex auth disk = Some (res, disk')"
  defines "r \<equiv> erasure_new (en_sha env) h ty tid ix reason authority req ex (chain_end er_erasure_hash no_hash es)"
  obtains (refused) e where "res = Err e" "disk' = disk"
  | (already) r' where "auth" "erasure_checks ty tid ix h (disk_sieve (en_crc env) disk) = Some (AlreadyErased r')" "res = Ok r'" "disk' = disk"
  | (recorded) disk1 g where "auth" "res = Ok r"
      "erasure_checks ty tid ix h (disk_sieve (en_crc env) disk) = Some (LinkTo (chain_end er_erasure_hash no_hash es))"
      "disk_tiles (en_crc env) disk1 = disk_tiles (en_crc env) disk @ [Some (g, pod_bytes erasure_bytes [r])]" "ht_tile_type g = TILE_ERASURE"
      "governed (en_crc env) (en_sha env) disk1" "disk_room env (Suc k) disk1"
      "(if ty = TILE_TELEMETRY then append_tombstone env tid ix disk1 else Some disk1) = Some disk'"
proof -
  let ?cc = "en_crc env"
  obtain rd where rd: "reader_open ?cc disk = Ok rd" "sieve_new ?cc rd = disk_sieve ?cc disk"
    using assms(1) by (rule governed_reader)
  have ok: "archive_ok ?cc disk" using assms(1) by (simp add: governed_def)
  have link: "hsh = chain_end er_erasure_hash no_hash es" if "erasure_checks ty tid ix h (disk_sieve ?cc disk) = Some (LinkTo hsh)" for hsh
    using that assms(3) by (auto simp: erasure_checks_def query_erasure_all chain_end_def split: option.splits bool.splits)
  consider e where "res = Err e" "disk' = disk" | r' where "auth" "erasure_checks ty tid ix h (disk_sieve ?cc disk) = Some (AlreadyErased r')"
      "res = Ok r'" "disk' = disk"
    | "auth" "erasure_checks ty tid ix h (disk_sieve ?cc disk) = Some (LinkTo (chain_end er_erasure_hash no_hash es))"
  proof (cases "erasure_checks ty tid ix h (disk_sieve ?cc disk)")
    case None
    then show thesis using that assms(6) rd by (auto simp: record_erasure_def split: if_splits)
  next
    case (Some g)
    then show thesis using that assms(6) rd link by (cases g) (auto simp: record_erasure_def split: if_splits)
  qed
  then show thesis
  proof cases
    case 3
    obtain res1 disk1 where c: "create_erasure_record env r auth disk = (res1, disk1)" by (metis prod.exhaust)
    have rest: "(case (res1, disk1) of (Err e, disk) \<Rightarrow> Some (Err e, disk)
        | (Ok _, disk) \<Rightarrow> map_option (Pair (Ok r)) (if ty = TILE_TELEMETRY then append_tombstone env tid ix disk else Some disk)) =
        Some (res, disk')"
      using assms(6) 3 rd c by (simp add: record_erasure_def r_def [symmetric] Let_def)
    have shape: "erasure_shape r"
      using new_records_valid(3) [OF assms(4,5)] erasure_end_length [OF assms(3)] by (simp add: r_def)
    from ok assms(2) c shape show thesis
    proof (cases rule: create_erasure_record_cases)
      case refused
      then show thesis using rest that(1) by auto
    next
      case (created id g)
      have "governed ?cc (en_sha env) disk1"
        using assms(1) created erasure_chain_extend [OF _ assms(3) created(7) shape created(3)]
        by (simp add: governed_def consent_chains_other TILE_CONSENT_def TILE_ERASURE_def r_def)
      then show thesis using that(3) [OF 3(1) _ 3(2) created(6,7) _ created(5)] created(1) rest by auto
    qed
  qed (rule that(1,2); assumption)+
qed

section \<open>Runs of the engine\<close>

lemma record_erasure_governed:
  assumes "governed (en_crc env) (en_sha env) disk" "disk_room env 2 disk" "\<And>bs. length (en_sha env bs) = 32" "length h = 32"
    "record_erasure env ty tid ix h reason authority req ex auth disk = Some (res, disk')"
  shows "governed (en_crc env) (en_sha env) disk'"
proof -
  obtain es where es: "erasure_log (disk_tiles (en_crc env) disk) = Some es" using assms(1) by (rule governed_logs)
  have room: "disk_room env (Suc (Suc 0)) disk" using assms(2) by (simp add: numeral_2_eq_2)
  from assms(1) room es assms(3-5) show ?thesis
  proof (cases rule: record_erasure_cases)
    case (recorded disk1 g)
    then show ?thesis
      by (cases "ty = TILE_TELEMETRY") (auto elim!: append_tombstone_cases [OF recorded(6,7)])
  qed (use assms(1) in simp_all)
qed

lemma delete_telemetry_disk:
  assumes "delete_telemetry env sensor metric ts disk = Some (res, disk')"
  shows "disk' = disk \<or> (\<exists>r res'. create_telemetry env [mark_tombstone r] disk = (res', disk'))"
  using assms by (auto simp: delete_telemetry_def and_return_def split: option.splits sum.splits list.splits prod.splits)

lemma delete_telemetry_governed:
  assumes "governed (en_crc env) sha disk" "disk_room env (Suc k) disk" "delete_telemetry env sensor metric ts disk = Some (res, disk')"
  shows "governed (en_crc env) sha disk' \<and> disk_room env k disk'"
  using delete_telemetry_disk [OF assms(3)] assms(1) disk_room_mono [OF assms(2), of k] create_telemetry_governed [OF assms(1,2)] by auto

lemma update_telemetry_governed:
  assumes "governed (en_crc env) sha disk" "disk_room env (Suc (Suc k)) disk" "update_telemetry env sensor metric ts v disk = Some (res, disk')"
  shows "governed (en_crc env) sha disk'"
proof -
  obtain res1 disk1 where d: "delete_telemetry env sensor metric ts disk = Some (res1, disk1)"
    using assms(3) by (auto simp: update_telemetry_def split: option.splits)
  note g = delete_telemetry_governed [OF assms(1,2) d]
  then consider "disk' = disk1" | res' where "create_telemetry env [telemetry_new ts sensor metric v] disk1 = (res', disk')"
    using assms(3) d by (auto simp: update_telemetry_def and_return_def split: sum.splits prod.splits)
  then show ?thesis using g create_telemetry_governed [of env sha disk1 k] by cases auto
qed

text \<open>One call that makes its consent and erasure records itself; the clock and the registry may differ from call to call.
  The calls that take such records from the caller are in \<open>Engine_Calls\<close>.\<close>

inductive crud_step :: "crc_crate \<Rightarrow> (byte list \<Rightarrow> byte list) \<Rightarrow> byte list \<Rightarrow> byte list \<Rightarrow> bool" for cc sha where
  st_telemetry: "crud_step cc sha disk disk'"
    if "en_crc env = cc" "disk_room env 1 disk" "create_telemetry env records disk = (res, disk')"
| st_marks: "crud_step cc sha disk disk'"
    if "en_crc env = cc" "disk_room env 1 disk" "list_all (\<lambda>m. length (mk_padding m) = 3) marks"
      "create_marks env marks disk = (res, disk')"
| st_learning: "crud_step cc sha disk disk'"
    if "en_crc env = cc" "disk_room env 1 disk" "create_learning_activities env activities disk = (res, disk')"
| st_addon: "crud_step cc sha disk disk'"
    if "en_crc env = cc" "addon_room env m disk" "crud_enable_addon env m disk = (res, disk')"
| st_grant: "crud_step cc sha disk disk'"
    if "en_crc env = cc" "en_sha env = sha" "disk_room env 1 disk" "length sub = 16"
      "grant_consent env sub study purpose scope at e hold granter auth disk = Some (res, disk')"
| st_withdraw: "crud_step cc sha disk disk'"
    if "en_crc env = cc" "en_sha env = sha" "disk_room env 1 disk" "length sub = 16"
      "withdraw_consent env sub study purpose scope at granter auth disk = Some (res, disk')"
| st_erase: "crud_step cc sha disk disk'"
    if "en_crc env = cc" "en_sha env = sha" "disk_room env 2 disk" "length h = 32"
      "record_erasure env ty tid ix h reason authority req ex auth disk = Some (res, disk')"
| st_delete: "crud_step cc sha disk disk'"
    if "en_crc env = cc" "disk_room env 1 disk" "delete_telemetry env sensor metric ts disk = Some (res, disk')"
| st_update: "crud_step cc sha disk disk'"
    if "en_crc env = cc" "disk_room env 2 disk" "update_telemetry env sensor metric ts v disk = Some (res, disk')"
| st_purge: "crud_step cc sha disk disk'"
    if "en_crc env = cc" "disk_room env 1 disk" "purge_telemetry_record env sensor metric ts disk = Some (res, disk')"

lemmas tile_codes = TILE_TELEMETRY_def TILE_HYBRID_def TILE_RESERVED_BOUNDARY_def TILE_MARKS_def TILE_COLUMNAR_def TILE_CONSENT_def
  TILE_ERASURE_def

lemma create_marks_governed:
  assumes "governed (en_crc env) sha disk" "disk_room env (Suc k) disk" "create_marks env marks disk = (res, disk')"
  shows "governed (en_crc env) sha disk'"
  using assms governed_append [of env sha disk k TILE_MARKS] by (auto simp: create_marks_def tile_codes split: if_splits)

lemma create_learning_governed:
  assumes "governed (en_crc env) sha disk" "disk_room env (Suc k) disk" "create_learning_activities env activities disk = (res, disk')"
  shows "governed (en_crc env) sha disk'"
proof -
  have "archive_ok (en_crc env) disk" using assms(1) by (simp add: governed_def)
  then obtain w where "open_append (en_crc env) disk = Ok w" "df_bytes (tw_file w) = disk" by (rule archive_okE)
  with assms governed_append [of env sha disk k TILE_RESERVED_BOUNDARY] show ?thesis
    by (auto simp: create_learning_activities_def tile_codes split: if_splits)
qed

lemma grant_consent_governed:
  assumes "governed (en_crc env) (en_sha env) disk" "disk_room env (Suc k) disk" "\<And>bs. length (en_sha env bs) = 32" "length sub = 16"
    "grant_consent env sub study purpose scope at e hold granter auth disk = Some (res, disk')"
  shows "governed (en_crc env) (en_sha env) disk'"
proof -
  obtain cs where cs: "consent_log (disk_tiles (en_crc env) disk) = Some cs" using assms(1) by (rule governed_logs)
  from assms(1,2) cs assms(3-5) show ?thesis by (cases rule: grant_consent_cases) (use assms(1) in simp_all)
qed

lemma withdraw_consent_governed:
  assumes "governed (en_crc env) (en_sha env) disk" "disk_room env (Suc k) disk" "\<And>bs. length (en_sha env bs) = 32" "length sub = 16"
    "withdraw_consent env sub study purpose scope at granter auth disk = Some (res, disk')"
  shows "governed (en_crc env) (en_sha env) disk'"
proof -
  obtain cs where cs: "consent_log (disk_tiles (en_crc env) disk) = Some cs" using assms(1) by (rule governed_logs)
  from assms(1,2) cs assms(3-5) show ?thesis by (cases rule: withdraw_consent_cases) (use assms(1) in simp_all)
qed

lemma crud_step_governed:
  assumes "crud_step cc sha disk disk'" "governed cc sha disk" "\<And>bs. length (sha bs) = 32"
  shows "governed cc sha disk'"
  using assms(1)
proof cases
  case (st_telemetry env records res)
  with assms(2) create_telemetry_governed [of env sha disk 0] show ?thesis by simp
next
  case (st_marks env marks res)
  with assms(2) create_marks_governed [of env sha disk 0] show ?thesis by simp
next
  case (st_learning env activities res)
  with assms(2) create_learning_governed [of env sha disk 0] show ?thesis by simp
next
  case (st_addon env m res)
  with assms(2) enable_addon_store [of env disk m res disk'] show ?thesis by (simp add: governed_def)
next
  case (st_grant env sub study purpose scope at e hold granter auth res)
  with assms(2,3) grant_consent_governed [of env disk 0 sub study purpose scope at e hold granter auth res disk'] show ?thesis by simp
next
  case (st_withdraw env sub study purpose scope at granter auth res)
  with assms(2,3) withdraw_consent_governed [of env disk 0 sub study purpose scope at granter auth res disk'] show ?thesis by simp
next
  case (st_erase env h ty tid ix reason authority req ex auth res)
  with assms(2,3) record_erasure_governed [of env disk h ty tid ix reason authority req ex auth res disk'] show ?thesis by simp
next
  case (st_delete env sensor metric ts res)
  with assms(2) delete_telemetry_governed [of env sha disk 0] show ?thesis by simp
next
  case (st_update env sensor metric ts v res)
  with assms(2) update_telemetry_governed [of env sha disk 0] show ?thesis by (simp add: numeral_2_eq_2)
next
  case (st_purge env sensor metric ts res)
  then have "disk' = disk \<or> delete_telemetry env sensor metric ts disk = Some (res, disk')"
    by (auto simp: purge_telemetry_record_def split: option.splits bool.splits)
  with st_purge assms(2) delete_telemetry_governed [of env sha disk 0] show ?thesis by auto
qed

lemma crud_run_governed:
  assumes "(crud_step cc sha)\<^sup>*\<^sup>* disk disk'" "governed cc sha disk" "\<And>bs. length (sha bs) = 32"
  shows "governed cc sha disk'"
  using assms by (induction rule: rtranclp_induct) (auto intro: crud_step_governed)

lemma fresh_governed:
  assumes "fh_header_crc32 (first_slot cc now uuid) \<noteq> 0"
  shows "governed cc sha (df_bytes (tw_file (create_with_uuid cc now uuid)))"
    "disk_tiles cc (df_bytes (tw_file (create_with_uuid cc now uuid))) = []"
proof -
  note w = create_wf [OF assms]
  show t: "disk_tiles cc (df_bytes (tw_file (create_with_uuid cc now uuid))) = []"
    using disk_tiles_writer [OF w(1)] w(2) by simp
  show "governed cc sha (df_bytes (tw_file (create_with_uuid cc now uuid)))"
    using archive_ok_writer [OF w(1)] by (simp add: governed_def t consent_chains_ok_def erasure_chain_ok_def)
qed

end
