(* ===== verification/Engine_Calls.thy ===== *)
theory Engine_Calls
  imports Engine_Governance Core_Array
begin

text \<open>
  The remaining writing calls of \<^verbatim>\<open>S3ACrudEngine\<close>: array chunks and the generic \<^verbatim>\<open>append_tile_records\<close>, and the
  runs of all its calls but compaction: \<open>engine_step\<close>, where a caller appends records of its own making, and \<open>linked_step\<close>, where the
  consent and erasure records it appends continue the hash chains, which the engine does not check.
\<close>

section \<open>Array chunks and generic records\<close>

definition TILE_ARRAY :: u32 where "TILE_ARRAY = 66"

text \<open>The header that \<^verbatim>\<open>write_array_chunk\<close> hands to \<^verbatim>\<open>write_raw_hyper_tile\<close>.\<close>

definition array_tile_header :: "crc_crate \<Rightarrow> array_view \<Rightarrow> byte list \<Rightarrow> tile_writer \<Rightarrow> hyper_tile_header" where
  "array_tile_header cc view payload w =
    (let hdr = (hyper_tile_header_new 1 (ucast (tw_tile_count w)) TILE_ARRAY)
           \<lparr> ht_record_count := of_nat (total_elements (av_header view)), ht_record_layout_version := 1,
             ht_payload_bytes := of_nat (length payload), ht_data_crc32 := cc_crc32c cc payload,
             ht_generation := tw_generation w, ht_tile_index := tw_tile_count w, ht_file_uuid := tw_file_uuid w \<rparr>
     in hdr\<lparr> ht_header_crc32 := compute_tile_header_crc32 cc hdr \<rparr>)"

definition write_array_chunk :: "crud_env \<Rightarrow> bool \<Rightarrow> byte list \<Rightarrow> byte list \<Rightarrow> u64 crud_result" where
  "write_array_chunk env align_ok payload disk =
    (case array_parse align_ok payload of
       Err e \<Rightarrow> (Err (IoInvalidInput e), disk)
     | Ok view \<Rightarrow>
         if \<not> verify_chunk_hash (en_sha env) view then (Err (IoInvalidData ''Array chunk SHA-256 hash mismatch''), disk)
         else (case open_append (en_crc env) disk of
             Err e \<Rightarrow> (Err e, disk)
           | Ok w \<Rightarrow>
               let (r, w') = write_raw_hyper_tile (en_crc env) (en_registry env) (en_now env)
                     (array_tile_header (en_crc env) view payload w) payload w
               in (r, df_bytes (tw_file w'))))"

text \<open>\<^verbatim>\<open>append_tile_records<T>\<close>: a slice of \<open>n\<close> records of any type is its bytes.\<close>

definition append_tile_records ::
  "crud_env \<Rightarrow> u32 \<Rightarrow> nat \<Rightarrow> bool \<Rightarrow> byte list \<Rightarrow> u64 list option \<Rightarrow> simplex_hull option \<Rightarrow> u64 list option \<Rightarrow> byte list \<Rightarrow>
   u64 crud_result" where
  "append_tile_records env tile_type n align_ok record_bytes timestamps hull filter_keys disk =
    (if n = 0 then (Ok 0, disk)
     else (case open_append (en_crc env) disk of
         Err e \<Rightarrow> (Err e, disk)
       | Ok w \<Rightarrow>
           let (r, w') = write_hyper_tile_ext (en_crc env) (en_registry env) (en_ratio env) (en_now env) tile_type n align_ok
                 record_bytes timestamps hull filter_keys w
           in (r, df_bytes (tw_file w'))))"

text \<open>Either call refuses and leaves the archive alone, or adds one tile.\<close>

lemma tile_write_adds:
  assumes "open_append (en_crc env) disk = Ok w" "tw_wf (en_crc env) w" "df_bytes (tw_file w) = disk" "disk_room env (Suc k) disk"
    "tile_write (en_crc env) registry ratio (en_now env) w g bs w'" "ht_tile_id g = tw_current_tile_id w"
  shows "archive_ok (en_crc env) (df_bytes (tw_file w'))" "disk_room env k (df_bytes (tw_file w'))"
    "disk_tiles (en_crc env) (df_bytes (tw_file w')) = disk_tiles (en_crc env) disk @ [Some (g, bs)]"
    "ht_tile_id g = of_nat (length (disk_tiles (en_crc env) disk)) + 1"
proof -
  have "length (disk_tiles (en_crc env) disk) = unat (tw_tile_count w)" using disk_tiles_writer [OF assms(2)] assms(3) by simp
  then show "ht_tile_id g = of_nat (length (disk_tiles (en_crc env) disk)) + 1"
    using tw_wfD(5) [OF assms(2)] assms(6) by simp
qed (use archive_ok_writer [OF tile_write_commits(1) [OF assms(2,5)]] disk_room_append [OF assms(4,1,2,5)]
    disk_tiles_append [OF assms(2,5)] assms(3) in simp_all)

lemma ext_tile_header_id:
  "ht_tile_id (ext_tile_header cc ratio ty v n al bs ts hull ks w) = tw_current_tile_id w"
  "ht_tile_type (ext_tile_header cc ratio ty v n al bs ts hull ks w) = ty"
  by (simp_all add: ext_tile_header_def Let_def stamp_range_def stamp_hull_def stamp_digest_def
      stamp_learned_index_def stamp_filter_def hyper_tile_header_new_def split: prod.split option.split)

lemma append_tile_records_cases:
  assumes "archive_ok (en_crc env) disk" "disk_room env (Suc k) disk"
    "append_tile_records env ty n al bs ts hull ks disk = (res, disk')" "case hull of Some h \<Rightarrow> simplex_hull_shape h | None \<Rightarrow> True"
  obtains (same) "disk' = disk"
  | (appended) g where "archive_ok (en_crc env) disk'" "disk_room env k disk'" "ht_tile_type g = ty"
      "disk_tiles (en_crc env) disk' = disk_tiles (en_crc env) disk @ [Some (g, bs)]"
      "ht_tile_id g = of_nat (length (disk_tiles (en_crc env) disk)) + 1"
proof -
  let ?cc = "en_crc env"
  obtain w where w: "open_append ?cc disk = Ok w" "tw_wf ?cc w" "df_bytes (tw_file w) = disk"
    using assms(1) by (rule archive_okE)
  define W where "W = write_hyper_tile_ext ?cc (en_registry env) (en_ratio env) (en_now env) ty n al bs ts hull ks w"
  have r: "disk' = disk \<or> disk' = df_bytes (tw_file (snd W))"
    using assms(3) w(1) by (auto simp: append_tile_records_def W_def split_def Let_def split: if_splits)
  show thesis
  proof (cases "ext_tile_ok (en_registry env) ty bs hull w")
    case False
    then have "snd W = w"
      using assms(4) by (auto simp: W_def write_hyper_tile_ext_def ext_tile_ok_def Let_def split: sum.splits)
    then show thesis using same r w(3) by auto
  next
    case True
    have "commit_possible ?cc (en_now env) w" using disk_roomD [OF assms(2) w(1), of 0] by simp
    note tw = tile_write.ext [OF True this, of "en_ratio env" n al ts ks, folded W_def]
    note a = tile_write_adds [OF w assms(2) tw ext_tile_header_id(1)]
    from r show thesis
    proof
      assume d: "disk' = df_bytes (tw_file (snd W))"
      show thesis by (rule appended [unfolded d, OF a(1,2) ext_tile_header_id(2) a(3,4)])
    qed (rule same)
  qed
qed

lemma array_tile_header_simps:
  "hyper_tile_header_shape (array_tile_header cc view payload w)" "ht_tile_type (array_tile_header cc view payload w) = TILE_ARRAY"
  "ht_data_crc32 (array_tile_header cc view payload w) = cc_crc32c cc payload"
  "ht_payload_bytes (array_tile_header cc view payload w) = of_nat (length payload)"
  "ht_record_layout_version (array_tile_header cc view payload w) = 1"
  by (simp_all add: array_tile_header_def Let_def hyper_tile_header_new_def hyper_tile_header_shape_def simplex_hull_shape_def
      simplex_hull_empty_def tile_filter_default_def tile_security_default_def)

lemma raw_tile_header_type: "ht_tile_type (raw_tile_header cc h payload w) = ht_tile_type h"
  by (simp add: raw_tile_header_def Let_def)

lemma write_array_chunk_cases:
  assumes "archive_ok (en_crc env) disk" "disk_room env (Suc k) disk" "write_array_chunk env al payload disk = (res, disk')"
  obtains (same) "disk' = disk"
  | (appended) g where "archive_ok (en_crc env) disk'" "disk_room env k disk'" "ht_tile_type g = TILE_ARRAY"
      "disk_tiles (en_crc env) disk' = disk_tiles (en_crc env) disk @ [Some (g, payload)]"
      "ht_tile_id g = of_nat (length (disk_tiles (en_crc env) disk)) + 1"
proof -
  let ?cc = "en_crc env"
  obtain w where w: "open_append ?cc disk = Ok w" "tw_wf ?cc w" "df_bytes (tw_file w) = disk"
    using assms(1) by (rule archive_okE)
  show thesis
  proof (cases "disk' = disk")
    case False
    with assms(3) w(1) obtain view where "array_parse al payload = Ok view" "disk' = df_bytes (tw_file (snd (write_raw_hyper_tile ?cc
        (en_registry env) (en_now env) (array_tile_header ?cc view payload w) payload w)))"
      by (auto simp: write_array_chunk_def split_def Let_def split: sum.splits if_splits)
    then obtain h where h: "h = array_tile_header ?cc view payload w"
      "disk' = df_bytes (tw_file (snd (write_raw_hyper_tile ?cc (en_registry env) (en_now env) h payload w)))" by blast
    have "raw_tile_ok ?cc (en_registry env) h payload w"
    proof (rule ccontr)
      assume "\<not> ?thesis"
      then have "snd (write_raw_hyper_tile ?cc (en_registry env) (en_now env) h payload w) = w"
        by (auto simp: h(1) raw_tile_ok_def array_tile_header_simps write_raw_hyper_tile_def Let_def tile_sizes split: sum.splits)
      with False h(2) w(3) show False by simp
    qed
    moreover have "commit_possible ?cc (en_now env) w" using disk_roomD [OF assms(2) w(1), of 0] by simp
    ultimately have tw: "tile_write ?cc (en_registry env) (en_ratio env) (en_now env) w (raw_tile_header ?cc h payload w) payload
        (snd (write_raw_hyper_tile ?cc (en_registry env) (en_now env) h payload w))" by (rule tile_write.raw)
    have "ht_tile_id (raw_tile_header ?cc h payload w) = tw_current_tile_id w"
      by (rule raw_tile_header_simps) (simp add: h(1) array_tile_header_simps)
    note a = tile_write_adds [OF w assms(2) tw this, folded h(2)]
    have "ht_tile_type (raw_tile_header ?cc h payload w) = TILE_ARRAY"
      by (simp add: raw_tile_header_type h(1) array_tile_header_simps)
    from appended [OF a(1,2) this a(3,4)] show thesis .
  qed (rule same)
qed

section \<open>Runs of all calls\<close>

text \<open>The widths of the records that the queries cast a payload to.  A tile of another type may hold any bytes, except that
  columnar tiles, which the telemetry query decodes, come from the compactor.\<close>

definition record_width :: "u32 \<Rightarrow> nat option" where
  "record_width ty =
    (if ty = TILE_TELEMETRY \<or> ty = TILE_HYBRID then Some 32
     else if ty = TILE_RESERVED_BOUNDARY \<or> ty = 10 \<or> ty = TILE_MARKS then Some 64
     else if ty = TILE_CONSENT then Some 136 else if ty = TILE_ERASURE then Some 144 else None)"

definition whole_records :: "u32 \<Rightarrow> byte list \<Rightarrow> bool" where
  "whole_records ty bs \<longleftrightarrow> (case record_width ty of Some w \<Rightarrow> length bs mod w = 0 | None \<Rightarrow> ty \<noteq> TILE_COLUMNAR)"

inductive engine_step :: "crc_crate \<Rightarrow> (byte list \<Rightarrow> byte list) \<Rightarrow> byte list \<Rightarrow> byte list \<Rightarrow> bool" for cc sha where
  es_crud: "engine_step cc sha disk disk'" if "crud_step cc sha disk disk'"
| es_consents: "engine_step cc sha disk disk'"
    if "en_crc env = cc" "en_sha env = sha" "disk_room env 1 disk" "list_all consent_shape records"
      "create_consent_records env records auth disk = (res, disk')"
| es_erasures: "engine_step cc sha disk disk'"
    if "en_crc env = cc" "en_sha env = sha" "disk_room env 1 disk" "list_all erasure_shape records"
      "create_erasure_records env records auth disk = (res, disk')"
| es_array: "engine_step cc sha disk disk'"
    if "en_crc env = cc" "en_sha env = sha" "disk_room env 1 disk" "write_array_chunk env al payload disk = (res, disk')"
| es_append: "engine_step cc sha disk disk'"
    if "en_crc env = cc" "disk_room env 1 disk" "case hull of Some h \<Rightarrow> simplex_hull_shape h | None \<Rightarrow> True" "whole_records ty bs"
      "append_tile_records env ty n al bs ts hull ks disk = (res, disk')"

text \<open>Records that continue the chains, one after the other: the link is the hash of the last record of the same subject, or of
  the last erasure.\<close>

fun consents_linked :: "consent_record list \<Rightarrow> consent_record list \<Rightarrow> bool" where
  "consents_linked cs [] \<longleftrightarrow> True"
| "consents_linked cs (r # rs) \<longleftrightarrow>
    cn_prev_consent_hash r = chain_end cn_consent_hash no_hash (subject_log (cn_subject_id r) cs) \<and> consents_linked (cs @ [r]) rs"

fun erasures_linked :: "erasure_record list \<Rightarrow> erasure_record list \<Rightarrow> bool" where
  "erasures_linked es [] \<longleftrightarrow> True"
| "erasures_linked es (r # rs) \<longleftrightarrow> er_prev_erasure_hash r = chain_end er_erasure_hash no_hash es \<and> erasures_linked (es @ [r]) rs"

inductive linked_step :: "crc_crate \<Rightarrow> (byte list \<Rightarrow> byte list) \<Rightarrow> byte list \<Rightarrow> byte list \<Rightarrow> bool" for cc sha where
  ls_crud: "linked_step cc sha disk disk'" if "crud_step cc sha disk disk'"
| ls_consents: "linked_step cc sha disk disk'"
    if "en_crc env = cc" "en_sha env = sha" "disk_room env 1 disk" "list_all consent_shape records"
      "consent_log (disk_tiles cc disk) = Some cs" "consents_linked cs records"
      "create_consent_records env records auth disk = (res, disk')"
| ls_erasures: "linked_step cc sha disk disk'"
    if "en_crc env = cc" "en_sha env = sha" "disk_room env 1 disk" "list_all erasure_shape records"
      "erasure_log (disk_tiles cc disk) = Some es" "erasures_linked es records"
      "create_erasure_records env records auth disk = (res, disk')"
| ls_array: "linked_step cc sha disk disk'"
    if "en_crc env = cc" "en_sha env = sha" "disk_room env 1 disk" "write_array_chunk env al payload disk = (res, disk')"
| ls_append: "linked_step cc sha disk disk'"
    if "en_crc env = cc" "disk_room env 1 disk" "case hull of Some h \<Rightarrow> simplex_hull_shape h | None \<Rightarrow> True"
      "ty \<noteq> TILE_CONSENT" "ty \<noteq> TILE_ERASURE" "append_tile_records env ty n al bs ts hull ks disk = (res, disk')"

section \<open>Linked calls keep the chains\<close>

text \<open>The chains of the logs that \<open>consent_chains_ok\<close> looks at.\<close>

definition consent_log_ok :: "(byte list \<Rightarrow> byte list) \<Rightarrow> consent_record list \<Rightarrow> bool" where
  "consent_log_ok sha cs \<longleftrightarrow> (\<forall>sub. consent_chain_loop sha 0 no_hash (subject_log sub cs) = Ok True)"

lemma consent_chains_log:
  assumes "consent_log ts = Some cs"
  shows "consent_chains_ok sha ts \<longleftrightarrow> consent_log_ok sha cs"
proof
  assume "consent_chains_ok sha ts"
  from consent_chains_verify [of sha "\<lparr> qs_tiles = ts, qs_include_hidden = False, qs_purpose = None, qs_now = 0 \<rparr>"] this assms
  show "consent_log_ok sha cs" by (simp add: consent_log_ok_def verify_consent_chain_def query_consent_of_subject)
next
  assume "consent_log_ok sha cs"
  then show "consent_chains_ok sha ts" by (simp add: assms consent_chains_ok_def consent_log_ok_def list_all_iff)
qed

lemma consents_linked_ok:
  "consent_log_ok sha cs \<Longrightarrow> consents_linked cs rs \<Longrightarrow> list_all (consent_verify_hash sha) rs \<Longrightarrow> consent_log_ok sha (cs @ rs)"
proof (induction rs arbitrary: cs)
  case (Cons r rs)
  have old: "consent_chain_loop sha 0 no_hash (subject_log sub cs) = Ok True" for sub
    using Cons.prems(1) by (simp add: consent_log_ok_def)
  have "consent_log_ok sha (cs @ [r])"
    using old consent_chain.check_extend [OF old [of "cn_subject_id r"], of r] Cons.prems(2,3) by (simp add: consent_log_ok_def)
  from Cons.IH [OF this] Cons.prems(2,3) show ?case by simp
qed simp

lemma erasures_linked_ok:
  "erasure_chain_loop sha 0 no_hash es = Ok True \<Longrightarrow> erasures_linked es rs \<Longrightarrow> list_all (erasure_verify_hash sha) rs \<Longrightarrow>
    erasure_chain_loop sha 0 no_hash (es @ rs) = Ok True"
proof (induction rs arbitrary: es)
  case (Cons r rs)
  have "erasure_chain_loop sha 0 no_hash (es @ [r]) = Ok True"
    using Cons.prems erasure_chain.check_extend [of sha no_hash es r] by simp
  from Cons.IH [OF this] Cons.prems(2,3) show ?case by simp
qed simp

lemma governed_other_tile:
  assumes "governed cc sha disk" "archive_ok cc disk'" "disk_tiles cc disk' = disk_tiles cc disk @ [Some (g, bs)]"
    "ht_tile_type g \<noteq> TILE_CONSENT" "ht_tile_type g \<noteq> TILE_ERASURE"
  shows "governed cc sha disk'"
  using assms by (simp add: governed_def consent_chains_other erasure_chain_other)

lemma create_consent_records_governed:
  assumes "governed (en_crc env) (en_sha env) disk" "disk_room env (Suc k) disk" "list_all consent_shape records"
    "consent_log (disk_tiles (en_crc env) disk) = Some cs" "consents_linked cs records"
    "create_consent_records env records auth disk = (res, disk')"
  shows "governed (en_crc env) (en_sha env) disk'"
proof (cases "disk' = disk")
  case False
  have ok: "archive_ok (en_crc env) disk" using assms(1) by (simp add: governed_def)
  have v: "list_all (consent_verify_hash (en_sha env)) records" "append_records env TILE_CONSENT (length records)
      (pod_bytes consent_bytes records) (map (\<lambda>r. max (cn_granted_at r) (cn_withdrawn_at r)) records) disk = (res, disk')"
    using assms(6) False by (auto simp: create_consent_records_def split: if_splits)
  from ok assms(2) v(2) show ?thesis
  proof (cases rule: append_records_cases)
    case (appended g)
    have t: "ht_tile_type g = TILE_CONSENT" using appended(5) by (simp add: describes_def)
    have l: "consent_log (disk_tiles (en_crc env) disk') = Some (cs @ records)"
      using consent_codec.typed_records_own [OF t assms(3), of "disk_tiles (en_crc env) disk"] assms(4) appended(4) by simp
    have "consent_log_ok (en_sha env) cs" using assms(1,4) by (simp add: governed_def consent_chains_log)
    from consents_linked_ok [OF this assms(5) v(1)] have "consent_chains_ok (en_sha env) (disk_tiles (en_crc env) disk')"
      by (simp add: consent_chains_log [OF l])
    moreover have "erasure_chain_ok (en_sha env) (disk_tiles (en_crc env) disk')"
      using assms(1) t appended(4) by (simp add: governed_def erasure_chain_other tile_codes)
    ultimately show ?thesis using appended(2) by (simp add: governed_def)
  qed (use assms(1) in simp)
qed (use assms(1) in simp)

lemma create_erasure_records_governed:
  assumes "governed (en_crc env) (en_sha env) disk" "disk_room env (Suc k) disk" "list_all erasure_shape records"
    "erasure_log (disk_tiles (en_crc env) disk) = Some es" "erasures_linked es records"
    "create_erasure_records env records auth disk = (res, disk')"
  shows "governed (en_crc env) (en_sha env) disk'"
proof (cases "disk' = disk")
  case False
  have ok: "archive_ok (en_crc env) disk" using assms(1) by (simp add: governed_def)
  have v: "list_all (erasure_verify_hash (en_sha env)) records" "append_records env TILE_ERASURE (length records)
      (pod_bytes erasure_bytes records) (map er_executed_at records) disk = (res, disk')"
    using assms(6) False by (auto simp: create_erasure_records_def split: if_splits)
  from ok assms(2) v(2) show ?thesis
  proof (cases rule: append_records_cases)
    case (appended g)
    have t: "ht_tile_type g = TILE_ERASURE" using appended(5) by (simp add: describes_def)
    have l: "erasure_log (disk_tiles (en_crc env) disk') = Some (es @ records)"
      using erasure_codec.typed_records_own [OF t assms(3), of "disk_tiles (en_crc env) disk"] assms(4) appended(4) by simp
    have "erasure_chain_loop (en_sha env) 0 no_hash es = Ok True" using assms(1,4) by (simp add: governed_def erasure_chain_ok_def)
    from erasures_linked_ok [OF this assms(5) v(1)] have "erasure_chain_ok (en_sha env) (disk_tiles (en_crc env) disk')"
      by (simp add: erasure_chain_ok_def l)
    moreover have "consent_chains_ok (en_sha env) (disk_tiles (en_crc env) disk')"
      using assms(1) t appended(4) by (simp add: governed_def consent_chains_other tile_codes)
    ultimately show ?thesis using appended(2) by (simp add: governed_def)
  qed (use assms(1) in simp)
qed (use assms(1) in simp)

lemma linked_step_governed:
  assumes "linked_step cc sha disk disk'" "governed cc sha disk" "\<And>bs. length (sha bs) = 32"
  shows "governed cc sha disk'"
  using assms(1)
proof cases
  case ls_crud
  with assms(2,3) show ?thesis by (blast intro: crud_step_governed)
next
  case (ls_consents env records cs auth res)
  with assms(2) create_consent_records_governed [of env disk 0 records cs auth res disk'] show ?thesis by simp
next
  case (ls_erasures env records es auth res)
  with assms(2) create_erasure_records_governed [of env disk 0 records es auth res disk'] show ?thesis by simp
next
  case (ls_array env al payload res)
  have "archive_ok (en_crc env) disk" "disk_room env (Suc 0) disk" using assms(2) ls_array by (simp_all add: governed_def)
  from this ls_array(4) show ?thesis
    by (cases rule: write_array_chunk_cases)
      (use assms(2) ls_array(1) governed_other_tile in \<open>auto simp: TILE_ARRAY_def tile_codes\<close>)
next
  case (ls_append env hull ty n al bs ts ks res)
  have "archive_ok (en_crc env) disk" "disk_room env (Suc 0) disk" using assms(2) ls_append by (simp_all add: governed_def)
  from this ls_append(6,3) show ?thesis
    by (cases rule: append_tile_records_cases) (use assms(2) ls_append(1,4,5) governed_other_tile in auto)
qed

lemma linked_run_governed:
  assumes "(linked_step cc sha)\<^sup>*\<^sup>* disk disk'" "governed cc sha disk" "\<And>bs. length (sha bs) = 32"
  shows "governed cc sha disk'"
  using assms by (induction rule: rtranclp_induct) (auto intro: linked_step_governed)

lemma fresh_linked_governed:
  assumes "fh_header_crc32 (first_slot cc now uuid) \<noteq> 0" "\<And>bs. length (sha bs) = 32"
    "(linked_step cc sha)\<^sup>*\<^sup>* (df_bytes (tw_file (create_with_uuid cc now uuid))) disk"
  shows "governed cc sha disk"
  using linked_run_governed [OF assms(3) fresh_governed(1) [OF assms(1)] assms(2)] .

end
