(* ===== verification/Engine_Consent.thy ===== *)
theory Engine_Consent
  imports Engine_Calls
begin

text \<open>
  What consent means to the queries of an archive: the effect of a grant and of a withdrawal, the legal hold, who may write,
  and what the last hash of a subject's chain commits to.
\<close>

section \<open>Decisions and the log\<close>

lemma latest_consent_snoc:
  "latest_consent study purpose (rs @ [r]) =
    (if cn_purpose r = purpose_code purpose \<and> (case study of Some sid \<Rightarrow> cn_study_id r = sid | None \<Rightarrow> True) then Some r
     else latest_consent study purpose rs)"
  by (simp add: latest_consent_def)

lemma purpose_code_inject [simp]: "purpose_code p = purpose_code q \<longleftrightarrow> p = q"
  by (cases p; cases q) simp_all

lemma consent_active_of_log:
  "consent_log (disk_tiles cc disk) = Some cs \<Longrightarrow>
    is_subject_consent_active_for_purpose sub study purpose now (disk_sieve cc disk) =
      Some (case latest_consent study purpose (subject_log sub cs) of Some r \<Rightarrow> consent_is_active now r | None \<Rightarrow> False)"
  by (simp add: is_subject_consent_active_for_purpose_def query_consent_of_subject)

text \<open>A new record decides for its subject and purpose, and for nobody else.\<close>

lemma consent_decided:
  assumes "consent_log (disk_tiles cc disk) = Some cs" "consent_log (disk_tiles cc disk') = Some (cs @ [r])"
    "cn_purpose r = purpose_code purpose"
  shows "study' \<in> {None, Some (cn_study_id r)} \<Longrightarrow>
      is_subject_consent_active_for_purpose (cn_subject_id r) study' purpose now (disk_sieve cc disk') = Some (consent_is_active now r)"
    "sub' \<noteq> cn_subject_id r \<or> purpose' \<noteq> purpose \<or> study' \<notin> {None, Some (cn_study_id r)} \<Longrightarrow>
      is_subject_consent_active_for_purpose sub' study' purpose' now (disk_sieve cc disk') =
      is_subject_consent_active_for_purpose sub' study' purpose' now (disk_sieve cc disk)"
  using assms by (auto simp: consent_active_of_log latest_consent_snoc split: option.splits)

section \<open>Legal hold\<close>

lemma find_SomeD: "find P xs = Some x \<Longrightarrow> P x \<and> x \<in> set xs"
  by (induction xs) (auto split: if_splits)

definition consent_key :: "consent_record \<Rightarrow> u64 \<times> u32" where
  "consent_key r = (cn_study_id r, cn_purpose r)"

lemma latest_per_key:
  defines "m rs \<equiv> fold (\<lambda>r. bt_insert (consent_key r) r) rs []"
  shows "bt_wf (m rs) \<and> map_of (m rs) k = find (\<lambda>r. consent_key r = k) (rev rs)"
  by (induction rs rule: rev_induct) (simp_all add: m_def bt_insert_wf bt_insert_lookup)

lemma under_legal_hold_of_log:
  assumes "consent_log (disk_tiles cc disk) = Some cs"
  shows "is_subject_under_legal_hold sub (disk_sieve cc disk) =
    Some (\<exists>k r. find (\<lambda>r. consent_key r = k) (rev (subject_log sub cs)) = Some r \<and> consent_is_legal_hold r)"
proof -
  let ?m = "fold (\<lambda>r. bt_insert (cn_study_id r, cn_purpose r) r) (subject_log sub cs) []"
  have "list_ex (\<lambda>(k, r). consent_is_legal_hold r) ?m \<longleftrightarrow> (\<exists>k r. map_of ?m k = Some r \<and> consent_is_legal_hold r)"
    using latest_per_key [of "subject_log sub cs"] by (fastforce simp: list_ex_iff consent_key_def bt_entry [symmetric])
  then show ?thesis
    using assms latest_per_key [of "subject_log sub cs"]
    by (simp add: is_subject_under_legal_hold_def query_consent_of_subject consent_key_def)
qed

section \<open>An instance\<close>

text \<open>A checksum that counts bytes stands for CRC-32C, one that repeats the length for SHA-256.\<close>

definition demo_crc :: crc_crate where
  "demo_crc = \<lparr> cc_crc32c = (\<lambda>bs. of_nat (length bs) + 1), cc_append = (\<lambda>c bs. c + of_nat (length bs)) \<rparr>"

definition demo_env :: crud_env where
  "demo_env = \<lparr> en_crc = demo_crc, en_sha = (\<lambda>bs. replicate 32 (of_nat (length bs))), en_registry = [], en_ratio = (\<lambda>_ _. 0),
     en_f64 = \<lparr> fo_of_u64 = id, fo_less = (<) \<rparr>, en_cast_error = '''', en_now = 9 \<rparr>"

lemma demo_env_simps [simp]:
  "en_crc demo_env = demo_crc" "en_now demo_env = 9" "length (en_sha demo_env bs) = 32" "en_registry demo_env = []"
  "en_sha demo_env bs = replicate 32 (of_nat (length bs))"
  by (simp_all add: demo_env_def)

definition demo_writer :: tile_writer where
  "demo_writer = create_with_uuid demo_crc 7 (1, 2)"

definition demo_disk :: "byte list" where
  "demo_disk = df_bytes (tw_file demo_writer)"

lemma demo_gate: "gate_open demo_env ty"
  by (simp add: gate_open_def write_gate_def registry_get_def required_addon_for_tile_def)

lemma demo_crc_header: "length (fh_magic h) = 4 \<Longrightarrow> compute_header_crc32 demo_crc h = 61"
  by (simp add: compute_header_crc32_def demo_crc_def Let_def)

lemma demo_first_slot: "fh_header_crc32 (first_slot demo_crc 7 (1, 2)) \<noteq> 0"
  by (subst first_slot_crc) (simp add: demo_crc_header)

lemma demo_next_slot: "fh_header_crc32 (next_slot demo_crc now n m w) \<noteq> 0"
  by (subst next_slot_crc) (simp add: demo_crc_header)

lemmas demo_created = create_wf [OF demo_first_slot, folded demo_writer_def]

lemma demo_governed: "governed demo_crc sha demo_disk" "disk_tiles demo_crc demo_disk = []"
  using fresh_governed [OF demo_first_slot] by (simp_all add: demo_disk_def demo_writer_def)

lemma demo_room_6: "disk_room demo_env 6 demo_disk"
proof -
  obtain f where f: "open_append demo_crc demo_disk = Ok (demo_writer\<lparr>tw_file := f\<rparr>)"
    unfolding demo_disk_def by (rule reopen_writer [OF demo_created(1)])
  have "commit_possible demo_crc 9 (demo_writer\<lparr> tw_file := f, tw_generation := tw_generation demo_writer + of_nat j,
      tw_tile_count := tw_tile_count demo_writer + of_nat j \<rparr>)" if "j < 6" for j
  proof -
    have "j = 0 \<or> j = 1 \<or> j = 2 \<or> j = 3 \<or> j = 4 \<or> j = 5" using that by arith
    then show ?thesis by (elim disjE) (simp_all add: commit_possible_def demo_created demo_next_slot)
  qed
  then show ?thesis by (simp add: disk_room_def f list_all_iff)
qed

lemma demo_room: "disk_room demo_env 4 demo_disk"
  using demo_room_6 by (rule disk_room_mono) simp

section \<open>The effect of grants and withdrawals\<close>

text \<open>C4: after every run of the engine's writing calls on a fresh archive (creates of every type, marks, grants, withdrawals, erasures,
  deletions, updates, purges, addons, array chunks and generic appends, each while the archive has room for its commits) the archive
  opens, and the consent chain of every subject and the erasure chain verify.  The engine links the records of its own grants,
  withdrawals and erasures; records that a caller made and handed to \<^verbatim>\<open>create_consent_records\<close> or
  \<^verbatim>\<open>create_erasure_records\<close> have to continue the chains, which those two calls do not check, and
  \<^verbatim>\<open>append_tile_records\<close> must not write the two governed types.  Compaction is not modelled.  SHA-256 enters only through the
  length of its digests.\<close>

theorem governance_chains_verified:
  assumes "fh_header_crc32 (first_slot cc now uuid) \<noteq> 0" "\<And>bs. length (sha bs) = 32"
    "(linked_step cc sha)\<^sup>*\<^sup>* (df_bytes (tw_file (create_with_uuid cc now uuid))) disk"
  shows "\<exists>r. reader_open cc disk = Ok r \<and> (\<forall>sub. verify_consent_chain sha sub (sieve_new cc r) = Some (Ok True)) \<and>
    verify_erasure_chain sha (sieve_new cc r) = Some (Ok True)"
proof -
  have g: "governed cc sha disk" by (rule fresh_linked_governed [OF assms])
  obtain r where "reader_open cc disk = Ok r" "sieve_new cc r = disk_sieve cc disk" using g by (rule governed_reader)
  with g consent_chains_verify [of sha "disk_sieve cc disk"] erasure_chain_verify [of sha "disk_sieve cc disk"]
  show ?thesis by (auto simp: governed_def)
qed

text \<open>C7: what a successful withdrawal decides.  It comes from an authorised human.  Recorded at a time other than 0, it ends the
  consent of its subject for its purpose: every question, asked at any time, about its study or about any study is answered no.
  Recorded with time 0 it does the opposite: the same questions are answered yes.  No other decision changes.\<close>

theorem withdrawal_decides:
  assumes "governed (en_crc env) (en_sha env) disk" "disk_room env (Suc k) disk" "\<And>bs. length (en_sha env bs) = 32" "length sub = 16"
    "withdraw_consent env sub study purpose scope at granter auth disk = Some (Ok r, disk')"
  shows "auth \<and>
    (at \<noteq> 0 \<longrightarrow> (\<forall>now. \<forall>study' \<in> {None, Some study}.
      is_subject_consent_active_for_purpose sub study' purpose now (disk_sieve (en_crc env) disk') = Some False)) \<and>
    (at = 0 \<longrightarrow> (\<forall>now. \<forall>study' \<in> {None, Some study}.
      is_subject_consent_active_for_purpose sub study' purpose now (disk_sieve (en_crc env) disk') = Some True)) \<and>
    (\<forall>sub' study' purpose' now. sub' \<noteq> sub \<or> purpose' \<noteq> purpose \<or> study' \<notin> {None, Some study} \<longrightarrow>
      is_subject_consent_active_for_purpose sub' study' purpose' now (disk_sieve (en_crc env) disk') =
      is_subject_consent_active_for_purpose sub' study' purpose' now (disk_sieve (en_crc env) disk))"
proof -
  obtain cs where cs: "consent_log (disk_tiles (en_crc env) disk) = Some cs" using assms(1) by (rule governed_logs)
  from assms(1,2) cs assms(3-5) show ?thesis
  proof (cases rule: withdraw_consent_cases)
    case ok
    note d = consent_decided [OF cs ok(5), of purpose]
    have "consent_is_active now (withdrawal_record env sub study purpose scope at granter cs) \<longleftrightarrow> at = 0" for now
      by (simp add: withdrawal_record_def consent_is_active_def word_neq_0_conv [symmetric])
    then show ?thesis using d ok(2) by (simp add: withdrawal_record_def)
  qed simp
qed

text \<open>C18: a successful grant comes from an authorised human and makes the consent of its subject for its purpose active up to and
  including its expiry, or without end when the expiry is 0; a grant with a legal hold puts the subject under hold.\<close>

theorem grant_decides:
  assumes "governed (en_crc env) (en_sha env) disk" "disk_room env (Suc k) disk" "\<And>bs. length (en_sha env bs) = 32" "length sub = 16"
    "grant_consent env sub study purpose scope at expires hold granter auth disk = Some (Ok r, disk')"
  shows "auth \<and> (\<forall>now. \<forall>study' \<in> {None, Some study}.
      is_subject_consent_active_for_purpose sub study' purpose now (disk_sieve (en_crc env) disk') = Some (expires = 0 \<or> now \<le> expires)) \<and>
    (hold \<longrightarrow> is_subject_under_legal_hold sub (disk_sieve (en_crc env) disk') = Some True) \<and>
    (\<forall>sub' study' purpose' now. sub' \<noteq> sub \<or> purpose' \<noteq> purpose \<or> study' \<notin> {None, Some study} \<longrightarrow>
      is_subject_consent_active_for_purpose sub' study' purpose' now (disk_sieve (en_crc env) disk') =
      is_subject_consent_active_for_purpose sub' study' purpose' now (disk_sieve (en_crc env) disk))"
proof -
  obtain cs where cs: "consent_log (disk_tiles (en_crc env) disk) = Some cs" using assms(1) by (rule governed_logs)
  from assms(1,2) cs assms(3-5) show ?thesis
  proof (cases rule: grant_consent_cases)
    case ok
    let ?r = "granted_record env sub study purpose scope at expires hold granter cs"
    note d = consent_decided [OF cs ok(5), of purpose]
    have "consent_is_active now ?r \<longleftrightarrow> expires = 0 \<or> now \<le> expires" for now
      by (auto simp: granted_record_def consent_is_active_def word_neq_0_conv [symmetric])
    moreover have "hold \<longrightarrow> is_subject_under_legal_hold sub (disk_sieve (en_crc env) disk') = Some True"
      unfolding under_legal_hold_of_log [OF ok(5)]
      by (auto intro!: exI [of _ "consent_key ?r"] simp: consent_key_def granted_record_def consent_is_legal_hold_def)
    ultimately show ?thesis using d ok(2) by (simp add: granted_record_def)
  qed simp
qed

text \<open>C34: withdrawing a consent also lifts the legal hold that came with it: when every hold of the subject was recorded for this
  study and purpose, the subject is under no hold afterwards.\<close>

theorem withdrawal_lifts_hold:
  assumes "governed (en_crc env) (en_sha env) disk" "disk_room env (Suc k) disk" "\<And>bs. length (en_sha env bs) = 32" "length sub = 16"
    "withdraw_consent env sub study purpose scope at granter auth disk = Some (Ok r, disk')"
    "consent_log (disk_tiles (en_crc env) disk) = Some cs"
    "\<forall>c \<in> set (subject_log sub cs). consent_is_legal_hold c \<longrightarrow> consent_key c = (study, purpose_code purpose)"
  shows "is_subject_under_legal_hold sub (disk_sieve (en_crc env) disk') = Some False"
  using assms(1,2,6,3-5)
proof (cases rule: withdraw_consent_cases)
  case ok
  let ?w = "withdrawal_record env sub study purpose scope at granter cs"
  have w: "consent_key ?w = (study, purpose_code purpose)" "\<not> consent_is_legal_hold ?w" "cn_subject_id ?w = sub"
    by (simp_all add: consent_key_def withdrawal_record_def consent_is_legal_hold_def)
  have "\<not> consent_is_legal_hold c" if "find (\<lambda>r. consent_key r = k) (rev (subject_log sub (cs @ [?w]))) = Some c" for k c
    using that w assms(7) find_SomeD [of "\<lambda>r. consent_key r = k" "rev (subject_log sub cs)" c] by (auto split: if_splits)
  then show ?thesis unfolding under_legal_hold_of_log [OF ok(5)] by simp
qed simp

text \<open>C21: the last hash of a subject's chain commits to the whole history: two archives whose chains verify and end in the same hash
  hold the same consent records of the subject, unless SHA-256 collides on two of them or maps one to the zero hash of the start.\<close>

theorem consent_history_bound:
  assumes "verify_consent_chain sha sub s = Some (Ok True)" "verify_consent_chain sha sub s' = Some (Ok True)"
    "query_consent_records (Some sub) s = Some rs" "query_consent_records (Some sub) s' = Some rs'"
    "chain_end cn_consent_hash (replicate 32 0) rs = chain_end cn_consent_hash (replicate 32 0) rs'"
    "collision_free sha (map (\<lambda>r. take 104 (consent_bytes r)) rs) (map (\<lambda>r. take 104 (consent_bytes r)) rs')"
    "\<forall>r \<in> set rs \<union> set rs'. sha (take 104 (consent_bytes r)) \<noteq> replicate 32 0"
  shows "rs = rs'"
proof -
  have shaped: "list_all consent_shape q" if "query_consent_records (Some sub) t = Some q" for t q
    using that consent_codec.typed_records_shaped [of TILE_CONSENT "qs_tiles t"]
    by (auto simp: query_consent_of_subject subject_log_def list_all_iff)
  have "consent_chain_loop sha 0 no_hash rs = Ok True" "consent_chain_loop sha 0 no_hash rs' = Ok True"
    using assms(1-4) by (simp_all add: verify_consent_chain_def)
  then have l: "linked (consent_verify_hash sha) cn_prev_consent_hash cn_consent_hash no_hash rs"
    "linked (consent_verify_hash sha) cn_prev_consent_hash cn_consent_hash no_hash rs'"
    by (simp_all add: consent_chain.check_linked)
  have n: "no_hash \<notin> sha ` (\<lambda>r. take 104 (consent_bytes r)) ` (set rs \<union> set rs')"
  proof
    assume "no_hash \<in> sha ` (\<lambda>r. take 104 (consent_bytes r)) ` (set rs \<union> set rs')"
    then obtain r where r: "r \<in> set rs \<union> set rs'" "no_hash = sha (take 104 (consent_bytes r))" unfolding image_iff by blast
    from assms(7) r(1) have "sha (take 104 (consent_bytes r)) \<noteq> no_hash" by (rule bspec)
    from this r(2) [symmetric] show False by (rule notE)
  qed
  show ?thesis
    by (rule consent_chain.linked_binding [OF l assms(5) shaped [OF assms(3)] shaped [OF assms(4)] assms(6) n])
qed

text \<open>\<^verbatim>\<open>create_consent_record\<close> checks the hash of a record but not its link: a record with a valid hash that does not link to the
  end of its subject's chain is stored, and from then on the chain does not verify.\<close>

theorem unlinked_consent_breaks_chain:
  assumes "governed (en_crc env) (en_sha env) disk" "disk_room env (Suc k) disk" "gate_open env TILE_CONSENT"
    "consent_log (disk_tiles (en_crc env) disk) = Some cs" "consent_shape r" "consent_verify_hash (en_sha env) r"
    "cn_prev_consent_hash r \<noteq> chain_end cn_consent_hash (replicate 32 0) (subject_log (cn_subject_id r) cs)"
  shows "\<exists>id disk' msg. create_consent_record env r True disk = (Ok id, disk') \<and>
    verify_consent_chain (en_sha env) (cn_subject_id r) (disk_sieve (en_crc env) disk') = Some (Err msg)"
proof -
  have ok: "archive_ok (en_crc env) disk" using assms(1) by (simp add: governed_def)
  obtain id disk' where c: "create_consent_record env r True disk = (Ok id, disk')"
    by (rule create_consent_record_succeeds [OF ok assms(2,3,5,6)])
  from ok assms(2) c assms(5) have log: "consent_log (disk_tiles (en_crc env) disk') = Some (cs @ [r])"
    by (cases rule: create_consent_record_cases)
      (use assms(4,5) consent_codec.typed_records_own [of _ TILE_CONSENT "[r]"] in auto)
  have "consent_chain_loop (en_sha env) 0 no_hash (subject_log (cn_subject_id r) (cs @ [r])) \<noteq> Ok True"
    using assms(7) by (simp add: consent_chain.check_linked linked_append)
  then obtain msg where "consent_chain_loop (en_sha env) 0 no_hash (subject_log (cn_subject_id r) (cs @ [r])) = Err msg"
    using consent_chain.check_result by blast
  with c log show ?thesis by (simp add: verify_consent_chain_def query_consent_of_subject del: subject_log_simps)
qed

section \<open>Instances\<close>

text \<open>A fresh archive, and the archive after a first grant with a legal hold.\<close>

definition demo_subject :: "byte list" where
  "demo_subject = replicate 16 1"

lemma demo_log: "consent_log (disk_tiles (en_crc demo_env) demo_disk) = Some []"
  by (simp add: demo_governed)

lemma demo_start: "governed (en_crc demo_env) (en_sha demo_env) demo_disk" "disk_room demo_env (Suc 2) demo_disk"
  "length demo_subject = 16"
  using demo_governed(1) disk_room_mono [OF demo_room, of "Suc 2"] by (simp_all add: demo_subject_def)

definition demo_grant :: consent_record where
  "demo_grant = granted_record demo_env demo_subject 7 Research 1 100 200 True 5 []"

lemma demo_granted:
  obtains disk1 where "grant_consent demo_env demo_subject 7 Research 1 100 200 True 5 True demo_disk = Some (Ok demo_grant, disk1)"
    "governed demo_crc (en_sha demo_env) disk1" "disk_room demo_env (Suc 1) disk1" "consent_log (disk_tiles demo_crc disk1) = Some [demo_grant]"
proof -
  from grant_consent_succeeds [OF demo_start(1,2) demo_log demo_env_simps(3) demo_start(3) demo_gate]
  obtain disk1 where g: "grant_consent demo_env demo_subject 7 Research 1 100 200 True 5 True demo_disk = Some (Ok demo_grant, disk1)"
    unfolding demo_grant_def .
  from demo_start(1,2) demo_log demo_env_simps(3) demo_start(3) g show thesis
    by (cases rule: grant_consent_cases) (use that [OF g] in \<open>simp_all add: demo_grant_def numeral_2_eq_2\<close>)
qed

lemma demo_withdrawn:
  assumes "governed demo_crc (en_sha demo_env) disk1" "disk_room demo_env (Suc 1) disk1"
    "consent_log (disk_tiles demo_crc disk1) = Some [demo_grant]"
  obtains disk2 where "withdraw_consent demo_env demo_subject 7 Research 1 150 5 True disk1 =
    Some (Ok (withdrawal_record demo_env demo_subject 7 Research 1 150 5 [demo_grant]), disk2)"
  by (rule withdraw_consent_succeeds [OF assms [folded demo_env_simps(1)] demo_env_simps(3) demo_start(3) demo_gate])

theorem governance_chains_verified_witness:
  "\<exists>disk r. grant_consent demo_env demo_subject 7 Research 1 100 200 True 5 True demo_disk = Some (Ok demo_grant, disk) \<and>
    reader_open demo_crc disk = Ok r \<and> (\<forall>sub. verify_consent_chain (en_sha demo_env) sub (sieve_new demo_crc r) = Some (Ok True))"
proof -
  obtain disk1 where g: "grant_consent demo_env demo_subject 7 Research 1 100 200 True 5 True demo_disk = Some (Ok demo_grant, disk1)"
    by (rule demo_granted)
  have "linked_step demo_crc (en_sha demo_env) demo_disk disk1"
    by (rule ls_crud, rule st_grant [OF _ _ _ _ g]) (simp_all add: demo_subject_def disk_room_mono [OF demo_room])
  then have run: "(linked_step demo_crc (en_sha demo_env))\<^sup>*\<^sup>* (df_bytes (tw_file (create_with_uuid demo_crc 7 (1, 2)))) disk1"
    by (simp add: demo_disk_def demo_writer_def)
  from governance_chains_verified [OF demo_first_slot demo_env_simps(3) run] g show ?thesis by auto
qed

theorem withdrawal_decides_witness:
  "\<exists>disk1 disk2. grant_consent demo_env demo_subject 7 Research 1 100 200 True 5 True demo_disk = Some (Ok demo_grant, disk1) \<and>
    is_subject_consent_active_for_purpose demo_subject None Research 120 (disk_sieve demo_crc disk1) = Some True \<and>
    is_subject_consent_active_for_purpose demo_subject None Research 120 (disk_sieve demo_crc disk2) = Some False"
proof -
  obtain disk1 where g: "grant_consent demo_env demo_subject 7 Research 1 100 200 True 5 True demo_disk = Some (Ok demo_grant, disk1)"
    "governed demo_crc (en_sha demo_env) disk1" "disk_room demo_env (Suc 1) disk1" "consent_log (disk_tiles demo_crc disk1) = Some [demo_grant]"
    by (rule demo_granted)
  obtain disk2 where w: "withdraw_consent demo_env demo_subject 7 Research 1 150 5 True disk1 =
    Some (Ok (withdrawal_record demo_env demo_subject 7 Research 1 150 5 [demo_grant]), disk2)" by (rule demo_withdrawn [OF g(2-4)])
  have a: "is_subject_consent_active_for_purpose demo_subject None Research 120 (disk_sieve demo_crc disk1) = Some True"
    by (simp add: consent_active_of_log [OF g(4)] latest_consent_def demo_grant_def granted_record_def consent_is_active_def)
  from withdrawal_decides [OF g(2,3) [folded demo_env_simps(1)] demo_env_simps(3) demo_start(3) w]
  have "is_subject_consent_active_for_purpose demo_subject None Research 120 (disk_sieve demo_crc disk2) = Some False" by simp
  with a g(1) show ?thesis by blast
qed

theorem grant_decides_witness:
  "\<exists>disk1. grant_consent demo_env demo_subject 7 Research 1 100 200 True 5 True demo_disk = Some (Ok demo_grant, disk1) \<and>
    is_subject_consent_active_for_purpose demo_subject (Some 7) Research 200 (disk_sieve demo_crc disk1) = Some True \<and>
    is_subject_consent_active_for_purpose demo_subject (Some 7) Research 201 (disk_sieve demo_crc disk1) = Some False \<and>
    is_subject_under_legal_hold demo_subject (disk_sieve demo_crc disk1) = Some True"
proof -
  obtain disk1 where g: "grant_consent demo_env demo_subject 7 Research 1 100 200 True 5 True demo_disk = Some (Ok demo_grant, disk1)"
    by (rule demo_granted)
  from grant_decides [OF demo_start(1,2) demo_env_simps(3) demo_start(3) g] g show ?thesis by simp
qed

theorem withdrawal_lifts_hold_witness:
  "\<exists>disk1 disk2. is_subject_under_legal_hold demo_subject (disk_sieve demo_crc disk1) = Some True \<and>
    withdraw_consent demo_env demo_subject 7 Research 1 150 5 True disk1 =
      Some (Ok (withdrawal_record demo_env demo_subject 7 Research 1 150 5 [demo_grant]), disk2) \<and>
    is_subject_under_legal_hold demo_subject (disk_sieve demo_crc disk2) = Some False"
proof -
  obtain disk1 where g: "governed demo_crc (en_sha demo_env) disk1" "disk_room demo_env (Suc 1) disk1"
    "consent_log (disk_tiles demo_crc disk1) = Some [demo_grant]" by (rule demo_granted)
  obtain disk2 where w: "withdraw_consent demo_env demo_subject 7 Research 1 150 5 True disk1 =
    Some (Ok (withdrawal_record demo_env demo_subject 7 Research 1 150 5 [demo_grant]), disk2)" by (rule demo_withdrawn [OF g])
  have k: "\<forall>c \<in> set (subject_log demo_subject [demo_grant]). consent_is_legal_hold c \<longrightarrow> consent_key c = (7, purpose_code Research)"
    by (simp add: demo_grant_def granted_record_def consent_key_def)
  have h: "is_subject_under_legal_hold demo_subject (disk_sieve demo_crc disk1) = Some True"
    unfolding under_legal_hold_of_log [OF g(3)]
    by (auto intro!: exI [of _ "consent_key demo_grant"] simp: demo_grant_def granted_record_def consent_key_def consent_is_legal_hold_def)
  from withdrawal_lifts_hold [OF g(1,2) [folded demo_env_simps(1)] demo_env_simps(3) demo_start(3) w g(3) [folded demo_env_simps(1)] k] h w
  show ?thesis by auto
qed

theorem consent_history_bound_witness:
  "\<exists>disk1 rs. query_consent_records (Some demo_subject) (disk_sieve demo_crc disk1) = Some rs \<and> rs = [demo_grant] \<and>
    verify_consent_chain (en_sha demo_env) demo_subject (disk_sieve demo_crc disk1) = Some (Ok True)"
proof -
  obtain disk1 where g: "governed demo_crc (en_sha demo_env) disk1" "consent_log (disk_tiles demo_crc disk1) = Some [demo_grant]"
    by (rule demo_granted)
  define s where "s = (disk_sieve demo_crc disk1)\<lparr> qs_tiles := None # disk_tiles demo_crc disk1 \<rparr>"
  have v: "verify_consent_chain (en_sha demo_env) demo_subject (disk_sieve demo_crc disk1) = Some (Ok True)"
    using g(1) by (intro consent_chains_verify) (simp add: governed_def)
  have q: "query_consent_records (Some demo_subject) (disk_sieve demo_crc disk1) = Some [demo_grant]"
    "query_consent_records (Some demo_subject) s = Some [demo_grant]"
    using g(2) by (simp_all add: query_consent_of_subject demo_grant_def granted_record_def s_def)
  have v': "verify_consent_chain (en_sha demo_env) demo_subject s = Some (Ok True)"
    using v q by (simp add: verify_consent_chain_def)
  have n: "\<forall>r \<in> set [demo_grant] \<union> set [demo_grant]. en_sha demo_env (take 104 (consent_bytes r)) \<noteq> replicate 32 0"
    by (simp add: demo_grant_def granted_record_def demo_subject_def consent_new_def Let_def consent_bytes_def)
  have "[demo_grant] = [demo_grant]"
    by (rule consent_history_bound [OF v v' q refl _ n]) (auto simp: collision_free_def)
  with v q(1) show ?thesis by blast
qed

theorem unlinked_consent_breaks_chain_witness:
  "\<exists>id disk' msg. create_consent_record demo_env
      (consent_new (en_sha demo_env) demo_subject 7 Research 1 100 200 False 5 (replicate 32 3)) True demo_disk = (Ok id, disk') \<and>
    verify_consent_chain (en_sha demo_env) demo_subject (disk_sieve demo_crc disk') = Some (Err msg)"
proof -
  let ?r = "consent_new (en_sha demo_env) demo_subject 7 Research 1 100 200 False 5 (replicate 32 3)"
  have r: "consent_shape ?r" "consent_verify_hash (en_sha demo_env) ?r"
    using new_records_valid(1) [of "en_sha demo_env" demo_subject "replicate 32 3"] by (simp_all add: demo_subject_def del: demo_env_simps(5))
  have "cn_prev_consent_hash ?r \<noteq> chain_end cn_consent_hash (replicate 32 0) (subject_log (cn_subject_id ?r) [])"
    by simp
  from unlinked_consent_breaks_chain [OF demo_start(1,2) demo_gate demo_log r this] show ?thesis by simp
qed

end
