(* ===== verification/Engine_Erasure.thy ===== *)
theory Engine_Erasure
  imports Engine_Consent
begin

text \<open>
  Marks and erasures: the last mark decides, a legal hold stops an erasure and a purge, an erasure is recorded once, and agents
  write none of it.
\<close>

section \<open>Marks\<close>

definition marks_of :: "u32 \<Rightarrow> u64 \<Rightarrow> u32 \<Rightarrow> mark_record list \<Rightarrow> mark_record list" where
  "marks_of ty tid kind = filter (\<lambda>m. mk_target_tile_type m = ty \<and> mk_target_tile_id m = tid \<and> mk_mark_kind m = kind)"

definition marked_in :: "u32 \<Rightarrow> u64 \<Rightarrow> u32 \<Rightarrow> u32 \<Rightarrow> mark_record list \<Rightarrow> bool" where
  "marked_in ty tid ix kind ms =
    (let own = filter (\<lambda>m. mk_record_index m = ix) (marks_of ty tid kind ms);
         tile = filter mark_is_whole_tile (marks_of ty tid kind ms)
     in if own \<noteq> [] then mark_is_set (last own) else tile \<noteq> [] \<and> mark_is_set (last tile))"

lemma mark_states:
  assumes "ix \<noteq> MARK_TARGET_ALL_RECORDS"
  shows "fold (mark_state_step ty tid ix kind) ms (None, None) =
    (let own = filter (\<lambda>m. mk_record_index m = ix) (marks_of ty tid kind ms); tile = filter mark_is_whole_tile (marks_of ty tid kind ms)
     in (if own = [] then None else Some (mark_is_set (last own)), if tile = [] then None else Some (mark_is_set (last tile))))"
  using assms by (induction ms rule: rev_induct) (auto simp: mark_state_step_def marks_of_def mark_is_whole_tile_def Let_def)

lemma mark_state_all:
  "fst (fold (mark_state_step ty tid MARK_TARGET_ALL_RECORDS kind) ms (None, None)) =
    (let tile = filter mark_is_whole_tile (marks_of ty tid kind ms) in if tile = [] then None else Some (mark_is_set (last tile)))"
  "snd (fold (mark_state_step ty tid MARK_TARGET_ALL_RECORDS kind) ms (None, None)) = None"
  by (induction ms rule: rev_induct)
    (auto simp: mark_state_step_def marks_of_def mark_is_whole_tile_def Let_def split: prod.splits)

lemma is_marked_of_log:
  "mark_log (qs_tiles s) = Some ms \<Longrightarrow> is_marked ty tid ix kind s = Some (marked_in ty tid ix kind ms)"
proof (cases "ix = MARK_TARGET_ALL_RECORDS")
  case True
  moreover assume "mark_log (qs_tiles s) = Some ms"
  moreover have "(\<lambda>m. mk_record_index m = MARK_TARGET_ALL_RECORDS) = mark_is_whole_tile"
    by (simp add: fun_eq_iff mark_is_whole_tile_def)
  ultimately show ?thesis using mark_state_all [of ty tid kind ms]
    by (auto simp: is_marked_def marked_in_def Let_def split_def split: option.split if_splits)
next
  case False
  moreover assume "mark_log (qs_tiles s) = Some ms"
  ultimately show ?thesis using mark_states [of ix ty tid kind ms]
    by (auto simp: is_marked_def marked_in_def Let_def split: if_splits)
qed

lemma create_marks_log:
  assumes "archive_ok (en_crc env) disk" "disk_room env (Suc k) disk" "create_marks env [m] disk = (Ok tile, disk')"
    "length (mk_padding m) = 3" "mark_log (disk_tiles (en_crc env) disk) = Some ms"
  shows "archive_ok (en_crc env) disk' \<and> mark_log (disk_tiles (en_crc env) disk') = Some (ms @ [m])"
proof -
  have "append_records env TILE_MARKS 1 (pod_bytes mark_bytes [m]) [mk_timestamp m] disk = (Ok tile, disk')"
    using assms(3) by (simp add: create_marks_def)
  from assms(1,2) this show ?thesis
    by (cases rule: append_records_cases)
      (use assms(4,5) mark_codec.typed_records_own [of _ TILE_MARKS "[m]"] in \<open>auto simp: describes_def\<close>)
qed

lemma mark_appended:
  assumes "archive_ok (en_crc env) disk" "disk_room env (Suc k) disk" "mark_log (disk_tiles (en_crc env) disk) = Some ms"
    "mark_record_op env ty tid ix kind b ts actor disk = (Ok tile, disk')"
  shows "\<exists>h m. archive_ok (en_crc env) disk' \<and> disk_tiles (en_crc env) disk' = disk_tiles (en_crc env) disk @ [Some (h, pod_bytes mark_bytes [m])] \<and>
    ht_tile_type h = TILE_MARKS \<and> ht_tile_id h = of_nat (length (disk_tiles (en_crc env) disk)) + 1 \<and>
    mark_log (disk_tiles (en_crc env) disk') = Some (ms @ [m]) \<and> mk_target_tile_type m = ty \<and> mk_target_tile_id m = tid \<and>
    mk_record_index m = ix \<and> mk_mark_kind m = kind \<and> mark_is_set m = b"
proof -
  define gen where "gen = (case reader_open (en_crc env) disk of Ok r \<Rightarrow> fh_generation (mr_active_header r) | Err _ \<Rightarrow> 1)"
  define m where "m = mark_new ty tid ix gen kind (if b then MARK_SET else MARK_CLEAR) ts actor"
  have m: "mk_target_tile_type m = ty" "mk_target_tile_id m = tid" "mk_record_index m = ix" "mk_mark_kind m = kind" "mark_is_set m = b"
    "length (mk_padding m) = 3" by (simp_all add: m_def mark_new_def mark_is_set_def MARK_SET_def MARK_CLEAR_def)
  have c: "append_records env TILE_MARKS 1 (pod_bytes mark_bytes [m]) [mk_timestamp m] disk = (Ok tile, disk')"
    using assms(4) by (simp add: mark_record_op_def create_marks_def gen_def [symmetric] m_def Let_def)
  then have "create_marks env [m] disk = (Ok tile, disk')" by (simp add: create_marks_def)
  from create_marks_log [OF assms(1,2) this m(6) assms(3)]
  have l: "mark_log (disk_tiles (en_crc env) disk') = Some (ms @ [m])" by simp
  from assms(1,2) c show ?thesis
    by (cases rule: append_records_cases) (use m l in \<open>auto simp: describes_def\<close>)
qed

section \<open>Erasure checks on a longer archive\<close>

lemma or_else_False [simp]: "or_else (Some False) b = b" "or_else a (Some False) = a"
  by (auto simp: or_else_def split: option.split bool.split)

lemma or_else_assoc: "or_else (or_else a b) c = or_else a (or_else b c)"
  by (auto simp: or_else_def split: option.split bool.split)

lemma or_else_Some_False: "or_else a b = Some False \<longleftrightarrow> a = Some False \<and> b = Some False"
  by (auto simp: or_else_def split: option.split bool.split)

lemma target_subject_held_append:
  "target_subject_held held tid ix (ts @ us) = or_else (target_subject_held held tid ix ts) (target_subject_held held tid ix us)"
  by (induction ts) (auto simp: or_else_assoc or_else_def [of None] split: option.split)

lemma first_target_held:
  "first_target tid ix ts = Some (Some tgt) \<Longrightarrow> target_subject_held held tid ix ts = Some False \<Longrightarrow>
    held (actor_id_to_subject_id (ucast (tl_sensor_id tgt))) = Some False"
  by (induction ts) (auto simp: or_else_Some_False split: option.splits if_splits prod.splits)

lemma target_subject_held_member:
  assumes "Some (g, payload) \<in> set ts" "ht_tile_type g = TILE_TELEMETRY" "ht_tile_id g = tid"
    "cast_slice 32 telemetry_of_bytes payload = Some recs" "unat ix < length recs"
    "held (actor_id_to_subject_id (ucast (tl_sensor_id (recs ! unat ix)))) = Some True"
  shows "target_subject_held held tid ix ts \<noteq> Some False"
  using assms by (induction ts) (auto simp: or_else_Some_False split: option.splits if_splits prod.splits)

lemma record_erasure_checked:
  assumes "governed (en_crc env) sha disk"
  shows "record_erasure env ty tid ix h reason authority req ex True disk =
    (case erasure_checks ty tid ix h (disk_sieve (en_crc env) disk) of
         None \<Rightarrow> None
       | Some (Blocked msg) \<Rightarrow> Some (Err (IoPermissionDenied msg), disk)
       | Some (AlreadyErased r) \<Rightarrow> Some (Ok r, disk)
       | Some (LinkTo prev_hash) \<Rightarrow>
           let r = erasure_new (en_sha env) h ty tid ix reason authority req ex prev_hash
           in (case create_erasure_record env r True disk of
                 (Err e, disk) \<Rightarrow> Some (Err e, disk)
               | (Ok _, disk) \<Rightarrow>
                   map_option (Pair (Ok r)) (if ty = TILE_TELEMETRY then append_tombstone env tid ix disk else Some disk)))"
proof -
  obtain r where "reader_open (en_crc env) disk = Ok r" "sieve_new (en_crc env) r = disk_sieve (en_crc env) disk"
    using assms by (rule governed_reader)
  then show ?thesis by (simp add: record_erasure_def)
qed

lemma find_snoc: "find P (xs @ [x]) = (case find P xs of None \<Rightarrow> if P x then Some x else None | Some y \<Rightarrow> Some y)"
  by (induction xs) auto

lemma erasure_checks_repeat:
  assumes "erasure_checks ty tid ix h s = Some (LinkTo prev)" "er_target_tile_type r = ty" "er_target_tile_id r = tid"
    "er_record_index r = ix" "er_erased_record_hash r = h"
    "erasure_log (qs_tiles s) = Some es" "erasure_log (qs_tiles s') = Some (es @ [r])"
    "mark_log (qs_tiles s') = mark_log (qs_tiles s)"
    "ty = TILE_TELEMETRY \<Longrightarrow> target_subject_held (\<lambda>sub. is_subject_under_legal_hold sub s) tid ix (qs_tiles s) = Some False \<Longrightarrow>
      target_subject_held (\<lambda>sub. is_subject_under_legal_hold sub s') tid ix (qs_tiles s') = Some False"
  shows "erasure_checks ty tid ix h s' = Some (AlreadyErased r)"
proof -
  have m: "is_marked ty tid ix MARK_LEGAL_HOLD s' = is_marked ty tid ix MARK_LEGAL_HOLD s"
    by (simp add: is_marked_def assms(8))
  show ?thesis using assms(1-7,9)
    by (auto simp: erasure_checks_def m query_erasure_all find_snoc split: option.splits bool.splits if_splits)
qed

text \<open>What the scheduled purge adds: nothing, or a tombstone of the first target.\<close>

definition purge_tail :: "u32 \<Rightarrow> u64 \<Rightarrow> u32 \<Rightarrow> tile option list \<Rightarrow> tile option list \<Rightarrow> bool" where
  "purge_tail ty tid ix ts us \<longleftrightarrow>
    us = [] \<or> ty = TILE_TELEMETRY \<and> (\<exists>tgt g. first_target tid ix ts = Some (Some tgt) \<and> ht_tile_type g = TILE_TELEMETRY \<and>
      us = [Some (g, pod_bytes telemetry_bytes [mark_tombstone tgt])])"

lemma purge_tail_of:
  assumes "governed (en_crc env) sha disk1" "disk_room env (Suc k) disk1"
    "(if ty = TILE_TELEMETRY then append_tombstone env tid ix disk1 else Some disk1) = Some disk'"
  obtains us where "disk_tiles (en_crc env) disk' = disk_tiles (en_crc env) disk1 @ us" "governed (en_crc env) sha disk'"
    "purge_tail ty tid ix (disk_tiles (en_crc env) disk1) us"
proof (cases "ty = TILE_TELEMETRY")
  case True
  then have "append_tombstone env tid ix disk1 = Some disk'" using assms(3) by simp
  from assms(1,2) this show thesis
    by (cases rule: append_tombstone_cases) (use that True assms(1) in \<open>auto simp: purge_tail_def\<close>)
next
  case False
  then show thesis using assms(1,3) that [of "[]"] by (simp add: purge_tail_def)
qed

lemma erased_archive:
  assumes "governed (en_crc env) (en_sha env) disk" "disk_room env (Suc (Suc k)) disk" "\<And>bs. length (en_sha env bs) = 32" "length h = 32"
    "record_erasure env ty tid ix h reason authority req ex auth disk = Some (Ok r, disk')"
  shows "governed (en_crc env) (en_sha env) disk' \<and> erasure_checks ty tid ix h (disk_sieve (en_crc env) disk') = Some (AlreadyErased r)"
proof -
  let ?ts = "disk_tiles (en_crc env)"
  let ?held = "\<lambda>d sub. is_subject_under_legal_hold sub (disk_sieve (en_crc env) d)"
  obtain es where es: "erasure_log (?ts disk) = Some es" using assms(1) by (rule governed_logs)
  from assms(1,2) es assms(3-5) show ?thesis
  proof (cases rule: record_erasure_cases)
    case (already r')
    then show ?thesis using assms(1) by simp
  next
    case (recorded disk1 g)
    have r: "r = erasure_new (en_sha env) h ty tid ix reason authority req ex (chain_end er_erasure_hash no_hash es)"
      using recorded(2) by simp
    then have shape: "erasure_shape r"
      using new_records_valid(3) [OF assms(3,4)] erasure_end_length [OF es] by simp
    have one: "mark_log (?ts disk1) = mark_log (?ts disk)" "consent_log (?ts disk1) = consent_log (?ts disk)"
      "erasure_log (?ts disk1) = Some (es @ [r])"
      using recorded(4,5) erasure_codec.typed_records_own [OF recorded(5), of "[r]" "?ts disk"] es shape r
      by (simp_all add: typed_records_other tile_codes)
    obtain us where us: "?ts disk' = ?ts disk1 @ us" "governed (en_crc env) (en_sha env) disk'" "purge_tail ty tid ix (?ts disk1) us"
      by (rule purge_tail_of [OF recorded(6,7,8)])
    have two: "mark_log (?ts disk') = mark_log (?ts disk)" "consent_log (?ts disk') = consent_log (?ts disk)"
      "erasure_log (?ts disk') = Some (es @ [r])"
      using us(1,3) one by (auto simp: purge_tail_def typed_records_other tile_codes)
    have held: "?held disk' = ?held disk" by (simp add: fun_eq_iff is_subject_under_legal_hold_def query_consent_of_subject two(2))
    have "target_subject_held (?held disk') tid ix (?ts disk') = Some False"
      if "target_subject_held (?held disk) tid ix (?ts disk) = Some False"
    proof -
      have 1: "target_subject_held (?held disk) tid ix (?ts disk1) = Some False"
        using that recorded(4,5) by (simp add: target_subject_held_append tile_codes)
      show ?thesis using us(3) 1 first_target_held [OF _ 1]
        by (auto simp: purge_tail_def held us(1) target_subject_held_append cast_slice_def telemetry_codec.length_pod_bytes [of "[_]", simplified]
          telemetry_codec.pod_slice_bytes [of "[_]", simplified] mark_tombstone_def or_else_Some_False)
    qed
    then have "erasure_checks ty tid ix h (disk_sieve (en_crc env) disk') = Some (AlreadyErased r)"
      using two es by (intro erasure_checks_repeat [OF recorded(3)]) (simp_all add: r)
    with us(2) show ?thesis by blast
  qed simp
qed

section \<open>What holds of every archive\<close>

text \<open>C19: whether a record is marked is decided by the last mark of its kind that names the record; only when there is none, by the last
  mark of that kind on its whole tile; without either it is not marked.  A mark that is written decides at once for what it names and
  changes nothing for any other kind or target.\<close>

theorem last_mark_decides:
  assumes "archive_ok (en_crc env) disk" "disk_room env (Suc k) disk" "mark_log (disk_tiles (en_crc env) disk) = Some ms"
    "mark_record_op env ty tid ix kind b ts actor disk = (Ok tile, disk')"
  shows "is_marked ty' tid' ix' kind' (disk_sieve (en_crc env) disk) = Some (marked_in ty' tid' ix' kind' ms) \<and>
    is_marked ty tid ix kind (disk_sieve (en_crc env) disk') = Some b \<and>
    ((ty', tid', kind') \<noteq> (ty, tid, kind) \<or> ix \<notin> {ix', MARK_TARGET_ALL_RECORDS} \<longrightarrow>
      is_marked ty' tid' ix' kind' (disk_sieve (en_crc env) disk') = is_marked ty' tid' ix' kind' (disk_sieve (en_crc env) disk))"
proof -
  obtain m where l: "mark_log (disk_tiles (en_crc env) disk') = Some (ms @ [m])" and
    m: "mk_target_tile_type m = ty" "mk_target_tile_id m = tid" "mk_record_index m = ix" "mk_mark_kind m = kind" "mark_is_set m = b"
    using mark_appended [OF assms] by blast
  have new: "is_marked ty' tid' ix' kind' (disk_sieve (en_crc env) disk') = Some (marked_in ty' tid' ix' kind' (ms @ [m]))" for ty' tid' ix' kind'
    using l by (intro is_marked_of_log) simp
  have old: "is_marked ty' tid' ix' kind' (disk_sieve (en_crc env) disk) = Some (marked_in ty' tid' ix' kind' ms)" for ty' tid' ix' kind'
    using assms(3) by (intro is_marked_of_log) simp
  show ?thesis unfolding new old
    by (auto simp: marked_in_def marks_of_def m mark_is_whole_tile_def Let_def)
qed

text \<open>C20: an erasure is recorded once: repeating a successful request for the same target and hash, with whatever reason, authority and
  times, returns the first receipt and leaves the archive as it is.\<close>

theorem erasure_recorded_once:
  assumes "governed (en_crc env) (en_sha env) disk" "disk_room env (Suc (Suc k)) disk" "\<And>bs. length (en_sha env bs) = 32" "length h = 32"
    "record_erasure env ty tid ix h reason authority req ex auth disk = Some (Ok r, disk')"
  shows "record_erasure env ty tid ix h reason' authority' req' ex' True disk' = Some (Ok r, disk')"
proof -
  have e: "governed (en_crc env) (en_sha env) disk'"
    "erasure_checks ty tid ix h (disk_sieve (en_crc env) disk') = Some (AlreadyErased r)"
    using erased_archive [OF assms] by simp_all
  show ?thesis by (simp add: record_erasure_checked [OF e(1)] e(2))
qed

text \<open>C6: an erasure request for a record that carries a legal-hold mark, or for a telemetry record whose subject is under legal hold, is
  refused and changes nothing.\<close>

theorem erasure_respects_hold:
  assumes "governed (en_crc env) sha disk" "record_erasure env ty tid ix h reason authority req ex auth disk = Some (res, disk')"
    "is_marked ty tid ix MARK_LEGAL_HOLD (disk_sieve (en_crc env) disk) = Some True \<or>
      ty = TILE_TELEMETRY \<and> (\<exists>g payload recs. Some (g, payload) \<in> set (disk_tiles (en_crc env) disk) \<and> ht_tile_type g = ty \<and>
        ht_tile_id g = tid \<and> cast_slice 32 telemetry_of_bytes payload = Some recs \<and> unat ix < length recs \<and>
        is_subject_under_legal_hold (actor_id_to_subject_id (ucast (tl_sensor_id (recs ! unat ix)))) (disk_sieve (en_crc env) disk) = Some True)"
  shows "(\<exists>msg. res = Err (IoPermissionDenied msg)) \<and> disk' = disk"
proof (cases auth)
  case False
  then show ?thesis using assms(2) by (auto simp: record_erasure_def)
next
  case True
  let ?s = "disk_sieve (en_crc env) disk"
  have "is_marked ty tid ix MARK_LEGAL_HOLD ?s = Some True \<or> ty = TILE_TELEMETRY \<and>
      target_subject_held (\<lambda>sub. is_subject_under_legal_hold sub ?s) tid ix (disk_tiles (en_crc env) disk) \<noteq> Some False"
    using assms(3) by (auto dest!: target_subject_held_member [where held = "\<lambda>sub. is_subject_under_legal_hold sub ?s"])
  then have "erasure_checks ty tid ix h ?s = None \<or> (\<exists>msg. erasure_checks ty tid ix h ?s = Some (Blocked msg))"
    by (auto simp: erasure_checks_def split: option.splits bool.splits)
  then show ?thesis using assms(2) True by (auto simp: record_erasure_checked [OF assms(1)])
qed

text \<open>who is not an authorised human writes no consent and no erasure: every such call is refused with a permission error and
  leaves the archive as it is.\<close>

theorem agents_write_no_policy:
  "create_consent_records env (c # cs) False disk =
     (Err (IoPermissionDenied ''Consent records may only be authored by authorized human/admin actors, never AI agents''), disk) \<and>
   create_erasure_records env (r # rs) False disk =
     (Err (IoPermissionDenied ''Erasure records may only be authored by authorized human/admin actors, never AI agents''), disk) \<and>
   grant_consent env sub study purpose scope at e hold granter False disk \<in> {None, Some
     (Err (IoPermissionDenied ''Consent records may only be authored by authorized human/admin actors, never AI agents''), disk)} \<and>
   withdraw_consent env sub study purpose scope at granter False disk \<in> {None, Some
     (Err (IoPermissionDenied ''Consent records may only be authored by authorized human/admin actors, never AI agents''), disk)} \<and>
   record_erasure env ty tid ix h reason authority req ex False disk = Some
     (Err (IoPermissionDenied ''Erasure records may only be authored by authorized human/admin actors, never AI agents''), disk)"
  by (cases "prev_consent_hash env sub disk")
    (simp_all add: create_consent_records_def create_erasure_records_def grant_consent_def withdraw_consent_def record_erasure_def
      create_consent_record_def and_return_def Let_def)

section \<open>Instances\<close>

lemma demo_marked:
  obtains tile disk1 where "mark_record_op demo_env 0 1 0 MARK_LEGAL_HOLD True 50 5 demo_disk = (Ok tile, disk1)"
    "is_marked 0 1 0 MARK_LEGAL_HOLD (disk_sieve demo_crc disk1) = Some True"
proof -
  define gen where "gen = (case reader_open demo_crc demo_disk of Ok r \<Rightarrow> fh_generation (mr_active_header r) | Err _ \<Rightarrow> 1)"
  define m where "m = mark_new 0 1 0 gen MARK_LEGAL_HOLD MARK_SET 50 5"
  have ok: "archive_ok (en_crc demo_env) demo_disk" using demo_start(1) by (simp add: governed_def)
  have l: "length (mk_padding m) = 3" by (simp add: m_def mark_new_def)
  have "length (pod_bytes mark_bytes [m]) \<le> HYPER_TILE_PAYLOAD_SIZE"
    using mark_codec.length_pod_bytes [of "[m]"] l by (simp add: tile_sizes)
  from append_records_succeeds [OF ok demo_start(2) demo_gate this, of TILE_MARKS 1 "[mk_timestamp m]"]
  obtain tile disk1 where c: "create_marks demo_env [m] demo_disk = (Ok tile, disk1)" by (auto simp: create_marks_def)
  from create_marks_log [OF ok demo_start(2) c l] have "mark_log (disk_tiles demo_crc disk1) = Some [m]"
    by (simp add: demo_governed)
  then have "is_marked 0 1 0 MARK_LEGAL_HOLD (disk_sieve demo_crc disk1) = Some (marked_in 0 1 0 MARK_LEGAL_HOLD [m])"
    by (intro is_marked_of_log) simp
  moreover have "marked_in 0 1 0 MARK_LEGAL_HOLD [m]"
    by (simp add: marked_in_def marks_of_def m_def mark_new_def mark_is_set_def)
  ultimately show thesis using that [of tile disk1] c by (simp add: mark_record_op_def gen_def [symmetric] m_def)
qed

lemma demo_erased:
  obtains r disk1 where "record_erasure demo_env 0 1 0 (replicate 32 7) ErWithdrawal 5 60 61 True demo_disk = Some (Ok r, disk1)"
proof -
  have c: "erasure_checks 0 1 0 (replicate 32 7) (disk_sieve demo_crc demo_disk) = Some (LinkTo no_hash)"
    by (simp add: erasure_checks_def is_marked_def query_erasure_all demo_governed)
  define r where "r = erasure_new (en_sha demo_env) (replicate 32 7) 0 1 0 ErWithdrawal 5 60 61 no_hash"
  have ok: "archive_ok (en_crc demo_env) demo_disk" using demo_start(1) by (simp add: governed_def)
  have r: "erasure_shape r" "erasure_verify_hash (en_sha demo_env) r"
    using new_records_valid(3) [of "en_sha demo_env" "replicate 32 7" no_hash] by (simp_all add: r_def del: demo_env_simps(5))
  have "length (pod_bytes erasure_bytes [r]) \<le> HYPER_TILE_PAYLOAD_SIZE"
    using erasure_codec.length_pod_bytes [of "[r]"] r(1) by (simp add: tile_sizes)
  from append_records_succeeds [OF ok demo_start(2) demo_gate this, of TILE_ERASURE 1 "[er_executed_at r]"]
  obtain tile disk1 where e: "create_erasure_record demo_env r True demo_disk = (Ok tile, disk1)"
    using r(2) by (auto simp: create_erasure_record_def create_erasure_records_def)
  from ok demo_start(2) e r(1) have g: "archive_ok demo_crc disk1" "\<exists>g. disk_tiles demo_crc disk1 = [Some (g, pod_bytes erasure_bytes [r])] \<and>
      ht_tile_type g = TILE_ERASURE"
    by (cases rule: create_erasure_record_cases; simp add: demo_governed)+
  obtain rd where "reader_open demo_crc disk1 = Ok rd" "reader_tiles demo_crc rd = disk_tiles demo_crc disk1"
    using g(1) by (rule archive_ok_reader)
  then have "append_tombstone demo_env 1 0 disk1 = Some disk1" using g(2) by (auto simp: append_tombstone_def tile_codes)
  with e c show thesis
    by (intro that [of r disk1]) (simp add: record_erasure_checked [OF demo_start(1)] r_def TILE_TELEMETRY_def Let_def)
qed

theorem last_mark_decides_witness:
  "\<exists>tile disk1. mark_record_op demo_env 0 1 0 MARK_LEGAL_HOLD True 50 5 demo_disk = (Ok tile, disk1) \<and>
    is_marked 0 1 0 MARK_LEGAL_HOLD (disk_sieve demo_crc disk1) = Some True \<and>
    is_marked 0 1 1 MARK_LEGAL_HOLD (disk_sieve demo_crc disk1) = Some False \<and>
    is_marked 0 1 0 MARK_QUARANTINE (disk_sieve demo_crc disk1) = Some False"
proof -
  obtain tile disk1 where m: "mark_record_op demo_env 0 1 0 MARK_LEGAL_HOLD True 50 5 demo_disk = (Ok tile, disk1)" by (rule demo_marked)
  have ok: "archive_ok (en_crc demo_env) demo_disk" using demo_start(1) by (simp add: governed_def)
  have l: "mark_log (disk_tiles (en_crc demo_env) demo_disk) = Some []" by (simp add: demo_governed)
  from last_mark_decides [OF ok demo_start(2) l m, of 0 1 1 MARK_LEGAL_HOLD] last_mark_decides [OF ok demo_start(2) l m, of 0 1 0 MARK_QUARANTINE] m
  show ?thesis by (simp add: marked_in_def marks_of_def MARK_TARGET_ALL_RECORDS_def MARK_LEGAL_HOLD_def MARK_QUARANTINE_def)
qed

theorem erasure_recorded_once_witness:
  "\<exists>r disk1. record_erasure demo_env 0 1 0 (replicate 32 7) ErWithdrawal 5 60 61 True demo_disk = Some (Ok r, disk1) \<and>
    record_erasure demo_env 0 1 0 (replicate 32 7) ErLegalRequest 6 70 71 True disk1 = Some (Ok r, disk1)"
proof -
  obtain r disk1 where e: "record_erasure demo_env 0 1 0 (replicate 32 7) ErWithdrawal 5 60 61 True demo_disk = Some (Ok r, disk1)"
    by (rule demo_erased)
  have room: "disk_room demo_env (Suc (Suc 1)) demo_disk" using demo_start(2) by (simp add: numeral_2_eq_2)
  from erasure_recorded_once [OF demo_start(1) room demo_env_simps(3) _ e] e show ?thesis by auto
qed

theorem erasure_respects_hold_witness:
  "\<exists>tile disk1 msg. mark_record_op demo_env 0 1 0 MARK_LEGAL_HOLD True 50 5 demo_disk = (Ok tile, disk1) \<and>
    record_erasure demo_env 0 1 0 (replicate 32 7) ErWithdrawal 5 60 61 True disk1 = Some (Err (IoPermissionDenied msg), disk1)"
proof -
  obtain tile disk1 where m: "mark_record_op demo_env 0 1 0 MARK_LEGAL_HOLD True 50 5 demo_disk = (Ok tile, disk1)"
    "is_marked 0 1 0 MARK_LEGAL_HOLD (disk_sieve demo_crc disk1) = Some True" by (rule demo_marked)
  have "create_marks demo_env [mark_new 0 1 0 (case reader_open demo_crc demo_disk of Ok r \<Rightarrow> fh_generation (mr_active_header r) | Err _ \<Rightarrow> 1)
      MARK_LEGAL_HOLD MARK_SET 50 5] demo_disk = (Ok tile, disk1)" using m(1) by (simp add: mark_record_op_def)
  then have g: "governed (en_crc demo_env) (en_sha demo_env) disk1"
    by (rule create_marks_governed [OF demo_start(1,2)])
  have "erasure_checks 0 1 0 (replicate 32 7) (disk_sieve demo_crc disk1) =
      Some (Blocked ''Erasure blocked: target record is under active legal hold'')"
    using m(2) by (simp add: erasure_checks_def)
  then obtain res disk2 where e: "record_erasure demo_env 0 1 0 (replicate 32 7) ErWithdrawal 5 60 61 True disk1 = Some (res, disk2)"
    by (simp add: record_erasure_checked [OF g])
  from erasure_respects_hold [OF g e] m show ?thesis using e by auto
qed

end
