(* ===== verification/Engine_Telemetry.thy ===== *)
theory Engine_Telemetry
  imports Engine_Erasure
begin

text \<open>
  Telemetry queries over the life of an archive: a query returns the latest version of every key, created records are read
  back, a deleted one is gone, an updated one is replaced, and hiding a tombstone brings the old record back.
\<close>

section \<open>The latest version of every key\<close>

lemma latest_versions_simps [simp]:
  "latest_versions [] = []"
  "latest_versions (xs @ [(r, c)]) =
    (if telemetry_tombstone r then bt_remove (telemetry_key r) (latest_versions xs) else bt_insert (telemetry_key r) (r, c) (latest_versions xs))"
  by (simp_all add: latest_versions_def)

lemma latest_versions_lookup:
  "bt_wf (latest_versions xs) \<and> map_of (latest_versions xs) k =
    (case find (\<lambda>(r, c). telemetry_key r = k) (rev xs) of
       Some (r, c) \<Rightarrow> if telemetry_tombstone r then None else Some (r, c)
     | None \<Rightarrow> None)"
proof (induction xs rule: rev_induct)
  case (snoc x xs)
  then show ?case by (cases x) (auto simp: bt_insert_wf bt_remove_wf bt_insert_lookup bt_remove_lookup)
qed simp

lemmas latest_versions_wf = latest_versions_lookup [THEN conjunct1]

lemma latest_versions_entry:
  "(k, r, c) \<in> set (latest_versions xs) \<Longrightarrow> k = telemetry_key r \<and> \<not> telemetry_tombstone r \<and> (r, c) \<in> set xs"
  using bt_entry [OF latest_versions_wf, of k "(r, c)" xs] latest_versions_lookup [of xs k]
    find_SomeD [of "\<lambda>(r, c). telemetry_key r = k" "rev xs"]
  by (auto split: option.splits if_splits)

lemma latest_versions_keys: "map fst (latest_versions xs) = map (telemetry_key \<circ> fst \<circ> snd) (latest_versions xs)"
  by (rule map_cong [OF refl]) (use latest_versions_entry in force)

text \<open>The records of an answer.\<close>

definition answer :: "(telemetry_record \<times> coordinate) list \<Rightarrow> telemetry_record list" where
  "answer xs = map (fst \<circ> snd) (latest_versions xs)"

lemma answer_keys: "map telemetry_key (answer xs) = map fst (latest_versions xs)"
  by (simp add: answer_def latest_versions_keys)

lemma answer_filter:
  "map (fst \<circ> snd) (filter (\<lambda>e. P (fst e)) (latest_versions xs)) = filter (\<lambda>q. P (telemetry_key q)) (answer xs)"
proof -
  have "filter (\<lambda>e. P (fst e)) (latest_versions xs) = filter (\<lambda>e. P (telemetry_key (fst (snd e)))) (latest_versions xs)"
    by (rule filter_cong [OF refl]) (use latest_versions_entry in force)
  then show ?thesis by (simp add: answer_def filter_map comp_def)
qed

lemma answer_remove:
  "telemetry_tombstone r \<Longrightarrow> answer (xs @ [(r, c)]) = filter (\<lambda>q. telemetry_key q \<noteq> telemetry_key r) (answer xs)"
  using answer_filter [of "\<lambda>k. k \<noteq> telemetry_key r" xs] by (simp add: answer_def bt_remove_filter latest_versions_wf)

lemma answer_insert:
  "\<not> telemetry_tombstone r \<Longrightarrow> answer (xs @ [(r, c)]) =
    filter (\<lambda>q. telemetry_key q < telemetry_key r) (answer xs) @ r # filter (\<lambda>q. telemetry_key r < telemetry_key q) (answer xs)"
  using answer_filter [of "\<lambda>k. k < telemetry_key r" xs] answer_filter [of "\<lambda>k. telemetry_key r < k" xs]
  by (simp add: answer_def bt_insert_split latest_versions_wf)

lemma answer_member: "q \<in> set (answer xs) \<Longrightarrow> \<not> telemetry_tombstone q \<and> (\<exists>c. (q, c) \<in> set xs)"
  by (auto simp: answer_def dest!: latest_versions_entry)

section \<open>Candidates of a longer archive\<close>

lemma all_candidates_append:
  "all_candidates f i (ts @ us) =
    (case all_candidates f i ts of None \<Rightarrow> None | Some xs \<Rightarrow> map_option ((@) xs) (all_candidates f (i + length ts) us))"
proof (induction ts arbitrary: i)
  case Nil
  show ?case by (cases "all_candidates f i us") simp_all
next
  case (Cons t ts)
  have "i + 1 + length ts = i + length (t # ts)" by simp
  with Cons.IH [of "i + 1"] show ?case
    by (cases "f i t"; cases "all_candidates f (i + 1) ts"; cases "all_candidates f (i + length (t # ts)) us") simp_all
qed

lemma all_candidates_cong:
  "(\<And>j. j < length ts \<Longrightarrow> f (i + j) (ts ! j) = g (i + j) (ts ! j)) \<Longrightarrow> all_candidates f i ts = all_candidates g i ts"
proof (induction ts arbitrary: i)
  case (Cons t ts)
  have "f i t = g i t" using Cons.prems [of 0] by simp
  moreover have "all_candidates f (i + 1) ts = all_candidates g (i + 1) ts"
    using Cons.prems [of "Suc _"] by (intro Cons.IH) simp
  ultimately show ?case by (simp only: all_candidates.simps)
qed simp

lemma target_chunk_append:
  "(\<And>g p. Some (g, p) \<in> set us \<Longrightarrow> ht_tile_type g \<noteq> ty \<or> ht_tile_id g \<noteq> tid) \<Longrightarrow>
    target_chunk ty tid ix (ts @ us) = target_chunk ty tid ix ts"
proof (induction ts)
  case Nil
  then show ?case by (induction us) (auto simp: Let_def split: option.split)
next
  case (Cons t ts)
  then show ?case by simp
qed

lemma hidden_same:
  assumes "qs_tiles s' = qs_tiles s @ us" "qs_include_hidden s' = qs_include_hidden s"
    "\<And>kind. is_marked ty tid ix kind s' = is_marked ty tid ix kind s" "erasure_log (qs_tiles s') = erasure_log (qs_tiles s)"
    "\<And>g p. Some (g, p) \<in> set us \<Longrightarrow> ht_tile_type g \<noteq> ty \<or> ht_tile_id g \<noteq> tid"
  shows "is_record_hidden sha ty tid ix s' = is_record_hidden sha ty tid ix s"
proof -
  have "is_record_hash_erased h s' = is_record_hash_erased h s" for h
    by (simp add: is_record_hash_erased_def query_erasure_records_def assms(4))
  moreover have "target_chunk ty tid ix (qs_tiles s') = target_chunk ty tid ix (qs_tiles s)"
    unfolding assms(1) by (rule target_chunk_append [OF assms(5)])
  ultimately show ?thesis unfolding is_record_hidden_def is_record_erased_def assms(2,3) by (simp only:)
qed

lemma tile_candidates_same:
  assumes "\<And>k. is_record_hidden sha (ht_tile_type g) (ht_tile_id g) k s' = is_record_hidden sha (ht_tile_type g) (ht_tile_id g) k s"
    "erasure_log (qs_tiles s') = erasure_log (qs_tiles s)"
  shows "tile_candidates fo ce sha min_ts max_ts sensor metric s' i (Some (g, p)) =
    tile_candidates fo ce sha min_ts max_ts sensor metric s i (Some (g, p))"
proof -
  have "is_record_hash_erased h s' = is_record_hash_erased h s" for h
    by (simp add: is_record_hash_erased_def query_erasure_records_def assms(2))
  then show ?thesis unfolding tile_candidates_def columnar_candidates_def prod.case option.case Let_def assms(1) by (simp only:)
qed

text \<open>New tiles under new identifiers, no erasure and no mark on an old tile: the old tiles contribute what they contributed.\<close>

lemma candidates_behind:
  assumes "qs_tiles s' = qs_tiles s @ us" "qs_include_hidden s' = qs_include_hidden s" "erasure_log (qs_tiles s') = erasure_log (qs_tiles s)"
    "\<And>h p ty ix kind. Some (h, p) \<in> set (qs_tiles s) \<Longrightarrow> is_marked ty (ht_tile_id h) ix kind s' = is_marked ty (ht_tile_id h) ix kind s"
    "\<And>h p g q. Some (h, p) \<in> set (qs_tiles s) \<Longrightarrow> Some (g, q) \<in> set us \<Longrightarrow> ht_tile_id g \<noteq> ht_tile_id h"
  shows "all_candidates (tile_candidates fo ce sha min_ts max_ts sensor metric s') i (qs_tiles s) =
    all_candidates (tile_candidates fo ce sha min_ts max_ts sensor metric s) i (qs_tiles s)"
proof (rule all_candidates_cong)
  fix j assume j: "j < length (qs_tiles s)"
  show "tile_candidates fo ce sha min_ts max_ts sensor metric s' (i + j) (qs_tiles s ! j) =
    tile_candidates fo ce sha min_ts max_ts sensor metric s (i + j) (qs_tiles s ! j)"
  proof (cases "qs_tiles s ! j")
    case (Some t)
    obtain h p where t: "t = (h, p)" by (cases t)
    have m: "Some (h, p) \<in> set (qs_tiles s)" using j Some t by (metis nth_mem)
    have "is_record_hidden sha (ht_tile_type h) (ht_tile_id h) k s' = is_record_hidden sha (ht_tile_type h) (ht_tile_id h) k s" for k
      by (rule hidden_same [OF assms(1,2) assms(4) [OF m] assms(3)]) (use assms(5) [OF m] in blast)
    then show ?thesis unfolding Some t using assms(3) by (rule tile_candidates_same)
  qed (simp add: tile_candidates_def)
qed

section \<open>Candidates of a created tile\<close>

definition matches_at ::
  "u64 \<Rightarrow> u64 \<Rightarrow> u32 option \<Rightarrow> u32 option \<Rightarrow> nat \<Rightarrow> telemetry_record list \<Rightarrow> (telemetry_record \<times> coordinate) list" where
  "matches_at min_ts max_ts sensor metric i records =
    map (\<lambda>(k, r). (r, coordinate_new 0 (of_nat i) (of_nat k)))
      (filter (\<lambda>(k, r). telemetry_matches min_ts max_ts sensor metric r) (enumerate 0 records))"

lemma scan_visible:
  "(\<And>k. k0 \<le> k \<Longrightarrow> k < k0 + length rs \<Longrightarrow> skip k (rs ! (k - k0)) = Some False) \<Longrightarrow>
    scan_records skip keep i k0 rs = Some (map (\<lambda>(k, r). (r, coordinate_new 0 (of_nat i) (of_nat k))) (filter (\<lambda>(k, r). keep r) (enumerate k0 rs)))"
proof (induction rs arbitrary: k0)
  case (Cons r rs)
  have "skip k0 r = Some False" using Cons.prems [of k0] by simp
  moreover have "skip k (rs ! (k - Suc k0)) = Some False" if "Suc k0 \<le> k" "k < Suc k0 + length rs" for k
  proof -
    from that(1) obtain d where "k = Suc k0 + d" using le_Suc_ex by blast
    with Cons.prems [of k] that(2) show ?thesis by simp
  qed
  ultimately show ?case using Cons.IH [of "Suc k0"] by simp
qed simp

lemma fold_min_le: "fold min xs a \<le> (a :: 'a :: linorder)" "x \<in> set xs \<Longrightarrow> fold min xs a \<le> x"
  by (simp_all only: Min.set_eq_fold [symmetric], simp_all add: Min_le)

lemma fold_max_ge: "(a :: 'a :: linorder) \<le> fold max xs a" "x \<in> set xs \<Longrightarrow> x \<le> fold max xs a"
  by (simp_all only: Max.set_eq_fold [symmetric], simp_all add: Max_ge)

lemma sensor_in_filter:
  assumes "describes i TILE_TELEMETRY n (pod_bytes telemetry_bytes records) ts g" "r \<in> set records"
  shows "\<not> can_reject_tile_bloom g (ucast (tl_sensor_id r))"
proof -
  let ?bs = "pod_bytes telemetry_bytes records"
  have l: "length ?bs = length records * 32" by (rule telemetry_codec.length_pod_bytes) (simp add: list_all_iff)
  obtain j where j: "j < length records" "records ! j = r" using assms(2) by (auto simp: in_set_conv_nth)
  have "window (j * 32) 32 (?bs @ []) = telemetry_bytes r"
    using j by (subst telemetry_codec.window_pod_bytes) (simp_all add: list_all_iff)
  then have "telemetry_bytes r \<in> set (map (\<lambda>i. window (i * 32) 32 ?bs) [0..<length records])" using j(1) by force
  moreover have "ucast (tl_sensor_id r) \<in> set (telemetry_keys (telemetry_bytes r))"
    by (simp add: telemetry_keys_def telemetry_bytes_def record_layout)
  ultimately have "ucast (tl_sensor_id r) \<in> set (fst (tile_keys TILE_TELEMETRY None True ?bs))"
    by (auto simp: tile_keys_def try_cast_slice_def l TILE_TELEMETRY_def)
  then have "bloom_filter_contains (fold (\<lambda>k. bloom_filter_insert k (ft_hash_seed tile_filter_default))
      (fst (tile_keys TILE_TELEMETRY None True ?bs)) (ft_bits tile_filter_default)) (ucast (tl_sensor_id r)) (ft_hash_seed tile_filter_default)"
    by (intro bloom_fold_contains) (simp_all add: tile_filter_default_def)
  then show ?thesis using assms(1) by (simp add: can_reject_tile_bloom_def describes_def)
qed

lemma created_tile_candidates:
  assumes "describes i0 TILE_TELEMETRY (length records) (pod_bytes telemetry_bytes records) (map tl_timestamp records) g" "records \<noteq> []"
    "\<And>k. k < length records \<Longrightarrow> is_record_hidden sha TILE_TELEMETRY (of_nat i0 + 1) (of_nat k) s = Some False"
  shows "tile_candidates fo ce sha min_ts max_ts sensor metric s i (Some (g, pod_bytes telemetry_bytes records)) =
    Some (matches_at min_ts max_ts sensor metric i records)"
proof -
  let ?bs = "pod_bytes telemetry_bytes records"
  have g: "ht_tile_type g = TILE_TELEMETRY" "ht_tile_id g = of_nat i0 + 1" "ht_record_count g = of_nat (length records)"
    "ht_min_timestamp g = fold min (map tl_timestamp records) (-1)" "ht_max_timestamp g = fold max (map tl_timestamp records) 0"
    "length ?bs \<le> HYPER_TILE_PAYLOAD_SIZE" using assms(1,2) by (simp_all add: describes_def)
  have l: "length ?bs = length records * 32" by (rule telemetry_codec.length_pod_bytes) (simp add: list_all_iff)
  have "unat (of_nat (length records) :: u32) = length records"
    using g(6) l by (simp add: unsigned_of_nat take_bit_nat_eq_self_iff tile_sizes)
  then have n: "ht_record_count g \<noteq> 0" using assms(2) g(3) by (metis length_0_conv unsigned_0)
  have none: "matches_at min_ts max_ts sensor metric i records = []" if "\<forall>r \<in> set records. \<not> telemetry_matches min_ts max_ts sensor metric r"
    using that by (auto simp: matches_at_def filter_empty_conv in_set_enumerate_eq)
  have time: "\<not> telemetry_matches min_ts max_ts sensor metric r" if "r \<in> set records" "can_reject_tile_time g min_ts max_ts" for r
  proof -
    have "fold min (map tl_timestamp records) (-1) \<le> tl_timestamp r" "tl_timestamp r \<le> fold max (map tl_timestamp records) 0"
      using that(1) by (simp_all add: fold_min_le(2) fold_max_ge(2))
    then show ?thesis using that(2) n g(4,5) by (auto simp: can_reject_tile_time_def telemetry_matches_def)
  qed
  have bloom: "\<not> telemetry_matches min_ts max_ts sensor metric r" if "r \<in> set records" "sensor = Some sn" "can_reject_tile_bloom g (ucast sn)" for r sn
    using sensor_in_filter [OF assms(1) that(1)] that(2,3) by (auto simp: telemetry_matches_def)
  have cast: "cast_slice 32 telemetry_of_bytes ?bs = Some records"
    using l telemetry_codec.pod_slice_bytes [of records] by (simp add: cast_slice_def list_all_iff)
  have scan: "scan_records (\<lambda>k r. is_record_hidden sha TILE_TELEMETRY (of_nat i0 + 1) (of_nat k) s)
      (telemetry_matches min_ts max_ts sensor metric) i 0 records = Some (matches_at min_ts max_ts sensor metric i records)"
    unfolding matches_at_def using assms(3) by (intro scan_visible) simp
  show ?thesis
    using time bloom none scan by (auto simp: tile_candidates_def g(1,2) cast tile_codes split: option.splits)
qed

section \<open>Telemetry of an archive\<close>

text \<open>The writer numbers its tiles from 1.\<close>

definition numbered :: "tile option list \<Rightarrow> bool" where
  "numbered ts \<longleftrightarrow> list_all (\<lambda>i. case ts ! i of Some (h, _) \<Rightarrow> ht_tile_id h = of_nat i + 1 | None \<Rightarrow> True) [0..<length ts]"

lemma numbered_append:
  "numbered (ts @ [Some (g, p)]) \<longleftrightarrow> numbered ts \<and> ht_tile_id g = of_nat (length ts) + 1"
  by (auto simp: numbered_def list_all_iff nth_append split: option.splits)

lemma archive_tiles_less:
  assumes "archive_ok cc disk"
  shows "length (disk_tiles cc disk) < 2 ^ 32"
proof -
  obtain w where "tw_wf cc w" "df_bytes (tw_file w) = disk" using assms by (rule archive_okE)
  with disk_tiles_writer [of cc w] unat_u32_less [of "tw_tile_count w"] show ?thesis by auto
qed

lemma numbered_new:
  assumes "numbered ts" "length ts < 2 ^ 32" "Some (h, p) \<in> set ts"
  shows "ht_tile_id h \<noteq> of_nat (length ts) + 1"
proof -
  obtain j where j: "ts ! j = Some (h, p)" "j < length ts" using assms(3) by (auto simp: in_set_conv_nth)
  have "ht_tile_id h = of_nat j + 1" using assms(1) j by (force simp: numbered_def list_all_iff)
  moreover have "unat (of_nat m :: u64) = m" if "m \<le> length ts" for m
    using assms(2) that by (simp add: unsigned_of_nat take_bit_nat_eq_self)
  then have "(of_nat j :: u64) \<noteq> of_nat (length ts)" using j(2) by (metis less_imp_le less_irrefl order_refl)
  ultimately show ?thesis by simp
qed

definition telemetry_candidates ::
  "crud_env \<Rightarrow> u32 \<Rightarrow> u32 \<Rightarrow> u64 \<Rightarrow> u64 \<Rightarrow> byte list \<Rightarrow> (telemetry_record \<times> coordinate) list option" where
  "telemetry_candidates env sensor metric min_ts max_ts disk =
    all_candidates (tile_candidates (en_f64 env) (en_cast_error env) (en_sha env) min_ts max_ts (Some sensor) (Some metric)
      (disk_sieve (en_crc env) disk)) 0 (disk_tiles (en_crc env) disk)"

lemma read_telemetry_answer:
  assumes "archive_ok (en_crc env) disk"
  shows "read_telemetry env sensor metric min_ts max_ts disk =
    map_option (\<lambda>cs. Ok (answer cs)) (telemetry_candidates env sensor metric min_ts max_ts disk)"
proof -
  obtain r where "reader_open (en_crc env) disk = Ok r" using assms by (rule archive_ok_reader)
  then show ?thesis
    by (simp add: read_telemetry_def sieve_of_disk query_telemetry_def query_telemetry_with_coords_def telemetry_candidates_def
        option.map_comp comp_def answer_def)
qed

lemma candidates_match:
  assumes "telemetry_candidates env sensor metric min_ts max_ts disk = Some cs" "(r, c) \<in> set cs"
  shows "telemetry_matches min_ts max_ts (Some sensor) (Some metric) r"
proof -
  have scan: "telemetry_matches min_ts max_ts (Some sensor) (Some metric) r"
    if "scan_records skip (telemetry_matches min_ts max_ts (Some sensor) (Some metric)) i k rs = Some xs" "(r, c) \<in> set xs" for skip i k rs xs r c
    using that by (induction rs arbitrary: k xs) (auto split: option.splits bool.splits if_splits)
  have tile: "telemetry_matches min_ts max_ts (Some sensor) (Some metric) r"
    if "tile_candidates fo ce sha min_ts max_ts (Some sensor) (Some metric) s i t = Some xs" "(r, c) \<in> set xs" for fo ce sha s i t xs r c
    using that scan by (auto simp: tile_candidates_def columnar_candidates_def Let_def
        split: option.splits if_splits sum.splits columnar_error.splits prod.splits)
  have "telemetry_matches min_ts max_ts (Some sensor) (Some metric) r"
    if "all_candidates (tile_candidates fo ce sha min_ts max_ts (Some sensor) (Some metric) s) i ts = Some xs" "(r, c) \<in> set xs"
    for fo ce sha s i ts xs r c
    using that tile by (induction ts arbitrary: i xs) (auto split: option.splits)
  with assms show ?thesis by (auto simp: telemetry_candidates_def)
qed

text \<open>One more tile that is no policy: the old tiles contribute what they contributed.\<close>

lemma candidates_append:
  assumes "disk_tiles (en_crc env) disk' = disk_tiles (en_crc env) disk @ [Some (g, p)]" "numbered (disk_tiles (en_crc env) disk')"
    "length (disk_tiles (en_crc env) disk) < 2 ^ 32" "ht_tile_type g \<noteq> TILE_MARKS" "ht_tile_type g \<noteq> TILE_ERASURE"
  shows "telemetry_candidates env sensor metric min_ts max_ts disk' =
    (case telemetry_candidates env sensor metric min_ts max_ts disk of
       None \<Rightarrow> None
     | Some cs \<Rightarrow> map_option ((@) cs) (tile_candidates (en_f64 env) (en_cast_error env) (en_sha env) min_ts max_ts (Some sensor)
         (Some metric) (disk_sieve (en_crc env) disk') (length (disk_tiles (en_crc env) disk)) (Some (g, p))))"
proof -
  let ?ts = "disk_tiles (en_crc env) disk" and ?s = "disk_sieve (en_crc env) disk" and ?s' = "disk_sieve (en_crc env) disk'"
  let ?f = "tile_candidates (en_f64 env) (en_cast_error env) (en_sha env) min_ts max_ts (Some sensor) (Some metric)"
  have logs: "mark_log (qs_tiles ?s') = mark_log (qs_tiles ?s)" "erasure_log (qs_tiles ?s') = erasure_log (qs_tiles ?s)"
    using assms(1,4,5) by (simp_all add: typed_records_other)
  have n: "numbered ?ts" "ht_tile_id g = of_nat (length ?ts) + 1" using assms(1,2) by (simp_all add: numbered_append)
  have "ht_tile_id g \<noteq> ht_tile_id h" if "Some (h, q) \<in> set ?ts" for h q
    using numbered_new [OF n(1) assms(3) that] n(2) by simp
  then have "all_candidates (?f ?s') 0 (qs_tiles ?s) = all_candidates (?f ?s) 0 (qs_tiles ?s)"
    by (intro candidates_behind [where us = "[Some (g, p)]"]) (use assms(1) logs in \<open>auto simp: is_marked_def\<close>)
  then have "all_candidates (?f ?s') 0 ?ts = all_candidates (?f ?s) 0 ?ts" by simp
  then show ?thesis unfolding telemetry_candidates_def assms(1) all_candidates_append
    by (simp split: option.split)
qed

text \<open>A telemetry tile is appended.\<close>

lemma telemetry_appended:
  assumes "archive_ok (en_crc env) disk" "numbered (disk_tiles (en_crc env) disk)" "disk_room env (Suc k) disk"
    "create_telemetry env [r] disk = (Ok tile, disk')"
  obtains g where "archive_ok (en_crc env) disk'" "disk_room env k disk'" "numbered (disk_tiles (en_crc env) disk')"
    "disk_tiles (en_crc env) disk' = disk_tiles (en_crc env) disk @ [Some (g, pod_bytes telemetry_bytes [r])]"
    "describes (length (disk_tiles (en_crc env) disk)) TILE_TELEMETRY (length [r]) (pod_bytes telemetry_bytes [r]) (map tl_timestamp [r]) g"
proof -
  have "append_records env TILE_TELEMETRY (length [r]) (pod_bytes telemetry_bytes [r]) (map tl_timestamp [r]) disk = (Ok tile, disk')"
    using assms(4) by (simp add: create_telemetry_def)
  from assms(1,3) this show thesis
    by (cases rule: append_records_cases) (use that assms(2) in \<open>auto simp: numbered_append describes_def\<close>)
qed

text \<open>The record in the last tile of the archive is visible: no mark or erasure hides it.\<close>

definition last_visible :: "crud_env \<Rightarrow> byte list \<Rightarrow> bool" where
  "last_visible env disk \<longleftrightarrow>
    is_record_hidden (en_sha env) TILE_TELEMETRY (of_nat (length (disk_tiles (en_crc env) disk))) 0 (disk_sieve (en_crc env) disk) = Some False"

lemma visible_appended:
  assumes "archive_ok (en_crc env) disk" "numbered (disk_tiles (en_crc env) disk)" "disk_room env (Suc k) disk"
    "create_telemetry env [r] disk = (Ok tile, disk')" "last_visible env disk'"
  shows "telemetry_candidates env sensor metric min_ts max_ts disk' =
    map_option (\<lambda>cs. cs @ matches_at min_ts max_ts (Some sensor) (Some metric) (length (disk_tiles (en_crc env) disk)) [r])
      (telemetry_candidates env sensor metric min_ts max_ts disk)"
  using assms(1-4)
proof (rule telemetry_appended)
  fix g
  assume g: "numbered (disk_tiles (en_crc env) disk')"
    "disk_tiles (en_crc env) disk' = disk_tiles (en_crc env) disk @ [Some (g, pod_bytes telemetry_bytes [r])]"
    "describes (length (disk_tiles (en_crc env) disk)) TILE_TELEMETRY (length [r]) (pod_bytes telemetry_bytes [r]) (map tl_timestamp [r]) g"
  have ty: "ht_tile_type g \<noteq> TILE_MARKS" "ht_tile_type g \<noteq> TILE_ERASURE" using g(3) by (simp_all add: describes_def tile_codes)
  have v: "is_record_hidden (en_sha env) TILE_TELEMETRY (of_nat (length (disk_tiles (en_crc env) disk)) + 1) (of_nat k)
      (disk_sieve (en_crc env) disk') = Some False" if "k < length [r]" for k
    using assms(5) that by (simp add: last_visible_def g(2) add.commute)
  have "tile_candidates (en_f64 env) (en_cast_error env) (en_sha env) min_ts max_ts (Some sensor) (Some metric)
      (disk_sieve (en_crc env) disk') (length (disk_tiles (en_crc env) disk)) (Some (g, pod_bytes telemetry_bytes [r])) =
      Some (matches_at min_ts max_ts (Some sensor) (Some metric) (length (disk_tiles (en_crc env) disk)) [r])"
    by (rule created_tile_candidates [OF g(3) _ v]) simp_all
  then show ?thesis
    unfolding candidates_append [OF g(2,1) archive_tiles_less [OF assms(1)] ty] by (simp split: option.split)
qed

lemma matches_at_one:
  "matches_at min_ts max_ts sensor metric i [r] = (if telemetry_matches min_ts max_ts sensor metric r then [(r, coordinate_new 0 (of_nat i) 0)] else [])"
  by (simp add: matches_at_def)

lemma answer_of_sensor:
  assumes "telemetry_candidates env sensor metric min_ts max_ts disk = Some cs" "q \<in> set (answer cs)"
  shows "tl_sensor_id q = sensor \<and> tl_metric_id q = metric \<and> min_ts \<le> tl_timestamp q \<and> tl_timestamp q \<le> max_ts"
  using candidates_match [OF assms(1)] answer_member [OF assms(2)] by (auto simp: telemetry_matches_def)

lemma read_telemetry_Ok:
  assumes "archive_ok (en_crc env) disk" "read_telemetry env sensor metric min_ts max_ts disk = Some (Ok rs)"
  obtains cs where "telemetry_candidates env sensor metric min_ts max_ts disk = Some cs" "rs = answer cs"
  using assms by (auto simp: read_telemetry_answer)

lemma delete_telemetry_Ok:
  assumes "delete_telemetry env sensor metric ts disk = Some (Ok b, disk')"
  obtains (absent) "\<not> b" "disk' = disk" "read_telemetry env sensor metric ts ts disk = Some (Ok [])"
  | (deleted) r rs tile where "b" "read_telemetry env sensor metric ts ts disk = Some (Ok (r # rs))"
      "create_telemetry env [mark_tombstone r] disk = (Ok tile, disk')"
  using assms by (auto simp: delete_telemetry_def and_return_def split: option.splits sum.splits list.splits prod.splits)

lemma mark_tombstone_simps [simp]:
  "telemetry_key (mark_tombstone r) = telemetry_key r" "telemetry_tombstone (mark_tombstone r)"
  "telemetry_matches min_ts max_ts sensor metric (mark_tombstone r) = telemetry_matches min_ts max_ts sensor metric r"
proof -
  have "FLAG_TOMBSTONE AND FLAG_TOMBSTONE \<noteq> 0" by (simp add: FLAG_TOMBSTONE_def)
  then show "telemetry_tombstone (mark_tombstone r)"
    by (simp add: telemetry_tombstone_def mark_tombstone_def word_bw_assocs word_ao_dist)
qed (simp_all add: telemetry_key_def mark_tombstone_def telemetry_matches_def split: option.split)

lemma hidden_readable:
  assumes "mark_log (qs_tiles s) \<noteq> None" "erasure_log (qs_tiles s) \<noteq> None"
  shows "is_record_hidden sha ty tid ix s \<noteq> None"
proof -
  have "is_marked ty tid ix kind s \<noteq> None" for kind using assms(1) by (simp add: is_marked_def)
  moreover have "is_record_hash_erased h s \<noteq> None" for h
    using assms(2) by (simp add: is_record_hash_erased_def query_erasure_records_def)
  moreover have "or_else a b \<noteq> None" if "a \<noteq> None" "b \<noteq> None" for a b
    using that by (auto simp: or_else_def split: bool.split)
  ultimately show ?thesis
    by (simp add: is_record_hidden_def is_record_erased_def split: option.split del: not_None_eq)
qed

lemma scan_readable: "(\<And>k r. skip k r \<noteq> None) \<Longrightarrow> scan_records skip keep i k rs \<noteq> None"
  by (induction rs arbitrary: k) (auto split: option.split bool.split)

lemma telemetry_tile_readable:
  assumes "mark_log (qs_tiles s) \<noteq> None" "erasure_log (qs_tiles s) \<noteq> None" "ht_tile_type g = TILE_TELEMETRY"
  shows "tile_candidates fo ce sha min_ts max_ts sensor metric s i (Some (g, pod_bytes telemetry_bytes [r])) \<noteq> None"
proof -
  have "cast_slice 32 telemetry_of_bytes (telemetry_bytes r) = Some [r]"
    using telemetry_codec.pod_slice_bytes [of "[r]"] telemetry_codec.length_pod_bytes [of "[r]"] by (simp add: cast_slice_def)
  moreover have "scan_records (\<lambda>k r. is_record_hidden sha TILE_TELEMETRY (ht_tile_id g) (of_nat k) s)
      (telemetry_matches min_ts max_ts sensor metric) i 0 [r] \<noteq> None"
    by (rule scan_readable) (rule hidden_readable [OF assms(1,2)])
  moreover have "TILE_TELEMETRY \<noteq> TILE_COLUMNAR" by (simp add: tile_codes)
  ultimately show ?thesis
    by (simp add: tile_candidates_def assms(3) split: option.split del: scan_records.simps not_None_eq)
qed

lemma one_record_cast: "cast_slice 32 telemetry_of_bytes (pod_bytes telemetry_bytes [r]) = Some [r]"
  using telemetry_codec.pod_slice_bytes [of "[r]"] telemetry_codec.length_pod_bytes [of "[r]"] by (simp add: cast_slice_def)

lemma hidden_tile_candidates:
  assumes "ht_tile_type g = TILE_TELEMETRY" "is_record_hidden sha TILE_TELEMETRY (ht_tile_id g) 0 s = Some True"
  shows "tile_candidates fo ce sha min_ts max_ts sensor metric s i (Some (g, pod_bytes telemetry_bytes [r])) = Some []"
proof -
  have "TILE_TELEMETRY \<noteq> TILE_COLUMNAR" by (simp add: tile_codes)
  then show ?thesis using one_record_cast [of r] by (simp add: tile_candidates_def assms split: option.split)
qed

lemma visible_mark_log: "last_visible env disk \<Longrightarrow> mark_log (disk_tiles (en_crc env) disk) \<noteq> None"
  by (auto simp: last_visible_def is_record_hidden_def or_else_def is_marked_def split: option.splits)

text \<open>A mark on the last tile leaves the records of the other tiles as they were.\<close>

lemma mark_elsewhere:
  assumes "mark_log (qs_tiles s) = Some ms" "mark_log (qs_tiles s') = Some (ms @ [m])" "mk_target_tile_id m \<noteq> tid"
  shows "is_marked ty tid ix kind s' = is_marked ty tid ix kind s"
  using assms by (simp add: is_marked_of_log marked_in_def marks_of_def)

lemma candidates_marked_new:
  assumes "qs_tiles s' = qs_tiles s @ [Some (g, p), Some (h, q)]" "qs_include_hidden s' = qs_include_hidden s"
    "erasure_log (qs_tiles s') = erasure_log (qs_tiles s)" "mark_log (qs_tiles s) = Some ms" "mark_log (qs_tiles s') = Some (ms @ [m])"
    "mk_target_tile_id m = ht_tile_id g"
    "\<And>f r. Some (f, r) \<in> set (qs_tiles s) \<Longrightarrow> ht_tile_id g \<noteq> ht_tile_id f \<and> ht_tile_id h \<noteq> ht_tile_id f"
  shows "all_candidates (tile_candidates fo ce sha min_ts max_ts sensor metric s') i (qs_tiles s) =
    all_candidates (tile_candidates fo ce sha min_ts max_ts sensor metric s) i (qs_tiles s)"
proof (rule candidates_behind [OF assms(1-3)])
  fix f r ty ix kind assume f: "Some (f, r) \<in> set (qs_tiles s)"
  show "is_marked ty (ht_tile_id f) ix kind s' = is_marked ty (ht_tile_id f) ix kind s"
    by (rule mark_elsewhere [OF assms(4,5)]) (use assms(6) assms(7) [OF f] in simp)
next
  fix f r f' r' assume "Some (f, r) \<in> set (qs_tiles s)" "Some (f', r') \<in> set [Some (g, p), Some (h, q)]"
  then show "ht_tile_id f' \<noteq> ht_tile_id f" using assms(7) by auto
qed

lemma delete_telemetry_numbered:
  assumes "archive_ok (en_crc env) disk" "numbered (disk_tiles (en_crc env) disk)" "disk_room env (Suc k) disk"
    "delete_telemetry env sensor metric ts disk = Some (Ok b, disk1)"
  shows "numbered (disk_tiles (en_crc env) disk1)"
  using assms(4) by (rule delete_telemetry_Ok) (use assms(2) telemetry_appended [OF assms(1-3)] in metis)+

lemma candidates_after_delete:
  assumes "archive_ok (en_crc env) disk" "numbered (disk_tiles (en_crc env) disk)" "disk_room env (Suc k) disk"
    "delete_telemetry env sensor metric ts disk = Some (Ok b, disk1)"
    "mark_log (disk_tiles (en_crc env) disk1) \<noteq> None" "erasure_log (disk_tiles (en_crc env) disk1) \<noteq> None"
  obtains cs where "telemetry_candidates env sensor metric ts ts disk1 = Some cs"
  using assms(4)
proof (cases rule: delete_telemetry_Ok)
  case absent
  then show thesis using that read_telemetry_Ok [OF assms(1) absent(3)] by auto
next
  case (deleted r rs tile)
  obtain cs0 where cs0: "telemetry_candidates env sensor metric ts ts disk = Some cs0" by (rule read_telemetry_Ok [OF assms(1) deleted(2)])
  obtain h where h: "archive_ok (en_crc env) disk1" "disk_room env k disk1" "numbered (disk_tiles (en_crc env) disk1)"
    "disk_tiles (en_crc env) disk1 = disk_tiles (en_crc env) disk @ [Some (h, pod_bytes telemetry_bytes [mark_tombstone r])]"
    "describes (length (disk_tiles (en_crc env) disk)) TILE_TELEMETRY (length [mark_tombstone r])
      (pod_bytes telemetry_bytes [mark_tombstone r]) (map tl_timestamp [mark_tombstone r]) h"
    by (rule telemetry_appended [OF assms(1-3) deleted(3)])
  have ty: "ht_tile_type h = TILE_TELEMETRY" using h(5) by (simp add: describes_def)
  then have "ht_tile_type h \<noteq> TILE_MARKS" "ht_tile_type h \<noteq> TILE_ERASURE" by (simp_all add: tile_codes)
  from candidates_append [OF h(4,3) archive_tiles_less [OF assms(1)] this, of sensor metric ts ts] cs0 that
    telemetry_tile_readable [OF _ _ ty, of "disk_sieve (en_crc env) disk1"] assms(5,6)
  show thesis by fastforce
qed

lemma create_telemetry_succeeds:
  assumes "archive_ok (en_crc env) disk" "disk_room env (Suc k) disk" "gate_open env TILE_TELEMETRY"
  obtains tile disk' where "create_telemetry env [r] disk = (Ok tile, disk')"
proof -
  have "length (pod_bytes telemetry_bytes [r]) \<le> HYPER_TILE_PAYLOAD_SIZE"
    using telemetry_codec.length_pod_bytes [of "[r]"] by (simp add: tile_sizes)
  from append_records_succeeds [OF assms(1-3) this, of 1 "[tl_timestamp r]"] that show thesis by (auto simp: create_telemetry_def)
qed

section \<open>What queries answer\<close>

text \<open>C5: a telemetry query answers with the latest version of every key: the records come in the order of sensor, metric and time, no
  key twice, and a record is in the answer exactly when it is the last candidate of its key in append order and not a tombstone.\<close>

theorem query_latest_versions:
  assumes "query_telemetry_with_coords fo ce sha min_ts max_ts sensor metric s = Some out"
  shows "\<exists>cands. all_candidates (tile_candidates fo ce sha min_ts max_ts sensor metric s) 0 (qs_tiles s) = Some cands \<and>
    sorted_wrt (<) (map (telemetry_key \<circ> fst) out) \<and>
    (\<forall>r c. (r, c) \<in> set out \<longleftrightarrow> find (\<lambda>(q, d). telemetry_key q = telemetry_key r) (rev cands) = Some (r, c) \<and> \<not> telemetry_tombstone r)"
proof -
  obtain cands where c: "all_candidates (tile_candidates fo ce sha min_ts max_ts sensor metric s) 0 (qs_tiles s) = Some cands"
    "out = map snd (latest_versions cands)" using assms by (auto simp: query_telemetry_with_coords_def)
  have "sorted_wrt (<) (map (telemetry_key \<circ> fst) out)"
    using latest_versions_wf [of cands] latest_versions_keys [of cands] by (simp add: c(2) comp_assoc)
  moreover have "(r, c) \<in> set out \<longleftrightarrow> find (\<lambda>(q, d). telemetry_key q = telemetry_key r) (rev cands) = Some (r, c) \<and> \<not> telemetry_tombstone r" for r c
  proof -
    have "(r, c) \<in> set out \<longleftrightarrow> (telemetry_key r, r, c) \<in> set (latest_versions cands)"
      using latest_versions_entry by (force simp: c(2))
    then show ?thesis using latest_versions_lookup [of cands "telemetry_key r"]
      by (auto simp: bt_entry [OF latest_versions_wf] split: option.splits if_splits)
  qed
  ultimately show ?thesis using c(1) by blast
qed

text \<open>C15: a created record is read back: after its creation every query for its sensor and metric whose window holds its time answers
  with it, in the place of an older version of the same time, and with nothing else new; a query for another window answers as before.\<close>

theorem created_record_read_back:
  assumes "archive_ok (en_crc env) disk" "numbered (disk_tiles (en_crc env) disk)" "disk_room env (Suc k) disk"
    "create_telemetry env [r] disk = (Ok tile, disk')" "last_visible env disk'" "\<not> telemetry_tombstone r"
    "read_telemetry env (tl_sensor_id r) (tl_metric_id r) min_ts max_ts disk = Some (Ok rs)"
  shows "read_telemetry env (tl_sensor_id r) (tl_metric_id r) min_ts max_ts disk' = Some (Ok
    (if min_ts \<le> tl_timestamp r \<and> tl_timestamp r \<le> max_ts
     then filter (\<lambda>q. tl_timestamp q < tl_timestamp r) rs @ r # filter (\<lambda>q. tl_timestamp r < tl_timestamp q) rs else rs))"
proof -
  obtain cs where cs: "telemetry_candidates env (tl_sensor_id r) (tl_metric_id r) min_ts max_ts disk = Some cs" "rs = answer cs"
    by (rule read_telemetry_Ok [OF assms(1,7)])
  have ok: "archive_ok (en_crc env) disk'" by (rule telemetry_appended [OF assms(1-4)])
  have "filter (\<lambda>q. telemetry_key q < telemetry_key r) rs = filter (\<lambda>q. tl_timestamp q < tl_timestamp r) rs"
    "filter (\<lambda>q. telemetry_key r < telemetry_key q) rs = filter (\<lambda>q. tl_timestamp r < tl_timestamp q) rs"
    using answer_of_sensor [OF cs(1)] by (auto simp: cs(2) telemetry_key_def intro!: filter_cong)
  with assms(6) show ?thesis
    by (simp add: read_telemetry_answer [OF ok] visible_appended [OF assms(1-5)] cs matches_at_one answer_insert telemetry_matches_def)
qed

text \<open>C16: a deleted record is gone: after a deletion every query for its sensor and metric answers as before without the records of its
  time.\<close>

theorem deleted_version_gone:
  assumes "archive_ok (en_crc env) disk" "numbered (disk_tiles (en_crc env) disk)" "disk_room env (Suc k) disk"
    "delete_telemetry env sensor metric ts disk = Some (Ok True, disk')" "last_visible env disk'"
    "read_telemetry env sensor metric min_ts max_ts disk = Some (Ok rs)"
  shows "read_telemetry env sensor metric min_ts max_ts disk' = Some (Ok (filter (\<lambda>q. tl_timestamp q \<noteq> ts) rs))"
  using assms(4)
proof (cases rule: delete_telemetry_Ok)
  case (deleted r rest tile)
  obtain cs where cs: "telemetry_candidates env sensor metric min_ts max_ts disk = Some cs" "rs = answer cs"
    by (rule read_telemetry_Ok [OF assms(1,6)])
  obtain cs0 where cs0: "telemetry_candidates env sensor metric ts ts disk = Some cs0" "r # rest = answer cs0"
    by (rule read_telemetry_Ok [OF assms(1) deleted(2)])
  have r: "tl_sensor_id r = sensor" "tl_metric_id r = metric" "tl_timestamp r = ts"
    using answer_of_sensor [OF cs0(1), of r] cs0(2) [symmetric] by auto
  have ok: "archive_ok (en_crc env) disk'" by (rule telemetry_appended [OF assms(1-3) deleted(3)])
  have "filter (\<lambda>q. telemetry_key q \<noteq> telemetry_key r) rs = filter (\<lambda>q. tl_timestamp q \<noteq> ts) rs"
    using answer_of_sensor [OF cs(1)] by (auto simp: cs(2) telemetry_key_def r intro!: filter_cong)
  moreover have "filter (\<lambda>q. tl_timestamp q \<noteq> ts) rs = rs" if "\<not> telemetry_matches min_ts max_ts (Some sensor) (Some metric) r"
    using that answer_of_sensor [OF cs(1)] by (auto simp: filter_id_conv cs(2) telemetry_matches_def r)
  ultimately show ?thesis
    by (simp add: read_telemetry_answer [OF ok] visible_appended [OF assms(1-3) deleted(3) assms(5)] cs(1) cs(2) [symmetric]
        matches_at_one answer_remove)
qed simp

text \<open>C17: an updated record is replaced: after an update the query for its time answers with exactly the new record, whether or not there
  was an old one.\<close>

theorem updated_record_replaced:
  assumes "governed (en_crc env) sha disk" "numbered (disk_tiles (en_crc env) disk)" "disk_room env (Suc (Suc k)) disk"
    "update_telemetry env sensor metric ts v disk = Some (Ok b, disk')" "last_visible env disk'"
  shows "read_telemetry env sensor metric ts ts disk' = Some (Ok [telemetry_new ts sensor metric v])"
proof -
  let ?new = "telemetry_new ts sensor metric v"
  obtain b' disk1 where d: "delete_telemetry env sensor metric ts disk = Some (Ok b', disk1)"
    using assms(4) by (auto simp: update_telemetry_def split: option.splits sum.splits)
  obtain tile where c: "create_telemetry env [?new] disk1 = (Ok tile, disk')"
    using assms(4) d by (auto simp: update_telemetry_def and_return_def split: sum.splits prod.splits)
  note g1 = delete_telemetry_governed [OF assms(1,3) d]
  have ok: "archive_ok (en_crc env) disk" "archive_ok (en_crc env) disk1" using assms(1) g1 by (simp_all add: governed_def)
  note n1 = ok(2) delete_telemetry_numbered [OF ok(1) assms(2,3) d] g1 [THEN conjunct2] c
  obtain g where a: "archive_ok (en_crc env) disk'" "disk_room env k disk'" "numbered (disk_tiles (en_crc env) disk')"
    "disk_tiles (en_crc env) disk' = disk_tiles (en_crc env) disk1 @ [Some (g, pod_bytes telemetry_bytes [?new])]"
    "describes (length (disk_tiles (en_crc env) disk1)) TILE_TELEMETRY (length [?new]) (pod_bytes telemetry_bytes [?new])
      (map tl_timestamp [?new]) g"
    by (rule telemetry_appended [OF n1])
  then have t: "disk_tiles (en_crc env) disk' = disk_tiles (en_crc env) disk1 @ [Some (g, pod_bytes telemetry_bytes [?new])]"
    "ht_tile_type g = TILE_TELEMETRY" "archive_ok (en_crc env) disk'" by (simp_all add: describes_def)
  have logs: "mark_log (disk_tiles (en_crc env) disk1) \<noteq> None" "erasure_log (disk_tiles (en_crc env) disk1) \<noteq> None"
    using assms(5) g1 t(1,2)
    by (auto simp: last_visible_def is_record_hidden_def or_else_def is_marked_def typed_records_other tile_codes governed_def
        erasure_chain_ok_def split: option.splits)
  obtain cs where cs: "telemetry_candidates env sensor metric ts ts disk1 = Some cs"
    by (rule candidates_after_delete [OF ok(1) assms(2,3) d logs])
  have "\<not> telemetry_tombstone ?new" "telemetry_matches ts ts (Some sensor) (Some metric) ?new" "telemetry_key ?new = (sensor, metric, ts)"
    by (simp_all add: telemetry_new_def telemetry_tombstone_def FLAG_ACTIVE_def telemetry_matches_def telemetry_key_def)
  moreover have "telemetry_key q = (sensor, metric, ts)" if "q \<in> set (answer cs)" for q
    using answer_of_sensor [OF cs that] by (auto simp: telemetry_key_def)
  ultimately show ?thesis
    by (simp add: read_telemetry_answer [OF t(3)] visible_appended [OF n1 assms(5)] cs matches_at_one answer_insert filter_empty_conv)
qed

text \<open>C36: hiding a tombstone undoes the deletion: a quarantine mark on the tombstone that a deletion wrote makes every query for that
  sensor and metric answer as before the deletion.\<close>

theorem quarantined_tombstone_resurrects:
  assumes "archive_ok (en_crc env) disk" "numbered (disk_tiles (en_crc env) disk)" "disk_room env (Suc (Suc k)) disk"
    "delete_telemetry env sensor metric ts disk = Some (Ok True, disk1)" "last_visible env disk1"
    "mark_record_op env TILE_TELEMETRY (of_nat (length (disk_tiles (en_crc env) disk1))) 0 MARK_QUARANTINE True now actor disk1 = (Ok tile, disk2)"
  shows "read_telemetry env sensor metric min_ts max_ts disk2 = read_telemetry env sensor metric min_ts max_ts disk"
  using assms(4)
proof (cases rule: delete_telemetry_Ok)
  case (deleted r rs tile')
  let ?cc = "en_crc env" and ?sha = "en_sha env"
  let ?T = "disk_tiles ?cc disk" and ?s = "disk_sieve ?cc disk" and ?s2 = "disk_sieve ?cc disk2"
  let ?f = "tile_candidates (en_f64 env) (en_cast_error env) ?sha min_ts max_ts (Some sensor) (Some metric)"
  obtain g where g: "archive_ok ?cc disk1" "disk_room env (Suc k) disk1" "numbered (disk_tiles ?cc disk1)"
    "disk_tiles ?cc disk1 = ?T @ [Some (g, pod_bytes telemetry_bytes [mark_tombstone r])]"
    "describes (length ?T) TILE_TELEMETRY (length [mark_tombstone r]) (pod_bytes telemetry_bytes [mark_tombstone r])
      (map tl_timestamp [mark_tombstone r]) g"
    by (rule telemetry_appended [OF assms(1-3) deleted(3)])
  have gt: "ht_tile_type g = TILE_TELEMETRY" "ht_tile_id g = of_nat (length ?T) + 1" using g(5) by (simp_all add: describes_def)
  obtain ms where ms: "mark_log ?T = Some ms" using visible_mark_log [OF assms(5)] g(4) gt(1) by (auto simp: typed_records_other tile_codes)
  have ms1: "mark_log (disk_tiles ?cc disk1) = Some ms" using ms g(4) gt(1) by (simp add: typed_records_other tile_codes)
  obtain h m where h: "archive_ok ?cc disk2" "disk_tiles ?cc disk2 = disk_tiles ?cc disk1 @ [Some (h, pod_bytes mark_bytes [m])]"
    "ht_tile_type h = TILE_MARKS" "ht_tile_id h = of_nat (length ?T) + 2" "mark_log (disk_tiles ?cc disk2) = Some (ms @ [m])"
    "mk_target_tile_type m = TILE_TELEMETRY" "mk_target_tile_id m = of_nat (length ?T) + 1" "mk_record_index m = 0"
    "mk_mark_kind m = MARK_QUARANTINE" "mark_is_set m"
    using mark_appended [OF g(1,2) ms1 assms(6)] g(4) by (auto simp: add.commute)
  have T2: "disk_tiles ?cc disk2 = ?T @ [Some (g, pod_bytes telemetry_bytes [mark_tombstone r]), Some (h, pod_bytes mark_bytes [m])]"
    using g(4) h(2) by simp
  have "erasure_log (disk_tiles ?cc disk2) = erasure_log (disk_tiles ?cc disk1)"
    unfolding h(2) by (rule typed_records_other) (simp add: h(3) tile_codes)
  also have "\<dots> = erasure_log ?T" unfolding g(4) by (rule typed_records_other) (simp add: gt(1) tile_codes)
  finally have er: "erasure_log (qs_tiles ?s2) = erasure_log (qs_tiles ?s)" by simp
  have ne: "ht_tile_id q \<noteq> of_nat (length ?T) + 1 \<and> ht_tile_id q \<noteq> of_nat (length ?T) + 2" if "Some (q, p) \<in> set ?T" for q p
    using numbered_new [OF assms(2) archive_tiles_less [OF assms(1)] that] numbered_new [OF g(3) archive_tiles_less [OF g(1)], of q p] that g(4)
    by (simp add: add.commute)
  have old: "all_candidates (?f ?s2) 0 (qs_tiles ?s) = all_candidates (?f ?s) 0 (qs_tiles ?s)"
  proof (rule candidates_marked_new [where ms = ms and m = m, OF _ _ er])
    show "qs_tiles ?s2 = qs_tiles ?s @ [Some (g, pod_bytes telemetry_bytes [mark_tombstone r]), Some (h, pod_bytes mark_bytes [m])]"
      using T2 by simp
    show "ht_tile_id g \<noteq> ht_tile_id f \<and> ht_tile_id h \<noteq> ht_tile_id f" if "Some (f, q) \<in> set (qs_tiles ?s)" for f q
      using ne [of f q] that gt(2) h(4) by (metis disk_sieve_tiles)
  qed (use ms h(5,7) gt(2) in simp_all)
  have "is_record_hidden ?sha TILE_TELEMETRY (ht_tile_id g) 0 ?s2 = Some True"
    using is_marked_of_log [of ?s2 "ms @ [m]"] h(5-10) gt(2) by (simp add: is_record_hidden_def or_else_def marked_in_def marks_of_def split: bool.split)
  from hidden_tile_candidates [OF gt(1) this] old h(3)
  have "telemetry_candidates env sensor metric min_ts max_ts disk2 = telemetry_candidates env sensor metric min_ts max_ts disk"
    by (simp add: telemetry_candidates_def T2 all_candidates_append tile_candidates_def tile_codes split: option.split)
  then show ?thesis by (simp add: read_telemetry_answer [OF h(1)] read_telemetry_answer [OF assms(1)])
qed simp

text \<open>C35: only a purge looks at the legal hold: while the subject of a sensor is under hold, purging its record is refused, but deleting
  the same record succeeds.\<close>

theorem delete_ignores_hold:
  assumes "governed (en_crc env) sha disk" "disk_room env (Suc k) disk" "gate_open env TILE_TELEMETRY"
    "read_telemetry env sensor metric ts ts disk = Some (Ok (r # rs))"
    "is_subject_under_legal_hold (actor_id_to_subject_id (ucast sensor)) (disk_sieve (en_crc env) disk) = Some True"
  shows "purge_telemetry_record env sensor metric ts disk =
      Some (Err (IoPermissionDenied ''Purge blocked: participant subject is under active legal hold''), disk) \<and>
    (\<exists>disk'. delete_telemetry env sensor metric ts disk = Some (Ok True, disk'))"
proof -
  obtain rd where rd: "reader_open (en_crc env) disk = Ok rd" "sieve_new (en_crc env) rd = disk_sieve (en_crc env) disk"
    using assms(1) by (rule governed_reader)
  have ok: "archive_ok (en_crc env) disk" using assms(1) by (simp add: governed_def)
  obtain tile disk' where "create_telemetry env [mark_tombstone r] disk = (Ok tile, disk')"
    by (rule create_telemetry_succeeds [OF ok assms(2,3)])
  with rd assms(4,5) show ?thesis by (simp add: purge_telemetry_record_def delete_telemetry_def and_return_def)
qed

section \<open>Instances\<close>

text \<open>An archive without marks and erasures hides nothing.\<close>

definition no_policy :: "tile option list \<Rightarrow> bool" where
  "no_policy ts \<longleftrightarrow> mark_log ts = Some [] \<and> erasure_log ts = Some []"

lemma no_policy_visible:
  assumes "no_policy (disk_tiles (en_crc env) disk)"
  shows "last_visible env disk"
  using assms is_marked_of_log [of "disk_sieve (en_crc env) disk" "[]"]
  by (auto simp: no_policy_def last_visible_def is_record_hidden_def is_record_erased_def is_record_hash_erased_def
      query_erasure_records_def marked_in_def marks_of_def split: option.split)

lemma no_policy_append: "ht_tile_type g = TILE_TELEMETRY \<Longrightarrow> no_policy (ts @ [Some (g, p)]) = no_policy ts"
  by (simp add: no_policy_def typed_records_other tile_codes)

lemma demo_append:
  assumes "governed demo_crc (en_sha demo_env) disk" "numbered (disk_tiles demo_crc disk)" "disk_room demo_env (Suc k) disk"
    "no_policy (disk_tiles demo_crc disk)"
  obtains tile disk' where "create_telemetry demo_env [r] disk = (Ok tile, disk')" "governed demo_crc (en_sha demo_env) disk'"
    "numbered (disk_tiles demo_crc disk')" "disk_room demo_env k disk'" "no_policy (disk_tiles demo_crc disk')"
    "consent_log (disk_tiles demo_crc disk') = consent_log (disk_tiles demo_crc disk)"
    "\<forall>sensor metric min_ts max_ts. telemetry_candidates demo_env sensor metric min_ts max_ts disk' =
      map_option (\<lambda>cs. cs @ matches_at min_ts max_ts (Some sensor) (Some metric) (length (disk_tiles demo_crc disk)) [r])
        (telemetry_candidates demo_env sensor metric min_ts max_ts disk)"
proof -
  have a: "governed (en_crc demo_env) (en_sha demo_env) disk" "archive_ok (en_crc demo_env) disk" "numbered (disk_tiles (en_crc demo_env) disk)"
    using assms(1,2) by (simp_all add: governed_def)
  obtain tile disk' where c: "create_telemetry demo_env [r] disk = (Ok tile, disk')"
    by (rule create_telemetry_succeeds [OF a(2) assms(3) demo_gate])
  obtain g where g: "archive_ok (en_crc demo_env) disk'" "disk_room demo_env k disk'" "numbered (disk_tiles (en_crc demo_env) disk')"
    "disk_tiles (en_crc demo_env) disk' = disk_tiles (en_crc demo_env) disk @ [Some (g, pod_bytes telemetry_bytes [r])]"
    "describes (length (disk_tiles (en_crc demo_env) disk)) TILE_TELEMETRY (length [r]) (pod_bytes telemetry_bytes [r]) (map tl_timestamp [r]) g"
    by (rule telemetry_appended [OF a(2,3) assms(3) c])
  have n: "no_policy (disk_tiles demo_crc disk')"
    using no_policy_append [of g "disk_tiles demo_crc disk"] g(4,5) assms(4) by (simp add: describes_def)
  have v: "last_visible demo_env disk'" by (rule no_policy_visible) (simp add: n)
  have l: "consent_log (disk_tiles demo_crc disk') = consent_log (disk_tiles demo_crc disk)"
    using typed_records_other [of g TILE_CONSENT _ _ "disk_tiles demo_crc disk"] g(4,5) by (simp add: describes_def tile_codes)
  show thesis
    using that [OF c _ _ g(2) n l] create_telemetry_governed [OF a(1) assms(3) c] g(3) visible_appended [OF a(2,3) assms(3) c v] by simp
qed

definition demo_record :: telemetry_record where
  "demo_record = telemetry_new 100 5 7 42"

lemma demo_record_simps [simp]: "tl_timestamp demo_record = 100" "tl_sensor_id demo_record = 5" "tl_metric_id demo_record = 7"
  "\<not> telemetry_tombstone demo_record" "telemetry_key demo_record = (5, 7, 100)"
  by (simp_all add: demo_record_def telemetry_new_def telemetry_tombstone_def FLAG_ACTIVE_def telemetry_key_def)

lemma demo_fresh: "numbered (disk_tiles demo_crc demo_disk)" "no_policy (disk_tiles demo_crc demo_disk)"
  "telemetry_candidates demo_env sensor metric min_ts max_ts demo_disk = Some []"
  by (simp_all add: demo_governed numbered_def no_policy_def telemetry_candidates_def)

text \<open>The archive with one record.\<close>

lemma demo_recorded:
  obtains tile disk1 where "create_telemetry demo_env [demo_record] demo_disk = (Ok tile, disk1)" "governed demo_crc (en_sha demo_env) disk1"
    "numbered (disk_tiles demo_crc disk1)" "disk_room demo_env 2 disk1" "no_policy (disk_tiles demo_crc disk1)"
    "read_telemetry demo_env 5 7 100 100 disk1 = Some (Ok [demo_record])" "read_telemetry demo_env 5 7 0 200 disk1 = Some (Ok [demo_record])"
    "consent_log (disk_tiles demo_crc disk1) = Some []"
proof -
  have g: "governed demo_crc (en_sha demo_env) demo_disk" using demo_start(1) by simp
  obtain tile disk1 where d: "create_telemetry demo_env [demo_record] demo_disk = (Ok tile, disk1)" "governed demo_crc (en_sha demo_env) disk1"
    "numbered (disk_tiles demo_crc disk1)" "disk_room demo_env 2 disk1" "no_policy (disk_tiles demo_crc disk1)"
    "consent_log (disk_tiles demo_crc disk1) = consent_log (disk_tiles demo_crc demo_disk)"
    "\<forall>sensor metric min_ts max_ts. telemetry_candidates demo_env sensor metric min_ts max_ts disk1 =
      map_option (\<lambda>cs. cs @ matches_at min_ts max_ts (Some sensor) (Some metric) (length (disk_tiles demo_crc demo_disk)) [demo_record])
        (telemetry_candidates demo_env sensor metric min_ts max_ts demo_disk)"
    by (rule demo_append [OF g demo_fresh(1) demo_start(2) demo_fresh(2), where r = demo_record])
  have "archive_ok (en_crc demo_env) disk1" using d(2) by (simp add: governed_def)
  from read_telemetry_answer [OF this]
  have "read_telemetry demo_env 5 7 min_ts max_ts disk1 = Some (Ok [demo_record])" if "min_ts \<le> 100" "100 \<le> max_ts" for min_ts max_ts
    using that answer_insert [of demo_record "[]"] by (simp add: d(7) demo_fresh(3) matches_at_one telemetry_matches_def answer_def)
  then show thesis using that [OF d(1-5)] d(6) by (simp add: demo_governed)
qed

theorem created_record_read_back_witness:
  "\<exists>tile disk1. create_telemetry demo_env [demo_record] demo_disk = (Ok tile, disk1) \<and>
    read_telemetry demo_env 5 7 0 200 disk1 = Some (Ok [demo_record]) \<and> read_telemetry demo_env 5 7 0 99 disk1 = Some (Ok [])"
proof -
  obtain tile disk1 where d: "create_telemetry demo_env [demo_record] demo_disk = (Ok tile, disk1)" "no_policy (disk_tiles demo_crc disk1)"
    by (rule demo_recorded)
  have a: "archive_ok (en_crc demo_env) demo_disk" "numbered (disk_tiles (en_crc demo_env) demo_disk)"
    using demo_start(1) demo_fresh(1) by (simp_all add: governed_def)
  have v: "last_visible demo_env disk1" by (rule no_policy_visible) (simp add: d(2))
  have r: "read_telemetry demo_env (tl_sensor_id demo_record) (tl_metric_id demo_record) min_ts max_ts demo_disk = Some (Ok [])" for min_ts max_ts
    by (simp add: read_telemetry_answer [OF a(1)] demo_fresh(3) answer_def)
  from created_record_read_back [OF a demo_start(2) d(1) v demo_record_simps(4) r, of 0 200]
    created_record_read_back [OF a demo_start(2) d(1) v demo_record_simps(4) r, of 0 99] d(1)
  show ?thesis by simp
qed

lemma demo_deleted:
  assumes "governed demo_crc (en_sha demo_env) disk1" "numbered (disk_tiles demo_crc disk1)" "disk_room demo_env 2 disk1"
    "no_policy (disk_tiles demo_crc disk1)" "read_telemetry demo_env 5 7 100 100 disk1 = Some (Ok [demo_record])"
  obtains disk2 where "delete_telemetry demo_env 5 7 100 disk1 = Some (Ok True, disk2)" "no_policy (disk_tiles demo_crc disk2)"
    "archive_ok demo_crc disk2" "disk_room demo_env (Suc 0) disk2"
proof -
  have room: "disk_room demo_env (Suc (Suc 0)) disk1" using assms(3) by (simp add: numeral_2_eq_2)
  obtain tile disk2 where "create_telemetry demo_env [mark_tombstone demo_record] disk1 = (Ok tile, disk2)" "governed demo_crc (en_sha demo_env) disk2"
    "no_policy (disk_tiles demo_crc disk2)" "disk_room demo_env (Suc 0) disk2"
    by (rule demo_append [OF assms(1,2) room assms(4), where r = "mark_tombstone demo_record"])
  then show thesis using that [of disk2] assms(5) by (simp add: delete_telemetry_def and_return_def governed_def)
qed

theorem deleted_version_gone_witness:
  "\<exists>disk1 disk2. read_telemetry demo_env 5 7 0 200 disk1 = Some (Ok [demo_record]) \<and>
    delete_telemetry demo_env 5 7 100 disk1 = Some (Ok True, disk2) \<and> read_telemetry demo_env 5 7 0 200 disk2 = Some (Ok [])"
proof -
  obtain disk1 where d: "governed demo_crc (en_sha demo_env) disk1" "numbered (disk_tiles demo_crc disk1)" "disk_room demo_env 2 disk1"
    "no_policy (disk_tiles demo_crc disk1)" "read_telemetry demo_env 5 7 100 100 disk1 = Some (Ok [demo_record])"
    "read_telemetry demo_env 5 7 0 200 disk1 = Some (Ok [demo_record])" by (rule demo_recorded)
  obtain disk2 where e: "delete_telemetry demo_env 5 7 100 disk1 = Some (Ok True, disk2)" "no_policy (disk_tiles demo_crc disk2)"
    by (rule demo_deleted [OF d(1-5)])
  have a: "archive_ok (en_crc demo_env) disk1" "numbered (disk_tiles (en_crc demo_env) disk1)" "disk_room demo_env (Suc 1) disk1"
    using d by (simp_all add: governed_def numeral_2_eq_2)
  have v: "last_visible demo_env disk2" by (rule no_policy_visible) (simp add: e(2))
  from deleted_version_gone [OF a e(1) v d(6)] d(6) e(1) show ?thesis by auto
qed

theorem query_latest_versions_witness:
  "\<exists>tile disk1 out. create_telemetry demo_env [demo_record] demo_disk = (Ok tile, disk1) \<and>
    query_telemetry_with_coords (en_f64 demo_env) (en_cast_error demo_env) (en_sha demo_env) 0 200 (Some 5) (Some 7) (disk_sieve demo_crc disk1) = Some out \<and>
    map fst out = [demo_record] \<and> sorted_wrt (<) (map (telemetry_key \<circ> fst) out)"
proof -
  obtain tile disk1 where d: "create_telemetry demo_env [demo_record] demo_disk = (Ok tile, disk1)" "governed demo_crc (en_sha demo_env) disk1"
    "read_telemetry demo_env 5 7 0 200 disk1 = Some (Ok [demo_record])" by (rule demo_recorded)
  obtain rd where "reader_open demo_crc disk1 = Ok rd" "sieve_new demo_crc rd = disk_sieve demo_crc disk1" using d(2) by (rule governed_reader)
  then obtain out where o: "query_telemetry_with_coords (en_f64 demo_env) (en_cast_error demo_env) (en_sha demo_env) 0 200 (Some 5) (Some 7)
      (disk_sieve demo_crc disk1) = Some out" "map fst out = [demo_record]"
    using d(3) by (auto simp: read_telemetry_def query_telemetry_def simp del: demo_env_simps(5))
  from query_latest_versions [OF o(1)] o d(1) show ?thesis by (auto simp del: demo_env_simps(5))
qed

theorem updated_record_replaced_witness:
  "\<exists>disk1 disk2. read_telemetry demo_env 5 7 100 100 disk1 = Some (Ok [demo_record]) \<and>
    update_telemetry demo_env 5 7 100 43 disk1 = Some (Ok True, disk2) \<and>
    read_telemetry demo_env 5 7 100 100 disk2 = Some (Ok [telemetry_new 100 5 7 43])"
proof -
  obtain disk1 where d: "governed demo_crc (en_sha demo_env) disk1" "numbered (disk_tiles demo_crc disk1)" "disk_room demo_env 2 disk1"
    "no_policy (disk_tiles demo_crc disk1)" "read_telemetry demo_env 5 7 100 100 disk1 = Some (Ok [demo_record])" by (rule demo_recorded)
  have g: "governed (en_crc demo_env) (en_sha demo_env) disk1" "numbered (disk_tiles (en_crc demo_env) disk1)"
    "disk_room demo_env (Suc (Suc 0)) disk1" using d(1-3) by (simp_all add: numeral_2_eq_2)
  obtain tile2 disk2 where e: "create_telemetry demo_env [mark_tombstone demo_record] disk1 = (Ok tile2, disk2)"
    "governed demo_crc (en_sha demo_env) disk2" "numbered (disk_tiles demo_crc disk2)" "disk_room demo_env (Suc 0) disk2"
    "no_policy (disk_tiles demo_crc disk2)" by (rule demo_append [OF d(1,2) g(3) d(4), where r = "mark_tombstone demo_record"])
  obtain tile3 disk3 where f: "create_telemetry demo_env [telemetry_new 100 5 7 43] disk2 = (Ok tile3, disk3)" "no_policy (disk_tiles demo_crc disk3)"
    by (rule demo_append [OF e(2-5), where r = "telemetry_new 100 5 7 43"])
  have u: "update_telemetry demo_env 5 7 100 43 disk1 = Some (Ok True, disk3)"
    using d(5) e(1) f(1) by (simp add: update_telemetry_def delete_telemetry_def and_return_def)
  have v: "last_visible demo_env disk3" by (rule no_policy_visible) (simp add: f(2))
  from updated_record_replaced [OF g u v] d(5) u show ?thesis by blast
qed

theorem quarantined_tombstone_resurrects_witness:
  "\<exists>disk1 disk2 disk3 tile. read_telemetry demo_env 5 7 0 200 disk1 = Some (Ok [demo_record]) \<and>
    delete_telemetry demo_env 5 7 100 disk1 = Some (Ok True, disk2) \<and>
    mark_record_op demo_env TILE_TELEMETRY (of_nat (length (disk_tiles demo_crc disk2))) 0 MARK_QUARANTINE True 150 5 disk2 = (Ok tile, disk3) \<and>
    read_telemetry demo_env 5 7 0 200 disk3 = Some (Ok [demo_record])"
proof -
  obtain disk1 where d: "governed demo_crc (en_sha demo_env) disk1" "numbered (disk_tiles demo_crc disk1)" "disk_room demo_env 2 disk1"
    "no_policy (disk_tiles demo_crc disk1)" "read_telemetry demo_env 5 7 100 100 disk1 = Some (Ok [demo_record])"
    "read_telemetry demo_env 5 7 0 200 disk1 = Some (Ok [demo_record])" by (rule demo_recorded)
  obtain disk2 where e: "delete_telemetry demo_env 5 7 100 disk1 = Some (Ok True, disk2)" "no_policy (disk_tiles demo_crc disk2)"
    "archive_ok demo_crc disk2" "disk_room demo_env (Suc 0) disk2" by (rule demo_deleted [OF d(1-5)])
  have a: "archive_ok (en_crc demo_env) disk1" "numbered (disk_tiles (en_crc demo_env) disk1)" "disk_room demo_env (Suc (Suc 0)) disk1"
    "archive_ok (en_crc demo_env) disk2" using d(1-3) e(3) by (simp_all add: governed_def numeral_2_eq_2)
  define gen where "gen = (case reader_open (en_crc demo_env) disk2 of Ok r \<Rightarrow> fh_generation (mr_active_header r) | Err _ \<Rightarrow> 1)"
  define m where "m = mark_new TILE_TELEMETRY (of_nat (length (disk_tiles demo_crc disk2))) 0 gen MARK_QUARANTINE MARK_SET 150 5"
  have "length (pod_bytes mark_bytes [m]) \<le> HYPER_TILE_PAYLOAD_SIZE"
    using mark_codec.length_pod_bytes [of "[m]"] by (simp add: tile_sizes m_def mark_new_def)
  from append_records_succeeds [OF a(4) e(4) demo_gate this, of TILE_MARKS 1 "[mk_timestamp m]"]
  obtain tile disk3 where f: "create_marks demo_env [m] disk2 = (Ok tile, disk3)" by (auto simp: create_marks_def)
  then have o: "mark_record_op demo_env TILE_TELEMETRY (of_nat (length (disk_tiles (en_crc demo_env) disk2))) 0 MARK_QUARANTINE True 150 5 disk2 =
      (Ok tile, disk3)" by (simp add: mark_record_op_def gen_def [symmetric, simplified] m_def Let_def)
  have v: "last_visible demo_env disk2" by (rule no_policy_visible) (simp add: e(2))
  from quarantined_tombstone_resurrects [OF a(1-3) e(1) v o, of 0 200] d(6) e(1) o show ?thesis by auto
qed

theorem delete_ignores_hold_witness:
  "\<exists>disk1 disk2. is_subject_under_legal_hold (actor_id_to_subject_id 5) (disk_sieve demo_crc disk1) = Some True \<and>
    purge_telemetry_record demo_env 5 7 100 disk1 =
      Some (Err (IoPermissionDenied ''Purge blocked: participant subject is under active legal hold''), disk1) \<and>
    delete_telemetry demo_env 5 7 100 disk1 = Some (Ok True, disk2)"
proof -
  define sub where "sub = actor_id_to_subject_id 5"
  have sub: "length sub = 16" by (simp add: sub_def actor_id_to_subject_id_def)
  define r where "r = consent_new (en_sha demo_env) sub 7 Research 1 100 200 True 5 no_hash"
  have r: "consent_shape r" "consent_verify_hash (en_sha demo_env) r" "cn_subject_id r = sub" "consent_is_legal_hold r"
    "cn_prev_consent_hash r = chain_end cn_consent_hash no_hash (subject_log (cn_subject_id r) [])"
    using new_records_valid(1) [of "en_sha demo_env" sub no_hash] sub by (simp_all add: r_def consent_is_legal_hold_def del: demo_env_simps(5))
  obtain tile disk1 where d: "governed demo_crc (en_sha demo_env) disk1" "numbered (disk_tiles demo_crc disk1)" "disk_room demo_env 2 disk1"
    "no_policy (disk_tiles demo_crc disk1)" "read_telemetry demo_env 5 7 100 100 disk1 = Some (Ok [demo_record])"
    "consent_log (disk_tiles demo_crc disk1) = Some []" by (rule demo_recorded)
  have a: "governed (en_crc demo_env) (en_sha demo_env) disk1" "archive_ok (en_crc demo_env) disk1" "disk_room demo_env (Suc (Suc 0)) disk1"
    "consent_log (disk_tiles (en_crc demo_env) disk1) = Some []"
    using d by (simp_all add: governed_def numeral_2_eq_2)
  obtain n disk2 where c: "create_consent_record demo_env r True disk1 = (Ok n, disk2)"
    by (rule create_consent_record_succeeds [OF a(2,3) demo_gate r(1,2)])
  from a(1,3) c r(1) a(4) r(5) have l: "governed (en_crc demo_env) (en_sha demo_env) disk2" "disk_room demo_env (Suc 0) disk2"
    "consent_log (disk_tiles demo_crc disk2) = Some [r]"
    by (cases rule: linked_consent_cases; simp)+
  from a(2,3) c r(1) obtain g where g: "disk_tiles (en_crc demo_env) disk2 = disk_tiles (en_crc demo_env) disk1 @ [Some (g, pod_bytes consent_bytes [r])]"
    "ht_tile_type g = TILE_CONSENT" "ht_tile_id g = of_nat (length (disk_tiles (en_crc demo_env) disk1)) + 1"
    by (cases rule: create_consent_record_cases) auto
  have n2: "numbered (disk_tiles (en_crc demo_env) disk2)" using g d(2) by (simp add: numbered_append)
  have "ht_tile_type g \<noteq> TILE_MARKS" "ht_tile_type g \<noteq> TILE_ERASURE" using g(2) by (simp_all add: tile_codes)
  note same = candidates_append [OF g(1) n2 archive_tiles_less [OF a(2)] this, of 5 7 100 100]
  have "archive_ok (en_crc demo_env) disk2" using l(1) by (simp add: governed_def)
  from read_telemetry_answer [OF this, of 5 7 100 100] read_telemetry_answer [OF a(2), of 5 7 100 100] same d(5)
  have read: "read_telemetry demo_env 5 7 100 100 disk2 = Some (Ok [demo_record])"
    using g(2) by (auto simp: tile_candidates_def tile_codes split: option.splits)
  have hold: "is_subject_under_legal_hold (actor_id_to_subject_id (ucast (5 :: u32))) (disk_sieve (en_crc demo_env) disk2) = Some True"
    using under_legal_hold_of_log [OF l(3), of sub] r(3,4) by (simp add: sub_def)
  from delete_ignores_hold [OF l(1,2) demo_gate read hold] hold show ?thesis by auto
qed

end
