(* ===== verification/Engine_Typed.thy ===== *)
theory Engine_Typed
  imports Engine_Telemetry
begin

text \<open>
  What the engine writes it can read: every tile of an archive that the engine made holds whole records of its type under the next
  identifier, so that no query and no later call panics on a payload.
\<close>

section \<open>Typed tiles\<close>

definition typed_tile :: "tile option \<Rightarrow> bool" where
  "typed_tile t \<longleftrightarrow> (case t of Some (h, p) \<Rightarrow> whole_records (ht_tile_type h) p | None \<Rightarrow> False)"

definition typed_archive :: "crc_crate \<Rightarrow> byte list \<Rightarrow> bool" where
  "typed_archive cc disk \<longleftrightarrow> archive_ok cc disk \<and> numbered (disk_tiles cc disk) \<and> list_all typed_tile (disk_tiles cc disk)"

lemma typed_archive_ok: "typed_archive cc disk \<Longrightarrow> archive_ok cc disk"
  by (simp add: typed_archive_def)

lemma typed_records_readable:
  "list_all typed_tile ts \<Longrightarrow> record_width ty = Some w \<Longrightarrow> typed_records w dec ty ts \<noteq> None"
  by (induction ts) (auto simp: typed_tile_def whole_records_def cast_slice_def split: option.splits)

lemma typed_logs:
  assumes "list_all typed_tile ts"
  shows "mark_log ts \<noteq> None" "erasure_log ts \<noteq> None" "consent_log ts \<noteq> None"
  by (rule typed_records_readable [OF assms], simp add: record_width_def tile_codes)+

section \<open>Every call keeps the tiles typed\<close>

lemma append_typed:
  assumes "typed_archive (en_crc env) disk" "disk_room env (Suc k) disk" "append_records env ty n bs ts disk = (res, disk')"
    "whole_records ty bs"
  shows "typed_archive (en_crc env) disk' \<and> disk_room env k disk'"
  using typed_archive_ok [OF assms(1)] assms(2,3)
proof (cases rule: append_records_cases)
  case refused
  then show ?thesis using assms(1) disk_room_mono [OF assms(2), of k] by simp
next
  case (appended g)
  then show ?thesis using assms(1,4) by (simp add: typed_archive_def numbered_append typed_tile_def describes_def add.commute)
qed

lemma whole_records_known: "record_width ty = Some w \<Longrightarrow> whole_records ty bs \<longleftrightarrow> length bs mod w = 0"
  by (simp add: whole_records_def)

lemma create_typed:
  assumes "typed_archive (en_crc env) disk" "disk_room env (Suc k) disk"
  shows "create_telemetry env records disk = (res, disk') \<Longrightarrow> typed_archive (en_crc env) disk' \<and> disk_room env k disk'"
    "list_all (\<lambda>m. length (mk_padding m) = 3) marks \<Longrightarrow> create_marks env marks disk = (res, disk') \<Longrightarrow>
      typed_archive (en_crc env) disk' \<and> disk_room env k disk'"
    "create_learning_activities env activities disk = (res, disk') \<Longrightarrow> typed_archive (en_crc env) disk' \<and> disk_room env k disk'"
    "list_all consent_shape cs \<Longrightarrow> create_consent_records env cs auth disk = (res, disk') \<Longrightarrow>
      typed_archive (en_crc env) disk' \<and> disk_room env k disk'"
    "list_all erasure_shape es \<Longrightarrow> create_erasure_records env es auth disk = (res, disk') \<Longrightarrow>
      typed_archive (en_crc env) disk' \<and> disk_room env k disk'"
proof -
  have same: "typed_archive (en_crc env) disk \<and> disk_room env k disk" using assms disk_room_mono [OF assms(2), of k] by simp
  note a = append_typed [OF assms]
  have w: "whole_records TILE_TELEMETRY = (\<lambda>bs. length bs mod 32 = 0)" "whole_records TILE_MARKS = (\<lambda>bs. length bs mod 64 = 0)"
    "whole_records TILE_RESERVED_BOUNDARY = (\<lambda>bs. length bs mod 64 = 0)"
    "whole_records TILE_CONSENT = (\<lambda>bs. length bs mod 136 = 0)" "whole_records TILE_ERASURE = (\<lambda>bs. length bs mod 144 = 0)"
    by (simp_all add: fun_eq_iff whole_records_def record_width_def tile_codes)
  show "typed_archive (en_crc env) disk' \<and> disk_room env k disk'" if "create_telemetry env records disk = (res, disk')"
    using that a same telemetry_codec.length_pod_bytes [of records] by (auto simp: w create_telemetry_def list_all_iff split: if_splits)
  show "typed_archive (en_crc env) disk' \<and> disk_room env k disk'"
    if "list_all (\<lambda>m. length (mk_padding m) = 3) marks" "create_marks env marks disk = (res, disk')"
    using that a same mark_codec.length_pod_bytes [of marks] by (auto simp: w create_marks_def split: if_splits)
  show "typed_archive (en_crc env) disk' \<and> disk_room env k disk'" if "create_learning_activities env activities disk = (res, disk')"
  proof -
    obtain u where "open_append (en_crc env) disk = Ok u" "df_bytes (tw_file u) = disk"
      using typed_archive_ok [OF assms(1)] by (rule archive_okE)
    then show ?thesis
      using that a same learning_codec.length_pod_bytes [of activities]
      by (auto simp: w create_learning_activities_def list_all_iff split: if_splits)
  qed
  show "typed_archive (en_crc env) disk' \<and> disk_room env k disk'"
    if "list_all consent_shape cs" "create_consent_records env cs auth disk = (res, disk')"
    using that a same consent_codec.length_pod_bytes [of cs] by (auto simp: w create_consent_records_def split: if_splits)
  show "typed_archive (en_crc env) disk' \<and> disk_room env k disk'"
    if "list_all erasure_shape es" "create_erasure_records env es auth disk = (res, disk')"
    using that a same erasure_codec.length_pod_bytes [of es] by (auto simp: w create_erasure_records_def split: if_splits)
qed

lemma array_whole_records [simp]: "whole_records TILE_ARRAY bs"
  by (simp add: whole_records_def record_width_def TILE_ARRAY_def tile_codes)

lemma other_calls_typed:
  assumes "typed_archive (en_crc env) disk" "disk_room env (Suc k) disk"
  shows "write_array_chunk env al payload disk = (res, disk') \<Longrightarrow> typed_archive (en_crc env) disk'"
    "case hull of Some h \<Rightarrow> simplex_hull_shape h | None \<Rightarrow> True \<Longrightarrow> whole_records ty bs \<Longrightarrow>
      append_tile_records env ty n al bs ts hull ks disk = (res, disk') \<Longrightarrow> typed_archive (en_crc env) disk'"
proof -
  note ok = typed_archive_ok [OF assms(1)]
  show "typed_archive (en_crc env) disk'" if "write_array_chunk env al payload disk = (res, disk')"
    using ok assms(2) that
    by (cases rule: write_array_chunk_cases)
      (use assms(1) in \<open>auto simp: typed_archive_def numbered_append typed_tile_def add.commute\<close>)
  show "typed_archive (en_crc env) disk'" if "case hull of Some h \<Rightarrow> simplex_hull_shape h | None \<Rightarrow> True" "whole_records ty bs"
    "append_tile_records env ty n al bs ts hull ks disk = (res, disk')"
    using ok assms(2) that(3,1)
    by (cases rule: append_tile_records_cases)
      (use assms(1) that(2) in \<open>auto simp: typed_archive_def numbered_append typed_tile_def add.commute\<close>)
qed

section \<open>No query panics\<close>

lemma or_else_readable: "a \<noteq> None \<Longrightarrow> b \<noteq> None \<Longrightarrow> or_else a b \<noteq> None"
  by (auto simp: or_else_def split: bool.split)

lemma typed_cast:
  "typed_tile (Some (h, p)) \<Longrightarrow> record_width (ht_tile_type h) = Some w \<Longrightarrow> cast_slice w dec p \<noteq> None"
  by (simp add: typed_tile_def whole_records_def cast_slice_def)

lemma policy_readable:
  assumes "list_all typed_tile (qs_tiles s)"
  shows "is_marked ty tid ix kind s \<noteq> None" "is_record_hidden sha ty tid ix s \<noteq> None" "is_subject_under_legal_hold sub s \<noteq> None"
    "is_subject_consent_active_for_purpose sub study purpose now s \<noteq> None" "is_actor_allowed actor s \<noteq> None"
    "query_erasure_records None s \<noteq> None" "query_consent_records (Some sub) s \<noteq> None"
  using typed_logs [OF assms] hidden_readable [of s sha ty tid ix]
  by (auto simp: is_marked_def is_subject_under_legal_hold_def is_subject_consent_active_for_purpose_def is_actor_allowed_def
      is_subject_allowed_def query_erasure_records_def query_consent_records_def split: option.split)

lemma tile_candidates_typed:
  assumes "list_all typed_tile (qs_tiles s)" "typed_tile t"
  shows "tile_candidates fo ce sha min_ts max_ts sensor metric s i t \<noteq> None"
proof (cases t)
  case (Some u)
  obtain h p where u: "u = (h, p)" by (cases u)
  have ty: "ht_tile_type h \<noteq> TILE_COLUMNAR"
    using assms(2) by (auto simp: Some u typed_tile_def whole_records_def record_width_def tile_codes)
  have c: "cast_slice 32 telemetry_of_bytes p \<noteq> None" if "ht_tile_type h = TILE_TELEMETRY \<or> ht_tile_type h = TILE_HYBRID"
    by (rule typed_cast [OF assms(2) [unfolded Some u]]) (use that in \<open>auto simp: record_width_def\<close>)
  have "scan_records (\<lambda>k r. is_record_hidden sha (ht_tile_type h) (ht_tile_id h) (of_nat k) s) keep i 0 rs \<noteq> None" for keep rs
    by (rule scan_readable) (rule policy_readable(2) [OF assms(1)])
  then show ?thesis using ty c by (auto simp: Some u tile_candidates_def split: option.split)
qed (simp add: tile_candidates_def)

lemma learning_candidates_typed:
  assumes "list_all typed_tile (qs_tiles s)" "typed_tile t"
  shows "learning_candidates sha min_ts max_ts actor verb s i t \<noteq> None"
proof (cases t)
  case (Some u)
  obtain h p where u: "u = (h, p)" by (cases u)
  have c: "cast_slice 64 learning_of_bytes p \<noteq> None" if "ht_tile_type h = TILE_RESERVED_BOUNDARY \<or> ht_tile_type h = 10"
    by (rule typed_cast [OF assms(2) [unfolded Some u]]) (use that in \<open>auto simp: record_width_def tile_codes\<close>)
  have "scan_records (\<lambda>k r. or_else (is_record_hidden sha (ht_tile_type h) (ht_tile_id h) (of_nat k) s)
      (map_option Not (is_actor_allowed (la_actor_id r) s))) keep i 0 rs \<noteq> None" for keep rs
    by (rule scan_readable, rule or_else_readable, rule policy_readable(2) [OF assms(1)])
      (use policy_readable(5) [OF assms(1)] in simp)
  then show ?thesis using c by (auto simp: Some u learning_candidates_def split: option.split)
qed (simp add: learning_candidates_def)

lemma all_candidates_typed:
  "(\<And>i t. t \<in> set ts \<Longrightarrow> f i t \<noteq> None) \<Longrightarrow> all_candidates f i ts \<noteq> None"
  by (induction ts arbitrary: i) (auto split: option.split)

lemma telemetry_cast_typed:
  "typed_tile (Some (h, p)) \<Longrightarrow> ht_tile_type h = TILE_TELEMETRY \<Longrightarrow> cast_slice 32 telemetry_of_bytes p \<noteq> None"
  using typed_cast [of h p 32] by (simp add: record_width_def)

lemma target_subject_held_typed:
  "list_all typed_tile ts \<Longrightarrow> (\<And>sub. held sub \<noteq> None) \<Longrightarrow> target_subject_held held tid ix ts \<noteq> None"
proof (induction ts)
  case (Cons t ts)
  then show ?case using or_else_readable telemetry_cast_typed [of "fst (the t)" "snd (the t)"]
    by (cases t) (auto simp del: not_None_eq split: option.splits prod.splits)
qed simp

lemma first_target_typed: "list_all typed_tile ts \<Longrightarrow> first_target tid ix ts \<noteq> None"
proof (induction ts)
  case (Cons t ts)
  then show ?case using telemetry_cast_typed [of "fst (the t)" "snd (the t)"]
    by (cases t) (auto simp del: not_None_eq split: option.splits prod.splits)
qed simp

lemma erasure_checks_typed:
  assumes "list_all typed_tile (qs_tiles s)"
  shows "erasure_checks ty tid ix h s \<noteq> None"
proof -
  obtain m where m: "is_marked ty tid ix MARK_LEGAL_HOLD s = Some m" using policy_readable(1) [OF assms] by blast
  obtain b where b: "target_subject_held (\<lambda>sub. is_subject_under_legal_hold sub s) tid ix (qs_tiles s) = Some b"
    using target_subject_held_typed [OF assms, of "\<lambda>sub. is_subject_under_legal_hold sub s" tid ix] policy_readable(3) [OF assms] by blast
  obtain es where "query_erasure_records None s = Some es" using policy_readable(6) [OF assms] by blast
  with m b show ?thesis by (cases m; cases b) (simp_all add: erasure_checks_def)
qed

section \<open>Runs\<close>

lemma typed_reader:
  assumes "typed_archive cc disk"
  obtains r where "reader_open cc disk = Ok r" "sieve_new cc r = disk_sieve cc disk" "reader_tiles cc r = disk_tiles cc disk"
    "list_all typed_tile (disk_tiles cc disk)"
  using assms archive_ok_reader [of cc disk] by (auto simp: typed_archive_def sieve_of_disk)

lemma prev_consent_hash_typed:
  assumes "typed_archive (en_crc env) disk"
  obtains h where "prev_consent_hash env sub disk = Some h" "length h = 32"
proof -
  obtain r where r: "reader_open (en_crc env) disk = Ok r" "sieve_new (en_crc env) r = disk_sieve (en_crc env) disk"
    "list_all typed_tile (disk_tiles (en_crc env) disk)" using assms by (rule typed_reader)
  obtain cs where cs: "consent_log (disk_tiles (en_crc env) disk) = Some cs" using typed_logs(3) [OF r(3)] by blast
  have "prev_consent_hash env sub disk = Some (chain_end cn_consent_hash no_hash (subject_log sub cs))"
    using r cs by (simp add: prev_consent_hash_def query_consent_of_subject chain_end_def)
  then show thesis using that subject_log_hash_length [OF cs] by simp
qed

lemma read_telemetry_typed:
  assumes "typed_archive (en_crc env) disk"
  obtains rs where "read_telemetry env sensor metric min_ts max_ts disk = Some (Ok rs)"
proof -
  have l: "list_all typed_tile (qs_tiles (disk_sieve (en_crc env) disk))" using assms by (simp add: typed_archive_def)
  then have "telemetry_candidates env sensor metric min_ts max_ts disk \<noteq> None" unfolding telemetry_candidates_def
    by (intro all_candidates_typed tile_candidates_typed) (auto simp: list_all_iff)
  then show thesis using that by (auto simp: read_telemetry_answer [OF typed_archive_ok [OF assms]])
qed

lemma read_learning_typed:
  assumes "typed_archive (en_crc env) disk"
  shows "read_learning_activities env actor verb min_ts max_ts disk \<noteq> None"
proof -
  obtain r where r: "reader_open (en_crc env) disk = Ok r" "sieve_new (en_crc env) r = disk_sieve (en_crc env) disk"
    "list_all typed_tile (disk_tiles (en_crc env) disk)" using assms by (rule typed_reader)
  then have "all_candidates (learning_candidates (en_sha env) min_ts max_ts actor verb (disk_sieve (en_crc env) disk)) 0
      (qs_tiles (disk_sieve (en_crc env) disk)) \<noteq> None"
    by (intro all_candidates_typed learning_candidates_typed) (auto simp: list_all_iff)
  with r show ?thesis by (simp add: read_learning_activities_def query_learning_activities_def)
qed

lemma append_tombstone_typed:
  assumes "typed_archive (en_crc env) disk" "disk_room env (Suc k) disk"
  obtains disk' where "append_tombstone env tid ix disk = Some disk'" "typed_archive (en_crc env) disk'"
proof -
  obtain r where r: "reader_open (en_crc env) disk = Ok r" "reader_tiles (en_crc env) r = disk_tiles (en_crc env) disk"
    "list_all typed_tile (disk_tiles (en_crc env) disk)" using assms(1) by (rule typed_reader)
  obtain x where x: "first_target tid ix (disk_tiles (en_crc env) disk) = Some x" using first_target_typed [OF r(3)] by blast
  show thesis
  proof (cases x)
    case None
    then show thesis using that [of disk] assms(1) r x by (simp add: append_tombstone_def)
  next
    case (Some tgt)
    obtain res disk' where "create_telemetry env [mark_tombstone tgt] disk = (res, disk')" by (metis prod.exhaust)
    then show thesis using that [of disk'] create_typed(1) [OF assms] r x Some by (simp add: append_tombstone_def)
  qed
qed

lemma record_erasure_typed:
  assumes "typed_archive (en_crc env) disk" "disk_room env (Suc (Suc k)) disk" "\<And>bs. length (en_sha env bs) = 32" "length h = 32"
  obtains res disk' where "record_erasure env ty tid ix h reason authority req ex auth disk = Some (res, disk')" "typed_archive (en_crc env) disk'"
proof (cases auth)
  case False
  then show thesis using that assms(1) by (simp add: record_erasure_def)
next
  case True
  let ?s = "disk_sieve (en_crc env) disk"
  obtain r where r: "reader_open (en_crc env) disk = Ok r" "sieve_new (en_crc env) r = ?s"
    "list_all typed_tile (disk_tiles (en_crc env) disk)" using assms(1) by (rule typed_reader)
  obtain es where es: "erasure_log (disk_tiles (en_crc env) disk) = Some es" using typed_logs(2) [OF r(3)] by blast
  have "erasure_checks ty tid ix h ?s \<noteq> None" using r(3) by (intro erasure_checks_typed) simp
  then obtain gate where g: "erasure_checks ty tid ix h ?s = Some gate" by blast
  show thesis
  proof (cases gate)
    case (LinkTo prev)
    have "prev = chain_end er_erasure_hash no_hash es" using g LinkTo es
      by (auto simp: erasure_checks_def query_erasure_all chain_end_def split: option.splits bool.splits)
    then have p: "length prev = 32" using erasure_end_length [OF es] by simp
    define e where "e = erasure_new (en_sha env) h ty tid ix reason authority req ex prev"
    have shape: "erasure_shape e" using new_records_valid(3) [OF assms(3,4) p] by (simp add: e_def)
    obtain res1 disk1 where c: "create_erasure_record env e True disk = (res1, disk1)" by (metis prod.exhaust)
    have "list_all erasure_shape [e]" "create_erasure_records env [e] True disk = (res1, disk1)"
      using shape c by (simp_all add: create_erasure_record_def)
    note t1 = create_typed(5) [OF assms(1,2) this]
    obtain disk2 where d: "append_tombstone env tid ix disk1 = Some disk2" "typed_archive (en_crc env) disk2"
      using t1 append_tombstone_typed by metis
    show thesis using that r g LinkTo c t1 d True
      by (cases res1; cases "ty = TILE_TELEMETRY") (simp_all add: record_erasure_def e_def Let_def)
  qed (use that assms(1) r g True in \<open>simp_all add: record_erasure_def\<close>)
qed

lemma consent_calls_typed:
  assumes "typed_archive (en_crc env) disk" "disk_room env (Suc k) disk" "\<And>bs. length (en_sha env bs) = 32" "length sub = 16"
  shows "grant_consent env sub study purpose scope at e hold granter auth disk = Some (res, disk') \<Longrightarrow> typed_archive (en_crc env) disk'"
    "withdraw_consent env sub study purpose scope at granter auth disk = Some (res, disk') \<Longrightarrow> typed_archive (en_crc env) disk'"
proof -
  obtain h where h: "prev_consent_hash env sub disk = Some h" "length h = 32" using assms(1) by (rule prev_consent_hash_typed)
  have step: "typed_archive (en_crc env) disk'" if "consent_shape c" "and_return x (create_consent_record env c auth disk) = (res, disk')"
    for c res disk' and x :: consent_record
    using that create_typed(4) [OF assms(1,2), of "[c]" auth]
    by (auto simp: create_consent_record_def and_return_def split: prod.splits sum.splits)
  show "typed_archive (en_crc env) disk'" if "grant_consent env sub study purpose scope at e hold granter auth disk = Some (res, disk')"
    by (rule step [OF new_records_valid(1) [of "en_sha env" sub h, OF assms(3,4) h(2), THEN conjunct1]])
      (use that h in \<open>simp add: grant_consent_def Let_def\<close>)
  show "typed_archive (en_crc env) disk'" if "withdraw_consent env sub study purpose scope at granter auth disk = Some (res, disk')"
    by (rule step [OF new_records_valid(2) [of "en_sha env" sub h, OF assms(3,4) h(2), THEN conjunct1]])
      (use that h in \<open>simp add: withdraw_consent_def Let_def\<close>)
qed

lemma delete_telemetry_typed:
  assumes "typed_archive (en_crc env) disk" "disk_room env (Suc k) disk"
  obtains res disk' where "delete_telemetry env sensor metric ts disk = Some (res, disk')" "typed_archive (en_crc env) disk'" "disk_room env k disk'"
proof -
  obtain rs where "read_telemetry env sensor metric ts ts disk = Some (Ok rs)" using assms(1) by (rule read_telemetry_typed)
  then have "delete_telemetry env sensor metric ts disk \<noteq> None" by (cases rs) (simp_all add: delete_telemetry_def)
  then obtain res disk' where d: "delete_telemetry env sensor metric ts disk = Some (res, disk')" by auto
  have "typed_archive (en_crc env) disk' \<and> disk_room env k disk'"
    using delete_telemetry_disk [OF d] create_typed(1) [OF assms] assms(1) disk_room_mono [OF assms(2), of k] by auto
  with d that show thesis by blast
qed

lemma update_telemetry_typed:
  assumes "typed_archive (en_crc env) disk" "disk_room env (Suc (Suc k)) disk"
  obtains res disk' where "update_telemetry env sensor metric ts v disk = Some (res, disk')" "typed_archive (en_crc env) disk'"
proof -
  obtain res1 disk1 where d: "delete_telemetry env sensor metric ts disk = Some (res1, disk1)" "typed_archive (en_crc env) disk1"
    "disk_room env (Suc k) disk1" by (rule delete_telemetry_typed [OF assms])
  obtain res2 disk2 where c: "create_telemetry env [telemetry_new ts sensor metric v] disk1 = (res2, disk2)" by (metis prod.exhaust)
  show thesis using that d c create_typed(1) [OF d(2,3) c]
    by (cases res1; cases res2) (auto simp: update_telemetry_def and_return_def)
qed

lemma purge_telemetry_typed:
  assumes "typed_archive (en_crc env) disk" "disk_room env (Suc k) disk"
  obtains res disk' where "purge_telemetry_record env sensor metric ts disk = Some (res, disk')" "typed_archive (en_crc env) disk'"
proof -
  obtain r where r: "reader_open (en_crc env) disk = Ok r" "sieve_new (en_crc env) r = disk_sieve (en_crc env) disk"
    "list_all typed_tile (disk_tiles (en_crc env) disk)" using assms(1) by (rule typed_reader)
  obtain b where b: "is_subject_under_legal_hold (actor_id_to_subject_id (ucast sensor)) (disk_sieve (en_crc env) disk) = Some b"
    using policy_readable(3) [of "disk_sieve (en_crc env) disk"] r(3) by auto
  obtain res disk' where "delete_telemetry env sensor metric ts disk = Some (res, disk')" "typed_archive (en_crc env) disk'"
    by (rule delete_telemetry_typed [OF assms])
  with that assms(1) b r show thesis by (cases b) (simp_all add: purge_telemetry_record_def)
qed

lemma crud_step_typed:
  assumes "crud_step cc sha disk disk'" "typed_archive cc disk" "\<And>bs. length (sha bs) = 32"
  shows "typed_archive cc disk'"
  using assms(1)
proof cases
  case (st_telemetry env records res)
  with assms(2) create_typed(1) [of env disk 0] show ?thesis by simp
next
  case (st_marks env marks res)
  with assms(2) create_typed(2) [of env disk 0] show ?thesis by simp
next
  case (st_learning env activities res)
  with assms(2) create_typed(3) [of env disk 0] show ?thesis by simp
next
  case (st_addon env m res)
  with assms(2) enable_addon_store [of env disk m res disk'] show ?thesis by (simp add: typed_archive_def)
next
  case (st_grant env sub study purpose scope at e hold granter auth res)
  with assms(2,3) consent_calls_typed(1) [of env disk 0 sub study purpose scope at e hold granter auth res disk'] show ?thesis by simp
next
  case (st_withdraw env sub study purpose scope at granter auth res)
  with assms(2,3) consent_calls_typed(2) [of env disk 0 sub study purpose scope at granter auth res disk'] show ?thesis by simp
next
  case (st_erase env h ty tid ix reason authority req ex auth res)
  have a: "typed_archive (en_crc env) disk" "disk_room env (Suc (Suc 0)) disk" "\<And>bs. length (en_sha env bs) = 32"
    using st_erase assms(2,3) by (simp_all add: numeral_2_eq_2)
  obtain res' d where "record_erasure env ty tid ix h reason authority req ex auth disk = Some (res', d)" "typed_archive (en_crc env) d"
    by (rule record_erasure_typed [OF a st_erase(4)])
  with st_erase show ?thesis by simp
next
  case (st_delete env sensor metric ts res)
  have a: "typed_archive (en_crc env) disk" "disk_room env (Suc 0) disk" using st_delete assms(2) by simp_all
  obtain res' d where "delete_telemetry env sensor metric ts disk = Some (res', d)" "typed_archive (en_crc env) d"
    by (rule delete_telemetry_typed [OF a])
  with st_delete show ?thesis by simp
next
  case (st_update env sensor metric ts v res)
  have a: "typed_archive (en_crc env) disk" "disk_room env (Suc (Suc 0)) disk" using st_update assms(2) by (simp_all add: numeral_2_eq_2)
  obtain res' d where "update_telemetry env sensor metric ts v disk = Some (res', d)" "typed_archive (en_crc env) d"
    by (rule update_telemetry_typed [OF a])
  with st_update show ?thesis by simp
next
  case (st_purge env sensor metric ts res)
  have a: "typed_archive (en_crc env) disk" "disk_room env (Suc 0) disk" using st_purge assms(2) by simp_all
  obtain res' d where "purge_telemetry_record env sensor metric ts disk = Some (res', d)" "typed_archive (en_crc env) d"
    by (rule purge_telemetry_typed [OF a])
  with st_purge show ?thesis by simp
qed

lemma engine_step_typed:
  assumes "engine_step cc sha disk disk'" "typed_archive cc disk" "\<And>bs. length (sha bs) = 32"
  shows "typed_archive cc disk'"
  using assms(1)
proof cases
  case es_crud
  with assms(2,3) show ?thesis by (blast intro: crud_step_typed)
next
  case (es_consents env records auth res)
  with assms(2) create_typed(4) [of env disk 0 records] show ?thesis by simp
next
  case (es_erasures env records auth res)
  with assms(2) create_typed(5) [of env disk 0 records] show ?thesis by simp
next
  case (es_array env al payload res)
  with assms(2) other_calls_typed(1) [of env disk 0 al payload res disk'] show ?thesis by simp
next
  case (es_append env hull ty bs n al ts ks res)
  with assms(2) other_calls_typed(2) [of env disk 0 hull ty bs n al ts ks res disk'] show ?thesis by simp
qed

lemma engine_run_typed:
  assumes "(engine_step cc sha)\<^sup>*\<^sup>* disk disk'" "typed_archive cc disk" "\<And>bs. length (sha bs) = 32"
  shows "typed_archive cc disk'"
  using assms by (induction rule: rtranclp_induct) (auto intro: engine_step_typed)

text \<open>C8: no query and no further call panics on what the engine wrote.  Take any run of writing calls on a fresh archive, each while
  the archive has room for its commits: creates of every type with any well-shaped records, marks, grants, withdrawals, erasures,
  deletions, updates, purges, addons, array chunks, and \<^verbatim>\<open>append_tile_records\<close> with whole records of the tile's type, or with
  anything under a type that no query casts; not compaction, and no columnar tiles, which compaction writes.  Then every tile opens
  under the number of its place with whole records of its type, and none of the casts behind a query or a call panics: telemetry and learning
  queries, mark and hold decisions, grants, withdrawals, erasures, deletions, updates and purges return, as long as the
  archive has room for what they add.\<close>

theorem engine_never_panics:
  assumes "fh_header_crc32 (first_slot cc now uuid) \<noteq> 0" "\<And>bs. length (sha bs) = 32"
    "(engine_step cc sha)\<^sup>*\<^sup>* (df_bytes (tw_file (create_with_uuid cc now uuid))) disk"
    "en_crc env = cc" "en_sha env = sha" "disk_room env 2 disk" "length h = 32"
  shows "typed_archive cc disk \<and>
    read_telemetry env sensor metric min_ts max_ts disk \<noteq> None \<and> read_learning_activities env actor verb min_ts max_ts disk \<noteq> None \<and>
    is_marked ty tid ix kind (disk_sieve cc disk) \<noteq> None \<and> is_subject_under_legal_hold sub (disk_sieve cc disk) \<noteq> None \<and>
    grant_consent env sub study purpose scope at e hold granter auth disk \<noteq> None \<and>
    withdraw_consent env sub study purpose scope at granter auth disk \<noteq> None \<and>
    record_erasure env ty tid ix h reason authority req ex auth disk \<noteq> None \<and>
    delete_telemetry env sensor metric ts disk \<noteq> None \<and> update_telemetry env sensor metric ts v disk \<noteq> None \<and>
    purge_telemetry_record env sensor metric ts disk \<noteq> None"
proof (intro conjI)
  have f: "typed_archive cc (df_bytes (tw_file (create_with_uuid cc now uuid)))"
    using fresh_governed(1) [OF assms(1), of sha] fresh_governed(2) [OF assms(1)] by (simp add: typed_archive_def governed_def numbered_def)
  show t: "typed_archive cc disk" by (rule engine_run_typed [OF assms(3) f assms(2)])
  have t': "typed_archive (en_crc env) disk" "disk_room env (Suc (Suc 0)) disk" "disk_room env (Suc 0) disk" "\<And>bs. length (en_sha env bs) = 32"
    using t assms(2,4-6) disk_room_mono [OF assms(6), of 1] by (simp_all add: numeral_2_eq_2)
  have l: "list_all typed_tile (qs_tiles (disk_sieve cc disk))" using t by (simp add: typed_archive_def)
  obtain rs where "read_telemetry env sensor metric min_ts max_ts disk = Some (Ok rs)" using t'(1) by (rule read_telemetry_typed)
  then show "read_telemetry env sensor metric min_ts max_ts disk \<noteq> None" by simp
  show "read_learning_activities env actor verb min_ts max_ts disk \<noteq> None" by (rule read_learning_typed [OF t'(1)])
  show "is_marked ty tid ix kind (disk_sieve cc disk) \<noteq> None" "is_subject_under_legal_hold sub (disk_sieve cc disk) \<noteq> None"
    by (rule policy_readable [OF l])+
  obtain p where "prev_consent_hash env sub disk = Some p" using t'(1) by (rule prev_consent_hash_typed)
  then show "grant_consent env sub study purpose scope at e hold granter auth disk \<noteq> None"
    "withdraw_consent env sub study purpose scope at granter auth disk \<noteq> None" by (simp_all add: grant_consent_def withdraw_consent_def)
  from record_erasure_typed [OF t'(1,2,4) assms(7)]
  show "record_erasure env ty tid ix h reason authority req ex auth disk \<noteq> None" by (metis option.distinct(1))
  from delete_telemetry_typed [OF t'(1,3)]
  show "delete_telemetry env sensor metric ts disk \<noteq> None" by (metis option.distinct(1))
  from update_telemetry_typed [OF t'(1,2)]
  show "update_telemetry env sensor metric ts v disk \<noteq> None" by (metis option.distinct(1))
  from purge_telemetry_typed [OF t'(1,3)]
  show "purge_telemetry_record env sensor metric ts disk \<noteq> None" by (metis option.distinct(1))
qed

text \<open>The condition on \<^verbatim>\<open>append_tile_records\<close> is needed: a telemetry tile whose payload is not a whole number of records, which that
  call writes when it is given records of another size, makes every query over its time panic.\<close>

lemma all_candidates_panics:
  "t \<in> set ts \<Longrightarrow> (\<And>i. f i t = None) \<Longrightarrow> all_candidates f i ts = None"
  by (induction ts arbitrary: i) (auto split: option.split)

theorem ragged_telemetry_panics:
  assumes "Some (h, p) \<in> set (qs_tiles s)" "ht_tile_type h = TILE_TELEMETRY" "length p mod 32 \<noteq> 0" "\<not> can_reject_tile_time h min_ts max_ts"
  shows "query_telemetry fo ce sha min_ts max_ts None None s = None"
proof -
  have "cast_slice 32 telemetry_of_bytes p = None" using assms(3) by (simp add: cast_slice_def)
  then have "tile_candidates fo ce sha min_ts max_ts None None s i (Some (h, p)) = None" for i
    using assms(2,4) by (simp add: tile_candidates_def tile_codes)
  from all_candidates_panics [where f = "tile_candidates fo ce sha min_ts max_ts None None s", OF assms(1) this] show ?thesis
    by (simp add: query_telemetry_def query_telemetry_with_coords_def)
qed

theorem engine_never_panics_witness:
  "\<exists>tile disk1. create_telemetry demo_env [demo_record] demo_disk = (Ok tile, disk1) \<and> typed_archive demo_crc disk1 \<and>
    update_telemetry demo_env 5 7 100 43 disk1 \<noteq> None"
proof -
  obtain tile disk1 where d: "create_telemetry demo_env [demo_record] demo_disk = (Ok tile, disk1)" "disk_room demo_env 2 disk1"
    by (rule demo_recorded)
  have "engine_step demo_crc (en_sha demo_env) demo_disk disk1"
    by (rule es_crud, rule st_telemetry [OF _ _ d(1)]) (simp_all add: disk_room_mono [OF demo_room])
  then have run: "(engine_step demo_crc (en_sha demo_env))\<^sup>*\<^sup>* (df_bytes (tw_file (create_with_uuid demo_crc 7 (1, 2)))) disk1"
    by (simp add: demo_disk_def demo_writer_def)
  have "length (replicate 32 0 :: byte list) = 32" by simp
  from engine_never_panics [OF demo_first_slot demo_env_simps(3) run demo_env_simps(1) refl d(2) this, where sensor = 5 and metric = 7 and ts = 100 and v = 43 and
      min_ts = 0 and max_ts = 0 and actor = None and verb = None and ty = 0 and tid = 0 and ix = 0 and kind = 0 and sub = "[]" and study = 0 and
      purpose = Research and scope = 0 and at = 0 and e = 0 and hold = False and granter = 0 and auth = True and reason = ErWithdrawal and
      authority = 0 and req = 0 and ex = 0]
  have "typed_archive demo_crc disk1 \<and> update_telemetry demo_env 5 7 100 43 disk1 \<noteq> None" by blast
  with d(1) show ?thesis by blast
qed

end
