(* ===== verification/Vcs_Records.thy ===== *)
theory Vcs_Records
  imports Core_Governance Hash_Chain
begin

text \<open>
  The records of the version control of archives, \<^verbatim>\<open>crates/s3a-vcs/src/records.rs\<close>: commits, references and human
  resolutions, the bytes that are signed, and the checks of the signatures.  SHA-256 (\<open>sha\<close>) and the verification of
  Ed25519 (\<open>ed\<close>, applied to key, message and signature) are parameters, as is the signer of a new record.  A text of the
  source is the list of its UTF-8 bytes.
\<close>

type_synonym text_bytes = "byte list"

record signer =
  sg_pubkey :: "byte list"
  sg_sign :: "byte list \<Rightarrow> byte list"

text \<open>A text in a field of fixed size: cut at the size and padded with zeros; read up to the first zero.\<close>

definition text_field :: "nat \<Rightarrow> text_bytes \<Rightarrow> byte list" where
  "text_field n s = patch 0 (take n s) (replicate n 0)"

definition field_text :: "byte list \<Rightarrow> text_bytes" where
  "field_text bs = takeWhile (\<lambda>b. b \<noteq> 0) bs"

section \<open>Commits\<close>

definition VCS_COMMIT_MESSAGE_MAX :: nat where "VCS_COMMIT_MESSAGE_MAX = 256"

record vcs_commit =
  vc_commit_id :: "byte list"
  vc_seal_hash :: "byte list"
  vc_author_pubkey :: "byte list"
  vc_author_address_prefix :: "byte list"
  vc_author_checksum :: u8
  vc_parent_count :: u8
  vc_pad :: "byte list"
  vc_parent_seal_hashes :: "byte list \<times> byte list"
  vc_committed_timestamp :: u64
  vc_signature :: "byte list"
  vc_message_bytes :: "byte list"

definition commit_bytes :: "vcs_commit \<Rightarrow> byte list" where
  "commit_bytes c =
     vc_commit_id c @ vc_seal_hash c @ vc_author_pubkey c @ vc_author_address_prefix c @ vc_author_checksum c # vc_parent_count c #
     vc_pad c @ fst (vc_parent_seal_hashes c) @ snd (vc_parent_seal_hashes c) @ le64 (vc_committed_timestamp c) @
     vc_signature c @ vc_message_bytes c"

definition commit_of_bytes :: "byte list \<Rightarrow> vcs_commit" where
  "commit_of_bytes bs =
     \<lparr> vc_commit_id = window 0 32 bs, vc_seal_hash = window 32 32 bs, vc_author_pubkey = window 64 32 bs,
       vc_author_address_prefix = window 96 8 bs, vc_author_checksum = bs ! 104, vc_parent_count = bs ! 105,
       vc_pad = window 106 6 bs, vc_parent_seal_hashes = (window 112 32 bs, window 144 32 bs),
       vc_committed_timestamp = of_le (window 176 8 bs), vc_signature = window 184 64 bs, vc_message_bytes = window 248 256 bs \<rparr>"

definition commit_shape :: "vcs_commit \<Rightarrow> bool" where
  "commit_shape c \<longleftrightarrow> length (vc_commit_id c) = 32 \<and> length (vc_seal_hash c) = 32 \<and> length (vc_author_pubkey c) = 32 \<and>
     length (vc_author_address_prefix c) = 8 \<and> length (vc_pad c) = 6 \<and> length (fst (vc_parent_seal_hashes c)) = 32 \<and>
     length (snd (vc_parent_seal_hashes c)) = 32 \<and> length (vc_signature c) = 64 \<and> length (vc_message_bytes c) = 256"

definition commit_envelope :: "byte list \<Rightarrow> u8 \<Rightarrow> byte list \<times> byte list \<Rightarrow> u64 \<Rightarrow> text_bytes \<Rightarrow> byte list" where
  "commit_envelope seal_hash parent_count parent_seal_hashes committed_timestamp message =
     ascii ''S3ACOMMIT1'' @ seal_hash @ [parent_count] @ fst parent_seal_hashes @ snd parent_seal_hashes @
     le64 committed_timestamp @ take VCS_COMMIT_MESSAGE_MAX message"

definition compute_commit_id :: "(byte list \<Rightarrow> byte list) \<Rightarrow> byte list \<Rightarrow> byte list" where
  "compute_commit_id sha envelope = sha envelope"

definition commit_verify_signature ::
  "(byte list \<Rightarrow> byte list) \<Rightarrow> (byte list \<Rightarrow> byte list \<Rightarrow> byte list \<Rightarrow> bool) \<Rightarrow> vcs_commit \<Rightarrow> bool" where
  "commit_verify_signature sha ed c =
    (let msg = field_text (vc_message_bytes c)
     in if \<not> utf8_valid msg then False
        else let envelope = commit_envelope (vc_seal_hash c) (vc_parent_count c) (vc_parent_seal_hashes c)
               (vc_committed_timestamp c) msg
        in if compute_commit_id sha envelope \<noteq> vc_commit_id c then False
           else ed (vc_author_pubkey c) envelope (vc_signature c))"

definition commit_message :: "vcs_commit \<Rightarrow> text_bytes" where
  "commit_message c = (let msg = field_text (vc_message_bytes c) in if utf8_valid msg then msg else [])"

text \<open>The record that \<^verbatim>\<open>VcsRepo::commit\<close> builds and signs for a seal hash.\<close>

definition new_commit ::
  "(byte list \<Rightarrow> byte list) \<Rightarrow> signer \<Rightarrow> byte list \<times> u8 \<Rightarrow> byte list \<Rightarrow> u8 \<Rightarrow> byte list \<times> byte list \<Rightarrow> u64 \<Rightarrow> text_bytes \<Rightarrow> vcs_commit" where
  "new_commit sha signing_key gate_addr prospective_seal_hash parent_count parent_seal_hashes now message =
    (let env = commit_envelope prospective_seal_hash parent_count parent_seal_hashes now message
     in \<lparr> vc_commit_id = compute_commit_id sha env, vc_seal_hash = prospective_seal_hash, vc_author_pubkey = sg_pubkey signing_key,
          vc_author_address_prefix = fst gate_addr, vc_author_checksum = snd gate_addr, vc_parent_count = parent_count,
          vc_pad = replicate 6 0, vc_parent_seal_hashes = parent_seal_hashes, vc_committed_timestamp = now,
          vc_signature = sg_sign signing_key env, vc_message_bytes = text_field VCS_COMMIT_MESSAGE_MAX message \<rparr>)"

section \<open>References\<close>

definition REF_KIND_BRANCH :: u16 where "REF_KIND_BRANCH = 1"
definition REF_KIND_TAG :: u16 where "REF_KIND_TAG = 2"
definition VCS_REF_NAME_MAX :: nat where "VCS_REF_NAME_MAX = 64"

record vcs_ref =
  vr_ref_kind :: u16
  vr_pad :: "byte list"
  vr_target_seal_hash :: "byte list"
  vr_author_pubkey :: "byte list"
  vr_updated_timestamp :: u64
  vr_signature :: "byte list"
  vr_name :: "byte list"

definition ref_bytes :: "vcs_ref \<Rightarrow> byte list" where
  "ref_bytes r =
     le16 (vr_ref_kind r) @ vr_pad r @ vr_target_seal_hash r @ vr_author_pubkey r @ le64 (vr_updated_timestamp r) @
     vr_signature r @ vr_name r"

definition ref_of_bytes :: "byte list \<Rightarrow> vcs_ref" where
  "ref_of_bytes bs =
     \<lparr> vr_ref_kind = of_le (window 0 2 bs), vr_pad = window 2 6 bs, vr_target_seal_hash = window 8 32 bs,
       vr_author_pubkey = window 40 32 bs, vr_updated_timestamp = of_le (window 72 8 bs), vr_signature = window 80 64 bs,
       vr_name = window 144 64 bs \<rparr>"

definition ref_shape :: "vcs_ref \<Rightarrow> bool" where
  "ref_shape r \<longleftrightarrow> length (vr_pad r) = 6 \<and> length (vr_target_seal_hash r) = 32 \<and> length (vr_author_pubkey r) = 32 \<and>
     length (vr_signature r) = 64 \<and> length (vr_name r) = 64"

definition ref_envelope :: "u16 \<Rightarrow> text_bytes \<Rightarrow> byte list \<Rightarrow> u64 \<Rightarrow> byte list" where
  "ref_envelope ref_kind name target_seal_hash updated_timestamp =
     ascii ''S3AREF01'' @ le16 ref_kind @ take VCS_REF_NAME_MAX name @ target_seal_hash @ le64 updated_timestamp"

definition ref_verify_signature :: "(byte list \<Rightarrow> byte list \<Rightarrow> byte list \<Rightarrow> bool) \<Rightarrow> vcs_ref \<Rightarrow> bool" where
  "ref_verify_signature ed r =
    (let name = field_text (vr_name r)
     in if \<not> utf8_valid name then False
        else ed (vr_author_pubkey r) (ref_envelope (vr_ref_kind r) name (vr_target_seal_hash r) (vr_updated_timestamp r)) (vr_signature r))"

definition ref_name :: "vcs_ref \<Rightarrow> text_bytes" where
  "ref_name r = (let name = field_text (vr_name r) in if utf8_valid name then name else [])"

text \<open>The record that \<^verbatim>\<open>set_branch\<close> and \<^verbatim>\<open>set_tag\<close> build and sign.\<close>

definition new_ref :: "signer \<Rightarrow> u16 \<Rightarrow> text_bytes \<Rightarrow> byte list \<Rightarrow> u64 \<Rightarrow> vcs_ref" where
  "new_ref signing_key ref_kind name target_seal_hash now =
     \<lparr> vr_ref_kind = ref_kind, vr_pad = replicate 6 0, vr_target_seal_hash = target_seal_hash,
       vr_author_pubkey = sg_pubkey signing_key, vr_updated_timestamp = now,
       vr_signature = sg_sign signing_key (ref_envelope ref_kind name target_seal_hash now),
       vr_name = text_field VCS_REF_NAME_MAX name \<rparr>"

section \<open>Resolutions\<close>

definition RESOLUTION_CHOICE_TARGET :: u8 where "RESOLUTION_CHOICE_TARGET = 1"
definition RESOLUTION_CHOICE_SOURCE :: u8 where "RESOLUTION_CHOICE_SOURCE = 2"
definition RESOLUTION_CHOICE_SYNTHESIS :: u8 where "RESOLUTION_CHOICE_SYNTHESIS = 3"
definition VCS_RECORD_ID_MAX :: nat where "VCS_RECORD_ID_MAX = 64"
definition VCS_RATIONALE_MAX :: nat where "VCS_RATIONALE_MAX = 128"

record vcs_resolution =
  vs_resolution_id :: "byte list"
  vs_resolver_pubkey :: "byte list"
  vs_chosen_side :: u8
  vs_pad :: "byte list"
  vs_resolved_timestamp :: u64
  vs_signature :: "byte list"
  vs_record_id :: "byte list"
  vs_rationale :: "byte list"
  vs_reserved :: "byte list"

definition resolution_bytes :: "vcs_resolution \<Rightarrow> byte list" where
  "resolution_bytes r =
     vs_resolution_id r @ vs_resolver_pubkey r @ vs_chosen_side r # vs_pad r @ le64 (vs_resolved_timestamp r) @ vs_signature r @
     vs_record_id r @ vs_rationale r @ vs_reserved r"

definition resolution_of_bytes :: "byte list \<Rightarrow> vcs_resolution" where
  "resolution_of_bytes bs =
     \<lparr> vs_resolution_id = window 0 32 bs, vs_resolver_pubkey = window 32 32 bs, vs_chosen_side = bs ! 64, vs_pad = window 65 7 bs,
       vs_resolved_timestamp = of_le (window 72 8 bs), vs_signature = window 80 64 bs, vs_record_id = window 144 64 bs,
       vs_rationale = window 208 128 bs, vs_reserved = window 336 16 bs \<rparr>"

definition resolution_shape :: "vcs_resolution \<Rightarrow> bool" where
  "resolution_shape r \<longleftrightarrow> length (vs_resolution_id r) = 32 \<and> length (vs_resolver_pubkey r) = 32 \<and> length (vs_pad r) = 7 \<and>
     length (vs_signature r) = 64 \<and> length (vs_record_id r) = 64 \<and> length (vs_rationale r) = 128 \<and> length (vs_reserved r) = 16"

definition resolution_envelope :: "text_bytes \<Rightarrow> u8 \<Rightarrow> u64 \<Rightarrow> text_bytes \<Rightarrow> byte list" where
  "resolution_envelope record_id chosen_side resolved_timestamp rationale =
     ascii ''S3AVCS_RES1'' @ [chosen_side] @ le64 resolved_timestamp @ record_id @ [0] @ rationale"

definition resolution_new_signed :: "(byte list \<Rightarrow> byte list) \<Rightarrow> u64 \<Rightarrow> text_bytes \<Rightarrow> u8 \<Rightarrow> text_bytes \<Rightarrow> signer \<Rightarrow> vcs_resolution" where
  "resolution_new_signed sha now record_id chosen_side rationale signing_key =
    (let env = resolution_envelope record_id chosen_side now rationale
     in \<lparr> vs_resolution_id = sha env, vs_resolver_pubkey = sg_pubkey signing_key, vs_chosen_side = chosen_side,
          vs_pad = replicate 7 0, vs_resolved_timestamp = now, vs_signature = sg_sign signing_key env,
          vs_record_id = text_field VCS_RECORD_ID_MAX record_id, vs_rationale = text_field VCS_RATIONALE_MAX rationale,
          vs_reserved = replicate 16 0 \<rparr>)"

text \<open>\<^verbatim>\<open>String::from_utf8_lossy\<close>: each longest start of a character that does not go on as one becomes U+FFFD.\<close>

definition second_byte_ok :: "byte \<Rightarrow> byte \<Rightarrow> bool" where
  "second_byte_ok a b \<longleftrightarrow>
    (if a = 0xE0 then 0xA0 \<le> b \<and> b \<le> 0xBF else if a = 0xED then 0x80 \<le> b \<and> b \<le> 0x9F
     else if a = 0xF0 then 0x90 \<le> b \<and> b \<le> 0xBF else if a = 0xF4 then 0x80 \<le> b \<and> b \<le> 0x8F else utf8_tail b)"

definition char_width :: "byte \<Rightarrow> nat" where
  "char_width a = (if a < 0x80 then 1 else if 0xC2 \<le> a \<and> a \<le> 0xDF then 2 else if 0xE0 \<le> a \<and> a \<le> 0xEF then 3
     else if 0xF0 \<le> a \<and> a \<le> 0xF4 then 4 else 0)"

text \<open>How many bytes of the list belong to the character that its first byte starts.\<close>

definition char_run :: "byte list \<Rightarrow> nat" where
  "char_run bs = (case bs of [] \<Rightarrow> 0 | a # rest \<Rightarrow>
     if char_width a \<le> 1 then 1
     else (case rest of [] \<Rightarrow> 1 | b # tail \<Rightarrow>
       if second_byte_ok a b then 2 + length (takeWhile (\<lambda>t. utf8_tail t) (take (char_width a - 2) tail)) else 1))"

function utf8_lossy :: "byte list \<Rightarrow> text_bytes" where
  "utf8_lossy bs =
    (if bs = [] then []
     else (if char_run bs = char_width (hd bs) then take (char_run bs) bs else [0xEF, 0xBF, 0xBD]) @ utf8_lossy (drop (char_run bs) bs))"
  by pat_completeness auto

termination
  by (relation "measure length") (auto simp: char_run_def split: list.splits)

declare utf8_lossy.simps [simp del]

definition conflict_record_id :: "vcs_resolution \<Rightarrow> text_bytes" where
  "conflict_record_id r = utf8_lossy (field_text (vs_record_id r))"

definition rationale_text :: "vcs_resolution \<Rightarrow> text_bytes" where
  "rationale_text r = utf8_lossy (field_text (vs_rationale r))"

definition resolution_verify_signature :: "(byte list \<Rightarrow> byte list \<Rightarrow> byte list \<Rightarrow> bool) \<Rightarrow> vcs_resolution \<Rightarrow> bool" where
  "resolution_verify_signature ed r =
     ed (vs_resolver_pubkey r)
       (resolution_envelope (conflict_record_id r) (vs_chosen_side r) (vs_resolved_timestamp r) (rationale_text r)) (vs_signature r)"

section \<open>Layouts and texts\<close>

interpretation commit_codec: pod_codec commit_bytes commit_of_bytes 504 commit_shape
  by unfold_locales (simp_all add: commit_shape_def commit_bytes_def commit_of_bytes_def record_layout)

interpretation ref_codec: pod_codec ref_bytes ref_of_bytes 208 ref_shape
  by unfold_locales (simp_all add: ref_shape_def ref_bytes_def ref_of_bytes_def record_layout)

interpretation resolution_codec: pod_codec resolution_bytes resolution_of_bytes 352 resolution_shape
  by unfold_locales (simp_all add: resolution_shape_def resolution_bytes_def resolution_of_bytes_def record_layout)

lemma text_field_pad: "text_field n s = take n s @ replicate (n - length s) 0"
  by (simp add: text_field_def patch_def)

lemma length_text_field [simp]: "length (text_field n s) = n"
  by (simp add: text_field_pad)

lemma field_text_of_field: "field_text (text_field n s) = field_text (take n s)"
proof (cases "\<forall>b \<in> set (take n s). b \<noteq> 0")
  case True
  then have e: "takeWhile (\<lambda>b. b \<noteq> 0) (take n s) = take n s" by (simp only: takeWhile_eq_all_conv)
  show ?thesis using True by (simp add: e field_text_def text_field_pad takeWhile_append takeWhile_replicate)
next
  case False
  then show ?thesis unfolding field_text_def text_field_pad by (simp only: takeWhile_append if_False)
qed

text \<open>The texts that a field of \<open>n\<close> bytes can hold.\<close>

definition storable :: "nat \<Rightarrow> text_bytes \<Rightarrow> bool" where
  "storable n s \<longleftrightarrow> utf8_valid s \<and> 0 \<notin> set s \<and> length s \<le> n"

lemma field_text_storable: "storable n s \<Longrightarrow> field_text (text_field n s) = s"
  unfolding field_text_of_field by (auto simp: storable_def field_text_def takeWhile_eq_all_conv)

lemma utf8_first:
  "utf8_valid (a # bs) \<Longrightarrow> char_run (a # bs) = char_width a \<and> utf8_valid (drop (char_width a) (a # bs))"
  by (subst (asm) utf8_valid.simps)
    (auto simp: char_run_def char_width_def second_byte_ok_def split: if_splits list.splits)

lemma utf8_lossy_valid: "utf8_valid s \<Longrightarrow> utf8_lossy s = s"
proof (induction s rule: length_induct)
  case (1 s)
  show ?case
  proof (cases s)
    case (Cons a bs)
    with 1 utf8_first [of a bs] have u: "char_run s = char_width a" "utf8_valid (drop (char_width a) s)" by simp_all
    moreover have "0 < char_run s" by (simp add: char_run_def Cons split: list.split)
    ultimately have "utf8_lossy (drop (char_width a) s) = drop (char_width a) s" using 1 Cons by simp
    then show ?thesis using u by (subst utf8_lossy.simps) (simp add: Cons)
  qed (simp add: utf8_lossy.simps)
qed

lemma utf8_lossy_storable: "storable n s \<Longrightarrow> utf8_lossy (field_text (text_field n s)) = s"
  using utf8_lossy_valid by (simp add: field_text_storable storable_def)

lemma takeWhile_take_cut: "take n (takeWhile P (take n xs)) = takeWhile P (take n xs)"
  by (metis length_take length_takeWhile_le min.cobounded2 order_trans take_all)

lemma commit_envelope_take: "commit_envelope seal pc ps now (take 256 msg) = commit_envelope seal pc ps now msg"
  by (simp add: commit_envelope_def VCS_COMMIT_MESSAGE_MAX_def)

section \<open>What is signed is what is verified\<close>

lemma new_commit_simps [simp]:
  "vc_seal_hash (new_commit sha k ad seal pc ps now msg) = seal" "vc_parent_count (new_commit sha k ad seal pc ps now msg) = pc"
  "vc_parent_seal_hashes (new_commit sha k ad seal pc ps now msg) = ps" "vc_committed_timestamp (new_commit sha k ad seal pc ps now msg) = now"
  "vc_message_bytes (new_commit sha k ad seal pc ps now msg) = text_field 256 msg"
  "vc_author_pubkey (new_commit sha k ad seal pc ps now msg) = sg_pubkey k"
  "vc_commit_id (new_commit sha k ad seal pc ps now msg) = sha (commit_envelope seal pc ps now msg)"
  "vc_signature (new_commit sha k ad seal pc ps now msg) = sg_sign k (commit_envelope seal pc ps now msg)"
  by (simp_all add: new_commit_def Let_def VCS_COMMIT_MESSAGE_MAX_def compute_commit_id_def)

text \<open>C33: a new commit verifies exactly when the first 256 bytes of its message have no zero byte and end between two characters, and
  then its message reads as these bytes.  A message cut inside a character, or with a zero byte, makes a commit that never verifies.\<close>

theorem new_commit_verifies:
  assumes "\<And>m. ed (sg_pubkey k) m (sg_sign k m)"
    "collision_free sha [commit_envelope seal pc ps now msg] [commit_envelope seal pc ps now (field_text (take 256 msg))]"
  shows "if storable 256 (take 256 msg)
    then commit_verify_signature sha ed (new_commit sha k ad seal pc ps now msg) \<and>
      commit_message (new_commit sha k ad seal pc ps now msg) = take 256 msg
    else \<not> commit_verify_signature sha ed (new_commit sha k ad seal pc ps now msg)"
proof (cases "0 \<in> set (take 256 msg)")
  case True
  then have "take 256 msg \<noteq> take 256 (field_text (take 256 msg))"
    using takeWhile_eq_all_conv [of "\<lambda>b. b \<noteq> 0" "take 256 msg"] by (metis (mono_tags) field_text_def takeWhile_take_cut)
  then have "commit_envelope seal pc ps now msg \<noteq> commit_envelope seal pc ps now (field_text (take 256 msg))"
    by (simp add: commit_envelope_def VCS_COMMIT_MESSAGE_MAX_def)
  with assms(2) have "sha (commit_envelope seal pc ps now (field_text (take 256 msg))) \<noteq> sha (commit_envelope seal pc ps now msg)"
    by (auto simp: collision_free_def)
  with True show ?thesis
    by (simp add: commit_verify_signature_def field_text_of_field compute_commit_id_def storable_def)
next
  case False
  then have f: "field_text (take 256 msg) = take 256 msg" by (auto simp: field_text_def takeWhile_eq_all_conv)
  then show ?thesis using False assms(1)
    by (simp add: commit_verify_signature_def field_text_of_field compute_commit_id_def storable_def commit_message_def
        commit_envelope_take Let_def)
qed

text \<open>A toy signature: the key and the message, one behind the other.\<close>

definition toy_signer :: signer where
  "toy_signer = \<lparr> sg_pubkey = [7], sg_sign = (\<lambda>m. 7 # m) \<rparr>"

definition toy_ed :: "byte list \<Rightarrow> byte list \<Rightarrow> byte list \<Rightarrow> bool" where
  "toy_ed pk m s \<longleftrightarrow> s = pk @ m"

lemma toy_ed_signs: "toy_ed (sg_pubkey toy_signer) m (sg_sign toy_signer m)"
  by (simp add: toy_signer_def toy_ed_def)

theorem new_commit_verifies_witness:
  "commit_message (new_commit id toy_signer ([], 0) [1] 0 ([], []) 5 [0x61, 0x62]) = [0x61, 0x62] \<and>
    \<not> commit_verify_signature id toy_ed (new_commit id toy_signer ([], 0) [1] 0 ([], []) 5 [0x61, 0, 0x62])"
proof -
  have c: "collision_free id xs ys" for xs ys :: "byte list list" by (simp add: collision_free_def)
  note w = new_commit_verifies [where ed = toy_ed and k = toy_signer and sha = id and seal = "[1]" and pc = 0 and ps = "([], [])" and
      now = 5 and ad = "([], 0)", OF toy_ed_signs c]
  show ?thesis using w [of "[0x61, 0x62]"] w [of "[0x61, 0, 0x62]"]
    by (simp add: storable_def utf8_valid.simps)
qed

section \<open>Resolutions that verify\<close>

lemma resolution_new_simps [simp]:
  "vs_resolver_pubkey (resolution_new_signed sha now rid side rat k) = sg_pubkey k"
  "vs_chosen_side (resolution_new_signed sha now rid side rat k) = side"
  "vs_resolved_timestamp (resolution_new_signed sha now rid side rat k) = now"
  "vs_signature (resolution_new_signed sha now rid side rat k) = sg_sign k (resolution_envelope rid side now rat)"
  "vs_record_id (resolution_new_signed sha now rid side rat k) = text_field 64 rid"
  "vs_rationale (resolution_new_signed sha now rid side rat k) = text_field 128 rat"
  by (simp_all add: resolution_new_signed_def Let_def VCS_RECORD_ID_MAX_def VCS_RATIONALE_MAX_def)

lemma new_resolution_verifies:
  assumes "ed (sg_pubkey k) (resolution_envelope rid side now rat) (sg_sign k (resolution_envelope rid side now rat))"
    "storable 64 rid" "storable 128 rat"
  shows "resolution_verify_signature ed (resolution_new_signed sha now rid side rat k)"
    "conflict_record_id (resolution_new_signed sha now rid side rat k) = rid"
  using assms by (simp_all add: resolution_verify_signature_def conflict_record_id_def rationale_text_def utf8_lossy_storable)

text \<open>A plain text that is longer than its field is read back cut.\<close>

lemma plain_text_cut:
  assumes "\<forall>b \<in> set s. 0 < b \<and> b < 0x80"
  shows "utf8_lossy (field_text (text_field n s)) = take n s"
proof -
  have "storable n (take n s)" using assms
    by (auto simp: storable_def list_all_iff dest!: in_set_takeD intro!: utf8_all_ascii)
  moreover have "text_field n s = text_field n (take n s)" by (simp add: text_field_pad)
  ultimately show ?thesis using utf8_lossy_storable by metis
qed

lemma long_rationale_refused:
  assumes "storable 64 rid" "\<forall>b \<in> set rat. 0 < b \<and> b < 0x80" "128 < length rat"
    "\<And>m. ed (sg_pubkey k) m (sg_sign k (resolution_envelope rid side now rat)) \<Longrightarrow> m = resolution_envelope rid side now rat"
  shows "\<not> resolution_verify_signature ed (resolution_new_signed sha now rid side rat k)"
proof
  assume "resolution_verify_signature ed (resolution_new_signed sha now rid side rat k)"
  then have "resolution_envelope rid side now (take 128 rat) = resolution_envelope rid side now rat"
    using assms(1,4) by (simp add: resolution_verify_signature_def conflict_record_id_def rationale_text_def utf8_lossy_storable
        plain_text_cut [OF assms(2)])
  then have "length (take 128 rat) = length rat" by (simp add: resolution_envelope_def)
  with assms(3) show False by simp
qed

end
