(* ===== verification/Vcs_Frontier.thy ===== *)
theory Vcs_Frontier
  imports Vcs_Records Engine_Archive
begin

text \<open>
  Read-only queries over the graph of commits, \<^verbatim>\<open>crates/s3a-vcs/src/frontier.rs\<close>, and the walk of
  \<^verbatim>\<open>VcsRepo::log\<close> (\<^verbatim>\<open>repo.rs\<close>).  Commits are named by their seal hash; the edges go to the parents.  The printing of bytes as
  hexadecimal text (crate \<^verbatim>\<open>hex\<close>) is the parameter \<open>hex\<close>.
\<close>

section \<open>Errors\<close>

record conflict_detail =
  cd_record_id :: text_bytes
  cd_tile_type :: u32
  cd_type_name :: text_bytes
  cd_target_version :: text_bytes
  cd_source_version :: text_bytes
  cd_requires_human_judgment :: bool

text \<open>An error of the vault is its text.\<close>

datatype vcs_error =
    VcsIo archive_io_error
  | VcsCore s3a_error
  | VcsVault text_bytes
  | InvalidSignature text_bytes
  | RefNotFound text_bytes
  | TagImmutable text_bytes
  | CommitNotFound text_bytes
  | NonFastForward text_bytes text_bytes text_bytes
  | MergeConflict text_bytes "text_bytes list" bool
  | ConflictNeedsHuman "conflict_detail list" text_bytes
  | ConsentRestricted text_bytes
  | AmbiguousHash text_bytes nat
  | PushTooLarge text_bytes u64 u64
  | MissingPacks text_bytes u32 u32
  | VcsGeneric text_bytes

section \<open>Text\<close>

text \<open>\<^verbatim>\<open>str::trim\<close> takes off the characters of the Unicode property \<^verbatim>\<open>White_Space\<close>.\<close>

definition whitespace_chars :: "byte list list" where
  "whitespace_chars =
     [[9], [10], [11], [12], [13], [32], [0xC2, 0x85], [0xC2, 0xA0], [0xE1, 0x9A, 0x80]] @
     map (\<lambda>b. [0xE2, 0x80, b]) [0x80, 0x81, 0x82, 0x83, 0x84, 0x85, 0x86, 0x87, 0x88, 0x89, 0x8A, 0xA8, 0xA9, 0xAF] @
     [[0xE2, 0x81, 0x9F], [0xE3, 0x80, 0x80]]"

definition starts_with :: "text_bytes \<Rightarrow> text_bytes \<Rightarrow> bool" where
  "starts_with w s \<longleftrightarrow> take (length w) s = w"

lemma starts_with_drop: "w \<noteq> [] \<Longrightarrow> starts_with w s \<Longrightarrow> length (drop (length w) s) < length s"
  by (cases s) (auto simp: starts_with_def)

function trim_start_by :: "byte list list \<Rightarrow> text_bytes \<Rightarrow> text_bytes" where
  "trim_start_by ws s =
    (case find (\<lambda>w. w \<noteq> [] \<and> starts_with w s) ws of Some w \<Rightarrow> trim_start_by ws (drop (length w) s) | None \<Rightarrow> s)"
  by pat_completeness auto

termination
  by (relation "measure (length \<circ> snd)") (auto simp: find_Some_iff dest: starts_with_drop)

declare trim_start_by.simps [simp del]

definition trim_text :: "text_bytes \<Rightarrow> text_bytes" where
  "trim_text s = rev (trim_start_by (map rev whitespace_chars) (rev (trim_start_by whitespace_chars s)))"

definition to_ascii_lowercase :: "text_bytes \<Rightarrow> text_bytes" where
  "to_ascii_lowercase s = map (\<lambda>b. if 0x41 \<le> b \<and> b \<le> 0x5A then b + 32 else b) s"

definition is_ascii_hexdigit :: "byte \<Rightarrow> bool" where
  "is_ascii_hexdigit b \<longleftrightarrow> 0x30 \<le> b \<and> b \<le> 0x39 \<or> 0x41 \<le> b \<and> b \<le> 0x46 \<or> 0x61 \<le> b \<and> b \<le> 0x66"

section \<open>Hashes and authors\<close>

datatype lineage_mode = FirstParent | All

definition MIN_SHORT_HASH :: nat where "MIN_SHORT_HASH = 7"

definition prefix_hits :: "(byte list \<Rightarrow> text_bytes) \<Rightarrow> text_bytes \<Rightarrow> vcs_commit list \<Rightarrow> byte list list" where
  "prefix_hits hex q commits =
    fold (\<lambda>c hits. if starts_with q (hex (vc_seal_hash c)) \<or> starts_with q (hex (vc_commit_id c))
        then (if vc_seal_hash c \<in> set hits then hits else hits @ [vc_seal_hash c]) else hits) commits []"

definition resolve_hash_prefix :: "(byte list \<Rightarrow> text_bytes) \<Rightarrow> vcs_commit list \<Rightarrow> text_bytes \<Rightarrow> (vcs_error, byte list) result" where
  "resolve_hash_prefix hex commits hash =
    (let q = to_ascii_lowercase (trim_text hash)
     in if length q < MIN_SHORT_HASH \<or> 64 < length q \<or> \<not> list_all is_ascii_hexdigit q then Err (CommitNotFound hash)
        else case prefix_hits hex q commits of
          [] \<Rightarrow> Err (CommitNotFound hash)
        | [h] \<Rightarrow> Ok h
        | hits \<Rightarrow> Err (AmbiguousHash hash (length hits)))"

definition commit_parents :: "vcs_commit \<Rightarrow> byte list list" where
  "commit_parents c =
    filter (\<lambda>h. h \<noteq> replicate 32 0)
      (take (min (unat (vc_parent_count c)) 2) [fst (vc_parent_seal_hashes c), snd (vc_parent_seal_hashes c)])"

definition authored_by :: "(byte list \<Rightarrow> text_bytes) \<Rightarrow> text_bytes \<Rightarrow> vcs_commit \<Rightarrow> bool" where
  "authored_by hex agent c \<longleftrightarrow>
    (let a = to_ascii_lowercase (trim_start_by [ascii ''s3a-''] (trim_start_by [ascii ''gate://''] (trim_text agent)))
     in a \<noteq> [] \<and> (starts_with a (hex (vc_author_address_prefix c)) \<or> starts_with a (hex (vc_author_pubkey c))))"

section \<open>The frontier\<close>

record frontier =
  fr_commits :: "vcs_commit list"
  fr_by_seal :: "byte list \<Rightarrow> nat option"
  fr_children :: "byte list \<Rightarrow> nat list option"

definition add_child :: "nat \<Rightarrow> byte list \<Rightarrow> (byte list \<Rightarrow> nat list option) \<Rightarrow> byte list \<Rightarrow> nat list option" where
  "add_child i p children =
    (let v = (case children p of Some v \<Rightarrow> v | None \<Rightarrow> []) in children(p \<mapsto> if i \<in> set v then v else v @ [i]))"

definition index_commit ::
  "vcs_commit list \<Rightarrow> nat \<Rightarrow> (byte list \<Rightarrow> nat option) \<times> (byte list \<Rightarrow> nat list option) \<Rightarrow>
   (byte list \<Rightarrow> nat option) \<times> (byte list \<Rightarrow> nat list option)" where
  "index_commit commits i = (\<lambda>(by_seal, children).
     let c = commits ! i in (by_seal(vc_seal_hash c \<mapsto> i), fold (add_child i) (commit_parents c) children))"

definition frontier_new :: "vcs_commit list \<Rightarrow> frontier" where
  "frontier_new commits =
    (let (by_seal, children) = fold (index_commit commits) [0..<length commits] (Map.empty, Map.empty)
     in \<lparr> fr_commits = commits, fr_by_seal = by_seal, fr_children = children \<rparr>)"

definition frontier_leaves :: "frontier \<Rightarrow> vcs_commit list" where
  "frontier_leaves f = filter (\<lambda>c. fr_children f (vc_seal_hash c) = None) (fr_commits f)"

definition frontier_children :: "(byte list \<Rightarrow> text_bytes) \<Rightarrow> byte list \<Rightarrow> frontier \<Rightarrow> (vcs_error, vcs_commit list) result" where
  "frontier_children hex seal f =
    (if fr_by_seal f seal = None then Err (CommitNotFound (hex seal))
     else Ok (case fr_children f seal of Some v \<Rightarrow> map ((!) (fr_commits f)) v | None \<Rightarrow> []))"

text \<open>The queue holds indexes of commits; an index out of range would be a panic and is never in the queue.\<close>

definition lineage_next :: "frontier \<Rightarrow> lineage_mode \<Rightarrow> vcs_commit \<Rightarrow> nat list" where
  "lineage_next f mode c =
    List.map_filter (fr_by_seal f) (if mode = FirstParent then take 1 (commit_parents c) else commit_parents c)"

function lineage_loop :: "frontier \<Rightarrow> lineage_mode \<Rightarrow> byte list list \<Rightarrow> nat list \<Rightarrow> vcs_commit list" where
  "lineage_loop f mode seen [] = []"
| "lineage_loop f mode seen (i # queue) =
    (if length (fr_commits f) \<le> i then []
     else let c = fr_commits f ! i
     in if vc_seal_hash c \<in> set seen then lineage_loop f mode seen queue
        else c # lineage_loop f mode (vc_seal_hash c # seen) (queue @ lineage_next f mode c))"
  by pat_completeness auto

termination
proof (relation "measures [\<lambda>(f, mode, seen, queue). card (set (map vc_seal_hash (fr_commits f)) - set seen), \<lambda>(f, mode, seen, queue). length queue]",
    goal_cases)
  case (3 f mode seen i queue c)
  then have "vc_seal_hash c \<in> set (map vc_seal_hash (fr_commits f)) - set seen" by simp
  then have "card (set (map vc_seal_hash (fr_commits f)) - set (vc_seal_hash c # seen)) < card (set (map vc_seal_hash (fr_commits f)) - set seen)"
    by (intro psubset_card_mono) auto
  then show ?case by simp
qed simp_all

definition frontier_lineage ::
  "(byte list \<Rightarrow> text_bytes) \<Rightarrow> byte list \<Rightarrow> lineage_mode \<Rightarrow> frontier \<Rightarrow> (vcs_error, vcs_commit list) result" where
  "frontier_lineage hex seal mode f =
    (case fr_by_seal f seal of
       None \<Rightarrow> Err (CommitNotFound (hex seal))
     | Some start \<Rightarrow> Ok (lineage_loop f mode [] [start]))"

definition filter_author :: "(byte list \<Rightarrow> text_bytes) \<Rightarrow> text_bytes option \<Rightarrow> vcs_commit list \<Rightarrow> vcs_commit list" where
  "filter_author hex agent v = (case agent of Some a \<Rightarrow> filter (authored_by hex a) v | None \<Rightarrow> v)"

section \<open>The log\<close>

definition commit_map :: "vcs_commit list \<Rightarrow> byte list \<Rightarrow> vcs_commit option" where
  "commit_map all_commits = fold (\<lambda>c m. m(vc_seal_hash c \<mapsto> c)) all_commits Map.empty"

lemma commit_map_snoc: "commit_map (cs @ [c]) = (commit_map cs)(vc_seal_hash c \<mapsto> c)"
  by (simp add: commit_map_def)

lemma commit_map_SomeD: "commit_map cs s = Some c \<Longrightarrow> c \<in> set cs \<and> vc_seal_hash c = s"
  by (induction cs rule: rev_induct) (auto simp: commit_map_snoc commit_map_def split: if_splits)

function log_loop :: "vcs_commit list \<Rightarrow> byte list list \<Rightarrow> byte list \<Rightarrow> vcs_commit list" where
  "log_loop all_commits visited at_seal =
    (if at_seal = replicate 32 0 \<or> at_seal \<in> set visited then []
     else case commit_map all_commits at_seal of
       Some c \<Rightarrow> c # log_loop all_commits (at_seal # visited) (fst (vc_parent_seal_hashes c))
     | None \<Rightarrow> [])"
  by pat_completeness auto

termination
proof (relation "measure (\<lambda>(cs, visited, at_seal). card (set (map vc_seal_hash cs) - set visited))", goal_cases)
  case (2 cs visited at_seal c)
  then have "at_seal \<in> set (map vc_seal_hash cs) - set visited" using commit_map_SomeD by force
  then have "card (set (map vc_seal_hash cs) - set (at_seal # visited)) < card (set (map vc_seal_hash cs) - set visited)"
    by (intro psubset_card_mono) auto
  then show ?case by simp
qed simp

declare log_loop.simps [simp del]

section \<open>What the index holds\<close>

definition nonempty :: "'a list \<Rightarrow> 'a list option" where
  "nonempty v = (if v = [] then None else Some v)"

lemma fold_add_child:
  "fold (add_child i) ps ch = (\<lambda>p. if p \<in> set ps
     then Some (let v = (case ch p of Some v \<Rightarrow> v | None \<Rightarrow> []) in if i \<in> set v then v else v @ [i]) else ch p)"
proof (induction ps arbitrary: ch)
  case (Cons q ps)
  show ?case unfolding fold_Cons comp_def Cons.IH
  proof
    fix p
    show "(if p \<in> set ps then Some (let v = (case add_child i q ch p of Some v \<Rightarrow> v | None \<Rightarrow> []) in if i \<in> set v then v else v @ [i])
        else add_child i q ch p) =
      (if p \<in> set (q # ps) then Some (let v = (case ch p of Some v \<Rightarrow> v | None \<Rightarrow> []) in if i \<in> set v then v else v @ [i]) else ch p)"
      by (cases "p = q"; cases "ch q") (simp_all add: add_child_def Let_def)
  qed
qed simp

lemma frontier_fold:
  "fold (index_commit cs) [0..<k] (Map.empty, Map.empty) =
    (\<lambda>s. map_option last (nonempty (filter (\<lambda>i. vc_seal_hash (cs ! i) = s) [0..<k])),
     \<lambda>p. nonempty (filter (\<lambda>i. p \<in> set (commit_parents (cs ! i))) [0..<k]))"
proof (induction k)
  case 0
  then show ?case by (simp add: nonempty_def)
next
  case (Suc k)
  have "fold (index_commit cs) [0..<Suc k] (Map.empty, Map.empty) = index_commit cs k (fold (index_commit cs) [0..<k] (Map.empty, Map.empty))"
    by simp
  also have "\<dots> = (\<lambda>s. map_option last (nonempty (filter (\<lambda>i. vc_seal_hash (cs ! i) = s) [0..<Suc k])),
     \<lambda>p. nonempty (filter (\<lambda>i. p \<in> set (commit_parents (cs ! i))) [0..<Suc k]))"
    unfolding Suc by (auto simp: index_commit_def Let_def fold_add_child nonempty_def fun_eq_iff)
  finally show ?case .
qed

lemma fr_commits_new [simp]: "fr_commits (frontier_new cs) = cs"
  by (simp add: frontier_new_def split_def Let_def)

lemma fr_by_seal_new:
  "fr_by_seal (frontier_new cs) s = map_option last (nonempty (filter (\<lambda>i. vc_seal_hash (cs ! i) = s) [0..<length cs]))"
  unfolding frontier_new_def frontier_fold by simp

lemma fr_children_new:
  "fr_children (frontier_new cs) p = nonempty (filter (\<lambda>i. p \<in> set (commit_parents (cs ! i))) [0..<length cs])"
  unfolding frontier_new_def frontier_fold by simp

lemma fr_by_seal_SomeD:
  assumes "fr_by_seal (frontier_new cs) s = Some i"
  shows "i < length cs \<and> vc_seal_hash (cs ! i) = s"
proof -
  have "i \<in> set (filter (\<lambda>i. vc_seal_hash (cs ! i) = s) [0..<length cs])"
    using assms last_in_set [of "filter (\<lambda>i. vc_seal_hash (cs ! i) = s) [0..<length cs]"]
    by (auto simp: fr_by_seal_new nonempty_def split: if_splits)
  then show ?thesis by simp
qed

lemma fr_by_seal_None: "fr_by_seal (frontier_new cs) s = None \<longleftrightarrow> s \<notin> vc_seal_hash ` set cs"
proof -
  have "vc_seal_hash ` set cs = (\<lambda>i. vc_seal_hash (cs ! i)) ` {0..<length cs}"
    by (force simp: set_conv_nth)
  then show ?thesis by (auto simp: fr_by_seal_new nonempty_def filter_empty_conv)
qed

lemma commit_map_nth: "commit_map cs s = map_option ((!) cs) (fr_by_seal (frontier_new cs) s)"
proof (induction cs rule: rev_induct)
  case Nil
  then show ?case by (simp add: commit_map_def fr_by_seal_new nonempty_def)
next
  case (snoc c cs)
  have e: "filter (\<lambda>i. vc_seal_hash ((cs @ [c]) ! i) = s) [0..<length cs] = filter (\<lambda>i. vc_seal_hash (cs ! i) = s) [0..<length cs]"
    by (rule filter_cong) (simp_all add: nth_append)
  have "(cs @ [c]) ! last v = cs ! last v" if "v = filter (\<lambda>i. vc_seal_hash (cs ! i) = s) [0..<length cs]" "v \<noteq> []" for v
    using last_in_set [OF that(2)] that(1) by (simp add: nth_append)
  then show ?case using snoc
    by (simp add: commit_map_snoc fr_by_seal_new e) (auto simp: nonempty_def)
qed

lemma distinct_index:
  assumes "distinct (map vc_seal_hash cs)" "i < length cs"
  shows "fr_by_seal (frontier_new cs) (vc_seal_hash (cs ! i)) = Some i"
proof -
  obtain j where j: "fr_by_seal (frontier_new cs) (vc_seal_hash (cs ! i)) = Some j"
    using assms(2) fr_by_seal_None [of cs "vc_seal_hash (cs ! i)"] by fastforce
  then have "j < length cs" "map vc_seal_hash cs ! j = map vc_seal_hash cs ! i" using fr_by_seal_SomeD [OF j] assms(2) by simp_all
  then have "j = i" using assms nth_eq_iff_index_eq by (metis length_map)
  with j show ?thesis by simp
qed

section \<open>Ancestors\<close>

text \<open>From a recorded commit to its recorded parents.\<close>

definition parent_edges :: "vcs_commit list \<Rightarrow> (byte list \<times> byte list) set" where
  "parent_edges cs = {(s, p). \<exists>c. commit_map cs s = Some c \<and> p \<in> set (commit_parents c) \<and> commit_map cs p \<noteq> None}"

lemma lineage_next_set:
  "set (lineage_next f mode c) =
    {j. \<exists>p \<in> set (if mode = FirstParent then take 1 (commit_parents c) else commit_parents c). fr_by_seal f p = Some j}"
  by (force simp: lineage_next_def map_filter_def)

lemma lineage_next_seals:
  assumes "i < length cs" "fr_by_seal (frontier_new cs) (vc_seal_hash (cs ! i)) = Some i"
  shows "(\<lambda>j. vc_seal_hash (cs ! j)) ` set (lineage_next (frontier_new cs) All (cs ! i)) = parent_edges cs `` {vc_seal_hash (cs ! i)}"
    (is "?L = ?R")
proof -
  have "?R = {p \<in> set (commit_parents (cs ! i)). fr_by_seal (frontier_new cs) p \<noteq> None}"
    using assms(2) by (auto simp: parent_edges_def commit_map_nth)
  moreover have "?L = {p \<in> set (commit_parents (cs ! i)). fr_by_seal (frontier_new cs) p \<noteq> None}"
    unfolding lineage_next_set using fr_by_seal_SomeD [of cs] by fastforce
  ultimately show ?thesis by simp
qed

definition canonical :: "vcs_commit list \<Rightarrow> nat \<Rightarrow> bool" where
  "canonical cs i \<longleftrightarrow> i < length cs \<and> fr_by_seal (frontier_new cs) (vc_seal_hash (cs ! i)) = Some i"

lemma canonical_by_seal: "fr_by_seal (frontier_new cs) s = Some i \<Longrightarrow> canonical cs i"
  using fr_by_seal_SomeD [of cs s i] by (auto simp: canonical_def)

lemma canonical_next: "list_all (canonical cs) (lineage_next (frontier_new cs) mode c)"
  by (auto simp: lineage_next_def list_all_iff map_filter_def intro: canonical_by_seal)

lemma lineage_loop_distinct:
  "distinct (map vc_seal_hash (lineage_loop f mode seen queue)) \<and>
    set (map vc_seal_hash (lineage_loop f mode seen queue)) \<inter> set seen = {}"
  by (induction f mode seen queue rule: lineage_loop.induct) (auto simp: Let_def)

lemma lineage_loop_members:
  "list_all (canonical cs) queue \<Longrightarrow>
    \<forall>c \<in> set (lineage_loop (frontier_new cs) mode seen queue). commit_map cs (vc_seal_hash c) = Some c"
proof (induction "frontier_new cs" mode seen queue rule: lineage_loop.induct)
  case (2 mode seen i queue)
  then show ?case using canonical_next [of cs mode "cs ! i"]
    by (auto simp: Let_def canonical_def commit_map_nth)
qed simp

lemma lineage_loop_reaches:
  assumes "list_all (canonical cs) queue" "s \<in> vc_seal_hash ` set (lineage_loop (frontier_new cs) All seen queue)"
  shows "\<exists>i \<in> set queue. (vc_seal_hash (cs ! i), s) \<in> (parent_edges cs)\<^sup>*"
  using assms
proof (induction "frontier_new cs" All seen queue rule: lineage_loop.induct)
  case (2 seen i queue)
  let ?c = "cs ! i" let ?next = "lineage_next (frontier_new cs) All (cs ! i)"
  have i: "i < length cs" "fr_by_seal (frontier_new cs) (vc_seal_hash ?c) = Some i" using 2(3) by (simp_all add: canonical_def)
  show ?case
  proof (cases "vc_seal_hash ?c \<in> set seen \<or> s = vc_seal_hash ?c")
    case True
    then show ?thesis using 2(1,3,4) i by auto
  next
    case False
    then have "\<exists>j \<in> set (queue @ ?next). (vc_seal_hash (cs ! j), s) \<in> (parent_edges cs)\<^sup>*"
      using 2(2-4) i canonical_next [of cs All ?c] by (auto simp: Let_def)
    moreover have "(vc_seal_hash ?c, vc_seal_hash (cs ! j)) \<in> parent_edges cs" if "j \<in> set ?next" for j
      using lineage_next_seals [OF i] that by blast
    ultimately show ?thesis by (auto intro: converse_rtrancl_into_rtrancl)
  qed
qed simp

lemma lineage_loop_closed:
  assumes "list_all (canonical cs) queue"
    "parent_edges cs `` set seen \<subseteq> set seen \<union> (\<lambda>i. vc_seal_hash (cs ! i)) ` set queue"
  shows "parent_edges cs `` (set seen \<union> vc_seal_hash ` set (lineage_loop (frontier_new cs) All seen queue))
      \<subseteq> set seen \<union> vc_seal_hash ` set (lineage_loop (frontier_new cs) All seen queue) \<and>
    (\<lambda>i. vc_seal_hash (cs ! i)) ` set queue \<subseteq> set seen \<union> vc_seal_hash ` set (lineage_loop (frontier_new cs) All seen queue)"
  using assms
proof (induction "frontier_new cs" All seen queue rule: lineage_loop.induct)
  case (2 seen i queue)
  let ?c = "cs ! i" let ?next = "lineage_next (frontier_new cs) All (cs ! i)"
  have i: "i < length cs" "fr_by_seal (frontier_new cs) (vc_seal_hash ?c) = Some i" using 2(3) by (simp_all add: canonical_def)
  show ?case
  proof (cases "vc_seal_hash ?c \<in> set seen")
    case True
    then show ?thesis using 2(1,3,4) i by auto
  next
    case False
    have "parent_edges cs `` set (vc_seal_hash ?c # seen) \<subseteq> set (vc_seal_hash ?c # seen) \<union> (\<lambda>i. vc_seal_hash (cs ! i)) ` set (queue @ ?next)"
      using 2(4) lineage_next_seals [OF i] by auto
    then show ?thesis using 2(2) 2(3) i canonical_next [of cs All ?c] False by (auto simp: Let_def)
  qed
qed simp

lemma lineage_loop_start:
  assumes "fr_by_seal (frontier_new cs) seal = Some i"
  shows "vc_seal_hash ` set (lineage_loop (frontier_new cs) All [] [i]) = (parent_edges cs)\<^sup>* `` {seal}" (is "vc_seal_hash ` set ?out = _")
proof
  have i: "i < length cs" "vc_seal_hash (cs ! i) = seal" using fr_by_seal_SomeD [OF assms] by simp_all
  have q: "list_all (canonical cs) [i]" using canonical_by_seal [OF assms] by simp
  show "vc_seal_hash ` set ?out \<subseteq> (parent_edges cs)\<^sup>* `` {seal}"
    using lineage_loop_reaches [OF q, of _ "[]"] i by auto
  have "parent_edges cs `` (vc_seal_hash ` set ?out) \<subseteq> vc_seal_hash ` set ?out" "seal \<in> vc_seal_hash ` set ?out"
    using lineage_loop_closed [OF q, of "[]"] i by simp_all
  from Image_closed_trancl [OF this(1)] this(2) show "(parent_edges cs)\<^sup>* `` {seal} \<subseteq> vc_seal_hash ` set ?out"
    by blast
qed

text \<open>C29: the full lineage of a commit is its ancestry: it begins with the commit, contains exactly the recorded commits that are reached
  through recorded parents, each of them once and in its last stored version; the walk always ends, whatever cycles the parents
  form, and refuses exactly the hashes that are not recorded.\<close>

theorem lineage_is_ancestry:
  "case frontier_lineage hex seal All (frontier_new cs) of
     Err e \<Rightarrow> e = CommitNotFound (hex seal) \<and> seal \<notin> vc_seal_hash ` set cs
   | Ok out \<Rightarrow> set (map vc_seal_hash out) = (parent_edges cs)\<^sup>* `` {seal} \<and> distinct (map vc_seal_hash out) \<and>
       list_all (\<lambda>c. commit_map cs (vc_seal_hash c) = Some c) out \<and> map vc_seal_hash (take 1 out) = [seal]"
proof (cases "fr_by_seal (frontier_new cs) seal")
  case None
  then have "seal \<notin> vc_seal_hash ` set cs" by (simp add: fr_by_seal_None)
  with None show ?thesis by (simp add: frontier_lineage_def)
next
  case (Some i)
  have i: "i < length cs" "vc_seal_hash (cs ! i) = seal" using fr_by_seal_SomeD [OF Some] by simp_all
  have q: "list_all (canonical cs) [i]" using canonical_by_seal [OF Some] by simp
  have "map vc_seal_hash (take 1 (lineage_loop (frontier_new cs) All [] [i])) = [seal]" using i by (simp add: Let_def)
  then show ?thesis using lineage_loop_start [OF Some] lineage_loop_distinct [of "frontier_new cs" All "[]" "[i]"]
      lineage_loop_members [OF q, of All "[]"]
    by (simp add: frontier_lineage_def Some list_all_iff)
qed
lemma frontier_leaves_new:
  "frontier_leaves (frontier_new cs) = filter (\<lambda>c. \<forall>d \<in> set cs. vc_seal_hash c \<notin> set (commit_parents d)) cs"
  unfolding frontier_leaves_def fr_commits_new
  by (rule filter_cong) (auto simp: fr_children_new nonempty_def filter_empty_conv all_set_conv_all_nth)

text \<open>Parents are recorded before their children.\<close>

definition parents_first :: "vcs_commit list \<Rightarrow> bool" where
  "parents_first cs \<longleftrightarrow>
    (\<forall>i < length cs. \<forall>j < length cs. vc_seal_hash (cs ! j) \<in> set (commit_parents (cs ! i)) \<longrightarrow> j < i)"

lemma leaf_above:
  assumes "distinct (map vc_seal_hash cs)" "parents_first cs" "i < length cs"
  shows "\<exists>l \<in> set (frontier_leaves (frontier_new cs)). (vc_seal_hash l, vc_seal_hash (cs ! i)) \<in> (parent_edges cs)\<^sup>*"
  using assms(3)
proof (induction "length cs - i" arbitrary: i rule: less_induct)
  case less
  show ?case
  proof (cases "\<exists>k < length cs. vc_seal_hash (cs ! i) \<in> set (commit_parents (cs ! k))")
    case True
    then obtain k where k: "k < length cs" "vc_seal_hash (cs ! i) \<in> set (commit_parents (cs ! k))" by auto
    have "i < k" using assms(2) k less.prems unfolding parents_first_def by blast
    then have "length cs - k < length cs - i" using k(1) by simp
    moreover have "(vc_seal_hash (cs ! k), vc_seal_hash (cs ! i)) \<in> parent_edges cs"
      using k less.prems distinct_index [OF assms(1)] by (auto simp: parent_edges_def commit_map_nth)
    ultimately show ?thesis using less.hyps k(1) by (blast intro: rtrancl_into_rtrancl)
  next
    case False
    then have "cs ! i \<in> set (frontier_leaves (frontier_new cs))"
      using less.prems unfolding frontier_leaves_new by (auto simp: all_set_conv_all_nth)
    then show ?thesis by blast
  qed
qed

text \<open>C30: the leaves are the commits that no commit names as a parent, and when parents are recorded before their children every commit
  is in the lineage of a leaf.\<close>

theorem leaves_cover_history:
  assumes "distinct (map vc_seal_hash cs)" "parents_first cs"
  shows "frontier_leaves (frontier_new cs) = filter (\<lambda>c. \<forall>d \<in> set cs. vc_seal_hash c \<notin> set (commit_parents d)) cs \<and>
    (\<forall>c \<in> set cs. \<exists>l \<in> set (frontier_leaves (frontier_new cs)). \<exists>out.
      frontier_lineage hex (vc_seal_hash l) All (frontier_new cs) = Ok out \<and> c \<in> set out)"
proof (intro conjI ballI)
  fix c assume "c \<in> set cs"
  then obtain i where i: "i < length cs" "cs ! i = c" by (auto simp: in_set_conv_nth)
  obtain l where l: "l \<in> set (frontier_leaves (frontier_new cs))" "(vc_seal_hash l, vc_seal_hash c) \<in> (parent_edges cs)\<^sup>*"
    using leaf_above [OF assms i(1)] i(2) by auto
  then obtain k where k: "k < length cs" "cs ! k = l" unfolding frontier_leaves_new by (auto simp: in_set_conv_nth)
  have n: "fr_by_seal (frontier_new cs) (vc_seal_hash l) = Some k" using distinct_index [OF assms(1) k(1)] k(2) by simp
  let ?out = "lineage_loop (frontier_new cs) All [] [k]"
  have "vc_seal_hash c \<in> vc_seal_hash ` set ?out" unfolding lineage_loop_start [OF n] using l(2) by simp
  then obtain d where d: "d \<in> set ?out" "vc_seal_hash d = vc_seal_hash c" by (metis imageE)
  have "list_all (canonical cs) [k]" using canonical_by_seal [OF n] by simp
  from lineage_loop_members [OF this, of All "[]"] d(1) have "commit_map cs (vc_seal_hash d) = Some d" by blast
  moreover have "commit_map cs (vc_seal_hash c) = Some c"
    using distinct_index [OF assms(1) i(1)] unfolding i(2) commit_map_nth by (simp only: option.map i(2))
  ultimately have "c = d" unfolding d(2) by (simp only: option.inject)
  with d(1) have "frontier_lineage hex (vc_seal_hash l) All (frontier_new cs) = Ok ?out \<and> c \<in> set ?out"
    by (simp only: frontier_lineage_def n option.case)
  with l(1) show "\<exists>l \<in> set (frontier_leaves (frontier_new cs)). \<exists>out.
      frontier_lineage hex (vc_seal_hash l) All (frontier_new cs) = Ok out \<and> c \<in> set out" by blast
qed (rule frontier_leaves_new)

text \<open>The two walks along first parents read the parents differently: the log takes the first hash of the record as it is, the lineage
  the first hash that counts as a parent.\<close>

definition plain_parents :: "vcs_commit \<Rightarrow> bool" where
  "plain_parents c \<longleftrightarrow>
    (if fst (vc_parent_seal_hashes c) = replicate 32 0 then commit_parents c = [] else vc_parent_count c \<noteq> 0)"

lemma plain_first_parent:
  assumes "plain_parents c"
  shows "take 1 (commit_parents c) =
    (if fst (vc_parent_seal_hashes c) = replicate 32 0 then [] else [fst (vc_parent_seal_hashes c)])"
proof (cases "fst (vc_parent_seal_hashes c) = replicate 32 0")
  case True
  then show ?thesis using assms by (simp add: plain_parents_def)
next
  case False
  then have "0 < min (unat (vc_parent_count c)) 2" using assms by (simp add: plain_parents_def unat_gt_0)
  then obtain n where "min (unat (vc_parent_count c)) 2 = Suc n" using gr0_implies_Suc by blast
  with False show ?thesis by (simp add: commit_parents_def)
qed

lemma first_parent_loop:
  assumes "list_all plain_parents cs" "fr_by_seal (frontier_new cs) s = Some i" "s \<noteq> replicate 32 0"
  shows "lineage_loop (frontier_new cs) FirstParent seen [i] = log_loop cs seen s"
  using assms
proof (induction cs seen s arbitrary: i rule: log_loop.induct)
  case (1 cs seen s)
  let ?c = "cs ! i" let ?p = "fst (vc_parent_seal_hashes ?c)"
  have i: "i < length cs" "vc_seal_hash ?c = s" using fr_by_seal_SomeD [OF 1(3)] by simp_all
  have m: "commit_map cs s = Some ?c" using 1(3) by (simp add: commit_map_nth)
  have "plain_parents ?c" using 1(2) i(1) by (simp add: list_all_iff)
  then have n: "lineage_next (frontier_new cs) FirstParent ?c =
      (if ?p = replicate 32 0 then [] else case fr_by_seal (frontier_new cs) ?p of None \<Rightarrow> [] | Some j \<Rightarrow> [j])"
    by (simp add: lineage_next_def plain_first_parent [unfolded One_nat_def] map_filter_simps split: option.split)
  show ?case
  proof (cases "s \<in> set seen")
    case True
    then show ?thesis using i by (subst log_loop.simps) (simp add: Let_def)
  next
    case False
    have "lineage_loop (frontier_new cs) FirstParent (s # seen) (lineage_next (frontier_new cs) FirstParent ?c) = log_loop cs (s # seen) ?p"
    proof (cases "?p = replicate 32 0 \<or> fr_by_seal (frontier_new cs) ?p = None")
      case True
      then have "lineage_next (frontier_new cs) FirstParent ?c = []" by (auto simp: n)
      moreover have "log_loop cs (s # seen) ?p = []" using True by (subst log_loop.simps) (auto simp: commit_map_nth)
      ultimately show ?thesis by simp
    next
      case p: False
      then obtain j where j: "fr_by_seal (frontier_new cs) ?p = Some j" by auto
      with p n have "lineage_next (frontier_new cs) FirstParent ?c = [j]" by simp
      moreover have "lineage_loop (frontier_new cs) FirstParent (s # seen) [j] = log_loop cs (s # seen) ?p"
        using 1(1) [OF _ m 1(2) j] False p 1(4) by simp
      ultimately show ?thesis by simp
    qed
    then show ?thesis using i False m 1(4) by (subst log_loop.simps) (simp add: Let_def)
  qed
qed

text \<open>C31: the log of a commit is its first-parent lineage when every commit of the archive counts its parents from the first slot on.\<close>

theorem log_is_first_parent_lineage:
  assumes "list_all plain_parents cs" "seal \<in> vc_seal_hash ` set cs" "seal \<noteq> replicate 32 0"
  shows "frontier_lineage hex seal FirstParent (frontier_new cs) = Ok (log_loop cs [] seal)"
proof -
  obtain i where i: "fr_by_seal (frontier_new cs) seal = Some i" using assms(2) fr_by_seal_None by blast
  then show ?thesis using first_parent_loop [OF assms(1) i assms(3)] by (simp add: frontier_lineage_def)
qed

text \<open>a commit whose first parent slot is empty and whose second is not, as \<^verbatim>\<open>commit\<close> writes it for a new branch with a secondary
  parent, ends the log, while its lineage goes on to the second parent.\<close>

theorem log_stops_at_empty_slot:
  assumes "commit_map cs s = Some c" "s \<noteq> replicate 32 0" "vc_parent_count c = 2" "vc_parent_seal_hashes c = (replicate 32 0, p)"
    "commit_map cs p = Some d" "p \<noteq> replicate 32 0" "p \<noteq> s"
  shows "log_loop cs [] s = [c] \<and> (\<exists>rest. frontier_lineage hex s FirstParent (frontier_new cs) = Ok (c # d # rest))"
proof
  show "log_loop cs [] s = [c]"
    using assms(1,2,4) by (subst log_loop.simps) (simp add: log_loop.simps)
  obtain i j where ij: "fr_by_seal (frontier_new cs) s = Some i" "fr_by_seal (frontier_new cs) p = Some j" "c = cs ! i" "d = cs ! j"
    using assms(1,5) by (auto simp: commit_map_nth)
  have "commit_parents c = [p]" using assms(3,4,6) by (simp add: commit_parents_def)
  then have "lineage_next (frontier_new cs) FirstParent c = [j]" using ij(2) by (simp add: lineage_next_def map_filter_simps)
  then show "\<exists>rest. frontier_lineage hex s FirstParent (frontier_new cs) = Ok (c # d # rest)"
    using ij fr_by_seal_SomeD [OF ij(1)] fr_by_seal_SomeD [OF ij(2)] assms(7)
    by (simp add: frontier_lineage_def Let_def)
qed

section \<open>Short hashes\<close>

definition hash_matches :: "(byte list \<Rightarrow> text_bytes) \<Rightarrow> text_bytes \<Rightarrow> vcs_commit \<Rightarrow> bool" where
  "hash_matches hex q c \<longleftrightarrow> starts_with q (hex (vc_seal_hash c)) \<or> starts_with q (hex (vc_commit_id c))"

lemma prefix_hits_set: "distinct (prefix_hits hex q cs) \<and> set (prefix_hits hex q cs) = vc_seal_hash ` {c \<in> set cs. hash_matches hex q c}"
  by (induction cs rule: rev_induct) (auto simp: prefix_hits_def hash_matches_def)

text \<open>a short hash is resolved exactly when it has 7 to 64 hexadecimal digits and the commits it matches, by seal hash or by
  identifier, have one seal hash.\<close>

theorem resolve_hash_unique:
  "resolve_hash_prefix hex cs h = Ok s \<longleftrightarrow>
    (let q = to_ascii_lowercase (trim_text h)
     in 7 \<le> length q \<and> length q \<le> 64 \<and> list_all is_ascii_hexdigit q \<and> vc_seal_hash ` {c \<in> set cs. hash_matches hex q c} = {s})"
proof -
  define q where "q = to_ascii_lowercase (trim_text h)"
  have "prefix_hits hex q cs = [s] \<longleftrightarrow> set (prefix_hits hex q cs) = {s}"
    using prefix_hits_set [of hex q cs] by (cases "prefix_hits hex q cs") (auto simp: subset_singleton_iff)
  then show ?thesis unfolding prefix_hits_set [THEN conjunct2]
    by (auto simp: resolve_hash_prefix_def Let_def MIN_SHORT_HASH_def simp flip: q_def split: list.splits)
qed

section \<open>Instances\<close>

text \<open>A root, a commit on it, and a commit that only counts a second parent.\<close>

definition demo_hash :: "u8 \<Rightarrow> byte list" where
  "demo_hash n = replicate 32 n"

definition demo_commit :: "u8 \<Rightarrow> u8 \<Rightarrow> byte list \<times> byte list \<Rightarrow> vcs_commit" where
  "demo_commit n count ps = \<lparr> vc_commit_id = [], vc_seal_hash = demo_hash n, vc_author_pubkey = [], vc_author_address_prefix = [],
     vc_author_checksum = 0, vc_parent_count = count, vc_pad = [], vc_parent_seal_hashes = ps, vc_committed_timestamp = 0,
     vc_signature = [], vc_message_bytes = [] \<rparr>"

definition demo_history :: "vcs_commit list" where
  "demo_history = [demo_commit 1 0 (demo_hash 0, demo_hash 0), demo_commit 2 1 (demo_hash 1, demo_hash 0)]"

definition demo_grafted :: "vcs_commit list" where
  "demo_grafted = demo_history @ [demo_commit 3 2 (demo_hash 0, demo_hash 2)]"

lemma demo_hash_eq [simp]: "demo_hash m = demo_hash n \<longleftrightarrow> m = n" "replicate 32 m = demo_hash n \<longleftrightarrow> m = n" "demo_hash m = replicate 32 n \<longleftrightarrow> m = n"
  by (simp_all add: demo_hash_def replicate_eq_replicate)

lemma demo_commit_seal [simp]: "vc_seal_hash (demo_commit n pc ps) = demo_hash n"
  by (simp add: demo_commit_def)

lemma demo_parents:
  "commit_parents (demo_commit n 0 ps) = []" "commit_parents (demo_commit n 1 (demo_hash 1, q)) = [demo_hash 1]"
  by (simp_all add: commit_parents_def demo_commit_def)

lemma demo_plain: "list_all plain_parents demo_history"
  by (simp add: demo_history_def plain_parents_def demo_parents) (simp add: demo_commit_def)

theorem leaves_cover_history_witness:
  "\<exists>l \<in> set (frontier_leaves (frontier_new demo_history)). \<exists>out.
    frontier_lineage id (vc_seal_hash l) All (frontier_new demo_history) = Ok out \<and> demo_commit 1 0 (demo_hash 0, demo_hash 0) \<in> set out"
proof -
  have d: "distinct (map vc_seal_hash demo_history)" by (simp add: demo_history_def demo_commit_def)
  have ordered: "parents_first demo_history"
    by (auto simp: parents_first_def demo_history_def demo_parents less_Suc_eq nth_Cons' split: if_splits)
  have "demo_commit 1 0 (demo_hash 0, demo_hash 0) \<in> set demo_history" by (simp add: demo_history_def)
  with leaves_cover_history [where hex = id, OF d ordered] show ?thesis by blast
qed

theorem log_is_first_parent_lineage_witness:
  "frontier_lineage id (demo_hash 2) FirstParent (frontier_new demo_history) = Ok (log_loop demo_history [] (demo_hash 2))"
  by (rule log_is_first_parent_lineage [OF demo_plain]) (simp_all add: demo_history_def demo_commit_def)

theorem log_stops_at_empty_slot_witness:
  "log_loop demo_grafted [] (demo_hash 3) = [demo_commit 3 2 (demo_hash 0, demo_hash 2)]"
proof -
  have "commit_map demo_grafted (demo_hash 3) = Some (demo_commit 3 2 (replicate 32 0, demo_hash 2))"
    "commit_map demo_grafted (demo_hash 2) = Some (demo_commit 2 1 (demo_hash 1, demo_hash 0))"
    by (simp_all add: demo_grafted_def demo_history_def commit_map_def demo_commit_def demo_hash_def [of 0])
  from log_stops_at_empty_slot [OF this(1) _ _ _ this(2)] show ?thesis
    by (simp add: demo_commit_def demo_hash_def [of 0])
qed

end
