(* ===== verification/Vcs_Repo.thy ===== *)
theory Vcs_Repo
  imports Vcs_Frontier Engine_Consent Core_Schema
begin

text \<open>
  The repository in an archive, \<^verbatim>\<open>crates/s3a-vcs/src/repo.rs\<close>: the records in its tiles, references, resolutions, names of
  revisions, the log and the difference of two commits, with the queries at the end of \<^verbatim>\<open>frontier.rs\<close>.  The state is the bytes
  of the archive file; the clock (\<open>now\<close>), the signer and the environment of the writer are arguments.  The order in which a
  \<^verbatim>\<open>HashMap\<close> lists its keys is not specified and is an argument too.
\<close>

type_synonym 'a vcs_call = "(vcs_error, 'a) result \<times> byte list"

definition TILE_SCHEMA :: u32 where "TILE_SCHEMA = 77"
definition TILE_MANIFEST :: u32 where "TILE_MANIFEST = 78"
definition TILE_SPECIFICATION :: u32 where "TILE_SPECIFICATION = 79"
definition TILE_VCS_COMMIT :: u32 where "TILE_VCS_COMMIT = 80"
definition TILE_VCS_REF :: u32 where "TILE_VCS_REF = 81"
definition TILE_VCS_RESOLUTION :: u32 where "TILE_VCS_RESOLUTION = 82"

section \<open>Records in tiles\<close>

definition payload_records :: "nat \<Rightarrow> (byte list \<Rightarrow> 'a) \<Rightarrow> hyper_tile_header \<Rightarrow> byte list \<Rightarrow> 'a list" where
  "payload_records rec_size dec hdr payload =
    map (\<lambda>c. dec (window (c * rec_size) rec_size payload))
      (filter (\<lambda>c. (c + 1) * rec_size \<le> length payload) [0..<unat (ht_payload_bytes hdr) div rec_size])"

definition tile_records :: "nat \<Rightarrow> (byte list \<Rightarrow> 'a) \<Rightarrow> u32 \<Rightarrow> tile option \<Rightarrow> 'a list" where
  "tile_records rec_size dec ty t =
    (case t of Some (hdr, payload) \<Rightarrow> if ht_tile_type hdr = ty then payload_records rec_size dec hdr payload else [] | None \<Rightarrow> [])"

definition list_records :: "nat \<Rightarrow> (byte list \<Rightarrow> 'a) \<Rightarrow> u32 \<Rightarrow> crc_crate \<Rightarrow> byte list \<Rightarrow> (vcs_error, 'a list) result" where
  "list_records rec_size dec ty cc disk =
    (case reader_open cc disk of
       Err e \<Rightarrow> Err (VcsIo e)
     | Ok r \<Rightarrow> Ok (concat (map (tile_records rec_size dec ty) (reader_tiles cc r))))"

definition list_commits :: "crc_crate \<Rightarrow> byte list \<Rightarrow> (vcs_error, vcs_commit list) result" where
  "list_commits = list_records 504 commit_of_bytes TILE_VCS_COMMIT"

definition list_refs :: "crc_crate \<Rightarrow> byte list \<Rightarrow> (vcs_error, vcs_ref list) result" where
  "list_refs = list_records 208 ref_of_bytes TILE_VCS_REF"

definition list_resolutions :: "crc_crate \<Rightarrow> byte list \<Rightarrow> (vcs_error, vcs_resolution list) result" where
  "list_resolutions = list_records 352 resolution_of_bytes TILE_VCS_RESOLUTION"

definition vcs_append_records :: "crud_env \<Rightarrow> u32 \<Rightarrow> nat \<Rightarrow> byte list \<Rightarrow> byte list \<Rightarrow> unit vcs_call" where
  "vcs_append_records env tile_type n record_bytes disk =
    (case append_tile env tile_type n record_bytes None disk of
       (Err e, disk') \<Rightarrow> (Err (VcsIo e), disk')
     | (Ok _, disk') \<Rightarrow> (Ok (), disk'))"

section \<open>References and resolutions\<close>

definition get_ref :: "crc_crate \<Rightarrow> text_bytes \<Rightarrow> byte list \<Rightarrow> (vcs_error, vcs_ref option) result" where
  "get_ref cc name disk =
    (case list_refs cc disk of Err e \<Rightarrow> Err e | Ok refs \<Rightarrow> Ok (find (\<lambda>r. ref_name r = name) (rev refs)))"

definition write_resolution ::
  "crud_env \<Rightarrow> (byte list \<Rightarrow> byte list \<Rightarrow> byte list \<Rightarrow> bool) \<Rightarrow> vcs_resolution \<Rightarrow> byte list \<Rightarrow> unit vcs_call" where
  "write_resolution env ed resolution disk =
    (if \<not> resolution_verify_signature ed resolution then
       (Err (InvalidSignature (ascii ''Invalid human resolution signature'')), disk)
     else vcs_append_records env TILE_VCS_RESOLUTION 1 (resolution_bytes resolution) disk)"

definition set_branch :: "crud_env \<Rightarrow> u64 \<Rightarrow> text_bytes \<Rightarrow> byte list \<Rightarrow> signer \<Rightarrow> byte list \<Rightarrow> vcs_ref vcs_call" where
  "set_branch env now name target_seal_hash signing_key disk =
    (case get_ref (en_crc env) name disk of
       Err e \<Rightarrow> (Err e, disk)
     | Ok existing \<Rightarrow>
         if (case existing of Some r \<Rightarrow> vr_ref_kind r = REF_KIND_TAG | None \<Rightarrow> False) then (Err (TagImmutable name), disk)
         else
           let ref_record = new_ref signing_key REF_KIND_BRANCH name target_seal_hash now
           in case vcs_append_records env TILE_VCS_REF 1 (ref_bytes ref_record) disk of
                (Err e, disk') \<Rightarrow> (Err e, disk')
              | (Ok _, disk') \<Rightarrow> (Ok ref_record, disk'))"

definition set_tag :: "crud_env \<Rightarrow> u64 \<Rightarrow> text_bytes \<Rightarrow> byte list \<Rightarrow> signer \<Rightarrow> byte list \<Rightarrow> vcs_ref vcs_call" where
  "set_tag env now name target_seal_hash signing_key disk =
    (case get_ref (en_crc env) name disk of
       Err e \<Rightarrow> (Err e, disk)
     | Ok (Some existing) \<Rightarrow>
         (if vr_target_seal_hash existing \<noteq> target_seal_hash then Err (TagImmutable name) else Ok existing, disk)
     | Ok None \<Rightarrow>
         let tag_record = new_ref signing_key REF_KIND_TAG name target_seal_hash now
         in case vcs_append_records env TILE_VCS_REF 1 (ref_bytes tag_record) disk of
              (Err e, disk') \<Rightarrow> (Err e, disk')
            | (Ok _, disk') \<Rightarrow> (Ok tag_record, disk'))"

text \<open>\<^verbatim>\<open>commit\<close>, its steps 1 and 4 to 6: the parents, and the commit record and the reference that it appends.  \<open>sealed\<close> is the
  outcome of the steps 2 and 3, which read the file and compute the prospective seal hash; the last step, which rewrites the file as a
  sealed archive, is not part of it.\<close>

definition parent_slots :: "vcs_ref option \<Rightarrow> byte list option \<Rightarrow> u8 \<times> byte list \<times> byte list" where
  "parent_slots current_ref secondary_parent =
    (let (parent_count, first) = (case current_ref of Some r \<Rightarrow> (1, vr_target_seal_hash r) | None \<Rightarrow> (0, replicate 32 0))
     in case secondary_parent of
          Some sec \<Rightarrow> (2, first, sec)
        | None \<Rightarrow> (parent_count, first, replicate 32 0))"

definition commit_records ::
  "crud_env \<Rightarrow> u64 \<Rightarrow> byte list \<times> u8 \<Rightarrow> (vcs_error, byte list) result \<Rightarrow> text_bytes \<Rightarrow> text_bytes \<Rightarrow> signer \<Rightarrow> byte list option \<Rightarrow>
   byte list \<Rightarrow> vcs_commit vcs_call" where
  "commit_records env now gate_addr sealed message branch signing_key secondary_parent disk =
    (case get_ref (en_crc env) branch disk of
       Err e \<Rightarrow> (Err e, disk)
     | Ok current_ref \<Rightarrow>
         let (parent_count, parents) = parent_slots current_ref secondary_parent
         in case sealed of
              Err e \<Rightarrow> (Err e, disk)
            | Ok seal \<Rightarrow>
                let commit_record = new_commit (en_sha env) signing_key gate_addr seal parent_count parents now message;
                    ref_record = new_ref signing_key REF_KIND_BRANCH branch seal now
                in case vcs_append_records env TILE_VCS_COMMIT 1 (commit_bytes commit_record) disk of
                     (Err e, disk') \<Rightarrow> (Err e, disk')
                   | (Ok _, disk') \<Rightarrow>
                       (case vcs_append_records env TILE_VCS_REF 1 (ref_bytes ref_record) disk' of
                          (Err e, disk'') \<Rightarrow> (Err e, disk'')
                        | (Ok _, disk'') \<Rightarrow> (Ok commit_record, disk'')))"

section \<open>Revisions and the log\<close>

definition resolve_rev :: "crc_crate \<Rightarrow> (byte list \<Rightarrow> text_bytes) \<Rightarrow> text_bytes \<Rightarrow> byte list \<Rightarrow> (vcs_error, byte list) result" where
  "resolve_rev cc hex revision disk =
    (case get_ref cc revision disk of
       Err e \<Rightarrow> Err e
     | Ok (Some r) \<Rightarrow> Ok (vr_target_seal_hash r)
     | Ok None \<Rightarrow> (case list_commits cc disk of Err e \<Rightarrow> Err e | Ok commits \<Rightarrow> resolve_hash_prefix hex commits revision))"

definition log_start ::
  "crc_crate \<Rightarrow> (byte list \<Rightarrow> text_bytes) \<Rightarrow> vcs_commit list \<Rightarrow> text_bytes option \<Rightarrow> byte list \<Rightarrow> (vcs_error, byte list option) result" where
  "log_start cc hex all_commits from_ref_or_hash disk =
    (case from_ref_or_hash of
       Some target \<Rightarrow>
         (case get_ref cc target disk of
            Err e \<Rightarrow> Err e
          | Ok (Some r) \<Rightarrow> Ok (Some (vr_target_seal_hash r))
          | Ok None \<Rightarrow> map_sum id Some (resolve_hash_prefix hex all_commits target))
     | None \<Rightarrow>
         (case get_ref cc (ascii ''main'') disk of
            Err e \<Rightarrow> Err e
          | Ok (Some main_ref) \<Rightarrow> Ok (Some (vr_target_seal_hash main_ref))
          | Ok None \<Rightarrow> Ok (if all_commits = [] then None else Some (vc_seal_hash (last all_commits)))))"

definition vcs_log ::
  "crc_crate \<Rightarrow> (byte list \<Rightarrow> text_bytes) \<Rightarrow> text_bytes option \<Rightarrow> byte list \<Rightarrow> (vcs_error, vcs_commit list) result" where
  "vcs_log cc hex from_ref_or_hash disk =
    (case list_commits cc disk of
       Err e \<Rightarrow> Err e
     | Ok all_commits \<Rightarrow>
         (case log_start cc hex all_commits from_ref_or_hash disk of
            Err e \<Rightarrow> Err e
          | Ok None \<Rightarrow> Ok []
          | Ok (Some start_seal) \<Rightarrow> Ok (log_loop all_commits [] start_seal)))"

text \<open>The queries of \<^verbatim>\<open>frontier.rs\<close> on a repository.\<close>

definition resolve_frontier ::
  "crc_crate \<Rightarrow> (byte list \<Rightarrow> text_bytes) \<Rightarrow> frontier \<Rightarrow> text_bytes \<Rightarrow> byte list \<Rightarrow> (vcs_error, byte list) result" where
  "resolve_frontier cc hex f h disk =
    (case get_ref cc h disk of
       Err e \<Rightarrow> Err e
     | Ok (Some r) \<Rightarrow> Ok (vr_target_seal_hash r)
     | Ok None \<Rightarrow> resolve_hash_prefix hex (fr_commits f) h)"

definition repo_leaves ::
  "crc_crate \<Rightarrow> (byte list \<Rightarrow> text_bytes) \<Rightarrow> text_bytes option \<Rightarrow> byte list \<Rightarrow> (vcs_error, vcs_commit list) result" where
  "repo_leaves cc hex agent disk =
    (case list_commits cc disk of Err e \<Rightarrow> Err e | Ok commits \<Rightarrow> Ok (filter_author hex agent (frontier_leaves (frontier_new commits))))"

definition repo_children ::
  "crc_crate \<Rightarrow> (byte list \<Rightarrow> text_bytes) \<Rightarrow> text_bytes \<Rightarrow> text_bytes option \<Rightarrow> byte list \<Rightarrow> (vcs_error, vcs_commit list) result" where
  "repo_children cc hex hash agent disk =
    (case list_commits cc disk of
       Err e \<Rightarrow> Err e
     | Ok commits \<Rightarrow>
         let f = frontier_new commits
         in (case resolve_frontier cc hex f hash disk of
               Err e \<Rightarrow> Err e
             | Ok s \<Rightarrow> map_sum id (filter_author hex agent) (frontier_children hex s f)))"

definition repo_lineage ::
  "crc_crate \<Rightarrow> (byte list \<Rightarrow> text_bytes) \<Rightarrow> text_bytes \<Rightarrow> lineage_mode \<Rightarrow> text_bytes option \<Rightarrow> byte list \<Rightarrow>
   (vcs_error, vcs_commit list) result" where
  "repo_lineage cc hex hash mode agent disk =
    (case list_commits cc disk of
       Err e \<Rightarrow> Err e
     | Ok commits \<Rightarrow>
         let f = frontier_new commits
         in (case resolve_frontier cc hex f hash disk of
               Err e \<Rightarrow> Err e
             | Ok s \<Rightarrow> map_sum id (filter_author hex agent) (frontier_lineage hex s mode f)))"

section \<open>Names of tile types\<close>

primrec schema_definitions :: "crc_crate \<Rightarrow> tile option list \<Rightarrow> schema_type_definition list" where
  "schema_definitions cc [] = []"
| "schema_definitions cc (t # ts) =
    (case t of
       Some (header, payload) \<Rightarrow>
         if ht_tile_type header = TILE_SCHEMA then
           (case decode_schema_payload (cc_crc32c cc) payload of Ok types \<Rightarrow> types | Err _ \<Rightarrow> schema_definitions cc ts)
         else schema_definitions cc ts
     | None \<Rightarrow> schema_definitions cc ts)"

definition resolve_tile_type_name :: "crc_crate \<Rightarrow> tile_type_registry \<Rightarrow> mmap_reader \<Rightarrow> u32 \<Rightarrow> text_bytes" where
  "resolve_tile_type_name cc registry r tile_type =
    (case registry_get tile_type registry of
       Some desc \<Rightarrow> ascii (td_name desc)
     | None \<Rightarrow>
         (case find (\<lambda>d. st_type_id d = tile_type) (schema_definitions cc (reader_tiles cc r)) of
            Some d \<Rightarrow> st_name d
          | None \<Rightarrow> ascii ''UNKNOWN''))"

section \<open>The difference of two commits\<close>

record tile_type_diff =
  dt_type_id :: u32
  dt_type_name :: text_bytes
  dt_records_added :: nat
  dt_records_withdrawn :: nat
  dt_records_erased :: nat
  dt_added_record_keys :: "text_bytes list"

record vcs_diff_report =
  df_from_seal :: text_bytes
  df_to_seal :: text_bytes
  df_tile_diffs :: "tile_type_diff list"
  df_total_records_added :: nat
  df_total_records_withdrawn :: nat
  df_total_records_erased :: nat

text \<open>The index of the tile with the last record of a commit.\<close>

definition commit_tile_indices :: "tile option list \<Rightarrow> byte list \<Rightarrow> nat option" where
  "commit_tile_indices tiles =
    fold (\<lambda>i m. fold (\<lambda>c m. m(vc_seal_hash c \<mapsto> i)) (tile_records 504 commit_of_bytes TILE_VCS_COMMIT (tiles ! i)) m)
      [0..<length tiles] Map.empty"

definition diff_limit :: "tile option list \<Rightarrow> byte list \<Rightarrow> nat" where
  "diff_limit tiles seal =
    (if seal = replicate 32 0 then 0
     else case commit_tile_indices tiles seal of Some i \<Rightarrow> i | None \<Rightarrow> length tiles)"

definition is_metadata_tile :: "hyper_tile_header \<Rightarrow> bool" where
  "is_metadata_tile hdr \<longleftrightarrow> ht_tile_type hdr = TILE_MANIFEST \<or> ht_tile_type hdr = TILE_SPECIFICATION \<or>
     ht_tile_type hdr = TILE_VCS_COMMIT \<or> ht_tile_type hdr = TILE_VCS_REF \<or> ht_tile_type hdr = TILE_VCS_RESOLUTION"

definition record_key :: "u32 \<Rightarrow> nat \<Rightarrow> text_bytes" where
  "record_key tile_type r = ascii (''tile_'' @ decimal tile_type @ ''_rec_'' @ format_radix 10 r)"

definition withdrawals :: "hyper_tile_header \<Rightarrow> byte list \<Rightarrow> nat" where
  "withdrawals hdr payload =
    (if ht_tile_type hdr = TILE_CONSENT then length (filter (\<lambda>r. 0 < cn_withdrawn_at r) (payload_records 136 consent_of_bytes hdr payload))
     else if ht_tile_type hdr = TILE_MARKS then
       length (filter (\<lambda>r. mk_mark_kind r = MARK_CONSENT_WITHDRAWN) (payload_records 64 mark_of_bytes hdr payload))
     else 0)"

text \<open>The loop over the tiles fills the records of both sides; each side takes the tiles before its limit.\<close>

definition diff_tile :: "tile option \<Rightarrow> (u32 \<Rightarrow> text_bytes list option) \<times> nat \<Rightarrow> (u32 \<Rightarrow> text_bytes list option) \<times> nat" where
  "diff_tile t side =
    (case t of
       None \<Rightarrow> side
     | Some (hdr, payload) \<Rightarrow>
         if is_metadata_tile hdr then side
         else
           let keys = map (record_key (ht_tile_type hdr)) [0..<unat (ht_record_count hdr)];
               (records, withdrawn) = side;
               v = (case records (ht_tile_type hdr) of Some v \<Rightarrow> v | None \<Rightarrow> [])
           in (records(ht_tile_type hdr \<mapsto> v @ keys), withdrawn + withdrawals hdr payload))"

definition diff_side :: "tile option list \<Rightarrow> nat \<Rightarrow> (u32 \<Rightarrow> text_bytes list option) \<times> nat" where
  "diff_side tiles limit = fold diff_tile (take limit tiles) (Map.empty, 0)"

text \<open>The slice behind the old keys panics when there are more old keys than new ones.\<close>

definition type_diff ::
  "(u32 \<Rightarrow> text_bytes) \<Rightarrow> (u32 \<Rightarrow> text_bytes list option) \<Rightarrow> nat \<Rightarrow> (u32 \<Rightarrow> text_bytes list option) \<Rightarrow> nat \<Rightarrow> u32 \<Rightarrow> tile_type_diff option" where
  "type_diff type_name from_records withdrawn_from to_records withdrawn_to type_id =
    (let to_keys = the (to_records type_id);
         from_keys = (case from_records type_id of Some v \<Rightarrow> v | None \<Rightarrow> [])
     in if length to_keys < length from_keys then None
        else Some \<lparr> dt_type_id = type_id, dt_type_name = type_name type_id, dt_records_added = length to_keys - length from_keys,
          dt_records_withdrawn = withdrawn_to - withdrawn_from, dt_records_erased = 0,
          dt_added_record_keys = drop (length from_keys) to_keys \<rparr>)"

definition vcs_diff ::
  "crc_crate \<Rightarrow> tile_type_registry \<Rightarrow> (byte list \<Rightarrow> text_bytes) \<Rightarrow> (u32 set \<Rightarrow> u32 list) \<Rightarrow> byte list \<Rightarrow> byte list \<Rightarrow> byte list \<Rightarrow>
   (vcs_error, vcs_diff_report) result option" where
  "vcs_diff cc registry hex key_order from_seal to_seal disk =
    (case reader_open cc disk of
       Err e \<Rightarrow> Some (Err (VcsIo e))
     | Ok reader \<Rightarrow>
         let tiles = reader_tiles cc reader;
             (from_records, withdrawn_from) = diff_side tiles (diff_limit tiles from_seal);
             (to_records, withdrawn_to) = diff_side tiles (diff_limit tiles to_seal)
         in case those (map (type_diff (resolve_tile_type_name cc registry reader) from_records withdrawn_from to_records withdrawn_to)
                  (key_order (dom to_records))) of
              None \<Rightarrow> None
            | Some tile_diffs \<Rightarrow>
                Some (Ok \<lparr> df_from_seal = hex from_seal, df_to_seal = hex to_seal, df_tile_diffs = tile_diffs,
                  df_total_records_added = sum_list (map dt_records_added tile_diffs),
                  df_total_records_withdrawn = withdrawn_to - withdrawn_from, df_total_records_erased = 0 \<rparr>))"

end
