(* ===== verification/Vcs_Refs.thy ===== *)
theory Vcs_Refs
  imports Vcs_Repo
begin

text \<open>
  References over runs of calls on a sound archive: a reference is read back, a tag stays through the calls that check for it, and
  the two ways around the check: a name that is cut to the tag's, and a commit.
\<close>

section \<open>What a call adds\<close>

definition stored :: "nat \<Rightarrow> (byte list \<Rightarrow> 'a) \<Rightarrow> u32 \<Rightarrow> tile option list \<Rightarrow> 'a list" where
  "stored n dec ty tiles = concat (map (tile_records n dec ty) tiles)"

lemma stored_append [simp]: "stored n dec ty (ts @ [t]) = stored n dec ty ts @ tile_records n dec ty t"
  by (simp add: stored_def)

lemma list_records_ok: "archive_ok cc disk \<Longrightarrow> list_records n dec ty cc disk = Ok (stored n dec ty (disk_tiles cc disk))"
  by (rule archive_ok_reader) (auto simp: list_records_def stored_def)

context pod_codec
begin

lemma payload_records_one:
  assumes "shaped x" "unat (ht_payload_bytes hdr) = width"
  shows "payload_records width dec hdr (enc x) = [x]"
  using assms width_pos by (simp add: payload_records_def length_enc dec_enc window_all)

lemma tile_records_shaped: "list_all shaped (tile_records width dec ty t)"
proof -
  have "shaped (dec (window (c * width) width payload))" if "(c + 1) * width \<le> length payload" for c and payload :: "byte list"
    using that by (intro shaped_dec) (simp add: add.commute)
  then show ?thesis by (auto simp: tile_records_def payload_records_def list_all_iff split: option.split)
qed

lemma tile_records_one:
  "shaped x \<Longrightarrow> unat (ht_payload_bytes hdr) = width \<Longrightarrow> tile_records width dec ty (Some (hdr, enc x)) = (if ht_tile_type hdr = ty then [x] else [])"
  by (simp add: tile_records_def payload_records_one)

end

lemma describes_payload: "describes i ty n bs ts g \<Longrightarrow> unat (ht_payload_bytes g) = length bs"
  by (simp add: describes_def HYPER_TILE_PAYLOAD_SIZE_def HYPER_TILE_SIZE_def HYPER_TILE_HEADER_SIZE_def unat_of_nat)

lemma vcs_append_cases:
  assumes "archive_ok (en_crc env) disk" "disk_room env (Suc k) disk" "vcs_append_records env ty n bs disk = (res, disk')"
  obtains (refused) e where "res = Err e" "disk' = disk"
  | (appended) g where "res = Ok ()" "archive_ok (en_crc env) disk'" "disk_room env k disk'"
      "disk_tiles (en_crc env) disk' = disk_tiles (en_crc env) disk @ [Some (g, bs)]"
      "ht_tile_type g = ty" "unat (ht_payload_bytes g) = length bs"
proof -
  obtain res0 where a: "append_tile env ty n bs None disk = (res0, disk')"
    using assms(3) by (auto simp: vcs_append_records_def split: prod.splits sum.splits)
  show thesis
  proof (cases rule: append_tile_cases [OF assms(1,2) a])
    case (1 e)
    then show thesis using assms(3) a by (intro refused) (auto simp: vcs_append_records_def)
  next
    case (2 g)
    then show thesis using assms(3) a describes_payload [OF 2(5)]
      by (intro appended [of g]) (auto simp: vcs_append_records_def describes_def)
  qed
qed

definition refs_of :: "crc_crate \<Rightarrow> byte list \<Rightarrow> vcs_ref list" where
  "refs_of cc disk = stored 208 ref_of_bytes TILE_VCS_REF (disk_tiles cc disk)"

lemma get_ref_ok: "archive_ok cc disk \<Longrightarrow> get_ref cc name disk = Ok (find (\<lambda>r. ref_name r = name) (rev (refs_of cc disk)))"
  by (simp add: get_ref_def list_refs_def list_records_ok refs_of_def)

definition signer_shape :: "signer \<Rightarrow> bool" where
  "signer_shape k \<longleftrightarrow> length (sg_pubkey k) = 32 \<and> (\<forall>m. length (sg_sign k m) = 64)"

lemma refs_of_shape: "r \<in> set (refs_of cc disk) \<Longrightarrow> ref_shape r"
  using ref_codec.tile_records_shaped by (auto simp: refs_of_def stored_def list_all_iff)

lemma new_ref_shape: "signer_shape k \<Longrightarrow> length target = 32 \<Longrightarrow> ref_shape (new_ref k kind name target now)"
  by (simp add: ref_shape_def new_ref_def signer_shape_def VCS_REF_NAME_MAX_def)

lemma new_ref_name: "ref_name (new_ref k kind name target now) =
    (let n = field_text (take 64 name) in if utf8_valid n then n else [])"
  by (simp add: ref_name_def new_ref_def field_text_of_field VCS_REF_NAME_MAX_def)

lemma new_ref_fields [simp]:
  "vr_ref_kind (new_ref k kind name target now) = kind" "vr_target_seal_hash (new_ref k kind name target now) = target"
  by (simp_all add: new_ref_def)

lemma new_ref_name_storable: "storable 64 name \<Longrightarrow> ref_name (new_ref k kind name target now) = name"
  using field_text_storable [of 64 name] by (simp add: new_ref_name field_text_of_field storable_def)

text \<open>Every reference that is stored reads as a text of at most 64 bytes without a zero.\<close>

lemma field_text_plain: "0 \<notin> set s \<Longrightarrow> field_text s = s"
  by (auto simp: field_text_def takeWhile_eq_all_conv)

lemma ref_name_fits:
  assumes "length (vr_name r) = 64"
  shows "field_text (take 64 (ref_name r)) = ref_name r"
proof -
  have "length (field_text (vr_name r)) \<le> 64" unfolding field_text_def using assms by (metis length_takeWhile_le)
  moreover have "0 \<notin> set (field_text (vr_name r))" unfolding field_text_def by (auto dest: set_takeWhileD)
  ultimately show ?thesis by (auto simp: ref_name_def Let_def field_text_plain field_text_def [of "[]"])
qed

section \<open>One reference more\<close>

lemma add_ref_cases:
  assumes "archive_ok (en_crc env) disk" "disk_room env (Suc k) disk" "ref_shape r"
    "vcs_append_records env TILE_VCS_REF 1 (ref_bytes r) disk = (res, disk')"
  obtains (refused) e where "res = Err e" "disk' = disk"
  | (appended) "res = Ok ()" "archive_ok (en_crc env) disk'" "disk_room env k disk'"
      "refs_of (en_crc env) disk' = refs_of (en_crc env) disk @ [r]"
proof (cases rule: vcs_append_cases [OF assms(1,2,4)])
  case (2 g)
  then show thesis using assms(3) ref_codec.tile_records_one [of r g] ref_codec.length_enc [of r]
    by (intro appended) (simp_all add: refs_of_def)
qed (rule refused)

lemma add_other_refs:
  assumes "archive_ok (en_crc env) disk" "disk_room env (Suc k) disk" "ty \<noteq> TILE_VCS_REF"
    "append_tile env ty n bs ts disk = (res, disk')"
  shows "archive_ok (en_crc env) disk'" "refs_of (en_crc env) disk' = refs_of (en_crc env) disk"
  by (cases rule: append_tile_cases [OF assms(1,2,4)];
      use assms(1,3) in \<open>auto simp: refs_of_def tile_records_def describes_def\<close>)+

lemma set_branch_cases:
  assumes "archive_ok (en_crc env) disk" "disk_room env (Suc k) disk" "signer_shape key" "length target = 32"
    "set_branch env now name target key disk = (res, disk')"
  obtains (tagged) r where "get_ref (en_crc env) name disk = Ok (Some r)" "vr_ref_kind r = REF_KIND_TAG" "res = Err (TagImmutable name)" "disk' = disk"
  | (refused) e where "res = Err e" "disk' = disk"
  | (set_to) "\<forall>r. get_ref (en_crc env) name disk = Ok (Some r) \<longrightarrow> vr_ref_kind r \<noteq> REF_KIND_TAG"
      "res = Ok (new_ref key REF_KIND_BRANCH name target now)" "archive_ok (en_crc env) disk'" "disk_room env k disk'"
      "refs_of (en_crc env) disk' = refs_of (en_crc env) disk @ [new_ref key REF_KIND_BRANCH name target now]"
proof -
  obtain old where g: "get_ref (en_crc env) name disk = Ok old" using get_ref_ok [OF assms(1)] by simp
  show thesis
  proof (cases "\<exists>r. old = Some r \<and> vr_ref_kind r = REF_KIND_TAG")
    case True
    then obtain r where r: "old = Some r" "vr_ref_kind r = REF_KIND_TAG" by blast
    then have "res = Err (TagImmutable name)" "disk' = disk" using g assms(5) by (simp_all add: set_branch_def)
    with g r show thesis by (intro tagged) simp_all
  next
    case False
    obtain res0 disk0 where v: "vcs_append_records env TILE_VCS_REF 1 (ref_bytes (new_ref key REF_KIND_BRANCH name target now)) disk = (res0, disk0)"
      by (rule prod.exhaust)
    have "\<not> (case old of Some r \<Rightarrow> vr_ref_kind r = REF_KIND_TAG | None \<Rightarrow> False)" using False by (simp split: option.split)
    then have "set_branch env now name target key disk =
        (case res0 of Err e \<Rightarrow> Err e | Ok _ \<Rightarrow> Ok (new_ref key REF_KIND_BRANCH name target now), disk0)"
      by (simp add: set_branch_def g v Let_def del: One_nat_def split: sum.split)
    then have a: "vcs_append_records env TILE_VCS_REF 1 (ref_bytes (new_ref key REF_KIND_BRANCH name target now)) disk = (res0, disk')"
        "res = (case res0 of Err e \<Rightarrow> Err e | Ok _ \<Rightarrow> Ok (new_ref key REF_KIND_BRANCH name target now))"
      using assms(5) v by (simp_all del: One_nat_def)
    show thesis
    proof (cases rule: add_ref_cases [OF assms(1,2) new_ref_shape [OF assms(3,4)] a(1)])
      case (1 e)
      then show thesis using a(2) by (auto intro: refused)
    next
      case 2
      then show thesis using a(2) False g by (intro set_to) auto
    qed
  qed
qed

lemma set_tag_cases:
  assumes "archive_ok (en_crc env) disk" "disk_room env (Suc k) disk" "signer_shape key" "length target = 32"
    "set_tag env now name target key disk = (res, disk')"
  obtains (same) r where "get_ref (en_crc env) name disk = Ok (Some r)" "disk' = disk"
      "res = (if vr_target_seal_hash r = target then Ok r else Err (TagImmutable name))"
  | (refused) e where "res = Err e" "disk' = disk"
  | (set_to) "get_ref (en_crc env) name disk = Ok None"
      "res = Ok (new_ref key REF_KIND_TAG name target now)" "archive_ok (en_crc env) disk'" "disk_room env k disk'"
      "refs_of (en_crc env) disk' = refs_of (en_crc env) disk @ [new_ref key REF_KIND_TAG name target now]"
proof -
  obtain old where g: "get_ref (en_crc env) name disk = Ok old" using get_ref_ok [OF assms(1)] by simp
  show thesis
  proof (cases old)
    case (Some r)
    then have "res = (if vr_target_seal_hash r = target then Ok r else Err (TagImmutable name))" "disk' = disk"
      using g assms(5) by (simp_all add: set_tag_def split: if_splits)
    with g Some show thesis by (intro same) simp_all
  next
    case None
    obtain res0 disk0 where v: "vcs_append_records env TILE_VCS_REF 1 (ref_bytes (new_ref key REF_KIND_TAG name target now)) disk = (res0, disk0)"
      by (rule prod.exhaust)
    have "set_tag env now name target key disk =
        (case res0 of Err e \<Rightarrow> Err e | Ok _ \<Rightarrow> Ok (new_ref key REF_KIND_TAG name target now), disk0)"
      by (simp add: set_tag_def g None v Let_def del: One_nat_def split: sum.split)
    then have a: "vcs_append_records env TILE_VCS_REF 1 (ref_bytes (new_ref key REF_KIND_TAG name target now)) disk = (res0, disk')"
        "res = (case res0 of Err e \<Rightarrow> Err e | Ok _ \<Rightarrow> Ok (new_ref key REF_KIND_TAG name target now))"
      using assms(5) v by (simp_all del: One_nat_def)
    show thesis
    proof (cases rule: add_ref_cases [OF assms(1,2) new_ref_shape [OF assms(3,4)] a(1)])
      case (1 e)
      then show thesis using a(2) by (auto intro: refused)
    next
      case 2
      then show thesis using a(2) None g by (intro set_to) auto
    qed
  qed
qed

lemma add_ref_succeeds:
  assumes "archive_ok (en_crc env) disk" "disk_room env (Suc k) disk" "gate_open env TILE_VCS_REF" "ref_shape r"
  shows "fst (vcs_append_records env TILE_VCS_REF 1 (ref_bytes r) disk) = Ok ()"
proof -
  have "length (ref_bytes r) \<le> HYPER_TILE_PAYLOAD_SIZE"
    using ref_codec.length_enc [OF assms(4)] by (simp add: HYPER_TILE_PAYLOAD_SIZE_def HYPER_TILE_SIZE_def HYPER_TILE_HEADER_SIZE_def)
  from append_tile_succeeds [OF assms(1,2,3) this, of 1 None]
  obtain id disk1 where "append_tile env TILE_VCS_REF 1 (ref_bytes r) None disk = (Ok id, disk1)" by metis
  then show ?thesis by (simp add: vcs_append_records_def del: One_nat_def)
qed

lemma set_branch_succeeds:
  assumes "archive_ok (en_crc env) disk" "disk_room env (Suc k) disk" "gate_open env TILE_VCS_REF" "signer_shape key" "length target = 32"
    "get_ref (en_crc env) name disk = Ok old" "\<forall>r. old = Some r \<longrightarrow> vr_ref_kind r \<noteq> REF_KIND_TAG"
  obtains disk' where "set_branch env now name target key disk = (Ok (new_ref key REF_KIND_BRANCH name target now), disk')"
    "archive_ok (en_crc env) disk'" "disk_room env k disk'"
    "refs_of (en_crc env) disk' = refs_of (en_crc env) disk @ [new_ref key REF_KIND_BRANCH name target now]"
proof -
  let ?r = "new_ref key REF_KIND_BRANCH name target now"
  obtain disk' where v: "vcs_append_records env TILE_VCS_REF 1 (ref_bytes ?r) disk = (Ok (), disk')"
    using add_ref_succeeds [OF assms(1-3) new_ref_shape [OF assms(4,5)]] by (metis prod.collapse)
  have "\<not> (case old of Some r \<Rightarrow> vr_ref_kind r = REF_KIND_TAG | None \<Rightarrow> False)" using assms(7) by (simp split: option.split)
  then have "set_branch env now name target key disk = (Ok ?r, disk')"
    by (simp add: set_branch_def assms(6) v Let_def del: One_nat_def)
  then show thesis using that add_ref_cases [OF assms(1,2) new_ref_shape [OF assms(4,5)] v] by blast
qed

lemma set_tag_succeeds:
  assumes "archive_ok (en_crc env) disk" "disk_room env (Suc k) disk" "gate_open env TILE_VCS_REF" "signer_shape key" "length target = 32"
    "get_ref (en_crc env) name disk = Ok None"
  obtains disk' where "set_tag env now name target key disk = (Ok (new_ref key REF_KIND_TAG name target now), disk')"
    "archive_ok (en_crc env) disk'" "disk_room env k disk'"
    "refs_of (en_crc env) disk' = refs_of (en_crc env) disk @ [new_ref key REF_KIND_TAG name target now]"
proof -
  let ?r = "new_ref key REF_KIND_TAG name target now"
  obtain disk' where v: "vcs_append_records env TILE_VCS_REF 1 (ref_bytes ?r) disk = (Ok (), disk')"
    using add_ref_succeeds [OF assms(1-3) new_ref_shape [OF assms(4,5)]] by (metis prod.collapse)
  then have "set_tag env now name target key disk = (Ok ?r, disk')"
    by (simp add: set_tag_def assms(6) Let_def del: One_nat_def)
  then show thesis using that add_ref_cases [OF assms(1,2) new_ref_shape [OF assms(4,5)] v] by blast
qed

lemma get_ref_added:
  assumes "archive_ok cc disk" "archive_ok cc disk'" "refs_of cc disk' = refs_of cc disk @ [r]"
  shows "get_ref cc name disk' = (if ref_name r = name then Ok (Some r) else get_ref cc name disk)"
  using assms by (simp add: get_ref_ok)

lemma commit_records_cases:
  assumes "archive_ok (en_crc env) disk" "disk_room env (Suc (Suc k)) disk" "signer_shape key" "\<And>seal. sealed = Ok seal \<Longrightarrow> length seal = 32"
    "commit_records env now gate_addr sealed message branch key second disk = (res, disk')"
  obtains (failed) e where "res = Err e" "archive_ok (en_crc env) disk'" "refs_of (en_crc env) disk' = refs_of (en_crc env) disk"
  | (committed) c seal where "res = Ok c" "sealed = Ok seal" "archive_ok (en_crc env) disk'" "disk_room env k disk'"
      "refs_of (en_crc env) disk' = refs_of (en_crc env) disk @ [new_ref key REF_KIND_BRANCH branch seal now]"
proof -
  obtain old where g: "get_ref (en_crc env) branch disk = Ok old" using get_ref_ok [OF assms(1)] by simp
  obtain n ps where p: "parent_slots old second = (n, ps)" by (rule prod.exhaust)
  show thesis
  proof (cases sealed)
    case (Inl e)
    then show thesis using assms(1,5) g p by (intro failed [of e]) (simp_all add: commit_records_def)
  next
    case (Inr seal)
    let ?c = "new_commit (en_sha env) key gate_addr seal n ps now message" and ?r = "new_ref key REF_KIND_BRANCH branch seal now"
    have shape: "ref_shape ?r" using assms(3,4) Inr by (intro new_ref_shape) auto
    obtain res1 disk1 where v: "vcs_append_records env TILE_VCS_COMMIT 1 (commit_bytes ?c) disk = (res1, disk1)" by (rule prod.exhaust)
    have t: "TILE_VCS_COMMIT \<noteq> TILE_VCS_REF" by (simp add: TILE_VCS_COMMIT_def TILE_VCS_REF_def)
    obtain res0 where a: "append_tile env TILE_VCS_COMMIT 1 (commit_bytes ?c) None disk = (res0, disk1)"
      using v by (auto simp: vcs_append_records_def split: prod.splits sum.splits)
    note o = add_other_refs [OF assms(1,2) t a]
    show thesis
    proof (cases rule: vcs_append_cases [OF assms(1,2) v])
      case (1 e)
      then show thesis using assms(5) g p v o by (intro failed [of e]) (simp_all add: commit_records_def Inr Let_def del: One_nat_def)
    next
      case (2 h)
      obtain res2 disk2 where w: "vcs_append_records env TILE_VCS_REF 1 (ref_bytes ?r) disk1 = (res2, disk2)" by (rule prod.exhaust)
      have d: "commit_records env now gate_addr sealed message branch key second disk =
          (case res2 of Err e \<Rightarrow> Err e | Ok _ \<Rightarrow> Ok ?c, disk2)"
        by (simp add: commit_records_def g p Inr v 2(1) w Let_def del: One_nat_def split: sum.split)
      show thesis
      proof (cases rule: add_ref_cases [OF 2(2,3) shape w])
        case (1 e)
        then show thesis using assms(5) d o by (intro failed [of e]) simp_all
      next
        case 2
        then show thesis using assms(5) d o Inr by (intro committed [of ?c seal]) simp_all
      qed
    qed
  qed
qed

section \<open>Runs\<close>

text \<open>The name that a stored reference reads as.\<close>

definition stored_name :: "text_bytes \<Rightarrow> text_bytes" where
  "stored_name name = (let n = field_text (take 64 name) in if utf8_valid n then n else [])"

lemma new_ref_stored_name: "ref_name (new_ref k kind name target now) = stored_name name"
  by (simp add: new_ref_name stored_name_def)

lemma stored_name_storable: "storable 64 name \<Longrightarrow> stored_name name = name"
  using new_ref_name_storable [of name undefined 0 "[]" 0] new_ref_stored_name [of undefined 0 name "[]" 0] by metis

text \<open>The calls of a repository with the tag \<open>tag\<close>: branches and tags under any name that the field does not cut to the tag's, the records of a
  commit to a branch that is not stored under the tag's name, resolutions, and tiles of other types.\<close>

inductive ref_step :: "crc_crate \<Rightarrow> text_bytes \<Rightarrow> byte list \<Rightarrow> byte list \<Rightarrow> bool" for cc :: crc_crate and tag :: text_bytes where
  branch: "en_crc env = cc \<Longrightarrow> disk_room env 1 disk \<Longrightarrow> stored_name name = tag \<longrightarrow> name = tag \<Longrightarrow> signer_shape key \<Longrightarrow> length target = 32 \<Longrightarrow>
    set_branch env now name target key disk = (res, disk') \<Longrightarrow> ref_step cc tag disk disk'"
| tag: "en_crc env = cc \<Longrightarrow> disk_room env 1 disk \<Longrightarrow> stored_name name = tag \<longrightarrow> name = tag \<Longrightarrow> signer_shape key \<Longrightarrow> length target = 32 \<Longrightarrow>
    set_tag env now name target key disk = (res, disk') \<Longrightarrow> ref_step cc tag disk disk'"
| commit: "en_crc env = cc \<Longrightarrow> disk_room env 2 disk \<Longrightarrow> stored_name name \<noteq> tag \<Longrightarrow> signer_shape key \<Longrightarrow>
    (\<And>seal. sealed = Ok seal \<Longrightarrow> length seal = 32) \<Longrightarrow>
    commit_records env now gate_addr sealed message name key second disk = (res', disk') \<Longrightarrow> ref_step cc tag disk disk'"
| resolution: "en_crc env = cc \<Longrightarrow> disk_room env 1 disk \<Longrightarrow> write_resolution env ed r disk = (res1, disk') \<Longrightarrow> ref_step cc tag disk disk'"
| append: "en_crc env = cc \<Longrightarrow> disk_room env 1 disk \<Longrightarrow> ty \<noteq> TILE_VCS_REF \<Longrightarrow>
    append_tile env ty n bs ts disk = (res2, disk') \<Longrightarrow> ref_step cc tag disk disk'"

lemma write_resolution_appends:
  assumes "write_resolution env ed r disk = (res, disk')"
  shows "disk' = disk \<or> (\<exists>res0. append_tile env TILE_VCS_RESOLUTION 1 (resolution_bytes r) None disk = (res0, disk'))"
  using assms by (auto simp: write_resolution_def vcs_append_records_def split: if_splits prod.splits sum.splits)

text \<open>Where the name reads as a tag, a step adds no reference that reads as that name.\<close>

lemma ref_step_effect:
  assumes "ref_step cc tag disk disk'" "archive_ok cc disk" "get_ref cc tag disk = Ok (Some t)" "vr_ref_kind t = REF_KIND_TAG"
  shows "archive_ok cc disk' \<and> (refs_of cc disk' = refs_of cc disk \<or>
    (\<exists>r. refs_of cc disk' = refs_of cc disk @ [r] \<and> ref_name r \<noteq> tag))"
  using assms(1)
proof cases
  case (branch env name key target now res)
  have ok: "archive_ok (en_crc env) disk" using branch(1) assms(2) by simp
  show ?thesis
    by (cases rule: set_branch_cases [OF ok branch(2) [unfolded One_nat_def] branch(4,5,6)])
      (use assms(2-) branch(1,3) in \<open>auto simp: new_ref_stored_name\<close>)
next
  case (tag env name key target now res)
  have ok: "archive_ok (en_crc env) disk" using tag(1) assms(2) by simp
  show ?thesis
    by (cases rule: set_tag_cases [OF ok tag(2) [unfolded One_nat_def] tag(4,5,6)])
      (use assms(2-) tag(1,3) in \<open>auto simp: new_ref_stored_name\<close>)
next
  case (commit env name key sealed now gate_addr message second res)
  have ok: "archive_ok (en_crc env) disk" and room: "disk_room env (Suc (Suc 0)) disk"
    using commit(1,2) assms(2) by (simp_all add: numeral_2_eq_2)
  show ?thesis
    by (cases rule: commit_records_cases [OF ok room commit(4,5,6)])
      (use commit(1,3) in \<open>auto simp: new_ref_stored_name\<close>)
next
  case (resolution env ed r res)
  have ok: "archive_ok (en_crc env) disk" using resolution(1) assms(2) by simp
  have "TILE_VCS_RESOLUTION \<noteq> TILE_VCS_REF" by (simp add: TILE_VCS_RESOLUTION_def TILE_VCS_REF_def)
  then show ?thesis using write_resolution_appends [OF resolution(3)] add_other_refs [OF ok resolution(2) [unfolded One_nat_def]] resolution(1) assms(2)
    by blast
next
  case (append env ty n bs ts res)
  have "archive_ok (en_crc env) disk" using append(1) assms(2) by simp
  then show ?thesis using add_other_refs append by (metis One_nat_def)
qed

lemma ref_step_tag:
  assumes "ref_step cc tag disk disk'" "archive_ok cc disk" "get_ref cc tag disk = Ok (Some t)" "vr_ref_kind t = REF_KIND_TAG"
  shows "archive_ok cc disk' \<and> get_ref cc tag disk' = Ok (Some t)"
  using ref_step_effect [OF assms]
proof (elim conjE disjE exE)
  assume "archive_ok cc disk'" "refs_of cc disk' = refs_of cc disk"
  then show ?thesis using assms(2,3) by (simp add: get_ref_ok)
next
  fix r assume "archive_ok cc disk'" "refs_of cc disk' = refs_of cc disk @ [r]" "ref_name r \<noteq> tag"
  then show ?thesis using get_ref_added [OF assms(2)] assms(3) by simp
qed

text \<open>C10: a tag stays through every call that checks for it.  Once a name reads as a tag, it reads as the same record after every run of
  \<^verbatim>\<open>set_branch\<close> and \<^verbatim>\<open>set_tag\<close>, whatever their names, unless the 64 bytes of the name field cut another name to the
  tag's; of commits to branches not stored under the tag's name; of resolutions and of appended tiles of other types.  The two exceptions are
  real: \<open>cut_name_moves_tag\<close> moves a tag by the cut, and \<open>commit_moves_tag\<close> by a commit to the tag's own name, which has no tag check.  The
  sealing of the file that ends a commit is not modelled.\<close>

theorem tag_immutable:
  assumes "archive_ok cc disk" "get_ref cc name disk = Ok (Some t)" "vr_ref_kind t = REF_KIND_TAG" "(ref_step cc name)\<^sup>*\<^sup>* disk disk'"
  shows "get_ref cc name disk' = Ok (Some t)"
proof -
  from assms(4) have "archive_ok cc disk' \<and> get_ref cc name disk' = Ok (Some t)"
  proof induction
    case (step y z)
    with assms(3) ref_step_tag [of cc name y z t] show ?case by blast
  qed (use assms(1,2) in simp)
  then show ?thesis by simp
qed

lemma commit_slots_shape:
  assumes "parent_slots old second = (n, ps)" "\<forall>r. old = Some r \<longrightarrow> length (vr_target_seal_hash r) = 32"
    "\<forall>s. second = Some s \<longrightarrow> length s = 32"
  shows "length (fst ps) = 32" "length (snd ps) = 32"
  using assms by (auto simp: parent_slots_def Let_def split: option.splits prod.splits)

lemma commit_records_succeeds:
  assumes "archive_ok (en_crc env) disk" "disk_room env 2 disk" "gate_open env TILE_VCS_COMMIT" "gate_open env TILE_VCS_REF"
    "signer_shape key" "length seal = 32" "length (fst gate_addr) = 8" "\<And>bs. length (en_sha env bs) = 32" "\<forall>s. second = Some s \<longrightarrow> length s = 32"
  obtains c disk' where "commit_records env now gate_addr (Ok seal) message branch key second disk = (Ok c, disk')"
proof -
  have room: "disk_room env (Suc (Suc 0)) disk" using assms(2) by (simp add: numeral_2_eq_2)
  obtain old where g: "get_ref (en_crc env) branch disk = Ok old" using get_ref_ok [OF assms(1)] by simp
  obtain n ps where p: "parent_slots old second = (n, ps)" by (rule prod.exhaust)
  have "length (vr_target_seal_hash r) = 32" if "old = Some r" for r
    using that g refs_of_shape [of r "en_crc env" disk] by (auto simp: get_ref_ok [OF assms(1)] ref_shape_def dest: find_SomeD)
  note ps = commit_slots_shape [OF p _ assms(9)]
  let ?c = "new_commit (en_sha env) key gate_addr seal n ps now message" and ?r = "new_ref key REF_KIND_BRANCH branch seal now"
  have "commit_shape ?c"
    using assms(5-8) ps \<open>\<And>r. old = Some r \<Longrightarrow> length (vr_target_seal_hash r) = 32\<close>
    by (simp add: commit_shape_def new_commit_def Let_def signer_shape_def compute_commit_id_def VCS_COMMIT_MESSAGE_MAX_def)
  from commit_codec.length_enc [OF this] have "length (commit_bytes ?c) \<le> HYPER_TILE_PAYLOAD_SIZE"
    by (simp add: HYPER_TILE_PAYLOAD_SIZE_def HYPER_TILE_SIZE_def HYPER_TILE_HEADER_SIZE_def)
  from append_tile_succeeds [OF assms(1) room assms(3) this, of 1 None]
  obtain id disk1 where a: "append_tile env TILE_VCS_COMMIT 1 (commit_bytes ?c) None disk = (Ok id, disk1)" by metis
  then have v: "vcs_append_records env TILE_VCS_COMMIT 1 (commit_bytes ?c) disk = (Ok (), disk1)"
    by (simp add: vcs_append_records_def del: One_nat_def)
  from append_tile_cases [OF assms(1) room a] have d: "archive_ok (en_crc env) disk1" "disk_room env (Suc 0) disk1" by auto
  obtain disk2 where "vcs_append_records env TILE_VCS_REF 1 (ref_bytes ?r) disk1 = (Ok (), disk2)"
    using add_ref_succeeds [OF d assms(4) new_ref_shape [OF assms(5,6)], of REF_KIND_BRANCH branch now] by (metis prod.collapse)
  then show thesis using that g p v by (simp add: commit_records_def Let_def del: One_nat_def)
qed

text \<open>\<^verbatim>\<open>commit\<close> resolves its branch name without asking what the name is: a commit to the name of a tag succeeds, and from
  then on the name reads as a branch.\<close>

theorem commit_moves_tag:
  assumes "archive_ok (en_crc env) disk" "disk_room env 2 disk" "gate_open env TILE_VCS_COMMIT" "gate_open env TILE_VCS_REF"
    "signer_shape key" "length seal = 32" "length (fst gate_addr) = 8" "\<And>bs. length (en_sha env bs) = 32" "storable 64 tag"
    "get_ref (en_crc env) tag disk = Ok (Some t)" "vr_ref_kind t = REF_KIND_TAG"
  shows "\<exists>c disk'. commit_records env now gate_addr (Ok seal) message tag key None disk = (Ok c, disk') \<and>
    get_ref (en_crc env) tag disk' = Ok (Some (new_ref key REF_KIND_BRANCH tag seal now))"
proof -
  have room: "disk_room env (Suc (Suc 0)) disk" using assms(2) by (simp add: numeral_2_eq_2)
  have l: "\<And>s. Ok seal = Ok s \<Longrightarrow> length s = 32" using assms(6) by simp
  obtain c disk' where c: "commit_records env now gate_addr (Ok seal) message tag key None disk = (Ok c, disk')"
    by (rule commit_records_succeeds [OF assms(1-8), of None]) simp
  have "get_ref (en_crc env) tag disk' = Ok (Some (new_ref key REF_KIND_BRANCH tag seal now))"
    by (cases rule: commit_records_cases [OF assms(1) room assms(5) l c])
      (use get_ref_added [OF assms(1)] assms(9) in \<open>auto simp: new_ref_name_storable\<close>)
  with c show ?thesis by blast
qed

text \<open>A branch that was set is read back with its target and a signature that verifies; the other names keep what they had.\<close>

theorem branch_set_read_back:
  assumes "archive_ok (en_crc env) disk" "disk_room env 1 disk" "storable 64 name" "signer_shape key" "length target = 32"
    "set_branch env now name target key disk = (Ok r, disk')" "\<And>m. ed (sg_pubkey key) m (sg_sign key m)"
  shows "get_ref (en_crc env) name disk' = Ok (Some r) \<and> vr_target_seal_hash r = target \<and> ref_verify_signature ed r \<and>
    (\<forall>other. other \<noteq> name \<longrightarrow> get_ref (en_crc env) other disk' = get_ref (en_crc env) other disk)"
proof (cases rule: set_branch_cases [OF assms(1) assms(2) [unfolded One_nat_def] assms(4,5,6)])
  case 3
  note n = new_ref_name_storable [OF assms(3)] and f = field_text_storable [OF assms(3)]
  have "ref_verify_signature ed (new_ref key REF_KIND_BRANCH name target now)"
    using assms(3,7) f by (simp add: ref_verify_signature_def new_ref_def VCS_REF_NAME_MAX_def storable_def)
  then show ?thesis using 3 get_ref_added [OF assms(1) 3(3,5)] n by simp
qed simp_all

lemma cut_name_unknown:
  assumes "archive_ok cc disk" "field_text (take 64 name) \<noteq> name"
  shows "get_ref cc name disk = Ok None"
proof -
  have "ref_name r \<noteq> name" if "r \<in> set (refs_of cc disk)" for r
    using refs_of_shape [OF that] ref_name_fits [of r] assms(2) by (auto simp: ref_shape_def)
  then show ?thesis using assms(1) by (simp add: get_ref_ok find_None_iff)
qed

text \<open>C40: a name that is cut to the name of a tag when it is stored, because it is longer than 64 bytes or has a zero byte, is not
  found by the check: \<^verbatim>\<open>set_branch\<close> succeeds, and from then on the name of the tag reads as the new branch.\<close>

theorem cut_name_moves_tag:
  assumes "archive_ok (en_crc env) disk" "disk_room env 1 disk" "signer_shape key" "length target = 32" "gate_open env TILE_VCS_REF"
    "utf8_valid tag" "field_text (take 64 name) = tag" "name \<noteq> tag"
    "get_ref (en_crc env) tag disk = Ok (Some t)" "vr_ref_kind t = REF_KIND_TAG"
  shows "\<exists>disk'. set_branch env now name target key disk = (Ok (new_ref key REF_KIND_BRANCH name target now), disk') \<and>
    get_ref (en_crc env) tag disk' = Ok (Some (new_ref key REF_KIND_BRANCH name target now))"
proof -
  have none: "get_ref (en_crc env) name disk = Ok None" using assms(1,7,8) by (intro cut_name_unknown) simp_all
  have n: "ref_name (new_ref key REF_KIND_BRANCH name target now) = tag" using assms(6,7) by (simp add: new_ref_name)
  show ?thesis
    by (rule set_branch_succeeds [OF assms(1) assms(2) [unfolded One_nat_def] assms(5,3,4) none, of now])
      (use get_ref_added [OF assms(1)] n in auto)
qed

section \<open>An instance\<close>

definition demo_signer :: signer where
  "demo_signer = \<lparr> sg_pubkey = replicate 32 7, sg_sign = (\<lambda>_. replicate 64 0) \<rparr>"

lemma demo_signer_shape: "signer_shape demo_signer"
  by (simp add: signer_shape_def demo_signer_def)

definition demo_tag :: vcs_ref where
  "demo_tag = new_ref demo_signer REF_KIND_TAG [0x76] (replicate 32 1) 5"

definition demo_tagged :: "byte list" where
  "demo_tagged = snd (set_tag demo_env 5 [0x76] (replicate 32 1) demo_signer demo_disk)"

lemma demo_ok: "archive_ok demo_crc demo_disk"
  using demo_governed(1) by (simp add: governed_def)

lemma demo_no_refs: "refs_of demo_crc demo_disk = []"
  by (simp add: refs_of_def stored_def demo_governed)

lemma demo_v: "storable 64 [0x76]" "storable 64 [0x77]"
  by (simp_all add: storable_def utf8_valid.simps)

lemma demo_tagged_archive:
  "archive_ok demo_crc demo_tagged" "disk_room demo_env 3 demo_tagged" "get_ref demo_crc [0x76] demo_tagged = Ok (Some demo_tag)"
    "refs_of demo_crc demo_tagged = [demo_tag]"
proof -
  have none: "get_ref (en_crc demo_env) [0x76] demo_disk = Ok None" using demo_ok by (simp add: get_ref_ok demo_no_refs)
  have r: "disk_room demo_env (Suc 3) demo_disk" using demo_room by (simp add: eval_nat_numeral)
  obtain disk' where d: "set_tag demo_env 5 [0x76] (replicate 32 1) demo_signer demo_disk = (Ok demo_tag, disk')"
      "archive_ok demo_crc disk'" "disk_room demo_env 3 disk'" "refs_of demo_crc disk' = [demo_tag]"
    using demo_ok demo_no_refs unfolding demo_tag_def
    by (rule_tac set_tag_succeeds [OF _ r demo_gate demo_signer_shape _ none, of "replicate 32 1" 5]) simp_all
  then have "demo_tagged = disk'" by (simp add: demo_tagged_def)
  moreover have "ref_name demo_tag = [0x76]" using demo_v by (simp add: demo_tag_def new_ref_name_storable)
  ultimately show "archive_ok demo_crc demo_tagged" "disk_room demo_env 3 demo_tagged"
    "get_ref demo_crc [0x76] demo_tagged = Ok (Some demo_tag)" "refs_of demo_crc demo_tagged = [demo_tag]"
    using d by (simp_all add: get_ref_ok)
qed

lemma demo_tagged_room: "disk_room demo_env 1 demo_tagged"
  using demo_tagged_archive(2) by (rule disk_room_mono) simp

theorem tag_immutable_witness:
  "get_ref demo_crc [0x76] (snd (set_branch demo_env 6 [0x76] (replicate 32 2) demo_signer demo_tagged)) = Ok (Some demo_tag)"
proof -
  have "ref_step demo_crc [0x76] demo_tagged (snd (set_branch demo_env 6 [0x76] (replicate 32 2) demo_signer demo_tagged))"
    by (rule ref_step.branch [where env = demo_env, OF _ demo_tagged_room _ demo_signer_shape]) (simp_all add: prod_eq_iff)
  then have "(ref_step demo_crc [0x76])\<^sup>*\<^sup>* demo_tagged (snd (set_branch demo_env 6 [0x76] (replicate 32 2) demo_signer demo_tagged))" by blast
  from tag_immutable [OF demo_tagged_archive(1,3) _ this] show ?thesis by (simp add: demo_tag_def)
qed

theorem branch_set_read_back_witness:
  "\<exists>r disk'. set_branch demo_env 6 [0x77] (replicate 32 2) demo_signer demo_tagged = (Ok r, disk') \<and>
    get_ref demo_crc [0x77] disk' = Ok (Some r) \<and> get_ref demo_crc [0x76] disk' = Ok (Some demo_tag)"
proof -
  have ok: "archive_ok (en_crc demo_env) demo_tagged" and room: "disk_room demo_env (Suc 2) demo_tagged"
    using demo_tagged_archive(1,2) by (simp_all add: eval_nat_numeral)
  have "ref_name demo_tag = [0x76]" using demo_v by (simp add: demo_tag_def new_ref_name_storable)
  then have none: "get_ref (en_crc demo_env) [0x77] demo_tagged = Ok None" using demo_tagged_archive by (simp add: get_ref_ok)
  obtain disk' where s: "set_branch demo_env 6 [0x77] (replicate 32 2) demo_signer demo_tagged =
      (Ok (new_ref demo_signer REF_KIND_BRANCH [0x77] (replicate 32 2) 6), disk')"
    by (rule set_branch_succeeds [OF ok room demo_gate demo_signer_shape _ none, of "replicate 32 2" 6]) simp_all
  from branch_set_read_back [where ed = "\<lambda>_ _ _. True", OF ok demo_tagged_room demo_v(2) demo_signer_shape _ s]
  show ?thesis using s demo_tagged_archive(3) by auto
qed

theorem cut_name_moves_tag_witness:
  "\<exists>disk'. get_ref demo_crc [0x76] disk' = Ok (Some (new_ref demo_signer REF_KIND_BRANCH [0x76, 0] (replicate 32 2) 6)) \<and>
    disk' = snd (set_branch demo_env 6 [0x76, 0] (replicate 32 2) demo_signer demo_tagged)"
proof -
  have "archive_ok (en_crc demo_env) demo_tagged" "get_ref (en_crc demo_env) [0x76] demo_tagged = Ok (Some demo_tag)"
    using demo_tagged_archive by simp_all
  from cut_name_moves_tag [OF this(1) demo_tagged_room demo_signer_shape _ demo_gate _ _ _ this(2), of "replicate 32 2" "[0x76, 0]" 6]
  show ?thesis using demo_v by (auto simp: storable_def field_text_def demo_tag_def)
qed

end
