(* ===== verification/Vcs_Diff.thy ===== *)
theory Vcs_Diff
  imports Vcs_Refs
begin

text \<open>
  What \<^verbatim>\<open>VcsRepo::diff\<close> counts: the records of the data tiles between two commits, forwards; backwards it panics as soon as a
  type has lost records.
\<close>

section \<open>One side\<close>

definition data_tile :: "tile option \<Rightarrow> u32 option" where
  "data_tile t = (case t of Some (hdr, _) \<Rightarrow> if is_metadata_tile hdr then None else Some (ht_tile_type hdr) | None \<Rightarrow> None)"

definition tile_record_count :: "tile option \<Rightarrow> nat" where
  "tile_record_count t = (case t of Some (hdr, _) \<Rightarrow> unat (ht_record_count hdr) | None \<Rightarrow> 0)"

definition tile_withdrawals :: "tile option \<Rightarrow> nat" where
  "tile_withdrawals t = (case t of Some (hdr, payload) \<Rightarrow> withdrawals hdr payload | None \<Rightarrow> 0)"

definition data_tiles :: "tile option list \<Rightarrow> tile option list" where
  "data_tiles = filter (\<lambda>t. data_tile t \<noteq> None)"

text \<open>The records of a type in a list of tiles.\<close>

definition records_of :: "u32 \<Rightarrow> tile option list \<Rightarrow> nat" where
  "records_of ty tiles = sum_list (map tile_record_count (filter (\<lambda>t. data_tile t = Some ty) tiles))"

definition side_keys :: "(u32 \<Rightarrow> text_bytes list option) \<times> nat \<Rightarrow> u32 \<Rightarrow> text_bytes list" where
  "side_keys side ty = (case fst side ty of Some v \<Rightarrow> v | None \<Rightarrow> [])"

lemma diff_tile_effect:
  "length (side_keys (diff_tile t side) ty) = length (side_keys side ty) + records_of ty [t]"
  "dom (fst (diff_tile t side)) = dom (fst side) \<union> set_option (data_tile t)"
  "snd (diff_tile t side) = snd side + sum_list (map tile_withdrawals (data_tiles [t]))"
  by (auto simp: diff_tile_def side_keys_def records_of_def data_tile_def tile_record_count_def tile_withdrawals_def data_tiles_def
      Let_def split: option.splits prod.splits if_splits)

lemma records_of_append [simp]: "records_of ty (ts @ us) = records_of ty ts + records_of ty us"
  by (simp add: records_of_def)

lemma data_tiles_append [simp]: "data_tiles (ts @ us) = data_tiles ts @ data_tiles us"
  by (simp add: data_tiles_def)

definition side_of :: "tile option list \<Rightarrow> (u32 \<Rightarrow> text_bytes list option) \<times> nat" where
  "side_of ts = fold diff_tile ts (Map.empty, 0)"

lemma diff_side_of: "diff_side tiles limit = side_of (take limit tiles)"
  by (simp add: diff_side_def side_of_def)

lemma side_of_effect:
  "length (side_keys (side_of ts) ty) = records_of ty ts"
  "dom (fst (side_of ts)) = {ty. Some ty \<in> data_tile ` set ts}"
  "snd (side_of ts) = sum_list (map tile_withdrawals (data_tiles ts))"
proof (induction ts rule: rev_induct)
  case Nil
  show "length (side_keys (side_of []) ty) = records_of ty []" "dom (fst (side_of [])) = {ty. Some ty \<in> data_tile ` set []}"
    "snd (side_of []) = sum_list (map tile_withdrawals (data_tiles []))"
    by (simp_all add: side_of_def side_keys_def records_of_def data_tiles_def)
next
  case (snoc t ts)
  have s: "side_of (ts @ [t]) = diff_tile t (side_of ts)" by (simp add: side_of_def)
  show "length (side_keys (side_of (ts @ [t])) ty) = records_of ty (ts @ [t])"
    "snd (side_of (ts @ [t])) = sum_list (map tile_withdrawals (data_tiles (ts @ [t])))"
    using snoc by (simp_all add: s diff_tile_effect)
  show "dom (fst (side_of (ts @ [t]))) = {ty. Some ty \<in> data_tile ` set (ts @ [t])}"
    unfolding s diff_tile_effect snoc.IH(2) by (cases "data_tile t") auto
qed

section \<open>Both sides\<close>

text \<open>The panic, in terms of the tiles.\<close>

lemma type_diff_of:
  assumes "Some ty \<in> data_tile ` set new"
  shows "type_diff nm (fst (side_of old)) w_from (fst (side_of new)) w_to ty =
    (if records_of ty new < records_of ty old then None
     else Some \<lparr> dt_type_id = ty, dt_type_name = nm ty, dt_records_added = records_of ty new - records_of ty old,
       dt_records_withdrawn = w_to - w_from, dt_records_erased = 0,
       dt_added_record_keys = drop (records_of ty old) (side_keys (side_of new) ty) \<rparr>)"
proof -
  have "ty \<in> dom (fst (side_of new))" using assms side_of_effect(2) by blast
  then have k: "the (fst (side_of new) ty) = side_keys (side_of new) ty" by (auto simp: side_keys_def)
  have f: "(case fst (side_of old) ty of Some v \<Rightarrow> v | None \<Rightarrow> []) = side_keys (side_of old) ty" by (simp add: side_keys_def)
  show ?thesis by (simp add: type_diff_def k f side_of_effect Let_def)
qed

lemma those_None: "those xs = None \<longleftrightarrow> None \<in> set xs"
  by (induction xs) (auto split: option.splits)

lemma those_Some_map: "those (map (\<lambda>x. Some (f x)) xs) = Some (map f xs)"
  by (induction xs) simp_all

definition listing :: "(u32 set \<Rightarrow> u32 list) \<Rightarrow> bool" where
  "listing key_order \<longleftrightarrow> (\<forall>S. set (key_order S) = S \<and> distinct (key_order S))"

lemma records_of_total:
  fixes D :: "u32 set"
  assumes "\<forall>t \<in> set ts. \<forall>ty. data_tile t = Some ty \<longrightarrow> ty \<in> D"
  shows "(\<Sum>ty \<in> D. records_of ty ts) = sum_list (map tile_record_count (data_tiles ts))"
  using assms
proof (induction ts)
  case (Cons t ts)
  have "(\<Sum>ty \<in> D. records_of ty [t]) = sum_list (map tile_record_count (data_tiles [t]))"
  proof (cases "data_tile t")
    case (Some ty0)
    then have "ty0 \<in> D" using Cons.prems by simp
    moreover have "records_of ty [t] = (if ty = ty0 then tile_record_count t else 0)" for ty
      using Some by (simp add: records_of_def)
    ultimately show ?thesis using Some by (simp add: data_tiles_def sum.delta')
  qed (simp add: records_of_def data_tiles_def)
  moreover have "records_of ty (t # ts) = records_of ty [t] + records_of ty ts" for ty using records_of_append [of ty "[t]" ts] by simp
  moreover have "data_tiles (t # ts) = data_tiles [t] @ data_tiles ts" using data_tiles_append [of "[t]" ts] by simp
  ultimately show ?case using Cons by (simp add: sum.distrib)
qed (simp add: records_of_def data_tiles_def)

lemma take_split: "n \<le> m \<Longrightarrow> take m xs = take n xs @ drop n (take m xs)"
  using append_take_drop_id [of n "take m xs"] by (simp add: min_absorb1)

text \<open>C32: the difference from a commit to a later one never panics, and its totals are the records and the withdrawals in the data
  tiles that lie between the two commits.\<close>

theorem diff_counts_new_records:
  assumes "reader_open cc disk = Ok r" "listing key_order"
    "diff_limit (reader_tiles cc r) old \<le> diff_limit (reader_tiles cc r) new"
  shows "\<exists>report. vcs_diff cc registry hex key_order old new disk = Some (Ok report) \<and>
    (let between = data_tiles (drop (diff_limit (reader_tiles cc r) old) (take (diff_limit (reader_tiles cc r) new) (reader_tiles cc r)))
     in df_total_records_added report = sum_list (map tile_record_count between) \<and>
        df_total_records_withdrawn report = sum_list (map tile_withdrawals between))"
proof -
  define A where "A = take (diff_limit (reader_tiles cc r) old) (reader_tiles cc r)"
  define B where "B = drop (diff_limit (reader_tiles cc r) old) (take (diff_limit (reader_tiles cc r) new) (reader_tiles cc r))"
  have AB: "take (diff_limit (reader_tiles cc r) new) (reader_tiles cc r) = A @ B"
    unfolding A_def B_def by (rule take_split [OF assms(3)])
  let ?D = "dom (fst (side_of (A @ B)))"
  let ?td = "\<lambda>ty. \<lparr> dt_type_id = ty, dt_type_name = resolve_tile_type_name cc registry r ty, dt_records_added = records_of ty B,
       dt_records_withdrawn = snd (side_of (A @ B)) - snd (side_of A), dt_records_erased = 0,
       dt_added_record_keys = drop (records_of ty A) (side_keys (side_of (A @ B)) ty) \<rparr>"
  have l: "set (key_order ?D) = ?D" "distinct (key_order ?D)" using assms(2) by (simp_all add: listing_def)
  have "type_diff (resolve_tile_type_name cc registry r) (fst (side_of A)) (snd (side_of A)) (fst (side_of (A @ B))) (snd (side_of (A @ B))) ty =
      Some (?td ty)" if "ty \<in> set (key_order ?D)" for ty
    using that l(1) side_of_effect(2) [of "A @ B"] by (subst type_diff_of) (blast, simp)
  then have "those (map (type_diff (resolve_tile_type_name cc registry r) (fst (side_of A)) (snd (side_of A)) (fst (side_of (A @ B)))
      (snd (side_of (A @ B)))) (key_order ?D)) = Some (map ?td (key_order ?D))"
    using those_Some_map [of ?td "key_order ?D"] by (metis (no_types, lifting) map_cong)
  then have d: "\<exists>report. vcs_diff cc registry hex key_order old new disk = Some (Ok report) \<and>
      df_total_records_added report = sum_list (map dt_records_added (map ?td (key_order ?D))) \<and>
      df_total_records_withdrawn report = snd (side_of (A @ B)) - snd (side_of A)"
    by (simp add: vcs_diff_def assms(1) diff_side_of AB A_def [symmetric] split_def Let_def)
  have "sum_list (map dt_records_added (map ?td (key_order ?D))) = (\<Sum>ty \<in> ?D. records_of ty B)"
    using l by (simp add: comp_def sum_list_distinct_conv_sum_set)
  also have "\<dots> = sum_list (map tile_record_count (data_tiles B))"
    by (rule records_of_total) (auto simp: side_of_effect(2) intro: rev_image_eqI)
  finally show ?thesis using d by (auto simp: side_of_effect(3) B_def [symmetric] Let_def)
qed

lemma nth_in_slice: "n \<le> i \<Longrightarrow> i < m \<Longrightarrow> i < length xs \<Longrightarrow> xs ! i \<in> set (drop n (take m xs))"
  using nth_mem [of "i - n" "drop n (take m xs)"] by simp

text \<open>C39: the difference from a commit to an earlier one panics when a type of the earlier state has gained records since.\<close>

theorem diff_backwards_panics:
  assumes "reader_open cc disk = Ok r" "listing key_order"
    "diff_limit (reader_tiles cc r) old < i" "i < diff_limit (reader_tiles cc r) new" "i < length (reader_tiles cc r)"
    "data_tile (reader_tiles cc r ! i) = Some ty" "0 < tile_record_count (reader_tiles cc r ! i)"
    "j < diff_limit (reader_tiles cc r) old" "data_tile (reader_tiles cc r ! j) = Some ty"
  shows "vcs_diff cc registry hex key_order new old disk = None"
proof -
  let ?T = "reader_tiles cc r" let ?n = "diff_limit ?T old" let ?m = "diff_limit ?T new"
  have split: "take ?m ?T = take ?n ?T @ drop ?n (take ?m ?T)"
    using take_split [of ?n ?m ?T] assms(3,4) by simp
  have "?T ! i \<in> set (drop ?n (take ?m ?T))"
    using assms(3-5) by (intro nth_in_slice) simp_all
  then have "tile_record_count (?T ! i) \<in> set (map tile_record_count (filter (\<lambda>t. data_tile t = Some ty) (drop ?n (take ?m ?T))))"
    using assms(6) by simp
  from member_le_sum_list [OF this] have "0 < records_of ty (drop ?n (take ?m ?T))"
    using assms(7) unfolding records_of_def by linarith
  then have less: "records_of ty (take ?n ?T) < records_of ty (take ?m ?T)" by (subst split) simp
  have "?T ! j \<in> set (take ?n ?T)" using assms(3,5,8) nth_mem [of j "take ?n ?T"] by simp
  then have mem: "Some ty \<in> data_tile ` set (take ?n ?T)" using assms(9) by (metis rev_image_eqI)
  then have "ty \<in> set (key_order (dom (fst (side_of (take ?n ?T)))))" using assms(2) side_of_effect(2) by (simp add: listing_def)
  moreover have "type_diff nm (fst (side_of (take ?m ?T))) w_from (fst (side_of (take ?n ?T))) w_to ty = None" for nm w_from w_to
    using less by (simp add: type_diff_of [OF mem])
  ultimately have "None \<in> set (map (type_diff nm (fst (side_of (take ?m ?T))) w_from (fst (side_of (take ?n ?T))) w_to)
      (key_order (dom (fst (side_of (take ?n ?T))))))" for nm w_from w_to
    by (metis (no_types, lifting) image_eqI list.set_map)
  then show ?thesis by (simp add: vcs_diff_def assms(1) diff_side_of split_def Let_def those_None [THEN iffD2])
qed

section \<open>An instance\<close>

lemma append_tile_adds:
  assumes "archive_ok (en_crc env) disk" "disk_room env (Suc k) disk" "gate_open env ty" "length bs \<le> HYPER_TILE_PAYLOAD_SIZE"
  obtains g where "archive_ok (en_crc env) (snd (append_tile env ty n bs ts disk))" "disk_room env k (snd (append_tile env ty n bs ts disk))"
    "disk_tiles (en_crc env) (snd (append_tile env ty n bs ts disk)) = disk_tiles (en_crc env) disk @ [Some (g, bs)]"
    "ht_tile_type g = ty" "ht_record_count g = of_nat n" "unat (ht_payload_bytes g) = length bs"
proof -
  obtain id disk' where a: "append_tile env ty n bs ts disk = (Ok id, disk')" using append_tile_succeeds [OF assms] .
  show thesis
  proof (cases rule: append_tile_cases [OF assms(1,2) a])
    case (2 g)
    have "ht_tile_type g = ty" "ht_record_count g = of_nat n" using 2(5) by (simp_all add: describes_def)
    then show thesis using that [of g] 2 a describes_payload [OF 2(5)] by simp
  qed simp
qed

text \<open>Two telemetry records with a commit between them.\<close>

definition demo_seal :: "byte list" where
  "demo_seal = replicate 32 9"

definition demo_sealed_commit :: vcs_commit where
  "demo_sealed_commit = commit_of_bytes (replicate 32 0 @ demo_seal @ replicate 440 0)"

definition demo_diff_disk :: "byte list" where
  "demo_diff_disk =
    snd (append_tile demo_env TILE_TELEMETRY 1 (replicate 32 0) None
     (snd (append_tile demo_env TILE_VCS_COMMIT 1 (commit_bytes demo_sealed_commit) None
      (snd (append_tile demo_env TILE_TELEMETRY 1 (replicate 32 0) None demo_disk)))))"

lemma demo_sealed: "commit_shape demo_sealed_commit" "vc_seal_hash demo_sealed_commit = demo_seal"
proof -
  have "length (replicate 32 0 @ demo_seal @ replicate 440 0 :: byte list) = 504" by (simp add: demo_seal_def)
  then show "commit_shape demo_sealed_commit" unfolding demo_sealed_commit_def by (rule commit_codec.shaped_dec)
  show "vc_seal_hash demo_sealed_commit = demo_seal"
    by (simp add: demo_sealed_commit_def commit_of_bytes_def window_def demo_seal_def)
qed

lemma demo_diff_tiles:
  obtains r g h k where "reader_open demo_crc demo_diff_disk = Ok r"
    "reader_tiles demo_crc r = [Some (g, replicate 32 0), Some (h, commit_bytes demo_sealed_commit), Some (k, replicate 32 0)]"
    "ht_tile_type g = TILE_TELEMETRY" "ht_record_count g = 1" "ht_tile_type h = TILE_VCS_COMMIT" "unat (ht_payload_bytes h) = 504"
    "ht_tile_type k = TILE_TELEMETRY" "ht_record_count k = 1"
proof -
  let ?e = "en_crc demo_env" let ?bs = "replicate 32 0 :: byte list" let ?cb = "commit_bytes demo_sealed_commit"
  have l: "length ?bs \<le> HYPER_TILE_PAYLOAD_SIZE" "length ?cb = 504" "length ?cb \<le> HYPER_TILE_PAYLOAD_SIZE"
    using commit_codec.length_enc [OF demo_sealed(1)] by (simp_all add: HYPER_TILE_PAYLOAD_SIZE_def HYPER_TILE_SIZE_def HYPER_TILE_HEADER_SIZE_def)
  define d1 where "d1 = snd (append_tile demo_env TILE_TELEMETRY 1 ?bs None demo_disk)"
  define d2 where "d2 = snd (append_tile demo_env TILE_VCS_COMMIT 1 ?cb None d1)"
  have ok: "archive_ok ?e demo_disk" and room: "disk_room demo_env (Suc (Suc (Suc 1))) demo_disk"
    using demo_ok demo_room by (simp_all add: eval_nat_numeral)
  obtain g where g: "archive_ok ?e d1" "disk_room demo_env (Suc (Suc 1)) d1" "disk_tiles ?e d1 = [Some (g, ?bs)]"
      "ht_tile_type g = TILE_TELEMETRY" "ht_record_count g = 1"
    by (rule append_tile_adds [OF ok room demo_gate l(1), of TILE_TELEMETRY 1 None]) (simp add: d1_def demo_governed)
  obtain h where h: "archive_ok ?e d2" "disk_room demo_env (Suc 1) d2" "disk_tiles ?e d2 = [Some (g, ?bs), Some (h, ?cb)]"
      "ht_tile_type h = TILE_VCS_COMMIT" "unat (ht_payload_bytes h) = 504"
    by (rule append_tile_adds [OF g(1,2) demo_gate l(3), of TILE_VCS_COMMIT 1 None]) (simp add: d2_def g(3) l(2) del: demo_env_simps One_nat_def)
  obtain k where k: "archive_ok ?e demo_diff_disk" "disk_tiles ?e demo_diff_disk = [Some (g, ?bs), Some (h, ?cb), Some (k, ?bs)]"
      "ht_tile_type k = TILE_TELEMETRY" "ht_record_count k = 1"
    by (rule append_tile_adds [OF h(1,2) demo_gate l(1), of TILE_TELEMETRY 1 None])
      (simp add: demo_diff_disk_def d2_def [symmetric] d1_def [symmetric] h(3) del: demo_env_simps One_nat_def)
  show thesis
    by (rule archive_ok_reader [OF k(1)], rule that [of _ g h k]) (use g(4,5) h(4,5) k in simp_all)
qed

lemma demo_listing: "listing sorted_list_of_set"
  by (simp add: listing_def)

lemma demo_limits:
  assumes "ht_tile_type g = TILE_TELEMETRY" "ht_tile_type h = TILE_VCS_COMMIT" "unat (ht_payload_bytes h) = 504" "ht_tile_type k = TILE_TELEMETRY"
    "ts = [Some (g, bs), Some (h, commit_bytes demo_sealed_commit), Some (k, bs')]"
  shows "diff_limit ts demo_seal = 1" "diff_limit ts (replicate 32 1) = 3" "diff_limit ts (replicate 32 0) = 0"
    "data_tile (ts ! 0) = Some TILE_TELEMETRY" "data_tile (ts ! 2) = Some TILE_TELEMETRY"
proof -
  have n: "TILE_TELEMETRY \<noteq> TILE_VCS_COMMIT" by (simp add: TILE_TELEMETRY_def TILE_VCS_COMMIT_def)
  have "commit_tile_indices ts = [demo_seal \<mapsto> 1]"
    using assms n commit_codec.tile_records_one [OF demo_sealed(1) assms(3), of TILE_VCS_COMMIT]
    by (simp add: commit_tile_indices_def upt_rec demo_sealed tile_records_def [of _ _ _ "Some (g, bs)"] tile_records_def [of _ _ _ "Some (k, bs')"])
  then show "diff_limit ts demo_seal = 1" "diff_limit ts (replicate 32 1) = 3" "diff_limit ts (replicate 32 0) = 0"
    using assms(5) by (simp_all add: diff_limit_def demo_seal_def replicate_eq_replicate)
  show "data_tile (ts ! 0) = Some TILE_TELEMETRY" "data_tile (ts ! 2) = Some TILE_TELEMETRY"
    using assms by (simp_all add: data_tile_def is_metadata_tile_def TILE_TELEMETRY_def TILE_MANIFEST_def TILE_SPECIFICATION_def
      TILE_VCS_COMMIT_def TILE_VCS_REF_def TILE_VCS_RESOLUTION_def)
qed

theorem diff_counts_new_records_witness:
  "\<exists>report. vcs_diff demo_crc [] id sorted_list_of_set (replicate 32 0) demo_seal demo_diff_disk = Some (Ok report) \<and>
    df_total_records_added report = 1"
proof (rule demo_diff_tiles)
  fix r g h k
  assume r: "reader_open demo_crc demo_diff_disk = Ok r"
    "reader_tiles demo_crc r = [Some (g, replicate 32 0), Some (h, commit_bytes demo_sealed_commit), Some (k, replicate 32 0)]"
    and t: "ht_tile_type g = TILE_TELEMETRY" "ht_record_count g = 1" "ht_tile_type h = TILE_VCS_COMMIT" "unat (ht_payload_bytes h) = 504"
    "ht_tile_type k = TILE_TELEMETRY"
  note l = demo_limits [OF t(1,3,4,5) r(2)]
  have "data_tile (Some (g, replicate 32 0)) = Some TILE_TELEMETRY" using l(4) r(2) by simp
  then show ?thesis using diff_counts_new_records [OF r(1) demo_listing, of "replicate 32 0" demo_seal "[]" id] l(1,3) r(2) t(2)
    by (auto simp: data_tiles_def tile_record_count_def Let_def)
qed

theorem diff_backwards_panics_witness:
  "vcs_diff demo_crc [] id sorted_list_of_set (replicate 32 1) demo_seal demo_diff_disk = None"
proof (rule demo_diff_tiles)
  fix r g h k
  assume r: "reader_open demo_crc demo_diff_disk = Ok r"
    "reader_tiles demo_crc r = [Some (g, replicate 32 0), Some (h, commit_bytes demo_sealed_commit), Some (k, replicate 32 0)]"
    and t: "ht_tile_type g = TILE_TELEMETRY" "ht_record_count g = 1" "ht_tile_type h = TILE_VCS_COMMIT" "unat (ht_payload_bytes h) = 504"
    "ht_tile_type k = TILE_TELEMETRY" "ht_record_count k = 1"
  note l = demo_limits [OF t(1,3,4,5) r(2)]
  show ?thesis
    by (rule diff_backwards_panics [OF r(1) demo_listing, of demo_seal 2 "replicate 32 1" TILE_TELEMETRY 0])
      (use l r(2) t(6) in \<open>simp_all add: tile_record_count_def\<close>)
qed

end
