(* ===== verification/Vcs_Merge.thy ===== *)
theory Vcs_Merge
  imports Vcs_Diff "HOL-Library.List_Lexorder"
begin

text \<open>
  \<^verbatim>\<open>VcsRepo::merge\<close> of \<^verbatim>\<open>crates/s3a-vcs/src/repo.rs\<close>: fast forward, the records of
  both branches since their common commit, and the conflicts that stop the merge.  Formatted floating-point numbers and
  hexadecimal text, and the order in which hash sets and maps are listed, are a record of parameters.
\<close>

record merge_env =
  me_hex :: "byte list \<Rightarrow> text_bytes"
  me_f32_2 :: "u32 \<Rightarrow> string"
  me_f64 :: "u64 \<Rightarrow> string"
  me_tile_order :: "nat set \<Rightarrow> nat list"
  me_key_order :: "text_bytes set \<Rightarrow> text_bytes list"

section \<open>Claims\<close>

definition SCHOLAR_AI_TRACE_LOG :: u32 where "SCHOLAR_AI_TRACE_LOG = 11"
definition SCHOLAR_RESEARCH_GRAPH :: u32 where "SCHOLAR_RESEARCH_GRAPH = 13"
definition SCHOLAR_NOTE_CLAIMS :: u32 where "SCHOLAR_NOTE_CLAIMS = 20"
definition SCHOLAR_CITATION_FINGERPRINT :: u32 where "SCHOLAR_CITATION_FINGERPRINT = 32"

record note_claim =
  nc_claim_id :: u64
  nc_timestamp_sec :: u64
  nc_session_uuid :: "u64 \<times> u64"
  nc_author_hash :: u64
  nc_confidence :: u32
  nc_kind :: u16
  nc_flags :: u16
  nc_keyword_bloom :: u32
  nc_text_hash :: u32
  nc_embedding_tile_id :: u32
  nc_embedding_offset :: u32
  nc_citation_fingerprint_id :: u64
  nc_passage_page :: u32
  nc_passage_char_offset :: u32
  nc_passage_char_length :: u32
  nc_reserved_passage :: u32
  nc_quote_sha256 :: "byte list"
  nc_producer_id :: u64
  nc_verification_statement_uuid :: "u64 \<times> u64"
  nc_reserved :: "u64 \<times> u64"

definition claim_bytes :: "note_claim \<Rightarrow> byte list" where
  "claim_bytes c =
     le64 (nc_claim_id c) @ le64 (nc_timestamp_sec c) @ le64 (fst (nc_session_uuid c)) @ le64 (snd (nc_session_uuid c)) @
     le64 (nc_author_hash c) @ le32 (nc_confidence c) @ le16 (nc_kind c) @ le16 (nc_flags c) @ le32 (nc_keyword_bloom c) @
     le32 (nc_text_hash c) @ le32 (nc_embedding_tile_id c) @ le32 (nc_embedding_offset c) @ le64 (nc_citation_fingerprint_id c) @
     le32 (nc_passage_page c) @ le32 (nc_passage_char_offset c) @ le32 (nc_passage_char_length c) @ le32 (nc_reserved_passage c) @
     nc_quote_sha256 c @ le64 (nc_producer_id c) @ le64 (fst (nc_verification_statement_uuid c)) @
     le64 (snd (nc_verification_statement_uuid c)) @ le64 (fst (nc_reserved c)) @ le64 (snd (nc_reserved c))"

definition claim_of_bytes :: "byte list \<Rightarrow> note_claim" where
  "claim_of_bytes bs =
     \<lparr> nc_claim_id = of_le (window 0 8 bs), nc_timestamp_sec = of_le (window 8 8 bs),
       nc_session_uuid = (of_le (window 16 8 bs), of_le (window 24 8 bs)), nc_author_hash = of_le (window 32 8 bs),
       nc_confidence = of_le (window 40 4 bs), nc_kind = of_le (window 44 2 bs), nc_flags = of_le (window 46 2 bs),
       nc_keyword_bloom = of_le (window 48 4 bs), nc_text_hash = of_le (window 52 4 bs),
       nc_embedding_tile_id = of_le (window 56 4 bs), nc_embedding_offset = of_le (window 60 4 bs),
       nc_citation_fingerprint_id = of_le (window 64 8 bs), nc_passage_page = of_le (window 72 4 bs),
       nc_passage_char_offset = of_le (window 76 4 bs), nc_passage_char_length = of_le (window 80 4 bs),
       nc_reserved_passage = of_le (window 84 4 bs), nc_quote_sha256 = window 88 32 bs, nc_producer_id = of_le (window 120 8 bs),
       nc_verification_statement_uuid = (of_le (window 128 8 bs), of_le (window 136 8 bs)),
       nc_reserved = (of_le (window 144 8 bs), of_le (window 152 8 bs)) \<rparr>"

interpretation claim_codec: pod_codec claim_bytes claim_of_bytes 160 "\<lambda>c. length (nc_quote_sha256 c) = 32"
  by unfold_locales (simp_all add: claim_bytes_def claim_of_bytes_def record_layout)

section \<open>Records of a tile\<close>

text \<open>\<^verbatim>\<open>str::contains\<close>.\<close>

definition text_contains :: "text_bytes \<Rightarrow> text_bytes \<Rightarrow> bool" where
  "text_contains w s \<longleftrightarrow> list_ex (\<lambda>i. starts_with w (drop i s)) [0..<length s + 1]"

definition is_human_judgment_required :: "u32 \<Rightarrow> text_bytes \<Rightarrow> bool" where
  "is_human_judgment_required tile_type type_name \<longleftrightarrow>
     tile_type = SCHOLAR_NOTE_CLAIMS \<or> tile_type = SCHOLAR_RESEARCH_GRAPH \<or> tile_type = SCHOLAR_AI_TRACE_LOG \<or>
     tile_type = SCHOLAR_CITATION_FINGERPRINT \<or> text_contains (ascii ''claim'') type_name \<or>
     text_contains (ascii ''evidence'') type_name \<or> text_contains (ascii ''citation_fingerprint'') type_name \<or>
     text_contains (ascii ''ai_trace'') type_name"

record version =
  vn_tile_type :: u32
  vn_type_name :: text_bytes
  vn_hash :: "byte list"
  vn_summary :: text_bytes

definition hex_digits :: "nat \<Rightarrow> nat \<Rightarrow> string" where
  "hex_digits n x = pad_zeros n (format_radix 16 x)"

definition claim_record_id :: "note_claim \<Rightarrow> nat \<Rightarrow> text_bytes" where
  "claim_record_id rec r =
    (let (a, b) = nc_session_uuid rec
     in ascii (if a = 0 \<and> 0 < b then ''claim_'' @ format_radix 10 (unat b)
        else if (a, b) \<noteq> (0, 0) then ''claim_'' @ hex_digits 16 (unat a) @ hex_digits 16 (unat b)
        else if 0 < nc_author_hash rec then
          ''claim_'' @ format_radix 10 (unat (nc_author_hash rec)) @ ''_'' @ format_radix 10 (unat (nc_kind rec))
        else ''claim_rec_'' @ format_radix 10 r))"

definition claim_version :: "merge_env \<Rightarrow> u32 \<Rightarrow> text_bytes \<Rightarrow> note_claim \<Rightarrow> version" where
  "claim_version me tile_type type_name rec =
     \<lparr> vn_tile_type = tile_type, vn_type_name = type_name, vn_hash = nc_quote_sha256 rec,
       vn_summary = ascii (''Claim(kind='' @ format_radix 10 (unat (nc_kind rec)) @ '', conf='' @ me_f32_2 me (nc_confidence rec) @
         '', text_hash='' @ hex_digits 8 (unat (nc_text_hash rec)) @ '')'') \<rparr>"

definition telemetry_record_id :: "telemetry_record \<Rightarrow> text_bytes" where
  "telemetry_record_id rec = ascii (''telemetry_'' @ decimal (tl_sensor_id rec) @ ''_'' @ decimal (tl_metric_id rec) @ ''_'' @
     format_radix 10 (unat (tl_timestamp rec)))"

definition telemetry_version :: "merge_env \<Rightarrow> (byte list \<Rightarrow> byte list) \<Rightarrow> u32 \<Rightarrow> text_bytes \<Rightarrow> telemetry_record \<Rightarrow> version" where
  "telemetry_version me sha tile_type type_name rec =
     \<lparr> vn_tile_type = tile_type, vn_type_name = type_name, vn_hash = sha (le64 (tl_value rec)),
       vn_summary = ascii (''Telemetry(val='' @ me_f64 me (tl_value rec) @ '')'') \<rparr>"

definition slice_version :: "merge_env \<Rightarrow> (byte list \<Rightarrow> byte list) \<Rightarrow> u32 \<Rightarrow> text_bytes \<Rightarrow> byte list \<Rightarrow> version" where
  "slice_version me sha tile_type type_name chunk =
     \<lparr> vn_tile_type = tile_type, vn_type_name = type_name, vn_hash = sha chunk,
       vn_summary = type_name @ ascii ''(hash='' @ me_hex me (take 8 (sha chunk)) @ ascii '')'' \<rparr>"

definition extract_records_from_tile ::
  "merge_env \<Rightarrow> (byte list \<Rightarrow> byte list) \<Rightarrow> hyper_tile_header \<Rightarrow> byte list \<Rightarrow> text_bytes \<Rightarrow> (text_bytes \<times> version) list" where
  "extract_records_from_tile me sha hdr payload type_name =
    (let ty = ht_tile_type hdr
     in if is_metadata_tile hdr then []
        else if ty = SCHOLAR_NOTE_CLAIMS then
          map (\<lambda>(r, rec). (claim_record_id rec r, claim_version me ty type_name rec))
            (enumerate 0 (payload_records 160 claim_of_bytes hdr payload))
        else if ty = TILE_TELEMETRY then
          map (\<lambda>rec. (telemetry_record_id rec, telemetry_version me sha ty type_name rec))
            (payload_records 32 telemetry_of_bytes hdr payload)
        else
          let rec_count = unat (ht_record_count hdr)
          in if 0 < rec_count \<and> 0 < unat (ht_payload_bytes hdr) then
               let rec_size = unat (ht_payload_bytes hdr) div rec_count
               in map (\<lambda>r. (type_name @ ascii (''_rec_'' @ format_radix 10 r),
                        slice_version me sha ty type_name (window (r * rec_size) rec_size payload)))
                    (filter (\<lambda>r. (r + 1) * rec_size \<le> length payload) [0..<rec_count])
             else [])"

section \<open>The records of a branch\<close>

definition sorted_commit_indices :: "tile option list \<Rightarrow> nat list" where
  "sorted_commit_indices tiles =
    remdups_adj (sort (concat (map (\<lambda>i. map (\<lambda>_. i) (tile_records 504 commit_of_bytes TILE_VCS_COMMIT (tiles ! i))) [0..<length tiles])))"

definition tiles_for_commit :: "tile option list \<Rightarrow> byte list \<Rightarrow> nat list" where
  "tiles_for_commit tiles commit_seal =
    (case commit_tile_indices tiles commit_seal of
       None \<Rightarrow> []
     | Some c_idx \<Rightarrow>
         let prev_idx = (case find (\<lambda>idx. idx < c_idx) (rev (sorted_commit_indices tiles)) of Some p \<Rightarrow> p | None \<Rightarrow> 0);
             start = (if prev_idx = 0 then 0 else prev_idx + 1)
         in [start..<c_idx])"

definition branch_tiles :: "tile option list \<Rightarrow> byte list \<Rightarrow> vcs_commit list \<Rightarrow> nat set" where
  "branch_tiles tiles merge_base history =
    set (concat (map (\<lambda>c. tiles_for_commit tiles (vc_seal_hash c)) (takeWhile (\<lambda>c. vc_seal_hash c \<noteq> merge_base) history)))"

definition insert_tile_records ::
  "merge_env \<Rightarrow> (byte list \<Rightarrow> byte list) \<Rightarrow> (u32 \<Rightarrow> text_bytes) \<Rightarrow> tile option \<Rightarrow> (text_bytes \<Rightarrow> version option) \<Rightarrow> text_bytes \<Rightarrow> version option" where
  "insert_tile_records me sha type_name t records =
    (case t of
       None \<Rightarrow> records
     | Some (hdr, payload) \<Rightarrow>
         fold (\<lambda>(i, v) m. m(i \<mapsto> v)) (extract_records_from_tile me sha hdr payload (type_name (ht_tile_type hdr))) records)"

definition branch_records ::
  "merge_env \<Rightarrow> (byte list \<Rightarrow> byte list) \<Rightarrow> (u32 \<Rightarrow> text_bytes) \<Rightarrow> tile option list \<Rightarrow> nat set \<Rightarrow> text_bytes \<Rightarrow> version option" where
  "branch_records me sha type_name tiles indices =
    fold (\<lambda>i. insert_tile_records me sha type_name (tiles ! i)) (me_tile_order me indices) Map.empty"

section \<open>Conflicts\<close>

definition resolved_by_human ::
  "(byte list \<Rightarrow> byte list \<Rightarrow> byte list \<Rightarrow> bool) \<Rightarrow> vcs_resolution list \<Rightarrow> text_bytes \<Rightarrow> bool" where
  "resolved_by_human ed existing_resolutions rec_id \<longleftrightarrow>
    find (\<lambda>r. conflict_record_id r = rec_id \<and> resolution_verify_signature ed r) (rev existing_resolutions) \<noteq> None"

text \<open>The name of the target side is used for both types.\<close>

definition claim_related :: "version \<Rightarrow> version \<Rightarrow> bool" where
  "claim_related tgt src \<longleftrightarrow> is_human_judgment_required (vn_tile_type tgt) (vn_type_name tgt) \<or>
     is_human_judgment_required (vn_tile_type src) (vn_type_name tgt)"

definition conflict_step ::
  "(text_bytes \<Rightarrow> bool) \<Rightarrow> (text_bytes \<Rightarrow> version option) \<Rightarrow> (text_bytes \<Rightarrow> version option) \<Rightarrow> text_bytes \<Rightarrow>
   conflict_detail list \<times> text_bytes list \<Rightarrow> conflict_detail list \<times> text_bytes list" where
  "conflict_step resolved tgt_records src_records rec_id acc =
    (let (needs_human_conflicts, non_claim_conflicts) = acc; tgt = the (tgt_records rec_id)
     in case src_records rec_id of
          None \<Rightarrow> acc
        | Some src \<Rightarrow>
            if vn_hash tgt \<noteq> vn_hash src \<and> \<not> resolved rec_id then
              (if claim_related tgt src then
                 (needs_human_conflicts @ [\<lparr> cd_record_id = rec_id, cd_tile_type = vn_tile_type tgt, cd_type_name = vn_type_name tgt,
                    cd_target_version = vn_summary tgt, cd_source_version = vn_summary src, cd_requires_human_judgment = True \<rparr>],
                  non_claim_conflicts)
               else (needs_human_conflicts, non_claim_conflicts @ [rec_id]))
            else acc)"

definition merge_conflicts ::
  "merge_env \<Rightarrow> (text_bytes \<Rightarrow> bool) \<Rightarrow> (text_bytes \<Rightarrow> version option) \<Rightarrow> (text_bytes \<Rightarrow> version option) \<Rightarrow>
   conflict_detail list \<times> text_bytes list" where
  "merge_conflicts me resolved tgt_records src_records =
    fold (conflict_step resolved tgt_records src_records) (me_key_order me (dom tgt_records)) ([], [])"

section \<open>The merge\<close>

text \<open>\<open>SealMerge\<close> is the call of \<^verbatim>\<open>commit\<close> with its message and its second parent.\<close>

datatype merge_outcome =
    Merged vcs_commit
  | NeedsHuman "conflict_detail list" text_bytes
  | SealMerge text_bytes "byte list"

definition merge_message :: "text_bytes \<Rightarrow> text_bytes \<Rightarrow> text_bytes" where
  "merge_message source_branch target_branch =
    ascii ''Merge branch '' @ [0x27] @ source_branch @ [0x27] @ ascii '' into '' @ [0x27] @ target_branch @ [0x27]"

definition evaluate_conflicts ::
  "text_bytes \<Rightarrow> text_bytes \<Rightarrow> byte list \<Rightarrow> conflict_detail list \<times> text_bytes list \<Rightarrow> (vcs_error, merge_outcome) result" where
  "evaluate_conflicts source_branch target_branch src_target conflicts =
    (let (needs_human_conflicts, non_claim_conflicts) = conflicts
     in if needs_human_conflicts \<noteq> [] then
          Ok (NeedsHuman needs_human_conflicts (ascii (''Merge blocked: '' @ format_radix 10 (length needs_human_conflicts) @
            '' epistemic/empirical record(s) in conflict require signed human judgment'')))
        else if non_claim_conflicts \<noteq> [] then
          Err (MergeConflict (ascii ''Merge conflict on non-claim records'') non_claim_conflicts False)
        else Ok (SealMerge (merge_message source_branch target_branch) src_target))"

text \<open>The records of the two branches since their common commit, target first, and the stored resolutions.\<close>

definition merge_inputs ::
  "crud_env \<Rightarrow> merge_env \<Rightarrow> vcs_commit list \<Rightarrow> vcs_commit list \<Rightarrow> byte list \<Rightarrow>
   (vcs_error, (text_bytes \<Rightarrow> version option) \<times> (text_bytes \<Rightarrow> version option) \<times> vcs_resolution list) result" where
  "merge_inputs env me tgt_log src_log disk =
    (let src_seals = set (map vc_seal_hash src_log);
         merge_base = (case find (\<lambda>c. vc_seal_hash c \<in> src_seals) tgt_log of Some c \<Rightarrow> vc_seal_hash c | None \<Rightarrow> replicate 32 0)
     in case reader_open (en_crc env) disk of
          Err e \<Rightarrow> Err (VcsIo e)
        | Ok reader \<Rightarrow>
            let tiles = reader_tiles (en_crc env) reader;
                type_name = resolve_tile_type_name (en_crc env) (en_registry env) reader;
                tgt_records = branch_records me (en_sha env) type_name tiles (branch_tiles tiles merge_base tgt_log);
                src_records = branch_records me (en_sha env) type_name tiles (branch_tiles tiles merge_base src_log)
            in (case list_resolutions (en_crc env) disk of
                  Err e \<Rightarrow> Err e
                | Ok existing_resolutions \<Rightarrow> Ok (tgt_records, src_records, existing_resolutions)))"

text \<open>The outer \<open>None\<close> is the panic of \<^verbatim>\<open>unwrap\<close> on an empty log.\<close>

definition vcs_merge ::
  "crud_env \<Rightarrow> merge_env \<Rightarrow> (byte list \<Rightarrow> byte list \<Rightarrow> byte list \<Rightarrow> bool) \<Rightarrow> u64 \<Rightarrow> text_bytes \<Rightarrow> text_bytes \<Rightarrow> signer \<Rightarrow> byte list \<Rightarrow>
   merge_outcome vcs_call option" where
  "vcs_merge env me ed now source_branch target_branch signing_key disk =
    (case get_ref (en_crc env) source_branch disk of
       Err e \<Rightarrow> Some (Err e, disk)
     | Ok None \<Rightarrow> Some (Err (RefNotFound source_branch), disk)
     | Ok (Some src_ref) \<Rightarrow>
    (case get_ref (en_crc env) target_branch disk of
       Err e \<Rightarrow> Some (Err e, disk)
     | Ok None \<Rightarrow> Some (Err (RefNotFound target_branch), disk)
     | Ok (Some tgt_ref) \<Rightarrow>
         if vr_target_seal_hash src_ref = vr_target_seal_hash tgt_ref then
           (case vcs_log (en_crc env) (me_hex me) (Some target_branch) disk of
              Err e \<Rightarrow> Some (Err e, disk)
            | Ok [] \<Rightarrow> None
            | Ok (last_commit # _) \<Rightarrow> Some (Ok (Merged last_commit), disk))
         else
    (case vcs_log (en_crc env) (me_hex me) (Some source_branch) disk of
       Err e \<Rightarrow> Some (Err e, disk)
     | Ok src_log \<Rightarrow>
         if vr_target_seal_hash tgt_ref \<in> set (map vc_seal_hash src_log) then
           (case set_branch env now target_branch (vr_target_seal_hash src_ref) signing_key disk of
              (Err e, disk') \<Rightarrow> Some (Err e, disk')
            | (Ok _, disk') \<Rightarrow> (case src_log of [] \<Rightarrow> None | last_commit # _ \<Rightarrow> Some (Ok (Merged last_commit), disk')))
         else
    (case vcs_log (en_crc env) (me_hex me) (Some target_branch) disk of
       Err e \<Rightarrow> Some (Err e, disk)
     | Ok tgt_log \<Rightarrow>
         (case merge_inputs env me tgt_log src_log disk of
            Err e \<Rightarrow> Some (Err e, disk)
          | Ok (tgt_records, src_records, existing_resolutions) \<Rightarrow>
              Some (evaluate_conflicts source_branch target_branch (vr_target_seal_hash src_ref)
                (merge_conflicts me (resolved_by_human ed existing_resolutions) tgt_records src_records), disk))))))"

text \<open>The end of \<^verbatim>\<open>merge\<close>: a clean union is committed to the target branch with the head of the source as second parent.  As
  in \<open>commit_records\<close>, \<open>sealed\<close> is the prospective seal hash and the rewriting of the file as a sealed archive is left out.\<close>

definition merge_commit ::
  "crud_env \<Rightarrow> merge_env \<Rightarrow> (byte list \<Rightarrow> byte list \<Rightarrow> byte list \<Rightarrow> bool) \<Rightarrow> u64 \<Rightarrow> byte list \<times> u8 \<Rightarrow> (vcs_error, byte list) result \<Rightarrow>
   text_bytes \<Rightarrow> text_bytes \<Rightarrow> signer \<Rightarrow> byte list \<Rightarrow> merge_outcome vcs_call option" where
  "merge_commit env me ed now gate_addr sealed source_branch target_branch signing_key disk =
    (case vcs_merge env me ed now source_branch target_branch signing_key disk of
       Some (Ok (SealMerge msg second_parent), disk') \<Rightarrow>
         Some (case commit_records env now gate_addr sealed msg target_branch signing_key (Some second_parent) disk' of
                 (Err e, disk'') \<Rightarrow> (Err e, disk'')
               | (Ok commit_record, disk'') \<Rightarrow> (Ok (Merged commit_record), disk''))
     | outcome \<Rightarrow> outcome)"

end
