(* ===== verification/Vcs_Merge_Safety.thy ===== *)
theory Vcs_Merge_Safety
  imports Vcs_Merge
begin

text \<open>
  What stops a merge: exactly the records that both branches hold with different digests and that no signed resolution names.
  Which differences the digests do not show, and which of them are no conflict at all.
\<close>

section \<open>The two lists of conflicts\<close>

definition open_conflict :: "(text_bytes \<Rightarrow> bool) \<Rightarrow> (text_bytes \<Rightarrow> version option) \<Rightarrow> (text_bytes \<Rightarrow> version option) \<Rightarrow> text_bytes \<Rightarrow> bool" where
  "open_conflict resolved tgt src i \<longleftrightarrow>
    (case (tgt i, src i) of (Some t, Some s) \<Rightarrow> vn_hash t \<noteq> vn_hash s \<and> \<not> resolved i | _ \<Rightarrow> False)"

definition claim_conflict :: "(text_bytes \<Rightarrow> bool) \<Rightarrow> (text_bytes \<Rightarrow> version option) \<Rightarrow> (text_bytes \<Rightarrow> version option) \<Rightarrow> text_bytes \<Rightarrow> bool" where
  "claim_conflict resolved tgt src i \<longleftrightarrow> open_conflict resolved tgt src i \<and> claim_related (the (tgt i)) (the (src i))"

definition finite_listing :: "(text_bytes set \<Rightarrow> text_bytes list) \<Rightarrow> bool" where
  "finite_listing key_order \<longleftrightarrow> (\<forall>S. finite S \<longrightarrow> set (key_order S) = S \<and> distinct (key_order S))"

lemma conflict_fold:
  assumes "set ks \<subseteq> dom tgt"
  shows "map cd_record_id (fst (fold (conflict_step resolved tgt src) ks acc)) = map cd_record_id (fst acc) @ filter (claim_conflict resolved tgt src) ks"
    "snd (fold (conflict_step resolved tgt src) ks acc) =
      snd acc @ filter (\<lambda>i. open_conflict resolved tgt src i \<and> \<not> claim_conflict resolved tgt src i) ks"
proof -
  have "map cd_record_id (fst (fold (conflict_step resolved tgt src) ks acc)) = map cd_record_id (fst acc) @ filter (claim_conflict resolved tgt src) ks \<and>
    snd (fold (conflict_step resolved tgt src) ks acc) =
      snd acc @ filter (\<lambda>i. open_conflict resolved tgt src i \<and> \<not> claim_conflict resolved tgt src i) ks"
    using assms
  proof (induction ks arbitrary: acc)
    case (Cons k ks)
    then obtain t where t: "tgt k = Some t" by auto
    have "map cd_record_id (fst (conflict_step resolved tgt src k acc)) = map cd_record_id (fst acc) @ filter (claim_conflict resolved tgt src) [k]"
      "snd (conflict_step resolved tgt src k acc) =
        snd acc @ filter (\<lambda>i. open_conflict resolved tgt src i \<and> \<not> claim_conflict resolved tgt src i) [k]"
      by (simp_all add: conflict_step_def open_conflict_def claim_conflict_def t split_def Let_def split: option.split)
    then show ?case using Cons by simp
  qed simp
  then show "map cd_record_id (fst (fold (conflict_step resolved tgt src) ks acc)) = map cd_record_id (fst acc) @ filter (claim_conflict resolved tgt src) ks"
    "snd (fold (conflict_step resolved tgt src) ks acc) =
      snd acc @ filter (\<lambda>i. open_conflict resolved tgt src i \<and> \<not> claim_conflict resolved tgt src i) ks" by simp_all
qed

lemma merge_conflicts_sets:
  assumes "finite_listing (me_key_order me)" "finite (dom tgt)"
  shows "set (map cd_record_id (fst (merge_conflicts me resolved tgt src))) = {i. claim_conflict resolved tgt src i}"
    "set (snd (merge_conflicts me resolved tgt src)) = {i. open_conflict resolved tgt src i \<and> \<not> claim_conflict resolved tgt src i}"
proof -
  have k: "set (me_key_order me (dom tgt)) = dom tgt" using assms by (simp add: finite_listing_def)
  have o: "i \<in> dom tgt" if "open_conflict resolved tgt src i" for i
    using that by (auto simp: open_conflict_def split: option.splits)
  then have c: "i \<in> dom tgt" if "claim_conflict resolved tgt src i" for i using that by (simp add: claim_conflict_def)
  show "set (map cd_record_id (fst (merge_conflicts me resolved tgt src))) = {i. claim_conflict resolved tgt src i}"
    using conflict_fold(1) [of "me_key_order me (dom tgt)" tgt resolved src "([], [])"] k c by (auto simp: merge_conflicts_def)
  show "set (snd (merge_conflicts me resolved tgt src)) = {i. open_conflict resolved tgt src i \<and> \<not> claim_conflict resolved tgt src i}"
    using conflict_fold(2) [of "me_key_order me (dom tgt)" tgt resolved src "([], [])"] k o by (auto simp: merge_conflicts_def)
qed

lemma no_conflicts:
  assumes "\<And>i. map_option vn_hash (tgt i) = map_option vn_hash (src i)" "finite_listing (me_key_order me)" "finite (dom tgt)"
  shows "merge_conflicts me resolved tgt src = ([], [])"
proof -
  have "\<not> open_conflict resolved tgt src i" for i
    using assms(1) [of i] by (auto simp: open_conflict_def split: option.splits)
  then have "\<not> claim_conflict resolved tgt src i" "\<not> open_conflict resolved tgt src i" for i by (simp_all add: claim_conflict_def)
  then show ?thesis using merge_conflicts_sets [OF assms(2,3), of resolved src] by (simp add: prod_eq_iff)
qed

lemma finite_fold_insert: "finite (dom m) \<Longrightarrow> finite (dom (fold (\<lambda>(i, v) m. m(i \<mapsto> v)) xs m))"
  by (induction xs arbitrary: m) auto

lemma finite_insert_tile: "finite (dom m) \<Longrightarrow> finite (dom (insert_tile_records me sha nm t m))"
  by (auto simp: insert_tile_records_def finite_fold_insert split: option.split)

lemma finite_branch_records: "finite (dom (branch_records me sha nm tiles S))"
proof -
  have "finite (dom (fold (\<lambda>i. insert_tile_records me sha nm (tiles ! i)) xs m))" if "finite (dom m)" for xs m
    using that by (induction xs arbitrary: m) (simp_all add: finite_insert_tile)
  then show ?thesis by (simp add: branch_records_def)
qed

lemma merge_inputs_finite: "merge_inputs env me tgt_log src_log disk = Ok (T, S, R) \<Longrightarrow> finite (dom T)"
  by (auto simp: merge_inputs_def Let_def finite_branch_records split: sum.splits)

section \<open>No side is picked\<close>

text \<open>C9: a merge of diverged branches decides by the stored digests and never picks one of two that differ.  A record is open when both branches hold
  it with different digests and no validly signed resolution names it (a claim's digest is that of its quotation only, and records
  without a name of their own are named by their place).  With an open claim or evidence record the merge writes nothing
  and returns exactly those records for a human; with other open records only it writes nothing and refuses, naming exactly those; with none
  it does what \<^verbatim>\<open>commit\<close> does to the target branch with the source's head as second parent (up to the sealing of the file).\<close>

theorem merge_waits_for_human:
  assumes "get_ref (en_crc env) source disk = Ok (Some s)" "get_ref (en_crc env) target disk = Ok (Some t)"
    "vr_target_seal_hash s \<noteq> vr_target_seal_hash t"
    "vcs_log (en_crc env) (me_hex me) (Some source) disk = Ok src_log" "vr_target_seal_hash t \<notin> set (map vc_seal_hash src_log)"
    "vcs_log (en_crc env) (me_hex me) (Some target) disk = Ok tgt_log"
    "merge_inputs env me tgt_log src_log disk = Ok (T, S, R)" "finite_listing (me_key_order me)"
  shows "\<exists>res disk'. merge_commit env me ed now gate_addr sealed source target key disk = Some (res, disk') \<and>
    (if {i. claim_conflict (resolved_by_human ed R) T S i} \<noteq> {} then
       \<exists>details m. res = Ok (NeedsHuman details m) \<and> disk' = disk \<and>
         set (map cd_record_id details) = {i. claim_conflict (resolved_by_human ed R) T S i}
     else if {i. open_conflict (resolved_by_human ed R) T S i} \<noteq> {} then
       \<exists>ids. res = Err (MergeConflict (ascii ''Merge conflict on non-claim records'') ids False) \<and> disk' = disk \<and>
         set ids = {i. open_conflict (resolved_by_human ed R) T S i}
     else (map_sum id Merged (fst (commit_records env now gate_addr sealed (merge_message source target) target key
         (Some (vr_target_seal_hash s)) disk)),
       snd (commit_records env now gate_addr sealed (merge_message source target) target key (Some (vr_target_seal_hash s)) disk)) = (res, disk'))"
proof -
  define C where "C = merge_conflicts me (resolved_by_human ed R) T S"
  define K where "K = commit_records env now gate_addr sealed (merge_message source target) target key (Some (vr_target_seal_hash s)) disk"
  note c = merge_conflicts_sets [OF assms(8) merge_inputs_finite [OF assms(7)], of "resolved_by_human ed R" S, folded C_def]
  have o: "open_conflict (resolved_by_human ed R) T S i" if "claim_conflict (resolved_by_human ed R) T S i" for i
    using that by (simp add: claim_conflict_def)
  have v: "vcs_merge env me ed now source target key disk = Some (evaluate_conflicts source target (vr_target_seal_hash s) C, disk)"
    by (simp only: vcs_merge_def assms(1-7) sum.case option.case if_False prod.case C_def)
  have none: "{i. claim_conflict (resolved_by_human ed R) T S i} = {}" "{i. open_conflict (resolved_by_human ed R) T S i} = set (snd C)"
    if "fst C = []" using that c o by auto
  consider (human) "fst C \<noteq> []" | (refused) "fst C = []" "snd C \<noteq> []" | (clean) "fst C = []" "snd C = []" by blast
  then show ?thesis
  proof cases
    case human
    then obtain m where m: "evaluate_conflicts source target (vr_target_seal_hash s) C = Ok (NeedsHuman (fst C) m)"
      by (simp add: evaluate_conflicts_def split_def Let_def)
    have n: "{i. claim_conflict (resolved_by_human ed R) T S i} \<noteq> {}" using human c(1) by (metis map_is_Nil_conv set_empty)
    show ?thesis unfolding merge_commit_def v m if_P [OF n] using c(1) by simp
  next
    case refused
    then have m: "evaluate_conflicts source target (vr_target_seal_hash s) C =
        Err (MergeConflict (ascii ''Merge conflict on non-claim records'') (snd C) False)"
      by (simp add: evaluate_conflicts_def split_def Let_def)
    show ?thesis unfolding merge_commit_def v m none [OF refused(1)] using refused(2) by simp
  next
    case clean
    then have m: "evaluate_conflicts source target (vr_target_seal_hash s) C = Ok (SealMerge (merge_message source target) (vr_target_seal_hash s))"
      by (simp add: evaluate_conflicts_def split_def Let_def)
    have "merge_commit env me ed now gate_addr sealed source target key disk = Some (map_sum id Merged (fst K), snd K)"
      by (simp add: merge_commit_def v m K_def [symmetric] split: prod.split sum.split)
    then show ?thesis unfolding none [OF clean(1)] clean(2) K_def by simp
  qed
qed

section \<open>What the digests do not show\<close>

context pod_codec
begin

lemma payload_records_whole:
  assumes "list_all shaped xs" "unat (ht_payload_bytes hdr) = length xs * width"
  shows "payload_records width dec hdr (pod_bytes enc xs) = xs"
proof -
  have "(c + 1) * width \<le> length xs * width" if "c < length xs" for c using that by (intro mult_le_mono1) simp
  then have "filter (\<lambda>c. (c + 1) * width \<le> length (pod_bytes enc xs)) [0..<length xs] = [0..<length xs]"
    using assms(1) by (intro filter_True) (simp add: length_pod_bytes)
  moreover have "length (pod_bytes enc xs) div width = length xs" using assms(1) width_pos by (simp add: length_pod_bytes)
  ultimately have "payload_records width dec hdr (pod_bytes enc xs) = pod_slice width dec (pod_bytes enc xs)"
    using assms(2) width_pos by (simp add: payload_records_def pod_slice_def)
  then show ?thesis using pod_slice_bytes [OF assms(1)] by simp
qed

end

lemma fold_insert_hash:
  assumes "map (\<lambda>(i, v). (i, vn_hash v)) xs = map (\<lambda>(i, v). (i, vn_hash v)) ys" "\<And>i. map_option vn_hash (m i) = map_option vn_hash (m' i)"
  shows "map_option vn_hash (fold (\<lambda>(i, v) m. m(i \<mapsto> v)) xs m i) = map_option vn_hash (fold (\<lambda>(i, v) m. m(i \<mapsto> v)) ys m' i)"
  using assms
proof (induction xs arbitrary: ys m m')
  case (Cons x xs)
  then obtain y ys' where y: "ys = y # ys'" by (cases ys) auto
  obtain k v w where kv: "x = (k, v)" "y = (k, w)" "vn_hash v = vn_hash w" using Cons.prems(1) y by (cases x; cases y) auto
  have "map (\<lambda>(i, v). (i, vn_hash v)) xs = map (\<lambda>(i, v). (i, vn_hash v)) ys'" using Cons.prems(1) y by simp
  moreover have "map_option vn_hash ((m(k \<mapsto> v)) j) = map_option vn_hash ((m'(k \<mapsto> w)) j)" for j using Cons.prems(2) kv(3) by simp
  ultimately show ?case using Cons.IH by (simp add: y kv)
qed simp

definition claims_tile :: "hyper_tile_header \<Rightarrow> note_claim list \<Rightarrow> bool" where
  "claims_tile h cs \<longleftrightarrow> ht_tile_type h = SCHOLAR_NOTE_CLAIMS \<and> unat (ht_payload_bytes h) = length cs * 160 \<and>
     list_all (\<lambda>c. length (nc_quote_sha256 c) = 32) cs"

lemma extract_claims:
  "claims_tile h cs \<Longrightarrow> extract_records_from_tile me sha h (pod_bytes claim_bytes cs) nm =
    map (\<lambda>(r, rec). (claim_record_id rec r, claim_version me SCHOLAR_NOTE_CLAIMS nm rec)) (enumerate 0 cs)"
  using claim_codec.payload_records_whole [of cs h]
  by (simp add: claims_tile_def extract_records_from_tile_def is_metadata_tile_def SCHOLAR_NOTE_CLAIMS_def TILE_MANIFEST_def
      TILE_SPECIFICATION_def TILE_VCS_COMMIT_def TILE_VCS_REF_def TILE_VCS_RESOLUTION_def Let_def)

definition same_quote :: "note_claim \<Rightarrow> note_claim \<Rightarrow> bool" where
  "same_quote c d \<longleftrightarrow> nc_session_uuid c \<noteq> (0, 0) \<and> nc_session_uuid d = nc_session_uuid c \<and> nc_quote_sha256 d = nc_quote_sha256 c"

lemma same_quote_extract:
  assumes "list_all2 same_quote cs ds"
  shows "map (\<lambda>(i, v). (i, vn_hash v)) (map (\<lambda>(r, rec). (claim_record_id rec r, claim_version me ty nm rec)) (enumerate n cs)) =
    map (\<lambda>(i, v). (i, vn_hash v)) (map (\<lambda>(r, rec). (claim_record_id rec r, claim_version me ty nm rec)) (enumerate n ds))"
  using assms
proof (induction arbitrary: n rule: list_all2_induct)
  case (Cons c cs d ds)
  obtain a b where ab: "nc_session_uuid c = (a, b)" by (rule prod.exhaust)
  with Cons(1) have "claim_record_id c n = claim_record_id d n" by (auto simp: same_quote_def claim_record_id_def word_gt_0)
  then show ?case using Cons by (simp add: claim_version_def same_quote_def)
qed simp

text \<open>C37: claims of one session that quote the same passage are never in conflict, whatever their texts, kinds and confidences are:
  the digest that is compared is that of the quote, so such a change to a claim is merged without a human.\<close>

theorem claim_change_unnoticed:
  assumes "claims_tile g cs" "claims_tile h ds" "list_all2 same_quote cs ds" "finite_listing (me_key_order me)"
  shows "merge_conflicts me resolved
    (insert_tile_records me sha nm (Some (g, pod_bytes claim_bytes cs)) Map.empty)
    (insert_tile_records me sha nm (Some (h, pod_bytes claim_bytes ds)) Map.empty) = ([], [])"
proof (rule no_conflicts)
  have t: "ht_tile_type g = ht_tile_type h" using assms(1,2) by (simp add: claims_tile_def)
  show "map_option vn_hash (insert_tile_records me sha nm (Some (g, pod_bytes claim_bytes cs)) Map.empty i) =
      map_option vn_hash (insert_tile_records me sha nm (Some (h, pod_bytes claim_bytes ds)) Map.empty i)" for i
    using same_quote_extract [OF assms(3)]
    by (simp only: insert_tile_records_def option.case prod.case extract_claims [OF assms(1)] extract_claims [OF assms(2)] t)
      (rule fold_insert_hash, simp_all)
qed (use assms(4) finite_insert_tile in simp_all)

section \<open>Conflicts that are none\<close>

text \<open>A tile with one record of a type that is neither a claim, nor telemetry, nor metadata.\<close>

definition single_record :: "hyper_tile_header \<Rightarrow> byte list \<Rightarrow> bool" where
  "single_record h bs \<longleftrightarrow> \<not> is_metadata_tile h \<and> ht_tile_type h \<noteq> SCHOLAR_NOTE_CLAIMS \<and> ht_tile_type h \<noteq> TILE_TELEMETRY \<and>
     ht_record_count h = 1 \<and> unat (ht_payload_bytes h) = length bs \<and> bs \<noteq> []"

lemma extract_single:
  assumes "single_record h bs"
  shows "extract_records_from_tile me sha h bs nm = [(nm @ ascii ''_rec_0'', slice_version me sha (ht_tile_type h) nm bs)]"
proof -
  have "format_radix 10 0 = ''0''" by code_simp
  then show ?thesis using assms by (simp add: single_record_def extract_records_from_tile_def Let_def window_all)
qed

text \<open>C38: two branches that each append one record of the same such type are in conflict unless the records are equal, however
  unrelated they are: a record is named by its position in its tile.\<close>

theorem appended_records_conflict:
  assumes "single_record g bs" "single_record h ds" "ht_tile_type g = ht_tile_type h" "sha bs \<noteq> sha ds"
    "\<not> resolved (nm (ht_tile_type g) @ ascii ''_rec_0'')" "finite_listing (me_key_order me)"
  shows "nm (ht_tile_type g) @ ascii ''_rec_0'' \<in>
    set (map cd_record_id (fst (merge_conflicts me resolved (insert_tile_records me sha nm (Some (g, bs)) Map.empty)
      (insert_tile_records me sha nm (Some (h, ds)) Map.empty)))) \<union>
    set (snd (merge_conflicts me resolved (insert_tile_records me sha nm (Some (g, bs)) Map.empty)
      (insert_tile_records me sha nm (Some (h, ds)) Map.empty)))"
proof -
  let ?i = "nm (ht_tile_type g) @ ascii ''_rec_0''"
  let ?T = "insert_tile_records me sha nm (Some (g, bs)) Map.empty" let ?S = "insert_tile_records me sha nm (Some (h, ds)) Map.empty"
  have "?T = [?i \<mapsto> slice_version me sha (ht_tile_type g) (nm (ht_tile_type g)) bs]"
    "?S = [?i \<mapsto> slice_version me sha (ht_tile_type g) (nm (ht_tile_type g)) ds]"
    using extract_single [OF assms(1)] extract_single [OF assms(2)] assms(3) by (simp_all add: insert_tile_records_def)
  then have "open_conflict resolved ?T ?S ?i" using assms(4,5) by (simp add: open_conflict_def slice_version_def)
  moreover have "finite (dom ?T)" by (rule finite_insert_tile) simp
  ultimately show ?thesis using merge_conflicts_sets [OF assms(6), of ?T resolved ?S] by blast
qed

section \<open>Resolutions\<close>

lemma resolution_new_shape:
  "signer_shape key \<Longrightarrow> (\<And>bs. length (sha bs) = 32) \<Longrightarrow> resolution_shape (resolution_new_signed sha now rid side rat key)"
  by (simp add: resolution_shape_def resolution_new_signed_def signer_shape_def VCS_RECORD_ID_MAX_def VCS_RATIONALE_MAX_def Let_def)

text \<open>A written resolution settles its record for every later merge, whoever signed it and whichever side it chose.\<close>

theorem any_key_resolves:
  assumes "archive_ok (en_crc env) disk" "disk_room env 1 disk" "signer_shape key" "\<And>bs. length (sha bs) = 32"
    "storable 64 rid" "storable 128 rat" "\<And>m. ed (sg_pubkey key) m (sg_sign key m)" "gate_open env TILE_VCS_RESOLUTION"
  shows "\<exists>disk' R. write_resolution env ed (resolution_new_signed sha now rid side rat key) disk = (Ok (), disk') \<and>
    list_resolutions (en_crc env) disk' = Ok R \<and> resolved_by_human ed R rid"
proof -
  let ?r = "resolution_new_signed sha now rid side rat key"
  have sh: "resolution_shape ?r" using assms(3,4) by (rule resolution_new_shape)
  have v: "resolution_verify_signature ed ?r" "conflict_record_id ?r = rid"
    using new_resolution_verifies [of ed key rid side now rat sha] assms(5-7) by simp_all
  have l: "length (resolution_bytes ?r) = 352" using resolution_codec.length_enc [OF sh] .
  then have "length (resolution_bytes ?r) \<le> HYPER_TILE_PAYLOAD_SIZE"
    by (simp add: HYPER_TILE_PAYLOAD_SIZE_def HYPER_TILE_SIZE_def HYPER_TILE_HEADER_SIZE_def)
  from append_tile_succeeds [OF assms(1) assms(2) [unfolded One_nat_def] assms(8) this, of 1 None]
  obtain id disk' where a: "append_tile env TILE_VCS_RESOLUTION 1 (resolution_bytes ?r) None disk = (Ok id, disk')" by metis
  then have w: "vcs_append_records env TILE_VCS_RESOLUTION 1 (resolution_bytes ?r) disk = (Ok (), disk')"
    by (simp add: vcs_append_records_def del: One_nat_def)
  show ?thesis
  proof (cases rule: vcs_append_cases [OF assms(1) assms(2) [unfolded One_nat_def] w])
    case (2 g)
    have t: "tile_records 352 resolution_of_bytes TILE_VCS_RESOLUTION (Some (g, resolution_bytes ?r)) = [?r]"
      using resolution_codec.tile_records_one [OF sh] 2(5,6) l by simp
    then have "list_resolutions (en_crc env) disk' =
        Ok (stored 352 resolution_of_bytes TILE_VCS_RESOLUTION (disk_tiles (en_crc env) disk) @ [?r])"
      by (simp only: list_resolutions_def list_records_ok [OF 2(2)] 2(4) stored_append t)
    then show ?thesis using w v by (auto simp: write_resolution_def resolved_by_human_def simp del: One_nat_def)
  qed simp
qed

section \<open>Instances\<close>

definition demo_merge :: merge_env where
  "demo_merge = \<lparr> me_hex = id, me_f32_2 = (\<lambda>_. []), me_f64 = (\<lambda>_. []), me_tile_order = sorted_list_of_set,
     me_key_order = sorted_list_of_set \<rparr>"

lemma demo_merge_order: "finite_listing (me_key_order demo_merge)"
  by (simp add: demo_merge_def finite_listing_def)

definition demo_claim :: "u8 \<Rightarrow> u32 \<Rightarrow> note_claim" where
  "demo_claim quote text_hash =
    (claim_of_bytes (replicate 160 0))\<lparr> nc_session_uuid := (0, 1), nc_quote_sha256 := replicate 32 quote, nc_text_hash := text_hash \<rparr>"

definition demo_header :: "u32 \<Rightarrow> nat \<Rightarrow> hyper_tile_header" where
  "demo_header ty n = (hyper_tile_header_new 1 1 ty)\<lparr> ht_record_count := 1, ht_payload_bytes := of_nat n \<rparr>"

lemma demo_header_simps [simp]:
  "ht_tile_type (demo_header ty n) = ty" "ht_record_count (demo_header ty n) = 1" "ht_payload_bytes (demo_header ty n) = of_nat n"
  by (simp_all add: demo_header_def hyper_tile_header_new_def)

lemma demo_claims_tile: "claims_tile (demo_header SCHOLAR_NOTE_CLAIMS 160) [demo_claim q t]"
  by (simp add: claims_tile_def demo_claim_def)

theorem claim_change_unnoticed_witness:
  "merge_conflicts demo_merge (\<lambda>_. False)
    (insert_tile_records demo_merge id (\<lambda>_. []) (Some (demo_header SCHOLAR_NOTE_CLAIMS 160, pod_bytes claim_bytes [demo_claim 1 2])) Map.empty)
    (insert_tile_records demo_merge id (\<lambda>_. []) (Some (demo_header SCHOLAR_NOTE_CLAIMS 160, pod_bytes claim_bytes [demo_claim 1 3])) Map.empty) =
   ([], []) \<and> demo_claim 1 2 \<noteq> demo_claim 1 3"
proof
  have "list_all2 same_quote [demo_claim 1 2] [demo_claim 1 3]" by (simp add: same_quote_def demo_claim_def)
  from claim_change_unnoticed [OF demo_claims_tile demo_claims_tile this demo_merge_order]
  show "merge_conflicts demo_merge (\<lambda>_. False)
    (insert_tile_records demo_merge id (\<lambda>_. []) (Some (demo_header SCHOLAR_NOTE_CLAIMS 160, pod_bytes claim_bytes [demo_claim 1 2])) Map.empty)
    (insert_tile_records demo_merge id (\<lambda>_. []) (Some (demo_header SCHOLAR_NOTE_CLAIMS 160, pod_bytes claim_bytes [demo_claim 1 3])) Map.empty) =
   ([], [])" .
  have "nc_text_hash (demo_claim 1 2) \<noteq> nc_text_hash (demo_claim 1 3)" by (simp add: demo_claim_def)
  then show "demo_claim 1 2 \<noteq> demo_claim 1 3" by metis
qed

theorem appended_records_conflict_witness:
  "ascii ''marks'' @ ascii ''_rec_0'' \<in>
    set (map cd_record_id (fst (merge_conflicts demo_merge (\<lambda>_. False) (insert_tile_records demo_merge id (\<lambda>_. ascii ''marks'') (Some (demo_header TILE_MARKS 64, replicate 64 1)) Map.empty)
      (insert_tile_records demo_merge id (\<lambda>_. ascii ''marks'') (Some (demo_header TILE_MARKS 64, replicate 64 2)) Map.empty)))) \<union>
    set (snd (merge_conflicts demo_merge (\<lambda>_. False) (insert_tile_records demo_merge id (\<lambda>_. ascii ''marks'') (Some (demo_header TILE_MARKS 64, replicate 64 1)) Map.empty)
      (insert_tile_records demo_merge id (\<lambda>_. ascii ''marks'') (Some (demo_header TILE_MARKS 64, replicate 64 2)) Map.empty)))"
proof -
  have "single_record (demo_header TILE_MARKS 64) (replicate 64 b)" for b
    by (simp add: single_record_def is_metadata_tile_def TILE_MARKS_def TILE_MANIFEST_def TILE_SPECIFICATION_def TILE_VCS_COMMIT_def
      TILE_VCS_REF_def TILE_VCS_RESOLUTION_def SCHOLAR_NOTE_CLAIMS_def TILE_TELEMETRY_def)
  from appended_records_conflict [where nm = "\<lambda>_. ascii ''marks''" and sha = id and resolved = "\<lambda>_. False", OF this this _ _ _ demo_merge_order]
  show ?thesis by (simp add: replicate_eq_replicate)
qed

theorem any_key_resolves_witness:
  "\<exists>disk' R. write_resolution demo_env (\<lambda>_ _ _. True) (resolution_new_signed (\<lambda>_. replicate 32 0) 5 [0x76] 1 [0x77] demo_signer) demo_disk =
      (Ok (), disk') \<and> list_resolutions demo_crc disk' = Ok R \<and> resolved_by_human (\<lambda>_ _ _. True) R [0x76]"
proof -
  have ok: "archive_ok (en_crc demo_env) demo_disk" "disk_room demo_env 1 demo_disk"
    using demo_ok disk_room_mono [OF demo_room, of 1] by simp_all
  from any_key_resolves [where sha = "\<lambda>_. replicate 32 0" and ed = "\<lambda>_ _ _. True", OF ok demo_signer_shape _ demo_v(1), of "[0x77]" 5 1]
  show ?thesis using demo_gate by (simp add: storable_def utf8_valid.simps)
qed

section \<open>A merge that waits\<close>

definition demo_write :: "(u32 \<times> byte list) list \<Rightarrow> byte list \<Rightarrow> byte list" where
  "demo_write xs disk = fold (\<lambda>(ty, bs) d. snd (append_tile demo_env ty 1 bs None d)) xs disk"

definition holds_tile :: "u32 \<times> byte list \<Rightarrow> tile option \<Rightarrow> bool" where
  "holds_tile = (\<lambda>(ty, bs) t. \<exists>g. t = Some (g, bs) \<and> ht_tile_type g = ty \<and> unat (ht_payload_bytes g) = length bs)"

lemma demo_write_tiles:
  assumes "list_all (\<lambda>(ty, bs). length bs \<le> HYPER_TILE_PAYLOAD_SIZE) xs" "disk_room demo_env (length xs) disk" "archive_ok demo_crc disk"
  shows "\<exists>ts. archive_ok demo_crc (demo_write xs disk) \<and> disk_tiles demo_crc (demo_write xs disk) = disk_tiles demo_crc disk @ ts \<and>
    list_all2 holds_tile xs ts"
  using assms
proof (induction xs arbitrary: disk)
  case (Cons x xs)
  obtain ty bs where x: "x = (ty, bs)" by (rule prod.exhaust)
  let ?d = "snd (append_tile demo_env ty 1 bs None disk)"
  have a: "archive_ok (en_crc demo_env) disk" "disk_room demo_env (Suc (length xs)) disk" "length bs \<le> HYPER_TILE_PAYLOAD_SIZE"
    using Cons.prems x by simp_all
  obtain g where g: "archive_ok (en_crc demo_env) ?d" "disk_room demo_env (length xs) ?d"
      "disk_tiles (en_crc demo_env) ?d = disk_tiles (en_crc demo_env) disk @ [Some (g, bs)]" "ht_tile_type g = ty"
      "ht_record_count g = of_nat 1" "unat (ht_payload_bytes g) = length bs"
    by (rule append_tile_adds [OF a(1,2) demo_gate a(3)])
  have "archive_ok demo_crc ?d" using g(1) by simp
  then obtain ts where ts: "archive_ok demo_crc (demo_write xs ?d)" "disk_tiles demo_crc (demo_write xs ?d) = disk_tiles demo_crc ?d @ ts"
      "list_all2 holds_tile xs ts" using Cons.IH [OF _ g(2)] Cons.prems(1) by auto
  have "disk_tiles demo_crc ?d = disk_tiles demo_crc disk @ [Some (g, bs)]" using g(3) by simp
  moreover have "list_all2 holds_tile (x # xs) (Some (g, bs) # ts)" using g(4,6) ts(3) by (simp add: x holds_tile_def)
  moreover have "demo_write (x # xs) disk = demo_write xs ?d" by (simp add: demo_write_def x)
  ultimately show ?case using ts(1,2) by (intro exI [of _ "Some (g, bs) # ts"]) (simp del: One_nat_def)
qed (simp add: demo_write_def)

text \<open>Two branches from nothing, each with one claim of the same session; the quotes differ.\<close>

definition demo_branch_commit :: "u8 \<Rightarrow> vcs_commit" where
  "demo_branch_commit n = demo_sealed_commit\<lparr> vc_seal_hash := replicate 32 n \<rparr>"

definition demo_branch :: "u8 \<Rightarrow> u8 \<Rightarrow> vcs_ref" where
  "demo_branch name n = new_ref demo_signer REF_KIND_BRANCH [name] (replicate 32 n) 5"

definition demo_branches :: "byte list" where
  "demo_branches = demo_write
    [(SCHOLAR_NOTE_CLAIMS, pod_bytes claim_bytes [demo_claim 1 0]), (TILE_VCS_COMMIT, commit_bytes (demo_branch_commit 1)),
     (SCHOLAR_NOTE_CLAIMS, pod_bytes claim_bytes [demo_claim 2 0]), (TILE_VCS_COMMIT, commit_bytes (demo_branch_commit 2)),
     (TILE_VCS_REF, ref_bytes (demo_branch 0x76 1)), (TILE_VCS_REF, ref_bytes (demo_branch 0x77 2))] demo_disk"

lemma demo_branch_shapes:
  "commit_shape (demo_branch_commit n)" "ref_shape (demo_branch c n)" "length (nc_quote_sha256 (demo_claim q t)) = 32"
  using demo_sealed(1) new_ref_shape [OF demo_signer_shape, of "replicate 32 n"]
  by (simp_all add: demo_branch_commit_def commit_shape_def demo_branch_def demo_claim_def)

lemma demo_branch_lengths [simp]:
  "length (commit_bytes (demo_branch_commit n)) = 504" "length (ref_bytes (demo_branch c n)) = 208"
  "length (claim_bytes (demo_claim q t)) = 160"
  using commit_codec.length_enc [OF demo_branch_shapes(1)] ref_codec.length_enc [OF demo_branch_shapes(2)]
    claim_codec.length_enc [OF demo_branch_shapes(3)] by simp_all

lemma demo_branches_tiles:
  obtains g1 g2 g3 g4 g5 g6 where "archive_ok demo_crc demo_branches"
    "disk_tiles demo_crc demo_branches =
      [Some (g1, pod_bytes claim_bytes [demo_claim 1 0]), Some (g2, commit_bytes (demo_branch_commit 1)),
       Some (g3, pod_bytes claim_bytes [demo_claim 2 0]), Some (g4, commit_bytes (demo_branch_commit 2)),
       Some (g5, ref_bytes (demo_branch 0x76 1)), Some (g6, ref_bytes (demo_branch 0x77 2))]"
    "claims_tile g1 [demo_claim 1 0]" "claims_tile g3 [demo_claim 2 0]"
    "ht_tile_type g2 = TILE_VCS_COMMIT" "unat (ht_payload_bytes g2) = 504" "ht_tile_type g4 = TILE_VCS_COMMIT" "unat (ht_payload_bytes g4) = 504"
    "ht_tile_type g5 = TILE_VCS_REF" "unat (ht_payload_bytes g5) = 208" "ht_tile_type g6 = TILE_VCS_REF" "unat (ht_payload_bytes g6) = 208"
proof -
  let ?xs = "[(SCHOLAR_NOTE_CLAIMS, pod_bytes claim_bytes [demo_claim 1 0]), (TILE_VCS_COMMIT, commit_bytes (demo_branch_commit 1)),
     (SCHOLAR_NOTE_CLAIMS, pod_bytes claim_bytes [demo_claim 2 0]), (TILE_VCS_COMMIT, commit_bytes (demo_branch_commit 2)),
     (TILE_VCS_REF, ref_bytes (demo_branch 0x76 1)), (TILE_VCS_REF, ref_bytes (demo_branch 0x77 2))]"
  have "list_all (\<lambda>(ty, bs). length bs \<le> HYPER_TILE_PAYLOAD_SIZE) ?xs"
    by (simp add: HYPER_TILE_PAYLOAD_SIZE_def HYPER_TILE_SIZE_def HYPER_TILE_HEADER_SIZE_def)
  moreover have "disk_room demo_env (length ?xs) demo_disk" using demo_room_6 by (simp add: eval_nat_numeral)
  ultimately obtain ts where "archive_ok demo_crc demo_branches" "disk_tiles demo_crc demo_branches = ts" "list_all2 holds_tile ?xs ts"
    using demo_write_tiles [OF _ _ demo_ok] demo_governed(2) unfolding demo_branches_def by auto
  then show thesis using that
    by (auto simp: list_all2_Cons1 holds_tile_def claims_tile_def demo_branch_shapes(3))
qed

lemma demo_branch_name: "ref_name (demo_branch 0x76 n) = [0x76]" "ref_name (demo_branch 0x77 n) = [0x77]"
    "vr_target_seal_hash (demo_branch c n) = replicate 32 n"
  using demo_v by (simp_all add: demo_branch_def new_ref_name_storable)

lemma demo_branch_log:
  assumes "n \<noteq> 0" "commit_map cs (replicate 32 n) = Some (demo_branch_commit n)"
  shows "log_loop cs [] (replicate 32 n) = [demo_branch_commit n]"
proof -
  have "fst (vc_parent_seal_hashes (demo_branch_commit n)) = replicate 32 0"
    by (simp add: demo_branch_commit_def demo_sealed_commit_def commit_of_bytes_def window_def demo_seal_def)
  then show ?thesis using assms by (subst log_loop.simps) (simp add: log_loop.simps replicate_eq_replicate)
qed

lemma vcs_tile_types [simp]:
  "TILE_VCS_COMMIT \<noteq> TILE_VCS_REF" "TILE_VCS_REF \<noteq> TILE_VCS_COMMIT" "TILE_VCS_COMMIT \<noteq> TILE_VCS_RESOLUTION"
  "TILE_VCS_REF \<noteq> TILE_VCS_RESOLUTION" "SCHOLAR_NOTE_CLAIMS \<noteq> TILE_VCS_COMMIT" "SCHOLAR_NOTE_CLAIMS \<noteq> TILE_VCS_REF"
  "SCHOLAR_NOTE_CLAIMS \<noteq> TILE_VCS_RESOLUTION"
  by (simp_all add: TILE_VCS_COMMIT_def TILE_VCS_REF_def TILE_VCS_RESOLUTION_def SCHOLAR_NOTE_CLAIMS_def)

lemma tile_records_skip: "ht_tile_type g \<noteq> ty \<Longrightarrow> tile_records w dec ty (Some (g, bs)) = []"
  by (simp add: tile_records_def)

lemma demo_branches_stored:
  "archive_ok demo_crc demo_branches"
  "stored 504 commit_of_bytes TILE_VCS_COMMIT (disk_tiles demo_crc demo_branches) = [demo_branch_commit 1, demo_branch_commit 2]"
  "stored 208 ref_of_bytes TILE_VCS_REF (disk_tiles demo_crc demo_branches) = [demo_branch 0x76 1, demo_branch 0x77 2]"
  "stored 352 resolution_of_bytes TILE_VCS_RESOLUTION (disk_tiles demo_crc demo_branches) = []"
  by (rule demo_branches_tiles; simp add: stored_def tile_records_skip claims_tile_def
      commit_codec.tile_records_one [OF demo_branch_shapes(1)] ref_codec.tile_records_one [OF demo_branch_shapes(2)])+

lemma demo_branches_history:
  "get_ref demo_crc [0x76] demo_branches = Ok (Some (demo_branch 0x76 1))" "get_ref demo_crc [0x77] demo_branches = Ok (Some (demo_branch 0x77 2))"
  "vcs_log demo_crc hex (Some [0x76]) demo_branches = Ok [demo_branch_commit 1]"
  "vcs_log demo_crc hex (Some [0x77]) demo_branches = Ok [demo_branch_commit 2]"
proof -
  show r: "get_ref demo_crc [0x76] demo_branches = Ok (Some (demo_branch 0x76 1))" "get_ref demo_crc [0x77] demo_branches = Ok (Some (demo_branch 0x77 2))"
    by (simp_all add: get_ref_ok [OF demo_branches_stored(1)] refs_of_def demo_branches_stored(3) demo_branch_name)
  have c: "list_commits demo_crc demo_branches = Ok [demo_branch_commit 1, demo_branch_commit 2]"
    by (simp add: list_commits_def list_records_ok [OF demo_branches_stored(1)] demo_branches_stored(2))
  have m: "commit_map [demo_branch_commit 1, demo_branch_commit 2] (replicate 32 1) = Some (demo_branch_commit 1)"
    "commit_map [demo_branch_commit 1, demo_branch_commit 2] (replicate 32 2) = Some (demo_branch_commit 2)"
    by (simp_all add: commit_map_def demo_branch_commit_def replicate_eq_replicate)
  show "vcs_log demo_crc hex (Some [0x76]) demo_branches = Ok [demo_branch_commit 1]"
    "vcs_log demo_crc hex (Some [0x77]) demo_branches = Ok [demo_branch_commit 2]"
    by (simp_all add: vcs_log_def log_start_def c r demo_branch_name demo_branch_log m)
qed

text \<open>The tiles of the two commits: the first holds the claim of the one branch, the third that of the other.\<close>

lemma demo_branch_indices:
  assumes "list_all2 (\<lambda>cs t. tile_records 504 commit_of_bytes TILE_VCS_COMMIT t = cs) [[], [demo_branch_commit 1], [], [demo_branch_commit 2], [], []] ts"
  shows "branch_tiles ts (replicate 32 0) [demo_branch_commit 1] = {0}" "branch_tiles ts (replicate 32 0) [demo_branch_commit 2] = {2}"
proof -
  obtain a b c d e f where ts: "ts = [a, b, c, d, e, f]" and r: "tile_records 504 commit_of_bytes TILE_VCS_COMMIT a = []"
    "tile_records 504 commit_of_bytes TILE_VCS_COMMIT b = [demo_branch_commit 1]" "tile_records 504 commit_of_bytes TILE_VCS_COMMIT c = []"
    "tile_records 504 commit_of_bytes TILE_VCS_COMMIT d = [demo_branch_commit 2]" "tile_records 504 commit_of_bytes TILE_VCS_COMMIT e = []"
    "tile_records 504 commit_of_bytes TILE_VCS_COMMIT f = []"
    using assms by (auto simp: list_all2_Cons1)
  have seal: "vc_seal_hash (demo_branch_commit n) = replicate 32 n" for n by (simp add: demo_branch_commit_def)
  have u: "[0..<6] = [0, 1, 2, 3, 4, 5 :: nat]" by (simp add: upt_rec)
  have i: "commit_tile_indices ts = [replicate 32 1 \<mapsto> 1, replicate 32 2 \<mapsto> 3]"
    by (simp add: commit_tile_indices_def ts u r seal numeral_3_eq_3)
  have s: "sorted_commit_indices ts = [1, 3]" by (simp add: sorted_commit_indices_def ts u r)
  show "branch_tiles ts (replicate 32 0) [demo_branch_commit 1] = {0}" "branch_tiles ts (replicate 32 0) [demo_branch_commit 2] = {2}"
    by (simp_all add: branch_tiles_def tiles_for_commit_def i s seal replicate_eq_replicate upt_rec)
qed

definition demo_claim_id :: text_bytes where
  "demo_claim_id = claim_record_id (demo_claim 1 0) 0"

lemma demo_claim_records:
  assumes "claims_tile g [demo_claim q t]"
  shows "insert_tile_records demo_merge sha nm (Some (g, pod_bytes claim_bytes [demo_claim q t])) Map.empty =
    [demo_claim_id \<mapsto> claim_version demo_merge SCHOLAR_NOTE_CLAIMS (nm SCHOLAR_NOTE_CLAIMS) (demo_claim q t)]"
proof -
  have "claim_record_id (demo_claim q t) 0 = demo_claim_id"
    by (simp add: demo_claim_id_def claim_record_id_def demo_claim_def)
  moreover have "ht_tile_type g = SCHOLAR_NOTE_CLAIMS" using assms by (simp add: claims_tile_def)
  ultimately show ?thesis
    by (simp only: insert_tile_records_def option.case prod.case extract_claims [OF assms]) simp
qed

lemma demo_merge_inputs:
  obtains T S where "merge_inputs demo_env demo_merge [demo_branch_commit 1] [demo_branch_commit 2] demo_branches = Ok (T, S, [])"
    "claim_conflict (resolved_by_human ed []) T S demo_claim_id"
proof -
  obtain g1 g2 g3 g4 g5 g6 where t: "archive_ok demo_crc demo_branches"
    "disk_tiles demo_crc demo_branches =
      [Some (g1, pod_bytes claim_bytes [demo_claim 1 0]), Some (g2, commit_bytes (demo_branch_commit 1)),
       Some (g3, pod_bytes claim_bytes [demo_claim 2 0]), Some (g4, commit_bytes (demo_branch_commit 2)),
       Some (g5, ref_bytes (demo_branch 0x76 1)), Some (g6, ref_bytes (demo_branch 0x77 2))]"
    and c: "claims_tile g1 [demo_claim 1 0]" "claims_tile g3 [demo_claim 2 0]"
    and h: "ht_tile_type g2 = TILE_VCS_COMMIT" "unat (ht_payload_bytes g2) = 504" "ht_tile_type g4 = TILE_VCS_COMMIT"
    "unat (ht_payload_bytes g4) = 504" "ht_tile_type g5 = TILE_VCS_REF" "ht_tile_type g6 = TILE_VCS_REF"
    by (rule demo_branches_tiles)
  obtain r where r: "reader_open demo_crc demo_branches = Ok r" "reader_tiles demo_crc r = disk_tiles demo_crc demo_branches"
    using t(1) by (rule archive_ok_reader)
  have "list_all2 (\<lambda>cs t. tile_records 504 commit_of_bytes TILE_VCS_COMMIT t = cs) [[], [demo_branch_commit 1], [], [demo_branch_commit 2], [], []]
      (reader_tiles demo_crc r)"
    using c h by (simp add: r(2) t(2) tile_records_skip claims_tile_def commit_codec.tile_records_one [OF demo_branch_shapes(1)])
  note b = demo_branch_indices [OF this]
  let ?nm = "resolve_tile_type_name demo_crc [] r"
  define version where "version = (\<lambda>q. claim_version demo_merge SCHOLAR_NOTE_CLAIMS (?nm SCHOLAR_NOTE_CLAIMS) (demo_claim q 0))"
  have seal: "vc_seal_hash (demo_branch_commit n) = replicate 32 n" for n by (simp add: demo_branch_commit_def)
  have "list_resolutions demo_crc demo_branches = Ok []"
    by (simp add: list_resolutions_def list_records_ok [OF t(1)] demo_branches_stored(4))
  then have "merge_inputs demo_env demo_merge [demo_branch_commit 1] [demo_branch_commit 2] demo_branches =
      Ok ([demo_claim_id \<mapsto> version 1], [demo_claim_id \<mapsto> version 2], [])"
    using r(1) b demo_claim_records [OF c(1)] demo_claim_records [OF c(2)]
    by (simp add: merge_inputs_def branch_records_def seal replicate_eq_replicate r(2) t(2) version_def demo_merge_def Let_def del: pod_bytes_simps)
  moreover have "claim_conflict (resolved_by_human ed []) [demo_claim_id \<mapsto> version 1] [demo_claim_id \<mapsto> version 2] demo_claim_id"
    by (simp add: claim_conflict_def open_conflict_def resolved_by_human_def claim_related_def is_human_judgment_required_def version_def
        claim_version_def demo_claim_def replicate_eq_replicate)
  ultimately show thesis using that by blast
qed

theorem merge_waits_for_human_witness:
  "\<exists>details m. merge_commit demo_env demo_merge (\<lambda>_ _ _. False) 5 ([], 0) (Ok []) [0x77] [0x76] demo_signer demo_branches =
      Some (Ok (NeedsHuman details m), demo_branches) \<and> demo_claim_id \<in> set (map cd_record_id details)"
proof -
  obtain T S where i: "merge_inputs demo_env demo_merge [demo_branch_commit 1] [demo_branch_commit 2] demo_branches = Ok (T, S, [])"
    and c: "claim_conflict (resolved_by_human (\<lambda>_ _ _. False) []) T S demo_claim_id" by (rule demo_merge_inputs)
  have seal: "vc_seal_hash (demo_branch_commit n) = replicate 32 n" for n by (simp add: demo_branch_commit_def)
  have n: "vr_target_seal_hash (demo_branch 0x77 2) \<noteq> vr_target_seal_hash (demo_branch 0x76 1)"
    "vr_target_seal_hash (demo_branch 0x76 1) \<notin> set (map vc_seal_hash [demo_branch_commit 2])"
    by (simp_all add: demo_branch_name seal replicate_eq_replicate)
  have k: "{i. claim_conflict (resolved_by_human (\<lambda>_ _ _. False) []) T S i} \<noteq> {}" using c by blast
  from merge_waits_for_human [where env = demo_env and me = demo_merge and ed = "\<lambda>_ _ _. False" and now = 5 and key = demo_signer
        and gate_addr = "([], 0)" and sealed = "Ok []",
      unfolded demo_env_simps, OF demo_branches_history(2,1) n(1) demo_branches_history(4) n(2) demo_branches_history(3) i demo_merge_order,
      unfolded if_P [OF k]] c
  show ?thesis by auto
qed

end
