(* ===== verification/Spec2Isabelle.thy ===== *)
theory Spec2Isabelle
  imports Prelude Files Edge_Crc Edge_Flash Edge_Header Edge_Records Edge_Timeseries Edge_Merkle Edge_Trust Edge_Writer
    Edge_Recovery Engine_Ring Core_Address Engine_Slab_Header Text_Numbers Engine_Slab Core_Coordinate Ql_Error Ql_Lexer
    Ql_Parser Ql_Statement Core_Registry Core_Archive_Header Simd_Reject Engine_Archive Engine_Reader Engine_Commit
    Engine_Durability Engine_Archive_Checks Pod_Codec Core_Schema Core_Array Core_Columnar Core_Hilbert Core_Governance
    Hash_Chain Ordered_Map Engine_Columnar Engine_Sieve Engine_Crud Engine_Crud_Store Engine_Governance Engine_Calls Engine_Consent
    Engine_Erasure Engine_Telemetry Engine_Typed Vcs_Records Vcs_Frontier
    Vcs_Repo Vcs_Refs Vcs_Diff Vcs_Merge Vcs_Merge_Safety
begin

text \<open>
  \<^bold>\<open>S3A storage: a verification development.\<close>  S3A is an append-only archive of fixed-size
  tiles, written by microcontrollers (crate \<^verbatim>\<open>s3a-edge\<close>) and by a storage engine (crates
  \<^verbatim>\<open>s3a-core\<close> and \<^verbatim>\<open>s3a-engine\<close>).  All source paths below are under \<^verbatim>\<open>src/crates\<close>.

  \<^bold>\<open>The edge archive\<close> (\<^verbatim>\<open>s3a-edge/src\<close>).  A writer stages records in memory, seals a full
  tile on flash behind a checksummed tile header, and then commits the new tile count in
  the older of two file header slots; recovery reads the slots and the chained tiles again
  at boot.

  \<^item> \<open>Edge_Crc\<close> (\<^verbatim>\<open>crc.rs\<close>): CRC-32C by its table and its append form, CRC-16.  The locale
    \<open>crc_block\<close> says of a structure with a checksum field that any damage of one aligned
    32-bit word is detected; \<open>Edge_Header\<close> and \<open>Edge_Records\<close> interpret it on every
    structure that has such a field.
  \<^item> \<open>Edge_Flash\<close> (\<^verbatim>\<open>flash.rs\<close>): the trait \<^verbatim>\<open>FlashStorage\<close> as the record \<open>flash_ops\<close>, the
    simulated \<^verbatim>\<open>RamFlash\<close> with its NOR rules and its power cut after a number of bytes, and
    the locale \<open>flash_storage\<close> of what a client may rely on, interpreted on it.
  \<^item> \<open>Edge_Header\<close>, \<open>Edge_Records\<close> (\<^verbatim>\<open>header.rs\<close>, \<^verbatim>\<open>records.rs\<close>): the structures, their byte
    layout, constructors and verification.
  \<^item> \<open>Edge_Timeseries\<close> (\<^verbatim>\<open>timeseries.rs\<close>): bit packing, widths, zig-zag deltas and the tile
    compressor with its inverse.
  \<^item> \<open>Edge_Merkle\<close>, \<open>Edge_Trust\<close> (\<^verbatim>\<open>merkle.rs\<close>, \<^verbatim>\<open>trust.rs\<close>): tree hash, inclusion proofs and
    their verifier, and the chain of seal hashes.  SHA-256 is a parameter; a theorem that
    needs it to be injective says so for the strings that are hashed, never for all strings.
  \<^item> \<open>Edge_Writer\<close>, \<open>Edge_Recovery\<close> (\<^verbatim>\<open>writer.rs\<close>): formatting, recovery, appending, sealing,
    and what a power cut at any byte of a seal leaves behind.

  \<^bold>\<open>The engine\<close> (\<^verbatim>\<open>s3a-engine/src\<close>, \<^verbatim>\<open>s3a-core/src\<close>).

  \<^item> \<open>Engine_Ring\<close> (\<^verbatim>\<open>ring_buffer.rs\<close>): the ingest ring buffer under its mutex, and the step
    relation of the producers, consumers and sleepers around it.  The locale
    \<open>bounded_queue\<close> is the contract of its operations.
  \<^item> \<open>Core_Address\<close> (\<^verbatim>\<open>s3a-core/src/schema.rs\<close>): size classes and packed tile addresses.
  \<^item> \<open>Engine_Slab_Header\<close>, \<open>Engine_Slab\<close> (\<^verbatim>\<open>slab.rs\<close>): the extent header with its bitmap, the
    descriptor pool, and the manager that hands out, frees, writes and reads slots over a
    file system that is part of the state.  The abstract store is the set of allocated
    slots; the locale \<open>slot_allocator\<close> is its contract.
  \<^item> \<open>Text_Numbers\<close>, \<open>Core_Coordinate\<close> (\<^verbatim>\<open>s3a-core/src/lib.rs\<close>): numbers as text (the standard
    library's formatting and parsing), and the coordinates \<^verbatim>\<open>L0:T4:R12\<close>.
  \<^item> \<open>Ql_Error\<close>, \<open>Ql_Lexer\<close>, \<open>Ql_Parser\<close>, \<open>Ql_Statement\<close> (\<^verbatim>\<open>ql/error.rs\<close>, \<^verbatim>\<open>ql/lexer.rs\<close>,
    \<^verbatim>\<open>ql/ast.rs\<close>, \<^verbatim>\<open>ql/parser.rs\<close>, \<^verbatim>\<open>ql/mod.rs\<close>): the query language from text to statement.
    Lexemes have a grammar of their own (\<open>lexeme\<close>).  Statements have two: the documented one of
    \<^verbatim>\<open>docs/s3a-ql-v1.md\<close> (\<open>ebnf_statement\<close>), whose every sentence is accepted, and a wider one
    (\<open>cond_tokens\<close>, \<open>stmt_tokens\<close>), which describes what the recursive-descent parser accepts.

  \<^bold>\<open>The engine's archive.\<close>  A file header of two 64-byte slots, then tiles of 128 KB.  A writer appends
  a tile, reads it back, and commits by writing a header of the next generation into the slot that is
  not active.

  \<^item> \<open>Files\<close>: open files of the operating system, with the order of writes and barriers, and
    the images that a power cut may leave of them.
  \<^item> \<open>Core_Registry\<close> (\<^verbatim>\<open>s3a-core/src/registry.rs\<close>): tile types, the gates before writing and
    reading, the built-in tables, payload migration.
  \<^item> \<open>Core_Archive_Header\<close> (\<^verbatim>\<open>s3a-core/src/lib.rs\<close>): errors, file and tile headers with their bytes.
  \<^item> \<open>Simd_Reject\<close> (\<^verbatim>\<open>s3a-simd/src/lib.rs\<close>): the tests that let a query skip a tile.
  \<^item> \<open>Engine_Archive\<close>, \<open>Engine_Reader\<close> (\<^verbatim>\<open>s3a-engine/src/lib.rs\<close>, \<^verbatim>\<open>compactor_gates.rs\<close>): \<^verbatim>\<open>TileWriter\<close>,
    \<^verbatim>\<open>recover_archive\<close> and \<^verbatim>\<open>MmapReader\<close>.
  \<^item> \<open>Engine_Commit\<close>, \<open>Engine_Durability\<close>, \<open>Engine_Archive_Checks\<close>: the invariant of the writer, what
    a power cut leaves, runs of writes, addon changes, restarts and cuts (\<open>archive_step\<close>), and what the
    reader lets through.  The abstract archive is the list of its tiles' bytes, which a step only extends.

  \<^bold>\<open>Payloads and keys\<close> (\<^verbatim>\<open>s3a-core/src\<close>).

  \<^item> \<open>Pod_Codec\<close>: slices of plain-data structures.  The locale \<open>pod_codec\<close> is the contract of the byte
    layout of one structure; the structures of the theories below interpret it.  UTF-8 is here too.
  \<^item> \<open>Core_Schema\<close> (\<^verbatim>\<open>schema.rs\<close>): the schema catalogue of an archive and its about trailer.
  \<^item> \<open>Core_Array\<close>, \<open>Core_Columnar\<close> (\<^verbatim>\<open>array.rs\<close>, \<^verbatim>\<open>columnar.rs\<close>): builders and views of dense array
    chunks and of columnar tiles with null bitmaps.
  \<^item> \<open>Core_Hilbert\<close> (\<^verbatim>\<open>hilbert.rs\<close>): Hilbert and Morton keys.  The Hilbert inverse is a loop that ends only
    when a doubled bit meets the bound: it is a \<open>partial_function\<close>, and \<open>hilbert_index_round_trip\<close> shows
    that it ends.

  \<^bold>\<open>Queries and record operations\<close> (\<^verbatim>\<open>s3a-engine/src/lib.rs\<close>).  \<^verbatim>\<open>QuerySieve\<close> answers queries from the tiles
  of an archive, and \<^verbatim>\<open>S3ACrudEngine\<close> appends records, marks, consents and erasures; every call opens
  the file anew, so the state is the bytes of the file.

  \<^item> \<open>Core_Governance\<close> (\<^verbatim>\<open>s3a-core/src/consent.rs\<close>, \<^verbatim>\<open>erasure.rs\<close>, \<^verbatim>\<open>lib.rs\<close>): consent, erasure and mark
    records, and the telemetry and learning records they govern.
  \<^item> \<open>Hash_Chain\<close>: chains of records that carry the hash of the record before them; the locales
    \<open>hash_chain\<close> and \<open>bound_chain\<close> are interpreted on consent and on erasure records.
  \<^item> \<open>Ordered_Map\<close>: the standard library's \<^verbatim>\<open>BTreeMap\<close> as a sorted association list.
  \<^item> \<open>Engine_Columnar\<close>: telemetry as columnar tiles and back.
  \<^item> \<open>Engine_Sieve\<close>, \<open>Engine_Crud\<close>: the definitions of \<^verbatim>\<open>QuerySieve\<close> and \<^verbatim>\<open>S3ACrudEngine\<close>.  The value
    \<open>None\<close> of a query is the panic of \<^verbatim>\<open>bytemuck::cast_slice\<close>.
  \<^item> \<open>Engine_Crud_Store\<close>: a create operation in terms of the writer's invariant: it appends one tile or
    changes nothing.  \<open>disk_room env k disk\<close> says that \<open>k\<close> more commits fit: no counter wraps and no
    slot checksum comes out as the reserved zero.
  \<^item> \<open>Engine_Governance\<close>: the invariant \<open>governed\<close>, the effect of every operation on the logs of consents,
    erasures and marks, and the calls that write the links of the chains themselves, \<open>crud_step\<close>.
  \<^item> \<open>Engine_Calls\<close>: the calls that write what the caller made, \<^verbatim>\<open>write_array_chunk\<close>,
    \<^verbatim>\<open>append_tile_records\<close> and the plural creations.  \<open>engine_step\<close> is any call but compaction;
    \<open>linked_step\<close> is one whose consents and erasures continue the hash chains, which the engine does not check.
  \<^item> \<open>Engine_Consent\<close>, \<open>Engine_Erasure\<close>, \<open>Engine_Telemetry\<close>: what grants, withdrawals, marks, erasures,
    creations, deletions and updates do to later decisions and answers, each with an instance that is
    run on a fresh archive.
  \<^item> \<open>Engine_Typed\<close>: every tile of a run of \<open>engine_step\<close> holds whole records, so no cast panics; and the
    panic after an append of a ragged payload.

  \<^bold>\<open>Version control of archives\<close> (\<^verbatim>\<open>s3a-vcs/src\<close>).

  \<^item> \<open>Vcs_Records\<close> (\<^verbatim>\<open>records.rs\<close>): commit, reference and resolution records with the bytes that are signed.
  \<^item> \<open>Vcs_Frontier\<close> (\<^verbatim>\<open>frontier.rs\<close>, the walk of \<^verbatim>\<open>VcsRepo::log\<close>): leaves, children and lineage in the graph of
    commits, and short hashes.
  \<^item> \<open>Vcs_Repo\<close>, \<open>Vcs_Refs\<close> (\<^verbatim>\<open>repo.rs\<close>): the records in the tiles, branches, tags, resolutions, the log, \<^verbatim>\<open>diff\<close>
    and the two records that \<^verbatim>\<open>commit\<close> appends (\<open>commit_records\<close>); runs of these calls (\<open>ref_step\<close>) on a sound
    archive, in which no commit is made under the name of the tag that is watched (\<open>commit_moves_tag\<close> is what such a commit does).
  \<^item> \<open>Vcs_Diff\<close>: what \<^verbatim>\<open>diff\<close> counts, and its panic, as the value \<open>None\<close>.
  \<^item> \<open>Vcs_Merge\<close>, \<open>Vcs_Merge_Safety\<close>: \<open>vcs_merge\<close> decides, with the outcome \<open>SealMerge\<close> for a clean union;
    \<open>merge_commit\<close> then appends that union's commit with both parents.  Shown are the differences of digests that
    stop a merge, and the differences of content that it does not see.

  \<^bold>\<open>What is shown.\<close>  Crash safety of the edge seal, recovery of the longest valid prefix together with its chain of seal hashes, soundness, completeness
  and binding of the Merkle and seal commitments, order and liveness of the ring buffer, freshness,
  release and persistence of slots with the termination of the allocation loop, round trips of
  addresses, coordinates, packed series and slot contents, that the parser accepts the documented grammar and which wider one it decides, that a tile
  written with a header that states its length and checksum (or neither) survives every later run with power cuts, unless the checksum of the slot comes out as zero, and that the Bloom filter of a tile has no false
  negatives.  Schema catalogues, array chunks, columnar tiles and space-filling keys are read back as they
  were written.  Of the record operations: the hash chains of every run of linked calls verify and bind the history; a query
  answers with the latest version of every key; a created, deleted or updated record is answered as such; the
  last mark, the last consent and the legal hold decide; an erasure is recorded once; and no cast panics.
  Of the version control: the lineage of a commit is its ancestry on every graph, the leaves cover the history,
  the log is the first-parent lineage, a short hash is resolved exactly when it is unique, and which commits verify;
  branches, other tags, resolutions and commits under other names leave a tag where it is; a difference counts the records
  between two commits; and a merge of records with different digests waits for a human, and otherwise appends
  the two records of its commit.
  Where the code does not do what its documentation says, a theorem states what it does
  (\<open>default_flash_never_seals\<close>, \<open>open_or_format_overwrites\<close>, \<open>device_seal_signature_tail_uncovered\<close>,
  \<open>compress_sensor_records_lossy\<close>, \<open>tile_header_zero_crc_gap\<close>, \<open>ram_header_block_exempt\<close>,
  \<open>null_address_is_valid\<close>, \<open>read_missing_extent_poisons\<close>, \<open>escape_json_reads_back\<close>,
  \<open>late_where_dropped\<close>, \<open>zero_crc_commit_is_lost\<close>, \<open>enable_addon_forgets_edge_profile\<close>,
  \<open>no_std_addon_table\<close>, \<open>array_parse_size_wraps\<close>, \<open>columnar_parse_can_panic\<close>, \<open>fixed_32_cut\<close>,
  \<open>withdrawal_lifts_hold\<close>, \<open>delete_ignores_hold\<close>, \<open>quarantined_tombstone_resurrects\<close>,
  \<open>unlinked_consent_breaks_chain\<close>, \<open>missing_flags_delete\<close>, \<open>ragged_telemetry_panics\<close>, \<open>commit_moves_tag\<close>,
  \<open>preamble_semicolon_optional\<close>, \<open>compose_without_where\<close>, \<open>delete_needs_all_three\<close>,
  \<open>log_stops_at_empty_slot\<close>, \<open>new_commit_verifies\<close>, \<open>long_rationale_refused\<close>, \<open>cut_name_moves_tag\<close>,
  \<open>diff_backwards_panics\<close>, \<open>claim_change_unnoticed\<close>, \<open>appended_records_conflict\<close>, \<open>any_key_resolves\<close>).

  \<^bold>\<open>Conventions.\<close>  Integers keep their width (\<open>u8\<close> to \<open>u64\<close> are words) and wrap as in a release
  build; \<^verbatim>\<open>usize\<close> is \<open>nat\<close>.  Structures are records with a serialisation that gives their
  \<^verbatim>\<open>repr(C)\<close> bytes.  A fallible function returns \<open>Ok\<close> or \<open>Err\<close> of the source's error type,
  and one that mutates returns the state it leaves also on error.  Characters are the 256
  of the type \<open>char\<close>.  Floating point is never computed: \<^verbatim>\<open>f32\<close> fields are bit patterns,
  and the number parser and the casts of the query language are parameters.

  \<^bold>\<open>Loops and bounds.\<close>  Loops are recursive functions with a measure, or structural on a
  count the code bounds; no fuel is used.  The search for an extent with room
  (\<open>alloc_loop\<close>) has no bound in the code: it is a \<open>partial_function\<close> into \<open>option\<close>, and
  \<open>allocate_slot_returns\<close> shows that it ends whenever some extent file of the class is
  missing, for at most \<open>2\<^sup>3\<^sup>2\<close> rounds.

  \<^bold>\<open>Not modelled.\<close>  The floating-point quantisation of \<^verbatim>\<open>timeseries.rs\<close>, the Ed25519 calls of
  \<^verbatim>\<open>trust.rs\<close>, \<^verbatim>\<open>flush_all\<close> and the display of \<^verbatim>\<open>slab.rs\<close>, and the query executor.
  Of the archive: orphan clean-up, locks, the manifest lookup of the reader.  Of the sieve and the
  record operations: the queries over bounding volumes and embeddings, which compute on floating point, the
  reading of array slices, and the compactor (so no run here contains a compaction), which dispatches on the record types of every domain pack and renames temporary
  files over the archive.  Of the version control: the last step of \<^verbatim>\<open>commit\<close>, which rewrites the file
  as a sealed archive after the two records are appended (its prospective hash is a parameter), sync and export.  The learning record store keeps JSON documents that external crates parse.  Sealed archives and the vault are built on signatures and encryption of external crates.
  Servers, command lines, sandboxing, network anchors, WebAssembly and Python bindings, and test vectors are
  calls of external libraries around these parts.
\<close>

end
